(* ===== verification/Prelude.thy ===== *)
theory Prelude
  imports Main "HOL-Library.Sublist"
begin

text \<open>
  The vocabulary every component theory of the development shares: Go's fixed-width
  integers, instants, strings (byte lists), the functions of package \<open>strings\<close> the
  sources call, association-list maps with Go's assignment and \<open>delete\<close>, the
  collections of rewrite rules the component proofs use, and the locale of a deterministic
  component whose operations keep an invariant.
\<close>

section \<open>Rule collections\<close>

named_theorems go_defs \<open>definitions that model small Go helpers and are unfolded freely\<close>

named_theorems inv_rules \<open>preservation lemmas: an operation keeps its component's invariant\<close>

section \<open>Names of types\<close>

text \<open>
  A Go string is its list of bytes. An instant (\<open>time.Time\<close>) is the integer number of
  nanoseconds since the zero instant, so \<open>IsZero\<close> is equality with 0, \<open>Before\<close> is
  \<open><\<close> and \<open>Add\<close> is \<open>+\<close>; a duration is an integer number of nanoseconds.
\<close>

type_synonym instant = int
type_synonym duration = int
type_synonym ('e, 'a) result = "'e + 'a"

abbreviation time_is_zero :: "instant \<Rightarrow> bool" where
  "time_is_zero t \<equiv> t = 0"

definition second :: duration where
  "second = 1000000000"

definition millisecond :: duration where
  "millisecond = 1000000"

definition hour :: duration where
  "hour = 3600 * second"

section \<open>Fixed-width integers\<close>

text \<open>
  \<open>int32\<close> and \<open>int64\<close> values are integers; every addition or subtraction of the
  source is followed by the two's complement wrap-around. A \<open>uint64\<close> is a natural
  number reduced modulo \<open>2 ^ 64\<close>, a \<open>uint32\<close> modulo \<open>2 ^ 32\<close>.
\<close>

definition i32 :: "int \<Rightarrow> int" where
  "i32 x = (x + 2147483648) mod 4294967296 - 2147483648"

definition i64 :: "int \<Rightarrow> int" where
  "i64 x = (x + 9223372036854775808) mod 18446744073709551616 - 9223372036854775808"

definition u64 :: "nat \<Rightarrow> nat" where
  "u64 n = n mod 18446744073709551616"

text \<open>Evaluation over integers, whose numerals are binary.\<close>

lemma u64_code [code]: "u64 n = nat (int n mod 18446744073709551616)"
  by (simp add: u64_def nat_mod_distrib)

definition u32 :: "nat \<Rightarrow> nat" where
  "u32 n = n mod 4294967296"

lemma u32_code [code]: "u32 n = nat (int n mod 4294967296)"
  by (simp add: u32_def nat_mod_distrib)

definition is_i32 :: "int \<Rightarrow> bool" where
  "is_i32 x \<longleftrightarrow> - 2147483648 \<le> x \<and> x < 2147483648"

definition is_i64 :: "int \<Rightarrow> bool" where
  "is_i64 x \<longleftrightarrow> - 9223372036854775808 \<le> x \<and> x < 9223372036854775808"

abbreviation max_u64 :: nat where
  "max_u64 \<equiv> 18446744073709551615"

lemma i32_id [simp]: "is_i32 x \<Longrightarrow> i32 x = x"
  by (simp add: i32_def is_i32_def)

lemma i64_id [simp]: "is_i64 x \<Longrightarrow> i64 x = x"
  by (simp add: i64_def is_i64_def)

lemma is_i32_i32 [simp]: "is_i32 (i32 x)"
  by (auto simp: i32_def is_i32_def)

lemma is_i64_i64 [simp]: "is_i64 (i64 x)"
  by (auto simp: i64_def is_i64_def)

lemma u64_id [simp]: "n \<le> max_u64 \<Longrightarrow> u64 n = n"
  by (simp add: u64_def)

lemma u32_id [simp]: "n < 4294967296 \<Longrightarrow> u32 n = n"
  by (simp add: u32_def)

lemma u32_le: "u32 n \<le> n"
  by (simp add: u32_def)

lemma u64_le [simp]: "u64 n \<le> max_u64"
  using mod_less_divisor [of 18446744073709551616 n] by (simp add: u64_def)

text \<open>Incrementing the greatest \<open>int32\<close> wraps to the least one: the sum is then below
  every limit.\<close>

lemma i32_overflow: "i32 (2147483647 + 1) = - 2147483648"
  by (simp add: i32_def)

lemma i32_succ:
  assumes "is_i32 x" and "0 \<le> i32 (x + 1)"
  shows "i32 (x + 1) = x + 1"
proof (cases "x = 2147483647")
  case True
  with assms(2) show ?thesis using i32_overflow by simp
next
  case False
  with assms(1) have "is_i32 (x + 1)" by (simp add: is_i32_def)
  then show ?thesis by (rule i32_id)
qed

section \<open>Package \<open>strings\<close>\<close>

text \<open>
  The byte sequences \<open>strings.TrimSpace\<close> removes: the ASCII white space, and the UTF-8
  encodings of U+0085, U+00A0, U+1680, U+2000 to U+200A, U+2028, U+2029, U+202F,
  U+205F and U+3000.
\<close>

definition go_spaces :: "string list" where
  "go_spaces =
     [[CHR 0x09], [CHR 0x0A], [CHR 0x0B], [CHR 0x0C], [CHR 0x0D], [CHR 0x20],
      [CHR 0xC2, CHR 0x85], [CHR 0xC2, CHR 0xA0], [CHR 0xE1, CHR 0x9A, CHR 0x80],
      [CHR 0xE2, CHR 0x80, CHR 0x80], [CHR 0xE2, CHR 0x80, CHR 0x81],
      [CHR 0xE2, CHR 0x80, CHR 0x82], [CHR 0xE2, CHR 0x80, CHR 0x83],
      [CHR 0xE2, CHR 0x80, CHR 0x84], [CHR 0xE2, CHR 0x80, CHR 0x85],
      [CHR 0xE2, CHR 0x80, CHR 0x86], [CHR 0xE2, CHR 0x80, CHR 0x87],
      [CHR 0xE2, CHR 0x80, CHR 0x88], [CHR 0xE2, CHR 0x80, CHR 0x89],
      [CHR 0xE2, CHR 0x80, CHR 0x8A], [CHR 0xE2, CHR 0x80, CHR 0xA8],
      [CHR 0xE2, CHR 0x80, CHR 0xA9], [CHR 0xE2, CHR 0x80, CHR 0xAF],
      [CHR 0xE2, CHR 0x81, CHR 0x9F], [CHR 0xE3, CHR 0x80, CHR 0x80]]"

fun starts_with :: "string \<Rightarrow> string \<Rightarrow> bool" where
  "starts_with [] s = True"
| "starts_with (p # ps) [] = False"
| "starts_with (p # ps) (c # s) = (p = c \<and> starts_with ps s)"

lemma starts_with_iff: "starts_with p s \<longleftrightarrow> take (length p) s = p"
  by (induction p s rule: starts_with.induct) auto

function trim_left_of :: "string list \<Rightarrow> string \<Rightarrow> string" where
  "trim_left_of ps s =
     (case find (\<lambda>p. p \<noteq> [] \<and> starts_with p s) ps of
        None \<Rightarrow> s
      | Some p \<Rightarrow> trim_left_of ps (drop (length p) s))"
  by pat_completeness auto
termination
proof (relation "measure (\<lambda>(ps, s). length s)", goal_cases)
  case 1
  then show ?case by simp
next
  case (2 ps s p)
  then have "p \<noteq> []" "take (length p) s = p"
    by (auto simp: find_Some_iff starts_with_iff)
  then have "0 < length p" "s \<noteq> []" by auto
  then show ?case by simp
qed

declare trim_left_of.simps [simp del]

definition trim_space :: "string \<Rightarrow> string" where
  "trim_space s = rev (trim_left_of (map rev go_spaces) (rev (trim_left_of go_spaces s)))"

definition is_blank :: "string \<Rightarrow> bool" where
  "is_blank s \<longleftrightarrow> trim_space s = []"

definition has_prefix :: "string \<Rightarrow> string \<Rightarrow> bool" where
  "has_prefix s p \<longleftrightarrow> starts_with p s"

definition contains_line_break :: "string \<Rightarrow> bool" where
  "contains_line_break s \<longleftrightarrow> CHR 0x0D \<in> set s \<or> CHR 0x0A \<in> set s"

text \<open>
  \<open>strings.ToLower\<close> as far as a comparison of the result with an ASCII literal can see
  it: ASCII capitals, and the two other letters whose lower case is an ASCII letter,
  U+0130 and U+212A. Every other letter keeps at least one non-ASCII byte.
\<close>

definition ascii_lower :: "char \<Rightarrow> char" where
  "ascii_lower c =
     (let n = of_char c :: nat in if 65 \<le> n \<and> n \<le> 90 then char_of (n + 32) else c)"

fun to_lower :: "string \<Rightarrow> string" where
  "to_lower [] = []"
| "to_lower (c # s) =
     (if starts_with [CHR 0xC4, CHR 0xB0] (c # s) then CHR ''i'' # to_lower (drop 1 s)
      else if starts_with [CHR 0xE2, CHR 0x84, CHR 0xAA] (c # s) then CHR ''k'' # to_lower (drop 2 s)
      else ascii_lower c # to_lower s)"

text \<open>\<open>strings.Contains\<close>.\<close>

fun string_contains :: "string \<Rightarrow> string \<Rightarrow> bool" where
  "string_contains [] p = starts_with p []"
| "string_contains (c # s) p = (starts_with p (c # s) \<or> string_contains s p)"

lemma trim_left_of_nil [simp]: "trim_left_of ps [] = []"
proof -
  have "find (\<lambda>p. p \<noteq> [] \<and> starts_with p []) ps = None"
    by (auto simp: find_None_iff starts_with_iff)
  then show ?thesis by (subst trim_left_of.simps) simp
qed

lemma trim_left_of_suffix: "\<exists>d. s = d @ trim_left_of ps s"
proof (induction ps s rule: trim_left_of.induct)
  case (1 ps s)
  show ?case
  proof (cases "find (\<lambda>p. p \<noteq> [] \<and> starts_with p s) ps")
    case None
    then show ?thesis by (subst trim_left_of.simps) simp
  next
    case (Some p)
    then obtain d where d: "drop (length p) s = d @ trim_left_of ps (drop (length p) s)"
      using "1.IH" by blast
    from Some have "trim_left_of ps s = trim_left_of ps (drop (length p) s)"
      by (subst trim_left_of.simps) simp
    moreover have "s = (take (length p) s @ d) @ trim_left_of ps (drop (length p) s)"
      using d by (metis append.assoc append_take_drop_id)
    ultimately show ?thesis by metis
  qed
qed

lemma length_trim_space: "length (trim_space s) \<le> length s"
proof -
  obtain d where "s = d @ trim_left_of go_spaces s"
    using trim_left_of_suffix by blast
  then have left: "length (trim_left_of go_spaces s) \<le> length s"
    by (metis le_add2 length_append)
  obtain e where "rev (trim_left_of go_spaces s) = e @
      trim_left_of (map rev go_spaces) (rev (trim_left_of go_spaces s))"
    using trim_left_of_suffix by blast
  then have "length (trim_space s) \<le> length (trim_left_of go_spaces s)"
    unfolding trim_space_def by (metis le_add2 length_append length_rev)
  with left show ?thesis by simp
qed

text \<open>Trimming leaves nothing to trim.\<close>

lemma trim_left_of_stops: "find (\<lambda>p. p \<noteq> [] \<and> starts_with p (trim_left_of ps s)) ps = None"
proof (induction ps s rule: trim_left_of.induct)
  case (1 ps s)
  show ?case
  proof (cases "find (\<lambda>p. p \<noteq> [] \<and> starts_with p s) ps")
    case None
    then show ?thesis by (subst trim_left_of.simps) simp
  next
    case (Some p)
    then have "trim_left_of ps s = trim_left_of ps (drop (length p) s)" by (subst trim_left_of.simps) simp
    then show ?thesis using "1.IH" [OF Some] by simp
  qed
qed

lemma trim_left_of_fixed: "find (\<lambda>p. p \<noteq> [] \<and> starts_with p s) ps = None \<Longrightarrow> trim_left_of ps s = s"
  by (subst trim_left_of.simps) simp

lemma starts_with_append: "starts_with p s \<Longrightarrow> starts_with p (s @ x)"
  by (induction p s rule: starts_with.induct) auto

lemma trim_space_idem [simp]: "trim_space (trim_space s) = trim_space s"
proof -
  define l where "l = trim_left_of go_spaces s"
  define r where "r = trim_left_of (map rev go_spaces) (rev l)"
  have t: "trim_space s = rev r" by (simp add: trim_space_def l_def r_def)
  obtain e where "rev l = e @ r" using trim_left_of_suffix r_def by metis
  then have l: "l = rev r @ rev e" by (metis rev_append rev_rev_ident)
  have "find (\<lambda>p. p \<noteq> [] \<and> starts_with p l) go_spaces = None" unfolding l_def by (rule trim_left_of_stops)
  then have "find (\<lambda>p. p \<noteq> [] \<and> starts_with p (rev r)) go_spaces = None"
    unfolding l find_None_iff using starts_with_append by blast
  then have 1: "trim_left_of go_spaces (rev r) = rev r" by (rule trim_left_of_fixed)
  have "trim_left_of (map rev go_spaces) r = r" unfolding r_def by (rule trim_left_of_fixed) (rule trim_left_of_stops)
  then show ?thesis using 1 unfolding t by (simp add: trim_space_def)
qed

lemma is_blank_trim_space [simp]: "is_blank (trim_space s) = is_blank s"
  by (simp add: is_blank_def)

lemma is_blank_nil [simp]: "is_blank []"
  by (simp add: is_blank_def trim_space_def)

lemma not_blank_nonempty: "\<not> is_blank s \<Longrightarrow> s \<noteq> []"
  by auto

text \<open>Decimal notation, the verb \<open>%d\<close>.\<close>

fun show_nat :: "nat \<Rightarrow> string" where
  "show_nat n =
     (if n < 10 then [char_of (48 + n)] else show_nat (n div 10) @ [char_of (48 + n mod 10)])"

declare show_nat.simps [simp del]

definition show_int :: "int \<Rightarrow> string" where
  "show_int i = (if i < 0 then CHR ''-'' # show_nat (nat (- i)) else show_nat (nat i))"

lemma show_nat_nonempty [simp]: "show_nat n \<noteq> []"
  by (subst show_nat.simps) simp

text \<open>\<open>strings.Join\<close>.\<close>

fun join_strings :: "string \<Rightarrow> string list \<Rightarrow> string" where
  "join_strings sep [] = []"
| "join_strings sep [s] = s"
| "join_strings sep (s # ss) = s @ sep @ join_strings sep ss"

section \<open>Maps with a known list of keys\<close>

text \<open>
  A Go map that the source ranges over is an association list with distinct keys: an
  assignment to a present key keeps its place, to an absent one appends. Go leaves the
  iteration order open; the results stated about a range loop do not depend on it.
\<close>

fun assoc_set :: "'k \<Rightarrow> 'v \<Rightarrow> ('k \<times> 'v) list \<Rightarrow> ('k \<times> 'v) list" where
  "assoc_set k v [] = [(k, v)]"
| "assoc_set k v ((k', v') # m) = (if k = k' then (k, v) # m else (k', v') # assoc_set k v m)"

definition assoc_del :: "'k \<Rightarrow> ('k \<times> 'v) list \<Rightarrow> ('k \<times> 'v) list" where
  "assoc_del k m = filter (\<lambda>(k', _). k' \<noteq> k) m"

definition distinct_keys :: "('k \<times> 'v) list \<Rightarrow> bool" where
  "distinct_keys m \<longleftrightarrow> distinct (map fst m)"

lemma map_of_assoc_set [simp]: "map_of (assoc_set k v m) = (map_of m)(k \<mapsto> v)"
  by (induction k v m rule: assoc_set.induct) auto

lemma map_of_assoc_del [simp]: "map_of (assoc_del k m) = (map_of m)(k := None)"
  unfolding assoc_del_def by (induction m) (auto simp: fun_eq_iff)

lemma keys_assoc_set [simp]: "fst ` set (assoc_set k v m) = insert k (fst ` set m)"
  by (induction k v m rule: assoc_set.induct) auto

lemma assoc_set_values: "(i, b) \<in> set (assoc_set k a m) \<Longrightarrow> (i = k \<and> b = a) \<or> (i, b) \<in> set m"
  by (induction k a m rule: assoc_set.induct) (auto split: if_splits)

lemma distinct_keys_nil [simp]: "distinct_keys []"
  by (simp add: distinct_keys_def)

lemma distinct_keys_assoc_set [simp]: "distinct_keys m \<Longrightarrow> distinct_keys (assoc_set k v m)"
  unfolding distinct_keys_def
proof (induction k v m rule: assoc_set.induct)
  case (2 k v k' v' m)
  then show ?case
    using keys_assoc_set [of k v m] by (auto simp: image_iff)
qed simp

lemma distinct_keys_assoc_del [simp]: "distinct_keys m \<Longrightarrow> distinct_keys (assoc_del k m)"
  unfolding distinct_keys_def assoc_del_def by (induction m) auto

lemma distinct_keys_map:
  "(\<And>k v. fst (f (k, v)) = k) \<Longrightarrow> distinct_keys m \<Longrightarrow> distinct_keys (map f m)"
proof -
  assume k: "\<And>k v. fst (f (k, v)) = k" and d: "distinct_keys m"
  have "map fst (map f m) = map fst m"
    using k by (induction m) auto
  with d show ?thesis by (metis distinct_keys_def)
qed

lemma map_of_in_set: "distinct_keys m \<Longrightarrow> (map_of m k = Some v) = ((k, v) \<in> set m)"
  by (auto simp: distinct_keys_def dest: map_of_SomeD)

section \<open>List lemmas\<close>

lemma find_Some_in: "find P xs = Some x \<Longrightarrow> x \<in> set xs \<and> P x"
  by (auto simp: find_Some_iff)

lemma find_None_all: "find P xs = None \<longleftrightarrow> (\<forall>x\<in>set xs. \<not> P x)"
  by (auto simp: find_None_iff)

lemma find_append: "find P (xs @ ys) = (case find P xs of None \<Rightarrow> find P ys | Some x \<Rightarrow> Some x)"
  by (induction xs) auto

lemma distinct_inj_on_find:
  "distinct (map f xs) \<Longrightarrow> x \<in> set xs \<Longrightarrow> find (\<lambda>y. f y = f x) xs = Some x"
  by (induction xs) (auto simp: image_iff)

fun update_first :: "('a \<Rightarrow> bool) \<Rightarrow> ('a \<Rightarrow> 'a) \<Rightarrow> 'a list \<Rightarrow> 'a list" where
  "update_first P f [] = []"
| "update_first P f (x # xs) = (if P x then f x # xs else x # update_first P f xs)"

lemma length_update_first [simp]: "length (update_first P f xs) = length xs"
  by (induction xs) auto

lemma map_update_first [simp]:
  "(\<And>x. g (f x) = g x) \<Longrightarrow> map g (update_first P f xs) = map g xs"
  by (induction xs) auto

lemma set_update_first:
  "y \<in> set (update_first P f xs) \<Longrightarrow> y \<in> set xs \<or> (\<exists>x\<in>set xs. P x \<and> y = f x)"
  by (induction xs) (auto split: if_splits)

lemma find_update_first_other:
  "(\<And>x. P x \<Longrightarrow> \<not> Q x) \<Longrightarrow> (\<And>x. Q (f x) = Q x) \<Longrightarrow> find Q (update_first P f xs) = find Q xs"
  by (induction xs) auto

lemma find_update_first_same:
  "(\<And>x. P x \<Longrightarrow> Q x) \<Longrightarrow> (\<And>x. Q (f x) = Q x) \<Longrightarrow> find Q xs = Some y \<Longrightarrow> P y \<Longrightarrow>
   find Q (update_first P f xs) = Some (f y)"
  by (induction xs) (auto split: if_splits)

lemma find_update_first:
  "(\<And>x. Q (f x) = Q x) \<Longrightarrow> find Q xs = Some y \<Longrightarrow>
   find Q (update_first P f xs) = Some y \<or> find Q (update_first P f xs) = Some (f y)"
  by (induction xs) (auto split: if_splits)

lemma update_first_none: "(\<forall>x\<in>set xs. \<not> P x) \<Longrightarrow> update_first P f xs = xs"
  by (induction xs) auto

lemma update_first_split:
  "find P xs = Some x \<Longrightarrow>
   \<exists>us vs. xs = us @ x # vs \<and> update_first P f xs = us @ f x # vs \<and> (\<forall>u\<in>set us. \<not> P u)"
proof (induction xs)
  case (Cons a xs)
  show ?case
  proof (cases "P a")
    case True
    with Cons.prems show ?thesis by (intro exI [of _ "[]"] exI [of _ xs]) auto
  next
    case False
    with Cons obtain us vs where "xs = us @ x # vs"
        "update_first P f xs = us @ f x # vs" "\<forall>u\<in>set us. \<not> P u"
      by auto
    with False show ?thesis by (intro exI [of _ "a # us"] exI [of _ vs]) auto
  qed
qed simp

section \<open>Components with an invariant\<close>

text \<open>
  A component is a step function over its operations, some of them excluded as illegal.
  Whatever one legal operation keeps, a sequence of legal operations keeps; a component theory interprets the locale on its own step
  function and reads the result for whole histories off it.
\<close>

locale component =
  fixes step :: "'s \<Rightarrow> 'op \<Rightarrow> 's"
    and invar :: "'s \<Rightarrow> bool"
    and legal :: "'op \<Rightarrow> bool"
    and start :: "'s \<Rightarrow> bool"
  assumes invar_start: "start s \<Longrightarrow> invar s"
    and invar_step: "invar s \<Longrightarrow> legal e \<Longrightarrow> invar (step s e)"
begin

lemma invar_run: "invar s \<Longrightarrow> \<forall>e\<in>set es. legal e \<Longrightarrow> invar (foldl step s es)"
  by (induction es arbitrary: s) (auto intro: invar_step)

lemma invar_history: "start s \<Longrightarrow> \<forall>e\<in>set es. legal e \<Longrightarrow> invar (foldl step s es)"
  by (rule invar_run) (rule invar_start)

lemma monotone_run:
  assumes trans: "\<And>a b c. R a b \<Longrightarrow> R b c \<Longrightarrow> R a c" and refl: "\<And>a. R a a"
    and one: "\<And>s e. invar s \<Longrightarrow> legal e \<Longrightarrow> R s (step s e)"
  shows "invar s \<Longrightarrow> \<forall>e\<in>set es. legal e \<Longrightarrow> R s (foldl step s es)"
proof (induction es arbitrary: s)
  case Nil
  show ?case by (simp add: refl)
next
  case (Cons e es)
  from Cons.prems have "R s (step s e)" by (simp add: one)
  moreover from Cons.prems have "R (step s e) (foldl step (step s e) es)"
    by (intro Cons.IH invar_step) auto
  ultimately show ?case using trans by auto
qed

end

end
