(* ===== verification/Breadth_First.thy ===== *)
theory Breadth_First
  imports Prelude
begin

text \<open>
  Breadth-first search as the sources write it twice (\<open>Store.ListDescendants\<close> and
  \<open>TaskGraph.GetDescendants\<close>): a queue, a set of seen nodes, an accumulator. The runs of
  the loop are an inductive relation over an arbitrary successor function; its results are
  characterised once, and both loops are shown to produce such runs.
\<close>

fun fresh :: "'a list \<Rightarrow> 'a list \<Rightarrow> 'a list" where
  "fresh seen [] = []"
| "fresh seen (x # xs) = (if x \<in> set seen then fresh seen xs else x # fresh (x # seen) xs)"

lemma set_fresh [simp]: "set (fresh seen xs) = set xs - set seen"
  by (induction seen xs rule: fresh.induct) auto

lemma distinct_fresh [simp]: "distinct (fresh seen xs)"
  by (induction seen xs rule: fresh.induct) auto

inductive bfs_run :: "('a \<Rightarrow> 'a list) \<Rightarrow> 'a list \<Rightarrow> 'a list \<Rightarrow> 'a list \<Rightarrow> 'a list \<Rightarrow> bool"
  for kids :: "'a \<Rightarrow> 'a list" where
  bfs_done: "bfs_run kids [] seen acc acc"
| bfs_visit: "bfs_run kids (queue @ fresh seen (kids x)) (fresh seen (kids x) @ seen)
                (acc @ fresh seen (kids x)) res
              \<Longrightarrow> bfs_run kids (x # queue) seen acc res"

inductive_cases bfs_run_NilE: "bfs_run kids [] seen acc res"
inductive_cases bfs_run_ConsE: "bfs_run kids (x # queue) seen acc res"

definition succ_rel :: "('a \<Rightarrow> 'a list) \<Rightarrow> ('a \<times> 'a) set" where
  "succ_rel kids = {(x, y). y \<in> set (kids x)}"

definition bfs_inv :: "('a \<Rightarrow> 'a list) \<Rightarrow> 'a \<Rightarrow> 'a list \<Rightarrow> 'a list \<Rightarrow> 'a list \<Rightarrow> bool" where
  "bfs_inv kids r queue seen acc \<longleftrightarrow>
     set queue \<subseteq> set seen \<and> set seen = insert r (set acc) \<and> distinct acc \<and> r \<notin> set acc \<and>
     (\<forall>x\<in>set seen - set queue. set (kids x) \<subseteq> set seen) \<and>
     (\<forall>x\<in>set acc. (r, x) \<in> (succ_rel kids)\<^sup>+)"

lemma bfs_inv_start: "bfs_inv kids r [r] [r] []"
  by (simp add: bfs_inv_def)

lemma bfs_inv_visit:
  assumes "bfs_inv kids r (x # queue) seen acc"
  shows "bfs_inv kids r (queue @ fresh seen (kids x)) (fresh seen (kids x) @ seen)
           (acc @ fresh seen (kids x))"
proof -
  have x: "x = r \<or> (r, x) \<in> (succ_rel kids)\<^sup>+"
    using assms by (auto simp: bfs_inv_def)
  have reach: "(r, y) \<in> (succ_rel kids)\<^sup>+" if "y \<in> set (kids x)" for y
  proof -
    from that have "(x, y) \<in> succ_rel kids" by (simp add: succ_rel_def)
    with x show ?thesis by (auto intro: trancl_into_trancl)
  qed
  have closed: "set (kids y) \<subseteq> set (fresh seen (kids x) @ seen)"
    if "y \<in> set (fresh seen (kids x) @ seen) - set (queue @ fresh seen (kids x))" for y
  proof -
    from that have "y \<in> set seen" "y \<notin> set queue" by auto
    moreover have "\<forall>z\<in>set seen - set (x # queue). set (kids z) \<subseteq> set seen"
      using assms unfolding bfs_inv_def by blast
    ultimately have "y = x \<or> set (kids y) \<subseteq> set seen" by auto
    then show ?thesis by auto
  qed
  show ?thesis
    unfolding bfs_inv_def
  proof (intro conjI ballI)
    show "distinct (acc @ fresh seen (kids x))" "r \<notin> set (acc @ fresh seen (kids x))"
      "set (queue @ fresh seen (kids x)) \<subseteq> set (fresh seen (kids x) @ seen)"
      "set (fresh seen (kids x) @ seen) = insert r (set (acc @ fresh seen (kids x)))"
      using assms by (auto simp: bfs_inv_def)
    show "(r, y) \<in> (succ_rel kids)\<^sup>+" if "y \<in> set (acc @ fresh seen (kids x))" for y
      using that assms reach by (auto simp: bfs_inv_def)
  qed (rule closed)
qed

lemma bfs_closed:
  assumes closed: "\<forall>x\<in>set seen. set (kids x) \<subseteq> set seen" and r: "r \<in> set seen"
    and path: "(r, y) \<in> (succ_rel kids)\<^sup>+"
  shows "y \<in> set seen"
  using path
proof (induction rule: trancl_induct)
  case (base y)
  then show ?case using closed r by (auto simp: succ_rel_def)
next
  case (step y z)
  then show ?case using closed by (auto simp: succ_rel_def)
qed

lemma bfs_run_sound:
  "bfs_run kids queue seen acc res \<Longrightarrow> bfs_inv kids r queue seen acc \<Longrightarrow>
   distinct res \<and> set res = {y. (r, y) \<in> (succ_rel kids)\<^sup>+} - {r}"
proof (induction rule: bfs_run.induct)
  case (bfs_done seen acc)
  then have cl: "\<forall>x\<in>set seen. set (kids x) \<subseteq> set seen" and seen: "set seen = insert r (set acc)"
    by (auto simp: bfs_inv_def)
  have "y \<in> set seen" if "(r, y) \<in> (succ_rel kids)\<^sup>+" for y
    using bfs_closed [OF cl _ that] seen by simp
  with bfs_done show ?case by (auto simp: bfs_inv_def)
next
  case (bfs_visit queue seen x acc res)
  then show ?case by (blast intro: bfs_inv_visit)
qed

text \<open>A run from a root returns every node reachable in one or more steps, once, except the
  root.\<close>

lemma bfs_run_reachable:
  assumes "bfs_run kids [r] [r] [] res"
  shows "distinct res \<and> set res = {y. (r, y) \<in> (succ_rel kids)\<^sup>+} - {r}"
  using assms bfs_inv_start by (rule bfs_run_sound)

end
