(* ===== verification/Work_Store.thy ===== *)
theory Work_Store
  imports Breadth_First "HOL-Library.Product_Lexorder"
begin

text \<open>
  The durable work store, \<open>backend/manager/store/a2a_work.go\<close>: the rows of the tables
  \<open>a2a888_work_context\<close>, \<open>a2a888_work\<close>, \<open>a2a888_work_artifact\<close> and
  \<open>a2a888_work_event\<close>, and one definition per method of \<open>Store\<close>. A table is the list
  of its rows in insertion order; the SQL statements are written out on it, with the
  primary keys, unique indexes, CHECK constraints and foreign keys of the schema
  (\<open>migration/LATEST.sql\<close>), in PostgreSQL's order: CHECK, then unique, then foreign key.
  A query that fails for a reason outside the tables (the connection, a foreign key into
  a table that is not modelled) is a query the field \<open>wdb_fault\<close> names; its error is
  \<open>ErrDatabase\<close>. The argument \<open>now\<close> is what \<open>now()\<close> returns.

  Shown here: the table invariant (unique keys, legal states, every parent inserted before
  its child) and that every writing operation keeps it; what it gives, the absence of
  cycles in the parent relation; optimistic concurrency of state updates.
\<close>

section \<open>Rows\<close>

record work_context =
  wc_TenantID :: string
  wc_ContextID :: string
  wc_RootWorkID :: "string option"
  wc_CreatedAt :: instant
  wc_UpdatedAt :: instant
  wc_Version :: nat

record work_message =
  wm_TenantID :: string
  wm_WorkID :: string
  wm_A2ATaskID :: string
  wm_ContextID :: string
  wm_RequesterAgentID :: string
  wm_ExecutorAgentID :: string
  wm_SourceConversationID :: "string option"
  wm_SourceTaskID :: "string option"
  wm_State :: string
  wm_TerminalReason :: string
  wm_IdempotencyKey :: string
  wm_TraceID :: string
  wm_RootTraceID :: string
  wm_SpanID :: string
  wm_ParentSpanID :: string
  wm_ParentWorkID :: "string option"
  wm_ParentEdgeType :: string
  wm_DelegationDepth :: int
  wm_RetryCount :: int
  wm_MaxDepth :: int
  wm_MaxChildren :: int
  wm_MaxFanOut :: int
  wm_MaxConcurrency :: int
  wm_MaxRuntimeMs :: int
  wm_MaxRetries :: int
  wm_MaxTokens :: int
  wm_MaxWorkUnits :: int
  wm_UsedChildren :: int
  wm_UsedFanOut :: int
  wm_UsedRuntimeMs :: int
  wm_UsedTokens :: int
  wm_UsedWorkUnits :: int
  wm_CreatedAt :: instant
  wm_UpdatedAt :: instant
  wm_StartedAt :: "instant option"
  wm_CompletedAt :: "instant option"
  wm_Version :: nat

record work_artifact =
  wa_TenantID :: string
  wa_WorkID :: string
  wa_ArtifactID :: string
  wa_Name :: string
  wa_Description :: string
  wa_MediaType :: string
  wa_ExternalURI :: string
  wa_FileID :: "string option"
  wa_Digest :: string
  wa_SizeBytes :: int
  wa_CreatedAt :: instant
  wa_UpdatedAt :: instant

record work_event =
  we_TenantID :: string
  we_EventID :: string
  we_WorkID :: string
  we_Sequence :: nat
  we_TraceID :: string
  we_RootTraceID :: string
  we_SpanID :: string
  we_ParentSpanID :: string
  we_EventType :: string
  we_ProviderID :: string
  we_SessionID :: string
  we_PolicyDecision :: string
  we_RetryCount :: int
  we_TerminalReason :: string
  we_Metadata :: "(string \<times> string) list"
  we_CreatedAt :: instant

record list_work_filter =
  lf_TenantID :: string
  lf_ContextID :: string
  lf_RequesterAgentID :: string
  lf_ExecutorAgentID :: string
  lf_State :: string
  lf_Limit :: int
  lf_Offset :: int

section \<open>Errors, queries, the database\<close>

datatype store_error =
    ErrWorkNotFound
  | ErrWorkContextNotFound
  | ErrWorkAlreadyExists
  | ErrWorkVersionMismatch
  | ErrOrganizationNotFound
  | ErrOrganizationInactive
  | ErrArgumentRequired
  | ErrParentChainCycle
  | ErrDatabase

datatype work_query =
    QOrganizationState string
  | QInsertContext string string
  | QGetContext string string
  | QInsertWork string string
  | QGetWork string string
  | QGetWorkByTask string string
  | QGetWorkByKey string string string
  | QUpdateState string string nat
  | QListWork
  | QListPending
  | QInsertArtifact string string string
  | QListArtifacts string string
  | QInsertEvent string string
  | QListEvents string string
  | QLatestSequence string string
  | QListChildren string string
  | QCountChildren string string
  | QCountActiveChildren string string
  | QUpdateUsage string string

record work_db =
  wdb_orgs :: "string \<Rightarrow> string option"
  wdb_contexts :: "work_context list"
  wdb_works :: "work_message list"
  wdb_artifacts :: "work_artifact list"
  wdb_events :: "work_event list"
  wdb_fault :: "work_query \<Rightarrow> bool"
  wdb_collate :: "string \<Rightarrow> nat"

definition tenant_or_default :: "string \<Rightarrow> string" where
  "tenant_or_default t = (if t = [] then ''default'' else t)"

lemma tenant_or_default_idem [simp]: "tenant_or_default (tenant_or_default t) = tenant_or_default t"
  by (simp add: tenant_or_default_def)

lemma tenant_or_default_nonempty [simp]: "tenant_or_default t \<noteq> []"
  by (simp add: tenant_or_default_def)

section \<open>The schema\<close>

definition work_states :: "string list" where
  "work_states = [''AUTH_REQUIRED'', ''SUBMITTED'', ''WORKING'', ''INPUT_REQUIRED'',
                  ''COMPLETED'', ''FAILED'', ''CANCELED'', ''REJECTED'']"

definition terminal_states :: "string list" where
  "terminal_states = [''COMPLETED'', ''FAILED'', ''CANCELED'', ''REJECTED'']"

definition active_states :: "string list" where
  "active_states = [''SUBMITTED'', ''WORKING'', ''INPUT_REQUIRED'', ''AUTH_REQUIRED'']"

definition work_nonnegative :: "work_message \<Rightarrow> bool" where
  "work_nonnegative w \<longleftrightarrow>
     0 \<le> wm_DelegationDepth w \<and> 0 \<le> wm_RetryCount w \<and> 0 \<le> wm_MaxDepth w \<and>
     0 \<le> wm_MaxChildren w \<and> 0 \<le> wm_MaxFanOut w \<and> 0 \<le> wm_MaxConcurrency w \<and>
     0 \<le> wm_MaxRuntimeMs w \<and> 0 \<le> wm_MaxRetries w \<and> 0 \<le> wm_MaxTokens w \<and>
     0 \<le> wm_MaxWorkUnits w \<and> 0 \<le> wm_UsedChildren w \<and> 0 \<le> wm_UsedFanOut w \<and>
     0 \<le> wm_UsedRuntimeMs w \<and> 0 \<le> wm_UsedTokens w \<and> 0 \<le> wm_UsedWorkUnits w"

definition work_check :: "work_message \<Rightarrow> bool" where
  "work_check w \<longleftrightarrow>
     wm_TenantID w \<noteq> [] \<and> wm_WorkID w \<noteq> [] \<and> wm_A2ATaskID w \<noteq> [] \<and>
     wm_ContextID w \<noteq> [] \<and> wm_RequesterAgentID w \<noteq> [] \<and> wm_ExecutorAgentID w \<noteq> [] \<and>
     wm_IdempotencyKey w \<noteq> [] \<and> wm_State w \<in> set work_states \<and>
     wm_ParentWorkID w \<noteq> Some (wm_WorkID w) \<and> work_nonnegative w"

definition work_key :: "work_message \<Rightarrow> string \<times> string" where
  "work_key w = (wm_TenantID w, wm_WorkID w)"

definition work_task_key :: "work_message \<Rightarrow> string \<times> string" where
  "work_task_key w = (wm_TenantID w, wm_A2ATaskID w)"

definition work_idempotency_key :: "work_message \<Rightarrow> string \<times> string \<times> string" where
  "work_idempotency_key w = (wm_TenantID w, wm_RequesterAgentID w, wm_IdempotencyKey w)"

definition work_unique :: "work_message \<Rightarrow> work_message list \<Rightarrow> bool" where
  "work_unique w ws \<longleftrightarrow>
     (\<forall>v\<in>set ws. work_key v \<noteq> work_key w \<and> work_task_key v \<noteq> work_task_key w \<and>
                   work_idempotency_key v \<noteq> work_idempotency_key w)"

definition context_exists :: "work_db \<Rightarrow> string \<Rightarrow> string \<Rightarrow> bool" where
  "context_exists db t c \<longleftrightarrow> (\<exists>x\<in>set (wdb_contexts db). wc_TenantID x = t \<and> wc_ContextID x = c)"

definition parent_row_exists :: "work_message \<Rightarrow> work_message list \<Rightarrow> bool" where
  "parent_row_exists w ws \<longleftrightarrow>
     (case wm_ParentWorkID w of None \<Rightarrow> True | Some p \<Rightarrow> \<exists>v\<in>set ws. work_key v = (wm_TenantID w, p))"

definition work_foreign_keys :: "work_db \<Rightarrow> work_message \<Rightarrow> bool" where
  "work_foreign_keys db w \<longleftrightarrow>
     context_exists db (wm_TenantID w) (wm_ContextID w) \<and> parent_row_exists w (wdb_works db)"

section \<open>Operations\<close>

definition organizationStateAllowsWrites :: "string \<Rightarrow> bool" where
  "organizationStateAllowsWrites state \<longleftrightarrow> state = ''ACTIVE''"

definition RequireOrganizationActive :: "work_db \<Rightarrow> string \<Rightarrow> store_error + unit" where
  "RequireOrganizationActive db org =
     (if org = [] then Inl ErrOrganizationNotFound
      else if wdb_fault db (QOrganizationState org) then Inl ErrDatabase
      else case wdb_orgs db org of
             None \<Rightarrow> Inl ErrOrganizationNotFound
           | Some state \<Rightarrow>
               if organizationStateAllowsWrites state then Inr () else Inl ErrOrganizationInactive)"

definition EnsureWorkContext ::
  "work_db \<Rightarrow> instant \<Rightarrow> string \<Rightarrow> string \<Rightarrow> string \<Rightarrow> (store_error + work_context) \<times> work_db" where
  "EnsureWorkContext db now tenantID contextID rootWorkID =
     (let t = tenant_or_default tenantID;
          root = (if rootWorkID = [] then None else Some rootWorkID);
          at_key = (\<lambda>x. wc_TenantID x = t \<and> wc_ContextID x = contextID) in
      if contextID = [] then (Inl ErrArgumentRequired, db)
      else case RequireOrganizationActive db t of
        Inl e \<Rightarrow> (Inl e, db)
      | Inr _ \<Rightarrow>
          if wdb_fault db (QInsertContext t contextID) then (Inl ErrDatabase, db)
          else case find at_key (wdb_contexts db) of
            Some x \<Rightarrow>
              (Inr (x\<lparr>wc_UpdatedAt := now\<rparr>),
               db\<lparr>wdb_contexts := update_first at_key (\<lambda>y. y\<lparr>wc_UpdatedAt := now\<rparr>) (wdb_contexts db)\<rparr>)
          | None \<Rightarrow>
              if root \<noteq> None \<and> (\<exists>x\<in>set (wdb_contexts db). wc_TenantID x = t \<and> wc_RootWorkID x = root)
              then (Inl ErrDatabase, db)
              else let x = \<lparr>wc_TenantID = t, wc_ContextID = contextID, wc_RootWorkID = root,
                            wc_CreatedAt = now, wc_UpdatedAt = now, wc_Version = 1\<rparr>
                   in (Inr x, db\<lparr>wdb_contexts := wdb_contexts db @ [x]\<rparr>))"

definition GetWorkContext :: "work_db \<Rightarrow> string \<Rightarrow> string \<Rightarrow> store_error + work_context" where
  "GetWorkContext db tenantID contextID =
     (let t = tenant_or_default tenantID in
      if wdb_fault db (QGetContext t contextID) then Inl ErrDatabase
      else case find (\<lambda>x. wc_TenantID x = t \<and> wc_ContextID x = contextID) (wdb_contexts db) of
             None \<Rightarrow> Inl ErrWorkContextNotFound
           | Some x \<Rightarrow> Inr x)"

text \<open>\<open>CreateWork\<close> writes its defaults into the caller's struct before the insert.\<close>

definition work_defaults :: "work_message \<Rightarrow> work_message" where
  "work_defaults w =
     w\<lparr>wm_TenantID := tenant_or_default (wm_TenantID w),
       wm_State := (if wm_State w = [] then ''SUBMITTED'' else wm_State w),
       wm_ParentEdgeType := (if wm_ParentEdgeType w = [] then ''delegated'' else wm_ParentEdgeType w)\<rparr>"

definition CreateWork :: "work_db \<Rightarrow> instant \<Rightarrow> work_message \<Rightarrow> (store_error + unit) \<times> work_db" where
  "CreateWork db now work =
     (let w = work_defaults work in
      case RequireOrganizationActive db (wm_TenantID w) of
        Inl e \<Rightarrow> (Inl e, db)
      | Inr _ \<Rightarrow>
          if wdb_fault db (QInsertWork (wm_TenantID w) (wm_WorkID w)) then (Inl ErrDatabase, db)
          else if \<not> work_check w then (Inl ErrDatabase, db)
          else if \<not> work_unique w (wdb_works db) then (Inl ErrWorkAlreadyExists, db)
          else if \<not> work_foreign_keys db w then (Inl ErrDatabase, db)
          else (Inr (), db\<lparr>wdb_works := wdb_works db @
                  [w\<lparr>wm_CreatedAt := now, wm_UpdatedAt := now, wm_Version := 1\<rparr>]\<rparr>))"

definition work_row :: "work_db \<Rightarrow> string \<Rightarrow> string \<Rightarrow> work_message option" where
  "work_row db t i = find (\<lambda>w. work_key w = (t, i)) (wdb_works db)"

definition GetWork :: "work_db \<Rightarrow> string \<Rightarrow> string \<Rightarrow> store_error + work_message" where
  "GetWork db tenantID workID =
     (let t = tenant_or_default tenantID in
      if wdb_fault db (QGetWork t workID) then Inl ErrDatabase
      else case work_row db t workID of None \<Rightarrow> Inl ErrWorkNotFound | Some w \<Rightarrow> Inr w)"

definition GetWorkByA2ATaskID :: "work_db \<Rightarrow> string \<Rightarrow> string \<Rightarrow> store_error + work_message" where
  "GetWorkByA2ATaskID db tenantID taskID =
     (let t = tenant_or_default tenantID in
      if wdb_fault db (QGetWorkByTask t taskID) then Inl ErrDatabase
      else case find (\<lambda>w. work_task_key w = (t, taskID)) (wdb_works db) of
             None \<Rightarrow> Inl ErrWorkNotFound | Some w \<Rightarrow> Inr w)"

definition GetWorkByIdempotencyKey ::
  "work_db \<Rightarrow> string \<Rightarrow> string \<Rightarrow> string \<Rightarrow> store_error + work_message" where
  "GetWorkByIdempotencyKey db tenantID requester key =
     (let t = tenant_or_default tenantID in
      if wdb_fault db (QGetWorkByKey t requester key) then Inl ErrDatabase
      else case find (\<lambda>w. work_idempotency_key w = (t, requester, key)) (wdb_works db) of
             None \<Rightarrow> Inl ErrWorkNotFound | Some w \<Rightarrow> Inr w)"

definition set_work_state :: "instant \<Rightarrow> string \<Rightarrow> string \<Rightarrow> work_message \<Rightarrow> work_message" where
  "set_work_state now state reason w =
     w\<lparr>wm_State := state,
       wm_TerminalReason := reason,
       wm_CompletedAt := (if state \<in> set terminal_states \<and> wm_CompletedAt w = None
                          then Some now else wm_CompletedAt w),
       wm_StartedAt := (if state = ''WORKING'' \<and> wm_StartedAt w = None
                        then Some now else wm_StartedAt w),
       wm_UpdatedAt := now,
       wm_Version := wm_Version w + 1\<rparr>"

definition UpdateWorkState ::
  "work_db \<Rightarrow> instant \<Rightarrow> string \<Rightarrow> string \<Rightarrow> nat \<Rightarrow> string \<Rightarrow> string
     \<Rightarrow> (store_error + nat) \<times> work_db" where
  "UpdateWorkState db now tenantID workID expectedVersion newState terminalReason =
     (let t = tenant_or_default tenantID;
          target = (\<lambda>w. work_key w = (t, workID) \<and> wm_Version w = expectedVersion) in
      if wdb_fault db (QUpdateState t workID expectedVersion) then (Inl ErrDatabase, db)
      else case find target (wdb_works db) of
        None \<Rightarrow> (Inl ErrWorkVersionMismatch, db)
      | Some w \<Rightarrow>
          if newState \<notin> set work_states then (Inl ErrDatabase, db)
          else (Inr (wm_Version w + 1),
                db\<lparr>wdb_works := update_first target (set_work_state now newState terminalReason)
                                   (wdb_works db)\<rparr>))"

definition ListWork :: "work_db \<Rightarrow> list_work_filter \<Rightarrow> store_error + (work_message list \<times> nat)" where
  "ListWork db f =
     (let t = tenant_or_default (lf_TenantID f);
          limit = (if lf_Limit f \<le> 0 then 50 else if lf_Limit f > 100 then 100 else lf_Limit f);
          rows = filter (\<lambda>w. wm_TenantID w = t \<and>
                   (lf_ContextID f = [] \<or> wm_ContextID w = lf_ContextID f) \<and>
                   (lf_RequesterAgentID f = [] \<or> wm_RequesterAgentID w = lf_RequesterAgentID f) \<and>
                   (lf_ExecutorAgentID f = [] \<or> wm_ExecutorAgentID w = lf_ExecutorAgentID f) \<and>
                   (lf_State f = [] \<or> wm_State w = lf_State f)) (wdb_works db) in
      if wdb_fault db QListWork \<or> lf_Offset f < 0 then Inl ErrDatabase
      else Inr (take (nat limit) (drop (nat (lf_Offset f))
                  (rev (sort_key (\<lambda>w. (wm_CreatedAt w, wdb_collate db (wm_WorkID w))) rows))),
                length rows))"

definition ListPendingWorkForRecovery :: "work_db \<Rightarrow> store_error + work_message list" where
  "ListPendingWorkForRecovery db =
     (if wdb_fault db QListPending then Inl ErrDatabase
      else Inr (sort_key wm_UpdatedAt
                  (filter (\<lambda>w. wm_State w \<in> {''SUBMITTED'', ''WORKING''}) (wdb_works db))))"

definition CreateWorkArtifact ::
  "work_db \<Rightarrow> instant \<Rightarrow> work_artifact \<Rightarrow> (store_error + unit) \<times> work_db" where
  "CreateWorkArtifact db now artifact =
     (let a = artifact\<lparr>wa_TenantID := tenant_or_default (wa_TenantID artifact)\<rparr>;
          at_key = (\<lambda>x. wa_TenantID x = wa_TenantID a \<and> wa_WorkID x = wa_WorkID a \<and>
                        wa_ArtifactID x = wa_ArtifactID a) in
      if wdb_fault db (QInsertArtifact (wa_TenantID a) (wa_WorkID a) (wa_ArtifactID a))
         \<or> wa_ArtifactID a = [] \<or> wa_SizeBytes a < 0
         \<or> work_row db (wa_TenantID a) (wa_WorkID a) = None
      then (Inl ErrDatabase, db)
      else case find at_key (wdb_artifacts db) of
        Some _ \<Rightarrow>
          (Inr (), db\<lparr>wdb_artifacts := update_first at_key
             (\<lambda>x. a\<lparr>wa_CreatedAt := wa_CreatedAt x, wa_UpdatedAt := now\<rparr>) (wdb_artifacts db)\<rparr>)
      | None \<Rightarrow>
          (Inr (), db\<lparr>wdb_artifacts := wdb_artifacts db @
             [a\<lparr>wa_CreatedAt := now, wa_UpdatedAt := now\<rparr>]\<rparr>))"

definition ListWorkArtifacts :: "work_db \<Rightarrow> string \<Rightarrow> string \<Rightarrow> store_error + work_artifact list" where
  "ListWorkArtifacts db tenantID workID =
     (let t = tenant_or_default tenantID in
      if wdb_fault db (QListArtifacts t workID) then Inl ErrDatabase
      else Inr (sort_key wa_CreatedAt
                  (filter (\<lambda>a. wa_TenantID a = t \<and> wa_WorkID a = workID) (wdb_artifacts db))))"

definition AppendWorkEvent ::
  "work_db \<Rightarrow> instant \<Rightarrow> work_event \<Rightarrow> (store_error + unit) \<times> work_db" where
  "AppendWorkEvent db now event =
     (let e = event\<lparr>we_TenantID := tenant_or_default (we_TenantID event), we_CreatedAt := now\<rparr> in
      if wdb_fault db (QInsertEvent (we_TenantID e) (we_EventID e))
         \<or> we_EventID e = [] \<or> we_Sequence e = 0 \<or> we_EventType e = [] \<or> we_RetryCount e < 0
         \<or> (\<exists>x\<in>set (wdb_events db). we_TenantID x = we_TenantID e \<and>
              (we_EventID x = we_EventID e \<or>
               (we_WorkID x = we_WorkID e \<and> we_Sequence x = we_Sequence e)))
         \<or> work_row db (we_TenantID e) (we_WorkID e) = None
      then (Inl ErrDatabase, db)
      else (Inr (), db\<lparr>wdb_events := wdb_events db @ [e]\<rparr>))"

definition work_events_of :: "work_db \<Rightarrow> string \<Rightarrow> string \<Rightarrow> work_event list" where
  "work_events_of db t i = filter (\<lambda>e. we_TenantID e = t \<and> we_WorkID e = i) (wdb_events db)"

definition ListWorkEvents ::
  "work_db \<Rightarrow> string \<Rightarrow> string \<Rightarrow> nat \<Rightarrow> int \<Rightarrow> store_error + work_event list" where
  "ListWorkEvents db tenantID workID afterSequence limit =
     (let t = tenant_or_default tenantID;
          n = (if limit \<le> 0 then 100 else limit) in
      if wdb_fault db (QListEvents t workID) then Inl ErrDatabase
      else Inr (take (nat n) (sort_key we_Sequence
                  (filter (\<lambda>e. we_Sequence e > afterSequence) (work_events_of db t workID)))))"

definition GetLatestWorkEventSequence :: "work_db \<Rightarrow> string \<Rightarrow> string \<Rightarrow> store_error + nat" where
  "GetLatestWorkEventSequence db tenantID workID =
     (let t = tenant_or_default tenantID in
      if wdb_fault db (QLatestSequence t workID) then Inl ErrDatabase
      else Inr (foldr max (map we_Sequence (work_events_of db t workID)) 0))"

definition work_children :: "work_db \<Rightarrow> string \<Rightarrow> string \<Rightarrow> work_message list" where
  "work_children db t i =
     filter (\<lambda>w. wm_TenantID w = t \<and> wm_ParentWorkID w = Some i) (wdb_works db)"

definition ListChildren :: "work_db \<Rightarrow> string \<Rightarrow> string \<Rightarrow> store_error + work_message list" where
  "ListChildren db tenantID parentWorkID =
     (let t = tenant_or_default tenantID in
      if wdb_fault db (QListChildren t parentWorkID) then Inl ErrDatabase
      else Inr (sort_key wm_CreatedAt (work_children db t parentWorkID)))"

definition CountChildren :: "work_db \<Rightarrow> string \<Rightarrow> string \<Rightarrow> store_error + nat" where
  "CountChildren db tenantID parentWorkID =
     (let t = tenant_or_default tenantID in
      if wdb_fault db (QCountChildren t parentWorkID) then Inl ErrDatabase
      else Inr (length (work_children db t parentWorkID)))"

definition CountActiveChildren :: "work_db \<Rightarrow> string \<Rightarrow> string \<Rightarrow> store_error + nat" where
  "CountActiveChildren db tenantID parentWorkID =
     (let t = tenant_or_default tenantID in
      if wdb_fault db (QCountActiveChildren t parentWorkID) then Inl ErrDatabase
      else Inr (length (filter (\<lambda>w. wm_State w \<in> set active_states)
                          (work_children db t parentWorkID))))"

text \<open>The loops of \<open>GetParentChain\<close> and \<open>ListDescendants\<close>; the first one carries the
  source's own bound of 100 iterations.\<close>

fun parent_chain_loop ::
  "nat \<Rightarrow> work_db \<Rightarrow> string \<Rightarrow> string \<Rightarrow> string list \<Rightarrow> work_message list
     \<Rightarrow> store_error + work_message list" where
  "parent_chain_loop 0 db t currentID seen chain = Inr chain"
| "parent_chain_loop (Suc n) db t currentID seen chain =
     (case GetWork db t currentID of
        Inl e \<Rightarrow> Inl e
      | Inr current \<Rightarrow>
          (case wm_ParentWorkID current of
             None \<Rightarrow> Inr chain
           | Some parentID \<Rightarrow>
               if parentID = [] then Inr chain
               else if parentID \<in> set seen then Inl ErrParentChainCycle
               else case GetWork db t parentID of
                      Inl e \<Rightarrow> Inl e
                    | Inr parent \<Rightarrow>
                        parent_chain_loop n db t parentID (parentID # seen) (chain @ [parent])))"

definition GetParentChain :: "work_db \<Rightarrow> string \<Rightarrow> string \<Rightarrow> store_error + work_message list" where
  "GetParentChain db tenantID workID =
     parent_chain_loop 100 db (tenant_or_default tenantID) workID [workID] []"

fun fresh_children :: "string list \<Rightarrow> work_message list \<Rightarrow> work_message list" where
  "fresh_children seen [] = []"
| "fresh_children seen (c # cs) =
     (if wm_WorkID c \<in> set seen then fresh_children seen cs
      else c # fresh_children (wm_WorkID c # seen) cs)"

lemma fresh_children_ids:
  "set (map wm_WorkID (fresh_children seen cs)) = set (map wm_WorkID cs) - set seen"
  by (induction seen cs rule: fresh_children.induct) auto

lemma fresh_children_distinct: "distinct (map wm_WorkID (fresh_children seen cs))"
proof (induction seen cs rule: fresh_children.induct)
  case (2 seen c cs)
  then show ?case using fresh_children_ids [of "wm_WorkID c # seen" cs] by auto
qed simp

lemma fresh_children_subset: "set (fresh_children seen cs) \<subseteq> set cs"
  by (induction seen cs rule: fresh_children.induct) auto

definition unseen_rows :: "work_db \<Rightarrow> string list \<Rightarrow> string set" where
  "unseen_rows db seen = wm_WorkID ` set (wdb_works db) - set seen"

lemma ListChildren_rows:
  "ListChildren db t i = Inr cs \<Longrightarrow> set cs = set (work_children db (tenant_or_default t) i)"
  by (auto simp: ListChildren_def Let_def split: if_splits)

function descendants_loop ::
  "work_db \<Rightarrow> string \<Rightarrow> string list \<Rightarrow> string list \<Rightarrow> work_message list
     \<Rightarrow> store_error + work_message list" where
  "descendants_loop db t [] seen acc = Inr acc"
| "descendants_loop db t (cur # queue) seen acc =
     (case ListChildren db t cur of
        Inl e \<Rightarrow> Inl e
      | Inr children \<Rightarrow>
          let new = fresh_children seen children in
          descendants_loop db t (queue @ map wm_WorkID new) (map wm_WorkID new @ seen) (acc @ new))"
  by pat_completeness auto
termination
proof (relation "measure (\<lambda>(db, t, queue, seen, acc). card (unseen_rows db seen) + length queue)",
    goal_cases)
  case 1
  then show ?case by simp
next
  case (2 db t cur queue seen acc children new)
  let ?ids = "set (map wm_WorkID new)"
  have sub: "?ids \<subseteq> unseen_rows db seen"
    using 2 fresh_children_ids [of seen children] ListChildren_rows [of db t cur children]
    by (auto simp: unseen_rows_def work_children_def)
  have eq: "unseen_rows db (map wm_WorkID new @ seen) = unseen_rows db seen - ?ids"
    by (auto simp: unseen_rows_def)
  have "card ?ids = length new"
    using 2 fresh_children_distinct [of seen children] distinct_card by fastforce
  moreover have "card (unseen_rows db seen - ?ids) = card (unseen_rows db seen) - card ?ids"
    using sub by (intro card_Diff_subset) auto
  moreover have "card ?ids \<le> card (unseen_rows db seen)"
    using sub by (intro card_mono) (auto simp: unseen_rows_def)
  ultimately show ?case by (simp add: eq)
qed

definition ListDescendants :: "work_db \<Rightarrow> string \<Rightarrow> string \<Rightarrow> store_error + work_message list" where
  "ListDescendants db tenantID rootWorkID =
     descendants_loop db (tenant_or_default tenantID) [rootWorkID] [rootWorkID] []"

definition add_usage :: "instant \<Rightarrow> int \<Rightarrow> int \<Rightarrow> int \<Rightarrow> int \<Rightarrow> int \<Rightarrow> work_message \<Rightarrow> work_message" where
  "add_usage now dChildren fanOut dRuntimeMs dTokens dWorkUnits w =
     w\<lparr>wm_UsedChildren := wm_UsedChildren w + dChildren,
       wm_UsedFanOut := (if fanOut > wm_UsedFanOut w then fanOut else wm_UsedFanOut w),
       wm_UsedRuntimeMs := wm_UsedRuntimeMs w + dRuntimeMs,
       wm_UsedTokens := wm_UsedTokens w + dTokens,
       wm_UsedWorkUnits := wm_UsedWorkUnits w + dWorkUnits,
       wm_UpdatedAt := now\<rparr>"

definition usage_in_range :: "work_message \<Rightarrow> bool" where
  "usage_in_range w \<longleftrightarrow>
     is_i32 (wm_UsedChildren w) \<and> is_i32 (wm_UsedFanOut w) \<and> is_i64 (wm_UsedRuntimeMs w) \<and>
     is_i64 (wm_UsedTokens w) \<and> is_i64 (wm_UsedWorkUnits w)"

definition UpdateWorkUsage ::
  "work_db \<Rightarrow> instant \<Rightarrow> string \<Rightarrow> string \<Rightarrow> int \<Rightarrow> int \<Rightarrow> int \<Rightarrow> int \<Rightarrow> int
     \<Rightarrow> (store_error + unit) \<times> work_db" where
  "UpdateWorkUsage db now tenantID workID dChildren fanOut dRuntimeMs dTokens dWorkUnits =
     (let t = tenant_or_default tenantID;
          f = add_usage now dChildren fanOut dRuntimeMs dTokens dWorkUnits in
      if wdb_fault db (QUpdateUsage t workID) then (Inl ErrDatabase, db)
      else case work_row db t workID of
        None \<Rightarrow> (Inr (), db)
      | Some w \<Rightarrow>
          if \<not> (usage_in_range (f w) \<and> work_nonnegative (f w)) then (Inl ErrDatabase, db)
          else (Inr (), db\<lparr>wdb_works :=
                  update_first (\<lambda>x. work_key x = (t, workID)) f (wdb_works db)\<rparr>))"

section \<open>The table invariant\<close>

fun parents_precede :: "(string \<times> string) list \<Rightarrow> work_message list \<Rightarrow> bool" where
  "parents_precede earlier [] = True"
| "parents_precede earlier (w # ws) =
     ((case wm_ParentWorkID w of None \<Rightarrow> True | Some p \<Rightarrow> (wm_TenantID w, p) \<in> set earlier) \<and>
      parents_precede (work_key w # earlier) ws)"

definition work_table_inv :: "work_db \<Rightarrow> bool" where
  "work_table_inv db \<longleftrightarrow>
     distinct (map work_key (wdb_works db)) \<and>
     distinct (map work_task_key (wdb_works db)) \<and>
     distinct (map work_idempotency_key (wdb_works db)) \<and>
     (\<forall>w\<in>set (wdb_works db). work_check w) \<and>
     parents_precede [] (wdb_works db)"

definition empty_db :: "work_db \<Rightarrow> bool" where
  "empty_db db \<longleftrightarrow> wdb_works db = [] \<and> wdb_contexts db = [] \<and> wdb_events db = [] \<and> wdb_artifacts db = []"

text \<open>The writes of the store, with changes of the environment (organizations, failing
  queries) between them.\<close>

datatype store_op =
    OpEnsureContext instant string string string
  | OpCreateWork instant work_message
  | OpUpdateState instant string string nat string string
  | OpCreateArtifact instant work_artifact
  | OpAppendEvent instant work_event
  | OpUpdateUsage instant string string int int int int int
  | OpEnvironment "string \<Rightarrow> string option" "work_query \<Rightarrow> bool"

fun store_step :: "work_db \<Rightarrow> store_op \<Rightarrow> work_db" where
  "store_step db (OpEnsureContext n t c r) = snd (EnsureWorkContext db n t c r)"
| "store_step db (OpCreateWork n w) = snd (CreateWork db n w)"
| "store_step db (OpUpdateState n t i v s r) = snd (UpdateWorkState db n t i v s r)"
| "store_step db (OpCreateArtifact n a) = snd (CreateWorkArtifact db n a)"
| "store_step db (OpAppendEvent n e) = snd (AppendWorkEvent db n e)"
| "store_step db (OpUpdateUsage n t i c f r k u) = snd (UpdateWorkUsage db n t i c f r k u)"
| "store_step db (OpEnvironment orgs faults) = db\<lparr>wdb_orgs := orgs, wdb_fault := faults\<rparr>"

text \<open>What a write in place must leave alone for the invariant to survive it.\<close>

definition keeps_identity :: "(work_message \<Rightarrow> work_message) \<Rightarrow> bool" where
  "keeps_identity f \<longleftrightarrow>
     (\<forall>w. work_key (f w) = work_key w \<and> work_task_key (f w) = work_task_key w \<and>
          work_idempotency_key (f w) = work_idempotency_key w \<and>
          wm_TenantID (f w) = wm_TenantID w \<and> wm_ParentWorkID (f w) = wm_ParentWorkID w)"

lemma keeps_identity_set_work_state [simp]: "keeps_identity (set_work_state now s r)"
  by (simp add: keeps_identity_def set_work_state_def work_key_def work_task_key_def
      work_idempotency_key_def)

lemma keeps_identity_add_usage [simp]: "keeps_identity (add_usage now a b c d e)"
  by (simp add: keeps_identity_def add_usage_def work_key_def work_task_key_def
      work_idempotency_key_def)

lemma parents_precede_update_first:
  "keeps_identity f \<Longrightarrow> parents_precede es (update_first P f ws) = parents_precede es ws"
  by (induction ws arbitrary: es) (auto simp: keeps_identity_def split: option.splits)

lemma parents_precede_append:
  "parents_precede es (ws @ [w]) \<longleftrightarrow> parents_precede es ws \<and>
     (case wm_ParentWorkID w of None \<Rightarrow> True
      | Some p \<Rightarrow> (wm_TenantID w, p) \<in> set es \<union> work_key ` set ws)"
  by (induction ws arbitrary: es) (auto split: option.splits)

lemma work_table_inv_update_first:
  assumes inv: "work_table_inv db" and f: "keeps_identity f"
    and ok: "\<And>w. w \<in> set (wdb_works db) \<Longrightarrow> P w \<Longrightarrow> work_check (f w)"
  shows "work_table_inv (db\<lparr>wdb_works := update_first P f (wdb_works db)\<rparr>)"
  using inv f ok set_update_first [of _ P f "wdb_works db"]
  by (fastforce simp: work_table_inv_def parents_precede_update_first keeps_identity_def)

lemma work_check_set_work_state:
  "work_check w \<Longrightarrow> s \<in> set work_states \<Longrightarrow> work_check (set_work_state now s r w)"
  by (simp add: work_check_def set_work_state_def work_nonnegative_def)

lemma work_check_add_usage:
  "work_check w \<Longrightarrow> work_nonnegative (add_usage now a b c d e w) \<Longrightarrow> work_check (add_usage now a b c d e w)"
  by (simp add: work_check_def add_usage_def)

lemma work_key_stamped [simp]:
  "work_key (w\<lparr>wm_CreatedAt := a, wm_UpdatedAt := b, wm_Version := c\<rparr>) = work_key w"
  "work_task_key (w\<lparr>wm_CreatedAt := a, wm_UpdatedAt := b, wm_Version := c\<rparr>) = work_task_key w"
  "work_idempotency_key (w\<lparr>wm_CreatedAt := a, wm_UpdatedAt := b, wm_Version := c\<rparr>) = work_idempotency_key w"
  "work_check (w\<lparr>wm_CreatedAt := a, wm_UpdatedAt := b, wm_Version := c\<rparr>) = work_check w"
  by (simp_all add: work_key_def work_task_key_def work_idempotency_key_def work_check_def
      work_nonnegative_def)

lemma work_table_inv_cong:
  "wdb_works db' = wdb_works db \<Longrightarrow> work_table_inv db' = work_table_inv db"
  by (simp add: work_table_inv_def)

lemma EnsureWorkContext_works [simp]: "wdb_works (snd (EnsureWorkContext db n t c r)) = wdb_works db"
  by (simp add: EnsureWorkContext_def Let_def split: sum.split option.split)

lemma CreateWorkArtifact_works [simp]: "wdb_works (snd (CreateWorkArtifact db n a)) = wdb_works db"
  by (simp add: CreateWorkArtifact_def Let_def split: option.split)

lemma AppendWorkEvent_works [simp]: "wdb_works (snd (AppendWorkEvent db n e)) = wdb_works db"
  by (simp add: AppendWorkEvent_def Let_def)

text \<open>\<open>CreateWork\<close> either changes nothing or appends one row that satisfies the schema.\<close>

lemma CreateWork_cases:
  obtains (rejected) e where "CreateWork db now w = (Inl e, db)"
  | (created) v where "CreateWork db now w = (Inr (), db\<lparr>wdb_works := wdb_works db @ [v]\<rparr>)"
      "v = (work_defaults w)\<lparr>wm_CreatedAt := now, wm_UpdatedAt := now, wm_Version := 1\<rparr>"
      "work_check v" "work_unique v (wdb_works db)" "parent_row_exists v (wdb_works db)"
proof -
  let ?v = "(work_defaults w)\<lparr>wm_CreatedAt := now, wm_UpdatedAt := now, wm_Version := 1\<rparr>"
  show thesis
  proof (cases "fst (CreateWork db now w)")
    case (Inl e)
    then have "CreateWork db now w = (Inl e, db)"
      by (auto simp: CreateWork_def Let_def split: if_splits sum.splits)
    then show ?thesis by (rule rejected)
  next
    case (Inr u)
    then have "work_check ?v" "work_unique ?v (wdb_works db)"
      "parent_row_exists ?v (wdb_works db)"
      "CreateWork db now w = (Inr (), db\<lparr>wdb_works := wdb_works db @ [?v]\<rparr>)"
      by (auto simp: CreateWork_def Let_def work_unique_def work_foreign_keys_def
          parent_row_exists_def split: if_splits sum.splits option.splits)
    then show ?thesis using created by blast
  qed
qed

lemma work_table_inv_snoc:
  assumes inv: "work_table_inv db" and "work_check v" and "work_unique v (wdb_works db)"
    and par: "parent_row_exists v (wdb_works db)"
  shows "work_table_inv (db\<lparr>wdb_works := wdb_works db @ [v]\<rparr>)"
proof -
  have "parents_precede [] (wdb_works db @ [v])"
    using inv par
    by (force simp: parents_precede_append work_table_inv_def parent_row_exists_def image_iff
        split: option.splits)
  with assms show ?thesis
    by (auto simp: work_table_inv_def work_unique_def image_iff)
qed

lemma CreateWork_inv [inv_rules]: "work_table_inv db \<Longrightarrow> work_table_inv (snd (CreateWork db now w))"
  by (cases rule: CreateWork_cases [of db now w]) (auto intro: work_table_inv_snoc)

lemma UpdateWorkState_inv [inv_rules]:
  assumes "work_table_inv db"
  shows "work_table_inv (snd (UpdateWorkState db n t i v s r))"
proof -
  have "work_table_inv (db\<lparr>wdb_works := update_first
      (\<lambda>w. work_key w = (tenant_or_default t, i) \<and> wm_Version w = v) (set_work_state n s r) (wdb_works db)\<rparr>)"
    if "s \<in> set work_states"
    using assms that
    by (intro work_table_inv_update_first work_check_set_work_state) (auto simp: work_table_inv_def)
  with assms show ?thesis
    by (auto simp: UpdateWorkState_def Let_def split: option.split)
qed

lemma work_row_unique:
  assumes "work_table_inv db" "w \<in> set (wdb_works db)" "work_key w = (t, i)"
  shows "work_row db t i = Some w"
  using assms distinct_inj_on_find [of work_key "wdb_works db" w]
  by (simp add: work_row_def work_table_inv_def)

lemma UpdateWorkUsage_inv [inv_rules]:
  assumes inv: "work_table_inv db"
  shows "work_table_inv (snd (UpdateWorkUsage db n t i a b c d e))"
proof -
  let ?t = "tenant_or_default t" and ?f = "add_usage n a b c d e"
  have "work_table_inv (db\<lparr>wdb_works := update_first (\<lambda>x. work_key x = (?t, i)) ?f (wdb_works db)\<rparr>)"
    if row: "work_row db ?t i = Some w" and ok: "work_nonnegative (?f w)" for w
  proof (rule work_table_inv_update_first [OF inv keeps_identity_add_usage])
    fix x assume x: "x \<in> set (wdb_works db)" "work_key x = (?t, i)"
    with row work_row_unique [OF inv x] have "x = w" by simp
    with x ok inv show "work_check (?f x)"
      by (intro work_check_add_usage) (auto simp: work_table_inv_def)
  qed
  with inv show ?thesis
    by (auto simp: UpdateWorkUsage_def Let_def split: option.split)
qed

lemma store_step_inv: "work_table_inv db \<Longrightarrow> work_table_inv (store_step db e)"
proof (cases e)
  case (OpEnvironment orgs faults)
  assume "work_table_inv db"
  then show ?thesis using OpEnvironment by (simp add: work_table_inv_def)
next
  case (OpEnsureContext n t c r)
  assume "work_table_inv db"
  then show ?thesis using OpEnsureContext by (simp add: work_table_inv_def)
next
  case (OpCreateArtifact n a)
  assume "work_table_inv db"
  then show ?thesis using OpCreateArtifact by (simp add: work_table_inv_def)
next
  case (OpAppendEvent n ev)
  assume "work_table_inv db"
  then show ?thesis using OpAppendEvent by (simp add: work_table_inv_def)
qed (simp_all add: inv_rules)

lemma empty_db_inv: "empty_db db \<Longrightarrow> work_table_inv db"
  by (simp add: empty_db_def work_table_inv_def)

interpretation work_store: component store_step work_table_inv "\<lambda>_. True" empty_db
  by unfold_locales (auto intro: empty_db_inv store_step_inv)

section \<open>The parent relation has no cycle\<close>

definition parent_rel_of :: "work_message list \<Rightarrow> string \<Rightarrow> (string \<times> string) set" where
  "parent_rel_of ws t = {(p, wm_WorkID w) | p w. w \<in> set ws \<and> wm_TenantID w = t \<and> wm_ParentWorkID w = Some p}"

abbreviation parent_rel :: "work_db \<Rightarrow> string \<Rightarrow> (string \<times> string) set" where
  "parent_rel db t \<equiv> parent_rel_of (wdb_works db) t"

lemma parent_rel_of_append:
  "parent_rel_of (ws @ [w]) t = (case wm_ParentWorkID w of
      None \<Rightarrow> parent_rel_of ws t
    | Some p \<Rightarrow> if wm_TenantID w = t then insert (p, wm_WorkID w) (parent_rel_of ws t)
                 else parent_rel_of ws t)"
  by (auto simp: parent_rel_of_def split: option.splits)

lemma parents_precede_domain:
  "parents_precede [] ws \<Longrightarrow> (p, c) \<in> parent_rel_of ws t \<Longrightarrow> (t, p) \<in> work_key ` set ws"
proof (induction ws rule: rev_induct)
  case (snoc w ws)
  then show ?case
    by (auto simp: parent_rel_of_append parents_precede_append split: option.splits if_splits)
qed (simp add: parent_rel_of_def)

lemma parents_precede_acyclic:
  "distinct (map work_key ws) \<Longrightarrow> parents_precede [] ws \<Longrightarrow> acyclic (parent_rel_of ws t)"
proof (induction ws rule: rev_induct)
  case Nil
  have "parent_rel_of [] t = {}" by (simp add: parent_rel_of_def)
  then show ?case by (simp add: acyclic_def)
next
  case (snoc w ws)
  then have ac: "acyclic (parent_rel_of ws t)" and pre: "parents_precede [] ws"
    and fresh: "work_key w \<notin> work_key ` set ws"
    by (auto simp: parents_precede_append)
  have new: "(wm_WorkID w, p) \<notin> (parent_rel_of ws t)\<^sup>*"
    if "wm_TenantID w = t" "(t, p) \<in> work_key ` set ws" for p
  proof
    assume "(wm_WorkID w, p) \<in> (parent_rel_of ws t)\<^sup>*"
    then have "p = wm_WorkID w \<or> (\<exists>c. (wm_WorkID w, c) \<in> parent_rel_of ws t)"
      by (metis converse_rtranclE)
    then have "(t, wm_WorkID w) \<in> work_key ` set ws"
      using parents_precede_domain [OF pre] that by blast
    with that(1) fresh show False by (simp add: work_key_def)
  qed
  show ?case
    using ac snoc.prems new
    by (auto simp: parent_rel_of_append parents_precede_append acyclic_insert split: option.splits)
qed

lemma work_table_acyclic: "work_table_inv db \<Longrightarrow> acyclic (parent_rel db t)"
  by (simp add: work_table_inv_def parents_precede_acyclic)

section \<open>Descendants\<close>

definition child_ids :: "work_db \<Rightarrow> string \<Rightarrow> string \<Rightarrow> string list" where
  "child_ids db t i = map wm_WorkID (sort_key wm_CreatedAt (work_children db t i))"

lemma fresh_children_fresh: "map wm_WorkID (fresh_children seen cs) = fresh seen (map wm_WorkID cs)"
  by (induction seen cs rule: fresh_children.induct) auto

lemma ListChildren_ok:
  "tenant_or_default t = t \<Longrightarrow> \<not> wdb_fault db (QListChildren t i) \<Longrightarrow>
   ListChildren db t i = Inr (sort_key wm_CreatedAt (work_children db t i))"
  by (simp add: ListChildren_def)

lemma descendants_loop_run:
  assumes nf: "\<And>i. \<not> wdb_fault db (QListChildren t i)" and t: "tenant_or_default t = t"
  shows "\<exists>res. descendants_loop db t queue seen acc = Inr (acc @ res) \<and>
           set res \<subseteq> set (wdb_works db) \<and> (\<forall>w\<in>set res. wm_TenantID w = t) \<and>
           bfs_run (child_ids db t) queue seen (map wm_WorkID acc) (map wm_WorkID (acc @ res))"
  using assms
proof (induction db t queue seen acc rule: descendants_loop.induct)
  case (1 db t seen acc)
  then show ?case by (auto intro: bfs_done)
next
  case (2 db t cur queue seen acc)
  let ?cs = "sort_key wm_CreatedAt (work_children db t cur)"
  let ?new = "fresh_children seen ?cs"
  have cs: "ListChildren db t cur = Inr ?cs"
    using 2 by (simp add: ListChildren_ok)
  from "2.IH" [OF cs refl "2.prems"] obtain res where
    res: "descendants_loop db t (queue @ map wm_WorkID ?new) (map wm_WorkID ?new @ seen) (acc @ ?new)
            = Inr ((acc @ ?new) @ res)"
      "set res \<subseteq> set (wdb_works db)" "\<forall>w\<in>set res. wm_TenantID w = t"
      "bfs_run (child_ids db t) (queue @ map wm_WorkID ?new) (map wm_WorkID ?new @ seen)
         (map wm_WorkID (acc @ ?new)) (map wm_WorkID ((acc @ ?new) @ res))"
    by auto
  have new: "map wm_WorkID ?new = fresh seen (child_ids db t cur)"
    by (simp add: fresh_children_fresh child_ids_def)
  have "bfs_run (child_ids db t) (cur # queue) seen (map wm_WorkID acc)
          (map wm_WorkID (acc @ ?new @ res))"
    using res(4) by (intro bfs_visit) (simp add: new)
  moreover have "set ?new \<subseteq> set (wdb_works db) \<and> (\<forall>w\<in>set ?new. wm_TenantID w = t)"
    using fresh_children_subset [of seen ?cs] by (auto simp: work_children_def)
  ultimately show ?case
    using res cs by (intro exI [of _ "?new @ res"]) (auto simp: Let_def)
qed

lemma succ_rel_child_ids: "succ_rel (child_ids db t) = parent_rel db t"
  by (auto simp: succ_rel_def child_ids_def work_children_def parent_rel_of_def)

lemma ListDescendants_exact:
  assumes inv: "work_table_inv db" and nf: "\<And>i. \<not> wdb_fault db (QListChildren (tenant_or_default t) i)"
  shows "\<exists>ws. ListDescendants db t r = Inr ws \<and> distinct (map wm_WorkID ws) \<and>
           set ws \<subseteq> set (wdb_works db) \<and> (\<forall>w\<in>set ws. wm_TenantID w = tenant_or_default t) \<and>
           wm_WorkID ` set ws = {i. (r, i) \<in> (parent_rel db (tenant_or_default t))\<^sup>+}"
proof -
  obtain ws where ws: "ListDescendants db t r = Inr ws" "set ws \<subseteq> set (wdb_works db)"
      "\<forall>w\<in>set ws. wm_TenantID w = tenant_or_default t"
      and run: "bfs_run (child_ids db (tenant_or_default t)) [r] [r] [] (map wm_WorkID ws)"
    using descendants_loop_run [OF nf, of "[r]" "[r]" "[]"] by (auto simp: ListDescendants_def)
  have "(r, r) \<notin> (parent_rel db (tenant_or_default t))\<^sup>+"
    using work_table_acyclic [OF inv] by (simp add: acyclic_def)
  then have "wm_WorkID ` set ws = {i. (r, i) \<in> (parent_rel db (tenant_or_default t))\<^sup>+}"
    and "distinct (map wm_WorkID ws)"
    using bfs_run_reachable [OF run] by (auto simp: succ_rel_child_ids)
  with ws show ?thesis by blast
qed

section \<open>Optimistic concurrency\<close>

lemma work_key_set_work_state [simp]: "work_key (set_work_state n s r w) = work_key w"
  by (simp add: work_key_def set_work_state_def)

lemma wm_fields_set_work_state [simp]:
  "wm_State (set_work_state n s r w) = s"
  "wm_Version (set_work_state n s r w) = Suc (wm_Version w)"
  "wm_WorkID (set_work_state n s r w) = wm_WorkID w"
  "wm_TenantID (set_work_state n s r w) = wm_TenantID w"
  "wm_ParentWorkID (set_work_state n s r w) = wm_ParentWorkID w"
  by (simp_all add: set_work_state_def)

lemma UpdateWorkState_fault [simp]:
  "wdb_fault (snd (UpdateWorkState db n t i v s r)) = wdb_fault db"
  "wdb_orgs (snd (UpdateWorkState db n t i v s r)) = wdb_orgs db"
  "wdb_events (snd (UpdateWorkState db n t i v s r)) = wdb_events db"
  by (simp_all add: UpdateWorkState_def Let_def split: option.split)

text \<open>A state update seen from outside: the rows of the other keys stay, and the row of its
  own key changes exactly when the expected version is the current one.\<close>

lemma UpdateWorkState_row_other:
  assumes "(tenant_or_default t, i) \<noteq> (t', i')"
  shows "work_row (snd (UpdateWorkState db n t i v s r)) t' i' = work_row db t' i'"
proof -
  have "find (\<lambda>w. work_key w = (t', i')) (update_first
      (\<lambda>w. work_key w = (tenant_or_default t, i) \<and> wm_Version w = v) (set_work_state n s r) (wdb_works db))
      = find (\<lambda>w. work_key w = (t', i')) (wdb_works db)"
    using assms by (intro find_update_first_other) auto
  then show ?thesis
    by (simp add: UpdateWorkState_def Let_def work_row_def split: option.split)
qed

lemma UpdateWorkState_matching:
  assumes inv: "work_table_inv db" and row: "work_row db (tenant_or_default t) i = Some w"
    and nf: "\<not> wdb_fault db (QUpdateState (tenant_or_default t) i (wm_Version w))"
    and s: "s \<in> set work_states"
  shows "fst (UpdateWorkState db n t i (wm_Version w) s r) = Inr (Suc (wm_Version w))"
    and "work_row (snd (UpdateWorkState db n t i (wm_Version w) s r)) (tenant_or_default t) i
           = Some (set_work_state n s r w)"
proof -
  let ?t = "tenant_or_default t"
  let ?P = "\<lambda>x. work_key x = (?t, i) \<and> wm_Version x = wm_Version w"
  have w: "w \<in> set (wdb_works db)" "work_key w = (?t, i)"
    using row find_Some_in [of _ "wdb_works db" w] by (auto simp: work_row_def)
  have uniq: "x = w" if "x \<in> set (wdb_works db)" "work_key x = (?t, i)" for x
    using work_row_unique [OF inv that] row by simp
  have target: "find ?P (wdb_works db) = Some w"
  proof (cases "find ?P (wdb_works db)")
    case None
    then show ?thesis using w by (auto simp: find_None_all)
  next
    case (Some x)
    then show ?thesis using uniq find_Some_in [OF Some] by auto
  qed
  show "fst (UpdateWorkState db n t i (wm_Version w) s r) = Inr (Suc (wm_Version w))"
    using nf s target by (simp add: UpdateWorkState_def Let_def)
  have "find (\<lambda>x. work_key x = (?t, i)) (update_first ?P (set_work_state n s r) (wdb_works db))
          = Some (set_work_state n s r w)"
    using row w by (intro find_update_first_same) (auto simp: work_row_def)
  then show "work_row (snd (UpdateWorkState db n t i (wm_Version w) s r)) ?t i
           = Some (set_work_state n s r w)"
    using nf s target by (simp add: UpdateWorkState_def Let_def work_row_def)
qed

lemma UpdateWorkState_stale:
  assumes inv: "work_table_inv db" and nf: "\<not> wdb_fault db (QUpdateState (tenant_or_default t) i v)"
    and stale: "\<And>w. work_row db (tenant_or_default t) i = Some w \<Longrightarrow> wm_Version w \<noteq> v"
  shows "UpdateWorkState db n t i v s r = (Inl ErrWorkVersionMismatch, db)"
proof -
  have "find (\<lambda>x. work_key x = (tenant_or_default t, i) \<and> wm_Version x = v) (wdb_works db) = None"
    using stale work_row_unique [OF inv] by (auto simp: find_None_all)
  with nf show ?thesis by (simp add: UpdateWorkState_def Let_def)
qed

lemma UpdateWorkState_success:
  assumes inv: "work_table_inv db" and ok: "UpdateWorkState db n t i v s r = (Inr v', db')"
  shows "\<exists>w. work_row db (tenant_or_default t) i = Some w \<and> wm_Version w = v \<and> v' = Suc v \<and>
           s \<in> set work_states \<and>
           work_row db' (tenant_or_default t) i = Some (set_work_state n s r w)"
proof -
  let ?t = "tenant_or_default t"
  let ?P = "\<lambda>x. work_key x = (?t, i) \<and> wm_Version x = v"
  from ok obtain w where w: "find ?P (wdb_works db) = Some w" and v': "v' = Suc (wm_Version w)"
    and s: "s \<in> set work_states" and nf: "\<not> wdb_fault db (QUpdateState ?t i v)"
    by (auto simp: UpdateWorkState_def Let_def split: if_splits option.splits)
  from find_Some_in [OF w] have row: "work_row db ?t i = Some w" and ver: "wm_Version w = v"
    by (auto intro: work_row_unique [OF inv])
  have "work_row (snd (UpdateWorkState db n t i v s r)) ?t i = Some (set_work_state n s r w)"
    using UpdateWorkState_matching(2) [OF inv row _ s] nf ver by blast
  with ok row ver v' s show ?thesis by auto
qed

section \<open>Sample data\<close>

definition sample_row :: work_message where
  "sample_row =
     \<lparr>wm_TenantID = ''default'', wm_WorkID = ''w1'', wm_A2ATaskID = ''w1'', wm_ContextID = ''c1'',
      wm_RequesterAgentID = ''a'', wm_ExecutorAgentID = ''b'', wm_SourceConversationID = None,
      wm_SourceTaskID = None, wm_State = ''WORKING'', wm_TerminalReason = [],
      wm_IdempotencyKey = ''w1'', wm_TraceID = [], wm_RootTraceID = [], wm_SpanID = [],
      wm_ParentSpanID = [], wm_ParentWorkID = None, wm_ParentEdgeType = ''delegated'',
      wm_DelegationDepth = 0, wm_RetryCount = 0, wm_MaxDepth = 8, wm_MaxChildren = 32,
      wm_MaxFanOut = 16, wm_MaxConcurrency = 10, wm_MaxRuntimeMs = 300000, wm_MaxRetries = 3,
      wm_MaxTokens = 100, wm_MaxWorkUnits = 50, wm_UsedChildren = 1, wm_UsedFanOut = 0,
      wm_UsedRuntimeMs = 0, wm_UsedTokens = 40, wm_UsedWorkUnits = 10, wm_CreatedAt = 5,
      wm_UpdatedAt = 5, wm_StartedAt = None, wm_CompletedAt = None, wm_Version = 1\<rparr>"

definition sample_db :: work_db where
  "sample_db =
     \<lparr>wdb_orgs = (\<lambda>i. if i = ''default'' then Some ''ACTIVE'' else None), wdb_contexts = [],
      wdb_works = [], wdb_artifacts = [], wdb_events = [], wdb_fault = (\<lambda>_. False),
      wdb_collate = length\<rparr>"

definition sample_kid :: work_message where
  "sample_kid =
     sample_row\<lparr>wm_WorkID := ''w2'', wm_A2ATaskID := ''w2'', wm_IdempotencyKey := ''w2'',
       wm_ParentWorkID := Some ''w1'', wm_DelegationDepth := 1\<rparr>"

definition sample_tree_db :: work_db where
  "sample_tree_db = sample_db\<lparr>wdb_works := [sample_row, sample_kid]\<rparr>"

lemma sample_tree_inv: "work_table_inv sample_tree_db"
  by (simp add: sample_tree_db_def sample_db_def sample_row_def sample_kid_def work_table_inv_def
      work_key_def work_task_key_def work_idempotency_key_def work_check_def work_nonnegative_def
      work_states_def)

lemma sample_tree_no_fault: "wdb_fault sample_tree_db q = False"
  by (simp add: sample_tree_db_def sample_db_def)

lemma sample_tree_rows:
  "work_row sample_tree_db ''default'' ''w1'' = Some sample_row"
  "work_row sample_tree_db ''default'' ''w2'' = Some sample_kid"
  "work_children sample_tree_db ''default'' ''w1'' = [sample_kid]"
  "work_children sample_tree_db ''default'' ''w2'' = []"
  by (simp_all add: sample_tree_db_def sample_db_def sample_row_def sample_kid_def work_row_def
      work_key_def work_children_def)

lemma sample_tree_get:
  "GetWork sample_tree_db ''default'' ''w1'' = Inr sample_row"
  "GetWork sample_tree_db ''default'' ''w2'' = Inr sample_kid"
  by (simp_all add: GetWork_def sample_tree_no_fault sample_tree_rows tenant_or_default_def)

lemma sample_tree_descendants: "ListDescendants sample_tree_db ''default'' ''w1'' = Inr [sample_kid]"
proof -
  have "ListChildren sample_tree_db ''default'' ''w1'' = Inr [sample_kid]"
    "ListChildren sample_tree_db ''default'' ''w2'' = Inr []"
    by (simp_all add: ListChildren_def sample_tree_no_fault sample_tree_rows tenant_or_default_def)
  moreover have "wm_WorkID sample_kid = ''w2''" by (simp add: sample_kid_def)
  ultimately show ?thesis by (simp add: ListDescendants_def tenant_or_default_def Let_def)
qed

section \<open>Versions only grow\<close>

lemma work_row_update_first:
  assumes "keeps_identity f" and "\<And>w. wm_Version w \<le> wm_Version (f w)" and "work_row db t i = Some w"
  shows "\<exists>w'. work_row (db\<lparr>wdb_works := update_first P f (wdb_works db)\<rparr>) t i = Some w' \<and>
           wm_Version w \<le> wm_Version w'"
proof -
  have "work_key (f x) = work_key x" for x using assms(1) by (simp add: keeps_identity_def)
  then show ?thesis
    using find_update_first [of "\<lambda>w. work_key w = (t, i)" f "wdb_works db" w P] assms(2,3)
    by (auto simp: work_row_def)
qed

lemma store_step_version:
  assumes "work_row db t i = Some w"
  shows "\<exists>w'. work_row (store_step db e) t i = Some w' \<and> wm_Version w \<le> wm_Version w'"
proof (cases e)
  case (OpCreateWork n v)
  with assms show ?thesis
    by (cases rule: CreateWork_cases [of db n v]) (auto simp: work_row_def find_append)
next
  case (OpUpdateState n t' i' v s r)
  have "\<exists>w'. work_row (db\<lparr>wdb_works := update_first P (set_work_state n s r) (wdb_works db)\<rparr>) t i = Some w' \<and>
           wm_Version w \<le> wm_Version w'" for P
    using assms by (intro work_row_update_first) simp_all
  with OpUpdateState assms show ?thesis
    by (auto simp: UpdateWorkState_def Let_def split: option.split)
next
  case (OpUpdateUsage n t' i' a b c d u)
  have "\<exists>w'. work_row (db\<lparr>wdb_works := update_first P (add_usage n a b c d u) (wdb_works db)\<rparr>) t i = Some w' \<and>
           wm_Version w \<le> wm_Version w'" for P
    using assms by (intro work_row_update_first) (simp_all add: add_usage_def)
  with OpUpdateUsage assms show ?thesis
    by (auto simp: UpdateWorkUsage_def Let_def split: option.split)
qed (use assms in \<open>simp_all add: work_row_def\<close>)

lemma store_run_version:
  "work_row db t i = Some w \<Longrightarrow>
   \<exists>w'. work_row (foldl store_step db es) t i = Some w' \<and> wm_Version w \<le> wm_Version w'"
proof (induction es arbitrary: db w)
  case (Cons e es)
  from store_step_version [OF Cons.prems] obtain w1 where
    "work_row (store_step db e) t i = Some w1" "wm_Version w \<le> wm_Version w1"
    by blast
  with Cons.IH [of "store_step db e" w1] show ?case by (auto intro: le_trans)
qed simp

lemma UpdateWorkState_not_current:
  assumes inv: "work_table_inv db" and row: "work_row db (tenant_or_default t) i = Some w" "wm_Version w \<noteq> v"
  shows "\<exists>e\<in>{ErrWorkVersionMismatch, ErrDatabase}. UpdateWorkState db n t i v s r = (Inl e, db)"
proof (cases "wdb_fault db (QUpdateState (tenant_or_default t) i v)")
  case False
  then show ?thesis using UpdateWorkState_stale [OF inv False] row by simp
qed (simp add: UpdateWorkState_def)

section \<open>Properties\<close>

text \<open>C20: every history of writes on an empty store, with organizations and failing queries
  changing in between, leaves a work table with unique keys, task ids and idempotency keys, legal
  states and non-negative counters, in which each parent was inserted before its children; so the
  parent relation of every tenant is acyclic.\<close>

theorem store_history_invariant:
  assumes "empty_db db"
  shows "work_table_inv (foldl store_step db es) \<and> acyclic (parent_rel (foldl store_step db es) t)"
proof -
  have "work_table_inv (foldl store_step db es)"
    using assms by (intro work_store.invar_history) auto
  then show ?thesis using work_table_acyclic by blast
qed

theorem store_history_invariant_witness:
  "empty_db sample_db \<and> acyclic (parent_rel (foldl store_step sample_db
     [OpEnsureContext 1 [] ''c1'' [], OpCreateWork 2 sample_row, OpCreateWork 3 sample_kid,
      OpUpdateState 4 [] ''w2'' 1 ''COMPLETED'' []]) ''default'')"
proof -
  have "empty_db sample_db" by (simp add: sample_db_def empty_db_def)
  then show ?thesis using store_history_invariant by blast
qed

text \<open>C34: An expected version is used at most once. After a state update that succeeded with
  some version, whatever else is written, no later update of the same work row with that version
  succeeds, and its attempt changes nothing.\<close>

theorem expected_version_used_once:
  assumes "work_table_inv db" and "UpdateWorkState db n t i v s r = (Inr v', db')"
  shows "\<exists>e\<in>{ErrWorkVersionMismatch, ErrDatabase}.
     UpdateWorkState (foldl store_step db' es) n2 t i v s2 r2 = (Inl e, foldl store_step db' es)"
proof -
  from UpdateWorkState_success [OF assms] obtain w where
    "work_row db' (tenant_or_default t) i = Some (set_work_state n s r w)" "wm_Version w = v"
    by blast
  from store_run_version [OF this(1), of es] this(2) obtain w' where
    "work_row (foldl store_step db' es) (tenant_or_default t) i = Some w'" "wm_Version w' \<noteq> v"
    by auto
  moreover have "work_table_inv db'"
    using UpdateWorkState_inv [OF assms(1), of n t i v s r] assms(2) by simp
  then have "work_table_inv (foldl store_step db' es)"
    by (intro work_store.invar_run) auto
  ultimately show ?thesis by (intro UpdateWorkState_not_current) auto
qed

lemma sample_tree_update:
  "UpdateWorkState sample_tree_db 9 [] ''w1'' 1 ''WORKING'' [] =
     (Inr 2, sample_tree_db\<lparr>wdb_works := [set_work_state 9 ''WORKING'' [] sample_row, sample_kid]\<rparr>)"
proof -
  have "work_key sample_row = (''default'', ''w1'')" "wm_Version sample_row = 1"
    by (simp_all add: sample_row_def work_key_def)
  moreover have "\<not> wdb_fault sample_db q" for q by (simp add: sample_db_def)
  ultimately show ?thesis
    by (simp add: UpdateWorkState_def tenant_or_default_def sample_tree_db_def work_states_def Let_def)
qed

theorem expected_version_used_once_witness:
  "\<exists>e\<in>{ErrWorkVersionMismatch, ErrDatabase}.
     fst (UpdateWorkState (sample_tree_db\<lparr>wdb_works :=
        [set_work_state 9 ''WORKING'' [] sample_row, sample_kid]\<rparr>) 10 [] ''w1'' 1 ''FAILED'' []) = Inl e"
  using expected_version_used_once [OF sample_tree_inv sample_tree_update, of "[]" 10 "''FAILED''" "[]"]
  by auto

text \<open>On a well-formed table, \<open>ListDescendants\<close> ends without an error and returns every work
  row below the root, of the root's tenant, exactly once.\<close>

theorem ListDescendants_tree:
  assumes "work_table_inv db" and "\<forall>i. \<not> wdb_fault db (QListChildren (tenant_or_default t) i)"
  shows "\<exists>ws. ListDescendants db t r = Inr ws \<and> distinct (map wm_WorkID ws) \<and>
     set ws \<subseteq> set (wdb_works db) \<and> (\<forall>w\<in>set ws. wm_TenantID w = tenant_or_default t) \<and>
     wm_WorkID ` set ws = {i. (r, i) \<in> (parent_rel db (tenant_or_default t))\<^sup>+}"
  using ListDescendants_exact [of db t r] assms by blast

theorem ListDescendants_tree_witness:
  "\<exists>ws. ListDescendants sample_tree_db ''default'' ''w1'' = Inr ws \<and>
     wm_WorkID ` set ws = {i. (''w1'', i) \<in> (parent_rel sample_tree_db ''default'')\<^sup>+}"
  using ListDescendants_tree [OF sample_tree_inv, of "''default''" "''w1''"]
  by (auto simp: sample_tree_no_fault tenant_or_default_def)

end
