(* ===== verification/Budget.thy ===== *)
theory Budget
  imports Work_Store
begin

text \<open>
  Work budgets and delegation limits, \<open>backend/a2a/budget.go\<close>. A budget is a record of
  \<open>int32\<close>/\<open>int64\<close> limits, a nil pointer is \<open>None\<close>; sums and conversions wrap at the
  source's width. Shown here: the effective budget is positive and a fixed point; an
  allocated child budget never exceeds the parent's; each validator accepts exactly the
  requests its limit allows while the sums do not overflow; and the exhausted budget, whose
  child gets the limit 0 that every later check reads as \<open>unlimited\<close>.
\<close>

record work_budget =
  wb_MaxDepth :: int
  wb_MaxChildren :: int
  wb_MaxFanOut :: int
  wb_MaxConcurrency :: int
  wb_MaxRuntimeMs :: int
  wb_MaxRetries :: int
  wb_MaxTokens :: int
  wb_MaxWorkUnits :: int

datatype limit_error =
    ErrMaxDepthExceeded
  | ErrMaxChildrenExceeded
  | ErrMaxFanOutExceeded
  | ErrMaxConcurrencyExceeded
  | ErrMaxRetriesExceeded
  | ErrTokenBudgetExceeded
  | ErrWorkUnitBudgetExceeded

definition DefaultMaxDepth :: int where "DefaultMaxDepth = 8"
definition DefaultMaxChildren :: int where "DefaultMaxChildren = 32"
definition DefaultMaxFanOut :: int where "DefaultMaxFanOut = 16"
definition DefaultMaxConcurrency :: int where "DefaultMaxConcurrency = 10"
definition DefaultMaxRuntimeMs :: int where "DefaultMaxRuntimeMs = 300000"
definition DefaultMaxRetries :: int where "DefaultMaxRetries = 3"
definition DefaultMaxTokens :: int where "DefaultMaxTokens = 1000000"
definition DefaultMaxWorkUnits :: int where "DefaultMaxWorkUnits = 1000"

lemmas budget_defaults [go_defs] =
  DefaultMaxDepth_def DefaultMaxChildren_def DefaultMaxFanOut_def DefaultMaxConcurrency_def
  DefaultMaxRuntimeMs_def DefaultMaxRetries_def DefaultMaxTokens_def DefaultMaxWorkUnits_def

definition DefaultBudget :: work_budget where
  "DefaultBudget =
     \<lparr>wb_MaxDepth = DefaultMaxDepth, wb_MaxChildren = DefaultMaxChildren,
      wb_MaxFanOut = DefaultMaxFanOut, wb_MaxConcurrency = DefaultMaxConcurrency,
      wb_MaxRuntimeMs = DefaultMaxRuntimeMs, wb_MaxRetries = DefaultMaxRetries,
      wb_MaxTokens = DefaultMaxTokens, wb_MaxWorkUnits = DefaultMaxWorkUnits\<rparr>"

definition positive_or :: "int \<Rightarrow> int \<Rightarrow> int" where
  "positive_or x d = (if x \<le> 0 then d else x)"

definition EffectiveBudget :: "work_budget option \<Rightarrow> work_budget" where
  "EffectiveBudget b =
     (case b of
        None \<Rightarrow> DefaultBudget
      | Some r \<Rightarrow>
          \<lparr>wb_MaxDepth = positive_or (wb_MaxDepth r) (wb_MaxDepth DefaultBudget),
           wb_MaxChildren = positive_or (wb_MaxChildren r) (wb_MaxChildren DefaultBudget),
           wb_MaxFanOut = positive_or (wb_MaxFanOut r) (wb_MaxFanOut DefaultBudget),
           wb_MaxConcurrency = positive_or (wb_MaxConcurrency r) (wb_MaxConcurrency DefaultBudget),
           wb_MaxRuntimeMs = positive_or (wb_MaxRuntimeMs r) (wb_MaxRuntimeMs DefaultBudget),
           wb_MaxRetries = positive_or (wb_MaxRetries r) (wb_MaxRetries DefaultBudget),
           wb_MaxTokens = positive_or (wb_MaxTokens r) (wb_MaxTokens DefaultBudget),
           wb_MaxWorkUnits = positive_or (wb_MaxWorkUnits r) (wb_MaxWorkUnits DefaultBudget)\<rparr>)"

definition ValidateDelegationLimits :: "work_message option \<Rightarrow> int \<Rightarrow> limit_error + unit" where
  "ValidateDelegationLimits parent proposedChildDepth =
     (case parent of
        None \<Rightarrow> Inr ()
      | Some p \<Rightarrow>
          let maxDepth = positive_or (wm_MaxDepth p) DefaultMaxDepth;
              maxChildren = positive_or (wm_MaxChildren p) DefaultMaxChildren in
          if proposedChildDepth > maxDepth then Inl ErrMaxDepthExceeded
          else if i32 (wm_UsedChildren p + 1) > maxChildren then Inl ErrMaxChildrenExceeded
          else Inr ())"

definition ValidateFanOutLimit :: "work_message option \<Rightarrow> int \<Rightarrow> limit_error + unit" where
  "ValidateFanOutLimit parent count =
     (case parent of
        None \<Rightarrow> Inr ()
      | Some p \<Rightarrow>
          if count \<le> 0 then Inr ()
          else
            let maxFanOut = positive_or (wm_MaxFanOut p) DefaultMaxFanOut;
                maxChildren = positive_or (wm_MaxChildren p) DefaultMaxChildren in
            if i32 count > maxFanOut then Inl ErrMaxFanOutExceeded
            else if i32 (wm_UsedChildren p + i32 count) > maxChildren then Inl ErrMaxChildrenExceeded
            else Inr ())"

definition ValidateConcurrencyLimit :: "work_message option \<Rightarrow> int \<Rightarrow> limit_error + unit" where
  "ValidateConcurrencyLimit parent activeCount =
     (case parent of
        None \<Rightarrow> Inr ()
      | Some p \<Rightarrow>
          let maxConc = positive_or (wm_MaxConcurrency p) DefaultMaxConcurrency in
          if i32 (i64 (activeCount + 1)) > maxConc then Inl ErrMaxConcurrencyExceeded else Inr ())"

definition ValidateRetryLimit :: "work_message option \<Rightarrow> limit_error + unit" where
  "ValidateRetryLimit work =
     (case work of
        None \<Rightarrow> Inr ()
      | Some w \<Rightarrow>
          let maxRetries = positive_or (wm_MaxRetries w) DefaultMaxRetries in
          if i32 (wm_RetryCount w + 1) > maxRetries then Inl ErrMaxRetriesExceeded else Inr ())"

definition remaining_of :: "int \<Rightarrow> int \<Rightarrow> int" where
  "remaining_of limit used = (let r = i64 (limit - used) in if r < 0 then 0 else r)"

definition ValidateBudgetAvailability :: "work_message option \<Rightarrow> int \<Rightarrow> int \<Rightarrow> limit_error + unit" where
  "ValidateBudgetAvailability parent requestedTokens requestedUnits =
     (case parent of
        None \<Rightarrow> Inr ()
      | Some p \<Rightarrow>
          if wm_MaxTokens p > 0 \<and> requestedTokens > 0 \<and>
             requestedTokens > remaining_of (wm_MaxTokens p) (wm_UsedTokens p)
          then Inl ErrTokenBudgetExceeded
          else if wm_MaxWorkUnits p > 0 \<and> requestedUnits > 0 \<and>
             requestedUnits > remaining_of (wm_MaxWorkUnits p) (wm_UsedWorkUnits p)
          then Inl ErrWorkUnitBudgetExceeded
          else Inr ())"

definition minInt :: "int \<Rightarrow> int \<Rightarrow> int" where
  "minInt a b = (if a < b then a else b)"

definition row_budget :: "work_message \<Rightarrow> work_budget" where
  "row_budget p =
     \<lparr>wb_MaxDepth = wm_MaxDepth p, wb_MaxChildren = wm_MaxChildren p, wb_MaxFanOut = wm_MaxFanOut p,
      wb_MaxConcurrency = wm_MaxConcurrency p, wb_MaxRuntimeMs = wm_MaxRuntimeMs p,
      wb_MaxRetries = wm_MaxRetries p, wb_MaxTokens = wm_MaxTokens p,
      wb_MaxWorkUnits = wm_MaxWorkUnits p\<rparr>"

definition AllocateChildBudget :: "work_message option \<Rightarrow> work_budget option \<Rightarrow> work_budget" where
  "AllocateChildBudget parent requested =
     (let req = EffectiveBudget requested in
      case parent of
        None \<Rightarrow> req
      | Some p \<Rightarrow>
          let parentBudget = EffectiveBudget (Some (row_budget p)) in
          \<lparr>wb_MaxDepth = wb_MaxDepth parentBudget,
           wb_MaxChildren = minInt (wb_MaxChildren req) (wb_MaxChildren parentBudget),
           wb_MaxFanOut = minInt (wb_MaxFanOut req) (wb_MaxFanOut parentBudget),
           wb_MaxConcurrency = minInt (wb_MaxConcurrency req) (wb_MaxConcurrency parentBudget),
           wb_MaxRuntimeMs = minInt (wb_MaxRuntimeMs req) (wb_MaxRuntimeMs parentBudget),
           wb_MaxRetries = minInt (wb_MaxRetries req) (wb_MaxRetries parentBudget),
           wb_MaxTokens = (if wm_MaxTokens p > 0
              then minInt (wb_MaxTokens req) (remaining_of (wm_MaxTokens p) (wm_UsedTokens p))
              else wb_MaxTokens req),
           wb_MaxWorkUnits = (if wm_MaxWorkUnits p > 0
              then minInt (wb_MaxWorkUnits req) (remaining_of (wm_MaxWorkUnits p) (wm_UsedWorkUnits p))
              else wb_MaxWorkUnits req)\<rparr>)"

section \<open>Order and positivity\<close>

definition budget_positive :: "work_budget \<Rightarrow> bool" where
  "budget_positive b \<longleftrightarrow>
     0 < wb_MaxDepth b \<and> 0 < wb_MaxChildren b \<and> 0 < wb_MaxFanOut b \<and> 0 < wb_MaxConcurrency b \<and>
     0 < wb_MaxRuntimeMs b \<and> 0 < wb_MaxRetries b \<and> 0 < wb_MaxTokens b \<and> 0 < wb_MaxWorkUnits b"

text \<open>The limits a row can hold: its columns are \<open>INTEGER\<close> and \<open>BIGINT\<close>, non-negative.\<close>

definition budget_row_ok :: "work_message \<Rightarrow> bool" where
  "budget_row_ok w \<longleftrightarrow>
     work_nonnegative w \<and> usage_in_range w \<and> is_i64 (wm_MaxTokens w) \<and> is_i64 (wm_MaxWorkUnits w)"

lemma positive_or_pos [simp]: "0 < d \<Longrightarrow> 0 < positive_or x d"
  by (simp add: positive_or_def)

lemma EffectiveBudget_positive: "budget_positive (EffectiveBudget b)"
  by (cases b) (simp_all add: EffectiveBudget_def DefaultBudget_def budget_positive_def go_defs)

lemma EffectiveBudget_id: "budget_positive b \<Longrightarrow> EffectiveBudget (Some b) = b"
  by (cases b) (simp add: EffectiveBudget_def budget_positive_def positive_or_def)

lemma minInt_min: "minInt a b = min a b"
  by (simp add: minInt_def)

lemma remaining_of_eq:
  "is_i64 limit \<Longrightarrow> is_i64 used \<Longrightarrow> 0 \<le> limit \<Longrightarrow> 0 \<le> used \<Longrightarrow> remaining_of limit used = max 0 (limit - used)"
  by (simp add: remaining_of_def Let_def is_i64_def)

lemma remaining_of_nonneg: "0 \<le> remaining_of limit used"
  by (simp add: remaining_of_def Let_def)

lemma budget_row_ok_remaining:
  assumes "budget_row_ok p"
  shows "remaining_of (wm_MaxTokens p) (wm_UsedTokens p) = max 0 (wm_MaxTokens p - wm_UsedTokens p)"
    and "remaining_of (wm_MaxWorkUnits p) (wm_UsedWorkUnits p)
           = max 0 (wm_MaxWorkUnits p - wm_UsedWorkUnits p)"
  using assms
  by (simp_all add: budget_row_ok_def remaining_of_eq work_nonnegative_def usage_in_range_def)

section \<open>Properties\<close>

text \<open>C30: a child budget allocated from a parent row has the parent's effective depth limit and at
  most its effective limits on children, fan-out, concurrency, run time and retries, with the
  defaults for those the row leaves open; where the row has a token or work-unit limit the child
  gets at most what is left of it and never less than zero, and where it has none the child gets
  what it asks for, which no default of the parent bounds.\<close>

theorem AllocateChildBudget_bounded:
  assumes "budget_row_ok p" and "c = AllocateChildBudget (Some p) req"
  shows "wb_MaxDepth c = (if wm_MaxDepth p \<le> 0 then 8 else wm_MaxDepth p)
    \<and> wb_MaxChildren c \<le> (if wm_MaxChildren p \<le> 0 then 32 else wm_MaxChildren p)
    \<and> wb_MaxFanOut c \<le> (if wm_MaxFanOut p \<le> 0 then 16 else wm_MaxFanOut p)
    \<and> wb_MaxConcurrency c \<le> (if wm_MaxConcurrency p \<le> 0 then 10 else wm_MaxConcurrency p)
    \<and> wb_MaxRuntimeMs c \<le> (if wm_MaxRuntimeMs p \<le> 0 then 300000 else wm_MaxRuntimeMs p)
    \<and> wb_MaxRetries c \<le> (if wm_MaxRetries p \<le> 0 then 3 else wm_MaxRetries p)
    \<and> (if 0 < wm_MaxTokens p
       then 0 \<le> wb_MaxTokens c \<and> wb_MaxTokens c \<le> max 0 (wm_MaxTokens p - wm_UsedTokens p)
       else wb_MaxTokens c = wb_MaxTokens (EffectiveBudget req))
    \<and> (if 0 < wm_MaxWorkUnits p
       then 0 \<le> wb_MaxWorkUnits c \<and> wb_MaxWorkUnits c \<le> max 0 (wm_MaxWorkUnits p - wm_UsedWorkUnits p)
       else wb_MaxWorkUnits c = wb_MaxWorkUnits (EffectiveBudget req))"
  using budget_row_ok_remaining [OF assms(1)] EffectiveBudget_positive [of req] unfolding assms(2)
  by (simp add: AllocateChildBudget_def EffectiveBudget_def [of "Some b" for b] row_budget_def DefaultBudget_def
      budget_positive_def positive_or_def go_defs minInt_min Let_def)

lemma sample_row_ok: "budget_row_ok sample_row"
  by (simp add: budget_row_ok_def sample_row_def work_nonnegative_def usage_in_range_def
      is_i32_def is_i64_def)

theorem AllocateChildBudget_bounded_witness:
  "budget_row_ok sample_row \<and>
   wb_MaxTokens (AllocateChildBudget (Some sample_row) None) \<le> 60"
  using AllocateChildBudget_bounded [OF sample_row_ok refl, of None] sample_row_ok
  by (simp add: sample_row_def)

text \<open>A row whose token budget is used up hands its children the token limit 0, and a
  limit of 0 is not a limit: every token request below such a child is admitted, and the
  child's own children are again given whatever they ask for.\<close>

theorem exhausted_budget_is_unlimited:
  assumes "budget_row_ok p" and "0 < wm_MaxTokens p" and "wm_MaxTokens p \<le> wm_UsedTokens p"
  shows "wb_MaxTokens (AllocateChildBudget (Some p) req) = 0
    \<and> (\<forall>c tokens req'. wm_MaxTokens c = 0 \<longrightarrow>
         ValidateBudgetAvailability (Some c) tokens 0 = Inr () \<and>
         wb_MaxTokens (AllocateChildBudget (Some c) req') = wb_MaxTokens (EffectiveBudget req'))"
proof -
  have "0 < wb_MaxTokens (EffectiveBudget req)"
    using EffectiveBudget_positive [of req] by (simp add: budget_positive_def)
  with assms budget_row_ok_remaining(1) [OF assms(1)] show ?thesis
    by (simp add: AllocateChildBudget_def ValidateBudgetAvailability_def minInt_min Let_def)
qed

theorem exhausted_budget_is_unlimited_witness:
  "wb_MaxTokens (AllocateChildBudget (Some (sample_row\<lparr>wm_UsedTokens := 100\<rparr>)) None) = 0 \<and>
   ValidateBudgetAvailability (Some (sample_row\<lparr>wm_MaxTokens := 0\<rparr>)) 1000000000 0 = Inr ()"
proof -
  have ok: "budget_row_ok (sample_row\<lparr>wm_UsedTokens := 100\<rparr>)"
    by (simp add: budget_row_ok_def sample_row_def work_nonnegative_def usage_in_range_def
        is_i32_def is_i64_def)
  then show ?thesis
    using exhausted_budget_is_unlimited [OF ok, of None] by (auto simp: sample_row_def)
qed

text \<open>Below the greatest \<open>int32\<close>, the delegation check admits a child exactly when its
  depth is within the parent's depth limit and the parent's child count leaves room for one
  more; at the greatest \<open>int32\<close> the sum wraps and the child is admitted whatever the limit.\<close>

theorem ValidateDelegationLimits_iff:
  assumes "0 \<le> wm_UsedChildren p" and "is_i32 (wm_UsedChildren p)"
    and "is_i32 (wm_MaxChildren p)"
  shows "ValidateDelegationLimits (Some p) depth = Inr () \<longleftrightarrow>
     depth \<le> positive_or (wm_MaxDepth p) DefaultMaxDepth \<and>
     (wm_UsedChildren p < positive_or (wm_MaxChildren p) DefaultMaxChildren
      \<or> wm_UsedChildren p = 2147483647)"
proof (cases "wm_UsedChildren p = 2147483647")
  case True
  have "0 < positive_or (wm_MaxChildren p) DefaultMaxChildren"
    by (simp add: go_defs)
  with True show ?thesis
    by (simp add: ValidateDelegationLimits_def Let_def i32_overflow not_less)
      (simp add: i32_def)
next
  case False
  with assms have "i32 (wm_UsedChildren p + 1) = wm_UsedChildren p + 1"
    by (simp add: is_i32_def)
  with False show ?thesis
    by (auto simp: ValidateDelegationLimits_def Let_def not_less)
qed

theorem ValidateDelegationLimits_iff_witness:
  "ValidateDelegationLimits (Some sample_row) 1 = Inr () \<and>
   ValidateDelegationLimits (Some (sample_row\<lparr>wm_UsedChildren := 32\<rparr>)) 1 \<noteq> Inr ()"
  using ValidateDelegationLimits_iff [of sample_row 1]
    ValidateDelegationLimits_iff [of "sample_row\<lparr>wm_UsedChildren := 32\<rparr>" 1]
  by (simp add: sample_row_def is_i32_def positive_or_def)

lemma ValidateBudgetAvailability_tokens:
  assumes "budget_row_ok p" and "ValidateBudgetAvailability (Some p) k u = Inr ()"
    and "0 < wm_MaxTokens p" and "wm_UsedTokens p \<le> wm_MaxTokens p" and "0 \<le> k"
  shows "wm_UsedTokens p + k \<le> wm_MaxTokens p"
  using assms budget_row_ok_remaining(1) [OF assms(1)]
  by (auto simp: ValidateBudgetAvailability_def split: if_splits)

lemma ValidateBudgetAvailability_units:
  assumes "budget_row_ok p" and "ValidateBudgetAvailability (Some p) k u = Inr ()"
    and "0 < wm_MaxWorkUnits p" and "wm_UsedWorkUnits p \<le> wm_MaxWorkUnits p" and "0 \<le> u"
  shows "wm_UsedWorkUnits p + u \<le> wm_MaxWorkUnits p"
  using assms budget_row_ok_remaining(2) [OF assms(1)]
  by (auto simp: ValidateBudgetAvailability_def split: if_splits)

end
