(* ===== verification/Task_Graph.thy ===== *)
theory Task_Graph
  imports Budget
begin

text \<open>
  Cycle detection before a delegation edge is committed,
  \<open>backend/a2a/orchestration/graph.go\<close>: the detector over the work store, whose walk up
  the parent chain stops after 100 rows, and the in-memory task graph. Shown here: which
  edges the graph's check accepts, that \<open>GetDescendants\<close> returns every descendant once, and
  that the store's detector accepts exactly when the child is not among the first 100 ancestors.
\<close>

section \<open>Errors of the orchestrator\<close>

datatype orch_error =
    ErrDirectCycle
  | ErrIndirectCycle
  | ErrParentTerminal
  | ErrOrchestrationWorkNotFound
  | ErrLimit limit_error
  | ErrStore store_error
  | ErrEmptyFanOut
  | ErrNonTerminal string

section \<open>The detector over the work store\<close>

fun ancestor_loop ::
  "nat \<Rightarrow> work_db \<Rightarrow> string \<Rightarrow> string \<Rightarrow> string \<Rightarrow> string list \<Rightarrow> orch_error + unit" where
  "ancestor_loop 0 db t child currentID visited = Inr ()"
| "ancestor_loop (Suc n) db t child currentID visited =
     (case GetWork db t currentID of
        Inl e \<Rightarrow> if e = ErrWorkNotFound then Inr () else Inl (ErrStore e)
      | Inr parentWork \<Rightarrow>
          (case wm_ParentWorkID parentWork of
             None \<Rightarrow> Inr ()
           | Some ancestorID \<Rightarrow>
               if ancestorID = [] then Inr ()
               else if ancestorID = child then Inl ErrIndirectCycle
               else if ancestorID \<in> set visited then Inl ErrIndirectCycle
               else ancestor_loop n db t child ancestorID (ancestorID # visited)))"

text \<open>A detector without a store is \<open>None\<close>.\<close>

definition CheckProposedEdge ::
  "work_db option \<Rightarrow> string \<Rightarrow> string \<Rightarrow> string \<Rightarrow> orch_error + unit" where
  "CheckProposedEdge store tenantID parentWorkID proposedChildWorkID =
     (if parentWorkID = [] \<or> proposedChildWorkID = [] then Inr ()
      else if parentWorkID = proposedChildWorkID then Inl ErrDirectCycle
      else case store of
        None \<Rightarrow> Inr ()
      | Some db \<Rightarrow>
          ancestor_loop 100 db (tenant_or_default tenantID) proposedChildWorkID parentWorkID
            [parentWorkID])"

section \<open>The in-memory graph\<close>

record task_node =
  tn_WorkID :: string
  tn_ParentID :: string
  tn_State :: string
  tn_Depth :: int

record task_graph =
  tg_nodes :: "(string \<times> task_node) list"
  tg_edges :: "(string \<times> string list) list"
  tg_backEdges :: "(string \<times> string) list"

definition NewTaskGraph :: task_graph where
  "NewTaskGraph = \<lparr>tg_nodes = [], tg_edges = [], tg_backEdges = []\<rparr>"

definition tg_children :: "task_graph \<Rightarrow> string \<Rightarrow> string list" where
  "tg_children g i = (case map_of (tg_edges g) i of None \<Rightarrow> [] | Some cs \<Rightarrow> cs)"

definition AddNode :: "task_graph \<Rightarrow> task_node \<Rightarrow> task_graph" where
  "AddNode g node =
     (let g1 = g\<lparr>tg_nodes := assoc_set (tn_WorkID node) node (tg_nodes g)\<rparr> in
      if tn_ParentID node \<noteq> []
      then g1\<lparr>tg_edges := assoc_set (tn_ParentID node)
                (tg_children g (tn_ParentID node) @ [tn_WorkID node]) (tg_edges g),
              tg_backEdges := assoc_set (tn_WorkID node) (tn_ParentID node) (tg_backEdges g)\<rparr>
      else g1)"

function check_cycle_loop :: "task_graph \<Rightarrow> string \<Rightarrow> string \<Rightarrow> string list \<Rightarrow> orch_error + unit" where
  "check_cycle_loop g childID cur visited =
     (case map_of (tg_backEdges g) cur of
        None \<Rightarrow> Inr ()
      | Some p \<Rightarrow>
          if p = [] then Inr ()
          else if p = childID then Inl ErrIndirectCycle
          else if p \<in> set visited then Inl ErrIndirectCycle
          else check_cycle_loop g childID p (p # visited))"
  by pat_completeness auto
termination
proof (relation "measure (\<lambda>(g, c, cur, visited). card (snd ` set (tg_backEdges g) - set visited))",
    goal_cases)
  case 1
  then show ?case by simp
next
  case (2 g childID cur visited p)
  then have "p \<in> snd ` set (tg_backEdges g)"
    by (force dest: map_of_SomeD)
  with 2 have "snd ` set (tg_backEdges g) - set (p # visited)
      \<subset> snd ` set (tg_backEdges g) - set visited"
    by auto
  then show ?case by (simp add: psubset_card_mono)
qed

declare check_cycle_loop.simps [simp del]

definition CheckCycle :: "task_graph \<Rightarrow> string \<Rightarrow> string \<Rightarrow> orch_error + unit" where
  "CheckCycle g parentID childID =
     (if parentID = childID then Inl ErrDirectCycle
      else check_cycle_loop g childID parentID [parentID])"

definition tg_universe :: "task_graph \<Rightarrow> string list \<Rightarrow> string set" where
  "tg_universe g seen = (\<Union>(k, cs)\<in>set (tg_edges g). set cs) - set seen"

function tg_descendants_loop ::
  "task_graph \<Rightarrow> string list \<Rightarrow> string list \<Rightarrow> string list \<Rightarrow> string list" where
  "tg_descendants_loop g [] visited descendants = descendants"
| "tg_descendants_loop g (cur # queue) visited descendants =
     (let new = fresh visited (tg_children g cur) in
      tg_descendants_loop g (queue @ new) (new @ visited) (descendants @ new))"
  by pat_completeness auto
termination
proof (relation "measure (\<lambda>(g, queue, visited, d). card (tg_universe g visited) + length queue)",
    goal_cases)
  case 1
  then show ?case by simp
next
  case (2 g cur queue visited descendants new)
  have fin: "finite (tg_universe g visited)"
    by (auto simp: tg_universe_def)
  have sub: "set new \<subseteq> tg_universe g visited"
    using 2 by (auto simp: tg_universe_def tg_children_def split: option.splits dest!: map_of_SomeD)
  have eq: "tg_universe g (new @ visited) = tg_universe g visited - set new"
    by (auto simp: tg_universe_def)
  have "card (set new) = length new"
    using 2 distinct_fresh distinct_card by metis
  moreover have "card (set new) \<le> card (tg_universe g visited)"
    using sub fin by (rule card_mono [rotated])
  moreover have "card (tg_universe g visited - set new) = card (tg_universe g visited) - card (set new)"
    using sub by (intro card_Diff_subset) auto
  ultimately show ?case by (simp add: eq)
qed

definition GetDescendants :: "task_graph \<Rightarrow> string \<Rightarrow> string list" where
  "GetDescendants g rootID = tg_descendants_loop g [rootID] [rootID] []"

section \<open>The graph's relations\<close>

definition back_rel :: "task_graph \<Rightarrow> (string \<times> string) set" where
  "back_rel g = {(x, p). map_of (tg_backEdges g) x = Some p \<and> p \<noteq> []}"

definition edge_rel :: "task_graph \<Rightarrow> (string \<times> string) set" where
  "edge_rel g = {(p, c). c \<in> set (tg_children g p)}"

lemma back_rel_single: "(x, p) \<in> back_rel g \<Longrightarrow> (x, q) \<in> back_rel g \<Longrightarrow> p = q"
  by (simp add: back_rel_def)

text \<open>The walk from a node visits its ancestors in order; the visited list is the path.\<close>

lemma check_cycle_loop_sound:
  assumes "check_cycle_loop g c cur visited = Inr ()" and "c \<noteq> cur"
  shows "(cur, c) \<notin> (back_rel g)\<^sup>*"
  using assms
proof (induction g c cur visited rule: check_cycle_loop.induct)
  case (1 g c cur visited)
  show ?case
  proof
    assume "(cur, c) \<in> (back_rel g)\<^sup>*"
    with "1.prems"(2) obtain p where p: "(cur, p) \<in> back_rel g" "(p, c) \<in> (back_rel g)\<^sup>*"
      by (metis converse_rtranclE)
    then have look: "map_of (tg_backEdges g) cur = Some p" "p \<noteq> []"
      by (auto simp: back_rel_def)
    with "1.prems"(1) have "p \<noteq> c" "p \<notin> set visited" "check_cycle_loop g c p (p # visited) = Inr ()"
      by (auto simp: check_cycle_loop.simps [of g c cur visited] split: if_splits)
    with "1.IH" [OF look(1)] look p show False by auto
  qed
qed

lemma check_cycle_loop_no_cycle:
  assumes "check_cycle_loop g c cur visited = Inr ()"
  shows "\<not> (\<exists>x. (cur, x) \<in> (back_rel g)\<^sup>* \<and> (x, x) \<in> (back_rel g)\<^sup>+)"
  using assms
proof (induction g c cur visited rule: check_cycle_loop.induct)
  case (1 g c cur visited)
  show ?case
  proof
    assume "\<exists>x. (cur, x) \<in> (back_rel g)\<^sup>* \<and> (x, x) \<in> (back_rel g)\<^sup>+"
    then obtain x where x: "(cur, x) \<in> (back_rel g)\<^sup>*" "(x, x) \<in> (back_rel g)\<^sup>+" by blast
    then have "(cur, x) \<in> (back_rel g)\<^sup>+" by auto
    then obtain p where p: "(cur, p) \<in> back_rel g" "(p, x) \<in> (back_rel g)\<^sup>*" by (meson tranclD)
    then have look: "map_of (tg_backEdges g) cur = Some p" "p \<noteq> []" by (auto simp: back_rel_def)
    with "1.prems" have "p \<noteq> c" "p \<notin> set visited" "check_cycle_loop g c p (p # visited) = Inr ()"
      by (auto simp: check_cycle_loop.simps [of g c cur visited] split: if_splits)
    with "1.IH" [OF look(1)] look p(2) x(2) show False by blast
  qed
qed

lemma check_cycle_loop_complete:
  assumes "\<not> (\<exists>x. (cur, x) \<in> (back_rel g)\<^sup>* \<and> (x, x) \<in> (back_rel g)\<^sup>+)" and "(cur, c) \<notin> (back_rel g)\<^sup>*"
    and "\<forall>v\<in>set visited. (v, cur) \<in> (back_rel g)\<^sup>*"
  shows "check_cycle_loop g c cur visited = Inr ()"
  using assms
proof (induction g c cur visited rule: check_cycle_loop.induct)
  case (1 g c cur visited)
  show ?case
  proof (cases "map_of (tg_backEdges g) cur")
    case None
    then show ?thesis by (simp add: check_cycle_loop.simps)
  next
    case (Some p)
    show ?thesis
    proof (cases "p = []")
      case True
      with Some show ?thesis by (simp add: check_cycle_loop.simps)
    next
      case False
      with Some have edge: "(cur, p) \<in> back_rel g" by (simp add: back_rel_def)
      have fresh: "p \<notin> set visited"
      proof
        assume "p \<in> set visited"
        with "1.prems"(3) edge have "(cur, cur) \<in> (back_rel g)\<^sup>+" by (meson rtrancl_into_trancl2)
        with "1.prems"(1) show False by blast
      qed
      have notc: "(p, c) \<notin> (back_rel g)\<^sup>*"
        using "1.prems"(2) edge by (meson converse_rtrancl_into_rtrancl)
      then have "p \<noteq> c" by auto
      have none: "\<not> (\<exists>x. (p, x) \<in> (back_rel g)\<^sup>* \<and> (x, x) \<in> (back_rel g)\<^sup>+)"
        using "1.prems"(1) edge by (meson converse_rtrancl_into_rtrancl)
      have path: "\<forall>v\<in>set (p # visited). (v, p) \<in> (back_rel g)\<^sup>*"
        using "1.prems"(3) edge by (auto intro: rtrancl_into_rtrancl)
      have "check_cycle_loop g c p (p # visited) = Inr ()"
        using "1.IH" [OF Some False \<open>p \<noteq> c\<close> fresh none notc path] .
      with Some False \<open>p \<noteq> c\<close> fresh show ?thesis
        by (simp add: check_cycle_loop.simps [of g c cur visited])
    qed
  qed
qed

lemma tg_descendants_run:
  "bfs_run (tg_children g) queue visited d (tg_descendants_loop g queue visited d)"
proof (induction g queue visited d rule: tg_descendants_loop.induct)
  case (1 g visited d)
  show ?case by (simp add: bfs_done)
next
  case (2 g cur queue visited d)
  show ?case using "2.IH" [OF refl] by (auto simp: Let_def intro: bfs_visit)
qed

section \<open>Properties\<close>

text \<open>C28: on every graph, whatever was added to it, \<open>CheckCycle\<close> accepts an edge exactly when the
  child is neither the parent nor one of its ancestors and no cycle is among the ancestors.\<close>

theorem CheckCycle_exact:
  "CheckCycle g p c = Inr () \<longleftrightarrow>
     (p, c) \<notin> (back_rel g)\<^sup>* \<and> \<not> (\<exists>x. (p, x) \<in> (back_rel g)\<^sup>* \<and> (x, x) \<in> (back_rel g)\<^sup>+)"
  using check_cycle_loop_sound [of g c p "[p]"] check_cycle_loop_complete [of p g c "[p]"] check_cycle_loop_no_cycle [of g c p "[p]"]
  by (auto simp: CheckCycle_def)

text \<open>A node that is added again with another parent stays a child of the first one, where
  \<open>CheckCycle\<close> does not look: each of these three edges is accepted, and \<open>A\<close> and \<open>B\<close> are descendants
  of each other.\<close>

definition sample_node :: "string \<Rightarrow> string \<Rightarrow> task_node" where
  "sample_node i p = \<lparr>tn_WorkID = i, tn_ParentID = p, tn_State = [], tn_Depth = 0\<rparr>"

theorem moved_node_hides_cycle:
  "let g1 = AddNode NewTaskGraph (sample_node ''A'' ''B'');
       g2 = AddNode g1 (sample_node ''A'' ''C'');
       g3 = AddNode g2 (sample_node ''B'' ''A'')
   in CheckCycle NewTaskGraph ''B'' ''A'' = Inr () \<and> CheckCycle g1 ''C'' ''A'' = Inr () \<and> CheckCycle g2 ''A'' ''B'' = Inr () \<and>
      ''B'' \<in> set (GetDescendants g3 ''A'') \<and> ''A'' \<in> set (GetDescendants g3 ''B'')"
  by code_simp

text \<open>\<open>GetDescendants\<close> ends on every graph, cyclic or not, and returns each node that is
  reachable from the root over child edges exactly once, without the root itself.\<close>

theorem GetDescendants_exact:
  "distinct (GetDescendants g r) \<and> set (GetDescendants g r) = {y. (r, y) \<in> (edge_rel g)\<^sup>+} - {r}"
proof -
  have "succ_rel (tg_children g) = edge_rel g"
    by (simp add: succ_rel_def edge_rel_def)
  then show ?thesis
    using bfs_run_reachable [OF tg_descendants_run [of g "[r]" "[r]" "[]"]]
    by (simp add: GetDescendants_def)
qed

section \<open>The store's detector\<close>

definition parent_of :: "work_db \<Rightarrow> string \<Rightarrow> string \<Rightarrow> string option" where
  "parent_of db t i =
     (case work_row db t i of
        None \<Rightarrow> None
      | Some w \<Rightarrow> (case wm_ParentWorkID w of None \<Rightarrow> None | Some p \<Rightarrow> if p = [] then None else Some p))"

fun nth_ancestor :: "work_db \<Rightarrow> string \<Rightarrow> nat \<Rightarrow> string \<Rightarrow> string option" where
  "nth_ancestor db t 0 i = Some i"
| "nth_ancestor db t (Suc k) i = Option.bind (parent_of db t i) (nth_ancestor db t k)"

lemma parent_of_rel:
  assumes "parent_of db t i = Some p"
  shows "(p, i) \<in> parent_rel db t"
proof -
  from assms obtain w where w: "work_row db t i = Some w" "wm_ParentWorkID w = Some p"
    by (auto simp: parent_of_def split: option.splits if_splits)
  from find_Some_in [of _ _ w] w(1) have "w \<in> set (wdb_works db)" "work_key w = (t, i)"
    by (auto simp: work_row_def)
  with w(2) show ?thesis by (auto simp: parent_rel_of_def work_key_def)
qed

lemma ancestor_loop_step:
  assumes "\<And>i. \<not> wdb_fault db (QGetWork t i)" and "tenant_or_default t = t"
  shows "ancestor_loop (Suc n) db t c cur vis =
     (case parent_of db t cur of
        None \<Rightarrow> Inr ()
      | Some a \<Rightarrow> if a = c \<or> a \<in> set vis then Inl ErrIndirectCycle
                   else ancestor_loop n db t c a (a # vis))"
  using assms by (auto simp: GetWork_def parent_of_def split: option.splits)

declare ancestor_loop.simps(2) [simp del]

lemma ancestor_loop_iff:
  assumes nf: "\<And>i. \<not> wdb_fault db (QGetWork t i)" and t: "tenant_or_default t = t"
    and ac: "acyclic (parent_rel db t)"
    and vis: "\<forall>v\<in>set vis. (cur, v) \<in> (parent_rel db t)\<^sup>*"
  shows "ancestor_loop n db t c cur vis = Inr () \<longleftrightarrow>
           (\<forall>k. 1 \<le> k \<and> k \<le> n \<longrightarrow> nth_ancestor db t k cur \<noteq> Some c)"
  using vis
proof (induction n arbitrary: cur vis)
  case 0
  then show ?case by simp
next
  case (Suc n)
  show ?case
  proof (cases "parent_of db t cur")
    case None
    have "nth_ancestor db t k cur = None" if "1 \<le> k" for k
      using None that by (cases k) auto
    with None show ?thesis by (simp add: ancestor_loop_step [OF nf t])
  next
    case (Some a)
    have edge: "(a, cur) \<in> parent_rel db t" by (rule parent_of_rel [OF Some])
    have fresh: "a \<notin> set vis"
    proof
      assume "a \<in> set vis"
      with Suc.prems edge have "(a, a) \<in> (parent_rel db t)\<^sup>+"
        by (meson rtrancl_into_trancl2)
      with ac show False by (simp add: acyclic_def)
    qed
    have path: "\<forall>v\<in>set (a # vis). (a, v) \<in> (parent_rel db t)\<^sup>*"
      using Suc.prems edge by (auto intro: converse_rtrancl_into_rtrancl)
    have shift: "(\<forall>k. 1 \<le> k \<and> k \<le> Suc n \<longrightarrow> nth_ancestor db t k cur \<noteq> Some c) \<longleftrightarrow>
        a \<noteq> c \<and> (\<forall>k. 1 \<le> k \<and> k \<le> n \<longrightarrow> nth_ancestor db t k a \<noteq> Some c)" (is "?L = ?R")
    proof
      assume L: ?L
      from L [rule_format, of 1] Some have "a \<noteq> c" by simp
      moreover have "nth_ancestor db t k a \<noteq> Some c" if "1 \<le> k \<and> k \<le> n" for k
        using L [rule_format, of "Suc k"] Some that by simp
      ultimately show ?R by blast
    next
      assume R: ?R
      show ?L
      proof (intro allI impI)
        fix k assume "1 \<le> k \<and> k \<le> Suc n"
        then show "nth_ancestor db t k cur \<noteq> Some c"
          using R Some by (cases k; cases "k = 1") auto
      qed
    qed
    from Suc.IH [OF path] show ?thesis
      unfolding shift by (simp add: ancestor_loop_step [OF nf t] Some fresh)
  qed
qed

text \<open>C29: on a well-formed work table the detector rejects a proposed edge exactly when the
  child is the parent itself or one of the parent's first 100 ancestors; beyond the hundredth
  ancestor it accepts.\<close>

theorem CheckProposedEdge_iff:
  assumes "work_table_inv db" and "\<forall>i. \<not> wdb_fault db (QGetWork (tenant_or_default t) i)"
    and "p \<noteq> []" and "c \<noteq> []"
  shows "CheckProposedEdge (Some db) t p c = Inr () \<longleftrightarrow>
     (\<forall>k\<le>100. nth_ancestor db (tenant_or_default t) k p \<noteq> Some c)"
proof -
  have split: "(\<forall>k\<le>100. Q k) \<longleftrightarrow> Q 0 \<and> (\<forall>k. 1 \<le> k \<and> k \<le> 100 \<longrightarrow> Q k)" for Q :: "nat \<Rightarrow> bool"
    by (metis One_nat_def less_Suc0 linorder_not_less zero_le)
  have "ancestor_loop 100 db (tenant_or_default t) c p [p] = Inr () \<longleftrightarrow>
      (\<forall>k. 1 \<le> k \<and> k \<le> 100 \<longrightarrow> nth_ancestor db (tenant_or_default t) k p \<noteq> Some c)"
    using assms(1,2) by (intro ancestor_loop_iff) (auto intro: work_table_acyclic)
  with assms(3,4) show ?thesis
    unfolding split by (auto simp: CheckProposedEdge_def)
qed

theorem CheckProposedEdge_iff_witness:
  "CheckProposedEdge (Some sample_tree_db) ''default'' ''w2'' ''w1'' = Inl ErrIndirectCycle \<and>
   (\<exists>k\<le>100. nth_ancestor sample_tree_db ''default'' k ''w2'' = Some ''w1'')"
proof -
  have "CheckProposedEdge (Some sample_tree_db) ''default'' ''w2'' ''w1'' = Inl ErrIndirectCycle"
    by (simp add: CheckProposedEdge_def numeral_eq_Suc ancestor_loop.simps tenant_or_default_def
        sample_tree_get sample_kid_def)
  then show ?thesis
    using CheckProposedEdge_iff [OF sample_tree_inv, of "''default''" "''w2''" "''w1''"]
    by (simp add: sample_tree_no_fault tenant_or_default_def)
qed

end
