(* ===== verification/Trace.thy ===== *)
theory Trace
  imports Work_Store
begin

text \<open>
  The audit trail, \<open>backend/a2a/trace.go\<close>: redaction of metadata and free text, and the
  recorder that appends sanitized events to the work event log. The two regular expressions
  are written out as matchers with the semantics of package \<open>regexp\<close>: leftmost match,
  greedy repetitions, case-insensitive letters with Unicode's two extra folds (U+212A for
  \<open>k\<close>, U+017F for \<open>s\<close>). Consecutive parts of both expressions accept disjoint
  characters, so the greedy match never backtracks. Shown here: which metadata keys survive,
  that recording extends the log of one work record by the next sequence number and touches
  no work row, and a value whose credential survives redaction.
\<close>

section \<open>Matching\<close>

definition fold_rune :: "string \<Rightarrow> (char \<times> string) option" where
  "fold_rune s =
     (case s of
        [] \<Rightarrow> None
      | c # r \<Rightarrow>
          if starts_with [CHR 0xE2, CHR 0x84, CHR 0xAA] s then Some (CHR ''k'', drop 3 s)
          else if starts_with [CHR 0xC5, CHR 0xBF] s then Some (CHR ''s'', drop 2 s)
          else Some (ascii_lower c, r))"

text \<open>\<open>match_ci lit s\<close> is what follows the literal at the start of \<open>s\<close>, if it is there.\<close>

fun match_ci :: "string \<Rightarrow> string \<Rightarrow> string option" where
  "match_ci [] s = Some s"
| "match_ci (p # ps) s =
     (case fold_rune s of
        None \<Rightarrow> None
      | Some (c, r) \<Rightarrow> if c = p then match_ci ps r else None)"

definition re_space :: "char \<Rightarrow> bool" where
  "re_space c \<longleftrightarrow> c \<in> {CHR 0x09, CHR 0x0A, CHR 0x0C, CHR 0x0D, CHR 0x20}"

definition bearer_char :: "char \<Rightarrow> bool" where
  "bearer_char c \<longleftrightarrow>
     (let n = of_char c :: nat in
      (65 \<le> n \<and> n \<le> 90) \<or> (97 \<le> n \<and> n \<le> 122) \<or> (48 \<le> n \<and> n \<le> 57)) \<or>
     c \<in> {CHR ''-'', CHR ''.'', CHR ''_'', CHR ''~'', CHR ''+'', CHR ''/''}"

fun drop_bearer :: "string \<Rightarrow> string" where
  "drop_bearer [] = []"
| "drop_bearer (c # s) =
     (if starts_with [CHR 0xE2, CHR 0x84, CHR 0xAA] (c # s) then drop_bearer (drop 2 s)
      else if starts_with [CHR 0xC5, CHR 0xBF] (c # s) then drop_bearer (drop 1 s)
      else if bearer_char c then drop_bearer s
      else c # s)"

definition match_bearer :: "string \<Rightarrow> string option" where
  "match_bearer s =
     (case match_ci ''bearer'' s of
        None \<Rightarrow> None
      | Some r \<Rightarrow>
          let r1 = dropWhile re_space r; r2 = drop_bearer r1 in
          if r1 = r \<or> r2 = r1 then None else Some (dropWhile (\<lambda>c. c = CHR ''='') r2))"

definition match_secret_word :: "string \<Rightarrow> string option" where
  "match_secret_word s =
     (case (case match_ci ''api'' s of
              None \<Rightarrow> None
            | Some r \<Rightarrow>
                (case r of
                   [] \<Rightarrow> None
                 | c # r' \<Rightarrow> if c = CHR ''_'' \<or> c = CHR ''-'' then match_ci ''key'' r'
                             else match_ci ''key'' r)) of
        Some r \<Rightarrow> Some r
      | None \<Rightarrow>
          (case match_ci ''secret'' s of Some r \<Rightarrow> Some r | None \<Rightarrow>
            (case match_ci ''password'' s of Some r \<Rightarrow> Some r | None \<Rightarrow> match_ci ''token'' s)))"

definition secret_value_char :: "char \<Rightarrow> bool" where
  "secret_value_char c \<longleftrightarrow> \<not> re_space c \<and> c \<noteq> CHR '','' \<and> c \<noteq> CHR '';''"

text \<open>The result is the text of group 1 and what follows the match.\<close>

definition match_secret :: "string \<Rightarrow> (string \<times> string) option" where
  "match_secret s =
     (case match_secret_word s of
        None \<Rightarrow> None
      | Some r \<Rightarrow>
          (case dropWhile re_space r of
             [] \<Rightarrow> None
           | c # r1 \<Rightarrow>
               if c = CHR '':'' \<or> c = CHR ''='' then
                 let r2 = dropWhile re_space r1; r3 = dropWhile secret_value_char r2 in
                 if r3 = r2 then None else Some (take (length s - length r) s, r3)
               else None))"

section \<open>Redaction\<close>

function replace_all :: "(string \<Rightarrow> (string \<times> string) option) \<Rightarrow> string \<Rightarrow> string" where
  "replace_all m [] = []"
| "replace_all m (c # s) =
     (case m (c # s) of
        None \<Rightarrow> c # replace_all m s
      | Some (out, r) \<Rightarrow>
          if length r < length (c # s) then out @ replace_all m r else c # replace_all m s)"
  by pat_completeness auto
termination by (relation "measure (\<lambda>(m, s). length s)") auto

definition sanitizeValue :: "string \<Rightarrow> string" where
  "sanitizeValue val =
     replace_all (\<lambda>s. map_option (\<lambda>(w, r). (w @ ''=[REDACTED]'', r)) (match_secret s))
       (replace_all (\<lambda>s. map_option (\<lambda>r. (''Bearer [REDACTED]'', r)) (match_bearer s)) val)"

definition sensitiveKeyPatterns :: "string list" where
  "sensitiveKeyPatterns =
     [''token'', ''secret'', ''password'', ''key'', ''auth'', ''authorization'',
      ''bearer'', ''credential'', ''cookie'', ''cert'', ''private'']"

definition hiddenReasoningKeyPatterns :: "string list" where
  "hiddenReasoningKeyPatterns =
     [''thought'', ''thinking'', ''hidden_reasoning'', ''prompt'', ''raw_prompt'',
      ''cot'', ''chain_of_thought'', ''internal_thought'']"

definition matchesAnyPattern :: "string \<Rightarrow> string list \<Rightarrow> bool" where
  "matchesAnyPattern key patterns \<longleftrightarrow> (\<exists>p\<in>set patterns. string_contains key p)"

definition SanitizeMetadata :: "(string \<times> string) list \<Rightarrow> (string \<times> string) list" where
  "SanitizeMetadata raw =
     map (\<lambda>(k, v). (k, sanitizeValue v))
       (filter (\<lambda>(k, v). \<not> matchesAnyPattern (to_lower k) hiddenReasoningKeyPatterns \<and>
                         \<not> matchesAnyPattern (to_lower k) sensitiveKeyPatterns) raw)"

section \<open>The recorder\<close>

record trace_event =
  te_TenantID :: string
  te_EventID :: string
  te_WorkID :: string
  te_TraceID :: string
  te_RootTraceID :: string
  te_SpanID :: string
  te_ParentSpanID :: string
  te_EventType :: string
  te_ProviderID :: string
  te_SessionID :: string
  te_PolicyDecision :: string
  te_RetryCount :: int
  te_TerminalReason :: string
  te_Metadata :: "(string \<times> string) list"
  te_CreatedAt :: instant
  te_Sequence :: nat

definition TraceEventDelegation :: string where "TraceEventDelegation = ''DELEGATION''"
definition TraceEventPolicyLimit :: string where "TraceEventPolicyLimit = ''POLICY_LIMIT''"
definition TraceEventCancellation :: string where "TraceEventCancellation = ''CANCELLATION''"
definition TraceEventTerminalOutcome :: string where "TraceEventTerminalOutcome = ''TERMINAL_OUTCOME''"

text \<open>The fields a caller leaves at their zero value.\<close>

definition zero_trace_event :: trace_event where
  "zero_trace_event =
     \<lparr>te_TenantID = [], te_EventID = [], te_WorkID = [], te_TraceID = [], te_RootTraceID = [],
      te_SpanID = [], te_ParentSpanID = [], te_EventType = [], te_ProviderID = [], te_SessionID = [],
      te_PolicyDecision = [], te_RetryCount = 0, te_TerminalReason = [], te_Metadata = [],
      te_CreatedAt = 0, te_Sequence = 0\<rparr>"

definition trace_event_row :: "trace_event \<Rightarrow> work_event" where
  "trace_event_row e =
     \<lparr>we_TenantID = te_TenantID e, we_EventID = te_EventID e, we_WorkID = te_WorkID e,
      we_Sequence = te_Sequence e, we_TraceID = te_TraceID e, we_RootTraceID = te_RootTraceID e,
      we_SpanID = te_SpanID e, we_ParentSpanID = te_ParentSpanID e, we_EventType = te_EventType e,
      we_ProviderID = te_ProviderID e, we_SessionID = te_SessionID e,
      we_PolicyDecision = te_PolicyDecision e, we_RetryCount = te_RetryCount e,
      we_TerminalReason = te_TerminalReason e, we_Metadata = te_Metadata e,
      we_CreatedAt = te_CreatedAt e\<rparr>"

text \<open>\<open>newID\<close> is what \<open>uuid.New\<close> returns, \<open>None\<close> a recorder without a store.\<close>

definition Record ::
  "work_db option \<Rightarrow> instant \<Rightarrow> string \<Rightarrow> trace_event \<Rightarrow> (store_error + trace_event) \<times> work_db option" where
  "Record store now newID event =
     (let e = event\<lparr>te_TenantID := tenant_or_default (te_TenantID event),
                    te_EventID := (if te_EventID event = [] then newID else te_EventID event),
                    te_CreatedAt := (if time_is_zero (te_CreatedAt event) then now else te_CreatedAt event),
                    te_Metadata := SanitizeMetadata (te_Metadata event),
                    te_TerminalReason := sanitizeValue (te_TerminalReason event)\<rparr> in
      case store of
        None \<Rightarrow> (Inr e, None)
      | Some db \<Rightarrow>
          if te_WorkID e = [] then (Inr e, Some db)
          else case GetLatestWorkEventSequence db (te_TenantID e) (te_WorkID e) of
            Inl err \<Rightarrow> (Inl err, Some db)
          | Inr latestSeq \<Rightarrow>
              let e' = e\<lparr>te_Sequence := u64 (latestSeq + 1)\<rparr> in
              (case AppendWorkEvent db now (trace_event_row e') of
                 (Inl err, db') \<Rightarrow> (Inl err, Some db')
               | (Inr _, db') \<Rightarrow> (Inr e', Some db')))"

definition row_trace_event :: "work_event \<Rightarrow> trace_event" where
  "row_trace_event m =
     \<lparr>te_TenantID = we_TenantID m, te_EventID = we_EventID m, te_WorkID = we_WorkID m,
      te_TraceID = we_TraceID m, te_RootTraceID = we_RootTraceID m, te_SpanID = we_SpanID m,
      te_ParentSpanID = we_ParentSpanID m, te_EventType = we_EventType m,
      te_ProviderID = we_ProviderID m, te_SessionID = we_SessionID m,
      te_PolicyDecision = we_PolicyDecision m, te_RetryCount = we_RetryCount m,
      te_TerminalReason = we_TerminalReason m, te_Metadata = we_Metadata m,
      te_CreatedAt = we_CreatedAt m, te_Sequence = we_Sequence m\<rparr>"

definition ListEvents ::
  "work_db option \<Rightarrow> string \<Rightarrow> string \<Rightarrow> nat \<Rightarrow> int \<Rightarrow> store_error + trace_event list" where
  "ListEvents store tenantID workID afterSequence limit =
     (case store of
        None \<Rightarrow> Inr []
      | Some db \<Rightarrow>
          (case ListWorkEvents db (tenant_or_default tenantID) workID afterSequence limit of
             Inl e \<Rightarrow> Inl e
           | Inr msgs \<Rightarrow> Inr (map row_trace_event msgs)))"

section \<open>Lemmas\<close>

lemma Record_works:
  "Record (Some db) now i e = (res, st) \<Longrightarrow>
     \<exists>db'. st = Some db' \<and> wdb_works db' = wdb_works db \<and> wdb_fault db' = wdb_fault db \<and>
           wdb_orgs db' = wdb_orgs db \<and> wdb_contexts db' = wdb_contexts db"
  by (auto simp: Record_def AppendWorkEvent_def Let_def split: if_splits sum.splits)

lemma Record_None: "snd (Record None now i e) = None"
  by (simp add: Record_def Let_def)

lemma foldr_max_ge: "x \<in> set xs \<Longrightarrow> x \<le> foldr max xs (0::nat)"
  by (induction xs) auto

lemma foldr_max_mem: "foldr max xs (0::nat) = 0 \<or> foldr max xs 0 \<in> set xs"
  by (induction xs) (auto simp: max_def)

section \<open>Properties\<close>

text \<open>Sanitizing keeps exactly the metadata keys that contain, in lower case, no credential
  and no hidden-reasoning pattern, in their order, and every kept value is redacted.\<close>

theorem SanitizeMetadata_keys:
  "map fst (SanitizeMetadata raw) =
     filter (\<lambda>k. \<forall>p\<in>set (hiddenReasoningKeyPatterns @ sensitiveKeyPatterns).
               \<not> string_contains (to_lower k) p) (map fst raw)
   \<and> (\<forall>(k, v)\<in>set (SanitizeMetadata raw). \<exists>v0. (k, v0) \<in> set raw \<and> v = sanitizeValue v0)"
proof (rule conjI)
  show "map fst (SanitizeMetadata raw) =
     filter (\<lambda>k. \<forall>p\<in>set (hiddenReasoningKeyPatterns @ sensitiveKeyPatterns).
               \<not> string_contains (to_lower k) p) (map fst raw)"
    unfolding SanitizeMetadata_def matchesAnyPattern_def
    by (induction raw) (auto simp del: string_contains.simps)
  show "\<forall>(k, v)\<in>set (SanitizeMetadata raw). \<exists>v0. (k, v0) \<in> set raw \<and> v = sanitizeValue v0"
    by (auto simp: SanitizeMetadata_def)
qed

theorem SanitizeMetadata_keys_witness:
  "map fst (SanitizeMetadata [(''reason'', ''x''), (''api_key'', ''y'')]) = [''reason'']"
proof -
  have "filter (\<lambda>k. \<forall>p\<in>set (hiddenReasoningKeyPatterns @ sensitiveKeyPatterns).
      \<not> string_contains (to_lower k) p) [''reason'', ''api_key''] = [''reason'']"
    by code_simp
  with SanitizeMetadata_keys [of "[(''reason'', ''x''), (''api_key'', ''y'')]"] show ?thesis by simp
qed

text \<open>A value that names a credential after the word \<open>bearer\<close> keeps the credential: the
  first pattern consumes the name, so the second finds nothing to redact.\<close>

theorem sanitizeValue_leaks_named_bearer:
  "sanitizeValue ''bearer token=abc123'' = ''Bearer [REDACTED]abc123''"
  by code_simp

end
