(* ===== verification/Orchestrator.thy ===== *)
theory Orchestrator
  imports Task_Graph Trace
begin

text \<open>
  The bounded orchestrator, \<open>backend/a2a/orchestration/orchestrator.go\<close>: \<open>DelegateTask\<close>
  with every check in the source's order, the writes to the work store and the trace events,
  and the table of running tasks. The arguments \<open>ids\<close> are what successive calls of
  \<open>uuid.New\<close> return, \<open>now\<close> what the clock shows, \<open>render\<close> how an error is rendered
  (\<open>err.Error()\<close>). Shown here: a refused delegation leaves every work row as it was; an
  accepted one appends exactly one row within the parent's limits and charges the parent;
  and the depth discipline (a child is one deeper than its parent, no row is deeper than its
  limit) is kept by every delegation.
\<close>

record delegate_request =
  dr_TenantID :: string
  dr_ParentWorkID :: string
  dr_ChildWorkID :: string
  dr_ContextID :: string
  dr_RequesterAgentID :: string
  dr_ExecutorAgentID :: string
  dr_IdempotencyKey :: string
  dr_EdgeType :: string
  dr_Budget :: "work_budget option"
  dr_RequestedTokens :: int
  dr_RequestedWorkUnits :: int
  dr_InitialState :: string
  dr_TraceID :: string
  dr_RootTraceID :: string
  dr_SpanID :: string
  dr_ParentSpanID :: string

text \<open>
  The orchestrator's own state: its store (\<open>None\<close> for nil), whether it has a trace
  recorder (which writes to the same store), the cancel functions of running tasks (each
  named by a number), the numbers of the functions called so far, and, when an event manager
  is present, the status events published through it, each with its sequence number.
\<close>

record published_status =
  ps_tenant :: string
  ps_work :: string
  ps_state :: string
  ps_reason :: string
  ps_sequence :: nat

record orchestrator =
  o_store :: "work_db option"
  o_traced :: bool
  o_cancelFuncs :: "(string \<times> nat) list"
  o_called :: "nat list"
  o_published :: "published_status list option"

definition NewOrchestrator :: "work_db option \<Rightarrow> bool \<Rightarrow> bool \<Rightarrow> orchestrator" where
  "NewOrchestrator store recorder events =
     \<lparr>o_store = store, o_traced = (recorder \<or> store \<noteq> None), o_cancelFuncs = [], o_called = [],
      o_published = (if events then Some [] else None)\<rparr>"

definition isTerminalState :: "string \<Rightarrow> bool" where
  "isTerminalState state \<longleftrightarrow>
     state = ''COMPLETED'' \<or> state = ''FAILED'' \<or> state = ''CANCELED'' \<or> state = ''REJECTED''"

definition RegisterActiveTask :: "orchestrator \<Rightarrow> string \<Rightarrow> nat \<Rightarrow> orchestrator" where
  "RegisterActiveTask orc workID cancel = orc\<lparr>o_cancelFuncs := assoc_set workID cancel (o_cancelFuncs orc)\<rparr>"

definition UnregisterActiveTask :: "orchestrator \<Rightarrow> string \<Rightarrow> orchestrator" where
  "UnregisterActiveTask orc workID = orc\<lparr>o_cancelFuncs := assoc_del workID (o_cancelFuncs orc)\<rparr>"

text \<open>A best-effort trace write: the result of \<open>Record\<close> is dropped.\<close>

definition record_trace :: "orchestrator \<Rightarrow> instant \<Rightarrow> string \<Rightarrow> trace_event \<Rightarrow> orchestrator" where
  "record_trace orc now newID e =
     (if o_traced orc then orc\<lparr>o_store := snd (Record (o_store orc) now newID e)\<rparr> else orc)"

definition recordPolicyLimitEvent ::
  "orchestrator \<Rightarrow> instant \<Rightarrow> string \<Rightarrow> string \<Rightarrow> string \<Rightarrow> string \<Rightarrow> string \<Rightarrow> orchestrator" where
  "recordPolicyLimitEvent orc now newID tenantID workID limitType reason =
     (if \<not> o_traced orc \<or> workID = [] then orc
      else record_trace orc now newID
        (zero_trace_event\<lparr>te_TenantID := tenantID, te_WorkID := workID,
           te_EventType := TraceEventPolicyLimit, te_PolicyDecision := ''DENIED'',
           te_TerminalReason := reason,
           te_Metadata := [(''limit_type'', limitType), (''reason'', reason)]\<rparr>))"

text \<open>The checks \<open>DelegateTask\<close> makes against the parent, in order. The result is the
  child's depth and, with a store, its budget.\<close>

definition delegate_parent_checks ::
  "(orch_error \<Rightarrow> string) \<Rightarrow> orchestrator \<Rightarrow> instant \<Rightarrow> string \<Rightarrow> string \<Rightarrow> string \<Rightarrow> delegate_request
     \<Rightarrow> (orch_error + (int \<times> work_budget option)) \<times> orchestrator" where
  "delegate_parent_checks render orc now newID tenant workID req =
     (let pid = dr_ParentWorkID req;
          deny = (\<lambda>limitType e. (Inl e, recordPolicyLimitEvent orc now newID tenant pid limitType (render e)))
      in
      if pid = [] then (Inr (0, None), orc)
      else case CheckProposedEdge (o_store orc) tenant pid workID of
        Inl e \<Rightarrow> deny ''CYCLIC_DELEGATION'' e
      | Inr _ \<Rightarrow>
      (case o_store orc of
        None \<Rightarrow> (Inr (0, None), orc)
      | Some db \<Rightarrow>
      (case GetWork db tenant pid of
        Inl e \<Rightarrow> (Inl (ErrStore e), orc)
      | Inr parent \<Rightarrow>
          if isTerminalState (wm_State parent) then (Inl ErrParentTerminal, orc)
          else
            let depth = i32 (wm_DelegationDepth parent + 1) in
            (case ValidateDelegationLimits (Some parent) depth of
               Inl e \<Rightarrow> deny ''DELEGATION_LIMIT'' (ErrLimit e)
             | Inr _ \<Rightarrow>
            (case (case CountActiveChildren db tenant pid of
                     Inl _ \<Rightarrow> Inr ()
                   | Inr n \<Rightarrow> ValidateConcurrencyLimit (Some parent) (int n)) of
               Inl e \<Rightarrow> deny ''CONCURRENCY_LIMIT'' (ErrLimit e)
             | Inr _ \<Rightarrow>
            (case ValidateBudgetAvailability (Some parent) (dr_RequestedTokens req) (dr_RequestedWorkUnits req) of
               Inl e \<Rightarrow> deny ''BUDGET_LIMIT'' (ErrLimit e)
             | Inr _ \<Rightarrow> (Inr (depth, Some (AllocateChildBudget (Some parent) (dr_Budget req))), orc)))))))"

definition delegated_work ::
  "instant \<Rightarrow> string \<Rightarrow> string \<Rightarrow> string \<Rightarrow> delegate_request \<Rightarrow> int \<Rightarrow> work_budget \<Rightarrow> work_message" where
  "delegated_work now tenant workID contextID req depth budget =
     \<lparr>wm_TenantID = tenant, wm_WorkID = workID, wm_A2ATaskID = workID, wm_ContextID = contextID,
      wm_RequesterAgentID = dr_RequesterAgentID req, wm_ExecutorAgentID = dr_ExecutorAgentID req,
      wm_SourceConversationID = None, wm_SourceTaskID = None,
      wm_State = (if dr_InitialState req = [] then ''SUBMITTED'' else dr_InitialState req),
      wm_TerminalReason = [],
      wm_IdempotencyKey = (if dr_IdempotencyKey req = [] then workID else dr_IdempotencyKey req),
      wm_TraceID = dr_TraceID req, wm_RootTraceID = dr_RootTraceID req, wm_SpanID = dr_SpanID req,
      wm_ParentSpanID = dr_ParentSpanID req,
      wm_ParentWorkID = (if dr_ParentWorkID req = [] then None else Some (dr_ParentWorkID req)),
      wm_ParentEdgeType = (if dr_EdgeType req = [] then ''delegated'' else dr_EdgeType req),
      wm_DelegationDepth = depth, wm_RetryCount = 0,
      wm_MaxDepth = wb_MaxDepth budget, wm_MaxChildren = wb_MaxChildren budget,
      wm_MaxFanOut = wb_MaxFanOut budget, wm_MaxConcurrency = wb_MaxConcurrency budget,
      wm_MaxRuntimeMs = wb_MaxRuntimeMs budget, wm_MaxRetries = wb_MaxRetries budget,
      wm_MaxTokens = wb_MaxTokens budget, wm_MaxWorkUnits = wb_MaxWorkUnits budget,
      wm_UsedChildren = 0, wm_UsedFanOut = 0, wm_UsedRuntimeMs = 0, wm_UsedTokens = 0,
      wm_UsedWorkUnits = 0, wm_CreatedAt = now, wm_UpdatedAt = now, wm_StartedAt = None,
      wm_CompletedAt = None, wm_Version = 1\<rparr>"

text \<open>The store writes of an accepted delegation: context, work row, parent usage.\<close>

definition persist_delegation ::
  "work_db \<Rightarrow> instant \<Rightarrow> string \<Rightarrow> delegate_request \<Rightarrow> work_message \<Rightarrow> (orch_error + unit) \<times> work_db" where
  "persist_delegation db now tenant req w =
     (case EnsureWorkContext db now tenant (wm_ContextID w) (wm_WorkID w) of
        (Inl e, db1) \<Rightarrow> (Inl (ErrStore e), db1)
      | (Inr _, db1) \<Rightarrow>
          (case CreateWork db1 now w of
             (Inl e, db2) \<Rightarrow> (Inl (ErrStore e), db2)
           | (Inr _, db2) \<Rightarrow>
               (Inr (), if dr_ParentWorkID req = [] then db2
                        else snd (UpdateWorkUsage db2 now tenant (dr_ParentWorkID req) 1 0 0
                                    (dr_RequestedTokens req) (dr_RequestedWorkUnits req)))))"

definition delegation_event :: "string \<Rightarrow> string \<Rightarrow> delegate_request \<Rightarrow> int \<Rightarrow> trace_event" where
  "delegation_event tenant workID req depth =
     zero_trace_event\<lparr>te_TenantID := tenant, te_WorkID := workID, te_TraceID := dr_TraceID req,
       te_RootTraceID := dr_RootTraceID req, te_SpanID := dr_SpanID req,
       te_ParentSpanID := dr_ParentSpanID req, te_EventType := TraceEventDelegation,
       te_PolicyDecision := ''ALLOWED'',
       te_Metadata := [(''requester_agent_id'', dr_RequesterAgentID req),
                       (''executor_agent_id'', dr_ExecutorAgentID req),
                       (''parent_work_id'', dr_ParentWorkID req),
                       (''delegation_depth'', show_int depth),
                       (''edge_type'', if dr_EdgeType req = [] then ''delegated'' else dr_EdgeType req)]\<rparr>"

record fresh_ids =
  fi_work :: string
  fi_context :: string
  fi_event :: string

definition DelegateTask ::
  "(orch_error \<Rightarrow> string) \<Rightarrow> orchestrator \<Rightarrow> instant \<Rightarrow> fresh_ids \<Rightarrow> delegate_request
     \<Rightarrow> (orch_error + work_message) \<times> orchestrator" where
  "DelegateTask render orc now ids req =
     (let tenant = tenant_or_default (dr_TenantID req);
          workID = (if dr_ChildWorkID req = [] then fi_work ids else dr_ChildWorkID req);
          contextID = (if dr_ContextID req = [] then fi_context ids else dr_ContextID req) in
      case delegate_parent_checks render orc now (fi_event ids) tenant workID req of
        (Inl e, orc') \<Rightarrow> (Inl e, orc')
      | (Inr (depth, childBudget), orc') \<Rightarrow>
          let budget = (case childBudget of None \<Rightarrow> EffectiveBudget (dr_Budget req) | Some b \<Rightarrow> b);
              w = delegated_work now tenant workID contextID req depth budget;
              trace = (\<lambda>x. record_trace x now (fi_event ids) (delegation_event tenant workID req depth)) in
          (case o_store orc' of
             None \<Rightarrow> (Inr w, trace orc')
           | Some db \<Rightarrow>
               (case persist_delegation db now tenant req w of
                  (Inl e, db') \<Rightarrow> (Inl e, orc'\<lparr>o_store := Some db'\<rparr>)
                | (Inr _, db') \<Rightarrow> (Inr w, trace (orc'\<lparr>o_store := Some db'\<rparr>)))))"

section \<open>Work rows under tracing\<close>

definition works_of :: "orchestrator \<Rightarrow> work_message list option" where
  "works_of orc = map_option wdb_works (o_store orc)"

lemma works_of_None [simp]: "works_of orc = None \<longleftrightarrow> o_store orc = None"
  by (simp add: works_of_def)

lemma works_of_Some: "works_of orc = Some ws \<longleftrightarrow> (\<exists>db. o_store orc = Some db \<and> wdb_works db = ws)"
  by (auto simp: works_of_def)

lemma works_of_store [simp]: "works_of (orc\<lparr>o_store := Some db\<rparr>) = Some (wdb_works db)"
  by (simp add: works_of_def)

lemma isTerminalState_iff: "isTerminalState s \<longleftrightarrow> s \<in> set terminal_states"
  by (auto simp: isTerminalState_def terminal_states_def)

lemma record_trace_works [simp]: "works_of (record_trace orc now i e) = works_of orc"
proof (cases "o_store orc")
  case None
  then show ?thesis by (simp add: record_trace_def Record_None works_of_def)
next
  case (Some db)
  then show ?thesis
    using Record_works [of db now i e "fst (Record (Some db) now i e)" "snd (Record (Some db) now i e)"]
    by (auto simp: record_trace_def works_of_def)
qed

lemma record_trace_store_None [simp]: "o_store (record_trace orc now i e) = None \<longleftrightarrow> o_store orc = None"
  using record_trace_works [of orc now i e] by (metis works_of_None)

lemma record_trace_fault:
  "o_store orc = Some db \<Longrightarrow> o_store (record_trace orc now i e) = Some db' \<Longrightarrow> wdb_fault db' = wdb_fault db"
  by (auto simp: record_trace_def Record_def AppendWorkEvent_def Let_def split: if_splits sum.splits)

lemma recordPolicyLimitEvent_works [simp]:
  "works_of (recordPolicyLimitEvent orc now i t w l r) = works_of orc"
  by (simp add: recordPolicyLimitEvent_def)

lemma delegate_parent_checks_works:
  "delegate_parent_checks render orc now i t w req = (res, orc') \<Longrightarrow> works_of orc' = works_of orc"
  by (auto simp: delegate_parent_checks_def Let_def split: if_splits sum.splits option.splits)

lemma delegate_parent_checks_ok:
  "delegate_parent_checks render orc now i t w req = (Inr r, orc') \<Longrightarrow> orc' = orc"
  by (auto simp: delegate_parent_checks_def Let_def split: if_splits sum.splits option.splits)

text \<open>What a passed check against a stored parent has established.\<close>

lemma delegate_parent_checks_parent:
  assumes "delegate_parent_checks render orc now i t w req = (Inr (depth, b), orc')"
    and "o_store orc = Some db" and "dr_ParentWorkID req \<noteq> []"
  shows "\<exists>parent. GetWork db t (dr_ParentWorkID req) = Inr parent \<and>
     CheckProposedEdge (Some db) t (dr_ParentWorkID req) w = Inr () \<and>
     \<not> isTerminalState (wm_State parent) \<and> depth = i32 (wm_DelegationDepth parent + 1) \<and>
     ValidateDelegationLimits (Some parent) depth = Inr () \<and>
     (\<forall>n. CountActiveChildren db t (dr_ParentWorkID req) = Inr n \<longrightarrow>
            ValidateConcurrencyLimit (Some parent) (int n) = Inr ()) \<and>
     ValidateBudgetAvailability (Some parent) (dr_RequestedTokens req) (dr_RequestedWorkUnits req) = Inr () \<and>
     b = Some (AllocateChildBudget (Some parent) (dr_Budget req))"
  using assms
  by (auto simp: delegate_parent_checks_def Let_def split: sum.splits if_splits)

lemma delegate_parent_checks_root:
  "delegate_parent_checks render orc now i t w req = (Inr (depth, b), orc') \<Longrightarrow>
   dr_ParentWorkID req = [] \<Longrightarrow> depth = 0 \<and> b = None"
  by (auto simp: delegate_parent_checks_def Let_def)

section \<open>The writes of a delegation\<close>

lemma persist_delegation_error:
  "persist_delegation db now t req w = (Inl e, db') \<Longrightarrow> wdb_works db' = wdb_works db"
proof -
  assume err: "persist_delegation db now t req w = (Inl e, db')"
  obtain r1 db1 where ec: "EnsureWorkContext db now t (wm_ContextID w) (wm_WorkID w) = (r1, db1)"
    by fastforce
  then have w1: "wdb_works db1 = wdb_works db"
    using EnsureWorkContext_works [of db now t "wm_ContextID w" "wm_WorkID w"] by simp
  show ?thesis
  proof (cases rule: CreateWork_cases [of db1 now w])
    case (rejected e')
    with err ec w1 show ?thesis by (auto simp: persist_delegation_def split: sum.splits)
  next
    case (created v)
    with err ec w1 show ?thesis by (auto simp: persist_delegation_def split: sum.splits)
  qed
qed

lemma persist_delegation_ok:
  assumes "persist_delegation db now t req w = (Inr u, db')"
  shows "\<exists>v ws. v = (work_defaults w)\<lparr>wm_CreatedAt := now, wm_UpdatedAt := now, wm_Version := 1\<rparr> \<and>
     ws = wdb_works db @ [v] \<and>
     work_check v \<and> work_unique v (wdb_works db) \<and> parent_row_exists v (wdb_works db) \<and>
     (if dr_ParentWorkID req = [] then wdb_works db' = ws
      else wdb_works db' = wdb_works (snd (UpdateWorkUsage (db\<lparr>wdb_works := ws\<rparr>) now t
             (dr_ParentWorkID req) 1 0 0 (dr_RequestedTokens req) (dr_RequestedWorkUnits req))))"
proof -
  from assms obtain c db1 where ec: "EnsureWorkContext db now t (wm_ContextID w) (wm_WorkID w) = (Inr c, db1)"
    by (auto simp: persist_delegation_def split: sum.splits prod.splits)
  then have db1: "wdb_works db1 = wdb_works db" "wdb_fault db1 = wdb_fault db"
    by (auto simp: EnsureWorkContext_def Let_def split: sum.splits option.splits if_splits)
  show ?thesis
  proof (cases rule: CreateWork_cases [of db1 now w])
    case (rejected e')
    with assms ec show ?thesis by (auto simp: persist_delegation_def)
  next
    case (created v)
    have "wdb_works (snd (UpdateWorkUsage (db1\<lparr>wdb_works := wdb_works db @ [v]\<rparr>) now t p a b c d e)) =
        wdb_works (snd (UpdateWorkUsage (db\<lparr>wdb_works := wdb_works db @ [v]\<rparr>) now t p a b c d e))"
      for p a b c d e
      by (simp add: UpdateWorkUsage_def Let_def work_row_def db1 split: option.split)
    with assms ec created db1 show ?thesis
      by (auto simp: persist_delegation_def)
  qed
qed

lemma persist_delegation_inv:
  assumes "work_table_inv db"
  shows "work_table_inv (snd (persist_delegation db now t req w))"
proof -
  obtain r1 db1 where ec: "EnsureWorkContext db now t (wm_ContextID w) (wm_WorkID w) = (r1, db1)"
    by fastforce
  then have "work_table_inv db1"
    using assms EnsureWorkContext_works [of db now t "wm_ContextID w" "wm_WorkID w"]
    by (simp add: work_table_inv_def)
  moreover obtain r2 db2 where cw: "CreateWork db1 now w = (r2, db2)" by fastforce
  ultimately have i2: "work_table_inv db2" and i1: "work_table_inv db1"
    using CreateWork_inv [of db1 now w] by simp_all
  show ?thesis
    using i1 i2 UpdateWorkUsage_inv [OF i2]
    by (simp add: persist_delegation_def ec cw split: sum.split)
qed

text \<open>A delegation either fails and leaves the work rows alone, or appends its row and charges
  the parent.\<close>

lemma DelegateTask_error_works:
  "DelegateTask render orc now ids req = (Inl e, orc') \<Longrightarrow> works_of orc' = works_of orc"
proof -
  assume err: "DelegateTask render orc now ids req = (Inl e, orc')"
  let ?t = "tenant_or_default (dr_TenantID req)"
  let ?i = "if dr_ChildWorkID req = [] then fi_work ids else dr_ChildWorkID req"
  obtain r orc1 where chk: "delegate_parent_checks render orc now (fi_event ids) ?t ?i req = (r, orc1)"
    by fastforce
  note same = delegate_parent_checks_works [OF chk]
  show ?thesis
  proof (cases "o_store orc1")
    case None
    with err chk same show ?thesis
      by (auto simp: DelegateTask_def Let_def split: sum.splits)
  next
    case (Some db)
    then have "works_of orc1 = Some (wdb_works db)" by (simp add: works_of_def)
    with err chk same Some show ?thesis
      by (auto simp: DelegateTask_def Let_def split: sum.splits prod.splits
          dest!: persist_delegation_error)
  qed
qed

lemma DelegateTask_ok:
  assumes "DelegateTask render orc now ids req = (Inr w, orc')" and "o_store orc = Some db"
  shows "\<exists>depth b i c db1 db'. delegate_parent_checks render orc now (fi_event ids)
        (tenant_or_default (dr_TenantID req)) (wm_WorkID w) req = (Inr (depth, b), orc) \<and>
     w = delegated_work now (tenant_or_default (dr_TenantID req)) i c req depth
           (case b of None \<Rightarrow> EffectiveBudget (dr_Budget req) | Some b \<Rightarrow> b) \<and>
     persist_delegation db now (tenant_or_default (dr_TenantID req)) req w = (Inr (), db1) \<and>
     o_store orc' = Some db' \<and> wdb_works db' = wdb_works db1"
proof -
  let ?t = "tenant_or_default (dr_TenantID req)"
  let ?i = "if dr_ChildWorkID req = [] then fi_work ids else dr_ChildWorkID req"
  let ?c = "if dr_ContextID req = [] then fi_context ids else dr_ContextID req"
  from assms(1) obtain depth b orc1 where
    chk: "delegate_parent_checks render orc now (fi_event ids) ?t ?i req = (Inr (depth, b), orc1)"
    by (auto simp: DelegateTask_def Let_def split: prod.splits sum.splits)
  then have orc1: "orc1 = orc" by (rule delegate_parent_checks_ok)
  let ?b = "case b of None \<Rightarrow> EffectiveBudget (dr_Budget req) | Some b \<Rightarrow> b"
  let ?w = "delegated_work now ?t ?i ?c req depth ?b"
  obtain r db1 where p: "persist_delegation db now ?t req ?w = (r, db1)" by fastforce
  with assms chk orc1 have r: "r = Inr ()" and w: "w = ?w"
    and o': "orc' = record_trace (orc\<lparr>o_store := Some db1\<rparr>) now (fi_event ids) (delegation_event ?t ?i req depth)"
    by (auto simp: DelegateTask_def Let_def split: sum.splits)
  have "works_of orc' = Some (wdb_works db1)"
    using record_trace_works [of "orc\<lparr>o_store := Some db1\<rparr>"] o' by simp
  then obtain db' where "o_store orc' = Some db'" "wdb_works db' = wdb_works db1"
    by (auto simp: works_of_Some)
  moreover have "wm_WorkID w = ?i" "wm_ContextID w = ?c"
    by (simp_all add: w delegated_work_def)
  ultimately show ?thesis using chk orc1 p r w
    by (intro exI [of _ depth] exI [of _ b] exI [of _ ?i] exI [of _ ?c] exI [of _ db1] exI [of _ db']) simp
qed

definition orc_inv :: "orchestrator \<Rightarrow> bool" where
  "orc_inv orc \<longleftrightarrow> (case o_store orc of None \<Rightarrow> True | Some db \<Rightarrow> work_table_inv db)"

lemma orc_inv_works: "orc_inv orc \<Longrightarrow> works_of orc' = works_of orc \<Longrightarrow> orc_inv orc'"
  by (auto simp: orc_inv_def works_of_def work_table_inv_def split: option.splits)

lemma DelegateTask_store_None:
  assumes "o_store orc = None"
  shows "works_of (snd (DelegateTask render orc now ids req)) = None"
proof -
  have "o_store orc1 = None"
    if "delegate_parent_checks render orc now i t w req = (res, orc1)" for i t w res orc1
    using delegate_parent_checks_works [OF that] assms by (metis works_of_None)
  then show ?thesis
    by (auto simp: DelegateTask_def Let_def split: prod.split sum.split option.split)
qed

lemma DelegateTask_inv:
  assumes "orc_inv orc"
  shows "orc_inv (snd (DelegateTask render orc now ids req))"
proof (cases "DelegateTask render orc now ids req")
  case (Pair res orc')
  show ?thesis
  proof (cases res)
    case (Inl e)
    with Pair DelegateTask_error_works [of render orc now ids req e orc'] assms show ?thesis
      by (simp add: orc_inv_works)
  next
    case (Inr w)
    show ?thesis
    proof (cases "o_store orc")
      case None
      from DelegateTask_store_None [OF None] have "o_store (snd (DelegateTask render orc now ids req)) = None"
        by simp
      then show ?thesis by (simp add: orc_inv_def)
    next
      case (Some db)
      from Pair Inr have "DelegateTask render orc now ids req = (Inr w, orc')" by simp
      from DelegateTask_ok [OF this Some] obtain db1 db' where
        p: "persist_delegation db now (tenant_or_default (dr_TenantID req)) req w = (Inr (), db1)"
        and o': "o_store orc' = Some db'" "wdb_works db' = wdb_works db1"
        by blast
      have "work_table_inv db1"
        using persist_delegation_inv [of db now "tenant_or_default (dr_TenantID req)" req w] p assms Some
        by (simp add: orc_inv_def)
      with o' Pair show ?thesis by (simp add: orc_inv_def work_table_inv_def)
    qed
  qed
qed

section \<open>The delegation discipline\<close>

text \<open>What the rows of a table filled by delegations satisfy: counters in range, no row deeper
  than its limit, token and work-unit usage within the limits, and along every parent edge one
  more level and the same depth limit.\<close>

definition row_discipline :: "work_message \<Rightarrow> bool" where
  "row_discipline w \<longleftrightarrow>
     budget_row_ok w \<and> is_i32 (wm_DelegationDepth w) \<and>
     wm_DelegationDepth w \<le> positive_or (wm_MaxDepth w) DefaultMaxDepth \<and>
     (0 < wm_MaxTokens w \<longrightarrow> wm_UsedTokens w \<le> wm_MaxTokens w) \<and>
     (0 < wm_MaxWorkUnits w \<longrightarrow> wm_UsedWorkUnits w \<le> wm_MaxWorkUnits w)"

definition edge_discipline :: "work_message \<Rightarrow> work_message \<Rightarrow> bool" where
  "edge_discipline v w \<longleftrightarrow>
     (wm_TenantID w = wm_TenantID v \<and> wm_ParentWorkID w = Some (wm_WorkID v) \<longrightarrow>
      wm_DelegationDepth w = wm_DelegationDepth v + 1 \<and>
      wm_MaxDepth w = positive_or (wm_MaxDepth v) DefaultMaxDepth)"

definition delegation_discipline :: "work_message list \<Rightarrow> bool" where
  "delegation_discipline ws \<longleftrightarrow>
     (\<forall>w\<in>set ws. row_discipline w) \<and> (\<forall>v\<in>set ws. \<forall>w\<in>set ws. edge_discipline v w)"

text \<open>The Go types of a request's fields, and requests that ask for no negative amount.\<close>

definition budget_typed :: "work_budget option \<Rightarrow> bool" where
  "budget_typed b \<longleftrightarrow>
     (case b of None \<Rightarrow> True | Some x \<Rightarrow> is_i64 (wb_MaxTokens x) \<and> is_i64 (wb_MaxWorkUnits x))"

definition request_ok :: "delegate_request \<Rightarrow> bool" where
  "request_ok req \<longleftrightarrow>
     budget_typed (dr_Budget req) \<and> 0 \<le> dr_RequestedTokens req \<and> 0 \<le> dr_RequestedWorkUnits req"

lemma is_i64_remaining [simp]: "is_i64 (remaining_of a b)"
  using is_i64_i64 [of "a - b"] by (auto simp: remaining_of_def Let_def is_i64_def)

lemma EffectiveBudget_typed:
  "budget_typed b \<Longrightarrow> is_i64 (wb_MaxTokens (EffectiveBudget b)) \<and> is_i64 (wb_MaxWorkUnits (EffectiveBudget b))"
  by (auto simp: budget_typed_def EffectiveBudget_def DefaultBudget_def positive_or_def is_i64_def go_defs
      split: option.splits)

lemma AllocateChildBudget_typed:
  "budget_typed b \<Longrightarrow> is_i64 (wb_MaxTokens (AllocateChildBudget p b)) \<and>
     is_i64 (wb_MaxWorkUnits (AllocateChildBudget p b))"
  using EffectiveBudget_typed [of b]
  by (auto simp: AllocateChildBudget_def Let_def minInt_def split: option.splits)

lemma AllocateChildBudget_depth:
  "wb_MaxDepth (AllocateChildBudget (Some p) b) = positive_or (wm_MaxDepth p) DefaultMaxDepth"
  by (simp add: AllocateChildBudget_def Let_def EffectiveBudget_def row_budget_def DefaultBudget_def)

lemma wm_fields_add_usage [simp]:
  "wm_TenantID (add_usage n a b c d e w) = wm_TenantID w"
  "wm_WorkID (add_usage n a b c d e w) = wm_WorkID w"
  "wm_ParentWorkID (add_usage n a b c d e w) = wm_ParentWorkID w"
  "wm_DelegationDepth (add_usage n a b c d e w) = wm_DelegationDepth w"
  "wm_MaxDepth (add_usage n a b c d e w) = wm_MaxDepth w"
  "wm_MaxTokens (add_usage n a b c d e w) = wm_MaxTokens w"
  "wm_MaxWorkUnits (add_usage n a b c d e w) = wm_MaxWorkUnits w"
  "wm_UsedTokens (add_usage n a b c d e w) = wm_UsedTokens w + d"
  "wm_UsedWorkUnits (add_usage n a b c d e w) = wm_UsedWorkUnits w + e"
  "wm_UsedChildren (add_usage n a b c d e w) = wm_UsedChildren w + a"
  "wm_State (add_usage n a b c d e w) = wm_State w"
  by (simp_all add: add_usage_def)

lemma wm_fields_delegated:
  "work_defaults (delegated_work now (tenant_or_default t) i c req d b)
     = delegated_work now (tenant_or_default t) i c req d b"
  "(delegated_work now t i c req d b)\<lparr>wm_CreatedAt := now, wm_UpdatedAt := now, wm_Version := 1\<rparr>
     = delegated_work now t i c req d b"
  by (simp_all add: work_defaults_def delegated_work_def)

lemma delegation_discipline_update:
  assumes "delegation_discipline ws"
    and keep: "\<And>w. wm_TenantID (f w) = wm_TenantID w \<and> wm_WorkID (f w) = wm_WorkID w \<and>
                 wm_ParentWorkID (f w) = wm_ParentWorkID w \<and>
                 wm_DelegationDepth (f w) = wm_DelegationDepth w \<and> wm_MaxDepth (f w) = wm_MaxDepth w"
    and row: "\<And>w. w \<in> set ws \<Longrightarrow> P w \<Longrightarrow> row_discipline (f w)"
  shows "delegation_discipline (update_first P f ws)"
proof -
  have orig: "\<exists>y\<in>set ws. x = y \<or> (P y \<and> x = f y)" if "x \<in> set (update_first P f ws)" for x
    using set_update_first [OF that] by blast
  show ?thesis
    unfolding delegation_discipline_def
  proof (intro conjI ballI)
    fix x assume "x \<in> set (update_first P f ws)"
    from orig [OF this] show "row_discipline x"
      using assms(1) row by (auto simp: delegation_discipline_def)
  next
    fix x y assume "x \<in> set (update_first P f ws)" "y \<in> set (update_first P f ws)"
    with orig obtain x0 y0 where "x0 \<in> set ws" "y0 \<in> set ws"
        "x = x0 \<or> x = f x0" "y = y0 \<or> y = f y0"
      by blast
    then show "edge_discipline x y"
      using assms(1) keep by (auto simp: delegation_discipline_def edge_discipline_def)
  qed
qed

lemma delegation_discipline_snoc:
  assumes "delegation_discipline ws" and "row_discipline w"
    and "\<And>v. v \<in> set ws \<Longrightarrow> edge_discipline v w"
    and "\<And>v. v \<in> set ws \<Longrightarrow> wm_TenantID v = wm_TenantID w \<Longrightarrow> wm_ParentWorkID v \<noteq> Some (wm_WorkID w)"
    and "wm_ParentWorkID w \<noteq> Some (wm_WorkID w)"
  shows "delegation_discipline (ws @ [w])"
  using assms by (auto simp: delegation_discipline_def edge_discipline_def)

text \<open>The new row obeys the discipline.\<close>

lemma delegated_row_discipline:
  assumes "work_check (delegated_work now t i c req d b)" and "is_i32 d"
    and "d \<le> positive_or (wb_MaxDepth b) DefaultMaxDepth"
    and "is_i64 (wb_MaxTokens b)" "is_i64 (wb_MaxWorkUnits b)"
  shows "row_discipline (delegated_work now t i c req d b)"
  using assms
  by (auto simp: row_discipline_def budget_row_ok_def work_check_def usage_in_range_def
      delegated_work_def is_i32_def is_i64_def work_nonnegative_def)

lemma charge_parent_discipline:
  assumes inv: "work_table_inv db" and disc: "delegation_discipline (wdb_works db)"
    and row: "work_row db (tenant_or_default t) p = Some parent"
    and ok: "ValidateBudgetAvailability (Some parent) k u = Inr ()" and "0 \<le> k" "0 \<le> u"
  shows "delegation_discipline (wdb_works (snd (UpdateWorkUsage db now t p 1 0 0 k u)))"
proof -
  let ?t = "tenant_or_default t" and ?f = "add_usage now 1 0 0 k u"
  have pin: "parent \<in> set (wdb_works db)"
    using row find_Some_in [of _ "wdb_works db" parent] by (auto simp: work_row_def)
  with disc have pd: "row_discipline parent" by (simp add: delegation_discipline_def)
  have "delegation_discipline (update_first (\<lambda>x. work_key x = (?t, p)) ?f (wdb_works db))"
    if guard: "usage_in_range (?f parent)" "work_nonnegative (?f parent)"
  proof (rule delegation_discipline_update [OF disc])
    fix x assume x: "x \<in> set (wdb_works db)" "work_key x = (?t, p)"
    then have "x = parent" using work_row_unique [OF inv x] row by simp
    moreover have "row_discipline (?f parent)"
      using pd guard ok assms(5,6)
        ValidateBudgetAvailability_tokens [of parent k u] ValidateBudgetAvailability_units [of parent k u]
      by (auto simp: row_discipline_def budget_row_ok_def)
    ultimately show "row_discipline (?f x)" by simp
  qed simp
  with disc row show ?thesis
    by (auto simp: UpdateWorkUsage_def Let_def)
qed

lemma GetWork_row:
  "GetWork db t i = Inr w \<Longrightarrow>
     work_row db (tenant_or_default t) i = Some w \<and> w \<in> set (wdb_works db) \<and>
     wm_TenantID w = tenant_or_default t \<and> wm_WorkID w = i"
  using find_Some_in [of "\<lambda>w. work_key w = (tenant_or_default t, i)" "wdb_works db" w]
  by (auto simp: GetWork_def Let_def work_row_def work_key_def split: if_splits option.splits)

lemma work_row_append:
  "work_row db t i = Some w \<Longrightarrow> work_row (db\<lparr>wdb_works := wdb_works db @ vs\<rparr>) t i = Some w"
  by (simp add: work_row_def find_append)

lemma orphan_parent:
  assumes "work_table_inv db" and "work_unique w (wdb_works db)" and "v \<in> set (wdb_works db)"
    and "wm_TenantID v = wm_TenantID w"
  shows "wm_ParentWorkID v \<noteq> Some (wm_WorkID w)"
proof
  assume "wm_ParentWorkID v = Some (wm_WorkID w)"
  with assms(3,4) have "(wm_WorkID w, wm_WorkID v) \<in> parent_rel db (wm_TenantID w)"
    by (auto simp: parent_rel_of_def)
  then have "(wm_TenantID w, wm_WorkID w) \<in> work_key ` set (wdb_works db)"
    using assms(1) parents_precede_domain by (auto simp: work_table_inv_def)
  with assms(2) show False by (auto simp: work_unique_def work_key_def)
qed

text \<open>The row of an accepted delegation, below a parent and at the root.\<close>

lemma child_row_discipline:
  assumes inv: "work_table_inv db" and disc: "delegation_discipline (wdb_works db)"
    and get: "GetWork db (tenant_or_default t) p = Inr parent" and p: "dr_ParentWorkID req = p" "p \<noteq> []"
    and dep: "depth = i32 (wm_DelegationDepth parent + 1)"
    and lim: "ValidateDelegationLimits (Some parent) depth = Inr ()"
    and typed: "budget_typed (dr_Budget req)"
    and w: "w = delegated_work now (tenant_or_default t) i c req depth (AllocateChildBudget (Some parent) (dr_Budget req))"
    and chk: "work_check w"
  shows "row_discipline w \<and> (\<forall>v\<in>set (wdb_works db). edge_discipline v w)"
proof -
  note pr = GetWork_row [OF get]
  have pd: "row_discipline parent" using pr disc by (simp add: delegation_discipline_def)
  have wf: "wm_ParentWorkID w = Some p" "wm_TenantID w = tenant_or_default t" "wm_DelegationDepth w = depth"
    "wm_MaxDepth w = positive_or (wm_MaxDepth parent) DefaultMaxDepth"
    by (simp_all add: w delegated_work_def AllocateChildBudget_depth p)
  have "0 \<le> depth" using chk wf by (simp add: work_check_def work_nonnegative_def)
  then have step: "depth = wm_DelegationDepth parent + 1"
    using pd i32_succ [of "wm_DelegationDepth parent"] by (simp add: row_discipline_def dep)
  have dmax: "depth \<le> positive_or (wm_MaxDepth parent) DefaultMaxDepth"
    using lim by (auto simp: ValidateDelegationLimits_def Let_def split: if_splits)
  have "row_discipline w"
    unfolding w using chk [unfolded w] dep dmax AllocateChildBudget_typed [OF typed, of "Some parent"]
    by (intro delegated_row_discipline) (auto simp: AllocateChildBudget_depth positive_or_def go_defs)
  moreover have "edge_discipline v w" if v: "v \<in> set (wdb_works db)" for v
  proof -
    have "v = parent" if "wm_TenantID v = tenant_or_default t" "wm_WorkID v = p"
      using work_row_unique [OF inv v, of "tenant_or_default t" p] that pr by (simp add: work_key_def)
    then show ?thesis using wf step by (auto simp: edge_discipline_def)
  qed
  ultimately show ?thesis by blast
qed

lemma root_row_discipline:
  assumes "w = delegated_work now t i c req 0 (EffectiveBudget (dr_Budget req))" and "work_check w"
    and "budget_typed (dr_Budget req)" and "dr_ParentWorkID req = []"
  shows "row_discipline w \<and> (\<forall>v\<in>set ws. edge_discipline v w)"
proof -
  have "row_discipline w"
    unfolding assms(1) using assms(2) [unfolded assms(1)] EffectiveBudget_typed [OF assms(3)]
    by (intro delegated_row_discipline) (auto simp: is_i32_def positive_or_def go_defs)
  moreover have "wm_ParentWorkID w = None" by (simp add: assms(1,4) delegated_work_def)
  ultimately show ?thesis by (simp add: edge_discipline_def)
qed

lemma DelegateTask_discipline:
  assumes inv: "work_table_inv db" and disc: "delegation_discipline (wdb_works db)"
    and st: "o_store orc = Some db" and req: "request_ok req"
    and ok: "DelegateTask render orc now ids req = (Inr w, orc')"
  shows "\<exists>db'. o_store orc' = Some db' \<and> delegation_discipline (wdb_works db')"
proof -
  let ?t = "tenant_or_default (dr_TenantID req)" and ?p = "dr_ParentWorkID req"
  from DelegateTask_ok [OF ok st] obtain depth b i c db1 db' where
    chk: "delegate_parent_checks render orc now (fi_event ids) ?t (wm_WorkID w) req = (Inr (depth, b), orc)"
    and w: "w = delegated_work now ?t i c req depth
              (case b of None \<Rightarrow> EffectiveBudget (dr_Budget req) | Some b \<Rightarrow> b)" (is "w = delegated_work _ _ _ _ _ _ ?b")
    and per: "persist_delegation db now ?t req w = (Inr (), db1)"
    and o': "o_store orc' = Some db'" "wdb_works db' = wdb_works db1"
    by blast
  have "work_defaults w = w" "w\<lparr>wm_CreatedAt := now, wm_UpdatedAt := now, wm_Version := 1\<rparr> = w"
    using wm_fields_delegated [of now "dr_TenantID req" i c req depth ?b]
      wm_fields_delegated(2) [of now ?t i c req depth ?b] by (simp_all only: w)
  with persist_delegation_ok [OF per] have
    new: "work_check w" "work_unique w (wdb_works db)" "parent_row_exists w (wdb_works db)" and
    rows: "if ?p = [] then wdb_works db1 = wdb_works db @ [w]
      else wdb_works db1 = wdb_works (snd (UpdateWorkUsage (db\<lparr>wdb_works := wdb_works db @ [w]\<rparr>) now ?t
             ?p 1 0 0 (dr_RequestedTokens req) (dr_RequestedWorkUnits req)))"
    by auto
  have typed: "budget_typed (dr_Budget req)" using req by (simp add: request_ok_def)
  have snoc: "delegation_discipline (wdb_works db @ [w])"
    if "row_discipline w \<and> (\<forall>v\<in>set (wdb_works db). edge_discipline v w)"
    using disc that orphan_parent [OF inv new(2)] new(1)
    by (intro delegation_discipline_snoc) (auto simp: work_check_def)
  show ?thesis
  proof (cases "?p = []")
    case True
    with delegate_parent_checks_root [OF chk] have "depth = 0" "b = None" by auto
    with root_row_discipline [of w now ?t i c req] w new(1) typed True rows o' snoc
    show ?thesis by simp
  next
    case False
    from delegate_parent_checks_parent [OF chk st False] obtain parent where
      get: "GetWork db ?t ?p = Inr parent" and dep: "depth = i32 (wm_DelegationDepth parent + 1)"
      and lim: "ValidateDelegationLimits (Some parent) depth = Inr ()"
      and bud: "ValidateBudgetAvailability (Some parent) (dr_RequestedTokens req) (dr_RequestedWorkUnits req) = Inr ()"
      and b: "b = Some (AllocateChildBudget (Some parent) (dr_Budget req))"
      by blast
    have disc1: "delegation_discipline (wdb_works db @ [w])"
      using child_row_discipline [OF inv disc get refl False dep lim typed _ new(1)] w b snoc by simp
    have "work_table_inv (db\<lparr>wdb_works := wdb_works db @ [w]\<rparr>)"
      using inv new by (rule work_table_inv_snoc)
    then have "delegation_discipline (wdb_works (snd (UpdateWorkUsage (db\<lparr>wdb_works := wdb_works db @ [w]\<rparr>)
        now ?t ?p 1 0 0 (dr_RequestedTokens req) (dr_RequestedWorkUnits req))))"
      using disc1 GetWork_row [OF get] bud req
      by (intro charge_parent_discipline) (auto simp: work_row_append request_ok_def)
    with rows False o' show ?thesis by auto
  qed
qed

section \<open>Histories of delegations\<close>

definition orc_disciplined :: "orchestrator \<Rightarrow> bool" where
  "orc_disciplined orc \<longleftrightarrow>
     (case o_store orc of
        None \<Rightarrow> True
      | Some db \<Rightarrow> work_table_inv db \<and> delegation_discipline (wdb_works db))"

definition delegate_step ::
  "(orch_error \<Rightarrow> string) \<Rightarrow> orchestrator \<Rightarrow> instant \<times> fresh_ids \<times> delegate_request \<Rightarrow> orchestrator" where
  "delegate_step render orc = (\<lambda>(now, ids, req). snd (DelegateTask render orc now ids req))"

definition fresh_orchestrator :: "orchestrator \<Rightarrow> bool" where
  "fresh_orchestrator orc \<longleftrightarrow> (\<exists>db. o_store orc = Some db \<and> empty_db db)"

lemma orc_disciplined_works:
  "orc_disciplined orc \<Longrightarrow> works_of orc' = works_of orc \<Longrightarrow> orc_disciplined orc'"
  by (auto simp: orc_disciplined_def works_of_def work_table_inv_def split: option.splits)

lemma DelegateTask_disciplined:
  assumes inv: "orc_disciplined orc" and req: "request_ok req"
  shows "orc_disciplined (snd (DelegateTask render orc now ids req))"
proof (cases "DelegateTask render orc now ids req")
  case (Pair res orc')
  show ?thesis
  proof (cases res)
    case (Inl e)
    with Pair DelegateTask_error_works [of render orc now ids req e orc'] inv show ?thesis
      by (simp add: orc_disciplined_works)
  next
    case (Inr w)
    show ?thesis
    proof (cases "o_store orc")
      case None
      from DelegateTask_store_None [OF None] show ?thesis
        by (simp add: orc_disciplined_def)
    next
      case (Some db)
      have "orc_inv orc" using inv Some by (simp add: orc_disciplined_def orc_inv_def)
      then have "orc_inv orc'" using DelegateTask_inv [of orc render now ids req] Pair by simp
      moreover obtain db' where "o_store orc' = Some db'" "delegation_discipline (wdb_works db')"
        using DelegateTask_discipline [of db orc req render now ids w orc'] inv Some req Pair Inr
        by (auto simp: orc_disciplined_def)
      ultimately show ?thesis using Pair by (simp add: orc_disciplined_def orc_inv_def)
    qed
  qed
qed

interpretation delegations: component "delegate_step render" orc_disciplined
  "\<lambda>(now, ids, req). request_ok req" fresh_orchestrator for render
proof unfold_locales
  show "orc_disciplined s" if "fresh_orchestrator s" for s
    using that by (auto simp: fresh_orchestrator_def orc_disciplined_def empty_db_inv
        empty_db_def delegation_discipline_def)
  show "orc_disciplined (delegate_step render s e)"
    if "orc_disciplined s" and "case e of (now, ids, req) \<Rightarrow> request_ok req" for s e
    using that by (cases e) (simp add: delegate_step_def DelegateTask_disciplined)
qed

section \<open>Sample data\<close>

definition sample_request :: "string \<Rightarrow> string \<Rightarrow> int \<Rightarrow> delegate_request" where
  "sample_request parent child tokens =
     \<lparr>dr_TenantID = [], dr_ParentWorkID = parent, dr_ChildWorkID = child, dr_ContextID = child,
      dr_RequesterAgentID = ''a'', dr_ExecutorAgentID = ''b'', dr_IdempotencyKey = [], dr_EdgeType = [],
      dr_Budget = None, dr_RequestedTokens = tokens, dr_RequestedWorkUnits = 0, dr_InitialState = [],
      dr_TraceID = [], dr_RootTraceID = [], dr_SpanID = [], dr_ParentSpanID = []\<rparr>"

definition sample_ids :: "string \<Rightarrow> fresh_ids" where
  "sample_ids e = \<lparr>fi_work = ''w'', fi_context = ''c'', fi_event = e\<rparr>"

definition sample_history :: "(instant \<times> fresh_ids \<times> delegate_request) list" where
  "sample_history =
     [(1, sample_ids ''e1'', sample_request [] ''root'' 0),
      (2, sample_ids ''e2'', sample_request ''root'' ''kid'' 5),
      (3, sample_ids ''e3'', sample_request ''kid'' ''leaf'' 7)]"

lemma sample_row_limits:
  "ValidateDelegationLimits (Some sample_row) 1 = Inr ()"
  "ValidateConcurrencyLimit (Some sample_row) 1 = Inr ()"
  "ValidateBudgetAvailability (Some sample_row) 5 0 = Inr ()"
  by (simp_all add: sample_row_def ValidateDelegationLimits_def ValidateConcurrencyLimit_def
      ValidateBudgetAvailability_def remaining_of_def positive_or_def go_defs i32_def i64_def)

lemma sample_accept:
  "\<exists>w. fst (DelegateTask (\<lambda>_. ''denied'') (NewOrchestrator (Some sample_tree_db) False False) 9
     (sample_ids ''e'') (sample_request ''w1'' ''w3'' 5)) = Inr w"
proof -
  let ?orc = "NewOrchestrator (Some sample_tree_db) False False"
  let ?req = "sample_request ''w1'' ''w3'' 5" and ?b = "AllocateChildBudget (Some sample_row) None"
  let ?w = "delegated_work 9 ''default'' ''w3'' ''w3'' ?req 1 ?b"
  have edge: "CheckProposedEdge (Some sample_tree_db) ''default'' ''w1'' ''w3'' = Inr ()"
    by (simp add: CheckProposedEdge_def numeral_eq_Suc ancestor_loop.simps tenant_or_default_def
        sample_tree_get sample_row_def)
  have n: "CountActiveChildren sample_tree_db ''default'' ''w1'' = Inr 1"
    by (simp add: CountActiveChildren_def sample_tree_no_fault sample_tree_rows tenant_or_default_def
        active_states_def sample_kid_def sample_row_def)
  have row: "isTerminalState (wm_State sample_row) = False" "i32 (wm_DelegationDepth sample_row + 1) = 1"
    by (simp_all add: sample_row_def isTerminalState_def i32_def)
  have chk: "delegate_parent_checks (\<lambda>_. ''denied'') ?orc 9 ''e'' ''default'' ''w3'' ?req = (Inr (1, Some ?b), ?orc)"
    by (simp add: delegate_parent_checks_def sample_request_def NewOrchestrator_def edge
        sample_tree_get n row sample_row_limits Let_def)
  have "work_check ?w"
    by (simp add: delegated_work_def work_check_def work_nonnegative_def sample_request_def work_states_def
        AllocateChildBudget_def EffectiveBudget_def DefaultBudget_def sample_row_def positive_or_def
        remaining_of_def go_defs i64_def Let_def row_budget_def minInt_def)
  then have "fst (persist_delegation sample_tree_db 9 ''default'' ?req ?w) = Inr ()"
    by (simp add: persist_delegation_def EnsureWorkContext_def CreateWork_def RequireOrganizationActive_def
       organizationStateAllowsWrites_def work_defaults_def delegated_work_def sample_request_def tenant_or_default_def
       sample_tree_db_def sample_db_def work_unique_def work_foreign_keys_def context_exists_def parent_row_exists_def
       sample_row_def sample_kid_def work_key_def work_task_key_def work_idempotency_key_def Let_def)
  then obtain db' where "persist_delegation sample_tree_db 9 ''default'' ?req ?w = (Inr (), db')"
    by (metis prod.collapse)
  then have "fst (DelegateTask (\<lambda>_. ''denied'') ?orc 9 (sample_ids ''e'') ?req) = Inr ?w"
    using chk by (simp add: DelegateTask_def sample_ids_def sample_request_def tenant_or_default_def NewOrchestrator_def Let_def)
  then show ?thesis by blast
qed
section \<open>Properties\<close>

text \<open>Delegations that run one after the other: whatever sequence of them with non-negative amounts
  an orchestrator runs on an empty store, the work table has unique keys and an acyclic parent
  relation, every child is exactly one level below its parent and inherits its depth limit, no row
  is deeper than its limit, and no row has used more tokens or work units than its limit. What is
  left of this when delegations overlap is in \<open>Delegation\<close>.\<close>

theorem delegations_disciplined:
  assumes "fresh_orchestrator orc" and "\<forall>(now, ids, req)\<in>set rs. request_ok req"
  shows "orc_disciplined (foldl (delegate_step render) orc rs) \<and>
     (\<forall>db t. o_store (foldl (delegate_step render) orc rs) = Some db \<longrightarrow> acyclic (parent_rel db t))"
proof -
  have "orc_disciplined (foldl (delegate_step render) orc rs)"
    using assms by (intro delegations.invar_history) auto
  then show ?thesis
    by (auto simp: orc_disciplined_def intro: work_table_acyclic)
qed

theorem delegations_disciplined_witness:
  "orc_disciplined (foldl (delegate_step (\<lambda>_. ''denied''))
     (NewOrchestrator (Some sample_db) False False) sample_history)"
  using delegations_disciplined [of "NewOrchestrator (Some sample_db) False False" sample_history "\<lambda>_. ''denied''"]
  by (simp add: fresh_orchestrator_def NewOrchestrator_def sample_db_def empty_db_def sample_history_def
      request_ok_def sample_request_def budget_typed_def)

text \<open>A delegation that is refused, for whatever reason, creates no work row and charges
  no budget: the work table is the one it found.\<close>

theorem refused_delegation_changes_no_work:
  assumes "DelegateTask render orc now ids req = (Inl e, orc')"
  shows "map_option wdb_works (o_store orc') = map_option wdb_works (o_store orc)"
  using DelegateTask_error_works [OF assms] by (simp add: works_of_def)

theorem refused_delegation_changes_no_work_witness:
  "\<exists>orc'. DelegateTask (\<lambda>_. ''denied'') (NewOrchestrator (Some sample_tree_db) False False) 9
       (sample_ids ''e'') (sample_request ''w1'' ''w1'' 5) = (Inl ErrDirectCycle, orc') \<and>
     map_option wdb_works (o_store orc') = Some [sample_row, sample_kid]"
proof -
  let ?orc = "NewOrchestrator (Some sample_tree_db) False False"
  let ?run = "DelegateTask (\<lambda>_. ''denied'') ?orc 9 (sample_ids ''e'') (sample_request ''w1'' ''w1'' 5)"
  have "fst ?run = Inl ErrDirectCycle"
    by (simp add: DelegateTask_def delegate_parent_checks_def CheckProposedEdge_def sample_request_def Let_def)
  then have run: "?run = (Inl ErrDirectCycle, snd ?run)" by (metis prod.collapse)
  from refused_delegation_changes_no_work [OF this] run show ?thesis
    by (intro exI [of _ "snd ?run"]) (simp add: NewOrchestrator_def sample_tree_db_def)
qed

text \<open>An accepted delegation below a parent found the parent in a non-terminal state with room
  for one more child, and its row is one level deeper within the parent's depth limit.\<close>

theorem accepted_delegation_within_limits:
  assumes "DelegateTask render orc now ids req = (Inr w, orc')" and "o_store orc = Some db"
    and "dr_ParentWorkID req \<noteq> []"
  shows "\<exists>parent. GetWork db (tenant_or_default (dr_TenantID req)) (dr_ParentWorkID req) = Inr parent \<and>
     wm_State parent \<notin> set terminal_states \<and>
     wm_DelegationDepth w = i32 (wm_DelegationDepth parent + 1) \<and>
     wm_DelegationDepth w \<le> positive_or (wm_MaxDepth parent) DefaultMaxDepth \<and>
     i32 (wm_UsedChildren parent + 1) \<le> positive_or (wm_MaxChildren parent) DefaultMaxChildren \<and>
     wm_ParentWorkID w = Some (dr_ParentWorkID req)"
proof -
  from DelegateTask_ok [OF assms(1,2)] obtain depth b i c where
    chk: "delegate_parent_checks render orc now (fi_event ids)
        (tenant_or_default (dr_TenantID req)) (wm_WorkID w) req = (Inr (depth, b), orc)"
    and w: "w = delegated_work now (tenant_or_default (dr_TenantID req)) i c req depth
           (case b of None \<Rightarrow> EffectiveBudget (dr_Budget req) | Some b \<Rightarrow> b)"
    by blast
  have wf: "wm_DelegationDepth w = depth" "wm_ParentWorkID w = Some (dr_ParentWorkID req)"
    using assms(3) by (simp_all add: w delegated_work_def)
  from delegate_parent_checks_parent [OF chk assms(2,3)] show ?thesis
    using wf by (auto simp: ValidateDelegationLimits_def Let_def isTerminalState_iff split: if_splits)
qed

theorem accepted_delegation_within_limits_witness:
  "\<exists>w orc'. DelegateTask (\<lambda>_. ''denied'') (NewOrchestrator (Some sample_tree_db) False False) 9
       (sample_ids ''e'') (sample_request ''w1'' ''w3'' 5) = (Inr w, orc') \<and> wm_DelegationDepth w \<le> 8"
proof -
  let ?orc = "NewOrchestrator (Some sample_tree_db) False False"
  let ?run = "DelegateTask (\<lambda>_. ''denied'') ?orc 9 (sample_ids ''e'') (sample_request ''w1'' ''w3'' 5)"
  obtain w where "fst ?run = Inr w" using sample_accept by blast
  then have run: "?run = (Inr w, snd ?run)" by (metis prod.collapse)
  have "wm_MaxDepth sample_row = 8" by (simp add: sample_row_def)
  with accepted_delegation_within_limits [OF run, of sample_tree_db] run sample_tree_get(1) show ?thesis
    by (intro exI [of _ w] exI [of _ "snd ?run"])
      (simp add: NewOrchestrator_def sample_request_def tenant_or_default_def positive_or_def)
qed

end
