(* ===== verification/Cancel_Tree.thy ===== *)
theory Cancel_Tree
  imports Orchestrator "HOL-Library.Multiset"
begin

text \<open>
  Cancellation of a work tree, \<open>backend/a2a/orchestration/cancel.go\<close>. \<open>CancelWorkTree\<close>
  reads the root and its descendants, then starts one goroutine per node that is not terminal.
  Each goroutine is a small machine with a program counter, one counter value per call it makes
  on the store, the recorder or the result; a schedule says which goroutine moves next and which
  writes of other clients of the store fall between two moves. A schedule under which some
  goroutine has not finished is one under which the call has not returned (\<open>None\<close>).

  Shown here: every fair schedule makes the call return; without other writers and faults every
  schedule that returns leaves the whole tree terminal and reports each node once; a state change
  of another client that comes in between survives the cancellation, and is reported cancelled.
\<close>

record cancellation_result =
  cn_RootWorkID :: string
  cn_CancelledWorkIDs :: "string list"
  cn_AlreadyTerminalIDs :: "string list"
  cn_TotalAffected :: nat
  cn_Timestamp :: instant

section \<open>One goroutine per node\<close>

datatype cancel_pc = CUpdate nat | CRefetch | CRetry nat | CTrace | CReport | CDone

record cancel_run =
  cr_orc :: orchestrator
  cr_procs :: "(string \<times> cancel_pc) list"
  cr_cancelled :: "string list"

record cancel_env =
  ce_tenant :: string
  ce_root :: string
  ce_reason :: string
  ce_now :: instant
  ce_newID :: "string \<Rightarrow> string"

definition cancellation_event :: "cancel_env \<Rightarrow> string \<Rightarrow> trace_event" where
  "cancellation_event c workID =
     zero_trace_event\<lparr>te_TenantID := ce_tenant c, te_WorkID := workID,
       te_EventType := TraceEventCancellation, te_PolicyDecision := ''ALLOWED'',
       te_TerminalReason := ce_reason c,
       te_Metadata := [(''cancelled_by'', ''root_propagation''), (''root_work_id'', ce_root c),
                       (''reason'', ce_reason c)]\<rparr>"

text \<open>One move of the goroutine of a node: the orchestrator after it, the next counter value and
  whether the node is appended to the result.\<close>

fun cancel_move ::
  "cancel_env \<Rightarrow> orchestrator \<Rightarrow> string \<Rightarrow> cancel_pc \<Rightarrow> orchestrator \<times> cancel_pc \<times> bool" where
  "cancel_move c orc workID (CUpdate version) =
     (case o_store orc of
        None \<Rightarrow> (orc, CTrace, False)
      | Some db \<Rightarrow>
          (case UpdateWorkState db (ce_now c) (ce_tenant c) workID version ''CANCELED'' (ce_reason c) of
             (res, db') \<Rightarrow>
               (orc\<lparr>o_store := Some db'\<rparr>,
                (case res of
                   Inr _ \<Rightarrow> CTrace
                 | Inl e \<Rightarrow> if e \<noteq> ErrWorkVersionMismatch then CRefetch else CTrace), False)))"
| "cancel_move c orc workID CRefetch =
     (case o_store orc of
        None \<Rightarrow> (orc, CTrace, False)
      | Some db \<Rightarrow>
          (case GetWork db (ce_tenant c) workID of
             Inl _ \<Rightarrow> (orc, CTrace, False)
           | Inr current \<Rightarrow>
               (orc, if \<not> isTerminalState (wm_State current) then CRetry (wm_Version current) else CTrace,
                False)))"
| "cancel_move c orc workID (CRetry version) =
     (case o_store orc of
        None \<Rightarrow> (orc, CTrace, False)
      | Some db \<Rightarrow>
          (orc\<lparr>o_store := Some (snd (UpdateWorkState db (ce_now c) (ce_tenant c) workID version
                                     ''CANCELED'' (ce_reason c)))\<rparr>, CTrace, False))"
| "cancel_move c orc workID CTrace =
     (record_trace orc (ce_now c) (ce_newID c workID) (cancellation_event c workID), CReport, False)"
| "cancel_move c orc workID CReport = (orc, CDone, True)"
| "cancel_move c orc workID CDone = (orc, CDone, False)"

datatype cancel_turn = Turn nat | OtherClient store_op

fun cancel_step :: "cancel_env \<Rightarrow> cancel_run \<Rightarrow> cancel_turn \<Rightarrow> cancel_run" where
  "cancel_step c run (Turn k) =
     (if k < length (cr_procs run) then
        (let (workID, pc) = cr_procs run ! k;
             (orc', pc', done) = cancel_move c (cr_orc run) workID pc in
         run\<lparr>cr_orc := orc', cr_procs := (cr_procs run)[k := (workID, pc')],
             cr_cancelled := (if done then cr_cancelled run @ [workID] else cr_cancelled run)\<rparr>)
      else run)"
| "cancel_step c run (OtherClient e) =
     run\<lparr>cr_orc := (cr_orc run)\<lparr>o_store := map_option (\<lambda>db. store_step db e) (o_store (cr_orc run))\<rparr>\<rparr>"

definition all_done :: "cancel_run \<Rightarrow> bool" where
  "all_done run \<longleftrightarrow> (\<forall>(i, pc)\<in>set (cr_procs run). pc = CDone)"

section \<open>The call\<close>

definition call_cancel_func :: "orchestrator \<Rightarrow> string \<Rightarrow> orchestrator" where
  "call_cancel_func orc workID =
     (case map_of (o_cancelFuncs orc) workID of
        None \<Rightarrow> orc
      | Some f \<Rightarrow> orc\<lparr>o_called := o_called orc @ [f]\<rparr>)"

definition publish_canceled :: "string \<Rightarrow> string \<Rightarrow> orchestrator \<Rightarrow> string \<Rightarrow> orchestrator" where
  "publish_canceled tenant reason orc workID =
     orc\<lparr>o_published := map_option (\<lambda>ps. ps @
        [\<lparr>ps_tenant = tenant, ps_work = workID, ps_state = ''CANCELED'', ps_reason = reason, ps_sequence = 0\<rparr>])
        (o_published orc)\<rparr>"

definition cancel_start :: "orchestrator \<Rightarrow> work_message list \<Rightarrow> cancel_run" where
  "cancel_start orc nodes =
     \<lparr>cr_orc = foldl (\<lambda>x w. call_cancel_func x (wm_WorkID w)) orc nodes,
      cr_procs = map (\<lambda>w. (wm_WorkID w, CUpdate (wm_Version w)))
                   (filter (\<lambda>w. \<not> isTerminalState (wm_State w)) nodes),
      cr_cancelled = []\<rparr>"

definition CancelWorkTree ::
  "orchestrator \<Rightarrow> instant \<Rightarrow> (string \<Rightarrow> string) \<Rightarrow> cancel_turn list \<Rightarrow> string \<Rightarrow> string \<Rightarrow> string
     \<Rightarrow> ((orch_error + cancellation_result) \<times> orchestrator) option" where
  "CancelWorkTree orc now newID schedule tenantID rootWorkID reason0 =
     (let tenant = tenant_or_default tenantID;
          reason = (if reason0 = [] then ''cancelled by operator'' else reason0);
          result = \<lparr>cn_RootWorkID = rootWorkID, cn_CancelledWorkIDs = [], cn_AlreadyTerminalIDs = [],
                    cn_TotalAffected = 0, cn_Timestamp = now\<rparr> in
      case o_store orc of
        None \<Rightarrow> Some (Inr result, orc)
      | Some db \<Rightarrow>
      (case GetWork db tenant rootWorkID of
        Inl e \<Rightarrow> Some (Inl (if e = ErrWorkNotFound then ErrOrchestrationWorkNotFound else ErrStore e), orc)
      | Inr root \<Rightarrow>
      (case ListDescendants db tenant rootWorkID of
        Inl e \<Rightarrow> Some (Inl (ErrStore e), orc)
      | Inr descendants \<Rightarrow>
          let nodes = root # descendants;
              env = \<lparr>ce_tenant = tenant, ce_root = rootWorkID, ce_reason = reason, ce_now = now,
                     ce_newID = newID\<rparr>;
              run = foldl (cancel_step env) (cancel_start orc nodes) schedule;
              terminal = map wm_WorkID (filter (\<lambda>w. isTerminalState (wm_State w)) nodes) in
          if \<not> all_done run then None
          else Some (Inr (result\<lparr>cn_CancelledWorkIDs := cr_cancelled run,
                                 cn_AlreadyTerminalIDs := terminal,
                                 cn_TotalAffected := length (cr_cancelled run) + length terminal\<rparr>),
                     foldl (publish_canceled tenant reason) (cr_orc run) (cr_cancelled run)))))"

definition EnsureTerminalState :: "orchestrator \<Rightarrow> string \<Rightarrow> string \<Rightarrow> orch_error + bool" where
  "EnsureTerminalState orc tenantID rootWorkID =
     (case o_store orc of
        None \<Rightarrow> Inr True
      | Some db \<Rightarrow>
          let tenant = tenant_or_default tenantID in
          (case GetWork db tenant rootWorkID of
             Inl e \<Rightarrow> Inl (ErrStore e)
           | Inr root \<Rightarrow>
               if \<not> isTerminalState (wm_State root) then Inl (ErrNonTerminal rootWorkID)
               else case ListDescendants db tenant rootWorkID of
                 Inl e \<Rightarrow> Inl (ErrStore e)
               | Inr descendants \<Rightarrow>
                   (case find (\<lambda>d. \<not> isTerminalState (wm_State d)) descendants of
                      Some d \<Rightarrow> Inl (ErrNonTerminal (wm_WorkID d))
                    | None \<Rightarrow> Inr True)))"

section \<open>Fair schedules end\<close>

fun moves_left :: "cancel_pc \<Rightarrow> nat" where
  "moves_left (CUpdate v) = 5"
| "moves_left CRefetch = 4"
| "moves_left (CRetry v) = 3"
| "moves_left CTrace = 2"
| "moves_left CReport = 1"
| "moves_left CDone = 0"

lemma cancel_move_progress: "moves_left (fst (snd (cancel_move c orc i pc))) \<le> moves_left pc - 1"
  by (cases pc) (auto split: option.split prod.split sum.split)

lemma cancel_step_length [simp]: "length (cr_procs (cancel_step c run e)) = length (cr_procs run)"
  by (cases e) (simp_all add: Let_def split: prod.split)

lemma cancel_step_progress:
  "k < length (cr_procs run) \<Longrightarrow>
   moves_left (snd (cr_procs (cancel_step c run e) ! k))
     \<le> moves_left (snd (cr_procs run ! k)) - (if e = Turn k then 1 else 0)"
proof (cases e)
  case (Turn j)
  assume "k < length (cr_procs run)"
  then show ?thesis
    using Turn cancel_move_progress [of c "cr_orc run" "fst (cr_procs run ! j)" "snd (cr_procs run ! j)"]
    by (cases "k = j") (auto simp: Let_def split: prod.splits)
qed simp

lemma cancel_run_length [simp]:
  "length (cr_procs (foldl (cancel_step c) run es)) = length (cr_procs run)"
  by (induction es arbitrary: run) simp_all

lemma cancel_run_progress:
  "k < length (cr_procs run) \<Longrightarrow>
   moves_left (snd (cr_procs (foldl (cancel_step c) run es) ! k))
     \<le> moves_left (snd (cr_procs run ! k)) - count_list es (Turn k)"
proof (induction es arbitrary: run)
  case (Cons e es)
  from Cons.IH [of "cancel_step c run e"] Cons.prems cancel_step_progress [OF Cons.prems, of c e]
  show ?case by (auto split: if_splits)
qed simp

lemma moves_left_bounds: "moves_left pc \<le> 5" "moves_left pc = 0 \<longleftrightarrow> pc = CDone"
  by (cases pc; simp)+

lemma fair_run_done:
  assumes "\<forall>k<length (cr_procs run). 5 \<le> count_list es (Turn k)"
  shows "all_done (foldl (cancel_step c) run es)"
proof -
  have "snd (cr_procs (foldl (cancel_step c) run es) ! k) = CDone" if k: "k < length (cr_procs run)" for k
  proof -
    have "moves_left (snd (cr_procs (foldl (cancel_step c) run es) ! k)) \<le> 5 - 5"
      using cancel_run_progress [OF k, of c es] assms k moves_left_bounds(1) [of "snd (cr_procs run ! k)"]
      by (meson diff_le_mono diff_le_mono2 le_trans)
    then show ?thesis by (simp add: moves_left_bounds(2))
  qed
  then have "\<forall>p\<in>set (cr_procs (foldl (cancel_step c) run es)). snd p = CDone"
    by (simp add: all_set_conv_all_nth)
  then show ?thesis by (fastforce simp: all_done_def)
qed

section \<open>Runs without other writers\<close>

definition work_shape :: "work_message \<Rightarrow> string \<times> string \<times> string option" where
  "work_shape w = (wm_TenantID w, wm_WorkID w, wm_ParentWorkID w)"

lemma parent_rel_shape:
  assumes "map work_shape ws = map work_shape vs"
  shows "parent_rel_of ws t = parent_rel_of vs t"
proof -
  have rel: "parent_rel_of us t = {(p, i). (t, i, Some p) \<in> work_shape ` set us}" for us
  proof -
    have "(p, i) \<in> parent_rel_of us t \<longleftrightarrow> (t, i, Some p) \<in> work_shape ` set us" for p i
      by (auto simp: parent_rel_of_def work_shape_def image_iff)
    then show ?thesis by auto
  qed
  from assms have "work_shape ` set ws = work_shape ` set vs"
    by (metis list.set_map)
  then show ?thesis by (simp add: rel)
qed

lemma UpdateWorkState_shape:
  "map work_shape (wdb_works (snd (UpdateWorkState db n t i v s r))) = map work_shape (wdb_works db)"
  by (simp add: UpdateWorkState_def Let_def work_shape_def split: option.split)

fun proc_ok :: "work_db \<Rightarrow> string \<Rightarrow> string \<times> cancel_pc \<Rightarrow> bool" where
  "proc_ok db t (i, CUpdate v) = (case work_row db t i of None \<Rightarrow> False | Some w \<Rightarrow> wm_Version w = v)"
| "proc_ok db t (i, CRefetch) = False"
| "proc_ok db t (i, CRetry v) = False"
| "proc_ok db t (i, pc) = (case work_row db t i of None \<Rightarrow> False | Some w \<Rightarrow> wm_State w = ''CANCELED'')"

lemma proc_ok_cong:
  "work_row db' t (fst p) = work_row db t (fst p) \<Longrightarrow> proc_ok db' t p = proc_ok db t p"
  by (cases p; cases "snd p") simp_all

definition quiet_db :: "work_db \<Rightarrow> bool" where
  "quiet_db db \<longleftrightarrow> work_table_inv db \<and> (\<forall>q. \<not> wdb_fault db q)"

text \<open>What every interleaving of the goroutines keeps: the tree of the snapshot, the rows that are
  no goroutine's, and for each goroutine that its row is the snapshot's or already canceled.\<close>

definition cancel_inv :: "string \<Rightarrow> work_db \<Rightarrow> string list \<Rightarrow> cancel_run \<Rightarrow> bool" where
  "cancel_inv t db0 ids run \<longleftrightarrow>
     (\<exists>db. o_store (cr_orc run) = Some db \<and> quiet_db db \<and>
        map work_shape (wdb_works db) = map work_shape (wdb_works db0) \<and>
        (\<forall>p\<in>set (cr_procs run). proc_ok db t p) \<and>
        (\<forall>i. i \<notin> set ids \<longrightarrow> work_row db t i = work_row db0 t i)) \<and>
     map fst (cr_procs run) = ids \<and> distinct ids \<and>
     mset (cr_cancelled run) = mset (map fst (filter (\<lambda>(i, pc). pc = CDone) (cr_procs run)))"

lemma procs_ok_update:
  assumes ok: "\<forall>p\<in>set ps. proc_ok db t p" and d: "distinct (map fst ps)"
    and k: "k < length ps" "ps ! k = (i, pc)" and new: "proc_ok db' t (i, pc')"
    and other: "\<And>j. j \<noteq> i \<Longrightarrow> work_row db' t j = work_row db t j"
  shows "\<forall>p\<in>set (ps[k := (i, pc')]). proc_ok db' t p"
proof
  fix p assume "p \<in> set (ps[k := (i, pc')])"
  then obtain j where j: "j < length ps" "p = ps[k := (i, pc')] ! j"
    by (auto simp: in_set_conv_nth)
  show "proc_ok db' t p"
  proof (cases "j = k")
    case False
    with d j(1) k have "fst (ps ! j) \<noteq> i"
      by (metis distinct_conv_nth fst_conv length_map nth_map)
    with ok j False show ?thesis
      using proc_ok_cong [of db' t "ps ! j" db] other by auto
  qed (use j k new in simp)
qed

lemma mset_done_update:
  assumes k: "k < length ps" "ps ! k = (i, pc)"
  shows "mset (map fst (filter (\<lambda>(i, pc). pc = CDone) (ps[k := (i, pc')]))) =
     mset (map fst (filter (\<lambda>(i, pc). pc = CDone) ps))
       - (if pc = CDone then {#i#} else {#}) + (if pc' = CDone then {#i#} else {#})"
proof -
  have "ps = take k ps @ (i, pc) # drop (Suc k) ps"
    using k by (metis id_take_nth_drop)
  moreover have "ps[k := (i, pc')] = take k ps @ (i, pc') # drop (Suc k) ps"
    using k by (simp add: upd_conv_take_nth_drop)
  ultimately show ?thesis
    by (smt (verit, del_insts) add_mset_add_single add_mset_remove_trivial case_prod_conv diff_zero
        filter.simps(2) filter_append fst_conv list.simps(9) map_append mset.simps(2) mset_append
        union_mset_add_mset_right add.right_neutral)
qed

lemma cancel_move_kind:
  "cancel_move c orc i pc = (orc', pc', done) \<Longrightarrow>
   done = (pc = CReport) \<and> (pc' = CDone \<longleftrightarrow> pc = CReport \<or> pc = CDone)"
  by (cases pc) (auto split: option.splits prod.splits sum.splits if_splits)

text \<open>A move of a goroutine on a quiet store.\<close>

lemma cancel_move_ok:
  assumes q: "quiet_db db" and st: "o_store orc = Some db" and t: "ce_tenant c = t" "tenant_or_default t = t"
    and ok: "proc_ok db t (i, pc)" and mv: "cancel_move c orc i pc = (orc', pc', done)"
  shows "\<exists>db'. o_store orc' = Some db' \<and> quiet_db db' \<and>
     map work_shape (wdb_works db') = map work_shape (wdb_works db) \<and> proc_ok db' t (i, pc') \<and>
     (\<forall>j. j \<noteq> i \<longrightarrow> work_row db' t j = work_row db t j)"
proof (cases pc)
  case (CUpdate v)
  with ok obtain w where w: "work_row db t i = Some w" "wm_Version w = v"
    by (auto split: option.splits)
  let ?u = "UpdateWorkState db (ce_now c) t i v ''CANCELED'' (ce_reason c)"
  have m: "fst ?u = Inr (Suc v)" "work_row (snd ?u) t i = Some (set_work_state (ce_now c) ''CANCELED'' (ce_reason c) w)"
    using UpdateWorkState_matching [of db t i w "''CANCELED''" "ce_now c" "ce_reason c"] q w t
    by (simp_all add: quiet_db_def work_states_def)
  have "orc' = orc\<lparr>o_store := Some (snd ?u)\<rparr>" "pc' = CTrace"
    using mv CUpdate st t m(1) by (auto split: prod.splits)
  moreover have "quiet_db (snd ?u)" using q UpdateWorkState_inv by (simp add: quiet_db_def)
  moreover have "work_row (snd ?u) t j = work_row db t j" if "j \<noteq> i" for j
    using that t by (intro UpdateWorkState_row_other) simp
  ultimately show ?thesis using m(2) by (intro exI [of _ "snd ?u"]) (simp add: UpdateWorkState_shape)
next
  case CTrace
  then have orc': "orc' = record_trace orc (ce_now c) (ce_newID c i) (cancellation_event c i)" "pc' = CReport"
    using mv by auto
  then have "works_of orc' = works_of orc" by simp
  then have "works_of orc' = Some (wdb_works db)" using st by (simp add: works_of_def)
  then obtain db' where db': "o_store orc' = Some db'" "wdb_works db' = wdb_works db"
    by (auto simp: works_of_Some)
  moreover have "wdb_fault db' = wdb_fault db"
    using db' orc' st record_trace_fault by auto
  ultimately show ?thesis
    using q ok CTrace orc'(2)
    by (intro exI [of _ db']) (auto simp: quiet_db_def work_table_inv_def work_row_def)
qed (use assms in auto)

lemma cancel_inv_step:
  assumes inv: "cancel_inv t db0 ids run" and t: "ce_tenant c = t" "tenant_or_default t = t"
  shows "cancel_inv t db0 ids (cancel_step c run (Turn k))"
proof (cases "k < length (cr_procs run)")
  case True
  obtain i pc where p: "cr_procs run ! k = (i, pc)" by fastforce
  obtain orc' pc' dn where mv: "cancel_move c (cr_orc run) i pc = (orc', pc', dn)"
    using prod_cases3 by blast
  from inv obtain db where db: "o_store (cr_orc run) = Some db" "quiet_db db"
      "map work_shape (wdb_works db) = map work_shape (wdb_works db0)"
      "\<forall>p\<in>set (cr_procs run). proc_ok db t p"
      "\<forall>i. i \<notin> set ids \<longrightarrow> work_row db t i = work_row db0 t i"
    and ids: "map fst (cr_procs run) = ids" "distinct ids"
    and ms: "mset (cr_cancelled run) = mset (map fst (filter (\<lambda>(i, pc). pc = CDone) (cr_procs run)))"
    by (auto simp: cancel_inv_def)
  have mem: "(i, pc) \<in> set (cr_procs run)" using True p by (metis nth_mem)
  with db(4) have "proc_ok db t (i, pc)" by blast
  from cancel_move_ok [OF db(2,1) t this mv] obtain db' where
    db': "o_store orc' = Some db'" "quiet_db db'"
      "map work_shape (wdb_works db') = map work_shape (wdb_works db)" "proc_ok db' t (i, pc')"
      "\<forall>j. j \<noteq> i \<longrightarrow> work_row db' t j = work_row db t j"
    by blast
  let ?ps = "(cr_procs run)[k := (i, pc')]"
  have "\<forall>p\<in>set ?ps. proc_ok db' t p"
    using procs_ok_update [OF db(4) _ True p db'(4)] ids db'(5) by simp
  moreover have "i \<in> set ids" using mem ids(1) by force
  then have "\<forall>j. j \<notin> set ids \<longrightarrow> work_row db' t j = work_row db0 t j"
    using db'(5) db(5) by metis
  moreover have "map fst ?ps = ids"
    using ids(1) True p by (metis fst_conv list_update_id map_update)
  moreover have "mset (cr_cancelled run @ (if dn then [i] else [])) =
      mset (map fst (filter (\<lambda>(i, pc). pc = CDone) ?ps))"
    using mset_done_update [OF True p, of pc'] cancel_move_kind [OF mv] ms mem
    by (auto simp: image_iff)
  ultimately show ?thesis
    using db' db(3) ids(2) True p mv
    unfolding cancel_inv_def by (auto simp: Let_def)
qed (use inv in simp)

lemma cancel_inv_run:
  assumes "cancel_inv t db0 ids run" and "ce_tenant c = t" "tenant_or_default t = t"
    and "\<forall>e\<in>set es. \<exists>k. e = Turn k"
  shows "cancel_inv t db0 ids (foldl (cancel_step c) run es)"
  using assms
proof (induction es arbitrary: run)
  case (Cons e es)
  then obtain k where "e = Turn k" by auto
  with Cons show ?case using cancel_inv_step by simp
qed simp

section \<open>From the snapshot to the result\<close>

lemma call_cancel_func_store [simp]: "o_store (call_cancel_func orc i) = o_store orc"
  by (simp add: call_cancel_func_def split: option.split)

lemma call_cancel_funcs_store [simp]: "o_store (foldl (\<lambda>x w. call_cancel_func x (f w)) orc ws) = o_store orc"
  by (induction ws arbitrary: orc) simp_all

lemma publish_canceled_store [simp]: "o_store (foldl (publish_canceled t r) orc is) = o_store orc"
  by (induction "is" arbitrary: orc) (simp_all add: publish_canceled_def)

lemma tree_nodes:
  assumes q: "quiet_db db" and t: "tenant_or_default t = t" and root: "GetWork db t r = Inr w"
  obtains ds where "ListDescendants db t r = Inr ds" "distinct (map wm_WorkID (w # ds))"
    "\<forall>v\<in>set (w # ds). work_row db t (wm_WorkID v) = Some v"
    "wm_WorkID ` set (w # ds) = {i. (r, i) \<in> (parent_rel db t)\<^sup>*}"
proof -
  have inv: "work_table_inv db" and nf: "\<And>q. \<not> wdb_fault db q" using q by (auto simp: quiet_db_def)
  from ListDescendants_exact [OF inv nf, of t r] t obtain ds where
    ds: "ListDescendants db t r = Inr ds" "distinct (map wm_WorkID ds)" "set ds \<subseteq> set (wdb_works db)"
      "\<forall>v\<in>set ds. wm_TenantID v = t" "wm_WorkID ` set ds = {i. (r, i) \<in> (parent_rel db t)\<^sup>+}"
    by auto
  from GetWork_row [OF root] t have w: "work_row db t r = Some w" "wm_WorkID w = r" by simp_all
  have "(r, r) \<notin> (parent_rel db t)\<^sup>+" using work_table_acyclic [OF inv] by (simp add: acyclic_def)
  then have "distinct (map wm_WorkID (w # ds))" using ds(2,5) w(2) by auto
  moreover have "\<forall>v\<in>set (w # ds). work_row db t (wm_WorkID v) = Some v"
    using w ds(3,4) by (auto simp: work_key_def intro!: work_row_unique [OF inv])
  moreover have "wm_WorkID ` set (w # ds) = {i. (r, i) \<in> (parent_rel db t)\<^sup>*}"
    using ds(5) w(2) by (auto simp: rtrancl_eq_or_trancl)
  ultimately show thesis using that ds(1) by blast
qed

definition active_ids :: "work_message list \<Rightarrow> string list" where
  "active_ids nodes = map wm_WorkID (filter (\<lambda>w. \<not> isTerminalState (wm_State w)) nodes)"

lemma cancel_start_inv:
  assumes q: "quiet_db db" and st: "o_store orc = Some db" and d: "distinct (map wm_WorkID nodes)"
    and rows: "\<forall>v\<in>set nodes. work_row db t (wm_WorkID v) = Some v"
  shows "cancel_inv t db (active_ids nodes) (cancel_start orc nodes)"
proof -
  let ?act = "filter (\<lambda>w. \<not> isTerminalState (wm_State w)) nodes"
  have "filter (\<lambda>(i, pc). pc = CDone) (map (\<lambda>w. (wm_WorkID w, CUpdate (wm_Version w))) ?act) = []"
    by (simp add: filter_empty_conv)
  moreover have "distinct (map wm_WorkID ?act)" using d by (rule distinct_map_filter)
  ultimately show ?thesis
    using q st rows by (auto simp: cancel_inv_def cancel_start_def active_ids_def comp_def)
qed

lemma EnsureTerminalState_true:
  assumes q: "quiet_db db" and st: "o_store orc = Some db"
    and tree: "\<And>i. (r, i) \<in> (parent_rel db (tenant_or_default t))\<^sup>* \<Longrightarrow>
                 \<exists>v. work_row db (tenant_or_default t) i = Some v \<and> isTerminalState (wm_State v)"
  shows "EnsureTerminalState orc t r = Inr True"
proof -
  let ?t = "tenant_or_default t"
  obtain w where "work_row db ?t r = Some w" using tree [OF rtrancl_refl] by blast
  then have get: "GetWork db ?t r = Inr w" using q by (simp add: GetWork_def quiet_db_def)
  obtain ds where ds: "ListDescendants db ?t r = Inr ds" "distinct (map wm_WorkID (w # ds))"
      "\<forall>v\<in>set (w # ds). work_row db ?t (wm_WorkID v) = Some v"
      "wm_WorkID ` set (w # ds) = {i. (r, i) \<in> (parent_rel db ?t)\<^sup>*}"
    by (rule tree_nodes [OF q tenant_or_default_idem get])
  have fin: "isTerminalState (wm_State v)" if v: "v \<in> set (w # ds)" for v
  proof -
    have "(r, wm_WorkID v) \<in> (parent_rel db ?t)\<^sup>*" using v ds(4) by blast
    from tree [OF this] v ds(3) show ?thesis by auto
  qed
  then have "find (\<lambda>d. \<not> isTerminalState (wm_State d)) ds = None" by (simp add: find_None_all)
  with st get ds(1) fin [of w] show ?thesis by (simp add: EnsureTerminalState_def Let_def)
qed

lemma CancelWorkTree_run:
  assumes "o_store orc = Some db" and "GetWork db (tenant_or_default t) r = Inr w"
    and "ListDescendants db (tenant_or_default t) r = Inr ds"
    and "CancelWorkTree orc now newID schedule t r reason = Some (res, orc')"
  shows "\<exists>c run x. ce_tenant c = tenant_or_default t \<and>
     run = foldl (cancel_step c) (cancel_start orc (w # ds)) schedule \<and> all_done run \<and>
     res = Inr x \<and> cn_CancelledWorkIDs x = cr_cancelled run \<and>
     cn_AlreadyTerminalIDs x = map wm_WorkID (filter (\<lambda>w. isTerminalState (wm_State w)) (w # ds)) \<and>
     cn_TotalAffected x = length (cn_CancelledWorkIDs x) + length (cn_AlreadyTerminalIDs x) \<and>
     o_store orc' = o_store (cr_orc run)"
  using assms
  by (intro exI [of _ "\<lparr>ce_tenant = tenant_or_default t, ce_root = r,
        ce_reason = (if reason = [] then ''cancelled by operator'' else reason), ce_now = now, ce_newID = newID\<rparr>"])
    (auto simp: CancelWorkTree_def Let_def split: if_splits)

text \<open>The rows after a finished run on a quiet store.\<close>

lemma finished_run:
  assumes inv: "cancel_inv t db0 ids run" and fin: "all_done run"
  obtains db where "o_store (cr_orc run) = Some db" "quiet_db db"
    "map work_shape (wdb_works db) = map work_shape (wdb_works db0)"
    "\<forall>i\<in>set ids. \<exists>w. work_row db t i = Some w \<and> wm_State w = ''CANCELED''"
    "\<forall>i. i \<notin> set ids \<longrightarrow> work_row db t i = work_row db0 t i"
    "mset (cr_cancelled run) = mset ids"
proof -
  from inv obtain db where db: "o_store (cr_orc run) = Some db" "quiet_db db"
      "map work_shape (wdb_works db) = map work_shape (wdb_works db0)"
      "\<forall>p\<in>set (cr_procs run). proc_ok db t p"
      "\<forall>i. i \<notin> set ids \<longrightarrow> work_row db t i = work_row db0 t i"
    and ids: "map fst (cr_procs run) = ids"
    and ms: "mset (cr_cancelled run) = mset (map fst (filter (\<lambda>(i, pc). pc = CDone) (cr_procs run)))"
    by (auto simp: cancel_inv_def)
  have "filter (\<lambda>(i, pc). pc = CDone) (cr_procs run) = cr_procs run"
    using fin by (simp add: all_done_def filter_id_conv)
  with ms ids have "mset (cr_cancelled run) = mset ids" by simp
  moreover have "\<exists>w. work_row db t i = Some w \<and> wm_State w = ''CANCELED''" if i: "i \<in> set ids" for i
  proof -
    from i ids obtain pc where "(i, pc) \<in> set (cr_procs run)" by force
    with fin db(4) show ?thesis by (fastforce simp: all_done_def split: option.splits)
  qed
  ultimately show thesis using that db by blast
qed

text \<open>The writes of one goroutine from its first move to its report, with nobody in between.\<close>

fun cancel_moves :: "nat \<Rightarrow> cancel_env \<Rightarrow> orchestrator \<Rightarrow> string \<Rightarrow> cancel_pc \<Rightarrow> orchestrator" where
  "cancel_moves 0 c orc i pc = orc"
| "cancel_moves (Suc n) c orc i pc =
     (case cancel_move c orc i pc of (orc', pc', _) \<Rightarrow> cancel_moves n c orc' i pc')"

lemma cancel_moves_stale:
  assumes inv: "work_table_inv db" and nf: "\<And>q. \<not> wdb_fault db q" and st: "o_store orc = Some db"
    and t: "tenant_or_default (ce_tenant c) = ce_tenant c"
    and stale: "\<And>w. work_row db (ce_tenant c) i = Some w \<Longrightarrow> wm_Version w \<noteq> v"
  shows "works_of (cancel_moves 5 c orc i (CUpdate v)) = works_of orc"
proof -
  have "UpdateWorkState db (ce_now c) (ce_tenant c) i v ''CANCELED'' (ce_reason c)
      = (Inl ErrWorkVersionMismatch, db)"
    using UpdateWorkState_stale [OF inv, of "ce_tenant c" i v] nf t stale by simp
  moreover have "works_of orc = Some (wdb_works db)" using st by (simp add: works_of_def)
  ultimately show ?thesis using st by (simp add: numeral_eq_Suc)
qed

text \<open>The ids a cancellation acts on, and the split of the tree into them and the rest.\<close>

lemma split_ids:
  assumes "mset cancelled = mset (active_ids nodes)"
  shows "mset (cancelled @ map wm_WorkID (filter (\<lambda>w. isTerminalState (wm_State w)) nodes))
           = mset (map wm_WorkID nodes)"
  using assms multiset_partition [of "mset nodes" "\<lambda>w. isTerminalState (wm_State w)"]
  by (metis (no_types, lifting) active_ids_def image_mset_union mset_append mset_filter mset_map union_commute)

lemma tree_rows_terminal:
  assumes rows: "\<forall>v\<in>set nodes. work_row db t (wm_WorkID v) = Some v"
    and tree: "wm_WorkID ` set nodes = {i. (r, i) \<in> (parent_rel db t)\<^sup>*}"
    and shape: "map work_shape (wdb_works db') = map work_shape (wdb_works db)"
    and canceled: "\<forall>i\<in>set (active_ids nodes). \<exists>w. work_row db' t i = Some w \<and> wm_State w = ''CANCELED''"
    and same: "\<forall>i. i \<notin> set (active_ids nodes) \<longrightarrow> work_row db' t i = work_row db t i"
    and i: "(r, i) \<in> (parent_rel db' t)\<^sup>*"
  shows "\<exists>v. work_row db' t i = Some v \<and> isTerminalState (wm_State v)"
proof -
  have "i \<in> wm_WorkID ` set nodes"
    using i parent_rel_shape [OF shape, of t] unfolding tree by simp
  then obtain v where v: "v \<in> set nodes" "wm_WorkID v = i" by blast
  show ?thesis
  proof (cases "i \<in> set (active_ids nodes)")
    case True
    with canceled show ?thesis by (auto simp: isTerminalState_def)
  next
    case False
    with v have "isTerminalState (wm_State v)" by (auto simp: active_ids_def)
    with False v same rows show ?thesis by auto
  qed
qed

lemma CancelWorkTree_fair:
  assumes "o_store orc = Some db" and "GetWork db (tenant_or_default t) r = Inr w"
    and "ListDescendants db (tenant_or_default t) r = Inr ds"
    and "\<forall>k\<le>length ds. 5 \<le> count_list schedule (Turn k)"
  shows "\<exists>x orc'. CancelWorkTree orc now newID schedule t r reason = Some (Inr x, orc')"
proof -
  let ?start = "cancel_start orc (w # ds)"
  have "length (cr_procs ?start) \<le> Suc (length ds)"
    by (simp add: cancel_start_def le_SucI)
  then have "\<forall>k<length (cr_procs ?start). 5 \<le> count_list schedule (Turn k)"
    using assms(4) by auto
  then have "all_done (foldl (cancel_step c) ?start schedule)" for c by (rule fair_run_done)
  with assms(1-3) show ?thesis by (simp add: CancelWorkTree_def Let_def)
qed

lemma sample_tree_quiet: "quiet_db sample_tree_db"
  by (simp add: quiet_db_def sample_tree_inv sample_tree_no_fault)

section \<open>Properties\<close>

text \<open>C26: if every goroutine of a cancellation gets its turns, whatever the order and whatever
  other clients write in between, the call returns.\<close>

theorem CancelWorkTree_returns:
  assumes "o_store orc = Some db" and "GetWork db (tenant_or_default t) r = Inr w"
    and "ListDescendants db (tenant_or_default t) r = Inr ds"
    and "\<forall>k\<le>length ds. 5 \<le> count_list schedule (Turn k)"
  shows "\<exists>x orc'. CancelWorkTree orc now newID schedule t r reason = Some (Inr x, orc')"
  using assms by (rule CancelWorkTree_fair)

theorem CancelWorkTree_returns_witness:
  "\<exists>x orc'. CancelWorkTree (NewOrchestrator (Some sample_tree_db) False True) 7 (\<lambda>i. i)
     ([Turn 0, OtherClient (OpUpdateState 6 [] ''w2'' 1 ''WORKING'' [])] @
      concat (replicate 5 [Turn 1, Turn 0])) ''default'' ''w1'' [] = Some (Inr x, orc')"
proof -
  have "\<forall>k\<le>length [sample_kid]. 5 \<le> count_list ([Turn 0, OtherClient (OpUpdateState 6 [] ''w2'' 1 ''WORKING'' [])] @
      concat (replicate 5 [Turn 1, Turn 0])) (Turn k)"
    by (auto simp: numeral_eq_Suc le_Suc_eq)
  then show ?thesis
    using sample_tree_get(1) sample_tree_descendants
    by (intro CancelWorkTree_returns [of _ sample_tree_db _ _ sample_row "[sample_kid]"])
      (simp_all add: tenant_or_default_def NewOrchestrator_def)
qed

text \<open>C1: on a store without faults and without other writers, under every interleaving of its
  goroutines, a cancellation that returns leaves the root and all its descendants in a terminal
  state (\<open>EnsureTerminalState\<close> confirms it), names every node of the tree exactly once, as
  cancelled or as terminal before, and changes no row outside the cancelled ones.\<close>

theorem CancelWorkTree_terminal:
  assumes "o_store orc = Some db" and "quiet_db db" and "GetWork db (tenant_or_default t) r = Inr w"
    and "\<forall>e\<in>set schedule. \<exists>k. e = Turn k"
    and "CancelWorkTree orc now newID schedule t r reason = Some (res, orc')"
  shows "EnsureTerminalState orc' t r = Inr True \<and>
    (\<exists>x db'. res = Inr x \<and> o_store orc' = Some db' \<and>
       distinct (cn_CancelledWorkIDs x @ cn_AlreadyTerminalIDs x) \<and>
       set (cn_CancelledWorkIDs x @ cn_AlreadyTerminalIDs x)
         = {i. (r, i) \<in> (parent_rel db (tenant_or_default t))\<^sup>*} \<and>
       (\<forall>i. i \<notin> set (cn_CancelledWorkIDs x) \<longrightarrow>
          work_row db' (tenant_or_default t) i = work_row db (tenant_or_default t) i))"
proof -
  let ?t = "tenant_or_default t"
  obtain ds where ds: "ListDescendants db ?t r = Inr ds" "distinct (map wm_WorkID (w # ds))"
      "\<forall>v\<in>set (w # ds). work_row db ?t (wm_WorkID v) = Some v"
      "wm_WorkID ` set (w # ds) = {i. (r, i) \<in> (parent_rel db ?t)\<^sup>*}"
    by (rule tree_nodes [OF assms(2) tenant_or_default_idem assms(3)])
  obtain c run x where c: "ce_tenant c = ?t" and
    run: "run = foldl (cancel_step c) (cancel_start orc (w # ds)) schedule" "all_done run" and
    x: "res = Inr x" "cn_CancelledWorkIDs x = cr_cancelled run"
      "cn_AlreadyTerminalIDs x = map wm_WorkID (filter (\<lambda>w. isTerminalState (wm_State w)) (w # ds))"
      "o_store orc' = o_store (cr_orc run)"
    using CancelWorkTree_run [OF assms(1,3) ds(1) assms(5)] by blast
  have "cancel_inv ?t db (active_ids (w # ds)) run"
    unfolding run(1) using cancel_start_inv [OF assms(2,1) ds(2,3)] c assms(4)
    by (intro cancel_inv_run) auto
  from finished_run [OF this run(2)] obtain db' where
    db': "o_store (cr_orc run) = Some db'" "quiet_db db'"
      "map work_shape (wdb_works db') = map work_shape (wdb_works db)"
      "\<forall>i\<in>set (active_ids (w # ds)). \<exists>w. work_row db' ?t i = Some w \<and> wm_State w = ''CANCELED''"
      "\<forall>i. i \<notin> set (active_ids (w # ds)) \<longrightarrow> work_row db' ?t i = work_row db ?t i"
      "mset (cr_cancelled run) = mset (active_ids (w # ds))"
    by blast
  have "EnsureTerminalState orc' t r = Inr True"
    using tree_rows_terminal [OF ds(3,4) db'(3,4,5)] db'(1,2) x(4)
    by (intro EnsureTerminalState_true [of db']) auto
  moreover have "distinct (cn_CancelledWorkIDs x @ cn_AlreadyTerminalIDs x)"
    using split_ids [OF db'(6)] ds(2) x by (metis mset_eq_imp_distinct_iff)
  moreover have "set (cn_CancelledWorkIDs x @ cn_AlreadyTerminalIDs x) = {i. (r, i) \<in> (parent_rel db ?t)\<^sup>*}"
    using split_ids [OF db'(6)] ds(4) x by (metis list.set_map mset_eq_setD)
  moreover have "set (cr_cancelled run) = set (active_ids (w # ds))"
    using db'(6) by (rule mset_eq_setD)
  ultimately show ?thesis using x db'(1,5) by auto
qed

theorem CancelWorkTree_terminal_witness:
  "\<exists>res orc'. CancelWorkTree (NewOrchestrator (Some sample_tree_db) False True) 7 (\<lambda>i. i)
       (concat (replicate 5 [Turn 1, Turn 0])) ''default'' ''w1'' [] = Some (res, orc') \<and>
     EnsureTerminalState orc' ''default'' ''w1'' = Inr True"
proof -
  let ?orc = "NewOrchestrator (Some sample_tree_db) False True"
  let ?sched = "concat (replicate 5 [Turn 1, Turn 0])"
  have st: "o_store ?orc = Some sample_tree_db" by (simp add: NewOrchestrator_def)
  have "\<forall>k\<le>length [sample_kid]. 5 \<le> count_list ?sched (Turn k)"
    by (auto simp: numeral_eq_Suc le_Suc_eq)
  then have "\<exists>x orc'. CancelWorkTree ?orc 7 (\<lambda>i. i) ?sched ''default'' ''w1'' [] = Some (Inr x, orc')"
    using sample_tree_get(1) sample_tree_descendants
    by (intro CancelWorkTree_fair [OF st, of _ _ sample_row "[sample_kid]"]) (simp_all add: tenant_or_default_def)
  then obtain x orc' where "CancelWorkTree ?orc 7 (\<lambda>i. i) ?sched ''default'' ''w1'' [] = Some (Inr x, orc')"
    by blast
  then show ?thesis
    using CancelWorkTree_terminal [OF st sample_tree_quiet, of "''default''" "''w1''" sample_row ?sched]
      sample_tree_get(1)
    by (force simp: tenant_or_default_def)
qed

text \<open>A goroutine whose snapshot of its node is out of date, because another client has
  updated the node's state since, changes no work row: a version mismatch is not retried.\<close>

theorem stale_cancellation_is_dropped:
  assumes "work_table_inv db" and "\<forall>q. \<not> wdb_fault db q"
    and "UpdateWorkState db n (ce_tenant c) i v s reason = (Inr v', db')"
    and "o_store orc = Some db'" and "tenant_or_default (ce_tenant c) = ce_tenant c"
  shows "works_of (cancel_moves 5 c orc i (CUpdate v)) = Some (wdb_works db') \<and>
     map_option wm_State (work_row db' (ce_tenant c) i) = Some s"
proof -
  from UpdateWorkState_success [OF assms(1,3)] assms(5) obtain w where
    w: "work_row db' (ce_tenant c) i = Some (set_work_state n s reason w)" "wm_Version w = v"
    by auto
  have "work_table_inv db'" "\<And>q. \<not> wdb_fault db' q"
    using UpdateWorkState_inv [OF assms(1), of n "ce_tenant c" i v s reason]
      UpdateWorkState_fault(1) [of db n "ce_tenant c" i v s reason] assms(2,3) by simp_all
  then have "works_of (cancel_moves 5 c orc i (CUpdate v)) = works_of orc"
    using assms(4,5) w by (intro cancel_moves_stale) auto
  with assms(4) w show ?thesis by (simp add: works_of_def)
qed

theorem stale_cancellation_is_dropped_witness:
  "works_of (cancel_moves 5 \<lparr>ce_tenant = ''default'', ce_root = ''w1'', ce_reason = ''stop'', ce_now = 10, ce_newID = (\<lambda>i. i)\<rparr>
     (NewOrchestrator (Some (sample_tree_db\<lparr>wdb_works := [set_work_state 9 ''WORKING'' [] sample_row, sample_kid]\<rparr>))
        False False) ''w1'' (CUpdate 1))
   = Some [set_work_state 9 ''WORKING'' [] sample_row, sample_kid]"
proof -
  have "UpdateWorkState sample_tree_db 9 ''default'' ''w1'' 1 ''WORKING'' [] =
     (Inr 2, sample_tree_db\<lparr>wdb_works := [set_work_state 9 ''WORKING'' [] sample_row, sample_kid]\<rparr>)"
    using sample_tree_update by (simp add: UpdateWorkState_def tenant_or_default_def)
  then show ?thesis
    using stale_cancellation_is_dropped [OF sample_tree_inv, of 9
        "\<lparr>ce_tenant = ''default'', ce_root = ''w1'', ce_reason = ''stop'', ce_now = 10, ce_newID = (\<lambda>i. i)\<rparr>"
        "''w1''" 1 "''WORKING''" "[]" 2]
    by (simp add: sample_tree_no_fault NewOrchestrator_def tenant_or_default_def)
qed

end
