(* ===== verification/Delegation.thy ===== *)
theory Delegation
  imports Orchestrator
begin

text \<open>
  Delegations that overlap. \<open>DelegateTask\<close> (\<open>backend/a2a/orchestration/orchestrator.go\<close>) makes its
  calls to the store one after the other, with no lock and no transaction around them, and
  \<open>ExecuteFanOut\<close> runs it in several goroutines. Here a delegation is a machine with a program
  counter that makes one call of the store per move: each row of the walk up the ancestors
  (\<open>CheckProposedEdge\<close>), the parent, the count of the active children, the context, the work row, the
  charge of the parent, the trace event. Between two moves of one delegation others may move and other
  clients may write whatever the store lets them.

  Shown here: a delegation that nothing interrupts is \<open>DelegateTask\<close>; in every interleaving the row
  of an accepted delegation is one level below the row of its parent, within the depth limit it
  inherits from it, and the parent relation has no cycle; and two delegations that overlap can spend
  more than the parent has.
\<close>

section \<open>The machine\<close>

datatype delegate_pc =
    DStart
  | DWalk nat string "string list"
  | DLoad
  | DCount work_message
  | DDeny string orch_error
  | DContext int work_message
  | DCreate int work_message
  | DCharge int work_message
  | DTrace int work_message
  | DDone "orch_error + work_message"

definition delegate_tenant :: "delegate_request \<Rightarrow> string" where
  "delegate_tenant req = tenant_or_default (dr_TenantID req)"

definition delegate_workID :: "fresh_ids \<Rightarrow> delegate_request \<Rightarrow> string" where
  "delegate_workID ids req = (if dr_ChildWorkID req = [] then fi_work ids else dr_ChildWorkID req)"

definition delegate_contextID :: "fresh_ids \<Rightarrow> delegate_request \<Rightarrow> string" where
  "delegate_contextID ids req = (if dr_ContextID req = [] then fi_context ids else dr_ContextID req)"

text \<open>The message is filled when the checks have passed; without a store only the trace is left.\<close>

definition delegate_message :: "orchestrator \<Rightarrow> instant \<Rightarrow> fresh_ids \<Rightarrow> delegate_request \<Rightarrow> int \<Rightarrow> work_budget option \<Rightarrow> delegate_pc" where
  "delegate_message orc now ids req depth childBudget =
     (let budget = (case childBudget of None \<Rightarrow> EffectiveBudget (dr_Budget req) | Some b \<Rightarrow> b);
          w = delegated_work now (delegate_tenant req) (delegate_workID ids req) (delegate_contextID ids req) req depth budget in
      if o_store orc = None then DTrace depth w else DContext depth w)"

definition delegate_begin :: "orchestrator \<Rightarrow> instant \<Rightarrow> fresh_ids \<Rightarrow> delegate_request \<Rightarrow> delegate_pc" where
  "delegate_begin orc now ids req =
     (let pid = dr_ParentWorkID req; workID = delegate_workID ids req in
      if pid = [] then delegate_message orc now ids req 0 None
      else if workID \<noteq> [] \<and> pid = workID then DDeny ''CYCLIC_DELEGATION'' ErrDirectCycle
      else if o_store orc = None then delegate_message orc now ids req 0 None
      else if workID = [] then DLoad
      else DWalk 100 pid [pid])"

definition walk_move :: "work_db \<Rightarrow> string \<Rightarrow> string \<Rightarrow> nat \<Rightarrow> string \<Rightarrow> string list \<Rightarrow> delegate_pc" where
  "walk_move db tenant workID n currentID visited =
     (case n of
        0 \<Rightarrow> DLoad
      | Suc m \<Rightarrow>
          (case GetWork db tenant currentID of
             Inl e \<Rightarrow> if e = ErrWorkNotFound then DLoad else DDeny ''CYCLIC_DELEGATION'' (ErrStore e)
           | Inr parentWork \<Rightarrow>
               (case wm_ParentWorkID parentWork of
                  None \<Rightarrow> DLoad
                | Some ancestorID \<Rightarrow>
                    if ancestorID = [] then DLoad
                    else if ancestorID = workID \<or> ancestorID \<in> set visited then DDeny ''CYCLIC_DELEGATION'' ErrIndirectCycle
                    else DWalk m ancestorID (ancestorID # visited))))"

definition load_move :: "work_db \<Rightarrow> delegate_request \<Rightarrow> delegate_pc" where
  "load_move db req =
     (case GetWork db (delegate_tenant req) (dr_ParentWorkID req) of
        Inl e \<Rightarrow> DDone (Inl (ErrStore e))
      | Inr parent \<Rightarrow>
          if isTerminalState (wm_State parent) then DDone (Inl ErrParentTerminal)
          else (case ValidateDelegationLimits (Some parent) (i32 (wm_DelegationDepth parent + 1)) of
                  Inl e \<Rightarrow> DDeny ''DELEGATION_LIMIT'' (ErrLimit e)
                | Inr _ \<Rightarrow> DCount parent))"

definition count_move :: "orchestrator \<Rightarrow> work_db \<Rightarrow> instant \<Rightarrow> fresh_ids \<Rightarrow> delegate_request \<Rightarrow> work_message \<Rightarrow> delegate_pc" where
  "count_move orc db now ids req parent =
     (case (case CountActiveChildren db (delegate_tenant req) (dr_ParentWorkID req) of
              Inl _ \<Rightarrow> Inr ()
            | Inr n \<Rightarrow> ValidateConcurrencyLimit (Some parent) (int n)) of
        Inl e \<Rightarrow> DDeny ''CONCURRENCY_LIMIT'' (ErrLimit e)
      | Inr _ \<Rightarrow>
     (case ValidateBudgetAvailability (Some parent) (dr_RequestedTokens req) (dr_RequestedWorkUnits req) of
        Inl e \<Rightarrow> DDeny ''BUDGET_LIMIT'' (ErrLimit e)
      | Inr _ \<Rightarrow> delegate_message orc now ids req (i32 (wm_DelegationDepth parent + 1))
                   (Some (AllocateChildBudget (Some parent) (dr_Budget req)))))"

fun delegate_move ::
  "(orch_error \<Rightarrow> string) \<Rightarrow> instant \<Rightarrow> fresh_ids \<Rightarrow> delegate_request \<Rightarrow> delegate_pc \<times> orchestrator \<Rightarrow> delegate_pc \<times> orchestrator" where
  "delegate_move render now ids req (DStart, orc) = (delegate_begin orc now ids req, orc)"
| "delegate_move render now ids req (DDeny limitType e, orc) =
     (DDone (Inl e), recordPolicyLimitEvent orc now (fi_event ids) (delegate_tenant req) (dr_ParentWorkID req) limitType (render e))"
| "delegate_move render now ids req (DTrace depth w, orc) =
     (DDone (Inr w), record_trace orc now (fi_event ids) (delegation_event (delegate_tenant req) (delegate_workID ids req) req depth))"
| "delegate_move render now ids req (DDone r, orc) = (DDone r, orc)"
| "delegate_move render now ids req (pc, orc) =
     (case o_store orc of
        None \<Rightarrow>
          (case pc of
             DWalk n currentID visited \<Rightarrow> DLoad
           | DContext depth w \<Rightarrow> DTrace depth w
           | DCreate depth w \<Rightarrow> DTrace depth w
           | DCharge depth w \<Rightarrow> DTrace depth w
           | _ \<Rightarrow> delegate_message orc now ids req 0 None, orc)
      | Some db \<Rightarrow>
     (case pc of
        DWalk n currentID visited \<Rightarrow> (walk_move db (delegate_tenant req) (delegate_workID ids req) n currentID visited, orc)
      | DLoad \<Rightarrow> (load_move db req, orc)
      | DCount parent \<Rightarrow> (count_move orc db now ids req parent, orc)
      | DContext depth w \<Rightarrow>
          (case EnsureWorkContext db now (delegate_tenant req) (wm_ContextID w) (wm_WorkID w) of
             (Inl e, db1) \<Rightarrow> (DDone (Inl (ErrStore e)), orc\<lparr>o_store := Some db1\<rparr>)
           | (Inr _, db1) \<Rightarrow> (DCreate depth w, orc\<lparr>o_store := Some db1\<rparr>))
      | DCreate depth w \<Rightarrow>
          (case CreateWork db now w of
             (Inl e, db1) \<Rightarrow> (DDone (Inl (ErrStore e)), orc\<lparr>o_store := Some db1\<rparr>)
           | (Inr _, db1) \<Rightarrow>
               (if dr_ParentWorkID req = [] then DTrace depth w else DCharge depth w, orc\<lparr>o_store := Some db1\<rparr>))
      | DCharge depth w \<Rightarrow>
          (DTrace depth w,
           orc\<lparr>o_store := Some (snd (UpdateWorkUsage db now (delegate_tenant req) (dr_ParentWorkID req) 1 0 0
                  (dr_RequestedTokens req) (dr_RequestedWorkUnits req)))\<rparr>)))"

text \<open>How many moves are left at most.\<close>

fun delegate_left :: "delegate_pc \<Rightarrow> nat" where
  "delegate_left DStart = 108"
| "delegate_left (DWalk n c v) = 7 + n"
| "delegate_left DLoad = 6"
| "delegate_left (DCount p) = 5"
| "delegate_left (DContext d w) = 4"
| "delegate_left (DCreate d w) = 3"
| "delegate_left (DCharge d w) = 2"
| "delegate_left (DTrace d w) = 1"
| "delegate_left (DDeny l e) = 1"
| "delegate_left (DDone r) = 0"

lemma delegate_message_left: "delegate_left (delegate_message orc now ids req d b) \<le> 4"
  by (simp add: delegate_message_def Let_def)

lemma delegate_move_left:
  assumes "delegate_move render now ids req (pc, orc) = (pc', orc')"
  shows "delegate_left pc' < delegate_left pc \<or> (\<exists>r. pc = DDone r \<and> pc' = DDone r)"
proof -
  have m: "delegate_left (delegate_message orc now ids req d b) < 5" for d b
    using delegate_message_left [of orc now ids req d b] by simp
  have "delegate_left (delegate_begin orc now ids req) < 108" using m by (auto simp: delegate_begin_def Let_def less_trans [OF m])
  moreover have "delegate_left (walk_move db t i n c v) < 7 + n" for db t i n c v
    by (auto simp: walk_move_def split: nat.split sum.split option.split)
  moreover have "delegate_left (load_move db req) < 6" for db by (auto simp: load_move_def split: sum.split)
  moreover have "delegate_left (count_move orc db now ids req p) < 5" for db p using m by (auto simp: count_move_def split: sum.split)
  ultimately show ?thesis using assms m [of 0 None]
    by (cases pc; cases "o_store orc") (auto split: prod.splits sum.splits if_splits)
qed

text \<open>An uninterrupted delegation.\<close>

definition delegate_moves ::
  "(orch_error \<Rightarrow> string) \<Rightarrow> instant \<Rightarrow> fresh_ids \<Rightarrow> delegate_request \<Rightarrow> nat \<Rightarrow> delegate_pc \<times> orchestrator \<Rightarrow> delegate_pc \<times> orchestrator" where
  "delegate_moves render now ids req n s = (delegate_move render now ids req ^^ n) s"

section \<open>An uninterrupted delegation is the call\<close>

definition reaches ::
  "(orch_error \<Rightarrow> string) \<Rightarrow> instant \<Rightarrow> fresh_ids \<Rightarrow> delegate_request \<Rightarrow> delegate_pc \<times> orchestrator \<Rightarrow> delegate_pc \<times> orchestrator \<Rightarrow> bool" where
  "reaches render now ids req s s' \<longleftrightarrow> (\<exists>n. delegate_moves render now ids req n s = s')"

lemma reaches_refl: "reaches render now ids req s s"
  unfolding reaches_def delegate_moves_def by (rule exI [of _ 0]) simp

lemma reaches_step: "reaches render now ids req (delegate_move render now ids req s) s' \<Longrightarrow> reaches render now ids req s s'"
  unfolding reaches_def delegate_moves_def by (metis comp_apply funpow_Suc_right)

lemma reaches_trans: "reaches render now ids req s s' \<Longrightarrow> reaches render now ids req s' s'' \<Longrightarrow> reaches render now ids req s s''"
  unfolding reaches_def delegate_moves_def by (metis comp_apply funpow_add)

lemma walk_reaches:
  assumes "o_store orc = Some db"
  shows "reaches render now ids req (DWalk n cur vis, orc)
    (case ancestor_loop n db (delegate_tenant req) (delegate_workID ids req) cur vis of
       Inl e \<Rightarrow> DDeny ''CYCLIC_DELEGATION'' e | Inr _ \<Rightarrow> DLoad, orc)"
proof (induction n arbitrary: cur vis)
  case 0
  show ?case by (rule reaches_step) (simp add: assms walk_move_def reaches_refl)
next
  case (Suc n)
  let ?loop = "ancestor_loop n db (delegate_tenant req) (delegate_workID ids req)"
  have denied: "?loop c v = Inl e \<Longrightarrow> reaches render now ids req (DWalk n c v, orc) (DDeny ''CYCLIC_DELEGATION'' e, orc)" for c v e
    using Suc.IH [of c v] by simp
  have passed: "?loop c v = Inr () \<Longrightarrow> reaches render now ids req (DWalk n c v, orc) (DLoad, orc)" for c v
    using Suc.IH [of c v] by simp
  show ?case
    by (rule reaches_step)
      (auto simp: assms walk_move_def ancestor_loop.simps reaches_refl intro: denied passed split: sum.split option.split)
qed

text \<open>From the message on.\<close>

lemma message_reaches:
  fixes req ids
  defines "t \<equiv> delegate_tenant req" and "i \<equiv> delegate_workID ids req"
  assumes w: "w = delegated_work now t i (delegate_contextID ids req) req depth (case b of None \<Rightarrow> EffectiveBudget (dr_Budget req) | Some b \<Rightarrow> b)"
  shows "reaches render now ids req (delegate_message orc now ids req depth b, orc)
    (case o_store orc of
       None \<Rightarrow> (DDone (Inr w), record_trace orc now (fi_event ids) (delegation_event t i req depth))
     | Some db \<Rightarrow>
         (case persist_delegation db now t req w of
            (Inl e, db') \<Rightarrow> (DDone (Inl e), orc\<lparr>o_store := Some db'\<rparr>)
          | (Inr _, db') \<Rightarrow> (DDone (Inr w), record_trace (orc\<lparr>o_store := Some db'\<rparr>) now (fi_event ids) (delegation_event t i req depth))))"
proof (cases "o_store orc")
  case None
  have m: "delegate_message orc now ids req depth b = DTrace depth w" by (simp add: delegate_message_def None w t_def i_def)
  show ?thesis unfolding m by (rule reaches_step) (simp add: None t_def i_def reaches_refl)
next
  case (Some db)
  have m: "delegate_message orc now ids req depth b = DContext depth w" by (simp add: delegate_message_def Some w t_def i_def)
  obtain r1 db1 where c: "EnsureWorkContext db now t (wm_ContextID w) (wm_WorkID w) = (r1, db1)" by fastforce
  obtain r2 db2 where n: "CreateWork db1 now w = (r2, db2)" by fastforce
  show ?thesis unfolding m
    by (rule reaches_step, cases r1)
      (auto simp: Some c [unfolded t_def] persist_delegation_def t_def i_def n reaches_refl
        intro!: reaches_step [of _ _ _ _ "(DCreate depth w, orc1)" for orc1]
        reaches_step [of _ _ _ _ "(DCharge depth w, orc1)" for orc1]
        reaches_step [of _ _ _ _ "(DTrace depth w, orc1)" for orc1] split: sum.split)
qed

lemma deny_reaches:
  "reaches render now ids req (DDeny l e, orc)
     (DDone (Inl e), recordPolicyLimitEvent orc now (fi_event ids) (delegate_tenant req) (dr_ParentWorkID req) l (render e))"
  by (rule reaches_step) (simp add: reaches_refl)

lemma load_reaches:
  assumes "o_store orc = Some db" and "dr_ParentWorkID req \<noteq> []"
    and "CheckProposedEdge (o_store orc) (delegate_tenant req) (dr_ParentWorkID req) (delegate_workID ids req) = Inr ()"
  shows "reaches render now ids req (DLoad, orc)
    (case delegate_parent_checks render orc now (fi_event ids) (delegate_tenant req) (delegate_workID ids req) req of
       (Inl e, orc1) \<Rightarrow> (DDone (Inl e), orc1)
     | (Inr (depth, b), orc1) \<Rightarrow> (delegate_message orc now ids req depth b, orc))"
proof -
  have one: "reaches render now ids req (DLoad, orc) (load_move db req, orc)"
    by (rule reaches_step) (simp add: assms(1) reaches_refl)
  have two: "reaches render now ids req (DCount parent, orc) (count_move orc db now ids req parent, orc)" for parent
    by (rule reaches_step) (simp add: assms(1) reaches_refl)
  show ?thesis
    by (rule reaches_trans [OF one])
      (use assms(2,3) in \<open>auto simp: assms(1) load_move_def count_move_def delegate_parent_checks_def Let_def
        intro: deny_reaches reaches_refl intro!: reaches_trans [OF two] split: sum.split\<close>)
qed

lemma checks_reach:
  "reaches render now ids req (DStart, orc)
    (case delegate_parent_checks render orc now (fi_event ids) (delegate_tenant req) (delegate_workID ids req) req of
       (Inl e, orc1) \<Rightarrow> (DDone (Inl e), orc1)
     | (Inr (depth, b), orc1) \<Rightarrow> (delegate_message orc now ids req depth b, orc))" (is "reaches _ _ _ _ _ ?goal")
proof -
  let ?p = "dr_ParentWorkID req" and ?i = "delegate_workID ids req" and ?t = "delegate_tenant req"
  have start: "reaches render now ids req (DStart, orc) (delegate_begin orc now ids req, orc)"
    by (rule reaches_step) (simp add: reaches_refl)
  have deny: "reaches render now ids req (DDeny ''CYCLIC_DELEGATION'' e, orc) ?goal"
    if "CheckProposedEdge (o_store orc) ?t ?p ?i = Inl e" "?p \<noteq> []" for e
    using deny_reaches that by (simp add: delegate_parent_checks_def Let_def)
  consider "?p = []" | "?p \<noteq> []" "?p = ?i" | "?p \<noteq> []" "?p \<noteq> ?i" "o_store orc = None"
    | db where "?p \<noteq> []" "?p \<noteq> ?i" "o_store orc = Some db" "?i = []"
    | db where "?p \<noteq> []" "?p \<noteq> ?i" "o_store orc = Some db" "?i \<noteq> []"
    by blast
  then show ?thesis
  proof cases
    case 1
    then show ?thesis using start by (simp add: delegate_begin_def delegate_parent_checks_def Let_def)
  next
    case 2
    then have "delegate_begin orc now ids req = DDeny ''CYCLIC_DELEGATION'' ErrDirectCycle" by (simp add: delegate_begin_def Let_def)
    with reaches_trans [OF start, of ?goal] deny [of ErrDirectCycle] 2 show ?thesis by (simp add: CheckProposedEdge_def)
  next
    case 3
    then show ?thesis using start by (simp add: delegate_begin_def delegate_parent_checks_def CheckProposedEdge_def Let_def)
  next
    case 4
    then have b: "delegate_begin orc now ids req = DLoad" by (simp add: delegate_begin_def Let_def)
    have "CheckProposedEdge (o_store orc) ?t ?p ?i = Inr ()" using 4 by (simp add: CheckProposedEdge_def)
    from reaches_trans [OF start [unfolded b] load_reaches [OF 4(3,1) this]] show ?thesis .
  next
    case 5
    then have b: "delegate_begin orc now ids req = DWalk 100 ?p [?p]" by (simp add: delegate_begin_def Let_def)
    have edge: "CheckProposedEdge (o_store orc) ?t ?p ?i = ancestor_loop 100 db ?t ?i ?p [?p]"
      using 5 by (simp add: CheckProposedEdge_def delegate_tenant_def)
    note walk = reaches_trans [OF start [unfolded b] walk_reaches [OF 5(3)]]
    show ?thesis
    proof (cases "ancestor_loop 100 db ?t ?i ?p [?p]")
      case (Inl e)
      with reaches_trans [OF walk, of ?goal] deny [of e] 5 edge show ?thesis by simp
    next
      case (Inr u)
      with reaches_trans [OF walk, of ?goal] load_reaches [OF 5(3,1)] edge show ?thesis by simp
    qed
  qed
qed

text \<open>Without interruption the moves end, with the result and the state of \<open>DelegateTask\<close>.\<close>

lemma delegate_moves_call:
  "reaches render now ids req (DStart, orc) (DDone (fst (DelegateTask render orc now ids req)), snd (DelegateTask render orc now ids req))"
proof -
  obtain r orc1 where chk: "delegate_parent_checks render orc now (fi_event ids) (delegate_tenant req) (delegate_workID ids req) req = (r, orc1)"
    by fastforce
  show ?thesis
  proof (cases r)
    case (Inl e)
    with checks_reach [of render now ids req orc] chk show ?thesis
      by (simp add: DelegateTask_def delegate_tenant_def delegate_workID_def Let_def)
  next
    case (Inr x)
    obtain depth b where x: "x = (depth, b)" by fastforce
    then have o1: "orc1 = orc" using chk Inr delegate_parent_checks_ok by metis
    have "reaches render now ids req (DStart, orc) (delegate_message orc now ids req depth b, orc)"
      using checks_reach [of render now ids req orc] chk Inr x by simp
    from reaches_trans [OF this message_reaches [OF refl]] show ?thesis
      using chk Inr x o1
      by (auto simp: DelegateTask_def delegate_tenant_def delegate_workID_def delegate_contextID_def Let_def
          split: option.splits sum.splits prod.splits)
  qed
qed

section \<open>Interleavings\<close>

record delegation_run =
  dl_orc :: orchestrator
  dl_tasks :: "(fresh_ids \<times> delegate_request \<times> delegate_pc) list"

datatype delegation_turn =
    TDelegate nat instant
  | TOther store_op

text \<open>A turn is a move of one of the delegations or a write of another client.\<close>

fun delegation_step :: "(orch_error \<Rightarrow> string) \<Rightarrow> delegation_run \<Rightarrow> delegation_turn \<Rightarrow> delegation_run" where
  "delegation_step render run (TDelegate k now) =
     (if k < length (dl_tasks run) then
        (case dl_tasks run ! k of (ids, req, pc) \<Rightarrow>
          (case delegate_move render now ids req (pc, dl_orc run) of (pc', orc') \<Rightarrow>
             run\<lparr>dl_orc := orc', dl_tasks := (dl_tasks run)[k := (ids, req, pc')]\<rparr>))
      else run)"
| "delegation_step render run (TOther op) =
     run\<lparr>dl_orc := (dl_orc run)\<lparr>o_store := map_option (\<lambda>db. store_step db op) (o_store (dl_orc run))\<rparr>\<rparr>"

definition delegation_start :: "orchestrator \<Rightarrow> (fresh_ids \<times> delegate_request) list \<Rightarrow> delegation_run" where
  "delegation_start orc calls = \<lparr>dl_orc = orc, dl_tasks = map (\<lambda>(ids, req). (ids, req, DStart)) calls\<rparr>"

text \<open>The depth of a row is an \<open>int32\<close>, also in the rows of others.\<close>

fun typed_turn :: "delegation_turn \<Rightarrow> bool" where
  "typed_turn (TOther (OpCreateWork n w)) = is_i32 (wm_DelegationDepth w)"
| "typed_turn turn = True"

section \<open>What every write keeps\<close>

definition same_site :: "work_message \<Rightarrow> work_message \<Rightarrow> bool" where
  "same_site r r' \<longleftrightarrow> work_key r' = work_key r \<and> wm_ParentWorkID r' = wm_ParentWorkID r \<and>
     wm_DelegationDepth r' = wm_DelegationDepth r \<and> wm_MaxDepth r' = wm_MaxDepth r"

definition carried :: "work_message list \<Rightarrow> work_message list \<Rightarrow> bool" where
  "carried ws ws' \<longleftrightarrow> (\<forall>r\<in>set ws. \<exists>r'\<in>set ws'. same_site r r')"

lemma carried_refl [simp]: "carried ws ws"
  by (auto simp: carried_def same_site_def)

lemma carried_append [simp]: "carried ws (ws @ vs)"
  by (auto simp: carried_def same_site_def)

lemma carried_update:
  assumes "\<And>r. same_site r (f r)"
  shows "carried ws (update_first P f ws)"
proof (induction ws)
  case (Cons w ws)
  then show ?case using assms [of w] by (auto simp: carried_def) (auto simp: same_site_def)
qed simp

lemma same_site_updates: "same_site r (set_work_state n s x r)" "same_site r (add_usage n a b c d e r)"
  by (simp_all add: same_site_def set_work_state_def add_usage_def work_key_def)

lemma carried_state: "carried (wdb_works db) (wdb_works (snd (UpdateWorkState db n t i v s r)))"
  by (auto simp: UpdateWorkState_def Let_def same_site_updates intro!: carried_update split: option.split)

lemma carried_usage: "carried (wdb_works db) (wdb_works (snd (UpdateWorkUsage db n t i a b c d e)))"
  by (auto simp: UpdateWorkUsage_def Let_def same_site_updates intro!: carried_update split: option.split)

lemma carried_create: "carried (wdb_works db) (wdb_works (snd (CreateWork db n w)))"
  by (cases rule: CreateWork_cases [of db n w]) auto

lemma carried_store_step: "carried (wdb_works db) (wdb_works (store_step db op))"
  by (cases op) (simp_all add: carried_state carried_usage carried_create)

definition depths_typed :: "work_message list \<Rightarrow> bool" where
  "depths_typed ws \<longleftrightarrow> (\<forall>r\<in>set ws. is_i32 (wm_DelegationDepth r))"

lemma depths_typed_update: "(\<And>r. same_site r (f r)) \<Longrightarrow> depths_typed ws \<Longrightarrow> depths_typed (update_first P f ws)"
  by (induction ws) (auto simp: depths_typed_def same_site_def)

lemma depths_typed_create:
  "depths_typed (wdb_works db) \<Longrightarrow> is_i32 (wm_DelegationDepth w) \<Longrightarrow> depths_typed (wdb_works (snd (CreateWork db n w)))"
  by (cases rule: CreateWork_cases [of db n w]) (auto simp: depths_typed_def work_defaults_def)

lemma depths_typed_usage: "depths_typed (wdb_works db) \<Longrightarrow> depths_typed (wdb_works (snd (UpdateWorkUsage db n t i a b c d e)))"
  by (auto simp: UpdateWorkUsage_def Let_def same_site_updates intro: depths_typed_update split: option.split)

lemma depths_typed_step:
  assumes "depths_typed (wdb_works db)" and "typed_turn (TOther op)"
  shows "depths_typed (wdb_works (store_step db op))"
  using assms
  by (cases op) (auto simp: depths_typed_usage depths_typed_create UpdateWorkState_def Let_def same_site_updates
      intro: depths_typed_update split: option.split)

section \<open>The invariant of the interleavings\<close>

text \<open>Where the row of a delegation stands: at the top, or one level below the row of its parent and
  within the limit inherited from it.\<close>

definition stands :: "work_message list \<Rightarrow> string \<Rightarrow> string \<Rightarrow> string \<Rightarrow> bool" where
  "stands ws t i pid \<longleftrightarrow>
     (\<exists>r\<in>set ws. work_key r = (t, i) \<and>
       (if pid = [] then wm_ParentWorkID r = None \<and> wm_DelegationDepth r = 0
        else wm_ParentWorkID r = Some pid \<and>
          (\<exists>p\<in>set ws. work_key p = (t, pid) \<and> wm_DelegationDepth r = wm_DelegationDepth p + 1 \<and>
             wm_MaxDepth r = positive_or (wm_MaxDepth p) DefaultMaxDepth \<and> wm_DelegationDepth r \<le> wm_MaxDepth r)))"

definition sited :: "work_message list \<Rightarrow> string \<Rightarrow> string \<Rightarrow> int \<Rightarrow> int \<Rightarrow> bool" where
  "sited ws t i d m \<longleftrightarrow> (\<exists>r\<in>set ws. work_key r = (t, i) \<and> wm_DelegationDepth r = d \<and> wm_MaxDepth r = m)"

definition will_stand :: "work_message list \<Rightarrow> fresh_ids \<Rightarrow> delegate_request \<Rightarrow> work_message \<Rightarrow> bool" where
  "will_stand ws ids req w \<longleftrightarrow>
     work_key w = (delegate_tenant req, delegate_workID ids req) \<and> is_i32 (wm_DelegationDepth w) \<and>
     (if dr_ParentWorkID req = [] then wm_ParentWorkID w = None \<and> wm_DelegationDepth w = 0
      else wm_ParentWorkID w = Some (dr_ParentWorkID req) \<and>
        (\<exists>d m. sited ws (delegate_tenant req) (dr_ParentWorkID req) d m \<and> wm_DelegationDepth w = i32 (d + 1) \<and>
           wm_MaxDepth w = positive_or m DefaultMaxDepth \<and> wm_DelegationDepth w \<le> wm_MaxDepth w))"

fun pc_sound :: "work_message list \<Rightarrow> fresh_ids \<Rightarrow> delegate_request \<Rightarrow> delegate_pc \<Rightarrow> bool" where
  "pc_sound ws ids req (DCount parent) \<longleftrightarrow>
     dr_ParentWorkID req \<noteq> [] \<and> sited ws (delegate_tenant req) (dr_ParentWorkID req) (wm_DelegationDepth parent) (wm_MaxDepth parent) \<and>
     i32 (wm_DelegationDepth parent + 1) \<le> positive_or (wm_MaxDepth parent) DefaultMaxDepth"
| "pc_sound ws ids req (DWalk n c v) \<longleftrightarrow> dr_ParentWorkID req \<noteq> []"
| "pc_sound ws ids req DLoad \<longleftrightarrow> dr_ParentWorkID req \<noteq> []"
| "pc_sound ws ids req (DContext depth w) \<longleftrightarrow> will_stand ws ids req w"
| "pc_sound ws ids req (DCreate depth w) \<longleftrightarrow> will_stand ws ids req w"
| "pc_sound ws ids req (DCharge depth w) \<longleftrightarrow>
     wm_WorkID w = delegate_workID ids req \<and> stands ws (delegate_tenant req) (delegate_workID ids req) (dr_ParentWorkID req)"
| "pc_sound ws ids req (DTrace depth w) \<longleftrightarrow>
     wm_WorkID w = delegate_workID ids req \<and> stands ws (delegate_tenant req) (delegate_workID ids req) (dr_ParentWorkID req)"
| "pc_sound ws ids req (DDone (Inr w)) \<longleftrightarrow>
     wm_WorkID w = delegate_workID ids req \<and> stands ws (delegate_tenant req) (delegate_workID ids req) (dr_ParentWorkID req)"
| "pc_sound ws ids req pc \<longleftrightarrow> True"

lemma carriedE:
  assumes "carried ws ws'" and "r \<in> set ws"
  obtains r' where "r' \<in> set ws'" "work_key r' = work_key r" "wm_ParentWorkID r' = wm_ParentWorkID r"
    "wm_DelegationDepth r' = wm_DelegationDepth r" "wm_MaxDepth r' = wm_MaxDepth r"
  using assms by (auto simp: carried_def same_site_def)

lemma sited_carried: "carried ws ws' \<Longrightarrow> sited ws t i d m \<Longrightarrow> sited ws' t i d m"
  unfolding sited_def by (metis carriedE)

lemma stands_carried: "carried ws ws' \<Longrightarrow> stands ws t i p \<Longrightarrow> stands ws' t i p"
  unfolding stands_def by (smt (verit, ccfv_SIG) carriedE)

lemma will_stand_carried: "carried ws ws' \<Longrightarrow> will_stand ws ids req w \<Longrightarrow> will_stand ws' ids req w"
  unfolding will_stand_def using sited_carried by (metis (no_types, lifting))

lemma pc_sound_carried:
  assumes "carried ws ws'" and "pc_sound ws ids req pc"
  shows "pc_sound ws' ids req pc"
proof (cases pc)
  case (DDone r)
  then show ?thesis using assms stands_carried by (cases r) auto
qed (use assms sited_carried stands_carried will_stand_carried in auto)

lemma message_sound:
  assumes "dr_ParentWorkID req = [] \<and> depth = 0 \<and> b = None \<or>
     dr_ParentWorkID req \<noteq> [] \<and> (\<exists>parent. b = Some (AllocateChildBudget (Some parent) (dr_Budget req)) \<and>
       depth = i32 (wm_DelegationDepth parent + 1) \<and> depth \<le> positive_or (wm_MaxDepth parent) DefaultMaxDepth \<and>
       sited ws (delegate_tenant req) (dr_ParentWorkID req) (wm_DelegationDepth parent) (wm_MaxDepth parent))"
    and "o_store orc \<noteq> None"
  shows "pc_sound ws ids req (delegate_message orc now ids req depth b)"
  using assms
  by (auto simp: delegate_message_def will_stand_def delegated_work_def work_key_def AllocateChildBudget_depth is_i32_def
      Let_def delegate_tenant_def)
    (use is_i32_i32 is_i32_def in \<open>blast+\<close>)

text \<open>The write of the row.\<close>

lemma create_stands:
  assumes cw: "CreateWork db now w = (Inr u, db')" and w: "will_stand (wdb_works db) ids req w"
    and typed: "depths_typed (wdb_works db)"
  shows "stands (wdb_works db') (delegate_tenant req) (delegate_workID ids req) (dr_ParentWorkID req)"
proof (cases rule: CreateWork_cases [of db now w])
  case (rejected e)
  with cw show ?thesis by simp
next
  case (created v)
  let ?t = "delegate_tenant req" and ?p = "dr_ParentWorkID req"
  have db': "wdb_works db' = wdb_works db @ [v]" using cw created(1) by auto
  have v: "work_key v = (?t, delegate_workID ids req)" "wm_ParentWorkID v = wm_ParentWorkID w"
    "wm_DelegationDepth v = wm_DelegationDepth w" "wm_MaxDepth v = wm_MaxDepth w"
    using w by (simp_all add: created(2) will_stand_def work_defaults_def work_key_def delegate_tenant_def)
  show ?thesis
  proof (cases "?p = []")
    case True
    then show ?thesis using w v by (simp add: stands_def db' will_stand_def)
  next
    case False
    then obtain d m where dm: "sited (wdb_works db) ?t ?p d m" "wm_DelegationDepth w = i32 (d + 1)"
        "wm_MaxDepth w = positive_or m DefaultMaxDepth" "wm_DelegationDepth w \<le> wm_MaxDepth w" "wm_ParentWorkID w = Some ?p"
      using w by (auto simp: will_stand_def)
    then obtain p where p: "p \<in> set (wdb_works db)" "work_key p = (?t, ?p)" "wm_DelegationDepth p = d" "wm_MaxDepth p = m"
      by (auto simp: sited_def)
    have "0 \<le> i32 (d + 1)" using created(3) v dm(2) by (simp add: work_check_def work_nonnegative_def)
    moreover have "is_i32 d" using typed p by (auto simp: depths_typed_def)
    ultimately have "i32 (d + 1) = d + 1" by (rule i32_succ [rotated])
    then show ?thesis using v dm p False by (auto simp: stands_def db')
  qed
qed

lemma delegate_begin_sound:
  "o_store orc \<noteq> None \<Longrightarrow> pc_sound ws ids req (delegate_begin orc now ids req)"
  using message_sound [of req 0 None ws orc ids now] by (auto simp: delegate_begin_def Let_def)

lemma walk_move_sound: "dr_ParentWorkID req \<noteq> [] \<Longrightarrow> pc_sound ws ids req (walk_move db t i n c v)"
  by (auto simp: walk_move_def split: nat.split sum.split option.split)

lemma load_move_sound:
  assumes "dr_ParentWorkID req \<noteq> []"
  shows "pc_sound (wdb_works db) ids req (load_move db req)"
proof (cases "GetWork db (delegate_tenant req) (dr_ParentWorkID req)")
  case (Inr parent)
  from GetWork_row [OF Inr] have "sited (wdb_works db) (delegate_tenant req) (dr_ParentWorkID req)
      (wm_DelegationDepth parent) (wm_MaxDepth parent)"
    by (auto simp: sited_def work_key_def delegate_tenant_def)
  with assms Inr show ?thesis by (auto simp: load_move_def ValidateDelegationLimits_def Let_def)
qed (simp add: load_move_def)

lemma count_move_sound:
  "pc_sound ws ids req (DCount parent) \<Longrightarrow> o_store orc \<noteq> None \<Longrightarrow> pc_sound ws ids req (count_move orc db now ids req parent)"
  using message_sound [of req "i32 (wm_DelegationDepth parent + 1)" "Some (AllocateChildBudget (Some parent) (dr_Budget req))" ws orc ids now]
  by (auto simp: count_move_def split: sum.split)

text \<open>One move: the rows are carried, and the program counter is sound again.\<close>

lemma delegate_move_sound:
  assumes st: "o_store orc = Some db" and inv: "work_table_inv db" "depths_typed (wdb_works db)"
    and pc: "pc_sound (wdb_works db) ids req pc"
    and mv: "delegate_move render now ids req (pc, orc) = (pc', orc')"
  shows "\<exists>db'. o_store orc' = Some db' \<and> work_table_inv db' \<and> depths_typed (wdb_works db') \<and>
    carried (wdb_works db) (wdb_works db') \<and> pc_sound (wdb_works db') ids req pc'"
proof -
  have traced: "\<exists>db'. o_store orc1 = Some db' \<and> wdb_works db' = wdb_works db" if "works_of orc1 = works_of orc" for orc1
    using that st by (auto simp: works_of_def)
  have same: ?thesis if "works_of orc' = works_of orc" "pc_sound (wdb_works db) ids req pc'"
    using traced [OF that(1)] that(2) inv by (auto simp: work_table_inv_def)
  show ?thesis
  proof (cases pc)
    case DStart
    then show ?thesis using mv st by (intro same) (auto simp: delegate_begin_sound)
  next
    case (DWalk n c v)
    then show ?thesis using mv st pc by (intro same) (auto simp: walk_move_sound)
  next
    case DLoad
    then show ?thesis using mv st pc by (intro same) (auto simp: load_move_sound)
  next
    case (DCount parent)
    then have "pc' = count_move orc db now ids req parent" "orc' = orc" using mv st by auto
    with count_move_sound [of "wdb_works db" ids req parent orc db now] pc DCount st show ?thesis by (intro same) auto
  next
    case (DDeny l e)
    then show ?thesis using mv by (intro same) auto
  next
    case (DContext depth w)
    obtain r1 db1 where c: "EnsureWorkContext db now (delegate_tenant req) (wm_ContextID w) (wm_WorkID w) = (r1, db1)" by fastforce
    then have "wdb_works db1 = wdb_works db"
      using EnsureWorkContext_works [of db now "delegate_tenant req" "wm_ContextID w" "wm_WorkID w"] by simp
    then show ?thesis using mv st pc DContext c by (intro same) (auto simp: works_of_def split: sum.splits)
  next
    case (DCreate depth w)
    obtain r db1 where cw: "CreateWork db now w = (r, db1)" by fastforce
    have w: "will_stand (wdb_works db) ids req w" using pc DCreate by simp
    have o': "o_store orc' = Some db1" using mv st DCreate cw by (auto split: sum.splits if_splits)
    moreover have "work_table_inv db1" using CreateWork_inv [OF inv(1), of now w] cw by simp
    moreover have "depths_typed (wdb_works db1)" using depths_typed_create [OF inv(2), of w now] w cw by (simp add: will_stand_def)
    moreover have "carried (wdb_works db) (wdb_works db1)" using carried_create [of db now w] cw by simp
    moreover have "pc_sound (wdb_works db1) ids req pc'"
    proof (cases r)
      case (Inl e)
      then show ?thesis using mv st DCreate cw by auto
    next
      case (Inr u)
      have "wm_WorkID w = delegate_workID ids req" using w by (simp add: will_stand_def work_key_def)
      with create_stands [OF cw [unfolded Inr] w inv(2)] show ?thesis using mv st DCreate cw Inr by (auto split: if_splits)
    qed
    ultimately show ?thesis by blast
  next
    case (DCharge depth w)
    let ?db = "snd (UpdateWorkUsage db now (delegate_tenant req) (dr_ParentWorkID req) 1 0 0 (dr_RequestedTokens req) (dr_RequestedWorkUnits req))"
    have "o_store orc' = Some ?db" "pc' = DTrace depth w" using mv st DCharge by auto
    then show ?thesis
      using pc DCharge UpdateWorkUsage_inv [OF inv(1)] depths_typed_usage [OF inv(2)] carried_usage stands_carried [OF carried_usage]
      by auto
  next
    case (DTrace depth w)
    then show ?thesis using mv pc by (intro same) auto
  next
    case (DDone r)
    then show ?thesis using mv pc by (intro same) auto
  qed
qed

definition delegations_sound :: "delegation_run \<Rightarrow> bool" where
  "delegations_sound run \<longleftrightarrow>
     (\<exists>db. o_store (dl_orc run) = Some db \<and> work_table_inv db \<and> depths_typed (wdb_works db) \<and>
        (\<forall>(ids, req, pc)\<in>set (dl_tasks run). pc_sound (wdb_works db) ids req pc))"

lemma tasks_carried:
  "carried ws ws' \<Longrightarrow> \<forall>(ids, req, pc)\<in>set ts. pc_sound ws ids req pc \<Longrightarrow> \<forall>(ids, req, pc)\<in>set ts. pc_sound ws' ids req pc"
  using pc_sound_carried by fastforce

lemma delegations_sound_step:
  assumes "delegations_sound run" and "typed_turn turn"
  shows "delegations_sound (delegation_step render run turn)"
proof -
  from assms(1) obtain db where db: "o_store (dl_orc run) = Some db" "work_table_inv db" "depths_typed (wdb_works db)"
      "\<forall>(ids, req, pc)\<in>set (dl_tasks run). pc_sound (wdb_works db) ids req pc"
    by (auto simp: delegations_sound_def)
  show ?thesis
  proof (cases turn)
    case (TOther op)
    have "depths_typed (wdb_works (store_step db op))" using depths_typed_step db(3) assms(2) TOther by blast
    then show ?thesis
      using TOther db store_step_inv [OF db(2)] tasks_carried [OF carried_store_step db(4)] by (auto simp: delegations_sound_def)
  next
    case (TDelegate k now)
    show ?thesis
    proof (cases "k < length (dl_tasks run)")
      case True
      obtain ids req pc where k: "dl_tasks run ! k = (ids, req, pc)" using prod_cases3 by blast
      then have pc: "pc_sound (wdb_works db) ids req pc" using db(4) nth_mem [OF True] by fastforce
      obtain pc' orc' where mv: "delegate_move render now ids req (pc, dl_orc run) = (pc', orc')" by fastforce
      from delegate_move_sound [OF db(1,2,3) pc mv] obtain db' where db': "o_store orc' = Some db'" "work_table_inv db'"
          "depths_typed (wdb_works db')" "carried (wdb_works db) (wdb_works db')" "pc_sound (wdb_works db') ids req pc'"
        by blast
      have "\<forall>(ids, req, pc)\<in>set ((dl_tasks run)[k := (ids, req, pc')]). pc_sound (wdb_works db') ids req pc"
        using tasks_carried [OF db'(4) db(4)] db'(5) set_update_subset_insert [of "dl_tasks run" k "(ids, req, pc')"] by blast
      then show ?thesis using TDelegate True k mv db' by (auto simp: delegations_sound_def)
    qed (use TDelegate assms(1) in simp)
  qed
qed

definition delegation_ready :: "delegation_run \<Rightarrow> bool" where
  "delegation_ready run \<longleftrightarrow>
     (\<exists>orc db calls. run = delegation_start orc calls \<and> o_store orc = Some db \<and> work_table_inv db \<and> depths_typed (wdb_works db))"

interpretation delegation_runs: component "delegation_step render" delegations_sound typed_turn delegation_ready for render
proof unfold_locales
  show "delegations_sound s" if "delegation_ready s" for s
    using that by (auto simp: delegation_ready_def delegations_sound_def delegation_start_def)
qed (rule delegations_sound_step)

section \<open>Properties\<close>

text \<open>C2: However delegations overlap with each other and with the writes of other clients, on any
  well-formed work table: the parent relation stays without cycles, and the row of a delegation
  that was accepted is there, at the top when it has no parent and otherwise exactly one level
  below the row of its parent, with the depth limit of the parent and not deeper than it.\<close>

theorem delegated_rows_placed:
  assumes "o_store orc = Some db0" and "work_table_inv db0" and "\<forall>r\<in>set (wdb_works db0). is_i32 (wm_DelegationDepth r)"
    and "\<forall>turn\<in>set turns. typed_turn turn"
    and "run = foldl (delegation_step render) (delegation_start orc calls) turns"
    and "(ids, req, DDone (Inr w)) \<in> set (dl_tasks run)"
  shows "\<exists>db. o_store (dl_orc run) = Some db \<and> (\<forall>t. acyclic (parent_rel db t)) \<and>
    (\<exists>r\<in>set (wdb_works db). work_key r = (tenant_or_default (dr_TenantID req), wm_WorkID w) \<and>
       (dr_ParentWorkID req = [] \<longrightarrow> wm_ParentWorkID r = None \<and> wm_DelegationDepth r = 0) \<and>
       (dr_ParentWorkID req \<noteq> [] \<longrightarrow> wm_ParentWorkID r = Some (dr_ParentWorkID req) \<and>
         (\<exists>p\<in>set (wdb_works db). work_key p = (tenant_or_default (dr_TenantID req), dr_ParentWorkID req) \<and>
            wm_DelegationDepth r = wm_DelegationDepth p + 1 \<and>
            wm_MaxDepth r = (if wm_MaxDepth p \<le> 0 then DefaultMaxDepth else wm_MaxDepth p) \<and>
            wm_DelegationDepth r \<le> wm_MaxDepth r)))"
proof -
  have "delegation_ready (delegation_start orc calls)" using assms(1-3) by (auto simp: delegation_ready_def depths_typed_def)
  from delegation_runs.invar_history [OF this assms(4)] have "delegations_sound run" by (simp add: assms(5))
  then obtain db where db: "o_store (dl_orc run) = Some db" "work_table_inv db"
      "\<forall>(ids, req, pc)\<in>set (dl_tasks run). pc_sound (wdb_works db) ids req pc"
    by (auto simp: delegations_sound_def)
  from db(3) assms(6) have "pc_sound (wdb_works db) ids req (DDone (Inr w))" by blast
  then have "stands (wdb_works db) (tenant_or_default (dr_TenantID req)) (wm_WorkID w) (dr_ParentWorkID req)"
    by (simp add: delegate_tenant_def)
  then show ?thesis using db(1) work_table_acyclic [OF db(2)]
    by (cases "dr_ParentWorkID req = []") (auto simp: stands_def positive_or_def)
qed

lemma lone_delegation_run:
  "foldl (delegation_step render) (delegation_start orc [(ids, req)]) (replicate n (TDelegate 0 now)) =
     (case delegate_moves render now ids req n (DStart, orc) of (pc, orc') \<Rightarrow> \<lparr>dl_orc = orc', dl_tasks = [(ids, req, pc)]\<rparr>)"
proof -
  have "foldl (delegation_step render) \<lparr>dl_orc = o1, dl_tasks = [(ids, req, pc1)]\<rparr> (replicate n (TDelegate 0 now)) =
     (case delegate_moves render now ids req n (pc1, o1) of (pc, orc') \<Rightarrow> \<lparr>dl_orc = orc', dl_tasks = [(ids, req, pc)]\<rparr>)" for o1 pc1
  proof (induction n arbitrary: o1 pc1)
    case (Suc n)
    obtain pc2 o2 where m: "delegate_move render now ids req (pc1, o1) = (pc2, o2)" by fastforce
    show ?case using Suc.IH [of o2 pc2] m by (simp add: delegate_moves_def funpow_Suc_right del: funpow.simps)
  qed (simp add: delegate_moves_def)
  then show ?thesis by (simp add: delegation_start_def)
qed

theorem delegated_rows_placed_witness:
  "\<exists>n db r. o_store (dl_orc (foldl (delegation_step (\<lambda>_. ''denied''))
       (delegation_start (NewOrchestrator (Some sample_tree_db) False False) [(sample_ids ''e'', sample_request ''w1'' ''w3'' 5)])
       (replicate n (TDelegate 0 9)))) = Some db \<and>
     r \<in> set (wdb_works db) \<and> wm_ParentWorkID r = Some ''w1''"
proof -
  let ?orc = "NewOrchestrator (Some sample_tree_db) False False" and ?req = "sample_request ''w1'' ''w3'' 5" and ?ids = "sample_ids ''e''"
  let ?run = "\<lambda>n. foldl (delegation_step (\<lambda>_. ''denied'')) (delegation_start ?orc [(?ids, ?req)]) (replicate n (TDelegate 0 9))"
  obtain w where w: "fst (DelegateTask (\<lambda>_. ''denied'') ?orc 9 ?ids ?req) = Inr w" using sample_accept by blast
  from delegate_moves_call [of "\<lambda>_. ''denied''" 9 ?ids ?req ?orc] obtain n where
    n: "delegate_moves (\<lambda>_. ''denied'') 9 ?ids ?req n (DStart, ?orc) = (DDone (Inr w), snd (DelegateTask (\<lambda>_. ''denied'') ?orc 9 ?ids ?req))"
    by (auto simp: reaches_def w)
  have o: "o_store ?orc = Some sample_tree_db" by (simp add: NewOrchestrator_def)
  have d: "\<forall>r\<in>set (wdb_works sample_tree_db). is_i32 (wm_DelegationDepth r)"
    by (simp add: sample_tree_db_def sample_row_def sample_kid_def is_i32_def)
  have t: "\<forall>turn\<in>set (replicate n (TDelegate 0 9)). typed_turn turn" by simp
  have m: "(?ids, ?req, DDone (Inr w)) \<in> set (dl_tasks (?run n))" by (simp add: lone_delegation_run n)
  have p: "dr_ParentWorkID ?req = ''w1''" by (simp add: sample_request_def)
  show ?thesis using delegated_rows_placed [OF o sample_tree_inv d t refl m] unfolding p by blast
qed

text \<open>Two delegations that overlap: each asks for 60 of the 100 tokens of the parent and finds them
  available, and both are charged.\<close>

definition overlap_db :: work_db where
  "overlap_db = sample_tree_db\<lparr>wdb_works := [sample_row\<lparr>wm_UsedTokens := 0\<rparr>]\<rparr>"

definition overlap_turns :: "delegation_turn list" where
  "overlap_turns = replicate 4 (TDelegate 0 9) @ replicate 4 (TDelegate 1 9) @ replicate 4 (TDelegate 0 9) @ replicate 4 (TDelegate 1 9)"

theorem overlapping_delegations_overspend:
  "let run = foldl (delegation_step (\<lambda>_. ''denied'')) (delegation_start (NewOrchestrator (Some overlap_db) False False)
         [(sample_ids ''e1'', sample_request ''w1'' ''w3'' 60), (sample_ids ''e2'', sample_request ''w1'' ''w4'' 60)]) overlap_turns
   in case o_store (dl_orc run) of
        None \<Rightarrow> False
      | Some db \<Rightarrow> map wm_WorkID (wdb_works db) = [''w1'', ''w3'', ''w4''] \<and> wm_UsedTokens (hd (wdb_works db)) = 120"
  by code_simp

end
