(* ===== verification/Fan_Out.thy ===== *)
theory Fan_Out
  imports Delegation
begin

text \<open>
  Parallel delegation, \<open>backend/a2a/orchestration/fanout.go\<close>. \<open>ExecuteFanOut\<close> starts one
  worker per task; a worker waits for one of the slots of a semaphore, delegates the task, runs its
  executor and writes the outcome into its own cell of the result array; the call joins the workers
  and applies the join policy. A worker is a machine with a program counter; its moves are the wait,
  the moves of the delegation, and the executor's return with the writes that follow. A schedule is the sequence
  of moves, each with the clock and, where the context is done at that moment (the request's
  timeout, or the caller), its error text. A
  schedule under which some worker has not finished is one under which the call has not returned
  (\<open>None\<close>). The executors are arguments of the model, as they are of the code; \<open>render\<close> and
  \<open>renderJoin\<close> give the texts of the errors.

  Shown here: under every schedule the results stand in the order of the tasks, each worker is in
  a final state and counted once, success is what the policy says, and never more workers than the
  semaphore has slots are past the wait; and a schedule that goes around the workers often enough
  makes the call return.
\<close>

section \<open>Requests and results\<close>

record task_output =
  to_Output :: string
  to_Artifacts :: "work_artifact list"
  to_TokensUsed :: int
  to_WorkUnitsUsed :: int
  to_TerminalReason :: string

record fan_out_task_spec =
  fs_TaskID :: string
  fs_ExecutorAgentID :: string
  fs_Input :: string
  fs_Budget :: "work_budget option"
  fs_RequestedTokens :: int
  fs_RequestedWorkUnits :: int
  fs_Executor :: "(work_message \<Rightarrow> task_output option \<times> string option) option"

record task_result =
  tr_Index :: nat
  tr_TaskID :: string
  tr_ExecutorAgentID :: string
  tr_State :: string
  tr_Output :: string
  tr_Artifacts :: "work_artifact list"
  tr_Error :: string
  tr_TokensUsed :: int
  tr_WorkUnitsUsed :: int
  tr_Duration :: duration

record fan_out_request =
  fo_TenantID :: string
  fo_ParentWorkID :: string
  fo_RequesterAgentID :: string
  fo_Tasks :: "fan_out_task_spec list"
  fo_Policy :: string
  fo_MinSuccessCount :: int
  fo_Timeout :: duration
  fo_MaxConcurrency :: int

datatype join_error =
    AllSuccessFailed nat nat
  | PartialFailureFailed nat int
  | QuorumFailed nat int
  | FirstSuccessFailed
  | UnsupportedPolicy string

record join_result =
  jr_ParentWorkID :: string
  jr_Policy :: string
  jr_Success :: bool
  jr_TotalTasks :: nat
  jr_CompletedCount :: nat
  jr_FailedCount :: nat
  jr_CanceledCount :: nat
  jr_TaskResults :: "task_result list"
  jr_TotalTokensUsed :: int
  jr_TotalWorkUnitsUsed :: int
  jr_Duration :: duration
  jr_Error :: "join_error option"

section \<open>Workers\<close>

datatype fan_pc = FWait | FDelegate instant delegate_pc | FExec instant work_message | FFinished

record fan_turn =
  ft_worker :: nat
  ft_now :: instant
  ft_done :: "string option"

record fan_env =
  fe_req :: fan_out_request
  fe_tenant :: string
  fe_slots :: nat
  fe_taskID :: "nat \<Rightarrow> string"
  fe_eventID :: "nat \<Rightarrow> string"
  fe_cancel :: "nat \<Rightarrow> nat"

record fan_run =
  fr_orc :: orchestrator
  fr_pcs :: "fan_pc list"
  fr_results :: "task_result list"

fun holds_slot :: "fan_pc \<Rightarrow> bool" where
  "holds_slot (FDelegate t pc) = True"
| "holds_slot (FExec t w) = True"
| "holds_slot pc = False"

definition slots_used :: "fan_pc list \<Rightarrow> nat" where
  "slots_used pcs = length (filter holds_slot pcs)"

definition worker_request :: "fan_env \<Rightarrow> nat \<Rightarrow> delegate_request" where
  "worker_request env k =
     (let spec = fo_Tasks (fe_req env) ! k in
      \<lparr>dr_TenantID = fe_tenant env, dr_ParentWorkID = fo_ParentWorkID (fe_req env),
       dr_ChildWorkID = fe_taskID env k, dr_ContextID = fe_taskID env k,
       dr_RequesterAgentID = fo_RequesterAgentID (fe_req env),
       dr_ExecutorAgentID = fs_ExecutorAgentID spec, dr_IdempotencyKey = [], dr_EdgeType = ''fan_out'',
       dr_Budget = fs_Budget spec, dr_RequestedTokens = fs_RequestedTokens spec,
       dr_RequestedWorkUnits = fs_RequestedWorkUnits spec, dr_InitialState = ''WORKING'',
       dr_TraceID = [], dr_RootTraceID = [], dr_SpanID = [], dr_ParentSpanID = []\<rparr>)"

definition run_executor :: "fan_out_task_spec \<Rightarrow> work_message \<Rightarrow> task_output option \<times> string option" where
  "run_executor spec work =
     (case fs_Executor spec of
        Some f \<Rightarrow> f work
      | None \<Rightarrow>
          (Some \<lparr>to_Output = ''Result from '' @ fs_ExecutorAgentID spec, to_Artifacts = [],
                 to_TokensUsed = 0, to_WorkUnitsUsed = 0, to_TerminalReason = []\<rparr>, None))"

definition with_store :: "(work_db \<Rightarrow> work_db) \<Rightarrow> orchestrator \<Rightarrow> orchestrator" where
  "with_store f orc = orc\<lparr>o_store := map_option f (o_store orc)\<rparr>"

definition completion_writes ::
  "instant \<Rightarrow> string \<Rightarrow> string \<Rightarrow> nat \<Rightarrow> duration \<Rightarrow> task_output \<Rightarrow> work_db \<Rightarrow> work_db" where
  "completion_writes now tenant tID version childDuration out db =
     (let db1 = snd (UpdateWorkState db now tenant tID version ''COMPLETED'' (to_TerminalReason out));
          db2 = foldl (\<lambda>d art. snd (CreateWorkArtifact d now art)) db1 (to_Artifacts out) in
      snd (UpdateWorkUsage db2 now tenant tID 0 0 (childDuration div millisecond)
             (to_TokensUsed out) (to_WorkUnitsUsed out)))"

text \<open>The executor's return: the outcome in the result cell and in the store.\<close>

definition finish_task ::
  "fan_env \<Rightarrow> nat \<Rightarrow> fan_turn \<Rightarrow> instant \<Rightarrow> work_message \<Rightarrow> orchestrator \<Rightarrow> task_result
     \<Rightarrow> orchestrator \<times> task_result" where
  "finish_task env k turn childStart work orc res0 =
     (let spec = fo_Tasks (fe_req env) ! k;
          tID = fe_taskID env k;
          now = ft_now turn;
          childDuration = now - childStart;
          (output, execErr) = run_executor spec work;
          res = res0\<lparr>tr_Duration := childDuration\<rparr>;
          update = (\<lambda>state reason. with_store (\<lambda>db. snd (UpdateWorkState db now (fe_tenant env) tID
                      (wm_Version work) state reason)) orc) in
      case ft_done turn of
        Some _ \<Rightarrow>
          (update ''CANCELED'' ''fan-out timeout or cancel'',
           res\<lparr>tr_State := ''CANCELED'', tr_Error := ''timed out or canceled''\<rparr>)
      | None \<Rightarrow>
      (case execErr of
        Some e \<Rightarrow> (update ''FAILED'' e, res\<lparr>tr_State := ''FAILED'', tr_Error := e\<rparr>)
      | None \<Rightarrow>
      (case output of
        None \<Rightarrow> (orc, res\<lparr>tr_State := ''COMPLETED''\<rparr>)
      | Some out \<Rightarrow>
          (with_store (completion_writes now (fe_tenant env) tID (wm_Version work) childDuration out) orc,
           res\<lparr>tr_State := ''COMPLETED'', tr_Output := to_Output out, tr_Artifacts := to_Artifacts out,
               tr_TokensUsed := to_TokensUsed out, tr_WorkUnitsUsed := to_WorkUnitsUsed out\<rparr>))))"

fun worker_move ::
  "(orch_error \<Rightarrow> string) \<Rightarrow> fan_env \<Rightarrow> nat \<Rightarrow> fan_turn \<Rightarrow> nat \<Rightarrow> orchestrator \<Rightarrow> fan_pc \<Rightarrow> task_result
     \<Rightarrow> orchestrator \<times> fan_pc \<times> task_result" where
  "worker_move render env k turn used orc FWait res =
     (case ft_done turn of
        Some e \<Rightarrow>
          (orc, FFinished, res\<lparr>tr_State := ''CANCELED'', tr_Error := ''canceled before scheduling: '' @ e\<rparr>)
      | None \<Rightarrow> (orc, if used < fe_slots env then FDelegate (ft_now turn) DStart else FWait, res))"
| "worker_move render env k turn used orc (FDelegate childStart pc) res =
     (case delegate_move render (ft_now turn) \<lparr>fi_work = [], fi_context = [], fi_event = fe_eventID env k\<rparr>
             (worker_request env k) (pc, orc) of
        (DDone (Inl e), orc') \<Rightarrow>
          (orc', FFinished, res\<lparr>tr_State := ''FAILED'', tr_Error := render e, tr_Duration := ft_now turn - childStart\<rparr>)
      | (DDone (Inr work), orc') \<Rightarrow>
          (RegisterActiveTask orc' (fe_taskID env k) (fe_cancel env k), FExec childStart work, res)
      | (pc', orc') \<Rightarrow> (orc', FDelegate childStart pc', res))"
| "worker_move render env k turn used orc (FExec childStart work) res =
     (case finish_task env k turn childStart work orc res of
        (orc', res') \<Rightarrow> (UnregisterActiveTask orc' (fe_taskID env k), FFinished, res'))"
| "worker_move render env k turn used orc FFinished res = (orc, FFinished, res)"

definition fan_step :: "(orch_error \<Rightarrow> string) \<Rightarrow> fan_env \<Rightarrow> fan_run \<Rightarrow> fan_turn \<Rightarrow> fan_run" where
  "fan_step render env run turn =
     (let k = ft_worker turn in
      if k < length (fr_pcs run) then
        (let (orc', pc', res') = worker_move render env k turn (slots_used (fr_pcs run)) (fr_orc run)
                                   (fr_pcs run ! k) (fr_results run ! k) in
         run\<lparr>fr_orc := orc', fr_pcs := (fr_pcs run)[k := pc'], fr_results := (fr_results run)[k := res']\<rparr>)
      else run)"

section \<open>The join\<close>

definition JoinPolicyAllSuccess :: string where "JoinPolicyAllSuccess = ''ALL_SUCCESS''"
definition JoinPolicyPartialFailure :: string where "JoinPolicyPartialFailure = ''PARTIAL_FAILURE''"
definition JoinPolicyQuorum :: string where "JoinPolicyQuorum = ''QUORUM''"
definition JoinPolicyFirstSuccess :: string where "JoinPolicyFirstSuccess = ''FIRST_SUCCESS''"

lemmas join_policies = JoinPolicyAllSuccess_def JoinPolicyPartialFailure_def JoinPolicyQuorum_def
  JoinPolicyFirstSuccess_def

definition count_result :: "join_result \<Rightarrow> task_result \<Rightarrow> join_result" where
  "count_result j r =
     (let j1 = j\<lparr>jr_TotalTokensUsed := i64 (jr_TotalTokensUsed j + tr_TokensUsed r),
                 jr_TotalWorkUnitsUsed := i64 (jr_TotalWorkUnitsUsed j + tr_WorkUnitsUsed r)\<rparr> in
      if tr_State r = ''COMPLETED'' then j1\<lparr>jr_CompletedCount := jr_CompletedCount j + 1\<rparr>
      else if tr_State r = ''FAILED'' then j1\<lparr>jr_FailedCount := jr_FailedCount j + 1\<rparr>
      else if tr_State r = ''CANCELED'' then j1\<lparr>jr_CanceledCount := jr_CanceledCount j + 1\<rparr>
      else j1\<lparr>jr_FailedCount := jr_FailedCount j + 1\<rparr>)"

definition evaluate_policy :: "string \<Rightarrow> int \<Rightarrow> nat \<Rightarrow> nat \<Rightarrow> join_error option" where
  "evaluate_policy policy minSuccess totalTasks completed =
     (if policy = JoinPolicyAllSuccess then
        (if completed = totalTasks then None else Some (AllSuccessFailed completed totalTasks))
      else if policy = JoinPolicyPartialFailure then
        (let m = (if minSuccess \<le> 0 then 1 else minSuccess) in
         if int completed \<ge> m then None else Some (PartialFailureFailed completed m))
      else if policy = JoinPolicyQuorum then
        (let m = (if minSuccess \<le> 0 then int (totalTasks div 2) + 1 else minSuccess) in
         if int completed \<ge> m then None else Some (QuorumFailed completed m))
      else if policy = JoinPolicyFirstSuccess then
        (if completed \<ge> 1 then None else Some FirstSuccessFailed)
      else Some (UnsupportedPolicy policy))"

definition join_results ::
  "fan_out_request \<Rightarrow> string \<Rightarrow> duration \<Rightarrow> task_result list \<Rightarrow> join_result" where
  "join_results req policy totalDuration results =
     (let n = length (fo_Tasks req);
          j = foldl count_result
            \<lparr>jr_ParentWorkID = fo_ParentWorkID req, jr_Policy = policy, jr_Success = False,
             jr_TotalTasks = n, jr_CompletedCount = 0, jr_FailedCount = 0, jr_CanceledCount = 0,
             jr_TaskResults = results, jr_TotalTokensUsed = 0, jr_TotalWorkUnitsUsed = 0,
             jr_Duration = totalDuration, jr_Error = None\<rparr> results;
          e = evaluate_policy policy (fo_MinSuccessCount req) n (jr_CompletedCount j) in
      j\<lparr>jr_Success := (e = None), jr_Error := e\<rparr>)"

definition join_event :: "(join_error \<Rightarrow> string) \<Rightarrow> string \<Rightarrow> join_result \<Rightarrow> trace_event" where
  "join_event renderJoin tenant j =
     zero_trace_event\<lparr>te_TenantID := tenant, te_WorkID := jr_ParentWorkID j,
       te_EventType := TraceEventTerminalOutcome,
       te_PolicyDecision := (if jr_Success j then ''ALLOWED'' else ''PARTIAL_OR_FAILED''),
       te_TerminalReason := (case jr_Error j of None \<Rightarrow> [] | Some e \<Rightarrow> renderJoin e),
       te_Metadata := [(''join_policy'', jr_Policy j),
                       (''total_tasks'', show_nat (jr_TotalTasks j)),
                       (''completed_count'', show_nat (jr_CompletedCount j)),
                       (''failed_count'', show_nat (jr_FailedCount j)),
                       (''canceled_count'', show_nat (jr_CanceledCount j)),
                       (''success'', if jr_Success j then ''true'' else ''false'')]\<rparr>"

section \<open>The call\<close>

text \<open>The checks against the parent; with a store and a parent id, the parent is loaded.\<close>

definition fan_out_parent ::
  "(orch_error \<Rightarrow> string) \<Rightarrow> orchestrator \<Rightarrow> instant \<Rightarrow> string \<Rightarrow> string \<Rightarrow> fan_out_request
     \<Rightarrow> (orch_error + work_message option) \<times> orchestrator" where
  "fan_out_parent render orc now newID tenant req =
     (case o_store orc of
        None \<Rightarrow> (Inr None, orc)
      | Some db \<Rightarrow>
          if fo_ParentWorkID req = [] then (Inr None, orc)
          else (case GetWork db tenant (fo_ParentWorkID req) of
            Inl e \<Rightarrow> (Inl (ErrStore e), orc)
          | Inr parent \<Rightarrow>
              if isTerminalState (wm_State parent) then (Inl ErrParentTerminal, orc)
              else case ValidateFanOutLimit (Some parent) (int (length (fo_Tasks req))) of
                Inl e \<Rightarrow>
                  (Inl (ErrLimit e), recordPolicyLimitEvent orc now newID tenant (fo_ParentWorkID req)
                     ''FAN_OUT_LIMIT'' (render (ErrLimit e)))
              | Inr _ \<Rightarrow> (Inr (Some parent), orc)))"

definition fan_out_slots :: "fan_out_request \<Rightarrow> work_message option \<Rightarrow> nat" where
  "fan_out_slots req parent =
     (let c = (if fo_MaxConcurrency req \<le> 0 then
                 (case parent of
                    Some p \<Rightarrow> if wm_MaxConcurrency p > 0 then wm_MaxConcurrency p else DefaultMaxConcurrency
                  | None \<Rightarrow> DefaultMaxConcurrency)
               else fo_MaxConcurrency req);
          n = int (length (fo_Tasks req)) in
      nat (if c > n then n else c))"

definition fan_start :: "fan_env \<Rightarrow> orchestrator \<Rightarrow> fan_run" where
  "fan_start env orc =
     \<lparr>fr_orc = orc, fr_pcs = replicate (length (fo_Tasks (fe_req env))) FWait,
      fr_results = map (\<lambda>k. \<lparr>tr_Index = k, tr_TaskID = fe_taskID env k,
            tr_ExecutorAgentID = fs_ExecutorAgentID (fo_Tasks (fe_req env) ! k), tr_State = ''SUBMITTED'',
            tr_Output = [], tr_Artifacts = [], tr_Error = [], tr_TokensUsed = 0, tr_WorkUnitsUsed = 0,
            tr_Duration = 0\<rparr>) [0..<length (fo_Tasks (fe_req env))]\<rparr>"

definition all_finished :: "fan_run \<Rightarrow> bool" where
  "all_finished run \<longleftrightarrow> (\<forall>pc\<in>set (fr_pcs run). pc = FFinished)"

definition fan_out_env ::
  "fan_out_request \<Rightarrow> work_message option \<Rightarrow> (nat \<Rightarrow> string) \<Rightarrow> (nat \<Rightarrow> string) \<Rightarrow> (nat \<Rightarrow> nat) \<Rightarrow> fan_env" where
  "fan_out_env req parent newTaskID newEventID cancel =
     \<lparr>fe_req = req, fe_tenant = tenant_or_default (fo_TenantID req), fe_slots = fan_out_slots req parent,
      fe_taskID = (\<lambda>k. if fs_TaskID (fo_Tasks req ! k) = [] then newTaskID k else fs_TaskID (fo_Tasks req ! k)),
      fe_eventID = newEventID, fe_cancel = cancel\<rparr>"

definition ExecuteFanOut ::
  "(orch_error \<Rightarrow> string) \<Rightarrow> (join_error \<Rightarrow> string) \<Rightarrow> orchestrator \<Rightarrow> instant \<Rightarrow> instant
     \<Rightarrow> (nat \<Rightarrow> string) \<Rightarrow> (nat \<Rightarrow> string) \<Rightarrow> (nat \<Rightarrow> nat) \<Rightarrow> string \<Rightarrow> fan_turn list \<Rightarrow> fan_out_request
     \<Rightarrow> ((orch_error + join_result) \<times> orchestrator) option" where
  "ExecuteFanOut render renderJoin orc startTime endTime newTaskID newEventID cancel joinEventID schedule req =
     (let tenant = tenant_or_default (fo_TenantID req);
          policy = (if fo_Policy req = [] then JoinPolicyAllSuccess else fo_Policy req);
          n = length (fo_Tasks req) in
      if fo_Tasks req = [] then Some (Inl ErrEmptyFanOut, orc)
      else case fan_out_parent render orc startTime joinEventID tenant req of
        (Inl e, orc') \<Rightarrow> Some (Inl e, orc')
      | (Inr parent, orc') \<Rightarrow>
          let env = fan_out_env req parent newTaskID newEventID cancel;
              run = foldl (fan_step render env) (fan_start env orc') schedule in
          if \<not> all_finished run then None
          else
            let d = endTime - startTime;
                j = join_results req policy d (fr_results run);
                charged = (if fo_ParentWorkID req = [] then fr_orc run
                           else with_store (\<lambda>db. snd (UpdateWorkUsage db endTime tenant (fo_ParentWorkID req)
                                  0 (i32 (int n)) (d div millisecond)
                                  (jr_TotalTokensUsed j) (jr_TotalWorkUnitsUsed j))) (fr_orc run));
                traced = (if fo_ParentWorkID req = [] then charged
                          else record_trace charged endTime joinEventID (join_event renderJoin tenant j)) in
            Some (Inr j, traced))"

text \<open>The thresholds of the policies.\<close>

lemma evaluate_policy_None:
  "evaluate_policy p m n c = None \<longleftrightarrow>
     p = ''ALL_SUCCESS'' \<and> c = n \<or> p = ''FIRST_SUCCESS'' \<and> 1 \<le> c \<or>
     p = ''PARTIAL_FAILURE'' \<and> max 1 m \<le> int c \<or> p = ''QUORUM'' \<and> (if m \<le> 0 then n < 2 * c else m \<le> int c)"
  by (auto simp: evaluate_policy_def join_policies Let_def)

section \<open>The workers' invariant\<close>

definition final_states :: "string list" where
  "final_states = [''COMPLETED'', ''FAILED'', ''CANCELED'']"

definition cell_ok :: "fan_env \<Rightarrow> nat \<Rightarrow> fan_pc \<Rightarrow> task_result \<Rightarrow> bool" where
  "cell_ok env k pc r \<longleftrightarrow>
     tr_Index r = k \<and> tr_TaskID r = fe_taskID env k \<and>
     tr_ExecutorAgentID r = fs_ExecutorAgentID (fo_Tasks (fe_req env) ! k) \<and>
     (pc = FFinished \<longrightarrow> tr_State r \<in> set final_states)"

definition fan_inv :: "fan_env \<Rightarrow> fan_run \<Rightarrow> bool" where
  "fan_inv env run \<longleftrightarrow>
     length (fr_pcs run) = length (fo_Tasks (fe_req env)) \<and>
     length (fr_results run) = length (fo_Tasks (fe_req env)) \<and>
     (\<forall>k<length (fr_pcs run). cell_ok env k (fr_pcs run ! k) (fr_results run ! k)) \<and>
     slots_used (fr_pcs run) \<le> fe_slots env"

lemma finish_task_cell:
  "finish_task env k turn t0 work orc res = (orc', res') \<Longrightarrow>
   tr_State res' \<in> set final_states \<and> tr_Index res' = tr_Index res \<and> tr_TaskID res' = tr_TaskID res \<and>
   tr_ExecutorAgentID res' = tr_ExecutorAgentID res"
  by (auto simp: finish_task_def final_states_def Let_def split: prod.splits option.splits)

lemma worker_move_cell:
  assumes "worker_move render env k turn used orc pc res = (orc', pc', res')" and "cell_ok env k pc res"
  shows "cell_ok env k pc' res'"
proof (cases pc)
  case (FExec t0 w)
  obtain orc1 r1 where "finish_task env k turn t0 w orc res = (orc1, r1)" by fastforce
  with finish_task_cell [OF this] assms FExec show ?thesis by (auto simp: cell_ok_def)
qed (use assms in \<open>auto simp: cell_ok_def final_states_def split: option.splits prod.splits sum.splits if_splits delegate_pc.splits\<close>)

lemma worker_move_slots:
  "worker_move render env k turn used orc pc res = (orc', pc', res') \<Longrightarrow>
   holds_slot pc' \<Longrightarrow> holds_slot pc \<or> used < fe_slots env"
  by (cases pc) (auto split: option.splits prod.splits sum.splits if_splits delegate_pc.splits)

lemma slots_used_update:
  assumes "k < length pcs"
  shows "slots_used (pcs[k := pc]) + (if holds_slot (pcs ! k) then 1 else 0) =
         slots_used pcs + (if holds_slot pc then 1 else 0)"
proof -
  have "pcs = take k pcs @ pcs ! k # drop (Suc k) pcs"
    using assms by (rule id_take_nth_drop)
  then have "slots_used pcs = slots_used (take k pcs @ pcs ! k # drop (Suc k) pcs)" by simp
  moreover have "slots_used (pcs[k := pc]) = slots_used (take k pcs @ pc # drop (Suc k) pcs)"
    using assms by (simp add: upd_conv_take_nth_drop)
  ultimately show ?thesis by (simp add: slots_used_def)
qed

lemma fan_step_inv:
  assumes inv: "fan_inv env run"
  shows "fan_inv env (fan_step render env run turn)"
proof (cases "ft_worker turn < length (fr_pcs run)")
  case True
  let ?k = "ft_worker turn"
  obtain orc' pc' res' where mv: "worker_move render env ?k turn (slots_used (fr_pcs run)) (fr_orc run)
      (fr_pcs run ! ?k) (fr_results run ! ?k) = (orc', pc', res')"
    using prod_cases3 by blast
  have cell: "cell_ok env ?k pc' res'"
    using worker_move_cell [OF mv] inv True by (simp add: fan_inv_def)
  have "slots_used ((fr_pcs run)[?k := pc']) \<le> fe_slots env"
    using slots_used_update [OF True, of pc'] worker_move_slots [OF mv] inv
    by (auto simp: fan_inv_def split: if_splits)
  moreover have "cell_ok env j ((fr_pcs run)[?k := pc'] ! j) ((fr_results run)[?k := res'] ! j)"
    if "j < length (fr_pcs run)" for j
    using that cell inv by (cases "j = ?k") (simp_all add: fan_inv_def)
  ultimately show ?thesis
    using inv True mv by (simp add: fan_inv_def fan_step_def Let_def)
qed (use inv in \<open>simp add: fan_step_def\<close>)

lemma fan_start_inv: "fan_inv env (fan_start env orc)"
  by (simp add: fan_inv_def fan_start_def cell_ok_def slots_used_def)

interpretation fan_workers: component "fan_step render env" "fan_inv env" "\<lambda>_. True"
  "\<lambda>run. \<exists>orc. run = fan_start env orc" for render env
  by unfold_locales (auto intro: fan_step_inv fan_start_inv)

section \<open>Counting\<close>

definition results_in :: "string \<Rightarrow> task_result list \<Rightarrow> nat" where
  "results_in state rs = length (filter (\<lambda>r. tr_State r = state) rs)"

lemma count_results:
  assumes "\<forall>r\<in>set rs. tr_State r \<in> set final_states"
  shows "jr_CompletedCount (foldl count_result j rs) = jr_CompletedCount j + results_in ''COMPLETED'' rs"
    and "jr_FailedCount (foldl count_result j rs) = jr_FailedCount j + results_in ''FAILED'' rs"
    and "jr_CanceledCount (foldl count_result j rs) = jr_CanceledCount j + results_in ''CANCELED'' rs"
  using assms
  by (induction rs arbitrary: j) (auto simp: results_in_def count_result_def final_states_def Let_def)

lemma count_result_fields [simp]:
  "jr_TaskResults (foldl count_result j rs) = jr_TaskResults j"
  "jr_Policy (foldl count_result j rs) = jr_Policy j"
  "jr_TotalTasks (foldl count_result j rs) = jr_TotalTasks j"
  by (induction rs arbitrary: j) (simp_all add: count_result_def Let_def)

lemma results_in_total:
  "\<forall>r\<in>set rs. tr_State r \<in> set final_states \<Longrightarrow>
   results_in ''COMPLETED'' rs + results_in ''FAILED'' rs + results_in ''CANCELED'' rs = length rs"
  by (induction rs) (auto simp: results_in_def final_states_def)

lemma finished_results:
  assumes "fan_inv env run" and "all_finished run"
  shows "length (fr_results run) = length (fo_Tasks (fe_req env))"
    and "\<forall>r\<in>set (fr_results run). tr_State r \<in> set final_states"
    and "\<forall>k<length (fr_results run). tr_Index (fr_results run ! k) = k \<and>
           tr_TaskID (fr_results run ! k) = fe_taskID env k \<and>
           tr_ExecutorAgentID (fr_results run ! k) = fs_ExecutorAgentID (fo_Tasks (fe_req env) ! k)"
proof -
  have "\<forall>k<length (fr_pcs run). fr_pcs run ! k = FFinished"
    using assms(2) by (simp add: all_finished_def all_set_conv_all_nth)
  then have cells: "\<forall>k<length (fr_results run). cell_ok env k FFinished (fr_results run ! k)"
    using assms(1) by (simp add: fan_inv_def)
  show "length (fr_results run) = length (fo_Tasks (fe_req env))" using assms(1) by (simp add: fan_inv_def)
  show "\<forall>r\<in>set (fr_results run). tr_State r \<in> set final_states"
    using cells by (auto simp: in_set_conv_nth cell_ok_def)
  show "\<forall>k<length (fr_results run). tr_Index (fr_results run ! k) = k \<and>
           tr_TaskID (fr_results run ! k) = fe_taskID env k \<and>
           tr_ExecutorAgentID (fr_results run ! k) = fs_ExecutorAgentID (fo_Tasks (fe_req env) ! k)"
    using cells by (auto simp: cell_ok_def)
qed

lemma ExecuteFanOut_run:
  assumes "ExecuteFanOut render renderJoin orc st en newT newE cn je schedule req = Some (Inr j, orc')"
  obtains parent orc1 run where
    "run = foldl (fan_step render (fan_out_env req parent newT newE cn))
             (fan_start (fan_out_env req parent newT newE cn) orc1) schedule"
    "all_finished run"
    "j = join_results req (if fo_Policy req = [] then JoinPolicyAllSuccess else fo_Policy req)
           (en - st) (fr_results run)"
  using assms
  by (auto simp: ExecuteFanOut_def Let_def split: if_splits prod.splits sum.splits)

lemma fan_out_env_fields [simp]:
  "fe_req (fan_out_env req parent newT newE cn) = req"
  "fe_slots (fan_out_env req parent newT newE cn) = fan_out_slots req parent"
  "fe_taskID (fan_out_env req parent newT newE cn) k =
     (if fs_TaskID (fo_Tasks req ! k) = [] then newT k else fs_TaskID (fo_Tasks req ! k))"
  by (simp_all add: fan_out_env_def)

section \<open>Schedules that go around\<close>

fun fan_left :: "fan_pc \<Rightarrow> nat" where
  "fan_left FWait = 111"
| "fan_left (FDelegate t pc) = 2 + delegate_left pc"
| "fan_left (FExec t w) = 1"
| "fan_left FFinished = 0"

definition fan_potential :: "fan_run \<Rightarrow> nat" where
  "fan_potential run = sum_list (map fan_left (fr_pcs run))"

text \<open>A worker can move in a state unless it has finished or waits for a slot that is taken.\<close>

definition enabled :: "fan_env \<Rightarrow> fan_run \<Rightarrow> nat \<Rightarrow> bool" where
  "enabled env run k \<longleftrightarrow>
     k < length (fr_pcs run) \<and> fr_pcs run ! k \<noteq> FFinished \<and>
     (fr_pcs run ! k = FWait \<longrightarrow> slots_used (fr_pcs run) < fe_slots env)"

lemma worker_move_left:
  assumes "worker_move render env k turn used orc pc res = (orc', pc', res')"
  shows "pc' = pc \<or> fan_left pc' < fan_left pc"
    and "pc \<noteq> FFinished \<Longrightarrow> pc = FWait \<longrightarrow> used < fe_slots env \<Longrightarrow> fan_left pc' < fan_left pc"
proof -
  have both: "(pc' = pc \<or> fan_left pc' < fan_left pc) \<and> (pc \<noteq> FFinished \<longrightarrow> (pc = FWait \<longrightarrow> used < fe_slots env) \<longrightarrow> fan_left pc' < fan_left pc)"
  proof (cases pc)
    case (FDelegate t dpc)
    obtain dpc' orc1 where m: "delegate_move render (ft_now turn) \<lparr>fi_work = [], fi_context = [], fi_event = fe_eventID env k\<rparr>
        (worker_request env k) (dpc, orc) = (dpc', orc1)" by fastforce
    show ?thesis using assms FDelegate m delegate_move_left [OF m] by (cases dpc') (auto split: sum.splits)
  qed (use assms in \<open>auto split: option.splits prod.splits if_splits\<close>)
  show "pc' = pc \<or> fan_left pc' < fan_left pc" using both by blast
  show "fan_left pc' < fan_left pc" if "pc \<noteq> FFinished" "pc = FWait \<longrightarrow> used < fe_slots env" using both that by blast
qed

lemma sum_list_update_less:
  "k < length xs \<Longrightarrow> f y < f (xs ! k) \<Longrightarrow> sum_list (map f (xs[k := y])) < sum_list (map f (xs :: 'a list) :: nat list)"
  by (induction xs arbitrary: k) (auto simp: less_Suc_eq_0_disj nth_Cons split: nat.splits)

lemma fan_step_potential:
  "fr_pcs (fan_step render env run turn) = fr_pcs run \<or>
   fan_potential (fan_step render env run turn) < fan_potential run"
  "enabled env run (ft_worker turn) \<Longrightarrow> fan_potential (fan_step render env run turn) < fan_potential run"
proof -
  let ?k = "ft_worker turn"
  obtain orc' pc' res' where mv: "worker_move render env ?k turn (slots_used (fr_pcs run)) (fr_orc run)
      (fr_pcs run ! ?k) (fr_results run ! ?k) = (orc', pc', res')"
    using prod_cases3 by blast
  have pcs: "fr_pcs (fan_step render env run turn) = (if ?k < length (fr_pcs run) then (fr_pcs run)[?k := pc'] else fr_pcs run)"
    using mv by (simp add: fan_step_def Let_def)
  show "fr_pcs (fan_step render env run turn) = fr_pcs run \<or>
      fan_potential (fan_step render env run turn) < fan_potential run"
    using worker_move_left(1) [OF mv] sum_list_update_less [of ?k "fr_pcs run" fan_left pc']
    by (auto simp: pcs fan_potential_def)
  show "fan_potential (fan_step render env run turn) < fan_potential run" if "enabled env run ?k"
    using that worker_move_left(2) [OF mv] sum_list_update_less [of ?k "fr_pcs run" fan_left pc']
    by (auto simp: pcs fan_potential_def enabled_def)
qed

lemma fan_run_potential:
  "fr_pcs (foldl (fan_step render env) run es) = fr_pcs run \<or>
   fan_potential (foldl (fan_step render env) run es) < fan_potential run"
proof (induction es arbitrary: run)
  case (Cons e es)
  from Cons [of "fan_step render env run e"] fan_step_potential(1) [of render env run e] show ?case
    by (auto simp: fan_potential_def)
qed simp

lemma fan_run_potential_le: "fan_potential (foldl (fan_step render env) run es) \<le> fan_potential run"
  using fan_run_potential [of render env run es] by (auto simp: fan_potential_def)

lemma fan_round_progress:
  assumes "enabled env run k" and "k \<in> ft_worker ` set es"
  shows "fan_potential (foldl (fan_step render env) run es) < fan_potential run"
  using assms
proof (induction es arbitrary: run)
  case (Cons e es)
  let ?run = "fan_step render env run e"
  show ?case
  proof (cases "fr_pcs ?run = fr_pcs run")
    case True
    then have en: "enabled env ?run k" and same: "fan_potential ?run = fan_potential run"
      using Cons.prems(1) by (simp_all add: enabled_def fan_potential_def)
    have "ft_worker e \<noteq> k"
      using fan_step_potential(2) [of env run e render] Cons.prems(1) same by auto
    then show ?thesis using Cons.IH [OF en] Cons.prems(2) same by auto
  next
    case False
    then have "fan_potential ?run < fan_potential run" using fan_step_potential(1) by blast
    then show ?thesis using fan_run_potential_le [of render env ?run es] by simp
  qed
qed simp

lemma some_enabled:
  assumes "\<not> all_finished run" and "0 < fe_slots env"
  shows "\<exists>k. enabled env run k"
proof (cases "slots_used (fr_pcs run) = 0")
  case True
  from assms(1) obtain k where "k < length (fr_pcs run)" "fr_pcs run ! k \<noteq> FFinished"
    by (auto simp: all_finished_def in_set_conv_nth)
  with True assms(2) show ?thesis by (auto simp: enabled_def)
next
  case False
  then obtain pc where "pc \<in> set (fr_pcs run)" "holds_slot pc"
    by (auto simp: slots_used_def filter_empty_conv)
  then obtain k where "k < length (fr_pcs run)" "holds_slot (fr_pcs run ! k)"
    by (auto simp: in_set_conv_nth)
  then show ?thesis by (intro exI [of _ k]) (auto simp: enabled_def)
qed

lemma fan_step_length [simp]: "length (fr_pcs (fan_step render env run e)) = length (fr_pcs run)"
  by (simp add: fan_step_def Let_def split: prod.split)

lemma fan_run_length [simp]: "length (fr_pcs (foldl (fan_step render env) run es)) = length (fr_pcs run)"
  by (induction es arbitrary: run) simp_all

lemma all_finished_potential: "all_finished run \<longleftrightarrow> fan_potential run = 0"
proof -
  have "fan_left pc = 0 \<longleftrightarrow> pc = FFinished" for pc by (cases pc) simp_all
  then show ?thesis by (auto simp: all_finished_def fan_potential_def)
qed

lemma rounds_finish:
  assumes "0 < fe_slots env" and "\<forall>es\<in>set rounds. {..<length (fr_pcs run)} \<subseteq> ft_worker ` set es"
    and "fan_potential run \<le> length rounds"
  shows "all_finished (foldl (fan_step render env) run (concat rounds))"
  using assms
proof (induction rounds arbitrary: run)
  case Nil
  then show ?case by (simp add: all_finished_potential)
next
  case (Cons es rounds)
  let ?run = "foldl (fan_step render env) run es"
  have "fan_potential ?run \<le> length rounds"
  proof (cases "all_finished run")
    case True
    then have "fan_potential run = 0" by (simp add: all_finished_potential)
    then show ?thesis using fan_run_potential_le [of render env run es] by linarith
  next
    case False
    then obtain k where "enabled env run k" using some_enabled Cons.prems(1) by blast
    then have "fan_potential ?run < fan_potential run"
      using Cons.prems(2) by (intro fan_round_progress) (auto simp: enabled_def)
    with Cons.prems(3) show ?thesis by simp
  qed
  with Cons.IH [of ?run] Cons.prems show ?case by simp
qed

lemma fan_out_slots_bounds:
  assumes "fo_Tasks req \<noteq> []"
  shows "0 < fan_out_slots req parent \<and> fan_out_slots req parent \<le> length (fo_Tasks req)"
proof -
  have "0 < int (length (fo_Tasks req))" using assms by simp
  then show ?thesis
    by (auto simp: fan_out_slots_def Let_def go_defs split: option.splits)
qed

lemma fan_start_potential: "fan_potential (fan_start env orc) = 111 * length (fo_Tasks (fe_req env))"
  by (simp add: fan_potential_def fan_start_def sum_list_replicate)

lemma ExecuteFanOut_rounds:
  assumes "fo_Tasks req \<noteq> []"
    and "fan_out_parent render orc st je (tenant_or_default (fo_TenantID req)) req = (Inr parent, orc1)"
    and "\<forall>es\<in>set rounds. {..<length (fo_Tasks req)} \<subseteq> ft_worker ` set es"
    and "111 * length (fo_Tasks req) \<le> length rounds"
  shows "\<exists>j orc'. ExecuteFanOut render renderJoin orc st en newT newE cn je (concat rounds) req = Some (Inr j, orc')"
proof -
  let ?env = "fan_out_env req parent newT newE cn"
  have "0 < fe_slots ?env" using fan_out_slots_bounds [OF assms(1)] by (simp add: fan_out_env_def)
  moreover have "length (fr_pcs (fan_start ?env orc1)) = length (fo_Tasks req)" by (simp add: fan_start_def)
  ultimately have "all_finished (foldl (fan_step render ?env) (fan_start ?env orc1) (concat rounds))"
    using assms(3,4) by (intro rounds_finish) (simp_all add: fan_start_potential)
  with assms(1,2) show ?thesis by (simp add: ExecuteFanOut_def Let_def)
qed

definition sample_task :: "string \<Rightarrow> fan_out_task_spec" where
  "sample_task i =
     \<lparr>fs_TaskID = i, fs_ExecutorAgentID = ''b'', fs_Input = [], fs_Budget = None, fs_RequestedTokens = 5,
      fs_RequestedWorkUnits = 0, fs_Executor = None\<rparr>"

definition sample_fan_out :: fan_out_request where
  "sample_fan_out =
     \<lparr>fo_TenantID = [], fo_ParentWorkID = ''w1'', fo_RequesterAgentID = ''a'',
      fo_Tasks = [sample_task ''f1'', sample_task ''f2''], fo_Policy = ''QUORUM'', fo_MinSuccessCount = 0,
      fo_Timeout = 0, fo_MaxConcurrency = 1\<rparr>"

definition sample_rounds :: "fan_turn list list" where
  "sample_rounds =
     replicate 222 [\<lparr>ft_worker = 1, ft_now = 9, ft_done = None\<rparr>, \<lparr>ft_worker = 0, ft_now = 9, ft_done = None\<rparr>]"

lemma sample_fan_out_parent:
  "fan_out_parent render (NewOrchestrator (Some sample_tree_db) False False) 8 ''j'' ''default'' sample_fan_out
     = (Inr (Some sample_row), NewOrchestrator (Some sample_tree_db) False False)"
proof -
  have "ValidateFanOutLimit (Some sample_row) 2 = Inr ()" "\<not> isTerminalState (wm_State sample_row)"
    by (simp_all add: ValidateFanOutLimit_def sample_row_def positive_or_def go_defs i32_def isTerminalState_def Let_def)
  then show ?thesis
    using sample_tree_get(1) by (simp add: fan_out_parent_def NewOrchestrator_def sample_fan_out_def)
qed

lemma sample_rounds_cover:
  "\<forall>es\<in>set sample_rounds. {..<length (fo_Tasks sample_fan_out)} \<subseteq> ft_worker ` set es"
  by (auto simp: sample_rounds_def sample_fan_out_def)

section \<open>Properties\<close>

text \<open>C24: under every schedule of the workers, a fan-out that returns gives one result per task,
  in the order of the tasks and with their agents and ids; every result is completed, failed or
  canceled; the three counters count exactly those and add up to the number of tasks; and the call
  reports success exactly when all tasks completed (the default policy), at least one did (first
  success), at least the minimum count and one did (partial failure), the minimum count or,
  without one, more than half of them did (quorum); with any other policy it reports failure.\<close>

theorem ExecuteFanOut_results:
  assumes "ExecuteFanOut render renderJoin orc st en newT newE cn je schedule req = Some (Inr j, orc')"
  shows "length (jr_TaskResults j) = length (fo_Tasks req) \<and>
     (\<forall>k<length (fo_Tasks req). tr_Index (jr_TaskResults j ! k) = k \<and>
        tr_ExecutorAgentID (jr_TaskResults j ! k) = fs_ExecutorAgentID (fo_Tasks req ! k) \<and>
        (fs_TaskID (fo_Tasks req ! k) \<noteq> [] \<longrightarrow> tr_TaskID (jr_TaskResults j ! k) = fs_TaskID (fo_Tasks req ! k))) \<and>
     jr_CompletedCount j = results_in ''COMPLETED'' (jr_TaskResults j) \<and>
     jr_FailedCount j = results_in ''FAILED'' (jr_TaskResults j) \<and>
     jr_CanceledCount j = results_in ''CANCELED'' (jr_TaskResults j) \<and>
     jr_CompletedCount j + jr_FailedCount j + jr_CanceledCount j = length (fo_Tasks req) \<and>
     (let p = (if fo_Policy req = [] then ''ALL_SUCCESS'' else fo_Policy req);
          c = results_in ''COMPLETED'' (jr_TaskResults j);
          n = length (fo_Tasks req);
          m = fo_MinSuccessCount req in
      jr_Success j \<longleftrightarrow>
        p = ''ALL_SUCCESS'' \<and> c = n \<or> p = ''FIRST_SUCCESS'' \<and> 1 \<le> c \<or>
        p = ''PARTIAL_FAILURE'' \<and> max 1 m \<le> int c \<or>
        p = ''QUORUM'' \<and> (if m \<le> 0 then n < 2 * c else m \<le> int c))"
proof -
  obtain parent orc1 run where run: "run = foldl (fan_step render (fan_out_env req parent newT newE cn))
      (fan_start (fan_out_env req parent newT newE cn) orc1) schedule" "all_finished run"
    and j: "j = join_results req (if fo_Policy req = [] then JoinPolicyAllSuccess else fo_Policy req)
           (en - st) (fr_results run)"
    by (rule ExecuteFanOut_run [OF assms])
  have inv: "fan_inv (fan_out_env req parent newT newE cn) run"
    unfolding run(1) by (rule fan_workers.invar_history) auto
  note res = finished_results [OF inv run(2)]
  show ?thesis
    using res(1,3) count_results [OF res(2)] results_in_total [OF res(2)]
    by (simp add: j join_results_def evaluate_policy_None Let_def JoinPolicyAllSuccess_def)
qed

theorem ExecuteFanOut_results_witness:
  "\<exists>j orc'. ExecuteFanOut (\<lambda>_. []) (\<lambda>_. []) (NewOrchestrator (Some sample_tree_db) False False) 8 20
       (\<lambda>_. ''n'') (\<lambda>_. ''e'') (\<lambda>k. k) ''j'' (concat sample_rounds) sample_fan_out = Some (Inr j, orc') \<and>
     length (jr_TaskResults j) = 2"
proof -
  let ?orc = "NewOrchestrator (Some sample_tree_db) False False"
  have "\<exists>j orc'. ExecuteFanOut (\<lambda>_. []) (\<lambda>_. []) ?orc 8 20 (\<lambda>_. ''n'') (\<lambda>_. ''e'') (\<lambda>k. k) ''j''
      (concat sample_rounds) sample_fan_out = Some (Inr j, orc')"
    by (rule ExecuteFanOut_rounds [OF _ _ sample_rounds_cover, of _ _ _ _ "Some sample_row" ?orc])
      (use sample_fan_out_parent in \<open>simp_all add: sample_fan_out_def sample_rounds_def tenant_or_default_def\<close>)
  then obtain j orc' where run: "ExecuteFanOut (\<lambda>_. []) (\<lambda>_. []) ?orc 8 20 (\<lambda>_. ''n'') (\<lambda>_. ''e'') (\<lambda>k. k) ''j''
      (concat sample_rounds) sample_fan_out = Some (Inr j, orc')"
    by blast
  from ExecuteFanOut_results [OF run] have "length (jr_TaskResults j) = 2" by (simp add: sample_fan_out_def)
  with run show ?thesis by blast
qed

text \<open>C25: whatever the schedule, at no moment are more workers past the wait than the semaphore
  has slots, and a fan-out has at least one slot and at most one per task.\<close>

theorem fan_out_concurrency_bounded:
  "slots_used (fr_pcs (foldl (fan_step render (fan_out_env req parent newT newE cn))
      (fan_start (fan_out_env req parent newT newE cn) orc) es)) \<le> fan_out_slots req parent \<and>
   fan_out_slots req parent \<le> length (fo_Tasks req) \<and> (fo_Tasks req = [] \<or> 0 < fan_out_slots req parent)"
proof -
  have "fan_inv (fan_out_env req parent newT newE cn) (foldl (fan_step render (fan_out_env req parent newT newE cn))
      (fan_start (fan_out_env req parent newT newE cn) orc) es)"
    by (rule fan_workers.invar_history) auto
  moreover have "fan_out_slots req parent \<le> length (fo_Tasks req)"
    by (auto simp: fan_out_slots_def Let_def)
  ultimately show ?thesis
    using fan_out_slots_bounds [of req parent] by (cases "fo_Tasks req = []") (simp_all add: fan_inv_def)
qed

text \<open>A fan-out whose parent admits it returns once the schedule has gone around all its
  workers 111 times per task, which is what the checks, with at most a hundred ancestors, take, whatever the number of slots and the order within a round.\<close>

theorem ExecuteFanOut_returns:
  assumes "fo_Tasks req \<noteq> []"
    and "fan_out_parent render orc st je (tenant_or_default (fo_TenantID req)) req = (Inr parent, orc1)"
    and "\<forall>es\<in>set rounds. {..<length (fo_Tasks req)} \<subseteq> ft_worker ` set es"
    and "111 * length (fo_Tasks req) \<le> length rounds"
  shows "\<exists>j orc'. ExecuteFanOut render renderJoin orc st en newT newE cn je (concat rounds) req = Some (Inr j, orc')"
  using assms by (rule ExecuteFanOut_rounds)

theorem ExecuteFanOut_returns_witness:
  "\<exists>j orc'. ExecuteFanOut (\<lambda>_. []) (\<lambda>_. []) (NewOrchestrator (Some sample_tree_db) False False) 8 30
       (\<lambda>_. ''n'') (\<lambda>_. ''e'') (\<lambda>k. k) ''j'' (concat sample_rounds) sample_fan_out = Some (Inr j, orc')"
  by (rule ExecuteFanOut_returns [OF _ _ sample_rounds_cover, of _ _ _ _ "Some sample_row"
        "NewOrchestrator (Some sample_tree_db) False False"])
    (use sample_fan_out_parent in \<open>simp_all add: sample_fan_out_def sample_rounds_def tenant_or_default_def\<close>)

end
