(* ===== verification/Event_Stream.thy ===== *)
theory Event_Stream
  imports Work_Store
begin

text \<open>
  The event manager of \<open>backend/a2a/events.go\<close> with the state names of
  \<open>backend/a2a/store.go\<close>: \<open>Publish\<close> offers an event to the 64-place channel of every live
  subscriber and drops it where the channel is full; \<open>Subscribe\<close> registers a channel, replays the
  durable events after a sequence number, and then follows the channel. Publishers, other
  subscribers, writers of the store and the consumer interleave freely with the subscription,
  whose own code is cut at its yields, its reads of the store and its channel operations.

  The events themselves belong to the SDK, which is a parameter: its constructors, and the task
  state that a status event or a task carries.

  Shown here: the numbers a subscriber sees strictly increase and follow the requested one, and
  nothing follows a terminal event; what a live subscription has delivered is exactly the page it
  read and, after it, the events that reached its channel under a greater number; what the replay
  makes of the states that the task store writes.
\<close>

section \<open>Task states\<close>

datatype task_state =
    TaskStateUnspecified
  | TaskStateSubmitted
  | TaskStateWorking
  | TaskStateCompleted
  | TaskStateFailed
  | TaskStateCanceled
  | TaskStateInputRequired
  | TaskStateAuthRequired
  | TaskStateRejected
  | OtherTaskState string

fun mapTaskStateToDurableState :: "task_state \<Rightarrow> string" where
  "mapTaskStateToDurableState TaskStateSubmitted = ''SUBMITTED''"
| "mapTaskStateToDurableState TaskStateWorking = ''WORKING''"
| "mapTaskStateToDurableState TaskStateCompleted = ''COMPLETED''"
| "mapTaskStateToDurableState TaskStateFailed = ''FAILED''"
| "mapTaskStateToDurableState TaskStateCanceled = ''CANCELED''"
| "mapTaskStateToDurableState TaskStateInputRequired = ''INPUT_REQUIRED''"
| "mapTaskStateToDurableState TaskStateAuthRequired = ''AUTH_REQUIRED''"
| "mapTaskStateToDurableState TaskStateRejected = ''REJECTED''"
| "mapTaskStateToDurableState TaskStateUnspecified = ''SUBMITTED''"
| "mapTaskStateToDurableState (OtherTaskState _) = ''SUBMITTED''"

definition mapDurableStateToTaskState :: "string \<Rightarrow> task_state" where
  "mapDurableStateToTaskState s =
     (if s = ''SUBMITTED'' then TaskStateSubmitted
      else if s = ''WORKING'' then TaskStateWorking
      else if s = ''COMPLETED'' then TaskStateCompleted
      else if s = ''FAILED'' then TaskStateFailed
      else if s = ''CANCELED'' then TaskStateCanceled
      else if s = ''INPUT_REQUIRED'' then TaskStateInputRequired
      else if s = ''AUTH_REQUIRED'' then TaskStateAuthRequired
      else if s = ''REJECTED'' then TaskStateRejected
      else TaskStateSubmitted)"

section \<open>Events of the SDK\<close>

record task_info =
  ti_TaskID :: string
  ti_ContextID :: string

datatype a2a_part = FileURLPart string string | TextPart string

record 'e a2a_sdk =
  NewStatusUpdateEvent :: "task_info \<Rightarrow> task_state \<Rightarrow> a2a_part option \<Rightarrow> 'e"
  NewArtifactUpdateEvent :: "task_info \<Rightarrow> string \<Rightarrow> a2a_part list \<Rightarrow> 'e"
  NewArtifactEvent :: "task_info \<Rightarrow> a2a_part list \<Rightarrow> 'e"
  NewMessageForTask :: "task_info \<Rightarrow> a2a_part \<Rightarrow> 'e"
  event_status :: "'e \<Rightarrow> task_state option"

text \<open>What the code relies on: a status event carries the state it was made with. \<open>event_status\<close>
  is the state of a status update or of a task, and \<open>None\<close> on every other kind of event.\<close>

definition sdk_status_law :: "'e a2a_sdk \<Rightarrow> bool" where
  "sdk_status_law sdk \<longleftrightarrow> (\<forall>info s msg. event_status sdk (NewStatusUpdateEvent sdk info s msg) = Some s)"

definition isTerminalEvent :: "'e a2a_sdk \<Rightarrow> 'e option \<Rightarrow> bool" where
  "isTerminalEvent sdk event =
     (case event of None \<Rightarrow> False
      | Some e \<Rightarrow>
          (case event_status sdk e of None \<Rightarrow> False
           | Some s \<Rightarrow> s = TaskStateCompleted \<or> s = TaskStateFailed \<or> s = TaskStateCanceled \<or> s = TaskStateRejected))"

definition metadata_value :: "work_event \<Rightarrow> string \<Rightarrow> string" where
  "metadata_value e k = (case map_of (we_Metadata e) k of None \<Rightarrow> [] | Some v \<Rightarrow> v)"

definition artifact_parts :: "work_event \<Rightarrow> a2a_part list" where
  "artifact_parts e =
     (if metadata_value e ''external_uri'' \<noteq> []
      then [FileURLPart (metadata_value e ''external_uri'') (metadata_value e ''media_type'')]
      else if metadata_value e ''text'' \<noteq> [] then [TextPart (metadata_value e ''text'')]
      else [])"

definition mapWorkEventToA2AEvent :: "'e a2a_sdk \<Rightarrow> work_event option \<Rightarrow> 'e option" where
  "mapWorkEventToA2AEvent sdk event =
     (case event of None \<Rightarrow> None
      | Some e \<Rightarrow>
          (let info = \<lparr>ti_TaskID = we_WorkID e, ti_ContextID = metadata_value e ''context_id''\<rparr>;
               t = we_EventType e in
           Some (
             if t \<in> {''STATUS_UPDATE'', ''SUBMITTED'', ''WORKING'', ''COMPLETED'', ''FAILED'', ''CANCELED'', ''REJECTED''}
             then NewStatusUpdateEvent sdk info
                    (if t = ''STATUS_UPDATE'' \<and> we_PolicyDecision e \<noteq> []
                     then mapDurableStateToTaskState (we_PolicyDecision e) else mapDurableStateToTaskState t)
                    (if we_TerminalReason e \<noteq> [] then Some (TextPart (we_TerminalReason e)) else None)
             else if t = ''ARTIFACT_UPDATE''
             then (if metadata_value e ''artifact_id'' \<noteq> []
                   then NewArtifactUpdateEvent sdk info (metadata_value e ''artifact_id'') (artifact_parts e)
                   else NewArtifactEvent sdk info (artifact_parts e))
             else if t = ''MESSAGE'' then NewMessageForTask sdk info (TextPart (metadata_value e ''text''))
             else NewStatusUpdateEvent sdk info TaskStateWorking None)))"

section \<open>Channels\<close>

text \<open>
  The manager maps a key to the channels of its subscribers. A Go channel is its handle, a number
  that is never reused, and the items in its buffer.
\<close>

record 'e event_item =
  it_sequence :: nat
  it_event :: 'e

record 'e event_manager =
  em_channels :: "(string \<times> (nat \<times> 'e event_item list) list) list"
  em_made :: nat

definition NewEventManager :: "'e event_manager" where
  "NewEventManager = \<lparr>em_channels = [], em_made = 0\<rparr>"

definition channelKey :: "string \<Rightarrow> string \<Rightarrow> string" where
  "channelKey tenantID workID = tenant_or_default tenantID @ '':'' @ workID"

definition subscribers :: "'e event_manager \<Rightarrow> string \<Rightarrow> (nat \<times> 'e event_item list) list" where
  "subscribers em key = (case map_of (em_channels em) key of None \<Rightarrow> [] | Some subs \<Rightarrow> subs)"

definition set_subscribers ::
  "string \<Rightarrow> (nat \<times> 'e event_item list) list \<Rightarrow> 'e event_manager \<Rightarrow> 'e event_manager" where
  "set_subscribers key subs em = em\<lparr>em_channels := assoc_set key subs (em_channels em)\<rparr>"

definition channel_capacity :: nat where "channel_capacity = 64"

definition offer :: "'e event_item \<Rightarrow> 'e event_item list \<Rightarrow> 'e event_item list" where
  "offer item buf = (if length buf < channel_capacity then buf @ [item] else buf)"

definition Publish :: "'e event_manager \<Rightarrow> string \<Rightarrow> string \<Rightarrow> 'e \<Rightarrow> nat \<Rightarrow> 'e event_manager" where
  "Publish em tenantID workID event sequence =
     (case map_of (em_channels em) (channelKey tenantID workID) of
        None \<Rightarrow> em
      | Some subs \<Rightarrow>
          set_subscribers (channelKey tenantID workID)
            (map (\<lambda>(h, buf). (h, offer \<lparr>it_sequence = sequence, it_event = event\<rparr> buf)) subs) em)"

definition getOrCreateChannel :: "'e event_manager \<Rightarrow> string \<Rightarrow> string \<Rightarrow> 'e event_manager" where
  "getOrCreateChannel em tenantID workID =
     (case map_of (em_channels em) (channelKey tenantID workID) of
        None \<Rightarrow> set_subscribers (channelKey tenantID workID) [] em
      | Some _ \<Rightarrow> em)"

definition add_subscriber :: "'e event_manager \<Rightarrow> string \<Rightarrow> string \<Rightarrow> nat \<times> 'e event_manager" where
  "add_subscriber em tenantID workID =
     (let key = channelKey tenantID workID; h = em_made em; em1 = getOrCreateChannel em tenantID workID in
      (h, (set_subscribers key (assoc_set h [] (subscribers em1 key)) em1)\<lparr>em_made := Suc h\<rparr>))"

definition remove_subscriber :: "'e event_manager \<Rightarrow> string \<Rightarrow> string \<Rightarrow> nat \<Rightarrow> 'e event_manager" where
  "remove_subscriber em tenantID workID h =
     (let key = channelKey tenantID workID in set_subscribers key (assoc_del h (subscribers em key)) em)"

definition channel_buffer :: "'e event_manager \<Rightarrow> string \<Rightarrow> string \<Rightarrow> nat \<Rightarrow> 'e event_item list" where
  "channel_buffer em tenantID workID h =
     (case map_of (subscribers em (channelKey tenantID workID)) h of None \<Rightarrow> [] | Some buf \<Rightarrow> buf)"

definition set_buffer ::
  "'e event_manager \<Rightarrow> string \<Rightarrow> string \<Rightarrow> nat \<Rightarrow> 'e event_item list \<Rightarrow> 'e event_manager" where
  "set_buffer em tenantID workID h buf =
     (let key = channelKey tenantID workID in set_subscribers key (assoc_set h buf (subscribers em key)) em)"

section \<open>A subscription\<close>

datatype stream_pc = SOpen | SList | SReplay "work_event list" | SLive | SClosing | SClosed

record 'e subscription =
  su_tenant :: string
  su_work :: string
  su_from :: nat
  su_handle :: nat
  su_lastYieldedSeq :: nat
  su_pc :: stream_pc
  su_yielded :: "(nat \<times> 'e) list"
  su_error :: "store_error option"

definition Subscribe :: "string \<Rightarrow> string \<Rightarrow> nat \<Rightarrow> 'e subscription" where
  "Subscribe tenantID workID fromSequence =
     \<lparr>su_tenant = tenant_or_default tenantID, su_work = workID, su_from = fromSequence, su_handle = 0,
      su_lastYieldedSeq = fromSequence, su_pc = SOpen, su_yielded = [], su_error = None\<rparr>"

text \<open>One yield: the consumer may decline to go on, a terminal event ends the stream.\<close>

definition yield_event ::
  "'e a2a_sdk \<Rightarrow> bool \<Rightarrow> nat \<Rightarrow> 'e \<Rightarrow> stream_pc \<Rightarrow> 'e subscription \<Rightarrow> 'e subscription" where
  "yield_event sdk keep sequence event pc su =
     (let su1 = su\<lparr>su_yielded := su_yielded su @ [(sequence, event)]\<rparr> in
      if \<not> keep then su1\<lparr>su_pc := SClosing\<rparr>
      else su1\<lparr>su_lastYieldedSeq := sequence,
               su_pc := (if isTerminalEvent sdk (Some event) then SClosing else pc)\<rparr>)"

text \<open>
  \<open>subscription_move\<close> runs the subscription to its next interaction. \<open>cancelled\<close> says that the
  \<open>select\<close> takes the branch of a cancelled context, \<open>keep\<close> what the consumer's \<open>yield\<close> returns. A
  live subscription with an empty channel waits.
\<close>

definition subscription_move ::
  "'e a2a_sdk \<Rightarrow> work_db option \<Rightarrow> bool \<Rightarrow> bool \<Rightarrow> 'e event_manager \<Rightarrow> 'e subscription \<Rightarrow>
     'e event_manager \<times> 'e subscription" where
  "subscription_move sdk store cancelled keep em su =
     (case su_pc su of
        SOpen \<Rightarrow>
          (case add_subscriber em (su_tenant su) (su_work su) of
             (h, em1) \<Rightarrow> (em1, su\<lparr>su_handle := h, su_pc := SList\<rparr>))
      | SList \<Rightarrow>
          (case store of
             None \<Rightarrow> (em, su\<lparr>su_pc := SLive\<rparr>)
           | Some db \<Rightarrow>
               (case ListWorkEvents db (su_tenant su) (su_work su) (su_from su) 500 of
                  Inl err \<Rightarrow> (em, su\<lparr>su_error := Some err, su_pc := SClosing\<rparr>)
                | Inr hist \<Rightarrow> (em, su\<lparr>su_pc := SReplay hist\<rparr>)))
      | SReplay [] \<Rightarrow> (em, su\<lparr>su_pc := SLive\<rparr>)
      | SReplay (e # es) \<Rightarrow>
          (case mapWorkEventToA2AEvent sdk (Some e) of
             None \<Rightarrow> (em, su\<lparr>su_pc := SReplay es\<rparr>)
           | Some event \<Rightarrow> (em, yield_event sdk keep (we_Sequence e) event (SReplay es) su))
      | SLive \<Rightarrow>
          (if cancelled then (em, su\<lparr>su_pc := SClosing\<rparr>)
           else
             (case channel_buffer em (su_tenant su) (su_work su) (su_handle su) of
                [] \<Rightarrow> (em, su)
              | item # rest \<Rightarrow>
                  (set_buffer em (su_tenant su) (su_work su) (su_handle su) rest,
                   if it_sequence item \<le> su_lastYieldedSeq su then su
                   else yield_event sdk keep (it_sequence item) (it_event item) SLive su)))
      | SClosing \<Rightarrow> (remove_subscriber em (su_tenant su) (su_work su) (su_handle su), su\<lparr>su_pc := SClosed\<rparr>)
      | SClosed \<Rightarrow> (em, su))"

text \<open>A subscription among everybody else who uses the manager and the store.\<close>

record 'e stream_world =
  sw_manager :: "'e event_manager"
  sw_store :: "work_db option"
  sw_sub :: "'e subscription"

datatype 'e stream_event =
    Publishes string string 'e nat
  | Writes store_op
  | Joins string string
  | Drains string string nat
  | Leaves string string nat
  | Resumes bool bool

definition foreign_channel :: "'e stream_world \<Rightarrow> nat \<Rightarrow> bool" where
  "foreign_channel w h \<longleftrightarrow> su_pc (sw_sub w) \<in> {SOpen, SClosed} \<or> h \<noteq> su_handle (sw_sub w)"

fun stream_step :: "'e a2a_sdk \<Rightarrow> 'e stream_world \<Rightarrow> 'e stream_event \<Rightarrow> 'e stream_world" where
  "stream_step sdk w (Publishes t i ev k) = w\<lparr>sw_manager := Publish (sw_manager w) t i ev k\<rparr>"
| "stream_step sdk w (Writes op) = w\<lparr>sw_store := map_option (\<lambda>db. store_step db op) (sw_store w)\<rparr>"
| "stream_step sdk w (Joins t i) = w\<lparr>sw_manager := snd (add_subscriber (sw_manager w) t i)\<rparr>"
| "stream_step sdk w (Drains t i h) =
     (if foreign_channel w h
      then w\<lparr>sw_manager := set_buffer (sw_manager w) t i h (tl (channel_buffer (sw_manager w) t i h))\<rparr> else w)"
| "stream_step sdk w (Leaves t i h) =
     (if foreign_channel w h then w\<lparr>sw_manager := remove_subscriber (sw_manager w) t i h\<rparr> else w)"
| "stream_step sdk w (Resumes cancelled keep) =
     (case subscription_move sdk (sw_store w) cancelled keep (sw_manager w) (sw_sub w) of
        (em, su) \<Rightarrow> w\<lparr>sw_manager := em, sw_sub := su\<rparr>)"

definition stream_start :: "work_db option \<Rightarrow> string \<Rightarrow> string \<Rightarrow> nat \<Rightarrow> 'e stream_world" where
  "stream_start store t i from =
     \<lparr>sw_manager = NewEventManager, sw_store = store, sw_sub = Subscribe t i from\<rparr>"

section \<open>Durable sequences\<close>

text \<open>The unique index on tenant, work and sequence.\<close>

definition event_log_ok :: "work_db \<Rightarrow> bool" where
  "event_log_ok db \<longleftrightarrow>
     (\<forall>t i. distinct (map we_Sequence (work_events_of db t i))) \<and> (\<forall>e\<in>set (wdb_events db). 0 < we_Sequence e)"

lemma event_log_ok_cong: "wdb_events db' = wdb_events db \<Longrightarrow> event_log_ok db' = event_log_ok db"
  by (simp add: event_log_ok_def work_events_of_def)

lemma event_log_ok_empty: "empty_db db \<Longrightarrow> event_log_ok db"
  by (simp add: event_log_ok_def work_events_of_def empty_db_def)

lemma AppendWorkEvent_log_ok: "event_log_ok db \<Longrightarrow> event_log_ok (snd (AppendWorkEvent db n e))"
  by (auto simp: event_log_ok_def work_events_of_def AppendWorkEvent_def Let_def)

lemma store_step_events: "\<forall>n e. op \<noteq> OpAppendEvent n e \<Longrightarrow> wdb_events (store_step db op) = wdb_events db"
  by (cases op)
    (simp_all add: EnsureWorkContext_def CreateWork_def UpdateWorkState_def CreateWorkArtifact_def
      UpdateWorkUsage_def Let_def split: option.splits sum.splits)

lemma store_step_log_ok: "event_log_ok db \<Longrightarrow> event_log_ok (store_step db op)"
  using event_log_ok_cong [OF store_step_events [of op db]] AppendWorkEvent_log_ok [of db]
  by (cases op) auto

lemma ListWorkEvents_increasing:
  assumes "event_log_ok db" and "ListWorkEvents db t i from n = Inr hist"
  shows "sorted_wrt (<) (map we_Sequence hist)" and "\<forall>e\<in>set hist. from < we_Sequence e"
    and "\<forall>e\<in>set hist. e \<in> set (work_events_of db (tenant_or_default t) i)"
proof -
  let ?s = "sort_key we_Sequence (filter (\<lambda>e. from < we_Sequence e) (work_events_of db (tenant_or_default t) i))"
  obtain k where hist: "hist = take k ?s"
    using assms(2) by (auto simp: ListWorkEvents_def Let_def split: if_splits)
  have "distinct (map we_Sequence (work_events_of db (tenant_or_default t) i))"
    using assms(1) by (simp add: event_log_ok_def)
  then have "distinct (map we_Sequence ?s)"
    by (simp add: distinct_map distinct_filter inj_on_def)
  then have "sorted_wrt (<) (map we_Sequence ?s)" by (simp add: strict_sorted_iff)
  then show "sorted_wrt (<) (map we_Sequence hist)"
    unfolding hist take_map [symmetric] by (rule sorted_wrt_take)
  show "\<forall>e\<in>set hist. from < we_Sequence e" "\<forall>e\<in>set hist. e \<in> set (work_events_of db (tenant_or_default t) i)"
    using set_take_subset [of k ?s] by (auto simp: hist)
qed

section \<open>Order\<close>

definition running :: "stream_pc \<Rightarrow> bool" where
  "running pc \<longleftrightarrow> pc \<noteq> SClosing \<and> pc \<noteq> SClosed"

definition not_terminal :: "'e a2a_sdk \<Rightarrow> nat \<times> 'e \<Rightarrow> bool" where
  "not_terminal sdk x \<longleftrightarrow> \<not> isTerminalEvent sdk (Some (snd x))"

fun replay_ok :: "nat \<Rightarrow> nat \<Rightarrow> stream_pc \<Rightarrow> bool" where
  "replay_ok from k (SReplay es) = (sorted_wrt (<) (map we_Sequence es) \<and> (\<forall>e\<in>set es. k < we_Sequence e))"
| "replay_ok from k SOpen = (k = from)"
| "replay_ok from k SList = (k = from)"
| "replay_ok from k _ = True"

definition order_inv :: "'e a2a_sdk \<Rightarrow> 'e subscription \<Rightarrow> bool" where
  "order_inv sdk su \<longleftrightarrow>
     sorted_wrt (<) (map fst (su_yielded su)) \<and> (\<forall>x\<in>set (su_yielded su). su_from su < fst x) \<and>
     (\<forall>x\<in>set (butlast (su_yielded su)). not_terminal sdk x) \<and>
     (running (su_pc su) \<longrightarrow>
        su_from su \<le> su_lastYieldedSeq su \<and>
        (\<forall>x\<in>set (su_yielded su). fst x \<le> su_lastYieldedSeq su \<and> not_terminal sdk x) \<and>
        replay_ok (su_from su) (su_lastYieldedSeq su) (su_pc su))"

lemma running_simps [simp]:
  "running SOpen" "running SList" "running (SReplay es)" "running SLive" "\<not> running SClosing" "\<not> running SClosed"
  by (simp_all add: running_def)

lemma yield_event_order:
  assumes "order_inv sdk su" and "running (su_pc su)" and "su_lastYieldedSeq su < k"
    and "replay_ok (su_from su) k pc"
  shows "order_inv sdk (yield_event sdk keep k ev pc su)"
proof -
  have "\<forall>x\<in>set (su_yielded su). fst x < k \<and> not_terminal sdk x"
    using assms by (force simp: order_inv_def)
  moreover have "su_from su < k" using assms by (simp add: order_inv_def)
  ultimately show ?thesis
    using assms by (auto simp: order_inv_def yield_event_def Let_def sorted_wrt_append not_terminal_def less_imp_le)
qed

lemma order_inv_pc:
  "order_inv sdk su \<Longrightarrow> running (su_pc su) \<Longrightarrow>
   (running pc \<longrightarrow> replay_ok (su_from su) (su_lastYieldedSeq su) pc) \<Longrightarrow> order_inv sdk (su\<lparr>su_pc := pc\<rparr>)"
  by (simp add: order_inv_def)

lemma order_inv_closed: "order_inv sdk su \<Longrightarrow> order_inv sdk (su\<lparr>su_pc := SClosed\<rparr>)"
  by (simp add: order_inv_def)

lemma order_inv_irrelevant [simp]:
  "order_inv sdk (su\<lparr>su_handle := h\<rparr>) = order_inv sdk su"
  "order_inv sdk (su\<lparr>su_error := x\<rparr>) = order_inv sdk su"
  by (simp_all add: order_inv_def)

lemma subscription_move_order:
  assumes inv: "order_inv sdk su" and log: "\<forall>db. store = Some db \<longrightarrow> event_log_ok db"
  shows "order_inv sdk (snd (subscription_move sdk store cancelled keep em su))"
proof (cases "su_pc su")
  case SOpen
  with inv have "order_inv sdk (su\<lparr>su_handle := h, su_pc := SList\<rparr>)" for h
    by (intro order_inv_pc) (auto simp: order_inv_def)
  with SOpen show ?thesis by (simp add: subscription_move_def split: prod.splits)
next
  case SList
  have "order_inv sdk (su\<lparr>su_pc := SReplay hist\<rparr>)"
    if "store = Some db" "ListWorkEvents db (su_tenant su) (su_work su) (su_from su) 500 = Inr hist" for db hist
    using inv SList ListWorkEvents_increasing [OF _ that(2)] log that(1)
    by (intro order_inv_pc) (auto simp: order_inv_def)
  moreover have "order_inv sdk (su\<lparr>su_pc := SLive\<rparr>)" "order_inv sdk (su\<lparr>su_error := x, su_pc := SClosing\<rparr>)" for x
    using inv SList by (auto intro: order_inv_pc)
  ultimately show ?thesis
    using SList by (simp add: subscription_move_def split: option.splits sum.splits)
next
  case (SReplay es)
  show ?thesis
  proof (cases es)
    case Nil
    then show ?thesis using inv SReplay by (auto simp: subscription_move_def intro: order_inv_pc)
  next
    case (Cons e fs)
    have "order_inv sdk (yield_event sdk keep (we_Sequence e) ev (SReplay fs) su)" for ev
      using inv SReplay Cons by (intro yield_event_order) (auto simp: order_inv_def)
    moreover have "order_inv sdk (su\<lparr>su_pc := SReplay fs\<rparr>)"
      using inv SReplay Cons by (intro order_inv_pc) (auto simp: order_inv_def)
    ultimately show ?thesis using SReplay Cons by (simp add: subscription_move_def split: option.splits)
  qed
next
  case SLive
  then have "order_inv sdk (su\<lparr>su_pc := SClosing\<rparr>)" using inv by (auto intro: order_inv_pc)
  moreover have "order_inv sdk (yield_event sdk keep k ev SLive su)" if "su_lastYieldedSeq su < k" for k ev
    using inv SLive that by (intro yield_event_order) auto
  ultimately show ?thesis using inv SLive by (simp add: subscription_move_def split: list.splits)
next
  case SClosing
  then show ?thesis using inv order_inv_closed by (auto simp: subscription_move_def)
next
  case SClosed
  then show ?thesis using inv by (simp add: subscription_move_def)
qed

definition stream_inv :: "'e a2a_sdk \<Rightarrow> 'e stream_world \<Rightarrow> bool" where
  "stream_inv sdk w \<longleftrightarrow> order_inv sdk (sw_sub w) \<and> (\<forall>db. sw_store w = Some db \<longrightarrow> event_log_ok db)"

lemma stream_inv_step: "stream_inv sdk w \<Longrightarrow> stream_inv sdk (stream_step sdk w e)"
proof (cases e)
  case (Writes op)
  then show "stream_inv sdk w \<Longrightarrow> ?thesis" by (auto simp: stream_inv_def store_step_log_ok)
next
  case (Resumes cancelled keep)
  then show "stream_inv sdk w \<Longrightarrow> ?thesis"
    using subscription_move_order [of sdk "sw_sub w" "sw_store w" cancelled keep "sw_manager w"]
    by (auto simp: stream_inv_def split: prod.splits)
qed (auto simp: stream_inv_def)

lemma stream_inv_start:
  "(\<forall>db. store = Some db \<longrightarrow> event_log_ok db) \<Longrightarrow> stream_inv sdk (stream_start store t i from)"
  by (simp add: stream_inv_def stream_start_def Subscribe_def order_inv_def)

interpretation stream: component "stream_step sdk" "stream_inv sdk" "\<lambda>_. True"
  "\<lambda>w. \<exists>store t i from. w = stream_start store t i from \<and> (\<forall>db. store = Some db \<longrightarrow> event_log_ok db)" for sdk
proof unfold_locales
  show "stream_inv sdk s"
    if "\<exists>store t i from. s = stream_start store t i from \<and> (\<forall>db. store = Some db \<longrightarrow> event_log_ok db)" for s
    using that by (auto intro: stream_inv_start)
  show "stream_inv sdk (stream_step sdk s e)" if "stream_inv sdk s" for s and e
    using that by (rule stream_inv_step)
qed

lemma stream_from [simp]:
  "su_from (sw_sub (foldl (stream_step sdk) (stream_start store t i from) es)) = from"
proof -
  have "su_from (snd (subscription_move sdk store' c k em su)) = su_from su" for store' c k em su
    by (auto simp: subscription_move_def yield_event_def Let_def split: stream_pc.splits option.splits sum.splits list.splits prod.splits)
  then have "su_from (sw_sub (stream_step sdk w e)) = su_from (sw_sub w)" for w e
    by (cases e) (auto split: prod.splits, metis snd_conv)
  then have "su_from (sw_sub (foldl (stream_step sdk) w es)) = su_from (sw_sub w)" for w
    by (induction es arbitrary: w) simp_all
  then show ?thesis by (simp add: stream_start_def Subscribe_def)
qed

section \<open>What a subscriber receives\<close>

text \<open>
  Over a history from state \<open>w\<close>: the events that were published for the subscription's record
  while it was registered and its channel held fewer than 64 items; the page of durable events that
  it read from the store; and of a list of numbered events those that each exceed all before.
\<close>

fun listening :: "stream_pc \<Rightarrow> bool" where
  "listening SList = True"
| "listening (SReplay es) = True"
| "listening SLive = True"
| "listening _ = False"

fun heard :: "'e a2a_sdk \<Rightarrow> 'e stream_world \<Rightarrow> 'e stream_event list \<Rightarrow> (nat \<times> 'e) list" where
  "heard sdk w [] = []"
| "heard sdk w (x # es) =
     (case x of
        Publishes t i ev k \<Rightarrow>
          let su = sw_sub w in
          if channelKey t i = channelKey (su_tenant su) (su_work su) \<and> listening (su_pc su) \<and>
             length (channel_buffer (sw_manager w) (su_tenant su) (su_work su) (su_handle su)) < 64
          then [(k, ev)] else []
      | _ \<Rightarrow> []) @ heard sdk (stream_step sdk w x) es"

fun replayed :: "'e a2a_sdk \<Rightarrow> 'e stream_world \<Rightarrow> 'e stream_event list \<Rightarrow> work_event list" where
  "replayed sdk w [] = []"
| "replayed sdk w (x # es) =
     (case (x, su_pc (sw_sub w), sw_store w) of
        (Resumes c k, SList, Some db) \<Rightarrow>
          (case ListWorkEvents db (su_tenant (sw_sub w)) (su_work (sw_sub w)) (su_from (sw_sub w)) 500 of
             Inl _ \<Rightarrow> [] | Inr hist \<Rightarrow> hist)
      | _ \<Rightarrow> []) @ replayed sdk (stream_step sdk w x) es"

fun rises :: "nat \<Rightarrow> (nat \<times> 'e) list \<Rightarrow> (nat \<times> 'e) list" where
  "rises m [] = []"
| "rises m ((k, ev) # xs) = (if m < k then (k, ev) # rises k xs else rises m xs)"

definition replay_event :: "'e a2a_sdk \<Rightarrow> work_event \<Rightarrow> nat \<times> 'e" where
  "replay_event sdk e = (we_Sequence e, the (mapWorkEventToA2AEvent sdk (Some e)))"

text \<open>The channel under a handle, and what each operation of the manager makes of it.\<close>

definition own :: "'e event_manager \<Rightarrow> string \<Rightarrow> string \<Rightarrow> nat \<Rightarrow> 'e event_item list option" where
  "own em t i h = map_of (subscribers em (channelKey t i)) h"

lemma channel_buffer_own: "channel_buffer em t i h = (case own em t i h of None \<Rightarrow> [] | Some buf \<Rightarrow> buf)"
  by (simp add: channel_buffer_def own_def)

lemma subscribers_set_subscribers [simp]:
  "subscribers (set_subscribers key subs em) key' = (if key = key' then subs else subscribers em key')"
  by (simp add: subscribers_def set_subscribers_def)

lemma subscribers_em_made [simp]: "subscribers (em\<lparr>em_made := n\<rparr>) key = subscribers em key"
  by (simp add: subscribers_def)

lemma em_made_set_subscribers [simp]: "em_made (set_subscribers key subs em) = em_made em"
  by (simp add: set_subscribers_def)

lemma map_of_offer:
  "map_of (map (\<lambda>(h, buf). (h, f buf)) subs) h = map_option f (map_of subs h)"
  by (induction subs) auto

lemma own_Publish [simp]:
  "own (Publish em t' i' ev k) t i h =
    (if channelKey t' i' = channelKey t i
     then map_option (offer \<lparr>it_sequence = k, it_event = ev\<rparr>) (own em t i h) else own em t i h)"
  by (auto simp: own_def Publish_def map_of_offer subscribers_def set_subscribers_def split: option.splits)

lemma own_add_subscriber [simp]:
  "own (snd (add_subscriber em t' i')) t i h =
    (if channelKey t' i' = channelKey t i \<and> h = em_made em then Some [] else own em t i h)"
  by (auto simp: own_def add_subscriber_def getOrCreateChannel_def Let_def subscribers_def set_subscribers_def
      split: option.splits)

lemma own_set_buffer [simp]:
  "own (set_buffer em t' i' h' buf) t i h =
    (if channelKey t' i' = channelKey t i \<and> h = h' then Some buf else own em t i h)"
  by (simp add: own_def set_buffer_def Let_def)

lemma own_remove_subscriber [simp]:
  "own (remove_subscriber em t' i' h') t i h =
    (if channelKey t' i' = channelKey t i \<and> h = h' then None else own em t i h)"
  by (simp add: own_def remove_subscriber_def Let_def)

lemma em_made_simps [simp]:
  "em_made (Publish em t i ev k) = em_made em" "em_made (set_buffer em t i h buf) = em_made em"
  "em_made (remove_subscriber em t i h) = em_made em" "em_made (snd (add_subscriber em t i)) = Suc (em_made em)"
  "fst (add_subscriber em t i) = em_made em"
  by (simp_all add: Publish_def set_buffer_def remove_subscriber_def add_subscriber_def Let_def split: option.splits)

lemma channelKey_default [simp]: "channelKey (tenant_or_default t) i = channelKey t i"
  by (simp add: channelKey_def tenant_or_default_def)

lemma own_default [simp]: "own em (tenant_or_default t) i h = own em t i h"
  by (simp add: own_def)

abbreviation items :: "'e event_item list \<Rightarrow> (nat \<times> 'e) list" where
  "items buf \<equiv> map (\<lambda>it. (it_sequence it, it_event it)) buf"

lemma heard_snoc: "heard sdk w (es @ [x]) = heard sdk w es @ heard sdk (foldl (stream_step sdk) w es) [x]"
  by (induction es arbitrary: w) simp_all

lemma replayed_snoc: "replayed sdk w (es @ [x]) = replayed sdk w es @ replayed sdk (foldl (stream_step sdk) w es) [x]"
  by (induction es arbitrary: w) simp_all

lemma rises_snoc:
  "rises m (xs @ [(k, ev)]) = rises m xs @ (if last (m # map fst (rises m xs)) < k then [(k, ev)] else [])"
  by (induction m xs rule: rises.induct) auto

lemma last_append_fst: "last (m # map fst (xs @ ys)) = last (last (m # map fst xs) # map fst ys)"
  by (induction xs arbitrary: m) auto

lemma map_replay_fst [simp]: "map fst (map (replay_event sdk) es) = map we_Sequence es"
  by (simp add: replay_event_def)

lemma replay_event_Some: "mapWorkEventToA2AEvent sdk (Some e) = Some ev \<longleftrightarrow> replay_event sdk e = (we_Sequence e, ev)"
  by (auto simp: replay_event_def mapWorkEventToA2AEvent_def Let_def)

text \<open>How far a subscription is: \<open>H\<close> was heard and \<open>R\<close> read so far.\<close>

definition content ::
  "'e a2a_sdk \<Rightarrow> string \<Rightarrow> string \<Rightarrow> nat \<Rightarrow> (nat \<times> 'e) list \<Rightarrow> work_event list \<Rightarrow> 'e event_manager \<Rightarrow> 'e subscription \<Rightarrow> bool" where
  "content sdk t i from H R em su \<longleftrightarrow>
     (case su_pc su of
        SOpen \<Rightarrow> H = [] \<and> R = [] \<and> su_yielded su = [] \<and> su_lastYieldedSeq su = from
      | SList \<Rightarrow> R = [] \<and> su_yielded su = [] \<and> su_lastYieldedSeq su = from \<and> su_handle su < em_made em \<and>
          (\<exists>buf. own em t i (su_handle su) = Some buf \<and> H = items buf)
      | SReplay es \<Rightarrow> su_handle su < em_made em \<and> (\<exists>buf. own em t i (su_handle su) = Some buf \<and> H = items buf) \<and>
          su_yielded su @ map (replay_event sdk) es = map (replay_event sdk) R \<and>
          su_lastYieldedSeq su = last (from # map fst (su_yielded su))
      | SLive \<Rightarrow> su_handle su < em_made em \<and>
          (\<exists>buf taken. own em t i (su_handle su) = Some buf \<and> H = taken @ items buf \<and>
             su_yielded su = map (replay_event sdk) R @ rises (last (from # map we_Sequence R)) taken) \<and>
          su_lastYieldedSeq su = last (from # map fst (su_yielded su))
      | _ \<Rightarrow> True)"

definition content_inv ::
  "'e a2a_sdk \<Rightarrow> string \<Rightarrow> string \<Rightarrow> nat \<Rightarrow> (nat \<times> 'e) list \<Rightarrow> work_event list \<Rightarrow> 'e stream_world \<Rightarrow> bool" where
  "content_inv sdk t i from H R w \<longleftrightarrow>
     su_tenant (sw_sub w) = tenant_or_default t \<and> su_work (sw_sub w) = i \<and> su_from (sw_sub w) = from \<and>
     content sdk t i from H R (sw_manager w) (sw_sub w)"

lemma content_channel:
  assumes "content sdk t i from H R em su" and "em_made em \<le> em_made em'"
    and "\<And>buf. listening (su_pc su) \<Longrightarrow> own em t i (su_handle su) = Some buf \<Longrightarrow>
      \<exists>new. own em' t i (su_handle su) = Some (buf @ new) \<and> H' = H @ items new"
    and "\<not> listening (su_pc su) \<Longrightarrow> H' = H"
  shows "content sdk t i from H' R em' su"
proof (cases "su_pc su")
  case SList
  then obtain buf where buf: "own em t i (su_handle su) = Some buf" "H = items buf" using assms(1) by (auto simp: content_def)
  with assms(3) [OF _ buf(1)] obtain new where "own em' t i (su_handle su) = Some (buf @ new)" "H' = items (buf @ new)" using SList by auto
  then show ?thesis using assms(1,2) SList by (auto simp: content_def)
next
  case (SReplay es)
  then obtain buf where buf: "own em t i (su_handle su) = Some buf" "H = items buf" using assms(1) by (auto simp: content_def)
  with assms(3) [OF _ buf(1)] obtain new where "own em' t i (su_handle su) = Some (buf @ new)" "H' = items (buf @ new)" using SReplay by auto
  then show ?thesis using assms(1,2) SReplay by (auto simp: content_def)
next
  case SLive
  then obtain buf taken where buf: "own em t i (su_handle su) = Some buf" "H = taken @ items buf"
      "su_yielded su = map (replay_event sdk) R @ rises (last (from # map we_Sequence R)) taken" using assms(1) by (auto simp: content_def)
  with assms(3) [OF _ buf(1)] obtain new where "own em' t i (su_handle su) = Some (buf @ new)" "H' = taken @ items (buf @ new)"
    using SLive by auto
  then show ?thesis using assms(1,2) SLive buf(3) by (auto simp: content_def)
qed (use assms in \<open>simp_all add: content_def\<close>)

lemma content_publish:
  assumes "content_inv sdk t i from H R w"
  shows "content_inv sdk t i from (H @ heard sdk w [Publishes t' i' ev k]) R (stream_step sdk w (Publishes t' i' ev k))"
proof -
  let ?su = "sw_sub w" and ?em = "sw_manager w" and ?H = "H @ heard sdk w [Publishes t' i' ev k]"
  have su: "su_tenant ?su = tenant_or_default t" "su_work ?su = i" using assms by (simp_all add: content_inv_def)
  have "content sdk t i from ?H R (Publish ?em t' i' ev k) ?su"
  proof (rule content_channel)
    show "content sdk t i from H R ?em ?su" using assms by (simp add: content_inv_def)
    fix buf assume "listening (su_pc ?su)" "own ?em t i (su_handle ?su) = Some buf"
    then show "\<exists>new. own (Publish ?em t' i' ev k) t i (su_handle ?su) = Some (buf @ new) \<and> ?H = H @ items new"
      by (cases "channelKey t' i' = channelKey t i \<and> length buf < 64")
        (auto simp: su channel_buffer_own offer_def channel_capacity_def)
  qed simp_all
  then show ?thesis using assms by (simp add: content_inv_def)
qed

lemma content_elsewhere:
  assumes "content_inv sdk t i from H R w" and "\<forall>c k. x \<noteq> Resumes c k" and "\<forall>t' i' ev k. x \<noteq> Publishes t' i' ev k"
  shows "content_inv sdk t i from H R (stream_step sdk w x)"
proof -
  have sub: "sw_sub (stream_step sdk w x) = sw_sub w" using assms(2) by (cases x) auto
  have "content sdk t i from H R (sw_manager (stream_step sdk w x)) (sw_sub w)"
  proof (rule content_channel)
    show c: "content sdk t i from H R (sw_manager w) (sw_sub w)" using assms(1) by (simp add: content_inv_def)
    show "em_made (sw_manager w) \<le> em_made (sw_manager (stream_step sdk w x))" using assms by (cases x) auto
    fix buf assume l: "listening (su_pc (sw_sub w))" and buf: "own (sw_manager w) t i (su_handle (sw_sub w)) = Some buf"
    have "su_pc (sw_sub w) \<notin> {SOpen, SClosed}" using l by auto
    moreover have "su_handle (sw_sub w) < em_made (sw_manager w)" using c l by (cases "su_pc (sw_sub w)") (auto simp: content_def)
    ultimately have "own (sw_manager (stream_step sdk w x)) t i (su_handle (sw_sub w)) = Some buf"
      using assms(2,3) buf by (cases x) (auto simp: foreign_channel_def)
    then show "\<exists>new. own (sw_manager (stream_step sdk w x)) t i (su_handle (sw_sub w)) = Some (buf @ new) \<and> H = H @ items new" by simp
  qed simp
  then show ?thesis using assms(1) by (simp add: content_inv_def sub)
qed

text \<open>One move of the subscription.\<close>

lemma subscription_move_identity [simp]:
  "su_tenant (snd (subscription_move sdk store c k em su)) = su_tenant su"
  "su_work (snd (subscription_move sdk store c k em su)) = su_work su"
  "su_from (snd (subscription_move sdk store c k em su)) = su_from su"
  by (auto simp: subscription_move_def yield_event_def Let_def
      split: stream_pc.splits option.splits sum.splits list.splits prod.splits)

lemma content_replay_step:
  assumes "content sdk t i from H R em su" and "su_pc su = SReplay (e # es)" and "replay_event sdk e = (we_Sequence e, ev)"
  shows "content sdk t i from H R em (yield_event sdk keep (we_Sequence e) ev (SReplay es) su)"
  using assms by (auto simp: content_def yield_event_def Let_def)

lemma content_live_step:
  assumes "content sdk t i from H R em su" and "su_pc su = SLive" and own: "own em t i (su_handle su) = Some (item # rest)"
  shows "content sdk t i from H R (set_buffer em t i (su_handle su) rest)
     (if it_sequence item \<le> su_lastYieldedSeq su then su
      else yield_event sdk keep (it_sequence item) (it_event item) SLive su)"
proof -
  obtain taken where c: "su_handle su < em_made em" "H = taken @ items (item # rest)"
      "su_yielded su = map (replay_event sdk) R @ rises (last (from # map we_Sequence R)) taken"
      "su_lastYieldedSeq su = last (from # map fst (su_yielded su))"
    using assms by (auto simp: content_def)
  let ?taken = "taken @ [(it_sequence item, it_event item)]" and ?m = "last (from # map we_Sequence R)"
  have l: "su_lastYieldedSeq su = last (?m # map fst (rises ?m taken))"
    unfolding c(4) c(3) by (subst last_append_fst) (simp only: map_replay_fst)
  have H: "H = ?taken @ items rest" using c(2) by simp
  have y: "map (replay_event sdk) R @ rises ?m ?taken =
      su_yielded su @ (if su_lastYieldedSeq su < it_sequence item then [(it_sequence item, it_event item)] else [])"
    unfolding rises_snoc l using c(3) by simp
  show ?thesis
  proof (cases "it_sequence item \<le> su_lastYieldedSeq su")
    case True
    then have "su_yielded su = map (replay_event sdk) R @ rises ?m ?taken" using y by simp
    then show ?thesis using True assms(2) c(1,4) H by (auto simp: content_def intro!: exI [of _ ?taken])
  next
    case False
    define ys where "ys = su_yielded su @ [(it_sequence item, it_event item)]"
    have ys: "ys = map (replay_event sdk) R @ rises ?m ?taken" "last (from # map fst ys) = it_sequence item"
      using False y by (simp_all add: ys_def)
    have "content sdk t i from H R (set_buffer em t i (su_handle su) rest)
        (su\<lparr>su_yielded := ys, su_lastYieldedSeq := it_sequence item, su_pc := SLive\<rparr>)"
    proof -
      have "\<exists>buf taken. own (set_buffer em t i (su_handle su) rest) t i (su_handle su) = Some buf \<and> H = taken @ items buf \<and>
          ys = map (replay_event sdk) R @ rises ?m taken"
        using H ys(1) by (intro exI [of _ rest] exI [of _ ?taken]) simp
      then show ?thesis using c(1) ys(2) [symmetric] by (simp add: content_def)
    qed
    then show ?thesis using False
      by (auto simp: yield_event_def Let_def ys_def [symmetric]) (auto simp: content_def)
  qed
qed

lemma content_move:
  assumes inv: "content_inv sdk t i from H R w"
  shows "content_inv sdk t i from H (R @ replayed sdk w [Resumes cancelled keep]) (stream_step sdk w (Resumes cancelled keep))"
proof -
  let ?su = "sw_sub w" and ?em = "sw_manager w" and ?st = "sw_store w"
  let ?R = "R @ replayed sdk w [Resumes cancelled keep]"
  obtain em' su' where mv: "subscription_move sdk ?st cancelled keep ?em ?su = (em', su')" by fastforce
  have c: "content sdk t i from H R ?em ?su" and su: "su_tenant ?su = tenant_or_default t" "su_work ?su = i" "su_from ?su = from"
    using inv by (simp_all add: content_inv_def)
  have ids: "su_tenant su' = su_tenant ?su" "su_work su' = su_work ?su" "su_from su' = su_from ?su"
    using subscription_move_identity [of sdk ?st cancelled keep ?em ?su] by (simp_all add: mv)
  have "content sdk t i from H ?R em' su'"
  proof (cases "su_pc ?su")
    case SOpen
    have "own (snd (add_subscriber ?em (su_tenant ?su) (su_work ?su))) t i (em_made ?em) = Some []" by (simp add: su)
    then show ?thesis using mv c SOpen em_made_simps(4,5) [of ?em "su_tenant ?su" "su_work ?su"]
      by (cases "add_subscriber ?em (su_tenant ?su) (su_work ?su)") (auto simp: content_def subscription_move_def)
  next
    case SList
    show ?thesis
    proof (cases ?st)
      case None
      then show ?thesis using mv c SList by (auto simp: content_def subscription_move_def)
    next
      case (Some db)
      then show ?thesis using mv c SList
        by (cases "ListWorkEvents db (su_tenant ?su) (su_work ?su) (su_from ?su) 500") (auto simp: content_def subscription_move_def)
    qed
  next
    case (SReplay es)
    then have R: "?R = R" by simp
    show ?thesis
    proof (cases es)
      case Nil
      then show ?thesis using mv c SReplay R by (auto simp: content_def subscription_move_def)
    next
      case (Cons e fs)
      obtain ev where ev: "mapWorkEventToA2AEvent sdk (Some e) = Some ev"
        by (cases "mapWorkEventToA2AEvent sdk (Some e)") (simp_all add: mapWorkEventToA2AEvent_def Let_def)
      then have "su' = yield_event sdk keep (we_Sequence e) ev (SReplay fs) ?su" "em' = ?em"
        using mv SReplay Cons by (simp_all add: subscription_move_def)
      then show ?thesis using content_replay_step [OF c] SReplay Cons ev replay_event_Some [of sdk e ev] R by simp
    qed
  next
    case SLive
    then have R: "?R = R" by simp
    obtain buf where own: "own ?em t i (su_handle ?su) = Some buf" using c SLive by (auto simp: content_def)
    have buf: "channel_buffer ?em (su_tenant ?su) (su_work ?su) (su_handle ?su) = buf" by (simp add: channel_buffer_own su own)
    have same: "set_buffer ?em (su_tenant ?su) (su_work ?su) h b = set_buffer ?em t i h b" for h b by (simp add: set_buffer_def su)
    show ?thesis
    proof (cases "cancelled \<or> buf = []")
      case True
      then show ?thesis using mv c SLive buf R by (cases cancelled) (auto simp: content_def subscription_move_def)
    next
      case False
      then obtain item rest where ir: "buf = item # rest" by (cases buf) auto
      then have "em' = set_buffer ?em t i (su_handle ?su) rest" "su' = (if it_sequence item \<le> su_lastYieldedSeq ?su then ?su
          else yield_event sdk keep (it_sequence item) (it_event item) SLive ?su)"
        using mv SLive False buf same by (simp_all add: subscription_move_def)
      then show ?thesis using content_live_step [OF c SLive own [unfolded ir]] R by simp
    qed
  qed (use mv c in \<open>auto simp: content_def subscription_move_def\<close>)
  then show ?thesis using mv ids su by (simp add: content_inv_def)
qed

lemma content_step:
  assumes "content_inv sdk t i from H R w"
  shows "content_inv sdk t i from (H @ heard sdk w [x]) (R @ replayed sdk w [x]) (stream_step sdk w x)"
proof (cases x)
  case (Publishes t' i' ev k)
  then show ?thesis using content_publish [OF assms, of t' i' ev k] by simp
next
  case (Resumes c k)
  then show ?thesis using content_move [OF assms, of c k] by simp
qed (use content_elsewhere [OF assms, of x] in simp_all)

lemma content_history:
  "content_inv sdk t i from (heard sdk (stream_start store t i from) es) (replayed sdk (stream_start store t i from) es)
     (foldl (stream_step sdk) (stream_start store t i from) es)"
proof (induction es rule: rev_induct)
  case Nil
  show ?case by (simp add: content_inv_def content_def stream_start_def Subscribe_def)
next
  case (snoc x es)
  from content_step [OF snoc, of x] show ?case by (simp only: heard_snoc replayed_snoc foldl_append foldl.simps)
qed

section \<open>Properties\<close>

text \<open>C11: a stream is in order. However publishers, writers, other subscribers and the consumer
  interleave with a subscription, the sequence numbers it yields strictly increase and are greater
  than the one it was opened with, and only its last event can be a terminal one.\<close>

theorem stream_in_order:
  assumes "\<forall>db. store = Some db \<longrightarrow> event_log_ok db"
    and "su = sw_sub (foldl (stream_step sdk) (stream_start store t i from) es)"
  shows "sorted_wrt (<) (map fst (su_yielded su)) \<and> (\<forall>x\<in>set (su_yielded su). from < fst x) \<and>
    (\<forall>x\<in>set (butlast (su_yielded su)). \<not> isTerminalEvent sdk (Some (snd x)))"
proof -
  have "stream_inv sdk (foldl (stream_step sdk) (stream_start store t i from) es)"
    by (rule stream.invar_history) (use assms(1) in auto)
  then show ?thesis by (simp add: assms(2) stream_inv_def order_inv_def not_terminal_def)
qed

text \<open>C5: What a live subscription has delivered, exactly, whatever producers, other subscribers and
  writers of the store do, and whether or not what is appended is also published: first the durable
  events that it read, in the order read (the store is asked for at most 500 after the requested
  number); then, in the order they were published, the events published for its record while it
  was registered and its channel held fewer than 64 items, each unless its number is not greater
  than every number delivered before it; the ones it has not delivered yet are those in its channel.
  So an event is missing only if it was not in the page read and was never published while the
  subscription was registered, or was published when the channel was full, or under a number that
  had been reached.\<close>

theorem stream_delivers:
  assumes "w = foldl (stream_step sdk) (stream_start store t i from) es" and "su_pc (sw_sub w) = SLive"
  shows "\<exists>taken. heard sdk (stream_start store t i from) es =
      taken @ map (\<lambda>it. (it_sequence it, it_event it)) (channel_buffer (sw_manager w) t i (su_handle (sw_sub w))) \<and>
    su_yielded (sw_sub w) = map (replay_event sdk) (replayed sdk (stream_start store t i from) es) @
      rises (last (from # map we_Sequence (replayed sdk (stream_start store t i from) es))) taken"
proof -
  have "content_inv sdk t i from (heard sdk (stream_start store t i from) es) (replayed sdk (stream_start store t i from) es) w"
    unfolding assms(1) by (rule content_history)
  then show ?thesis using assms(2) by (auto simp: content_inv_def content_def channel_buffer_own)
qed

text \<open>A sample SDK, whose events are just their states, and a subscription that overlaps with a producer: the
  first event is appended, replayed and published, the second appended and not published, the
  third only published.\<close>

definition sample_sdk :: "task_state option a2a_sdk" where
  "sample_sdk =
     \<lparr>NewStatusUpdateEvent = \<lambda>_ s _. Some s, NewArtifactUpdateEvent = \<lambda>_ _ _. None,
      NewArtifactEvent = \<lambda>_ _. None, NewMessageForTask = \<lambda>_ _. None, event_status = \<lambda>e. e\<rparr>"

definition sample_event :: "string \<Rightarrow> string \<Rightarrow> work_event" where
  "sample_event i ty =
     \<lparr>we_TenantID = [], we_EventID = i, we_WorkID = ''w1'', we_Sequence = 1, we_TraceID = [],
      we_RootTraceID = [], we_SpanID = [], we_ParentSpanID = [], we_EventType = ty, we_ProviderID = [],
      we_SessionID = [], we_PolicyDecision = [], we_RetryCount = 0, we_TerminalReason = [], we_Metadata = [],
      we_CreatedAt = 0\<rparr>"

definition follower_history :: "task_state option stream_event list" where
  "follower_history =
     [Resumes False True, Writes (OpAppendEvent 7 (sample_event ''e1'' ''SUBMITTED'')), Resumes False True,
      Publishes [] ''w1'' (Some TaskStateSubmitted) 1, Resumes False True, Resumes False True,
      Writes (OpAppendEvent 8 ((sample_event ''e2'' ''WORKING'')\<lparr>we_Sequence := 2\<rparr>)), Resumes False True,
      Publishes [] ''w1'' (Some TaskStateWorking) 3, Resumes False True]"

definition sample_follower :: "task_state option stream_world" where
  "sample_follower = foldl (stream_step sample_sdk) (stream_start (Some sample_tree_db) [] ''w1'' 0) follower_history"

theorem stream_delivers_witness:
  "map fst (su_yielded (sw_sub sample_follower)) = [1, 3] \<and>
   map fst (heard sample_sdk (stream_start (Some sample_tree_db) [] ''w1'' 0) follower_history) = [1, 3] \<and>
   (\<exists>taken :: (nat \<times> task_state option) list. map fst (su_yielded (sw_sub sample_follower)) = 1 # map fst (rises 1 taken))"
proof (intro conjI)
  show "map fst (su_yielded (sw_sub sample_follower)) = [1, 3]" by code_simp
  show "map fst (heard sample_sdk (stream_start (Some sample_tree_db) [] ''w1'' 0) follower_history) = [1, 3]" by code_simp
  have r: "map we_Sequence (replayed sample_sdk (stream_start (Some sample_tree_db) [] ''w1'' 0) follower_history) = [1]" by code_simp
  have "su_pc (sw_sub sample_follower) = SLive" by code_simp
  from stream_delivers [OF sample_follower_def this] obtain taken where
    "su_yielded (sw_sub sample_follower) =
      map (replay_event sample_sdk) (replayed sample_sdk (stream_start (Some sample_tree_db) [] ''w1'' 0) follower_history) @ rises 1 taken"
    unfolding r by auto
  then have "map fst (su_yielded (sw_sub sample_follower)) = 1 # map fst (rises 1 taken)"
    by (simp only: map_append map_replay_fst r append.simps)
  then show "\<exists>taken :: (nat \<times> task_state option) list. map fst (su_yielded (sw_sub sample_follower)) = 1 # map fst (rises 1 taken)" by (rule exI)
qed

definition sample_stream :: "task_state option subscription" where
  "sample_stream = sw_sub (foldl (stream_step sample_sdk) (stream_start None [] ''w1'' 1)
     [Resumes False True, Resumes False True, Publishes ''default'' ''w1'' (Some TaskStateCanceled) 0,
      Publishes [] ''w1'' (Some TaskStateWorking) 3, Publishes [] ''w1'' (Some TaskStateWorking) 2,
      Publishes [] ''w1'' (Some TaskStateCompleted) 4, Publishes [] ''w1'' (Some TaskStateWorking) 5,
      Resumes False True, Resumes False True, Resumes False True, Resumes False True, Resumes False True])"

theorem stream_in_order_witness:
  "su_yielded sample_stream = [(3, Some TaskStateWorking), (4, Some TaskStateCompleted)] \<and>
   sorted_wrt (<) (map fst (su_yielded sample_stream)) \<and> 1 < fst (hd (su_yielded sample_stream)) \<and>
   \<not> isTerminalEvent sample_sdk (Some (snd (hd (su_yielded sample_stream))))"
proof -
  have "su_yielded sample_stream = [(3, Some TaskStateWorking), (4, Some TaskStateCompleted)]" by code_simp
  then show ?thesis using stream_in_order [OF _ sample_stream_def] by simp
qed

text \<open>What a subscriber is told of a state that the task store wrote. The durable event of a
  task in state \<open>s\<close> has the type \<open>mapTaskStateToDurableState s\<close>; replayed, it is a status event
  with the state \<open>s\<close> for all states but those that need input or authentication, which it shows as
  working (and the unnamed ones, which were written as submitted).\<close>

theorem replayed_state:
  assumes "sdk_status_law sdk" and "we_EventType e = mapTaskStateToDurableState s"
  shows "map_option (event_status sdk) (mapWorkEventToA2AEvent sdk (Some e)) = Some (Some
    (if s = TaskStateInputRequired \<or> s = TaskStateAuthRequired then TaskStateWorking
     else if s = TaskStateUnspecified \<or> (\<exists>x. s = OtherTaskState x) then TaskStateSubmitted else s))"
  using assms by (cases s) (simp_all add: sdk_status_law_def mapWorkEventToA2AEvent_def Let_def mapDurableStateToTaskState_def)

theorem replayed_state_witness:
  "map_option (event_status sample_sdk) (mapWorkEventToA2AEvent sample_sdk
     (Some (sample_event ''e1'' (mapTaskStateToDurableState TaskStateAuthRequired)))) = Some (Some TaskStateWorking)"
  using replayed_state [of sample_sdk "sample_event ''e1'' (mapTaskStateToDurableState TaskStateAuthRequired)" TaskStateAuthRequired]
  by (simp add: sdk_status_law_def sample_sdk_def sample_event_def)

lemma append_colon_eq:
  "xs @ CHR '':'' # zs = ys @ CHR '':'' # ws \<Longrightarrow> CHR '':'' \<notin> set xs \<Longrightarrow> CHR '':'' \<notin> set ys \<Longrightarrow> xs = ys \<and> zs = ws"
  by (induction xs arbitrary: ys) (auto simp: Cons_eq_append_conv append_eq_Cons_conv)

lemma colon_free_default: "CHR '':'' \<notin> set t \<Longrightarrow> CHR '':'' \<notin> set (tenant_or_default t)"
  by (simp add: tenant_or_default_def)

lemma NewEventManager_made [simp]: "em_made NewEventManager = 0"
  by (simp add: NewEventManager_def)

text \<open>A channel belongs to one work record as long as tenant ids have no colon: then two
  records share a key only if they are the same, and publishing for one leaves every channel of
  the other as it is. A colon in a tenant id breaks this: tenant \<open>t\<close> and tenant \<open>t:u\<close> have records
  that share a key, and what is published for the one is put into the channels of the other.\<close>

theorem channelKey_separates:
  "(CHR '':'' \<notin> set t \<and> CHR '':'' \<notin> set t' \<and> (tenant_or_default t, i) \<noteq> (tenant_or_default t', i') \<longrightarrow>
     channel_buffer (Publish em t i ev k) t' i' h = channel_buffer em t' i' h) \<and>
   (t \<noteq> [] \<and> own em (t @ '':'' @ u) i h = Some [] \<longrightarrow>
     channel_buffer (Publish em t (u @ '':'' @ i) ev k) (t @ '':'' @ u) i h = [\<lparr>it_sequence = k, it_event = ev\<rparr>])"
  (is "?separate \<and> ?leak")
proof
  have "channelKey t i = channelKey t' i' \<longrightarrow> tenant_or_default t = tenant_or_default t' \<and> i = i'"
    if "CHR '':'' \<notin> set t" "CHR '':'' \<notin> set t'"
    using append_colon_eq [of "tenant_or_default t" i "tenant_or_default t'" i'] that
    by (simp add: channelKey_def colon_free_default)
  then show ?separate by (auto simp: channel_buffer_own)
  show ?leak by (simp add: channel_buffer_own channelKey_def tenant_or_default_def offer_def channel_capacity_def)
qed

theorem channelKey_separates_witness:
  "channel_buffer (Publish (snd (add_subscriber NewEventManager ''t:u'' ''w'')) ''t'' ''u:w'' True 1) ''t:u'' ''w'' 0
     = [\<lparr>it_sequence = 1, it_event = True\<rparr>] \<and>
   channel_buffer (Publish (snd (add_subscriber NewEventManager ''t'' ''w'')) [] ''w'' True 1) ''t'' ''w'' 0
     = channel_buffer (snd (add_subscriber NewEventManager ''t'' ''w'')) ''t'' ''w'' 0"
proof
  have "own (snd (add_subscriber NewEventManager ''t:u'' ''w'')) (''t'' @ '':'' @ ''u'') ''w'' 0 = Some []" by simp
  then show "channel_buffer (Publish (snd (add_subscriber NewEventManager ''t:u'' ''w'')) ''t'' ''u:w'' True 1) ''t:u'' ''w'' 0
     = [\<lparr>it_sequence = 1, it_event = True\<rparr>]"
    using channelKey_separates [THEN conjunct2, rule_format, of "''t''" "snd (add_subscriber NewEventManager ''t:u'' ''w'')" "''u''" "''w''" 0 True 1]
    by simp
  show "channel_buffer (Publish (snd (add_subscriber NewEventManager ''t'' ''w'')) [] ''w'' True 1) ''t'' ''w'' 0
     = channel_buffer (snd (add_subscriber NewEventManager ''t'' ''w'')) ''t'' ''w'' 0"
    by (rule channelKey_separates [THEN conjunct1, rule_format]) (simp add: tenant_or_default_def)
qed

end
