(* ===== verification/Page_Token.thy ===== *)
theory Page_Token
  imports Prelude
begin

text \<open>
  The page tokens of \<open>List\<close> in \<open>backend/a2a/store.go\<close>: the decimal offset of the next page in
  standard base64. The encodings are those of the Go library that the code calls: padded base64,
  whose decoder skips line breaks and does not look at the spare bits of the last digit, and the
  decimal notation of \<open>strconv\<close>, which reads a sign and rejects what does not fit 64 bits.

  Shown here: a token that was written for an offset is read as that offset.
\<close>

section \<open>Base64\<close>

definition b64_digit :: "nat \<Rightarrow> char" where
  "b64_digit n =
     (if n < 26 then char_of (65 + n) else if n < 52 then char_of (71 + n)
      else if n < 62 then char_of (n - 4) else if n = 62 then CHR ''+'' else CHR ''/'')"

definition b64_value :: "char \<Rightarrow> nat option" where
  "b64_value c =
     (let n = of_char c :: nat in
      if 65 \<le> n \<and> n \<le> 90 then Some (n - 65)
      else if 97 \<le> n \<and> n \<le> 122 then Some (n - 71)
      else if 48 \<le> n \<and> n \<le> 57 then Some (n + 4)
      else if n = 43 then Some 62
      else if n = 47 then Some 63
      else None)"

abbreviation byte :: "char \<Rightarrow> nat" where
  "byte c \<equiv> of_char c"

fun EncodeToString :: "string \<Rightarrow> string" where
  "EncodeToString [] = []"
| "EncodeToString [a] =
     [b64_digit (byte a div 4), b64_digit (byte a mod 4 * 16), CHR ''='', CHR ''='']"
| "EncodeToString [a, b] =
     [b64_digit (byte a div 4), b64_digit (byte a mod 4 * 16 + byte b div 16),
      b64_digit (byte b mod 16 * 4), CHR ''='']"
| "EncodeToString (a # b # c # s) =
     b64_digit (byte a div 4) # b64_digit (byte a mod 4 * 16 + byte b div 16) #
     b64_digit (byte b mod 16 * 4 + byte c div 64) # b64_digit (byte c mod 64) # EncodeToString s"

fun decode_quanta :: "string \<Rightarrow> string option" where
  "decode_quanta [] = Some []"
| "decode_quanta (a # b # c # d # s) =
     (case (b64_value a, b64_value b) of
        (Some w, Some x) \<Rightarrow>
          (if c = CHR ''='' then
             (if d = CHR ''='' \<and> s = [] then Some [char_of (w * 4 + x div 16)] else None)
           else case b64_value c of
             None \<Rightarrow> None
           | Some y \<Rightarrow>
               (if d = CHR ''='' then
                  (if s = [] then Some [char_of (w * 4 + x div 16), char_of (x mod 16 * 16 + y div 4)] else None)
                else case (b64_value d, decode_quanta s) of
                  (Some z, Some r) \<Rightarrow>
                    Some (char_of (w * 4 + x div 16) # char_of (x mod 16 * 16 + y div 4) #
                          char_of (y mod 4 * 64 + z) # r)
                | _ \<Rightarrow> None))
      | _ \<Rightarrow> None)"
| "decode_quanta _ = None"

definition DecodeString :: "string \<Rightarrow> string option" where
  "DecodeString s = decode_quanta (filter (\<lambda>c. c \<noteq> CHR 0x0D \<and> c \<noteq> CHR 0x0A) s)"

lemma b64_value_digit: "n < 64 \<Longrightarrow> b64_value (b64_digit n) = Some n"
  by (auto simp: b64_value_def b64_digit_def Let_def)

lemma b64_digit_special:
  "n < 64 \<Longrightarrow> b64_digit n \<noteq> CHR ''='' \<and> b64_digit n \<noteq> CHR 0x0D \<and> b64_digit n \<noteq> CHR 0x0A"
proof -
  assume "n < 64"
  then have "b64_value (b64_digit n) \<noteq> None" by (simp add: b64_value_digit)
  then show ?thesis by (auto simp: b64_value_def)
qed

lemma byte_bounds [simp]: "byte c < 256" "byte c div 4 < 64" "byte c div 16 < 16" "byte c div 64 < 4"
  using of_char_mod_256 [of c] by (auto intro: less_mult_imp_div_less)

lemma byte_parts:
  "byte a div 4 < 64" "byte a mod 4 * 16 + byte b div 16 < 64" "byte a mod 4 * 16 < 64"
  "byte b mod 16 * 4 + byte c div 64 < 64" "byte b mod 16 * 4 < 64" "byte c mod 64 < 64"
proof -
  have "byte a mod 4 < 4" "byte b mod 16 < 16" "byte b div 16 < 16" "byte c div 64 < 4" by simp_all
  then show "byte a mod 4 * 16 + byte b div 16 < 64" "byte a mod 4 * 16 < 64"
    "byte b mod 16 * 4 + byte c div 64 < 64" "byte b mod 16 * 4 < 64" by linarith+
qed simp_all

lemma byte_join:
  "char_of (byte a div 4 * 4 + (byte a mod 4 * 16 + byte b div 16) div 16) = a"
  "char_of (byte a div 4 * 4 + byte a mod 4 * 16 div 16) = a"
  "char_of ((byte a mod 4 * 16 + byte b div 16) mod 16 * 16 + (byte b mod 16 * 4 + byte c div 64) div 4) = b"
  "char_of ((byte a mod 4 * 16 + byte b div 16) mod 16 * 16 + byte b mod 16 * 4 div 4) = b"
  "char_of ((byte b mod 16 * 4 + byte c div 64) mod 4 * 64 + byte c mod 64) = c"
proof -
  have m: "byte b div 16 < 16" "byte c div 64 < 4" by simp_all
  show "char_of (byte a div 4 * 4 + (byte a mod 4 * 16 + byte b div 16) div 16) = a"
    "char_of (byte a div 4 * 4 + byte a mod 4 * 16 div 16) = a"
    using m(1) by (simp_all add: div_mult_self4)
  have "(byte a mod 4 * 16 + byte b div 16) mod 16 = byte b div 16" using m(1) by simp
  moreover have "(byte b mod 16 * 4 + byte c div 64) div 4 = byte b mod 16" using m(2) by simp
  ultimately show "char_of ((byte a mod 4 * 16 + byte b div 16) mod 16 * 16 + (byte b mod 16 * 4 + byte c div 64) div 4) = b"
    "char_of ((byte a mod 4 * 16 + byte b div 16) mod 16 * 16 + byte b mod 16 * 4 div 4) = b" by simp_all
  have "(byte b mod 16 * 4 + byte c div 64) mod 4 = byte c div 64" using m(2) by simp
  then show "char_of ((byte b mod 16 * 4 + byte c div 64) mod 4 * 64 + byte c mod 64) = c" by simp
qed

lemma decode_encode_quanta: "decode_quanta (EncodeToString s) = Some s"
  by (induction s rule: EncodeToString.induct)
    (simp_all add: b64_value_digit byte_parts byte_join b64_digit_special)

lemma EncodeToString_no_breaks:
  "filter (\<lambda>c. c \<noteq> CHR 0x0D \<and> c \<noteq> CHR 0x0A) (EncodeToString s) = EncodeToString s"
  by (induction s rule: EncodeToString.induct) (simp_all add: byte_parts b64_digit_special)

lemma DecodeString_EncodeToString: "DecodeString (EncodeToString s) = Some s"
  by (simp add: DecodeString_def EncodeToString_no_breaks decode_encode_quanta)

section \<open>Decimal numbers\<close>

definition digit_of :: "char \<Rightarrow> nat option" where
  "digit_of c = (if 48 \<le> byte c \<and> byte c \<le> 57 then Some (byte c - 48) else None)"

fun parse_digits :: "nat \<Rightarrow> string \<Rightarrow> nat option" where
  "parse_digits acc [] = Some acc"
| "parse_digits acc (c # s) = (case digit_of c of None \<Rightarrow> None | Some d \<Rightarrow> parse_digits (10 * acc + d) s)"

definition Atoi :: "string \<Rightarrow> int option" where
  "Atoi s =
     (let neg = (s \<noteq> [] \<and> hd s = CHR ''-'');
          ds = (if s \<noteq> [] \<and> (hd s = CHR ''-'' \<or> hd s = CHR ''+'') then tl s else s) in
      if ds = [] then None
      else case parse_digits 0 ds of
        None \<Rightarrow> None
      | Some n \<Rightarrow>
          let i = (if neg then - int n else int n) in if is_i64 i then Some i else None)"

lemma digit_of_char: "d < 10 \<Longrightarrow> digit_of (char_of (48 + d)) = Some d"
  by (simp add: digit_of_def)

lemma parse_digits_append:
  "parse_digits acc (s @ u) = (case parse_digits acc s of None \<Rightarrow> None | Some n \<Rightarrow> parse_digits n u)"
  by (induction s arbitrary: acc) (auto split: option.splits)

lemma parse_show_nat: "parse_digits 0 (show_nat n) = Some n"
proof (induction n rule: show_nat.induct)
  case (1 n)
  show ?case
  proof (cases "n < 10")
    case True
    then show ?thesis by (subst show_nat.simps) (simp add: digit_of_char)
  next
    case False
    with 1 have "parse_digits 0 (show_nat (n div 10)) = Some (n div 10)" by simp
    with False show ?thesis by (subst show_nat.simps) (simp add: parse_digits_append digit_of_char)
  qed
qed

lemma show_nat_digits: "c \<in> set (show_nat n) \<Longrightarrow> 48 \<le> byte c \<and> byte c \<le> 57"
proof (induction n rule: show_nat.induct)
  case (1 n)
  have "n mod 10 < 10" by simp
  then show ?case
    using 1 by (subst (asm) (2) show_nat.simps) (auto split: if_splits)
qed

lemma Atoi_show_nat: "is_i64 (int n) \<Longrightarrow> Atoi (show_nat n) = Some (int n)"
proof -
  assume r: "is_i64 (int n)"
  have "48 \<le> byte (hd (show_nat n))" by (rule show_nat_digits [THEN conjunct1, of _ n]) simp
  then have "hd (show_nat n) \<noteq> CHR ''-''" "hd (show_nat n) \<noteq> CHR ''+''" by auto
  with r show ?thesis by (simp add: Atoi_def Let_def parse_show_nat)
qed

section \<open>Tokens\<close>

definition page_token :: "nat \<Rightarrow> string" where
  "page_token offset = EncodeToString (show_nat offset)"

definition page_offset :: "string \<Rightarrow> nat" where
  "page_offset token =
     (if token = [] then 0
      else case Option.bind (DecodeString token) Atoi of
        None \<Rightarrow> 0
      | Some i \<Rightarrow> if i \<ge> 0 then nat i else 0)"

lemma page_token_nonempty [simp]: "page_token n \<noteq> []"
proof -
  have "s \<noteq> [] \<Longrightarrow> EncodeToString s \<noteq> []" for s by (induction s rule: EncodeToString.induct) auto
  then show ?thesis by (simp add: page_token_def)
qed

lemma page_offset_token: "is_i64 (int n) \<Longrightarrow> page_offset (page_token n) = n"
  using page_token_nonempty [of n]
  by (simp add: page_offset_def DecodeString_EncodeToString Atoi_show_nat page_token_def)

end
