(* ===== verification/Task_Store.thy ===== *)
theory Task_Store
  imports Event_Stream Page_Token Orchestrator
begin

text \<open>
  The task store that the SDK server calls, \<open>DurableTaskStoreAdapter\<close> of
  \<open>backend/a2a/store.go\<close>: \<open>Create\<close>, \<open>Update\<close>, \<open>Get\<close> and \<open>List\<close> over the work tables and the event
  manager. A request's context is a record: its tenant, caller, target agent and idempotency key.
  Fresh identifiers are parameters, and so are the conversions between tasks and the SDK's event
  type. What other clients write between the read and the write of an update is a parameter too.

  Shown here: an update writes the row once and at the version it was asked for, or writes no row;
  who can read a task; a created task is read back; following the page tokens lists every matching
  task exactly once.
\<close>

section \<open>Requests and tasks\<close>

record caller_principal =
  ca_PrincipalID :: string
  ca_IsAuthenticated :: bool
  ca_IsAdmin :: "bool option"

record call_context =
  cx_Tenant :: string
  cx_Caller :: "caller_principal option"
  cx_TargetAgent :: string
  cx_IdempotencyKey :: string

record a2a_task =
  tk_ID :: string
  tk_ContextID :: string
  tk_State :: task_state
  tk_Message :: "a2a_part list option"
  tk_Timestamp :: "instant option"
  tk_Artifacts :: "(string \<times> a2a_part list) list"

record stored_task =
  sk_Task :: a2a_task
  sk_Version :: nat
  sk_User :: string

record 'e update_request =
  ur_Task :: "a2a_task option"
  ur_PrevVersion :: nat
  ur_Event :: "'e option"

datatype task_error =
    ErrTaskRequired
  | ErrTaskAlreadyExists
  | ErrTaskNotFound
  | ErrConcurrentModification
  | ErrTaskStore store_error

record 'e task_store =
  ts_db :: work_db
  ts_events :: "'e event_manager option"

text \<open>The parts of the SDK a store needs: a task as an event, the artifact of an artifact event.\<close>

record 'e task_events =
  te_of_task :: "a2a_task \<Rightarrow> 'e"
  te_artifact :: "'e \<Rightarrow> (string \<times> a2a_part list) option"

fun part_text :: "a2a_part \<Rightarrow> string" where
  "part_text (TextPart s) = s"
| "part_text (FileURLPart _ _) = []"

fun part_url :: "a2a_part \<Rightarrow> string" where
  "part_url (TextPart _) = []"
| "part_url (FileURLPart u _) = u"

fun part_media_type :: "a2a_part \<Rightarrow> string" where
  "part_media_type (TextPart _) = []"
| "part_media_type (FileURLPart _ m) = m"

section \<open>Callers\<close>

definition isAdminCaller :: "caller_principal option \<Rightarrow> bool" where
  "isAdminCaller c = (case c of None \<Rightarrow> False | Some p \<Rightarrow> ca_IsAdmin p = Some True)"

definition isAuthorizedCaller :: "caller_principal option \<Rightarrow> work_message \<Rightarrow> bool" where
  "isAuthorizedCaller c work =
     (case c of
        None \<Rightarrow> False
      | Some p \<Rightarrow> isAdminCaller c \<or>
          ca_PrincipalID p = wm_RequesterAgentID work \<or> ca_PrincipalID p = wm_ExecutorAgentID work)"

definition extractRequesterFromContext :: "call_context \<Rightarrow> a2a_task option \<Rightarrow> string" where
  "extractRequesterFromContext cx task =
     (case cx_Caller cx of
        Some p \<Rightarrow>
          if ca_PrincipalID p \<noteq> [] then ca_PrincipalID p
          else (case task of Some t \<Rightarrow> if tk_ID t \<noteq> [] then ''agent-'' @ tk_ID t else ''anonymous''
                | None \<Rightarrow> ''anonymous'')
      | None \<Rightarrow>
          (case task of Some t \<Rightarrow> if tk_ID t \<noteq> [] then ''agent-'' @ tk_ID t else ''anonymous''
           | None \<Rightarrow> ''anonymous''))"

definition extractExecutorFromContext :: "call_context \<Rightarrow> string" where
  "extractExecutorFromContext cx = (if cx_TargetAgent cx \<noteq> [] then cx_TargetAgent cx else ''default-executor'')"

definition extractIdempotencyKey :: "call_context \<Rightarrow> string \<Rightarrow> a2a_task option \<Rightarrow> string" where
  "extractIdempotencyKey cx uuid task =
     (if cx_IdempotencyKey cx \<noteq> [] then cx_IdempotencyKey cx
      else case task of Some t \<Rightarrow> if tk_ID t \<noteq> [] then tk_ID t else uuid | None \<Rightarrow> uuid)"

section \<open>Create\<close>

record task_uuids =
  tu_work :: string
  tu_context :: string
  tu_key :: string
  tu_event :: string

definition new_work :: "instant \<Rightarrow> string \<Rightarrow> a2a_task \<Rightarrow> string \<Rightarrow> string \<Rightarrow> string \<Rightarrow> string \<Rightarrow> work_message" where
  "new_work now tenant task requester executor state key =
     \<lparr>wm_TenantID = tenant, wm_WorkID = tk_ID task, wm_A2ATaskID = tk_ID task, wm_ContextID = tk_ContextID task,
      wm_RequesterAgentID = requester, wm_ExecutorAgentID = executor, wm_SourceConversationID = None,
      wm_SourceTaskID = None, wm_State = state, wm_TerminalReason = [], wm_IdempotencyKey = key,
      wm_TraceID = [], wm_RootTraceID = [], wm_SpanID = [], wm_ParentSpanID = [], wm_ParentWorkID = None,
      wm_ParentEdgeType = [], wm_DelegationDepth = 0, wm_RetryCount = 0, wm_MaxDepth = 0, wm_MaxChildren = 0,
      wm_MaxFanOut = 0, wm_MaxConcurrency = 0, wm_MaxRuntimeMs = 0, wm_MaxRetries = 0, wm_MaxTokens = 0,
      wm_MaxWorkUnits = 0, wm_UsedChildren = 0, wm_UsedFanOut = 0, wm_UsedRuntimeMs = 0, wm_UsedTokens = 0,
      wm_UsedWorkUnits = 0, wm_CreatedAt = now, wm_UpdatedAt = now, wm_StartedAt = None,
      wm_CompletedAt = None, wm_Version = 1\<rparr>"

definition work_state_event ::
  "string \<Rightarrow> string \<Rightarrow> string \<Rightarrow> nat \<Rightarrow> string \<Rightarrow> string \<Rightarrow> instant \<Rightarrow> (string \<times> string) list \<Rightarrow> work_event" where
  "work_state_event tenant eventID workID sequence eventType reason now metadata =
     \<lparr>we_TenantID = tenant, we_EventID = eventID, we_WorkID = workID, we_Sequence = sequence, we_TraceID = [],
      we_RootTraceID = [], we_SpanID = [], we_ParentSpanID = [], we_EventType = eventType, we_ProviderID = [],
      we_SessionID = [], we_PolicyDecision = [], we_RetryCount = 0, we_TerminalReason = reason,
      we_Metadata = metadata, we_CreatedAt = now\<rparr>"

definition with_ids :: "task_uuids \<Rightarrow> a2a_task \<Rightarrow> a2a_task" where
  "with_ids ids task =
     task\<lparr>tk_ID := (if tk_ID task = [] then tu_work ids else tk_ID task),
          tk_ContextID := (if tk_ContextID task = [] then tu_context ids else tk_ContextID task)\<rparr>"

definition initial_state :: "a2a_task \<Rightarrow> string" where
  "initial_state task =
     (if tk_State task = OtherTaskState [] then ''SUBMITTED'' else mapTaskStateToDurableState (tk_State task))"

definition Create ::
  "'e task_events \<Rightarrow> 'e task_store \<Rightarrow> instant \<Rightarrow> task_uuids \<Rightarrow> call_context \<Rightarrow> a2a_task option \<Rightarrow>
     (task_error + nat) \<times> 'e task_store" where
  "Create sdk s now ids cx task =
     (case task of
        None \<Rightarrow> (Inl ErrTaskRequired, s)
      | Some task0 \<Rightarrow>
          let tenant = tenant_or_default (cx_Tenant cx); t = with_ids ids task0 in
          (case RequireOrganizationActive (ts_db s) tenant of
             Inl e \<Rightarrow> (Inl (ErrTaskStore e), s)
           | Inr _ \<Rightarrow>
          (case EnsureWorkContext (ts_db s) now tenant (tk_ContextID t) (tk_ID t) of
             (Inl e, db1) \<Rightarrow> (Inl (ErrTaskStore e), s\<lparr>ts_db := db1\<rparr>)
           | (Inr _, db1) \<Rightarrow>
               let requester = extractRequesterFromContext cx (Some t);
                   key = extractIdempotencyKey cx (tu_key ids) (Some t);
                   w = new_work now tenant t requester (extractExecutorFromContext cx) (initial_state t) key in
               (case GetWorkByIdempotencyKey db1 tenant requester key of
                  Inr _ \<Rightarrow> (Inl ErrTaskAlreadyExists, s\<lparr>ts_db := db1\<rparr>)
                | Inl _ \<Rightarrow>
                    (case CreateWork db1 now w of
                       (Inl e, db2) \<Rightarrow>
                         (Inl (if e = ErrWorkAlreadyExists then ErrTaskAlreadyExists else ErrTaskStore e), s\<lparr>ts_db := db2\<rparr>)
                     | (Inr _, db2) \<Rightarrow>
                         (Inr 1,
                          s\<lparr>ts_db := snd (AppendWorkEvent db2 now
                                (work_state_event tenant (tu_event ids) (tk_ID t) 1 (initial_state t) [] now
                                   [(''context_id'', tk_ContextID t)])),
                            ts_events := map_option (\<lambda>em. Publish em tenant (tk_ID t) (te_of_task sdk t) 1)
                                           (ts_events s)\<rparr>))))))"

section \<open>Update\<close>

definition terminal_reason :: "a2a_task \<Rightarrow> string" where
  "terminal_reason task =
     (case tk_Message task of
        None \<Rightarrow> []
      | Some parts \<Rightarrow> join_strings '' '' (filter (\<lambda>x. x \<noteq> []) (map part_text parts)))"

definition artifact_of_part :: "work_artifact \<Rightarrow> a2a_part \<Rightarrow> work_artifact" where
  "artifact_of_part a p =
     (if part_url p \<noteq> [] then a\<lparr>wa_ExternalURI := part_url p, wa_MediaType := part_media_type p\<rparr>
      else if part_text p \<noteq> [] then a\<lparr>wa_Description := part_text p\<rparr>
      else a)"

definition event_artifact :: "string \<Rightarrow> string \<Rightarrow> instant \<Rightarrow> string \<times> a2a_part list \<Rightarrow> work_artifact" where
  "event_artifact tenant workID now x =
     foldl artifact_of_part
       \<lparr>wa_TenantID = tenant, wa_WorkID = workID, wa_ArtifactID = fst x, wa_Name = [], wa_Description = [],
        wa_MediaType = [], wa_ExternalURI = [], wa_FileID = None, wa_Digest = [], wa_SizeBytes = 0,
        wa_CreatedAt = now, wa_UpdatedAt = now\<rparr> (snd x)"

definition latest_or_zero :: "work_db \<Rightarrow> string \<Rightarrow> string \<Rightarrow> nat" where
  "latest_or_zero db tenant workID =
     (case GetLatestWorkEventSequence db tenant workID of Inl _ \<Rightarrow> 0 | Inr n \<Rightarrow> n)"

text \<open>What follows a successful write of the row: the artifact, the durable event, the live event.\<close>

definition after_update ::
  "'e task_events \<Rightarrow> 'e task_store \<Rightarrow> instant \<Rightarrow> string \<Rightarrow> string \<Rightarrow> work_message \<Rightarrow> string \<Rightarrow> string \<Rightarrow> 'e option
     \<Rightarrow> 'e task_store" where
  "after_update sdk s now eventID tenant existing newState reason event =
     (let i = wm_WorkID existing;
          db1 = (case Option.bind event (te_artifact sdk) of
                   None \<Rightarrow> ts_db s
                 | Some x \<Rightarrow> snd (CreateWorkArtifact (ts_db s) now (event_artifact tenant i now x)));
          nextSeq = u64 (latest_or_zero db1 tenant i + 1) in
      s\<lparr>ts_db := snd (AppendWorkEvent db1 now (work_state_event tenant eventID i nextSeq newState reason now
                        [(''context_id'', wm_ContextID existing)])),
        ts_events := (case event of None \<Rightarrow> ts_events s
                      | Some ev \<Rightarrow> map_option (\<lambda>em. Publish em tenant i ev nextSeq) (ts_events s))\<rparr>)"

definition Update ::
  "'e task_events \<Rightarrow> 'e task_store \<Rightarrow> instant \<Rightarrow> string \<Rightarrow> store_op list \<Rightarrow> call_context \<Rightarrow> 'e update_request \<Rightarrow>
     (task_error + nat) \<times> 'e task_store" where
  "Update sdk s now eventID others cx update =
     (case ur_Task update of
        None \<Rightarrow> (Inl ErrTaskRequired, s)
      | Some task \<Rightarrow>
          let tenant = tenant_or_default (cx_Tenant cx) in
          (case RequireOrganizationActive (ts_db s) tenant of
             Inl e \<Rightarrow> (Inl (ErrTaskStore e), s)
           | Inr _ \<Rightarrow>
          (case GetWorkByA2ATaskID (ts_db s) tenant (tk_ID task) of
             Inl e \<Rightarrow> (Inl (if e = ErrWorkNotFound then ErrTaskNotFound else ErrTaskStore e), s)
           | Inr existing \<Rightarrow>
               if ur_PrevVersion update \<noteq> 0 \<and> ur_PrevVersion update \<noteq> wm_Version existing
               then (if isTerminalState (wm_State existing) then Inr (wm_Version existing)
                     else Inl ErrConcurrentModification, s)
               else
                 let newState = mapTaskStateToDurableState (tk_State task); reason = terminal_reason task;
                     s1 = s\<lparr>ts_db := foldl store_step (ts_db s) others\<rparr> in
                 (case UpdateWorkState (ts_db s1) now tenant (wm_WorkID existing) (wm_Version existing) newState reason of
                    (Inl e, db2) \<Rightarrow>
                      (if e = ErrWorkVersionMismatch
                       then (case GetWork db2 tenant (wm_WorkID existing) of
                               Inl _ \<Rightarrow> Inl ErrConcurrentModification
                             | Inr current \<Rightarrow>
                                 if isTerminalState (wm_State current) then Inr (wm_Version current)
                                 else Inl ErrConcurrentModification)
                       else Inl (ErrTaskStore e), s1\<lparr>ts_db := db2\<rparr>)
                  | (Inr v, db2) \<Rightarrow>
                      (Inr v, after_update sdk (s1\<lparr>ts_db := db2\<rparr>) now eventID tenant existing newState reason
                                (ur_Event update))))))"

section \<open>Reading\<close>

definition artifact_view :: "work_artifact \<Rightarrow> string \<times> a2a_part list" where
  "artifact_view a =
     (wa_ArtifactID a,
      if wa_ExternalURI a \<noteq> [] then [FileURLPart (wa_ExternalURI a) (wa_MediaType a)]
      else if wa_Description a \<noteq> [] then [TextPart (wa_Description a)] else [])"

definition projectWorkToTask :: "work_message \<Rightarrow> work_artifact list \<Rightarrow> a2a_task" where
  "projectWorkToTask w artifacts =
     \<lparr>tk_ID = wm_A2ATaskID w, tk_ContextID = wm_ContextID w,
      tk_State = mapDurableStateToTaskState (wm_State w),
      tk_Message = (if wm_TerminalReason w \<noteq> [] then Some [TextPart (wm_TerminalReason w)] else None),
      tk_Timestamp = Some (wm_UpdatedAt w), tk_Artifacts = map artifact_view artifacts\<rparr>"

definition artifacts_or_none :: "work_db \<Rightarrow> string \<Rightarrow> string \<Rightarrow> work_artifact list" where
  "artifacts_or_none db tenant workID =
     (case ListWorkArtifacts db tenant workID of Inl _ \<Rightarrow> [] | Inr xs \<Rightarrow> xs)"

definition Get :: "work_db \<Rightarrow> call_context \<Rightarrow> string \<Rightarrow> task_error + stored_task" where
  "Get db cx taskID =
     (let tenant = tenant_or_default (cx_Tenant cx) in
      case GetWorkByA2ATaskID db tenant taskID of
        Inl e \<Rightarrow> Inl (if e = ErrWorkNotFound then ErrTaskNotFound else ErrTaskStore e)
      | Inr work \<Rightarrow>
          if (case cx_Caller cx of
                None \<Rightarrow> False
              | Some p \<Rightarrow>
                  ca_IsAuthenticated p \<and> ca_PrincipalID p \<noteq> [] \<and>
                  wm_RequesterAgentID work \<noteq> ca_PrincipalID p \<and> wm_ExecutorAgentID work \<noteq> ca_PrincipalID p \<and>
                  \<not> isAuthorizedCaller (cx_Caller cx) work)
          then Inl ErrTaskNotFound
          else Inr \<lparr>sk_Task = projectWorkToTask work (artifacts_or_none db tenant (wm_WorkID work)),
                    sk_Version = wm_Version work, sk_User = wm_RequesterAgentID work\<rparr>)"

record list_tasks_request =
  lr_Tenant :: string
  lr_ContextID :: string
  lr_Status :: task_state
  lr_PageSize :: int
  lr_PageToken :: string
  lr_IncludeArtifacts :: bool

record list_tasks_response =
  lp_Tasks :: "a2a_task list"
  lp_TotalSize :: nat
  lp_PageSize :: int
  lp_NextPageToken :: string

definition zero_list_request :: list_tasks_request where
  "zero_list_request =
     \<lparr>lr_Tenant = [], lr_ContextID = [], lr_Status = OtherTaskState [], lr_PageSize = 0, lr_PageToken = [],
      lr_IncludeArtifacts = False\<rparr>"

definition page_size :: "int \<Rightarrow> int" where
  "page_size n = (let m = (if n \<le> 0 then 50 else n) in if m > 100 then 100 else m)"

definition list_filter :: "call_context \<Rightarrow> list_tasks_request \<Rightarrow> list_work_filter" where
  "list_filter cx req =
     \<lparr>lf_TenantID = tenant_or_default (if lr_Tenant req = [] then cx_Tenant cx else lr_Tenant req),
      lf_ContextID = lr_ContextID req,
      lf_RequesterAgentID =
        (case cx_Caller cx of
           None \<Rightarrow> []
         | Some p \<Rightarrow> if ca_IsAuthenticated p \<and> \<not> isAdminCaller (cx_Caller cx) then ca_PrincipalID p else []),
      lf_ExecutorAgentID = [],
      lf_State = (if lr_Status req = OtherTaskState [] then [] else mapTaskStateToDurableState (lr_Status req)),
      lf_Limit = page_size (lr_PageSize req),
      lf_Offset = int (page_offset (lr_PageToken req))\<rparr>"

definition ListTasks :: "work_db \<Rightarrow> call_context \<Rightarrow> list_tasks_request option \<Rightarrow> task_error + list_tasks_response" where
  "ListTasks db cx request =
     (let req = (case request of None \<Rightarrow> zero_list_request | Some r \<Rightarrow> r);
          f = list_filter cx req; offset = page_offset (lr_PageToken req) in
      case ListWork db f of
        Inl e \<Rightarrow> Inl (ErrTaskStore e)
      | Inr (works, totalCount) \<Rightarrow>
          Inr \<lparr>lp_Tasks = map (\<lambda>w. projectWorkToTask w
                   (if lr_IncludeArtifacts req then artifacts_or_none db (lf_TenantID f) (wm_WorkID w) else [])) works,
               lp_TotalSize = totalCount, lp_PageSize = page_size (lr_PageSize req),
               lp_NextPageToken = (if offset + length works < totalCount then page_token (offset + length works) else [])\<rparr>)"

section \<open>Updates\<close>

lemma after_update_works [simp]:
  "wdb_works (ts_db (after_update sdk s now ev t w st r e)) = wdb_works (ts_db s)"
  by (simp add: after_update_def Let_def split: option.splits)

lemma work_row_cong: "wdb_works db' = wdb_works db \<Longrightarrow> work_row db' t i = work_row db t i"
  by (simp add: work_row_def)

lemma UpdateWorkState_error: "UpdateWorkState db n t i v s r = (Inl e, db') \<Longrightarrow> db' = db"
  by (auto simp: UpdateWorkState_def Let_def split: option.splits if_splits)

lemma isTerminalState_row:
  "GetWork db t i = Inr w \<Longrightarrow> work_row db (tenant_or_default t) i = Some w"
  by (auto simp: GetWork_def Let_def split: if_splits option.splits)

lemma store_run_inv: "work_table_inv db \<Longrightarrow> work_table_inv (foldl store_step db ops)"
  by (rule work_store.invar_run) simp_all

lemma GetWorkByA2ATaskID_row:
  assumes "GetWorkByA2ATaskID db t i = Inr w"
  shows "w \<in> set (wdb_works db)" and "wm_TenantID w = tenant_or_default t" and "wm_A2ATaskID w = i"
  using assms find_Some_in [of "\<lambda>w. work_task_key w = (tenant_or_default t, i)" "wdb_works db" w]
  by (auto simp: GetWorkByA2ATaskID_def work_task_key_def Let_def split: if_splits option.splits)

text \<open>What an update leaves the rows as: untouched by the call, or one row written once.\<close>

definition update_skipped :: "task_error + nat \<Rightarrow> string \<Rightarrow> string \<Rightarrow> work_db \<Rightarrow> bool" where
  "update_skipped res t i db \<longleftrightarrow>
     (case res of Inl _ \<Rightarrow> True
      | Inr v \<Rightarrow> \<exists>w. work_row db t i = Some w \<and> isTerminalState (wm_State w) \<and> wm_Version w = v)"

definition update_written ::
  "task_error + nat \<Rightarrow> nat \<Rightarrow> instant \<Rightarrow> string \<Rightarrow> string \<Rightarrow> a2a_task \<Rightarrow> work_db \<Rightarrow> work_db \<Rightarrow> bool" where
  "update_written res prev now t i task db db' \<longleftrightarrow>
     (\<exists>w. work_row db t i = Some w \<and> (prev = 0 \<or> wm_Version w = prev) \<and> res = Inr (Suc (wm_Version w)) \<and>
          work_row db' t i =
            Some (set_work_state now (mapTaskStateToDurableState (tk_State task)) (terminal_reason task) w)) \<and>
     (\<forall>t' i'. (t', i') \<noteq> (t, i) \<longrightarrow> work_row db' t' i' = work_row db t' i')"

lemma tenant_or_default_twice [simp]: "tenant_or_default (tenant_or_default t) = tenant_or_default t"
  by (simp add: tenant_or_default_def)

lemma Update_found:
  assumes inv: "work_table_inv (ts_db s)" and task: "ur_Task u = Some task"
    and org: "RequireOrganizationActive (ts_db s) (tenant_or_default (cx_Tenant cx)) = Inr x"
    and row: "GetWorkByA2ATaskID (ts_db s) (tenant_or_default (cx_Tenant cx)) (tk_ID task) = Inr w0"
    and upd: "Update sdk s now ev others cx u = (res, s')"
  shows "(wdb_works (ts_db s') = wdb_works (ts_db s) \<or> wdb_works (ts_db s') = wdb_works (foldl store_step (ts_db s) others)) \<and>
           update_skipped res (tenant_or_default (cx_Tenant cx)) (wm_WorkID w0) (ts_db s') \<or>
         update_written res (ur_PrevVersion u) now (tenant_or_default (cx_Tenant cx)) (wm_WorkID w0) task
           (foldl store_step (ts_db s) others) (ts_db s')"
proof (cases "ur_PrevVersion u \<noteq> 0 \<and> ur_PrevVersion u \<noteq> wm_Version w0")
  case True
  have "work_row (ts_db s) (tenant_or_default (cx_Tenant cx)) (wm_WorkID w0) = Some w0"
    using GetWorkByA2ATaskID_row [OF row] by (intro work_row_unique [OF inv]) (simp_all add: work_key_def)
  then show ?thesis
    using True task org row upd by (auto simp: Update_def Let_def update_skipped_def split: if_splits)
next
  case False
  let ?t = "tenant_or_default (cx_Tenant cx)" and ?db = "foldl store_step (ts_db s) others"
  obtain r db2 where r: "UpdateWorkState ?db now ?t (wm_WorkID w0) (wm_Version w0)
      (mapTaskStateToDurableState (tk_State task)) (terminal_reason task) = (r, db2)"
    by (cases "UpdateWorkState ?db now ?t (wm_WorkID w0) (wm_Version w0)
      (mapTaskStateToDurableState (tk_State task)) (terminal_reason task)")
  have dbinv: "work_table_inv ?db" by (rule store_run_inv [OF inv])
  show ?thesis
  proof (cases r)
    case (Inl e)
    with r have db2: "db2 = ?db" using UpdateWorkState_error by blast
    then have "update_skipped res ?t (wm_WorkID w0) (ts_db s')" "ts_db s' = ?db"
      using False task org row upd r Inl
      by (auto simp: Update_def Let_def update_skipped_def dest: isTerminalState_row split: if_splits sum.splits)
    then show ?thesis by simp
  next
    case (Inr v)
    from UpdateWorkState_success [OF dbinv r [unfolded Inr]] obtain w where
      w: "work_row ?db ?t (wm_WorkID w0) = Some w" "wm_Version w = wm_Version w0" "v = Suc (wm_Version w0)"
        "work_row db2 ?t (wm_WorkID w0) = Some (set_work_state now (mapTaskStateToDurableState (tk_State task)) (terminal_reason task) w)"
      by auto
    have s': "res = Inr v" "wdb_works (ts_db s') = wdb_works db2"
      using False task org row upd r Inr by (auto simp: Update_def Let_def)
    have "\<forall>t' i'. (t', i') \<noteq> (?t, wm_WorkID w0) \<longrightarrow> work_row db2 t' i' = work_row ?db t' i'"
      using UpdateWorkState_row_other [of ?t "wm_WorkID w0" _ _ ?db] r by (metis snd_conv tenant_or_default_twice)
    then show ?thesis
      using w s' False work_row_cong [OF s'(2)] by (auto simp: update_written_def)
  qed
qed

lemma Update_not_found:
  assumes "Update sdk s now ev others cx u = (res, s')"
    and "\<nexists>task w0 x. ur_Task u = Some task \<and> RequireOrganizationActive (ts_db s) (tenant_or_default (cx_Tenant cx)) = Inr x \<and>
           GetWorkByA2ATaskID (ts_db s) (tenant_or_default (cx_Tenant cx)) (tk_ID task) = Inr w0"
  shows "(\<exists>e. res = Inl e) \<and> s' = s"
  using assms by (auto simp: Update_def Let_def split: option.splits sum.splits)

section \<open>Pages\<close>

text \<open>The rows a request selects, in the order of the listing, and a client that follows the page
  tokens for at most \<open>n\<close> pages.\<close>

definition selected :: "work_db \<Rightarrow> list_work_filter \<Rightarrow> work_message list" where
  "selected db f =
     filter (\<lambda>w. wm_TenantID w = tenant_or_default (lf_TenantID f) \<and>
        (lf_ContextID f = [] \<or> wm_ContextID w = lf_ContextID f) \<and>
        (lf_RequesterAgentID f = [] \<or> wm_RequesterAgentID w = lf_RequesterAgentID f) \<and>
        (lf_ExecutorAgentID f = [] \<or> wm_ExecutorAgentID w = lf_ExecutorAgentID f) \<and>
        (lf_State f = [] \<or> wm_State w = lf_State f)) (wdb_works db)"

definition listing :: "work_db \<Rightarrow> list_work_filter \<Rightarrow> work_message list" where
  "listing db f = rev (sort_key (\<lambda>w. (wm_CreatedAt w, wdb_collate db (wm_WorkID w))) (selected db f))"

fun walk_pages :: "work_db \<Rightarrow> call_context \<Rightarrow> list_tasks_request \<Rightarrow> nat \<Rightarrow> a2a_task list option" where
  "walk_pages db cx req 0 = None"
| "walk_pages db cx req (Suc n) =
     (case ListTasks db cx (Some req) of
        Inl _ \<Rightarrow> None
      | Inr page \<Rightarrow>
          if lp_NextPageToken page = [] then Some (lp_Tasks page)
          else map_option (\<lambda>rest. lp_Tasks page @ rest)
                 (walk_pages db cx (req\<lparr>lr_PageToken := lp_NextPageToken page\<rparr>) n))"

lemma page_size_bounds: "1 \<le> page_size n" "page_size n \<le> 100"
  by (auto simp: page_size_def Let_def)

lemma ListWork_page:
  "\<not> wdb_fault db QListWork \<Longrightarrow> 1 \<le> lf_Limit f \<Longrightarrow> lf_Limit f \<le> 100 \<Longrightarrow> 0 \<le> lf_Offset f \<Longrightarrow>
   ListWork db f = Inr (take (nat (lf_Limit f)) (drop (nat (lf_Offset f)) (listing db f)), length (selected db f))"
  by (simp add: ListWork_def listing_def selected_def Let_def)

lemma length_listing [simp]: "length (listing db f) = length (selected db f)"
  by (simp add: listing_def)

lemma listing_page_token [simp]:
  "listing db (list_filter cx (req\<lparr>lr_PageToken := token\<rparr>)) = listing db (list_filter cx req)"
  "selected db (list_filter cx (req\<lparr>lr_PageToken := token\<rparr>)) = selected db (list_filter cx req)"
  by (simp_all add: listing_def selected_def list_filter_def)

lemma durable_state_nonempty: "mapTaskStateToDurableState st \<noteq> []"
  by (cases st) simp_all

lemma set_selected:
  "wm_A2ATaskID ` set (selected db (list_filter cx req)) = {wm_A2ATaskID w | w. w \<in> set (wdb_works db) \<and>
     wm_TenantID w = tenant_or_default (if lr_Tenant req = [] then cx_Tenant cx else lr_Tenant req) \<and>
     (lr_ContextID req \<noteq> [] \<longrightarrow> wm_ContextID w = lr_ContextID req) \<and>
     (lr_Status req \<noteq> OtherTaskState [] \<longrightarrow> wm_State w = mapTaskStateToDurableState (lr_Status req)) \<and>
     (\<forall>p. cx_Caller cx = Some p \<and> ca_IsAuthenticated p \<and> ca_PrincipalID p \<noteq> [] \<and> ca_IsAdmin p \<noteq> Some True \<longrightarrow>
        wm_RequesterAgentID w = ca_PrincipalID p)}"
proof -
  have "w \<in> set (selected db (list_filter cx req)) \<longleftrightarrow> w \<in> set (wdb_works db) \<and>
     wm_TenantID w = tenant_or_default (if lr_Tenant req = [] then cx_Tenant cx else lr_Tenant req) \<and>
     (lr_ContextID req \<noteq> [] \<longrightarrow> wm_ContextID w = lr_ContextID req) \<and>
     (lr_Status req \<noteq> OtherTaskState [] \<longrightarrow> wm_State w = mapTaskStateToDurableState (lr_Status req)) \<and>
     (\<forall>p. cx_Caller cx = Some p \<and> ca_IsAuthenticated p \<and> ca_PrincipalID p \<noteq> [] \<and> ca_IsAdmin p \<noteq> Some True \<longrightarrow>
        wm_RequesterAgentID w = ca_PrincipalID p)" for w
    by (cases "cx_Caller cx")
      (auto simp: selected_def list_filter_def isAdminCaller_def durable_state_nonempty tenant_or_default_def)
  then show ?thesis by (auto simp: image_def)
qed

definition task_of_row :: "work_db \<Rightarrow> call_context \<Rightarrow> list_tasks_request \<Rightarrow> work_message \<Rightarrow> a2a_task" where
  "task_of_row db cx req w =
     projectWorkToTask w (if lr_IncludeArtifacts req
       then artifacts_or_none db (lf_TenantID (list_filter cx req)) (wm_WorkID w) else [])"

lemma ListTasks_page:
  assumes "\<not> wdb_fault db QListWork"
  shows "\<exists>page. ListTasks db cx (Some req) = Inr page \<and>
    (let off = page_offset (lr_PageToken req); n = nat (page_size (lr_PageSize req));
         all = listing db (list_filter cx req); here = take n (drop off all) in
     lp_Tasks page = map (task_of_row db cx req) here \<and>
     lp_NextPageToken page = (if off + length here < length all then page_token (off + length here) else []))"
proof -
  let ?f = "list_filter cx req"
  have "ListWork db ?f = Inr (take (nat (page_size (lr_PageSize req))) (drop (page_offset (lr_PageToken req))
      (listing db ?f)), length (selected db ?f))"
    using ListWork_page [OF assms, of ?f] page_size_bounds [of "lr_PageSize req"] by (simp add: list_filter_def)
  then show ?thesis by (simp add: ListTasks_def Let_def task_of_row_def)
qed

lemma walk_pages_rest:
  assumes "\<not> wdb_fault db QListWork" and "is_i64 (int (length (listing db (list_filter cx req))))"
  shows "length (listing db (list_filter cx req)) < page_offset (lr_PageToken req) + n \<Longrightarrow> 0 < n \<Longrightarrow>
    walk_pages db cx req n =
      Some (map (task_of_row db cx req) (drop (page_offset (lr_PageToken req)) (listing db (list_filter cx req))))"
  using assms
proof (induction n arbitrary: req)
  case (Suc n)
  let ?all = "listing db (list_filter cx req)" and ?off = "page_offset (lr_PageToken req)"
    and ?n = "nat (page_size (lr_PageSize req))"
  let ?here = "take ?n (drop ?off ?all)"
  obtain page where page: "ListTasks db cx (Some req) = Inr page" "lp_Tasks page = map (task_of_row db cx req) ?here"
      "lp_NextPageToken page = (if ?off + length ?here < length ?all then page_token (?off + length ?here) else [])"
    using ListTasks_page [OF Suc.prems(3), of cx req] by (auto simp: Let_def)
  show ?case
  proof (cases "?off + length ?here < length ?all")
    case True
    let ?req = "req\<lparr>lr_PageToken := page_token (?off + length ?here)\<rparr>"
    have n: "0 < ?n" using page_size_bounds [of "lr_PageSize req"] by simp
    with True have len: "length ?here = ?n" by simp
    have fits: "is_i64 (int k)" if "k < length ?all" for k using that Suc.prems(4) by (simp add: is_i64_def)
    have off: "page_offset (page_token (?off + length ?here)) = ?off + ?n"
      by (rule trans [OF page_offset_token [OF fits [OF True]]]) (simp only: len)
    have "length ?all < ?off + ?n + n" using Suc.prems(1) n by linarith
    moreover have "0 < n" using True Suc.prems(1) n len by linarith
    ultimately have "walk_pages db cx ?req n = Some (map (task_of_row db cx ?req) (drop (?off + ?n) ?all))"
      using Suc.IH [of ?req] Suc.prems(3,4) off by simp
    moreover have "task_of_row db cx ?req = task_of_row db cx req"
      by (simp add: fun_eq_iff task_of_row_def list_filter_def)
    moreover have "?here @ drop (?off + ?n) ?all = drop ?off ?all"
      by (metis append_take_drop_id drop_drop add.commute)
    ultimately show ?thesis
      using page True by (simp add: map_append [symmetric] del: map_append)
  next
    case False
    then have "?here = drop ?off ?all" by (cases "length (drop ?off ?all) \<le> ?n") auto
    then show ?thesis using page False by simp
  qed
qed simp

section \<open>Properties\<close>

text \<open>An update is made once or not at all. Whatever other clients write between its read and
  its write, either the call writes no work row, and it reports success only where the row is in a
  terminal state and with that row's version; or it writes exactly the row it read, which at that
  moment still has the version it read (and the version asked for, if one was given), to the new
  state and reason, and reports the next version.\<close>

theorem update_written_once:
  assumes "work_table_inv (ts_db s)" and "Update sdk s now ev others cx u = (res, s')"
  shows "(\<exists>e. res = Inl e) \<and> s' = s \<or>
    (\<exists>task w0. ur_Task u = Some task \<and>
       GetWorkByA2ATaskID (ts_db s) (tenant_or_default (cx_Tenant cx)) (tk_ID task) = Inr w0 \<and>
       ((wdb_works (ts_db s') = wdb_works (ts_db s) \<or>
         wdb_works (ts_db s') = wdb_works (foldl store_step (ts_db s) others)) \<and>
          update_skipped res (tenant_or_default (cx_Tenant cx)) (wm_WorkID w0) (ts_db s') \<or>
        update_written res (ur_PrevVersion u) now (tenant_or_default (cx_Tenant cx)) (wm_WorkID w0) task
          (foldl store_step (ts_db s) others) (ts_db s')))"
proof (cases "\<exists>task w0 x. ur_Task u = Some task \<and>
    RequireOrganizationActive (ts_db s) (tenant_or_default (cx_Tenant cx)) = Inr x \<and>
    GetWorkByA2ATaskID (ts_db s) (tenant_or_default (cx_Tenant cx)) (tk_ID task) = Inr w0")
  case True
  then show ?thesis using Update_found [OF assms(1) _ _ _ assms(2)] by blast
next
  case False
  then show ?thesis using Update_not_found [OF assms(2)] by blast
qed

text \<open>Who reads a task. \<open>Get\<close> returns a stored task exactly if the request has no authenticated
  caller with a name, or the caller is an admin, the requester or the executor of the task; to
  everybody else the answer is the one for a task that does not exist.\<close>

theorem Get_authorized:
  assumes "\<not> wdb_fault db (QGetWorkByTask (tenant_or_default (cx_Tenant cx)) i)"
  shows "Get db cx i =
    (case GetWorkByA2ATaskID db (cx_Tenant cx) i of
       Inl _ \<Rightarrow> Inl ErrTaskNotFound
     | Inr w \<Rightarrow>
         if (\<forall>p. cx_Caller cx = Some p \<and> ca_IsAuthenticated p \<and> ca_PrincipalID p \<noteq> [] \<longrightarrow>
               ca_IsAdmin p = Some True \<or> ca_PrincipalID p \<in> {wm_RequesterAgentID w, wm_ExecutorAgentID w})
         then Inr \<lparr>sk_Task = projectWorkToTask w (artifacts_or_none db (tenant_or_default (cx_Tenant cx)) (wm_WorkID w)),
                   sk_Version = wm_Version w, sk_User = wm_RequesterAgentID w\<rparr>
         else Inl ErrTaskNotFound)"
  using assms
  by (auto simp: Get_def GetWorkByA2ATaskID_def isAuthorizedCaller_def isAdminCaller_def Let_def split: option.splits)

text \<open>C21: following the page tokens lists every task once. On a store that does not change between
  the pages and whose listing does not fail, a client that starts without a token and follows the
  tokens, whatever the page size, needs at most one page more than the table has rows. The ids it
  collects are distinct and are exactly those of the rows of the tenant (the one of the request, else
  the caller's), of the context and the state asked for, if any, and, unless the caller is an
  admin or has no authenticated name, of those he requested himself: a task he only executes is not
  listed.\<close>

theorem pages_list_every_task:
  assumes "work_table_inv db" and "\<not> wdb_fault db QListWork" and "lr_PageToken req = []"
    and "is_i64 (int (length (wdb_works db)))"
  shows "\<exists>ts. walk_pages db cx req (Suc (length (wdb_works db))) = Some ts \<and> distinct (map tk_ID ts) \<and>
    set (map tk_ID ts) = {wm_A2ATaskID w | w. w \<in> set (wdb_works db) \<and>
      wm_TenantID w = tenant_or_default (if lr_Tenant req = [] then cx_Tenant cx else lr_Tenant req) \<and>
      (lr_ContextID req \<noteq> [] \<longrightarrow> wm_ContextID w = lr_ContextID req) \<and>
      (lr_Status req \<noteq> OtherTaskState [] \<longrightarrow> wm_State w = mapTaskStateToDurableState (lr_Status req)) \<and>
      (\<forall>p. cx_Caller cx = Some p \<and> ca_IsAuthenticated p \<and> ca_PrincipalID p \<noteq> [] \<and> ca_IsAdmin p \<noteq> Some True \<longrightarrow>
         wm_RequesterAgentID w = ca_PrincipalID p)}"
proof -
  let ?all = "listing db (list_filter cx req)" and ?sel = "selected db (list_filter cx req)"
  have len: "length ?sel \<le> length (wdb_works db)" by (simp add: selected_def)
  then have "is_i64 (int (length ?sel))" using assms(4) by (simp add: is_i64_def)
  then have walk: "walk_pages db cx req (Suc (length (wdb_works db))) = Some (map (task_of_row db cx req) ?all)"
    using walk_pages_rest [of db cx req] assms(2,3) len by (simp add: page_offset_def del: walk_pages.simps)
  have ids: "map tk_ID (map (task_of_row db cx req) ?all) = map wm_A2ATaskID ?all"
    by (simp add: task_of_row_def projectWorkToTask_def)
  have "distinct (map work_task_key (wdb_works db))" using assms(1) by (simp add: work_table_inv_def)
  then have "distinct (map work_task_key ?sel)" by (simp add: selected_def distinct_map_filter)
  then have "distinct (map wm_A2ATaskID ?sel)" by (auto simp: distinct_map inj_on_def selected_def work_task_key_def)
  then have "distinct (map wm_A2ATaskID ?all)" and "set (map wm_A2ATaskID ?all) = wm_A2ATaskID ` set ?sel"
    by (simp_all add: listing_def rev_map [symmetric] distinct_map)
  then show ?thesis
    by (intro exI [of _ "map (task_of_row db cx req) ?all"]) (simp only: walk ids simp_thms set_selected)
qed

section \<open>Create and read back\<close>

lemma CreateWork_row:
  assumes inv: "work_table_inv db" and ok: "CreateWork db now w = (Inr u, db')"
    and t: "wm_TenantID w \<noteq> []" and st: "wm_State w \<noteq> []"
  shows "find (\<lambda>x. work_task_key x = (wm_TenantID w, wm_A2ATaskID w)) (wdb_works db') =
    Some ((work_defaults w)\<lparr>wm_CreatedAt := now, wm_UpdatedAt := now, wm_Version := 1\<rparr>)"
proof (rule CreateWork_cases [of db now w])
  fix v
  assume c: "CreateWork db now w = (Inr (), db\<lparr>wdb_works := wdb_works db @ [v]\<rparr>)"
    and v: "v = (work_defaults w)\<lparr>wm_CreatedAt := now, wm_UpdatedAt := now, wm_Version := 1\<rparr>"
  have "work_table_inv db'" using CreateWork_inv [OF inv, of now w] ok by simp
  then have "distinct (map work_task_key (wdb_works db'))" by (simp add: work_table_inv_def)
  moreover have "v \<in> set (wdb_works db')" using c ok by auto
  moreover have "work_task_key v = (wm_TenantID w, wm_A2ATaskID w)"
    using t by (simp add: v work_task_key_def work_defaults_def tenant_or_default_def)
  ultimately show ?thesis using distinct_inj_on_find [of work_task_key "wdb_works db'" v] v by simp
qed (use ok in simp)

lemma write_faults [simp]:
  "wdb_fault (snd (EnsureWorkContext db n t c r)) = wdb_fault db"
  "wdb_fault (snd (CreateWork db n w)) = wdb_fault db"
  "wdb_fault (snd (AppendWorkEvent db n e)) = wdb_fault db"
  by (simp_all add: EnsureWorkContext_def CreateWork_def AppendWorkEvent_def Let_def split: sum.splits option.splits)

definition state_read_back :: "task_state \<Rightarrow> task_state" where
  "state_read_back s = (case s of TaskStateUnspecified \<Rightarrow> TaskStateSubmitted | OtherTaskState _ \<Rightarrow> TaskStateSubmitted | _ \<Rightarrow> s)"

lemma state_round_trip: "mapDurableStateToTaskState (mapTaskStateToDurableState s) = state_read_back s"
  by (cases s) (simp_all add: mapDurableStateToTaskState_def state_read_back_def)

lemma initial_state_read_back: "mapDurableStateToTaskState (initial_state task) = state_read_back (tk_State task)"
proof -
  have "mapDurableStateToTaskState ''SUBMITTED'' = state_read_back (OtherTaskState [])"
    by (simp add: mapDurableStateToTaskState_def state_read_back_def)
  then show ?thesis by (simp add: initial_state_def state_round_trip)
qed

lemma initial_state_nonempty: "initial_state task \<noteq> []"
  by (cases "tk_State task") (simp_all add: initial_state_def)

lemma Create_written:
  assumes "Create sdk s now ids cx (Some task) = (Inr v, s')"
  shows "\<exists>db1 db2 key. db1 = snd (EnsureWorkContext (ts_db s) now (tenant_or_default (cx_Tenant cx))
             (tk_ContextID (with_ids ids task)) (tk_ID (with_ids ids task))) \<and>
     CreateWork db1 now (new_work now (tenant_or_default (cx_Tenant cx)) (with_ids ids task)
       (extractRequesterFromContext cx (Some (with_ids ids task))) (extractExecutorFromContext cx)
       (initial_state (with_ids ids task)) key) = (Inr (), db2) \<and>
     v = 1 \<and> wdb_works (ts_db s') = wdb_works db2 \<and> wdb_fault (ts_db s') = wdb_fault (ts_db s)"
proof -
  let ?t = "tenant_or_default (cx_Tenant cx)" and ?k = "with_ids ids task"
  obtain e db1 where ctx: "EnsureWorkContext (ts_db s) now ?t (tk_ContextID ?k) (tk_ID ?k) = (e, db1)"
    by (cases "EnsureWorkContext (ts_db s) now ?t (tk_ContextID ?k) (tk_ID ?k)")
  let ?w = "new_work now ?t ?k (extractRequesterFromContext cx (Some ?k)) (extractExecutorFromContext cx)
       (initial_state ?k) (extractIdempotencyKey cx (tu_key ids) (Some ?k))"
  obtain r db2 where cw: "CreateWork db1 now ?w = (r, db2)" by (cases "CreateWork db1 now ?w")
  have "wdb_fault db1 = wdb_fault (ts_db s)" using ctx write_faults(1) by (metis snd_conv)
  moreover have "wdb_fault db2 = wdb_fault db1" using cw write_faults(2) by (metis snd_conv)
  moreover have "r = Inr () \<and> v = 1 \<and> wdb_works (ts_db s') = wdb_works db2 \<and> wdb_fault (ts_db s') = wdb_fault db2"
    using assms ctx cw
    by (auto simp: Create_def Let_def split: sum.splits if_splits)
  ultimately show ?thesis using ctx cw by (intro exI [of _ db1] exI [of _ db2]) auto
qed

text \<open>A task that was created is read back. On a store without faults, the caller of a
  successful \<open>Create\<close> then gets, under the task's id, a task with that id, context and state (the
  unnamed states are read as submitted), at the version that \<open>Create\<close> returned.\<close>

theorem created_task_is_read_back:
  assumes "work_table_inv (ts_db s)" and "\<And>q. \<not> wdb_fault (ts_db s) q"
    and "Create sdk s now ids cx (Some task) = (Inr v, s')"
  shows "\<exists>k. Get (ts_db s') cx (tk_ID (with_ids ids task)) = Inr k \<and> sk_Version k = v \<and>
     tk_ID (sk_Task k) = tk_ID (with_ids ids task) \<and> tk_ContextID (sk_Task k) = tk_ContextID (with_ids ids task) \<and>
     tk_State (sk_Task k) = state_read_back (tk_State task) \<and>
     sk_User k = extractRequesterFromContext cx (Some (with_ids ids task))"
proof -
  let ?t = "tenant_or_default (cx_Tenant cx)" and ?k = "with_ids ids task"
  let ?w = "new_work now ?t ?k (extractRequesterFromContext cx (Some ?k)) (extractExecutorFromContext cx) (initial_state ?k)"
  obtain db1 db2 key where c: "db1 = snd (EnsureWorkContext (ts_db s) now ?t (tk_ContextID ?k) (tk_ID ?k))"
      "CreateWork db1 now (?w key) = (Inr (), db2)" "v = 1" "wdb_works (ts_db s') = wdb_works db2"
      "wdb_fault (ts_db s') = wdb_fault (ts_db s)"
    using Create_written [OF assms(3)] by blast
  have "work_table_inv db1" using work_table_inv_cong [of db1 "ts_db s"] assms(1) c(1) by simp
  moreover have t: "?t \<noteq> []" by (simp add: tenant_or_default_def)
  ultimately have "find (\<lambda>x. work_task_key x = (?t, tk_ID ?k)) (wdb_works (ts_db s')) =
      Some ((work_defaults (?w key))\<lparr>wm_CreatedAt := now, wm_UpdatedAt := now, wm_Version := 1\<rparr>)"
    using CreateWork_row [OF _ c(2)] initial_state_nonempty [of ?k] by (simp add: c(4) new_work_def)
  moreover define row where "row = (work_defaults (?w key))\<lparr>wm_CreatedAt := now, wm_UpdatedAt := now, wm_Version := 1\<rparr>"
  ultimately have got: "GetWorkByA2ATaskID (ts_db s') ?t (tk_ID ?k) = Inr row"
    using assms(2) by (simp add: GetWorkByA2ATaskID_def c(5) Let_def)
  have row: "wm_Version row = v" "wm_A2ATaskID row = tk_ID ?k" "wm_ContextID row = tk_ContextID ?k"
      "wm_State row = initial_state ?k" "wm_RequesterAgentID row = extractRequesterFromContext cx (Some ?k)"
    using initial_state_nonempty [of ?k] c(3) by (simp_all add: row_def work_defaults_def new_work_def)
  have "ca_PrincipalID p = [] \<or> wm_RequesterAgentID row = ca_PrincipalID p" if "cx_Caller cx = Some p" for p
    using that by (simp add: row(5) extractRequesterFromContext_def)
  then have "Get (ts_db s') cx (tk_ID ?k) =
      Inr \<lparr>sk_Task = projectWorkToTask row (artifacts_or_none (ts_db s') ?t (wm_WorkID row)),
           sk_Version = wm_Version row, sk_User = wm_RequesterAgentID row\<rparr>"
    by (auto simp: Get_def Let_def got split: option.splits)
  then show ?thesis
    using initial_state_read_back [of ?k] by (simp add: row projectWorkToTask_def) (simp add: with_ids_def)
qed

section \<open>Sample requests\<close>

definition sample_task_events :: "a2a_task task_events" where
  "sample_task_events = \<lparr>te_of_task = \<lambda>t. t, te_artifact = \<lambda>_. None\<rparr>"

definition sample_store :: "a2a_task task_store" where
  "sample_store = \<lparr>ts_db = sample_tree_db, ts_events = Some NewEventManager\<rparr>"

definition sample_context :: "string \<Rightarrow> call_context" where
  "sample_context who =
     \<lparr>cx_Tenant = [], cx_Caller = Some \<lparr>ca_PrincipalID = who, ca_IsAuthenticated = True, ca_IsAdmin = None\<rparr>,
      cx_TargetAgent = ''b'', cx_IdempotencyKey = []\<rparr>"

definition sample_a2a_task :: "string \<Rightarrow> task_state \<Rightarrow> a2a_task" where
  "sample_a2a_task i st =
     \<lparr>tk_ID = i, tk_ContextID = ''c1'', tk_State = st, tk_Message = None, tk_Timestamp = None, tk_Artifacts = []\<rparr>"

definition sample_uuids :: task_uuids where
  "sample_uuids = \<lparr>tu_work = ''u1'', tu_context = ''u2'', tu_key = ''u3'', tu_event = ''u4''\<rparr>"

definition sample_update :: "store_op list \<Rightarrow> (task_error + nat) \<times> a2a_task task_store" where
  "sample_update others =
     Update sample_task_events sample_store 9 ''e1'' others (sample_context ''a'')
       \<lparr>ur_Task = Some (sample_a2a_task ''w1'' TaskStateCompleted), ur_PrevVersion = 1, ur_Event = None\<rparr>"

lemma sample_works: "wdb_works sample_tree_db = [sample_row, sample_kid]"
  by (simp add: sample_tree_db_def)

lemma sample_task_rows:
  "GetWorkByA2ATaskID sample_tree_db t ''w1'' = (if tenant_or_default t = ''default'' then Inr sample_row else Inl ErrWorkNotFound)"
  "GetWorkByA2ATaskID sample_tree_db t ''w9'' = Inl ErrWorkNotFound"
  "RequireOrganizationActive sample_tree_db ''default'' = Inr ()"
  by (auto simp: GetWorkByA2ATaskID_def RequireOrganizationActive_def organizationStateAllowsWrites_def sample_tree_no_fault
      sample_works work_task_key_def sample_row_def sample_kid_def Let_def)
    (simp_all add: sample_tree_db_def sample_db_def organizationStateAllowsWrites_def)

lemma sample_fields:
  "wm_WorkID sample_row = ''w1''" "wm_Version sample_row = Suc 0" "wm_RequesterAgentID sample_row = ''a''"
  "wm_ExecutorAgentID sample_row = ''b''" "work_key sample_row = (''default'', ''w1'')" "wm_State sample_row = ''WORKING''"
  "work_key sample_kid = (''default'', ''w2'')" "wm_State sample_kid = ''WORKING''"
  by (simp_all add: sample_row_def sample_kid_def work_key_def)

lemma sample_states: "{''WORKING'', ''CANCELED'', ''COMPLETED''} \<subseteq> set work_states"
  by (simp add: work_states_def)

lemma sample_update_state:
  "s \<in> {''WORKING'', ''CANCELED'', ''COMPLETED''} \<Longrightarrow>
   UpdateWorkState sample_tree_db n ''default'' ''w1'' (Suc 0) s r =
     (Inr 2, sample_tree_db\<lparr>wdb_works := [set_work_state n s r sample_row, sample_kid]\<rparr>)"
  using sample_states
  by (auto simp: UpdateWorkState_def Let_def sample_tree_no_fault sample_works sample_fields tenant_or_default_def)

lemma sample_second_update:
  "s \<in> {''WORKING'', ''CANCELED''} \<Longrightarrow>
   fst (sample_update [OpUpdateState 8 ''default'' ''w1'' 1 s []]) =
     (if s = ''WORKING'' then Inl ErrConcurrentModification else Inr 2)"
  by (auto simp: sample_update_def Update_def sample_context_def sample_store_def sample_a2a_task_def tenant_or_default_def
      sample_task_rows sample_update_state sample_fields Let_def)
    (simp_all add: UpdateWorkState_def GetWork_def work_row_def sample_fields set_work_state_def sample_tree_no_fault
      work_key_def sample_row_def sample_kid_def tenant_or_default_def isTerminalState_def Let_def)

lemma sample_first_update:
  "fst (sample_update []) = Inr 2"
  "wdb_works (ts_db (snd (sample_update []))) = [set_work_state 9 ''COMPLETED'' [] sample_row, sample_kid]"
  by (simp_all add: sample_update_def Update_def sample_context_def sample_store_def sample_a2a_task_def tenant_or_default_def
      sample_task_rows sample_update_state sample_fields terminal_reason_def Let_def)

theorem update_written_once_witness:
  "fst (sample_update []) = Inr 2 \<and>
   fst (sample_update [OpUpdateState 8 ''default'' ''w1'' 1 ''WORKING'' []]) = Inl ErrConcurrentModification \<and>
   fst (sample_update [OpUpdateState 8 ''default'' ''w1'' 1 ''CANCELED'' []]) = Inr 2 \<and>
   update_written (fst (sample_update [])) 1 9 ''default'' ''w1'' (sample_a2a_task ''w1'' TaskStateCompleted)
     sample_tree_db (ts_db (snd (sample_update [])))"
proof -
  have "set_work_state 9 ''COMPLETED'' [] sample_row \<noteq> sample_row"
    by (simp add: set_work_state_def sample_row_def)
  then have "update_written (fst (sample_update [])) 1 9 ''default'' ''w1'' (sample_a2a_task ''w1'' TaskStateCompleted)
     sample_tree_db (ts_db (snd (sample_update [])))"
    using update_written_once [of sample_store sample_task_events 9 "''e1''" "[]" "sample_context ''a''"
        "\<lparr>ur_Task = Some (sample_a2a_task ''w1'' TaskStateCompleted), ur_PrevVersion = 1, ur_Event = None\<rparr>"
        "fst (sample_update [])" "snd (sample_update [])"] sample_first_update sample_tree_inv sample_task_rows(1) [of "''default''"]
    by (auto simp: sample_store_def sample_update_def sample_context_def sample_a2a_task_def tenant_or_default_def
        sample_fields sample_works)
  then show ?thesis using sample_first_update sample_second_update by simp
qed

theorem Get_authorized_witness:
  "Get sample_tree_db (sample_context ''c'') ''w1'' = Inl ErrTaskNotFound \<and>
   Get sample_tree_db (sample_context ''c'') ''w9'' = Inl ErrTaskNotFound \<and>
   (\<exists>k. Get sample_tree_db (sample_context ''b'') ''w1'' = Inr k \<and> sk_User k = ''a'')"
  using Get_authorized [of sample_tree_db "sample_context ''c''" "''w1''"]
    Get_authorized [of sample_tree_db "sample_context ''c''" "''w9''"]
    Get_authorized [of sample_tree_db "sample_context ''b''" "''w1''"]
  by (simp add: sample_tree_no_fault sample_context_def sample_task_rows tenant_or_default_def sample_fields)

theorem pages_list_every_task_witness:
  "\<exists>ts. walk_pages sample_tree_db (sample_context ''a'') (zero_list_request\<lparr>lr_PageSize := 1\<rparr>) 3 = Some ts \<and>
     distinct (map tk_ID ts) \<and> set (map tk_ID ts) = {''w1'', ''w2''}"
proof -
  let ?req = "zero_list_request\<lparr>lr_PageSize := 1\<rparr>"
  have sel: "wm_A2ATaskID ` set (selected sample_tree_db (list_filter (sample_context ''a'') ?req)) = {''w1'', ''w2''}"
    by (simp add: selected_def list_filter_def zero_list_request_def sample_context_def isAdminCaller_def
        tenant_or_default_def sample_works sample_row_def sample_kid_def)
  have "length (wdb_works sample_tree_db) = 2" by (simp add: sample_works)
  moreover have "lr_PageToken ?req = []" by (simp add: zero_list_request_def)
  ultimately show ?thesis
    using pages_list_every_task [OF sample_tree_inv, of ?req "sample_context ''a''"] sample_tree_no_fault sel
    unfolding set_selected by (simp add: is_i64_def numeral_3_eq_3 del: walk_pages.simps)
qed

lemma sample_create:
  "Create sample_task_events sample_store 9 sample_uuids (sample_context ''a'') (Some (sample_a2a_task [] TaskStateWorking)) =
    (Inr 1, snd (Create sample_task_events sample_store 9 sample_uuids (sample_context ''a'')
       (Some (sample_a2a_task [] TaskStateWorking))))"
  by (rule prod_eqI) (simp_all, code_simp)

theorem created_task_is_read_back_witness:
  "\<exists>k. Get (ts_db (snd (Create sample_task_events sample_store 9 sample_uuids (sample_context ''a'')
          (Some (sample_a2a_task [] TaskStateWorking))))) (sample_context ''a'') ''u1'' = Inr k \<and>
     tk_State (sk_Task k) = TaskStateWorking \<and> sk_User k = ''a''"
  using created_task_is_read_back [OF _ _ sample_create]
  by (simp add: sample_store_def sample_tree_inv sample_tree_no_fault with_ids_def sample_a2a_task_def sample_uuids_def
      state_read_back_def extractRequesterFromContext_def sample_context_def) blast

end
