(* ===== verification/Recovery.thy ===== *)
theory Recovery
  imports Task_Store
begin

text \<open>
  Recovery after a restart of the manager, \<open>backend/a2a/recovery.go\<close>: every work record that was
  submitted or working is put back to submitted, at the version that was read, and the change is
  logged. What other clients write before each of these updates is a parameter.

  Shown here: every record that was scanned is counted once, as recovered or as skipped; alone on
  a store without faults, recovery resubmits all pending records and touches nothing else; a
  record that somebody else has written in the meantime is left to them.
\<close>

record recovery_report =
  rp_TotalScanned :: nat
  rp_Recovered :: nat
  rp_Skipped :: nat
  rp_WorkIDs :: "string list"

datatype recovery_error = ErrRecoveryStoreRequired | ErrListPending store_error

text \<open>\<open>string(rune(v))\<close>: the conversion to a 32-bit rune wraps, the result is its UTF-8 encoding,
  and a number that is no code point becomes the replacement character.\<close>

definition rune_string :: "nat \<Rightarrow> string" where
  "rune_string v =
     (let r = i32 (int v); n = nat r in
      if r < 0 \<or> n > 0x10FFFF \<or> (0xD800 \<le> n \<and> n \<le> 0xDFFF)
      then [char_of (0xEF :: nat), char_of (0xBF :: nat), char_of (0xBD :: nat)]
      else if n < 0x80 then [char_of n]
      else if n < 0x800 then [char_of (0xC0 + n div 64), char_of (0x80 + n mod 64)]
      else if n < 0x10000
      then [char_of (0xE0 + n div 4096), char_of (0x80 + n div 64 mod 64), char_of (0x80 + n mod 64)]
      else [char_of (0xF0 + n div 262144), char_of (0x80 + n div 4096 mod 64),
            char_of (0x80 + n div 64 mod 64), char_of (0x80 + n mod 64)])"

definition recovery_reason :: string where
  "recovery_reason = ''manager restarted; task marked for resume''"

definition recovery_event :: "work_db \<Rightarrow> instant \<Rightarrow> string \<Rightarrow> work_message \<Rightarrow> work_event" where
  "recovery_event db now eventID w =
     work_state_event (wm_TenantID w) eventID (wm_WorkID w)
       (u64 (latest_or_zero db (wm_TenantID w) (wm_WorkID w) + 1)) ''RECOVERED'' recovery_reason now
       [(''context_id'', wm_ContextID w), (''previous_state'', wm_State w),
        (''previous_version'', rune_string (wm_Version w))]"

text \<open>One pass of the loop; the Boolean says whether the record was recovered.\<close>

definition recover_one :: "instant \<Rightarrow> string \<Rightarrow> work_db \<Rightarrow> work_message \<Rightarrow> bool \<times> work_db" where
  "recover_one now eventID db w =
     (case UpdateWorkState db now (wm_TenantID w) (wm_WorkID w) (wm_Version w) ''SUBMITTED'' recovery_reason of
        (Inl _, db1) \<Rightarrow> (False, db1)
      | (Inr _, db1) \<Rightarrow> (True, snd (AppendWorkEvent db1 now (recovery_event db1 now eventID w))))"

fun recover_loop ::
  "instant \<Rightarrow> (string \<Rightarrow> string) \<Rightarrow> (string \<Rightarrow> store_op list) \<Rightarrow> work_db \<Rightarrow> work_message list \<Rightarrow> recovery_report
     \<Rightarrow> recovery_report \<times> work_db" where
  "recover_loop now newID others db [] report = (report, db)"
| "recover_loop now newID others db (w # ws) report =
     (case recover_one now (newID (wm_WorkID w)) (foldl store_step db (others (wm_WorkID w))) w of
        (True, db') \<Rightarrow>
          recover_loop now newID others db' ws
            (report\<lparr>rp_Recovered := rp_Recovered report + 1, rp_WorkIDs := rp_WorkIDs report @ [wm_WorkID w]\<rparr>)
      | (False, db') \<Rightarrow>
          recover_loop now newID others db' ws (report\<lparr>rp_Skipped := rp_Skipped report + 1\<rparr>))"

definition RecoverPendingWork ::
  "instant \<Rightarrow> (string \<Rightarrow> string) \<Rightarrow> (string \<Rightarrow> store_op list) \<Rightarrow> work_db option
     \<Rightarrow> (recovery_error + recovery_report) \<times> work_db option" where
  "RecoverPendingWork now newID others store =
     (case store of
        None \<Rightarrow> (Inl ErrRecoveryStoreRequired, None)
      | Some db \<Rightarrow>
          (case ListPendingWorkForRecovery db of
             Inl e \<Rightarrow> (Inl (ErrListPending e), Some db)
           | Inr ws \<Rightarrow>
               (case recover_loop now newID others db ws
                       \<lparr>rp_TotalScanned = length ws, rp_Recovered = 0, rp_Skipped = 0, rp_WorkIDs = []\<rparr> of
                  (report, db') \<Rightarrow> (Inr report, Some db'))))"

section \<open>The loop\<close>

lemma recover_loop_counts:
  assumes "recover_loop now newID others db ws report = (report', db')"
  shows "rp_TotalScanned report' = rp_TotalScanned report"
    and "rp_Recovered report' + rp_Skipped report' = rp_Recovered report + rp_Skipped report + length ws"
    and "length (rp_WorkIDs report') + rp_Recovered report = length (rp_WorkIDs report) + rp_Recovered report'"
  using assms
  by (induction now newID others db ws report arbitrary: rule: recover_loop.induct) (auto split: prod.splits bool.splits)

lemma recover_one_current:
  assumes inv: "work_table_inv db" and nf: "\<And>q. \<not> wdb_fault db q"
    and row: "work_row db (wm_TenantID w) (wm_WorkID w) = Some w" and t: "wm_TenantID w \<noteq> []"
  shows "\<exists>db'. recover_one now e db w = (True, db') \<and> work_table_inv db' \<and> wdb_fault db' = wdb_fault db \<and>
     work_row db' (wm_TenantID w) (wm_WorkID w) = Some (set_work_state now ''SUBMITTED'' recovery_reason w) \<and>
     (\<forall>t i. (t, i) \<noteq> (wm_TenantID w, wm_WorkID w) \<longrightarrow> work_row db' t i = work_row db t i)"
proof -
  let ?u = "UpdateWorkState db now (wm_TenantID w) (wm_WorkID w) (wm_Version w) ''SUBMITTED'' recovery_reason"
  have td: "tenant_or_default (wm_TenantID w) = wm_TenantID w" using t by (simp add: tenant_or_default_def)
  have "fst ?u = Inr (Suc (wm_Version w))"
    using UpdateWorkState_matching [OF inv, of "wm_TenantID w" "wm_WorkID w" w] row nf
    by (simp add: td work_states_def)
  then obtain db1 where u: "?u = (Inr (Suc (wm_Version w)), db1)" by (cases ?u) auto
  let ?db = "snd (AppendWorkEvent db1 now (recovery_event db1 now e w))"
  have rows: "work_row ?db t i = work_row db1 t i" for t i by (simp add: work_row_def)
  have "work_table_inv db1" using UpdateWorkState_inv [OF inv, of now "wm_TenantID w"] u by (metis snd_conv)
  then have "work_table_inv ?db" using work_table_inv_cong [of ?db db1] by simp
  moreover have "wdb_fault db1 = wdb_fault db" using UpdateWorkState_fault(1) u by (metis snd_conv)
  moreover have "work_row db1 (wm_TenantID w) (wm_WorkID w) = Some (set_work_state now ''SUBMITTED'' recovery_reason w)"
    using UpdateWorkState_success [OF inv u] row td by auto
  moreover have "work_row db1 t i = work_row db t i" if "(t, i) \<noteq> (wm_TenantID w, wm_WorkID w)" for t i
    using UpdateWorkState_row_other [of "wm_TenantID w" "wm_WorkID w" t i db] that u td by (metis snd_conv)
  ultimately show ?thesis using u by (simp add: recover_one_def rows)
qed

lemma recover_loop_alone:
  assumes "work_table_inv db" and "\<And>q. \<not> wdb_fault db q" and "distinct (map work_key ws)"
    and "\<forall>w\<in>set ws. work_row db (wm_TenantID w) (wm_WorkID w) = Some w \<and> wm_TenantID w \<noteq> []"
    and "recover_loop now newID (\<lambda>_. []) db ws report = (report', db')"
  shows "rp_Skipped report' = rp_Skipped report \<and> rp_WorkIDs report' = rp_WorkIDs report @ map wm_WorkID ws \<and>
    (\<forall>w\<in>set ws. work_row db' (wm_TenantID w) (wm_WorkID w) = Some (set_work_state now ''SUBMITTED'' recovery_reason w)) \<and>
    (\<forall>t i. (t, i) \<notin> work_key ` set ws \<longrightarrow> work_row db' t i = work_row db t i)"
  using assms
proof (induction ws arbitrary: db report)
  case (Cons w ws)
  obtain db1 where one: "recover_one now (newID (wm_WorkID w)) db w = (True, db1)" "work_table_inv db1"
      "wdb_fault db1 = wdb_fault db"
      "work_row db1 (wm_TenantID w) (wm_WorkID w) = Some (set_work_state now ''SUBMITTED'' recovery_reason w)"
      "\<forall>t i. (t, i) \<noteq> (wm_TenantID w, wm_WorkID w) \<longrightarrow> work_row db1 t i = work_row db t i"
    using recover_one_current [of db w now "newID (wm_WorkID w)"] Cons.prems(1,2,4) by auto
  have "\<forall>v\<in>set ws. work_row db1 (wm_TenantID v) (wm_WorkID v) = Some v \<and> wm_TenantID v \<noteq> []"
    using Cons.prems(3,4) one(5) by (auto simp: work_key_def image_iff)
  note IH = Cons.IH [OF one(2) _ _ this, of "report\<lparr>rp_Recovered := rp_Recovered report + 1, rp_WorkIDs := rp_WorkIDs report @ [wm_WorkID w]\<rparr>"]
  have "(wm_TenantID w, wm_WorkID w) \<notin> work_key ` set ws" using Cons.prems(3) by (auto simp: work_key_def)
  then show ?case
    using IH Cons.prems one by (auto simp: work_key_def)
qed auto

text \<open>A record that somebody else has written since the scan keeps what they wrote.\<close>

lemma recover_one_stale:
  assumes "work_table_inv db" and "\<And>q. \<not> wdb_fault db q" and "wm_TenantID w \<noteq> []"
    and "\<And>v. work_row db (wm_TenantID w) (wm_WorkID w) = Some v \<Longrightarrow> wm_Version v \<noteq> wm_Version w"
  shows "recover_one now e db w = (False, db)"
  using assms UpdateWorkState_stale [of db "wm_TenantID w" "wm_WorkID w" "wm_Version w"]
  by (simp add: recover_one_def tenant_or_default_def)

lemma pending_rows:
  assumes "work_table_inv db" and "ListPendingWorkForRecovery db = Inr ws"
  shows "distinct (map work_key ws)" and "set ws = {w \<in> set (wdb_works db). wm_State w \<in> {''SUBMITTED'', ''WORKING''}}"
    and "\<forall>w\<in>set ws. work_row db (wm_TenantID w) (wm_WorkID w) = Some w \<and> wm_TenantID w \<noteq> []"
proof -
  let ?f = "filter (\<lambda>w. wm_State w \<in> {''SUBMITTED'', ''WORKING''}) (wdb_works db)"
  have ws: "ws = sort_key wm_UpdatedAt ?f"
    using assms(2) by (simp add: ListPendingWorkForRecovery_def split: if_splits)
  have "distinct (map work_key (wdb_works db))" using assms(1) by (simp add: work_table_inv_def)
  then have "distinct (map work_key ?f)" by (rule distinct_map_filter)
  then show "distinct (map work_key ws)" by (simp add: ws distinct_map)
  show mem: "set ws = {w \<in> set (wdb_works db). wm_State w \<in> {''SUBMITTED'', ''WORKING''}}" by (auto simp: ws)
  have "wm_TenantID w \<noteq> []" if "w \<in> set (wdb_works db)" for w
    using assms(1) that by (auto simp: work_table_inv_def work_check_def)
  then show "\<forall>w\<in>set ws. work_row db (wm_TenantID w) (wm_WorkID w) = Some w \<and> wm_TenantID w \<noteq> []"
    using mem work_row_unique [OF assms(1)] by (auto simp: work_key_def)
qed

section \<open>Properties\<close>

text \<open>C22: recovery after a restart. Whatever other clients do in the meantime, every scanned record
  is counted once, as recovered or as skipped. When the manager is alone on a store without
  faults, nothing is skipped, every submitted or working record is submitted at its next version,
  with the reason of the restart, and every other record is as it was.\<close>

theorem recovery_resubmits_pending:
  assumes "work_table_inv db" and "\<And>q. \<not> wdb_fault db q"
    and "RecoverPendingWork now newID others (Some db) = (Inr report, Some db')"
  shows "rp_TotalScanned report = rp_Recovered report + rp_Skipped report \<and>
    length (rp_WorkIDs report) = rp_Recovered report \<and>
    ((\<forall>i. others i = []) \<longrightarrow>
       rp_Skipped report = 0 \<and>
       (\<forall>t i w. work_row db t i = Some w \<longrightarrow>
          work_row db' t i = Some (if wm_State w \<in> {''SUBMITTED'', ''WORKING''}
                                   then set_work_state now ''SUBMITTED'' recovery_reason w else w)))"
proof -
  let ?r0 = "\<lambda>n. \<lparr>rp_TotalScanned = n, rp_Recovered = 0, rp_Skipped = 0, rp_WorkIDs = []\<rparr>"
  obtain ws where ws: "ListPendingWorkForRecovery db = Inr ws"
      "recover_loop now newID others db ws (?r0 (length ws)) = (report, db')"
    using assms(3) by (auto simp: RecoverPendingWork_def split: sum.splits prod.splits)
  note counts = recover_loop_counts [OF ws(2)]
  note pending = pending_rows [OF assms(1) ws(1)]
  have "rp_Skipped report = 0 \<and> (\<forall>t i w. work_row db t i = Some w \<longrightarrow>
      work_row db' t i = Some (if wm_State w \<in> {''SUBMITTED'', ''WORKING''}
                               then set_work_state now ''SUBMITTED'' recovery_reason w else w))"
    if "\<forall>i. others i = []"
  proof -
    have "others = (\<lambda>_. [])" using that by auto
    note alone = recover_loop_alone [OF assms(1,2) pending(1,3) ws(2) [unfolded this]]
    have "work_row db' t i = Some (if wm_State w \<in> {''SUBMITTED'', ''WORKING''}
        then set_work_state now ''SUBMITTED'' recovery_reason w else w)" if row: "work_row db t i = Some w" for t i w
    proof -
      have w: "w \<in> set (wdb_works db)" "work_key w = (t, i)"
        using row find_Some_in [of _ "wdb_works db" w] by (auto simp: work_row_def)
      show ?thesis
      proof (cases "wm_State w \<in> {''SUBMITTED'', ''WORKING''}")
        case True
        then show ?thesis using alone w pending(2) by (auto simp: work_key_def)
      next
        case False
        have "(t, i) \<notin> work_key ` set ws"
        proof
          assume "(t, i) \<in> work_key ` set ws"
          then obtain v where "v \<in> set ws" "work_key v = (t, i)" by auto
          then show False using False pending(2) work_row_unique [OF assms(1), of v t i] row by auto
        qed
        then show ?thesis using alone row False by simp
      qed
    qed
    then show ?thesis using alone by simp
  qed
  then show ?thesis using counts by simp
qed

theorem recovery_resubmits_pending_witness:
  "\<exists>report db'. RecoverPendingWork 9 (\<lambda>i. i @ ''-e'') (\<lambda>_. []) (Some sample_tree_db) = (Inr report, Some db') \<and>
     rp_Skipped report = 0 \<and> work_row db' ''default'' ''w1'' = Some (set_work_state 9 ''SUBMITTED'' recovery_reason sample_row)"
proof -
  obtain report db' where r: "RecoverPendingWork 9 (\<lambda>i. i @ ''-e'') (\<lambda>_. []) (Some sample_tree_db) = (Inr report, Some db')"
    by (cases "RecoverPendingWork 9 (\<lambda>i. i @ ''-e'') (\<lambda>_. []) (Some sample_tree_db)")
      (auto simp: RecoverPendingWork_def ListPendingWorkForRecovery_def sample_tree_no_fault split: prod.splits)
  from recovery_resubmits_pending [OF sample_tree_inv _ r] sample_tree_no_fault show ?thesis
    using r sample_tree_rows(1) sample_fields(6) by fastforce
qed

end
