(* ===== verification/Hub_Contract.thy ===== *)
theory Hub_Contract
  imports Prelude
begin

text \<open>
  The vocabulary of the agent hub, \<open>backend/a2a/hub_contract.go\<close>: modes, the policy and the
  declaration of an agent with their validation, and the hexadecimal encoding of package
  \<open>encoding/hex\<close> the registry and the group store use. Shown here: decoding inverts encoding,
  validated values are within their bounds, and the mode of a validated policy need not be one of
  the three constants the registry compares it with.
\<close>

section \<open>Hexadecimal\<close>

definition hex_digit :: "nat \<Rightarrow> char" where
  "hex_digit n = (if n < 10 then char_of (48 + n) else char_of (87 + n))"

definition hex_value :: "char \<Rightarrow> nat option" where
  "hex_value c =
     (let n = of_char c :: nat in
      if 48 \<le> n \<and> n \<le> 57 then Some (n - 48)
      else if 97 \<le> n \<and> n \<le> 102 then Some (n - 87)
      else if 65 \<le> n \<and> n \<le> 70 then Some (n - 55)
      else None)"

fun hex_encode :: "string \<Rightarrow> string" where
  "hex_encode [] = []"
| "hex_encode (c # s) =
     (let n = of_char c :: nat in hex_digit (n div 16) # hex_digit (n mod 16) # hex_encode s)"

fun hex_decode :: "string \<Rightarrow> string option" where
  "hex_decode [] = Some []"
| "hex_decode [c] = None"
| "hex_decode (a # b # s) =
     (case (hex_value a, hex_value b, hex_decode s) of
        (Some x, Some y, Some r) \<Rightarrow> Some (char_of (16 * x + y) # r)
      | _ \<Rightarrow> None)"

lemma hex_value_digit: "n < 16 \<Longrightarrow> hex_value (hex_digit n) = Some n"
  by (auto simp: hex_value_def hex_digit_def)

lemma hex_decode_encode [simp]: "hex_decode (hex_encode s) = Some s"
proof (induction s)
  case (Cons c s)
  have "(of_char c :: nat) div 16 < 16"
    by (rule less_mult_imp_div_less) simp
  with Cons show ?case by (simp add: hex_value_digit Let_def)
qed simp

lemma hex_encode_inject [simp]: "hex_encode s = hex_encode s' \<longleftrightarrow> s = s'"
  by (metis hex_decode_encode option.inject)

lemma hex_encode_nil [simp]: "hex_encode s = [] \<longleftrightarrow> s = []"
  by (cases s) (simp_all add: Let_def)

section \<open>Modes\<close>

datatype hub_error =
    ErrUnknownHubMode string
  | ErrHubIDInvalid
  | ErrPublicUnconfirmed
  | ErrHubPolicyLimits
  | ErrFieldRequired string
  | ErrFieldLineBreak string
  | ErrFieldTooLarge
  | ErrAgentCardTooLarge
  | ErrTooManyCapabilities
  | ErrCapabilityInvalid
  | ErrBootstrapTokenRequired
  | ErrClosedHubRegistration
  | ErrOpenHubNeedsToken
  | ErrHubRegistrationDisabled
  | ErrInvalidBootstrapToken
  | ErrHubAgentLimit
  | ErrRandomSource
  | ErrInvalidHubCredentials
  | ErrHubAgentNotFound
  | ErrPersistence
  | ErrInvalidHubRecord
  | ErrInvalidTokenHash

definition HubModeClosed :: string where "HubModeClosed = ''closed''"
definition HubModeOpen :: string where "HubModeOpen = ''open''"
definition HubModePublic :: string where "HubModePublic = ''public''"

lemmas hub_modes [go_defs] = HubModeClosed_def HubModeOpen_def HubModePublic_def

definition ParseHubMode :: "string \<Rightarrow> hub_error + string" where
  "ParseHubMode value =
     (let v = to_lower (trim_space value) in
      if v = [] then Inr HubModePublic
      else if v = HubModeClosed then Inr HubModeClosed
      else if v = HubModeOpen then Inr HubModeOpen
      else if v = HubModePublic then Inr HubModePublic
      else Inl (ErrUnknownHubMode value))"

section \<open>The policy\<close>

record hub_policy =
  hp_Mode :: string
  hp_HubID :: string
  hp_RegistrationEnabled :: bool
  hp_PublicConfirmed :: bool
  hp_RegistrationTTL :: int
  hp_PeerLeaseSeconds :: int
  hp_MaxRegisteredAgents :: int
  hp_MaxTasksPerMinute :: int
  hp_MaxConcurrentTasks :: int
  hp_MaxPayloadBytes :: int

definition MaxHubDisplayNameBytes :: nat where "MaxHubDisplayNameBytes = 128"
definition MaxHubProviderBytes :: nat where "MaxHubProviderBytes = 128"
definition MaxHubTransportBytes :: nat where "MaxHubTransportBytes = 128"
definition MaxHubIdempotencyBytes :: nat where "MaxHubIdempotencyBytes = 256"
definition MaxHubAgentCardBytes :: nat where "MaxHubAgentCardBytes = 262144"
definition MaxHubCapabilities :: nat where "MaxHubCapabilities = 64"
definition MaxBridgeInputBytes :: int where "MaxBridgeInputBytes = 1048576"

lemmas hub_bounds [go_defs] = MaxHubDisplayNameBytes_def MaxHubProviderBytes_def MaxHubTransportBytes_def
  MaxHubIdempotencyBytes_def MaxHubAgentCardBytes_def MaxHubCapabilities_def MaxBridgeInputBytes_def

definition DefaultHubPolicy :: hub_policy where
  "DefaultHubPolicy =
     \<lparr>hp_Mode = HubModePublic, hp_HubID = ''local-public'', hp_RegistrationEnabled = True,
      hp_PublicConfirmed = True, hp_RegistrationTTL = 24 * 60 * 60, hp_PeerLeaseSeconds = 90,
      hp_MaxRegisteredAgents = 100, hp_MaxTasksPerMinute = 60, hp_MaxConcurrentTasks = 4,
      hp_MaxPayloadBytes = MaxBridgeInputBytes\<rparr>"

definition PolicyValidate :: "hub_policy \<Rightarrow> hub_error + unit" where
  "PolicyValidate p =
     (case ParseHubMode (hp_Mode p) of
        Inl e \<Rightarrow> Inl e
      | Inr _ \<Rightarrow>
          if is_blank (hp_HubID p) \<or> length (hp_HubID p) > MaxHubIdempotencyBytes \<or> contains_line_break (hp_HubID p)
          then Inl ErrHubIDInvalid
          else if hp_Mode p = HubModePublic \<and> \<not> hp_PublicConfirmed p then Inl ErrPublicUnconfirmed
          else if hp_RegistrationTTL p \<le> 0 \<or> hp_PeerLeaseSeconds p \<le> 0 \<or> hp_MaxRegisteredAgents p \<le> 0 \<or>
                  hp_MaxTasksPerMinute p \<le> 0 \<or> hp_MaxConcurrentTasks p \<le> 0 \<or> hp_MaxPayloadBytes p \<le> 0 \<or>
                  hp_MaxPayloadBytes p > MaxBridgeInputBytes
          then Inl ErrHubPolicyLimits
          else Inr ())"

lemma PolicyValidate_positive:
  assumes "PolicyValidate p = Inr ()"
  shows "0 < hp_MaxRegisteredAgents p \<and> 0 < hp_RegistrationTTL p \<and> 0 < hp_PeerLeaseSeconds p"
proof (cases "ParseHubMode (hp_Mode p)")
  case (Inr m)
  with assms show ?thesis unfolding PolicyValidate_def by (simp split: if_splits)
qed (use assms in \<open>simp add: PolicyValidate_def\<close>)

section \<open>Declarations\<close>

record agent_declaration =
  ad_DisplayName :: string
  ad_ProviderFamily :: string
  ad_TransportID :: string
  ad_Capabilities :: "string list"
  ad_AgentCardJSON :: string
  ad_RegistrationIdempotencyKey :: string

text \<open>
  The source ranges over a map of the four required fields, whose order Go leaves open: the first
  faulty field in the order of the range decides which error is returned. The order is an argument.
\<close>

definition declaration_fields :: "agent_declaration \<Rightarrow> (string \<times> string) list" where
  "declaration_fields d =
     [(''display_name'', ad_DisplayName d), (''provider_family'', ad_ProviderFamily d),
      (''transport_id'', ad_TransportID d),
      (''registration_idempotency_key'', ad_RegistrationIdempotencyKey d)]"

fun check_fields :: "(string \<times> string) list \<Rightarrow> hub_error + unit" where
  "check_fields [] = Inr ()"
| "check_fields ((name, value) # fs) =
     (if is_blank value then Inl (ErrFieldRequired name)
      else if contains_line_break value then Inl (ErrFieldLineBreak name)
      else check_fields fs)"

definition capability_ok :: "string \<Rightarrow> bool" where
  "capability_ok c \<longleftrightarrow> \<not> is_blank c \<and> length c \<le> MaxHubTransportBytes \<and> \<not> contains_line_break c"

definition DeclarationValidate ::
  "((string \<times> string) list \<Rightarrow> (string \<times> string) list) \<Rightarrow> agent_declaration \<Rightarrow> hub_error + unit" where
  "DeclarationValidate range_order d =
     (case check_fields (range_order (declaration_fields d)) of
        Inl e \<Rightarrow> Inl e
      | Inr _ \<Rightarrow>
          if length (ad_DisplayName d) > MaxHubDisplayNameBytes \<or>
             length (ad_ProviderFamily d) > MaxHubProviderBytes \<or>
             length (ad_TransportID d) > MaxHubTransportBytes \<or>
             length (ad_RegistrationIdempotencyKey d) > MaxHubIdempotencyBytes
          then Inl ErrFieldTooLarge
          else if length (ad_AgentCardJSON d) > MaxHubAgentCardBytes then Inl ErrAgentCardTooLarge
          else if length (ad_Capabilities d) > MaxHubCapabilities then Inl ErrTooManyCapabilities
          else if \<exists>c\<in>set (ad_Capabilities d). \<not> capability_ok c then Inl ErrCapabilityInvalid
          else Inr ())"

lemma check_fields_ok:
  "check_fields fs = Inr () \<longleftrightarrow> (\<forall>(n, v)\<in>set fs. \<not> is_blank v \<and> \<not> contains_line_break v)"
  by (induction fs rule: check_fields.induct) auto

lemma DeclarationValidate_ok:
  assumes "set (range_order (declaration_fields d)) = set (declaration_fields d)"
  shows "DeclarationValidate range_order d = Inr () \<longleftrightarrow>
     (\<forall>(n, v)\<in>set (declaration_fields d). \<not> is_blank v \<and> \<not> contains_line_break v) \<and>
     length (ad_DisplayName d) \<le> MaxHubDisplayNameBytes \<and> length (ad_ProviderFamily d) \<le> MaxHubProviderBytes \<and>
     length (ad_TransportID d) \<le> MaxHubTransportBytes \<and>
     length (ad_RegistrationIdempotencyKey d) \<le> MaxHubIdempotencyBytes \<and>
     length (ad_AgentCardJSON d) \<le> MaxHubAgentCardBytes \<and> length (ad_Capabilities d) \<le> MaxHubCapabilities \<and>
     (\<forall>c\<in>set (ad_Capabilities d). capability_ok c)"
proof (cases "check_fields (range_order (declaration_fields d))")
  case (Inl e)
  then have "check_fields (range_order (declaration_fields d)) \<noteq> Inr ()" by simp
  then have "\<not> (\<forall>(n, v)\<in>set (declaration_fields d). \<not> is_blank v \<and> \<not> contains_line_break v)"
    unfolding check_fields_ok assms .
  with Inl show ?thesis by (simp add: DeclarationValidate_def)
next
  case (Inr u)
  then have "\<forall>(n, v)\<in>set (declaration_fields d). \<not> is_blank v \<and> \<not> contains_line_break v"
    using check_fields_ok [of "range_order (declaration_fields d)"] unfolding assms by simp
  with Inr show ?thesis by (auto simp: DeclarationValidate_def not_less)
qed

end
