(* ===== verification/Hub_Registry.thy ===== *)
theory Hub_Registry
  imports Hub_Contract
begin

text \<open>
  The agent registry of the hub, \<open>backend/a2a/hub_registry.go\<close>: enrollment, credentials,
  leases, revocation, the policy switches, and reloading after a restart. A method that runs under
  the registry's mutex is one function on the registry. Arguments of the model: \<open>sha\<close> is
  \<open>sha256.Sum256\<close>, \<open>rnd\<close> the bytes of \<open>crypto/rand\<close> (\<open>None\<close> when reading them
  fails), \<open>uuid\<close> what \<open>uuid.NewString\<close> returns, \<open>now\<close> the clock, and \<open>fails\<close> whether
  the call of the persistence adapter fails; the adapter's calls are recorded in order.

  Shown here: in every history the number of live agents stays within the policy's limit; a
  revoked agent never authenticates again; an issued token authenticates until the registration
  expires, alone, and also after a restart from the persisted records; and the switch from one
  token to the next.
\<close>

section \<open>Agents\<close>

definition HubAgentStatePending :: string where "HubAgentStatePending = ''PENDING''"
definition HubAgentStateOnline :: string where "HubAgentStateOnline = ''ONLINE''"
definition HubAgentStateOffline :: string where "HubAgentStateOffline = ''OFFLINE''"
definition HubAgentStateRevoked :: string where "HubAgentStateRevoked = ''REVOKED''"
definition HubAgentStateExpired :: string where "HubAgentStateExpired = ''EXPIRED''"

lemmas agent_states [go_defs] = HubAgentStatePending_def HubAgentStateOnline_def HubAgentStateOffline_def
  HubAgentStateRevoked_def HubAgentStateExpired_def

record issued_agent_identity =
  ii_HubID :: string
  ii_AgentID :: string
  ii_AgentToken :: string
  ii_ExpiresAt :: instant

record registered_agent =
  ra_HubID :: string
  ra_AgentID :: string
  ra_DisplayName :: string
  ra_ProviderFamily :: string
  ra_TransportID :: string
  ra_Capabilities :: "string list"
  ra_AgentCardJSON :: string
  ra_State :: string
  ra_AutomaticExecution :: bool
  ra_LastSeenAt :: instant
  ra_ExpiresAt :: instant
  ra_CreatedAt :: instant
  ra_RevokedAt :: "instant option"
  ra_RevokeReason :: string
  ra_registrationHash :: string
  ra_tokenHash :: string
  ra_LeaseExpiresAt :: instant

record hub_agent_card =
  hc_Name :: string
  hc_Version :: string
  hc_ProviderFamily :: string
  hc_TransportID :: string
  hc_Capabilities :: "string list"
  hc_AutomaticExecution :: bool

record hub_agent_view =
  hv_HubID :: string
  hv_AgentID :: string
  hv_DisplayName :: string
  hv_ProviderFamily :: string
  hv_TransportID :: string
  hv_Capabilities :: "string list"
  hv_State :: string
  hv_LastSeenAt :: instant
  hv_ExpiresAt :: instant
  hv_AutomaticExecution :: bool
  hv_Card :: hub_agent_card

record hub_agent_record =
  rec_Agent :: registered_agent
  rec_RegistrationHash :: string
  rec_TokenHash :: string

datatype persist_call =
    SaveHubAgent hub_agent_record
  | HeartbeatHubAgent string string string instant duration
  | RotateHubAgent string string string instant
  | DisconnectHubAgent string string instant
  | RevokeHubAgent string string string instant
  | UpdateHubPolicy string string bool bool

record hub_registry =
  hr_policy :: hub_policy
  hr_bootstrapHash :: string
  hr_agents :: "(string \<times> registered_agent) list"
  hr_byRegistration :: "(string \<times> string) list"
  hr_persistent :: bool
  hr_persistsPolicy :: bool
  hr_calls :: "persist_call list"
  hr_operatorHash :: string

definition zero_hash :: string where
  "zero_hash = replicate 32 (CHR 0x00)"

section \<open>Helpers\<close>

definition matchesHash :: "(string \<Rightarrow> string) \<Rightarrow> string \<Rightarrow> string \<Rightarrow> bool" where
  "matchesHash sha value expected \<longleftrightarrow> sha value = expected"

definition hashHubSecretHex :: "(string \<Rightarrow> string) \<Rightarrow> string \<Rightarrow> string" where
  "hashHubSecretHex sha value = hex_encode (sha value)"

definition randomHubToken :: "string option \<Rightarrow> hub_error + string" where
  "randomHubToken rnd = (case rnd of None \<Rightarrow> Inl ErrRandomSource | Some b \<Rightarrow> Inr (''hat_'' @ hex_encode b))"

definition new_agent_id :: "string \<Rightarrow> string" where
  "new_agent_id uuid = ''agt_'' @ filter (\<lambda>c. c \<noteq> CHR ''-'') uuid"

definition cloneRegisteredAgent :: "registered_agent \<Rightarrow> registered_agent" where
  "cloneRegisteredAgent a = a\<lparr>ra_registrationHash := [], ra_tokenHash := zero_hash\<rparr>"

definition View :: "registered_agent \<Rightarrow> hub_agent_view" where
  "View a =
     \<lparr>hv_HubID = ra_HubID a, hv_AgentID = ra_AgentID a, hv_DisplayName = ra_DisplayName a,
      hv_ProviderFamily = ra_ProviderFamily a, hv_TransportID = ra_TransportID a,
      hv_Capabilities = ra_Capabilities a, hv_State = ra_State a, hv_LastSeenAt = ra_LastSeenAt a,
      hv_ExpiresAt = ra_ExpiresAt a, hv_AutomaticExecution = ra_AutomaticExecution a,
      hv_Card = \<lparr>hc_Name = ra_DisplayName a, hc_Version = ''1.0'', hc_ProviderFamily = ra_ProviderFamily a,
                 hc_TransportID = ra_TransportID a, hc_Capabilities = ra_Capabilities a,
                 hc_AutomaticExecution = ra_AutomaticExecution a\<rparr>\<rparr>"

definition live_state :: "string \<Rightarrow> bool" where
  "live_state s \<longleftrightarrow> s \<noteq> HubAgentStateRevoked \<and> s \<noteq> HubAgentStateExpired"

definition activeAgentCountLocked :: "hub_registry \<Rightarrow> nat" where
  "activeAgentCountLocked r = length (filter (\<lambda>(i, a). live_state (ra_State a)) (hr_agents r))"

definition expires_now :: "instant \<Rightarrow> registered_agent \<Rightarrow> bool" where
  "expires_now now a \<longleftrightarrow>
     ra_State a \<in> {HubAgentStatePending, HubAgentStateOnline, HubAgentStateOffline} \<and> \<not> now < ra_ExpiresAt a"

definition reconcile_agent :: "instant \<Rightarrow> registered_agent \<Rightarrow> registered_agent" where
  "reconcile_agent now a =
     (if expires_now now a then a\<lparr>ra_State := HubAgentStateExpired\<rparr>
      else if ra_State a \<in> {HubAgentStatePending, HubAgentStateOnline} \<and> \<not> now < ra_LeaseExpiresAt a
      then a\<lparr>ra_State := HubAgentStateOffline\<rparr>
      else a)"

definition reconcileLocked :: "instant \<Rightarrow> hub_registry \<Rightarrow> registered_agent list \<times> hub_registry" where
  "reconcileLocked now r =
     (map (\<lambda>(i, a). cloneRegisteredAgent (reconcile_agent now a))
        (filter (\<lambda>(i, a). expires_now now a) (hr_agents r)),
      r\<lparr>hr_agents := map (\<lambda>(i, a). (i, reconcile_agent now a)) (hr_agents r)\<rparr>)"

definition lease :: "hub_policy \<Rightarrow> duration" where
  "lease p = i64 (hp_PeerLeaseSeconds p * second)"

text \<open>A call of the persistence adapter, when there is one.\<close>

definition persist :: "bool \<Rightarrow> persist_call \<Rightarrow> hub_registry \<Rightarrow> hub_error + hub_registry" where
  "persist fails call r =
     (if \<not> hr_persistent r then Inr r
      else if fails then Inl ErrPersistence
      else Inr (r\<lparr>hr_calls := hr_calls r @ [call]\<rparr>))"

section \<open>Construction and policy\<close>

definition newHubRegistry ::
  "(string \<Rightarrow> string) \<Rightarrow> hub_policy \<Rightarrow> string \<Rightarrow> bool \<Rightarrow> bool \<Rightarrow> hub_error + hub_registry" where
  "newHubRegistry sha policy0 bootstrapToken persistent persistsPolicy =
     (let policy = policy0\<lparr>hp_Mode := (if hp_Mode policy0 = [] then HubModeClosed else hp_Mode policy0)\<rparr> in
      case PolicyValidate policy of
        Inl e \<Rightarrow> Inl e
      | Inr _ \<Rightarrow>
          if hp_Mode policy = HubModeOpen \<and> is_blank bootstrapToken then Inl ErrBootstrapTokenRequired
          else Inr \<lparr>hr_policy = policy, hr_bootstrapHash = sha bootstrapToken, hr_agents = [],
                    hr_byRegistration = [], hr_persistent = persistent, hr_persistsPolicy = persistsPolicy,
                    hr_calls = [], hr_operatorHash = zero_hash\<rparr>)"

definition MaxTasksPerMinute :: "hub_registry \<Rightarrow> int" where
  "MaxTasksPerMinute r = hp_MaxTasksPerMinute (hr_policy r)"

definition SetOperatorToken :: "(string \<Rightarrow> string) \<Rightarrow> hub_registry \<Rightarrow> string \<Rightarrow> hub_registry" where
  "SetOperatorToken sha r token = r\<lparr>hr_operatorHash := sha token\<rparr>"

definition AuthorizeOperator :: "(string \<Rightarrow> string) \<Rightarrow> hub_registry \<Rightarrow> string \<Rightarrow> bool" where
  "AuthorizeOperator sha r token \<longleftrightarrow> \<not> is_blank token \<and> matchesHash sha token (hr_operatorHash r)"

definition persist_policy :: "bool \<Rightarrow> hub_registry \<Rightarrow> hub_policy \<Rightarrow> (hub_error + unit) \<times> hub_registry" where
  "persist_policy fails r p =
     (if \<not> hr_persistsPolicy r then (Inr (), r\<lparr>hr_policy := p\<rparr>)
      else if fails then (Inl ErrPersistence, r)
      else (Inr (), r\<lparr>hr_policy := p, hr_calls := hr_calls r @
              [UpdateHubPolicy (hp_HubID p) (hp_Mode p) (hp_RegistrationEnabled p) (hp_PublicConfirmed p)]\<rparr>))"

definition SetRegistrationEnabledContext ::
  "hub_registry \<Rightarrow> bool \<Rightarrow> bool \<Rightarrow> (hub_error + unit) \<times> hub_registry" where
  "SetRegistrationEnabledContext r fails enabled =
     (if enabled \<and> hp_Mode (hr_policy r) = HubModeClosed then (Inl ErrClosedHubRegistration, r)
      else persist_policy fails r ((hr_policy r)\<lparr>hp_RegistrationEnabled := enabled\<rparr>))"

definition SetModeContext ::
  "(string \<Rightarrow> string) \<Rightarrow> hub_registry \<Rightarrow> bool \<Rightarrow> string \<Rightarrow> (hub_error + unit) \<times> hub_registry" where
  "SetModeContext sha r fails mode =
     (case ParseHubMode mode of
        Inl e \<Rightarrow> (Inl e, r)
      | Inr parsed \<Rightarrow>
          if parsed = HubModeOpen \<and> matchesHash sha [] (hr_bootstrapHash r) then (Inl ErrOpenHubNeedsToken, r)
          else if parsed = HubModePublic \<and> \<not> hp_PublicConfirmed (hr_policy r) then (Inl ErrPublicUnconfirmed, r)
          else persist_policy fails r ((hr_policy r)\<lparr>hp_Mode := parsed,
                 hp_RegistrationEnabled := (parsed \<noteq> HubModeClosed)\<rparr>))"

section \<open>Enrollment\<close>

definition enrolled_agent ::
  "(string \<Rightarrow> string) \<Rightarrow> hub_policy \<Rightarrow> instant \<Rightarrow> string \<Rightarrow> string \<Rightarrow> string \<Rightarrow> agent_declaration \<Rightarrow> registered_agent" where
  "enrolled_agent sha p now agentID token registrationHash d =
     \<lparr>ra_HubID = hp_HubID p, ra_AgentID = agentID, ra_DisplayName = ad_DisplayName d,
      ra_ProviderFamily = ad_ProviderFamily d, ra_TransportID = ad_TransportID d,
      ra_Capabilities = ad_Capabilities d, ra_AgentCardJSON = ''{}'', ra_State = HubAgentStatePending,
      ra_AutomaticExecution = False, ra_LastSeenAt = 0, ra_ExpiresAt = now + i64 (hp_RegistrationTTL p * second),
      ra_CreatedAt = now, ra_RevokedAt = None, ra_RevokeReason = [], ra_registrationHash = registrationHash,
      ra_tokenHash = sha token, ra_LeaseExpiresAt = now + lease p\<rparr>"

definition agent_record :: "registered_agent \<Rightarrow> hub_agent_record" where
  "agent_record a = \<lparr>rec_Agent = a, rec_RegistrationHash = ra_registrationHash a,
                     rec_TokenHash = hex_encode (ra_tokenHash a)\<rparr>"

definition enroll_new ::
  "(string \<Rightarrow> string) \<Rightarrow> hub_registry \<Rightarrow> instant \<Rightarrow> string option \<Rightarrow> string \<Rightarrow> bool \<Rightarrow> string
     \<Rightarrow> agent_declaration \<Rightarrow> (hub_error + issued_agent_identity) \<times> hub_registry" where
  "enroll_new sha r now rnd uuid fails rh d =
     (let p = hr_policy r in
      if i32 (int (activeAgentCountLocked r)) \<ge> hp_MaxRegisteredAgents p then (Inl ErrHubAgentLimit, r)
      else case randomHubToken rnd of
        Inl e \<Rightarrow> (Inl e, r)
      | Inr token \<Rightarrow>
          let agentID = new_agent_id uuid;
              a = enrolled_agent sha p now agentID token rh d in
          (case persist fails (SaveHubAgent (agent_record a)) r of
             Inl e \<Rightarrow> (Inl e, r)
           | Inr r' \<Rightarrow>
               (Inr \<lparr>ii_HubID = hp_HubID p, ii_AgentID = agentID, ii_AgentToken = token,
                     ii_ExpiresAt = ra_ExpiresAt a\<rparr>,
                r'\<lparr>hr_agents := assoc_set agentID a (hr_agents r'),
                   hr_byRegistration := assoc_set rh agentID (hr_byRegistration r')\<rparr>)))"

definition RegisterContext ::
  "(string \<Rightarrow> string) \<Rightarrow> ((string \<times> string) list \<Rightarrow> (string \<times> string) list) \<Rightarrow> hub_registry \<Rightarrow> instant
     \<Rightarrow> string option \<Rightarrow> string \<Rightarrow> bool \<Rightarrow> string \<Rightarrow> agent_declaration
     \<Rightarrow> (hub_error + issued_agent_identity) \<times> hub_registry" where
  "RegisterContext sha range_order r now rnd uuid fails bootstrapToken d =
     (let p = hr_policy r in
      if hp_Mode p = HubModeClosed \<or> \<not> hp_RegistrationEnabled p then (Inl ErrHubRegistrationDisabled, r)
      else case DeclarationValidate range_order d of
        Inl e \<Rightarrow> (Inl e, r)
      | Inr _ \<Rightarrow>
      if hp_Mode p = HubModeOpen \<and> \<not> matchesHash sha bootstrapToken (hr_bootstrapHash r)
      then (Inl ErrInvalidBootstrapToken, r)
      else
        let rh = hashHubSecretHex sha (ad_RegistrationIdempotencyKey d);
            r1 = snd (reconcileLocked now r) in
        case Option.bind (map_of (hr_byRegistration r1) rh) (map_of (hr_agents r1)) of
          Some a \<Rightarrow>
            if live_state (ra_State a)
            then (Inr \<lparr>ii_HubID = hp_HubID p, ii_AgentID = ra_AgentID a, ii_AgentToken = [],
                       ii_ExpiresAt = ra_ExpiresAt a\<rparr>, r1)
            else enroll_new sha r1 now rnd uuid fails rh d
        | None \<Rightarrow> enroll_new sha r1 now rnd uuid fails rh d)"

section \<open>Credentials\<close>

text \<open>The check every credentialed call starts with, after the reconciliation.\<close>

definition credentialed :: "(string \<Rightarrow> string) \<Rightarrow> hub_registry \<Rightarrow> string \<Rightarrow> string \<Rightarrow> registered_agent option" where
  "credentialed sha r agentID token =
     (case map_of (hr_agents r) agentID of
        None \<Rightarrow> None
      | Some a \<Rightarrow> if live_state (ra_State a) \<and> matchesHash sha token (ra_tokenHash a) then Some a else None)"

definition put_agent :: "string \<Rightarrow> registered_agent \<Rightarrow> hub_registry \<Rightarrow> hub_registry" where
  "put_agent agentID a r = r\<lparr>hr_agents := assoc_set agentID a (hr_agents r)\<rparr>"

definition Authenticate ::
  "(string \<Rightarrow> string) \<Rightarrow> hub_registry \<Rightarrow> instant \<Rightarrow> string \<Rightarrow> string
     \<Rightarrow> (hub_error + registered_agent) \<times> hub_registry" where
  "Authenticate sha r now agentID token =
     (let r1 = snd (reconcileLocked now r) in
      case credentialed sha r1 agentID token of
        None \<Rightarrow> (Inl ErrInvalidHubCredentials, r1)
      | Some a \<Rightarrow> (Inr (cloneRegisteredAgent a), r1))"

definition DisconnectContext ::
  "(string \<Rightarrow> string) \<Rightarrow> hub_registry \<Rightarrow> instant \<Rightarrow> bool \<Rightarrow> string \<Rightarrow> string
     \<Rightarrow> (hub_error + registered_agent) \<times> hub_registry" where
  "DisconnectContext sha r now fails agentID token =
     (let r1 = snd (reconcileLocked now r) in
      case credentialed sha r1 agentID token of
        None \<Rightarrow> (Inl ErrInvalidHubCredentials, r1)
      | Some a \<Rightarrow>
          (case persist fails (DisconnectHubAgent (hp_HubID (hr_policy r1)) agentID now) r1 of
             Inl e \<Rightarrow> (Inl e, r1)
           | Inr r2 \<Rightarrow>
               let a' = a\<lparr>ra_State := HubAgentStateOffline, ra_LastSeenAt := now\<rparr> in
               (Inr (cloneRegisteredAgent a'), put_agent agentID a' r2)))"

definition HeartbeatContext ::
  "(string \<Rightarrow> string) \<Rightarrow> hub_registry \<Rightarrow> instant \<Rightarrow> bool \<Rightarrow> string \<Rightarrow> string
     \<Rightarrow> (hub_error + registered_agent) \<times> hub_registry" where
  "HeartbeatContext sha r now fails agentID token =
     (let r1 = snd (reconcileLocked now r);
          p = hr_policy r1 in
      case credentialed sha r1 agentID token of
        None \<Rightarrow> (Inl ErrInvalidHubCredentials, r1)
      | Some a \<Rightarrow>
          (case persist fails (HeartbeatHubAgent (hp_HubID p) agentID (hex_encode (ra_tokenHash a)) now (lease p)) r1 of
             Inl e \<Rightarrow> (Inl e, r1)
           | Inr r2 \<Rightarrow>
               let a' = a\<lparr>ra_State := HubAgentStateOnline, ra_LastSeenAt := now, ra_LeaseExpiresAt := now + lease p\<rparr> in
               (Inr (cloneRegisteredAgent a'), put_agent agentID a' r2)))"

definition RotateTokenContext ::
  "(string \<Rightarrow> string) \<Rightarrow> hub_registry \<Rightarrow> instant \<Rightarrow> string option \<Rightarrow> bool \<Rightarrow> string
     \<Rightarrow> (hub_error + string) \<times> hub_registry" where
  "RotateTokenContext sha r now rnd fails agentID =
     (case randomHubToken rnd of
        Inl e \<Rightarrow> (Inl e, r)
      | Inr token \<Rightarrow>
      (case map_of (hr_agents r) agentID of
        None \<Rightarrow> (Inl ErrHubAgentNotFound, r)
      | Some a \<Rightarrow>
          if \<not> live_state (ra_State a) then (Inl ErrHubAgentNotFound, r)
          else case persist fails (RotateHubAgent (hp_HubID (hr_policy r)) agentID (hashHubSecretHex sha token) now) r of
            Inl e \<Rightarrow> (Inl e, r)
          | Inr r1 \<Rightarrow> (Inr token, put_agent agentID (a\<lparr>ra_tokenHash := sha token\<rparr>) r1)))"

definition RevokeContext ::
  "hub_registry \<Rightarrow> instant \<Rightarrow> bool \<Rightarrow> string \<Rightarrow> string \<Rightarrow> (hub_error + unit) \<times> hub_registry" where
  "RevokeContext r now fails agentID reason =
     (case map_of (hr_agents r) agentID of
        None \<Rightarrow> (Inl ErrHubAgentNotFound, r)
      | Some a \<Rightarrow>
          if ra_State a = HubAgentStateRevoked then (Inr (), r)
          else case persist fails (RevokeHubAgent (hp_HubID (hr_policy r)) agentID reason now) r of
            Inl e \<Rightarrow> (Inl e, r)
          | Inr r1 \<Rightarrow>
              (Inr (), put_agent agentID (a\<lparr>ra_State := HubAgentStateRevoked, ra_RevokedAt := Some now,
                         ra_RevokeReason := trim_space reason\<rparr>) r1))"

section \<open>Restart and listing\<close>

definition loaded_agent :: "hub_policy \<Rightarrow> hub_agent_record \<Rightarrow> string \<Rightarrow> registered_agent" where
  "loaded_agent p rec tokenHash =
     (let a = rec_Agent rec in
      a\<lparr>ra_registrationHash := rec_RegistrationHash rec, ra_tokenHash := tokenHash,
        ra_LeaseExpiresAt := (if time_is_zero (ra_LastSeenAt a) then ra_CreatedAt a + lease p
                              else ra_LastSeenAt a + lease p)\<rparr>)"

fun Load :: "hub_registry \<Rightarrow> hub_agent_record list \<Rightarrow> (hub_error + unit) \<times> hub_registry" where
  "Load r [] = (Inr (), r)"
| "Load r (rec # recs) =
     (if ra_HubID (rec_Agent rec) \<noteq> hp_HubID (hr_policy r) \<or> ra_AgentID (rec_Agent rec) = [] \<or>
         rec_RegistrationHash rec = [] \<or> rec_TokenHash rec = []
      then (Inl ErrInvalidHubRecord, r)
      else case hex_decode (rec_TokenHash rec) of
        None \<Rightarrow> (Inl ErrInvalidTokenHash, r)
      | Some b \<Rightarrow>
          if length b \<noteq> 32 then (Inl ErrInvalidTokenHash, r)
          else
            let a = loaded_agent (hr_policy r) rec b in
            Load (r\<lparr>hr_agents := assoc_set (ra_AgentID a) a (hr_agents r),
                    hr_byRegistration := assoc_set (ra_registrationHash a) (ra_AgentID a) (hr_byRegistration r)\<rparr>) recs)"

definition NewHubRegistryWithPersistence ::
  "(string \<Rightarrow> string) \<Rightarrow> hub_policy \<Rightarrow> string \<Rightarrow> bool \<Rightarrow> (hub_error + hub_agent_record list)
     \<Rightarrow> hub_error + hub_registry" where
  "NewHubRegistryWithPersistence sha policy bootstrapToken persistsPolicy listed =
     (case newHubRegistry sha policy bootstrapToken True persistsPolicy of
        Inl e \<Rightarrow> Inl e
      | Inr r \<Rightarrow>
          (case listed of
             Inl e \<Rightarrow> Inl e
           | Inr recs \<Rightarrow> (case Load r recs of (Inl e, _) \<Rightarrow> Inl e | (Inr _, r') \<Rightarrow> Inr r')))"

definition List :: "hub_registry \<Rightarrow> instant \<Rightarrow> registered_agent list \<times> hub_registry" where
  "List r now =
     (let r1 = snd (reconcileLocked now r) in
      (map (\<lambda>(i, a). cloneRegisteredAgent a) (hr_agents r1), r1))"

definition ListViews :: "hub_registry \<Rightarrow> instant \<Rightarrow> hub_agent_view list \<times> hub_registry" where
  "ListViews r now = (let (as, r1) = List r now in (map View as, r1))"

definition LookupView :: "hub_registry \<Rightarrow> instant \<Rightarrow> string \<Rightarrow> hub_agent_view option \<times> hub_registry" where
  "LookupView r now agentID =
     (let r1 = snd (reconcileLocked now r) in (map_option View (map_of (hr_agents r1) agentID), r1))"

definition Reconcile :: "hub_registry \<Rightarrow> instant \<Rightarrow> registered_agent list \<times> hub_registry" where
  "Reconcile r now = reconcileLocked now r"

section \<open>The invariant\<close>

datatype registry_op =
    RRegister instant "string option" string bool string agent_declaration
  | RAuthenticate instant string string
  | RDisconnect instant bool string string
  | RHeartbeat instant bool string string
  | RRotate instant "string option" bool string
  | RRevoke instant bool string string
  | RSetEnabled bool bool
  | RSetMode bool string
  | RSetOperator string
  | RReconcile instant

fun registry_step ::
  "(string \<Rightarrow> string) \<Rightarrow> ((string \<times> string) list \<Rightarrow> (string \<times> string) list) \<Rightarrow> hub_registry \<Rightarrow> registry_op
     \<Rightarrow> hub_registry" where
  "registry_step sha ord r (RRegister now rnd uuid f b d) = snd (RegisterContext sha ord r now rnd uuid f b d)"
| "registry_step sha ord r (RAuthenticate now i t) = snd (Authenticate sha r now i t)"
| "registry_step sha ord r (RDisconnect now f i t) = snd (DisconnectContext sha r now f i t)"
| "registry_step sha ord r (RHeartbeat now f i t) = snd (HeartbeatContext sha r now f i t)"
| "registry_step sha ord r (RRotate now rnd f i) = snd (RotateTokenContext sha r now rnd f i)"
| "registry_step sha ord r (RRevoke now f i reason) = snd (RevokeContext r now f i reason)"
| "registry_step sha ord r (RSetEnabled f e) = snd (SetRegistrationEnabledContext r f e)"
| "registry_step sha ord r (RSetMode f m) = snd (SetModeContext sha r f m)"
| "registry_step sha ord r (RSetOperator t) = SetOperatorToken sha r t"
| "registry_step sha ord r (RReconcile now) = snd (Reconcile r now)"

definition live_count :: "(string \<times> registered_agent) list \<Rightarrow> nat" where
  "live_count m = length (filter (\<lambda>(i, a). live_state (ra_State a)) m)"

definition registry_inv :: "hub_registry \<Rightarrow> bool" where
  "registry_inv r \<longleftrightarrow>
     distinct_keys (hr_agents r) \<and> (\<forall>(i, a)\<in>set (hr_agents r). ra_AgentID a = i) \<and>
     is_i32 (hp_MaxRegisteredAgents (hr_policy r)) \<and>
     int (live_count (hr_agents r)) \<le> hp_MaxRegisteredAgents (hr_policy r)"

lemma live_count_assoc_set:
  "live_count (assoc_set k a m) + (case map_of m k of None \<Rightarrow> 0 | Some b \<Rightarrow> if live_state (ra_State b) then 1 else 0)
     = live_count m + (if live_state (ra_State a) then 1 else 0)"
  by (induction k a m rule: assoc_set.induct) (auto simp: live_count_def)

lemma live_count_put_live:
  "map_of m k = Some b \<Longrightarrow> live_state (ra_State b) \<Longrightarrow> live_count (assoc_set k a m) \<le> live_count m"
  using live_count_assoc_set [of k a m] by (auto split: if_splits)

lemma live_count_put_dead:
  "\<not> live_state (ra_State a) \<Longrightarrow> live_count (assoc_set k a m) \<le> live_count m"
  using live_count_assoc_set [of k a m] by auto

lemma live_count_put: "live_count (assoc_set k a m) \<le> Suc (live_count m)"
  using live_count_assoc_set [of k a m] by (auto split: if_splits)

lemma reconcile_agent_live: "live_state (ra_State (reconcile_agent now a)) \<Longrightarrow> live_state (ra_State a)"
  by (auto simp: reconcile_agent_def expires_now_def live_state_def go_defs split: if_splits)

lemma reconcile_agent_fields [simp]:
  "ra_AgentID (reconcile_agent now a) = ra_AgentID a"
  "ra_tokenHash (reconcile_agent now a) = ra_tokenHash a"
  "ra_ExpiresAt (reconcile_agent now a) = ra_ExpiresAt a"
  by (simp_all add: reconcile_agent_def)

lemma live_count_reconcile: "live_count (map (\<lambda>(i, a). (i, reconcile_agent now a)) m) \<le> live_count m"
  by (induction m) (auto simp: live_count_def dest: reconcile_agent_live)

lemma registry_inv_reconcile:
  assumes "registry_inv r"
  shows "registry_inv (snd (reconcileLocked now r))"
proof -
  have "distinct_keys (map (\<lambda>(i, a). (i, reconcile_agent now a)) (hr_agents r))"
    using assms by (intro distinct_keys_map) (auto simp: registry_inv_def)
  moreover have "int (live_count (map (\<lambda>(i, a). (i, reconcile_agent now a)) (hr_agents r)))
      \<le> hp_MaxRegisteredAgents (hr_policy r)"
    using live_count_reconcile [of now "hr_agents r"] assms by (simp add: registry_inv_def)
  ultimately show ?thesis
    using assms by (auto simp: registry_inv_def reconcileLocked_def)
qed

text \<open>The invariant depends on the agents and the limit alone.\<close>

lemma registry_inv_cong:
  "registry_inv r \<Longrightarrow> hr_agents r' = hr_agents r \<Longrightarrow>
   hp_MaxRegisteredAgents (hr_policy r') = hp_MaxRegisteredAgents (hr_policy r) \<Longrightarrow> registry_inv r'"
  by (simp add: registry_inv_def)

lemma persist_fields:
  "persist f c r = Inr r' \<Longrightarrow> hr_agents r' = hr_agents r \<and> hr_policy r' = hr_policy r"
  by (auto simp: persist_def split: if_splits)

lemma registry_inv_put:
  assumes "registry_inv r" and "ra_AgentID a = i" and "live_count (assoc_set i a (hr_agents r)) \<le> live_count (hr_agents r)"
  shows "registry_inv (put_agent i a r)"
  using assms by (auto simp: registry_inv_def put_agent_def dest!: assoc_set_values)

lemma registry_inv_enroll:
  assumes inv: "registry_inv r"
  shows "registry_inv (snd (enroll_new sha r now rnd uuid fails rh d))"
proof (cases "i32 (int (activeAgentCountLocked r)) \<ge> hp_MaxRegisteredAgents (hr_policy r)")
  case True
  then show ?thesis using inv by (simp add: enroll_new_def Let_def)
next
  case False
  have "is_i32 (int (live_count (hr_agents r)))"
    using inv by (auto simp: registry_inv_def is_i32_def)
  with False have room: "int (Suc (live_count (hr_agents r))) \<le> hp_MaxRegisteredAgents (hr_policy r)"
    by (simp add: activeAgentCountLocked_def live_count_def)
  have "registry_inv (r'\<lparr>hr_agents := assoc_set i a (hr_agents r'), hr_byRegistration := b\<rparr>)"
    if "hr_agents r' = hr_agents r" "hr_policy r' = hr_policy r" "ra_AgentID a = i" for r' i a b
    using that inv room live_count_put [of i a "hr_agents r"]
    by (auto simp: registry_inv_def dest!: assoc_set_values)
  with False inv show ?thesis
    by (auto simp: enroll_new_def Let_def enrolled_agent_def dest: persist_fields split: sum.split)
qed

lemma credentialed_Some:
  "credentialed sha r i t = Some a \<Longrightarrow>
   map_of (hr_agents r) i = Some a \<and> live_state (ra_State a) \<and> sha t = ra_tokenHash a"
  by (auto simp: credentialed_def matchesHash_def split: option.splits if_splits)

lemma registry_agent_id: "registry_inv r \<Longrightarrow> map_of (hr_agents r) i = Some a \<Longrightarrow> ra_AgentID a = i"
  by (auto simp: registry_inv_def dest: map_of_SomeD)

text \<open>A write to a live agent after the adapter's call.\<close>

lemma registry_inv_write:
  assumes "registry_inv r" and "map_of (hr_agents r) i = Some a" and "live_state (ra_State a)"
    and "persist f c r = Inr r'" and "ra_AgentID a' = ra_AgentID a"
  shows "registry_inv (put_agent i a' r')"
proof (rule registry_inv_put)
  note p = persist_fields [OF assms(4)]
  show "registry_inv r'" using assms(1) p by (intro registry_inv_cong [OF assms(1)]) simp_all
  show "ra_AgentID a' = i" using assms registry_agent_id by simp
  show "live_count (assoc_set i a' (hr_agents r')) \<le> live_count (hr_agents r')"
    using live_count_put_live [OF assms(2,3)] p by simp
qed

lemma registry_inv_policy:
  "registry_inv r \<Longrightarrow> hp_MaxRegisteredAgents p = hp_MaxRegisteredAgents (hr_policy r) \<Longrightarrow>
   registry_inv (snd (persist_policy f r p))"
  by (auto simp: persist_policy_def intro: registry_inv_cong)

lemma registry_step_inv:
  assumes inv: "registry_inv r"
  shows "registry_inv (registry_step sha ord r e)"
proof (cases e)
  case (RRegister now rnd uuid f b d)
  with inv registry_inv_reconcile [OF inv, of now]
  have "registry_inv (snd (enroll_new sha (snd (reconcileLocked now r)) now rnd uuid f rh d))" for rh
    by (intro registry_inv_enroll)
  with RRegister inv registry_inv_reconcile [OF inv, of now] show ?thesis
    by (auto simp: RegisterContext_def Let_def split: sum.split option.split)
next
  case (RAuthenticate now i t)
  with registry_inv_reconcile [OF inv, of now] show ?thesis
    by (simp add: Authenticate_def Let_def split: option.split)
next
  case (RDisconnect now f i t)
  with registry_inv_reconcile [OF inv, of now] show ?thesis
    by (auto simp: DisconnectContext_def Let_def dest!: credentialed_Some
        intro: registry_inv_write split: option.split sum.split)
next
  case (RHeartbeat now f i t)
  with registry_inv_reconcile [OF inv, of now] show ?thesis
    by (auto simp: HeartbeatContext_def Let_def dest!: credentialed_Some
        intro: registry_inv_write split: option.split sum.split)
next
  case (RRotate now rnd f i)
  with inv show ?thesis
    by (auto simp: RotateTokenContext_def intro: registry_inv_write split: option.split sum.split)
next
  case (RRevoke now f i reason)
  have "registry_inv (put_agent i a' r')"
    if "map_of (hr_agents r) i = Some a" "persist f c r = Inr r'" "ra_AgentID a' = ra_AgentID a"
      "\<not> live_state (ra_State a')" for a a' r' c
    using that inv persist_fields [OF that(2)] registry_agent_id [OF inv that(1)]
    by (intro registry_inv_put live_count_put_dead registry_inv_cong [OF inv]) simp_all
  with RRevoke inv show ?thesis
    by (auto simp: RevokeContext_def live_state_def split: option.split sum.split)
next
  case (RSetEnabled f en)
  with inv show ?thesis by (simp add: SetRegistrationEnabledContext_def registry_inv_policy)
next
  case (RSetMode f m)
  with inv show ?thesis by (auto simp: SetModeContext_def registry_inv_policy split: sum.split)
next
  case (RSetOperator t)
  with inv show ?thesis by (auto simp: SetOperatorToken_def intro: registry_inv_cong)
next
  case (RReconcile now)
  with registry_inv_reconcile [OF inv, of now] show ?thesis by (simp add: Reconcile_def)
qed

definition new_registry :: "(string \<Rightarrow> string) \<Rightarrow> hub_registry \<Rightarrow> bool" where
  "new_registry sha r \<longleftrightarrow>
     (\<exists>p b ps pp. newHubRegistry sha p b ps pp = Inr r \<and> is_i32 (hp_MaxRegisteredAgents p))"

lemma newHubRegistry_ok:
  assumes "newHubRegistry sha p b ps pp = Inr r"
  shows "hr_agents r = [] \<and> hr_byRegistration r = [] \<and> hr_persistent r = ps \<and>
     PolicyValidate (hr_policy r) = Inr () \<and>
     hr_policy r = p\<lparr>hp_Mode := (if hp_Mode p = [] then HubModeClosed else hp_Mode p)\<rparr>"
proof (cases "PolicyValidate (p\<lparr>hp_Mode := (if hp_Mode p = [] then HubModeClosed else hp_Mode p)\<rparr>)")
  case (Inl e)
  with assms show ?thesis by (simp add: newHubRegistry_def Let_def)
next
  case (Inr u)
  with assms show ?thesis unfolding newHubRegistry_def Let_def by (auto split: if_splits)
qed

lemma new_registry_inv: "new_registry sha r \<Longrightarrow> registry_inv r"
  using PolicyValidate_positive [of "hr_policy r"]
  by (auto simp: new_registry_def registry_inv_def live_count_def dest!: newHubRegistry_ok)

interpretation registry: component "registry_step sha ord" registry_inv "\<lambda>_. True" "new_registry sha" for sha ord
  by unfold_locales (auto intro: new_registry_inv registry_step_inv)

section \<open>Dead agents stay dead\<close>

definition dead_agent :: "string \<Rightarrow> hub_registry \<Rightarrow> bool" where
  "dead_agent i r \<longleftrightarrow> (\<exists>a. map_of (hr_agents r) i = Some a \<and> \<not> live_state (ra_State a))"

fun enrolls :: "string \<Rightarrow> registry_op \<Rightarrow> bool" where
  "enrolls i (RRegister now rnd uuid f b d) = (new_agent_id uuid = i)"
| "enrolls i e = False"

lemma map_of_reconcile:
  "map_of (hr_agents (snd (reconcileLocked now r))) i = map_option (reconcile_agent now) (map_of (hr_agents r) i)"
  by (simp add: reconcileLocked_def map_of_map)

lemma dead_reconcile: "dead_agent i r \<Longrightarrow> dead_agent i (snd (reconcileLocked now r))"
  using reconcile_agent_live by (fastforce simp: dead_agent_def map_of_reconcile)

lemma dead_put:
  "dead_agent i r \<Longrightarrow> hr_agents r' = hr_agents r \<Longrightarrow> j = i \<longrightarrow> \<not> live_state (ra_State a) \<Longrightarrow>
   dead_agent i (put_agent j a r')"
  by (auto simp: dead_agent_def put_agent_def)

lemma dead_write:
  assumes "dead_agent i r" and "map_of (hr_agents r) j = Some a" and "live_state (ra_State a)"
    and "persist f c r = Inr r'"
  shows "dead_agent i (put_agent j a' r')"
proof -
  have "j \<noteq> i" using assms(1-3) by (auto simp: dead_agent_def)
  then show ?thesis using assms(1) persist_fields [OF assms(4)] by (intro dead_put) auto
qed

lemma dead_enroll:
  assumes "dead_agent i r" and "new_agent_id uuid \<noteq> i"
  shows "dead_agent i (snd (enroll_new sha r now rnd uuid fails rh d))"
  using assms by (auto simp: enroll_new_def Let_def dead_agent_def dest: persist_fields split: sum.split)

lemma dead_cong: "dead_agent i r \<Longrightarrow> hr_agents r' = hr_agents r \<Longrightarrow> dead_agent i r'"
  by (simp add: dead_agent_def)

lemma dead_policy: "dead_agent i r \<Longrightarrow> dead_agent i (snd (persist_policy f r p))"
  by (auto simp: persist_policy_def intro: dead_cong)

lemma registry_step_dead:
  assumes d: "dead_agent i r" and e: "\<not> enrolls i e"
  shows "dead_agent i (registry_step sha ord r e)"
proof (cases e)
  case (RRegister now rnd uuid f b dcl)
  with d e show ?thesis
    by (auto simp: RegisterContext_def Let_def intro: dead_enroll dead_reconcile split: sum.split option.split)
next
  case (RAuthenticate now j t)
  with d show ?thesis by (auto simp: Authenticate_def Let_def intro: dead_reconcile split: option.split)
next
  case (RDisconnect now f j t)
  with d show ?thesis
    by (auto simp: DisconnectContext_def Let_def dest!: credentialed_Some
        intro: dead_write dead_reconcile split: option.split sum.split)
next
  case (RHeartbeat now f j t)
  with d show ?thesis
    by (auto simp: HeartbeatContext_def Let_def dest!: credentialed_Some
        intro: dead_write dead_reconcile split: option.split sum.split)
next
  case (RRotate now rnd f j)
  with d show ?thesis by (auto simp: RotateTokenContext_def intro: dead_write split: option.split sum.split)
next
  case (RRevoke now f j reason)
  with d show ?thesis
    by (auto simp: RevokeContext_def live_state_def dest: persist_fields intro!: dead_put split: option.split sum.split)
next
  case (RSetEnabled f en)
  with d show ?thesis by (simp add: SetRegistrationEnabledContext_def dead_policy)
next
  case (RSetMode f m)
  with d show ?thesis by (auto simp: SetModeContext_def dead_policy split: sum.split)
next
  case (RSetOperator t)
  with d show ?thesis by (auto simp: SetOperatorToken_def intro: dead_cong)
next
  case (RReconcile now)
  with d show ?thesis by (simp add: Reconcile_def dead_reconcile)
qed

interpretation dead_agents: component "registry_step sha ord" "dead_agent i" "\<lambda>e. \<not> enrolls i e" "dead_agent i"
  for sha ord i
  by unfold_locales (auto intro: registry_step_dead)

lemma Authenticate_dead: "dead_agent i r \<Longrightarrow> fst (Authenticate sha r now i t) = Inl ErrInvalidHubCredentials"
  using dead_reconcile [of i r now]
  by (auto simp: Authenticate_def credentialed_def dead_agent_def Let_def split: option.split)

lemma Heartbeat_dead: "dead_agent i r \<Longrightarrow> fst (HeartbeatContext sha r now fails i t) = Inl ErrInvalidHubCredentials"
  using dead_reconcile [of i r now]
  by (auto simp: HeartbeatContext_def credentialed_def dead_agent_def Let_def split: option.split)

lemma expired_dead:
  assumes "ra_ExpiresAt a \<le> now"
    and "ra_State a \<in> {HubAgentStatePending, HubAgentStateOnline, HubAgentStateOffline, HubAgentStateRevoked, HubAgentStateExpired}"
  shows "\<not> live_state (ra_State (reconcile_agent now a))"
  using assms by (auto simp: reconcile_agent_def expires_now_def live_state_def go_defs)

section \<open>Tokens\<close>

lemma Authenticate_iff:
  assumes "map_of (hr_agents r) i = Some a" and "ra_State a \<in> {HubAgentStatePending, HubAgentStateOnline, HubAgentStateOffline}"
  shows "(\<exists>b. fst (Authenticate sha r now i t) = Inr b) \<longleftrightarrow> now < ra_ExpiresAt a \<and> sha t = ra_tokenHash a"
proof -
  have "live_state (ra_State (reconcile_agent now a)) \<longleftrightarrow> now < ra_ExpiresAt a"
    using assms(2) by (auto simp: reconcile_agent_def expires_now_def live_state_def go_defs)
  with assms(1) show ?thesis
    by (auto simp: Authenticate_def credentialed_def matchesHash_def map_of_reconcile Let_def split: option.split)
qed

text \<open>An enrollment that issued a token has stored exactly its hash.\<close>

lemma enroll_new_issued:
  assumes "enroll_new sha r now rnd uuid fails rh d = (Inr x, r')"
  shows "\<exists>a. map_of (hr_agents r') (ii_AgentID x) = Some a \<and> a = enrolled_agent sha (hr_policy r) now (ii_AgentID x) (ii_AgentToken x) rh d \<and>
     ii_ExpiresAt x = ra_ExpiresAt a \<and> hr_policy r' = hr_policy r \<and> ii_AgentID x \<noteq> [] \<and>
     (hr_persistent r \<longrightarrow> hr_calls r' = hr_calls r @ [SaveHubAgent (agent_record a)])"
proof -
  from assms obtain tok where tok: "randomHubToken rnd = Inr tok"
    by (auto simp: enroll_new_def Let_def split: if_splits sum.splits)
  let ?a = "enrolled_agent sha (hr_policy r) now (new_agent_id uuid) tok rh d"
  from assms tok obtain r1 where r1: "persist fails (SaveHubAgent (agent_record ?a)) r = Inr r1"
    and x: "ii_AgentID x = new_agent_id uuid" "ii_AgentToken x = tok" "ii_ExpiresAt x = ra_ExpiresAt ?a"
    and r': "r' = r1\<lparr>hr_agents := assoc_set (new_agent_id uuid) ?a (hr_agents r1),
                 hr_byRegistration := assoc_set rh (new_agent_id uuid) (hr_byRegistration r1)\<rparr>"
    by (auto simp: enroll_new_def Let_def split: if_splits sum.splits)
  have "hr_persistent r \<longrightarrow> hr_calls r1 = hr_calls r @ [SaveHubAgent (agent_record ?a)]"
    using r1 by (auto simp: persist_def split: if_splits)
  then show ?thesis using x r' persist_fields [OF r1] by (simp add: new_agent_id_def)
qed

lemma RegisterContext_issued:
  assumes "RegisterContext sha ord r now rnd uuid fails b d = (Inr x, r')" and "ii_AgentToken x \<noteq> []"
  shows "enroll_new sha (snd (reconcileLocked now r)) now rnd uuid fails
           (hashHubSecretHex sha (ad_RegistrationIdempotencyKey d)) d = (Inr x, r')"
  using assms by (auto simp: RegisterContext_def Let_def split: if_splits sum.splits option.splits)

lemma reconcile_fields [simp]:
  "hr_policy (snd (reconcileLocked now r)) = hr_policy r"
  "hr_persistent (snd (reconcileLocked now r)) = hr_persistent r"
  "hr_calls (snd (reconcileLocked now r)) = hr_calls r"
  by (simp_all add: reconcileLocked_def)

lemma enrolled_agent_fields [simp]:
  "ra_State (enrolled_agent sha p now i tok rh d) = HubAgentStatePending"
  "ra_tokenHash (enrolled_agent sha p now i tok rh d) = sha tok"
  "ra_registrationHash (enrolled_agent sha p now i tok rh d) = rh"
  "ra_AgentID (enrolled_agent sha p now i tok rh d) = i"
  "ra_HubID (enrolled_agent sha p now i tok rh d) = hp_HubID p"
  by (simp_all add: enrolled_agent_def)

lemma Load_record:
  assumes "length (ra_tokenHash a) = 32" and "ra_HubID a = hp_HubID (hr_policy r)" and "ra_AgentID a \<noteq> []"
    and "ra_registrationHash a \<noteq> []"
  shows "\<exists>r' b. Load r [agent_record a] = (Inr (), r') \<and> map_of (hr_agents r') (ra_AgentID a) = Some b \<and>
     ra_State b = ra_State a \<and> ra_ExpiresAt b = ra_ExpiresAt a \<and> ra_tokenHash b = ra_tokenHash a"
proof -
  have "ra_tokenHash a \<noteq> []" using assms(1) by auto
  with assms show ?thesis by (auto simp: agent_record_def loaded_agent_def Let_def)
qed

section \<open>Sample data\<close>

text \<open>A stand-in for the hash in the witnesses: the first 32 bytes, padded.\<close>

definition toy_hash :: "string \<Rightarrow> string" where
  "toy_hash s = take 32 (rev s @ replicate 32 (CHR 0x00))"

definition sample_declaration :: agent_declaration where
  "sample_declaration =
     \<lparr>ad_DisplayName = ''D'', ad_ProviderFamily = ''P'', ad_TransportID = ''T'', ad_Capabilities = [''chat''],
      ad_AgentCardJSON = [], ad_RegistrationIdempotencyKey = ''K''\<rparr>"

definition sample_registry :: "bool \<Rightarrow> hub_registry" where
  "sample_registry persistent =
     \<lparr>hr_policy = DefaultHubPolicy, hr_bootstrapHash = toy_hash [], hr_agents = [], hr_byRegistration = [],
      hr_persistent = persistent, hr_persistsPolicy = False, hr_calls = [], hr_operatorHash = zero_hash\<rparr>"

lemma sample_declaration_valid: "DeclarationValidate (\<lambda>fs. fs) sample_declaration = Inr ()"
proof -
  have "\<forall>(n, v)\<in>set (declaration_fields sample_declaration). \<not> is_blank v \<and> \<not> contains_line_break v"
    "\<forall>c\<in>set (ad_Capabilities sample_declaration). capability_ok c"
    by code_simp+
  then show ?thesis by (subst DeclarationValidate_ok) (simp_all add: sample_declaration_def go_defs)
qed

lemma sample_hex: "hex_encode [CHR ''z''] = ''7a''" "hex_encode [CHR ''y''] = ''79''"
  by code_simp+

lemma sample_register:
  "RegisterContext toy_hash (\<lambda>fs. fs) (sample_registry ps) now (Some [CHR ''z'']) uuid False [] sample_declaration
     = enroll_new toy_hash (sample_registry ps) now (Some [CHR ''z'']) uuid False
         (hashHubSecretHex toy_hash ''K'') sample_declaration"
  using sample_declaration_valid
  by (simp add: RegisterContext_def sample_registry_def DefaultHubPolicy_def go_defs reconcileLocked_def Let_def
      sample_declaration_def)

lemma sample_enrolled:
  "\<exists>r' x. RegisterContext toy_hash (\<lambda>fs. fs) (sample_registry ps) now (Some [CHR ''z'']) uuid False [] sample_declaration
     = (Inr x, r') \<and> ii_AgentToken x = ''hat_7a'' \<and> ii_AgentID x = new_agent_id uuid \<and>
     ii_ExpiresAt x = now + 86400000000000 \<and> hr_policy r' = DefaultHubPolicy"
  unfolding sample_register
  by (simp add: enroll_new_def activeAgentCountLocked_def sample_registry_def DefaultHubPolicy_def i32_def
      randomHubToken_def persist_def enrolled_agent_def i64_def second_def Let_def sample_hex
      del: hex_encode.simps)

lemma sample_registry_new: "new_registry toy_hash (sample_registry False)"
proof -
  have "PolicyValidate DefaultHubPolicy = Inr ()" by code_simp
  then have "newHubRegistry toy_hash DefaultHubPolicy [] False False = Inr (sample_registry False)"
    by (simp add: newHubRegistry_def sample_registry_def DefaultHubPolicy_def go_defs Let_def)
  then show ?thesis
    unfolding new_registry_def by (intro exI) (auto simp: DefaultHubPolicy_def is_i32_def)
qed

section \<open>Properties\<close>

text \<open>In every history of a registry, whatever calls come in whatever order and whichever
  fail, agent ids are unique keys and the number of agents that are neither revoked nor expired
  never exceeds the policy's limit.\<close>

theorem registry_within_limit:
  assumes "new_registry sha r"
  shows "distinct_keys (hr_agents (foldl (registry_step sha ord) r es)) \<and>
     int (activeAgentCountLocked (foldl (registry_step sha ord) r es))
       \<le> hp_MaxRegisteredAgents (hr_policy (foldl (registry_step sha ord) r es))"
proof -
  have "registry_inv (foldl (registry_step sha ord) r es)"
    using assms by (intro registry.invar_history) auto
  then show ?thesis by (simp add: registry_inv_def activeAgentCountLocked_def live_count_def)
qed

theorem registry_within_limit_witness:
  "distinct_keys (hr_agents (foldl (registry_step toy_hash (\<lambda>fs. fs)) (sample_registry False)
     [RRegister 1 (Some [CHR ''z'']) ''u1'' False [] sample_declaration, RReconcile 2]))"
  using registry_within_limit [OF sample_registry_new] by blast

text \<open>C19: revocation and expiry are final for the life of the registry. After a successful
  revocation, or once a reconciliation has met an agent (in one of the registry's five states)
  at or after its expiry, then whatever calls follow, at whatever clock readings, as long as no
  enrollment is given the same id, the agent stays REVOKED or EXPIRED, no token authenticates
  it, and its heartbeats are refused. A restart, which reads the agents from the database, is
  not among these calls.\<close>

theorem revoked_never_authenticates:
  assumes "RevokeContext r now fails i reason = (Inr (), r1) \<or>
      (\<exists>a. map_of (hr_agents r) i = Some a \<and> ra_ExpiresAt a \<le> now \<and> r1 = snd (Reconcile r now) \<and>
        ra_State a \<in> {HubAgentStatePending, HubAgentStateOnline, HubAgentStateOffline, HubAgentStateRevoked, HubAgentStateExpired})"
    and "\<forall>e\<in>set es. \<not> enrolls i e" and "r2 = foldl (registry_step sha ord) r1 es"
  shows "(\<exists>a. map_of (hr_agents r2) i = Some a \<and> ra_State a \<in> {HubAgentStateRevoked, HubAgentStateExpired}) \<and>
    fst (Authenticate sha r2 now2 i t) = Inl ErrInvalidHubCredentials \<and>
    fst (HeartbeatContext sha r2 now2 fails2 i t) = Inl ErrInvalidHubCredentials"
proof -
  from assms(1) have "dead_agent i r1"
  proof
    assume "RevokeContext r now fails i reason = (Inr (), r1)"
    then show ?thesis
      by (auto simp: RevokeContext_def dead_agent_def live_state_def put_agent_def split: option.splits if_splits sum.splits)
  next
    assume "\<exists>a. map_of (hr_agents r) i = Some a \<and> ra_ExpiresAt a \<le> now \<and> r1 = snd (Reconcile r now) \<and>
        ra_State a \<in> {HubAgentStatePending, HubAgentStateOnline, HubAgentStateOffline, HubAgentStateRevoked, HubAgentStateExpired}"
    then show ?thesis by (auto simp: dead_agent_def Reconcile_def map_of_reconcile expired_dead)
  qed
  then have dead: "dead_agent i r2"
    unfolding assms(3) using assms(2) by (intro dead_agents.invar_history) auto
  then show ?thesis using Authenticate_dead [OF dead] Heartbeat_dead [OF dead] by (auto simp: dead_agent_def live_state_def)
qed

theorem revoked_never_authenticates_witness:
  "\<exists>r x r1. RegisterContext toy_hash (\<lambda>fs. fs) (sample_registry False) 1 (Some [CHR ''z'']) ''u'' False [] sample_declaration
       = (Inr x, r) \<and> RevokeContext r 2 False (ii_AgentID x) [] = (Inr (), r1) \<and>
     fst (Authenticate toy_hash (foldl (registry_step toy_hash (\<lambda>fs. fs)) r1
       [RHeartbeat 3 False (ii_AgentID x) ''hat_7a'']) 4 (ii_AgentID x) ''hat_7a'') = Inl ErrInvalidHubCredentials"
proof -
  obtain r x where reg: "RegisterContext toy_hash (\<lambda>fs. fs) (sample_registry False) 1 (Some [CHR ''z'']) ''u'' False []
      sample_declaration = (Inr x, r)" and tok: "ii_AgentToken x = ''hat_7a''"
    using sample_enrolled by blast
  from enroll_new_issued [OF RegisterContext_issued [OF reg]] tok obtain a where
    a: "map_of (hr_agents r) (ii_AgentID x) = Some a" "ra_State a = HubAgentStatePending" by auto
  moreover have "hr_persistent r = False"
    using reg unfolding sample_register
    by (auto simp: enroll_new_def sample_registry_def persist_def Let_def split: if_splits sum.splits)
  ultimately have rev: "RevokeContext r 2 False (ii_AgentID x) [] = (Inr (), snd (RevokeContext r 2 False (ii_AgentID x) []))"
    by (simp add: RevokeContext_def persist_def go_defs)
  then show ?thesis
    using reg revoked_never_authenticates [OF disjI1 [OF rev] _ refl, of "[RHeartbeat 3 False (ii_AgentID x) ''hat_7a'']"]
    by fastforce
qed

text \<open>An enrollment that issues a token makes that token, and any token with the same
  hash and no other, authenticate the new agent up to the moment its registration expires.\<close>

theorem issued_token_authenticates:
  assumes "RegisterContext sha ord r now rnd uuid fails b d = (Inr x, r')" and "ii_AgentToken x \<noteq> []"
  shows "(\<exists>a. fst (Authenticate sha r' now2 (ii_AgentID x) t) = Inr a) \<longleftrightarrow>
     now2 < ii_ExpiresAt x \<and> sha t = sha (ii_AgentToken x)"
proof -
  from enroll_new_issued [OF RegisterContext_issued [OF assms]] obtain a where
    a: "map_of (hr_agents r') (ii_AgentID x) = Some a" "ii_ExpiresAt x = ra_ExpiresAt a"
      "ra_State a = HubAgentStatePending" "ra_tokenHash a = sha (ii_AgentToken x)"
    by auto
  with Authenticate_iff [OF a(1), of sha now2 t] show ?thesis by auto
qed

theorem issued_token_authenticates_witness:
  "\<exists>r' x. RegisterContext toy_hash (\<lambda>fs. fs) (sample_registry False) 1 (Some [CHR ''z'']) ''u'' False [] sample_declaration
       = (Inr x, r') \<and> (\<exists>a. fst (Authenticate toy_hash r' 2 (ii_AgentID x) ''hat_7a'') = Inr a)"
proof -
  obtain r' x where reg: "RegisterContext toy_hash (\<lambda>fs. fs) (sample_registry False) 1 (Some [CHR ''z'']) ''u'' False []
      sample_declaration = (Inr x, r')" and x: "ii_AgentToken x = ''hat_7a''" "ii_ExpiresAt x = 1 + 86400000000000"
    using sample_enrolled by blast
  then show ?thesis using issued_token_authenticates [OF reg, of 2 "''hat_7a''"] by auto
qed

text \<open>Credentials survive a restart. The record that an enrollment hands to the persistence
  adapter, loaded into a registry of the same hub, makes the issued token authenticate until the
  registration expires, and no token with another hash.\<close>

theorem restart_keeps_credentials:
  assumes "RegisterContext sha ord r now rnd uuid fails b d = (Inr x, r')" and "ii_AgentToken x \<noteq> []"
    and "hr_persistent r" and "\<forall>s. length (sha s) = 32" and "hp_HubID (hr_policy r2) = hp_HubID (hr_policy r)"
  shows "\<exists>rec r3. hr_calls r' = hr_calls r @ [SaveHubAgent rec] \<and> Load r2 [rec] = (Inr (), r3) \<and>
     ((\<exists>a. fst (Authenticate sha r3 now2 (ii_AgentID x) t) = Inr a) \<longleftrightarrow>
        now2 < ii_ExpiresAt x \<and> sha t = sha (ii_AgentToken x))"
proof -
  let ?rh = "hashHubSecretHex sha (ad_RegistrationIdempotencyKey d)"
  from enroll_new_issued [OF RegisterContext_issued [OF assms(1,2)]] assms(3) obtain a where
    a: "a = enrolled_agent sha (hr_policy r) now (ii_AgentID x) (ii_AgentToken x) ?rh d"
      "ii_ExpiresAt x = ra_ExpiresAt a" "ii_AgentID x \<noteq> []"
      "hr_calls r' = hr_calls r @ [SaveHubAgent (agent_record a)]"
    by auto
  have "?rh \<noteq> []" using assms(4) by (auto simp: hashHubSecretHex_def dest: spec [of _ "ad_RegistrationIdempotencyKey d"])
  then obtain r3 c where load: "Load r2 [agent_record a] = (Inr (), r3)"
    and c: "map_of (hr_agents r3) (ii_AgentID x) = Some c" "ra_State c = HubAgentStatePending"
      "ra_ExpiresAt c = ra_ExpiresAt a" "ra_tokenHash c = sha (ii_AgentToken x)"
    using Load_record [of a r2] a assms(4,5) by auto
  then have "(\<exists>a. fst (Authenticate sha r3 now2 (ii_AgentID x) t) = Inr a) \<longleftrightarrow>
      now2 < ii_ExpiresAt x \<and> sha t = sha (ii_AgentToken x)"
    using Authenticate_iff [OF c(1), of sha now2 t] a(2) by auto
  with a(4) load show ?thesis by blast
qed

theorem restart_keeps_credentials_witness:
  "\<exists>r' x rec r3. RegisterContext toy_hash (\<lambda>fs. fs) (sample_registry True) 1 (Some [CHR ''z'']) ''u'' False [] sample_declaration
       = (Inr x, r') \<and> hr_calls r' = [SaveHubAgent rec] \<and> Load (sample_registry True) [rec] = (Inr (), r3) \<and>
     (\<exists>a. fst (Authenticate toy_hash r3 2 (ii_AgentID x) ''hat_7a'') = Inr a)"
proof -
  obtain r' x where reg: "RegisterContext toy_hash (\<lambda>fs. fs) (sample_registry True) 1 (Some [CHR ''z'']) ''u'' False []
      sample_declaration = (Inr x, r')" and x: "ii_AgentToken x = ''hat_7a''" "ii_ExpiresAt x = 1 + 86400000000000"
    using sample_enrolled by blast
  have "\<forall>s. length (toy_hash s) = 32" by (auto simp: toy_hash_def min_def)
  then show ?thesis
    using restart_keeps_credentials [OF reg, of "sample_registry True" 2 "''hat_7a''"] reg x
    by (auto simp: sample_registry_def)
qed

text \<open>Rotation. After a successful rotation at most the new token authenticates, and it does
  so until the registration expires; a token whose hash differs from the new one's, such as the old
  token, is refused.\<close>

theorem rotation_replaces_token:
  assumes "RotateTokenContext sha r now rnd fails i = (Inr token, r')" and "map_of (hr_agents r) i = Some a"
    and "ra_State a \<in> {HubAgentStatePending, HubAgentStateOnline, HubAgentStateOffline}"
  shows "(\<exists>b. fst (Authenticate sha r' now2 i t) = Inr b) \<longleftrightarrow> now2 < ra_ExpiresAt a \<and> sha t = sha token"
proof -
  from assms(1,2) have "map_of (hr_agents r') i = Some (a\<lparr>ra_tokenHash := sha token\<rparr>)"
    by (auto simp: RotateTokenContext_def put_agent_def dest!: persist_fields split: sum.splits if_splits)
  from Authenticate_iff [OF this, of sha now2 t] assms(3) show ?thesis by simp
qed

theorem rotation_replaces_token_witness:
  "\<exists>r x r1 tok. RegisterContext toy_hash (\<lambda>fs. fs) (sample_registry False) 1 (Some [CHR ''z'']) ''u'' False [] sample_declaration
       = (Inr x, r) \<and> RotateTokenContext toy_hash r 2 (Some [CHR ''y'']) False (ii_AgentID x) = (Inr tok, r1) \<and>
     \<not> (\<exists>b. fst (Authenticate toy_hash r1 3 (ii_AgentID x) ''hat_7a'') = Inr b)"
proof -
  obtain r x where reg: "RegisterContext toy_hash (\<lambda>fs. fs) (sample_registry False) 1 (Some [CHR ''z'']) ''u'' False []
      sample_declaration = (Inr x, r)" and tok: "ii_AgentToken x = ''hat_7a''"
    using sample_enrolled by blast
  from enroll_new_issued [OF RegisterContext_issued [OF reg]] tok obtain a where
    a: "map_of (hr_agents r) (ii_AgentID x) = Some a" "ra_State a = HubAgentStatePending" by auto
  have "hr_persistent r = False"
    using reg unfolding sample_register
    by (auto simp: enroll_new_def sample_registry_def persist_def Let_def split: if_splits sum.splits)
  with a have rot: "RotateTokenContext toy_hash r 2 (Some [CHR ''y'']) False (ii_AgentID x) =
      (Inr ''hat_79'', snd (RotateTokenContext toy_hash r 2 (Some [CHR ''y'']) False (ii_AgentID x)))"
    by (simp add: RotateTokenContext_def persist_def randomHubToken_def live_state_def go_defs sample_hex
        del: hex_encode.simps)
  have "toy_hash ''hat_7a'' \<noteq> toy_hash ''hat_79''" by (simp add: toy_hash_def)
  with rotation_replaces_token [OF rot a(1), of 3 "''hat_7a''"] a(2) reg rot show ?thesis by auto
qed

text \<open>A registry can be created with a mode in capital letters. It is then neither closed,
  open nor public for any later check: no confirmation of public mode and no bootstrap token are
  asked for, and an enrollment without a token succeeds.\<close>

theorem unnormalized_mode_is_unprotected:
  "\<exists>r. newHubRegistry toy_hash (DefaultHubPolicy\<lparr>hp_Mode := ''OPEN'', hp_PublicConfirmed := False\<rparr>) [] False False = Inr r \<and>
     (\<exists>x. fst (RegisterContext toy_hash (\<lambda>fs. fs) r 1 (Some [CHR ''z'']) ''u'' False [] sample_declaration) = Inr x)"
proof -
  let ?p = "DefaultHubPolicy\<lparr>hp_Mode := ''OPEN'', hp_PublicConfirmed := False\<rparr>"
  let ?r = "(sample_registry False)\<lparr>hr_policy := ?p\<rparr>"
  have "PolicyValidate ?p = Inr ()" by code_simp
  then have "newHubRegistry toy_hash ?p [] False False = Inr ?r"
    by (simp add: newHubRegistry_def sample_registry_def DefaultHubPolicy_def go_defs Let_def)
  moreover have "\<exists>x. fst (RegisterContext toy_hash (\<lambda>fs. fs) ?r 1 (Some [CHR ''z'']) ''u'' False [] sample_declaration) = Inr x"
    using sample_declaration_valid
    by (simp add: RegisterContext_def sample_registry_def DefaultHubPolicy_def go_defs reconcileLocked_def Let_def
        enroll_new_def activeAgentCountLocked_def i32_def randomHubToken_def persist_def)
  ultimately show ?thesis by blast
qed

end
