(* ===== verification/Hub_Mailbox.thy ===== *)
theory Hub_Mailbox
  imports Prelude
begin

text \<open>
  Peer delivery, \<open>backend/a2a/hub_mailbox.go\<close>: the interface \<open>HubMailbox\<close> as a locale with
  the laws its comment asks of every implementation (enqueueing is idempotent on hub, target,
  requester and idempotency key), and the in-memory implementation \<open>MemoryHubMailbox\<close>, which
  interprets it. A method that runs under the mailbox's mutex is one function on the mailbox.

  Shown here: sequence numbers are consecutive and keys unique in every history; a duplicate
  enqueue changes nothing and returns the first item; polling returns the unacknowledged items of
  a target in order, and an acknowledged item is never delivered again; an agent that polls and
  acknowledges receives every item exactly once.
\<close>

section \<open>Items and errors\<close>

record hub_inbox_item =
  hi_Sequence :: nat
  hi_HubID :: string
  hi_TargetAgentID :: string
  hi_RequesterAgentID :: string
  hi_TaskID :: string
  hi_ContextID :: string
  hi_IdempotencyKey :: string
  hi_Message :: string
  hi_CreatedAt :: instant
  hi_AcknowledgedAt :: "instant option"

record hub_inbox_enqueue_result =
  er_Item :: hub_inbox_item
  er_Duplicate :: bool

datatype mailbox_error =
    ErrHubInboxItemIncomplete
  | ErrHubInboxIDsRequired
  | ErrHubInboxLimit
  | ErrHubInboxNotFound

type_synonym inbox_key = "string \<times> string \<times> string \<times> string"

definition inbox_key :: "hub_inbox_item \<Rightarrow> inbox_key" where
  "inbox_key i = (hi_HubID i, hi_TargetAgentID i, hi_RequesterAgentID i, hi_IdempotencyKey i)"

definition item_complete :: "hub_inbox_item \<Rightarrow> bool" where
  "item_complete i \<longleftrightarrow>
     hi_HubID i \<noteq> [] \<and> hi_TargetAgentID i \<noteq> [] \<and> hi_RequesterAgentID i \<noteq> [] \<and> hi_TaskID i \<noteq> [] \<and>
     hi_ContextID i \<noteq> [] \<and> hi_IdempotencyKey i \<noteq> [] \<and> hi_Message i \<noteq> []"

section \<open>The interface\<close>

text \<open>What a client of a mailbox may rely on: an item that was accepted is found under its key
  and stays what it was, an item whose key is taken is a duplicate and changes nothing, and an
  enqueue touches no other key. An implementation may fail for reasons of its own; a failed
  enqueue leaves the mailbox as it was.\<close>

locale hub_mailbox =
  fixes enqueue :: "'m \<Rightarrow> instant \<Rightarrow> hub_inbox_item \<Rightarrow> (mailbox_error + hub_inbox_enqueue_result) \<times> 'm"
    and lookup :: "'m \<Rightarrow> inbox_key \<Rightarrow> hub_inbox_item option"
    and mailbox_ok :: "'m \<Rightarrow> bool"
  assumes enqueue_ok: "mailbox_ok m \<Longrightarrow> mailbox_ok (snd (enqueue m now i))"
    and enqueue_error: "enqueue m now i = (Inl e, m') \<Longrightarrow> m' = m"
    and enqueue_taken: "lookup m (inbox_key i) = Some x \<Longrightarrow> enqueue m now i = (Inr r, m') \<Longrightarrow>
          m' = m \<and> r = \<lparr>er_Item = x, er_Duplicate = True\<rparr>"
    and enqueue_new: "lookup m (inbox_key i) = None \<Longrightarrow> enqueue m now i = (Inr r, m') \<Longrightarrow>
          lookup m' (inbox_key i) = Some (er_Item r) \<and> \<not> er_Duplicate r \<and>
          inbox_key (er_Item r) = inbox_key i \<and> hi_Message (er_Item r) = hi_Message i \<and>
          hi_TaskID (er_Item r) = hi_TaskID i"
    and enqueue_frame: "enqueue m now i = (res, m') \<Longrightarrow> k \<noteq> inbox_key i \<Longrightarrow> lookup m' k = lookup m k"
begin

lemma enqueue_found:
  assumes "enqueue m now i = (Inr r, m')"
  shows "lookup m' (inbox_key i) = Some (er_Item r)"
  using assms enqueue_taken enqueue_new by (cases "lookup m (inbox_key i)") fastforce+

lemma enqueue_keeps:
  assumes "lookup m k = Some x"
  shows "lookup (snd (enqueue m now i)) k = Some x"
proof (cases "enqueue m now i")
  case (Pair res m')
  show ?thesis
  proof (cases "k = inbox_key i")
    case True
    with Pair assms show ?thesis
      by (cases res) (auto dest: enqueue_error enqueue_taken)
  next
    case False
    with Pair assms show ?thesis by (simp add: enqueue_frame)
  qed
qed

text \<open>Enqueueing the same item again finds the first one.\<close>

lemma enqueue_again:
  assumes "enqueue m now i = (Inr r, m')" and "enqueue m' now2 i = (Inr r2, m'')"
  shows "m'' = m' \<and> er_Item r2 = er_Item r \<and> er_Duplicate r2"
  using enqueue_taken [OF enqueue_found [OF assms(1)] assms(2)] by simp

end

text \<open>A mailbox that accepts every complete item.\<close>

locale reliable_hub_mailbox = hub_mailbox +
  assumes enqueue_accepts: "item_complete i \<Longrightarrow> \<exists>r m'. enqueue m now i = (Inr r, m')"

section \<open>The mailbox in memory\<close>

record memory_hub_mailbox =
  mb_nextSeq :: nat
  mb_items :: "hub_inbox_item list"

definition NewMemoryHubMailbox :: memory_hub_mailbox where
  "NewMemoryHubMailbox = \<lparr>mb_nextSeq = 1, mb_items = []\<rparr>"

definition Enqueue ::
  "memory_hub_mailbox \<Rightarrow> instant \<Rightarrow> hub_inbox_item
     \<Rightarrow> (mailbox_error + hub_inbox_enqueue_result) \<times> memory_hub_mailbox" where
  "Enqueue m now item =
     (if \<not> item_complete item then (Inl ErrHubInboxItemIncomplete, m)
      else case find (\<lambda>x. inbox_key x = inbox_key item) (mb_items m) of
        Some existing \<Rightarrow> (Inr \<lparr>er_Item = existing, er_Duplicate = True\<rparr>, m)
      | None \<Rightarrow>
          let i = item\<lparr>hi_Sequence := mb_nextSeq m,
                       hi_CreatedAt := (if time_is_zero (hi_CreatedAt item) then now else hi_CreatedAt item)\<rparr> in
          (Inr \<lparr>er_Item = i, er_Duplicate = False\<rparr>,
           \<lparr>mb_nextSeq = u64 (mb_nextSeq m + 1), mb_items = mb_items m @ [i]\<rparr>))"

definition Find :: "memory_hub_mailbox \<Rightarrow> inbox_key \<Rightarrow> hub_inbox_item option" where
  "Find m k = find (\<lambda>x. inbox_key x = k) (mb_items m)"

definition PendingCount :: "memory_hub_mailbox \<Rightarrow> string \<Rightarrow> nat" where
  "PendingCount m hubID =
     length (filter (\<lambda>x. hi_HubID x = hubID \<and> hi_AcknowledgedAt x = None) (mb_items m))"

definition deliverable :: "string \<Rightarrow> string \<Rightarrow> nat \<Rightarrow> hub_inbox_item \<Rightarrow> bool" where
  "deliverable hubID target afterSeq x \<longleftrightarrow>
     hi_HubID x = hubID \<and> hi_TargetAgentID x = target \<and> hi_Sequence x > afterSeq \<and> hi_AcknowledgedAt x = None"

definition Poll ::
  "memory_hub_mailbox \<Rightarrow> string \<Rightarrow> string \<Rightarrow> nat \<Rightarrow> int \<Rightarrow> mailbox_error + hub_inbox_item list" where
  "Poll m hubID target afterSeq limit =
     (if hubID = [] \<or> target = [] then Inl ErrHubInboxIDsRequired
      else if limit \<le> 0 \<or> limit > 100 then Inl ErrHubInboxLimit
      else Inr (sort_key hi_Sequence
                  (take (nat limit) (filter (deliverable hubID target afterSeq) (mb_items m)))))"

definition acknowledge_at :: "instant \<Rightarrow> hub_inbox_item \<Rightarrow> hub_inbox_item" where
  "acknowledge_at now x =
     (if hi_AcknowledgedAt x = None then x\<lparr>hi_AcknowledgedAt := Some now\<rparr> else x)"

definition Acknowledge ::
  "memory_hub_mailbox \<Rightarrow> instant \<Rightarrow> string \<Rightarrow> string \<Rightarrow> nat \<Rightarrow> (mailbox_error + unit) \<times> memory_hub_mailbox" where
  "Acknowledge m now hubID target seq =
     (let P = (\<lambda>x. hi_HubID x = hubID \<and> hi_TargetAgentID x = target \<and> hi_Sequence x = seq) in
      case find P (mb_items m) of
        None \<Rightarrow> (Inl ErrHubInboxNotFound, m)
      | Some _ \<Rightarrow> (Inr (), m\<lparr>mb_items := update_first P (acknowledge_at now) (mb_items m)\<rparr>))"

definition Cancel ::
  "memory_hub_mailbox \<Rightarrow> instant \<Rightarrow> string \<Rightarrow> string \<Rightarrow> (mailbox_error + unit) \<times> memory_hub_mailbox" where
  "Cancel m now hubID taskID =
     (let P = (\<lambda>x. hi_HubID x = hubID \<and> hi_TaskID x = taskID) in
      case find P (mb_items m) of
        None \<Rightarrow> (Inl ErrHubInboxNotFound, m)
      | Some _ \<Rightarrow> (Inr (), m\<lparr>mb_items := update_first P (acknowledge_at now) (mb_items m)\<rparr>))"

record hub_inbox_admin_item =
  ai_Item :: hub_inbox_item
  ai_State :: string

definition ListMessagesAdmin ::
  "memory_hub_mailbox \<Rightarrow> string \<Rightarrow> string \<Rightarrow> nat \<Rightarrow> int \<Rightarrow> hub_inbox_admin_item list" where
  "ListMessagesAdmin m hubID agentID beforeSeq limit =
     (let n = (if limit \<le> 0 \<or> limit > 200 then 50 else limit);
          keep = (\<lambda>x. (hubID = [] \<or> hi_HubID x = hubID) \<and>
                      (beforeSeq = 0 \<or> hi_Sequence x < beforeSeq) \<and>
                      (agentID = [] \<or> hi_TargetAgentID x = agentID \<or> hi_RequesterAgentID x = agentID)) in
      map (\<lambda>x. \<lparr>ai_Item = x, ai_State = (if hi_AcknowledgedAt x = None then ''PENDING'' else ''ACKNOWLEDGED'')\<rparr>)
        (take (nat n) (filter keep (rev (mb_items m)))))"

section \<open>The invariant\<close>

definition mailbox_inv :: "memory_hub_mailbox \<Rightarrow> bool" where
  "mailbox_inv m \<longleftrightarrow>
     distinct (map inbox_key (mb_items m)) \<and> (\<forall>x\<in>set (mb_items m). item_complete x) \<and>
     (length (mb_items m) < max_u64 \<longrightarrow>
        map hi_Sequence (mb_items m) = [1..<Suc (length (mb_items m))] \<and>
        mb_nextSeq m = Suc (length (mb_items m)))"

datatype mailbox_op =
    MEnqueue instant hub_inbox_item
  | MAcknowledge instant string string nat
  | MCancel instant string string

fun mailbox_step :: "memory_hub_mailbox \<Rightarrow> mailbox_op \<Rightarrow> memory_hub_mailbox" where
  "mailbox_step m (MEnqueue now i) = snd (Enqueue m now i)"
| "mailbox_step m (MAcknowledge now h t s) = snd (Acknowledge m now h t s)"
| "mailbox_step m (MCancel now h t) = snd (Cancel m now h t)"

lemma acknowledge_at_fields [simp]:
  "inbox_key (acknowledge_at now x) = inbox_key x"
  "hi_Sequence (acknowledge_at now x) = hi_Sequence x"
  "hi_HubID (acknowledge_at now x) = hi_HubID x"
  "hi_TargetAgentID (acknowledge_at now x) = hi_TargetAgentID x"
  "item_complete (acknowledge_at now x) = item_complete x"
  "hi_AcknowledgedAt (acknowledge_at now x) \<noteq> None"
  by (simp_all add: acknowledge_at_def inbox_key_def item_complete_def)

lemma item_complete_stamped [simp]:
  "item_complete (i\<lparr>hi_Sequence := s, hi_CreatedAt := t\<rparr>) = item_complete i"
  "inbox_key (i\<lparr>hi_Sequence := s, hi_CreatedAt := t\<rparr>) = inbox_key i"
  "item_complete (i\<lparr>hi_Sequence := s\<rparr>) = item_complete i"
  "inbox_key (i\<lparr>hi_Sequence := s\<rparr>) = inbox_key i"
  by (simp_all add: item_complete_def inbox_key_def)

lemma mailbox_inv_acknowledge:
  assumes "mailbox_inv m"
  shows "mailbox_inv (m\<lparr>mb_items := update_first P (acknowledge_at now) (mb_items m)\<rparr>)"
  using assms set_update_first [of _ P "acknowledge_at now" "mb_items m"]
  by (fastforce simp: mailbox_inv_def)

lemma mailbox_inv_Enqueue [inv_rules]: "mailbox_inv m \<Longrightarrow> mailbox_inv (snd (Enqueue m now i))"
proof -
  assume inv: "mailbox_inv m"
  show ?thesis
  proof (cases "find (\<lambda>x. inbox_key x = inbox_key i) (mb_items m)")
    case None
    then have "inbox_key i \<notin> inbox_key ` set (mb_items m)" by (auto simp: find_None_all)
    moreover have "[1..<Suc (Suc n)] = [1..<Suc n] @ [Suc n]" for n by simp
    ultimately show ?thesis using None inv by (simp add: mailbox_inv_def Enqueue_def Let_def del: upt_Suc)
  qed (use inv in \<open>simp add: Enqueue_def\<close>)
qed

lemma mailbox_inv_Acknowledge [inv_rules]: "mailbox_inv m \<Longrightarrow> mailbox_inv (snd (Acknowledge m now h t s))"
  by (auto simp: Acknowledge_def Let_def mailbox_inv_acknowledge split: option.splits)

lemma mailbox_inv_Cancel [inv_rules]: "mailbox_inv m \<Longrightarrow> mailbox_inv (snd (Cancel m now h t))"
  by (auto simp: Cancel_def Let_def mailbox_inv_acknowledge split: option.splits)

interpretation mailbox_history: component mailbox_step mailbox_inv "\<lambda>_. True" "\<lambda>m. m = NewMemoryHubMailbox"
proof unfold_locales
  show "mailbox_inv s" if "s = NewMemoryHubMailbox" for s
    using that by (simp add: mailbox_inv_def NewMemoryHubMailbox_def)
  show "mailbox_inv (mailbox_step s e)" if "mailbox_inv s" for s e
    using that by (cases e) (simp_all add: inv_rules)
qed

text \<open>The mailbox in memory is a mailbox.\<close>

interpretation memory_mailbox: hub_mailbox Enqueue Find mailbox_inv
proof unfold_locales
  show "mailbox_inv (snd (Enqueue m now i))" if "mailbox_inv m" for m now i
    using that by (rule mailbox_inv_Enqueue)
  show "m' = m" if "Enqueue m now i = (Inl e, m')" for m now i e m'
    using that by (auto simp: Enqueue_def Let_def split: if_splits option.splits)
  show "m' = m \<and> r = \<lparr>er_Item = x, er_Duplicate = True\<rparr>"
    if "Find m (inbox_key i) = Some x" "Enqueue m now i = (Inr r, m')" for m now i x r m'
    using that by (auto simp: Enqueue_def Find_def split: if_splits option.splits)
  show "Find m' (inbox_key i) = Some (er_Item r) \<and> \<not> er_Duplicate r \<and> inbox_key (er_Item r) = inbox_key i \<and>
      hi_Message (er_Item r) = hi_Message i \<and> hi_TaskID (er_Item r) = hi_TaskID i"
    if "Find m (inbox_key i) = None" "Enqueue m now i = (Inr r, m')" for m now i r m'
    using that by (auto simp: Enqueue_def Find_def find_append Let_def split: if_splits option.splits)
  show "Find m' k = Find m k" if "Enqueue m now i = (res, m')" "k \<noteq> inbox_key i" for m now i res m' k
    using that by (auto simp: Enqueue_def Find_def find_append Let_def split: if_splits option.splits)
qed

interpretation memory_mailbox: reliable_hub_mailbox Enqueue Find mailbox_inv
  by unfold_locales (auto simp: Enqueue_def Let_def split: option.split)

section \<open>Polling\<close>

lemma mailbox_sequences:
  assumes "mailbox_inv m" and "length (mb_items m) < max_u64"
  shows "sorted (map hi_Sequence (mb_items m))" "distinct (map hi_Sequence (mb_items m))"
  using assms by (simp_all add: mailbox_inv_def del: upt_Suc)

lemma sorted_map_filter_take:
  "sorted (map f xs) \<Longrightarrow> sorted (map f (take n (filter P xs)))"
  by (metis sorted_wrt_take sorted_filter take_map)

lemma Poll_value:
  assumes "mailbox_inv m" and "length (mb_items m) < max_u64"
    and "h \<noteq> []" "t \<noteq> []" "1 \<le> limit" "limit \<le> 100"
  shows "Poll m h t a limit = Inr (take (nat limit) (filter (deliverable h t a) (mb_items m)))"
proof -
  have "sort_key hi_Sequence (take (nat limit) (filter (deliverable h t a) (mb_items m)))
      = take (nat limit) (filter (deliverable h t a) (mb_items m))"
    using mailbox_sequences(1) [OF assms(1,2)] by (intro sort_key_id_if_sorted sorted_map_filter_take)
  with assms(3-6) show ?thesis by (simp add: Poll_def)
qed

section \<open>A consuming agent\<close>

text \<open>An agent that polls its inbox and acknowledges what it got; other agents enqueue in
  between. The second component of the state is what the agent has received, in order.\<close>

datatype inbox_event = Arrives instant hub_inbox_item | Consumes instant int

definition acknowledge_all ::
  "instant \<Rightarrow> string \<Rightarrow> string \<Rightarrow> memory_hub_mailbox \<Rightarrow> nat list \<Rightarrow> memory_hub_mailbox" where
  "acknowledge_all now h t m seqs = foldl (\<lambda>m s. snd (Acknowledge m now h t s)) m seqs"

fun inbox_step ::
  "string \<Rightarrow> string \<Rightarrow> memory_hub_mailbox \<times> nat list \<Rightarrow> inbox_event \<Rightarrow> memory_hub_mailbox \<times> nat list" where
  "inbox_step h t (m, got) (Arrives now i) = (snd (Enqueue m now i), got)"
| "inbox_step h t (m, got) (Consumes now limit) =
     (case Poll m h t 0 limit of
        Inl _ \<Rightarrow> (m, got)
      | Inr xs \<Rightarrow> (acknowledge_all now h t m (map hi_Sequence xs), got @ map hi_Sequence xs))"

definition inbox_of :: "string \<Rightarrow> string \<Rightarrow> memory_hub_mailbox \<Rightarrow> hub_inbox_item list" where
  "inbox_of h t m = filter (\<lambda>x. hi_HubID x = h \<and> hi_TargetAgentID x = t) (mb_items m)"

text \<open>What has been received is exactly the acknowledged prefix of the inbox.\<close>

definition consumer_inv :: "string \<Rightarrow> string \<Rightarrow> memory_hub_mailbox \<times> nat list \<Rightarrow> bool" where
  "consumer_inv h t = (\<lambda>(m, got). mailbox_inv m \<and>
     (length (mb_items m) < max_u64 \<longrightarrow>
        (\<exists>n\<le>length (inbox_of h t m). got = map hi_Sequence (take n (inbox_of h t m)) \<and>
             (\<forall>x\<in>set (take n (inbox_of h t m)). hi_AcknowledgedAt x \<noteq> None) \<and>
             (\<forall>x\<in>set (drop n (inbox_of h t m)). hi_AcknowledgedAt x = None))))"

lemma update_first_map:
  "distinct (map g xs) \<Longrightarrow> (\<And>x. P x \<Longrightarrow> g x = k) \<Longrightarrow>
   update_first P f xs = map (\<lambda>x. if P x then f x else x) xs"
proof (induction xs)
  case (Cons x xs)
  show ?case
  proof (cases "P x")
    case True
    then have "\<forall>y\<in>set xs. \<not> P y" using Cons.prems by (auto simp: image_iff)
    then have "map (\<lambda>x. if P x then f x else x) xs = xs" by (simp add: map_idI)
    with True show ?thesis by simp
  next
    case False
    with Cons show ?thesis by simp
  qed
qed simp

definition mark_seqs :: "instant \<Rightarrow> string \<Rightarrow> string \<Rightarrow> nat set \<Rightarrow> hub_inbox_item \<Rightarrow> hub_inbox_item" where
  "mark_seqs now h t S x =
     (if hi_HubID x = h \<and> hi_TargetAgentID x = t \<and> hi_Sequence x \<in> S then acknowledge_at now x else x)"

lemma mark_seqs_fields [simp]:
  "hi_Sequence (mark_seqs now h t S x) = hi_Sequence x"
  "hi_HubID (mark_seqs now h t S x) = hi_HubID x"
  "hi_TargetAgentID (mark_seqs now h t S x) = hi_TargetAgentID x"
  by (simp_all add: mark_seqs_def)

lemma Acknowledge_items:
  assumes "distinct (map hi_Sequence (mb_items m))"
  shows "mb_items (snd (Acknowledge m now h t s)) = map (mark_seqs now h t {s}) (mb_items m)"
proof -
  let ?P = "\<lambda>x. hi_HubID x = h \<and> hi_TargetAgentID x = t \<and> hi_Sequence x = s"
  have up: "update_first ?P (acknowledge_at now) (mb_items m) = map (mark_seqs now h t {s}) (mb_items m)"
    using update_first_map [OF assms, of ?P s "acknowledge_at now"] by (simp add: mark_seqs_def [abs_def])
  moreover have "update_first ?P (acknowledge_at now) (mb_items m) = mb_items m"
    if "find ?P (mb_items m) = None"
    using that by (intro update_first_none) (simp add: find_None_all)
  ultimately show ?thesis
    by (auto simp: Acknowledge_def Let_def split: option.splits)
qed

lemma mark_seqs_insert: "mark_seqs now h t S (mark_seqs now h t {s} x) = mark_seqs now h t (insert s S) x"
  by (auto simp: mark_seqs_def acknowledge_at_def)

lemma acknowledge_all_items:
  "distinct (map hi_Sequence (mb_items m)) \<Longrightarrow>
   mb_items (acknowledge_all now h t m seqs) = map (mark_seqs now h t (set seqs)) (mb_items m)"
proof (induction seqs arbitrary: m)
  case Nil
  then show ?case by (simp add: acknowledge_all_def mark_seqs_def)
next
  case (Cons s seqs)
  have items: "mb_items (snd (Acknowledge m now h t s)) = map (mark_seqs now h t {s}) (mb_items m)"
    using Cons.prems by (rule Acknowledge_items)
  then have "distinct (map hi_Sequence (mb_items (snd (Acknowledge m now h t s))))"
    using Cons.prems by (simp add: comp_def)
  from Cons.IH [OF this] items show ?case
    by (simp add: acknowledge_all_def mark_seqs_insert comp_def)
qed

lemma mailbox_inv_acknowledge_all: "mailbox_inv m \<Longrightarrow> mailbox_inv (acknowledge_all now h t m seqs)"
  unfolding acknowledge_all_def by (induction seqs arbitrary: m) (simp_all add: inv_rules)

lemma consumer_inv_Arrives:
  assumes inv: "consumer_inv h t (m, got)" and i: "hi_AcknowledgedAt i = None"
  shows "consumer_inv h t (snd (Enqueue m now i), got)"
proof (cases "mb_items (snd (Enqueue m now i)) = mb_items m")
  case True
  then show ?thesis
    using inv mailbox_inv_Enqueue [of m now i] by (simp add: consumer_inv_def inbox_of_def)
next
  case False
  then obtain i' where i': "mb_items (snd (Enqueue m now i)) = mb_items m @ [i']" "hi_AcknowledgedAt i' = None"
    using i by (auto simp: Enqueue_def Let_def split: if_splits option.splits)
  let ?new = "if hi_HubID i' = h \<and> hi_TargetAgentID i' = t then [i'] else []"
  have inbox: "inbox_of h t (snd (Enqueue m now i)) = inbox_of h t m @ ?new"
    by (simp add: inbox_of_def i'(1))
  show ?thesis
    unfolding consumer_inv_def prod.case
  proof (intro conjI impI)
    show "mailbox_inv (snd (Enqueue m now i))"
      using inv by (simp add: consumer_inv_def mailbox_inv_Enqueue)
    assume "length (mb_items (snd (Enqueue m now i))) < max_u64"
    then have "length (mb_items m) < max_u64" by (simp add: i'(1))
    with inv obtain n where n: "n \<le> length (inbox_of h t m)" "got = map hi_Sequence (take n (inbox_of h t m))"
        "\<forall>x\<in>set (take n (inbox_of h t m)). hi_AcknowledgedAt x \<noteq> None"
        "\<forall>x\<in>set (drop n (inbox_of h t m)). hi_AcknowledgedAt x = None"
      by (auto simp: consumer_inv_def)
    then show "\<exists>n\<le>length (inbox_of h t (snd (Enqueue m now i))).
        got = map hi_Sequence (take n (inbox_of h t (snd (Enqueue m now i)))) \<and>
        (\<forall>x\<in>set (take n (inbox_of h t (snd (Enqueue m now i)))). hi_AcknowledgedAt x \<noteq> None) \<and>
        (\<forall>x\<in>set (drop n (inbox_of h t (snd (Enqueue m now i)))). hi_AcknowledgedAt x = None)"
      using i'(2) by (intro exI [of _ n]) (auto simp: inbox)
  qed
qed

lemma pending_suffix:
  assumes "\<forall>x\<in>set (take n xs). \<not> P x" and "\<forall>x\<in>set (drop n xs). P x"
  shows "filter P xs = drop n xs"
proof -
  have "filter P (take n xs @ drop n xs) = filter P (take n xs) @ filter P (drop n xs)"
    by (rule filter_append)
  with assms show ?thesis by (simp add: filter_id_conv)
qed

lemma deliverable_inbox:
  assumes seqs: "map hi_Sequence (mb_items m) = [1..<Suc (length (mb_items m))]"
    and acked: "\<forall>x\<in>set (take n (inbox_of h t m)). hi_AcknowledgedAt x \<noteq> None"
    and pending: "\<forall>x\<in>set (drop n (inbox_of h t m)). hi_AcknowledgedAt x = None"
  shows "filter (deliverable h t 0) (mb_items m) = drop n (inbox_of h t m)"
proof -
  have pos: "0 < hi_Sequence x" if "x \<in> set (mb_items m)" for x
  proof -
    have "hi_Sequence x \<in> set [1..<Suc (length (mb_items m))]" using that seqs by (metis image_eqI list.set_map)
    then show ?thesis by (simp del: upt_Suc)
  qed
  have "filter (deliverable h t 0) (mb_items m) = filter (\<lambda>x. hi_AcknowledgedAt x = None) (inbox_of h t m)"
    unfolding inbox_of_def filter_filter
    using pos by (intro filter_cong) (auto simp: deliverable_def)
  with acked pending show ?thesis
    using pending_suffix [of n "inbox_of h t m" "\<lambda>x. hi_AcknowledgedAt x = None"] by simp
qed

lemma marked_split:
  assumes d: "distinct (map hi_Sequence xs)" and n: "n \<le> k"
    and acked: "\<forall>x\<in>set (take n xs). hi_AcknowledgedAt x \<noteq> None"
    and pending: "\<forall>x\<in>set (drop n xs). hi_AcknowledgedAt x = None"
    and all: "\<forall>x\<in>set xs. hi_HubID x = h \<and> hi_TargetAgentID x = t"
    and S: "S = hi_Sequence ` set (take (k - n) (drop n xs))"
  shows "(\<forall>x\<in>set (take k (map (mark_seqs now h t S) xs)). hi_AcknowledgedAt x \<noteq> None) \<and>
         (\<forall>x\<in>set (drop k (map (mark_seqs now h t S) xs)). hi_AcknowledgedAt x = None)"
proof (intro conjI ballI)
  have split: "take k xs = take n xs @ take (k - n) (drop n xs)"
    using n by (metis le_add_diff_inverse take_add)
  fix y assume "y \<in> set (take k (map (mark_seqs now h t S) xs))"
  then obtain x where x: "x \<in> set (take k xs)" "y = mark_seqs now h t S x" by (auto simp: take_map)
  then have "x \<in> set (take n xs) \<or> hi_Sequence x \<in> S" unfolding split S by auto
  moreover have "x \<in> set xs" using x(1) by (rule in_set_takeD)
  ultimately show "hi_AcknowledgedAt y \<noteq> None"
    using x(2) acked all by (auto simp: mark_seqs_def acknowledge_at_def)
next
  fix y assume "y \<in> set (drop k (map (mark_seqs now h t S) xs))"
  then obtain x where x: "x \<in> set (drop k xs)" "y = mark_seqs now h t S x" by (auto simp: drop_map)
  have "drop k xs = drop (k - n) (drop n xs)" using n by simp
  with x(1) have later: "x \<in> set (drop (k - n) (drop n xs))" by simp
  have "distinct (map hi_Sequence (drop n xs))" using d by (simp add: drop_map [symmetric])
  then have "distinct (map hi_Sequence (take (k - n) (drop n xs) @ drop (k - n) (drop n xs)))"
    by (simp only: append_take_drop_id)
  then have "hi_Sequence x \<notin> S" using later unfolding S map_append distinct_append by auto
  moreover have "x \<in> set (drop n xs)" using later by (rule in_set_dropD)
  ultimately show "hi_AcknowledgedAt y = None" using x(2) pending by (simp add: mark_seqs_def)
qed

lemma inbox_marked:
  "mb_items m' = map (mark_seqs now h t S) (mb_items m) \<Longrightarrow>
   inbox_of h t m' = map (mark_seqs now h t S) (inbox_of h t m)"
  by (simp add: inbox_of_def filter_map comp_def)

lemma acknowledge_all_length: "length (mb_items (acknowledge_all now h t m seqs)) = length (mb_items m)"
proof (unfold acknowledge_all_def, induction seqs arbitrary: m)
  case (Cons s seqs)
  have "length (mb_items (snd (Acknowledge m now h t s))) = length (mb_items m)"
    by (simp add: Acknowledge_def Let_def split: option.split)
  with Cons show ?case by simp
qed simp

lemma consumed_sequences:
  assumes same: "map f ys = map f xs"
  shows "map f (take n xs) @ map f (take l (drop n xs)) = map f (take (min (n + l) (length xs)) ys)"
proof -
  have "map f (take (min (n + l) (length xs)) ys) = take (min (n + l) (length xs)) (map f xs)"
    by (simp only: take_map [symmetric] same)
  also have "\<dots> = take (n + l) (map f xs)" by (simp add: min_def)
  finally show ?thesis by (simp add: take_add take_map drop_map)
qed

lemma consumer_inv_poll:
  assumes mi: "mailbox_inv m" and len: "length (mb_items m) < max_u64"
    and ht: "h \<noteq> []" "t \<noteq> []" and lim: "1 \<le> limit" "limit \<le> 100"
    and n: "n \<le> length (inbox_of h t m)" "\<forall>x\<in>set (take n (inbox_of h t m)). hi_AcknowledgedAt x \<noteq> None"
      "\<forall>x\<in>set (drop n (inbox_of h t m)). hi_AcknowledgedAt x = None"
  shows "consumer_inv h t (inbox_step h t (m, map hi_Sequence (take n (inbox_of h t m))) (Consumes now limit))"
proof -
  let ?xs = "take (nat limit) (drop n (inbox_of h t m))"
  let ?S = "set (map hi_Sequence ?xs)" and ?m = "acknowledge_all now h t m (map hi_Sequence ?xs)"
  let ?k = "min (n + nat limit) (length (inbox_of h t m))"
  have poll: "Poll m h t 0 limit = Inr ?xs"
    using Poll_value [OF mi len ht lim, of 0] deliverable_inbox [OF _ n(2,3)] mi len
    by (simp add: mailbox_inv_def)
  have "mb_items ?m = map (mark_seqs now h t ?S) (mb_items m)"
    using mailbox_sequences(2) [OF mi len] by (rule acknowledge_all_items)
  then have inbox: "inbox_of h t ?m = map (mark_seqs now h t ?S) (inbox_of h t m)" by (rule inbox_marked)
  have "take (?k - n) (drop n (inbox_of h t m)) = ?xs" using n(1) by (simp add: min_def)
  then have S: "?S = hi_Sequence ` set (take (?k - n) (drop n (inbox_of h t m)))" by simp
  have d: "distinct (map hi_Sequence (inbox_of h t m))"
    using mailbox_sequences(2) [OF mi len] by (simp add: inbox_of_def distinct_map_filter)
  have "n \<le> ?k" "\<forall>x\<in>set (inbox_of h t m). hi_HubID x = h \<and> hi_TargetAgentID x = t"
    using n(1) by (simp_all add: inbox_of_def)
  from marked_split [OF d this(1) n(2,3) this(2) S, of now]
  have acks: "(\<forall>x\<in>set (take ?k (inbox_of h t ?m)). hi_AcknowledgedAt x \<noteq> None) \<and>
      (\<forall>x\<in>set (drop ?k (inbox_of h t ?m)). hi_AcknowledgedAt x = None)"
    by (simp only: inbox)
  have same: "map hi_Sequence (inbox_of h t ?m) = map hi_Sequence (inbox_of h t m)"
    by (simp only: inbox list.map_comp) simp
  then have "length (inbox_of h t ?m) = length (inbox_of h t m)" by (metis length_map)
  with consumed_sequences [OF same, of n "nat limit"] acks mailbox_inv_acknowledge_all [OF mi]
  have "consumer_inv h t (?m, map hi_Sequence (take n (inbox_of h t m)) @ map hi_Sequence ?xs)"
    unfolding consumer_inv_def by (auto intro!: exI [of _ ?k])
  then show ?thesis by (simp add: poll)
qed

lemma consumer_inv_Consumes:
  assumes inv: "consumer_inv h t (m, got)"
  shows "consumer_inv h t (inbox_step h t (m, got) (Consumes now limit))"
proof (cases "h = [] \<or> t = [] \<or> limit < 1 \<or> limit > 100")
  case True
  then have "\<exists>e. Poll m h t 0 limit = Inl e" by (auto simp: Poll_def)
  with inv show ?thesis by auto
next
  case False
  have mi: "mailbox_inv m" using inv by (simp add: consumer_inv_def)
  show ?thesis
  proof (cases "length (mb_items m) < max_u64")
    case True
    with inv obtain n where n: "n \<le> length (inbox_of h t m)" "got = map hi_Sequence (take n (inbox_of h t m))"
        "\<forall>x\<in>set (take n (inbox_of h t m)). hi_AcknowledgedAt x \<noteq> None"
        "\<forall>x\<in>set (drop n (inbox_of h t m)). hi_AcknowledgedAt x = None"
      by (auto simp: consumer_inv_def)
    show ?thesis unfolding n(2) using False by (intro consumer_inv_poll [OF mi True _ _ _ _ n(1,3,4)]) auto
  qed (use mi in \<open>auto simp: consumer_inv_def mailbox_inv_acknowledge_all acknowledge_all_length split: sum.split\<close>)
qed

fun fresh_arrival :: "inbox_event \<Rightarrow> bool" where
  "fresh_arrival (Arrives now i) = (hi_AcknowledgedAt i = None)"
| "fresh_arrival (Consumes now limit) = True"

interpretation consumer: component "inbox_step h t" "consumer_inv h t" fresh_arrival
  "\<lambda>s. s = (NewMemoryHubMailbox, [])" for h t
proof unfold_locales
  show "consumer_inv h t s" if "s = (NewMemoryHubMailbox, [])" for s
    using that by (simp add: consumer_inv_def NewMemoryHubMailbox_def mailbox_inv_def inbox_of_def)
  show "consumer_inv h t (inbox_step h t s e)" if "consumer_inv h t s" "fresh_arrival e" for s e
    using that consumer_inv_Arrives consumer_inv_Consumes
    by (cases s; cases e) (simp_all del: inbox_step.simps(2))
qed

section \<open>Properties\<close>

text \<open>In every history of enqueues, acknowledgements and cancellations of an in-memory
  mailbox, no two items have the same hub, target, requester and idempotency key, and as long as
  the sequence counter has not run through all of \<open>uint64\<close> the items carry the numbers 1, 2, 3
  and so on in the order of their arrival.\<close>

theorem mailbox_history_sequences:
  "distinct (map inbox_key (mb_items (foldl mailbox_step NewMemoryHubMailbox es))) \<and>
   (length (mb_items (foldl mailbox_step NewMemoryHubMailbox es)) < max_u64 \<longrightarrow>
      map hi_Sequence (mb_items (foldl mailbox_step NewMemoryHubMailbox es))
        = [1..<Suc (length (mb_items (foldl mailbox_step NewMemoryHubMailbox es)))])"
proof -
  have "mailbox_inv (foldl mailbox_step NewMemoryHubMailbox es)"
    by (rule mailbox_history.invar_history) simp_all
  then show ?thesis by (simp add: mailbox_inv_def del: upt_Suc)
qed

definition sample_item :: "string \<Rightarrow> hub_inbox_item" where
  "sample_item key =
     \<lparr>hi_Sequence = 0, hi_HubID = ''h'', hi_TargetAgentID = ''a'', hi_RequesterAgentID = ''b'', hi_TaskID = key,
      hi_ContextID = ''c'', hi_IdempotencyKey = key, hi_Message = ''m'', hi_CreatedAt = 0,
      hi_AcknowledgedAt = None\<rparr>"

theorem mailbox_history_sequences_witness:
  "map hi_Sequence (mb_items (foldl mailbox_step NewMemoryHubMailbox
     [MEnqueue 1 (sample_item ''x''), MEnqueue 2 (sample_item ''y''), MEnqueue 3 (sample_item ''x'')])) = [1, 2]"
proof -
  have "length (mb_items (foldl mailbox_step NewMemoryHubMailbox
     [MEnqueue 1 (sample_item ''x''), MEnqueue 2 (sample_item ''y''), MEnqueue 3 (sample_item ''x'')])) = 2"
    by (simp add: Enqueue_def NewMemoryHubMailbox_def sample_item_def item_complete_def inbox_key_def Let_def)
  with mailbox_history_sequences [of "[MEnqueue 1 (sample_item ''x''), MEnqueue 2 (sample_item ''y''),
      MEnqueue 3 (sample_item ''x'')]"]
  show ?thesis by (simp add: numeral_2_eq_2)
qed

text \<open>C4: exactly-once delivery to an agent that acknowledges what it polls. However its polls,
  of any page size, interleave with arrivals, the sequence numbers it has received are distinct
  and ascending, they are exactly those of the acknowledged items of its inbox, and every other
  item of the inbox has a greater number and is still pending.\<close>

theorem inbox_exactly_once:
  assumes "\<forall>e\<in>set es. fresh_arrival e"
    and "foldl (inbox_step h t) (NewMemoryHubMailbox, []) es = (m, got)"
    and "length (mb_items m) < max_u64"
  shows "distinct got \<and> sorted got \<and>
     set got = hi_Sequence ` {x \<in> set (inbox_of h t m). hi_AcknowledgedAt x \<noteq> None} \<and>
     (\<forall>x\<in>set (inbox_of h t m). hi_Sequence x \<notin> set got \<longrightarrow>
        hi_AcknowledgedAt x = None \<and> (\<forall>s\<in>set got. s < hi_Sequence x))"
proof -
  have "consumer_inv h t (m, got)"
    using consumer.invar_history [of "(NewMemoryHubMailbox, [])" es h t] assms(1,2) by simp
  then obtain n where mi: "mailbox_inv m" and got: "got = map hi_Sequence (take n (inbox_of h t m))"
      and acked: "\<forall>x\<in>set (take n (inbox_of h t m)). hi_AcknowledgedAt x \<noteq> None"
      and pending: "\<forall>x\<in>set (drop n (inbox_of h t m)). hi_AcknowledgedAt x = None"
    using assms(3) by (auto simp: consumer_inv_def)
  let ?in = "inbox_of h t m"
  have srt: "sorted_wrt (<) (map hi_Sequence ?in)"
    using mailbox_sequences [OF mi assms(3)]
    by (simp add: inbox_of_def strict_sorted_iff sorted_filter distinct_map_filter)
  then have parts: "sorted_wrt (<) (map hi_Sequence (take n ?in @ drop n ?in))" by simp
  then have g: "sorted_wrt (<) got" and later: "\<forall>s\<in>set got. \<forall>x\<in>set (drop n ?in). s < hi_Sequence x"
    unfolding map_append sorted_wrt_append got by auto
  have split: "set ?in = set (take n ?in) \<union> set (drop n ?in)" by (metis append_take_drop_id set_append)
  then have "set got = hi_Sequence ` {x \<in> set ?in. hi_AcknowledgedAt x \<noteq> None}"
    using acked pending by (auto simp: got)
  moreover have "hi_AcknowledgedAt x = None \<and> (\<forall>s\<in>set got. s < hi_Sequence x)"
    if "x \<in> set ?in" "hi_Sequence x \<notin> set got" for x
    using that split pending later by (auto simp: got)
  ultimately show ?thesis using g by (auto simp: strict_sorted_iff)
qed

theorem inbox_exactly_once_witness:
  "distinct (snd (foldl (inbox_step ''h'' ''a'') (NewMemoryHubMailbox, [])
     [Arrives 1 (sample_item ''x''), Consumes 2 1, Arrives 3 (sample_item ''y''), Consumes 4 5]))"
proof -
  let ?es = "[Arrives 1 (sample_item ''x''), Consumes 2 1, Arrives 3 (sample_item ''y''), Consumes 4 5]"
  obtain m got where run: "foldl (inbox_step ''h'' ''a'') (NewMemoryHubMailbox, []) ?es = (m, got)" by fastforce
  have "length (mb_items (fst (foldl (inbox_step ''h'' ''a'') (NewMemoryHubMailbox, []) ?es))) = 2"
    by (simp add: Enqueue_def NewMemoryHubMailbox_def sample_item_def item_complete_def inbox_key_def
        Poll_def deliverable_def acknowledge_all_def Acknowledge_def acknowledge_at_def Let_def)
  then have "length (mb_items m) < max_u64" unfolding run fst_conv by simp
  moreover have "\<forall>e\<in>set ?es. fresh_arrival e" by (simp add: sample_item_def)
  ultimately show ?thesis unfolding run snd_conv using inbox_exactly_once [OF _ run] by blast
qed

text \<open>Enqueueing an item whose hub, target, requester and idempotency key are taken leaves
  the mailbox as it is and returns the item that was there, marked as a duplicate.\<close>

theorem Enqueue_idempotent:
  assumes "Enqueue m now i = (Inr r, m')" and "inbox_key i2 = inbox_key i" and "item_complete i2"
  shows "Enqueue m' now2 i2 = (Inr \<lparr>er_Item = er_Item r, er_Duplicate = True\<rparr>, m')"
  using memory_mailbox.enqueue_found [OF assms(1)] assms(2,3) by (simp add: Enqueue_def Find_def)

theorem Enqueue_idempotent_witness:
  "fst (Enqueue (snd (Enqueue NewMemoryHubMailbox 1 (sample_item ''x''))) 2 ((sample_item ''x'')\<lparr>hi_Message := ''n''\<rparr>))
     = Inr \<lparr>er_Item = (sample_item ''x'')\<lparr>hi_Sequence := 1, hi_CreatedAt := 1\<rparr>, er_Duplicate = True\<rparr>"
proof -
  have first: "Enqueue NewMemoryHubMailbox 1 (sample_item ''x'') =
      (Inr \<lparr>er_Item = (sample_item ''x'')\<lparr>hi_Sequence := 1, hi_CreatedAt := 1\<rparr>, er_Duplicate = False\<rparr>,
       snd (Enqueue NewMemoryHubMailbox 1 (sample_item ''x'')))"
    by (simp add: Enqueue_def NewMemoryHubMailbox_def sample_item_def item_complete_def Let_def)
  show ?thesis
    by (subst Enqueue_idempotent [OF first]) (simp_all add: sample_item_def item_complete_def inbox_key_def)
qed

end
