(* ===== verification/Hub_Group.thy ===== *)
theory Hub_Group
  imports Hub_Contract Hub_Mailbox
begin

text \<open>
  Groups of agents, \<open>backend/a2a/hub_group.go\<close> and \<open>hub_group_memory.go\<close>: the store of
  groups, members, invitations and messages, and the delivery of a group message into the mailboxes
  of its members. The store's mailbox is any implementation of the interface \<open>HubMailbox\<close>: its
  type and its \<open>Enqueue\<close> are arguments, and what is proved of deliveries rests on the laws of
  the locale \<open>hub_mailbox\<close>. A method that runs under the store's mutex is one function;
  \<open>SendGroupMessage\<close> releases the mutex between two critical sections and is the composition of
  three functions, so that other calls can be placed between them.

  Shown here: no group has more active members than the limit; a message reaches every other active
  member once, and a repeated send reaches nobody again; what accepting an invitation does to a
  member's role; and a history that shows messages are lost to a reader with a cursor when two sends
  overlap.
\<close>

section \<open>States and records\<close>

definition MaxGroupNameLength :: nat where "MaxGroupNameLength = 128"
definition MaxGroupMembers :: nat where "MaxGroupMembers = 32"
definition MaxGroupHistoryPageSize :: int where "MaxGroupHistoryPageSize = 100"

definition HubGroupStateActive :: string where "HubGroupStateActive = ''ACTIVE''"
definition HubGroupStateArchived :: string where "HubGroupStateArchived = ''ARCHIVED''"
definition HubGroupRoleOwner :: string where "HubGroupRoleOwner = ''OWNER''"
definition HubGroupRoleAdmin :: string where "HubGroupRoleAdmin = ''ADMIN''"
definition HubGroupRoleMember :: string where "HubGroupRoleMember = ''MEMBER''"
definition HubMembershipActive :: string where "HubMembershipActive = ''ACTIVE''"
definition HubMembershipLeft :: string where "HubMembershipLeft = ''LEFT''"
definition HubMembershipRemoved :: string where "HubMembershipRemoved = ''REMOVED''"
definition HubInvitationPending :: string where "HubInvitationPending = ''PENDING''"
definition HubInvitationAccepted :: string where "HubInvitationAccepted = ''ACCEPTED''"
definition HubInvitationDeclined :: string where "HubInvitationDeclined = ''DECLINED''"
definition HubInvitationRevoked :: string where "HubInvitationRevoked = ''REVOKED''"

lemmas group_states [go_defs] = HubGroupStateActive_def HubGroupStateArchived_def HubGroupRoleOwner_def
  HubGroupRoleAdmin_def HubGroupRoleMember_def HubMembershipActive_def HubMembershipLeft_def
  HubMembershipRemoved_def HubInvitationPending_def HubInvitationAccepted_def HubInvitationDeclined_def
  HubInvitationRevoked_def MaxGroupMembers_def MaxGroupHistoryPageSize_def MaxGroupNameLength_def

record hub_group =
  hg_HubID :: string
  hg_GroupID :: string
  hg_Name :: string
  hg_State :: string
  hg_OwnerAgentID :: string
  hg_CreatedAt :: instant
  hg_ArchivedAt :: "instant option"

record hub_group_member =
  gm_HubID :: string
  gm_GroupID :: string
  gm_AgentID :: string
  gm_Role :: string
  gm_State :: string
  gm_JoinedAt :: instant
  gm_LeftAt :: "instant option"
  gm_RemovedAt :: "instant option"

record hub_group_invitation =
  gi_ID :: nat
  gi_HubID :: string
  gi_GroupID :: string
  gi_InviterAgentID :: string
  gi_InviteeAgentID :: string
  gi_State :: string
  gi_CreatedAt :: instant
  gi_ExpiresAt :: instant
  gi_RespondedAt :: "instant option"

record hub_group_delivery_summary =
  gd_TargetAgentID :: string
  gd_Sequence :: nat
  gd_State :: string

record hub_group_message =
  gp_ID :: nat
  gp_HubID :: string
  gp_GroupID :: string
  gp_SenderAgentID :: string
  gp_ContextID :: string
  gp_IdempotencyKey :: string
  gp_Message :: string
  gp_Trust :: string
  gp_CreatedAt :: instant
  gp_Deliveries :: "hub_group_delivery_summary list"

record hub_group_message_input =
  mi_ContextID :: string
  mi_IdempotencyKey :: string
  mi_Message :: string

datatype group_error =
    ErrHubGroupNotFound
  | ErrHubGroupForbidden
  | ErrHubGroupInvalidState
  | ErrHubInvitationNotFound
  | ErrHubGroupLimit
  | ErrGroupRandom
  | ErrGroupNameEmpty
  | ErrGroupNameTooLong
  | ErrMessageContextEmpty
  | ErrMessageKeyEmpty
  | ErrMessageKeyTooLong
  | ErrMessageEmpty
  | ErrMessageTooLong

section \<open>Validation\<close>

definition GenerateGroupID :: "string option \<Rightarrow> group_error + string" where
  "GenerateGroupID rnd = (case rnd of None \<Rightarrow> Inl ErrGroupRandom | Some b \<Rightarrow> Inr (''grp-'' @ hex_encode b))"

definition ValidateCreateGroup :: "string \<Rightarrow> group_error + unit" where
  "ValidateCreateGroup input_name =
     (let name = trim_space input_name in
      if name = [] then Inl ErrGroupNameEmpty
      else if length name > MaxGroupNameLength then Inl ErrGroupNameTooLong
      else Inr ())"

definition ValidateGroupMessage :: "hub_group_message_input \<Rightarrow> int \<Rightarrow> group_error + unit" where
  "ValidateGroupMessage input maxPayloadBytes =
     (if is_blank (mi_ContextID input) then Inl ErrMessageContextEmpty
      else if is_blank (mi_IdempotencyKey input) then Inl ErrMessageKeyEmpty
      else if length (mi_IdempotencyKey input) > MaxHubIdempotencyBytes then Inl ErrMessageKeyTooLong
      else if is_blank (mi_Message input) then Inl ErrMessageEmpty
      else if maxPayloadBytes > 0 \<and> int (length (mi_Message input)) > maxPayloadBytes then Inl ErrMessageTooLong
      else Inr ())"

definition member_active :: "hub_group_member \<Rightarrow> bool" where
  "member_active m \<longleftrightarrow> gm_State m = HubMembershipActive"

definition CanManageMembers :: "hub_group_member \<Rightarrow> bool" where
  "CanManageMembers m \<longleftrightarrow>
     member_active m \<and> (gm_Role m = HubGroupRoleOwner \<or> gm_Role m = HubGroupRoleAdmin)"

section \<open>The store\<close>

record 'm hub_group_store =
  gs_groups :: "(string \<times> hub_group) list"
  gs_members :: "(string \<times> hub_group_member list) list"
  gs_invitations :: "hub_group_invitation list"
  gs_messages :: "hub_group_message list"
  gs_nextInvID :: nat
  gs_nextMsgID :: nat
  gs_mailbox :: "'m option"

definition NewMemoryHubGroupStore :: "'m option \<Rightarrow> 'm hub_group_store" where
  "NewMemoryHubGroupStore mailbox =
     \<lparr>gs_groups = [], gs_members = [], gs_invitations = [], gs_messages = [], gs_nextInvID = 1,
      gs_nextMsgID = 1, gs_mailbox = mailbox\<rparr>"

definition members_of :: "'m hub_group_store \<Rightarrow> string \<Rightarrow> hub_group_member list" where
  "members_of s gid = (case map_of (gs_members s) gid of None \<Rightarrow> [] | Some ms \<Rightarrow> ms)"

definition active_group :: "'m hub_group_store \<Rightarrow> string \<Rightarrow> bool" where
  "active_group s gid \<longleftrightarrow>
     (case map_of (gs_groups s) gid of None \<Rightarrow> False | Some g \<Rightarrow> hg_State g = HubGroupStateActive)"

definition active_count :: "hub_group_member list \<Rightarrow> nat" where
  "active_count ms = length (filter member_active ms)"

definition CreateGroup ::
  "'m hub_group_store \<Rightarrow> instant \<Rightarrow> string option \<Rightarrow> hub_group \<Rightarrow> (group_error + hub_group) \<times> 'm hub_group_store" where
  "CreateGroup s now rnd grp =
     (case (if hg_GroupID grp = [] then GenerateGroupID rnd else Inr (hg_GroupID grp)) of
        Inl e \<Rightarrow> (Inl e, s)
      | Inr gid \<Rightarrow>
          let g = grp\<lparr>hg_GroupID := gid,
                        hg_State := (if hg_State grp = [] then HubGroupStateActive else hg_State grp),
                        hg_CreatedAt := (if time_is_zero (hg_CreatedAt grp) then now else hg_CreatedAt grp)\<rparr>;
              owner = \<lparr>gm_HubID = hg_HubID g, gm_GroupID = gid, gm_AgentID = hg_OwnerAgentID g,
                       gm_Role = HubGroupRoleOwner, gm_State = HubMembershipActive,
                       gm_JoinedAt = hg_CreatedAt g, gm_LeftAt = None, gm_RemovedAt = None\<rparr> in
          (Inr g, s\<lparr>gs_groups := assoc_set gid g (gs_groups s),
                    gs_members := assoc_set gid [owner] (gs_members s)\<rparr>))"

definition FindGroup :: "'m hub_group_store \<Rightarrow> string \<Rightarrow> group_error + hub_group" where
  "FindGroup s gid = (case map_of (gs_groups s) gid of None \<Rightarrow> Inl ErrHubGroupNotFound | Some g \<Rightarrow> Inr g)"

definition ListGroups :: "'m hub_group_store \<Rightarrow> string \<Rightarrow> hub_group list" where
  "ListGroups s agentID =
     concat (map (\<lambda>(gid, ms).
        if \<exists>m\<in>set ms. gm_AgentID m = agentID \<and> member_active m
        then (case map_of (gs_groups s) gid of
                Some g \<Rightarrow> if hg_State g = HubGroupStateActive then [g] else []
              | None \<Rightarrow> [])
        else []) (gs_members s))"

definition FindMember :: "'m hub_group_store \<Rightarrow> string \<Rightarrow> string \<Rightarrow> group_error + hub_group_member" where
  "FindMember s gid agentID =
     (case find (\<lambda>m. gm_AgentID m = agentID) (members_of s gid) of
        None \<Rightarrow> Inl ErrHubGroupNotFound
      | Some m \<Rightarrow> Inr m)"

definition ListMembers :: "'m hub_group_store \<Rightarrow> string \<Rightarrow> group_error + hub_group_member list" where
  "ListMembers s gid = (case map_of (gs_members s) gid of None \<Rightarrow> Inl ErrHubGroupNotFound | Some ms \<Rightarrow> Inr ms)"

definition CreateInvitation ::
  "'m hub_group_store \<Rightarrow> instant \<Rightarrow> hub_group_invitation
     \<Rightarrow> (group_error + hub_group_invitation) \<times> 'm hub_group_store" where
  "CreateInvitation s now invit =
     (if \<not> active_group s (gi_GroupID invit) then (Inl ErrHubGroupInvalidState, s)
      else if active_count (members_of s (gi_GroupID invit)) \<ge> MaxGroupMembers then (Inl ErrHubGroupLimit, s)
      else
        let created = (if time_is_zero (gi_CreatedAt invit) then now else gi_CreatedAt invit);
            i = invit\<lparr>gi_ID := gs_nextInvID s,
                    gi_State := (if gi_State invit = [] then HubInvitationPending else gi_State invit),
                    gi_CreatedAt := created,
                    gi_ExpiresAt := (if time_is_zero (gi_ExpiresAt invit) then created + 24 * hour
                                     else gi_ExpiresAt invit)\<rparr> in
        (Inr i, s\<lparr>gs_nextInvID := u64 (gs_nextInvID s + 1), gs_invitations := gs_invitations s @ [i]\<rparr>))"

definition FindInvitation :: "'m hub_group_store \<Rightarrow> nat \<Rightarrow> group_error + hub_group_invitation" where
  "FindInvitation s i =
     (case find (\<lambda>x. gi_ID x = i) (gs_invitations s) of
        None \<Rightarrow> Inl ErrHubInvitationNotFound
      | Some x \<Rightarrow> Inr x)"

definition ListInvitations :: "'m hub_group_store \<Rightarrow> instant \<Rightarrow> string \<Rightarrow> hub_group_invitation list" where
  "ListInvitations s now invitee =
     filter (\<lambda>x. gi_InviteeAgentID x = invitee \<and> gi_State x = HubInvitationPending \<and> gi_ExpiresAt x > now)
       (gs_invitations s)"

definition answer_invitation :: "nat \<Rightarrow> string \<Rightarrow> instant \<Rightarrow> 'm hub_group_store \<Rightarrow> 'm hub_group_store" where
  "answer_invitation i state at s =
     s\<lparr>gs_invitations := update_first (\<lambda>x. gi_ID x = i)
         (\<lambda>x. x\<lparr>gi_State := state, gi_RespondedAt := Some at\<rparr>) (gs_invitations s)\<rparr>"

definition rejoin :: "instant \<Rightarrow> hub_group_member \<Rightarrow> hub_group_member" where
  "rejoin at m = m\<lparr>gm_State := HubMembershipActive, gm_Role := HubGroupRoleMember, gm_JoinedAt := at\<rparr>"

definition AcceptInvitation ::
  "'m hub_group_store \<Rightarrow> nat \<Rightarrow> string \<Rightarrow> instant \<Rightarrow> (group_error + hub_group_member) \<times> 'm hub_group_store" where
  "AcceptInvitation s i agentID at =
     (case find (\<lambda>x. gi_ID x = i) (gs_invitations s) of
        None \<Rightarrow> (Inl ErrHubInvitationNotFound, s)
      | Some target \<Rightarrow>
          let gid = gi_GroupID target; ms = members_of s gid in
          if gi_InviteeAgentID target \<noteq> agentID \<or> gi_State target \<noteq> HubInvitationPending \<or>
             \<not> gi_ExpiresAt target > at
          then (Inl ErrHubGroupInvalidState, s)
          else if \<not> active_group s gid then (Inl ErrHubGroupInvalidState, s)
          else if active_count ms \<ge> MaxGroupMembers then (Inl ErrHubGroupLimit, s)
          else
            let s1 = answer_invitation i HubInvitationAccepted at s in
            (case find (\<lambda>m. gm_AgentID m = agentID) ms of
               Some m \<Rightarrow>
                 (Inr (rejoin at m),
                  s1\<lparr>gs_members := assoc_set gid (update_first (\<lambda>m. gm_AgentID m = agentID) (rejoin at) ms)
                                     (gs_members s1)\<rparr>)
             | None \<Rightarrow>
                 let m = \<lparr>gm_HubID = gi_HubID target, gm_GroupID = gid, gm_AgentID = agentID,
                          gm_Role = HubGroupRoleMember, gm_State = HubMembershipActive, gm_JoinedAt = at,
                          gm_LeftAt = None, gm_RemovedAt = None\<rparr> in
                 (Inr m, s1\<lparr>gs_members := assoc_set gid (ms @ [m]) (gs_members s1)\<rparr>)))"

definition DeclineInvitation ::
  "'m hub_group_store \<Rightarrow> nat \<Rightarrow> string \<Rightarrow> instant \<Rightarrow> (group_error + unit) \<times> 'm hub_group_store" where
  "DeclineInvitation s i agentID at =
     (case find (\<lambda>x. gi_ID x = i) (gs_invitations s) of
        None \<Rightarrow> (Inl ErrHubInvitationNotFound, s)
      | Some x \<Rightarrow>
          if gi_InviteeAgentID x \<noteq> agentID \<or> gi_State x \<noteq> HubInvitationPending
          then (Inl ErrHubGroupInvalidState, s)
          else (Inr (), answer_invitation i HubInvitationDeclined at s))"

definition RevokeInvitation ::
  "'m hub_group_store \<Rightarrow> nat \<Rightarrow> string \<Rightarrow> instant \<Rightarrow> (group_error + unit) \<times> 'm hub_group_store" where
  "RevokeInvitation s i inviterID at =
     (case find (\<lambda>x. gi_ID x = i) (gs_invitations s) of
        None \<Rightarrow> (Inl ErrHubInvitationNotFound, s)
      | Some x \<Rightarrow>
          if gi_InviterAgentID x \<noteq> inviterID \<or> gi_State x \<noteq> HubInvitationPending
          then (Inl ErrHubGroupInvalidState, s)
          else (Inr (), answer_invitation i HubInvitationRevoked at s))"

section \<open>Messages\<close>

text \<open>The first critical section of \<open>SendGroupMessage\<close>: duplicate, group, membership and
  fan-out checks, and the allocation of the message id.\<close>

datatype send_plan = Duplicate hub_group_message | Deliver hub_group_message "hub_group_member list"

definition recipients_of :: "string \<Rightarrow> hub_group_member list \<Rightarrow> hub_group_member list" where
  "recipients_of sender ms = filter (\<lambda>m. gm_AgentID m \<noteq> sender \<and> member_active m) ms"

definition send_prepare ::
  "'m hub_group_store \<Rightarrow> instant \<Rightarrow> hub_group_message \<Rightarrow> int \<Rightarrow> (group_error + send_plan) \<times> 'm hub_group_store" where
  "send_prepare s now msg maxFanout =
     (case find (\<lambda>x. gp_GroupID x = gp_GroupID msg \<and> gp_SenderAgentID x = gp_SenderAgentID msg \<and>
                     gp_IdempotencyKey x = gp_IdempotencyKey msg) (gs_messages s) of
        Some existing \<Rightarrow> (Inr (Duplicate existing), s)
      | None \<Rightarrow>
          if \<not> active_group s (gp_GroupID msg) then (Inl ErrHubGroupNotFound, s)
          else
            let ms = members_of s (gp_GroupID msg);
                rs = recipients_of (gp_SenderAgentID msg) ms in
            if \<not> (\<exists>m\<in>set ms. gm_AgentID m = gp_SenderAgentID msg \<and> member_active m)
            then (Inl ErrHubGroupForbidden, s)
            else if rs = [] \<or> (maxFanout > 0 \<and> int (length rs) > maxFanout)
            then (Inl ErrHubGroupInvalidState, s)
            else (Inr (Deliver (msg\<lparr>gp_ID := gs_nextMsgID s,
                     gp_CreatedAt := (if time_is_zero (gp_CreatedAt msg) then now else gp_CreatedAt msg),
                     gp_Trust := ''UNTRUSTED_DATA'', gp_Deliveries := []\<rparr>) rs),
                  s\<lparr>gs_nextMsgID := u64 (gs_nextMsgID s + 1)\<rparr>))"

definition group_item :: "hub_group_message \<Rightarrow> string \<Rightarrow> hub_inbox_item" where
  "group_item msg agentID =
     \<lparr>hi_Sequence = 0, hi_HubID = gp_HubID msg, hi_TargetAgentID = agentID,
      hi_RequesterAgentID = gp_SenderAgentID msg,
      hi_TaskID = ''grp-'' @ show_nat (gp_ID msg) @ ''-'' @ agentID, hi_ContextID = gp_ContextID msg,
      hi_IdempotencyKey = ''group:'' @ gp_GroupID msg @ '':'' @ gp_IdempotencyKey msg,
      hi_Message = gp_Message msg, hi_CreatedAt = 0, hi_AcknowledgedAt = None\<rparr>"

text \<open>The deliveries, outside the mutex: one enqueue per recipient.\<close>

fun deliver ::
  "('m \<Rightarrow> instant \<Rightarrow> hub_inbox_item \<Rightarrow> (mailbox_error + hub_inbox_enqueue_result) \<times> 'm) \<Rightarrow> instant
     \<Rightarrow> hub_group_message \<Rightarrow> 'm option \<Rightarrow> hub_group_member list
     \<Rightarrow> hub_group_delivery_summary list \<times> 'm option" where
  "deliver enqueue now msg mb [] = ([], mb)"
| "deliver enqueue now msg mb (r # rs) =
     (let (seq, mb') =
        (case mb of
           None \<Rightarrow> (0, None)
         | Some m \<Rightarrow>
             (case enqueue m now (group_item msg (gm_AgentID r)) of
                (Inl _, m') \<Rightarrow> (0, Some m')
              | (Inr res, m') \<Rightarrow> (hi_Sequence (er_Item res), Some m')));
          (ds, mb'') = deliver enqueue now msg mb' rs in
      (\<lparr>gd_TargetAgentID = gm_AgentID r, gd_Sequence = seq, gd_State = ''PENDING''\<rparr> # ds, mb''))"

text \<open>The second critical section.\<close>

definition send_commit :: "'m hub_group_store \<Rightarrow> hub_group_message \<Rightarrow> 'm hub_group_store" where
  "send_commit s msg = s\<lparr>gs_messages := gs_messages s @ [msg]\<rparr>"

definition SendGroupMessage ::
  "('m \<Rightarrow> instant \<Rightarrow> hub_inbox_item \<Rightarrow> (mailbox_error + hub_inbox_enqueue_result) \<times> 'm)
     \<Rightarrow> 'm hub_group_store \<Rightarrow> instant \<Rightarrow> hub_group_message \<Rightarrow> int
     \<Rightarrow> (group_error + (hub_group_message \<times> bool)) \<times> 'm hub_group_store" where
  "SendGroupMessage enqueue s now msg maxFanout =
     (case send_prepare s now msg maxFanout of
        (Inl e, s1) \<Rightarrow> (Inl e, s1)
      | (Inr (Duplicate existing), s1) \<Rightarrow> (Inr (existing, True), s1)
      | (Inr (Deliver m rs), s1) \<Rightarrow>
          let (ds, mb) = deliver enqueue now m (gs_mailbox s1) rs;
              m' = m\<lparr>gp_Deliveries := ds\<rparr> in
          (Inr (m', False), send_commit (s1\<lparr>gs_mailbox := mb\<rparr>) m'))"

definition ListGroupMessages ::
  "'m hub_group_store \<Rightarrow> string \<Rightarrow> string \<Rightarrow> nat \<Rightarrow> int \<Rightarrow> group_error + hub_group_message list" where
  "ListGroupMessages s gid agentID afterID limit =
     (case find (\<lambda>m. gm_AgentID m = agentID \<and> member_active m) (members_of s gid) of
        None \<Rightarrow> Inl ErrHubGroupForbidden
      | Some member \<Rightarrow>
          let n = (if limit \<le> 0 \<or> limit > MaxGroupHistoryPageSize then 50 else limit) in
          Inr (take (nat n) (filter (\<lambda>x. gp_GroupID x = gid \<and> gp_ID x > afterID \<and>
                                        \<not> gp_CreatedAt x < gm_JoinedAt member) (gs_messages s))))"

section \<open>Leaving\<close>

definition ArchiveGroup :: "'m hub_group_store \<Rightarrow> string \<Rightarrow> instant \<Rightarrow> (group_error + unit) \<times> 'm hub_group_store" where
  "ArchiveGroup s gid at =
     (case map_of (gs_groups s) gid of
        None \<Rightarrow> (Inl ErrHubGroupNotFound, s)
      | Some g \<Rightarrow>
          (Inr (), s\<lparr>gs_groups := assoc_set gid (g\<lparr>hg_State := HubGroupStateArchived, hg_ArchivedAt := Some at\<rparr>)
                                  (gs_groups s)\<rparr>))"

definition put_members :: "string \<Rightarrow> hub_group_member list \<Rightarrow> 'm hub_group_store \<Rightarrow> 'm hub_group_store" where
  "put_members gid ms s = s\<lparr>gs_members := assoc_set gid ms (gs_members s)\<rparr>"

definition LeaveGroup ::
  "'m hub_group_store \<Rightarrow> string \<Rightarrow> string \<Rightarrow> instant \<Rightarrow> (group_error + unit) \<times> 'm hub_group_store" where
  "LeaveGroup s gid agentID at =
     (let ms = members_of s gid;
          P = (\<lambda>m. gm_AgentID m = agentID \<and> member_active m) in
      case find P ms of
        None \<Rightarrow> (Inl ErrHubGroupNotFound, s)
      | Some m \<Rightarrow>
          if gm_Role m = HubGroupRoleOwner then (Inl ErrHubGroupForbidden, s)
          else (Inr (), put_members gid (update_first P
                  (\<lambda>m. m\<lparr>gm_State := HubMembershipLeft, gm_LeftAt := Some at\<rparr>) ms) s))"

text \<open>The loop of \<open>RemoveMember\<close> keeps the last active entry it meets.\<close>

definition find_last :: "('a \<Rightarrow> bool) \<Rightarrow> 'a list \<Rightarrow> 'a option" where
  "find_last P xs = find P (rev xs)"

definition update_last :: "('a \<Rightarrow> bool) \<Rightarrow> ('a \<Rightarrow> 'a) \<Rightarrow> 'a list \<Rightarrow> 'a list" where
  "update_last P f xs = rev (update_first P f (rev xs))"

definition RemoveMember ::
  "'m hub_group_store \<Rightarrow> string \<Rightarrow> string \<Rightarrow> string \<Rightarrow> instant \<Rightarrow> (group_error + unit) \<times> 'm hub_group_store" where
  "RemoveMember s gid agentID targetAgentID at =
     (let ms = members_of s gid;
          P = (\<lambda>a m. gm_AgentID m = a \<and> member_active m) in
      case find_last (P agentID) ms of
        None \<Rightarrow> (Inl ErrHubGroupForbidden, s)
      | Some requester \<Rightarrow>
          if \<not> CanManageMembers requester then (Inl ErrHubGroupForbidden, s)
          else case find_last (P targetAgentID) ms of
            None \<Rightarrow> (Inl ErrHubGroupNotFound, s)
          | Some target \<Rightarrow>
              if gm_Role target = HubGroupRoleOwner then (Inl ErrHubGroupForbidden, s)
              else (Inr (), put_members gid (update_last (P targetAgentID)
                      (\<lambda>m. m\<lparr>gm_State := HubMembershipRemoved, gm_RemovedAt := Some at\<rparr>) ms) s))"

section \<open>Deliveries through the mailbox interface\<close>

definition message_complete :: "hub_group_message \<Rightarrow> bool" where
  "message_complete msg \<longleftrightarrow>
     gp_HubID msg \<noteq> [] \<and> gp_SenderAgentID msg \<noteq> [] \<and> gp_ContextID msg \<noteq> [] \<and> gp_Message msg \<noteq> []"

lemma group_item_complete: "message_complete msg \<Longrightarrow> a \<noteq> [] \<Longrightarrow> item_complete (group_item msg a)"
  by (simp add: message_complete_def group_item_def item_complete_def)

lemma group_item_key: "inbox_key (group_item msg a) = inbox_key (group_item msg b) \<longleftrightarrow> a = b"
  by (simp add: group_item_def inbox_key_def)

context hub_mailbox
begin

lemma deliver_frame:
  assumes "deliver enqueue now msg (Some m) rs = (ds, mb)"
  shows "\<exists>m'. mb = Some m' \<and> map gd_TargetAgentID ds = map gm_AgentID rs \<and>
     (\<forall>k. k \<notin> (\<lambda>r. inbox_key (group_item msg (gm_AgentID r))) ` set rs \<longrightarrow> lookup m' k = lookup m k) \<and>
     (\<forall>k x. lookup m k = Some x \<longrightarrow> lookup m' k = Some x)"
  using assms
proof (induction rs arbitrary: m ds)
  case (Cons r rs)
  let ?i = "group_item msg (gm_AgentID r)"
  obtain res m1 where e: "enqueue m now ?i = (res, m1)" by fastforce
  from Cons.prems e obtain ds1 where d: "deliver enqueue now msg (Some m1) rs = (ds1, mb)"
      "map gd_TargetAgentID ds = gm_AgentID r # map gd_TargetAgentID ds1"
    by (cases res) (auto split: prod.splits)
  have keep: "lookup m1 k = Some x" if "lookup m k = Some x" for k x
    using enqueue_keeps [OF that, of now ?i] e by simp
  from Cons.IH [OF d(1)] obtain m' where m': "mb = Some m'" "map gd_TargetAgentID ds1 = map gm_AgentID rs"
      "\<forall>k. k \<notin> (\<lambda>r. inbox_key (group_item msg (gm_AgentID r))) ` set rs \<longrightarrow> lookup m' k = lookup m1 k"
      "\<forall>k x. lookup m1 k = Some x \<longrightarrow> lookup m' k = Some x"
    by blast
  with d(2) keep enqueue_frame [OF e] show ?case by auto
qed auto

end

context reliable_hub_mailbox
begin

lemma deliver_reaches:
  assumes "deliver enqueue now msg (Some m) rs = (ds, Some m')" and "message_complete msg"
    and "r \<in> set rs" and "\<forall>r\<in>set rs. gm_AgentID r \<noteq> []" and "distinct (map gm_AgentID rs)"
  shows "\<exists>x. lookup m' (inbox_key (group_item msg (gm_AgentID r))) = Some x \<and>
     (lookup m (inbox_key (group_item msg (gm_AgentID r))) = None \<longrightarrow> hi_Message x = gp_Message msg)"
  using assms
proof (induction rs arbitrary: m ds)
  case (Cons r' rs)
  let ?i = "group_item msg (gm_AgentID r')"
  have "item_complete ?i" using Cons.prems by (intro group_item_complete) auto
  then obtain res m1 where e: "enqueue m now ?i = (Inr res, m1)" using enqueue_accepts by blast
  from Cons.prems(1) e obtain ds1 where d: "deliver enqueue now msg (Some m1) rs = (ds1, Some m')"
    by (auto split: prod.splits)
  show ?case
  proof (cases "r \<in> set rs")
    case True
    then have "gm_AgentID r \<in> gm_AgentID ` set rs" by (rule imageI)
    then have "gm_AgentID r \<noteq> gm_AgentID r'" using Cons.prems(5) by auto
    then have "lookup m1 (inbox_key (group_item msg (gm_AgentID r))) = lookup m (inbox_key (group_item msg (gm_AgentID r)))"
      using enqueue_frame [OF e] by (simp add: group_item_key)
    then show ?thesis using Cons.IH [OF d] Cons.prems True by simp
  next
    case False
    then have r: "r = r'" using Cons.prems(3) by simp
    have "lookup m' (inbox_key ?i) = Some (er_Item res)"
      using deliver_frame [OF d] enqueue_found [OF e] by (metis option.inject)
    moreover have "hi_Message (er_Item res) = gp_Message msg" if "lookup m (inbox_key ?i) = None"
      using enqueue_new [OF that e] by (simp add: group_item_def)
    ultimately show ?thesis by (simp add: r)
  qed
qed simp

end

section \<open>The invariant\<close>

definition roster_ok :: "hub_group_member list \<Rightarrow> bool" where
  "roster_ok ms \<longleftrightarrow> distinct (map gm_AgentID ms) \<and> active_count ms \<le> MaxGroupMembers"

definition group_inv :: "'m hub_group_store \<Rightarrow> bool" where
  "group_inv s \<longleftrightarrow> distinct_keys (gs_members s) \<and> (\<forall>(gid, ms)\<in>set (gs_members s). roster_ok ms)"

lemma group_inv_members: "group_inv s \<Longrightarrow> roster_ok (members_of s gid)"
  by (auto simp: group_inv_def members_of_def roster_ok_def active_count_def dest!: map_of_SomeD split: option.split)

lemma group_inv_put:
  "group_inv s \<Longrightarrow> roster_ok ms \<Longrightarrow> gs_members s' = assoc_set gid ms (gs_members s) \<Longrightarrow> group_inv s'"
  by (auto simp: group_inv_def dest!: assoc_set_values)

lemma group_inv_put_members:
  "group_inv s \<Longrightarrow> roster_ok ms \<Longrightarrow> group_inv (s\<lparr>gs_members := assoc_set gid ms (gs_members s)\<rparr>)"
  by (rule group_inv_put) auto

lemma group_inv_cong: "group_inv s \<Longrightarrow> gs_members s' = gs_members s \<Longrightarrow> group_inv s'"
  by (simp add: group_inv_def)

lemma active_count_update:
  "active_count (update_first P f ms) \<le> Suc (active_count ms)"
  "(\<And>m. \<not> member_active (f m)) \<Longrightarrow> active_count (update_first P f ms) \<le> active_count ms"
  by (induction ms) (auto simp: active_count_def)

lemma active_count_rev: "active_count (rev ms) = active_count ms"
  by (simp add: active_count_def rev_filter [symmetric])

lemma roster_retire:
  assumes "roster_ok ms" and "\<And>m. \<not> member_active (f m)" and "\<And>m. gm_AgentID (f m) = gm_AgentID m"
  shows "roster_ok (update_first P f ms)" "roster_ok (update_last P f ms)"
proof -
  have "active_count (update_first P f ms) \<le> active_count ms"
    using assms(2) by (rule active_count_update)
  with assms show "roster_ok (update_first P f ms)" by (simp add: roster_ok_def)
  have "active_count (update_first P f (rev ms)) \<le> active_count (rev ms)"
    using assms(2) by (rule active_count_update)
  then show "roster_ok (update_last P f ms)"
    using assms by (simp add: roster_ok_def update_last_def active_count_rev rev_map [symmetric])
qed

datatype group_op =
    GCreate instant "string option" hub_group
  | GInvite instant hub_group_invitation
  | GAccept nat string instant
  | GDecline nat string instant
  | GRevoke nat string instant
  | GSend instant hub_group_message int
  | GArchive string instant
  | GLeave string string instant
  | GRemove string string string instant

fun group_step ::
  "('m \<Rightarrow> instant \<Rightarrow> hub_inbox_item \<Rightarrow> (mailbox_error + hub_inbox_enqueue_result) \<times> 'm)
     \<Rightarrow> 'm hub_group_store \<Rightarrow> group_op \<Rightarrow> 'm hub_group_store" where
  "group_step enq s (GCreate now rnd g) = snd (CreateGroup s now rnd g)"
| "group_step enq s (GInvite now i) = snd (CreateInvitation s now i)"
| "group_step enq s (GAccept i a at) = snd (AcceptInvitation s i a at)"
| "group_step enq s (GDecline i a at) = snd (DeclineInvitation s i a at)"
| "group_step enq s (GRevoke i a at) = snd (RevokeInvitation s i a at)"
| "group_step enq s (GSend now msg n) = snd (SendGroupMessage enq s now msg n)"
| "group_step enq s (GArchive g at) = snd (ArchiveGroup s g at)"
| "group_step enq s (GLeave g a at) = snd (LeaveGroup s g a at)"
| "group_step enq s (GRemove g a b at) = snd (RemoveMember s g a b at)"

lemma answer_invitation_members [simp]: "gs_members (answer_invitation i st at s) = gs_members s"
  by (simp add: answer_invitation_def)

lemma CreateGroup_members:
  "snd (CreateGroup s now rnd g) = s \<or>
   (\<exists>gid m. gs_members (snd (CreateGroup s now rnd g)) = assoc_set gid [m] (gs_members s))"
  unfolding CreateGroup_def Let_def
  by (cases "if hg_GroupID g = [] then GenerateGroupID rnd else Inr (hg_GroupID g)") auto

lemma send_prepare_members: "send_prepare s now msg n = (p, s') \<Longrightarrow> gs_members s' = gs_members s"
  by (auto simp: send_prepare_def Let_def split: option.splits if_splits)

lemma AcceptInvitation_inv:
  assumes inv: "group_inv s"
  shows "group_inv (snd (AcceptInvitation s i a at))"
proof (cases "fst (AcceptInvitation s i a at)")
  case (Inl e)
  then have "snd (AcceptInvitation s i a at) = s"
    by (auto simp: AcceptInvitation_def Let_def split: option.splits if_splits)
  with inv show ?thesis by simp
next
  case (Inr m)
  then obtain t where t: "find (\<lambda>x. gi_ID x = i) (gs_invitations s) = Some t"
    and room: "active_count (members_of s (gi_GroupID t)) < MaxGroupMembers"
    by (auto simp: AcceptInvitation_def Let_def not_less split: option.splits if_splits)
  let ?ms = "members_of s (gi_GroupID t)"
  have ok: "roster_ok ?ms" using inv by (rule group_inv_members)
  have "roster_ok (update_first (\<lambda>m. gm_AgentID m = a) (rejoin at) ?ms)"
    using ok room active_count_update(1) [of "\<lambda>m. gm_AgentID m = a" "rejoin at" ?ms]
    by (simp add: roster_ok_def rejoin_def)
  moreover have "roster_ok (?ms @ [m])" if "gm_AgentID m = a" "find (\<lambda>m. gm_AgentID m = a) ?ms = None" for m
    using ok room that by (auto simp: roster_ok_def active_count_def find_None_all)
  moreover have "group_inv (answer_invitation i st at s\<lparr>gs_members := assoc_set gid ms (gs_members s)\<rparr>)"
    if "roster_ok ms" for st gid ms
    using that by (intro group_inv_put [OF inv]) auto
  ultimately show ?thesis
    using Inr t room by (auto simp: AcceptInvitation_def Let_def split: option.splits if_splits)
qed

lemma group_step_inv:
  assumes inv: "group_inv s"
  shows "group_inv (group_step enq s e)"
proof (cases e)
  case (GCreate now rnd g)
  have "roster_ok [m]" for m by (simp add: roster_ok_def active_count_def go_defs)
  with GCreate inv group_inv_put [OF inv] CreateGroup_members [of s now rnd g] show ?thesis
    by auto
next
  case (GInvite now i)
  with inv show ?thesis by (auto simp: CreateInvitation_def Let_def intro: group_inv_cong)
next
  case (GDecline i a at)
  with inv show ?thesis
    by (auto simp: DeclineInvitation_def intro: group_inv_cong split: option.splits)
next
  case (GRevoke i a at)
  with inv show ?thesis
    by (auto simp: RevokeInvitation_def intro: group_inv_cong split: option.splits)
next
  case (GSend now msg n)
  obtain p s1 where "send_prepare s now msg n = (p, s1)" by fastforce
  with GSend inv send_prepare_members [OF this] show ?thesis
    by (auto simp: SendGroupMessage_def send_commit_def Let_def intro: group_inv_cong
        split: sum.splits send_plan.splits prod.splits)
next
  case (GArchive g at)
  with inv show ?thesis by (auto simp: ArchiveGroup_def intro: group_inv_cong split: option.splits)
next
  case (GLeave g a at)
  have "roster_ok (update_first P (\<lambda>m. m\<lparr>gm_State := HubMembershipLeft, gm_LeftAt := Some at\<rparr>) (members_of s g))" for P
    using group_inv_members [OF inv] by (intro roster_retire) (simp_all add: member_active_def go_defs)
  with GLeave inv show ?thesis
    by (auto simp: LeaveGroup_def put_members_def Let_def intro: group_inv_put_members split: option.splits)
next
  case (GRemove g a b at)
  have "roster_ok (update_last P (\<lambda>m. m\<lparr>gm_State := HubMembershipRemoved, gm_RemovedAt := Some at\<rparr>) (members_of s g))" for P
    using group_inv_members [OF inv] by (intro roster_retire) (simp_all add: member_active_def go_defs)
  with GRemove inv show ?thesis
    by (auto simp: RemoveMember_def put_members_def Let_def intro: group_inv_put_members split: option.splits)
qed (use inv AcceptInvitation_inv in simp)

interpretation groups: component "group_step enq" group_inv "\<lambda>_. True" "\<lambda>s. \<exists>mb. s = NewMemoryHubGroupStore mb" for enq
proof unfold_locales
  show "group_inv s" if "\<exists>mb. s = NewMemoryHubGroupStore mb" for s
    using that by (auto simp: group_inv_def NewMemoryHubGroupStore_def)
qed (rule group_step_inv)

section \<open>A send in one piece\<close>

lemma SendGroupMessage_sent:
  assumes "SendGroupMessage enq s now msg n = (Inr (m', False), s')"
  shows "\<exists>m ds mb. send_prepare s now msg n = (Inr (Deliver m (recipients_of (gp_SenderAgentID msg) (members_of s (gp_GroupID msg)))),
       s\<lparr>gs_nextMsgID := u64 (gs_nextMsgID s + 1)\<rparr>) \<and>
     deliver enq now m (gs_mailbox s) (recipients_of (gp_SenderAgentID msg) (members_of s (gp_GroupID msg))) = (ds, mb) \<and>
     m' = m\<lparr>gp_Deliveries := ds\<rparr> \<and>
     s' = s\<lparr>gs_nextMsgID := u64 (gs_nextMsgID s + 1), gs_mailbox := mb, gs_messages := gs_messages s @ [m']\<rparr>"
  using assms
  by (auto simp: SendGroupMessage_def send_prepare_def send_commit_def Let_def
      split: option.splits if_splits prod.splits)

lemma prepared_message:
  assumes "send_prepare s now msg n = (Inr (Deliver m rs), s')"
  shows "gp_HubID m = gp_HubID msg" "gp_GroupID m = gp_GroupID msg" "gp_SenderAgentID m = gp_SenderAgentID msg"
    "gp_ContextID m = gp_ContextID msg" "gp_IdempotencyKey m = gp_IdempotencyKey msg" "gp_Message m = gp_Message msg"
    "find (\<lambda>x. gp_GroupID x = gp_GroupID msg \<and> gp_SenderAgentID x = gp_SenderAgentID msg \<and>
       gp_IdempotencyKey x = gp_IdempotencyKey msg) (gs_messages s) = None"
  using assms by (auto simp: send_prepare_def Let_def split: option.splits if_splits)

lemma prepared_key: "send_prepare s now msg n = (Inr (Deliver m rs), s') \<Longrightarrow>
   inbox_key (group_item m a) = inbox_key (group_item msg a)"
  using prepared_message [of s now msg n m rs s'] by (simp add: group_item_def inbox_key_def)

section \<open>Sample data\<close>

definition sample_member :: "string \<Rightarrow> string \<Rightarrow> hub_group_member" where
  "sample_member a role =
     \<lparr>gm_HubID = ''h'', gm_GroupID = ''g'', gm_AgentID = a, gm_Role = role, gm_State = HubMembershipActive,
      gm_JoinedAt = 1, gm_LeftAt = None, gm_RemovedAt = None\<rparr>"

definition sample_group_store :: "'m option \<Rightarrow> 'm hub_group_store" where
  "sample_group_store mb =
     (NewMemoryHubGroupStore mb)\<lparr>
       gs_groups := [(''g'', \<lparr>hg_HubID = ''h'', hg_GroupID = ''g'', hg_Name = ''G'', hg_State = HubGroupStateActive,
                              hg_OwnerAgentID = ''x'', hg_CreatedAt = 1, hg_ArchivedAt = None\<rparr>)],
       gs_members := [(''g'', [sample_member ''x'' HubGroupRoleOwner, sample_member ''y'' HubGroupRoleMember])]\<rparr>"

definition sample_post :: "string \<Rightarrow> hub_group_message" where
  "sample_post key =
     \<lparr>gp_ID = 0, gp_HubID = ''h'', gp_GroupID = ''g'', gp_SenderAgentID = ''x'', gp_ContextID = ''c'',
      gp_IdempotencyKey = key, gp_Message = ''hello'', gp_Trust = [], gp_CreatedAt = 5, gp_Deliveries = []\<rparr>"

lemma sample_members: "members_of (sample_group_store mb) ''g'' =
   [sample_member ''x'' HubGroupRoleOwner, sample_member ''y'' HubGroupRoleMember]"
  by (simp add: members_of_def sample_group_store_def)

lemma sample_recipients:
  "recipients_of ''x'' (members_of (sample_group_store mb) ''g'') = [sample_member ''y'' HubGroupRoleMember]"
  "\<forall>m\<in>set (members_of (sample_group_store mb) ''g''). gm_AgentID m \<noteq> []"
  "gs_mailbox (sample_group_store mb) = mb"
  unfolding sample_members
  by (simp_all add: recipients_of_def sample_member_def member_active_def sample_group_store_def
      NewMemoryHubGroupStore_def)

lemma sample_send:
  "\<exists>m' s'. SendGroupMessage Enqueue (sample_group_store (Some NewMemoryHubMailbox)) 5 (sample_post ''k'') 0
     = (Inr (m', False), s')"
  by (simp add: SendGroupMessage_def send_prepare_def sample_members sample_post_def recipients_of_def
      active_group_def sample_group_store_def NewMemoryHubGroupStore_def member_active_def sample_member_def
      members_of_def Let_def split: prod.split)

section \<open>Properties\<close>

text \<open>In every history of a group store, no group lists an agent twice, and no group has
  more than 32 active members.\<close>

theorem group_members_bounded:
  "distinct (map gm_AgentID (members_of (foldl (group_step enq) (NewMemoryHubGroupStore mb) es) gid)) \<and>
   active_count (members_of (foldl (group_step enq) (NewMemoryHubGroupStore mb) es) gid) \<le> 32"
proof -
  have "group_inv (foldl (group_step enq) (NewMemoryHubGroupStore mb) es)"
    by (rule groups.invar_history) auto
  from group_inv_members [OF this, of gid] show ?thesis by (simp add: roster_ok_def go_defs)
qed

text \<open>C27: a message that is sent reaches the in-memory mailbox of every other active member of the
  group, under the message's key and with its text unless that key was taken before, and touches no
  other key; the deliveries it reports are exactly these members.\<close>

theorem group_message_reaches_members:
  assumes "group_inv s" and "gs_mailbox s = Some mb" and "message_complete msg"
    and "\<forall>m\<in>set (members_of s (gp_GroupID msg)). gm_AgentID m \<noteq> []"
    and "SendGroupMessage Enqueue s now msg n = (Inr (m', False), s')"
  shows "\<exists>mb'. gs_mailbox s' = Some mb' \<and>
     map gd_TargetAgentID (gp_Deliveries m') = map gm_AgentID (recipients_of (gp_SenderAgentID msg) (members_of s (gp_GroupID msg))) \<and>
     (\<forall>r\<in>set (recipients_of (gp_SenderAgentID msg) (members_of s (gp_GroupID msg))).
        \<exists>x. Find mb' (inbox_key (group_item msg (gm_AgentID r))) = Some x \<and>
          (Find mb (inbox_key (group_item msg (gm_AgentID r))) = None \<longrightarrow> hi_Message x = gp_Message msg)) \<and>
     (\<forall>k. k \<notin> (\<lambda>r. inbox_key (group_item msg (gm_AgentID r))) `
              set (recipients_of (gp_SenderAgentID msg) (members_of s (gp_GroupID msg))) \<longrightarrow> Find mb' k = Find mb k)"
proof -
  let ?rs = "recipients_of (gp_SenderAgentID msg) (members_of s (gp_GroupID msg))"
  from SendGroupMessage_sent [OF assms(5)] obtain m ds mbo where
    prep: "send_prepare s now msg n = (Inr (Deliver m ?rs), s\<lparr>gs_nextMsgID := u64 (gs_nextMsgID s + 1)\<rparr>)" and
    del: "deliver Enqueue now m (Some mb) ?rs = (ds, mbo)" and
    m': "gp_Deliveries m' = ds" "gs_mailbox s' = mbo"
    using assms(2) by auto
  note key = prepared_key [OF prep] and pm = prepared_message [OF prep]
  from memory_mailbox.deliver_frame [OF del] obtain mb' where mb': "mbo = Some mb'"
      "map gd_TargetAgentID ds = map gm_AgentID ?rs"
      "\<forall>k. k \<notin> (\<lambda>r. inbox_key (group_item msg (gm_AgentID r))) ` set ?rs \<longrightarrow> Find mb' k = Find mb k"
    unfolding key by blast
  have "distinct (map gm_AgentID ?rs)"
    using group_inv_members [OF assms(1), of "gp_GroupID msg"]
    by (simp add: recipients_of_def roster_ok_def distinct_map_filter)
  moreover have "message_complete m" using assms(3) pm by (simp add: message_complete_def)
  moreover have "\<forall>r\<in>set ?rs. gm_AgentID r \<noteq> []" using assms(4) by (simp add: recipients_of_def)
  ultimately have "\<exists>x. Find mb' (inbox_key (group_item msg (gm_AgentID r))) = Some x \<and>
      (Find mb (inbox_key (group_item msg (gm_AgentID r))) = None \<longrightarrow> hi_Message x = gp_Message msg)"
    if "r \<in> set ?rs" for r
    using memory_mailbox.deliver_reaches [OF del [unfolded mb'(1)] _ that] pm(6) unfolding key by auto
  with mb' m' show ?thesis by auto
qed

theorem group_message_reaches_members_witness:
  "\<exists>m' s' mb'. SendGroupMessage Enqueue (sample_group_store (Some NewMemoryHubMailbox)) 5 (sample_post ''k'') 0
       = (Inr (m', False), s') \<and> gs_mailbox s' = Some mb' \<and> map gd_TargetAgentID (gp_Deliveries m') = [''y'']"
proof -
  obtain m' s' where run: "SendGroupMessage Enqueue (sample_group_store (Some NewMemoryHubMailbox)) 5 (sample_post ''k'') 0
      = (Inr (m', False), s')" using sample_send by blast
  have "group_inv (sample_group_store (Some NewMemoryHubMailbox))"
    by (simp add: group_inv_def sample_group_store_def distinct_keys_def roster_ok_def sample_member_def
        active_count_def go_defs)
  moreover have "message_complete (sample_post ''k'')" "gp_GroupID (sample_post ''k'') = ''g''"
      "gp_SenderAgentID (sample_post ''k'') = ''x''" "gm_AgentID (sample_member ''y'' r) = ''y''" for r
    by (simp_all add: message_complete_def sample_post_def sample_member_def)
  ultimately have "\<exists>mb'. gs_mailbox s' = Some mb' \<and> map gd_TargetAgentID (gp_Deliveries m') = [''y'']"
    using group_message_reaches_members [OF _ _ _ _ run, of NewMemoryHubMailbox] by (auto simp: sample_recipients)
  with run show ?thesis by auto
qed

text \<open>Sending is idempotent. A second send with the same group, sender and idempotency key
  returns the first message as a duplicate and changes neither the store nor any mailbox.\<close>

theorem group_message_resend:
  assumes "SendGroupMessage enq s now msg n = (Inr (m', False), s')"
    and "gp_GroupID msg2 = gp_GroupID msg" and "gp_SenderAgentID msg2 = gp_SenderAgentID msg"
    and "gp_IdempotencyKey msg2 = gp_IdempotencyKey msg"
  shows "SendGroupMessage enq s' now2 msg2 n2 = (Inr (m', True), s')"
proof -
  from SendGroupMessage_sent [OF assms(1)] obtain m rs s1 ds where
    prep: "send_prepare s now msg n = (Inr (Deliver m rs), s1)" and
    m': "m' = m\<lparr>gp_Deliveries := ds\<rparr>" "gs_messages s' = gs_messages s @ [m']"
    by force
  note pm = prepared_message [OF prep]
  have "find (\<lambda>x. gp_GroupID x = gp_GroupID msg \<and> gp_SenderAgentID x = gp_SenderAgentID msg \<and>
      gp_IdempotencyKey x = gp_IdempotencyKey msg) (gs_messages s') = Some m'"
    using pm by (simp add: m' find_append)
  then show ?thesis by (simp add: SendGroupMessage_def send_prepare_def assms(2-4))
qed

theorem group_message_resend_witness:
  "\<exists>m' s'. SendGroupMessage Enqueue (sample_group_store (Some NewMemoryHubMailbox)) 5 (sample_post ''k'') 0
       = (Inr (m', False), s') \<and> SendGroupMessage Enqueue s' 6 ((sample_post ''k'')\<lparr>gp_Message := ''again''\<rparr>) 0 = (Inr (m', True), s')"
proof -
  obtain m' s' where run: "SendGroupMessage Enqueue (sample_group_store (Some NewMemoryHubMailbox)) 5 (sample_post ''k'') 0
      = (Inr (m', False), s')" using sample_send by blast
  then show ?thesis using group_message_resend [OF run, of "(sample_post ''k'')\<lparr>gp_Message := ''again''\<rparr>"] by auto
qed

text \<open>Accepting an invitation makes the agent an active plain member, whatever its role was:
  a group's owner who accepts an invitation to it is an owner no longer.\<close>

theorem AcceptInvitation_demotes:
  assumes "AcceptInvitation s i a at = (Inr m, s')" and "FindInvitation s i = Inr t"
  shows "gm_Role m = HubGroupRoleMember \<and> member_active m \<and> FindMember s' (gi_GroupID t) a = Inr m"
proof -
  let ?ms = "members_of s (gi_GroupID t)"
  from assms(2) have t: "find (\<lambda>x. gi_ID x = i) (gs_invitations s) = Some t"
    by (auto simp: FindInvitation_def split: option.splits)
  show ?thesis
  proof (cases "find (\<lambda>m. gm_AgentID m = a) ?ms")
    case None
    then show ?thesis
      using assms(1) t
      by (auto simp: AcceptInvitation_def Let_def FindMember_def members_of_def find_append member_active_def
          split: if_splits)
  next
    case (Some m0)
    have "find (\<lambda>m. gm_AgentID m = a) (update_first (\<lambda>m. gm_AgentID m = a) (rejoin at) ?ms) = Some (rejoin at m0)"
      using Some find_Some_in [OF Some] by (intro find_update_first_same) (auto simp: rejoin_def)
    then show ?thesis
      using assms(1) t Some
      by (auto simp: AcceptInvitation_def Let_def FindMember_def members_of_def member_active_def rejoin_def
          split: if_splits)
  qed
qed

theorem AcceptInvitation_demotes_witness:
  "\<exists>m s'. AcceptInvitation ((sample_group_store (None :: unit option))\<lparr>gs_invitations :=
        [\<lparr>gi_ID = 1, gi_HubID = ''h'', gi_GroupID = ''g'', gi_InviterAgentID = ''x'', gi_InviteeAgentID = ''x'',
          gi_State = HubInvitationPending, gi_CreatedAt = 1, gi_ExpiresAt = 9, gi_RespondedAt = None\<rparr>]\<rparr>) 1 ''x'' 5
       = (Inr m, s') \<and> gm_Role (sample_member ''x'' HubGroupRoleOwner) = HubGroupRoleOwner \<and>
     FindMember s' ''g'' ''x'' = Inr m \<and> gm_Role m = HubGroupRoleMember"
proof -
  let ?i = "\<lparr>gi_ID = 1, gi_HubID = ''h'', gi_GroupID = ''g'', gi_InviterAgentID = ''x'', gi_InviteeAgentID = ''x'',
          gi_State = HubInvitationPending, gi_CreatedAt = 1, gi_ExpiresAt = 9, gi_RespondedAt = None\<rparr>"
  let ?s = "(sample_group_store (None :: unit option))\<lparr>gs_invitations := [?i]\<rparr>"
  have "\<exists>m s'. AcceptInvitation ?s 1 ''x'' 5 = (Inr m, s')"
    by (simp add: AcceptInvitation_def sample_group_store_def active_group_def members_of_def active_count_def
        sample_member_def go_defs Let_def)
  then obtain m s' where run: "AcceptInvitation ?s 1 ''x'' 5 = (Inr m, s')" by blast
  have "FindInvitation ?s 1 = Inr ?i" by (simp add: FindInvitation_def)
  from AcceptInvitation_demotes [OF run this] run show ?thesis by (auto simp: sample_member_def)
qed

text \<open>When two sends overlap, the one that took the smaller message id can be stored after
  the other; a member that has read up to the greater id and asks for what follows it never sees
  the smaller one, although it is stored and was sent after the member joined.\<close>

theorem overlapping_sends_skip_a_message:
  "let s0 = sample_group_store (None :: unit option);
       (pa, s1) = send_prepare s0 5 (sample_post ''a'') 0;
       (pb, s2) = send_prepare s1 5 (sample_post ''b'') 0 in
   \<exists>a b rs. pa = Inr (Deliver a rs) \<and> pb = Inr (Deliver b rs) \<and>
     (let s3 = send_commit s2 b; s4 = send_commit s3 a in
      ListGroupMessages s3 ''g'' ''y'' 0 50 = Inr [b] \<and>
      ListGroupMessages s4 ''g'' ''y'' (gp_ID b) 50 = Inr [] \<and> a \<in> set (gs_messages s4))"
  by (simp add: send_prepare_def send_commit_def ListGroupMessages_def sample_group_store_def
      NewMemoryHubGroupStore_def sample_post_def sample_member_def active_group_def members_of_def recipients_of_def
      member_active_def Let_def go_defs)

end
