(* ===== verification/Tenant_Queue.thy ===== *)
theory Tenant_Queue
  imports Prelude "HOL-Library.Multiset"
begin

text \<open>
  Admission per organization, \<open>backend/manager/component/tenantqueue/limiter.go\<close>: the bounded
  \<open>Queue\<close> that serves organizations in turn and the \<open>Limiter\<close> of running work. A method that runs
  under the mutex is one function. A Go map from organizations is a function, with the zero value
  for a missing key; a release function is the number of its grant.

  Shown here: the bounds of both hold in every history; the queue is a first-in first-out queue per
  organization and loses nothing, and it is empty exactly when a dequeue says so; a full drain
  leaves no trace of the organizations; without a drain, an organization that keeps its queue
  short can keep another one waiting for ever.
\<close>

section \<open>The queue\<close>

record 'v tenant_queue =
  q_perTenantLimit :: int
  q_totalLimit :: int
  q_items :: "string \<Rightarrow> 'v list"
  q_order :: "string list"
  q_next :: nat
  q_total :: int

definition NewQueue :: "int \<Rightarrow> int \<Rightarrow> 'v tenant_queue" where
  "NewQueue perTenantLimit totalLimit =
     \<lparr>q_perTenantLimit = perTenantLimit, q_totalLimit = totalLimit, q_items = (\<lambda>_. []), q_order = [],
      q_next = 0, q_total = 0\<rparr>"

definition q_Enqueue :: "'v tenant_queue \<Rightarrow> string \<Rightarrow> 'v \<Rightarrow> bool \<times> 'v tenant_queue" where
  "q_Enqueue q org v =
     (if org = [] then (False, q)
      else if q_perTenantLimit q \<le> 0 \<or> q_totalLimit q \<le> 0 \<or> q_total q \<ge> q_totalLimit q \<or>
         int (length (q_items q org)) \<ge> q_perTenantLimit q
      then (False, q)
      else (True, q\<lparr>q_order := (if q_items q org = [] then q_order q @ [org] else q_order q),
                    q_items := (q_items q)(org := q_items q org @ [v]),
                    q_total := q_total q + 1\<rparr>))"

text \<open>The loop of \<open>Dequeue\<close>: each round either serves the organization it looks at or removes it
  from the order.\<close>

function q_Dequeue :: "'v tenant_queue \<Rightarrow> (string \<times> 'v) option \<times> 'v tenant_queue" where
  "q_Dequeue q =
     (if q_order q = [] then (None, q)
      else
        let n = (if q_next q \<ge> length (q_order q) then 0 else q_next q);
            org = q_order q ! n in
        (case q_items q org of
           [] \<Rightarrow> q_Dequeue (q\<lparr>q_next := n, q_order := take n (q_order q) @ drop (Suc n) (q_order q)\<rparr>)
         | v # vs \<Rightarrow> (Some (org, v), q\<lparr>q_items := (q_items q)(org := vs), q_total := q_total q - 1, q_next := Suc n\<rparr>)))"
  by auto
termination
  by (relation "measure (\<lambda>q. length (q_order q))") (auto simp: not_le)

declare q_Dequeue.simps [simp del]

definition queue_inv :: "'v tenant_queue \<Rightarrow> bool" where
  "queue_inv q \<longleftrightarrow>
     (\<forall>org. q_items q org \<noteq> [] \<longrightarrow> org \<in> set (q_order q)) \<and>
     q_total q = (\<Sum>org\<in>set (q_order q). int (length (q_items q org))) \<and>
     (\<forall>org. int (length (q_items q org)) \<le> max 0 (q_perTenantLimit q)) \<and>
     q_total q \<le> max 0 (q_totalLimit q)"

lemma queue_inv_new: "queue_inv (NewQueue a b)"
  by (simp add: queue_inv_def NewQueue_def)

lemma sum_update:
  "finite S \<Longrightarrow> org \<in> S \<Longrightarrow>
   (\<Sum>x\<in>S. int (length ((f(org := vs)) x))) = (\<Sum>x\<in>S. int (length (f x))) - int (length (f org)) + int (length vs)"
proof -
  assume S: "finite S" "org \<in> S"
  have "(\<Sum>x\<in>S - {org}. int (length ((f(org := vs)) x))) = (\<Sum>x\<in>S - {org}. int (length (f x)))"
    by (rule sum.cong) auto
  then show ?thesis
    using sum.remove [OF S, of "\<lambda>x. int (length ((f(org := vs)) x))"] sum.remove [OF S, of "\<lambda>x. int (length (f x))"]
    by simp
qed

lemma queue_inv_enqueue:
  assumes "queue_inv q"
  shows "queue_inv (snd (q_Enqueue q org v))"
proof (cases "fst (q_Enqueue q org v)")
  case True
  let ?q = "snd (q_Enqueue q org v)"
  have ok: "q_total q < q_totalLimit q" "int (length (q_items q org)) < q_perTenantLimit q"
    and q: "q_items ?q = (q_items q)(org := q_items q org @ [v])" "q_total ?q = q_total q + 1"
      "q_perTenantLimit ?q = q_perTenantLimit q" "q_totalLimit ?q = q_totalLimit q"
      "set (q_order ?q) = insert org (set (q_order q))"
    using True assms by (auto simp: q_Enqueue_def queue_inv_def split: if_splits)
  have "(\<Sum>x\<in>insert org (set (q_order q)). int (length (q_items q x))) = q_total q"
    using assms by (auto simp: queue_inv_def sum.insert_if)
  then have "q_total ?q = (\<Sum>x\<in>set (q_order ?q). int (length (q_items ?q x)))"
    by (simp only: q sum_update finite_insert finite_set insertI1) simp
  then show ?thesis using assms ok q by (auto simp: queue_inv_def)
qed (use assms in \<open>auto simp: q_Enqueue_def split: if_splits\<close>)

text \<open>What a dequeue does: it serves the oldest item of one organization, or there is none.\<close>

definition dequeued :: "'v tenant_queue \<Rightarrow> (string \<times> 'v) option \<Rightarrow> 'v tenant_queue \<Rightarrow> bool" where
  "dequeued q res q' \<longleftrightarrow>
     q_perTenantLimit q' = q_perTenantLimit q \<and> q_totalLimit q' = q_totalLimit q \<and>
     set (q_order q') \<subseteq> set (q_order q) \<and> (\<forall>x\<in>set (q_order q). x \<notin> set (q_order q') \<longrightarrow> q_items q x = []) \<and>
     (case res of
        None \<Rightarrow> q_order q' = [] \<and> q_items q' = q_items q \<and> q_total q' = q_total q
      | Some (org, v) \<Rightarrow>
          org \<in> set (q_order q') \<and> q_total q' = q_total q - 1 \<and>
          (\<exists>vs. q_items q org = v # vs \<and> q_items q' = (q_items q)(org := vs)))"

lemma set_take_drop: "n < length xs \<Longrightarrow> insert (xs ! n) (set (take n xs @ drop (Suc n) xs)) = set xs"
  by (metis id_take_nth_drop set_append list.simps(15) Un_insert_right)

lemma q_Dequeue_spec: "dequeued q (fst (q_Dequeue q)) (snd (q_Dequeue q))"
proof (induction q rule: q_Dequeue.induct)
  case (1 q)
  define n where "n = (if q_next q \<ge> length (q_order q) then 0 else q_next q)"
  define org where "org = q_order q ! n"
  show ?case
  proof (cases "q_order q = []")
    case True
    then show ?thesis by (subst (1 2) q_Dequeue.simps) (simp add: dequeued_def)
  next
    case False
    then have n: "n < length (q_order q)" by (auto simp: n_def)
    show ?thesis
    proof (cases "q_items q org")
      case Nil
      let ?q = "q\<lparr>q_next := n, q_order := take n (q_order q) @ drop (Suc n) (q_order q)\<rparr>"
      have step: "q_Dequeue q = q_Dequeue ?q"
        by (subst q_Dequeue.simps) (simp add: False Let_def Nil n_def [symmetric] org_def [symmetric])
      have "dequeued ?q (fst (q_Dequeue ?q)) (snd (q_Dequeue ?q))"
        by (rule 1 [OF False n_def org_def Nil])
      moreover have "insert org (set (q_order ?q)) = set (q_order q)"
        using set_take_drop [OF n] by (simp add: org_def)
      ultimately show ?thesis unfolding step
        using Nil by (auto simp: dequeued_def split: option.splits)
    next
      case (Cons v vs)
      have "q_Dequeue q = (Some (org, v), q\<lparr>q_items := (q_items q)(org := vs), q_total := q_total q - 1, q_next := Suc n\<rparr>)"
        by (subst q_Dequeue.simps) (simp add: False Let_def Cons n_def [symmetric] org_def [symmetric])
      then show ?thesis using Cons n by (simp add: dequeued_def org_def)
    qed
  qed
qed

lemma queue_invD:
  assumes "queue_inv q"
  shows "q_items q x \<noteq> [] \<Longrightarrow> x \<in> set (q_order q)" and "int (length (q_items q x)) \<le> max 0 (q_perTenantLimit q)"
    and "q_total q \<le> max 0 (q_totalLimit q)"
  using assms unfolding queue_inv_def by blast+

lemma dequeued_keeps:
  assumes "dequeued q res q'"
  shows "q_perTenantLimit q' = q_perTenantLimit q" and "q_totalLimit q' = q_totalLimit q"
    and "set (q_order q') \<subseteq> set (q_order q)"
    and "x \<in> set (q_order q) \<Longrightarrow> x \<notin> set (q_order q') \<Longrightarrow> q_items q x = []"
  using assms unfolding dequeued_def by blast+

lemma queue_inv_dequeue:
  assumes "queue_inv q"
  shows "queue_inv (snd (q_Dequeue q))"
proof -
  let ?q = "snd (q_Dequeue q)"
  have d: "dequeued q (fst (q_Dequeue q)) ?q" by (rule q_Dequeue_spec)
  have sum: "(\<Sum>x\<in>set (q_order ?q). int (length (q_items q x))) = q_total q"
  proof -
    have "(\<Sum>x\<in>set (q_order ?q). int (length (q_items q x))) = (\<Sum>x\<in>set (q_order q). int (length (q_items q x)))"
      by (rule sum.mono_neutral_left) (use d in \<open>auto simp: dequeued_def\<close>)
    then show ?thesis using assms by (simp add: queue_inv_def)
  qed
  show ?thesis
  proof (cases "fst (q_Dequeue q)")
    case None
    then have q: "q_order ?q = []" "q_items ?q = q_items q" "q_total ?q = q_total q" using d by (simp_all add: dequeued_def)
    then have "q_items q x = []" for x using queue_invD(1) [OF assms] dequeued_keeps(4) [OF d] by (metis empty_iff empty_set)
    moreover have "q_total q = 0" using sum q(1) by simp
    ultimately show ?thesis using q by (simp add: queue_inv_def)
  next
    case (Some x)
    obtain org v where x: "x = (org, v)" by (cases x)
    then obtain vs where q: "org \<in> set (q_order ?q)" "q_items q org = v # vs" "q_items ?q = (q_items q)(org := vs)"
        "q_total ?q = q_total q - 1"
      using d Some by (auto simp: dequeued_def)
    have "q_total ?q = (\<Sum>x\<in>set (q_order ?q). int (length (q_items ?q x)))"
      unfolding q(3) using sum_update [OF _ q(1), of "q_items q" vs] sum q(2,4) by simp
    moreover have "int (length (q_items ?q x)) \<le> int (length (q_items q x))" for x using q by simp
    then have "int (length (q_items ?q x)) \<le> max 0 (q_perTenantLimit ?q)" for x
      using queue_invD(2) [OF assms, of x] dequeued_keeps(1) [OF d] by (metis order_trans)
    moreover have "q_items ?q x \<noteq> [] \<longrightarrow> x \<in> set (q_order ?q)" for x
    proof (cases "x = org")
      case False
      then have "q_items ?q x = q_items q x" using q(3) by simp
      then show ?thesis using queue_invD(1) [OF assms] dequeued_keeps(4) [OF d] by metis
    qed (use q(1) in simp)
    moreover have "q_total ?q \<le> max 0 (q_totalLimit ?q)"
      using queue_invD(3) [OF assms] dequeued_keeps(2) [OF d] q(4) by simp
    ultimately show ?thesis unfolding queue_inv_def by blast
  qed
qed

section \<open>Draining\<close>

fun q_drain :: "nat \<Rightarrow> 'v tenant_queue \<Rightarrow> (string \<times> 'v) list \<times> 'v tenant_queue" where
  "q_drain 0 q = ([], q)"
| "q_drain (Suc n) q =
     (case q_Dequeue q of
        (None, q') \<Rightarrow> ([], q')
      | (Some x, q') \<Rightarrow> (case q_drain n q' of (xs, q'') \<Rightarrow> (x # xs, q'')))"

definition of_org :: "string \<Rightarrow> (string \<times> 'v) list \<Rightarrow> 'v list" where
  "of_org org xs = map snd (filter (\<lambda>x. fst x = org) xs)"

lemma q_total_nonneg: "queue_inv q \<Longrightarrow> 0 \<le> q_total q"
  by (simp add: queue_inv_def sum_nonneg)

lemma q_Dequeue_none:
  assumes "queue_inv q" and "q_Dequeue q = (None, q')"
  shows "q_items q x = []" and "q_total q = 0" and "q_order q' = []" and "q_items q' = q_items q"
proof -
  have d: "dequeued q None q'" using q_Dequeue_spec [of q] assms(2) by simp
  then show q: "q_order q' = []" and i: "q_items q' = q_items q" by (simp_all add: dequeued_def)
  then show e: "q_items q x = []" for x using queue_invD(1) [OF assms(1)] dequeued_keeps(4) [OF d] by (metis empty_iff empty_set)
  show "q_total q = 0" using assms(1) e by (simp add: queue_inv_def)
qed

lemma q_drain_all:
  assumes "queue_inv q" and "nat (q_total q) < n"
  shows "\<exists>xs q'. q_drain n q = (xs, q') \<and> q_order q' = [] \<and> q_items q' = (\<lambda>_. []) \<and> (\<forall>org. of_org org xs = q_items q org)"
  using assms
proof (induction n arbitrary: q)
  case (Suc n)
  let ?q = "snd (q_Dequeue q)"
  show ?case
  proof (cases "fst (q_Dequeue q)")
    case None
    then have "q_Dequeue q = (None, ?q)" by (metis prod.collapse)
    note none = q_Dequeue_none [OF Suc.prems(1) this]
    moreover have "q_items ?q = (\<lambda>_. [])" unfolding none(4) by (rule ext) (rule none(1))
    ultimately show ?thesis using None by (cases "q_Dequeue q") (simp add: of_org_def)
  next
    case (Some x)
    then obtain o1 v vs where x: "x = (o1, v)" "q_items q o1 = v # vs" "q_items ?q = (q_items q)(o1 := vs)"
        "q_total ?q = q_total q - 1"
      using q_Dequeue_spec [of q] by (cases x) (auto simp: dequeued_def)
    have "nat (q_total ?q) < n"
      using Suc.prems(2) x(4) q_total_nonneg [OF queue_inv_dequeue [OF Suc.prems(1)]] by simp
    from Suc.IH [OF queue_inv_dequeue [OF Suc.prems(1)] this] obtain ys q' where
      ys: "q_drain n ?q = (ys, q')" "q_order q' = []" "q_items q' = (\<lambda>_. [])" "\<forall>org. of_org org ys = q_items ?q org"
      by blast
    have "q_drain (Suc n) q = (x # ys, q')" using Some ys(1) by (cases "q_Dequeue q") simp
    moreover have "of_org org (x # ys) = q_items q org" for org
      using ys(4) [rule_format, of org] x(1,2) unfolding x(3) by (simp add: of_org_def split: if_splits)
    ultimately show ?thesis using ys(2,3) by blast
  qed
qed simp

section \<open>Starvation\<close>

text \<open>A round of an organization that enqueues one item and has one item served.\<close>

definition q_round :: "string \<Rightarrow> 'v \<Rightarrow> 'v tenant_queue \<Rightarrow> 'v tenant_queue" where
  "q_round org v q = snd (q_Dequeue (snd (q_Enqueue q org v)))"

lemma q_round_chases:
  assumes "q_items q a = []" and "a \<noteq> []" and "q_next q = length (q_order q)"
    and "0 < q_perTenantLimit q" and "q_total q < q_totalLimit q" and "0 < q_totalLimit q"
  shows "q_round a v q = q\<lparr>q_order := q_order q @ [a], q_next := Suc (length (q_order q)), q_items := (q_items q)(a := [])\<rparr>"
proof -
  let ?q = "q\<lparr>q_order := q_order q @ [a], q_items := (q_items q)(a := [v]), q_total := q_total q + 1\<rparr>"
  have "snd (q_Enqueue q a v) = ?q" using assms by (simp add: q_Enqueue_def)
  moreover have "q_Dequeue ?q = (Some (a, v), ?q\<lparr>q_items := (q_items ?q)(a := []), q_total := q_total ?q - 1, q_next := Suc (length (q_order q))\<rparr>)"
    using assms(3) by (subst q_Dequeue.simps) (simp add: Let_def nth_append)
  ultimately show ?thesis using assms(1) by (simp add: q_round_def fun_upd_idem)
qed

lemma q_rounds_chase:
  assumes "q_items q a = []" and "a \<noteq> []" and "q_next q = length (q_order q)"
    and "0 < q_perTenantLimit q" and "q_total q < q_totalLimit q" and "0 < q_totalLimit q"
  shows "((q_round a v) ^^ n) q = q\<lparr>q_order := q_order q @ replicate n a, q_next := length (q_order q) + n\<rparr>"
proof (induction n)
  case (Suc n)
  let ?q = "q\<lparr>q_order := q_order q @ replicate n a, q_next := length (q_order q) + n\<rparr>"
  have "q_round a v ?q = ?q\<lparr>q_order := q_order ?q @ [a], q_next := Suc (length (q_order ?q)), q_items := (q_items ?q)(a := [])\<rparr>"
    using assms by (intro q_round_chases) simp_all
  then show ?case using Suc assms(1) by (simp add: fun_upd_idem replicate_append_same)
qed (use assms(3) in simp)

section \<open>The limiter\<close>

record limiter =
  li_perTenantMax :: int
  li_totalMax :: int
  li_activeByOrg :: "string \<Rightarrow> int"
  li_totalActive :: int
  li_grants :: "(string \<times> bool) list"

definition NewLimiter :: "int \<Rightarrow> int \<Rightarrow> limiter" where
  "NewLimiter perTenantMax totalMax =
     \<lparr>li_perTenantMax = perTenantMax, li_totalMax = totalMax, li_activeByOrg = (\<lambda>_. 0), li_totalActive = 0,
      li_grants = []\<rparr>"

definition TryAcquire :: "limiter \<Rightarrow> string \<Rightarrow> nat option \<times> limiter" where
  "TryAcquire l org =
     (if org = [] then (None, l)
      else if li_perTenantMax l \<le> 0 \<or> li_totalMax l \<le> 0 \<or> li_activeByOrg l org \<ge> li_perTenantMax l \<or>
         li_totalActive l \<ge> li_totalMax l
      then (None, l)
      else (Some (length (li_grants l)),
            l\<lparr>li_activeByOrg := (li_activeByOrg l)(org := li_activeByOrg l org + 1),
              li_totalActive := li_totalActive l + 1, li_grants := li_grants l @ [(org, False)]\<rparr>))"

text \<open>The release function of a grant; its \<open>sync.Once\<close> is the flag of the grant.\<close>

definition Release :: "limiter \<Rightarrow> nat \<Rightarrow> limiter" where
  "Release l g =
     (if g < length (li_grants l) \<and> \<not> snd (li_grants l ! g) then
        (let org = fst (li_grants l ! g) in
         l\<lparr>li_activeByOrg := (if li_activeByOrg l org > 0
                              then (li_activeByOrg l)(org := li_activeByOrg l org - 1) else li_activeByOrg l),
           li_totalActive := (if li_totalActive l > 0 then li_totalActive l - 1 else li_totalActive l),
           li_grants := (li_grants l)[g := (org, True)]\<rparr>)
      else l)"

definition Active :: "limiter \<Rightarrow> string \<Rightarrow> int" where
  "Active l org = li_activeByOrg l org"

datatype limiter_op = Acquire string | Releases nat

fun limiter_step :: "limiter \<Rightarrow> limiter_op \<Rightarrow> limiter" where
  "limiter_step l (Acquire org) = snd (TryAcquire l org)"
| "limiter_step l (Releases g) = Release l g"

definition running_grants :: "limiter \<Rightarrow> (string \<times> bool) list" where
  "running_grants l = filter (\<lambda>x. \<not> snd x) (li_grants l)"

definition limiter_inv :: "limiter \<Rightarrow> bool" where
  "limiter_inv l \<longleftrightarrow>
     (\<forall>org. li_activeByOrg l org = int (count_list (map fst (running_grants l)) org)) \<and>
     li_totalActive l = int (length (running_grants l)) \<and>
     (\<forall>org. li_activeByOrg l org \<le> max 0 (li_perTenantMax l)) \<and> li_totalActive l \<le> max 0 (li_totalMax l)"

lemma limiter_inv_acquire: "limiter_inv l \<Longrightarrow> limiter_inv (snd (TryAcquire l org))"
  by (auto simp: limiter_inv_def TryAcquire_def running_grants_def)

lemma running_grants_release:
  assumes "g < length xs" and "\<not> snd (xs ! g)"
  shows "mset (filter (\<lambda>x. \<not> snd x) xs) = add_mset (fst (xs ! g), False) (mset (filter (\<lambda>x. \<not> snd x) (xs[g := (fst (xs ! g), True)])))"
proof -
  have "xs = take g xs @ xs ! g # drop (Suc g) xs" using assms(1) by (rule id_take_nth_drop)
  then have "filter (\<lambda>x. \<not> snd x) xs = filter (\<lambda>x. \<not> snd x) (take g xs) @ xs ! g # filter (\<lambda>x. \<not> snd x) (drop (Suc g) xs)"
    using assms(2) by (metis filter.simps(2) filter_append)
  moreover have "xs ! g = (fst (xs ! g), False)" using assms(2) by (simp add: prod_eq_iff)
  ultimately show ?thesis using assms(1) by (simp add: upd_conv_take_nth_drop)
qed

lemma limiter_inv_release:
  assumes "limiter_inv l"
  shows "limiter_inv (Release l g)"
proof (cases "g < length (li_grants l) \<and> \<not> snd (li_grants l ! g)")
  case True
  let ?l = "Release l g" and ?org = "fst (li_grants l ! g)"
  have m: "mset (running_grants l) = add_mset (?org, False) (mset (running_grants ?l))"
    using True running_grants_release [of g "li_grants l"] by (simp add: running_grants_def Release_def Let_def)
  then have len: "length (running_grants l) = Suc (length (running_grants ?l))"
    by (metis size_add_mset size_mset)
  have "image_mset fst (mset (running_grants l)) = add_mset ?org (image_mset fst (mset (running_grants ?l)))"
    by (simp add: m)
  then have cnt: "count_list (map fst (running_grants l)) x =
      (if x = ?org then Suc (count_list (map fst (running_grants ?l)) x) else count_list (map fst (running_grants ?l)) x)" for x
    by (metis count_mset count_add_mset mset_map)
  have act: "li_activeByOrg l x = int (count_list (map fst (running_grants l)) x)" for x
    using assms by (simp add: limiter_inv_def)
  have tot: "li_totalActive l = int (length (running_grants l))" using assms by (simp add: limiter_inv_def)
  have "0 < li_activeByOrg l ?org" "0 < li_totalActive l" using act [of ?org] cnt [of ?org] tot len by simp_all
  then have new: "li_activeByOrg ?l = (li_activeByOrg l)(?org := li_activeByOrg l ?org - 1)"
      "li_totalActive ?l = li_totalActive l - 1" "li_perTenantMax ?l = li_perTenantMax l" "li_totalMax ?l = li_totalMax l"
    using True by (simp_all add: Release_def Let_def)
  have "li_activeByOrg ?l x = int (count_list (map fst (running_grants ?l)) x)" for x
    using act [of x] cnt [of x] by (cases "x = ?org") (simp_all add: new)
  moreover have "li_activeByOrg ?l x \<le> li_activeByOrg l x" for x by (simp add: new)
  then have "li_activeByOrg ?l x \<le> max 0 (li_perTenantMax ?l)" for x
    using assms unfolding limiter_inv_def new(3) by (metis order_trans)
  ultimately show ?thesis
    using assms tot len unfolding limiter_inv_def by (simp add: new)
next
  case False
  then have "Release l g = l" unfolding Release_def by (rule if_not_P)
  then show ?thesis using assms by simp
qed

interpretation limiter: component limiter_step limiter_inv "\<lambda>_. True" "\<lambda>l. \<exists>a b. l = NewLimiter a b"
proof unfold_locales
  show "limiter_inv s" if "\<exists>a b. s = NewLimiter a b" for s
    using that by (auto simp: limiter_inv_def NewLimiter_def running_grants_def)
  show "limiter_inv (limiter_step s e)" if "limiter_inv s" for s e
    using that by (cases e) (simp_all add: limiter_inv_acquire limiter_inv_release)
qed

section \<open>Histories of the queue\<close>

text \<open>A queue with the items that were accepted and those that were served, in order.\<close>

record 'v queue_run =
  qr_queue :: "'v tenant_queue"
  qr_accepted :: "(string \<times> 'v) list"
  qr_served :: "(string \<times> 'v) list"

datatype 'v queue_op = Put string 'v | Next

fun queue_step :: "'v queue_run \<Rightarrow> 'v queue_op \<Rightarrow> 'v queue_run" where
  "queue_step r (Put org v) =
     (case q_Enqueue (qr_queue r) org v of
        (ok, q) \<Rightarrow> r\<lparr>qr_queue := q, qr_accepted := (if ok then qr_accepted r @ [(org, v)] else qr_accepted r)\<rparr>)"
| "queue_step r Next =
     (case q_Dequeue (qr_queue r) of
        (None, q) \<Rightarrow> r\<lparr>qr_queue := q\<rparr>
      | (Some x, q) \<Rightarrow> r\<lparr>qr_queue := q, qr_served := qr_served r @ [x]\<rparr>)"

definition queue_start :: "int \<Rightarrow> int \<Rightarrow> 'v queue_run" where
  "queue_start a b = \<lparr>qr_queue = NewQueue a b, qr_accepted = [], qr_served = []\<rparr>"

definition queue_run_inv :: "'v queue_run \<Rightarrow> bool" where
  "queue_run_inv r \<longleftrightarrow>
     queue_inv (qr_queue r) \<and>
     (\<forall>org. of_org org (qr_accepted r) = of_org org (qr_served r) @ q_items (qr_queue r) org)"

lemma of_org_append: "of_org org (xs @ ys) = of_org org xs @ of_org org ys"
  by (simp add: of_org_def)

lemma of_org_single: "of_org org [(o1, v)] = (if o1 = org then [v] else [])"
  by (simp add: of_org_def)

lemma queue_run_inv_step: "queue_run_inv r \<Longrightarrow> queue_run_inv (queue_step r e)"
proof (cases e)
  case (Put org v)
  assume inv: "queue_run_inv r"
  have "q_items (snd (q_Enqueue (qr_queue r) org v)) =
      (if fst (q_Enqueue (qr_queue r) org v) then (q_items (qr_queue r))(org := q_items (qr_queue r) org @ [v])
       else q_items (qr_queue r))"
    by (simp add: q_Enqueue_def)
  then show ?thesis
    using Put inv queue_inv_enqueue [of "qr_queue r" org v]
    by (cases "q_Enqueue (qr_queue r) org v") (auto simp: queue_run_inv_def of_org_append of_org_single)
next
  case Next
  assume inv: "queue_run_inv r"
  let ?q = "snd (q_Dequeue (qr_queue r))"
  have q: "queue_inv ?q" using inv queue_inv_dequeue by (auto simp: queue_run_inv_def)
  show ?thesis
  proof (cases "fst (q_Dequeue (qr_queue r))")
    case None
    then have "q_items ?q = q_items (qr_queue r)" using q_Dequeue_spec [of "qr_queue r"] by (simp add: dequeued_def)
    then show ?thesis using Next None inv q by (cases "q_Dequeue (qr_queue r)") (simp add: queue_run_inv_def)
  next
    case (Some x)
    then obtain o1 v vs where x: "x = (o1, v)" "q_items (qr_queue r) o1 = v # vs"
        "q_items ?q = (q_items (qr_queue r))(o1 := vs)"
      using q_Dequeue_spec [of "qr_queue r"] by (cases x) (auto simp: dequeued_def)
    have "queue_step r e = r\<lparr>qr_queue := ?q, qr_served := qr_served r @ [(o1, v)]\<rparr>"
      using Next Some x(1) by (cases "q_Dequeue (qr_queue r)") simp
    then show ?thesis
      using inv q x by (simp add: queue_run_inv_def of_org_append of_org_single)
  qed
qed

interpretation queue: component queue_step queue_run_inv "\<lambda>_. True" "\<lambda>r. \<exists>a b. r = queue_start a b"
proof unfold_locales
  show "queue_run_inv s" if "\<exists>a b. s = queue_start a b" for s :: "'v queue_run"
    using that queue_inv_new [of _ _] by (auto simp: queue_run_inv_def queue_start_def of_org_def NewQueue_def)
  show "queue_run_inv (queue_step s e)" if "queue_run_inv s" for s :: "'v queue_run" and e
    using that by (rule queue_run_inv_step)
qed

section \<open>Properties\<close>

text \<open>C23: the queue is first in, first out for each organization and loses nothing. In every
  history, the items of an organization that were accepted are those that were served, in the same
  order, followed by those that wait; no organization has more than its limit waiting; and draining
  the queue serves everything that waits and then forgets all organizations.\<close>

theorem queue_serves_in_order:
  fixes es :: "'v queue_op list"
  assumes "r = foldl queue_step (queue_start a b) es"
  shows "of_org org (qr_accepted r) = of_org org (qr_served r) @ q_items (qr_queue r) org \<and>
    int (length (q_items (qr_queue r) org)) \<le> max 0 (q_perTenantLimit (qr_queue r)) \<and>
    q_total (qr_queue r) \<le> max 0 (q_totalLimit (qr_queue r)) \<and>
    (\<exists>xs q'. q_drain (Suc (nat (q_total (qr_queue r)))) (qr_queue r) = (xs, q') \<and> q_order q' = [] \<and>
       of_org org xs = q_items (qr_queue r) org)"
proof -
  have inv: "queue_run_inv r" unfolding assms by (rule queue.invar_history) auto
  then have q: "queue_inv (qr_queue r)" by (simp add: queue_run_inv_def)
  show ?thesis
    using inv queue_invD(2,3) [OF q] q_drain_all [OF q, of "Suc (nat (q_total (qr_queue r)))"]
    by (auto simp: queue_run_inv_def)
qed

theorem queue_serves_in_order_witness:
  "of_org ''a'' (qr_accepted (foldl queue_step (queue_start 2 3) [Put ''a'' (1::nat), Put ''b'' 2, Put ''a'' 3, Next])) = [1, 3] \<and>
   of_org ''a'' (qr_served (foldl queue_step (queue_start 2 3) [Put ''a'' (1::nat), Put ''b'' 2, Put ''a'' 3, Next])) @
     q_items (qr_queue (foldl queue_step (queue_start 2 3) [Put ''a'' (1::nat), Put ''b'' 2, Put ''a'' 3, Next])) ''a'' = [1, 3]"
proof -
  have "of_org ''a'' (qr_accepted (foldl queue_step (queue_start 2 3) [Put ''a'' (1::nat), Put ''b'' 2, Put ''a'' 3, Next])) = [1, 3]"
    by code_simp
  then show ?thesis
    using queue_serves_in_order [OF refl, of "''a''" 2 3 "[Put ''a'' (1::nat), Put ''b'' 2, Put ''a'' 3, Next]"] by metis
qed

text \<open>The turns are not fair. From a state in which the queue of \<open>a\<close> is empty and the next turn is
  past the end of the order (as after any dequeue that served the last place), an organization \<open>a\<close>
  that enqueues one item before each dequeue is served every time: however often, whatever waits
  for another organization still waits, and the order has grown by one entry per round.\<close>

theorem busy_tenant_starves_others:
  assumes "q_items q a = []" and "a \<noteq> []" and "q_next q = length (q_order q)"
    and "0 < q_perTenantLimit q" and "q_total q < q_totalLimit q" and "0 < q_totalLimit q"
  shows "q_items (((q_round a v) ^^ n) q) = q_items q \<and> length (q_order (((q_round a v) ^^ n) q)) = length (q_order q) + n"
  using q_rounds_chase [OF assms] by simp

text \<open>A queue after two items of \<open>b\<close>, one of which was served.\<close>

definition sample_queue :: "nat tenant_queue" where
  "sample_queue = qr_queue (foldl queue_step (queue_start 8 8) [Put ''b'' 1, Put ''b'' 2, Next])"

theorem busy_tenant_starves_others_witness:
  "q_items (((q_round ''a'' 7) ^^ 1000) sample_queue) ''b'' = [2]"
proof -
  have "q_items sample_queue ''a'' = []" "q_items sample_queue ''b'' = [2]" "q_next sample_queue = length (q_order sample_queue)"
    "0 < q_perTenantLimit sample_queue" "q_total sample_queue < q_totalLimit sample_queue" "0 < q_totalLimit sample_queue"
    by code_simp+
  with busy_tenant_starves_others [of sample_queue "''a''" 1000 7] show ?thesis by simp
qed

text \<open>The limiter. In every history of acquisitions and releases, in which a release function
  may be called any number of times, the number of an organization's grants that were not released
  is the counter of the organization and within its limit, and all grants together are within the
  total limit.\<close>

theorem limiter_bounded:
  "int (count_list (map fst (running_grants (foldl limiter_step (NewLimiter a b) es))) org)
     = Active (foldl limiter_step (NewLimiter a b) es) org \<and>
   Active (foldl limiter_step (NewLimiter a b) es) org \<le> max 0 (li_perTenantMax (foldl limiter_step (NewLimiter a b) es)) \<and>
   int (length (running_grants (foldl limiter_step (NewLimiter a b) es)))
     \<le> max 0 (li_totalMax (foldl limiter_step (NewLimiter a b) es))"
proof -
  have "limiter_inv (foldl limiter_step (NewLimiter a b) es)" by (rule limiter.invar_history) auto
  then show ?thesis unfolding limiter_inv_def Active_def by metis
qed

end
