(* ===== verification/Outbox.thy ===== *)
theory Outbox
  imports Tenant_Queue "HOL-Library.Product_Lexorder" "HOL-Library.Sublist"
begin

text \<open>
  The durable outbox, the table operations of \<open>backend/manager/store/outbox.go\<close>. \<open>now()\<close>, the
  rows that other transactions hold locked, the order in which the database returns claimed rows,
  which statements fail and the check that a payload is JSON are parameters.

  Shown here: identities and idempotency keys stay unique and attempts within their budget in
  every history, and a delivered row stays as it is.
\<close>

section \<open>The table\<close>

definition OutboxStatusPending :: string where "OutboxStatusPending = ''PENDING''"
definition OutboxStatusClaimed :: string where "OutboxStatusClaimed = ''CLAIMED''"
definition OutboxStatusDelivered :: string where "OutboxStatusDelivered = ''DELIVERED''"
definition OutboxStatusDeadLetter :: string where "OutboxStatusDeadLetter = ''DEAD_LETTER''"

lemmas outbox_status = OutboxStatusPending_def OutboxStatusClaimed_def OutboxStatusDelivered_def OutboxStatusDeadLetter_def

record durable_event_envelope =
  en_EventID :: string
  en_Organization :: string
  en_AggregateType :: string
  en_AggregateID :: string
  en_EventType :: string
  en_CorrelationID :: string
  en_IdempotencyKey :: string
  en_Payload :: string
  en_MaxAttempts :: int
  en_AvailableAt :: instant

record outbox_event = durable_event_envelope +
  oe_Status :: string
  oe_Attempts :: int
  oe_LastError :: string
  oe_WorkerID :: string
  oe_ClaimedAt :: "instant option"
  oe_ClaimExpiresAt :: "instant option"
  oe_DeliveredAt :: "instant option"
  oe_CreatedAt :: instant
  oe_UpdatedAt :: instant

datatype outbox_error =
    ErrInvalidOutboxEvent
  | ErrOutboxDuplicate
  | ErrOutboxNotClaimed
  | ErrOutboxNotDeadLetter
  | ErrOutboxDatabase

datatype outbox_query =
    QEnqueue string
  | QClaim string
  | QAck string
  | QRetry string
  | QReplay string
  | QRecordReplay string

record outbox_db =
  ob_orgs :: "string \<Rightarrow> bool"
  ob_events :: "outbox_event list"
  ob_reconciliation :: "(string \<times> string \<times> string) list"
  ob_fault :: "outbox_query \<Rightarrow> bool"
  ob_collate :: "string \<Rightarrow> nat"

definition ValidateEnvelope :: "(string \<Rightarrow> bool) \<Rightarrow> durable_event_envelope \<Rightarrow> outbox_error + unit" where
  "ValidateEnvelope jsonValid e =
     (if en_EventID e = [] \<or> en_Organization e = [] \<or> en_AggregateType e = [] \<or> en_AggregateID e = [] \<or>
         en_EventType e = [] \<or> en_CorrelationID e = []
      then Inl ErrInvalidOutboxEvent
      else if en_Payload e = [] \<or> \<not> jsonValid (en_Payload e) then Inl ErrInvalidOutboxEvent
      else if en_MaxAttempts e \<le> 0 then Inl ErrInvalidOutboxEvent
      else Inr ())"

definition new_row :: "instant \<Rightarrow> durable_event_envelope \<Rightarrow> outbox_event" where
  "new_row now e =
     \<lparr>en_EventID = en_EventID e, en_Organization = en_Organization e, en_AggregateType = en_AggregateType e,
      en_AggregateID = en_AggregateID e, en_EventType = en_EventType e, en_CorrelationID = en_CorrelationID e,
      en_IdempotencyKey = en_IdempotencyKey e, en_Payload = en_Payload e, en_MaxAttempts = en_MaxAttempts e,
      en_AvailableAt = (if time_is_zero (en_AvailableAt e) then now else en_AvailableAt e),
      oe_Status = OutboxStatusPending, oe_Attempts = 0, oe_LastError = [], oe_WorkerID = [], oe_ClaimedAt = None,
      oe_ClaimExpiresAt = None, oe_DeliveredAt = None, oe_CreatedAt = now, oe_UpdatedAt = now\<rparr>"

definition EnqueueOutboxEvent ::
  "(string \<Rightarrow> bool) \<Rightarrow> outbox_db \<Rightarrow> instant \<Rightarrow> durable_event_envelope \<Rightarrow> (outbox_error + unit) \<times> outbox_db" where
  "EnqueueOutboxEvent jsonValid db now e =
     (case ValidateEnvelope jsonValid e of
        Inl err \<Rightarrow> (Inl err, db)
      | Inr _ \<Rightarrow>
          if ob_fault db (QEnqueue (en_EventID e)) \<or> \<not> is_i32 (en_MaxAttempts e) then (Inl ErrOutboxDatabase, db)
          else if en_IdempotencyKey e \<noteq> [] \<and>
             (\<exists>x\<in>set (ob_events db). en_Organization x = en_Organization e \<and> en_IdempotencyKey x = en_IdempotencyKey e)
          then (Inl ErrOutboxDuplicate, db)
          else if (\<exists>x\<in>set (ob_events db). en_EventID x = en_EventID e) \<or> \<not> ob_orgs db (en_Organization e)
          then (Inl ErrOutboxDatabase, db)
          else (Inr (), db\<lparr>ob_events := ob_events db @ [new_row now e]\<rparr>))"

definition claimable :: "instant \<Rightarrow> outbox_event \<Rightarrow> bool" where
  "claimable now x \<longleftrightarrow>
     en_AvailableAt x \<le> now \<and>
     (oe_Status x = OutboxStatusPending \<or>
      (oe_Status x = OutboxStatusClaimed \<and> (case oe_ClaimExpiresAt x of None \<Rightarrow> False | Some t \<Rightarrow> t < now)))"

definition claim_row :: "instant \<Rightarrow> string \<Rightarrow> outbox_event \<Rightarrow> outbox_event" where
  "claim_row now worker x =
     x\<lparr>oe_Status := OutboxStatusClaimed, oe_WorkerID := worker, oe_ClaimedAt := Some now,
       oe_ClaimExpiresAt := Some (now + 60 * second), oe_UpdatedAt := now\<rparr>"

definition claimed_ids :: "outbox_db \<Rightarrow> instant \<Rightarrow> (string \<Rightarrow> bool) \<Rightarrow> int \<Rightarrow> string list" where
  "claimed_ids db now locked limit =
     take (nat limit) (map en_EventID (sort_key (\<lambda>x. (oe_CreatedAt x, ob_collate db (en_EventID x)))
       (filter (\<lambda>x. claimable now x \<and> \<not> locked (en_EventID x)) (ob_events db))))"

text \<open>\<open>RETURNING\<close> gives the rows in an order of the database's own, here that of a rank.\<close>

definition ClaimOutboxEvents ::
  "(outbox_event \<Rightarrow> nat) \<Rightarrow> outbox_db \<Rightarrow> instant \<Rightarrow> (string \<Rightarrow> bool) \<Rightarrow> string \<Rightarrow> int
     \<Rightarrow> (outbox_error + outbox_event list) \<times> outbox_db" where
  "ClaimOutboxEvents rank db now locked worker limit =
     (if worker = [] \<or> limit \<le> 0 then (Inl ErrInvalidOutboxEvent, db)
      else if ob_fault db (QClaim worker) then (Inl ErrOutboxDatabase, db)
      else
        let ids = claimed_ids db now locked limit in
        (Inr (sort_key rank (map (claim_row now worker) (filter (\<lambda>x. en_EventID x \<in> set ids) (ob_events db)))),
         db\<lparr>ob_events := map (\<lambda>x. if en_EventID x \<in> set ids then claim_row now worker x else x) (ob_events db)\<rparr>))"

definition held :: "string \<Rightarrow> string \<Rightarrow> outbox_event \<Rightarrow> bool" where
  "held worker eventID x \<longleftrightarrow> en_EventID x = eventID \<and> oe_WorkerID x = worker \<and> oe_Status x = OutboxStatusClaimed"

definition ack_row :: "instant \<Rightarrow> outbox_event \<Rightarrow> outbox_event" where
  "ack_row now x =
     x\<lparr>oe_Status := OutboxStatusDelivered, oe_DeliveredAt := Some now, oe_UpdatedAt := now, oe_WorkerID := [],
       oe_ClaimExpiresAt := None\<rparr>"

definition AckOutboxEvent ::
  "outbox_db \<Rightarrow> instant \<Rightarrow> string \<Rightarrow> string \<Rightarrow> (outbox_error + unit) \<times> outbox_db" where
  "AckOutboxEvent db now worker eventID =
     (if ob_fault db (QAck eventID) then (Inl ErrOutboxDatabase, db)
      else if \<exists>x\<in>set (ob_events db). held worker eventID x
      then (Inr (), db\<lparr>ob_events := map (\<lambda>x. if held worker eventID x then ack_row now x else x) (ob_events db)\<rparr>)
      else (Inl ErrOutboxNotClaimed, db))"

definition retry_row :: "instant \<Rightarrow> string \<Rightarrow> instant \<Rightarrow> outbox_event \<Rightarrow> outbox_event" where
  "retry_row now lastError availableAt x =
     x\<lparr>oe_Attempts := oe_Attempts x + 1,
       oe_Status := (if oe_Attempts x + 1 \<ge> en_MaxAttempts x then OutboxStatusDeadLetter else OutboxStatusPending),
       oe_LastError := lastError, en_AvailableAt := availableAt, oe_WorkerID := [], oe_ClaimExpiresAt := None,
       oe_UpdatedAt := now\<rparr>"

definition RetryOutboxEvent ::
  "outbox_db \<Rightarrow> instant \<Rightarrow> string \<Rightarrow> string \<Rightarrow> string \<Rightarrow> instant \<Rightarrow> (outbox_error + unit) \<times> outbox_db" where
  "RetryOutboxEvent db now worker eventID lastError availableAt0 =
     (let availableAt = (if time_is_zero availableAt0 then now else availableAt0) in
      if ob_fault db (QRetry eventID) then (Inl ErrOutboxDatabase, db)
      else if \<exists>x\<in>set (ob_events db). held worker eventID x
      then (Inr (), db\<lparr>ob_events :=
              map (\<lambda>x. if held worker eventID x then retry_row now lastError availableAt x else x) (ob_events db)\<rparr>)
      else (Inl ErrOutboxNotClaimed, db))"

definition replay_row :: "instant \<Rightarrow> outbox_event \<Rightarrow> outbox_event" where
  "replay_row now x =
     x\<lparr>oe_Status := OutboxStatusPending, oe_Attempts := 0, oe_LastError := [], en_AvailableAt := now,
       oe_WorkerID := [], oe_ClaimedAt := None, oe_UpdatedAt := now\<rparr>"

definition ReplayDeadLetterOutboxEvent ::
  "outbox_db \<Rightarrow> instant \<Rightarrow> string \<Rightarrow> string \<Rightarrow> string \<Rightarrow> (outbox_error + unit) \<times> outbox_db" where
  "ReplayDeadLetterOutboxEvent db now org eventID actor =
     (let P = (\<lambda>x. en_Organization x = org \<and> en_EventID x = eventID \<and> oe_Status x = OutboxStatusDeadLetter) in
      if org = [] \<or> eventID = [] \<or> actor = [] then (Inl ErrInvalidOutboxEvent, db)
      else if ob_fault db (QReplay eventID) then (Inl ErrOutboxDatabase, db)
      else if \<not> (\<exists>x\<in>set (ob_events db). P x) then (Inl ErrOutboxNotDeadLetter, db)
      else if ob_fault db (QRecordReplay eventID) then (Inl ErrOutboxDatabase, db)
      else (Inr (), db\<lparr>ob_events := map (\<lambda>x. if P x then replay_row now x else x) (ob_events db),
                       ob_reconciliation := ob_reconciliation db @ [(org, eventID, actor)]\<rparr>))"

section \<open>Invariant\<close>

definition outbox_row_ok :: "outbox_event \<Rightarrow> bool" where
  "outbox_row_ok x \<longleftrightarrow>
     en_EventID x \<noteq> [] \<and> 0 < en_MaxAttempts x \<and> 0 \<le> oe_Attempts x \<and> oe_Attempts x \<le> en_MaxAttempts x \<and>
     (oe_Status x = OutboxStatusPending \<and> oe_WorkerID x = [] \<and> oe_Attempts x < en_MaxAttempts x \<or>
      oe_Status x = OutboxStatusClaimed \<and> oe_WorkerID x \<noteq> [] \<and> oe_ClaimExpiresAt x \<noteq> None \<and> oe_Attempts x < en_MaxAttempts x \<or>
      oe_Status x = OutboxStatusDelivered \<and> oe_WorkerID x = [] \<and> oe_DeliveredAt x \<noteq> None \<or>
      oe_Status x = OutboxStatusDeadLetter \<and> oe_WorkerID x = [] \<and> oe_Attempts x = en_MaxAttempts x)"

definition keyed :: "outbox_event list \<Rightarrow> (string \<times> string) list" where
  "keyed xs = map (\<lambda>x. (en_Organization x, en_IdempotencyKey x)) (filter (\<lambda>x. en_IdempotencyKey x \<noteq> []) xs)"

definition outbox_inv :: "outbox_db \<Rightarrow> bool" where
  "outbox_inv db \<longleftrightarrow>
     distinct (map en_EventID (ob_events db)) \<and> distinct (keyed (ob_events db)) \<and> (\<forall>x\<in>set (ob_events db). outbox_row_ok x)"

text \<open>A write in place that keeps identities.\<close>

lemma map_rows:
  assumes "\<And>x. en_EventID (f x) = en_EventID x" "\<And>x. en_Organization (f x) = en_Organization x"
    and "\<And>x. en_IdempotencyKey (f x) = en_IdempotencyKey x"
  shows "map en_EventID (map (\<lambda>x. if P x then f x else x) xs) = map en_EventID xs"
    and "keyed (map (\<lambda>x. if P x then f x else x) xs) = keyed xs"
  using assms by (induction xs) (auto simp: keyed_def)

lemma outbox_inv_map:
  assumes "outbox_inv db"
    and "\<And>x. en_EventID (f x) = en_EventID x" "\<And>x. en_Organization (f x) = en_Organization x"
    and "\<And>x. en_IdempotencyKey (f x) = en_IdempotencyKey x"
    and "\<And>x. x \<in> set (ob_events db) \<Longrightarrow> P x \<Longrightarrow> outbox_row_ok x \<Longrightarrow> outbox_row_ok (f x)"
  shows "outbox_inv (db\<lparr>ob_events := map (\<lambda>x. if P x then f x else x) (ob_events db)\<rparr>)"
  using assms(1,5) map_rows [of f, OF assms(2-4)] by (auto simp: outbox_inv_def simp del: map_map)

lemma row_identity [simp]:
  "en_EventID (claim_row n w x) = en_EventID x" "en_Organization (claim_row n w x) = en_Organization x"
  "en_IdempotencyKey (claim_row n w x) = en_IdempotencyKey x"
  "en_EventID (ack_row n x) = en_EventID x" "en_Organization (ack_row n x) = en_Organization x"
  "en_IdempotencyKey (ack_row n x) = en_IdempotencyKey x"
  "en_EventID (retry_row n s t x) = en_EventID x" "en_Organization (retry_row n s t x) = en_Organization x"
  "en_IdempotencyKey (retry_row n s t x) = en_IdempotencyKey x"
  "en_EventID (replay_row n x) = en_EventID x" "en_Organization (replay_row n x) = en_Organization x"
  "en_IdempotencyKey (replay_row n x) = en_IdempotencyKey x"
  by (simp_all add: claim_row_def ack_row_def retry_row_def replay_row_def)


lemmas row_writes = claim_row_def ack_row_def retry_row_def replay_row_def

lemma outbox_row_ok_writes:
  "claimable now x \<Longrightarrow> worker \<noteq> [] \<Longrightarrow> outbox_row_ok x \<Longrightarrow> outbox_row_ok (claim_row now worker x)"
  "held worker i x \<Longrightarrow> outbox_row_ok x \<Longrightarrow> outbox_row_ok (ack_row now x)"
  "held worker i x \<Longrightarrow> outbox_row_ok x \<Longrightarrow> outbox_row_ok (retry_row now e t x)"
  "outbox_row_ok x \<Longrightarrow> outbox_row_ok (replay_row now x)"
  by (auto simp: outbox_row_ok_def row_writes claimable_def held_def outbox_status)

lemma claimed_ids_claimable:
  assumes "distinct (map en_EventID (ob_events db))" and "x \<in> set (ob_events db)"
    and "en_EventID x \<in> set (claimed_ids db now locked limit)"
  shows "claimable now x"
proof -
  obtain y where "y \<in> set (ob_events db)" "claimable now y" "en_EventID y = en_EventID x"
    using assms(3) unfolding claimed_ids_def by (auto dest!: in_set_takeD)
  then show ?thesis using assms(1,2) by (metis distinct_map inj_on_def)
qed

lemma outbox_inv_enqueue [inv_rules]:
  assumes "outbox_inv db"
  shows "outbox_inv (snd (EnqueueOutboxEvent jsonValid db now e))"
  using assms
  by (auto simp: EnqueueOutboxEvent_def outbox_inv_def ValidateEnvelope_def new_row_def keyed_def outbox_row_ok_def
      split: sum.splits if_splits)

lemma outbox_inv_claim [inv_rules]:
  assumes "outbox_inv db"
  shows "outbox_inv (snd (ClaimOutboxEvents rank db now locked worker limit))"
proof (cases "worker = [] \<or> limit \<le> 0 \<or> ob_fault db (QClaim worker)")
  case False
  have "outbox_inv (db\<lparr>ob_events := map (\<lambda>x. if en_EventID x \<in> set (claimed_ids db now locked limit) then claim_row now worker x else x) (ob_events db)\<rparr>)"
    using assms False
    by (intro outbox_inv_map) (auto simp: outbox_inv_def intro: outbox_row_ok_writes(1) claimed_ids_claimable)
  then show ?thesis using False by (simp add: ClaimOutboxEvents_def Let_def)
qed (use assms in \<open>auto simp: ClaimOutboxEvents_def\<close>)

lemma outbox_inv_ack [inv_rules]:
  assumes "outbox_inv db"
  shows "outbox_inv (snd (AckOutboxEvent db now worker eventID))"
  using assms outbox_inv_map [OF assms, of "ack_row now" "held worker eventID"]
  by (auto simp: AckOutboxEvent_def intro: outbox_row_ok_writes(2))

lemma outbox_inv_retry [inv_rules]:
  assumes "outbox_inv db"
  shows "outbox_inv (snd (RetryOutboxEvent db now worker eventID lastError t))"
proof -
  have "outbox_inv (db\<lparr>ob_events := map (\<lambda>x. if held worker eventID x then retry_row now lastError u x else x) (ob_events db)\<rparr>)" for u
    using assms by (intro outbox_inv_map) (auto intro: outbox_row_ok_writes(3))
  then show ?thesis using assms by (simp add: RetryOutboxEvent_def Let_def)
qed

lemma outbox_inv_reconciliation [simp]: "outbox_inv (db\<lparr>ob_reconciliation := r\<rparr>) = outbox_inv db"
  by (simp add: outbox_inv_def)

lemma outbox_inv_replay [inv_rules]:
  assumes "outbox_inv db"
  shows "outbox_inv (snd (ReplayDeadLetterOutboxEvent db now org eventID actor))"
proof -
  let ?P = "\<lambda>x. en_Organization x = org \<and> en_EventID x = eventID \<and> oe_Status x = OutboxStatusDeadLetter"
  have "outbox_inv (db\<lparr>ob_events := map (\<lambda>x. if ?P x then replay_row now x else x) (ob_events db)\<rparr>)"
    using assms by (intro outbox_inv_map) (auto intro: outbox_row_ok_writes(4))
  then show ?thesis using assms by (simp add: ReplayDeadLetterOutboxEvent_def Let_def outbox_inv_def)
qed

section \<open>Histories of the table\<close>

datatype outbox_op =
    OpEnqueue instant durable_event_envelope
  | OpClaim instant "string \<Rightarrow> bool" string int
  | OpAck instant string string
  | OpRetry instant string string string instant
  | OpReplay instant string string string

fun outbox_step :: "(string \<Rightarrow> bool) \<Rightarrow> outbox_db \<Rightarrow> outbox_op \<Rightarrow> outbox_db" where
  "outbox_step jv db (OpEnqueue now e) = snd (EnqueueOutboxEvent jv db now e)"
| "outbox_step jv db (OpClaim now locked worker limit) = snd (ClaimOutboxEvents (\<lambda>_. 0) db now locked worker limit)"
| "outbox_step jv db (OpAck now worker i) = snd (AckOutboxEvent db now worker i)"
| "outbox_step jv db (OpRetry now worker i err t) = snd (RetryOutboxEvent db now worker i err t)"
| "outbox_step jv db (OpReplay now org i actor) = snd (ReplayDeadLetterOutboxEvent db now org i actor)"

interpretation outbox: component "outbox_step jv" outbox_inv "\<lambda>_. True" "\<lambda>db. ob_events db = []" for jv
proof unfold_locales
  show "outbox_inv s" if "ob_events s = []" for s using that by (simp add: outbox_inv_def keyed_def)
  show "outbox_inv (outbox_step jv s e)" if "outbox_inv s" for s e
    using that by (cases e) (simp_all add: inv_rules)
qed

text \<open>A delivered row stays as it is, whatever is done.\<close>

definition delivered_row :: "outbox_event \<Rightarrow> outbox_db \<Rightarrow> bool" where
  "delivered_row x db \<longleftrightarrow> x \<in> set (ob_events db) \<and> oe_Status x = OutboxStatusDelivered"

lemma kept_in_map: "x \<in> set xs \<Longrightarrow> \<not> P x \<Longrightarrow> x \<in> set (map (\<lambda>x. if P x then f x else x) xs)"
  by force

lemma delivered_row_step:
  assumes "outbox_inv db" and "delivered_row x db"
  shows "delivered_row x (outbox_step jv db e)"
proof -
  have x: "x \<in> set (ob_events db)" "oe_Status x = OutboxStatusDelivered" using assms(2) by (simp_all add: delivered_row_def)
  have dist: "distinct (map en_EventID (ob_events db))" using assms(1) by (simp add: outbox_inv_def)
  have n: "\<not> held w i x" "oe_Status x \<noteq> OutboxStatusDeadLetter" "\<not> claimable now x" for w i now
    using x(2) by (simp_all add: held_def claimable_def outbox_status)
  have c: "en_EventID x \<notin> set (claimed_ids db now locked limit)" for now locked limit
    using claimed_ids_claimable [OF dist x(1)] n(3) by blast
  show ?thesis
    using x n c
    by (cases e)
      (auto simp: delivered_row_def EnqueueOutboxEvent_def ClaimOutboxEvents_def AckOutboxEvent_def RetryOutboxEvent_def
        ReplayDeadLetterOutboxEvent_def Let_def intro!: kept_in_map split: sum.split)
qed

lemma delivered_row_run:
  "outbox_inv db \<Longrightarrow> delivered_row x db \<Longrightarrow> delivered_row x (foldl (outbox_step jv) db es)"
proof (induction es arbitrary: db)
  case (Cons e es)
  then show ?case using delivered_row_step outbox.invar_step by simp
qed simp

end
