(* ===== verification/Outbox_Worker.thy ===== *)
theory Outbox_Worker
  imports Outbox
begin

text \<open>
  The worker of \<open>backend/manager/store/outbox_worker.go\<close>. The repository it calls is an interface of
  the code and the locale \<open>outbox_repository\<close> here, which the table interprets; the worker is a
  function of the repository's operations, the handler, the clock and the retry delay. A handler
  may depend on the calls before it, which the log of the run holds. The queue and the limiter may
  be absent, as the code's nil pointers are.

  Shown here: a run that returns without an error has settled every event it claimed, delivered
  exactly those whose handler succeeded, changed no other event, and called the handler at most
  once for each.
\<close>

record 'r outbox_worker =
  ow_claim :: "'r \<Rightarrow> string \<Rightarrow> int \<Rightarrow> (outbox_error + outbox_event list) \<times> 'r"
  ow_ack :: "'r \<Rightarrow> string \<Rightarrow> string \<Rightarrow> (outbox_error + unit) \<times> 'r"
  ow_retry :: "'r \<Rightarrow> string \<Rightarrow> string \<Rightarrow> string \<Rightarrow> instant \<Rightarrow> (outbox_error + unit) \<times> 'r"
  ow_WorkerID :: string
  ow_BatchSize :: int
  ow_RetryDelay :: "(int \<Rightarrow> duration) option"
  ow_Handle :: "(outbox_event \<times> string option) list \<Rightarrow> outbox_event \<Rightarrow> string option"
  ow_Now :: "nat \<Rightarrow> instant"

record 'r worker_state =
  ws_repo :: 'r
  ws_queue :: "outbox_event tenant_queue option"
  ws_limiter :: "limiter option"
  ws_log :: "(outbox_event \<times> string option) list"
  ws_ticks :: nat

definition retry_delay :: "'r outbox_worker \<Rightarrow> int \<Rightarrow> duration" where
  "retry_delay w attempts = (case ow_RetryDelay w of None \<Rightarrow> second | Some f \<Rightarrow> f attempts)"

text \<open>\<open>RetryOutboxEvent(ctx, w.WorkerID, event.EventID, text, now().Add(delay(event.Attempts+1)))\<close>.\<close>

definition give_back :: "'r outbox_worker \<Rightarrow> 'r worker_state \<Rightarrow> outbox_event \<Rightarrow> string \<Rightarrow> (outbox_error + unit) \<times> 'r worker_state" where
  "give_back w s e msg =
     (case ow_retry w (ws_repo s) (ow_WorkerID w) (en_EventID e) msg
             (ow_Now w (ws_ticks s) + retry_delay w (oe_Attempts e + 1)) of
        (res, r) \<Rightarrow> (res, s\<lparr>ws_repo := r, ws_ticks := Suc (ws_ticks s)\<rparr>))"

text \<open>The loop that puts the claimed events into the queue.\<close>

fun enqueue_loop ::
  "'r outbox_worker \<Rightarrow> 'r worker_state \<Rightarrow> outbox_event tenant_queue \<Rightarrow> outbox_event list
     \<Rightarrow> (outbox_error + unit) \<times> 'r worker_state \<times> outbox_event tenant_queue" where
  "enqueue_loop w s q [] = (Inr (), s, q)"
| "enqueue_loop w s q (e # es) =
     (case q_Enqueue q (en_Organization e) e of
        (True, q') \<Rightarrow> enqueue_loop w s q' es
      | (False, q') \<Rightarrow>
          (case give_back w s e ''organization queue limit reached'' of
             (Inl err, s') \<Rightarrow> (Inl err, s', q')
           | (Inr _, s') \<Rightarrow> enqueue_loop w s' q' es))"

text \<open>One event: admission by the limiter, the handler, and the settlement.\<close>

definition settle ::
  "'r outbox_worker \<Rightarrow> 'r worker_state \<Rightarrow> nat option \<Rightarrow> outbox_event \<Rightarrow> (outbox_error + unit) \<times> 'r worker_state" where
  "settle w s release e =
     (let res = ow_Handle w (ws_log s) e;
          s1 = s\<lparr>ws_log := ws_log s @ [(e, res)],
                 ws_limiter := (case release of None \<Rightarrow> ws_limiter s | Some g \<Rightarrow> map_option (\<lambda>l. Release l g) (ws_limiter s))\<rparr> in
      case res of
        Some msg \<Rightarrow> give_back w s1 e msg
      | None \<Rightarrow>
          (case ow_ack w (ws_repo s1) (ow_WorkerID w) (en_EventID e) of (out, r) \<Rightarrow> (out, s1\<lparr>ws_repo := r\<rparr>)))"

definition deliver_event :: "'r outbox_worker \<Rightarrow> 'r worker_state \<Rightarrow> outbox_event \<Rightarrow> (outbox_error + unit) \<times> 'r worker_state" where
  "deliver_event w s e =
     (case ws_limiter s of
        None \<Rightarrow> settle w s None e
      | Some l \<Rightarrow>
          (case TryAcquire l (en_Organization e) of
             (None, l') \<Rightarrow> give_back w (s\<lparr>ws_limiter := Some l'\<rparr>) e ''organization worker limit reached''
           | (Some g, l') \<Rightarrow> settle w (s\<lparr>ws_limiter := Some l'\<rparr>) (Some g) e))"

fun deliver_loop :: "'r outbox_worker \<Rightarrow> 'r worker_state \<Rightarrow> outbox_event list \<Rightarrow> (outbox_error + unit) \<times> 'r worker_state" where
  "deliver_loop w s [] = (Inr (), s)"
| "deliver_loop w s (e # es) =
     (case deliver_event w s e of
        (Inl err, s') \<Rightarrow> (Inl err, s')
      | (Inr _, s') \<Rightarrow> deliver_loop w s' es)"

definition through_queue ::
  "'r outbox_worker \<Rightarrow> 'r worker_state \<Rightarrow> outbox_event list \<Rightarrow> (outbox_error + outbox_event list) \<times> 'r worker_state" where
  "through_queue w s es =
     (case ws_queue s of
        None \<Rightarrow> (Inr es, s)
      | Some q \<Rightarrow>
          (case enqueue_loop w s q es of
             (Inl err, s', q') \<Rightarrow> (Inl err, s'\<lparr>ws_queue := Some q'\<rparr>)
           | (Inr _, s', q') \<Rightarrow>
               (case q_drain (Suc (nat (q_total q'))) q' of
                  (xs, q'') \<Rightarrow> (Inr (map snd xs), s'\<lparr>ws_queue := Some q''\<rparr>))))"

definition RunOnce :: "'r outbox_worker \<Rightarrow> 'r worker_state \<Rightarrow> (outbox_error + unit) \<times> 'r worker_state" where
  "RunOnce w s =
     (if ow_WorkerID w = [] \<or> ow_BatchSize w \<le> 0 then (Inl ErrInvalidOutboxEvent, s)
      else
        case ow_claim w (ws_repo s) (ow_WorkerID w) (ow_BatchSize w) of
          (Inl err, r) \<Rightarrow> (Inl err, s\<lparr>ws_repo := r\<rparr>)
        | (Inr es, r) \<Rightarrow>
            (case through_queue w (s\<lparr>ws_repo := r\<rparr>) es of
               (Inl err, s') \<Rightarrow> (Inl err, s')
             | (Inr es', s') \<Rightarrow> deliver_loop w s' es'))"

text \<open>\<open>Run\<close>: a first run and then one per tick until the context is cancelled, which the source
  turns into the error of the context; the list has one entry per tick received.\<close>

datatype run_outcome = RunFailed outbox_error | RunCancelled

fun Run :: "'r outbox_worker \<Rightarrow> 'r worker_state \<Rightarrow> unit list \<Rightarrow> run_outcome \<times> 'r worker_state" where
  "Run w s ticks =
     (case RunOnce w s of
        (Inl err, s') \<Rightarrow> (RunFailed err, s')
      | (Inr _, s') \<Rightarrow> (case ticks of [] \<Rightarrow> (RunCancelled, s') | _ # ts \<Rightarrow> Run w s' ts))"

declare Run.simps [simp del]

section \<open>Lists that go through the queue\<close>

lemma subseq_subset: "subseq xs ys \<Longrightarrow> set xs \<subseteq> set ys"
  by (auto elim: list_emb_set)

lemma subseq_distinct: "subseq xs ys \<Longrightarrow> distinct ys \<Longrightarrow> distinct xs"
  by (induction rule: list_emb.induct) (use subseq_subset in auto)

lemma q_items_Enqueue:
  "q_items (snd (q_Enqueue q org v)) =
     (if fst (q_Enqueue q org v) then (q_items q)(org := q_items q org @ [v]) else q_items q)"
  by (simp add: q_Enqueue_def)

lemma count_of_org: "count_list (of_org org xs) v = count_list xs (org, v)"
  by (induction xs) (auto simp: of_org_def)

lemma of_org_mset: "(\<And>org. of_org org xs = of_org org ys) \<Longrightarrow> mset xs = mset ys"
  by (rule multiset_eqI) (metis count_mset count_of_org surj_pair)

definition queue_empty :: "'v tenant_queue \<Rightarrow> bool" where
  "queue_empty q \<longleftrightarrow> queue_inv q \<and> q_items q = (\<lambda>_. [])"

lemma queue_inv_drain: "queue_inv q \<Longrightarrow> q_drain n q = (xs, q') \<Longrightarrow> queue_inv q'"
  by (induction n q arbitrary: xs rule: q_drain.induct)
    (auto split: prod.splits option.splits dest: queue_inv_dequeue)

section \<open>The contract of the repository\<close>

text \<open>What the repository says of an event: no such event, claimed by a worker, delivered, or open
  (waiting or dead-lettered).\<close>

datatype event_standing = Missing | Held string | Done | Open

locale outbox_repository =
  fixes claim :: "'r \<Rightarrow> string \<Rightarrow> int \<Rightarrow> (outbox_error + outbox_event list) \<times> 'r"
    and ack :: "'r \<Rightarrow> string \<Rightarrow> string \<Rightarrow> (outbox_error + unit) \<times> 'r"
    and retry :: "'r \<Rightarrow> string \<Rightarrow> string \<Rightarrow> string \<Rightarrow> instant \<Rightarrow> (outbox_error + unit) \<times> 'r"
    and standing :: "'r \<Rightarrow> string \<Rightarrow> event_standing"
    and sound :: "'r \<Rightarrow> bool"
  assumes claim_spec: "sound r \<Longrightarrow> claim r w n = (Inr es, r') \<Longrightarrow>
        sound r' \<and> distinct (map en_EventID es) \<and> length es \<le> nat n \<and>
        standing r' = (\<lambda>i. if i \<in> en_EventID ` set es then Held w else standing r i)"
    and ack_spec: "sound r \<Longrightarrow> ack r w i = (Inr (), r') \<Longrightarrow>
        sound r' \<and> standing r i = Held w \<and> standing r' = (standing r)(i := Done)"
    and retry_spec: "sound r \<Longrightarrow> retry r w i msg t = (Inr (), r') \<Longrightarrow>
        sound r' \<and> standing r i = Held w \<and> standing r' = (standing r)(i := Open)"
begin

text \<open>The events of a log that were delivered, and what a worker bound to the repository is.\<close>

definition bound :: "'r outbox_worker \<Rightarrow> bool" where
  "bound w \<longleftrightarrow> ow_claim w = claim \<and> ow_ack w = ack \<and> ow_retry w = retry"

definition outcome_of :: "(outbox_event \<times> string option) list \<Rightarrow> outbox_event list \<Rightarrow> 'r \<Rightarrow> 'r \<Rightarrow> bool" where
  "outcome_of log es r r' \<longleftrightarrow>
     standing r' = (\<lambda>i. if \<exists>e. (e, None) \<in> set log \<and> en_EventID e = i then Done
                         else if i \<in> en_EventID ` set es then Open else standing r i)"

lemma give_back_spec:
  assumes "bound w" and "sound (ws_repo s)" and "give_back w s e msg = (Inr (), s')"
  shows "sound (ws_repo s')" and "standing (ws_repo s') = (standing (ws_repo s))(en_EventID e := Open)"
    and "ws_log s' = ws_log s" and "ws_queue s' = ws_queue s" and "ws_limiter s' = ws_limiter s"
  using assms retry_spec [OF assms(2)] by (auto simp: give_back_def bound_def split: prod.splits)

lemma settle_spec:
  assumes "bound w" and "sound (ws_repo s)" and "settle w s g e = (Inr (), s')"
  shows "\<exists>res. ws_log s' = ws_log s @ [(e, res)] \<and> sound (ws_repo s') \<and> ws_queue s' = ws_queue s \<and>
    standing (ws_repo s') = (standing (ws_repo s))(en_EventID e := (if res = None then Done else Open))"
proof (cases "ow_Handle w (ws_log s) e")
  case None
  then show ?thesis
    using assms ack_spec [OF assms(2)] by (auto simp: settle_def bound_def Let_def split: prod.splits)
next
  case (Some msg)
  then obtain li where "give_back w (s\<lparr>ws_log := ws_log s @ [(e, Some msg)], ws_limiter := li\<rparr>) e msg = (Inr (), s')"
    using assms(3) by (simp add: settle_def Let_def)
  from give_back_spec [OF assms(1) _ this] show ?thesis using assms(2) by (intro exI [of _ "Some msg"]) simp
qed

lemma deliver_spec:
  assumes "bound w" and "sound (ws_repo s)" and "deliver_event w s e = (Inr (), s')"
  shows "\<exists>l. (l = [] \<or> (\<exists>res. l = [(e, res)])) \<and> ws_log s' = ws_log s @ l \<and> sound (ws_repo s') \<and> ws_queue s' = ws_queue s \<and>
    standing (ws_repo s') = (standing (ws_repo s))(en_EventID e := (if (e, None) \<in> set l then Done else Open))"
proof -
  from assms(3) consider
      (refused) l where "give_back w (s\<lparr>ws_limiter := l\<rparr>) e ''organization worker limit reached'' = (Inr (), s')"
    | (handled) l g where "settle w (s\<lparr>ws_limiter := l\<rparr>) g e = (Inr (), s')"
  proof (cases "ws_limiter s")
    case None
    then have eq: "s\<lparr>ws_limiter := None\<rparr> = s" by simp
    show ?thesis by (rule that(2) [of None None, unfolded eq]) (use None assms(3) in \<open>simp add: deliver_event_def\<close>)
  qed (auto simp: deliver_event_def split: prod.splits option.splits)
  then show ?thesis
  proof cases
    case refused
    from give_back_spec [OF assms(1) _ this] assms(2) show ?thesis by (intro exI [of _ "[]"]) simp
  next
    case handled
    from settle_spec [OF assms(1) _ this] assms(2) obtain res where
      "ws_log s' = ws_log s @ [(e, res)]" "sound (ws_repo s')" "ws_queue s' = ws_queue s"
      "standing (ws_repo s') = (standing (ws_repo s))(en_EventID e := (if res = None then Done else Open))"
      by auto
    then show ?thesis by (intro exI [of _ "[(e, res)]"]) simp
  qed
qed

lemma deliver_loop_spec:
  assumes "bound w" and "sound (ws_repo s)" and "distinct (map en_EventID es)" and "deliver_loop w s es = (Inr (), s')"
  shows "\<exists>l. ws_log s' = ws_log s @ l \<and> subseq (map fst l) es \<and> sound (ws_repo s') \<and> ws_queue s' = ws_queue s \<and>
    outcome_of l es (ws_repo s) (ws_repo s')"
  using assms(2-)
proof (induction es arbitrary: s)
  case Nil
  then show ?case by (auto simp: outcome_of_def)
next
  case (Cons e es)
  from Cons.prems(3) obtain s1 where d: "deliver_event w s e = (Inr (), s1)" and rest: "deliver_loop w s1 es = (Inr (), s')"
    by (auto split: prod.splits sum.splits)
  from deliver_spec [OF assms(1) Cons.prems(1) d] obtain l0 where
    l0: "l0 = [] \<or> (\<exists>res. l0 = [(e, res)])" "ws_log s1 = ws_log s @ l0" "sound (ws_repo s1)" "ws_queue s1 = ws_queue s"
      "standing (ws_repo s1) = (standing (ws_repo s))(en_EventID e := (if (e, None) \<in> set l0 then Done else Open))"
    by blast
  from Cons.IH [OF l0(3) _ rest] Cons.prems(2) obtain l where
    l: "ws_log s' = ws_log s1 @ l" "subseq (map fst l) es" "sound (ws_repo s')" "ws_queue s' = ws_queue s1"
      "outcome_of l es (ws_repo s1) (ws_repo s')"
    by auto
  have "set (map fst l) \<subseteq> set es" using l(2) by (rule subseq_subset)
  then have fresh: "en_EventID x \<noteq> en_EventID e" if "(x, y) \<in> set l" for x y
  proof -
    have "x \<in> set es" using that \<open>set (map fst l) \<subseteq> set es\<close> by force
    then have "en_EventID x \<in> en_EventID ` set es" by simp
    then show ?thesis using Cons.prems(2) by (metis distinct.simps(2) list.simps(9) set_map)
  qed
  have "outcome_of (l0 @ l) (e # es) (ws_repo s) (ws_repo s')"
    using l(5) l0(1) fresh Cons.prems(2) unfolding outcome_of_def l0(5) by (auto simp: fun_eq_iff)
  moreover have "subseq (map fst (l0 @ l)) (e # es)" using l0(1) l(2) by auto
  ultimately show ?case using l0 l by (intro exI [of _ "l0 @ l"]) simp
qed


text \<open>Putting events into the queue: those the queue refuses go back, the others wait in it.\<close>

lemma enqueue_loop_spec:
  assumes "bound w" and "sound (ws_repo s)" and "enqueue_loop w s q es = (Inr (), s', q')" and "queue_inv q"
  shows "\<exists>ins. subseq ins es \<and> queue_inv q' \<and> ws_log s' = ws_log s \<and> sound (ws_repo s') \<and>
    (\<forall>org. q_items q' org = q_items q org @ of_org org (map (\<lambda>e. (en_Organization e, e)) ins)) \<and>
    (distinct (map en_EventID es) \<longrightarrow>
       standing (ws_repo s') = (\<lambda>i. if i \<in> en_EventID ` (set es - set ins) then Open else standing (ws_repo s) i))"
  using assms(2-)
proof (induction es arbitrary: s q)
  case Nil
  then show ?case by (auto simp: of_org_def)
next
  case (Cons e es)
  let ?q = "snd (q_Enqueue q (en_Organization e) e)"
  have q: "queue_inv ?q" using Cons.prems(3) by (rule queue_inv_enqueue)
  show ?case
  proof (cases "fst (q_Enqueue q (en_Organization e) e)")
    case True
    then have "enqueue_loop w s ?q es = (Inr (), s', q')"
      using Cons.prems(2) by (cases "q_Enqueue q (en_Organization e) e") simp
    from Cons.IH [OF Cons.prems(1) this q] obtain ins where
      ins: "subseq ins es" "queue_inv q'" "ws_log s' = ws_log s" "sound (ws_repo s')"
        "\<forall>org. q_items q' org = q_items ?q org @ of_org org (map (\<lambda>e. (en_Organization e, e)) ins)"
        "distinct (map en_EventID es) \<longrightarrow>
          standing (ws_repo s') = (\<lambda>i. if i \<in> en_EventID ` (set es - set ins) then Open else standing (ws_repo s) i)"
      by blast
    have "q_items ?q = (q_items q)(en_Organization e := q_items q (en_Organization e) @ [e])"
      using True by (simp add: q_items_Enqueue)
    then have items: "\<forall>org. q_items q' org = q_items q org @ of_org org (map (\<lambda>e. (en_Organization e, e)) (e # ins))"
      using ins(5) by (simp add: of_org_def)
    have "standing (ws_repo s') =
        (\<lambda>i. if i \<in> en_EventID ` (set (e # es) - set (e # ins)) then Open else standing (ws_repo s) i)"
      if d: "distinct (map en_EventID (e # es))"
    proof -
      have "e \<notin> set es" using d by auto
      then have "set (e # es) - set (e # ins) = set es - set ins" using subseq_subset [OF ins(1)] by auto
      then show ?thesis using ins(6) d by simp
    qed
    then show ?thesis using ins items by (intro exI [of _ "e # ins"]) simp
  next
    case False
    have same: "q_items ?q = q_items q" using False by (simp add: q_items_Enqueue)
    from False Cons.prems(2) obtain s1 where
      g: "give_back w s e ''organization queue limit reached'' = (Inr (), s1)"
      and r: "enqueue_loop w s1 ?q es = (Inr (), s', q')"
      by (cases "q_Enqueue q (en_Organization e) e") (auto split: prod.splits sum.splits)
    note given = give_back_spec [OF assms(1) Cons.prems(1) g]
    from Cons.IH [OF given(1) r q] obtain ins where
      ins: "subseq ins es" "queue_inv q'" "ws_log s' = ws_log s1" "sound (ws_repo s')"
        "\<forall>org. q_items q' org = q_items ?q org @ of_org org (map (\<lambda>e. (en_Organization e, e)) ins)"
        "distinct (map en_EventID es) \<longrightarrow>
          standing (ws_repo s') = (\<lambda>i. if i \<in> en_EventID ` (set es - set ins) then Open else standing (ws_repo s1) i)"
      by blast
    have "standing (ws_repo s') =
        (\<lambda>i. if i \<in> en_EventID ` (set (e # es) - set ins) then Open else standing (ws_repo s) i)"
      if d: "distinct (map en_EventID (e # es))"
    proof -
      have "e \<notin> set ins" using d subseq_subset [OF ins(1)] by auto
      then have "set (e # es) - set ins = insert e (set es - set ins)" by auto
      then show ?thesis using ins(6) d given(2) by (auto simp: fun_eq_iff)
    qed
    then show ?thesis using ins same given(3) by (intro exI [of _ ins]) auto
  qed
qed

lemma through_queue_spec:
  assumes "bound w" and "sound (ws_repo s)" and "through_queue w s es = (Inr xs, s')"
    and "distinct (map en_EventID es)" and "\<forall>q. ws_queue s = Some q \<longrightarrow> queue_empty q"
  shows "set xs \<subseteq> set es \<and> distinct (map en_EventID xs) \<and> ws_log s' = ws_log s \<and> sound (ws_repo s') \<and>
    (\<forall>q. ws_queue s' = Some q \<longrightarrow> queue_empty q) \<and>
    standing (ws_repo s') = (\<lambda>i. if i \<in> en_EventID ` (set es - set xs) then Open else standing (ws_repo s) i)"
proof (cases "ws_queue s")
  case None
  then show ?thesis using assms by (simp add: through_queue_def)
next
  case (Some q)
  then have q: "queue_inv q" "q_items q = (\<lambda>_. [])" using assms(5) by (simp_all add: queue_empty_def)
  obtain s1 q1 ys q2 where l: "enqueue_loop w s q es = (Inr (), s1, q1)"
    and dr: "q_drain (Suc (nat (q_total q1))) q1 = (ys, q2)"
    and xs: "xs = map snd ys" "s' = s1\<lparr>ws_queue := Some q2\<rparr>"
    using assms(3) Some by (auto simp: through_queue_def split: prod.splits sum.splits)
  from enqueue_loop_spec [OF assms(1,2) l q(1)] obtain ins where
    ins: "subseq ins es" "queue_inv q1" "ws_log s1 = ws_log s" "sound (ws_repo s1)"
      "\<And>org. q_items q1 org = of_org org (map (\<lambda>e. (en_Organization e, e)) ins)"
      "standing (ws_repo s1) = (\<lambda>i. if i \<in> en_EventID ` (set es - set ins) then Open else standing (ws_repo s) i)"
    using assms(4) q(2) by auto
  from q_drain_all [OF ins(2), of "Suc (nat (q_total q1))"] dr have
    d: "q_items q2 = (\<lambda>_. [])" "\<And>org. of_org org ys = q_items q1 org" by auto
  have "mset ys = mset (map (\<lambda>e. (en_Organization e, e)) ins)" by (rule of_org_mset) (simp add: d(2) ins(5))
  then have "image_mset snd (mset ys) = mset ins" by (simp add: multiset.map_comp comp_def)
  then have m: "mset xs = mset ins" by (simp add: xs(1))
  have "subseq (map en_EventID ins) (map en_EventID es)" using ins(1) by (rule subseq_map)
  then have "distinct (map en_EventID ins)" using assms(4) by (rule subseq_distinct)
  then have "distinct (map en_EventID xs)" using m by (metis mset_eq_imp_distinct_iff mset_map)
  moreover have "set xs = set ins" using m by (rule mset_eq_setD)
  moreover have "queue_empty q2" using d(1) queue_inv_drain [OF ins(2) dr] by (simp add: queue_empty_def)
  ultimately show ?thesis using ins xs(2) subseq_subset [OF ins(1)] by simp
qed

lemma run_once_spec:
  assumes "bound w" and "sound (ws_repo s)" and "\<forall>q. ws_queue s = Some q \<longrightarrow> queue_empty q"
    and "RunOnce w s = (Inr (), s')"
  shows "\<exists>es r log. claim (ws_repo s) (ow_WorkerID w) (ow_BatchSize w) = (Inr es, r) \<and> length es \<le> nat (ow_BatchSize w) \<and>
    ws_log s' = ws_log s @ log \<and> distinct (map (en_EventID \<circ> fst) log) \<and> fst ` set log \<subseteq> set es \<and>
    sound (ws_repo s') \<and> (\<forall>q. ws_queue s' = Some q \<longrightarrow> queue_empty q) \<and>
    standing (ws_repo s') = (\<lambda>i. if \<exists>e. (e, None) \<in> set log \<and> en_EventID e = i then Done
                                  else if i \<in> en_EventID ` set es then Open else standing (ws_repo s) i)"
proof -
  obtain es r xs s1 where c: "claim (ws_repo s) (ow_WorkerID w) (ow_BatchSize w) = (Inr es, r)"
    and t: "through_queue w (s\<lparr>ws_repo := r\<rparr>) es = (Inr xs, s1)" and d: "deliver_loop w s1 xs = (Inr (), s')"
    using assms(1,4) by (auto simp: RunOnce_def bound_def split: if_splits prod.splits sum.splits)
  note cs = claim_spec [OF assms(2) c]
  have "set xs \<subseteq> set es \<and> distinct (map en_EventID xs) \<and> ws_log s1 = ws_log s \<and> sound (ws_repo s1) \<and>
    (\<forall>q. ws_queue s1 = Some q \<longrightarrow> queue_empty q) \<and>
    standing (ws_repo s1) = (\<lambda>i. if i \<in> en_EventID ` (set es - set xs) then Open else standing r i)"
    using through_queue_spec [OF assms(1) _ t] cs assms(3) by (simp cong: if_cong)
  then have ts: "set xs \<subseteq> set es" "distinct (map en_EventID xs)" "ws_log s1 = ws_log s" "sound (ws_repo s1)"
    "\<forall>q. ws_queue s1 = Some q \<longrightarrow> queue_empty q"
    "standing (ws_repo s1) = (\<lambda>i. if i \<in> en_EventID ` (set es - set xs) then Open else standing r i)"
    by blast+
  from deliver_loop_spec [OF assms(1) ts(4,2) d] obtain log where
    l: "ws_log s' = ws_log s1 @ log" "subseq (map fst log) xs" "sound (ws_repo s')" "ws_queue s' = ws_queue s1"
      "outcome_of log xs (ws_repo s1) (ws_repo s')"
    by blast
  have "distinct (map en_EventID (map fst log))" using subseq_map [OF l(2)] ts(2) by (rule subseq_distinct)
  then have dl: "distinct (map (en_EventID \<circ> fst) log)" by (simp add: comp_def)
  have sub: "fst ` set log \<subseteq> set xs" using subseq_subset [OF l(2)] by simp
  have "standing (ws_repo s') i = (if \<exists>e. (e, None) \<in> set log \<and> en_EventID e = i then Done
      else if i \<in> en_EventID ` set es then Open else standing (ws_repo s) i)" for i
    using l(5) ts(1) cs unfolding outcome_of_def ts(6) by auto
  then have "standing (ws_repo s') = (\<lambda>i. if \<exists>e. (e, None) \<in> set log \<and> en_EventID e = i then Done
      else if i \<in> en_EventID ` set es then Open else standing (ws_repo s) i)" by (rule ext)
  then show ?thesis using c cs l ts(3,5) dl sub ts(1) by (intro exI [of _ es] exI [of _ r] exI [of _ log]) auto
qed

end

section \<open>A repository whose statements succeed\<close>

locale outbox_repository_up = outbox_repository claim ack retry standing sound
  for claim :: "'r \<Rightarrow> string \<Rightarrow> int \<Rightarrow> (outbox_error + outbox_event list) \<times> 'r"
    and ack :: "'r \<Rightarrow> string \<Rightarrow> string \<Rightarrow> (outbox_error + unit) \<times> 'r"
    and retry :: "'r \<Rightarrow> string \<Rightarrow> string \<Rightarrow> string \<Rightarrow> instant \<Rightarrow> (outbox_error + unit) \<times> 'r"
    and standing :: "'r \<Rightarrow> string \<Rightarrow> event_standing"
    and sound :: "'r \<Rightarrow> bool" +
  fixes up :: "'r \<Rightarrow> bool"
  assumes claim_up: "up r \<Longrightarrow> w \<noteq> [] \<Longrightarrow> 0 < n \<Longrightarrow> \<exists>es r'. claim r w n = (Inr es, r') \<and> up r'"
    and ack_up: "sound r \<Longrightarrow> up r \<Longrightarrow> standing r i = Held w \<Longrightarrow> \<exists>r'. ack r w i = (Inr (), r') \<and> up r'"
    and retry_up: "sound r \<Longrightarrow> up r \<Longrightarrow> standing r i = Held w \<Longrightarrow> \<exists>r'. retry r w i msg t = (Inr (), r') \<and> up r'"
begin

definition all_held :: "'r outbox_worker \<Rightarrow> 'r \<Rightarrow> outbox_event list \<Rightarrow> bool" where
  "all_held w r es \<longleftrightarrow> (\<forall>e\<in>set es. standing r (en_EventID e) = Held (ow_WorkerID w))"

lemma all_held_upd:
  assumes "all_held w r (e # es)" and "distinct (map en_EventID (e # es))"
    and "standing r' = (standing r)(en_EventID e := v)"
  shows "all_held w r' es"
proof -
  have "en_EventID x \<noteq> en_EventID e" if "x \<in> set es" for x using that assms(2) by (auto simp: image_iff)
  then show ?thesis using assms(1,3) by (simp add: all_held_def)
qed

lemma give_back_up:
  assumes "bound w" and "sound (ws_repo s)" and "up (ws_repo s)" and "standing (ws_repo s) (en_EventID e) = Held (ow_WorkerID w)"
  shows "\<exists>s'. give_back w s e msg = (Inr (), s') \<and> up (ws_repo s')"
proof -
  let ?t = "ow_Now w (ws_ticks s) + retry_delay w (oe_Attempts e + 1)"
  from retry_up [OF assms(2-4)] obtain r' where "retry (ws_repo s) (ow_WorkerID w) (en_EventID e) msg ?t = (Inr (), r')" "up r'"
    by blast
  then show ?thesis using assms(1) by (simp add: give_back_def bound_def)
qed

lemma settle_up:
  assumes "bound w" and "sound (ws_repo s)" and "up (ws_repo s)" and "standing (ws_repo s) (en_EventID e) = Held (ow_WorkerID w)"
  shows "\<exists>s'. settle w s g e = (Inr (), s') \<and> up (ws_repo s')"
proof (cases "ow_Handle w (ws_log s) e")
  case None
  from ack_up [OF assms(2-4)] obtain r' where "ack (ws_repo s) (ow_WorkerID w) (en_EventID e) = (Inr (), r')" "up r'" by blast
  then show ?thesis using None assms(1) by (simp add: settle_def bound_def Let_def)
next
  case (Some msg)
  then show ?thesis
    using give_back_up [OF assms(1), of "s\<lparr>ws_log := ws_log s @ [(e, Some msg)], ws_limiter := l\<rparr>" for l] assms(2-)
    by (simp add: settle_def Let_def)
qed

lemma deliver_up:
  assumes "bound w" and "sound (ws_repo s)" and "up (ws_repo s)" and "standing (ws_repo s) (en_EventID e) = Held (ow_WorkerID w)"
  shows "\<exists>s'. deliver_event w s e = (Inr (), s') \<and> up (ws_repo s')"
proof -
  have "\<exists>s'. settle w (s\<lparr>ws_limiter := l\<rparr>) g e = (Inr (), s') \<and> up (ws_repo s')"
    "\<exists>s'. give_back w (s\<lparr>ws_limiter := l\<rparr>) e msg = (Inr (), s') \<and> up (ws_repo s')"
    "\<exists>s'. settle w s g e = (Inr (), s') \<and> up (ws_repo s')" for l g msg
    using assms by (simp_all add: settle_up give_back_up)
  then show ?thesis by (auto simp: deliver_event_def split: option.split prod.split)
qed

lemma deliver_loop_up:
  assumes "bound w"
  shows "sound (ws_repo s) \<Longrightarrow> up (ws_repo s) \<Longrightarrow> all_held w (ws_repo s) es \<Longrightarrow> distinct (map en_EventID es) \<Longrightarrow>
    \<exists>s'. deliver_loop w s es = (Inr (), s')"
proof (induction es arbitrary: s)
  case (Cons e es)
  from deliver_up [OF assms Cons.prems(1,2)] Cons.prems(3) obtain s1 where d: "deliver_event w s e = (Inr (), s1)" "up (ws_repo s1)"
    by (auto simp: all_held_def)
  from deliver_spec [OF assms Cons.prems(1) d(1)] obtain v where
    st: "sound (ws_repo s1)" "standing (ws_repo s1) = (standing (ws_repo s))(en_EventID e := v)" by blast
  have "all_held w (ws_repo s1) es" using Cons.prems(3,4) st(2) by (rule all_held_upd)
  from Cons.IH [OF st(1) d(2) this] Cons.prems(4) d(1) show ?case by simp
qed simp

lemma enqueue_loop_up:
  assumes "bound w"
  shows "sound (ws_repo s) \<Longrightarrow> up (ws_repo s) \<Longrightarrow> all_held w (ws_repo s) es \<Longrightarrow> distinct (map en_EventID es) \<Longrightarrow>
    \<exists>s' q'. enqueue_loop w s q es = (Inr (), s', q') \<and> up (ws_repo s')"
proof (induction es arbitrary: s q)
  case (Cons e es)
  obtain ok q1 where q: "q_Enqueue q (en_Organization e) e = (ok, q1)" by (cases "q_Enqueue q (en_Organization e) e")
  show ?case
  proof (cases ok)
    case True
    have "all_held w (ws_repo s) es" using Cons.prems(3) by (simp add: all_held_def)
    from Cons.IH [OF Cons.prems(1,2) this] Cons.prems(4) q True show ?thesis by simp
  next
    case False
    from Cons.prems(3) have "standing (ws_repo s) (en_EventID e) = Held (ow_WorkerID w)" by (simp add: all_held_def)
    from give_back_up [OF assms Cons.prems(1,2) this] obtain s1 where
      g: "give_back w s e ''organization queue limit reached'' = (Inr (), s1)" "up (ws_repo s1)"
      by blast
    note st = give_back_spec [OF assms Cons.prems(1) g(1)]
    have "all_held w (ws_repo s1) es" using Cons.prems(3,4) st(2) by (rule all_held_upd)
    from Cons.IH [OF st(1) g(2) this, of q1] Cons.prems(4) q False g(1) show ?thesis by simp
  qed
qed simp

lemma through_queue_up:
  assumes "bound w" and "sound (ws_repo s)" and "up (ws_repo s)" and "all_held w (ws_repo s) es" and "distinct (map en_EventID es)"
  shows "\<exists>xs s'. through_queue w s es = (Inr xs, s') \<and> up (ws_repo s')"
proof (cases "ws_queue s")
  case None
  then show ?thesis using assms(3) by (simp add: through_queue_def)
next
  case (Some q)
  from enqueue_loop_up [OF assms(1-5)] obtain s' q' where "enqueue_loop w s q es = (Inr (), s', q')" "up (ws_repo s')" by blast
  then show ?thesis using Some by (simp add: through_queue_def split: prod.split)
qed

lemma run_once_up:
  assumes "bound w" and "sound (ws_repo s)" and "up (ws_repo s)" and "\<forall>q. ws_queue s = Some q \<longrightarrow> queue_empty q"
    and "ow_WorkerID w \<noteq> []" and "0 < ow_BatchSize w"
  shows "\<exists>s'. RunOnce w s = (Inr (), s')"
proof -
  from claim_up [OF assms(3,5,6)] obtain es r where
    c: "claim (ws_repo s) (ow_WorkerID w) (ow_BatchSize w) = (Inr es, r)" "up r" by blast
  note cs = claim_spec [OF assms(2) c(1)]
  let ?s = "s\<lparr>ws_repo := r\<rparr>"
  have held: "all_held w r es" using cs by (simp add: all_held_def)
  with cs c(2) through_queue_up [OF assms(1), of ?s es] obtain xs s1 where
    t: "through_queue w ?s es = (Inr xs, s1)" "up (ws_repo s1)" by auto
  have ts: "set xs \<subseteq> set es" "distinct (map en_EventID xs)" "sound (ws_repo s1)"
    "standing (ws_repo s1) = (\<lambda>i. if i \<in> en_EventID ` (set es - set xs) then Open else standing r i)"
    using through_queue_spec [OF assms(1) _ t(1)] cs assms(4) by (simp_all cong: if_cong)
  have "en_EventID e \<notin> en_EventID ` (set es - set xs)" if "e \<in> set xs" for e
    using that ts(1) cs by (auto simp: distinct_map dest: inj_onD)
  then have "all_held w (ws_repo s1) xs" using held ts(1,4) by (auto simp: all_held_def)
  from deliver_loop_up [OF assms(1) ts(3) t(2) this ts(2)] show ?thesis
    using c t(1) assms(1,5,6) by (simp add: RunOnce_def bound_def)
qed

end

section \<open>The table as a repository\<close>

text \<open>The store with what its statements depend on: the database's clock at each call and the rows
  that other transactions hold locked.\<close>

record outbox_repo =
  rp_db :: outbox_db
  rp_now :: "nat \<Rightarrow> instant"
  rp_locked :: "nat \<Rightarrow> string \<Rightarrow> bool"
  rp_call :: nat

definition called :: "outbox_repo \<Rightarrow> outbox_db \<Rightarrow> outbox_repo" where
  "called r db = r\<lparr>rp_db := db, rp_call := Suc (rp_call r)\<rparr>"

definition repo_claim :: "(outbox_event \<Rightarrow> nat) \<Rightarrow> outbox_repo \<Rightarrow> string \<Rightarrow> int \<Rightarrow> (outbox_error + outbox_event list) \<times> outbox_repo" where
  "repo_claim rank r worker limit =
     apsnd (called r) (ClaimOutboxEvents rank (rp_db r) (rp_now r (rp_call r)) (rp_locked r (rp_call r)) worker limit)"

definition repo_ack :: "outbox_repo \<Rightarrow> string \<Rightarrow> string \<Rightarrow> (outbox_error + unit) \<times> outbox_repo" where
  "repo_ack r worker i = apsnd (called r) (AckOutboxEvent (rp_db r) (rp_now r (rp_call r)) worker i)"

definition repo_retry :: "outbox_repo \<Rightarrow> string \<Rightarrow> string \<Rightarrow> string \<Rightarrow> instant \<Rightarrow> (outbox_error + unit) \<times> outbox_repo" where
  "repo_retry r worker i msg t = apsnd (called r) (RetryOutboxEvent (rp_db r) (rp_now r (rp_call r)) worker i msg t)"

definition row_of :: "outbox_db \<Rightarrow> string \<Rightarrow> outbox_event option" where
  "row_of db i = find (\<lambda>x. en_EventID x = i) (ob_events db)"

definition row_standing :: "outbox_event \<Rightarrow> event_standing" where
  "row_standing x =
     (if oe_Status x = OutboxStatusClaimed then Held (oe_WorkerID x)
      else if oe_Status x = OutboxStatusDelivered then Done else Open)"

definition repo_standing :: "outbox_repo \<Rightarrow> string \<Rightarrow> event_standing" where
  "repo_standing r i = (case row_of (rp_db r) i of None \<Rightarrow> Missing | Some x \<Rightarrow> row_standing x)"

lemma find_map_rows:
  assumes "\<And>x. en_EventID (f x) = en_EventID x"
  shows "find (\<lambda>x. en_EventID x = i) (map (\<lambda>x. if P x then f x else x) xs) =
    map_option (\<lambda>x. if P x then f x else x) (find (\<lambda>x. en_EventID x = i) xs)"
  using assms by (induction xs) auto

lemma row_of_some:
  assumes "outbox_inv db"
  shows "row_of db i = Some x \<longleftrightarrow> x \<in> set (ob_events db) \<and> en_EventID x = i"
proof -
  have "inj_on en_EventID (set (ob_events db))" using assms by (simp add: outbox_inv_def distinct_map)
  then show ?thesis unfolding row_of_def
    by (cases "find (\<lambda>x. en_EventID x = i) (ob_events db)") (auto dest: find_Some_in inj_onD simp: find_None_all)
qed

lemma standing_write:
  assumes "outbox_inv (rp_db r)" and "\<And>x. en_EventID (f x) = en_EventID x"
    and "\<And>x. x \<in> set (ob_events (rp_db r)) \<Longrightarrow> P x \<Longrightarrow> row_standing (f x) = st (en_EventID x)"
    and "\<And>x. x \<in> set (ob_events (rp_db r)) \<Longrightarrow> P x \<longleftrightarrow> en_EventID x \<in> I"
    and "I \<subseteq> en_EventID ` set (ob_events (rp_db r))"
  shows "repo_standing (called r (rp_db r\<lparr>ob_events := map (\<lambda>x. if P x then f x else x) (ob_events (rp_db r))\<rparr>)) =
    (\<lambda>i. if i \<in> I then st i else repo_standing r i)"
proof
  fix i
  show "repo_standing (called r (rp_db r\<lparr>ob_events := map (\<lambda>x. if P x then f x else x) (ob_events (rp_db r))\<rparr>)) i =
    (if i \<in> I then st i else repo_standing r i)"
  proof (cases "row_of (rp_db r) i")
    case None
    then have "i \<notin> I" using assms(5) by (auto simp: row_of_def find_None_all)
    then show ?thesis using None find_map_rows [OF assms(2)] by (simp add: repo_standing_def called_def row_of_def)
  next
    case (Some x)
    then have x: "x \<in> set (ob_events (rp_db r))" "en_EventID x = i" using row_of_some [OF assms(1)] by auto
    have "repo_standing (called r (rp_db r\<lparr>ob_events := map (\<lambda>x. if P x then f x else x) (ob_events (rp_db r))\<rparr>)) i =
        row_standing (if P x then f x else x)"
      using Some find_map_rows [OF assms(2)] by (simp add: repo_standing_def called_def row_of_def)
    then show ?thesis using assms(3,4) [OF x(1)] x(2) Some by (simp add: repo_standing_def)
  qed
qed

lemma length_filter_ids:
  assumes "distinct (map en_EventID xs)"
  shows "length (filter (\<lambda>x. en_EventID x \<in> set ids) xs) \<le> length ids"
proof -
  have "distinct (map en_EventID (filter (\<lambda>x. en_EventID x \<in> set ids) xs))" using assms by (simp add: distinct_map_filter)
  then have "length (filter (\<lambda>x. en_EventID x \<in> set ids) xs) = card (en_EventID ` set (filter (\<lambda>x. en_EventID x \<in> set ids) xs))"
    using distinct_card by fastforce
  also have "\<dots> \<le> card (set ids)" by (rule card_mono) auto
  finally show ?thesis using card_length le_trans by blast
qed

lemma claimed_ids_present: "set (claimed_ids db now locked n) \<subseteq> en_EventID ` set (ob_events db)"
  by (auto simp: claimed_ids_def dest!: in_set_takeD)

lemma repo_claim_spec:
  assumes "outbox_inv (rp_db r)" and "repo_claim rank r w n = (Inr es, r')"
  shows "outbox_inv (rp_db r') \<and> distinct (map en_EventID es) \<and> length es \<le> nat n \<and>
    repo_standing r' = (\<lambda>i. if i \<in> en_EventID ` set es then Held w else repo_standing r i)"
proof -
  let ?now = "rp_now r (rp_call r)" and ?db = "rp_db r"
  let ?ids = "claimed_ids ?db ?now (rp_locked r (rp_call r)) n"
  let ?rows = "map (claim_row ?now w) (filter (\<lambda>x. en_EventID x \<in> set ?ids) (ob_events ?db))"
  have es: "es = sort_key rank ?rows"
    and r': "r' = called r (?db\<lparr>ob_events := map (\<lambda>x. if en_EventID x \<in> set ?ids then claim_row ?now w x else x) (ob_events ?db)\<rparr>)"
    using assms(2) by (auto simp: repo_claim_def ClaimOutboxEvents_def Let_def split: if_splits)
  have "outbox_inv (snd (ClaimOutboxEvents rank ?db ?now (rp_locked r (rp_call r)) w n))" using assms(1) by (rule outbox_inv_claim)
  moreover have "rp_db r' = snd (ClaimOutboxEvents rank ?db ?now (rp_locked r (rp_call r)) w n)"
    using assms(2) by (cases "ClaimOutboxEvents rank ?db ?now (rp_locked r (rp_call r)) w n")
      (auto simp: repo_claim_def called_def)
  ultimately have inv: "outbox_inv (rp_db r')" by simp
  have dist: "distinct (map en_EventID (ob_events ?db))" using assms(1) by (simp add: outbox_inv_def)
  have m: "mset (map en_EventID es) = mset (map en_EventID (filter (\<lambda>x. en_EventID x \<in> set ?ids) (ob_events ?db)))"
    by (simp add: es multiset.map_comp comp_def)
  then have "distinct (map en_EventID es)" using distinct_map_filter [OF dist] by (metis mset_eq_imp_distinct_iff)
  moreover have "length es \<le> nat n"
    using length_filter_ids [OF dist, of ?ids] by (simp add: es claimed_ids_def)
  moreover have ids: "en_EventID ` set es = set ?ids" using claimed_ids_present [of ?db ?now "rp_locked r (rp_call r)" n] by (force simp: es image_iff)
  moreover have "repo_standing r' = (\<lambda>i. if i \<in> set ?ids then Held w else repo_standing r i)"
    unfolding r' by (rule standing_write [OF assms(1)]) (auto simp: row_standing_def claim_row_def intro: claimed_ids_present [THEN subsetD])
  ultimately show ?thesis using inv by simp
qed

lemma repo_settle_spec:
  assumes "outbox_inv (rp_db r)" and "x \<in> set (ob_events (rp_db r))" and "held w i x"
    and "\<And>y. en_EventID (f y) = en_EventID y" and "\<And>y. held w i y \<Longrightarrow> row_standing (f y) = st"
  shows "repo_standing r i = Held w \<and>
    repo_standing (called r (rp_db r\<lparr>ob_events := map (\<lambda>x. if held w i x then f x else x) (ob_events (rp_db r))\<rparr>)) =
      (repo_standing r)(i := st)"
proof -
  have x: "en_EventID x = i" "row_of (rp_db r) i = Some x" using assms(2,3) row_of_some [OF assms(1)] by (auto simp: held_def)
  have "held w i y \<longleftrightarrow> en_EventID y \<in> {i}" if "y \<in> set (ob_events (rp_db r))" for y
    using that x assms(3) row_of_some [OF assms(1)] by (metis held_def option.inject singleton_iff)
  then have "repo_standing (called r (rp_db r\<lparr>ob_events := map (\<lambda>x. if held w i x then f x else x) (ob_events (rp_db r))\<rparr>)) =
      (\<lambda>j. if j \<in> {i} then st else repo_standing r j)"
    by (intro standing_write [OF assms(1)]) (use assms x in auto)
  moreover have "repo_standing r i = Held w" using x assms(3) by (simp add: repo_standing_def row_standing_def held_def)
  ultimately show ?thesis by (auto simp: fun_eq_iff)
qed

interpretation outbox_table: outbox_repository "repo_claim rank" repo_ack repo_retry repo_standing "\<lambda>r. outbox_inv (rp_db r)"
  for rank
proof unfold_locales
  show "outbox_inv (rp_db r') \<and> distinct (map en_EventID es) \<and> length es \<le> nat n \<and>
      repo_standing r' = (\<lambda>i. if i \<in> en_EventID ` set es then Held w else repo_standing r i)"
    if "outbox_inv (rp_db r)" "repo_claim rank r w n = (Inr es, r')" for r w n es r'
    using that by (rule repo_claim_spec)
  show "outbox_inv (rp_db r') \<and> repo_standing r i = Held w \<and> repo_standing r' = (repo_standing r)(i := Done)"
    if inv: "outbox_inv (rp_db r)" and a: "repo_ack r w i = (Inr (), r')" for r w i r'
  proof -
    let ?now = "rp_now r (rp_call r)"
    have "rp_db r' = snd (AckOutboxEvent (rp_db r) ?now w i)"
      using a by (cases "AckOutboxEvent (rp_db r) ?now w i") (auto simp: repo_ack_def called_def)
    then have "outbox_inv (rp_db r')" using outbox_inv_ack [OF inv] by simp
    moreover obtain x where x: "x \<in> set (ob_events (rp_db r))" "held w i x"
      and r': "r' = called r (rp_db r\<lparr>ob_events := map (\<lambda>x. if held w i x then ack_row ?now x else x) (ob_events (rp_db r))\<rparr>)"
      using a by (auto simp: repo_ack_def AckOutboxEvent_def split: if_splits)
    ultimately show ?thesis
      using repo_settle_spec [OF inv x, of "ack_row ?now" Done]
      by (simp add: row_standing_def ack_row_def outbox_status)
  qed
  show "outbox_inv (rp_db r') \<and> repo_standing r i = Held w \<and> repo_standing r' = (repo_standing r)(i := Open)"
    if inv: "outbox_inv (rp_db r)" and a: "repo_retry r w i msg t = (Inr (), r')" for r w i msg t r'
  proof -
    let ?now = "rp_now r (rp_call r)"
    have "rp_db r' = snd (RetryOutboxEvent (rp_db r) ?now w i msg t)"
      using a by (cases "RetryOutboxEvent (rp_db r) ?now w i msg t") (auto simp: repo_retry_def called_def)
    then have "outbox_inv (rp_db r')" using outbox_inv_retry [OF inv] by simp
    moreover obtain x u where x: "x \<in> set (ob_events (rp_db r))" "held w i x"
      and r': "r' = called r (rp_db r\<lparr>ob_events := map (\<lambda>x. if held w i x then retry_row ?now msg u x else x) (ob_events (rp_db r))\<rparr>)"
      using a by (auto simp: repo_retry_def RetryOutboxEvent_def Let_def split: if_splits)
    ultimately show ?thesis
      using repo_settle_spec [OF inv x, of "retry_row ?now msg u" Open]
      by (simp add: row_standing_def retry_row_def outbox_status)
  qed
qed

text \<open>The table whose statements meet no fault succeeds.\<close>

definition no_fault :: "outbox_repo \<Rightarrow> bool" where
  "no_fault r \<longleftrightarrow> ob_fault (rp_db r) = (\<lambda>_. False)"

lemma repo_standing_held:
  assumes "outbox_inv (rp_db r)" and "repo_standing r i = Held w"
  shows "\<exists>x\<in>set (ob_events (rp_db r)). held w i x"
  using assms row_of_some [OF assms(1), of i]
  by (auto simp: repo_standing_def row_standing_def held_def split: option.splits if_splits)

interpretation outbox_table_up: outbox_repository_up "repo_claim rank" repo_ack repo_retry repo_standing
    "\<lambda>r. outbox_inv (rp_db r)" no_fault
  for rank
proof unfold_locales
  show "\<exists>es r'. repo_claim rank r w n = (Inr es, r') \<and> no_fault r'"
    if "no_fault r" "w \<noteq> []" "0 < n" for r w n
    using that by (simp add: repo_claim_def ClaimOutboxEvents_def no_fault_def Let_def called_def)
  show "\<exists>r'. repo_ack r w i = (Inr (), r') \<and> no_fault r'"
    if "outbox_inv (rp_db r)" "no_fault r" "repo_standing r i = Held w" for r i w
    using that(2) repo_standing_held [OF that(1,3)] by (simp add: repo_ack_def AckOutboxEvent_def no_fault_def called_def)
  show "\<exists>r'. repo_retry r w i msg t = (Inr (), r') \<and> no_fault r'"
    if "outbox_inv (rp_db r)" "no_fault r" "repo_standing r i = Held w" for r i w msg t
    using that(2) repo_standing_held [OF that(1,3)]
    by (simp add: repo_retry_def RetryOutboxEvent_def no_fault_def called_def Let_def)
qed

section \<open>Properties\<close>

text \<open>The sample of the witnesses: two organizations with three waiting events, a queue that takes one
  event of each organization, and a handler that fails for one event.\<close>

definition sample_outbox_event :: "string \<Rightarrow> string \<Rightarrow> outbox_event" where
  "sample_outbox_event i org =
     new_row 1 \<lparr>en_EventID = i, en_Organization = org, en_AggregateType = ''work'', en_AggregateID = ''w'',
       en_EventType = ''work.updated'', en_CorrelationID = ''c'', en_IdempotencyKey = [], en_Payload = ''{}'',
       en_MaxAttempts = 2, en_AvailableAt = 0\<rparr>"

definition sample_outbox :: outbox_db where
  "sample_outbox = \<lparr>ob_orgs = (\<lambda>_. True),
     ob_events = [sample_outbox_event ''e1'' ''a'', sample_outbox_event ''e2'' ''a'', sample_outbox_event ''e3'' ''b''],
     ob_reconciliation = [], ob_fault = (\<lambda>_. False), ob_collate = length\<rparr>"

definition sample_worker :: "outbox_repo outbox_worker" where
  "sample_worker = \<lparr>ow_claim = repo_claim (\<lambda>_. 0), ow_ack = repo_ack, ow_retry = repo_retry, ow_WorkerID = ''w1'',
     ow_BatchSize = 10, ow_RetryDelay = None,
     ow_Handle = (\<lambda>_ e. if en_EventID e = ''e3'' then Some ''unreachable'' else None), ow_Now = (\<lambda>_. 5)\<rparr>"

definition sample_state :: "outbox_repo worker_state" where
  "sample_state = \<lparr>ws_repo = \<lparr>rp_db = sample_outbox, rp_now = (\<lambda>n. 5 + int n), rp_locked = (\<lambda>_ _. False), rp_call = 0\<rparr>,
     ws_queue = Some (NewQueue 1 5), ws_limiter = Some (NewLimiter 1 1), ws_log = [], ws_ticks = 0\<rparr>"

lemma sample_ok:
  "outbox_inv (rp_db (ws_repo sample_state))" "no_fault (ws_repo sample_state)"
  "\<forall>q. ws_queue sample_state = Some q \<longrightarrow> queue_empty q"
  "ow_claim sample_worker = repo_claim (\<lambda>_. 0)" "ow_ack sample_worker = repo_ack" "ow_retry sample_worker = repo_retry"
  "ow_WorkerID sample_worker \<noteq> []" "0 < ow_BatchSize sample_worker"
proof -
  show "outbox_inv (rp_db (ws_repo sample_state))"
    by (simp add: sample_state_def sample_outbox_def sample_outbox_event_def new_row_def outbox_inv_def keyed_def outbox_row_ok_def outbox_status)
  show "\<forall>q. ws_queue sample_state = Some q \<longrightarrow> queue_empty q"
    using queue_inv_new [of 1 5] by (simp add: sample_state_def queue_empty_def) (simp add: NewQueue_def)
qed (simp_all add: sample_state_def sample_outbox_def sample_worker_def no_fault_def)

text \<open>C3: a run of the worker against a table whose statements meet no fault returns without an
  error and settles its batch. It claims at most a batch of events; it calls the handler at most
  once for each claimed event and for no other; an event whose handler succeeded is delivered,
  every other claimed event is open again (waiting or dead-lettered), whether the handler failed
  or the queue or the limiter of its organization refused it; no other event changes; and the
  queue is empty again.\<close>

theorem run_settles_batch:
  assumes "ow_claim w = repo_claim rank" and "ow_ack w = repo_ack" and "ow_retry w = repo_retry"
    and "outbox_inv (rp_db (ws_repo s))" and "no_fault (ws_repo s)"
    and "\<forall>q. ws_queue s = Some q \<longrightarrow> queue_empty q"
    and "ow_WorkerID w \<noteq> []" and "0 < ow_BatchSize w"
  shows "\<exists>s' es r log. RunOnce w s = (Inr (), s') \<and>
    repo_claim rank (ws_repo s) (ow_WorkerID w) (ow_BatchSize w) = (Inr es, r) \<and> length es \<le> nat (ow_BatchSize w) \<and>
    ws_log s' = ws_log s @ log \<and> distinct (map (en_EventID \<circ> fst) log) \<and> fst ` set log \<subseteq> set es \<and>
    outbox_inv (rp_db (ws_repo s')) \<and> (\<forall>q. ws_queue s' = Some q \<longrightarrow> queue_empty q) \<and>
    repo_standing (ws_repo s') =
      (\<lambda>i. if \<exists>e. (e, None) \<in> set log \<and> en_EventID e = i then Done
           else if i \<in> en_EventID ` set es then Open else repo_standing (ws_repo s) i)"
proof -
  have b: "outbox_table.bound rank w" using assms(1-3) by (simp add: outbox_table.bound_def)
  from outbox_table_up.run_once_up [OF b assms(4-8)] obtain s' where r: "RunOnce w s = (Inr (), s')" by blast
  from outbox_table.run_once_spec [OF b assms(4,6) r] show ?thesis using r by blast
qed

theorem run_settles_batch_witness:
  "\<exists>s'. RunOnce sample_worker sample_state = (Inr (), s') \<and>
     map (\<lambda>p. (en_EventID (fst p), snd p)) (ws_log s') = [(''e1'', None), (''e3'', Some ''unreachable'')] \<and>
     map (repo_standing (ws_repo s')) [''e1'', ''e2'', ''e3'', ''e4''] = [Done, Open, Open, Missing]"
proof -
  have "\<exists>s'. RunOnce sample_worker sample_state = (Inr (), s')"
    using run_settles_batch [OF sample_ok(4-6,1-3,7,8)] by blast
  moreover have "map (\<lambda>p. (en_EventID (fst p), snd p)) (ws_log (snd (RunOnce sample_worker sample_state))) =
      [(''e1'', None), (''e3'', Some ''unreachable'')]"
    by code_simp
  moreover have "map (repo_standing (ws_repo (snd (RunOnce sample_worker sample_state)))) [''e1'', ''e2'', ''e3'', ''e4''] =
      [Done, Open, Open, Missing]"
    by code_simp
  ultimately show ?thesis by auto
qed

text \<open>A delivered event is final. In every history of the table, whatever workers, retries and
  operator replays do, a row that is delivered stays in the table unchanged, so no worker claims it
  again and no second event takes its identity or its idempotency key.\<close>

theorem delivered_is_final:
  assumes "ob_events db0 = []" and "db = foldl (outbox_step jv) db0 past" and "x \<in> set (ob_events db)"
    and "oe_Status x = OutboxStatusDelivered" and "later = foldl (outbox_step jv) db future"
  shows "x \<in> set (ob_events later) \<and> filter (\<lambda>y. en_EventID y = en_EventID x) (ob_events later) = [x] \<and>
    en_EventID x \<notin> set (claimed_ids later now locked limit) \<and> (\<forall>w. \<not> held w (en_EventID x) x) \<and> distinct (keyed (ob_events later))"
proof -
  have inv: "outbox_inv db" unfolding assms(2) by (rule outbox.invar_history) (use assms(1) in auto)
  have x: "x \<in> set (ob_events later)"
    using delivered_row_run [OF inv, of x jv future] assms(3-5) by (simp add: delivered_row_def)
  have later: "outbox_inv later" unfolding assms(5) by (rule outbox.invar_run [OF inv]) simp
  then have d: "distinct (map en_EventID (ob_events later))" "distinct (keyed (ob_events later))" by (simp_all add: outbox_inv_def)
  have "filter (\<lambda>y. en_EventID y = en_EventID x) xs = [x]" if "x \<in> set xs" "distinct (map en_EventID xs)" for xs
    using that by (induction xs) (auto simp: filter_empty_conv image_iff)
  moreover have "\<not> claimable now x" using assms(4) by (simp add: claimable_def outbox_status)
  then have "en_EventID x \<notin> set (claimed_ids later now locked limit)" using claimed_ids_claimable [OF d(1) x] by blast
  ultimately show ?thesis using x d assms(4) by (simp add: held_def outbox_status)
qed

definition sample_past :: "outbox_op list" where
  "sample_past = [OpEnqueue 1 (durable_event_envelope.truncate (sample_outbox_event ''e1'' ''a'')),
     OpClaim 2 (\<lambda>_. False) ''w1'' 5, OpAck 3 ''w1'' ''e1'']"

definition sample_future :: "outbox_op list" where
  "sample_future = [OpClaim 900 (\<lambda>_. False) ''w2'' 5, OpRetry 901 ''w1'' ''e1'' ''late'' 0, OpReplay 902 ''a'' ''e1'' ''root'',
     OpEnqueue 903 (durable_event_envelope.truncate (sample_outbox_event ''e1'' ''a''))]"

definition sample_delivered :: outbox_event where
  "sample_delivered = ack_row 3 (claim_row 2 ''w1'' (sample_outbox_event ''e1'' ''a''))"

theorem delivered_is_final_witness:
  "sample_delivered \<in> set (ob_events (foldl (outbox_step (\<lambda>_. True))
     (foldl (outbox_step (\<lambda>_. True)) (sample_outbox\<lparr>ob_events := []\<rparr>) sample_past) sample_future))"
proof -
  have x: "ob_events (foldl (outbox_step (\<lambda>_. True)) (sample_outbox\<lparr>ob_events := []\<rparr>) sample_past) = [sample_delivered]"
    by code_simp
  have "oe_Status sample_delivered = OutboxStatusDelivered" by code_simp
  then show ?thesis
    using delivered_is_final [OF _ refl _ _ refl, of "sample_outbox\<lparr>ob_events := []\<rparr>" sample_delivered "\<lambda>_. True" sample_past]
    by (simp add: x)
qed

end
