(* ===== verification/Assignment_Reducer.thy ===== *)
theory Assignment_Reducer
  imports Hub_Contract "HOL-Library.List_Lexorder" "HOL-Library.Char_ord"
begin

text \<open>
  The assignment reducer of a machine, \<open>backend/agent/assignment/reducer.go\<close>: it validates and
  applies the ordered log of assignment events of one machine and keeps the cumulative
  acknowledgement. The messages of the protocol are records; a timestamp is its seconds and
  nanoseconds with the validity check of the protocol library. The maps from sequence numbers and
  identities are partial functions; the map of assignments, over which the code ranges, is an
  association list. \<open>sha\<close> is \<open>sha256.Sum256\<close>.

  Shown here: in every history of events and acknowledgements the reducer is what replaying its
  retained log gives, a refused event changes nothing, applying a retained event again changes
  nothing, and acknowledgements never go back.
\<close>

section \<open>Messages\<close>

datatype assignment_event_type = EventUnspecified | EventCREATE | EventCONFIG_UPDATE | EventREMOVE | EventOther int

record assignment_config =
  cf_Revision :: string
  cf_PayloadReference :: string
  cf_PayloadDigest :: string

record assignment_cursor =
  cu_Sequence :: nat
  cu_EventId :: string
  cu_IdempotencyKey :: string

record timestamp =
  tm_Seconds :: int
  tm_Nanos :: int

record assignment_event =
  ae_MachineResourceId :: string
  ae_AgentResourceId :: string
  ae_Sequence :: nat
  ae_EventId :: string
  ae_IdempotencyKey :: string
  ae_EventType :: assignment_event_type
  ae_Config :: "assignment_config option"
  ae_CreatedAt :: "timestamp option"

record assignment_ack =
  ak_MachineResourceId :: string
  ak_AcknowledgedThrough :: "assignment_cursor option"

text \<open>\<open>CheckValid\<close>: years 1 to 9999, and a number of nanoseconds within a second.\<close>

definition CheckValid :: "timestamp \<Rightarrow> bool" where
  "CheckValid t \<longleftrightarrow>
     - 62135596800 \<le> tm_Seconds t \<and> tm_Seconds t \<le> 253402300799 \<and> 0 \<le> tm_Nanos t \<and> tm_Nanos t < second"

definition AsTime :: "timestamp \<Rightarrow> instant" where
  "AsTime t = (tm_Seconds t + 62135596800) * second + tm_Nanos t"

definition timestamp_of :: "instant \<Rightarrow> timestamp" where
  "timestamp_of t = \<lparr>tm_Seconds = t div second - 62135596800, tm_Nanos = t mod second\<rparr>"

lemma AsTime_timestamp_of [simp]: "AsTime (timestamp_of t) = t"
  by (simp add: AsTime_def timestamp_of_def)

lemma timestamp_of_AsTime: "CheckValid t \<Longrightarrow> timestamp_of (AsTime t) = t"
proof -
  assume "CheckValid t"
  then have "0 \<le> tm_Nanos t" "tm_Nanos t < second" by (simp_all add: CheckValid_def)
  then have "(x * second + tm_Nanos t) div second = x" "(x * second + tm_Nanos t) mod second = tm_Nanos t" for x
    by (simp_all add: second_def)
  then show ?thesis by (simp add: timestamp_of_def AsTime_def)
qed

lemma CheckValid_timestamp_of: "CheckValid (timestamp_of t) \<longleftrightarrow> 0 \<le> t \<and> t < 315537897600 * second"
  by (auto simp: CheckValid_def timestamp_of_def second_def)

section \<open>The reducer\<close>

datatype assignment_error =
    ErrInvalidEvent
  | ErrMachineMismatch
  | ErrSequenceGap
  | ErrSequenceRegression
  | ErrAckRegression
  | ErrAckMismatch
  | ErrAssignmentDatabase

record assignment =
  as_AgentResourceID :: string
  as_Config :: "assignment_config option"

record reducer =
  rd_machineResourceID :: string
  rd_lastSequence :: nat
  rd_lastAcknowledged :: "assignment_cursor option"
  rd_eventsBySequence :: "nat \<Rightarrow> assignment_event option"
  rd_eventIDs :: "string \<Rightarrow> nat option"
  rd_idempotencyKeys :: "string \<Rightarrow> nat option"
  rd_assignments :: "(string \<times> assignment) list"

definition NewReducer :: "string \<Rightarrow> reducer" where
  "NewReducer m =
     \<lparr>rd_machineResourceID = m, rd_lastSequence = 0, rd_lastAcknowledged = None, rd_eventsBySequence = Map.empty,
      rd_eventIDs = Map.empty, rd_idempotencyKeys = Map.empty, rd_assignments = []\<rparr>"

definition config_complete :: "assignment_config option \<Rightarrow> bool" where
  "config_complete c \<longleftrightarrow>
     (case c of None \<Rightarrow> False
      | Some cf \<Rightarrow> \<not> is_blank (cf_Revision cf) \<and> \<not> is_blank (cf_PayloadReference cf) \<and> \<not> is_blank (cf_PayloadDigest cf))"

definition validateEvent :: "assignment_event option \<Rightarrow> string \<Rightarrow> assignment_error + assignment_event" where
  "validateEvent event m =
     (case event of
        None \<Rightarrow> Inl ErrInvalidEvent
      | Some e \<Rightarrow>
          if is_blank m \<or> ae_MachineResourceId e \<noteq> m then Inl ErrMachineMismatch
          else if is_blank (ae_AgentResourceId e) \<or> is_blank (ae_EventId e) \<or> is_blank (ae_IdempotencyKey e) then Inl ErrInvalidEvent
          else if ae_Sequence e = 0 then Inl ErrInvalidEvent
          else if (case ae_CreatedAt e of None \<Rightarrow> True | Some t \<Rightarrow> \<not> CheckValid t) then Inl ErrInvalidEvent
          else
            (case ae_EventType e of
               EventCREATE \<Rightarrow> if config_complete (ae_Config e) then Inr e else Inl ErrInvalidEvent
             | EventCONFIG_UPDATE \<Rightarrow> if config_complete (ae_Config e) then Inr e else Inl ErrInvalidEvent
             | EventREMOVE \<Rightarrow> if ae_Config e = None then Inr e else Inl ErrInvalidEvent
             | _ \<Rightarrow> Inl ErrInvalidEvent))"

text \<open>The switch on the event type: the assignments after an event, if it fits them.\<close>

definition apply_assignment :: "(string \<times> assignment) list \<Rightarrow> assignment_event \<Rightarrow> (string \<times> assignment) list option" where
  "apply_assignment as e =
     (let i = ae_AgentResourceId e; a = \<lparr>as_AgentResourceID = i, as_Config = ae_Config e\<rparr> in
      case ae_EventType e of
        EventCREATE \<Rightarrow> if map_of as i \<noteq> None then None else Some (assoc_set i a as)
      | EventCONFIG_UPDATE \<Rightarrow> if map_of as i = None then None else Some (assoc_set i a as)
      | EventREMOVE \<Rightarrow> if map_of as i = None then None else Some (assoc_del i as)
      | _ \<Rightarrow> None)"

definition taken :: "(string \<Rightarrow> nat option) \<Rightarrow> string \<Rightarrow> nat \<Rightarrow> bool" where
  "taken m k n \<longleftrightarrow> (case m k of None \<Rightarrow> False | Some p \<Rightarrow> p \<noteq> n)"

definition ApplyEvent :: "reducer \<Rightarrow> assignment_event option \<Rightarrow> (assignment_error + unit) \<times> reducer" where
  "ApplyEvent r event =
     (case validateEvent event (rd_machineResourceID r) of
        Inl err \<Rightarrow> (Inl err, r)
      | Inr e \<Rightarrow>
          let n = ae_Sequence e in
          if n \<le> rd_lastSequence r then
            (case rd_eventsBySequence r n of
               None \<Rightarrow> (Inl ErrSequenceRegression, r)
             | Some previous \<Rightarrow> if previous \<noteq> e then (Inl ErrInvalidEvent, r) else (Inr (), r))
          else if n \<noteq> u64 (rd_lastSequence r + 1) then (Inl ErrSequenceGap, r)
          else if taken (rd_eventIDs r) (ae_EventId e) n then (Inl ErrInvalidEvent, r)
          else if taken (rd_idempotencyKeys r) (ae_IdempotencyKey e) n then (Inl ErrInvalidEvent, r)
          else
            (case apply_assignment (rd_assignments r) e of
               None \<Rightarrow> (Inl ErrInvalidEvent, r)
             | Some as \<Rightarrow>
                 (Inr (), r\<lparr>rd_assignments := as,
                            rd_eventsBySequence := (rd_eventsBySequence r)(n \<mapsto> e),
                            rd_eventIDs := (rd_eventIDs r)(ae_EventId e \<mapsto> n),
                            rd_idempotencyKeys := (rd_idempotencyKeys r)(ae_IdempotencyKey e \<mapsto> n),
                            rd_lastSequence := n\<rparr>)))"

fun ApplyReplay :: "reducer \<Rightarrow> assignment_event option list \<Rightarrow> (assignment_error + unit) \<times> reducer" where
  "ApplyReplay r [] = (Inr (), r)"
| "ApplyReplay r (e # es) =
     (case ApplyEvent r e of
        (Inl err, r') \<Rightarrow> (Inl err, r')
      | (Inr _, r') \<Rightarrow> ApplyReplay r' es)"

definition Acknowledge_check :: "reducer \<Rightarrow> assignment_cursor \<Rightarrow> assignment_error option" where
  "Acknowledge_check r c =
     (if cu_Sequence c = 0 then
        if rd_lastSequence r \<noteq> 0 then Some ErrAckMismatch
        else if cu_EventId c \<noteq> [] \<or> cu_IdempotencyKey c \<noteq> [] then Some ErrAckMismatch else None
      else if cu_Sequence c > rd_lastSequence r then Some ErrAckMismatch
      else
        (case rd_eventsBySequence r (cu_Sequence c) of
           None \<Rightarrow> Some ErrAckMismatch
         | Some e \<Rightarrow>
             if ae_EventId e \<noteq> cu_EventId c \<or> ae_IdempotencyKey e \<noteq> cu_IdempotencyKey c then Some ErrAckMismatch else None))"

definition AcknowledgeAssignment :: "reducer \<Rightarrow> assignment_ack option \<Rightarrow> (assignment_error + unit) \<times> reducer" where
  "AcknowledgeAssignment r ack =
     (case ack of
        None \<Rightarrow> (Inl ErrInvalidEvent, r)
      | Some a \<Rightarrow>
          if is_blank (ak_MachineResourceId a) then (Inl ErrInvalidEvent, r)
          else if ak_MachineResourceId a \<noteq> rd_machineResourceID r then (Inl ErrMachineMismatch, r)
          else
            (case ak_AcknowledgedThrough a of
               None \<Rightarrow> (Inl ErrInvalidEvent, r)
             | Some c \<Rightarrow>
                 (case Acknowledge_check r c of
                    Some err \<Rightarrow> (Inl err, r)
                  | None \<Rightarrow>
                      (case rd_lastAcknowledged r of
                         None \<Rightarrow> (Inr (), r\<lparr>rd_lastAcknowledged := Some c\<rparr>)
                       | Some p \<Rightarrow>
                           if cu_Sequence c < cu_Sequence p then (Inl ErrAckRegression, r)
                           else if cu_Sequence c = cu_Sequence p \<and> p \<noteq> c then (Inl ErrAckMismatch, r)
                           else (Inr (), r\<lparr>rd_lastAcknowledged := Some c\<rparr>)))))"

definition Assignment :: "reducer \<Rightarrow> string \<Rightarrow> assignment option" where
  "Assignment r i = map_of (rd_assignments r) i"

definition ActiveAssignments :: "reducer \<Rightarrow> (string \<times> assignment) list" where
  "ActiveAssignments r = rd_assignments r"

definition ActiveAgentIDs :: "reducer \<Rightarrow> string list" where
  "ActiveAgentIDs r = sort (map fst (rd_assignments r))"

definition roster_entry :: "(string \<Rightarrow> string option) \<Rightarrow> string \<Rightarrow> string" where
  "roster_entry revision i = i @ ''='' @ (case revision i of None \<Rightarrow> [] | Some v \<Rightarrow> v) @ '';''"

definition FullRosterRevision :: "(string \<Rightarrow> string) \<Rightarrow> reducer \<Rightarrow> string" where
  "FullRosterRevision sha r =
     ''sha256:'' @ hex_encode (sha (concat (map
       (roster_entry (\<lambda>i. case map_of (rd_assignments r) i of None \<Rightarrow> None
                         | Some a \<Rightarrow> map_option cf_Revision (as_Config a)))
       (ActiveAgentIDs r))))"

section \<open>Histories\<close>

datatype reducer_op = OpApply "assignment_event option" | OpAcknowledge "assignment_ack option"

fun reducer_step :: "reducer \<Rightarrow> reducer_op \<Rightarrow> reducer" where
  "reducer_step r (OpApply e) = snd (ApplyEvent r e)"
| "reducer_step r (OpAcknowledge a) = snd (AcknowledgeAssignment r a)"

text \<open>The reducer without its acknowledgement, and the log it retains.\<close>

abbreviation core :: "reducer \<Rightarrow> reducer" where
  "core r \<equiv> r\<lparr>rd_lastAcknowledged := None\<rparr>"

definition retained :: "reducer \<Rightarrow> assignment_event option list" where
  "retained r = map (rd_eventsBySequence r) [1..<Suc (rd_lastSequence r)]"

definition ack_sequence :: "reducer \<Rightarrow> nat" where
  "ack_sequence r = (case rd_lastAcknowledged r of None \<Rightarrow> 0 | Some c \<Rightarrow> cu_Sequence c)"

lemma ApplyReplay_append:
  "ApplyReplay r (xs @ ys) = (case ApplyReplay r xs of (Inl e, r') \<Rightarrow> (Inl e, r') | (Inr _, r') \<Rightarrow> ApplyReplay r' ys)"
  by (induction xs arbitrary: r) (auto split: prod.split sum.split)

lemma ApplyEvent_error: "ApplyEvent r e = (Inl err, r') \<Longrightarrow> r' = r"
  by (auto simp: ApplyEvent_def Let_def split: sum.splits if_splits option.splits)

lemma validateEvent_event: "validateEvent e m = Inr x \<Longrightarrow> e = Some x \<and> 0 < ae_Sequence x"
  by (auto simp: validateEvent_def split: option.splits if_splits assignment_event_type.splits)

lemma next_sequence: "m < n \<Longrightarrow> n = u64 (m + 1) \<Longrightarrow> n = Suc m \<and> n \<le> max_u64"
  by (cases "m + 1 \<le> max_u64") (auto simp: u64_def mod_if split: if_splits)

text \<open>An event that is applied is one the reducer has, or the next one.\<close>

lemma ApplyEvent_success:
  assumes "ApplyEvent r e = (Inr (), r')"
  obtains (again) x where "e = Some x" "rd_eventsBySequence r (ae_Sequence x) = Some x" "r' = r"
    | (new) x as where "e = Some x" "ae_Sequence x = Suc (rd_lastSequence r)" "Suc (rd_lastSequence r) \<le> max_u64"
        "validateEvent (Some x) (rd_machineResourceID r) = Inr x" "apply_assignment (rd_assignments r) x = Some as"
        "r' = r\<lparr>rd_assignments := as, rd_eventsBySequence := (rd_eventsBySequence r)(ae_Sequence x \<mapsto> x),
               rd_eventIDs := (rd_eventIDs r)(ae_EventId x \<mapsto> ae_Sequence x),
               rd_idempotencyKeys := (rd_idempotencyKeys r)(ae_IdempotencyKey x \<mapsto> ae_Sequence x),
               rd_lastSequence := ae_Sequence x\<rparr>"
proof -
  from assms obtain x where x: "validateEvent e (rd_machineResourceID r) = Inr x"
    by (auto simp: ApplyEvent_def split: sum.splits)
  then have e: "e = Some x" using validateEvent_event by blast
  show ?thesis
  proof (cases "ae_Sequence x \<le> rd_lastSequence r")
    case True
    then show ?thesis using assms x e by (intro again [of x]) (auto simp: ApplyEvent_def Let_def split: option.splits if_splits)
  next
    case False
    with assms x obtain as where n: "ae_Sequence x = u64 (rd_lastSequence r + 1)"
      and as: "apply_assignment (rd_assignments r) x = Some as"
      and r': "r' = r\<lparr>rd_assignments := as, rd_eventsBySequence := (rd_eventsBySequence r)(ae_Sequence x \<mapsto> x),
               rd_eventIDs := (rd_eventIDs r)(ae_EventId x \<mapsto> ae_Sequence x),
               rd_idempotencyKeys := (rd_idempotencyKeys r)(ae_IdempotencyKey x \<mapsto> ae_Sequence x),
               rd_lastSequence := ae_Sequence x\<rparr>"
      by (auto simp: ApplyEvent_def Let_def simp del: One_nat_def split: option.splits if_splits)
    from next_sequence [OF _ n] False have "ae_Sequence x = Suc (rd_lastSequence r) \<and> ae_Sequence x \<le> max_u64" by simp
    then show ?thesis using new [OF e _ _ _ as r'] x e by simp
  qed
qed

lemma ApplyEvent_core: "ApplyEvent (core r) e = apsnd (\<lambda>x. core x) (ApplyEvent r e)"
  by (simp add: ApplyEvent_def Let_def split: sum.split option.split)

definition reducer_inv :: "reducer \<Rightarrow> bool" where
  "reducer_inv r \<longleftrightarrow>
     rd_lastSequence r \<le> max_u64 \<and>
     (\<forall>n. rd_eventsBySequence r n \<noteq> None \<longleftrightarrow> 1 \<le> n \<and> n \<le> rd_lastSequence r) \<and>
     (\<forall>n e. rd_eventsBySequence r n = Some e \<longrightarrow>
        ae_Sequence e = n \<and> validateEvent (Some e) (rd_machineResourceID r) = Inr e) \<and>
     ApplyReplay (NewReducer (rd_machineResourceID r)) (retained r) = (Inr (), core r) \<and>
     ack_sequence r \<le> rd_lastSequence r"

lemma reducer_inv_new: "reducer_inv (NewReducer m)"
  by (simp add: reducer_inv_def NewReducer_def retained_def ack_sequence_def)

lemma reducer_inv_apply:
  assumes "reducer_inv r"
  shows "reducer_inv (snd (ApplyEvent r e))"
proof (cases "ApplyEvent r e")
  case (Pair res r')
  show ?thesis
  proof (cases res)
    case (Inl err)
    then show ?thesis using Pair ApplyEvent_error assms by fastforce
  next
    case (Inr u)
    then have ok: "ApplyEvent r e = (Inr (), r')" using Pair by simp
    then show ?thesis
    proof (cases rule: ApplyEvent_success)
      case again
      then show ?thesis using ok assms by simp
    next
      case (new x as)
      have m: "rd_machineResourceID r' = rd_machineResourceID r" "rd_lastSequence r' = Suc (rd_lastSequence r)"
        "rd_eventsBySequence r' = (rd_eventsBySequence r)(Suc (rd_lastSequence r) \<mapsto> x)"
        "ack_sequence r' = ack_sequence r" using new(2,6) by (simp_all add: ack_sequence_def)
      have "map (rd_eventsBySequence r') [1..<Suc (rd_lastSequence r)] = map (rd_eventsBySequence r) [1..<Suc (rd_lastSequence r)]"
        by (simp add: m(3))
      then have "retained r' = retained r @ [Some x]" unfolding retained_def m(2) by (simp add: m(3))
      moreover have "ApplyEvent (core r) (Some x) = (Inr (), core r')" using ok new(1) by (simp add: ApplyEvent_core)
      ultimately have "ApplyReplay (NewReducer (rd_machineResourceID r)) (retained r') = (Inr (), core r')"
        using assms by (simp add: reducer_inv_def ApplyReplay_append)
      then show ?thesis
        using assms new(2-4) ok unfolding reducer_inv_def by (auto simp: m)
    qed
  qed
qed

lemma Acknowledge_result:
  assumes "AcknowledgeAssignment r a = (res, r')"
  shows "r' = r \<or> (\<exists>c. r' = r\<lparr>rd_lastAcknowledged := Some c\<rparr> \<and> ack_sequence r \<le> cu_Sequence c \<and> cu_Sequence c \<le> rd_lastSequence r)"
proof -
  have "cu_Sequence c \<le> rd_lastSequence r" if "Acknowledge_check r c = None" for c
    using that by (auto simp: Acknowledge_check_def split: if_splits)
  then show ?thesis
    using assms by (auto simp: AcknowledgeAssignment_def ack_sequence_def split: option.splits if_splits)
qed

lemma reducer_inv_ack:
  assumes "reducer_inv r"
  shows "reducer_inv (snd (AcknowledgeAssignment r a))"
proof -
  obtain res r' where a: "AcknowledgeAssignment r a = (res, r')" by (cases "AcknowledgeAssignment r a")
  from Acknowledge_result [OF a] show ?thesis
    using assms a by (auto simp: reducer_inv_def retained_def ack_sequence_def)
qed

interpretation reducer: component reducer_step reducer_inv "\<lambda>_. True" "\<lambda>r. \<exists>m. r = NewReducer m"
proof unfold_locales
  show "reducer_inv s" if "\<exists>m. s = NewReducer m" for s using that reducer_inv_new by blast
  show "reducer_inv (reducer_step s e)" if "reducer_inv s" for s e
    using that by (cases e) (simp_all add: reducer_inv_apply reducer_inv_ack)
qed

text \<open>A retained event stays and is a duplicate from then on; acknowledgements do not go back.\<close>

definition extends :: "reducer \<Rightarrow> reducer \<Rightarrow> bool" where
  "extends r r' \<longleftrightarrow>
     rd_machineResourceID r' = rd_machineResourceID r \<and> rd_lastSequence r \<le> rd_lastSequence r' \<and> ack_sequence r \<le> ack_sequence r' \<and>
     (\<forall>n e. rd_eventsBySequence r n = Some e \<longrightarrow> rd_eventsBySequence r' n = Some e)"

lemma extends_step:
  assumes "reducer_inv r"
  shows "extends r (reducer_step r op)"
proof (cases op)
  case (OpApply e)
  show ?thesis
  proof (cases "ApplyEvent r e")
    case (Pair res r')
    show ?thesis
    proof (cases res)
      case (Inl err)
      then show ?thesis using OpApply Pair ApplyEvent_error by (fastforce simp: extends_def)
    next
      case (Inr u)
      then have ok: "ApplyEvent r e = (Inr (), r')" using Pair by simp
      then show ?thesis
      proof (cases rule: ApplyEvent_success)
        case again
        then show ?thesis using OpApply ok by (simp add: extends_def)
      next
        case (new x as)
        have "rd_eventsBySequence r (Suc (rd_lastSequence r)) = None"
          using assms by (metis Suc_n_not_le_n reducer_inv_def)
        then show ?thesis using OpApply ok new by (auto simp: extends_def ack_sequence_def)
      qed
    qed
  qed
next
  case (OpAcknowledge a)
  obtain res r' where a: "AcknowledgeAssignment r a = (res, r')" by (cases "AcknowledgeAssignment r a")
  from Acknowledge_result [OF a] show ?thesis using OpAcknowledge a by (auto simp: extends_def ack_sequence_def)
qed

lemma extends_run: "reducer_inv r \<Longrightarrow> extends r (foldl reducer_step r ops)"
proof (rule reducer.monotone_run [where R = extends])
  show "extends a c" if "extends a b" "extends b c" for a b c using that unfolding extends_def by (metis order_trans)
  show "extends a a" for a by (simp add: extends_def)
  show "extends s (reducer_step s e)" if "reducer_inv s" for s e using that by (rule extends_step)
qed auto

lemma retained_again:
  assumes "reducer_inv r" and "rd_eventsBySequence r n = Some e"
  shows "ApplyEvent r (Some e) = (Inr (), r)"
proof -
  have "ae_Sequence e = n" "validateEvent (Some e) (rd_machineResourceID r) = Inr e" "n \<le> rd_lastSequence r"
    using assms by (auto simp: reducer_inv_def)
  then show ?thesis using assms(2) by (simp add: ApplyEvent_def)
qed

section \<open>Properties\<close>

text \<open>C17: the reducer is its log. In every history of events and acknowledgements, whatever was refused
  in between, the events it retains are numbered from 1 to the last sequence without a gap;
  replaying them into a new reducer gives the same reducer, but for the acknowledgement; applying a
  retained event again changes nothing, and so does every event that is refused; whatever happens
  later, the retained events stay and neither the last sequence nor the acknowledgement goes
  back.\<close>

theorem reducer_is_its_log:
  assumes "r = foldl reducer_step (NewReducer m) ops"
  shows "ApplyReplay (NewReducer m) (retained r) = (Inr (), core r) \<and>
    (\<forall>n. rd_eventsBySequence r n \<noteq> None \<longleftrightarrow> 1 \<le> n \<and> n \<le> rd_lastSequence r) \<and>
    (\<forall>n e. rd_eventsBySequence r n = Some e \<longrightarrow> ae_Sequence e = n \<and> ApplyEvent r (Some e) = (Inr (), r)) \<and>
    (\<forall>e err r'. ApplyEvent r e = (Inl err, r') \<longrightarrow> r' = r) \<and>
    extends r (foldl reducer_step r later)"
proof -
  have inv: "reducer_inv r" unfolding assms by (rule reducer.invar_history) auto
  have "extends (NewReducer m) r" unfolding assms by (rule extends_run) (rule reducer_inv_new)
  then have "rd_machineResourceID r = m" by (simp add: extends_def NewReducer_def)
  then show ?thesis
    using inv extends_run [OF inv, of later] retained_again [OF inv] ApplyEvent_error [of r]
    unfolding reducer_inv_def by blast
qed

definition sample_config :: "string \<Rightarrow> assignment_config" where
  "sample_config v = \<lparr>cf_Revision = v, cf_PayloadReference = ''ref'', cf_PayloadDigest = ''digest''\<rparr>"

definition sample_assignment :: "nat \<Rightarrow> string \<Rightarrow> assignment_event_type \<Rightarrow> string \<Rightarrow> assignment_event" where
  "sample_assignment n agent ty v =
     \<lparr>ae_MachineResourceId = ''m'', ae_AgentResourceId = agent, ae_Sequence = n, ae_EventId = ''e'' @ show_nat n,
      ae_IdempotencyKey = ''k'' @ show_nat n, ae_EventType = ty,
      ae_Config = (if ty = EventREMOVE then None else Some (sample_config v)), ae_CreatedAt = Some \<lparr>tm_Seconds = 0, tm_Nanos = 0\<rparr>\<rparr>"

definition sample_reducer_ops :: "reducer_op list" where
  "sample_reducer_ops =
     [OpApply (Some (sample_assignment 1 ''a'' EventCREATE ''v1'')), OpApply (Some (sample_assignment 3 ''b'' EventCREATE ''v1'')),
      OpApply (Some (sample_assignment 2 ''b'' EventREMOVE ''v1'')), OpApply (Some (sample_assignment 1 ''a'' EventCREATE ''v1'')),
      OpApply (Some (sample_assignment 2 ''a'' EventCONFIG_UPDATE ''v2''))]"

theorem reducer_is_its_log_witness:
  "ApplyReplay (NewReducer ''m'')
      [Some (sample_assignment 1 ''a'' EventCREATE ''v1''), Some (sample_assignment 2 ''a'' EventCONFIG_UPDATE ''v2'')] =
    (Inr (), core (foldl reducer_step (NewReducer ''m'') sample_reducer_ops)) \<and>
   rd_assignments (foldl reducer_step (NewReducer ''m'') sample_reducer_ops) =
    [(''a'', \<lparr>as_AgentResourceID = ''a'', as_Config = Some (sample_config ''v2'')\<rparr>)]"
proof -
  have 1: "retained (foldl reducer_step (NewReducer ''m'') sample_reducer_ops) =
      [Some (sample_assignment 1 ''a'' EventCREATE ''v1''), Some (sample_assignment 2 ''a'' EventCONFIG_UPDATE ''v2'')]"
    by code_simp
  have 2: "rd_assignments (foldl reducer_step (NewReducer ''m'') sample_reducer_ops) =
      [(''a'', \<lparr>as_AgentResourceID = ''a'', as_Config = Some (sample_config ''v2'')\<rparr>)]"
    by code_simp
  show ?thesis using reducer_is_its_log [OF refl, of "''m''" sample_reducer_ops] 1 2 by simp
qed

end
