(* ===== verification/Assignment_Log.thy ===== *)
theory Assignment_Log
  imports Outbox Assignment_Reducer
begin

text \<open>
  The manager's side of machine assignments, \<open>backend/manager/store/machine_assignment.go\<close>: the
  durable log of assignment events per machine, its state row, replay and acknowledgement. A
  transaction is one function: it commits as a whole or leaves the tables as they were. The outbox
  row of an event goes into the table of theory \<open>Outbox\<close>. Arguments: \<open>sha\<close> is \<open>sha256.Sum256\<close>,
  \<open>micro\<close> the resolution of a timestamp column, \<open>encode\<close> the JSON payload made of an event and a
  sequence number, and the clock; a database may fail at any statement.

  Shown here: in every history the events of a machine are numbered without gaps and the state row
  has their number and the revision of their roster; recording an event again returns the first
  recording; acknowledgements do not go back.
\<close>

section \<open>Rows\<close>

record assignment_row =
  ar_machine_resource_id :: string
  ar_sequence :: nat
  ar_event_id :: string
  ar_idempotency_key :: string
  ar_agent_resource_id :: string
  ar_event_type :: string
  ar_config_revision :: string
  ar_config_payload_reference :: string
  ar_config_payload_digest :: string
  ar_created_at :: instant

record machine_assignment_state =
  ms_HighWatermark :: nat
  ms_LastAckSequence :: nat
  ms_LastAckEventID :: string
  ms_LastAckIdempotencyKey :: string
  ms_FullRosterRevision :: string
  ms_UpdatedAt :: instant

datatype assignment_stmt =
    StmtBegin | StmtLookup | StmtMax | StmtInsert | StmtList | StmtState | StmtMachine | StmtOutbox | StmtCommit

record assignment_db =
  ad_events :: "assignment_row list"
  ad_states :: "(string \<times> machine_assignment_state) list"
  ad_machine_org :: "string \<Rightarrow> string option"
  ad_outbox :: outbox_db
  ad_fault :: "assignment_stmt \<Rightarrow> bool"

definition eventTypeToString :: "assignment_event_type \<Rightarrow> string" where
  "eventTypeToString t =
     (case t of EventCREATE \<Rightarrow> ''CREATE'' | EventCONFIG_UPDATE \<Rightarrow> ''CONFIG_UPDATE'' | EventREMOVE \<Rightarrow> ''REMOVE'' | _ \<Rightarrow> [])"

definition stringToEventType :: "string \<Rightarrow> assignment_event_type" where
  "stringToEventType s =
     (if s = ''CREATE'' then EventCREATE else if s = ''CONFIG_UPDATE'' then EventCONFIG_UPDATE
      else if s = ''REMOVE'' then EventREMOVE else EventUnspecified)"

lemma stringToEventType_inverse: "eventTypeToString t \<noteq> [] \<Longrightarrow> stringToEventType (eventTypeToString t) = t"
  by (cases t) (simp_all add: eventTypeToString_def stringToEventType_def)

definition buildAssignmentEventProto ::
  "string \<Rightarrow> nat \<Rightarrow> string \<Rightarrow> string \<Rightarrow> string \<Rightarrow> assignment_event_type \<Rightarrow> string \<Rightarrow> string \<Rightarrow> string \<Rightarrow> instant \<Rightarrow> assignment_event" where
  "buildAssignmentEventProto m n i k a ty rv rf dg t =
     \<lparr>ae_MachineResourceId = m, ae_AgentResourceId = a, ae_Sequence = n, ae_EventId = i, ae_IdempotencyKey = k,
      ae_EventType = ty,
      ae_Config = (if rv \<noteq> [] \<or> rf \<noteq> [] \<or> dg \<noteq> []
                   then Some \<lparr>cf_Revision = rv, cf_PayloadReference = rf, cf_PayloadDigest = dg\<rparr> else None),
      ae_CreatedAt = Some (timestamp_of t)\<rparr>"

definition event_of_row :: "assignment_row \<Rightarrow> assignment_event" where
  "event_of_row r =
     buildAssignmentEventProto (ar_machine_resource_id r) (ar_sequence r) (ar_event_id r) (ar_idempotency_key r)
       (ar_agent_resource_id r) (stringToEventType (ar_event_type r)) (ar_config_revision r)
       (ar_config_payload_reference r) (ar_config_payload_digest r) (ar_created_at r)"

definition listMachineAssignmentEventsTx :: "assignment_db \<Rightarrow> string \<Rightarrow> nat \<Rightarrow> int \<Rightarrow> assignment_event list" where
  "listMachineAssignmentEventsTx db m after limit =
     (let rows = sort_key ar_sequence (filter (\<lambda>r. ar_machine_resource_id r = m \<and> ar_sequence r > after) (ad_events db)) in
      map event_of_row (if limit > 0 then take (nat limit) rows else rows))"

definition roster_update :: "(string \<times> string) list \<Rightarrow> assignment_event \<Rightarrow> (string \<times> string) list" where
  "roster_update active e =
     (case ae_EventType e of
        EventCREATE \<Rightarrow> (case ae_Config e of None \<Rightarrow> active | Some c \<Rightarrow> assoc_set (ae_AgentResourceId e) (cf_Revision c) active)
      | EventCONFIG_UPDATE \<Rightarrow> (case ae_Config e of None \<Rightarrow> active | Some c \<Rightarrow> assoc_set (ae_AgentResourceId e) (cf_Revision c) active)
      | EventREMOVE \<Rightarrow> assoc_del (ae_AgentResourceId e) active
      | _ \<Rightarrow> active)"

definition ComputeFullRosterRevision :: "(string \<Rightarrow> string) \<Rightarrow> assignment_event list \<Rightarrow> string" where
  "ComputeFullRosterRevision sha events =
     (let active = foldl roster_update [] events in
      ''sha256:'' @ hex_encode (sha (concat (map (roster_entry (map_of active)) (sort (map fst active))))))"

section \<open>Recording\<close>

definition config_columns :: "assignment_event \<Rightarrow> (assignment_error + string \<times> string \<times> string)" where
  "config_columns e =
     (if ae_EventType e = EventCREATE \<or> ae_EventType e = EventCONFIG_UPDATE then
        (case ae_Config e of
           None \<Rightarrow> Inl ErrInvalidEvent
         | Some c \<Rightarrow>
             if config_complete (Some c) then Inr (cf_Revision c, cf_PayloadReference c, cf_PayloadDigest c)
             else Inl ErrInvalidEvent)
      else if ae_EventType e = EventREMOVE then
        (if ae_Config e \<noteq> None then Inl ErrInvalidEvent else Inr ([], [], []))
      else Inr ([], [], []))"

definition max_sequence :: "assignment_db \<Rightarrow> string \<Rightarrow> nat" where
  "max_sequence db m = foldl max 0 (map ar_sequence (filter (\<lambda>r. ar_machine_resource_id r = m) (ad_events db)))"

definition sequence_error :: "nat \<Rightarrow> nat \<Rightarrow> assignment_error option" where
  "sequence_error asked maxSeq =
     (if asked > 0 then
        if asked \<le> maxSeq then Some ErrSequenceRegression
        else if asked \<noteq> u64 (maxSeq + 1) then Some ErrSequenceGap else None
      else None)"

text \<open>The upsert of the state row of a machine.\<close>

definition upsert_watermark :: "instant \<Rightarrow> string \<Rightarrow> nat \<Rightarrow> string \<Rightarrow> (string \<times> machine_assignment_state) list
    \<Rightarrow> (string \<times> machine_assignment_state) list" where
  "upsert_watermark now m n rv states =
     assoc_set m
       (case map_of states m of
          None \<Rightarrow> \<lparr>ms_HighWatermark = n, ms_LastAckSequence = 0, ms_LastAckEventID = [], ms_LastAckIdempotencyKey = [],
                   ms_FullRosterRevision = rv, ms_UpdatedAt = now\<rparr>
        | Some st \<Rightarrow> st\<lparr>ms_HighWatermark := n, ms_FullRosterRevision := rv, ms_UpdatedAt := now\<rparr>) states"

definition assignment_envelope :: "string \<Rightarrow> string \<Rightarrow> string \<Rightarrow> string \<Rightarrow> string \<Rightarrow> string \<Rightarrow> instant \<Rightarrow> durable_event_envelope" where
  "assignment_envelope org m i k ty payload now =
     \<lparr>en_EventID = ''machine-assignment/'' @ m @ ''/'' @ i, en_Organization = org, en_AggregateType = ''machine_assignment'',
      en_AggregateID = m, en_EventType = ''MACHINE_ASSIGNMENT_'' @ ty, en_CorrelationID = i,
      en_IdempotencyKey = ''machine-assignment/'' @ m @ ''/'' @ k, en_Payload = payload, en_MaxAttempts = 5, en_AvailableAt = now\<rparr>"

text \<open>\<open>INSERT ... ON CONFLICT (event_id) DO NOTHING\<close>; another key that is taken, or an organization
  that is missing, is an error.\<close>

definition outbox_insert :: "outbox_db \<Rightarrow> instant \<Rightarrow> durable_event_envelope \<Rightarrow> outbox_db option" where
  "outbox_insert ob now e =
     (if \<exists>x\<in>set (ob_events ob). en_EventID x = en_EventID e then Some ob
      else if (\<exists>x\<in>set (ob_events ob). en_Organization x = en_Organization e \<and> en_IdempotencyKey x = en_IdempotencyKey e) \<or>
         \<not> ob_orgs ob (en_Organization e) then None
      else Some (ob\<lparr>ob_events := ob_events ob @ [new_row now e]\<rparr>))"

definition same_event :: "assignment_row \<Rightarrow> string \<Rightarrow> string \<Rightarrow> string \<Rightarrow> string \<Rightarrow> string \<times> string \<times> string \<Rightarrow> bool" where
  "same_event r i k a ty cols \<longleftrightarrow>
     ar_event_id r = i \<and> ar_idempotency_key r = k \<and> ar_agent_resource_id r = a \<and> ar_event_type r = ty \<and>
     (ar_config_revision r, ar_config_payload_reference r, ar_config_payload_digest r) = cols"

definition created_at :: "instant \<Rightarrow> assignment_event \<Rightarrow> instant" where
  "created_at now e = (case ae_CreatedAt e of None \<Rightarrow> now | Some t \<Rightarrow> if CheckValid t then AsTime t else now)"

definition assignment_new_row ::
  "string \<Rightarrow> nat \<Rightarrow> string \<Rightarrow> string \<Rightarrow> string \<Rightarrow> string \<Rightarrow> string \<times> string \<times> string \<Rightarrow> instant \<Rightarrow> assignment_row" where
  "assignment_new_row m n i k a ty cols t =
     (case cols of (rv, rf, dg) \<Rightarrow>
      \<lparr>ar_machine_resource_id = m, ar_sequence = n, ar_event_id = i, ar_idempotency_key = k,
       ar_agent_resource_id = a, ar_event_type = ty, ar_config_revision = rv, ar_config_payload_reference = rf,
       ar_config_payload_digest = dg, ar_created_at = t\<rparr>)"

text \<open>The writes of a new event, after the checks.\<close>

definition record_new ::
  "(string \<Rightarrow> string) \<Rightarrow> (instant \<Rightarrow> instant) \<Rightarrow> (assignment_event \<Rightarrow> nat \<Rightarrow> string) \<Rightarrow> assignment_db \<Rightarrow> instant \<Rightarrow> assignment_event
     \<Rightarrow> string \<Rightarrow> string \<Rightarrow> string \<Rightarrow> string \<Rightarrow> string \<times> string \<times> string \<Rightarrow> (assignment_error + assignment_event) \<times> assignment_db" where
  "record_new sha micro encode db now e m i k a cols =
     (case cols of (rv, rf, dg) \<Rightarrow>
      let n = u64 (max_sequence db m + 1); ty = eventTypeToString (ae_EventType e); t = created_at now e;
          db1 = db\<lparr>ad_events := ad_events db @ [assignment_new_row m n i k a ty cols (micro t)]\<rparr>;
          rev = ComputeFullRosterRevision sha (listMachineAssignmentEventsTx db1 m 0 0) in
      if ad_fault db StmtInsert \<or> ad_fault db StmtList \<or> ad_fault db StmtState \<or> ad_fault db StmtMachine \<or>
         ad_fault db StmtOutbox \<or> ad_fault db StmtCommit \<or> \<not> is_i64 (int n) then (Inl ErrAssignmentDatabase, db)
      else
        (case ad_machine_org db m of
           None \<Rightarrow> (Inl ErrAssignmentDatabase, db)
         | Some org \<Rightarrow>
             (case outbox_insert (ad_outbox db) now (assignment_envelope org m i k ty (encode e n) now) of
                None \<Rightarrow> (Inl ErrAssignmentDatabase, db)
              | Some ob \<Rightarrow>
                  (Inr (buildAssignmentEventProto m n i k a (ae_EventType e) rv rf dg t),
                   db1\<lparr>ad_states := upsert_watermark now m n rev (ad_states db), ad_outbox := ob\<rparr>))))"

definition RecordMachineAssignmentEvent ::
  "(string \<Rightarrow> string) \<Rightarrow> (instant \<Rightarrow> instant) \<Rightarrow> (assignment_event \<Rightarrow> nat \<Rightarrow> string) \<Rightarrow> assignment_db \<Rightarrow> instant \<Rightarrow> assignment_event option
     \<Rightarrow> (assignment_error + assignment_event) \<times> assignment_db" where
  "RecordMachineAssignmentEvent sha micro encode db now event =
     (case event of
        None \<Rightarrow> (Inl ErrInvalidEvent, db)
      | Some e \<Rightarrow>
          let m = trim_space (ae_MachineResourceId e); a = trim_space (ae_AgentResourceId e);
              i = trim_space (ae_EventId e); k = trim_space (ae_IdempotencyKey e);
              ty = eventTypeToString (ae_EventType e) in
          if m = [] \<or> a = [] \<or> i = [] \<or> k = [] then (Inl ErrInvalidEvent, db)
          else if ty = [] then (Inl ErrInvalidEvent, db)
          else
            (case config_columns e of
               Inl err \<Rightarrow> (Inl err, db)
             | Inr cols \<Rightarrow>
                 if ad_fault db StmtBegin \<or> ad_fault db StmtLookup then (Inl ErrAssignmentDatabase, db)
                 else
                   (case find (\<lambda>r. ar_machine_resource_id r = m \<and> (ar_event_id r = i \<or> ar_idempotency_key r = k)) (ad_events db) of
                      Some r \<Rightarrow>
                        if \<not> same_event r i k a ty cols then (Inl ErrInvalidEvent, db)
                        else if ad_fault db StmtCommit then (Inl ErrAssignmentDatabase, db)
                        else (Inr (event_of_row r), db)
                    | None \<Rightarrow>
                        if ad_fault db StmtMax then (Inl ErrAssignmentDatabase, db)
                        else
                          (case sequence_error (ae_Sequence e) (max_sequence db m) of
                             Some err \<Rightarrow> (Inl err, db)
                           | None \<Rightarrow> record_new sha micro encode db now e m i k a cols))))"

section \<open>Replay and acknowledgement\<close>

record replay_request =
  rq_MachineResourceId :: string
  rq_LastAcknowledged :: "assignment_cursor option"

record replay_response =
  rs_MachineResourceId :: string
  rs_Events :: "assignment_event list"
  rs_AuthoritativeHighWatermark :: nat
  rs_FullRosterRevision :: string

definition GetMachineAssignmentEvents :: "assignment_db \<Rightarrow> string \<Rightarrow> nat \<Rightarrow> int \<Rightarrow> assignment_error + assignment_event list" where
  "GetMachineAssignmentEvents db m after limit =
     (if ad_fault db StmtBegin \<or> ad_fault db StmtList \<or> ad_fault db StmtCommit \<or> \<not> is_i64 (int after) then Inl ErrAssignmentDatabase
      else Inr (listMachineAssignmentEventsTx db m after limit))"

definition row_at :: "assignment_db \<Rightarrow> string \<Rightarrow> nat \<Rightarrow> assignment_row option" where
  "row_at db m n = find (\<lambda>r. ar_machine_resource_id r = m \<and> ar_sequence r = n) (ad_events db)"

definition replay_after :: "assignment_db \<Rightarrow> string \<Rightarrow> assignment_cursor option \<Rightarrow> assignment_error + nat" where
  "replay_after db m cursor =
     (case cursor of
        None \<Rightarrow> Inr 0
      | Some c \<Rightarrow>
          if cu_Sequence c = 0 then Inr 0
          else if ad_fault db StmtLookup \<or> \<not> is_i64 (int (cu_Sequence c)) then Inl ErrAssignmentDatabase
          else
            (case row_at db m (cu_Sequence c) of
               None \<Rightarrow> Inl ErrAckMismatch
             | Some r \<Rightarrow>
                 if ar_event_id r \<noteq> cu_EventId c \<or> ar_idempotency_key r \<noteq> cu_IdempotencyKey c then Inl ErrAckMismatch
                 else Inr (cu_Sequence c)))"

definition GetMachineAssignmentReplay ::
  "(string \<Rightarrow> string) \<Rightarrow> assignment_db \<Rightarrow> replay_request option \<Rightarrow> assignment_error + replay_response" where
  "GetMachineAssignmentReplay sha db req =
     (case req of
        None \<Rightarrow> Inl ErrInvalidEvent
      | Some q \<Rightarrow>
          let m = rq_MachineResourceId q in
          if is_blank m then Inl ErrInvalidEvent
          else if ad_fault db StmtBegin then Inl ErrAssignmentDatabase
          else
            (case replay_after db m (rq_LastAcknowledged q) of
               Inl err \<Rightarrow> Inl err
             | Inr afterSeq \<Rightarrow>
                 let events = listMachineAssignmentEventsTx db m afterSeq 0;
                     all_events = listMachineAssignmentEventsTx db m 0 0;
                     mark = (case map_of (ad_states db) m of
                               Some st \<Rightarrow> (ms_HighWatermark st, ms_FullRosterRevision st)
                             | None \<Rightarrow> (if all_events = [] then 0 else ae_Sequence (last all_events),
                                        ComputeFullRosterRevision sha all_events)) in
                 if ad_fault db StmtList \<or> ad_fault db StmtState \<or> ad_fault db StmtCommit then Inl ErrAssignmentDatabase
                 else Inr \<lparr>rs_MachineResourceId = m, rs_Events = events, rs_AuthoritativeHighWatermark = fst mark,
                           rs_FullRosterRevision = snd mark\<rparr>))"

definition ack_identity_error :: "assignment_db \<Rightarrow> string \<Rightarrow> assignment_cursor \<Rightarrow> assignment_error option" where
  "ack_identity_error db m c =
     (if cu_Sequence c = 0 then
        if cu_EventId c \<noteq> [] \<or> cu_IdempotencyKey c \<noteq> [] then Some ErrAckMismatch else None
      else if ad_fault db StmtLookup \<or> \<not> is_i64 (int (cu_Sequence c)) then Some ErrAssignmentDatabase
      else
        (case row_at db m (cu_Sequence c) of
           None \<Rightarrow> Some ErrAckMismatch
         | Some r \<Rightarrow>
             if ar_event_id r \<noteq> cu_EventId c \<or> ar_idempotency_key r \<noteq> cu_IdempotencyKey c then Some ErrAckMismatch else None))"

definition upsert_ack :: "instant \<Rightarrow> string \<Rightarrow> assignment_cursor \<Rightarrow> (string \<times> machine_assignment_state) list
    \<Rightarrow> (string \<times> machine_assignment_state) list" where
  "upsert_ack now m c states =
     assoc_set m
       (case map_of states m of
          None \<Rightarrow> \<lparr>ms_HighWatermark = 0, ms_LastAckSequence = cu_Sequence c, ms_LastAckEventID = cu_EventId c,
                   ms_LastAckIdempotencyKey = cu_IdempotencyKey c, ms_FullRosterRevision = [], ms_UpdatedAt = now\<rparr>
        | Some st \<Rightarrow> st\<lparr>ms_LastAckSequence := cu_Sequence c, ms_LastAckEventID := cu_EventId c,
                       ms_LastAckIdempotencyKey := cu_IdempotencyKey c, ms_UpdatedAt := now\<rparr>) states"

definition write_ack :: "assignment_db \<Rightarrow> instant \<Rightarrow> string \<Rightarrow> assignment_cursor \<Rightarrow> (assignment_error + unit) \<times> assignment_db" where
  "write_ack db now m c =
     (if ad_fault db StmtInsert \<or> ad_fault db StmtCommit then (Inl ErrAssignmentDatabase, db)
      else (Inr (), db\<lparr>ad_states := upsert_ack now m c (ad_states db)\<rparr>))"

text \<open>The comparison with the acknowledgement of the state row, and the write.\<close>

definition ack_against_state :: "assignment_db \<Rightarrow> instant \<Rightarrow> string \<Rightarrow> assignment_cursor \<Rightarrow> (assignment_error + unit) \<times> assignment_db" where
  "ack_against_state db now m c =
     (if ad_fault db StmtState then (Inl ErrAssignmentDatabase, db)
      else
        (case map_of (ad_states db) m of
           None \<Rightarrow> write_ack db now m c
         | Some st \<Rightarrow>
             if cu_Sequence c < ms_LastAckSequence st then (Inl ErrAckRegression, db)
             else if cu_Sequence c = ms_LastAckSequence st then
               if cu_EventId c \<noteq> ms_LastAckEventID st \<or> cu_IdempotencyKey c \<noteq> ms_LastAckIdempotencyKey st
               then (Inl ErrAckMismatch, db)
               else if ad_fault db StmtCommit then (Inl ErrAssignmentDatabase, db) else (Inr (), db)
             else write_ack db now m c))"

definition AcknowledgeMachineAssignment ::
  "assignment_db \<Rightarrow> instant \<Rightarrow> assignment_ack option \<Rightarrow> (assignment_error + unit) \<times> assignment_db" where
  "AcknowledgeMachineAssignment db now ack =
     (case ack of
        None \<Rightarrow> (Inl ErrInvalidEvent, db)
      | Some a \<Rightarrow>
          let m = ak_MachineResourceId a in
          if is_blank m then (Inl ErrInvalidEvent, db)
          else
            (case ak_AcknowledgedThrough a of
               None \<Rightarrow> (Inl ErrInvalidEvent, db)
             | Some c \<Rightarrow>
                 if ad_fault db StmtBegin then (Inl ErrAssignmentDatabase, db)
                 else
                   (case ack_identity_error db m c of
                      Some err \<Rightarrow> (Inl err, db)
                    | None \<Rightarrow> ack_against_state db now m c)))"

definition GetMachineAssignmentState :: "assignment_db \<Rightarrow> string \<Rightarrow> assignment_error + machine_assignment_state option" where
  "GetMachineAssignmentState db m =
     (if ad_fault db StmtState then Inl ErrAssignmentDatabase else Inr (map_of (ad_states db) m))"

section \<open>Invariant\<close>

definition rows_of :: "assignment_db \<Rightarrow> string \<Rightarrow> assignment_row list" where
  "rows_of db m = filter (\<lambda>r. ar_machine_resource_id r = m) (ad_events db)"

abbreviation log_of :: "assignment_db \<Rightarrow> string \<Rightarrow> assignment_event list" where
  "log_of db m \<equiv> map event_of_row (rows_of db m)"

definition assignment_row_ok :: "assignment_row \<Rightarrow> bool" where
  "assignment_row_ok r \<longleftrightarrow>
     \<not> is_blank (ar_machine_resource_id r) \<and> \<not> is_blank (ar_agent_resource_id r) \<and> \<not> is_blank (ar_event_id r) \<and>
     \<not> is_blank (ar_idempotency_key r) \<and>
     (ar_event_type r \<in> {''CREATE'', ''CONFIG_UPDATE''} \<and> \<not> is_blank (ar_config_revision r) \<and>
        \<not> is_blank (ar_config_payload_reference r) \<and> \<not> is_blank (ar_config_payload_digest r) \<or>
      ar_event_type r = ''REMOVE'' \<and> ar_config_revision r = [] \<and> ar_config_payload_reference r = [] \<and> ar_config_payload_digest r = [])"

definition log_inv :: "(string \<Rightarrow> string) \<Rightarrow> assignment_db \<Rightarrow> bool" where
  "log_inv sha db \<longleftrightarrow>
     (\<forall>r\<in>set (ad_events db). assignment_row_ok r) \<and>
     (\<forall>m. map ar_sequence (rows_of db m) = [1..<Suc (length (rows_of db m))] \<and>
          is_i64 (int (length (rows_of db m))) \<and>
          distinct (map ar_event_id (rows_of db m)) \<and> distinct (map ar_idempotency_key (rows_of db m)) \<and>
          (case map_of (ad_states db) m of
             None \<Rightarrow> rows_of db m = []
           | Some st \<Rightarrow>
               ms_HighWatermark st = length (rows_of db m) \<and> ms_LastAckSequence st \<le> length (rows_of db m) \<and>
               (rows_of db m \<noteq> [] \<longrightarrow> ms_FullRosterRevision st = ComputeFullRosterRevision sha (log_of db m))))"

text \<open>Rows that are numbered from 1 are sorted, and the rows after \<open>n\<close> are those past the first \<open>n\<close>.\<close>

abbreviation numbered :: "assignment_row list \<Rightarrow> bool" where
  "numbered rows \<equiv> map ar_sequence rows = [1..<Suc (length rows)]"

lemma numbered_nth: "numbered rows \<Longrightarrow> k < length rows \<Longrightarrow> ar_sequence (rows ! k) = Suc k"
proof -
  assume n: "numbered rows" and k: "k < length rows"
  have "ar_sequence (rows ! k) = map ar_sequence rows ! k" using k by simp
  also have "\<dots> = Suc k" unfolding n using k by (simp del: upt_Suc)
  finally show ?thesis .
qed

lemma numbered_after:
  assumes "numbered rows"
  shows "filter (\<lambda>r. ar_sequence r > n) rows = drop n rows"
proof -
  have "ar_sequence r \<le> n" if "r \<in> set (take n rows)" for r
    using that numbered_nth [OF assms] by (auto simp: in_set_conv_nth)
  then have "filter (\<lambda>r. ar_sequence r > n) (take n rows) = []" by (auto simp: filter_empty_conv leD)
  moreover have "ar_sequence r > n" if "r \<in> set (drop n rows)" for r
    using that numbered_nth [OF assms] by (auto simp: in_set_conv_nth)
  then have "filter (\<lambda>r. ar_sequence r > n) (drop n rows) = drop n rows" by (simp add: filter_id_conv)
  ultimately show ?thesis by (metis append_Nil append_take_drop_id filter_append)
qed

lemma numbered_sorted: "numbered rows \<Longrightarrow> sort_key ar_sequence (drop n rows) = drop n rows"
proof (rule sort_key_id_if_sorted)
  assume "numbered rows"
  then have "map ar_sequence (drop n rows) = drop n [1..<Suc (length rows)]" by (metis drop_map)
  then show "sorted (map ar_sequence (drop n rows))" by (simp del: upt_Suc)
qed

lemma list_events_numbered:
  assumes "numbered (rows_of db m)"
  shows "listMachineAssignmentEventsTx db m n 0 = drop n (log_of db m)"
proof -
  have "filter (\<lambda>r. ar_machine_resource_id r = m \<and> ar_sequence r > n) (ad_events db) =
      filter (\<lambda>r. ar_sequence r > n) (rows_of db m)"
    unfolding rows_of_def filter_filter by (rule filter_cong) auto
  also have "\<dots> = drop n (rows_of db m)" by (rule numbered_after) (rule assms)
  finally show ?thesis
    using numbered_sorted [OF assms, of n] by (simp add: listMachineAssignmentEventsTx_def drop_map)
qed

lemma max_sequence_numbered: "numbered (rows_of db m) \<Longrightarrow> max_sequence db m = length (rows_of db m)"
proof -
  assume n: "numbered (rows_of db m)"
  have "foldl max 0 [1..<Suc k] = (k :: nat)" for k by (induction k) auto
  then show ?thesis using n unfolding max_sequence_def rows_of_def [symmetric] by simp
qed

lemma row_at_numbered:
  assumes "numbered (rows_of db m)" and "row_at db m n = Some r"
  shows "1 \<le> n \<and> n \<le> length (rows_of db m) \<and> rows_of db m ! (n - 1) = r"
proof -
  have r: "r \<in> set (rows_of db m)" "ar_sequence r = n"
    using find_Some_in [OF assms(2) [unfolded row_at_def]] by (auto simp: rows_of_def)
  then obtain k where "k < length (rows_of db m)" "rows_of db m ! k = r" by (auto simp: in_set_conv_nth)
  then show ?thesis using numbered_nth [OF assms(1)] r(2) by auto
qed

lemma row_at_nth:
  assumes "numbered (rows_of db m)" and "k < length (rows_of db m)"
  shows "row_at db m (Suc k) = Some (rows_of db m ! k)"
proof -
  let ?r = "rows_of db m ! k"
  have r: "?r \<in> set (rows_of db m)" using assms(2) by simp
  have "row_at db m (Suc k) \<noteq> None"
    using r numbered_nth [OF assms] by (auto simp: row_at_def find_None_all rows_of_def)
  then show ?thesis using row_at_numbered [OF assms(1)] by fastforce
qed

lemma record_new_success:
  assumes "record_new sha micro encode db now e m i k a cols = (Inr ev, db')" and "n = u64 (max_sequence db m + 1)"
    and "row = assignment_new_row m n i k a (eventTypeToString (ae_EventType e)) cols (micro (created_at now e))"
    and "db1 = db\<lparr>ad_events := ad_events db @ [row]\<rparr>"
  shows "\<exists>ob. db' = db1\<lparr>ad_states := upsert_watermark now m n
      (ComputeFullRosterRevision sha (listMachineAssignmentEventsTx db1 m 0 0)) (ad_states db), ad_outbox := ob\<rparr> \<and>
    is_i64 (int n) \<and> ae_Sequence ev = n"
proof -
  obtain rv rf dg where c: "cols = (rv, rf, dg)" by (cases cols)
  show ?thesis
    using assms(1) unfolding record_new_def c prod.case Let_def assms(2-4)
    by (auto simp: buildAssignmentEventProto_def c split: if_splits option.splits)
qed

lemma record_new_error: "record_new sha micro encode db now e m i k a cols = (Inl err, db') \<Longrightarrow> db' = db"
  by (auto simp: record_new_def Let_def split: prod.splits if_splits option.splits)

lemma rows_of_append: "rows_of (db\<lparr>ad_events := ad_events db @ [row]\<rparr>) m =
    (if ar_machine_resource_id row = m then rows_of db m @ [row] else rows_of db m)"
  by (simp add: rows_of_def)

lemma rows_of_more [simp]:
  "rows_of (db\<lparr>ad_states := s\<rparr>) m = rows_of db m" "rows_of (db\<lparr>ad_outbox := ob\<rparr>) m = rows_of db m"
  by (simp_all add: rows_of_def)

lemma assignment_new_row_sel [simp]:
  "ar_machine_resource_id (assignment_new_row m n i k a ty cols t) = m"
  "ar_sequence (assignment_new_row m n i k a ty cols t) = n"
  "ar_event_id (assignment_new_row m n i k a ty cols t) = i"
  "ar_idempotency_key (assignment_new_row m n i k a ty cols t) = k"
  by (simp_all add: assignment_new_row_def split: prod.split)

text \<open>What a recording leaves: the tables as they were, or one more row of the machine.\<close>

lemma RecordMachineAssignmentEvent_error:
  "RecordMachineAssignmentEvent sha micro encode db now event = (Inl err, db') \<Longrightarrow> db' = db"
  by (auto simp: RecordMachineAssignmentEvent_def Let_def dest: record_new_error split: if_splits sum.splits option.splits)

lemma RecordMachineAssignmentEvent_accepted:
  assumes "RecordMachineAssignmentEvent sha micro encode db now event = (Inr ev, db')"
  obtains e cols where "event = Some e" "config_columns e = Inr cols" "eventTypeToString (ae_EventType e) \<noteq> []"
    "\<not> is_blank (ae_MachineResourceId e)" "\<not> is_blank (ae_AgentResourceId e)" "\<not> is_blank (ae_EventId e)"
    "\<not> is_blank (ae_IdempotencyKey e)"
    "case find (\<lambda>r. ar_machine_resource_id r = trim_space (ae_MachineResourceId e) \<and>
        (ar_event_id r = trim_space (ae_EventId e) \<or> ar_idempotency_key r = trim_space (ae_IdempotencyKey e))) (ad_events db) of
       Some r \<Rightarrow> same_event r (trim_space (ae_EventId e)) (trim_space (ae_IdempotencyKey e)) (trim_space (ae_AgentResourceId e))
           (eventTypeToString (ae_EventType e)) cols \<and> ev = event_of_row r \<and> db' = db
     | None \<Rightarrow> record_new sha micro encode db now e (trim_space (ae_MachineResourceId e)) (trim_space (ae_EventId e))
         (trim_space (ae_IdempotencyKey e)) (trim_space (ae_AgentResourceId e)) cols = (Inr ev, db')"
  using assms unfolding RecordMachineAssignmentEvent_def Let_def is_blank_def
  by (auto split: if_splits sum.splits option.splits)

lemma RecordMachineAssignmentEvent_cases:
  assumes "RecordMachineAssignmentEvent sha micro encode db now event = (res, db')"
  obtains (failed) err where "res = Inl err" "db' = db"
    | (again) e cols r where "event = Some e" "config_columns e = Inr cols" "r \<in> set (rows_of db (trim_space (ae_MachineResourceId e)))"
        "same_event r (trim_space (ae_EventId e)) (trim_space (ae_IdempotencyKey e)) (trim_space (ae_AgentResourceId e))
           (eventTypeToString (ae_EventType e)) cols"
        "res = Inr (event_of_row r)" "db' = db"
    | (new) e cols row n where "event = Some e" "config_columns e = Inr cols" "eventTypeToString (ae_EventType e) \<noteq> []"
        "n = u64 (max_sequence db (trim_space (ae_MachineResourceId e)) + 1)"
        "row = assignment_new_row (trim_space (ae_MachineResourceId e)) n (trim_space (ae_EventId e))
           (trim_space (ae_IdempotencyKey e)) (trim_space (ae_AgentResourceId e)) (eventTypeToString (ae_EventType e)) cols
           (micro (created_at now e))"
        "\<not> is_blank (ae_MachineResourceId e)" "\<not> is_blank (ae_AgentResourceId e)" "\<not> is_blank (ae_EventId e)"
        "\<not> is_blank (ae_IdempotencyKey e)"
        "\<forall>r\<in>set (rows_of db (trim_space (ae_MachineResourceId e))).
           ar_event_id r \<noteq> trim_space (ae_EventId e) \<and> ar_idempotency_key r \<noteq> trim_space (ae_IdempotencyKey e)"
        "is_i64 (int n)"
        "\<exists>ob. db' = db\<lparr>ad_events := ad_events db @ [row], ad_states := upsert_watermark now (trim_space (ae_MachineResourceId e)) n
           (ComputeFullRosterRevision sha (listMachineAssignmentEventsTx (db\<lparr>ad_events := ad_events db @ [row]\<rparr>)
              (trim_space (ae_MachineResourceId e)) 0 0)) (ad_states db), ad_outbox := ob\<rparr>"
        "\<exists>ev. res = Inr ev \<and> ae_Sequence ev = n"
proof (cases res)
  case (Inl err)
  then show ?thesis using failed assms RecordMachineAssignmentEvent_error by blast
next
  case (Inr ev)
  from assms [unfolded Inr] obtain e cols where e: "event = Some e" "config_columns e = Inr cols" "eventTypeToString (ae_EventType e) \<noteq> []"
    and id: "\<not> is_blank (ae_MachineResourceId e)" "\<not> is_blank (ae_AgentResourceId e)" "\<not> is_blank (ae_EventId e)"
      "\<not> is_blank (ae_IdempotencyKey e)"
    and c: "case find (\<lambda>r. ar_machine_resource_id r = trim_space (ae_MachineResourceId e) \<and>
        (ar_event_id r = trim_space (ae_EventId e) \<or> ar_idempotency_key r = trim_space (ae_IdempotencyKey e))) (ad_events db) of
       Some r \<Rightarrow> same_event r (trim_space (ae_EventId e)) (trim_space (ae_IdempotencyKey e)) (trim_space (ae_AgentResourceId e))
           (eventTypeToString (ae_EventType e)) cols \<and> ev = event_of_row r \<and> db' = db
     | None \<Rightarrow> record_new sha micro encode db now e (trim_space (ae_MachineResourceId e)) (trim_space (ae_EventId e))
         (trim_space (ae_IdempotencyKey e)) (trim_space (ae_AgentResourceId e)) cols = (Inr ev, db')"
    by (rule RecordMachineAssignmentEvent_accepted)
  let ?m = "trim_space (ae_MachineResourceId e)" and ?i = "trim_space (ae_EventId e)" and ?k = "trim_space (ae_IdempotencyKey e)"
  show ?thesis
  proof (cases "find (\<lambda>r. ar_machine_resource_id r = ?m \<and> (ar_event_id r = ?i \<or> ar_idempotency_key r = ?k)) (ad_events db)")
    case None
    then have none: "\<forall>r\<in>set (rows_of db ?m). ar_event_id r \<noteq> ?i \<and> ar_idempotency_key r \<noteq> ?k"
      by (auto simp: find_None_all rows_of_def)
    have rec: "record_new sha micro encode db now e ?m ?i ?k (trim_space (ae_AgentResourceId e)) cols = (Inr ev, db')"
      using c None by simp
    show ?thesis
      using record_new_success [OF rec refl refl refl] Inr by (intro new [OF e refl refl id none]) auto
  next
    case (Some r)
    then have "r \<in> set (rows_of db ?m)" using find_Some_in [OF Some] by (simp add: rows_of_def)
    then show ?thesis using c Some Inr by (intro again [OF e(1,2)]) auto
  qed
qed

lemma RecordMachineAssignmentEvent_new:
  assumes "RecordMachineAssignmentEvent sha micro encode db now (Some e) = (Inr ev, db')" and "db' \<noteq> db"
  shows "\<not> is_blank (ae_MachineResourceId e) \<and>
    (\<exists>cols. record_new sha micro encode db now e (trim_space (ae_MachineResourceId e)) (trim_space (ae_EventId e))
       (trim_space (ae_IdempotencyKey e)) (trim_space (ae_AgentResourceId e)) cols = (Inr ev, db'))"
proof (rule RecordMachineAssignmentEvent_accepted [OF assms(1)], goal_cases)
  case (1 e' cols)
  then have "record_new sha micro encode db now e (trim_space (ae_MachineResourceId e)) (trim_space (ae_EventId e))
      (trim_space (ae_IdempotencyKey e)) (trim_space (ae_AgentResourceId e)) cols = (Inr ev, db')"
    using assms(2) by (simp split: option.splits)
  then show ?case using 1 by blast
qed

lemma assignment_new_row_ok:
  assumes "config_columns e = Inr cols" and "eventTypeToString (ae_EventType e) \<noteq> []"
    and "\<not> is_blank m" "\<not> is_blank a" "\<not> is_blank i" "\<not> is_blank k"
  shows "assignment_row_ok (assignment_new_row m n i k a (eventTypeToString (ae_EventType e)) cols t)"
  using assms
  by (cases "ae_EventType e")
    (auto simp: assignment_row_ok_def assignment_new_row_def config_columns_def config_complete_def eventTypeToString_def
      split: option.splits if_splits)

text \<open>What the invariant says of one machine.\<close>

definition machine_log_ok :: "(string \<Rightarrow> string) \<Rightarrow> assignment_row list \<Rightarrow> machine_assignment_state option \<Rightarrow> bool" where
  "machine_log_ok sha rows state \<longleftrightarrow>
     numbered rows \<and> is_i64 (int (length rows)) \<and> distinct (map ar_event_id rows) \<and> distinct (map ar_idempotency_key rows) \<and>
     (case state of
        None \<Rightarrow> rows = []
      | Some st \<Rightarrow>
          ms_HighWatermark st = length rows \<and> ms_LastAckSequence st \<le> length rows \<and>
          (rows \<noteq> [] \<longrightarrow> ms_FullRosterRevision st = ComputeFullRosterRevision sha (map event_of_row rows)))"

lemma log_inv_machines:
  "log_inv sha db \<longleftrightarrow> (\<forall>r\<in>set (ad_events db). assignment_row_ok r) \<and> (\<forall>m. machine_log_ok sha (rows_of db m) (map_of (ad_states db) m))"
  by (simp only: log_inv_def machine_log_ok_def)

lemma machine_log_okD:
  assumes "log_inv sha db"
  shows "machine_log_ok sha (rows_of db m) (map_of (ad_states db) m)" and "numbered (rows_of db m)"
  using assms by (simp_all add: log_inv_machines machine_log_ok_def)

lemma machine_log_ok_append:
  assumes "machine_log_ok sha rows state" and "ar_sequence row = Suc (length rows)" and "is_i64 (int (Suc (length rows)))"
    and "\<forall>r\<in>set rows. ar_event_id r \<noteq> ar_event_id row \<and> ar_idempotency_key r \<noteq> ar_idempotency_key row"
    and "ms_HighWatermark st = Suc (length rows)" and "ms_LastAckSequence st = (case state of None \<Rightarrow> 0 | Some s \<Rightarrow> ms_LastAckSequence s)"
    and "ms_FullRosterRevision st = ComputeFullRosterRevision sha (map event_of_row (rows @ [row]))"
  shows "machine_log_ok sha (rows @ [row]) (Some st)"
proof -
  have "map ar_sequence rows = [1..<Suc (length rows)]" using assms(1) by (simp add: machine_log_ok_def)
  then have "numbered (rows @ [row])" using assms(2) by simp
  moreover have "ms_LastAckSequence st \<le> Suc (length rows)"
    using assms(1,6) by (auto simp: machine_log_ok_def split: option.splits)
  ultimately show ?thesis
    using assms unfolding machine_log_ok_def by (auto simp: image_iff)
qed

lemma log_inv_record [inv_rules]:
  assumes inv: "log_inv sha db"
  shows "log_inv sha (snd (RecordMachineAssignmentEvent sha micro encode db now event))"
proof -
  obtain res db' where "RecordMachineAssignmentEvent sha micro encode db now event = (res, db')"
    by (cases "RecordMachineAssignmentEvent sha micro encode db now event")
  moreover from this have "log_inv sha db'"
  proof (cases rule: RecordMachineAssignmentEvent_cases)
    case (new e cols row n)
    let ?m = "trim_space (ae_MachineResourceId e)" and ?db1 = "db\<lparr>ad_events := ad_events db @ [row]\<rparr>"
    let ?rev = "ComputeFullRosterRevision sha (listMachineAssignmentEventsTx ?db1 ?m 0 0)"
    obtain ob where db': "db' = ?db1\<lparr>ad_states := upsert_watermark now ?m n ?rev (ad_states db), ad_outbox := ob\<rparr>"
      using new(12) by blast
    have ok: "machine_log_ok sha (rows_of db ?m) (map_of (ad_states db) ?m)" "numbered (rows_of db ?m)"
      using machine_log_okD [OF inv] by blast+
    have len: "is_i64 (int (length (rows_of db ?m)))" using ok(1) by (simp add: machine_log_ok_def)
    have n: "n = Suc (length (rows_of db ?m))"
      unfolding new(4) max_sequence_numbered [OF ok(2)] using len by (simp add: is_i64_def)
    have row: "ar_machine_resource_id row = ?m" "ar_sequence row = n" by (simp_all add: new(5))
    have rows: "rows_of ?db1 ?m = rows_of db ?m @ [row]" using row(1) by (simp add: rows_of_append)
    have num: "numbered (rows_of ?db1 ?m)" using ok(2) row(2) n rows by simp
    have rev: "?rev = ComputeFullRosterRevision sha (map event_of_row (rows_of db ?m @ [row]))"
      using list_events_numbered [OF num, of 0] rows by simp
    have "machine_log_ok sha (rows_of db ?m @ [row]) (map_of (ad_states db') ?m)"
      unfolding db' upsert_watermark_def rev using new(10,11) n row(2) new(5)
      by (auto intro!: machine_log_ok_append [OF ok(1)] split: option.split)
    moreover have "rows_of db' m = (if m = ?m then rows_of db ?m @ [row] else rows_of db m)" for m
      unfolding db' using row(1) rows by (simp add: rows_of_append)
    moreover have "map_of (ad_states db') m = map_of (ad_states db) m" if "m \<noteq> ?m" for m
      using that by (simp add: db' upsert_watermark_def)
    moreover have "assignment_row_ok row"
      unfolding new(5) using new by (intro assignment_new_row_ok) simp_all
    moreover have "ad_events db' = ad_events db @ [row]" by (simp add: db')
    ultimately show ?thesis using inv by (auto simp: log_inv_machines)
  qed (use inv in simp_all)
  ultimately show ?thesis by simp
qed

lemma log_inv_ack [inv_rules]:
  assumes inv: "log_inv sha db"
  shows "log_inv sha (snd (AcknowledgeMachineAssignment db now ack))"
proof (cases "snd (AcknowledgeMachineAssignment db now ack) = db")
  case False
  then obtain a c where a: "ack = Some a" "ak_AcknowledgedThrough a = Some c" "ack_identity_error db (ak_MachineResourceId a) c = None"
    and w: "snd (AcknowledgeMachineAssignment db now ack) = snd (ack_against_state db now (ak_MachineResourceId a) c)"
    by (auto simp: AcknowledgeMachineAssignment_def Let_def split: option.splits if_splits)
  with False have db': "snd (AcknowledgeMachineAssignment db now ack) =
      db\<lparr>ad_states := upsert_ack now (ak_MachineResourceId a) c (ad_states db)\<rparr>"
    by (auto simp: ack_against_state_def write_ack_def split: option.splits if_splits)
  let ?m = "ak_MachineResourceId a"
  have ok: "machine_log_ok sha (rows_of db ?m) (map_of (ad_states db) ?m)" "numbered (rows_of db ?m)"
    using machine_log_okD [OF inv] by blast+
  have "cu_Sequence c \<le> length (rows_of db ?m)"
    using a(3) row_at_numbered [OF ok(2)] by (auto simp: ack_identity_error_def split: if_splits option.splits)
  then have "machine_log_ok sha (rows_of db ?m) (map_of (upsert_ack now ?m c (ad_states db)) ?m)"
    using ok(1) by (auto simp: upsert_ack_def machine_log_ok_def split: option.splits)
  moreover have "map_of (upsert_ack now ?m c (ad_states db)) m = map_of (ad_states db) m" if "m \<noteq> ?m" for m
    using that by (simp add: upsert_ack_def)
  ultimately have "machine_log_ok sha (rows_of db m) (map_of (upsert_ack now ?m c (ad_states db)) m)" for m
    using machine_log_okD(1) [OF inv] by (cases "m = ?m") simp_all
  then show ?thesis using inv unfolding db' by (simp add: log_inv_machines)
qed (use inv in simp)

section \<open>Histories\<close>

datatype log_op = OpRecord instant "assignment_event option" | OpLogAck instant "assignment_ack option"

fun log_step ::
  "(string \<Rightarrow> string) \<Rightarrow> (instant \<Rightarrow> instant) \<Rightarrow> (assignment_event \<Rightarrow> nat \<Rightarrow> string) \<Rightarrow> assignment_db \<Rightarrow> log_op \<Rightarrow> assignment_db" where
  "log_step sha micro encode db (OpRecord now e) = snd (RecordMachineAssignmentEvent sha micro encode db now e)"
| "log_step sha micro encode db (OpLogAck now a) = snd (AcknowledgeMachineAssignment db now a)"

definition empty_log :: "assignment_db \<Rightarrow> bool" where
  "empty_log db \<longleftrightarrow> ad_events db = [] \<and> ad_states db = []"

interpretation assignment_log: component "log_step sha micro encode" "log_inv sha" "\<lambda>_. True" empty_log for sha micro encode
proof unfold_locales
  show "log_inv sha s" if "empty_log s" for s
    using that by (simp add: empty_log_def log_inv_def rows_of_def is_i64_def)
  show "log_inv sha (log_step sha micro encode s e)" if "log_inv sha s" for s e
    using that by (cases e) (simp_all add: inv_rules)
qed

text \<open>The log of a machine only grows, and its acknowledgement does not go back.\<close>

definition acked_of :: "assignment_db \<Rightarrow> string \<Rightarrow> nat" where
  "acked_of db m = (case map_of (ad_states db) m of None \<Rightarrow> 0 | Some st \<Rightarrow> ms_LastAckSequence st)"

definition log_grows :: "assignment_db \<Rightarrow> assignment_db \<Rightarrow> bool" where
  "log_grows db db' \<longleftrightarrow> (\<forall>m. prefix (rows_of db m) (rows_of db' m) \<and> acked_of db m \<le> acked_of db' m)"

lemma log_grows_record:
  "log_grows db (snd (RecordMachineAssignmentEvent sha micro encode db now event))"
proof -
  obtain res db' where "RecordMachineAssignmentEvent sha micro encode db now event = (res, db')"
    by (cases "RecordMachineAssignmentEvent sha micro encode db now event")
  moreover from this have "log_grows db db'"
  proof (cases rule: RecordMachineAssignmentEvent_cases)
    case failed
    then show ?thesis by (simp add: log_grows_def)
  next
    case again
    then show ?thesis by (simp add: log_grows_def)
  next
    case (new e cols row n)
    then obtain rev ob where db': "db' = db\<lparr>ad_events := ad_events db @ [row],
        ad_states := upsert_watermark now (trim_space (ae_MachineResourceId e)) n rev (ad_states db), ad_outbox := ob\<rparr>" by blast
    have "prefix (rows_of db m) (rows_of db' m)" for m unfolding db' by (simp add: rows_of_append)
    then show ?thesis by (simp add: log_grows_def acked_of_def db' upsert_watermark_def split: option.split)
  qed
  ultimately show ?thesis by simp
qed

lemma log_grows_ack: "log_grows db (snd (AcknowledgeMachineAssignment db now ack))"
proof -
  have "log_grows db (snd (ack_against_state db now m c))" for m c
    by (auto simp: log_grows_def acked_of_def ack_against_state_def write_ack_def upsert_ack_def split: option.splits)
  moreover have "log_grows db db" by (simp add: log_grows_def)
  ultimately show ?thesis
    by (auto simp: AcknowledgeMachineAssignment_def Let_def split: option.splits)
qed

lemma log_grows_run: "log_inv sha db \<Longrightarrow> log_grows db (foldl (log_step sha micro encode) db ops)"
proof (rule assignment_log.monotone_run [where R = log_grows])
  show "log_grows a c" if "log_grows a b" "log_grows b c" for a b c
    using that unfolding log_grows_def by (metis order_trans prefix_order.trans)
  show "log_grows a a" for a by (simp add: log_grows_def)
  show "log_grows s (log_step sha micro encode s e)" for s e
    by (cases e) (simp_all add: log_grows_record log_grows_ack)
qed auto

section \<open>Recording twice\<close>

definition recorded_row :: "assignment_event \<Rightarrow> assignment_row \<Rightarrow> bool" where
  "recorded_row e r \<longleftrightarrow>
     (\<exists>cols. config_columns e = Inr cols \<and>
        same_event r (trim_space (ae_EventId e)) (trim_space (ae_IdempotencyKey e)) (trim_space (ae_AgentResourceId e))
          (eventTypeToString (ae_EventType e)) cols)"

lemma recorded_event_row:
  assumes "RecordMachineAssignmentEvent sha micro encode db now (Some e) = (Inr ev, db')"
  shows "\<exists>r\<in>set (rows_of db' (trim_space (ae_MachineResourceId e))). recorded_row e r \<and> ar_sequence r = ae_Sequence ev"
  using assms
proof (cases rule: RecordMachineAssignmentEvent_cases)
  case (again e' cols r)
  then show ?thesis
    by (auto simp: recorded_row_def event_of_row_def buildAssignmentEventProto_def)
next
  case (new e' cols row n)
  then obtain rev ob where db': "db' = db\<lparr>ad_events := ad_events db @ [row],
      ad_states := upsert_watermark now (trim_space (ae_MachineResourceId e)) n rev (ad_states db), ad_outbox := ob\<rparr>" by auto
  have "row \<in> set (rows_of db' (trim_space (ae_MachineResourceId e)))" using new(1,5) by (simp add: db' rows_of_def)
  moreover have "recorded_row e row \<and> ar_sequence row = ae_Sequence ev"
    using new by (auto simp: recorded_row_def same_event_def assignment_new_row_def split: prod.splits)
  ultimately show ?thesis by blast
qed simp

lemma find_recorded:
  assumes inv: "log_inv sha db" and r: "r \<in> set (rows_of db m)" and "ar_event_id r = i" and "ar_idempotency_key r = k"
  shows "find (\<lambda>x. ar_machine_resource_id x = m \<and> (ar_event_id x = i \<or> ar_idempotency_key x = k)) (ad_events db) = Some r"
proof -
  have d: "inj_on ar_event_id (set (rows_of db m))" "inj_on ar_idempotency_key (set (rows_of db m))"
    using machine_log_okD(1) [OF inv, of m] by (simp_all add: machine_log_ok_def distinct_map)
  let ?P = "\<lambda>x. ar_machine_resource_id x = m \<and> (ar_event_id x = i \<or> ar_idempotency_key x = k)"
  have r': "r \<in> set (ad_events db)" "?P r" using r assms(3) by (simp_all add: rows_of_def)
  then obtain x where x: "find ?P (ad_events db) = Some x" by (cases "find ?P (ad_events db)") (auto simp: find_None_all)
  then have "x \<in> set (rows_of db m)" "ar_event_id x = i \<or> ar_idempotency_key x = k"
    using find_Some_in [OF x] by (simp_all add: rows_of_def)
  then have "x = r" using d r assms(3,4) by (metis inj_onD)
  then show ?thesis using x by simp
qed

lemma log_step_fault: "ad_fault (log_step sha micro encode db op) = ad_fault db"
proof (cases op)
  case (OpRecord now e)
  obtain res db' where r: "RecordMachineAssignmentEvent sha micro encode db now e = (res, db')"
    by (cases "RecordMachineAssignmentEvent sha micro encode db now e")
  then have "ad_fault db' = ad_fault db" by (cases rule: RecordMachineAssignmentEvent_cases) auto
  then show ?thesis using OpRecord r by simp
next
  case (OpLogAck now a)
  then show ?thesis
    by (auto simp: AcknowledgeMachineAssignment_def ack_against_state_def write_ack_def Let_def split: option.splits)
qed

lemma log_run_fault: "ad_fault (foldl (log_step sha micro encode) db ops) = ad_fault db"
  by (induction ops arbitrary: db) (simp_all add: log_step_fault)

lemma record_again:
  assumes inv: "log_inv sha db" and ok: "ad_fault db = (\<lambda>_. False)"
    and r: "r \<in> set (rows_of db (trim_space (ae_MachineResourceId e)))" "recorded_row e r"
    and id: "\<not> is_blank (ae_MachineResourceId e)" "\<not> is_blank (ae_AgentResourceId e)" "\<not> is_blank (ae_EventId e)"
      "\<not> is_blank (ae_IdempotencyKey e)" "eventTypeToString (ae_EventType e) \<noteq> []"
  shows "RecordMachineAssignmentEvent sha micro encode db now (Some e) = (Inr (event_of_row r), db)"
proof -
  obtain cols where c: "config_columns e = Inr cols" and s: "same_event r (trim_space (ae_EventId e)) (trim_space (ae_IdempotencyKey e))
      (trim_space (ae_AgentResourceId e)) (eventTypeToString (ae_EventType e)) cols"
    using r(2) by (auto simp: recorded_row_def)
  have "ar_event_id r = trim_space (ae_EventId e)" "ar_idempotency_key r = trim_space (ae_IdempotencyKey e)"
    using s by (simp_all add: same_event_def)
  note f = find_recorded [OF inv r(1) this]
  show ?thesis using id c s ok f by (simp add: RecordMachineAssignmentEvent_def is_blank_def)
qed

section \<open>Properties\<close>

text \<open>C18: the log of a machine. In every history of recordings and acknowledgements of any number of
  machines, accepted or not, the rows of each machine are numbered 1, 2, 3 and so on; no event id
  and no idempotency key of a machine is used twice; the high watermark of its state row is the
  number of its events, and the revision the one of the roster these events give; and the
  acknowledged number is not past the watermark. What was recorded stays, and the acknowledged
  number does not go back.\<close>

theorem assignment_log_history:
  assumes "empty_log db0" and "db = foldl (log_step sha micro encode) db0 ops"
  shows "numbered (rows_of db m) \<and> distinct (map ar_event_id (rows_of db m)) \<and> distinct (map ar_idempotency_key (rows_of db m)) \<and>
    (case map_of (ad_states db) m of
       None \<Rightarrow> rows_of db m = []
     | Some st \<Rightarrow>
         ms_HighWatermark st = length (rows_of db m) \<and> ms_LastAckSequence st \<le> ms_HighWatermark st \<and>
         (rows_of db m \<noteq> [] \<longrightarrow> ms_FullRosterRevision st = ComputeFullRosterRevision sha (listMachineAssignmentEventsTx db m 0 0))) \<and>
    log_grows db (foldl (log_step sha micro encode) db later)"
proof -
  have inv: "log_inv sha db" unfolding assms(2) by (rule assignment_log.invar_history [OF assms(1)]) simp
  from machine_log_okD(1) [OF inv, of m] list_events_numbered [OF machine_log_okD(2) [OF inv], of m 0]
  show ?thesis using log_grows_run [OF inv, of micro encode later] by (auto simp: machine_log_ok_def split: option.splits)
qed

text \<open>An event is recorded once. On a database without faults, however much is recorded and
  acknowledged after a recording that succeeded, recording the same event again, also from a
  second manager that never saw the first answer, changes nothing and returns the event with the
  sequence number of the first recording.\<close>

theorem recorded_once:
  assumes "empty_log db0" and "ad_fault db0 = (\<lambda>_. False)" and "db = foldl (log_step sha micro encode) db0 past"
    and "RecordMachineAssignmentEvent sha micro encode db now (Some e) = (Inr ev, db1)"
    and "later = foldl (log_step sha micro encode) db1 future"
  shows "\<exists>ev'. RecordMachineAssignmentEvent sha micro encode later now' (Some e) = (Inr ev', later) \<and>
    ae_Sequence ev' = ae_Sequence ev \<and> ae_EventId ev' = trim_space (ae_EventId e)"
proof -
  let ?m = "trim_space (ae_MachineResourceId e)"
  have inv: "log_inv sha db" unfolding assms(3) by (rule assignment_log.invar_history [OF assms(1)]) simp
  have db1: "db1 = log_step sha micro encode db (OpRecord now (Some e))" using assms(4) by simp
  then have inv1: "log_inv sha db1" using log_inv_record [OF inv] by simp
  have invl: "log_inv sha later" unfolding assms(5) by (rule assignment_log.invar_run [OF inv1]) simp
  have ok: "ad_fault later = (\<lambda>_. False)" unfolding assms(5) log_run_fault db1 log_step_fault assms(3) log_run_fault by (rule assms(2))
  from recorded_event_row [OF assms(4)] obtain r where
    r: "r \<in> set (rows_of db1 ?m)" "recorded_row e r" "ar_sequence r = ae_Sequence ev" by blast
  have "prefix (rows_of db1 ?m) (rows_of later ?m)"
    using log_grows_run [OF inv1, of micro encode future] by (simp add: log_grows_def assms(5))
  then have rl: "r \<in> set (rows_of later ?m)" using r(1) set_mono_prefix by blast
  from assms(4) have id: "\<not> is_blank (ae_MachineResourceId e)" "\<not> is_blank (ae_AgentResourceId e)" "\<not> is_blank (ae_EventId e)"
      "\<not> is_blank (ae_IdempotencyKey e)" "eventTypeToString (ae_EventType e) \<noteq> []"
    by (auto elim: RecordMachineAssignmentEvent_accepted)
  have "ar_event_id r = trim_space (ae_EventId e)" using r(2) by (auto simp: recorded_row_def same_event_def)
  then show ?thesis
    using record_again [OF invl ok rl r(2) id] r(3) by (simp add: event_of_row_def buildAssignmentEventProto_def)
qed

text \<open>The sample of the witnesses.\<close>

definition sample_log_db :: assignment_db where
  "sample_log_db = \<lparr>ad_events = [], ad_states = [], ad_machine_org = (\<lambda>_. Some ''org''),
     ad_outbox = \<lparr>ob_orgs = (\<lambda>_. True), ob_events = [], ob_reconciliation = [], ob_fault = (\<lambda>_. False), ob_collate = length\<rparr>,
     ad_fault = (\<lambda>_. False)\<rparr>"

definition sample_micro :: "instant \<Rightarrow> instant" where
  "sample_micro t = t div 1000 * 1000"

definition sample_log_step :: "assignment_db \<Rightarrow> log_op \<Rightarrow> assignment_db" where
  "sample_log_step = log_step (\<lambda>s. s) sample_micro (\<lambda>e n. show_nat n)"

definition sample_log_ops :: "log_op list" where
  "sample_log_ops =
     [OpRecord 5 (Some ((sample_assignment 1 ''a'' EventCREATE ''v1'')\<lparr>ae_Sequence := 0\<rparr>)),
      OpRecord 6 (Some (sample_assignment 4 ''b'' EventCREATE ''v1'')),
      OpRecord 7 (Some (sample_assignment 2 ''b'' EventCREATE ''v2'')),
      OpLogAck 8 (Some \<lparr>ak_MachineResourceId = ''m'',
        ak_AcknowledgedThrough = Some \<lparr>cu_Sequence = 1, cu_EventId = ''e1'', cu_IdempotencyKey = ''k1''\<rparr>\<rparr>)]"

lemma sample_log_empty: "empty_log sample_log_db" "ad_fault sample_log_db = (\<lambda>_. False)"
  by (simp_all add: empty_log_def sample_log_db_def)

theorem assignment_log_history_witness:
  "map ar_sequence (rows_of (foldl sample_log_step sample_log_db sample_log_ops) ''m'') = [1, 2] \<and>
   map_option (\<lambda>st. (ms_HighWatermark st, ms_LastAckSequence st))
     (map_of (ad_states (foldl sample_log_step sample_log_db sample_log_ops)) ''m'') = Some (2, 1)"
proof -
  have len: "length (rows_of (foldl sample_log_step sample_log_db sample_log_ops) ''m'') = 2" by code_simp
  have st: "map_option (\<lambda>st. (ms_HighWatermark st, ms_LastAckSequence st))
      (map_of (ad_states (foldl sample_log_step sample_log_db sample_log_ops)) ''m'') = Some (2, 1)" by code_simp
  from assignment_log_history [OF sample_log_empty(1) refl, of "\<lambda>s. s" sample_micro "\<lambda>e n. show_nat n" sample_log_ops "''m''" "[]"]
  have "numbered (rows_of (foldl sample_log_step sample_log_db sample_log_ops) ''m'')"
    by (simp add: sample_log_step_def)
  then show ?thesis using len st by (simp add: numeral_2_eq_2)
qed

definition sample_log_event :: assignment_event where
  "sample_log_event = (sample_assignment 1 ''a'' EventCREATE ''v1'')\<lparr>ae_Sequence := 0\<rparr>"

theorem recorded_once_witness:
  "\<exists>ev'. RecordMachineAssignmentEvent (\<lambda>s. s) sample_micro (\<lambda>e n. show_nat n)
      (foldl sample_log_step sample_log_db sample_log_ops) 99 (Some sample_log_event) =
        (Inr ev', foldl sample_log_step sample_log_db sample_log_ops) \<and> ae_Sequence ev' = 1"
proof -
  let ?rec = "RecordMachineAssignmentEvent (\<lambda>s. s) sample_micro (\<lambda>e n. show_nat n) sample_log_db 5 (Some sample_log_event)"
  have e: "sample_log_ops = OpRecord 5 (Some sample_log_event) # tl sample_log_ops"
    by (simp add: sample_log_ops_def sample_log_event_def)
  have f: "case fst ?rec of Inr ev \<Rightarrow> ae_Sequence ev = 1 | Inl _ \<Rightarrow> False" by code_simp
  then obtain ev db1 where r: "?rec = (Inr ev, db1)" and n: "ae_Sequence ev = 1"
    by (cases ?rec) (auto split: sum.splits)
  have l: "foldl sample_log_step sample_log_db sample_log_ops = foldl (log_step (\<lambda>s. s) sample_micro (\<lambda>e n. show_nat n)) db1 (tl sample_log_ops)"
    by (subst e) (simp add: sample_log_step_def r)
  show ?thesis
    using recorded_once [OF sample_log_empty _ r l, of "[]" 99] n by auto
qed

end
