(* ===== verification/Assignment_Controller.thy ===== *)
theory Assignment_Controller
  imports Assignment_Log
begin

text \<open>
  The machine's side of assignments, \<open>backend/agent/client/assignment_controller.go\<close> with the
  runner table of \<open>runner.go\<close>, and the protocol between a machine and the manager: the handler of
  \<open>backend/manager/server/machine_assignment_outbox.go\<close> that pushes a recorded event, and the
  replay a machine asks for when it connects. A runner is what it was last told to run; its process
  is not modelled. A range over a map is in the order of a rank. The state file of a machine holds
  the cursor that was last saved; a save may fail.

  Shown here: a machine that reconnects with the cursor it acknowledged reaches the whole log of
  the manager, with the manager's revision and one runner per active agent; a cursor file that is
  behind, an event that does not fit the roster, and a pushed event each stop a machine, and how.
\<close>

section \<open>Runners\<close>

record acp_config =
  ac_Provider :: string
  ac_Executable :: string
  ac_Model :: string

record agent_assignment =
  aa_AgentName :: string
  aa_AgentDisplayName :: string
  aa_AcpConfig :: "acp_config option"

record agent_runner =
  ru_agentName :: string
  ru_agentID :: string
  ru_displayName :: string
  ru_config :: "acp_config option"

fun contains_text :: "string \<Rightarrow> string \<Rightarrow> bool" where
  "contains_text p [] = (p = [])"
| "contains_text p (c # s) = (starts_with p (c # s) \<or> contains_text p s)"

definition bareAgentID :: "string \<Rightarrow> string" where
  "bareAgentID name = rev (takeWhile (\<lambda>c. c \<noteq> CHR ''/'') (rev name))"

definition configFromAssignment :: "assignment_config option \<Rightarrow> acp_config option" where
  "configFromAssignment config =
     (case config of
        None \<Rightarrow> None
      | Some c \<Rightarrow>
          let ref = cf_PayloadReference c;
              provider = (if contains_text ''builtin-pi'' ref \<or> contains_text ''pi'' ref then ''builtin-pi''
                          else if contains_text ''codex'' ref then ''codex''
                          else if contains_text ''opencode'' ref then ''opencode''
                          else if contains_text ''claude'' ref then ''claude-code'' else ''custom'') in
          Some \<lparr>ac_Provider = provider, ac_Executable = ref, ac_Model = cf_Revision c\<rparr>)"

definition spawnOrUpdate :: "(string \<times> agent_runner) list \<Rightarrow> agent_assignment option \<Rightarrow> (string \<times> agent_runner) list" where
  "spawnOrUpdate runners a =
     (case a of
        None \<Rightarrow> runners
      | Some x \<Rightarrow>
          if aa_AgentName x = [] then runners
          else
            let i = bareAgentID (aa_AgentName x) in
            (case map_of runners i of
               Some r \<Rightarrow> assoc_set i (r\<lparr>ru_displayName := aa_AgentDisplayName x, ru_config := aa_AcpConfig x\<rparr>) runners
             | None \<Rightarrow> assoc_set i \<lparr>ru_agentName = aa_AgentName x, ru_agentID = i, ru_displayName = aa_AgentDisplayName x,
                                    ru_config = aa_AcpConfig x\<rparr> runners))"

definition stopRunner :: "(string \<times> agent_runner) list \<Rightarrow> string \<Rightarrow> (string \<times> agent_runner) list" where
  "stopRunner runners name = assoc_del (bareAgentID name) runners"

section \<open>The controller\<close>

record machine_client =
  mc_machineID :: string
  mc_reducer :: "reducer option"
  mc_runners :: "(string \<times> agent_runner) list"
  mc_state :: "assignment_cursor option"

definition reducer_of :: "machine_client \<Rightarrow> reducer" where
  "reducer_of c = (case mc_reducer c of None \<Rightarrow> NewReducer (mc_machineID c) | Some r \<Rightarrow> r)"

definition LastAcknowledgedCursor :: "machine_client \<Rightarrow> assignment_cursor option" where
  "LastAcknowledgedCursor c =
     (case mc_state c of
        Some x \<Rightarrow> Some x
      | None \<Rightarrow> (case mc_reducer c of None \<Rightarrow> None | Some r \<Rightarrow> rd_lastAcknowledged r))"

definition assignmentReplayCursor :: "machine_client \<Rightarrow> assignment_cursor option" where
  "assignmentReplayCursor c =
     (case mc_reducer c of
        None \<Rightarrow> None
      | Some r \<Rightarrow> if rd_lastSequence r = 0 then None else LastAcknowledgedCursor c)"

definition cursor_of :: "assignment_event \<Rightarrow> assignment_cursor" where
  "cursor_of e = \<lparr>cu_Sequence = ae_Sequence e, cu_EventId = ae_EventId e, cu_IdempotencyKey = ae_IdempotencyKey e\<rparr>"

text \<open>The runner of an applied event.\<close>

definition run_event :: "(string \<times> agent_runner) list \<Rightarrow> assignment_event \<Rightarrow> (string \<times> agent_runner) list option" where
  "run_event runners e =
     (let i = bareAgentID (ae_AgentResourceId e);
          spawn = spawnOrUpdate runners (Some \<lparr>aa_AgentName = ''agents/'' @ i, aa_AgentDisplayName = i,
                                               aa_AcpConfig = configFromAssignment (ae_Config e)\<rparr>) in
      case ae_EventType e of
        EventCREATE \<Rightarrow> Some spawn
      | EventCONFIG_UPDATE \<Rightarrow> Some spawn
      | EventREMOVE \<Rightarrow> Some (stopRunner runners i)
      | _ \<Rightarrow> None)"

definition ApplyAssignmentEvent ::
  "machine_client \<Rightarrow> bool \<Rightarrow> assignment_event option \<Rightarrow> (assignment_error + assignment_ack) \<times> machine_client" where
  "ApplyAssignmentEvent c saves event =
     (case event of
        None \<Rightarrow> (Inl ErrInvalidEvent, c)
      | Some e \<Rightarrow>
          (case ApplyEvent (reducer_of c) (Some e) of
             (Inl err, r) \<Rightarrow> (Inl err, c\<lparr>mc_reducer := Some r\<rparr>)
           | (Inr _, r) \<Rightarrow>
               (case run_event (mc_runners c) e of
                  None \<Rightarrow> (Inl ErrInvalidEvent, c\<lparr>mc_reducer := Some r\<rparr>)
                | Some runners \<Rightarrow>
                    let ack = \<lparr>ak_MachineResourceId = mc_machineID c, ak_AcknowledgedThrough = Some (cursor_of e)\<rparr> in
                    (case AcknowledgeAssignment r (Some ack) of
                       (Inl err, r') \<Rightarrow> (Inl err, c\<lparr>mc_reducer := Some r', mc_runners := runners\<rparr>)
                     | (Inr _, r') \<Rightarrow>
                         (Inr ack, c\<lparr>mc_reducer := Some r', mc_runners := runners,
                                     mc_state := (if saves then Some (cursor_of e) else mc_state c)\<rparr>)))))"

definition spawn_assigned :: "(string \<times> agent_runner) list \<Rightarrow> string \<times> assignment \<Rightarrow> (string \<times> agent_runner) list" where
  "spawn_assigned runners x =
     spawnOrUpdate runners (Some \<lparr>aa_AgentName = ''agents/'' @ fst x, aa_AgentDisplayName = fst x,
                                  aa_AcpConfig = configFromAssignment (as_Config (snd x))\<rparr>)"

definition ReconcileRoster :: "(string \<Rightarrow> nat) \<Rightarrow> machine_client \<Rightarrow> nat \<Rightarrow> string \<Rightarrow> machine_client" where
  "ReconcileRoster rank c highWatermark revision =
     (let r = reducer_of c; active = ActiveAssignments r;
          kept = foldl (\<lambda>rs i. if map_of active i = None then stopRunner rs i else rs) (mc_runners c)
                   (sort_key rank (map fst (mc_runners c))) in
      c\<lparr>mc_reducer := Some r, mc_runners := foldl spawn_assigned kept (sort_key (\<lambda>x. rank (fst x)) active)\<rparr>)"

fun apply_events ::
  "machine_client \<Rightarrow> (nat \<Rightarrow> bool) \<Rightarrow> assignment_ack option \<Rightarrow> assignment_event list \<Rightarrow> (assignment_error + assignment_ack option) \<times> machine_client" where
  "apply_events c saves lastAck [] = (Inr lastAck, c)"
| "apply_events c saves lastAck (e # es) =
     (case ApplyAssignmentEvent c (saves (length es)) (Some e) of
        (Inl err, c') \<Rightarrow> (Inl err, c')
      | (Inr ack, c') \<Rightarrow> apply_events c' saves (Some ack) es)"

definition ApplyAssignmentReplay ::
  "(string \<Rightarrow> nat) \<Rightarrow> machine_client \<Rightarrow> (nat \<Rightarrow> bool) \<Rightarrow> replay_response option \<Rightarrow> (assignment_error + assignment_ack option) \<times> machine_client" where
  "ApplyAssignmentReplay rank c saves replay =
     (case replay of
        None \<Rightarrow> (Inl ErrInvalidEvent, c)
      | Some p \<Rightarrow>
          if rs_Events p = [] \<and> \<not> (mc_reducer c \<noteq> None \<and> rd_lastSequence (reducer_of c) > 0) then (Inr None, c)
          else
            (case apply_events c saves None (rs_Events p) of
               (Inl err, c') \<Rightarrow> (Inl err, c')
             | (Inr lastAck, c') \<Rightarrow>
                 (Inr lastAck, ReconcileRoster rank c' (rs_AuthoritativeHighWatermark p) (rs_FullRosterRevision p))))"

definition replay_request_of :: "machine_client \<Rightarrow> replay_request" where
  "replay_request_of c = \<lparr>rq_MachineResourceId = mc_machineID c, rq_LastAcknowledged = assignmentReplayCursor c\<rparr>"

section \<open>The push through the outbox\<close>

text \<open>\<open>handleMachineAssignmentOutboxEvent\<close>: the message it hands to the session of the machine. \<open>decode\<close>
  reads the payload.\<close>

definition handleMachineAssignmentOutboxEvent ::
  "(string \<Rightarrow> assignment_event option) \<Rightarrow> outbox_event \<Rightarrow> assignment_event option" where
  "handleMachineAssignmentOutboxEvent decode ev =
     (if en_AggregateType ev \<noteq> ''machine_assignment'' \<or> en_AggregateID ev = [] then None
      else
        (case decode (en_Payload ev) of
           None \<Rightarrow> None
         | Some a \<Rightarrow>
             let a' = (if ae_MachineResourceId a = [] then a\<lparr>ae_MachineResourceId := en_AggregateID ev\<rparr> else a) in
             if ae_MachineResourceId a' \<noteq> en_AggregateID ev then None else Some a'))"

section \<open>A reducer that has applied a log\<close>

fun fold_assignments :: "(string \<times> assignment) list \<Rightarrow> assignment_event list \<Rightarrow> (string \<times> assignment) list option" where
  "fold_assignments as [] = Some as"
| "fold_assignments as (e # es) = (case apply_assignment as e of None \<Rightarrow> None | Some as' \<Rightarrow> fold_assignments as' es)"

lemma fold_assignments_append:
  "fold_assignments as (xs @ ys) = (case fold_assignments as xs of None \<Rightarrow> None | Some as' \<Rightarrow> fold_assignments as' ys)"
  by (induction xs arbitrary: as) (auto split: option.split)

lemma fold_assignments_prefix: "fold_assignments [] es \<noteq> None \<Longrightarrow> fold_assignments [] (take k es) \<noteq> None"
  by (metis append_take_drop_id fold_assignments_append option.case_eq_if)

definition good_log :: "string \<Rightarrow> assignment_event list \<Rightarrow> bool" where
  "good_log m es \<longleftrightarrow>
     (\<forall>k<length es. ae_Sequence (es ! k) = Suc k \<and> validateEvent (Some (es ! k)) m = Inr (es ! k)) \<and>
     distinct (map ae_EventId es) \<and> distinct (map ae_IdempotencyKey es) \<and> length es \<le> max_u64"

definition has_log :: "reducer \<Rightarrow> string \<Rightarrow> assignment_event list \<Rightarrow> bool" where
  "has_log r m es \<longleftrightarrow>
     rd_machineResourceID r = m \<and> rd_lastSequence r = length es \<and>
     (\<forall>n. rd_eventsBySequence r n = (if 1 \<le> n \<and> n \<le> length es then Some (es ! (n - 1)) else None)) \<and>
     dom (rd_eventIDs r) \<subseteq> ae_EventId ` set es \<and>
     dom (rd_idempotencyKeys r) \<subseteq> ae_IdempotencyKey ` set es \<and>
     fold_assignments [] es = Some (rd_assignments r)"

lemma has_log_new: "has_log (NewReducer m) m []"
  by (simp add: has_log_def NewReducer_def)

lemma distinct_take_fresh:
  assumes "distinct (map f xs)" and "k < length xs"
  shows "f (xs ! k) \<notin> f ` set (take k xs)"
proof -
  have "map f xs = map f (take k xs) @ f (xs ! k) # map f (drop (Suc k) xs)"
    using id_take_nth_drop [OF assms(2)] by (metis list.simps(9) map_append)
  then have "distinct (map f (take k xs) @ f (xs ! k) # map f (drop (Suc k) xs))" using assms(1) by simp
  then show ?thesis by auto
qed

lemma has_log_fresh:
  assumes "good_log m es" and "has_log r m (take k es)" and "k < length es"
  shows "\<not> taken (rd_eventIDs r) (ae_EventId (es ! k)) n" and "\<not> taken (rd_idempotencyKeys r) (ae_IdempotencyKey (es ! k)) n"
proof -
  have dom: "dom (rd_eventIDs r) \<subseteq> ae_EventId ` set (take k es)" "dom (rd_idempotencyKeys r) \<subseteq> ae_IdempotencyKey ` set (take k es)"
    using assms(2) by (simp_all add: has_log_def)
  have "ae_EventId (es ! k) \<notin> ae_EventId ` set (take k es)" "ae_IdempotencyKey (es ! k) \<notin> ae_IdempotencyKey ` set (take k es)"
    using assms(1,3) by (simp_all add: good_log_def distinct_take_fresh)
  with dom have "rd_eventIDs r (ae_EventId (es ! k)) = None" "rd_idempotencyKeys r (ae_IdempotencyKey (es ! k)) = None" by blast+
  then show "\<not> taken (rd_eventIDs r) (ae_EventId (es ! k)) n" "\<not> taken (rd_idempotencyKeys r) (ae_IdempotencyKey (es ! k)) n"
    by (simp_all add: taken_def)
qed

lemma ApplyEvent_next:
  assumes log: "good_log m es" and r: "has_log r m (take k es)" and k: "k < length es"
    and fits: "fold_assignments [] (take (Suc k) es) = Some as"
  shows "\<exists>r'. ApplyEvent r (Some (es ! k)) = (Inr (), r') \<and> has_log r' m (take (Suc k) es) \<and>
    rd_lastAcknowledged r' = rd_lastAcknowledged r"
proof -
  let ?e = "es ! k"
  have e: "ae_Sequence ?e = Suc k" "validateEvent (Some ?e) m = Inr ?e" using log k by (simp_all add: good_log_def)
  have last: "rd_lastSequence r = k" "rd_machineResourceID r = m" using r k by (simp_all add: has_log_def)
  have "Suc k \<le> max_u64" using log k by (simp add: good_log_def)
  then have n: "u64 (k + 1) = Suc k" by simp
  have t: "take (Suc k) es = take k es @ [?e]" using k by (rule take_Suc_conv_app_nth)
  have as: "apply_assignment (rd_assignments r) ?e = Some as"
    using r fits unfolding t fold_assignments_append by (auto simp: has_log_def split: option.splits)
  note i = has_log_fresh [OF log r k]
  let ?r = "r\<lparr>rd_assignments := as, rd_eventsBySequence := (rd_eventsBySequence r)(Suc k \<mapsto> ?e),
      rd_eventIDs := (rd_eventIDs r)(ae_EventId ?e \<mapsto> Suc k),
      rd_idempotencyKeys := (rd_idempotencyKeys r)(ae_IdempotencyKey ?e \<mapsto> Suc k), rd_lastSequence := Suc k\<rparr>"
  have "ApplyEvent r (Some ?e) = (Inr (), ?r)"
    using e last n i as by (simp add: ApplyEvent_def Let_def)
  moreover have "has_log ?r m (take (Suc k) es)"
    using r fits k unfolding has_log_def t by (auto simp: nth_append less_Suc_eq)
  ultimately show ?thesis by (intro exI [of _ ?r]) simp
qed

text \<open>An event of the log that was applied before, and one that does not fit.\<close>

lemma ApplyEvent_before:
  assumes "good_log m es" and "has_log r m (take k es)" and "j < k" and "k \<le> length es"
  shows "ApplyEvent r (Some (es ! j)) = (Inr (), r)"
proof -
  have "ae_Sequence (es ! j) = Suc j" "validateEvent (Some (es ! j)) m = Inr (es ! j)" using assms by (simp_all add: good_log_def)
  moreover have "rd_lastSequence r = k" "rd_machineResourceID r = m" "rd_eventsBySequence r (Suc j) = Some (es ! j)"
    using assms(2-4) by (simp_all add: has_log_def)
  ultimately show ?thesis using assms(3) by (simp add: ApplyEvent_def)
qed

lemma ApplyEvent_misfit:
  assumes "good_log m es" and "has_log r m (take k es)" and "k < length es"
    and "apply_assignment (rd_assignments r) (es ! k) = None"
  shows "ApplyEvent r (Some (es ! k)) = (Inl ErrInvalidEvent, r)"
proof -
  have e: "ae_Sequence (es ! k) = Suc k" "validateEvent (Some (es ! k)) m = Inr (es ! k)" using assms by (simp_all add: good_log_def)
  have "rd_lastSequence r = k" "rd_machineResourceID r = m" using assms(2,3) by (simp_all add: has_log_def)
  moreover have "Suc k \<le> max_u64" using assms(1,3) by (simp add: good_log_def)
  then have "u64 (k + 1) = Suc k" by simp
  ultimately show ?thesis using assms(4) e by (simp add: ApplyEvent_def Let_def)
qed

section \<open>The revision of the roster\<close>

definition revision_of :: "(string \<times> assignment) list \<Rightarrow> string \<Rightarrow> string option" where
  "revision_of as i = (case map_of as i of None \<Rightarrow> None | Some a \<Rightarrow> map_option cf_Revision (as_Config a))"

definition same_roster :: "(string \<times> assignment) list \<Rightarrow> (string \<times> string) list \<Rightarrow> bool" where
  "same_roster as active \<longleftrightarrow>
     distinct_keys as \<and> distinct_keys active \<and> map_of active = revision_of as \<and>
     (\<forall>i a. map_of as i = Some a \<longrightarrow> as_Config a \<noteq> None)"

lemma validateEvent_config:
  assumes "validateEvent (Some e) m = Inr e"
  shows "ae_EventType e \<in> {EventCREATE, EventCONFIG_UPDATE} \<and> (\<exists>c. ae_Config e = Some c) \<or> ae_EventType e = EventREMOVE"
  using assms by (auto simp: validateEvent_def config_complete_def split: option.splits if_splits assignment_event_type.splits)

lemma revision_of_set: "revision_of (assoc_set i a as) = (revision_of as)(i := map_option cf_Revision (as_Config a))"
  by (simp add: revision_of_def fun_eq_iff)

lemma revision_of_del: "revision_of (assoc_del i as) = (revision_of as)(i := None)"
  by (simp add: revision_of_def fun_eq_iff)

lemma same_roster_step:
  assumes s: "same_roster as active" and a: "apply_assignment as e = Some as'" and "validateEvent (Some e) m = Inr e"
  shows "same_roster as' (roster_update active e)"
proof (cases "ae_EventType e = EventREMOVE")
  case True
  then have "as' = assoc_del (ae_AgentResourceId e) as" "roster_update active e = assoc_del (ae_AgentResourceId e) active"
    using a by (simp_all add: apply_assignment_def roster_update_def Let_def split: if_splits)
  then show ?thesis using s by (auto simp: same_roster_def revision_of_del)
next
  case False
  with validateEvent_config [OF assms(3)] obtain c where c: "ae_Config e = Some c" "ae_EventType e \<in> {EventCREATE, EventCONFIG_UPDATE}"
    by blast
  let ?a = "\<lparr>as_AgentResourceID = ae_AgentResourceId e, as_Config = Some c\<rparr>"
  have "as' = assoc_set (ae_AgentResourceId e) ?a as"
    "roster_update active e = assoc_set (ae_AgentResourceId e) (cf_Revision c) active"
    using a c by (auto simp: apply_assignment_def roster_update_def Let_def split: if_splits)
  then show ?thesis using s by (auto simp: same_roster_def revision_of_set)
qed

lemma same_roster_fold:
  assumes "same_roster as active" and "fold_assignments as es = Some as'" and "\<forall>e\<in>set es. validateEvent (Some e) m = Inr e"
  shows "same_roster as' (foldl roster_update active es)"
  using assms
proof (induction es arbitrary: as active)
  case (Cons e es)
  then obtain as1 where "apply_assignment as e = Some as1" "fold_assignments as1 es = Some as'" by (auto split: option.splits)
  then show ?case using Cons same_roster_step [of as active e as1 m] by simp
qed simp

lemma same_roster_keys:
  assumes "same_roster as active"
  shows "sort (map fst as) = sort (map fst active)"
proof -
  have r: "map_of active = revision_of as" "\<And>i a. map_of as i = Some a \<Longrightarrow> as_Config a \<noteq> None"
    and d: "distinct (map fst as)" "distinct (map fst active)"
    using assms by (simp_all add: same_roster_def distinct_keys_def)
  have "dom (map_of active) = dom (map_of as)" unfolding r(1) using r(2)
    by (auto simp: revision_of_def split: option.splits)
  then have "set (map fst as) = set (map fst active)" by (simp add: dom_map_of_conv_image_fst)
  then have "mset (map fst as) = mset (map fst active)" using d set_eq_iff_mset_eq_distinct by blast
  then show ?thesis by (metis sorted_list_of_multiset_mset)
qed

lemma has_log_revision:
  assumes "good_log m es" and "has_log r m es"
  shows "FullRosterRevision sha r = ComputeFullRosterRevision sha es"
proof -
  have "\<forall>e\<in>set es. validateEvent (Some e) m = Inr e" using assms(1) by (auto simp: good_log_def in_set_conv_nth)
  moreover have "same_roster [] []" by (simp add: same_roster_def revision_of_def fun_eq_iff)
  ultimately have "same_roster (rd_assignments r) (foldl roster_update [] es)"
    using same_roster_fold [of "[]" "[]" es "rd_assignments r" m] assms(2) by (simp add: has_log_def)
  then show ?thesis
    by (simp add: FullRosterRevision_def ComputeFullRosterRevision_def ActiveAgentIDs_def Let_def same_roster_keys)
      (simp add: same_roster_def revision_of_def [abs_def])
qed

section \<open>A client that has applied part of a log\<close>

definition acked_at :: "assignment_event list \<Rightarrow> nat \<Rightarrow> assignment_cursor option" where
  "acked_at es k = (if k = 0 then None else Some (cursor_of (es ! (k - 1))))"

definition client_at :: "machine_client \<Rightarrow> assignment_event list \<Rightarrow> nat \<Rightarrow> bool" where
  "client_at c es k \<longleftrightarrow>
     k \<le> length es \<and> has_log (reducer_of c) (mc_machineID c) (take k es) \<and> rd_lastAcknowledged (reducer_of c) = acked_at es k"

lemma cursor_of_sel [simp]:
  "cu_Sequence (cursor_of e) = ae_Sequence e" "cu_EventId (cursor_of e) = ae_EventId e"
  "cu_IdempotencyKey (cursor_of e) = ae_IdempotencyKey e"
  by (simp_all add: cursor_of_def)

lemma good_log_nth:
  assumes "good_log m es" and "k < length es"
  shows "ae_Sequence (es ! k) = Suc k" and "validateEvent (Some (es ! k)) m = Inr (es ! k)" and "\<not> is_blank m"
proof -
  show "ae_Sequence (es ! k) = Suc k" and v: "validateEvent (Some (es ! k)) m = Inr (es ! k)" using assms by (simp_all add: good_log_def)
  show "\<not> is_blank m" using v by (auto simp: validateEvent_def)
qed

lemma Acknowledge_next:
  assumes log: "good_log m es" and r: "has_log r m (take (Suc k) es)" and k: "k < length es" and a: "rd_lastAcknowledged r = acked_at es k"
  shows "AcknowledgeAssignment r (Some \<lparr>ak_MachineResourceId = m, ak_AcknowledgedThrough = Some (cursor_of (es ! k))\<rparr>) =
    (Inr (), r\<lparr>rd_lastAcknowledged := Some (cursor_of (es ! k))\<rparr>)"
proof -
  note e = good_log_nth [OF log k]
  have "rd_machineResourceID r = m" "rd_lastSequence r = Suc k" "rd_eventsBySequence r (Suc k) = Some (es ! k)"
    using r k by (simp_all add: has_log_def)
  moreover from this have "Acknowledge_check r (cursor_of (es ! k)) = None" using e by (simp add: Acknowledge_check_def)
  moreover have "cu_Sequence p < Suc k" if "rd_lastAcknowledged r = Some p" for p
    using that a good_log_nth(1) [OF log, of "k - 1"] k by (auto simp: acked_at_def split: if_splits)
  ultimately show ?thesis using e by (auto simp: AcknowledgeAssignment_def split: option.split)
qed

lemma run_event_some: "validateEvent (Some e) m = Inr e \<Longrightarrow> \<exists>runners'. run_event runners e = Some runners'"
  using validateEvent_config [of e m] by (auto simp: run_event_def Let_def)

lemma reducer_of_some [simp]: "reducer_of (c\<lparr>mc_reducer := Some r, mc_runners := rs, mc_state := st\<rparr>) = r"
  "reducer_of (c\<lparr>mc_reducer := Some r, mc_runners := rs\<rparr>) = r" "reducer_of (c\<lparr>mc_reducer := Some r\<rparr>) = r"
  by (simp_all add: reducer_of_def)

lemma has_log_ack [simp]: "has_log (r\<lparr>rd_lastAcknowledged := a\<rparr>) m es = has_log r m es"
  by (simp add: has_log_def)

lemma client_step:
  assumes log: "good_log (mc_machineID c) es" and c: "client_at c es k" and k: "k < length es"
    and fits: "fold_assignments [] es \<noteq> None"
  shows "\<exists>c' runners. ApplyAssignmentEvent c sv (Some (es ! k)) =
      (Inr \<lparr>ak_MachineResourceId = mc_machineID c, ak_AcknowledgedThrough = Some (cursor_of (es ! k))\<rparr>, c') \<and>
    run_event (mc_runners c) (es ! k) = Some runners \<and> mc_runners c' = runners \<and>
    client_at c' es (Suc k) \<and> mc_machineID c' = mc_machineID c \<and> mc_reducer c' \<noteq> None \<and>
    mc_state c' = (if sv then Some (cursor_of (es ! k)) else mc_state c)"
proof -
  from fits obtain as where as: "fold_assignments [] (take (Suc k) es) = Some as" using fold_assignments_prefix by blast
  from c have r: "has_log (reducer_of c) (mc_machineID c) (take k es)" "rd_lastAcknowledged (reducer_of c) = acked_at es k"
    by (simp_all add: client_at_def)
  from ApplyEvent_next [OF log r(1) k as] obtain r' where
    r': "ApplyEvent (reducer_of c) (Some (es ! k)) = (Inr (), r')" "has_log r' (mc_machineID c) (take (Suc k) es)"
      "rd_lastAcknowledged r' = acked_at es k" using r(2) by auto
  note ack = Acknowledge_next [OF log r'(2) k r'(3)]
  obtain runners where runners: "run_event (mc_runners c) (es ! k) = Some runners"
    using run_event_some good_log_nth(2) [OF log k] by blast
  let ?c = "c\<lparr>mc_reducer := Some (r'\<lparr>rd_lastAcknowledged := Some (cursor_of (es ! k))\<rparr>), mc_runners := runners,
      mc_state := (if sv then Some (cursor_of (es ! k)) else mc_state c)\<rparr>"
  have "client_at ?c es (Suc k)" using r'(2) k by (simp add: client_at_def acked_at_def)
  then show ?thesis
    using r'(1) runners ack by (intro exI [of _ ?c]) (simp add: ApplyAssignmentEvent_def Let_def)
qed

lemma client_events:
  assumes "good_log (mc_machineID c) es" and "client_at c es k" and "fold_assignments [] es \<noteq> None"
  shows "\<exists>ack c'. apply_events c saves a (drop k es) = (Inr ack, c') \<and> client_at c' es (length es) \<and>
    mc_machineID c' = mc_machineID c \<and>
    (k < length es \<longrightarrow> mc_reducer c' \<noteq> None \<and>
       ack = Some \<lparr>ak_MachineResourceId = mc_machineID c, ak_AcknowledgedThrough = acked_at es (length es)\<rparr> \<and>
       (saves 0 \<longrightarrow> mc_state c' = acked_at es (length es))) \<and>
    (k = length es \<longrightarrow> c' = c)"
  using assms
proof (induction "length es - k" arbitrary: c k a)
  case 0
  then have "k = length es" by (simp add: client_at_def)
  then show ?case using 0 by simp
next
  case (Suc d)
  then have k: "k < length es" by simp
  then have dr: "drop k es = es ! k # drop (Suc k) es" by (rule Cons_nth_drop_Suc [symmetric])
  let ?ack = "\<lparr>ak_MachineResourceId = mc_machineID c, ak_AcknowledgedThrough = Some (cursor_of (es ! k))\<rparr>"
  let ?sv = "saves (length es - Suc k)"
  from client_step [OF Suc.prems(1,2) k Suc.prems(3), of ?sv] obtain c1 where
    c1: "ApplyAssignmentEvent c ?sv (Some (es ! k)) = (Inr ?ack, c1)" "client_at c1 es (Suc k)"
      "mc_machineID c1 = mc_machineID c" "mc_reducer c1 \<noteq> None" "mc_state c1 = (if ?sv then Some (cursor_of (es ! k)) else mc_state c)"
    by blast
  have "d = length es - Suc k" using Suc.hyps(2) by simp
  from Suc.hyps(1) [OF this, of c1 "Some ?ack"] c1 Suc.prems obtain ack c' where
    c': "apply_events c1 saves (Some ?ack) (drop (Suc k) es) = (Inr ack, c')" "client_at c' es (length es)"
      "mc_machineID c' = mc_machineID c" and
    more: "Suc k < length es \<longrightarrow> mc_reducer c' \<noteq> None \<and>
       ack = Some \<lparr>ak_MachineResourceId = mc_machineID c, ak_AcknowledgedThrough = acked_at es (length es)\<rparr> \<and>
       (saves 0 \<longrightarrow> mc_state c' = acked_at es (length es))"
      "Suc k = length es \<longrightarrow> c' = c1"
    by auto
  have "apply_events c saves a (drop k es) = (Inr ack, c')" using c1(1) c'(1) by (simp add: dr)
  moreover have "mc_reducer c' \<noteq> None \<and>
       ack = Some \<lparr>ak_MachineResourceId = mc_machineID c, ak_AcknowledgedThrough = acked_at es (length es)\<rparr> \<and>
       (saves 0 \<longrightarrow> mc_state c' = acked_at es (length es))"
  proof (cases "Suc k = length es")
    case True
    then have "drop (Suc k) es = []" by simp
    then have "ack = Some ?ack" "c' = c1" using c'(1) by simp_all
    moreover have "acked_at es (length es) = Some (cursor_of (es ! k))" using True by (metis acked_at_def diff_Suc_1 nat.distinct(1))
    ultimately show ?thesis using c1(4,5) True by simp
  next
    case False
    then show ?thesis using more(1) k by simp
  qed
  ultimately show ?case using c' k by auto
qed

section \<open>Reconciliation of the runners\<close>

lemma keys_assoc_del [simp]: "fst ` set (assoc_del k m) = fst ` set m - {k}"
  by (force simp: assoc_del_def)

lemma bareAgentID_plain [simp]: "CHR ''/'' \<notin> set i \<Longrightarrow> bareAgentID i = i"
proof -
  assume "CHR ''/'' \<notin> set i"
  then have "takeWhile (\<lambda>c. c \<noteq> CHR ''/'') (rev i) = rev i" by (intro takeWhile_eq_all_conv [THEN iffD2]) auto
  then show ?thesis unfolding bareAgentID_def by (metis rev_rev_ident)
qed

lemma slash_notin_bareAgentID: "CHR ''/'' \<notin> set (bareAgentID n)"
  by (auto simp: bareAgentID_def dest: set_takeWhileD)

lemma bareAgentID_agents: "bareAgentID (''agents/'' @ i) = bareAgentID i"
proof (cases "CHR ''/'' \<in> set i")
  case True
  then have "takeWhile (\<lambda>c. c \<noteq> CHR ''/'') (rev i @ rev ''agents/'') = takeWhile (\<lambda>c. c \<noteq> CHR ''/'') (rev i)"
    by (intro takeWhile_append1) auto
  then show ?thesis unfolding bareAgentID_def by simp
next
  case False
  then have "takeWhile (\<lambda>c. c \<noteq> CHR ''/'') (rev i @ rev ''agents/'') = rev i @ takeWhile (\<lambda>c. c \<noteq> CHR ''/'') (rev ''agents/'')"
    by (intro takeWhile_append2) auto
  then show ?thesis using False unfolding bareAgentID_plain [OF False] by (simp add: bareAgentID_def)
qed

lemmas bareAgentID_agents_cons [simp] = bareAgentID_agents [simplified]

lemma keys_spawn: "aa_AgentName x \<noteq> [] \<Longrightarrow> fst ` set (spawnOrUpdate rs (Some x)) = insert (bareAgentID (aa_AgentName x)) (fst ` set rs)"
  by (simp add: spawnOrUpdate_def Let_def split: option.split)

lemma keys_spawn_assigned [simp]: "fst ` set (spawn_assigned rs x) = insert (bareAgentID (fst x)) (fst ` set rs)"
  by (simp add: spawn_assigned_def keys_spawn)

lemma keys_spawn_all: "fst ` set (foldl spawn_assigned rs xs) = fst ` set rs \<union> (bareAgentID \<circ> fst) ` set xs"
  by (induction xs arbitrary: rs) auto

lemma keys_stop_all:
  assumes "\<forall>i\<in>set is. CHR ''/'' \<notin> set i"
  shows "fst ` set (foldl (\<lambda>rs i. if map_of active i = None then stopRunner rs i else rs) rs is) =
    fst ` set rs - {i \<in> set is. map_of active i = None}"
  using assms by (induction "is" arbitrary: rs) (auto simp: stopRunner_def)

text \<open>The configuration of the runner of an agent, after all active agents were started.\<close>

lemma config_spawn_assigned:
  assumes "CHR ''/'' \<notin> set (fst x)"
  shows "map_option ru_config (map_of (spawn_assigned rs x) i) =
    (if i = fst x then Some (configFromAssignment (as_Config (snd x))) else map_option ru_config (map_of rs i))"
  using assms by (simp add: spawn_assigned_def spawnOrUpdate_def Let_def split: option.split)

lemma config_spawn_all:
  assumes "distinct_keys xs" and "\<forall>x\<in>set xs. CHR ''/'' \<notin> set (fst x)" and "(i, a) \<in> set xs"
  shows "map_option ru_config (map_of (foldl spawn_assigned rs xs) i) = Some (configFromAssignment (as_Config a))"
  using assms
proof (induction xs rule: rev_induct)
  case (snoc x xs)
  have x: "CHR ''/'' \<notin> set (fst x)" using snoc.prems(2) by simp
  show ?case
  proof (cases "x = (i, a)")
    case True
    then show ?thesis using config_spawn_assigned [OF x] by simp
  next
    case False
    then have "(i, a) \<in> set xs" using snoc.prems(3) by auto
    moreover have "fst x \<notin> fst ` set xs" using snoc.prems(1) by (simp add: distinct_keys_def)
    ultimately have "i \<noteq> fst x" by (metis fst_conv image_eqI)
    moreover note \<open>(i, a) \<in> set xs\<close>
    ultimately show ?thesis
      using snoc config_spawn_assigned [OF x] by (simp add: distinct_keys_def)
  qed
qed simp

definition runners_bare :: "machine_client \<Rightarrow> bool" where
  "runners_bare c \<longleftrightarrow> (\<forall>i\<in>fst ` set (mc_runners c). CHR ''/'' \<notin> set i)"

lemma reconcile_runners:
  assumes "runners_bare c" and "active = ActiveAssignments (reducer_of c)"
  shows "fst ` set (mc_runners (ReconcileRoster rank c n rv)) = bareAgentID ` fst ` set active"
proof -
  let ?kept = "foldl (\<lambda>rs i. if map_of active i = None then stopRunner rs i else rs) (mc_runners c) (sort_key rank (map fst (mc_runners c)))"
  have "fst ` set ?kept = fst ` set (mc_runners c) - {i \<in> fst ` set (mc_runners c). map_of active i = None}"
    using keys_stop_all [of "sort_key rank (map fst (mc_runners c))" active "mc_runners c"] assms(1) by (auto simp: runners_bare_def)
  also have "\<dots> = {i \<in> fst ` set (mc_runners c). i \<in> fst ` set active}"
    by (auto simp: map_of_eq_None_iff)
  finally have "fst ` set ?kept \<subseteq> bareAgentID ` fst ` set active"
    using assms(1) by (force simp: runners_bare_def image_iff)
  then have "fst ` set ?kept \<union> (bareAgentID \<circ> fst) ` set active = bareAgentID ` fst ` set active"
    by (auto simp: image_comp)
  moreover have "mc_runners (ReconcileRoster rank c n rv) = foldl spawn_assigned ?kept (sort_key (\<lambda>x. rank (fst x)) active)"
    by (simp add: ReconcileRoster_def Let_def assms(2))
  ultimately show ?thesis by (simp add: keys_spawn_all)
qed

section \<open>The replay of the manager\<close>

definition times_ok :: "assignment_db \<Rightarrow> string \<Rightarrow> bool" where
  "times_ok db m \<longleftrightarrow> (\<forall>r\<in>set (rows_of db m). CheckValid (timestamp_of (ar_created_at r)))"

lemma event_of_row_sel [simp]:
  "ae_Sequence (event_of_row r) = ar_sequence r" "ae_EventId (event_of_row r) = ar_event_id r"
  "ae_IdempotencyKey (event_of_row r) = ar_idempotency_key r" "ae_MachineResourceId (event_of_row r) = ar_machine_resource_id r"
  "ae_AgentResourceId (event_of_row r) = ar_agent_resource_id r"
  by (simp_all add: event_of_row_def buildAssignmentEventProto_def)

lemma event_of_row_valid:
  assumes "assignment_row_ok r" and "0 < ar_sequence r" and "CheckValid (timestamp_of (ar_created_at r))"
  shows "validateEvent (Some (event_of_row r)) (ar_machine_resource_id r) = Inr (event_of_row r)"
proof -
  have t: "ae_CreatedAt (event_of_row r) = Some (timestamp_of (ar_created_at r))"
    by (simp add: event_of_row_def buildAssignmentEventProto_def)
  have "ae_EventType (event_of_row r) \<in> {EventCREATE, EventCONFIG_UPDATE} \<and> config_complete (ae_Config (event_of_row r)) \<or>
      ae_EventType (event_of_row r) = EventREMOVE \<and> ae_Config (event_of_row r) = None"
    using assms(1)
    by (auto simp: assignment_row_ok_def event_of_row_def buildAssignmentEventProto_def stringToEventType_def config_complete_def)
  then show ?thesis using assms t by (auto simp: validateEvent_def assignment_row_ok_def)
qed

lemma good_log_of_manager:
  assumes inv: "log_inv sha db" and times: "times_ok db m"
  shows "good_log m (log_of db m)"
proof -
  have ok: "machine_log_ok sha (rows_of db m) (map_of (ad_states db) m)" and num: "numbered (rows_of db m)"
    using machine_log_okD [OF inv] by blast+
  have "ae_Sequence (log_of db m ! k) = Suc k \<and> validateEvent (Some (log_of db m ! k)) m = Inr (log_of db m ! k)"
    if k: "k < length (log_of db m)" for k
  proof -
    let ?r = "rows_of db m ! k"
    have r: "?r \<in> set (rows_of db m)" using k by simp
    then have "assignment_row_ok ?r" "ar_machine_resource_id ?r = m" "CheckValid (timestamp_of (ar_created_at ?r))"
      using inv times by (auto simp: log_inv_machines rows_of_def times_ok_def)
    moreover have "ar_sequence ?r = Suc k" using numbered_nth [OF num] k by simp
    ultimately show ?thesis using event_of_row_valid [of ?r] k by simp
  qed
  moreover have "map ae_EventId (log_of db m) = map ar_event_id (rows_of db m)"
    "map ae_IdempotencyKey (log_of db m) = map ar_idempotency_key (rows_of db m)" by simp_all
  moreover have "length (rows_of db m) \<le> max_u64" using ok by (simp add: machine_log_ok_def is_i64_def)
  ultimately show ?thesis using ok unfolding good_log_def machine_log_ok_def by (metis length_map)
qed

text \<open>What a machine gets that has the first \<open>k\<close> events and asks with their cursor.\<close>

lemma replay_of_manager:
  assumes inv: "log_inv sha db" and ok: "ad_fault db = (\<lambda>_. False)" and m: "\<not> is_blank m"
    and k: "k \<le> length (log_of db m)" and c: "cursor = acked_at (log_of db m) k"
  shows "\<exists>p. GetMachineAssignmentReplay sha db (Some \<lparr>rq_MachineResourceId = m, rq_LastAcknowledged = cursor\<rparr>) = Inr p \<and>
    rs_Events p = drop k (log_of db m) \<and> rs_AuthoritativeHighWatermark p = length (log_of db m) \<and>
    (log_of db m \<noteq> [] \<longrightarrow> rs_FullRosterRevision p = ComputeFullRosterRevision sha (log_of db m))"
proof -
  have log: "machine_log_ok sha (rows_of db m) (map_of (ad_states db) m)" and num: "numbered (rows_of db m)"
    using machine_log_okD [OF inv] by blast+
  have "replay_after db m cursor = Inr k"
  proof (cases k)
    case 0
    then show ?thesis using c by (simp add: replay_after_def acked_at_def)
  next
    case (Suc j)
    let ?r = "rows_of db m ! j"
    have j: "j < length (rows_of db m)" using k Suc by simp
    then have "cursor = Some \<lparr>cu_Sequence = Suc j, cu_EventId = ar_event_id ?r, cu_IdempotencyKey = ar_idempotency_key ?r\<rparr>"
      using c Suc numbered_nth [OF num j] by (simp add: acked_at_def cursor_of_def)
    moreover have "is_i64 (int (Suc j))" using log j by (auto simp: machine_log_ok_def is_i64_def)
    ultimately show ?thesis using row_at_nth [OF num j] ok Suc by (simp add: replay_after_def)
  qed
  moreover note list_events_numbered [OF num]
  ultimately show ?thesis
    using ok m log by (auto simp: GetMachineAssignmentReplay_def Let_def machine_log_ok_def split: option.splits)
qed

section \<open>Replaying into a client\<close>

lemma run_event_bare:
  assumes "\<forall>i\<in>fst ` set rs. CHR ''/'' \<notin> set i" and "run_event rs e = Some rs'"
  shows "\<forall>i\<in>fst ` set rs'. CHR ''/'' \<notin> set i"
proof -
  let ?i = "bareAgentID (ae_AgentResourceId e)"
  let ?x = "\<lparr>aa_AgentName = ''agents/'' @ ?i, aa_AgentDisplayName = ?i, aa_AcpConfig = configFromAssignment (ae_Config e)\<rparr>"
  have "rs' = spawnOrUpdate rs (Some ?x) \<or> rs' = stopRunner rs ?i"
    using assms(2) by (auto simp: run_event_def Let_def split: assignment_event_type.splits)
  moreover have "fst ` set (spawnOrUpdate rs (Some ?x)) = insert (bareAgentID (''agents/'' @ ?i)) (fst ` set rs)"
    using keys_spawn [of ?x rs] by simp
  moreover have "fst ` set (stopRunner rs ?i) \<subseteq> fst ` set rs" by (auto simp: stopRunner_def assoc_del_def)
  ultimately have "fst ` set rs' \<subseteq> insert (bareAgentID (''agents/'' @ ?i)) (fst ` set rs)" by blast
  then obtain n where "fst ` set rs' \<subseteq> insert (bareAgentID n) (fst ` set rs)" ..
  then have "i = bareAgentID n \<or> i \<in> fst ` set rs" if "i \<in> fst ` set rs'" for i using that by blast
  then show ?thesis using assms(1) slash_notin_bareAgentID [of n] by metis
qed

lemma ApplyAssignmentEvent_runners:
  "mc_runners (snd (ApplyAssignmentEvent c sv event)) = mc_runners c \<or>
   (\<exists>e. run_event (mc_runners c) e = Some (mc_runners (snd (ApplyAssignmentEvent c sv event))))"
proof (cases event)
  case (Some e)
  show ?thesis
  proof (cases "run_event (mc_runners c) e")
    case None
    then show ?thesis using Some by (simp add: ApplyAssignmentEvent_def split: prod.split sum.split)
  next
    case (Some rs)
    then show ?thesis using \<open>event = Some e\<close>
      by (auto simp: ApplyAssignmentEvent_def Let_def split: prod.split sum.split)
  qed
qed (simp add: ApplyAssignmentEvent_def)

lemma ApplyAssignmentEvent_bare:
  assumes "runners_bare c"
  shows "runners_bare (snd (ApplyAssignmentEvent c sv e))"
  using ApplyAssignmentEvent_runners [of c sv e] assms run_event_bare unfolding runners_bare_def by metis

lemma apply_events_bare: "runners_bare c \<Longrightarrow> runners_bare (snd (apply_events c saves a es))"
proof (induction es arbitrary: c a)
  case (Cons e es)
  obtain res c' where r: "ApplyAssignmentEvent c (saves (length es)) (Some e) = (res, c')"
    by (cases "ApplyAssignmentEvent c (saves (length es)) (Some e)")
  then have "runners_bare c'" using ApplyAssignmentEvent_bare [OF Cons.prems] by (metis snd_conv)
  then show ?case using r Cons.IH by (cases res) simp_all
qed simp

lemma distinct_keys_sort_key: "distinct_keys xs \<Longrightarrow> distinct_keys (sort_key f xs)"
proof -
  assume "distinct_keys xs"
  moreover have "mset (map fst (sort_key f xs)) = mset (map fst xs)" by simp
  ultimately show ?thesis unfolding distinct_keys_def by (metis mset_eq_imp_distinct_iff)
qed

lemma has_log_distinct:
  assumes "good_log m es" and "has_log r m es"
  shows "distinct_keys (rd_assignments r)"
proof -
  have "\<forall>e\<in>set es. validateEvent (Some e) m = Inr e" using assms(1) by (auto simp: good_log_def in_set_conv_nth)
  moreover have "same_roster [] []" by (simp add: same_roster_def revision_of_def fun_eq_iff)
  ultimately show ?thesis
    using same_roster_fold [of "[]" "[]" es "rd_assignments r" m] assms(2) by (simp add: has_log_def same_roster_def)
qed

lemma ReconcileRoster_client [simp]:
  "reducer_of (ReconcileRoster rank c n rv) = reducer_of c" "mc_machineID (ReconcileRoster rank c n rv) = mc_machineID c"
  "client_at (ReconcileRoster rank c n rv) es k = client_at c es k"
  by (simp_all add: ReconcileRoster_def Let_def client_at_def)

lemma reconcile_configs:
  assumes "distinct_keys (ActiveAssignments (reducer_of c))" and "\<forall>x\<in>set (ActiveAssignments (reducer_of c)). CHR ''/'' \<notin> set (fst x)"
    and "(i, a) \<in> set (ActiveAssignments (reducer_of c))"
  shows "map_option ru_config (map_of (mc_runners (ReconcileRoster rank c n rv)) i) = Some (configFromAssignment (as_Config a))"
  unfolding ReconcileRoster_def Let_def
  using config_spawn_all [OF distinct_keys_sort_key [OF assms(1), of "\<lambda>x. rank (fst x)"]] assms(2,3) by simp

lemma replay_cursor:
  assumes "client_at c es k" and "k = 0 \<or> LastAcknowledgedCursor c = acked_at es k"
  shows "assignmentReplayCursor c = acked_at es k"
proof -
  have last: "rd_lastSequence (reducer_of c) = k" using assms(1) by (simp add: client_at_def has_log_def)
  show ?thesis
  proof (cases "mc_reducer c")
    case None
    then have "k = 0" using last by (simp add: reducer_of_def NewReducer_def)
    then show ?thesis using None by (simp add: assignmentReplayCursor_def acked_at_def)
  next
    case (Some r)
    then have "rd_lastSequence r = k" using last by (simp add: reducer_of_def)
    then show ?thesis using Some assms(2) by (auto simp: assignmentReplayCursor_def acked_at_def)
  qed
qed

text \<open>A client that has the first \<open>k\<close> events and is given the rest has them all.\<close>

lemma replay_into_client:
  assumes log: "good_log (mc_machineID c) es" and c: "client_at c es k" and fits: "fold_assignments [] es \<noteq> None"
    and es: "es \<noteq> []" and p: "rs_Events p = drop k es" and bare: "runners_bare c"
  shows "\<exists>ack c'. ApplyAssignmentReplay rank c saves (Some p) = (Inr ack, c') \<and> client_at c' es (length es) \<and>
    mc_machineID c' = mc_machineID c \<and>
    fst ` set (mc_runners c') = bareAgentID ` fst ` set (ActiveAssignments (reducer_of c')) \<and>
    ((\<forall>x\<in>set (ActiveAssignments (reducer_of c')). CHR ''/'' \<notin> set (fst x)) \<longrightarrow>
      (\<forall>(i, a)\<in>set (ActiveAssignments (reducer_of c')).
         map_option ru_config (map_of (mc_runners c') i) = Some (configFromAssignment (as_Config a))))"
proof -
  from client_events [OF log c fits, of saves None] obtain ack c1 where
    c1: "apply_events c saves None (drop k es) = (Inr ack, c1)" "client_at c1 es (length es)" "mc_machineID c1 = mc_machineID c"
    by blast
  have bare1: "runners_bare c1" using apply_events_bare [OF bare, of saves None "drop k es"] c1(1) by simp
  have h: "has_log (reducer_of c1) (mc_machineID c1) es" using c1(2) by (simp add: client_at_def)
  then have dist: "distinct_keys (ActiveAssignments (reducer_of c1))"
    using has_log_distinct [of "mc_machineID c1" es] log c1(3) by (simp add: ActiveAssignments_def)
  have "rs_Events p \<noteq> [] \<or> mc_reducer c \<noteq> None \<and> 0 < rd_lastSequence (reducer_of c)"
  proof (cases "k < length es")
    case False
    then have "k = length es" using c by (simp add: client_at_def)
    then have "0 < rd_lastSequence (reducer_of c)" using c es by (simp add: client_at_def has_log_def)
    then show ?thesis by (cases "mc_reducer c") (simp_all add: reducer_of_def NewReducer_def)
  qed (simp add: p)
  then have run: "ApplyAssignmentReplay rank c saves (Some p) =
      (Inr ack, ReconcileRoster rank c1 (rs_AuthoritativeHighWatermark p) (rs_FullRosterRevision p))"
    using c1(1) p by (auto simp: ApplyAssignmentReplay_def)
  let ?c = "ReconcileRoster rank c1 (rs_AuthoritativeHighWatermark p) (rs_FullRosterRevision p)"
  have "fst ` set (mc_runners ?c) = bareAgentID ` fst ` set (ActiveAssignments (reducer_of ?c))"
    using reconcile_runners [OF bare1 refl] by simp
  then show ?thesis using run c1(2,3) reconcile_configs [OF dist] by (intro exI [of _ ack] exI [of _ ?c]) auto
qed

text \<open>A client that is given an event again that is not the last one it acknowledged.\<close>

lemma client_again:
  assumes log: "good_log (mc_machineID c) es" and c: "client_at c es k" and j: "Suc j < k"
  shows "\<exists>c'. ApplyAssignmentEvent c sv (Some (es ! j)) = (Inl ErrAckRegression, c') \<and>
    reducer_of c' = reducer_of c \<and> mc_state c' = mc_state c"
proof -
  let ?r = "reducer_of c" and ?e = "es ! j"
  have k: "k \<le> length es" and r: "has_log ?r (mc_machineID c) (take k es)" and a: "rd_lastAcknowledged ?r = acked_at es k"
    using c by (simp_all add: client_at_def)
  then have jl: "j < length es" and kl: "k - 1 < length es" using j by simp_all
  note e = good_log_nth [OF log jl]
  obtain rs where rs: "run_event (mc_runners c) ?e = Some rs" using run_event_some e(2) by blast
  have p: "acked_at es k = Some (cursor_of (es ! (k - 1)))" "ae_Sequence (es ! (k - 1)) = k"
    using j good_log_nth(1) [OF log kl] by (simp_all add: acked_at_def)
  have "Acknowledge_check ?r (cursor_of ?e) = None" using r e(1) j k by (simp add: Acknowledge_check_def has_log_def)
  then have "AcknowledgeAssignment ?r (Some \<lparr>ak_MachineResourceId = mc_machineID c, ak_AcknowledgedThrough = Some (cursor_of ?e)\<rparr>) =
      (Inl ErrAckRegression, ?r)"
    using a p e j r by (simp add: AcknowledgeAssignment_def has_log_def)
  moreover have "ApplyEvent ?r (Some ?e) = (Inr (), ?r)" using ApplyEvent_before [OF log r _ k] j by simp
  ultimately show ?thesis using rs by (simp add: ApplyAssignmentEvent_def)
qed

lemma apply_events_append:
  "apply_events c saves a (xs @ ys) =
     (case apply_events c (\<lambda>n. saves (n + length ys)) a xs of
        (Inl err, c') \<Rightarrow> (Inl err, c')
      | (Inr a', c') \<Rightarrow> apply_events c' saves a' ys)"
  by (induction xs arbitrary: c a) (auto split: prod.split sum.split)

lemma good_log_take: "good_log m es \<Longrightarrow> good_log m (take j es)"
  unfolding good_log_def by (auto simp: take_map [symmetric] distinct_take)

lemma client_at_take: "client_at c es k \<Longrightarrow> k \<le> j \<Longrightarrow> client_at c (take j es) k"
  by (auto simp: client_at_def min_def acked_at_def)

lemma client_at_of_take: "client_at c (take j es) j \<Longrightarrow> j \<le> length es \<Longrightarrow> client_at c es j"
  by (auto simp: client_at_def acked_at_def min_def)

lemma client_misfit:
  assumes log: "good_log (mc_machineID c) es" and c: "client_at c es k" and k: "k \<le> j" "j < length es"
    and fits: "fold_assignments [] (take j es) \<noteq> None" and misfit: "fold_assignments [] (take (Suc j) es) = None"
  shows "\<exists>c'. apply_events c saves a (drop k es) = (Inl ErrInvalidEvent, c') \<and> client_at c' es j"
proof -
  have split: "drop k es = drop k (take j es) @ es ! j # drop (Suc j) es"
    using k by (metis Cons_nth_drop_Suc append_take_drop_id drop_append drop_drop drop_take le_add_diff_inverse2 length_take min.absorb4 min_def
        diff_is_0_eq' drop_0)
  from client_events [OF good_log_take [OF log] client_at_take [OF c k(1)] fits] obtain ack c1 where
    c1: "apply_events c (\<lambda>n. saves (n + length (es ! j # drop (Suc j) es))) a (drop k (take j es)) = (Inr ack, c1)"
      "client_at c1 (take j es) (length (take j es))" "mc_machineID c1 = mc_machineID c"
    by blast
  have at: "client_at c1 es j" using c1(2) k(2) client_at_of_take by (simp add: min_def)
  then have h: "has_log (reducer_of c1) (mc_machineID c) (take j es)" using c1(3) by (simp add: client_at_def)
  have "take (Suc j) es = take j es @ [es ! j]" using k(2) by (rule take_Suc_conv_app_nth)
  then have "apply_assignment (rd_assignments (reducer_of c1)) (es ! j) = None"
    using misfit h by (simp add: fold_assignments_append has_log_def split: option.splits)
  from ApplyEvent_misfit [OF log h k(2) this] have
    "ApplyAssignmentEvent c1 sv (Some (es ! j)) = (Inl ErrInvalidEvent, c1\<lparr>mc_reducer := Some (reducer_of c1)\<rparr>)" for sv
    by (simp add: ApplyAssignmentEvent_def)
  then have "apply_events c saves a (drop k es) = (Inl ErrInvalidEvent, c1\<lparr>mc_reducer := Some (reducer_of c1)\<rparr>)"
    unfolding split apply_events_append using c1(1) by simp
  moreover have "client_at (c1\<lparr>mc_reducer := Some (reducer_of c1)\<rparr>) es j" using at by (simp add: client_at_def)
  ultimately show ?thesis by blast
qed

section \<open>Properties\<close>

text \<open>What the manager and a machine that is up to date with the first \<open>k\<close> events are at a
  connection, and what they exchange.\<close>

definition connected :: "(string \<Rightarrow> string) \<Rightarrow> assignment_db \<Rightarrow> machine_client \<Rightarrow> nat \<Rightarrow> bool" where
  "connected sha db c k \<longleftrightarrow>
     log_inv sha db \<and> ad_fault db = (\<lambda>_. False) \<and> times_ok db (mc_machineID c) \<and> \<not> is_blank (mc_machineID c) \<and>
     client_at c (log_of db (mc_machineID c)) k \<and> runners_bare c"

lemma connected_history:
  assumes "empty_log db0" and "ad_fault db0 = (\<lambda>_. False)" and "db = foldl (log_step sha micro encode) db0 ops"
  shows "log_inv sha db" and "ad_fault db = (\<lambda>_. False)"
proof -
  show "log_inv sha db" unfolding assms(3) by (rule assignment_log.invar_history [OF assms(1)]) simp
  show "ad_fault db = (\<lambda>_. False)" unfolding assms(3) log_run_fault by (rule assms(2))
qed

lemma first_misfit:
  assumes "fold_assignments [] es = None"
  shows "\<exists>j. j < length es \<and> fold_assignments [] (take j es) \<noteq> None \<and> fold_assignments [] (take (Suc j) es) = None"
proof -
  define j where "j = (LEAST j. fold_assignments [] (take (Suc j) es) = None)"
  have "es \<noteq> []" using assms by auto
  then have ex: "fold_assignments [] (take (Suc (length es - 1)) es) = None" using assms by simp
  have no: "fold_assignments [] (take (Suc j) es) = None" unfolding j_def using ex by (rule LeastI)
  have "j \<le> length es - 1" unfolding j_def using ex by (rule Least_le)
  then have "j < length es" using \<open>es \<noteq> []\<close> by (cases es) auto
  moreover have "fold_assignments [] (take j es) \<noteq> None"
  proof (cases j)
    case (Suc i)
    then show ?thesis using not_less_Least [of i "\<lambda>j. fold_assignments [] (take (Suc j) es) = None"] by (simp add: j_def)
  qed simp
  ultimately show ?thesis using no by blast
qed

lemma misfit_after:
  assumes "client_at c es k" and "fold_assignments [] (take (Suc j) es) = None"
  shows "k \<le> j"
proof (rule ccontr)
  assume "\<not> k \<le> j"
  then have "take (Suc j) (take k es) = take (Suc j) es" by (simp add: min_def)
  then have "fold_assignments [] (take k es) = None" using assms(2) fold_assignments_prefix by metis
  then show False using assms(1) by (simp add: client_at_def has_log_def)
qed

lemma converging_replay:
  assumes "connected sha db c k" and "log_of db (mc_machineID c) \<noteq> []"
    and "k = 0 \<or> LastAcknowledgedCursor c = acked_at (log_of db (mc_machineID c)) k"
    and "fold_assignments [] (log_of db (mc_machineID c)) \<noteq> None"
  shows "\<exists>p ack c'. GetMachineAssignmentReplay sha db (Some (replay_request_of c)) = Inr p \<and>
    ApplyAssignmentReplay rank c saves (Some p) = (Inr ack, c') \<and>
    client_at c' (log_of db (mc_machineID c)) (length (log_of db (mc_machineID c))) \<and>
    rd_lastSequence (reducer_of c') = rs_AuthoritativeHighWatermark p \<and>
    FullRosterRevision sha (reducer_of c') = rs_FullRosterRevision p \<and>
    fst ` set (mc_runners c') = bareAgentID ` fst ` set (ActiveAssignments (reducer_of c')) \<and>
    ((\<forall>x\<in>set (ActiveAssignments (reducer_of c')). CHR ''/'' \<notin> set (fst x)) \<longrightarrow>
      (\<forall>(i, a)\<in>set (ActiveAssignments (reducer_of c')).
         map_option ru_config (map_of (mc_runners c') i) = Some (configFromAssignment (as_Config a))))"
proof -
  let ?m = "mc_machineID c" and ?es = "log_of db (mc_machineID c)"
  have inv: "log_inv sha db" and c: "client_at c ?es k" and bare: "runners_bare c" and times: "times_ok db ?m"
    and ok: "ad_fault db = (\<lambda>_. False)" and m: "\<not> is_blank ?m"
    using assms(1) by (simp_all add: connected_def)
  have k: "k \<le> length ?es" using c by (simp only: client_at_def)
  have log: "good_log ?m ?es" using inv times by (rule good_log_of_manager)
  from replay_of_manager [OF inv ok m k replay_cursor [OF c assms(3)]] obtain p where
    p: "GetMachineAssignmentReplay sha db (Some (replay_request_of c)) = Inr p" "rs_Events p = drop k ?es"
      "rs_AuthoritativeHighWatermark p = length ?es" "rs_FullRosterRevision p = ComputeFullRosterRevision sha ?es"
    using assms(2) by (auto simp: replay_request_of_def)
  from replay_into_client [OF log c assms(4,2) p(2) bare, of rank saves] obtain ack c' where
    c': "ApplyAssignmentReplay rank c saves (Some p) = (Inr ack, c')" "client_at c' ?es (length ?es)" "mc_machineID c' = ?m"
      "fst ` set (mc_runners c') = bareAgentID ` fst ` set (ActiveAssignments (reducer_of c'))"
      "(\<forall>x\<in>set (ActiveAssignments (reducer_of c')). CHR ''/'' \<notin> set (fst x)) \<longrightarrow>
      (\<forall>(i, a)\<in>set (ActiveAssignments (reducer_of c')).
         map_option ru_config (map_of (mc_runners c') i) = Some (configFromAssignment (as_Config a)))"
    by blast
  have "has_log (reducer_of c') ?m ?es" using c'(2,3) by (simp add: client_at_def)
  then have "FullRosterRevision sha (reducer_of c') = rs_FullRosterRevision p" "rd_lastSequence (reducer_of c') = length ?es"
    using has_log_revision [OF log] p(4) by (simp_all add: has_log_def)
  then show ?thesis using p(1,3) c' by auto
qed

text \<open>An event that does not fit stops a machine for good. The manager records an event without
  looking at the roster, so a second creation of an agent is accepted. If the first \<open>j\<close> events of a
  machine fit the roster and the next one does not, then whatever is recorded after it, every
  replay of a machine that is up to date with some of the first \<open>j\<close> fails with an invalid event,
  and the machine does not get past the first \<open>j\<close>.\<close>

theorem misfit_event_blocks_machine:
  assumes "connected sha db c k" and "k = 0 \<or> LastAcknowledgedCursor c = acked_at (log_of db (mc_machineID c)) k"
    and "k \<le> j" and "j < length (log_of db (mc_machineID c))"
    and "fold_assignments [] (take j (log_of db (mc_machineID c))) \<noteq> None"
    and "fold_assignments [] (take (Suc j) (log_of db (mc_machineID c))) = None"
  shows "\<exists>p c'. GetMachineAssignmentReplay sha db (Some (replay_request_of c)) = Inr p \<and>
    ApplyAssignmentReplay rank c saves (Some p) = (Inl ErrInvalidEvent, c') \<and>
    client_at c' (log_of db (mc_machineID c)) j"
proof -
  let ?m = "mc_machineID c" and ?es = "log_of db (mc_machineID c)"
  have inv: "log_inv sha db" and c: "client_at c ?es k" and times: "times_ok db ?m"
    and ok: "ad_fault db = (\<lambda>_. False)" and m: "\<not> is_blank ?m"
    using assms(1) by (simp_all add: connected_def)
  have k: "k \<le> length ?es" using c by (simp only: client_at_def)
  from replay_of_manager [OF inv ok m k replay_cursor [OF c assms(2)]] obtain p where
    p: "GetMachineAssignmentReplay sha db (Some (replay_request_of c)) = Inr p" "rs_Events p = drop k ?es"
    by (auto simp: replay_request_of_def)
  from client_misfit [OF good_log_of_manager [OF inv times] c assms(3-6)] obtain c' where
    c': "apply_events c saves None (drop k ?es) = (Inl ErrInvalidEvent, c')" "client_at c' ?es j"
    by blast
  have "drop k ?es \<noteq> []" using assms(3,4) by simp
  then have "ApplyAssignmentReplay rank c saves (Some p) = (Inl ErrInvalidEvent, c')"
    using p(2) c'(1) by (simp add: ApplyAssignmentReplay_def)
  then show ?thesis using p(1) c'(2) by blast
qed

text \<open>C6: what a replay achieves. Let the manager have any history of recordings and acknowledgements
  of a machine, at least one event among them, with a database that works and instants the
  protocol can carry, and let the machine have applied and acknowledged the first \<open>k\<close> of its
  events (none of them for a process that just started), with the cursor of the last one in its
  state file or in memory. Then the manager answers the replay the machine asks for. If every
  event of the log fits the roster, the replay succeeds and the machine has all events: its last
  sequence is the manager's high watermark, the revision it computes is the one the manager sends,
  it runs exactly the active agents, each with the configuration of its last event when agent ids
  are plain. If some event does not fit, which the manager does not prevent, the replay fails
  with an invalid event and leaves the machine exactly at the events before the first that does
  not fit.\<close>

theorem replay_converges:
  assumes "connected sha db c k" and "log_of db (mc_machineID c) \<noteq> []"
    and "k = 0 \<or> LastAcknowledgedCursor c = acked_at (log_of db (mc_machineID c)) k"
  shows "\<exists>p. GetMachineAssignmentReplay sha db (Some (replay_request_of c)) = Inr p \<and>
    (if fold_assignments [] (log_of db (mc_machineID c)) \<noteq> None then
       (\<exists>ack c'. ApplyAssignmentReplay rank c saves (Some p) = (Inr ack, c') \<and>
          client_at c' (log_of db (mc_machineID c)) (length (log_of db (mc_machineID c))) \<and>
          rd_lastSequence (reducer_of c') = rs_AuthoritativeHighWatermark p \<and>
          FullRosterRevision sha (reducer_of c') = rs_FullRosterRevision p \<and>
          fst ` set (mc_runners c') = bareAgentID ` fst ` set (ActiveAssignments (reducer_of c')) \<and>
          ((\<forall>x\<in>set (ActiveAssignments (reducer_of c')). CHR ''/'' \<notin> set (fst x)) \<longrightarrow>
            (\<forall>(i, a)\<in>set (ActiveAssignments (reducer_of c')).
               map_option ru_config (map_of (mc_runners c') i) = Some (configFromAssignment (as_Config a)))))
     else
       (\<exists>j c'. ApplyAssignmentReplay rank c saves (Some p) = (Inl ErrInvalidEvent, c') \<and> k \<le> j \<and>
          client_at c' (log_of db (mc_machineID c)) j \<and> j < length (log_of db (mc_machineID c)) \<and>
          fold_assignments [] (take j (log_of db (mc_machineID c))) \<noteq> None \<and>
          fold_assignments [] (take (Suc j) (log_of db (mc_machineID c))) = None))"
proof (cases "fold_assignments [] (log_of db (mc_machineID c)) = None")
  case True
  from first_misfit [OF True] obtain j where j: "j < length (log_of db (mc_machineID c))"
      "fold_assignments [] (take j (log_of db (mc_machineID c))) \<noteq> None"
      "fold_assignments [] (take (Suc j) (log_of db (mc_machineID c))) = None"
    by blast
  have "client_at c (log_of db (mc_machineID c)) k" using assms(1) by (simp only: connected_def)
  then have k: "k \<le> j" using j(3) by (rule misfit_after)
  show ?thesis using misfit_event_blocks_machine [OF assms(1,3) k j, of rank saves] True j k by auto
next
  case False
  then show ?thesis using converging_replay [OF assms, of rank saves] by auto
qed

text \<open>A cursor file that is behind stops a machine. If a machine that runs has applied and
  acknowledged \<open>k\<close> events, but the cursor in its state file is that of an event \<open>j\<close> at least two
  behind, because a save failed, then the replay it asks for repeats events, and the acknowledgement of the first
  of them is refused as going back: the replay fails, the machine applies nothing of it, and its
  log and its file are as before, so the next connection fails in the same way.\<close>

theorem stale_cursor_blocks_replay:
  assumes "connected sha db c k" and "mc_state c = acked_at (log_of db (mc_machineID c)) j" and "0 < j" and "Suc j < k"
  shows "\<exists>p c'. GetMachineAssignmentReplay sha db (Some (replay_request_of c)) = Inr p \<and>
    ApplyAssignmentReplay rank c saves (Some p) = (Inl ErrAckRegression, c') \<and>
    reducer_of c' = reducer_of c \<and> mc_state c' = mc_state c"
proof -
  let ?m = "mc_machineID c" and ?es = "log_of db (mc_machineID c)"
  have inv: "log_inv sha db" and c: "client_at c ?es k" and times: "times_ok db ?m"
    and ok: "ad_fault db = (\<lambda>_. False)" and m: "\<not> is_blank ?m"
    using assms(1) by (simp_all add: connected_def)
  have k: "k \<le> length ?es" "rd_lastSequence (reducer_of c) = k" using c by (auto simp: client_at_def has_log_def)
  have log: "good_log ?m ?es" using inv times by (rule good_log_of_manager)
  have "mc_reducer c \<noteq> None" using k(2) assms(4) by (cases "mc_reducer c") (auto simp: reducer_of_def NewReducer_def)
  then have "assignmentReplayCursor c = acked_at ?es j"
    using k(2) assms(2-4) by (auto simp: assignmentReplayCursor_def LastAcknowledgedCursor_def reducer_of_def acked_at_def)
  moreover have j: "j \<le> length ?es" "j < length ?es" using k(1) assms(4) by simp_all
  ultimately obtain p where p: "GetMachineAssignmentReplay sha db (Some (replay_request_of c)) = Inr p" "rs_Events p = drop j ?es"
    using replay_of_manager [OF inv ok m, of j "acked_at ?es j"] by (auto simp: replay_request_of_def)
  have d: "drop j ?es = ?es ! j # drop (Suc j) ?es" using j(2) by (rule Cons_nth_drop_Suc [symmetric])
  from client_again [OF log c assms(4)] obtain c' where
    c': "ApplyAssignmentEvent c (saves (length (drop (Suc j) ?es))) (Some (?es ! j)) = (Inl ErrAckRegression, c')"
      "reducer_of c' = reducer_of c" "mc_state c' = mc_state c"
    by blast
  have "apply_events c saves None (drop j ?es) = (Inl ErrAckRegression, c')" unfolding d using c'(1) by simp
  then have "ApplyAssignmentReplay rank c saves (Some p) = (Inl ErrAckRegression, c')"
    using p(2) j(2) by (simp add: ApplyAssignmentReplay_def)
  then show ?thesis using p(1) c'(2,3) by blast
qed

text \<open>A pushed event is refused. The outbox row of a recorded event carries the event as the caller
  passed it, and a caller that leaves the numbering to the manager passes sequence 0. The handler
  sends that event to the machine, which refuses it as invalid whatever its state, although the
  manager recorded it with a positive number.\<close>

theorem pushed_event_is_refused:
  assumes "\<And>n. decode (encode e n) = Some e"
    and "RecordMachineAssignmentEvent sha micro encode db now (Some e) = (Inr ev, db')" and "ae_Sequence e = 0"
    and "x \<in> set (ob_events (ad_outbox db'))" and "x \<notin> set (ob_events (ad_outbox db))"
    and "handleMachineAssignmentOutboxEvent decode x = Some msg"
    and "rd_machineResourceID (reducer_of c) = en_AggregateID x"
  shows "fst (ApplyAssignmentEvent c sv (Some msg)) = Inl ErrInvalidEvent"
proof -
  have changed: "db' \<noteq> db" using assms(4,5) by auto
  from RecordMachineAssignmentEvent_new [OF assms(2) changed] obtain cols where m: "\<not> is_blank (ae_MachineResourceId e)"
    and r: "record_new sha micro encode db now e (trim_space (ae_MachineResourceId e)) (trim_space (ae_EventId e))
         (trim_space (ae_IdempotencyKey e)) (trim_space (ae_AgentResourceId e)) cols = (Inr ev, db')"
    by blast
  let ?m = "trim_space (ae_MachineResourceId e)"
  have "en_Payload x = encode e (u64 (max_sequence db ?m + 1)) \<and> en_AggregateID x = ?m"
    using r assms(4,5)
    by (auto simp: record_new_def Let_def outbox_insert_def assignment_envelope_def new_row_def
        split: prod.splits if_splits option.splits)
  then have x: "decode (en_Payload x) = Some e" "en_AggregateID x = ?m" using assms(1) by simp_all
  have "ae_Sequence msg = ae_Sequence e \<and> ae_MachineResourceId msg = en_AggregateID x"
    using assms(6) unfolding handleMachineAssignmentOutboxEvent_def x(1) Let_def option.case
    by (fastforce split: if_splits)
  then have msg: "ae_Sequence msg = 0" "ae_MachineResourceId msg = ?m" using assms(3) x(2) by simp_all
  have "\<not> is_blank ?m" using m by simp
  then have "validateEvent (Some msg) ?m = Inl ErrInvalidEvent" using msg by (simp add: validateEvent_def)
  then show ?thesis using assms(7) x(2) by (simp add: ApplyAssignmentEvent_def ApplyEvent_def)
qed

section \<open>Witnesses\<close>

definition sample_log3 :: "log_op list" where
  "sample_log3 =
     [OpRecord 5 (Some (sample_assignment 1 ''a'' EventCREATE ''v1'')), OpRecord 6 (Some (sample_assignment 2 ''b'' EventCREATE ''v1'')),
      OpRecord 7 (Some (sample_assignment 3 ''a'' EventREMOVE ''v1''))]"

definition sample_log_misfit :: "log_op list" where
  "sample_log_misfit =
     [OpRecord 5 (Some (sample_assignment 1 ''a'' EventCREATE ''v1'')), OpRecord 6 (Some (sample_assignment 2 ''a'' EventCREATE ''v2''))]"

definition sample_manager :: "log_op list \<Rightarrow> assignment_db" where
  "sample_manager ops = foldl sample_log_step sample_log_db ops"

definition sample_machine :: machine_client where
  "sample_machine = \<lparr>mc_machineID = ''m'', mc_reducer = None, mc_runners = [], mc_state = None\<rparr>"

lemma sample_manager_ok: "log_inv (\<lambda>s. s) (sample_manager ops)" "ad_fault (sample_manager ops) = (\<lambda>_. False)"
  using connected_history [OF sample_log_empty, of "sample_manager ops" "\<lambda>s. s" sample_micro "\<lambda>e n. show_nat n" ops]
  by (simp_all add: sample_manager_def sample_log_step_def)

lemma sample_connected:
  assumes "times_ok (sample_manager ops) ''m''"
  shows "connected (\<lambda>s. s) (sample_manager ops) sample_machine 0"
proof -
  have "\<not> is_blank ''m''" by code_simp
  then show ?thesis
    using assms sample_manager_ok [of ops] has_log_new [of "''m''"]
    by (simp add: connected_def sample_machine_def client_at_def reducer_of_def runners_bare_def acked_at_def)
      (simp add: NewReducer_def)
qed

theorem replay_converges_witness:
  "\<exists>p ack c'. GetMachineAssignmentReplay (\<lambda>s. s) (sample_manager sample_log3) (Some (replay_request_of sample_machine)) = Inr p \<and>
    ApplyAssignmentReplay length sample_machine (\<lambda>_. True) (Some p) = (Inr ack, c') \<and>
    rd_lastSequence (reducer_of c') = rs_AuthoritativeHighWatermark p \<and> rs_AuthoritativeHighWatermark p = 3 \<and>
    FullRosterRevision (\<lambda>s. s) (reducer_of c') = rs_FullRosterRevision p \<and> map fst (mc_runners c') = [''b'']"
proof -
  let ?db = "sample_manager sample_log3"
  have t: "times_ok ?db ''m''" by code_simp
  have m: "mc_machineID sample_machine = ''m''" by (simp add: sample_machine_def)
  have "log_of ?db ''m'' \<noteq> []" "fold_assignments [] (log_of ?db ''m'') \<noteq> None" by code_simp+
  then obtain p ack c' where
    p: "GetMachineAssignmentReplay (\<lambda>s. s) ?db (Some (replay_request_of sample_machine)) = Inr p"
      "ApplyAssignmentReplay length sample_machine (\<lambda>_. True) (Some p) = (Inr ack, c')"
      "rd_lastSequence (reducer_of c') = rs_AuthoritativeHighWatermark p"
      "FullRosterRevision (\<lambda>s. s) (reducer_of c') = rs_FullRosterRevision p"
    using replay_converges [OF sample_connected [OF t], of length "\<lambda>_. True"] unfolding m by auto
  have "case GetMachineAssignmentReplay (\<lambda>s. s) ?db (Some (replay_request_of sample_machine)) of
      Inl _ \<Rightarrow> False
    | Inr p \<Rightarrow> rs_AuthoritativeHighWatermark p = 3 \<and>
        map fst (mc_runners (snd (ApplyAssignmentReplay length sample_machine (\<lambda>_. True) (Some p)))) = [''b'']"
    by code_simp
  then show ?thesis using p by simp
qed

text \<open>A machine that saved only the cursor of the first of three events.\<close>

definition sample_stale_machine :: machine_client where
  "sample_stale_machine = snd (apply_events sample_machine (\<lambda>n. n = 2) None (log_of (sample_manager sample_log3) ''m''))"

theorem stale_cursor_blocks_replay_witness:
  "\<exists>p c'. GetMachineAssignmentReplay (\<lambda>s. s) (sample_manager sample_log3) (Some (replay_request_of sample_stale_machine)) = Inr p \<and>
    ApplyAssignmentReplay length sample_stale_machine (\<lambda>_. True) (Some p) = (Inl ErrAckRegression, c') \<and>
    reducer_of c' = reducer_of sample_stale_machine \<and> mc_state c' = mc_state sample_stale_machine"
proof -
  let ?db = "sample_manager sample_log3"
  have t: "times_ok ?db ''m''" by code_simp
  have m: "mc_machineID sample_machine = ''m''" by (simp add: sample_machine_def)
  note c0 = sample_connected [OF t, unfolded connected_def m]
  have f: "fold_assignments [] (log_of ?db ''m'') \<noteq> None" and l: "length (log_of ?db ''m'') = 3" by code_simp+
  have g: "good_log (mc_machineID sample_machine) (log_of ?db ''m'')"
    unfolding m using c0 good_log_of_manager by blast
  from client_events [OF g _ f, of 0 "\<lambda>n. n = 2" None] c0 m have
    c: "client_at sample_stale_machine (log_of ?db ''m'') 3" "mc_machineID sample_stale_machine = ''m''"
    using l by (auto simp: sample_stale_machine_def)
  have "runners_bare sample_stale_machine"
    unfolding sample_stale_machine_def using c0 by (intro apply_events_bare) blast
  then have con: "connected (\<lambda>s. s) ?db sample_stale_machine 3" using c c0 by (simp add: connected_def)
  have st: "mc_state sample_stale_machine = acked_at (log_of ?db (mc_machineID sample_stale_machine)) 1"
    unfolding c(2) by code_simp
  show ?thesis using stale_cursor_blocks_replay [OF con st, of length "\<lambda>_. True"] by simp
qed

theorem misfit_event_blocks_machine_witness:
  "\<exists>p c'. GetMachineAssignmentReplay (\<lambda>s. s) (sample_manager sample_log_misfit) (Some (replay_request_of sample_machine)) = Inr p \<and>
    ApplyAssignmentReplay length sample_machine (\<lambda>_. True) (Some p) = (Inl ErrInvalidEvent, c') \<and>
    client_at c' (log_of (sample_manager sample_log_misfit) ''m'') 1"
proof -
  let ?db = "sample_manager sample_log_misfit"
  have t: "times_ok ?db ''m''" by code_simp
  have m: "mc_machineID sample_machine = ''m''" by (simp add: sample_machine_def)
  have "1 < length (log_of ?db ''m'')" "fold_assignments [] (take 1 (log_of ?db ''m'')) \<noteq> None"
    "fold_assignments [] (take (Suc 1) (log_of ?db ''m'')) = None" by code_simp+
  then show ?thesis
    using misfit_event_blocks_machine [OF sample_connected [OF t], of 1 length "\<lambda>_. True"] unfolding m by simp
qed

definition sample_recorded :: "(assignment_error + assignment_event) \<times> assignment_db" where
  "sample_recorded = RecordMachineAssignmentEvent (\<lambda>s. s) sample_micro (\<lambda>e n. ''{}'') sample_log_db 5 (Some sample_log_event)"

definition sample_pushed :: outbox_event where
  "sample_pushed = hd (ob_events (ad_outbox (snd sample_recorded)))"

theorem pushed_event_is_refused_witness:
  "fst (ApplyAssignmentEvent sample_machine True (handleMachineAssignmentOutboxEvent (\<lambda>_. Some sample_log_event) sample_pushed)) =
     Inl ErrInvalidEvent \<and>
   (case fst sample_recorded of Inr ev \<Rightarrow> ae_Sequence ev = 1 | Inl _ \<Rightarrow> False)"
proof -
  have n: "case fst sample_recorded of Inr ev \<Rightarrow> ae_Sequence ev = 1 | Inl _ \<Rightarrow> False" by code_simp
  then obtain ev where "fst sample_recorded = Inr ev" by (cases "fst sample_recorded") auto
  then obtain db' where r: "sample_recorded = (Inr ev, db')" by (metis prod.collapse)
  have "length (ob_events (ad_outbox (snd sample_recorded))) = 1" by code_simp
  then have x: "sample_pushed \<in> set (ob_events (ad_outbox db'))" unfolding sample_pushed_def r snd_conv
    by (metis hd_in_set length_0_conv zero_neq_one)
  have o: "sample_pushed \<notin> set (ob_events (ad_outbox sample_log_db))" by (simp add: sample_log_db_def)
  have "handleMachineAssignmentOutboxEvent (\<lambda>_. Some sample_log_event) sample_pushed \<noteq> None" by code_simp
  then obtain msg where h: "handleMachineAssignmentOutboxEvent (\<lambda>_. Some sample_log_event) sample_pushed = Some msg" by blast
  have "rd_machineResourceID (reducer_of sample_machine) = en_AggregateID sample_pushed" "ae_Sequence sample_log_event = 0"
    by code_simp+
  then show ?thesis
    using pushed_event_is_refused [OF _ r [unfolded sample_recorded_def] _ x o h, of sample_machine True] n h by simp
qed

end
