(* ===== verification/Approval_State.thy ===== *)
theory Approval_State
  imports Hub_Contract "HOL-Library.List_Lexorder" "HOL-Library.Char_ord"
begin

text \<open>
  Organization approvals without the database: who may decide
  (\<open>backend/manager/store/approval_approver.go\<close>) and the lifecycle of a request
  (\<open>ApplyApprovalTransition\<close> in \<open>backend/manager/store/approval_state.go\<close>). An instant
  that is missing or invalid is \<open>None\<close>; role names are the strings of the enumeration.
\<close>

section \<open>Data\<close>

datatype request_state =
    StateUnspecified | StatePending | StateApproved | StateDenied | StateExpired | StateCancelled
  | StateSuperseded | StateExecuted

datatype decision_outcome = OutcomeUnspecified | OutcomeApprove | OutcomeDeny

datatype timeout_action = TimeoutUnspecified | TimeoutDeny | TimeoutEscalate

text \<open>\<open>ba_NormalizedParameters\<close> is the JSON text of the protobuf struct, \<open>None\<close> when it is nil.\<close>

record BoundAction =
  ba_OrganizationId :: string
  ba_WorkspaceId :: string
  ba_ResourceName :: string
  ba_AgentId :: string
  ba_Skill :: string
  ba_ActionType :: string
  ba_Destination :: string
  ba_RiskLevel :: int
  ba_NormalizedParameters :: "string option"
  ba_NormalizedParametersJson :: string
  ba_TaskId :: string
  ba_CommandId :: string
  ba_IntentHash :: string

record ApprovalPolicy =
  pol_Name :: string
  pol_OrganizationId :: string
  pol_Version :: string
  pol_Enabled :: bool
  pol_WorkspaceId :: string
  pol_RiskLevel :: int
  pol_ApproverPrincipalIds :: "string list"
  pol_ApproverGroupIds :: "string list"
  pol_ApproverRoles :: "string list"
  pol_RequiredApprovals :: nat
  pol_TimeoutSeconds :: nat
  pol_OnTimeout :: timeout_action
  pol_ProhibitRequesterApproval :: bool
  pol_ProhibitAgentOwnerSoleApproval :: bool

record ApprovalRequest =
  req_Name :: string
  req_OrganizationId :: string
  req_WorkspaceId :: string
  req_PolicyName :: string
  req_PolicyVersion :: string
  req_RequesterPrincipalId :: string
  req_ExecutingAgentId :: string
  req_ExecutingAgentOwnerId :: string
  req_Action :: "BoundAction option"
  req_State :: request_state
  req_RequiredApprovals :: nat
  req_ApprovalCount :: nat
  req_ExecutionNonce :: string
  req_ExpiresAt :: "instant option"
  req_CompletedAt :: "instant option"
  req_TerminalReason :: string

record ApprovalDecision =
  dec_Name :: string
  dec_OrganizationId :: string
  dec_RequestName :: string
  dec_ApproverPrincipalId :: string
  dec_ApproverRole :: string
  dec_Outcome :: decision_outcome
  dec_Reason :: string
  dec_IntentHash :: string
  dec_CreatedAt :: instant

record OrganizationMembership =
  mem_OrganizationId :: string
  mem_PrincipalId :: string
  mem_Active :: bool
  mem_Role :: string

record GroupMessage =
  grp_OrganizationID :: string
  grp_ID :: string
  grp_Email :: string
  grp_Members :: "string list option"

section \<open>Eligible approvers\<close>

definition trim_prefix :: "string \<Rightarrow> string \<Rightarrow> string" where
  "trim_prefix s p = (if has_prefix s p then drop (length p) s else s)"

definition normalizeApprovalPrincipal :: "string \<Rightarrow> string" where
  "normalizeApprovalPrincipal principalID = trim_prefix (trim_space principalID) ''users/''"

text \<open>\<open>strings.ToUpper\<close> as far as a comparison with an ASCII literal can see it.\<close>

definition ascii_upper :: "char \<Rightarrow> char" where
  "ascii_upper c =
     (let n = of_char c :: nat in if 97 \<le> n \<and> n \<le> 122 then char_of (n - 32) else c)"

fun to_upper :: "string \<Rightarrow> string" where
  "to_upper [] = []"
| "to_upper (c # s) =
     (if starts_with [CHR 0xC4, CHR 0xB1] (c # s) then CHR ''I'' # to_upper (drop 1 s)
      else if starts_with [CHR 0xC5, CHR 0xBF] (c # s) then CHR ''S'' # to_upper (drop 1 s)
      else ascii_upper c # to_upper s)"

definition normalizeApprovalRole :: "string \<Rightarrow> string" where
  "normalizeApprovalRole role =
     trim_prefix (trim_prefix (trim_prefix (trim_prefix (to_upper (trim_space role)) ''ROLES/'') ''ROLE/'')
       ''ORGANIZATION_ROLE_'') ''ROLE_''"

definition approvalRoleMatches :: "string \<Rightarrow> string \<Rightarrow> bool" where
  "approvalRoleMatches configured role =
     (let c = normalizeApprovalRole configured in c \<noteq> [] \<and> c = normalizeApprovalRole role)"

definition active_members :: "string \<Rightarrow> OrganizationMembership list \<Rightarrow> (string \<times> OrganizationMembership) list" where
  "active_members org memberships =
     foldl (\<lambda>active m. assoc_set (normalizeApprovalPrincipal (mem_PrincipalId m)) m active) []
       (filter (\<lambda>m. mem_OrganizationId m = org \<and> mem_PrincipalId m \<noteq> [] \<and> mem_Active m) memberships)"

definition member_ids :: "GroupMessage \<Rightarrow> string list" where
  "member_ids g =
     (case grp_Members g of
        None \<Rightarrow> []
      | Some ms \<Rightarrow> filter (\<lambda>p. p \<noteq> []) (map normalizeApprovalPrincipal ms))"

definition group_identifiers :: "GroupMessage \<Rightarrow> string list" where
  "group_identifiers g =
     filter (\<lambda>i. i \<noteq> []) [grp_ID g, grp_Email g, ''groups/'' @ grp_ID g, ''groups/'' @ grp_Email g]"

definition group_members :: "string \<Rightarrow> GroupMessage list \<Rightarrow> (string \<times> string list) list" where
  "group_members org groups =
     foldl (\<lambda>gm g. foldl (\<lambda>gm i. assoc_set i (member_ids g) gm) gm (group_identifiers g)) []
       (filter (\<lambda>g. grp_OrganizationID g = org \<and> grp_ID g \<noteq> [] \<and> grp_Members g \<noteq> None) groups)"

definition named_principals :: "ApprovalPolicy \<Rightarrow> (string \<times> string list) list \<Rightarrow> string list" where
  "named_principals policy gm =
     map normalizeApprovalPrincipal (pol_ApproverPrincipalIds policy @
       concat (map (\<lambda>i. case map_of gm i of None \<Rightarrow> [] | Some ms \<Rightarrow> ms) (pol_ApproverGroupIds policy)))"

definition eligible_before ::
  "ApprovalPolicy \<Rightarrow> (string \<times> OrganizationMembership) list \<Rightarrow> (string \<times> string list) list \<Rightarrow> string list" where
  "eligible_before policy active gm =
     remdups (filter (\<lambda>p. map_of active p \<noteq> None) (named_principals policy gm) @
       concat (map (\<lambda>role. map fst (filter (\<lambda>pm. approvalRoleMatches role (mem_Role (snd pm))) active))
         (pol_ApproverRoles policy)))"

datatype approval_error =
    ApprovalDatabaseRequired
  | ApprovalPolicyOrganizationRequired
  | ApprovalOrganizationMismatch
  | ApprovalIntentBindingRequired
  | ApprovalRequestExpired
  | ApprovalRequiresPending
  | ApproverNotEligible
  | ApproverAlreadyDecided
  | DecisionIntentMismatch
  | QuorumMustBePositive
  | OnlyExpiredPendingExpires
  | OnlyPendingCancelled
  | OnlyPendingSuperseded
  | OnlyApprovedExecutes
  | PolicyIdentityRequired
  | PolicyLimitsRequired
  | PolicyTimeoutRequired
  | RequestIdentityRequired
  | ExpiryMustBeFuture
  | ParametersNotJson string
  | RequestIntentMismatch
  | NonceFailed
  | DecisionIdentityRequired
  | DecisionOutcomeRequired
  | RequestNameRequired
  | NoRows
  | RequestChanged
  | SqlFailed
  | WaitIdentityIncomplete
  | IntentChanged
  | WaitCancelled
  | BindingIncomplete
  | StoreNotConfigured

definition ResolveEligibleApprovalApprovers ::
  "ApprovalPolicy option \<Rightarrow> string \<Rightarrow> string \<Rightarrow> OrganizationMembership list \<Rightarrow> GroupMessage list \<Rightarrow>
   (approval_error, string list) result" where
  "ResolveEligibleApprovalApprovers policy requesterID agentOwnerID memberships groups =
     (case policy of
        None \<Rightarrow> Inl ApprovalPolicyOrganizationRequired
      | Some pol \<Rightarrow>
          if pol_OrganizationId pol = [] then Inl ApprovalPolicyOrganizationRequired
          else
            let active = active_members (pol_OrganizationId pol) memberships;
                eligible = eligible_before pol active (group_members (pol_OrganizationId pol) groups);
                eligible1 = (if pol_ProhibitRequesterApproval pol
                             then filter (\<lambda>p. p \<noteq> normalizeApprovalPrincipal requesterID) eligible else eligible);
                eligible2 = (if pol_ProhibitAgentOwnerSoleApproval pol \<and> length eligible1 = 1
                             then filter (\<lambda>p. p \<noteq> normalizeApprovalPrincipal agentOwnerID) eligible1 else eligible1)
            in Inr (sort eligible2))"

section \<open>The lifecycle of a request\<close>

datatype ApprovalTransition =
    TransitionApprove | TransitionDeny | TransitionExpire | TransitionCancel | TransitionSupersede | TransitionExecute

record ApprovalTransitionResult =
  tr_Request :: ApprovalRequest
  tr_AuditType :: string
  tr_EscalationRequired :: bool

definition requestExpired :: "ApprovalRequest \<Rightarrow> instant \<Rightarrow> bool" where
  "requestExpired request now = (case req_ExpiresAt request of None \<Rightarrow> True | Some t \<Rightarrow> \<not> now < t)"

definition countApprovals :: "ApprovalDecision list \<Rightarrow> nat" where
  "countApprovals decisions = length (filter (\<lambda>d. dec_Outcome d = OutcomeApprove) decisions)"

definition containsApprovalPrincipal :: "string list \<Rightarrow> string \<Rightarrow> bool" where
  "containsApprovalPrincipal eligible principalID =
     (let wanted = normalizeApprovalPrincipal principalID
      in list_ex (\<lambda>c. wanted \<noteq> [] \<and> wanted = normalizeApprovalPrincipal c) eligible)"

text \<open>The loop over the decisions made so far: the first that is by the same actor, or for
  another intent, ends it.\<close>

fun prior_decision_error :: "string \<Rightarrow> string \<Rightarrow> ApprovalDecision list \<Rightarrow> approval_error option" where
  "prior_decision_error actorID hash [] = None"
| "prior_decision_error actorID hash (d # ds) =
     (if normalizeApprovalPrincipal (dec_ApproverPrincipalId d) = normalizeApprovalPrincipal actorID
      then Some ApproverAlreadyDecided
      else if dec_IntentHash d \<noteq> hash then Some DecisionIntentMismatch
      else prior_decision_error actorID hash ds)"

abbreviation transition_result :: "ApprovalRequest \<Rightarrow> string \<Rightarrow> bool \<Rightarrow> ApprovalTransitionResult" where
  "transition_result request audit escalate \<equiv>
     \<lparr>tr_Request = request, tr_AuditType = audit, tr_EscalationRequired = escalate\<rparr>"

definition decide ::
  "ApprovalPolicy \<Rightarrow> ApprovalRequest \<Rightarrow> string \<Rightarrow> ApprovalDecision list \<Rightarrow> string list \<Rightarrow> string \<Rightarrow> bool \<Rightarrow>
   (approval_error, ApprovalTransitionResult) result" where
  "decide policy nxt hash decisions eligible actorID deny =
     (if req_State nxt \<noteq> StatePending then Inl ApprovalRequiresPending
      else if \<not> containsApprovalPrincipal eligible actorID then Inl ApproverNotEligible
      else case prior_decision_error actorID hash decisions of
        Some e \<Rightarrow> Inl e
      | None \<Rightarrow>
          if deny then
            Inr (transition_result (nxt\<lparr>req_State := StateDenied, req_TerminalReason := ''approval denied''\<rparr>)
              ''DECISION_DENIED'' False)
          else
            let nxt1 = nxt\<lparr>req_ApprovalCount := u32 (countApprovals decisions + 1)\<rparr>;
                required = (if req_RequiredApprovals nxt1 = 0 then pol_RequiredApprovals policy
                            else req_RequiredApprovals nxt1)
            in if required = 0 then Inl QuorumMustBePositive
               else Inr (transition_result
                 (if req_ApprovalCount nxt1 \<ge> required
                  then nxt1\<lparr>req_State := StateApproved, req_TerminalReason := ''approval quorum reached''\<rparr>
                  else nxt1) ''DECISION_APPROVED'' False))"

definition close_request :: "ApprovalRequest \<Rightarrow> request_state \<Rightarrow> instant \<Rightarrow> string \<Rightarrow> ApprovalRequest" where
  "close_request nxt st now reason =
     nxt\<lparr>req_State := st, req_CompletedAt := Some now, req_TerminalReason := reason\<rparr>"

definition run_transition ::
  "ApprovalPolicy \<Rightarrow> ApprovalRequest \<Rightarrow> string \<Rightarrow> ApprovalDecision list \<Rightarrow> string list \<Rightarrow> string \<Rightarrow>
   ApprovalTransition \<Rightarrow> instant \<Rightarrow> (approval_error, ApprovalTransitionResult) result" where
  "run_transition pol nxt hash decisions eligible actorID transition now =
     (case transition of
        TransitionApprove \<Rightarrow> decide pol nxt hash decisions eligible actorID False
      | TransitionDeny \<Rightarrow> decide pol nxt hash decisions eligible actorID True
      | TransitionExpire \<Rightarrow>
          if req_State nxt \<noteq> StatePending \<or> \<not> requestExpired nxt now then Inl OnlyExpiredPendingExpires
          else if pol_OnTimeout pol = TimeoutEscalate
          then Inr (transition_result
            (close_request nxt StateExpired now ''approval expired; escalation required'') ''EXPIRED_ESCALATED'' True)
          else Inr (transition_result (close_request nxt StateExpired now ''approval expired'') ''EXPIRED_DENIED'' False)
      | TransitionCancel \<Rightarrow>
          if req_State nxt \<noteq> StatePending then Inl OnlyPendingCancelled
          else Inr (transition_result (close_request nxt StateCancelled now ''approval cancelled'') ''CANCELLED'' False)
      | TransitionSupersede \<Rightarrow>
          if req_State nxt \<noteq> StatePending then Inl OnlyPendingSuperseded
          else Inr (transition_result (close_request nxt StateSuperseded now ''approval superseded'') ''SUPERSEDED'' False)
      | TransitionExecute \<Rightarrow>
          if req_State nxt \<noteq> StateApproved then Inl OnlyApprovedExecutes
          else Inr (transition_result (close_request nxt StateExecuted now ''approved action executed'') ''EXECUTED'' False))"

definition pending_if_unset :: "ApprovalRequest \<Rightarrow> ApprovalRequest" where
  "pending_if_unset req = (if req_State req = StateUnspecified then req\<lparr>req_State := StatePending\<rparr> else req)"

text \<open>\<open>clock\<close> is what \<open>time.Now\<close> returns when no instant is given.\<close>

definition ApplyApprovalTransition ::
  "ApprovalPolicy option \<Rightarrow> ApprovalRequest option \<Rightarrow> ApprovalDecision list \<Rightarrow> string list \<Rightarrow> string \<Rightarrow>
   ApprovalTransition \<Rightarrow> instant \<Rightarrow> instant \<Rightarrow> (approval_error, ApprovalTransitionResult) result" where
  "ApplyApprovalTransition policy request decisions eligible actorID transition clock now0 =
     (case (policy, request) of
        (Some pol, Some req) \<Rightarrow>
          if pol_OrganizationId pol = [] \<or> req_OrganizationId req = [] \<or> pol_OrganizationId pol \<noteq> req_OrganizationId req
          then Inl ApprovalOrganizationMismatch
          else (case req_Action req of
              None \<Rightarrow> Inl ApprovalIntentBindingRequired
            | Some action \<Rightarrow>
                if ba_IntentHash action = [] then Inl ApprovalIntentBindingRequired
                else
                  let now = (if time_is_zero now0 then clock else now0);
                      nxt = pending_if_unset req
                  in if transition \<noteq> TransitionExpire \<and> transition \<noteq> TransitionExecute \<and>
                        req_State nxt = StatePending \<and> requestExpired nxt now
                     then Inl ApprovalRequestExpired
                     else run_transition pol nxt (ba_IntentHash action) decisions eligible actorID transition now)
      | _ \<Rightarrow> Inl ApprovalOrganizationMismatch)"

section \<open>Facts\<close>

text \<open>The lifecycle the contract test of \<open>backend/a2a/approval_contract_test.go\<close> writes down.\<close>

fun approvalTransitionAllowed :: "request_state \<Rightarrow> request_state \<Rightarrow> bool" where
  "approvalTransitionAllowed StatePending to =
     (to \<in> {StateApproved, StateDenied, StateExpired, StateCancelled, StateSuperseded})"
| "approvalTransitionAllowed StateApproved to = (to = StateExecuted)"
| "approvalTransitionAllowed _ _ = False"

text \<open>What every accepted transition does: it leaves the identity of the request alone, stays
  on the lifecycle, and moves to \<open>StateApproved\<close> only by a counted approval.\<close>

definition same_identity :: "ApprovalRequest \<Rightarrow> ApprovalRequest \<Rightarrow> bool" where
  "same_identity a b \<longleftrightarrow>
     req_Name a = req_Name b \<and> req_OrganizationId a = req_OrganizationId b \<and> req_Action a = req_Action b \<and>
     req_RequiredApprovals a = req_RequiredApprovals b \<and> req_ExpiresAt a = req_ExpiresAt b \<and>
     req_ExecutionNonce a = req_ExecutionNonce b"

lemma decide_result:
  assumes "decide policy nxt hash decisions eligible actorID deny = Inr r"
  shows "req_State nxt = StatePending \<and> containsApprovalPrincipal eligible actorID \<and>
    prior_decision_error actorID hash decisions = None \<and> same_identity nxt (tr_Request r) \<and>
    (if deny then req_State (tr_Request r) = StateDenied
     else req_ApprovalCount (tr_Request r) = u32 (countApprovals decisions + 1) \<and>
       req_State (tr_Request r) =
         (if req_ApprovalCount (tr_Request r) \<ge>
             (if req_RequiredApprovals nxt = 0 then pol_RequiredApprovals policy else req_RequiredApprovals nxt)
          then StateApproved else StatePending))"
  using assms
  by (auto simp: decide_def same_identity_def Let_def split: if_splits option.splits)

lemma same_identity_pending: "same_identity (pending_if_unset a) b = same_identity a b"
  by (simp add: same_identity_def pending_if_unset_def)

lemma run_transition_closing:
  assumes "run_transition pol nxt hash decisions eligible actorID transition now = Inr r"
    and "transition \<noteq> TransitionApprove" and "transition \<noteq> TransitionDeny"
  shows "same_identity nxt (tr_Request r) \<and> approvalTransitionAllowed (req_State nxt) (req_State (tr_Request r)) \<and>
    req_State (tr_Request r) \<noteq> StateApproved \<and> req_ApprovalCount (tr_Request r) = req_ApprovalCount nxt"
  using assms
  by (cases transition) (auto simp: run_transition_def same_identity_def close_request_def split: if_splits)

lemma ApplyApprovalTransition_run:
  assumes "ApplyApprovalTransition policy (Some req) decisions eligible actorID transition clock now = Inr r"
  obtains pol action where "policy = Some pol" "req_Action req = Some action"
    "pol_OrganizationId pol = req_OrganizationId req" "ba_IntentHash action \<noteq> []"
    "run_transition pol (pending_if_unset req) (ba_IntentHash action) decisions eligible actorID transition
      (if time_is_zero now then clock else now) = Inr r"
    "transition \<noteq> TransitionExpire \<longrightarrow> transition \<noteq> TransitionExecute \<longrightarrow>
      \<not> (req_State (pending_if_unset req) = StatePending \<and>
         requestExpired (pending_if_unset req) (if time_is_zero now then clock else now))"
  using assms unfolding ApplyApprovalTransition_def
  by (auto simp: Let_def split: option.splits if_splits)

lemma transition_cases:
  assumes "ApplyApprovalTransition policy (Some req) decisions eligible actorID transition clock now = Inr r"
  obtains (decision) pol action deny where "policy = Some pol" "req_Action req = Some action"
      "transition = (if deny then TransitionDeny else TransitionApprove)"
      "decide pol (pending_if_unset req) (ba_IntentHash action) decisions eligible actorID deny = Inr r"
    | (closing) pol where "policy = Some pol" "transition \<noteq> TransitionApprove" "transition \<noteq> TransitionDeny"
      "same_identity req (tr_Request r)"
      "approvalTransitionAllowed (req_State (pending_if_unset req)) (req_State (tr_Request r))"
      "req_State (tr_Request r) \<noteq> StateApproved" "req_ApprovalCount (tr_Request r) = req_ApprovalCount req"
proof -
  obtain pol action where h: "policy = Some pol" "req_Action req = Some action"
    and run: "run_transition pol (pending_if_unset req) (ba_IntentHash action) decisions eligible actorID transition
      (if time_is_zero now then clock else now) = Inr r"
    by (rule ApplyApprovalTransition_run [OF assms])
  show thesis
  proof (cases "transition = TransitionApprove \<or> transition = TransitionDeny")
    case True
    with h run decision [of pol action "transition = TransitionDeny"] show thesis by (auto simp: run_transition_def)
  next
    case False
    have "req_ApprovalCount (pending_if_unset req) = req_ApprovalCount req" by (simp add: pending_if_unset_def)
    with False run_transition_closing [OF run] h(1) closing [of pol] show thesis by (simp add: same_identity_pending)
  qed
qed

text \<open>Decisions made so far are by others, and for the same intent.\<close>

lemma prior_decision_error_None:
  "prior_decision_error actorID hash ds = None \<longleftrightarrow>
     (\<forall>d\<in>set ds. normalizeApprovalPrincipal (dec_ApproverPrincipalId d) \<noteq> normalizeApprovalPrincipal actorID \<and>
        dec_IntentHash d = hash)"
  by (induction ds) auto

section \<open>Who may decide\<close>

lemma active_members_keys:
  "fst ` set (active_members org ms) =
     {normalizeApprovalPrincipal (mem_PrincipalId m) | m. m \<in> set ms \<and> mem_OrganizationId m = org \<and>
        mem_PrincipalId m \<noteq> [] \<and> mem_Active m}"
proof -
  have keys: "fst ` set (foldl (\<lambda>active m. assoc_set (f m) m active) acc xs) = fst ` set acc \<union> f ` set xs"
    for f :: "OrganizationMembership \<Rightarrow> string" and acc xs
  proof (induction xs arbitrary: acc)
    case (Cons x xs)
    then show ?case using keys_assoc_set [of "f x" x acc] by auto
  qed simp
  show ?thesis unfolding active_members_def keys by auto
qed

lemma eligible_before_active: "p \<in> set (eligible_before policy active gm) \<Longrightarrow> p \<in> fst ` set active"
  by (auto simp: eligible_before_def dest!: map_of_SomeD intro: rev_image_eqI)

text \<open>Eligibility is judged on the memberships of the moment: every approver found is an active
  member of the policy's organization, listed once. When the policy forbids it, the
  requester is not among them, and the owner of the executing agent is not the only one.\<close>

theorem eligible_approvers_safe:
  assumes "ResolveEligibleApprovalApprovers (Some pol) requesterID agentOwnerID memberships groups = Inr approvers"
  shows "distinct approvers \<and>
    set approvers \<subseteq> {normalizeApprovalPrincipal (mem_PrincipalId m) | m. m \<in> set memberships \<and>
      mem_OrganizationId m = pol_OrganizationId pol \<and> mem_Active m} \<and>
    \<not> (pol_ProhibitRequesterApproval pol \<and> normalizeApprovalPrincipal requesterID \<in> set approvers) \<and>
    \<not> (pol_ProhibitAgentOwnerSoleApproval pol \<and> approvers = [normalizeApprovalPrincipal agentOwnerID])"
proof -
  define el where "el = eligible_before pol (active_members (pol_OrganizationId pol) memberships)
    (group_members (pol_OrganizationId pol) groups)"
  define el1 where "el1 = (if pol_ProhibitRequesterApproval pol
    then filter (\<lambda>p. p \<noteq> normalizeApprovalPrincipal requesterID) el else el)"
  define el2 where "el2 = (if pol_ProhibitAgentOwnerSoleApproval pol \<and> length el1 = 1
    then filter (\<lambda>p. p \<noteq> normalizeApprovalPrincipal agentOwnerID) el1 else el1)"
  have app: "approvers = sort el2"
    using assms unfolding ResolveEligibleApprovalApprovers_def el_def el1_def el2_def
    by (auto simp: Let_def split: if_splits)
  have d: "distinct el2" by (simp add: el2_def el1_def el_def eligible_before_def)
  have sub: "set el2 \<subseteq> set el1" "set el1 \<subseteq> set el" by (auto simp: el2_def el1_def)
  have act: "set el \<subseteq> {normalizeApprovalPrincipal (mem_PrincipalId m) | m. m \<in> set memberships \<and>
      mem_OrganizationId m = pol_OrganizationId pol \<and> mem_Active m}"
    using eligible_before_active active_members_keys unfolding el_def by blast
  have "normalizeApprovalPrincipal requesterID \<notin> set el1" if "pol_ProhibitRequesterApproval pol"
    using that by (simp add: el1_def)
  moreover have "approvers \<noteq> [normalizeApprovalPrincipal agentOwnerID]" if sole: "pol_ProhibitAgentOwnerSoleApproval pol"
  proof
    assume "approvers = [normalizeApprovalPrincipal agentOwnerID]"
    then have s: "sort el2 = [normalizeApprovalPrincipal agentOwnerID]" using app by simp
    then have "length el2 = 1" by (metis One_nat_def length_Cons length_sort list.size(3))
    then obtain x where "el2 = [x]" by (cases el2) auto
    with s have e: "el2 = [normalizeApprovalPrincipal agentOwnerID]" by simp
    show False
    proof (cases "length el1 = 1")
      case True
      then show False using e sole by (cases el1) (auto simp: el2_def split: if_splits)
    next
      case False
      then show False using e sole by (simp add: el2_def)
    qed
  qed
  ultimately show ?thesis using app d sub act by auto
qed

definition sample_policy_row :: ApprovalPolicy where
  "sample_policy_row =
     \<lparr>pol_Name = ''p'', pol_OrganizationId = ''o'', pol_Version = ''1'', pol_Enabled = True, pol_WorkspaceId = [],
      pol_RiskLevel = 0, pol_ApproverPrincipalIds = [''users/ann'', ''bob''], pol_ApproverGroupIds = [],
      pol_ApproverRoles = [], pol_RequiredApprovals = 2, pol_TimeoutSeconds = 60,
      pol_OnTimeout = TimeoutDeny, pol_ProhibitRequesterApproval = True, pol_ProhibitAgentOwnerSoleApproval = True\<rparr>"

definition sample_memberships :: "OrganizationMembership list" where
  "sample_memberships =
     [\<lparr>mem_OrganizationId = ''o'', mem_PrincipalId = ''ann'', mem_Active = True, mem_Role = ''ORGANIZATION_ROLE_MEMBER''\<rparr>,
      \<lparr>mem_OrganizationId = ''o'', mem_PrincipalId = ''bob'', mem_Active = True, mem_Role = ''ORGANIZATION_ROLE_APPROVER''\<rparr>]"

theorem eligible_approvers_safe_witness:
  "ResolveEligibleApprovalApprovers (Some sample_policy_row) ''users/cid'' ''users/ann'' sample_memberships [] =
     Inr [''ann'', ''bob''] \<and>
   distinct [''ann'', ''bob''] \<and>
   set [''ann'', ''bob''] \<subseteq> {normalizeApprovalPrincipal (mem_PrincipalId m) | m. m \<in> set sample_memberships \<and>
     mem_OrganizationId m = pol_OrganizationId sample_policy_row \<and> mem_Active m} \<and>
   \<not> (pol_ProhibitRequesterApproval sample_policy_row \<and> normalizeApprovalPrincipal ''users/cid'' \<in> set [''ann'', ''bob'']) \<and>
   \<not> (pol_ProhibitAgentOwnerSoleApproval sample_policy_row \<and> [''ann'', ''bob''] = [normalizeApprovalPrincipal ''users/ann''])"
proof
  show r: "ResolveEligibleApprovalApprovers (Some sample_policy_row) ''users/cid'' ''users/ann'' sample_memberships [] =
     Inr [''ann'', ''bob'']" by code_simp
qed (rule eligible_approvers_safe, code_simp)

end
