(* ===== verification/Approval_Store.thy ===== *)
theory Approval_Store
  imports Approval_State
begin

text \<open>
  The durable approvals of \<open>backend/manager/store/approval.go\<close> over their tables and the
  constraints of the migration. \<open>ApplyTransition\<close> reads the request, then the decisions, and
  commits in a transaction of its own; the system below lets any calls of any replicas run
  between these three steps. Arguments: \<open>sha\<close> is \<open>sha256.Sum256\<close>, \<open>canon\<close> decodes a JSON
  text and encodes the value again (or fails), \<open>rnd\<close> is what \<open>crypto/rand\<close> returns,
  \<open>clock\<close> the time of the call. Strings are valid UTF-8.
\<close>

section \<open>Tables\<close>

record approval_db =
  adb_open :: bool
  adb_fault :: bool
  adb_organizations :: "string list"
  adb_workspaces :: "(string \<times> string) list"
  adb_policies :: "((string \<times> string) \<times> bool) list"
  adb_versions :: "ApprovalPolicy list"
  adb_requests :: "ApprovalRequest list"
  adb_decisions :: "ApprovalDecision list"

text \<open>What a column of type \<open>INTEGER\<close> holds.\<close>

definition fits_int4 :: "nat \<Rightarrow> bool" where
  "fits_int4 n \<longleftrightarrow> n \<le> 2147483647"

lemma fits_int4_code [code]: "fits_int4 n \<longleftrightarrow> int n \<le> 2147483647"
  by (simp add: fits_int4_def)

definition is_request :: "string \<Rightarrow> string \<Rightarrow> ApprovalRequest \<Rightarrow> bool" where
  "is_request org name r \<longleftrightarrow> req_OrganizationId r = org \<and> req_Name r = name"

definition of_request :: "string \<Rightarrow> string \<Rightarrow> ApprovalDecision \<Rightarrow> bool" where
  "of_request org name d \<longleftrightarrow> dec_OrganizationId d = org \<and> dec_RequestName d = name"

section \<open>The intent of an action\<close>

text \<open>The encoding of package \<open>encoding/json\<close> for strings, with its escapes for HTML.\<close>

definition hex2 :: "nat \<Rightarrow> string" where
  "hex2 n = [hex_digit (n div 16), hex_digit (n mod 16)]"

fun json_body :: "string \<Rightarrow> string" where
  "json_body [] = []"
| "json_body (c # s) =
     (if starts_with [CHR 0xE2, CHR 0x80, CHR 0xA8] (c # s) then CHR 0x5C # ''u2028'' @ json_body (drop 2 s)
      else if starts_with [CHR 0xE2, CHR 0x80, CHR 0xA9] (c # s) then CHR 0x5C # ''u2029'' @ json_body (drop 2 s)
      else
        (if c = CHR 0x22 \<or> c = CHR 0x5C then [CHR 0x5C, c]
         else if c = CHR 0x08 then CHR 0x5C # ''b''
         else if c = CHR 0x0C then CHR 0x5C # ''f''
         else if c = CHR 0x0A then CHR 0x5C # ''n''
         else if c = CHR 0x0D then CHR 0x5C # ''r''
         else if c = CHR 0x09 then CHR 0x5C # ''t''
         else if (of_char c :: nat) < 32 \<or> c \<in> {CHR ''<'', CHR ''>'', CHR ''&''}
           then CHR 0x5C # ''u00'' @ hex2 (of_char c)
         else [c]) @ json_body s)"

definition json_string :: "string \<Rightarrow> string" where
  "json_string s = CHR 0x22 # json_body s @ [CHR 0x22]"

definition json_object :: "(string \<times> string) list \<Rightarrow> string" where
  "json_object kvs =
     ''{'' @ join_strings '','' (map (\<lambda>kv. json_string (fst kv) @ '':'' @ snd kv) kvs) @ ''}''"

definition intent_material :: "BoundAction \<Rightarrow> string \<Rightarrow> string" where
  "intent_material a parameters =
     json_object
       [(''organization_id'', json_string (ba_OrganizationId a)), (''workspace_id'', json_string (ba_WorkspaceId a)),
        (''resource_name'', json_string (ba_ResourceName a)), (''agent_id'', json_string (ba_AgentId a)),
        (''skill'', json_string (ba_Skill a)), (''action_type'', json_string (ba_ActionType a)),
        (''destination'', json_string (ba_Destination a)), (''risk_level'', show_int (ba_RiskLevel a)),
        (''normalized_parameters_json'', json_string parameters), (''task_id'', json_string (ba_TaskId a)),
        (''command_id'', json_string (ba_CommandId a))]"

definition action_parameters :: "BoundAction \<Rightarrow> string" where
  "action_parameters a =
     (if ba_NormalizedParametersJson a = [] then (case ba_NormalizedParameters a of None \<Rightarrow> [] | Some j \<Rightarrow> j)
      else ba_NormalizedParametersJson a)"

definition ApprovalIntentHash ::
  "(string \<Rightarrow> string) \<Rightarrow> (string \<Rightarrow> (string, string) result) \<Rightarrow> BoundAction \<Rightarrow> (approval_error, string) result" where
  "ApprovalIntentHash sha canon a =
     (let parameters = action_parameters a in
      case (if parameters = [] then Inr [] else canon parameters) of
        Inl e \<Rightarrow> Inl (ParametersNotJson e)
      | Inr canonical \<Rightarrow> Inr (hex_encode (sha (intent_material a canonical))))"

section \<open>Writing policies, requests and decisions\<close>

definition store_policy_version :: "approval_db \<Rightarrow> ApprovalPolicy \<Rightarrow> (approval_error, unit) result \<times> approval_db" where
  "store_policy_version db pol =
     (if list_ex (\<lambda>v. pol_OrganizationId v = pol_OrganizationId pol \<and> pol_Name v = pol_Name pol \<and>
           pol_Version v = pol_Version pol) (adb_versions db) \<or>
         (pol_WorkspaceId pol \<noteq> [] \<and> (pol_OrganizationId pol, pol_WorkspaceId pol) \<notin> set (adb_workspaces db)) \<or>
         \<not> fits_int4 (pol_RequiredApprovals pol) \<or> \<not> fits_int4 (pol_TimeoutSeconds pol) \<or>
         pol_RiskLevel pol < 0 \<or> 4 < pol_RiskLevel pol
      then (Inl SqlFailed, db)
      else (Inr (), db\<lparr>adb_versions := adb_versions db @ [pol]\<rparr>))"

text \<open>Two statements, each on its own: the policy is switched on or off also when its version
  is refused.\<close>

definition CreatePolicy :: "approval_db \<Rightarrow> ApprovalPolicy option \<Rightarrow> (approval_error, unit) result \<times> approval_db" where
  "CreatePolicy db policy =
     (case policy of
        None \<Rightarrow> (Inl PolicyIdentityRequired, db)
      | Some pol \<Rightarrow>
          if pol_OrganizationId pol = [] \<or> pol_Name pol = [] \<or> pol_Version pol = [] then (Inl PolicyIdentityRequired, db)
          else if pol_RequiredApprovals pol = 0 \<or> pol_TimeoutSeconds pol = 0 then (Inl PolicyLimitsRequired, db)
          else if \<not> adb_open db then (Inl ApprovalDatabaseRequired, db)
          else if pol_OnTimeout pol = TimeoutUnspecified then (Inl PolicyTimeoutRequired, db)
          else if adb_fault db \<or> pol_OrganizationId pol \<notin> set (adb_organizations db) then (Inl SqlFailed, db)
          else store_policy_version
            (db\<lparr>adb_policies := assoc_set (pol_OrganizationId pol, pol_Name pol) (pol_Enabled pol) (adb_policies db)\<rparr>) pol)"

text \<open>The row of a request goes in unless the name is taken (then nothing happens) or a
  constraint refuses it.\<close>

definition request_row_refused :: "approval_db \<Rightarrow> instant \<Rightarrow> ApprovalRequest \<Rightarrow> bool" where
  "request_row_refused db clock r \<longleftrightarrow>
     adb_fault db \<or> \<not> fits_int4 (req_RequiredApprovals r) \<or>
     (case req_ExpiresAt r of None \<Rightarrow> True | Some t \<Rightarrow> t \<le> clock) \<or> req_ExecutionNonce r = [] \<or>
     (case req_Action r of None \<Rightarrow> True | Some a \<Rightarrow> ba_IntentHash a = [])"

definition request_name_taken :: "approval_db \<Rightarrow> ApprovalRequest \<Rightarrow> bool" where
  "request_name_taken db r = list_ex (is_request (req_OrganizationId r) (req_Name r)) (adb_requests db)"

definition request_refs_missing :: "approval_db \<Rightarrow> ApprovalRequest \<Rightarrow> bool" where
  "request_refs_missing db r \<longleftrightarrow>
     list_ex (\<lambda>x. req_OrganizationId x = req_OrganizationId r \<and> req_ExecutionNonce x = req_ExecutionNonce r)
       (adb_requests db) \<or>
     \<not> list_ex (\<lambda>v. pol_OrganizationId v = req_OrganizationId r \<and> pol_Name v = req_PolicyName r \<and>
         pol_Version v = req_PolicyVersion r) (adb_versions db) \<or>
     (req_WorkspaceId r \<noteq> [] \<and> (req_OrganizationId r, req_WorkspaceId r) \<notin> set (adb_workspaces db))"

definition insert_request :: "approval_db \<Rightarrow> instant \<Rightarrow> ApprovalRequest \<Rightarrow> (approval_error, unit) result \<times> approval_db" where
  "insert_request db clock r =
     (if request_row_refused db clock r then (Inl SqlFailed, db)
      else if request_name_taken db r then (Inr (), db)
      else if request_refs_missing db r then (Inl SqlFailed, db)
      else (Inr (), db\<lparr>adb_requests := adb_requests db @
        [r\<lparr>req_ApprovalCount := 0, req_CompletedAt := None, req_TerminalReason := []\<rparr>]\<rparr>))"

definition request_complete :: "ApprovalRequest \<Rightarrow> bool" where
  "request_complete r \<longleftrightarrow>
     req_OrganizationId r \<noteq> [] \<and> req_Name r \<noteq> [] \<and> req_PolicyName r \<noteq> [] \<and> req_PolicyVersion r \<noteq> [] \<and>
     req_RequesterPrincipalId r \<noteq> [] \<and> req_Action r \<noteq> None \<and> req_RequiredApprovals r \<noteq> 0"

definition request_nonce :: "string option \<Rightarrow> ApprovalRequest \<Rightarrow> string option" where
  "request_nonce rnd r =
     (if req_ExecutionNonce r \<noteq> [] then Some (req_ExecutionNonce r) else map_option hex_encode rnd)"

text \<open>The request that is written: checked, bound to its intent and with a nonce.\<close>

definition bound_request ::
  "(string \<Rightarrow> string) \<Rightarrow> (string \<Rightarrow> (string, string) result) \<Rightarrow> instant \<Rightarrow> string option \<Rightarrow> ApprovalRequest \<Rightarrow>
   (approval_error, ApprovalRequest) result" where
  "bound_request sha canon clock rnd r =
     (if \<not> request_complete r then Inl RequestIdentityRequired
      else if (case req_ExpiresAt r of None \<Rightarrow> True | Some t \<Rightarrow> \<not> clock < t) then Inl ExpiryMustBeFuture
      else let action = the (req_Action r) in
      case ApprovalIntentHash sha canon action of
        Inl e \<Rightarrow> Inl e
      | Inr hash \<Rightarrow>
          if ba_OrganizationId action \<noteq> req_OrganizationId r \<or>
             (ba_IntentHash action \<noteq> [] \<and> ba_IntentHash action \<noteq> hash)
          then Inl RequestIntentMismatch
          else (case request_nonce rnd r of
              None \<Rightarrow> Inl NonceFailed
            | Some nonce \<Rightarrow>
                Inr (r\<lparr>req_Action := Some (action\<lparr>ba_IntentHash := hash\<rparr>), req_ExecutionNonce := nonce\<rparr>)))"

definition CreateRequest ::
  "(string \<Rightarrow> string) \<Rightarrow> (string \<Rightarrow> (string, string) result) \<Rightarrow> approval_db \<Rightarrow> instant \<Rightarrow> string option \<Rightarrow>
   ApprovalRequest option \<Rightarrow> (approval_error, ApprovalRequest) result \<times> approval_db" where
  "CreateRequest sha canon db clock rnd request =
     (case request of
        None \<Rightarrow> (Inl RequestIdentityRequired, db)
      | Some r \<Rightarrow>
          (case bound_request sha canon clock rnd r of
             Inl e \<Rightarrow> (Inl e, db)
           | Inr r1 \<Rightarrow>
               if \<not> adb_open db then (Inl ApprovalDatabaseRequired, db)
               else (case insert_request db clock (pending_if_unset r1) of
                   (Inl e, db') \<Rightarrow> (Inl e, db')
                 | (Inr _, db') \<Rightarrow> (Inr r1, db'))))"

definition intent_of :: "ApprovalRequest \<Rightarrow> string" where
  "intent_of r = (case req_Action r of None \<Rightarrow> [] | Some a \<Rightarrow> ba_IntentHash a)"

definition insert_decision :: "approval_db \<Rightarrow> ApprovalDecision \<Rightarrow> (approval_error, unit) result \<times> approval_db" where
  "insert_decision db d =
     (if adb_fault db \<or> dec_Name d = [] \<or> dec_ApproverPrincipalId d = [] \<or> dec_IntentHash d = [] \<or>
         \<not> list_ex (is_request (dec_OrganizationId d) (dec_RequestName d)) (adb_requests db) \<or>
         list_ex (\<lambda>x. dec_OrganizationId x = dec_OrganizationId d \<and>
           (dec_Name x = dec_Name d \<or>
            dec_RequestName x = dec_RequestName d \<and> dec_ApproverPrincipalId x = dec_ApproverPrincipalId d))
           (adb_decisions db)
      then (Inl SqlFailed, db)
      else (Inr (), db\<lparr>adb_decisions := adb_decisions db @ [d]\<rparr>))"

definition CreateDecision ::
  "approval_db \<Rightarrow> instant \<Rightarrow> ApprovalDecision option \<Rightarrow> (approval_error, unit) result \<times> approval_db" where
  "CreateDecision db clock decision =
     (case decision of
        None \<Rightarrow> (Inl DecisionIdentityRequired, db)
      | Some d \<Rightarrow>
          if dec_OrganizationId d = [] \<or> dec_Name d = [] \<or> dec_RequestName d = [] \<or>
             dec_ApproverPrincipalId d = [] \<or> dec_IntentHash d = [] then (Inl DecisionIdentityRequired, db)
          else if dec_Outcome d = OutcomeUnspecified then (Inl DecisionOutcomeRequired, db)
          else if \<not> adb_open db then (Inl ApprovalDatabaseRequired, db)
          else if adb_fault db then (Inl SqlFailed, db)
          else case find (is_request (dec_OrganizationId d) (dec_RequestName d)) (adb_requests db) of
            None \<Rightarrow> (Inl NoRows, db)
          | Some r \<Rightarrow>
              if dec_IntentHash d \<noteq> intent_of r then (Inl DecisionIntentMismatch, db)
              else insert_decision db (d\<lparr>dec_CreatedAt := clock\<rparr>))"

section \<open>Reading\<close>

definition GetRequest :: "approval_db \<Rightarrow> string \<Rightarrow> string \<Rightarrow> (approval_error, ApprovalRequest) result" where
  "GetRequest db org name =
     (if \<not> adb_open db then Inl ApprovalDatabaseRequired
      else if org = [] \<or> name = [] then Inl RequestNameRequired
      else if adb_fault db then Inl SqlFailed
      else case find (is_request org name) (adb_requests db) of None \<Rightarrow> Inl NoRows | Some r \<Rightarrow> Inr r)"

definition ListDecisions :: "approval_db \<Rightarrow> string \<Rightarrow> string \<Rightarrow> (approval_error, ApprovalDecision list) result" where
  "ListDecisions db org name =
     (if \<not> adb_open db then Inl ApprovalDatabaseRequired
      else if org = [] \<or> name = [] then Inl RequestNameRequired
      else if adb_fault db then Inl SqlFailed
      else Inr (sort_key dec_CreatedAt (sort_key dec_Name (filter (of_request org name) (adb_decisions db)))))"

section \<open>Transitions\<close>

record approval_call =
  call_policy :: "ApprovalPolicy option"
  call_org :: string
  call_name :: string
  call_actor :: string
  call_reason :: string
  call_eligible :: "string list"
  call_transition :: ApprovalTransition
  call_now :: instant

definition decision_of :: "(string \<Rightarrow> string) \<Rightarrow> approval_call \<Rightarrow> instant \<Rightarrow> ApprovalRequest \<Rightarrow> ApprovalDecision" where
  "decision_of sha c clock request =
     \<lparr>dec_Name = call_name c @ ''/decisions/'' @ hex_encode (sha (call_actor c)), dec_OrganizationId = call_org c,
      dec_RequestName = call_name c, dec_ApproverPrincipalId = call_actor c, dec_ApproverRole = [],
      dec_Outcome = (if call_transition c = TransitionDeny then OutcomeDeny else OutcomeApprove),
      dec_Reason = call_reason c, dec_IntentHash = intent_of request, dec_CreatedAt = clock\<rparr>"

definition update_request :: "approval_db \<Rightarrow> string \<Rightarrow> string \<Rightarrow> ApprovalRequest \<Rightarrow> approval_db" where
  "update_request db org name result =
     db\<lparr>adb_requests := update_first (is_request org name)
       (\<lambda>row. row\<lparr>req_State := req_State result, req_ApprovalCount := req_ApprovalCount result,
          req_CompletedAt := req_CompletedAt result, req_TerminalReason := req_TerminalReason result\<rparr>) (adb_requests db)\<rparr>"

text \<open>The transaction: the row is locked and must still be in the state that was read, the
  decision goes in, the row is updated under the check that the count does not exceed the
  approvals required.\<close>

definition commit_transition ::
  "(string \<Rightarrow> string) \<Rightarrow> approval_db \<Rightarrow> approval_call \<Rightarrow> instant \<Rightarrow> ApprovalRequest \<Rightarrow> ApprovalRequest \<Rightarrow>
   (approval_error, ApprovalRequest) result \<times> approval_db" where
  "commit_transition sha db c clock request result =
     (if adb_fault db then (Inl SqlFailed, db)
      else case find (is_request (call_org c) (call_name c)) (adb_requests db) of
        None \<Rightarrow> (Inl NoRows, db)
      | Some row \<Rightarrow>
          if req_State row \<noteq> req_State request then (Inl RequestChanged, db)
          else (case (if call_transition c = TransitionApprove \<or> call_transition c = TransitionDeny
                      then insert_decision db (decision_of sha c clock request) else (Inr (), db)) of
              (Inl e, _) \<Rightarrow> (Inl e, db)
            | (Inr _, db1) \<Rightarrow>
                if req_RequiredApprovals row < req_ApprovalCount result then (Inl SqlFailed, db)
                else (Inr result, update_request db1 (call_org c) (call_name c) result)))"

definition finish_transition ::
  "(string \<Rightarrow> string) \<Rightarrow> approval_db \<Rightarrow> approval_call \<Rightarrow> instant \<Rightarrow> ApprovalRequest \<Rightarrow> ApprovalDecision list \<Rightarrow>
   (approval_error, ApprovalRequest) result \<times> approval_db" where
  "finish_transition sha db c clock request decisions =
     (case ApplyApprovalTransition (call_policy c) (Some request) decisions (call_eligible c) (call_actor c)
         (call_transition c) clock (call_now c) of
        Inl e \<Rightarrow> (Inl e, db)
      | Inr result \<Rightarrow> commit_transition sha db c clock request (tr_Request result))"

text \<open>The call when nothing comes between its steps.\<close>

definition ApplyTransition ::
  "(string \<Rightarrow> string) \<Rightarrow> approval_db \<Rightarrow> approval_call \<Rightarrow> instant \<Rightarrow> (approval_error, ApprovalRequest) result \<times> approval_db" where
  "ApplyTransition sha db c clock =
     (case GetRequest db (call_org c) (call_name c) of
        Inl e \<Rightarrow> (Inl e, db)
      | Inr request \<Rightarrow>
          (case ListDecisions db (call_org c) (call_name c) of
             Inl e \<Rightarrow> (Inl e, db)
           | Inr decisions \<Rightarrow> finish_transition sha db c clock request decisions))"

section \<open>The store with calls in flight\<close>

datatype approval_op =
    OpPolicy "ApprovalPolicy option"
  | OpRequest instant "string option" "ApprovalRequest option"
  | OpDecision instant "ApprovalDecision option"
  | OpReadRequest nat approval_call
  | OpReadDecisions nat
  | OpCommit nat instant
  | OpFault bool

record approval_sys =
  sys_db :: approval_db
  sys_calls :: "(nat \<times> approval_call \<times> ApprovalRequest \<times> ApprovalDecision list option) list"

definition approval_step ::
  "(string \<Rightarrow> string) \<Rightarrow> (string \<Rightarrow> (string, string) result) \<Rightarrow> approval_sys \<Rightarrow> approval_op \<Rightarrow> approval_sys" where
  "approval_step sha canon s op =
     (case op of
        OpPolicy p \<Rightarrow> s\<lparr>sys_db := snd (CreatePolicy (sys_db s) p)\<rparr>
      | OpRequest clock rnd r \<Rightarrow> s\<lparr>sys_db := snd (CreateRequest sha canon (sys_db s) clock rnd r)\<rparr>
      | OpDecision clock d \<Rightarrow> s\<lparr>sys_db := snd (CreateDecision (sys_db s) clock d)\<rparr>
      | OpReadRequest i c \<Rightarrow>
          (case GetRequest (sys_db s) (call_org c) (call_name c) of
             Inl e \<Rightarrow> s
           | Inr r \<Rightarrow> s\<lparr>sys_calls := assoc_set i (c, r, None) (sys_calls s)\<rparr>)
      | OpReadDecisions i \<Rightarrow>
          (case map_of (sys_calls s) i of
             Some (c, r, None) \<Rightarrow>
               (case ListDecisions (sys_db s) (call_org c) (call_name c) of
                  Inl e \<Rightarrow> s\<lparr>sys_calls := assoc_del i (sys_calls s)\<rparr>
                | Inr ds \<Rightarrow> s\<lparr>sys_calls := assoc_set i (c, r, Some ds) (sys_calls s)\<rparr>)
           | _ \<Rightarrow> s)
      | OpCommit i clock \<Rightarrow>
          (case map_of (sys_calls s) i of
             Some (c, r, Some ds) \<Rightarrow>
               s\<lparr>sys_db := snd (finish_transition sha (sys_db s) c clock r ds), sys_calls := assoc_del i (sys_calls s)\<rparr>
           | _ \<Rightarrow> s)
      | OpFault b \<Rightarrow> s\<lparr>sys_db := (sys_db s)\<lparr>adb_fault := b\<rparr>\<rparr>)"

section \<open>The quorum\<close>

definition approvals :: "approval_db \<Rightarrow> string \<Rightarrow> string \<Rightarrow> ApprovalDecision list" where
  "approvals db org name =
     filter (\<lambda>d. of_request org name d \<and> dec_Outcome d = OutcomeApprove) (adb_decisions db)"

definition request_key :: "ApprovalRequest \<Rightarrow> string \<times> string" where
  "request_key r = (req_OrganizationId r, req_Name r)"

definition decision_key :: "ApprovalDecision \<Rightarrow> string \<times> string \<times> string" where
  "decision_key d = (dec_OrganizationId d, dec_RequestName d, dec_ApproverPrincipalId d)"

text \<open>\<open>CreateRequest\<close> writes the state it is given. \<open>K\<close> are the keys under which some call created
  a request that was not pending; the others owe their approval to decisions.\<close>

definition quorum_ok :: "(string \<times> string) set \<Rightarrow> approval_db \<Rightarrow> ApprovalRequest \<Rightarrow> bool" where
  "quorum_ok K db r \<longleftrightarrow>
     0 < req_RequiredApprovals r \<and> req_State r \<noteq> StateUnspecified \<and>
     (req_State r = StateApproved \<or> req_State r = StateExecuted \<longrightarrow> request_key r \<in> K \<or>
        req_RequiredApprovals r \<le> length (approvals db (req_OrganizationId r) (req_Name r)))"

definition intent_ok :: "approval_db \<Rightarrow> ApprovalDecision \<Rightarrow> bool" where
  "intent_ok db d \<longleftrightarrow>
     (\<exists>r\<in>set (adb_requests db). is_request (dec_OrganizationId d) (dec_RequestName d) r \<and> dec_IntentHash d = intent_of r)"

definition db_inv :: "(string \<times> string) set \<Rightarrow> approval_db \<Rightarrow> bool" where
  "db_inv K db \<longleftrightarrow>
     distinct (map request_key (adb_requests db)) \<and> distinct (map decision_key (adb_decisions db)) \<and>
     (\<forall>r\<in>set (adb_requests db). quorum_ok K db r) \<and> (\<forall>d\<in>set (adb_decisions db). intent_ok db d)"

text \<open>A call in flight: the request it read is the row up to what updates may change, and it
  has seen no more approvals than there are.\<close>

definition call_ok :: "approval_db \<Rightarrow> approval_call \<times> ApprovalRequest \<times> ApprovalDecision list option \<Rightarrow> bool" where
  "call_ok db x \<longleftrightarrow>
     (case x of (c, r, ds) \<Rightarrow>
        is_request (call_org c) (call_name c) r \<and> req_State r \<noteq> StateUnspecified \<and>
        (\<exists>row\<in>set (adb_requests db). same_identity r row) \<and>
        (case ds of None \<Rightarrow> True | Some l \<Rightarrow> countApprovals l \<le> length (approvals db (call_org c) (call_name c))))"

definition approval_inv :: "(string \<times> string) set \<Rightarrow> approval_sys \<Rightarrow> bool" where
  "approval_inv K s \<longleftrightarrow> db_inv K (sys_db s) \<and> (\<forall>i x. map_of (sys_calls s) i = Some x \<longrightarrow> call_ok (sys_db s) x)"

text \<open>How a step may change the tables: requests keep their identity, decisions stay.\<close>

definition grows :: "approval_db \<Rightarrow> approval_db \<Rightarrow> bool" where
  "grows a b \<longleftrightarrow>
     (\<forall>r\<in>set (adb_requests a). \<exists>r'\<in>set (adb_requests b). same_identity r r') \<and>
     (\<exists>ds. adb_decisions b = adb_decisions a @ ds)"

lemma same_identity_refl [simp]: "same_identity r r"
  by (simp add: same_identity_def)

lemma same_identity_trans: "same_identity a b \<Longrightarrow> same_identity b c \<Longrightarrow> same_identity a c"
  by (simp add: same_identity_def)

lemma grows_refl [simp]: "grows db db"
  by (auto simp: grows_def intro: same_identity_refl)

lemma approvals_grow: "grows a b \<Longrightarrow> length (approvals a org name) \<le> length (approvals b org name)"
  by (auto simp: grows_def approvals_def)

lemma call_ok_grow: "call_ok a x \<Longrightarrow> grows a b \<Longrightarrow> call_ok b x"
  unfolding call_ok_def grows_def
  by (cases x) (auto simp: approvals_def split: option.splits intro: same_identity_trans)

lemma same_identity_fields:
  "same_identity a b \<Longrightarrow> request_key a = request_key b \<and> intent_of a = intent_of b \<and>
     req_RequiredApprovals a = req_RequiredApprovals b"
  by (simp add: same_identity_def request_key_def intent_of_def)

lemma is_request_key: "is_request org name r \<longleftrightarrow> request_key r = (org, name)"
  by (auto simp: is_request_def request_key_def)

lemma intent_ok_grow: "intent_ok a d \<Longrightarrow> grows a b \<Longrightarrow> intent_ok b d"
  unfolding intent_ok_def grows_def is_request_key by (metis same_identity_fields)

text \<open>New policies and faults leave requests and decisions alone.\<close>

lemma db_inv_cong:
  "adb_requests a = adb_requests b \<Longrightarrow> adb_decisions a = adb_decisions b \<Longrightarrow> db_inv K a = db_inv K b"
  by (simp add: db_inv_def quorum_ok_def intent_ok_def approvals_def)

lemma grows_cong:
  "adb_requests a = adb_requests b \<Longrightarrow> adb_decisions a = adb_decisions b \<Longrightarrow> grows a b"
  by (auto simp: grows_def intro: same_identity_refl)

lemma CreatePolicy_tables:
  "adb_requests (snd (CreatePolicy db p)) = adb_requests db \<and> adb_decisions (snd (CreatePolicy db p)) = adb_decisions db"
  by (cases p) (simp_all add: CreatePolicy_def store_policy_version_def)

text \<open>A new request.\<close>

lemma db_inv_new_request:
  assumes "db_inv K db" and "adb_requests db' = adb_requests db @ [r]" and "adb_decisions db' = adb_decisions db"
    and "request_key r \<notin> request_key ` set (adb_requests db)" and "0 < req_RequiredApprovals r"
    and "req_State r \<noteq> StateUnspecified" and "req_State r = StatePending \<or> request_key r \<in> K"
  shows "db_inv K db' \<and> grows db db'"
proof -
  have g: "grows db db'" using assms(2,3) by (auto simp: grows_def intro: same_identity_refl)
  then have "\<forall>d\<in>set (adb_decisions db'). intent_ok db' d"
    using assms(1,3) intent_ok_grow by (auto simp: db_inv_def)
  with assms g show ?thesis by (auto simp: db_inv_def quorum_ok_def approvals_def)
qed

lemma insert_request_cases:
  "snd (insert_request db clock r) = db \<or>
   (\<not> request_name_taken db r \<and>
    snd (insert_request db clock r) = db\<lparr>adb_requests := adb_requests db @
      [r\<lparr>req_ApprovalCount := 0, req_CompletedAt := None, req_TerminalReason := []\<rparr>]\<rparr>)"
  by (simp add: insert_request_def)

lemma request_name_taken_iff: "request_name_taken db r \<longleftrightarrow> request_key r \<in> request_key ` set (adb_requests db)"
  by (auto simp: request_name_taken_def list_ex_iff is_request_key request_key_def image_iff) metis+

definition starts_pending :: "(string \<times> string) set \<Rightarrow> ApprovalRequest option \<Rightarrow> bool" where
  "starts_pending K r =
     (case r of None \<Rightarrow> True
      | Some x \<Rightarrow> req_State x = StateUnspecified \<or> req_State x = StatePending \<or> request_key x \<in> K)"

lemma bound_request_fields:
  assumes "bound_request sha canon clock rnd r = Inr r1"
  shows "request_complete r \<and> req_State r1 = req_State r \<and> req_RequiredApprovals r1 = req_RequiredApprovals r \<and>
    request_key r1 = request_key r"
  using assms
  by (auto simp: bound_request_def Let_def request_key_def split: if_splits option.splits sum.splits)

lemma CreateRequest_db:
  "snd (CreateRequest sha canon db clock rnd (Some r)) =
     (case bound_request sha canon clock rnd r of
        Inl e \<Rightarrow> db
      | Inr r1 \<Rightarrow> if adb_open db then snd (insert_request db clock (pending_if_unset r1)) else db)"
  by (auto simp: CreateRequest_def split: sum.split prod.split)

lemma CreateRequest_inv:
  assumes "db_inv K db" and "starts_pending K request"
  shows "db_inv K (snd (CreateRequest sha canon db clock rnd request)) \<and>
    grows db (snd (CreateRequest sha canon db clock rnd request))"
proof (cases request)
  case None
  with assms show ?thesis by (simp add: CreateRequest_def)
next
  case (Some r)
  show ?thesis
  proof (cases "bound_request sha canon clock rnd r")
    case (Inl e)
    with assms Some show ?thesis by (simp add: CreateRequest_db)
  next
    case (Inr r1)
    let ?x = "pending_if_unset r1"
    have "request_key ?x = request_key r1" by (simp add: pending_if_unset_def request_key_def)
    then have x: "req_State ?x = StatePending \<or> request_key ?x \<in> K" "req_State ?x \<noteq> StateUnspecified"
        "0 < req_RequiredApprovals ?x"
      using bound_request_fields [OF Inr] assms(2) Some
      by (auto simp: starts_pending_def pending_if_unset_def request_complete_def)
    have "db_inv K (snd (insert_request db clock ?x)) \<and> grows db (snd (insert_request db clock ?x))"
      using insert_request_cases [of db clock ?x]
    proof
      assume new: "\<not> request_name_taken db ?x \<and> snd (insert_request db clock ?x) = db\<lparr>adb_requests := adb_requests db @
        [?x\<lparr>req_ApprovalCount := 0, req_CompletedAt := None, req_TerminalReason := []\<rparr>]\<rparr>"
      show ?thesis
        by (rule db_inv_new_request [OF assms(1), where
            r = "?x\<lparr>req_ApprovalCount := 0, req_CompletedAt := None, req_TerminalReason := []\<rparr>"])
          (use new x in \<open>simp_all add: request_name_taken_iff request_key_def\<close>)
    qed (simp add: assms(1))
    with assms(1) show ?thesis by (simp add: Some CreateRequest_db Inr)
  qed
qed

text \<open>A new decision.\<close>

lemma insert_decision_cases:
  "insert_decision db d = (Inl SqlFailed, db) \<or>
   (insert_decision db d = (Inr (), db\<lparr>adb_decisions := adb_decisions db @ [d]\<rparr>) \<and>
    decision_key d \<notin> decision_key ` set (adb_decisions db))"
  by (auto simp: insert_decision_def list_ex_iff decision_key_def)

lemma quorum_ok_grow:
  "quorum_ok K a r \<Longrightarrow> grows a b \<Longrightarrow> quorum_ok K b r"
  unfolding quorum_ok_def using approvals_grow by (metis order_trans)

lemma db_inv_new_decision:
  assumes "db_inv K db" and "decision_key d \<notin> decision_key ` set (adb_decisions db)" and "intent_ok db d"
  shows "db_inv K (db\<lparr>adb_decisions := adb_decisions db @ [d]\<rparr>) \<and> grows db (db\<lparr>adb_decisions := adb_decisions db @ [d]\<rparr>)"
proof -
  let ?db = "db\<lparr>adb_decisions := adb_decisions db @ [d]\<rparr>"
  have g: "grows db ?db" by (auto simp: grows_def intro: same_identity_refl)
  have "\<forall>r\<in>set (adb_requests ?db). quorum_ok K ?db r"
    using assms(1) quorum_ok_grow [OF _ g] by (simp add: db_inv_def)
  moreover have "\<forall>x\<in>set (adb_decisions ?db). intent_ok ?db x"
    using assms(1,3) intent_ok_grow [OF _ g] by (auto simp: db_inv_def)
  ultimately show ?thesis using assms(1,2) g by (simp add: db_inv_def)
qed

lemma CreateDecision_db:
  "snd (CreateDecision db clock decision) = db \<or>
   (\<exists>d r. decision = Some d \<and> find (is_request (dec_OrganizationId d) (dec_RequestName d)) (adb_requests db) = Some r \<and>
      dec_IntentHash d = intent_of r \<and> snd (CreateDecision db clock decision) = snd (insert_decision db (d\<lparr>dec_CreatedAt := clock\<rparr>)))"
  by (cases decision) (auto simp: CreateDecision_def split: option.splits)

lemma CreateDecision_inv:
  assumes "db_inv K db"
  shows "db_inv K (snd (CreateDecision db clock decision)) \<and> grows db (snd (CreateDecision db clock decision))"
  using CreateDecision_db [of db clock decision]
proof
  assume "\<exists>d r. decision = Some d \<and> find (is_request (dec_OrganizationId d) (dec_RequestName d)) (adb_requests db) = Some r \<and>
      dec_IntentHash d = intent_of r \<and> snd (CreateDecision db clock decision) = snd (insert_decision db (d\<lparr>dec_CreatedAt := clock\<rparr>))"
  then obtain d r where d: "find (is_request (dec_OrganizationId d) (dec_RequestName d)) (adb_requests db) = Some r"
    "dec_IntentHash d = intent_of r" and db': "snd (CreateDecision db clock decision) = snd (insert_decision db (d\<lparr>dec_CreatedAt := clock\<rparr>))"
    by blast
  have "intent_ok db (d\<lparr>dec_CreatedAt := clock\<rparr>)"
    using d find_Some_in [of _ "adb_requests db"] by (auto simp: intent_ok_def)
  with insert_decision_cases [of db "d\<lparr>dec_CreatedAt := clock\<rparr>"] db_inv_new_decision [OF assms] assms show ?thesis
    unfolding db' by (elim disjE) simp_all
qed (simp add: assms)

text \<open>The transaction of a transition.\<close>

lemma update_request_grows: "grows db (update_request db org name x)"
proof -
  have "\<exists>r'\<in>set (update_first P f rs). same_identity r r'"
    if "r \<in> set rs" and "\<And>y. same_identity y (f y)" for P f r and rs :: "ApprovalRequest list"
    using that by (induction rs) (auto intro: same_identity_refl)
  then show ?thesis unfolding grows_def update_request_def by (auto simp: same_identity_def)
qed

definition updated_row :: "ApprovalRequest \<Rightarrow> ApprovalRequest \<Rightarrow> ApprovalRequest" where
  "updated_row result row =
     row\<lparr>req_State := req_State result, req_ApprovalCount := req_ApprovalCount result,
       req_CompletedAt := req_CompletedAt result, req_TerminalReason := req_TerminalReason result\<rparr>"

lemma update_request_eq:
  "update_request db org name x =
     db\<lparr>adb_requests := update_first (is_request org name) (updated_row x) (adb_requests db)\<rparr>"
  by (simp add: update_request_def updated_row_def [abs_def])

lemma row_unique:
  assumes "distinct (map request_key rs)" and "r \<in> set rs" and "is_request org name r"
  shows "find (is_request org name) rs = Some r"
  using distinct_inj_on_find [OF assms(1,2)] assms(3) by (simp add: is_request_key [abs_def])

lemma db_inv_update:
  assumes "db_inv K db" and "find (is_request org name) (adb_requests db) = Some row"
    and "quorum_ok K db (updated_row x row)"
  shows "db_inv K (update_request db org name x)"
proof -
  let ?db = "update_request db org name x"
  have keys: "map request_key (adb_requests ?db) = map request_key (adb_requests db)"
    unfolding update_request_eq by (simp add: updated_row_def request_key_def)
  have "\<forall>r\<in>set (adb_requests ?db). quorum_ok K ?db r"
  proof
    fix r assume "r \<in> set (adb_requests ?db)"
    then consider "r \<in> set (adb_requests db)" | y where "y \<in> set (adb_requests db)" "is_request org name y" "r = updated_row x y"
      unfolding update_request_eq using set_update_first [of r "is_request org name" "updated_row x" "adb_requests db"] by auto
    then have "quorum_ok K db r"
    proof cases
      case 2
      then have "y = row" using row_unique [of "adb_requests db" y org name] assms(1,2) by (simp add: db_inv_def)
      with 2 assms(3) show ?thesis by simp
    qed (use assms(1) in \<open>simp add: db_inv_def\<close>)
    then show "quorum_ok K ?db r" by (simp add: quorum_ok_def approvals_def update_request_eq)
  qed
  moreover have "\<forall>d\<in>set (adb_decisions ?db). intent_ok ?db d"
    using assms(1) intent_ok_grow update_request_grows by (auto simp: db_inv_def update_request_eq)
  ultimately show ?thesis using assms(1) keys by (simp add: db_inv_def update_request_eq)
qed

abbreviation is_decision :: "approval_call \<Rightarrow> bool" where
  "is_decision c \<equiv> call_transition c = TransitionApprove \<or> call_transition c = TransitionDeny"

lemma commit_cases:
  assumes "commit_transition sha db c clock request result = (r, db')"
  obtains (refused) e where "r = Inl e" "db' = db"
    | (plain) row where "\<not> is_decision c" "find (is_request (call_org c) (call_name c)) (adb_requests db) = Some row"
      "req_State row = req_State request" "req_ApprovalCount result \<le> req_RequiredApprovals row" "r = Inr result"
      "db' = update_request db (call_org c) (call_name c) result"
    | (decided) row where "is_decision c" "find (is_request (call_org c) (call_name c)) (adb_requests db) = Some row"
      "req_State row = req_State request" "req_ApprovalCount result \<le> req_RequiredApprovals row" "r = Inr result"
      "decision_key (decision_of sha c clock request) \<notin> decision_key ` set (adb_decisions db)"
      "db' = update_request (db\<lparr>adb_decisions := adb_decisions db @ [decision_of sha c clock request]\<rparr>)
         (call_org c) (call_name c) result"
proof (cases "find (is_request (call_org c) (call_name c)) (adb_requests db)")
  case None
  with assms show thesis using refused by (auto simp: commit_transition_def split: if_splits)
next
  case (Some row)
  show thesis
  proof (cases "adb_fault db \<or> req_State row \<noteq> req_State request")
    case True
    with assms Some show thesis using refused by (auto simp: commit_transition_def split: if_splits)
  next
    case False
    show thesis
    proof (cases "is_decision c")
      case True
      define d where "d = decision_of sha c clock request"
      from insert_decision_cases [of db d] show thesis
      proof (elim disjE conjE)
        assume "insert_decision db d = (Inl SqlFailed, db)"
        with False True assms Some have "r = Inl SqlFailed \<and> db' = db"
          by (simp add: commit_transition_def d_def)
        then show thesis using refused by blast
      next
        assume ins: "insert_decision db d = (Inr (), db\<lparr>adb_decisions := adb_decisions db @ [d]\<rparr>)"
          and fresh: "decision_key d \<notin> decision_key ` set (adb_decisions db)"
        show thesis
        proof (cases "req_RequiredApprovals row < req_ApprovalCount result")
          case over: True
          with ins False True assms Some have "r = Inl SqlFailed \<and> db' = db"
            by (simp add: commit_transition_def d_def)
          then show thesis using refused by blast
        next
          case fits: False
          with ins False True assms Some have "r = Inr result \<and>
              db' = update_request (db\<lparr>adb_decisions := adb_decisions db @ [d]\<rparr>) (call_org c) (call_name c) result"
            by (simp add: commit_transition_def d_def)
          with fits fresh False True Some show thesis by (intro decided [of row]) (simp_all add: d_def)
        qed
      qed
    next
      case nodec: False
      with False assms Some show thesis using refused plain by (auto simp: commit_transition_def split: if_splits)
    qed
  qed
qed

lemma countApprovals_sort: "countApprovals (sort_key f xs) = countApprovals xs"
  by (simp add: countApprovals_def filter_sort)

lemma call_ok_row:
  assumes "db_inv K db" and "call_ok db (c, r, ds)"
    and "find (is_request (call_org c) (call_name c)) (adb_requests db) = Some row"
  shows "same_identity r row"
proof -
  obtain row' where row': "row' \<in> set (adb_requests db)" "same_identity r row'" "is_request (call_org c) (call_name c) row'"
    using assms(2) same_identity_fields by (force simp: call_ok_def is_request_key)
  with row_unique [of "adb_requests db" row'] assms(1,3) show ?thesis by (simp add: db_inv_def)
qed

lemma finish_transition_inv:
  assumes "db_inv K db" and "call_ok db (c, r, Some ds)"
  shows "db_inv K (snd (finish_transition sha db c clock r ds)) \<and> grows db (snd (finish_transition sha db c clock r ds))"
proof (cases "ApplyApprovalTransition (call_policy c) (Some r) ds (call_eligible c) (call_actor c)
    (call_transition c) clock (call_now c)")
  case (Inl e)
  with assms(1) show ?thesis by (simp add: finish_transition_def)
next
  case (Inr res)
  let ?x = "tr_Request res"
  obtain out db' where commit: "commit_transition sha db c clock r ?x = (out, db')" by fastforce
  then have fin: "snd (finish_transition sha db c clock r ds) = db'" by (simp add: finish_transition_def Inr)
  have r: "pending_if_unset r = r" using assms(2) by (simp add: call_ok_def pending_if_unset_def)
  have seen: "countApprovals ds \<le> length (approvals db (call_org c) (call_name c))"
    using assms(2) by (simp add: call_ok_def)
  have "db_inv K db' \<and> grows db db'"
    using commit
  proof (cases rule: commit_cases)
    case (refused e)
    with assms(1) show ?thesis by simp
  next
    case (plain row)
    note id = call_ok_row [OF assms plain(2)]
    have row: "quorum_ok K db row" "is_request (call_org c) (call_name c) row"
      using assms(1) find_Some_in [OF plain(2)] by (auto simp: db_inv_def)
    from Inr have "quorum_ok K db (updated_row ?x row)"
    proof (cases rule: transition_cases)
      case (decision pol action deny)
      with plain(1) show ?thesis by (auto split: if_splits)
    next
      case (closing pol)
      then show ?thesis using row(1) plain(3) r
        by (cases "req_State r"; cases "req_State ?x") (auto simp: quorum_ok_def updated_row_def request_key_def)
    qed
    with db_inv_update [OF assms(1) plain(2)] update_request_grows show ?thesis by (simp add: plain(6))
  next
    case (decided row)
    note id = call_ok_row [OF assms decided(2)]
    let ?d = "decision_of sha c clock r"
    let ?db = "db\<lparr>adb_decisions := adb_decisions db @ [?d]\<rparr>"
    have row: "quorum_ok K db row" "is_request (call_org c) (call_name c) row" "row \<in> set (adb_requests db)"
      using assms(1) find_Some_in [OF decided(2)] by (auto simp: db_inv_def)
    have "intent_ok db ?d"
      using row(2,3) same_identity_fields [OF id] by (auto simp: intent_ok_def decision_of_def)
    then have inv: "db_inv K ?db" "grows db ?db" using db_inv_new_decision [OF assms(1) decided(6)] by auto
    have one: "length (approvals ?db (call_org c) (call_name c)) =
        length (approvals db (call_org c) (call_name c)) + (if call_transition c = TransitionDeny then 0 else 1)"
      by (simp add: approvals_def of_request_def decision_of_def)
    from Inr have "quorum_ok K ?db (updated_row ?x row)"
    proof (cases rule: transition_cases)
      case (decision pol action deny)
      note dec = decide_result [OF decision(4)]
      have req: "req_RequiredApprovals r = req_RequiredApprovals row" "req_RequiredApprovals row \<noteq> 0"
        using same_identity_fields [OF id] row(1) by (auto simp: quorum_ok_def)
      show ?thesis
      proof (cases deny)
        case True
        with dec r row(1) show ?thesis by (simp add: quorum_ok_def updated_row_def)
      next
        case False
        have "req_ApprovalCount ?x \<le> countApprovals ds + 1" using dec False u32_le by simp
        then have "req_ApprovalCount ?x \<le> length (approvals ?db (call_org c) (call_name c))"
          using one seen decision(3) False by simp
        moreover have "req_State ?x = (if req_RequiredApprovals row \<le> req_ApprovalCount ?x then StateApproved else StatePending)"
          using dec False r req by simp
        ultimately show ?thesis using row(1,2) req
          by (auto simp: quorum_ok_def updated_row_def is_request_def)
      qed
    next
      case (closing pol)
      with decided(1) show ?thesis by auto
    qed
    then have "db_inv K db'" using db_inv_update [OF inv(1), of "call_org c" "call_name c" row ?x] decided(2,7) by simp
    moreover have "grows ?db db'" using update_request_grows decided(7) by simp
    then have "grows db db'" using inv(2) unfolding grows_def by (force intro: same_identity_trans)
    ultimately show ?thesis by blast
  qed
  then show ?thesis by (simp add: fin)
qed

section \<open>Histories\<close>

definition starts_empty :: "approval_sys \<Rightarrow> bool" where
  "starts_empty s \<longleftrightarrow> adb_requests (sys_db s) = [] \<and> adb_decisions (sys_db s) = [] \<and> sys_calls s = []"

definition legal_op :: "(string \<times> string) set \<Rightarrow> approval_op \<Rightarrow> bool" where
  "legal_op K op = (case op of OpRequest _ _ r \<Rightarrow> starts_pending K r | _ \<Rightarrow> True)"

lemma approval_inv_start: "starts_empty s \<Longrightarrow> approval_inv K s"
  by (simp add: starts_empty_def approval_inv_def db_inv_def)

lemma approval_inv_db:
  assumes "approval_inv K s" and "db_inv K db" and "grows (sys_db s) db"
  shows "approval_inv K (s\<lparr>sys_db := db\<rparr>)"
  using assms call_ok_grow [OF _ assms(3)] by (simp add: approval_inv_def)

lemma GetRequest_ok:
  assumes "GetRequest db org name = Inr r"
  shows "find (is_request org name) (adb_requests db) = Some r"
  using assms by (auto simp: GetRequest_def split: if_splits option.splits)

lemma ListDecisions_ok:
  assumes "ListDecisions db org name = Inr ds"
  shows "countApprovals ds = length (approvals db org name) \<and> set ds = set (filter (of_request org name) (adb_decisions db))"
proof -
  have ds: "ds = sort_key dec_CreatedAt (sort_key dec_Name (filter (of_request org name) (adb_decisions db)))"
    using assms by (auto simp: ListDecisions_def split: if_splits)
  then have "countApprovals ds = countApprovals (filter (of_request org name) (adb_decisions db))"
    by (simp only: countApprovals_sort)
  also have "\<dots> = length (approvals db org name)"
    by (simp add: countApprovals_def approvals_def conj_commute)
  finally show ?thesis by (simp add: ds)
qed

lemma read_request_ok:
  assumes "db_inv K db" and "GetRequest db (call_org c) (call_name c) = Inr r"
  shows "call_ok db (c, r, None)"
  using assms find_Some_in [OF GetRequest_ok [OF assms(2)]]
  by (auto simp: call_ok_def db_inv_def quorum_ok_def intro: same_identity_refl)

lemma approval_inv_step:
  assumes "approval_inv K s" and "legal_op K op"
  shows "approval_inv K (approval_step sha canon s op) \<and> grows (sys_db s) (sys_db (approval_step sha canon s op))"
proof -
  have db: "db_inv K (sys_db s)" and calls: "\<And>i x. map_of (sys_calls s) i = Some x \<Longrightarrow> call_ok (sys_db s) x"
    using assms(1) by (auto simp: approval_inv_def)
  show ?thesis
  proof (cases op)
    case (OpPolicy p)
    have t: "adb_requests (sys_db s) = adb_requests (snd (CreatePolicy (sys_db s) p))"
      "adb_decisions (sys_db s) = adb_decisions (snd (CreatePolicy (sys_db s) p))" using CreatePolicy_tables by auto
    with db_inv_cong [OF t] grows_cong [OF t] db show ?thesis
      using approval_inv_db [OF assms(1)] by (simp add: OpPolicy approval_step_def)
  next
    case (OpRequest clock rnd r)
    with CreateRequest_inv [OF db, of r] assms(2) approval_inv_db [OF assms(1)] show ?thesis
      by (simp add: approval_step_def legal_op_def)
  next
    case (OpDecision clock d)
    with CreateDecision_inv [OF db] approval_inv_db [OF assms(1)] show ?thesis by (simp add: approval_step_def)
  next
    case (OpReadRequest i c)
    then show ?thesis using assms(1) db calls read_request_ok
      by (auto simp: approval_step_def approval_inv_def split: sum.split if_splits)
  next
    case (OpReadDecisions i)
    show ?thesis
    proof (cases "map_of (sys_calls s) i")
      case (Some x)
      obtain c r ds where x: "x = (c, r, ds)" by (cases x)
      have ok: "call_ok (sys_db s) (c, r, Some l)" if "ListDecisions (sys_db s) (call_org c) (call_name c) = Inr l" for l
        using calls [OF Some] ListDecisions_ok [OF that] by (simp add: x call_ok_def)
      then show ?thesis using assms(1) db calls
        by (auto simp: approval_step_def approval_inv_def OpReadDecisions Some x split: sum.split option.split if_splits)
    qed (use assms(1) in \<open>simp add: approval_step_def OpReadDecisions\<close>)
  next
    case (OpCommit i clock)
    show ?thesis
    proof (cases "\<exists>c r ds. map_of (sys_calls s) i = Some (c, r, Some ds)")
      case True
      then obtain c r ds where x: "map_of (sys_calls s) i = Some (c, r, Some ds)" by blast
      let ?db = "snd (finish_transition sha (sys_db s) c clock r ds)"
      have fin: "db_inv K ?db" "grows (sys_db s) ?db" using finish_transition_inv [OF db calls [OF x]] by auto
      have "approval_inv K (s\<lparr>sys_db := ?db\<rparr>)" using approval_inv_db [OF assms(1) fin] .
      then show ?thesis using fin by (auto simp: approval_step_def OpCommit x approval_inv_def split: if_splits)
    next
      case False
      then have "approval_step sha canon s op = s"
        by (auto simp: approval_step_def OpCommit split: option.splits prod.splits)
      with assms(1) show ?thesis by simp
    qed
  next
    case (OpFault b)
    have "db_inv K ((sys_db s)\<lparr>adb_fault := b\<rparr>)" "grows (sys_db s) ((sys_db s)\<lparr>adb_fault := b\<rparr>)"
      using db db_inv_cong [of "(sys_db s)\<lparr>adb_fault := b\<rparr>" "sys_db s"] by (auto intro: grows_cong)
    then show ?thesis using approval_inv_db [OF assms(1)] by (simp add: approval_step_def OpFault)
  qed
qed

interpretation approval_history: component "approval_step sha canon" "approval_inv K" "legal_op K" starts_empty
  for K sha canon
  by unfold_locales (auto intro: approval_inv_start dest: approval_inv_step)

text \<open>No step leaves the lifecycle of the contract.\<close>

definition lifecycle_move :: "request_state \<Rightarrow> request_state \<Rightarrow> bool" where
  "lifecycle_move a b \<longleftrightarrow> a = b \<or> approvalTransitionAllowed a b"

definition evolves :: "approval_db \<Rightarrow> approval_db \<Rightarrow> bool" where
  "evolves a b \<longleftrightarrow>
     (\<forall>r\<in>set (adb_requests a). \<exists>r'\<in>set (adb_requests b).
        same_identity r r' \<and> lifecycle_move (req_State r) (req_State r'))"

lemma evolves_subset: "set (adb_requests a) \<subseteq> set (adb_requests b) \<Longrightarrow> evolves a b"
  unfolding evolves_def lifecycle_move_def using same_identity_refl by blast

lemma transition_state:
  assumes "ApplyApprovalTransition policy (Some r) ds eligible actor transition clock now = Inr res"
    and "req_State r \<noteq> StateUnspecified"
  shows "lifecycle_move (req_State r) (req_State (tr_Request res))"
  using assms(1)
proof (cases rule: transition_cases)
  case (decision pol action deny)
  have "pending_if_unset r = r" using assms(2) by (simp add: pending_if_unset_def)
  with decide_result [OF decision(4)] show ?thesis by (auto simp: lifecycle_move_def split: if_splits)
next
  case (closing pol)
  have "pending_if_unset r = r" using assms(2) by (simp add: pending_if_unset_def)
  with closing(5) show ?thesis by (simp add: lifecycle_move_def)
qed

lemma update_request_evolves:
  assumes "distinct (map request_key (adb_requests db))"
    and "find (is_request org name) (adb_requests db) = Some row"
    and "lifecycle_move (req_State row) (req_State x)"
  shows "evolves db (update_request db org name x)"
  unfolding evolves_def
proof
  fix r assume r: "r \<in> set (adb_requests db)"
  obtain us vs where split: "adb_requests db = us @ row # vs"
    "update_first (is_request org name) (updated_row x) (adb_requests db) = us @ updated_row x row # vs"
    using update_first_split [OF assms(2)] by blast
  show "\<exists>r'\<in>set (adb_requests (update_request db org name x)).
      same_identity r r' \<and> lifecycle_move (req_State r) (req_State r')"
  proof (cases "r = row")
    case True
    then show ?thesis using assms(3)
      by (intro bexI [of _ "updated_row x row"])
        (simp_all add: update_request_eq split(2), simp add: updated_row_def same_identity_def)
  next
    case False
    then have "r \<in> set us \<union> set vs" using r split(1) by auto
    then show ?thesis by (intro bexI [of _ r]) (auto simp: update_request_eq split(2) lifecycle_move_def)
  qed
qed

lemma finish_transition_evolves:
  assumes "db_inv K db" and "call_ok db (c, r, ds')"
  shows "evolves db (snd (finish_transition sha db c clock r ds))"
proof (cases "ApplyApprovalTransition (call_policy c) (Some r) ds (call_eligible c) (call_actor c)
    (call_transition c) clock (call_now c)")
  case (Inl e)
  then show ?thesis by (simp add: finish_transition_def evolves_subset)
next
  case (Inr res)
  obtain out db' where commit: "commit_transition sha db c clock r (tr_Request res) = (out, db')" by fastforce
  then have fin: "snd (finish_transition sha db c clock r ds) = db'" by (simp add: finish_transition_def Inr)
  have st: "lifecycle_move (req_State r) (req_State (tr_Request res))"
    using transition_state [OF Inr] assms(2) by (simp add: call_ok_def)
  have d: "distinct (map request_key (adb_requests db))" using assms(1) by (simp add: db_inv_def)
  from commit have "evolves db db'"
  proof (cases rule: commit_cases)
    case (refused e)
    then show ?thesis by (simp add: evolves_subset)
  next
    case (plain row)
    with update_request_evolves [OF d plain(2)] st show ?thesis by simp
  next
    case (decided row)
    let ?db = "db\<lparr>adb_decisions := adb_decisions db @ [decision_of sha c clock r]\<rparr>"
    have "evolves ?db db'" unfolding decided(7)
      by (rule update_request_evolves [where row = row]) (use d decided(2,3) st in simp_all)
    then show ?thesis by (simp add: evolves_def)
  qed
  then show ?thesis by (simp add: fin)
qed

lemma approval_step_evolves:
  assumes "approval_inv K s"
  shows "evolves (sys_db s) (sys_db (approval_step sha canon s op))"
proof (cases op)
  case (OpRequest clock rnd r)
  have "set (adb_requests (sys_db s)) \<subseteq> set (adb_requests (snd (insert_request (sys_db s) clock x)))" for x
    using insert_request_cases [of "sys_db s" clock x] by auto
  then have "evolves (sys_db s) (snd (CreateRequest sha canon (sys_db s) clock rnd r))"
    by (cases r) (auto simp: CreateRequest_db CreateRequest_def [of _ _ _ _ _ None] intro!: evolves_subset split: sum.split)
  then show ?thesis by (simp add: OpRequest approval_step_def)
next
  case (OpDecision clock d)
  have "adb_requests (snd (insert_decision (sys_db s) x)) = adb_requests (sys_db s)" for x
    using insert_decision_cases [of "sys_db s" x] by auto
  then have "adb_requests (snd (CreateDecision (sys_db s) clock d)) = adb_requests (sys_db s)"
    using CreateDecision_db [of "sys_db s" clock d] by auto
  then show ?thesis by (simp add: OpDecision approval_step_def evolves_subset)
next
  case (OpCommit i clock)
  show ?thesis
  proof (cases "\<exists>c r ds. map_of (sys_calls s) i = Some (c, r, Some ds)")
    case True
    then obtain c r ds where x: "map_of (sys_calls s) i = Some (c, r, Some ds)" by blast
    with assms have "call_ok (sys_db s) (c, r, Some ds)" "db_inv K (sys_db s)" by (auto simp: approval_inv_def)
    with finish_transition_evolves show ?thesis by (simp add: approval_step_def OpCommit x)
  next
    case False
    then have "approval_step sha canon s op = s"
      by (auto simp: approval_step_def OpCommit split: option.splits prod.splits)
    then show ?thesis by (simp add: evolves_subset)
  qed
qed (use CreatePolicy_tables in \<open>auto simp: approval_step_def intro!: evolves_subset split: sum.split option.split\<close>)

section \<open>Properties\<close>

text \<open>The approver ids, as they are written, of the approving decisions for the request's own
  intent; \<open>normalizeApprovalPrincipal\<close> maps the spellings of a person to one.\<close>

definition approvers_of :: "approval_db \<Rightarrow> ApprovalRequest \<Rightarrow> string set" where
  "approvers_of db r =
     {dec_ApproverPrincipalId d | d. d \<in> set (adb_decisions db) \<and>
        of_request (req_OrganizationId r) (req_Name r) d \<and> dec_Outcome d = OutcomeApprove \<and> dec_IntentHash d = intent_of r}"

lemma db_inv_quorum:
  assumes inv: "db_inv K db" and r: "r \<in> set (adb_requests db)"
    and "req_State r = StateApproved \<or> req_State r = StateExecuted" and "request_key r \<notin> K"
  shows "req_RequiredApprovals r \<le> card (approvers_of db r)"
proof -
  let ?ds = "approvals db (req_OrganizationId r) (req_Name r)"
  have intent: "dec_IntentHash d = intent_of r" if "d \<in> set ?ds" for d
  proof -
    from that have d: "of_request (req_OrganizationId r) (req_Name r) d" "intent_ok db d"
      using inv by (auto simp: approvals_def db_inv_def)
    then obtain r' where "r' \<in> set (adb_requests db)" "request_key r' = request_key r" "dec_IntentHash d = intent_of r'"
      by (auto simp: intent_ok_def of_request_def is_request_key request_key_def)
    moreover have "r' = r" using inv r calculation(1,2) by (auto simp: db_inv_def distinct_map inj_on_def)
    ultimately show ?thesis by simp
  qed
  have "inj_on dec_ApproverPrincipalId (set ?ds)" and "distinct ?ds"
    using inv by (auto simp: db_inv_def approvals_def distinct_map inj_on_def of_request_def decision_key_def)
  then have "card (dec_ApproverPrincipalId ` set ?ds) = length ?ds" by (simp add: card_image distinct_card)
  moreover have "dec_ApproverPrincipalId ` set ?ds = approvers_of db r"
    using intent by (auto simp: approvals_def approvers_of_def)
  moreover have "req_RequiredApprovals r \<le> length ?ds"
    using inv r assms(3,4) by (auto simp: db_inv_def quorum_ok_def)
  ultimately show ?thesis by simp
qed

lemma history_db_inv:
  "starts_empty s \<Longrightarrow> list_all (legal_op K) ops \<Longrightarrow> db_inv K (sys_db (foldl (approval_step sha canon) s ops))"
  using approval_history.invar_history [of s ops K sha canon] by (simp add: approval_inv_def list_all_iff)

text \<open>No call of the history created the request under this key in any state but pending.\<close>

definition created_open :: "approval_op list \<Rightarrow> string \<times> string \<Rightarrow> bool" where
  "created_open ops key =
     list_all (\<lambda>op. case op of
         OpRequest _ _ (Some r) \<Rightarrow> request_key r = key \<longrightarrow> req_State r = StateUnspecified \<or> req_State r = StatePending
       | _ \<Rightarrow> True) ops"

lemma created_open_legal: "created_open ops key \<Longrightarrow> list_all (legal_op (- {key})) ops"
  by (auto simp: created_open_def list_all_iff legal_op_def starts_pending_def split: approval_op.splits option.splits)

lemma created_open_append [simp]: "created_open (xs @ ys) key \<longleftrightarrow> created_open xs key \<and> created_open ys key"
  by (simp add: created_open_def)

lemma history_quorum:
  assumes "starts_empty s" and "db = sys_db (foldl (approval_step sha canon) s ops)" and "r \<in> set (adb_requests db)"
    and "req_State r = StateApproved \<or> req_State r = StateExecuted" and "created_open ops (request_key r)"
  shows "req_RequiredApprovals r \<le> card (approvers_of db r)"
  using db_inv_quorum [OF history_db_inv [OF assms(1) created_open_legal [OF assms(5)]], of r sha canon] assms(2-4)
  by simp

text \<open>Transitions that run one after the other: each reads, decides and commits before the next
  call begins.\<close>

datatype approval_turn =
    TurnPolicy "ApprovalPolicy option"
  | TurnRequest instant "string option" "ApprovalRequest option"
  | TurnApply approval_call instant
  | TurnFault bool

primrec turn_ops :: "approval_turn \<Rightarrow> approval_op list" where
  "turn_ops (TurnPolicy p) = [OpPolicy p]"
| "turn_ops (TurnRequest clock rnd r) = [OpRequest clock rnd r]"
| "turn_ops (TurnApply c clock) = [OpReadRequest 0 c, OpReadDecisions 0, OpCommit 0 clock]"
| "turn_ops (TurnFault b) = [OpFault b]"

definition in_turn :: "approval_op list \<Rightarrow> bool" where
  "in_turn ops \<longleftrightarrow> (\<exists>turns. ops = concat (map turn_ops turns))"

definition person_key :: "ApprovalDecision \<Rightarrow> string \<times> string \<times> string" where
  "person_key d = (dec_OrganizationId d, dec_RequestName d, normalizeApprovalPrincipal (dec_ApproverPrincipalId d))"

definition one_per_person :: "approval_sys \<Rightarrow> bool" where
  "one_per_person s \<longleftrightarrow> sys_calls s = [] \<and> distinct (map person_key (adb_decisions (sys_db s)))"

lemma ApplyTransition_persons:
  assumes "distinct (map person_key (adb_decisions db))"
  shows "distinct (map person_key (adb_decisions (snd (ApplyTransition sha db c clock))))"
proof -
  have "distinct (map person_key (adb_decisions (snd (finish_transition sha db c clock r ds))))"
    if ds: "ListDecisions db (call_org c) (call_name c) = Inr ds" for r ds
  proof (cases "ApplyApprovalTransition (call_policy c) (Some r) ds (call_eligible c) (call_actor c)
      (call_transition c) clock (call_now c)")
    case (Inl e)
    with assms show ?thesis by (simp add: finish_transition_def)
  next
    case (Inr res)
    obtain out db' where commit: "commit_transition sha db c clock r (tr_Request res) = (out, db')" by fastforce
    then have "distinct (map person_key (adb_decisions db'))"
    proof (cases rule: commit_cases)
      case (decided row)
      have "\<forall>d\<in>set ds. normalizeApprovalPrincipal (dec_ApproverPrincipalId d) \<noteq> normalizeApprovalPrincipal (call_actor c)"
        using Inr
      proof (cases rule: transition_cases)
        case (decision pol action deny)
        then show ?thesis using decide_result [OF decision(4)] prior_decision_error_None by blast
      qed (use decided(1) in blast)
      then have "person_key (decision_of sha c clock r) \<notin> person_key ` set (adb_decisions db)"
        using ListDecisions_ok [OF ds] by (auto simp: person_key_def decision_of_def of_request_def)
      with assms show ?thesis by (simp add: decided(7) update_request_eq)
    qed (use assms in \<open>simp_all add: update_request_eq\<close>)
    with commit Inr show ?thesis by (simp add: finish_transition_def)
  qed
  with assms show ?thesis by (simp add: ApplyTransition_def split: sum.split)
qed

lemma turn_apply:
  assumes "sys_calls s = []"
  shows "foldl (approval_step sha canon) s (turn_ops (TurnApply c clock)) =
    s\<lparr>sys_db := snd (ApplyTransition sha (sys_db s) c clock)\<rparr>"
proof (cases "GetRequest (sys_db s) (call_org c) (call_name c)")
  case (Inl e)
  with assms show ?thesis by (simp add: approval_step_def ApplyTransition_def)
next
  case (Inr r)
  with assms show ?thesis
    by (cases "ListDecisions (sys_db s) (call_org c) (call_name c)")
      (auto simp: approval_step_def ApplyTransition_def assoc_del_def)
qed

lemma turn_persons:
  assumes "one_per_person s"
  shows "one_per_person (foldl (approval_step sha canon) s (turn_ops t))"
proof (cases t)
  case (TurnPolicy p)
  with assms CreatePolicy_tables [of "sys_db s" p] show ?thesis by (simp add: approval_step_def one_per_person_def)
next
  case (TurnRequest clock rnd r)
  have "adb_decisions (snd (insert_request (sys_db s) clock x)) = adb_decisions (sys_db s)" for x
    using insert_request_cases [of "sys_db s" clock x] by auto
  then have "adb_decisions (snd (CreateRequest sha canon (sys_db s) clock rnd r)) = adb_decisions (sys_db s)"
    by (cases r) (auto simp: CreateRequest_db CreateRequest_def [of _ _ _ _ _ None] split: sum.split)
  with assms TurnRequest show ?thesis by (simp add: approval_step_def one_per_person_def)
next
  case (TurnApply c clock)
  with assms ApplyTransition_persons turn_apply show ?thesis by (simp add: one_per_person_def)
next
  case (TurnFault b)
  with assms show ?thesis by (simp add: approval_step_def one_per_person_def)
qed

lemma in_turn_persons:
  assumes "in_turn ops" and "starts_empty s"
  shows "distinct (map person_key (adb_decisions (sys_db (foldl (approval_step sha canon) s ops))))"
proof -
  have "one_per_person (foldl (approval_step sha canon) s' (concat (map turn_ops turns)))"
    if "one_per_person s'" for turns s'
    using that by (induction turns arbitrary: s') (simp_all add: turn_persons del: foldl_Cons)
  with assms show ?thesis by (auto simp: in_turn_def one_per_person_def starts_empty_def)
qed

lemma persons_counted:
  assumes "distinct (map person_key (adb_decisions db))"
  shows "card (normalizeApprovalPrincipal ` approvers_of db r) = card (approvers_of db r)"
proof (rule card_image, rule inj_onI)
  fix x y
  assume "x \<in> approvers_of db r" "y \<in> approvers_of db r" and eq: "normalizeApprovalPrincipal x = normalizeApprovalPrincipal y"
  then obtain d e where "d \<in> set (adb_decisions db)" "e \<in> set (adb_decisions db)"
      "person_key d = person_key e" "x = dec_ApproverPrincipalId d" "y = dec_ApproverPrincipalId e"
    by (auto simp: approvers_of_def of_request_def person_key_def)
  with assms show "x = y" by (auto simp: distinct_map inj_on_def)
qed

text \<open>C8: The quorum holds under every interleaving of the calls of any number of replicas: a request
  that was created pending (the only way the checker creates one; \<open>CreateRequest\<close> itself
  takes any state) and is approved or executed has, for its own intent, approving decisions
  under at least as many different approver ids as it requires. If the transitions did not
  overlap and no decision was written past them, these are that many different persons
  after \<open>normalizeApprovalPrincipal\<close>; without that, two spellings of one person may count
  as two.\<close>

theorem approved_has_quorum:
  assumes "starts_empty s" and "db = sys_db (foldl (approval_step sha canon) s ops)" and "r \<in> set (adb_requests db)"
    and "req_State r = StateApproved \<or> req_State r = StateExecuted" and "created_open ops (request_key r)"
  shows "req_RequiredApprovals r \<le> card (approvers_of db r) \<and>
    (in_turn ops \<longrightarrow> req_RequiredApprovals r \<le> card (normalizeApprovalPrincipal ` approvers_of db r))"
proof -
  have "req_RequiredApprovals r \<le> card (approvers_of db r)" by (rule history_quorum [OF assms])
  moreover have "card (normalizeApprovalPrincipal ` approvers_of db r) = card (approvers_of db r)" if "in_turn ops"
    using persons_counted in_turn_persons [OF that assms(1)] assms(2) by blast
  ultimately show ?thesis by simp
qed

text \<open>C31: The life of a request: at every single step of every history, whatever calls overlap and
  in whatever state requests are created, every request keeps its identity, intent, quorum
  and expiry, and its state either stays or makes exactly one transition the contract
  allows. So no step takes a pending request to executed, and a closed request stays closed.\<close>

theorem approval_lifecycle:
  assumes "starts_empty s"
    and "r \<in> set (adb_requests (sys_db (foldl (approval_step sha canon) s ops)))"
  shows "\<exists>r'. r' \<in> set (adb_requests (sys_db (foldl (approval_step sha canon) s (ops @ [op])))) \<and>
    same_identity r r' \<and> (req_State r' = req_State r \<or> approvalTransitionAllowed (req_State r) (req_State r'))"
proof -
  have "list_all (legal_op UNIV) ops"
    by (auto simp: list_all_iff legal_op_def starts_pending_def split: approval_op.split option.split)
  then have "approval_inv UNIV (foldl (approval_step sha canon) s ops)"
    using approval_history.invar_history [OF assms(1), of ops UNIV sha canon] by (simp add: list_all_iff)
  from approval_step_evolves [OF this, of sha canon op] assms(2) show ?thesis
    unfolding evolves_def lifecycle_move_def by fastforce
qed

text \<open>An approval that was counted too late cannot be repaired: once a pending request has as
  many approving decisions as it requires, every further approval would count more than the
  table's check allows, and fails, whoever makes it.\<close>

theorem late_quorum_blocks_request:
  assumes "find (is_request (call_org c) (call_name c)) (adb_requests db) = Some row" and "req_State row = StatePending"
    and "req_RequiredApprovals row \<le> length (approvals db (call_org c) (call_name c))"
    and "length (approvals db (call_org c) (call_name c)) < 4294967295" and "call_transition c = TransitionApprove"
  shows "\<exists>e. ApplyTransition sha db c clock = (Inl e, db)"
proof (cases "GetRequest db (call_org c) (call_name c)")
  case (Inl e)
  then show ?thesis by (simp add: ApplyTransition_def)
next
  case (Inr r)
  then have r: "r = row" using GetRequest_ok assms(1) by fastforce
  show ?thesis
  proof (cases "ListDecisions db (call_org c) (call_name c)")
    case (Inl e)
    with Inr show ?thesis by (simp add: ApplyTransition_def)
  next
    case ds: (Inr ds)
    show ?thesis
    proof (cases "ApplyApprovalTransition (call_policy c) (Some row) ds (call_eligible c) (call_actor c)
        (call_transition c) clock (call_now c)")
      case (Inl e)
      with Inr ds r show ?thesis by (simp add: ApplyTransition_def finish_transition_def)
    next
      case res: (Inr res)
      then have "req_ApprovalCount (tr_Request res) = countApprovals ds + 1"
      proof (cases rule: transition_cases)
        case (decision pol action deny)
        with decide_result [OF decision(4)] ListDecisions_ok [OF ds] assms(4,5) show ?thesis by (auto split: if_splits)
      qed (use assms(5) in simp)
      then have over: "req_RequiredApprovals row < req_ApprovalCount (tr_Request res)"
        using ListDecisions_ok [OF ds] assms(3) by simp
      obtain out db' where commit: "commit_transition sha db c clock row (tr_Request res) = (out, db')" by fastforce
      then have "\<exists>e. out = Inl e \<and> db' = db"
        by (cases rule: commit_cases) (use over assms(1) in auto)
      with commit Inr ds r res show ?thesis by (auto simp: ApplyTransition_def finish_transition_def)
    qed
  qed
qed

section \<open>Samples\<close>

text \<open>One policy with a quorum of two, one pending request, and two approvers.\<close>

definition sample_action :: BoundAction where
  "sample_action =
     \<lparr>ba_OrganizationId = ''o'', ba_WorkspaceId = [], ba_ResourceName = [], ba_AgentId = [], ba_Skill = [],
      ba_ActionType = ''WRITE'', ba_Destination = [], ba_RiskLevel = 0, ba_NormalizedParameters = None,
      ba_NormalizedParametersJson = [], ba_TaskId = [], ba_CommandId = [], ba_IntentHash = []\<rparr>"

definition sample_approval_request :: ApprovalRequest where
  "sample_approval_request =
     \<lparr>req_Name = ''r'', req_OrganizationId = ''o'', req_WorkspaceId = [], req_PolicyName = ''p'', req_PolicyVersion = ''1'',
      req_RequesterPrincipalId = ''cid'', req_ExecutingAgentId = [], req_ExecutingAgentOwnerId = [],
      req_Action = Some sample_action, req_State = StateUnspecified, req_RequiredApprovals = 2, req_ApprovalCount = 0,
      req_ExecutionNonce = ''n'', req_ExpiresAt = Some 900, req_CompletedAt = None, req_TerminalReason = []\<rparr>"

definition sample_approval_row :: "request_state \<Rightarrow> nat \<Rightarrow> string \<Rightarrow> ApprovalRequest" where
  "sample_approval_row st n reason =
     sample_approval_request\<lparr>req_Action := Some (sample_action\<lparr>ba_IntentHash := ''7b''\<rparr>), req_State := st,
       req_ApprovalCount := n, req_TerminalReason := reason\<rparr>"

definition sample_approval_db :: "ApprovalRequest list \<Rightarrow> ApprovalDecision list \<Rightarrow> approval_db" where
  "sample_approval_db rs ds =
     \<lparr>adb_open = True, adb_fault = False, adb_organizations = [''o''], adb_workspaces = [],
      adb_policies = [((''o'', ''p''), True)], adb_versions = [sample_policy_row], adb_requests = rs, adb_decisions = ds\<rparr>"

definition sample_call :: "string \<Rightarrow> approval_call" where
  "sample_call actor =
     \<lparr>call_policy = Some sample_policy_row, call_org = ''o'', call_name = ''r'', call_actor = actor, call_reason = [],
      call_eligible = [''ann'', ''bob'', ''eve''], call_transition = TransitionApprove, call_now = 200\<rparr>"

definition sample_sha :: "string \<Rightarrow> string" where
  "sample_sha s = take 1 s"

definition sample_decision :: "string \<Rightarrow> ApprovalDecision" where
  "sample_decision actor = decision_of sample_sha (sample_call actor) 200 (sample_approval_row StatePending 0 [])"

definition sample_sys :: "approval_db \<Rightarrow> approval_sys" where
  "sample_sys db = \<lparr>sys_db = db, sys_calls = []\<rparr>"

lemma sample_hash: "ApprovalIntentHash sample_sha Inr sample_action = Inr ''7b''"
  by (simp add: ApprovalIntentHash_def action_parameters_def sample_action_def intent_material_def json_object_def
      sample_sha_def) code_simp

lemma sample_created:
  "approval_step sample_sha Inr (sample_sys (sample_approval_db [] [])) (OpRequest 100 None (Some sample_approval_request)) =
     sample_sys (sample_approval_db [sample_approval_row StatePending 0 []] [])"
proof -
  have "bound_request sample_sha Inr 100 None sample_approval_request =
      Inr (sample_approval_request\<lparr>req_Action := Some (sample_action\<lparr>ba_IntentHash := ''7b''\<rparr>)\<rparr>)"
    using sample_hash
    by (simp add: bound_request_def request_complete_def request_nonce_def sample_approval_request_def sample_action_def)
  then have "snd (CreateRequest sample_sha Inr (sample_approval_db [] []) 100 None (Some sample_approval_request)) =
      sample_approval_db [sample_approval_row StatePending 0 []] []"
    by (simp add: CreateRequest_db) code_simp
  then show ?thesis by (simp add: approval_step_def sample_sys_def)
qed

lemma sample_overlap:
  "foldl (approval_step sample_sha Inr) (sample_sys (sample_approval_db [sample_approval_row StatePending 0 []] []))
     [OpReadRequest 0 (sample_call ''ann''), OpReadRequest 1 (sample_call ''bob''), OpReadDecisions 0,
      OpReadDecisions 1, OpCommit 0 200, OpCommit 1 200] =
   sample_sys (sample_approval_db [sample_approval_row StatePending 1 []] [sample_decision ''ann'', sample_decision ''bob''])"
  by code_simp

lemma sample_in_turn:
  "foldl (approval_step sample_sha Inr) (sample_sys (sample_approval_db [sample_approval_row StatePending 0 []] []))
     [OpReadRequest 0 (sample_call ''ann''), OpReadDecisions 0, OpCommit 0 200,
      OpReadRequest 0 (sample_call ''bob''), OpReadDecisions 0, OpCommit 0 200] =
   sample_sys (sample_approval_db [sample_approval_row StateApproved 2 ''approval quorum reached'']
     [sample_decision ''ann'', sample_decision ''bob''])"
  by code_simp

definition sample_turns :: "approval_op list" where
  "sample_turns =
     OpRequest 100 None (Some sample_approval_request) #
     [OpReadRequest 0 (sample_call ''ann''), OpReadDecisions 0, OpCommit 0 200,
      OpReadRequest 0 (sample_call ''bob''), OpReadDecisions 0, OpCommit 0 200]"

lemma sample_turns_run:
  "foldl (approval_step sample_sha Inr) (sample_sys (sample_approval_db [] [])) sample_turns =
     sample_sys (sample_approval_db [sample_approval_row StateApproved 2 ''approval quorum reached'']
       [sample_decision ''ann'', sample_decision ''bob''])"
  using sample_in_turn by (simp add: sample_turns_def sample_created)

lemma sample_open: "created_open sample_turns key"
  by (simp add: sample_turns_def created_open_def sample_approval_request_def)

lemma sample_in_turns: "in_turn sample_turns"
proof -
  have "sample_turns = concat (map turn_ops [TurnRequest 100 None (Some sample_approval_request),
      TurnApply (sample_call ''ann'') 200, TurnApply (sample_call ''bob'') 200])"
    by (simp add: sample_turns_def)
  then show ?thesis unfolding in_turn_def by blast
qed

lemma sample_starts: "starts_empty (sample_sys (sample_approval_db [] []))"
  by (simp add: starts_empty_def sample_sys_def sample_approval_db_def)

theorem approved_has_quorum_witness:
  "2 \<le> card (normalizeApprovalPrincipal ` approvers_of
     (sys_db (foldl (approval_step sample_sha Inr) (sample_sys (sample_approval_db [] [])) sample_turns))
     (sample_approval_row StateApproved 2 ''approval quorum reached''))"
proof -
  let ?r = "sample_approval_row StateApproved 2 ''approval quorum reached''"
  let ?db = "sys_db (foldl (approval_step sample_sha Inr) (sample_sys (sample_approval_db [] [])) sample_turns)"
  have "?r \<in> set (adb_requests ?db)" unfolding sample_turns_run by (simp add: sample_sys_def sample_approval_db_def)
  moreover have "req_State ?r = StateApproved \<or> req_State ?r = StateExecuted" by (simp add: sample_approval_row_def)
  moreover have "req_RequiredApprovals ?r = 2" by (simp add: sample_approval_row_def sample_approval_request_def)
  ultimately show ?thesis
    using approved_has_quorum [OF sample_starts refl _ _ sample_open, of ?r sample_sha Inr] sample_in_turns by simp
qed

theorem approval_lifecycle_witness:
  "\<exists>r'. r' \<in> set (adb_requests (sys_db (foldl (approval_step sample_sha Inr) (sample_sys (sample_approval_db [] []))
       ([OpRequest 100 None (Some sample_approval_request)] @ [OpReadRequest 0 (sample_call ''ann'')])))) \<and>
     same_identity (sample_approval_row StatePending 0 []) r' \<and>
     (req_State r' = req_State (sample_approval_row StatePending 0 []) \<or>
      approvalTransitionAllowed (req_State (sample_approval_row StatePending 0 [])) (req_State r'))"
proof (rule approval_lifecycle [OF sample_starts])
  show "sample_approval_row StatePending 0 [] \<in>
      set (adb_requests (sys_db (foldl (approval_step sample_sha Inr) (sample_sys (sample_approval_db [] []))
        [OpRequest 100 None (Some sample_approval_request)])))"
    by (simp add: sample_created) (simp add: sample_sys_def sample_approval_db_def)
qed

text \<open>The situation arises: two approvers whose calls overlap leave a pending request with two
  approvals of the two it requires.\<close>

theorem late_quorum_blocks_request_witness:
  "foldl (approval_step sample_sha Inr) (sample_sys (sample_approval_db [sample_approval_row StatePending 0 []] []))
     [OpReadRequest 0 (sample_call ''ann''), OpReadRequest 1 (sample_call ''bob''), OpReadDecisions 0,
      OpReadDecisions 1, OpCommit 0 200, OpCommit 1 200] =
   sample_sys (sample_approval_db [sample_approval_row StatePending 1 []] [sample_decision ''ann'', sample_decision ''bob'']) \<and>
   (\<exists>e. ApplyTransition sample_sha (sample_approval_db [sample_approval_row StatePending 1 []] [sample_decision ''ann'', sample_decision ''bob''])
      (sample_call ''eve'') 300 =
     (Inl e, sample_approval_db [sample_approval_row StatePending 1 []] [sample_decision ''ann'', sample_decision ''bob'']))"
proof
  let ?db = "sample_approval_db [sample_approval_row StatePending 1 []] [sample_decision ''ann'', sample_decision ''bob'']"
  have two: "length (approvals ?db (call_org (sample_call ''eve'')) (call_name (sample_call ''eve''))) = 2" by code_simp
  show "\<exists>e. ApplyTransition sample_sha ?db (sample_call ''eve'') 300 = (Inl e, ?db)"
  proof (rule late_quorum_blocks_request)
    show "find (is_request (call_org (sample_call ''eve'')) (call_name (sample_call ''eve''))) (adb_requests ?db) =
      Some (sample_approval_row StatePending 1 [])" by code_simp
    show "req_State (sample_approval_row StatePending 1 []) = StatePending" by (simp add: sample_approval_row_def)
    show "req_RequiredApprovals (sample_approval_row StatePending 1 []) \<le>
      length (approvals ?db (call_org (sample_call ''eve'')) (call_name (sample_call ''eve'')))"
      unfolding two by (simp add: sample_approval_row_def sample_approval_request_def)
    show "length (approvals ?db (call_org (sample_call ''eve'')) (call_name (sample_call ''eve''))) < 4294967295"
      unfolding two by simp
    show "call_transition (sample_call ''eve'') = TransitionApprove" by (simp add: sample_call_def)
  qed
qed (rule sample_overlap)

text \<open>One person under two spellings: the two calls overlap, so neither sees the other's decision, and
  the third approver finds a quorum of three that two persons gave.\<close>

theorem spellings_count_twice:
  "let row = (sample_approval_row StatePending 0 [])\<lparr>req_RequiredApprovals := 3\<rparr>;
       db = sys_db (foldl (approval_step sample_sha Inr) (sample_sys (sample_approval_db [row] []))
         [OpReadRequest 0 (sample_call ''ann''), OpReadRequest 1 (sample_call ''users/ann''), OpReadDecisions 0,
          OpReadDecisions 1, OpCommit 0 200, OpCommit 1 200,
          OpReadRequest 0 (sample_call ''bob''), OpReadDecisions 0, OpCommit 0 300])
   in map req_State (adb_requests db) = [StateApproved] \<and>
      map (normalizeApprovalPrincipal \<circ> dec_ApproverPrincipalId) (adb_decisions db) = [''ann'', ''ann'', ''bob'']"
  by code_simp

end
