(* ===== verification/Workspace_Path.thy ===== *)
theory Workspace_Path
  imports Prelude
begin

text \<open>
  Paths and the file system below the runtime policy and the ACP executor: package
  \<open>path/filepath\<close> on Unix (\<open>Clean\<close>, \<open>IsAbs\<close>, \<open>Dir\<close>, \<open>Base\<close>, \<open>Join\<close>,
  \<open>EvalSymlinks\<close>) and the calls of package \<open>os\<close> the two use (\<open>Lstat\<close>, \<open>ReadFile\<close>,
  \<open>MkdirAll\<close>, \<open>WriteFile\<close>), over a tree of directories, regular files and symbolic
  links. The kernel's resolution of a path, \<open>namei\<close>, follows at most 40 links and
  \<open>EvalSymlinks\<close> at most 255; the theory shows that they agree. Permissions are not
  modelled: the process may search and write every directory.
\<close>

section \<open>Lexical operations on paths\<close>

abbreviation slash :: char where
  "slash \<equiv> CHR ''/''"

fun split_slash :: "string \<Rightarrow> string list" where
  "split_slash [] = [[]]"
| "split_slash (c # s) =
     (if c = slash then [] # split_slash s
      else case split_slash s of [] \<Rightarrow> [[c]] | w # ws \<Rightarrow> (c # w) # ws)"

text \<open>The components of a path. A slash at the end counts as one more component \<open>.\<close>, as in
  POSIX path resolution.\<close>

definition comps_of :: "string \<Rightarrow> string list" where
  "comps_of p =
     (let cs = filter (\<lambda>c. c \<noteq> []) (split_slash p)
      in if cs \<noteq> [] \<and> last p = slash then cs @ [''.''] else cs)"

definition IsAbs :: "string \<Rightarrow> bool" where
  "IsAbs p = has_prefix p [slash]"

definition clean_step :: "bool \<Rightarrow> string list \<Rightarrow> string \<Rightarrow> string list" where
  "clean_step rooted st c =
     (if c = ''.'' then st
      else if c = ''..'' then
        if st \<noteq> [] \<and> last st \<noteq> ''..'' then butlast st else if rooted then st else st @ [''..'']
      else st @ [c])"

definition render :: "bool \<Rightarrow> string list \<Rightarrow> string" where
  "render rooted cs =
     (if rooted then slash # join_strings [slash] cs
      else if cs = [] then ''.'' else join_strings [slash] cs)"

definition Clean :: "string \<Rightarrow> string" where
  "Clean p = render (IsAbs p) (foldl (clean_step (IsAbs p)) [] (comps_of p))"

definition Dir :: "string \<Rightarrow> string" where
  "Dir p = Clean (rev (dropWhile (\<lambda>c. c \<noteq> slash) (rev p)))"

definition Base :: "string \<Rightarrow> string" where
  "Base p =
     (if p = [] then ''.''
      else let q = dropWhile (\<lambda>c. c = slash) (rev p)
           in if q = [] then [slash] else rev (takeWhile (\<lambda>c. c \<noteq> slash) q))"

definition Join :: "string list \<Rightarrow> string" where
  "Join elems =
     (let es = filter (\<lambda>e. e \<noteq> []) elems in if es = [] then [] else Clean (join_strings [slash] es))"

text \<open>\<open>Rel\<close>, by the components of the two cleaned paths; \<open>None\<close> is its error.\<close>

fun strip_common :: "string list \<Rightarrow> string list \<Rightarrow> string list \<times> string list" where
  "strip_common (b # bs) (t # ts) = (if b = t then strip_common bs ts else (b # bs, t # ts))"
| "strip_common bs ts = (bs, ts)"

definition Rel :: "string \<Rightarrow> string \<Rightarrow> string option" where
  "Rel base targ =
     (if Clean base = Clean targ then Some ''.''
      else if IsAbs base \<noteq> IsAbs targ then None
      else case strip_common (foldl (clean_step (IsAbs base)) [] (comps_of base))
             (foldl (clean_step (IsAbs targ)) [] (comps_of targ)) of
        (bs, ts) \<Rightarrow>
          if bs \<noteq> [] \<and> hd bs = ''..'' then None
          else Some (join_strings [slash] (map (\<lambda>_. ''..'') bs @ ts)))"

section \<open>The file system\<close>

datatype inode = Directory | Regular string | Symlink string

datatype fs_error = ENOENT | ENOTDIR | ELOOP | EISDIR | EEXIST | EINVAL | TooManyLinks

type_synonym location = "string list"
type_synonym tree = "(location \<times> inode) list"

record file_system =
  fs_tree :: tree
  fs_cwd :: location

text \<open>
  The kernel's walk from a directory along the components: the location reached and what is
  there, \<open>None\<close> when only the last component is missing. \<open>follow\<close> says whether a link
  in the last component is followed, \<open>n\<close> how many links may still be.
\<close>

function namei :: "tree \<Rightarrow> bool \<Rightarrow> nat \<Rightarrow> location \<Rightarrow> string list \<Rightarrow> (fs_error, location \<times> inode option) result" where
  "namei t follow n dir [] = Inr (dir, Some Directory)"
| "namei t follow n dir (c # cs) =
     (if c = ''.'' then namei t follow n dir cs
      else if c = ''..'' then namei t follow n (butlast dir) cs
      else case map_of t (dir @ [c]) of
        None \<Rightarrow> if cs = [] then Inr (dir @ [c], None) else Inl ENOENT
      | Some Directory \<Rightarrow> namei t follow n (dir @ [c]) cs
      | Some (Regular s) \<Rightarrow> if cs = [] then Inr (dir @ [c], Some (Regular s)) else Inl ENOTDIR
      | Some (Symlink l) \<Rightarrow>
          if cs = [] \<and> \<not> follow then Inr (dir @ [c], Some (Symlink l))
          else if n = 0 then Inl ELOOP
          else namei t follow (n - 1) (if IsAbs l then [] else dir) (comps_of l @ cs))"
  by pat_completeness auto
termination
  by (relation "measures [\<lambda>(t, follow, n, dir, cs). n, \<lambda>(t, follow, n, dir, cs). length cs]") auto

definition max_links :: nat where
  "max_links = 40"

definition resolve :: "file_system \<Rightarrow> bool \<Rightarrow> string \<Rightarrow> (fs_error, location \<times> inode option) result" where
  "resolve fs follow p =
     (if CHR 0x00 \<in> set p then Inl EINVAL
      else if p = [] then Inl ENOENT
      else namei (fs_tree fs) follow max_links (if IsAbs p then [] else fs_cwd fs) (comps_of p))"

definition existing :: "(fs_error, location \<times> inode option) result \<Rightarrow> (fs_error, location \<times> inode) result" where
  "existing r =
     (case r of Inl e \<Rightarrow> Inl e | Inr (q, None) \<Rightarrow> Inl ENOENT | Inr (q, Some i) \<Rightarrow> Inr (q, i))"

definition Lstat :: "file_system \<Rightarrow> string \<Rightarrow> (fs_error, inode) result" where
  "Lstat fs p = map_sum id snd (existing (resolve fs False p))"

definition Stat :: "file_system \<Rightarrow> string \<Rightarrow> (fs_error, inode) result" where
  "Stat fs p = map_sum id snd (existing (resolve fs True p))"

definition ReadFile :: "file_system \<Rightarrow> string \<Rightarrow> (fs_error, string) result" where
  "ReadFile fs p =
     (case existing (resolve fs True p) of
        Inl e \<Rightarrow> Inl e
      | Inr (q, Regular s) \<Rightarrow> Inr s
      | Inr (q, _) \<Rightarrow> Inl EISDIR)"

text \<open>A file is written where the walk ends, also when the last link dangles.\<close>

definition fs_put :: "location \<Rightarrow> inode \<Rightarrow> file_system \<Rightarrow> file_system" where
  "fs_put q i fs = fs\<lparr>fs_tree := assoc_set q i (fs_tree fs)\<rparr>"

definition WriteFile :: "file_system \<Rightarrow> string \<Rightarrow> string \<Rightarrow> (fs_error, unit) result \<times> file_system" where
  "WriteFile fs p content =
     (case resolve fs True p of
        Inl e \<Rightarrow> (Inl e, fs)
      | Inr (q, Some Directory) \<Rightarrow> (Inl EISDIR, fs)
      | Inr (q, _) \<Rightarrow> (Inr (), fs_put q (Regular content) fs))"

definition Mkdir :: "file_system \<Rightarrow> string \<Rightarrow> (fs_error, unit) result \<times> file_system" where
  "Mkdir fs p =
     (case resolve fs False (rev (dropWhile (\<lambda>c. c = slash) (rev p))) of
        Inl e \<Rightarrow> (Inl e, fs)
      | Inr (q, Some _) \<Rightarrow> (Inl EEXIST, fs)
      | Inr (q, None) \<Rightarrow> (Inr (), fs_put q Directory fs))"

text \<open>The parent \<open>MkdirAll\<close> recurses on: everything before the last component.\<close>

definition parent_string :: "string \<Rightarrow> string" where
  "parent_string p = rev (dropWhile (\<lambda>c. c \<noteq> slash) (dropWhile (\<lambda>c. c = slash) (rev p)))"

lemma length_parent_string:
  assumes "parent_string p \<noteq> []"
  shows "length (parent_string p) < length p"
proof (cases "dropWhile (\<lambda>c. c = slash) (rev p)")
  case Nil
  with assms show ?thesis by (simp add: parent_string_def)
next
  case (Cons c s)
  then have "c \<noteq> slash" using hd_dropWhile [of "\<lambda>c. c = slash" "rev p"] by simp
  with Cons have "length (parent_string p) \<le> length s"
    by (simp add: parent_string_def length_dropWhile_le)
  moreover have "length (c # s) \<le> length p"
    using Cons length_dropWhile_le [of "\<lambda>c. c = slash" "rev p"] by simp
  ultimately show ?thesis by simp
qed

function MkdirAll :: "file_system \<Rightarrow> string \<Rightarrow> (fs_error, unit) result \<times> file_system" where
  "MkdirAll fs p =
     (case Stat fs p of
        Inr Directory \<Rightarrow> (Inr (), fs)
      | Inr _ \<Rightarrow> (Inl ENOTDIR, fs)
      | Inl _ \<Rightarrow>
          (case (if parent_string p = [] then (Inr (), fs) else MkdirAll fs (parent_string p)) of
             (Inl e, fs') \<Rightarrow> (Inl e, fs')
           | (Inr _, fs') \<Rightarrow>
               (case Mkdir fs' p of
                  (Inr _, fs'') \<Rightarrow> (Inr (), fs'')
                | (Inl e, fs'') \<Rightarrow> (if Lstat fs'' p = Inr Directory then Inr () else Inl e, fs''))))"
  by pat_completeness auto
termination
  by (relation "measure (\<lambda>(fs, p). length p)") (auto simp: length_parent_string)

declare MkdirAll.simps [simp del]

section \<open>\<open>EvalSymlinks\<close>\<close>

text \<open>
  \<open>walkSymlinks\<close> of \<open>path/filepath\<close>: \<open>dest\<close> is the path built so far, \<open>loc\<close> the
  location it names; each component is looked at with \<open>Lstat\<close>, whose path has no links
  but the last.
\<close>

function walk_symlinks :: "tree \<Rightarrow> nat \<Rightarrow> bool \<Rightarrow> location \<Rightarrow> string list \<Rightarrow> string list \<Rightarrow> (fs_error, string) result" where
  "walk_symlinks t n rooted loc dest [] = Inr (render rooted dest)"
| "walk_symlinks t n rooted loc dest (c # cs) =
     (if c = ''.'' then walk_symlinks t n rooted loc dest cs
      else if c = ''..'' then walk_symlinks t n rooted (butlast loc) (clean_step rooted dest c) cs
      else if CHR 0x00 \<in> set c then Inl EINVAL
      else case map_of t (loc @ [c]) of
        None \<Rightarrow> Inl ENOENT
      | Some Directory \<Rightarrow> walk_symlinks t n rooted (loc @ [c]) (dest @ [c]) cs
      | Some (Regular s) \<Rightarrow>
          if cs = [] then walk_symlinks t n rooted (loc @ [c]) (dest @ [c]) cs else Inl ENOTDIR
      | Some (Symlink l) \<Rightarrow>
          if n = 0 then Inl TooManyLinks
          else if IsAbs l then walk_symlinks t (n - 1) True [] [] (comps_of l @ cs)
          else walk_symlinks t (n - 1) rooted loc dest (comps_of l @ cs))"
  by pat_completeness auto
termination
  by (relation "measures [\<lambda>(t, n, r, loc, dest, cs). n, \<lambda>(t, n, r, loc, dest, cs). length cs]") auto

definition max_links_walked :: nat where
  "max_links_walked = 255"

definition EvalSymlinks :: "file_system \<Rightarrow> string \<Rightarrow> (fs_error, string) result" where
  "EvalSymlinks fs p =
     walk_symlinks (fs_tree fs) max_links_walked (IsAbs p) (if IsAbs p then [] else fs_cwd fs) [] (comps_of p)"


section \<open>Clean absolute paths are lists of names\<close>

definition is_name :: "string \<Rightarrow> bool" where
  "is_name c \<longleftrightarrow> c \<noteq> [] \<and> c \<noteq> ''.'' \<and> c \<noteq> ''..'' \<and> slash \<notin> set c"

definition names :: "string list \<Rightarrow> bool" where
  "names cs = list_all is_name cs"

lemma names_simps [simp]: "names []" "names (c # cs) = (is_name c \<and> names cs)" "names (cs @ ds) = (names cs \<and> names ds)"
  by (simp_all add: names_def)

lemma names_butlast [simp]: "names cs \<Longrightarrow> names (butlast cs)"
  by (cases cs rule: rev_cases) auto

lemma is_name_simps [simp]: "\<not> is_name []" "\<not> is_name ''.''" "\<not> is_name ''..''"
  by (simp_all add: is_name_def)

lemma split_slash_not_nil [simp]: "split_slash s \<noteq> []"
  by (cases s) (auto split: list.split)

lemma split_slash_append: "split_slash (a @ slash # b) = split_slash a @ split_slash b"
  by (induction a) (auto split: list.split)

lemma split_slash_single: "slash \<notin> set c \<Longrightarrow> split_slash c = [c]"
  by (induction c) auto

lemma split_slash_no_slash: "c \<in> set (split_slash s) \<Longrightarrow> slash \<notin> set c"
  by (induction s arbitrary: c) (auto split: list.splits if_splits)

lemma join_cons: "cs \<noteq> [] \<Longrightarrow> join_strings sep (c # cs) = c @ sep @ join_strings sep cs"
  by (cases cs) auto

lemma split_slash_join: "names cs \<Longrightarrow> cs \<noteq> [] \<Longrightarrow> split_slash (join_strings [slash] cs) = cs"
proof (induction cs)
  case (Cons c cs)
  then have c: "slash \<notin> set c" by (simp add: is_name_def)
  show ?case
  proof (cases "cs = []")
    case True
    with c show ?thesis by (simp add: split_slash_single)
  next
    case False
    with Cons c show ?thesis by (simp add: join_cons split_slash_append split_slash_single)
  qed
qed simp

lemma filter_names: "names cs \<Longrightarrow> filter (\<lambda>c. c \<noteq> []) cs = cs"
  by (induction cs) (auto simp: is_name_def)

lemma last_join: "names cs \<Longrightarrow> cs \<noteq> [] \<Longrightarrow> join_strings [slash] cs \<noteq> [] \<and> last (join_strings [slash] cs) \<noteq> slash"
proof (induction cs)
  case (Cons c cs)
  then have c: "c \<noteq> []" "slash \<notin> set c" by (simp_all add: is_name_def)
  then have "last c \<noteq> slash" by (metis last_in_set)
  with Cons c show ?case by (cases "cs = []") (simp_all add: join_cons)
qed simp

lemma comps_of_render [simp]:
  assumes "names cs"
  shows "comps_of (render True cs) = cs"
proof (cases "cs = []")
  case True
  then show ?thesis by (simp add: comps_of_def render_def)
next
  case False
  with assms show ?thesis
    using split_slash_join [of cs] last_join [of cs] filter_names [of cs]
    by (simp add: comps_of_def render_def Let_def)
qed

lemma IsAbs_render [simp]: "IsAbs (render True cs)"
  by (simp add: IsAbs_def has_prefix_def render_def)

lemma IsAbs_iff: "IsAbs p \<longleftrightarrow> (\<exists>s. p = slash # s)"
  by (cases p) (auto simp: IsAbs_def has_prefix_def)

lemma render_inject: "names cs \<Longrightarrow> names ds \<Longrightarrow> render True cs = render True ds \<longleftrightarrow> cs = ds"
  by (metis comps_of_render)

text \<open>The components of any path, and what cleaning makes of them.\<close>

definition component_ok :: "string \<Rightarrow> bool" where
  "component_ok c \<longleftrightarrow> c \<noteq> [] \<and> slash \<notin> set c"

lemma comps_of_ok: "c \<in> set (comps_of p) \<Longrightarrow> component_ok c"
  using split_slash_no_slash
  by (fastforce simp: comps_of_def component_ok_def Let_def split: if_splits)

lemma is_name_component: "component_ok c \<Longrightarrow> c \<noteq> ''.'' \<Longrightarrow> c \<noteq> ''..'' \<Longrightarrow> is_name c"
  by (simp add: component_ok_def is_name_def)

lemma names_last: "names cs \<Longrightarrow> cs \<noteq> [] \<Longrightarrow> last cs \<noteq> ''..''"
  by (cases cs rule: rev_cases) auto

lemma clean_step_up [simp]: "names st \<Longrightarrow> clean_step True st ''..'' = butlast st"
  by (cases "st = []") (auto simp: clean_step_def dest: names_last)

lemma clean_step_names: "names st \<Longrightarrow> component_ok c \<Longrightarrow> names (clean_step True st c)"
  using is_name_component by (auto simp: clean_step_def)

lemma clean_names: "names st \<Longrightarrow> (\<And>c. c \<in> set cs \<Longrightarrow> component_ok c) \<Longrightarrow> names (foldl (clean_step True) st cs)"
  by (induction cs arbitrary: st) (simp_all add: clean_step_names)

lemma clean_of_names: "names cs \<Longrightarrow> foldl (clean_step b) st cs = st @ cs"
  by (induction cs arbitrary: st) (auto simp: clean_step_def is_name_def)

text \<open>The location an absolute path names when no component is a link.\<close>

definition lexical :: "string \<Rightarrow> location" where
  "lexical p = foldl (clean_step True) [] (comps_of p)"

lemma names_lexical [simp]: "names (lexical p)"
  unfolding lexical_def by (rule clean_names) (auto intro: comps_of_ok)

lemma Clean_abs: "IsAbs p \<Longrightarrow> Clean p = render True (lexical p)"
  by (simp add: Clean_def lexical_def)

lemma Clean_render [simp]: "names cs \<Longrightarrow> Clean (render True cs) = render True cs"
  by (simp add: Clean_def clean_of_names)

lemma Clean_rel: "\<not> IsAbs p \<Longrightarrow> \<not> IsAbs (Clean p) \<and> Clean p \<noteq> []"
proof -
  assume rel: "\<not> IsAbs p"
  define cs where "cs = foldl (clean_step False) [] (comps_of p)"
  have "list_all component_ok (foldl (clean_step False) st xs)"
    if "list_all component_ok st" "\<And>c. c \<in> set xs \<Longrightarrow> component_ok c" for st xs
    using that
  proof (induction xs arbitrary: st)
    case (Cons x xs)
    have "list_all component_ok (clean_step False st x)"
      using Cons.prems by (auto simp: clean_step_def list_all_iff component_ok_def dest: in_set_butlastD)
    then show ?case using Cons by simp
  qed simp
  from this [of "[]" "comps_of p"] have ok: "list_all component_ok cs"
    unfolding cs_def by (simp add: comps_of_ok)
  have "\<not> IsAbs (render False cs) \<and> render False cs \<noteq> []"
  proof (cases cs)
    case Nil
    then show ?thesis by (simp add: render_def IsAbs_iff)
  next
    case (Cons c ds)
    with ok obtain x xs where "c = x # xs" "x \<noteq> slash" by (cases c) (auto simp: component_ok_def)
    with Cons show ?thesis by (cases ds) (auto simp: render_def IsAbs_iff)
  qed
  with rel show ?thesis by (simp add: Clean_def cs_def)
qed

lemma IsAbs_Clean [simp]: "IsAbs (Clean p) = IsAbs p"
  using Clean_rel Clean_abs by (metis IsAbs_render)

text \<open>A string prefix up to a separator is a prefix of the list of names.\<close>

lemma below_iff:
  assumes "names r" and "names q"
  shows "has_prefix (render True q) (render True r @ [slash]) \<longleftrightarrow> r \<noteq> [] \<and> strict_prefix r q"
proof
  assume p: "has_prefix (render True q) (render True r @ [slash])"
  then obtain s where s: "render True q = render True r @ slash # s"
    unfolding has_prefix_def starts_with_iff by (metis append_Cons append_Nil append_assoc append_take_drop_id)
  have q: "q \<noteq> []"
    using s by (cases r) (auto simp: render_def)
  have r: "r \<noteq> []"
  proof
    assume "r = []"
    with s have "join_strings [slash] q = slash # s" by (simp add: render_def)
    moreover obtain c cs x xs where "q = c # cs" "c = x # xs" "x \<noteq> slash"
      using q \<open>names q\<close> by (cases q; cases "hd q") (auto simp: is_name_def)
    ultimately show False by (cases cs) auto
  qed
  from s have "join_strings [slash] q = join_strings [slash] r @ slash # s" by (simp add: render_def)
  then have "q = r @ split_slash s"
    using split_slash_join [OF assms(2) q] split_slash_join [OF assms(1) r] by (simp add: split_slash_append)
  with r show "r \<noteq> [] \<and> strict_prefix r q" by (simp add: strict_prefix_def)
next
  assume "r \<noteq> [] \<and> strict_prefix r q"
  then obtain d ds where q: "q = r @ d # ds" and r: "r \<noteq> []"
    by (auto elim: strict_prefixE')
  have "join_strings [slash] (r @ d # ds) = join_strings [slash] r @ slash # join_strings [slash] (d # ds)"
    using r by (induction r rule: list_nonempty_induct) (simp_all add: join_cons)
  then show "has_prefix (render True q) (render True r @ [slash])"
    by (simp add: has_prefix_def starts_with_iff render_def q)
qed


text \<open>\<open>Dir\<close>, \<open>Base\<close> and \<open>Join\<close> take a location apart and put it together.\<close>

lemma join_snoc: "ds \<noteq> [] \<Longrightarrow> join_strings [slash] (ds @ [d]) = join_strings [slash] ds @ slash # d"
  by (induction ds rule: list_nonempty_induct) (simp_all add: join_cons)

definition folder :: "string list \<Rightarrow> string" where
  "folder ds = (if ds = [] then [slash] else render True ds @ [slash])"

lemma render_snoc: "render True (ds @ [d]) = folder ds @ d"
  by (cases "ds = []") (simp_all add: folder_def render_def join_snoc)

lemma last_folder: "folder ds \<noteq> [] \<and> last (folder ds) = slash"
  by (simp add: folder_def render_def)

lemma IsAbs_folder: "IsAbs (folder ds)"
  by (simp add: folder_def IsAbs_iff render_def)

lemma comps_of_folder: "names ds \<Longrightarrow> comps_of (folder ds) = (if ds = [] then [] else ds @ [''.''])"
  using split_slash_join [of ds] filter_names [of ds] split_slash_append [of "render True ds" "[]"]
  by (auto simp: folder_def comps_of_def Let_def render_def)

lemma Clean_folder: "names ds \<Longrightarrow> Clean (folder ds) = render True ds"
  by (simp add: Clean_def IsAbs_folder comps_of_folder clean_of_names clean_step_def)

lemma not_slash_takes: "slash \<notin> set d \<Longrightarrow> takeWhile (\<lambda>c. c \<noteq> slash) (rev d @ slash # s) = rev d"
  "slash \<notin> set d \<Longrightarrow> dropWhile (\<lambda>c. c \<noteq> slash) (rev d @ slash # s) = slash # s"
  by (subst takeWhile_append2; auto) (subst dropWhile_append2; auto)

lemma rev_folder: "\<exists>s. rev (folder ds) = slash # s"
  by (auto simp: folder_def intro: exI [of _ "rev (render True ds)"])

lemma Dir_render:
  assumes "names cs"
  shows "Dir (render True cs) = render True (butlast cs)"
proof (cases cs rule: rev_cases)
  case Nil
  have "Clean [slash] = render True []" using Clean_folder [of "[]"] by (simp add: folder_def)
  with Nil show ?thesis by (simp add: Dir_def render_def)
next
  case (snoc ds d)
  with assms have d: "slash \<notin> set d" and ds: "names ds" by (simp_all add: is_name_def)
  obtain s where s: "rev (folder ds) = slash # s" using rev_folder by blast
  have "rev (render True cs) = rev d @ slash # s" by (simp add: snoc render_snoc s)
  then have "Dir (render True cs) = Clean (rev (slash # s))" by (simp add: Dir_def not_slash_takes d)
  also have "rev (slash # s) = folder ds" using s by (metis rev_rev_ident)
  finally show ?thesis using ds by (simp add: Clean_folder snoc)
qed

lemma Base_render:
  assumes "names ds" and "is_name d"
  shows "Base (render True (ds @ [d])) = d"
proof -
  have d: "slash \<notin> set d" "d \<noteq> []" using assms(2) by (simp_all add: is_name_def)
  obtain s where s: "rev (folder ds) = slash # s" using rev_folder by blast
  have r: "rev (render True (ds @ [d])) = rev d @ slash # s" by (simp add: render_snoc s)
  obtain x xs where x: "rev d = x # xs" "x \<noteq> slash"
    using d by (metis last_in_set last_rev list.exhaust_sel list.set_sel(1) rev_is_Nil_conv set_rev)
  then have "dropWhile (\<lambda>c. c = slash) (rev d @ slash # s) = rev d @ slash # s" by simp
  moreover have "render True (ds @ [d]) \<noteq> []" by (simp add: render_def)
  ultimately show ?thesis unfolding Base_def r using d by (simp add: not_slash_takes Let_def)
qed

lemma Join_render:
  assumes "names ds" and "is_name d"
  shows "Join [render True ds, d] = render True (ds @ [d])"
proof -
  have d: "d \<noteq> []" "slash \<notin> set d" using assms(2) by (simp_all add: is_name_def)
  have "last d \<noteq> slash" using d by (metis last_in_set)
  have j: "Join [render True ds, d] = Clean (render True ds @ slash # d)"
    using d(1) by (simp add: Join_def Let_def render_def)
  have abs: "IsAbs (render True ds @ slash # d)" by (simp add: render_def IsAbs_iff)
  have "split_slash (render True ds) = (if ds = [] then [[], []] else [] # ds)"
    using split_slash_join [OF assms(1)] by (simp add: render_def)
  then have "comps_of (render True ds @ slash # d) = ds @ [d]"
    using filter_names [OF assms(1)] \<open>last d \<noteq> slash\<close> d
    by (simp add: comps_of_def split_slash_append split_slash_single Let_def)
  with assms abs clean_of_names [of "ds @ [d]" True "[]"] show ?thesis
    unfolding j by (simp add: Clean_def)
qed

section \<open>\<open>EvalSymlinks\<close> and the kernel agree\<close>

text \<open>A location without links on the way to it.\<close>

definition real :: "tree \<Rightarrow> location \<Rightarrow> bool" where
  "real t q \<longleftrightarrow> (\<forall>p. strict_prefix p q \<longrightarrow> p \<noteq> [] \<longrightarrow> map_of t p = Some Directory)"

definition real_dir :: "tree \<Rightarrow> location \<Rightarrow> bool" where
  "real_dir t q \<longleftrightarrow> (\<forall>p. prefix p q \<longrightarrow> p \<noteq> [] \<longrightarrow> map_of t p = Some Directory)"

definition node_at :: "tree \<Rightarrow> location \<Rightarrow> inode option" where
  "node_at t q = (if q = [] then Some Directory else map_of t q)"

lemma real_dir_nil [simp]: "real_dir t []"
  by (simp add: real_dir_def)

lemma real_dir_butlast: "real_dir t q \<Longrightarrow> real_dir t (butlast q)"
  unfolding real_dir_def using prefix_order.trans [OF _ prefixeq_butlast [of q]] by blast

lemma real_dir_snoc [simp]: "real_dir t (q @ [c]) \<longleftrightarrow> real_dir t q \<and> map_of t (q @ [c]) = Some Directory"
  unfolding real_dir_def prefix_snoc using snoc_eq_iff_butlast by blast

lemma real_snoc [simp]: "real t (q @ [c]) \<longleftrightarrow> real_dir t q"
  unfolding real_def real_dir_def strict_prefix_def prefix_snoc by (metis append_butlast_last_id append_prefixD last_snoc not_Cons_self2 prefix_snoc same_prefix_nil)

lemma real_dir_real: "real_dir t q \<Longrightarrow> real t q"
  by (simp add: real_def real_dir_def strict_prefix_def)

lemma node_at_real_dir: "real_dir t q \<Longrightarrow> node_at t q = Some Directory"
  by (simp add: real_dir_def node_at_def)

definition nul_free :: "string list \<Rightarrow> bool" where
  "nul_free cs = list_all (\<lambda>c. CHR 0x00 \<notin> set c) cs"

lemma nul_free_simps [simp]: "nul_free []" "nul_free (cs @ ds) = (nul_free cs \<and> nul_free ds)"
  "nul_free (c # cs) = (CHR 0x00 \<notin> set c \<and> nul_free cs)"
  by (simp_all add: nul_free_def)

lemma nul_free_butlast [simp]: "nul_free cs \<Longrightarrow> nul_free (butlast cs)"
  by (cases cs rule: rev_cases) auto

lemma nul_free_join: "CHR 0x00 \<notin> set (join_strings [slash] cs) \<longleftrightarrow> nul_free cs"
  by (induction cs rule: induct_list012) (auto simp: nul_free_def)

lemma nul_free_render [simp]: "CHR 0x00 \<in> set (render True cs) \<longleftrightarrow> \<not> nul_free cs"
  using nul_free_join [of cs] by (auto simp: render_def)

lemma resolve_render:
  assumes "names cs"
  shows "resolve fs f (render True cs) = (if nul_free cs then namei (fs_tree fs) f max_links [] cs else Inl EINVAL)"
proof -
  have "render True cs \<noteq> []" by (simp add: render_def)
  with assms show ?thesis by (simp add: resolve_def)
qed

lemma split_slash_chars: "\<forall>c\<in>set (split_slash s). set c \<subseteq> set s"
  by (induction s) (auto split: list.splits if_splits)

lemma nul_free_comps: "CHR 0x00 \<notin> set p \<Longrightarrow> nul_free (comps_of p)"
  using split_slash_chars [of p] by (auto simp: comps_of_def nul_free_def list_all_iff Let_def)

text \<open>Where the kernel ends, if it does not give up: at the location \<open>s\<close> spells.\<close>

definition lands :: "tree \<Rightarrow> location \<Rightarrow> string list \<Rightarrow> string \<Rightarrow> bool" where
  "lands t dir cs s \<longleftrightarrow>
     (\<exists>q i. s = render True q \<and> names q \<and> nul_free q \<and> real t q \<and> node_at t q = Some i \<and> (\<forall>l. i \<noteq> Symlink l) \<and>
        (\<forall>m. namei t True m dir cs = Inl ELOOP \<or> namei t True m dir cs = Inr (q, Some i)))"

lemma lands_step:
  assumes "lands t base ds s"
    and "\<And>m. namei t True m dir cs = Inl ELOOP \<or> (\<exists>k. namei t True m dir cs = namei t True k base ds)"
  shows "lands t dir cs s"
  using assms unfolding lands_def by metis

lemma lands_nil: "names q \<Longrightarrow> nul_free q \<Longrightarrow> real_dir t q \<Longrightarrow> lands t q [] (render True q)"
  unfolding lands_def
  by (intro exI [of _ q] exI [of _ Directory]) (simp add: real_dir_real node_at_real_dir)

lemma walk_symlinks_rooted:
  assumes "walk_symlinks t n r loc dest cs = Inr s" and "r" and "dest = loc" and "names loc" and "nul_free loc"
    and "real_dir t loc" and "\<And>c. c \<in> set cs \<Longrightarrow> component_ok c"
  shows "lands t loc cs s"
  using assms
proof (induction t n r loc dest cs arbitrary: s rule: walk_symlinks.induct)
  case (1 t n r loc dest)
  then show ?case using lands_nil by auto
next
  case (2 t n r loc dest c cs)
  have c: "component_ok c" and cs: "\<And>c. c \<in> set cs \<Longrightarrow> component_ok c" using "2.prems" by auto
  consider "c = ''.''" | "c = ''..''" | "c \<noteq> ''.''" "c \<noteq> ''..''" by blast
  then show ?case
  proof cases
    case 1
    have "lands t loc cs s" using "2.IH"(1) "2.prems" cs 1 by simp
    then show ?thesis by (rule lands_step) (use 1 in auto)
  next
    case 2
    have "lands t (butlast loc) cs s" using "2.IH"(2) "2.prems" cs 2 by (simp add: real_dir_butlast)
    then show ?thesis by (rule lands_step) (use 2 in auto)
  next
    case 3
    then have name: "is_name c" using c is_name_component by blast
    have nul: "CHR 0x00 \<notin> set c" using "2.prems"(1) 3 by (auto split: if_splits)
    obtain i where i: "map_of t (loc @ [c]) = Some i"
      using "2.prems"(1) 3 nul by (cases "map_of t (loc @ [c])") auto
    show ?thesis
    proof (cases i)
      case Directory
      then have "lands t (loc @ [c]) cs s"
        using "2.IH"(3) [OF 3 nul i] "2.prems" i 3 nul cs name by simp
      then show ?thesis by (rule lands_step) (use 3 i Directory in auto)
    next
      case (Regular x)
      then have "cs = []" and "s = render True (loc @ [c])"
        using "2.prems" i 3 nul by (auto split: if_splits)
      then show ?thesis using Regular i 3 "2.prems" name nul unfolding lands_def
        by (intro exI [of _ "loc @ [c]"] exI [of _ i]) (simp add: node_at_def)
    next
      case (Symlink l)
      have n: "n \<noteq> 0" using "2.prems"(1) 3 nul i Symlink by (auto split: if_splits)
      have ok: "\<And>d. d \<in> set (comps_of l @ cs) \<Longrightarrow> component_ok d" using cs comps_of_ok by auto
      have "lands t (if IsAbs l then [] else loc) (comps_of l @ cs) s"
        using "2.IH"(5) [OF 3 nul i Symlink n] "2.IH"(6) [OF 3 nul i Symlink n] "2.prems" ok i 3 nul n Symlink
        by (cases "IsAbs l") simp_all
      then show ?thesis by (rule lands_step) (use 3 i Symlink in auto)
    qed
  qed
qed


lemma EvalSymlinks_lands:
  assumes "EvalSymlinks fs p = Inr s" and "IsAbs p"
  shows "lands (fs_tree fs) [] (comps_of p) s"
proof (rule walk_symlinks_rooted)
  show "walk_symlinks (fs_tree fs) max_links_walked True [] [] (comps_of p) = Inr s"
    using assms by (simp add: EvalSymlinks_def)
qed (auto intro: comps_of_ok)

lemma EvalSymlinks_location:
  assumes "EvalSymlinks fs p = Inr s" and "IsAbs p"
  obtains q i where "s = render True q" "names q" "nul_free q" "real (fs_tree fs) q"
    "node_at (fs_tree fs) q = Some i" "\<forall>l. i \<noteq> Symlink l"
    "resolve fs True p = Inr (q, Some i) \<or> resolve fs True p = Inl ELOOP \<or> resolve fs True p = Inl EINVAL"
proof -
  obtain q i where q: "s = render True q" "names q" "nul_free q" "real (fs_tree fs) q"
      "node_at (fs_tree fs) q = Some i" "\<forall>l. i \<noteq> Symlink l"
    and n: "\<And>m. namei (fs_tree fs) True m [] (comps_of p) = Inl ELOOP \<or>
      namei (fs_tree fs) True m [] (comps_of p) = Inr (q, Some i)"
    using EvalSymlinks_lands [OF assms] unfolding lands_def by blast
  have "p \<noteq> []" using assms(2) by (auto simp: IsAbs_iff)
  with n [of max_links] assms(2)
  have "resolve fs True p = Inr (q, Some i) \<or> resolve fs True p = Inl ELOOP \<or> resolve fs True p = Inl EINVAL"
    by (auto simp: resolve_def)
  with q that show thesis by blast
qed

text \<open>Following the last link makes a difference only when there is one.\<close>

lemma namei_follow:
  assumes "namei t False m dir cs = r" and "\<forall>q l. r \<noteq> Inr (q, Some (Symlink l))"
  shows "namei t True m dir cs = r"
  using assms
proof (induction t True m dir cs arbitrary: r rule: namei.induct)
  case (2 t n dir c cs)
  consider "c = ''.''" | "c = ''..''" | "c \<noteq> ''.''" "c \<noteq> ''..''" by blast
  then show ?case
  proof cases
    case 3
    show ?thesis
    proof (cases "map_of t (dir @ [c])")
      case (Some i)
      show ?thesis
      proof (cases i)
        case (Symlink l)
        show ?thesis
        proof (cases "cs = [] \<or> n = 0")
          case False
          then show ?thesis
            using "2.hyps"(4) [OF 3 Some Symlink] "2.prems" 3 Some Symlink by simp
        qed (use "2.prems" 3 Some Symlink in auto)
      qed (use 2 3 Some in auto)
    qed (use "2.prems" 3 in auto)
  qed (use 2 in auto)
qed simp

text \<open>The walk along a real location.\<close>

lemma namei_real:
  assumes "names cs" and "real t (dir @ cs)" and "cs \<noteq> []" and "\<And>l. map_of t (dir @ cs) \<noteq> Some (Symlink l)"
  shows "namei t f m dir cs = Inr (dir @ cs, map_of t (dir @ cs))"
  using assms
proof (induction cs arbitrary: dir)
  case (Cons c cs)
  have c: "c \<noteq> ''.''" "c \<noteq> ''..''" using Cons.prems(1) by (auto simp: is_name_def)
  show ?case
  proof (cases "cs = []")
    case True
    with Cons.prems c show ?thesis by (cases "map_of t (dir @ [c])") (auto split: inode.split)
  next
    case False
    then have "strict_prefix (dir @ [c]) (dir @ c # cs)" by (simp add: strict_prefix_def)
    with Cons.prems(2) have "map_of t (dir @ [c]) = Some Directory" by (simp add: real_def)
    with Cons.IH [of "dir @ [c]"] Cons.prems False c show ?thesis by simp
  qed
qed simp

lemma resolve_real:
  assumes "names q" and "real (fs_tree fs) q" and "\<And>l. node_at (fs_tree fs) q \<noteq> Some (Symlink l)"
    and "nul_free q"
  shows "resolve fs f (render True q) = Inr (q, node_at (fs_tree fs) q)"
proof (cases "q = []")
  case True
  with assms(4) show ?thesis by (simp add: resolve_def node_at_def render_def comps_of_def IsAbs_iff)
next
  case False
  have "render True q \<noteq> []" by (simp add: render_def)
  with False assms namei_real [of q "fs_tree fs" "[]"] show ?thesis by (simp add: resolve_def node_at_def)
qed

text \<open>Components \<open>.\<close> can be left out of a path that opens.\<close>

lemma namei_drop_dots:
  assumes "namei t True m dir cs = Inr (q, i)" and "cs = xs @ ys"
  shows "namei t True m dir (xs @ filter (\<lambda>c. c \<noteq> ''.'') ys) = Inr (q, i)"
  using assms
proof (induction t True m dir cs arbitrary: xs ys rule: namei.induct)
  case (2 t n dir c cs)
  show ?case
  proof (cases "xs = [] \<and> c = ''.''")
    case True
    with "2.hyps"(1) [of "[]" cs] "2.prems" show ?thesis by auto
  next
    case False
    obtain xs' ys' where cs: "cs = xs' @ ys'"
      and goal: "xs @ filter (\<lambda>c. c \<noteq> ''.'') ys = c # xs' @ filter (\<lambda>c. c \<noteq> ''.'') ys'"
    proof (cases xs)
      case Nil
      with False "2.prems"(2) show thesis by (intro that [of "[]" cs]) auto
    next
      case (Cons x xs')
      with "2.prems"(2) show thesis by (intro that [of xs' ys]) auto
    qed
    consider "c = ''.''" | "c = ''..''" | "c \<noteq> ''.''" "c \<noteq> ''..''" by blast
    then show ?thesis unfolding goal
    proof cases
      case 3
      obtain j where j: "map_of t (dir @ [c]) = Some j \<or> (map_of t (dir @ [c]) = None \<and> cs = [])"
        using "2.prems"(1) 3 by (cases "map_of t (dir @ [c])") (auto split: if_splits)
      show "namei t True n dir (c # xs' @ filter (\<lambda>c. c \<noteq> ''.'') ys') = Inr (q, i)"
      proof (cases "map_of t (dir @ [c])")
        case None
        with j cs 3 "2.prems"(1) show ?thesis by simp
      next
        case (Some j)
        show ?thesis
        proof (cases j)
          case Directory
          with "2.hyps"(3) [OF 3 Some Directory, of xs' ys'] "2.prems"(1) 3 Some cs show ?thesis by simp
        next
          case (Regular x)
          with "2.prems"(1) 3 Some cs show ?thesis by (auto split: if_splits)
        next
          case (Symlink l)
          then have n: "n \<noteq> 0" using "2.prems"(1) 3 Some by (auto split: if_splits)
          with "2.hyps"(4) [OF 3 Some Symlink _ n, of "comps_of l @ xs'" ys'] "2.prems"(1) 3 Some Symlink cs
          show ?thesis by simp
        qed
      qed
    qed (use 2 cs in auto)
  qed
qed simp

lemmas namei_dots = namei_drop_dots [where xs = "[]", simplified]


text \<open>A path with one more component: the kernel first opens the directory.\<close>

lemma namei_snoc:
  "\<exists>k. namei t f m dir (cs @ [d]) =
     (case namei t True m dir cs of
        Inl e \<Rightarrow> Inl e
      | Inr (q, Some Directory) \<Rightarrow> namei t f k q [d]
      | Inr (q, Some _) \<Rightarrow> Inl ENOTDIR
      | Inr (q, None) \<Rightarrow> Inl ENOENT)"
proof (induction t True m dir cs rule: namei.induct)
  case (2 t n dir c cs)
  consider "c = ''.''" | "c = ''..''" | "c \<noteq> ''.''" "c \<noteq> ''..''" by blast
  then show ?case
  proof cases
    case 3
    show ?thesis
    proof (cases "map_of t (dir @ [c])")
      case (Some i)
      show ?thesis
      proof (cases i)
        case Directory
        with "2.hyps"(3) [OF 3 Some Directory] 3 Some show ?thesis by simp
      next
        case (Symlink l)
        show ?thesis
        proof (cases "n = 0")
          case False
          with "2.hyps"(4) [OF 3 Some Symlink] 3 Some Symlink show ?thesis by simp
        qed (use 3 Some Symlink in auto)
      qed (use 3 Some in auto)
    qed (use 3 in auto)
  qed (use 2 in auto)
qed auto

text \<open>Conversely, what the kernel opens \<open>EvalSymlinks\<close> resolves, when no name in the tree has
  a NUL byte: its limit on links is the larger one.\<close>

definition wf_names :: "tree \<Rightarrow> bool" where
  "wf_names t = list_all (\<lambda>e. nul_free (fst e)) t"

lemma wf_names_node: "wf_names t \<Longrightarrow> map_of t q = Some i \<Longrightarrow> nul_free q"
  unfolding wf_names_def list_all_iff by (metis fst_conv map_of_SomeD)

lemma walk_symlinks_complete:
  assumes "namei t True m loc cs = Inr (q, Some i)" and "m \<le> n" and "wf_names t" and "r"
  shows "\<exists>s. walk_symlinks t n r loc dest cs = Inr s"
  using assms
proof (induction t n r loc dest cs arbitrary: m rule: walk_symlinks.induct)
  case (2 t n r loc dest c cs)
  consider "c = ''.''" | "c = ''..''" | "c \<noteq> ''.''" "c \<noteq> ''..''" by blast
  then show ?case
  proof cases
    case 1
    with "2.IH"(1) [of m] "2.prems" show ?thesis by simp
  next
    case 2
    with "2.IH"(2) [of m] "2.prems" show ?thesis by simp
  next
    case 3
    obtain j where j: "map_of t (loc @ [c]) = Some j"
      using "2.prems"(1) 3 by (cases "map_of t (loc @ [c])") (auto split: if_splits)
    then have nul: "CHR 0x00 \<notin> set c" using wf_names_node [OF "2.prems"(3) j] by simp
    show ?thesis
    proof (cases j)
      case Directory
      with "2.IH"(3) [OF 3 nul j Directory, of m] "2.prems" 3 j nul show ?thesis by simp
    next
      case (Regular x)
      then have "cs = []" using "2.prems"(1) 3 j by (auto split: if_splits)
      with Regular 3 nul j show ?thesis by simp
    next
      case (Symlink l)
      then have m: "m \<noteq> 0" using "2.prems"(1) 3 j by (auto split: if_splits)
      then have n: "n \<noteq> 0" "m - 1 \<le> n - 1" using "2.prems"(2) by auto
      show ?thesis
        using "2.IH"(5) [OF 3 nul j Symlink n(1), of "m - 1"] "2.IH"(6) [OF 3 nul j Symlink n(1), of "m - 1"]
          "2.prems" 3 nul j Symlink m n
        by (cases "IsAbs l") simp_all
    qed
  qed
qed simp

lemma EvalSymlinks_complete:
  assumes "resolve fs True p = Inr (q, Some i)" and "wf_names (fs_tree fs)" and "IsAbs p"
  shows "\<exists>s. EvalSymlinks fs p = Inr s"
proof -
  have "namei (fs_tree fs) True max_links [] (comps_of p) = Inr (q, Some i)"
    using assms(1,3) by (auto simp: resolve_def split: if_splits)
  from walk_symlinks_complete [OF this, of max_links_walked True] assms(2,3) show ?thesis
    by (simp add: EvalSymlinks_def max_links_def max_links_walked_def)
qed

section \<open>Writing one file\<close>

text \<open>A location that is real and not a link: where a validated path may point.\<close>

definition target :: "file_system \<Rightarrow> location \<Rightarrow> bool" where
  "target fs q \<longleftrightarrow>
     names q \<and> nul_free q \<and> real (fs_tree fs) q \<and> (\<forall>l. node_at (fs_tree fs) q \<noteq> Some (Symlink l))"

lemma resolve_target: "target fs q \<Longrightarrow> resolve fs f (render True q) = Inr (q, node_at (fs_tree fs) q)"
  unfolding target_def by (blast intro: resolve_real)

lemma target_existing:
  assumes "EvalSymlinks fs p = Inr s" and "IsAbs p"
  obtains q i where "s = render True q" "target fs q" "node_at (fs_tree fs) q = Some i"
    "resolve fs True p = Inr (q, Some i) \<or> resolve fs True p = Inl ELOOP \<or> resolve fs True p = Inl EINVAL"
  by (rule EvalSymlinks_location [OF assms]) (rule that, auto simp: target_def)

lemma target_fresh:
  assumes "Lstat fs (render True cs) = Inl ENOENT" and "names cs"
    and "EvalSymlinks fs (Dir (render True cs)) = Inr s"
  obtains q d where "s = render True q" "Join [s, Base (render True cs)] = render True (q @ [d])"
    "target fs (q @ [d])" "map_of (fs_tree fs) (q @ [d]) = None" "cs = butlast cs @ [d]" "target fs q"
    "resolve fs True (render True cs) = Inr (q @ [d], None)" "resolve fs False (render True cs) = Inr (q @ [d], None)"
proof -
  let ?t = "fs_tree fs"
  have nul: "nul_free cs" using assms(1) unfolding Lstat_def resolve_def existing_def
    by (auto simp: max_links_def split: if_splits)
  have ne: "render True cs \<noteq> []" by (simp add: render_def)
  have res: "resolve fs f (render True cs) = namei ?t f max_links [] cs" for f
    using nul ne assms(2) by (simp add: resolve_def)
  have "cs \<noteq> []"
    using assms(1) unfolding Lstat_def res by (auto simp: existing_def)
  then obtain ds d where cs: "cs = ds @ [d]" by (cases cs rule: rev_cases) auto
  have ds: "names ds" "is_name d" using assms(2) cs by auto
  have "EvalSymlinks fs (render True ds) = Inr s" using assms(2,3) by (simp add: Dir_render cs)
  then obtain q i where q: "s = render True q" "target fs q" "node_at ?t q = Some i"
    and r: "resolve fs True (render True ds) = Inr (q, Some i) \<or> resolve fs True (render True ds) = Inl ELOOP \<or>
      resolve fs True (render True ds) = Inl EINVAL"
    by (rule target_existing) simp
  have "render True ds \<noteq> []" by (simp add: render_def)
  then have resd: "resolve fs True (render True ds) = namei ?t True max_links [] ds"
    using nul ds cs by (simp add: resolve_def)
  have snoc: "\<exists>k. namei ?t f max_links [] cs =
      (case namei ?t True max_links [] ds of
        Inl e \<Rightarrow> Inl e | Inr (q, Some Directory) \<Rightarrow> namei ?t f k q [d]
      | Inr (q, Some _) \<Rightarrow> Inl ENOTDIR | Inr (q, None) \<Rightarrow> Inl ENOENT)" for f
    using namei_snoc [of ?t f max_links "[]" ds d] unfolding cs by blast
  have lstat: "existing (namei ?t False max_links [] cs) = Inl ENOENT"
    using assms(1) unfolding Lstat_def res
    by (cases "existing (namei ?t False max_links [] cs)") auto
  obtain k where k: "namei ?t False max_links [] cs =
      (case namei ?t True max_links [] ds of
        Inl e \<Rightarrow> Inl e | Inr (q, Some Directory) \<Rightarrow> namei ?t False k q [d]
      | Inr (q, Some _) \<Rightarrow> Inl ENOTDIR | Inr (q, None) \<Rightarrow> Inl ENOENT)"
    using snoc by blast
  have dir: "namei ?t True max_links [] ds = Inr (q, Some Directory)"
    using lstat r unfolding k resd by (cases i) (auto simp: existing_def)
  then have i: "i = Directory" using r unfolding resd by auto
  have none: "map_of ?t (q @ [d]) = None"
    using lstat ds(2) unfolding k dir
    by (auto simp: existing_def is_name_def split: option.splits inode.splits if_splits)
  have opens: "namei ?t f max_links [] cs = Inr (q @ [d], None)" for f
    using snoc [of f] none ds(2) by (auto simp: dir is_name_def)
  have "real_dir ?t q"
    using q(2,3) i unfolding target_def real_def real_dir_def strict_prefix_def node_at_def
    by (metis option.inject)
  then have "target fs (q @ [d])"
    using q(2) ds(2) nul cs none by (simp add: target_def node_at_def)
  moreover have "Join [s, Base (render True cs)] = render True (q @ [d])"
    using q(1,2) ds unfolding cs by (simp add: Base_render Join_render target_def)
  moreover have "cs = butlast cs @ [d]" by (simp add: cs)
  ultimately show thesis using q(1,2) none by (intro that [of q d]) (simp_all only: res opens)
qed


text \<open>Writing a file changes no walk that succeeded, but at the file itself.\<close>

definition writable :: "tree \<Rightarrow> location \<Rightarrow> bool" where
  "writable t q \<longleftrightarrow> map_of t q \<noteq> Some Directory \<and> (\<forall>l. map_of t q \<noteq> Some (Symlink l))"

lemma writable_cases: "writable t q \<Longrightarrow> map_of t q = None \<or> (\<exists>x. map_of t q = Some (Regular x))"
  unfolding writable_def by (cases "map_of t q"; cases "the (map_of t q)") auto

lemma walk_symlinks_put:
  assumes "walk_symlinks t n r loc dest cs = Inr s" and "writable t q"
  shows "walk_symlinks (assoc_set q (Regular x) t) n r loc dest cs = Inr s"
  using assms
proof (induction t n r loc dest cs arbitrary: s rule: walk_symlinks.induct)
  case (2 t n r loc dest c cs)
  consider "c = ''.''" | "c = ''..''" | "c \<noteq> ''.''" "c \<noteq> ''..''" by blast
  then show ?case
  proof cases
    case 3
    have nul: "CHR 0x00 \<notin> set c" using "2.prems"(1) 3 by (auto split: if_splits)
    obtain i where i: "map_of t (loc @ [c]) = Some i"
      using "2.prems"(1) 3 nul by (cases "map_of t (loc @ [c])") auto
    show ?thesis
    proof (cases "loc @ [c] = q")
      case True
      then obtain y where "i = Regular y" using i "2.prems"(2) writable_cases by fastforce
      with True i 3 nul "2.prems"(1) show ?thesis by (auto simp: map_of_assoc_set split: if_splits)
    next
      case False
      then have i': "map_of (assoc_set q (Regular x) t) (loc @ [c]) = Some i"
        using i by (simp add: map_of_assoc_set)
      show ?thesis
      proof (cases i)
        case (Symlink l)
        have n: "n \<noteq> 0" using "2.prems"(1) 3 nul i Symlink by (auto split: if_splits)
        show ?thesis
          using "2.IH"(5) [OF 3 nul i Symlink n] "2.IH"(6) [OF 3 nul i Symlink n] "2.prems" 3 nul i i' Symlink n
          by (cases "IsAbs l") simp_all
      qed (use 2 3 nul i i' in \<open>auto split: if_splits\<close>)
    qed
  qed (use 2 in auto)
qed simp

lemma EvalSymlinks_put:
  "EvalSymlinks fs p = Inr s \<Longrightarrow> writable (fs_tree fs) q \<Longrightarrow> EvalSymlinks (fs_put q (Regular x) fs) p = Inr s"
  by (cases "IsAbs p") (simp_all add: EvalSymlinks_def fs_put_def walk_symlinks_put)

lemma writable_not_dir: "real_dir t dir \<Longrightarrow> writable t q \<Longrightarrow> q \<noteq> [] \<Longrightarrow> dir \<noteq> q"
  by (auto simp: real_dir_def writable_def)

lemma namei_put:
  assumes "namei t f m dir cs = Inr (p, i)" and "writable t q" and "q \<noteq> []" and "real_dir t dir"
  shows "namei (assoc_set q (Regular x) t) f m dir cs = Inr (p, if p = q then Some (Regular x) else i)"
  using assms
proof (induction t f m dir cs rule: namei.induct)
  case (1 t f n dir)
  then show ?case using writable_not_dir by auto
next
  case (2 t f n dir c cs)
  consider "c = ''.''" | "c = ''..''" | "c \<noteq> ''.''" "c \<noteq> ''..''" by blast
  then show ?case
  proof cases
    case 3
    show ?thesis
    proof (cases "dir @ [c] = q")
      case True
      then have "cs = []" and "p = q"
        using "2.prems"(1) 3 writable_cases [OF "2.prems"(2)] by (auto split: if_splits)
      with True 3 show ?thesis by simp
    next
      case False
      show ?thesis
      proof (cases "map_of t (dir @ [c])")
        case None
        with "2.prems" 3 False show ?thesis by (auto split: if_splits)
      next
        case (Some j)
        show ?thesis
        proof (cases j)
          case Directory
          with "2.IH"(3) [OF 3 Some Directory] "2.prems" 3 Some False show ?thesis by simp
        next
          case (Regular y)
          with "2.prems" 3 Some False show ?thesis by (auto split: if_splits)
        next
          case (Symlink l)
          show ?thesis
          proof (cases "cs = [] \<and> \<not> f \<or> n = 0")
            case True
            with "2.prems" 3 Some False Symlink show ?thesis by (auto split: if_splits)
          next
            case go: False
            then have ne: "\<not> (cs = [] \<and> \<not> f)" and n: "n \<noteq> 0" by auto
            show ?thesis
              using "2.IH"(4) [OF 3 Some Symlink ne n] "2.prems" 3 Some Symlink ne n False
              by (cases "IsAbs l") (auto split: if_splits)
          qed
        qed
      qed
    qed
  qed (use 2 real_dir_butlast in auto)
qed

lemma resolve_put:
  assumes "resolve fs f p = Inr (p', i)" and "writable (fs_tree fs) q" and "q \<noteq> []" and "IsAbs p"
  shows "resolve (fs_put q (Regular x) fs) f p = Inr (p', if p' = q then Some (Regular x) else i)"
  using assms namei_put by (auto simp: resolve_def fs_put_def split: if_splits)

lemma target_put:
  assumes "target fs q" and "q \<noteq> []"
  shows "target (fs_put q (Regular x) fs) q"
  using assms by (auto simp: target_def real_def fs_put_def node_at_def strict_prefix_def)

text \<open>\<open>EvalSymlinks\<close> of a path with one more component.\<close>

lemma walk_symlinks_snoc:
  assumes "walk_symlinks t n r loc dest cs = Inr (render True q)" and "r" and "dest = loc" and "names loc"
    and "\<And>c. c \<in> set cs \<Longrightarrow> component_ok c" and "names q" and "node_at t q = Some Directory"
  shows "\<exists>k. walk_symlinks t n r loc dest (cs @ [d]) = walk_symlinks t k True q q [d]"
  using assms
proof (induction t n r loc dest cs rule: walk_symlinks.induct)
  case (1 t n r loc dest)
  then have "q = loc" using render_inject [of q loc] by simp
  with 1 show ?case by auto
next
  case (2 t n r loc dest c cs)
  have c: "component_ok c" and cs: "\<And>c. c \<in> set cs \<Longrightarrow> component_ok c" using "2.prems" by auto
  consider "c = ''.''" | "c = ''..''" | "c \<noteq> ''.''" "c \<noteq> ''..''" by blast
  then show ?case
  proof cases
    case 1
    then show ?thesis using "2.IH"(1) "2.prems" cs by simp
  next
    case 2
    then show ?thesis using "2.IH"(2) "2.prems" cs by simp
  next
    case 3
    then have name: "is_name c" using c is_name_component by blast
    have nul: "CHR 0x00 \<notin> set c" using "2.prems"(1) 3 by (auto split: if_splits)
    obtain i where i: "map_of t (loc @ [c]) = Some i"
      using "2.prems"(1) 3 nul by (cases "map_of t (loc @ [c])") auto
    show ?thesis
    proof (cases i)
      case Directory
      then show ?thesis using "2.IH"(3) [OF 3 nul i] "2.prems" i 3 nul cs name by simp
    next
      case (Regular x)
      then have "render True q = render True (loc @ [c])"
        using "2.prems" i 3 nul by (auto split: if_splits)
      then have "q = loc @ [c]" using "2.prems"(4,6) name render_inject [of q "loc @ [c]"] by simp
      with Regular i "2.prems"(7) show ?thesis by (simp add: node_at_def)
    next
      case (Symlink l)
      have n: "n \<noteq> 0" using "2.prems"(1) 3 nul i Symlink by (auto split: if_splits)
      have ok: "\<And>d. d \<in> set (comps_of l @ cs) \<Longrightarrow> component_ok d" using cs comps_of_ok by auto
      show ?thesis
        using "2.IH"(5) [OF 3 nul i Symlink n] "2.IH"(6) [OF 3 nul i Symlink n] "2.prems" ok i 3 nul n Symlink
        by (cases "IsAbs l") simp_all
    qed
  qed
qed

lemma EvalSymlinks_put_fresh:
  assumes "EvalSymlinks fs (render True ds) = Inr (render True q)" and "names ds" and "is_name d" and "CHR 0x00 \<notin> set d"
    and "target fs (q @ [d])" and "map_of (fs_tree fs) (q @ [d]) = None"
  shows "EvalSymlinks (fs_put (q @ [d]) (Regular x) fs) (render True (ds @ [d])) = Inr (render True (q @ [d]))"
proof -
  let ?t = "assoc_set (q @ [d]) (Regular x) (fs_tree fs)"
  have q: "names q" "real_dir (fs_tree fs) q" using assms(5) by (auto simp: target_def)
  have walk: "walk_symlinks ?t max_links_walked True [] [] ds = Inr (render True q)"
    using EvalSymlinks_put [OF assms(1), of "q @ [d]" x] assms(2,6)
    by (simp add: EvalSymlinks_def fs_put_def writable_def)
  have node: "node_at ?t q = Some Directory"
    using node_at_real_dir [OF q(2)] by (auto simp: node_at_def split: if_splits)
  have "component_ok c" if "c \<in> set ds" for c
    using that assms(2) by (auto simp: names_def list_all_iff is_name_def component_ok_def)
  then obtain k where "walk_symlinks ?t max_links_walked True [] [] (ds @ [d]) = walk_symlinks ?t k True q q [d]"
    using walk_symlinks_snoc [OF walk _ _ _ _ q(1) node] by auto
  then show ?thesis
    using assms(2,3,4) by (simp add: EvalSymlinks_def fs_put_def is_name_def)
qed

end
