(* ===== verification/Workspace_Gate.thy ===== *)
theory Workspace_Gate
  imports Workspace_Path
begin

text \<open>
  The two gates that file operations of an agent pass: \<open>validatePath\<close> of
  \<open>backend/agent/executor/acp_executor.go\<close>, before \<open>ReadTextFile\<close> and
  \<open>WriteTextFile\<close>, and \<open>validateWorkspacePath\<close> of
  \<open>backend/agent/daemon/handlers_file.go\<close>, before the file commands of the daemon. What
  a gate promises is the locale \<open>path_gate\<close>; what its clients may then rely on (reads and
  writes stay inside, a written file is read back) is proved there once and used for both.
\<close>

section \<open>The ACP executor\<close>

datatype gate_error =
    AccessDisabled
  | PathRequired
  | PathNotAbsolute string
  | PathIsSymlink string
  | PathOutside string
  | PathUnresolved fs_error
  | JailUnresolved fs_error
  | AgentRequired

text \<open>A panic of the runtime is a result of its own.\<close>

datatype 'a outcome = Returns 'a | Panics

definition is_symlink :: "inode \<Rightarrow> bool" where
  "is_symlink i = (case i of Symlink l \<Rightarrow> True | _ \<Rightarrow> False)"

definition pathInsideRoots :: "string list \<Rightarrow> file_system \<Rightarrow> string \<Rightarrow> bool" where
  "pathInsideRoots allowedRoots fs target0 =
     list_ex (\<lambda>root. case EvalSymlinks fs root of
         Inl _ \<Rightarrow> False
       | Inr resolvedRoot \<Rightarrow>
           (let t = Clean target0; root' = Clean resolvedRoot
            in t = root' \<or> has_prefix t (root' @ [slash]))) allowedRoots"

fun validatePath :: "string list \<times> bool \<Rightarrow> file_system \<Rightarrow> string \<Rightarrow> (gate_error, string) result" where
  "validatePath (allowedRoots, enabled) fs path =
     (if \<not> enabled then Inl AccessDisabled
      else let cleaned = Clean path in
      if \<not> IsAbs cleaned then Inl (PathNotAbsolute path)
      else case Lstat fs cleaned of
        Inr fi \<Rightarrow>
          if is_symlink fi then Inl (PathIsSymlink path)
          else (case EvalSymlinks fs cleaned of
              Inl e \<Rightarrow> Inl (PathUnresolved e)
            | Inr resolved \<Rightarrow>
                if pathInsideRoots allowedRoots fs resolved then Inr resolved else Inl (PathOutside path))
      | Inl ENOENT \<Rightarrow>
          (case EvalSymlinks fs (Dir cleaned) of
              Inl e \<Rightarrow> Inl (PathUnresolved e)
            | Inr parentResolved \<Rightarrow>
                if pathInsideRoots allowedRoots fs parentResolved
                then Inr (Join [parentResolved, Base cleaned]) else Inl (PathOutside path))
      | Inl e \<Rightarrow> Inl (PathUnresolved e))"

declare validatePath.simps [simp del]

text \<open>The part of \<open>ACPConfig\<close> the file operations read, with the roots the executor was
  made with.\<close>

record acp_files =
  allowedRoots :: "string list"
  ReadTextFiles :: bool
  WriteTextFiles :: bool

fun split_lines :: "string \<Rightarrow> string list" where
  "split_lines [] = [[]]"
| "split_lines (c # s) =
     (if c = CHR 0x0A then [] # split_lines s
      else case split_lines s of [] \<Rightarrow> [[c]] | w # ws \<Rightarrow> (c # w) # ws)"

text \<open>\<open>Line\<close> and \<open>Limit\<close> are \<open>int\<close>, 64 bits; a slice whose bounds are out of order
  panics.\<close>

definition line_window :: "int option \<Rightarrow> int option \<Rightarrow> string list \<Rightarrow> string list outcome" where
  "line_window ln limit ls =
     (let n = int (length ls);
          start = (case ln of Some l \<Rightarrow> if l > 0 then min (max (l - 1) 0) n else 0 | None \<Rightarrow> 0);
          stop = (case limit of Some k \<Rightarrow> if k > 0 \<and> i64 (start + k) < n then i64 (start + k) else n | None \<Rightarrow> n)
      in if 0 \<le> start \<and> start \<le> stop \<and> stop \<le> n
         then Returns (take (nat stop - nat start) (drop (nat start) ls)) else Panics)"

definition ReadTextFile ::
  "acp_files \<Rightarrow> file_system \<Rightarrow> string \<Rightarrow> int option \<Rightarrow> int option \<Rightarrow> (gate_error, string) result outcome" where
  "ReadTextFile e fs path ln limit =
     (case validatePath (allowedRoots e, ReadTextFiles e) fs path of
        Inl err \<Rightarrow> Returns (Inl err)
      | Inr p \<Rightarrow>
          (case ReadFile fs p of
             Inl err \<Rightarrow> Returns (Inl (PathUnresolved err))
           | Inr content \<Rightarrow>
               if ln \<noteq> None \<or> limit \<noteq> None then
                 (case line_window ln limit (split_lines content) of
                    Returns ls \<Rightarrow> Returns (Inr (join_strings [CHR 0x0A] ls))
                  | Panics \<Rightarrow> Panics)
               else Returns (Inr content)))"

definition WriteTextFile ::
  "acp_files \<Rightarrow> file_system \<Rightarrow> string \<Rightarrow> string \<Rightarrow> (gate_error, unit) result \<times> file_system" where
  "WriteTextFile e fs path content =
     (case validatePath (allowedRoots e, WriteTextFiles e) fs path of
        Inl err \<Rightarrow> (Inl err, fs)
      | Inr p \<Rightarrow>
          (case MkdirAll fs (Dir p) of
             (Inl err, fs1) \<Rightarrow> (Inl (PathUnresolved err), fs1)
           | (Inr _, fs1) \<Rightarrow>
               (case WriteFile fs1 p content of
                  (Inl err, fs2) \<Rightarrow> (Inl (PathUnresolved err), fs2)
                | (Inr _, fs2) \<Rightarrow> (Inr (), fs2))))"

text \<open>The roots of an executor: \<open>filepath.Abs\<close> of the working directory and of the
  additional directories, without repetitions.\<close>

definition Abs :: "file_system \<Rightarrow> string \<Rightarrow> string" where
  "Abs fs p = (if IsAbs p then Clean p else Join [render True (fs_cwd fs), p])"

fun uniqueStrings_loop :: "string list \<Rightarrow> string list \<Rightarrow> string list" where
  "uniqueStrings_loop seen [] = []"
| "uniqueStrings_loop seen (item # items) =
     (if item = [] \<or> item \<in> set seen then uniqueStrings_loop seen items
      else item # uniqueStrings_loop (item # seen) items)"

definition uniqueStrings :: "string list \<Rightarrow> string list" where
  "uniqueStrings items = uniqueStrings_loop [] items"

definition resolveACPWorkingDir :: "file_system \<Rightarrow> string \<Rightarrow> string list \<Rightarrow> string \<times> string list" where
  "resolveACPWorkingDir fs workingDir additional =
     (let absWorkingDir = Abs fs workingDir
      in (Clean absWorkingDir,
          uniqueStrings (Clean absWorkingDir # map (\<lambda>dir. Clean (Abs fs dir)) additional)))"

section \<open>The file commands of the daemon\<close>

definition insideWorkspace :: "string \<Rightarrow> string \<Rightarrow> bool" where
  "insideWorkspace jail t =
     (case Rel jail t of
        None \<Rightarrow> False
      | Some rel \<Rightarrow> rel \<noteq> ''..'' \<and> \<not> has_prefix rel ''../'')"

fun validateWorkspacePath :: "string \<times> string \<Rightarrow> file_system \<Rightarrow> string \<Rightarrow> (gate_error, string) result" where
  "validateWorkspacePath (base, jail) fs path =
     (if path = [] then Inl PathRequired
      else case EvalSymlinks fs jail of
        Inl e \<Rightarrow> Inl (JailUnresolved e)
      | Inr resolvedJail \<Rightarrow>
          (let cleaned = Clean (if IsAbs path then path else Join [base, path])
           in case Lstat fs cleaned of
                Inr fi \<Rightarrow>
                  if is_symlink fi then Inl (PathIsSymlink path)
                  else (case EvalSymlinks fs cleaned of
                      Inl e \<Rightarrow> Inl (PathUnresolved e)
                    | Inr resolved \<Rightarrow>
                        if insideWorkspace resolvedJail resolved then Inr resolved else Inl (PathOutside path))
              | Inl ENOENT \<Rightarrow>
                  (case EvalSymlinks fs (Dir cleaned) of
                      Inl e \<Rightarrow> Inl (PathUnresolved e)
                    | Inr parentResolved \<Rightarrow>
                        if insideWorkspace resolvedJail parentResolved
                        then Inr (Join [parentResolved, Base cleaned]) else Inl (PathOutside path))
              | Inl e \<Rightarrow> Inl (PathUnresolved e)))"

declare validateWorkspacePath.simps [simp del]

text \<open>The parts of the daemon's server and of a request the file commands read.\<close>

record daemon_server =
  homeDir :: string
  machineResourceID :: string

record file_request =
  fr_Agent :: string
  fr_Cwd :: string
  fr_LocalPath :: string
  fr_OutPath :: string
  fr_OriginalName :: string

definition daemon_bareAgentID :: "string \<Rightarrow> string" where
  "daemon_bareAgentID agent = (if has_prefix agent ''agents/'' then drop 7 agent else agent)"

definition workspaceFor :: "daemon_server \<Rightarrow> string \<Rightarrow> (gate_error, string) result" where
  "workspaceFor s agent =
     (let agentID = daemon_bareAgentID agent
      in if agentID = [] \<or> agentID = ''.'' \<or> agentID = ''..'' \<or> slash \<in> set agentID \<or> CHR 0x5C \<in> set agentID
         then Inl AgentRequired
         else Inr (Join [homeDir s, machineResourceID s, agentID]))"

definition fileWorkspace ::
  "daemon_server \<Rightarrow> file_system \<Rightarrow> file_request \<Rightarrow> (gate_error, string \<times> string) result \<times> file_system" where
  "fileWorkspace s fs req =
     (case workspaceFor s (fr_Agent req) of
        Inl e \<Rightarrow> (Inl e, fs)
      | Inr workspace \<Rightarrow>
          (let tempDir = Join [workspace, ''temp'']
           in case MkdirAll fs tempDir of
                (Inl e, fs1) \<Rightarrow> (Inl (PathUnresolved e), fs1)
              | (Inr _, fs1) \<Rightarrow>
                  (Inr (tempDir, if fr_Cwd req = [] \<or> \<not> IsAbs (fr_Cwd req) then workspace else fr_Cwd req), fs1)))"

text \<open>\<open>handleFileUpload\<close> up to the call that sends the bytes on: the data and the name they
  are sent under.\<close>

definition handleFileUpload ::
  "daemon_server \<Rightarrow> file_system \<Rightarrow> file_request \<Rightarrow> (gate_error, string \<times> string) result \<times> file_system" where
  "handleFileUpload s fs req =
     (case fileWorkspace s fs req of
        (Inl e, fs1) \<Rightarrow> (Inl e, fs1)
      | (Inr (tempDir, base), fs1) \<Rightarrow>
          (case validateWorkspacePath (base, tempDir) fs1 (fr_LocalPath req) of
             Inl e \<Rightarrow> (Inl e, fs1)
           | Inr localPath \<Rightarrow>
               (case ReadFile fs1 localPath of
                  Inl e \<Rightarrow> (Inl (PathUnresolved e), fs1)
                | Inr content \<Rightarrow>
                    (Inr (content, if fr_OriginalName req = [] then Base localPath else fr_OriginalName req), fs1))))"

text \<open>\<open>handleFileDownload\<close> after the file, its name and its bytes, came from the Manager.\<close>

definition handleFileDownload ::
  "daemon_server \<Rightarrow> file_system \<Rightarrow> file_request \<Rightarrow> string \<Rightarrow> string \<Rightarrow> (gate_error, string) result \<times> file_system" where
  "handleFileDownload s fs req name content =
     (case fileWorkspace s fs req of
        (Inl e, fs1) \<Rightarrow> (Inl e, fs1)
      | (Inr (tempDir, base), fs1) \<Rightarrow>
          (let outPath = (if fr_OutPath req = [] then Join [tempDir, name] else fr_OutPath req)
           in case validateWorkspacePath (base, tempDir) fs1 outPath of
                Inl e \<Rightarrow> (Inl e, fs1)
              | Inr resolved \<Rightarrow>
                  (case MkdirAll fs1 (Dir resolved) of
                     (Inl e, fs2) \<Rightarrow> (Inl (PathUnresolved e), fs2)
                   | (Inr _, fs2) \<Rightarrow>
                       (case WriteFile fs2 resolved content of
                          (Inl e, fs3) \<Rightarrow> (Inl (PathUnresolved e), fs3)
                        | (Inr _, fs3) \<Rightarrow> (Inr resolved, fs3)))))"

section \<open>Validated locations\<close>

text \<open>Making the directory of a validated location makes nothing: it is there.\<close>

lemma target_nil: "target fs []"
  by (simp add: target_def real_def node_at_def)

lemma target_butlast:
  assumes "target fs q"
  shows "target fs (butlast q)" and "node_at (fs_tree fs) (butlast q) = Some Directory"
proof -
  have "target fs (butlast q) \<and> node_at (fs_tree fs) (butlast q) = Some Directory"
  proof (cases q rule: rev_cases)
    case Nil
    then show ?thesis by (simp add: target_nil node_at_def)
  next
    case (snoc ds d)
    with assms have "real_dir (fs_tree fs) ds" by (simp add: target_def)
    with assms snoc show ?thesis by (simp add: target_def node_at_real_dir real_dir_real)
  qed
  then show "target fs (butlast q)" and "node_at (fs_tree fs) (butlast q) = Some Directory" by auto
qed

lemma MkdirAll_target:
  assumes "target fs q"
  shows "MkdirAll fs (Dir (render True q)) = (Inr (), fs)"
proof -
  have "Stat fs (render True (butlast q)) = Inr Directory"
    by (simp add: Stat_def resolve_target [OF target_butlast(1) [OF assms]] target_butlast(2) [OF assms] existing_def)
  with assms show ?thesis by (subst MkdirAll.simps) (simp add: Dir_render target_def)
qed

lemma WriteFile_target:
  assumes "target fs q"
  shows "WriteFile fs (render True q) content =
    (if node_at (fs_tree fs) q = Some Directory then (Inl EISDIR, fs)
     else (Inr (), fs_put q (Regular content) fs))"
  using assms unfolding WriteFile_def resolve_target [OF assms]
  by (cases "node_at (fs_tree fs) q"; cases "the (node_at (fs_tree fs) q)") (auto simp: target_def)

lemma ReadFile_target:
  assumes "target fs q"
  shows "ReadFile fs (render True q) = Inr content \<longleftrightarrow> node_at (fs_tree fs) q = Some (Regular content)"
  unfolding ReadFile_def resolve_target [OF assms]
  by (cases "node_at (fs_tree fs) q"; cases "the (node_at (fs_tree fs) q)") (auto simp: existing_def)

section \<open>What a gate promises\<close>

locale path_gate =
  fixes admissible :: "'c \<Rightarrow> bool"
    and validate :: "'c \<Rightarrow> file_system \<Rightarrow> string \<Rightarrow> ('e, string) result"
    and inside :: "'c \<Rightarrow> file_system \<Rightarrow> location \<Rightarrow> bool"
  assumes validated:
    "admissible cfg \<Longrightarrow> validate cfg fs p = Inr s \<Longrightarrow> \<exists>q. s = render True q \<and> target fs q \<and> inside cfg fs q"
begin

lemma read_inside:
  assumes "admissible cfg" and "validate cfg fs p = Inr s" and "ReadFile fs s = Inr content"
  shows "\<exists>q. inside cfg fs q \<and> node_at (fs_tree fs) q = Some (Regular content)"
proof -
  obtain q where q: "s = render True q" "target fs q" "inside cfg fs q"
    using validated [OF assms(1,2)] by blast
  with assms(3) ReadFile_target show ?thesis by blast
qed

lemma write_inside:
  assumes "admissible cfg" and "validate cfg fs p = Inr s" and "MkdirAll fs (Dir s) = (r, fs1)"
    and "WriteFile fs1 s content = (r', fs2)"
  shows "fs1 = fs \<and> (\<forall>q. map_of (fs_tree fs2) q \<noteq> map_of (fs_tree fs) q \<longrightarrow> inside cfg fs q)"
proof -
  obtain q where q: "s = render True q" "target fs q" "inside cfg fs q"
    using validated [OF assms(1,2)] by blast
  have fs1: "fs1 = fs" using assms(3) MkdirAll_target [OF q(2)] by (simp add: q(1))
  have "fs2 = fs \<or> fs2 = fs_put q (Regular content) fs"
    using assms(4) WriteFile_target [OF q(2), of content] unfolding fs1 q(1) by (auto split: if_splits)
  with fs1 q(3) show ?thesis by (auto simp: fs_put_def split: if_splits)
qed

end

text \<open>A gate whose verdict on a path does not change when the file it admitted is written.\<close>

locale stable_path_gate = path_gate admissible validate inside
  for admissible :: "'c \<Rightarrow> bool"
    and validate :: "'c \<Rightarrow> file_system \<Rightarrow> string \<Rightarrow> ('e, string) result"
    and inside :: "'c \<Rightarrow> file_system \<Rightarrow> location \<Rightarrow> bool" +
  fixes steady :: "'c \<Rightarrow> file_system \<Rightarrow> bool"
  assumes stable:
    "admissible cfg \<Longrightarrow> steady cfg fs \<Longrightarrow> validate cfg fs p = Inr (render True q) \<Longrightarrow> target fs q \<Longrightarrow>
     q \<noteq> [] \<Longrightarrow> writable (fs_tree fs) q \<Longrightarrow> validate cfg (fs_put q (Regular x) fs) p = Inr (render True q)"
begin

lemma written_then_read:
  assumes "admissible cfg" and "steady cfg fs" and "validate cfg fs p = Inr s"
    and "WriteFile fs s content = (Inr u, fs2)"
  shows "validate cfg fs2 p = Inr s \<and> ReadFile fs2 s = Inr content"
proof -
  obtain q where q: "s = render True q" "target fs q"
    using validated [OF assms(1,3)] by blast
  have ne: "node_at (fs_tree fs) q \<noteq> Some Directory" and fs2: "fs2 = fs_put q (Regular content) fs"
    using assms(4) WriteFile_target [OF q(2), of content] unfolding q(1) by (auto split: if_splits)
  have nil: "q \<noteq> []" using ne by (auto simp: node_at_def)
  then have w: "writable (fs_tree fs) q" using ne q(2) by (auto simp: writable_def node_at_def target_def)
  have "ReadFile fs2 s = Inr content"
    unfolding fs2 q(1) ReadFile_target [OF target_put [OF q(2) nil]] using nil
    by (simp add: node_at_def fs_put_def)
  with stable [OF assms(1,2) assms(3) [unfolded q(1)] q(2) nil w] show ?thesis by (simp add: fs2 q(1))
qed

end

section \<open>The gates keep the promise\<close>

lemma inside_root:
  assumes "names q" and "Clean (render True q) = Clean r \<or> has_prefix (Clean (render True q)) (Clean r @ [slash])"
  shows "IsAbs r \<and> prefix (lexical r) q"
proof -
  have "IsAbs r"
  proof (rule ccontr)
    assume "\<not> IsAbs r"
    then have "\<not> IsAbs (Clean r)" and "Clean r \<noteq> []" using Clean_rel by blast+
    then show False using assms(2) unfolding Clean_render [OF assms(1)]
      by (cases "Clean r") (auto simp: render_def IsAbs_iff has_prefix_def)
  qed
  then have r: "Clean r = render True (lexical r)" by (rule Clean_abs)
  from assms(2) have "q = lexical r \<or> strict_prefix (lexical r) q"
    unfolding r Clean_render [OF assms(1)]
    using below_iff [OF names_lexical assms(1)] render_inject [OF assms(1) names_lexical] by blast
  with \<open>IsAbs r\<close> show ?thesis by (auto simp: strict_prefix_def)
qed

definition acp_inside :: "string list \<times> bool \<Rightarrow> file_system \<Rightarrow> location \<Rightarrow> bool" where
  "acp_inside cfg fs q \<longleftrightarrow>
     (\<exists>root r. root \<in> set (fst cfg) \<and> EvalSymlinks fs root = Inr r \<and> IsAbs r \<and> prefix (lexical r) q)"

lemma pathInsideRoots_inside:
  assumes "pathInsideRoots roots fs (render True q)" and "names q"
  shows "acp_inside (roots, b) fs q"
proof -
  obtain root r where "root \<in> set roots" "EvalSymlinks fs root = Inr r"
    "Clean (render True q) = Clean r \<or> has_prefix (Clean (render True q)) (Clean r @ [slash])"
    using assms(1) unfolding pathInsideRoots_def list_ex_iff
    by (auto simp: Let_def split: sum.splits) (metis sum.exhaust)
  with inside_root [OF assms(2)] show ?thesis by (auto simp: acp_inside_def)
qed


lemma acp_inside_snoc: "acp_inside cfg fs q \<Longrightarrow> acp_inside cfg fs (q @ [d])"
  unfolding acp_inside_def by (metis append_prefixD prefix_append prefix_order.refl prefix_order.trans)

lemma validatePath_cases:
  assumes "validatePath (roots, enabled) fs p = Inr s"
  obtains (existing) i where "enabled" "IsAbs p" "Lstat fs (Clean p) = Inr i" "\<not> is_symlink i"
      "EvalSymlinks fs (Clean p) = Inr s" "pathInsideRoots roots fs s"
    | (fresh) s' where "enabled" "IsAbs p" "Lstat fs (Clean p) = Inl ENOENT" "EvalSymlinks fs (Dir (Clean p)) = Inr s'"
      "pathInsideRoots roots fs s'" "s = Join [s', Base (Clean p)]"
  using assms by (auto simp: validatePath.simps Let_def split: if_splits sum.splits fs_error.splits)

lemma validatePath_target:
  assumes "validatePath cfg fs p = Inr s"
  shows "\<exists>q. s = render True q \<and> target fs q \<and> acp_inside cfg fs q"
proof -
  obtain roots enabled where cfg: "cfg = (roots, enabled)" by (cases cfg)
  from assms [unfolded cfg] show ?thesis
  proof (cases rule: validatePath_cases)
    case (existing i)
    then obtain q j where "s = render True q" "target fs q"
      by (meson IsAbs_Clean target_existing)
    then show ?thesis using existing pathInsideRoots_inside unfolding cfg target_def by blast
  next
    case (fresh s')
    have p: "Clean p = render True (lexical p)" using fresh(2) by (rule Clean_abs)
    obtain q d where q: "s' = render True q" "Join [s', Base (render True (lexical p))] = render True (q @ [d])"
      "target fs (q @ [d])" "target fs q"
      using target_fresh [OF fresh(3) [unfolded p] names_lexical fresh(4) [unfolded p]] by metis
    then have "acp_inside cfg fs (q @ [d])"
      using fresh(5) pathInsideRoots_inside acp_inside_snoc unfolding cfg target_def by blast
    with q fresh(6) p show ?thesis by auto
  qed
qed

interpretation acp: path_gate "\<lambda>_. True" validatePath acp_inside
  by unfold_locales (rule validatePath_target)


text \<open>What a write changes of what the gates look at.\<close>

lemma Lstat_put:
  assumes "Lstat fs p = Inr i" and "\<not> is_symlink i" and "IsAbs p" and "writable (fs_tree fs) q" and "q \<noteq> []"
  shows "\<exists>j. Lstat (fs_put q (Regular x) fs) p = Inr j \<and> \<not> is_symlink j"
proof -
  obtain p' where r: "resolve fs False p = Inr (p', Some i)"
    using assms(1) by (auto simp: Lstat_def existing_def split: sum.splits option.splits)
  show ?thesis using resolve_put [OF r assms(4,5,3), of x] assms(2)
    by (cases "p' = q") (auto simp: Lstat_def existing_def is_symlink_def)
qed

lemma fresh_put:
  assumes "Lstat fs (render True cs) = Inl ENOENT" and "names cs"
    and "EvalSymlinks fs (Dir (render True cs)) = Inr s"
    and "Join [s, Base (render True cs)] = render True q" and "names q"
  shows "Lstat (fs_put q (Regular x) fs) (render True cs) = Inr (Regular x) \<and>
    EvalSymlinks (fs_put q (Regular x) fs) (render True cs) = Inr (render True q)"
proof -
  obtain p d where p: "s = render True p" "Join [s, Base (render True cs)] = render True (p @ [d])"
      "target fs (p @ [d])" "map_of (fs_tree fs) (p @ [d]) = None" "cs = butlast cs @ [d]"
      "resolve fs False (render True cs) = Inr (p @ [d], None)"
    using target_fresh [OF assms(1,2,3)] by metis
  have "names (p @ [d])" using p(3) by (simp add: target_def)
  then have q: "q = p @ [d]" using assms(4,5) p(2) render_inject by metis
  obtain ds where cs: "cs = ds @ [d]" using p(5) by blast
  have "EvalSymlinks (fs_put q (Regular x) fs) (render True (ds @ [d])) = Inr (render True (p @ [d]))"
    unfolding q by (rule EvalSymlinks_put_fresh) (use assms(2,3) p(1,3,4) cs in \<open>auto simp: Dir_render target_def\<close>)
  moreover have "writable (fs_tree fs) q" by (simp add: writable_def q p(4))
  then have "Lstat (fs_put q (Regular x) fs) (render True cs) = Inr (Regular x)"
    using resolve_put [OF p(6), of q x] by (simp add: Lstat_def existing_def q)
  ultimately show ?thesis by (simp add: cs q)
qed

text \<open>An executor whose root is \<open>/\<close> admits only \<open>/\<close> itself and the fresh files right below
  it, so the verdict on such a file changes when it is written. Any other root is steady.\<close>

definition no_slash_root :: "string list \<times> bool \<Rightarrow> file_system \<Rightarrow> bool" where
  "no_slash_root cfg fs =
     list_all (\<lambda>root. case EvalSymlinks fs root of Inr r \<Rightarrow> Clean r \<noteq> ''/'' | Inl _ \<Rightarrow> True) (fst cfg)"

lemma pathInsideRoots_put:
  "pathInsideRoots roots fs s \<Longrightarrow> writable (fs_tree fs) q \<Longrightarrow> pathInsideRoots roots (fs_put q (Regular x) fs) s"
  unfolding pathInsideRoots_def list_ex_iff
  by (auto simp: Let_def EvalSymlinks_put split: sum.splits) (metis EvalSymlinks_put sum.exhaust Inl_Inr_False Inr_inject)

lemma pathInsideRoots_snoc:
  assumes "pathInsideRoots roots fs (render True q)" and "names (q @ [d])" and "no_slash_root (roots, b) fs"
  shows "pathInsideRoots roots fs (render True (q @ [d]))"
proof -
  obtain root r where r: "root \<in> set roots" "EvalSymlinks fs root = Inr r"
    "Clean (render True q) = Clean r \<or> has_prefix (Clean (render True q)) (Clean r @ [slash])"
    using assms(1) unfolding pathInsideRoots_def list_ex_iff
    by (auto simp: Let_def split: sum.splits) (metis sum.exhaust)
  have abs: "IsAbs r" "prefix (lexical r) q" using inside_root [OF _ r(3)] assms(2) by simp_all
  have "Clean r \<noteq> ''/''" using assms(3) r(1,2) by (auto simp: no_slash_root_def list_all_iff)
  then have "lexical r \<noteq> []" using Clean_abs [OF abs(1)] by (auto simp: render_def)
  moreover have "strict_prefix (lexical r) (q @ [d])" using abs(2) by (auto simp: strict_prefix_def)
  ultimately have "has_prefix (render True (q @ [d])) (Clean r @ [slash])"
    using below_iff [OF names_lexical assms(2)] Clean_abs [OF abs(1)] by simp
  with r(1,2) assms(2) show ?thesis
    unfolding pathInsideRoots_def list_ex_iff by (intro bexI [of _ root]) (auto simp: Let_def)
qed

lemma validatePath_stable:
  assumes "no_slash_root cfg fs" and "validatePath cfg fs p = Inr (render True q)" and "target fs q"
    and "q \<noteq> []" and "writable (fs_tree fs) q"
  shows "validatePath cfg (fs_put q (Regular x) fs) p = Inr (render True q)"
proof -
  let ?fs = "fs_put q (Regular x) fs"
  obtain roots enabled where cfg: "cfg = (roots, enabled)" by (cases cfg)
  from assms(2) [unfolded cfg] show ?thesis
  proof (cases rule: validatePath_cases)
    case (existing i)
    obtain j where "Lstat ?fs (Clean p) = Inr j" "\<not> is_symlink j"
      using Lstat_put [OF existing(3,4) _ assms(5,4)] existing(2) by auto
    with existing show ?thesis
      by (simp add: cfg validatePath.simps EvalSymlinks_put assms(5) pathInsideRoots_put)
  next
    case (fresh s')
    have p: "Clean p = render True (lexical p)" using fresh(2) by (rule Clean_abs)
    have put: "Lstat ?fs (Clean p) = Inr (Regular x)" "EvalSymlinks ?fs (Clean p) = Inr (render True q)"
      using fresh_put [OF fresh(3) [unfolded p] names_lexical fresh(4) [unfolded p], of q x] fresh(6) assms(3)
      unfolding p target_def by auto
    obtain r d where r: "s' = render True r" "render True q = render True (r @ [d])" "target fs (r @ [d])"
      using target_fresh [OF fresh(3) [unfolded p] names_lexical fresh(4) [unfolded p]] fresh(6) p by metis
    have "pathInsideRoots roots ?fs (render True q)"
      using pathInsideRoots_put [OF pathInsideRoots_snoc [OF fresh(5) [unfolded r(1)], of d enabled] assms(5)]
        r(2,3) assms(1) by (simp add: cfg target_def)
    with put fresh(1,2) show ?thesis by (simp add: cfg validatePath.simps is_symlink_def)
  qed
qed

interpretation acp: stable_path_gate "\<lambda>_. True" validatePath acp_inside no_slash_root
  by unfold_locales (rule validatePath_stable)

text \<open>The daemon measures with \<open>Rel\<close>.\<close>

lemma strip_common_prefix: "fst (strip_common bs ts) = [] \<longleftrightarrow> prefix bs ts"
  by (induction bs ts rule: strip_common.induct) auto

lemma strip_common_names: "names bs \<Longrightarrow> names ts \<Longrightarrow> names (fst (strip_common bs ts)) \<and> names (snd (strip_common bs ts))"
  by (induction bs ts rule: strip_common.induct) auto

lemma names_not_up:
  assumes "names ts"
  shows "join_strings [slash] ts \<noteq> ''..'' \<and> \<not> has_prefix (join_strings [slash] ts) ''../''"
proof (cases "ts = []")
  case False
  have up: "is_name ''..'' \<Longrightarrow> False" by simp
  note split = split_slash_join [OF assms False]
  have "join_strings [slash] ts \<noteq> ''..''"
  proof
    assume "join_strings [slash] ts = ''..''"
    with split have "ts = [''..'']" by simp
    with assms show False by simp
  qed
  moreover have "\<not> has_prefix (join_strings [slash] ts) ''../''"
  proof
    assume "has_prefix (join_strings [slash] ts) ''../''"
    then obtain x where "join_strings [slash] ts = ''..'' @ slash # x"
      unfolding has_prefix_def starts_with_iff by (metis append_Cons append_Nil append_take_drop_id)
    with split have "ts = [''..''] @ split_slash x" by (simp only: split_slash_append) simp
    with assms show False by simp
  qed
  ultimately show ?thesis by blast
qed (simp add: has_prefix_def)

lemma insideWorkspace_iff:
  assumes "names j" and "names q"
  shows "insideWorkspace (render True j) (render True q) \<longleftrightarrow> prefix j q"
proof (cases "j = q")
  case True
  then show ?thesis by (simp add: insideWorkspace_def Rel_def has_prefix_def)
next
  case False
  obtain bs ts where st: "strip_common j q = (bs, ts)" by fastforce
  have n: "names bs" "names ts" using strip_common_names [OF assms] st by simp_all
  have bs: "bs = [] \<longleftrightarrow> prefix j q" using strip_common_prefix [of j q] st by simp
  have hd: "bs \<noteq> [] \<Longrightarrow> hd bs \<noteq> ''..''" using n(1) by (cases bs) auto
  have "Rel (render True j) (render True q) = Some (join_strings [slash] (map (\<lambda>_. ''..'') bs @ ts))"
    using False assms hd render_inject [OF assms] clean_of_names [OF assms(1), of True "[]"]
      clean_of_names [OF assms(2), of True "[]"] by (auto simp: Rel_def st)
  moreover have "join_strings [slash] (''..'' # xs) = ''..'' \<or> has_prefix (join_strings [slash] (''..'' # xs)) ''../''" for xs
    by (cases xs) (simp_all add: has_prefix_def)
  ultimately show ?thesis using bs names_not_up [OF n(2)] by (cases bs) (auto simp: insideWorkspace_def)
qed

definition jail_inside :: "string \<times> string \<Rightarrow> file_system \<Rightarrow> location \<Rightarrow> bool" where
  "jail_inside cfg fs q \<longleftrightarrow> (\<exists>j. EvalSymlinks fs (snd cfg) = Inr (render True j) \<and> names j \<and> prefix j q)"

lemma validateWorkspacePath_cases:
  assumes "validateWorkspacePath (base, jail) fs p = Inr s"
  obtains (existing) i j where "EvalSymlinks fs jail = Inr j"
      "Lstat fs (Clean (if IsAbs p then p else Join [base, p])) = Inr i" "\<not> is_symlink i"
      "EvalSymlinks fs (Clean (if IsAbs p then p else Join [base, p])) = Inr s" "insideWorkspace j s"
    | (fresh) s' j where "EvalSymlinks fs jail = Inr j"
      "Lstat fs (Clean (if IsAbs p then p else Join [base, p])) = Inl ENOENT"
      "EvalSymlinks fs (Dir (Clean (if IsAbs p then p else Join [base, p]))) = Inr s'"
      "insideWorkspace j s'" "s = Join [s', Base (Clean (if IsAbs p then p else Join [base, p]))]"
  using assms by (auto simp: validateWorkspacePath.simps Let_def split: if_splits sum.splits fs_error.splits)

lemma IsAbs_Join: "IsAbs a \<Longrightarrow> IsAbs (Join (a # as))"
proof -
  assume "IsAbs a"
  then obtain x where a: "a = slash # x" by (auto simp: IsAbs_iff)
  obtain y where "join_strings [slash] (a # filter (\<lambda>e. e \<noteq> []) as) = slash # y"
    by (cases "filter (\<lambda>e. e \<noteq> []) as") (simp_all add: a)
  then have "IsAbs (join_strings [slash] (a # filter (\<lambda>e. e \<noteq> []) as))" unfolding IsAbs_iff by blast
  moreover have "Join (a # as) = Clean (join_strings [slash] (a # filter (\<lambda>e. e \<noteq> []) as))"
    unfolding Join_def Let_def using a by (simp del: join_strings.simps)
  ultimately show ?thesis by simp
qed

lemma validateWorkspacePath_target:
  assumes "IsAbs (fst cfg) \<and> IsAbs (snd cfg)" and "validateWorkspacePath cfg fs p = Inr s"
  shows "\<exists>q. s = render True q \<and> target fs q \<and> jail_inside cfg fs q"
proof -
  obtain base jail where cfg: "cfg = (base, jail)" by (cases cfg)
  define path where "path = (if IsAbs p then p else Join [base, p])"
  have abs: "IsAbs path" using assms(1) by (simp add: path_def cfg IsAbs_Join)
  then have p: "Clean path = render True (lexical path)" by (rule Clean_abs)
  have jail: "\<exists>j. J = render True j \<and> names j" if "EvalSymlinks fs jail = Inr J" for J
    using target_existing [OF that] assms(1) unfolding cfg target_def by (metis snd_conv)
  from assms(2) [unfolded cfg] show ?thesis
  proof (cases rule: validateWorkspacePath_cases)
    case (existing i J)
    note existing = existing [folded path_def]
    have "IsAbs (Clean path)" by (simp add: abs)
    from target_existing [OF existing(4) this] obtain q where q: "s = render True q" "target fs q" by blast
    obtain j where j: "J = render True j" "names j" using jail existing(1) by blast
    have "prefix j q" using existing(5) q(2) j insideWorkspace_iff unfolding q(1) target_def by blast
    with q existing(1) j show ?thesis unfolding cfg jail_inside_def by auto
  next
    case (fresh s' J)
    note fresh = fresh [folded path_def]
    obtain q d where q: "s' = render True q" "Join [s', Base (render True (lexical path))] = render True (q @ [d])"
      "target fs (q @ [d])" "target fs q"
      using target_fresh [OF fresh(2) [unfolded p] names_lexical fresh(3) [unfolded p]] by metis
    obtain j where j: "J = render True j" "names j" using jail fresh(1) by blast
    have "prefix j q" using fresh(4) q(4) j insideWorkspace_iff unfolding q(1) target_def by blast
    then have "jail_inside cfg fs (q @ [d])" using fresh(1) j unfolding cfg jail_inside_def by auto
    with q fresh(5) p show ?thesis by auto
  qed
qed

interpretation jail: path_gate "\<lambda>cfg. IsAbs (fst cfg) \<and> IsAbs (snd cfg)" validateWorkspacePath jail_inside
  by unfold_locales (rule validateWorkspacePath_target)


lemma validateWorkspacePath_stable:
  assumes "IsAbs (fst cfg) \<and> IsAbs (snd cfg)" and "validateWorkspacePath cfg fs p = Inr (render True q)"
    and "target fs q" and "q \<noteq> []" and "writable (fs_tree fs) q"
  shows "validateWorkspacePath cfg (fs_put q (Regular x) fs) p = Inr (render True q)"
proof -
  let ?fs = "fs_put q (Regular x) fs"
  obtain base jail where cfg: "cfg = (base, jail)" by (cases cfg)
  define path where "path = (if IsAbs p then p else Join [base, p])"
  have abs: "IsAbs path" using assms(1) by (simp add: path_def cfg IsAbs_Join)
  then have p: "Clean path = render True (lexical path)" by (rule Clean_abs)
  have ne: "p \<noteq> []" using assms(2) by (auto simp: cfg validateWorkspacePath.simps)
  obtain j where j: "EvalSymlinks fs jail = Inr (render True j)" "names j" "prefix j q"
    using validateWorkspacePath_target [OF assms(1,2)] assms(3) render_inject
    unfolding cfg jail_inside_def target_def by auto
  have inside: "insideWorkspace (render True j) (render True q)"
    using insideWorkspace_iff [OF j(2)] j(3) assms(3) by (simp add: target_def)
  have res: "validateWorkspacePath (base, jail) ?fs p = Inr (render True q)"
    if "Lstat ?fs (Clean path) = Inr i" "\<not> is_symlink i" "EvalSymlinks ?fs (Clean path) = Inr (render True q)" for i
    using that ne inside EvalSymlinks_put [OF j(1) assms(5), of x] by (simp add: validateWorkspacePath.simps path_def [symmetric] Let_def)
  from assms(2) [unfolded cfg] show ?thesis unfolding cfg
  proof (cases rule: validateWorkspacePath_cases)
    case (existing i J)
    note existing = existing [folded path_def]
    obtain k where "Lstat ?fs (Clean path) = Inr k" "\<not> is_symlink k"
      using Lstat_put [OF existing(2,3) _ assms(5,4)] abs by auto
    then show "validateWorkspacePath (base, jail) ?fs p = Inr (render True q)"
      using res EvalSymlinks_put [OF existing(4) assms(5), of x] by blast
  next
    case (fresh s' J)
    note fresh = fresh [folded path_def]
    have "Lstat ?fs (Clean path) = Inr (Regular x)" "EvalSymlinks ?fs (Clean path) = Inr (render True q)"
      using fresh_put [OF fresh(2) [unfolded p] names_lexical fresh(3) [unfolded p], of q x] fresh(5) assms(3)
      unfolding p target_def by auto
    moreover have "\<not> is_symlink (Regular x)" by (simp add: is_symlink_def)
    ultimately show "validateWorkspacePath (base, jail) ?fs p = Inr (render True q)" using res by blast
  qed
qed

interpretation jail: stable_path_gate "\<lambda>cfg. IsAbs (fst cfg) \<and> IsAbs (snd cfg)" validateWorkspacePath
  jail_inside "\<lambda>_ _. True"
  by unfold_locales (simp add: validateWorkspacePath_stable)


section \<open>Properties\<close>

text \<open>A file tree with a workspace, a file in it, a link that leads out of it, and a file
  outside.\<close>

definition sample_fs :: file_system where
  "sample_fs =
     \<lparr>fs_tree =
        [([''ws''], Directory), ([''ws'', ''a''], Regular ''hi''), ([''ws'', ''out''], Symlink ''/etc/conf''),
         ([''etc''], Directory), ([''etc'', ''conf''], Directory), ([''etc'', ''key''], Regular ''secret'')],
      fs_cwd = [''ws'']\<rparr>"

definition sample_acp :: acp_files where
  "sample_acp = \<lparr>allowedRoots = [''/ws''], ReadTextFiles = True, WriteTextFiles = True\<rparr>"

text \<open>C9: \<open>WriteTextFile\<close> changes nothing outside the allowed roots: every location whose content
  is different afterwards lies at or below the resolved location of a root, whatever links
  the tree has.\<close>

theorem acp_writes_confined:
  assumes "WriteTextFile e fs path content = (r, fs')"
    and "map_of (fs_tree fs') q \<noteq> map_of (fs_tree fs) q"
  shows "\<exists>root r. root \<in> set (allowedRoots e) \<and> EvalSymlinks fs root = Inr r \<and> IsAbs r \<and> prefix (lexical r) q"
proof -
  obtain p where p: "validatePath (allowedRoots e, WriteTextFiles e) fs path = Inr p"
    using assms by (cases "validatePath (allowedRoots e, WriteTextFiles e) fs path") (auto simp: WriteTextFile_def)
  obtain r1 fs1 where mk: "MkdirAll fs (Dir p) = (r1, fs1)" by fastforce
  obtain r2 fs2 where wr: "WriteFile fs1 p content = (r2, fs2)" by fastforce
  have "fs' = fs1 \<or> fs' = fs2"
    using assms(1) by (auto simp: WriteTextFile_def p mk wr split: sum.splits)
  with acp.write_inside [OF _ p mk wr] assms(2) have "acp_inside (allowedRoots e, WriteTextFiles e) fs q" by auto
  then show ?thesis by (simp add: acp_inside_def)
qed

lemma sample_acp_write:
  "WriteTextFile sample_acp sample_fs ''/ws/sub/../b'' ''new'' =
     (Inr (), fs_put [''ws'', ''b''] (Regular ''new'') sample_fs)"
  by code_simp


lemma sample_put:
  "map_of (fs_tree (fs_put [''ws'', ''b''] (Regular ''new'') sample_fs)) [''ws'', ''b''] \<noteq>
     map_of (fs_tree sample_fs) [''ws'', ''b'']"
  by code_simp

theorem acp_writes_confined_witness:
  "(\<exists>r. WriteTextFile sample_acp sample_fs ''/ws/sub/../b'' ''new'' =
       (r, fs_put [''ws'', ''b''] (Regular ''new'') sample_fs)) \<and>
   (\<exists>root r. root \<in> set (allowedRoots sample_acp) \<and> EvalSymlinks sample_fs root = Inr r \<and> IsAbs r \<and>
       prefix (lexical r) [''ws'', ''b''])"
  using acp_writes_confined [OF sample_acp_write sample_put] sample_acp_write by blast

text \<open>A file \<open>WriteTextFile\<close> wrote is read back by \<open>ReadTextFile\<close> under the same path,
  through the gate again, unless a root of the executor is the root directory.\<close>

theorem written_text_read_back:
  assumes "WriteTextFile e fs path content = (Inr u, fs')" and "ReadTextFiles e"
    and "list_all (\<lambda>root. case EvalSymlinks fs root of Inr r \<Rightarrow> Clean r \<noteq> ''/'' | Inl _ \<Rightarrow> True) (allowedRoots e)"
  shows "ReadTextFile e fs' path None None = Returns (Inr content)"
proof -
  obtain p where p: "validatePath (allowedRoots e, True) fs path = Inr p" and on: "WriteTextFiles e"
    using assms(1) by (cases "WriteTextFiles e"; cases "validatePath (allowedRoots e, WriteTextFiles e) fs path")
      (auto simp: WriteTextFile_def validatePath.simps)
  obtain q where "p = render True q" "target fs q" using validatePath_target [OF p] by blast
  then have mk: "MkdirAll fs (Dir p) = (Inr (), fs)" using MkdirAll_target by blast
  have wr: "WriteFile fs p content = (Inr (), fs')"
    using assms(1) p by (auto simp: WriteTextFile_def on mk split: prod.splits sum.splits)
  have "no_slash_root (allowedRoots e, True) fs" using assms(3) by (simp add: no_slash_root_def)
  with acp.written_then_read [OF _ _ p wr] assms(2) show ?thesis by (simp add: ReadTextFile_def)
qed

theorem written_text_read_back_witness:
  "ReadTextFile sample_acp (fs_put [''ws'', ''b''] (Regular ''new'') sample_fs) ''/ws/sub/../b'' None None =
     Returns (Inr ''new'')"
proof (rule written_text_read_back [OF sample_acp_write])
  show "ReadTextFiles sample_acp" by code_simp
  show "list_all (\<lambda>root. case EvalSymlinks sample_fs root of Inr r \<Rightarrow> Clean r \<noteq> ''/'' | Inl _ \<Rightarrow> True)
      (allowedRoots sample_acp)" by code_simp
qed

lemma fileWorkspace_abs:
  assumes "fileWorkspace s fs req = (Inr (tempDir, base), fs1)" and "IsAbs (homeDir s)"
  shows "IsAbs base \<and> IsAbs tempDir"
  using assms by (auto simp: fileWorkspace_def workspaceFor_def Let_def IsAbs_Join split: sum.splits prod.splits if_splits)

text \<open>A download of the daemon, once the agent's directory \<open>temp\<close> is there, changes nothing
  outside that directory, whatever path the request names and whatever name the file has.\<close>

theorem download_confined:
  assumes "IsAbs (homeDir s)" and "fileWorkspace s fs req = (Inr (tempDir, base), fs1)"
    and "handleFileDownload s fs req name content = (r, fs')"
    and "map_of (fs_tree fs') q \<noteq> map_of (fs_tree fs1) q"
  shows "\<exists>j. EvalSymlinks fs1 tempDir = Inr (render True j) \<and> names j \<and> prefix j q"
proof -
  define out where "out = (if fr_OutPath req = [] then Join [tempDir, name] else fr_OutPath req)"
  obtain p where p: "validateWorkspacePath (base, tempDir) fs1 out = Inr p"
    using assms(3,4) by (cases "validateWorkspacePath (base, tempDir) fs1 out")
      (auto simp: handleFileDownload_def assms(2) out_def)
  obtain r1 fs2 where mk: "MkdirAll fs1 (Dir p) = (r1, fs2)" by fastforce
  obtain r2 fs3 where wr: "WriteFile fs2 p content = (r2, fs3)" by fastforce
  have "fs' = fs2 \<or> fs' = fs3"
    using assms(3) by (auto simp: handleFileDownload_def assms(2) out_def [symmetric] p mk wr split: sum.splits)
  with jail.write_inside [OF _ p mk wr] fileWorkspace_abs [OF assms(2,1)] assms(4)
  have "jail_inside (base, tempDir) fs1 q" by auto
  then show ?thesis by (simp add: jail_inside_def)
qed

definition sample_daemon :: daemon_server where
  "sample_daemon = \<lparr>homeDir = ''/ws'', machineResourceID = ''m''\<rparr>"

definition sample_file_request :: file_request where
  "sample_file_request =
     \<lparr>fr_Agent = ''agents/x'', fr_Cwd = [], fr_LocalPath = ''temp/f'', fr_OutPath = [], fr_OriginalName = []\<rparr>"

definition sample_temp :: file_system where
  "sample_temp =
     fs_put [''ws'', ''m'', ''x'', ''temp''] Directory (fs_put [''ws'', ''m'', ''x''] Directory
       (fs_put [''ws'', ''m''] Directory sample_fs))"

lemma sample_fileWorkspace:
  "fileWorkspace sample_daemon sample_fs sample_file_request =
     (Inr (''/ws/m/x/temp'', ''/ws/m/x''), sample_temp)"
  by code_simp

lemma sample_download:
  "handleFileDownload sample_daemon sample_fs sample_file_request ''f'' ''data'' =
     (Inr ''/ws/m/x/temp/f'', fs_put [''ws'', ''m'', ''x'', ''temp'', ''f''] (Regular ''data'') sample_temp)"
  by code_simp

theorem download_confined_witness:
  "\<exists>j. EvalSymlinks sample_temp ''/ws/m/x/temp'' = Inr (render True j) \<and> names j \<and>
     prefix j [''ws'', ''m'', ''x'', ''temp'', ''f'']"
proof (rule download_confined [OF _ sample_fileWorkspace sample_download])
  show "IsAbs (homeDir sample_daemon)" by code_simp
  show "map_of (fs_tree (fs_put [''ws'', ''m'', ''x'', ''temp'', ''f''] (Regular ''data'') sample_temp))
      [''ws'', ''m'', ''x'', ''temp'', ''f''] \<noteq>
    map_of (fs_tree sample_temp) [''ws'', ''m'', ''x'', ''temp'', ''f'']" by code_simp
qed

text \<open>\<open>ReadTextFile\<close> adds the requested limit to the first line in 64 bits without a bound:
  it panics exactly when the sum exceeds the greatest \<open>int\<close>, and otherwise returns the
  lines from the first one, at most as many as the limit.\<close>

theorem line_window_panics_iff:
  assumes "is_i64 l" and "is_i64 k" and "0 < l" and "0 < k" and "int (length ls) < 9223372036854775807"
  shows "line_window (Some l) (Some k) ls =
    (if min (l - 1) (int (length ls)) + k > 9223372036854775807 then Panics
     else Returns (take (nat k) (drop (nat (l - 1)) ls)))"
proof -
  define n where "n = int (length ls)"
  define start where "start = min (l - 1) n"
  have start: "0 \<le> start" "start \<le> n" "min (max (l - 1) 0) n = start"
    using assms(3) by (auto simp: start_def n_def)
  have wrap: "i64 (start + k) = (if start + k > 9223372036854775807 then start + k - 18446744073709551616 else start + k)"
  proof (cases "start + k > 9223372036854775807")
    case True
    have "(start + k + 9223372036854775808) mod 18446744073709551616 = start + k + 9223372036854775808 - 18446744073709551616"
      using True start assms(2,5) unfolding n_def is_i64_def by (subst mod_pos_geq) auto
    with True show ?thesis by (simp add: i64_def)
  next
    case False
    then have "is_i64 (start + k)" using start assms(4) by (simp add: is_i64_def)
    with False show ?thesis by simp
  qed
  have window: "take (nat k) (drop (nat (l - 1)) ls) = take (nat k) (drop (nat start) ls)"
    using assms(3) by (auto simp: start_def n_def min_def)
  show ?thesis
  proof (cases "start + k > 9223372036854775807")
    case True
    then have "i64 (start + k) < 0" using start assms(2,5) unfolding wrap n_def is_i64_def by auto
    with True start assms(3,4) show ?thesis
      by (auto simp: line_window_def Let_def n_def [symmetric] start_def [symmetric])
  next
    case False
    have "take (nat n - nat start) (drop (nat start) ls) = take (nat k) (drop (nat start) ls)" if "n \<le> start + k"
      using that start assms(4) by (simp add: n_def)
    with False start assms(3,4) show ?thesis unfolding window
      by (auto simp: line_window_def Let_def n_def [symmetric] start_def [symmetric] wrap nat_add_distrib)
  qed
qed

theorem line_window_panics_iff_witness:
  "line_window (Some 2) (Some 9223372036854775807) [''a'', ''b''] = Panics \<and>
   line_window (Some 2) (Some 1) [''a'', ''b''] = Returns [''b'']"
  using line_window_panics_iff [of 2 9223372036854775807 "[''a'', ''b'']"]
    line_window_panics_iff [of 2 1 "[''a'', ''b'']"]
  by (simp add: is_i64_def)

end
