(* ===== verification/Runtime_Policy.thy ===== *)
theory Runtime_Policy
  imports Workspace_Gate
begin

text \<open>
  The runtime policy of an agent, \<open>backend/a2a/policy.go\<close>, and the ACP executor's use of it
  (\<open>RequestPermission\<close> in \<open>backend/agent/executor/acp_executor.go\<close>): the rules on the
  kinds of action, the confinement of paths to the workspace roots over the file system of
  theory \<open>Workspace_Path\<close>, the classification of ACP requests, and the choice of an option
  for the answer. The approval boundary is an argument, a state-passing function; theory
  \<open>Approval_Checker\<close> provides it. The file system does not change while a request is evaluated.
\<close>

section \<open>Data\<close>

datatype ActionKind =
    ActionRead | ActionWrite | ActionShell | ActionNetwork | ActionSecret | ActionMCP
  | ActionUnclassified | ActionOther string

fun action_string :: "ActionKind \<Rightarrow> string" where
  "action_string ActionRead = ''READ''"
| "action_string ActionWrite = ''WRITE''"
| "action_string ActionShell = ''SHELL''"
| "action_string ActionNetwork = ''NETWORK''"
| "action_string ActionSecret = ''SECRET''"
| "action_string ActionMCP = ''MCP''"
| "action_string ActionUnclassified = ''UNCLASSIFIED''"
| "action_string (ActionOther s) = s"

datatype PolicyDecision = DecisionAllow | DecisionDeny | DecisionApprovalRequired

record RuntimePolicy =
  rp_TenantID :: string
  rp_AgentID :: string
  rp_AllowedRoots :: "string list"
  rp_AllowWorkspaceRead :: bool
  rp_AllowWorkspaceWrite :: bool
  rp_AllowedCommands :: "string list"
  rp_AllowNetwork :: bool
  rp_AllowSecrets :: bool
  rp_AllowedMCPServers :: "string list"
  rp_AllowedMCPTools :: "string list"

definition DefaultRuntimePolicy :: "string \<Rightarrow> string list \<Rightarrow> RuntimePolicy" where
  "DefaultRuntimePolicy agentID workspaceRoots =
     \<lparr>rp_TenantID = [], rp_AgentID = agentID, rp_AllowedRoots = workspaceRoots,
      rp_AllowWorkspaceRead = True, rp_AllowWorkspaceWrite = False, rp_AllowedCommands = [],
      rp_AllowNetwork = False, rp_AllowSecrets = False, rp_AllowedMCPServers = [], rp_AllowedMCPTools = []\<rparr>"

record PermissionRequest =
  pr_TenantID :: string
  pr_WorkID :: string
  pr_AgentID :: string
  pr_PeerAgentID :: string
  pr_ActionKind :: ActionKind
  pr_ToolName :: string
  pr_TargetPath :: string
  pr_Command :: string
  pr_MCPServer :: string
  pr_MCPTool :: string
  pr_Description :: string

text \<open>The errors of \<open>ValidatePathConfinement\<close>, and the reasons of a verdict: a text of the
  source, or one that quotes an error.\<close>

datatype confine_error =
    NoRoots
  | MustBeAbsolute string
  | BrokenSymlink string fs_error
  | SymlinkOutside string string
  | CanonicalFailed string fs_error
  | OutsideRoots string
  | NoAncestor string
  | AncestorOutside string string
  | ParentOutside string string
  | StatFailed string fs_error

datatype policy_reason =
    Reason string
  | ConfinementViolation confine_error
  | ApprovalFailed string

record PermissionResult =
  res_Decision :: PolicyDecision
  res_Reason :: policy_reason
  res_ActionSummary :: string
  res_CanonicalPath :: string

abbreviation denied :: "string \<Rightarrow> string \<Rightarrow> PermissionResult" where
  "denied reason summary \<equiv>
     \<lparr>res_Decision = DecisionDeny, res_Reason = Reason reason, res_ActionSummary = summary, res_CanonicalPath = []\<rparr>"

abbreviation needs_approval :: "string \<Rightarrow> string \<Rightarrow> string \<Rightarrow> PermissionResult" where
  "needs_approval reason summary canonical \<equiv>
     \<lparr>res_Decision = DecisionApprovalRequired, res_Reason = Reason reason, res_ActionSummary = summary,
      res_CanonicalPath = canonical\<rparr>"

section \<open>Path confinement\<close>

definition isInsideRoots :: "file_system \<Rightarrow> string \<Rightarrow> string list \<Rightarrow> bool" where
  "isInsideRoots fs target0 roots =
     list_ex (\<lambda>root. root \<noteq> [] \<and>
       (let t = Clean target0;
            resolvedRoot = (case EvalSymlinks fs root of Inl _ \<Rightarrow> Clean root | Inr r \<Rightarrow> Clean r)
        in t = resolvedRoot \<or> has_prefix t (resolvedRoot @ [slash]))) roots"

text \<open>
  The walk up from a parent that does not resolve, to the nearest ancestor that does. The
  ancestor is kept as the list of its names: \<open>Dir\<close> drops the last one (\<open>Dir_render\<close>) and
  leaves \<open>/\<close> as it is, where the loop ends.
\<close>

function existing_ancestor ::
  "file_system \<Rightarrow> string list \<Rightarrow> string \<Rightarrow> string \<Rightarrow> string list \<Rightarrow> (confine_error, string) result" where
  "existing_ancestor fs roots path cleaned ancestor =
     (if ancestor = [] then Inl (NoAncestor path)
      else case EvalSymlinks fs (render True (butlast ancestor)) of
        Inl _ \<Rightarrow> existing_ancestor fs roots path cleaned (butlast ancestor)
      | Inr aResolved \<Rightarrow>
          if isInsideRoots fs aResolved roots then Inr cleaned else Inl (AncestorOutside path aResolved))"
  by pat_completeness auto
termination
  by (relation "measure (\<lambda>(fs, roots, path, cleaned, ancestor). length ancestor)") auto

declare existing_ancestor.simps [simp del]

definition ValidatePathConfinement ::
  "file_system \<Rightarrow> string \<Rightarrow> string list \<Rightarrow> (confine_error, string) result" where
  "ValidatePathConfinement fs path roots =
     (if roots = [] then Inl NoRoots
      else let cleaned = Clean path in
      if \<not> IsAbs cleaned then Inl (MustBeAbsolute path)
      else case Lstat fs cleaned of
        Inr fi \<Rightarrow>
          if is_symlink fi then
            (case EvalSymlinks fs cleaned of
               Inl e \<Rightarrow> Inl (BrokenSymlink path e)
             | Inr t \<Rightarrow> if isInsideRoots fs t roots then Inr t else Inl (SymlinkOutside path t))
          else
            (case EvalSymlinks fs cleaned of
               Inl e \<Rightarrow> Inl (CanonicalFailed path e)
             | Inr resolved \<Rightarrow>
                 if isInsideRoots fs resolved roots then Inr resolved else Inl (OutsideRoots path))
      | Inl ENOENT \<Rightarrow>
          (let parent = Dir cleaned in
           case EvalSymlinks fs parent of
             Inl _ \<Rightarrow> existing_ancestor fs roots path cleaned (comps_of parent)
           | Inr parentResolved \<Rightarrow>
               if isInsideRoots fs parentResolved roots
               then Inr (Join [parentResolved, Base cleaned])
               else Inl (ParentOutside path parentResolved))
      | Inl e \<Rightarrow> Inl (StatFailed path e))"

section \<open>Evaluation\<close>

definition evaluate_read :: "file_system \<Rightarrow> RuntimePolicy \<Rightarrow> PermissionRequest \<Rightarrow> PermissionResult" where
  "evaluate_read fs p req =
     (if \<not> rp_AllowWorkspaceRead p then denied ''workspace read is disabled by policy'' (''read: '' @ pr_TargetPath req)
      else if pr_TargetPath req = [] then denied ''target path cannot be empty for read action'' ''read: <empty>''
      else case ValidatePathConfinement fs (pr_TargetPath req) (rp_AllowedRoots p) of
        Inl e \<Rightarrow>
          \<lparr>res_Decision = DecisionDeny, res_Reason = ConfinementViolation e,
           res_ActionSummary = ''read: '' @ pr_TargetPath req, res_CanonicalPath = []\<rparr>
      | Inr canonical \<Rightarrow>
          \<lparr>res_Decision = DecisionAllow, res_Reason = Reason ''read permitted within workspace root'',
           res_ActionSummary = ''read: '' @ canonical, res_CanonicalPath = canonical\<rparr>)"

definition evaluate_write :: "file_system \<Rightarrow> RuntimePolicy \<Rightarrow> PermissionRequest \<Rightarrow> PermissionResult" where
  "evaluate_write fs p req =
     (if \<not> rp_AllowWorkspaceWrite p
      then denied ''filesystem write denied by default runtime policy'' (''write: '' @ pr_TargetPath req)
      else if pr_TargetPath req = [] then denied ''target path cannot be empty for write action'' ''write: <empty>''
      else case ValidatePathConfinement fs (pr_TargetPath req) (rp_AllowedRoots p) of
        Inl e \<Rightarrow>
          \<lparr>res_Decision = DecisionDeny, res_Reason = ConfinementViolation e,
           res_ActionSummary = ''write: '' @ pr_TargetPath req, res_CanonicalPath = []\<rparr>
      | Inr canonical \<Rightarrow>
          needs_approval ''filesystem write requires Organization approval'' (''write: '' @ canonical) canonical)"

definition evaluate_shell :: "RuntimePolicy \<Rightarrow> PermissionRequest \<Rightarrow> PermissionResult" where
  "evaluate_shell p req =
     (let summary = ''shell: '' @ pr_Command req in
      if rp_AllowedCommands p = [] then denied ''shell execution denied by default runtime policy'' summary
      else case find (\<lambda>allowed. allowed = ''*'' \<or> pr_Command req = allowed \<or>
               has_prefix (pr_Command req) (allowed @ '' '')) (rp_AllowedCommands p) of
        Some allowed \<Rightarrow> needs_approval (''shell command requires Organization approval: '' @ allowed) summary []
      | None \<Rightarrow> denied ''shell command not in allowlisted command list'' summary)"

definition evaluate_mcp :: "RuntimePolicy \<Rightarrow> PermissionRequest \<Rightarrow> PermissionResult" where
  "evaluate_mcp p req =
     (let summary = ''mcp: '' @ pr_MCPServer req @ ''/'' @ pr_MCPTool req in
      if rp_AllowedMCPServers p = [] \<and> rp_AllowedMCPTools p = []
      then denied ''side-effecting MCP action denied by default runtime policy'' summary
      else if list_ex (\<lambda>s. s = ''*'' \<or> s = pr_MCPServer req) (rp_AllowedMCPServers p)
      then needs_approval (''MCP server requires Organization approval: '' @ pr_MCPServer req) summary []
      else if list_ex (\<lambda>t. t = ''*'' \<or> t = pr_MCPTool req) (rp_AllowedMCPTools p)
      then needs_approval (''MCP tool requires Organization approval: '' @ pr_MCPTool req) summary []
      else denied ''MCP server or tool not in allowlist'' summary)"

definition Evaluate :: "file_system \<Rightarrow> RuntimePolicy option \<Rightarrow> PermissionRequest \<Rightarrow> PermissionResult" where
  "Evaluate fs policy req =
     (case policy of
        None \<Rightarrow> denied ''no runtime policy configured; denying by default'' (action_string (pr_ActionKind req))
      | Some p \<Rightarrow>
          (case pr_ActionKind req of
             ActionRead \<Rightarrow> evaluate_read fs p req
           | ActionWrite \<Rightarrow> evaluate_write fs p req
           | ActionShell \<Rightarrow> evaluate_shell p req
           | ActionNetwork \<Rightarrow>
               if \<not> rp_AllowNetwork p
               then denied ''network access denied by default runtime policy'' (''network: '' @ pr_ToolName req)
               else needs_approval ''network access requires Organization approval'' (''network: '' @ pr_ToolName req) []
           | ActionSecret \<Rightarrow>
               if \<not> rp_AllowSecrets p
               then denied ''secret and credential access denied by default runtime policy'' (''secret: '' @ pr_ToolName req)
               else needs_approval ''secret access requires Organization approval'' (''secret: '' @ pr_ToolName req) []
           | ActionMCP \<Rightarrow> evaluate_mcp p req
           | _ \<Rightarrow>
               denied ''unclassified high-risk action denied by default runtime policy''
                 (action_string (pr_ActionKind req) @ '': '' @ pr_ToolName req)))"

section \<open>ACP requests\<close>

text \<open>The parts of an ACP permission request the policy reads.\<close>

datatype ToolKind =
    ToolKindRead | ToolKindEdit | ToolKindDelete | ToolKindMove | ToolKindSearch | ToolKindExecute
  | ToolKindThink | ToolKindFetch | ToolKindSwitchMode | ToolKindOther

datatype PermissionOptionKind = AllowOnce | AllowAlways | RejectOnce | RejectAlways | OtherOption string

datatype json_value = JString string | JObject "(string \<times> json_value) list" | JOther

record acp_request =
  ar_Kind :: "ToolKind option"
  ar_Title :: "string option"
  ar_RawInput :: "json_value option"
  ar_Options :: "(string \<times> PermissionOptionKind) list"

definition classify_kind :: "ToolKind option \<Rightarrow> ActionKind" where
  "classify_kind k =
     (case k of
        Some ToolKindRead \<Rightarrow> ActionRead
      | Some ToolKindEdit \<Rightarrow> ActionWrite
      | Some ToolKindExecute \<Rightarrow> ActionShell
      | _ \<Rightarrow> ActionUnclassified)"

definition classify_title :: "string \<Rightarrow> ActionKind" where
  "classify_title titleLower =
     (if string_contains titleLower ''read'' \<or> string_contains titleLower ''view'' then ActionRead
      else if string_contains titleLower ''write'' \<or> string_contains titleLower ''edit'' \<or>
        string_contains titleLower ''replace'' then ActionWrite
      else if string_contains titleLower ''bash'' \<or> string_contains titleLower ''shell'' \<or>
        string_contains titleLower ''exec'' \<or> string_contains titleLower ''command'' then ActionShell
      else if string_contains titleLower ''mcp'' then ActionMCP
      else ActionUnclassified)"

definition string_field :: "json_value option \<Rightarrow> string \<Rightarrow> string option" where
  "string_field raw key =
     (case raw of
        Some (JObject m) \<Rightarrow> (case map_of m key of Some (JString s) \<Rightarrow> Some s | _ \<Rightarrow> None)
      | _ \<Rightarrow> None)"

definition or_empty :: "string option \<Rightarrow> string" where
  "or_empty s = (case s of Some x \<Rightarrow> x | None \<Rightarrow> [])"

definition ClassifyACPRequest :: "acp_request \<Rightarrow> PermissionRequest" where
  "ClassifyACPRequest params =
     (let kind = classify_kind (ar_Kind params);
          title = or_empty (ar_Title params);
          field = string_field (ar_RawInput params)
      in \<lparr>pr_TenantID = [], pr_WorkID = [], pr_AgentID = [], pr_PeerAgentID = [],
          pr_ActionKind =
            (if title \<noteq> [] \<and> kind = ActionUnclassified then classify_title (to_lower title) else kind),
          pr_ToolName = title,
          pr_TargetPath = (case field ''path'' of Some p \<Rightarrow> p | None \<Rightarrow> or_empty (field ''file'')),
          pr_Command = or_empty (field ''command''),
          pr_MCPServer = or_empty (field ''server''),
          pr_MCPTool = or_empty (field ''tool''),
          pr_Description = []\<rparr>)"

record ApprovalCheckResult =
  ac_Decision :: PolicyDecision
  ac_Reason :: string

type_synonym 'w ApprovalChecker = "'w \<Rightarrow> PermissionRequest \<Rightarrow> (string, ApprovalCheckResult) result \<times> 'w"

text \<open>The verdict after the approval boundary was asked, if it had to be. The boundary may
  change its own state, the argument \<open>w\<close>.\<close>

definition ask_approval ::
  "'w ApprovalChecker option \<Rightarrow> 'w \<Rightarrow> PermissionRequest \<Rightarrow> PermissionResult \<Rightarrow> PolicyDecision \<times> policy_reason \<times> 'w" where
  "ask_approval checker w req result =
     (if res_Decision result \<noteq> DecisionApprovalRequired then (res_Decision result, res_Reason result, w)
      else case checker of
        None \<Rightarrow>
          (DecisionDeny, Reason ''Organization approval is required but no approval boundary is configured'', w)
      | Some check \<Rightarrow>
          (case check w req of
             (Inl err, w') \<Rightarrow> (DecisionDeny, ApprovalFailed err, w')
           | (Inr approval, w') \<Rightarrow>
               if ac_Decision approval \<noteq> DecisionAllow then
                 (DecisionDeny,
                  Reason (if ac_Reason approval \<noteq> [] then ac_Reason approval else ''Organization approval denied''), w')
               else (DecisionAllow, Reason (''Organization approval granted: '' @ ac_Reason approval), w')))"

definition is_allow :: "PermissionOptionKind \<Rightarrow> bool" where
  "is_allow k \<longleftrightarrow> k = AllowOnce \<or> k = AllowAlways"

definition is_reject :: "PermissionOptionKind \<Rightarrow> bool" where
  "is_reject k \<longleftrightarrow> k = RejectOnce \<or> k = RejectAlways"

definition choose_option ::
  "(string \<times> PermissionOptionKind) list \<Rightarrow> PolicyDecision \<Rightarrow> string \<times> PolicyDecision" where
  "choose_option options decision =
     (case (if decision = DecisionAllow then find (\<lambda>opt. is_allow (snd opt)) options else None) of
        Some opt \<Rightarrow> (fst opt, DecisionAllow)
      | None \<Rightarrow>
          (case find (\<lambda>opt. is_reject (snd opt)) options of
             Some opt \<Rightarrow> (fst opt, DecisionDeny)
           | None \<Rightarrow> (case options of [] \<Rightarrow> ([], decision) | opt # _ \<Rightarrow> (fst opt, decision))))"

definition EvaluateACPPermissionWithApproval ::
  "file_system \<Rightarrow> RuntimePolicy option \<Rightarrow> acp_request \<Rightarrow> 'w ApprovalChecker option \<Rightarrow> 'w \<Rightarrow>
   (string \<times> PolicyDecision \<times> policy_reason) \<times> 'w" where
  "EvaluateACPPermissionWithApproval fs policy params checker w =
     (let req = ClassifyACPRequest params in
      case ask_approval checker w req (Evaluate fs policy req) of
        (decision, reason, w') \<Rightarrow>
          (case choose_option (ar_Options params) decision of
             (optionId, decision') \<Rightarrow> ((optionId, decision', reason), w')))"

definition EvaluateACPPermission ::
  "file_system \<Rightarrow> RuntimePolicy option \<Rightarrow> acp_request \<Rightarrow> string \<times> PolicyDecision \<times> policy_reason" where
  "EvaluateACPPermission fs policy params =
     fst (EvaluateACPPermissionWithApproval fs policy params (None :: unit ApprovalChecker option) ())"

text \<open>\<open>RequestPermission\<close> of the executor: the policy is made of the profile, the answer
  selects the option whatever the decision was.\<close>

definition executor_policy :: "acp_files \<Rightarrow> string \<Rightarrow> RuntimePolicy" where
  "executor_policy e agentID =
     \<lparr>rp_TenantID = [], rp_AgentID = agentID, rp_AllowedRoots = allowedRoots e,
      rp_AllowWorkspaceRead = ReadTextFiles e, rp_AllowWorkspaceWrite = WriteTextFiles e, rp_AllowedCommands = [],
      rp_AllowNetwork = False, rp_AllowSecrets = False, rp_AllowedMCPServers = [], rp_AllowedMCPTools = []\<rparr>"

definition RequestPermission ::
  "acp_files \<Rightarrow> string \<Rightarrow> file_system \<Rightarrow> acp_request \<Rightarrow> 'w ApprovalChecker option \<Rightarrow> 'w \<Rightarrow> string \<times> 'w" where
  "RequestPermission e agentID fs params checker w =
     (case EvaluateACPPermissionWithApproval fs (Some (executor_policy e agentID)) params checker w of
        ((optID, decision, reason), w') \<Rightarrow> (optID, w'))"

section \<open>What the policy admits\<close>

definition canonical_root :: "file_system \<Rightarrow> string \<Rightarrow> string" where
  "canonical_root fs root = (case EvalSymlinks fs root of Inl _ \<Rightarrow> root | Inr r \<Rightarrow> r)"

definition within_roots :: "file_system \<Rightarrow> string list \<Rightarrow> location \<Rightarrow> bool" where
  "within_roots fs roots q \<longleftrightarrow>
     (\<exists>root. root \<in> set roots \<and> root \<noteq> [] \<and> IsAbs (canonical_root fs root) \<and>
        prefix (lexical (canonical_root fs root)) q)"

lemma isInsideRoots_within:
  assumes "isInsideRoots fs (render True q) roots" and "names q"
  shows "within_roots fs roots q"
proof -
  obtain root where root: "root \<in> set roots" "root \<noteq> []"
    "Clean (render True q) = Clean (canonical_root fs root) \<or>
     has_prefix (Clean (render True q)) (Clean (canonical_root fs root) @ [slash])"
    using assms(1) unfolding isInsideRoots_def list_ex_iff
    by (auto simp: Let_def canonical_root_def split: sum.splits) (metis (no_types, lifting) sum.exhaust sum.simps(5,6))+
  with inside_root [OF assms(2) root(3)] show ?thesis by (auto simp: within_roots_def)
qed

lemma within_roots_snoc: "within_roots fs roots q \<Longrightarrow> within_roots fs roots (q @ [d])"
  unfolding within_roots_def by auto

lemma ValidatePathConfinement_cases:
  assumes "ValidatePathConfinement fs path roots = Inr s"
  obtains (existing) "IsAbs path" "EvalSymlinks fs (Clean path) = Inr s" "isInsideRoots fs s roots"
    | (fresh) s' where "IsAbs path" "Lstat fs (Clean path) = Inl ENOENT" "EvalSymlinks fs (Dir (Clean path)) = Inr s'"
      "isInsideRoots fs s' roots" "s = Join [s', Base (Clean path)]"
    | (ancestor) e where "IsAbs path" "Lstat fs (Clean path) = Inl ENOENT" "EvalSymlinks fs (Dir (Clean path)) = Inl e"
  using assms
  by (auto simp: ValidatePathConfinement_def Let_def split: if_splits sum.splits fs_error.splits)

text \<open>A path that does not exist and whose parent does not resolve cannot be opened or made.\<close>

lemma unresolved_parent_fails:
  assumes "wf_names (fs_tree fs)" and "names cs" and "Lstat fs (render True cs) = Inl ENOENT"
    and "EvalSymlinks fs (Dir (render True cs)) = Inl e"
  shows "resolve fs True (render True cs) = Inl ENOENT"
proof (cases "resolve fs False (render True cs)")
  case (Inl e')
  then have "e' = ENOENT" using assms(3) by (simp add: Lstat_def existing_def)
  with Inl have "namei (fs_tree fs) False max_links [] cs = Inl ENOENT" and "nul_free cs"
    using assms(2) by (auto simp: resolve_render split: if_splits)
  then show ?thesis using namei_follow assms(2) by (simp add: resolve_render)
next
  case (Inr r)
  then obtain q where r: "resolve fs False (render True cs) = Inr (q, None)"
    using assms(3) by (cases r; cases "snd r") (auto simp: Lstat_def existing_def)
  then have nul: "nul_free cs" and walk: "namei (fs_tree fs) False max_links [] cs = Inr (q, None)"
    using assms(2) by (auto simp: resolve_render split: if_splits)
  from walk obtain ds d where cs: "cs = ds @ [d]" by (cases cs rule: rev_cases) auto
  obtain k where "namei (fs_tree fs) False max_links [] (ds @ [d]) =
      (case namei (fs_tree fs) True max_links [] ds of
        Inl e \<Rightarrow> Inl e | Inr (q, Some Directory) \<Rightarrow> namei (fs_tree fs) False k q [d]
      | Inr (q, Some _) \<Rightarrow> Inl ENOTDIR | Inr (q, None) \<Rightarrow> Inl ENOENT)"
    using namei_snoc by blast
  with walk obtain p where "namei (fs_tree fs) True max_links [] ds = Inr (p, Some Directory)"
    unfolding cs by (auto split: sum.splits option.splits inode.splits)
  then have "resolve fs True (render True ds) = Inr (p, Some Directory)"
    using nul assms(2) cs by (simp add: resolve_render)
  then have "\<exists>s. EvalSymlinks fs (render True ds) = Inr s"
    using EvalSymlinks_complete assms(1) IsAbs_render by blast
  with assms(2,4) show ?thesis by (simp add: Dir_render cs)
qed

lemma confined_location:
  assumes "wf_names (fs_tree fs)" and "ValidatePathConfinement fs path roots = Inr s"
    and "resolve fs True (Clean path) = Inr (q, i)"
  shows "within_roots fs roots q"
  using assms(2)
proof (cases rule: ValidatePathConfinement_cases)
  case existing
  have "IsAbs (Clean path)" using existing(1) by simp
  from EvalSymlinks_location [OF existing(2) this] obtain q' j where
    "s = render True q'" "names q'" "resolve fs True (Clean path) = Inr (q', Some j) \<or>
      resolve fs True (Clean path) = Inl ELOOP \<or> resolve fs True (Clean path) = Inl EINVAL"
    by metis
  with existing(3) assms(3) show ?thesis using isInsideRoots_within by auto
next
  case (fresh s')
  have p: "Clean path = render True (lexical path)" using fresh(1) by (rule Clean_abs)
  obtain r d where "s' = render True r" "target fs r" "resolve fs True (Clean path) = Inr (r @ [d], None)"
    using target_fresh [OF fresh(2) [unfolded p] names_lexical fresh(3) [unfolded p]] p by metis
  with fresh(4) assms(3) show ?thesis
    using isInsideRoots_within within_roots_snoc by (auto simp: target_def)
next
  case (ancestor e)
  have p: "Clean path = render True (lexical path)" using ancestor(1) by (rule Clean_abs)
  with unresolved_parent_fails [OF assms(1) names_lexical] ancestor(2,3) assms(3) show ?thesis by simp
qed

text \<open>A path without \<open>..\<close> and its cleaned form open the same location.\<close>

lemma foldl_clean_dots:
  "''..'' \<notin> set cs \<Longrightarrow> foldl (clean_step b) st cs = st @ filter (\<lambda>c. c \<noteq> ''.'') cs"
  by (induction cs arbitrary: st) (auto simp: clean_step_def)

lemma resolve_Clean:
  assumes "resolve fs True path = Inr (q, i)" and "IsAbs path" and "''..'' \<notin> set (comps_of path)"
  shows "resolve fs True (Clean path) = Inr (q, i)"
proof -
  have lex: "lexical path = filter (\<lambda>c. c \<noteq> ''.'') (comps_of path)"
    using assms(3) by (simp add: lexical_def foldl_clean_dots)
  have "CHR 0x00 \<notin> set path" and walk: "namei (fs_tree fs) True max_links [] (comps_of path) = Inr (q, i)"
    using assms(1,2) by (auto simp: resolve_def split: if_splits)
  then have "nul_free (filter (\<lambda>c. c \<noteq> ''.'') (comps_of path))"
    using nul_free_comps [of path] by (auto simp: nul_free_def list_all_iff)
  then have "resolve fs True (render True (lexical path)) = Inr (q, i)"
    unfolding resolve_render [OF names_lexical] unfolding lex by (simp add: namei_dots [OF walk])
  with assms(2) show ?thesis by (simp add: Clean_abs)
qed

section \<open>Properties\<close>

text \<open>C10: What the policy does not deny stays inside: when a read or a write of a path without
  \<open>..\<close> is allowed, or may be approved, the location the kernel opens under that path, an
  existing file or one about to be made, lies at or below an allowed root.\<close>

theorem permitted_path_confined:
  assumes "wf_names (fs_tree fs)" and "res_Decision (Evaluate fs (Some p) req) \<noteq> DecisionDeny"
    and "pr_ActionKind req = ActionRead \<or> pr_ActionKind req = ActionWrite"
    and "''..'' \<notin> set (comps_of (pr_TargetPath req))"
    and "resolve fs True (pr_TargetPath req) = Inr (q, i)"
  shows "within_roots fs (rp_AllowedRoots p) q"
proof -
  obtain c where c: "ValidatePathConfinement fs (pr_TargetPath req) (rp_AllowedRoots p) = Inr c"
    using assms(2,3) by (cases "ValidatePathConfinement fs (pr_TargetPath req) (rp_AllowedRoots p)")
      (auto simp: Evaluate_def evaluate_read_def evaluate_write_def split: if_splits)
  then have "IsAbs (pr_TargetPath req)" by (rule ValidatePathConfinement_cases)
  then show ?thesis using confined_location [OF assms(1) c resolve_Clean [OF assms(5) _ assms(4)]] by blast
qed

definition read_request :: "string \<Rightarrow> acp_request" where
  "read_request path =
     \<lparr>ar_Kind = Some ToolKindRead, ar_Title = Some ''Read'', ar_RawInput = Some (JObject [(''path'', JString path)]),
      ar_Options = [(''yes'', AllowOnce), (''no'', RejectOnce)]\<rparr>"

abbreviation sample_policy :: RuntimePolicy where
  "sample_policy \<equiv> DefaultRuntimePolicy ''agent'' [''/ws'']"

theorem permitted_path_confined_witness:
  "resolve sample_fs True ''/ws/./a'' = Inr ([''ws'', ''a''], Some (Regular ''hi'')) \<and>
   within_roots sample_fs (rp_AllowedRoots sample_policy) [''ws'', ''a'']"
proof
  show r: "resolve sample_fs True ''/ws/./a'' = Inr ([''ws'', ''a''], Some (Regular ''hi''))" by code_simp
  show "within_roots sample_fs (rp_AllowedRoots sample_policy) [''ws'', ''a'']"
  proof (rule permitted_path_confined [where req = "ClassifyACPRequest (read_request ''/ws/./a'')"])
    show "wf_names (fs_tree sample_fs)" by code_simp
    show "res_Decision (Evaluate sample_fs (Some sample_policy) (ClassifyACPRequest (read_request ''/ws/./a''))) \<noteq> DecisionDeny"
      by code_simp
    show "pr_ActionKind (ClassifyACPRequest (read_request ''/ws/./a'')) = ActionRead \<or>
      pr_ActionKind (ClassifyACPRequest (read_request ''/ws/./a'')) = ActionWrite" by code_simp
    show "''..'' \<notin> set (comps_of (pr_TargetPath (ClassifyACPRequest (read_request ''/ws/./a''))))" by code_simp
    show "resolve sample_fs True (pr_TargetPath (ClassifyACPRequest (read_request ''/ws/./a''))) =
      Inr ([''ws'', ''a''], Some (Regular ''hi''))" by code_simp
  qed
qed

text \<open>With \<open>..\<close> the confinement is lost: the policy judges the cleaned path, the kernel
  resolves \<open>..\<close> after the link before it. A link of the workspace to a directory outside
  lets the path \<open>/ws/out/../key\<close> pass as a file of the workspace, and the read it allows
  returns the file next to the link's target.\<close>

theorem dotdot_after_link_escapes:
  "\<exists>req. res_Decision (Evaluate sample_fs (Some sample_policy) req) = DecisionAllow \<and>
     pr_ActionKind req = ActionRead \<and>
     resolve sample_fs True (pr_TargetPath req) = Inr ([''etc'', ''key''], Some (Regular ''secret'')) \<and>
     ReadFile sample_fs (pr_TargetPath req) = Inr ''secret''"
  by (rule exI [of _ "ClassifyACPRequest (read_request ''/ws/out/../key'')"]) code_simp


lemma choose_option_allow:
  "choose_option options decision = (optionId, DecisionAllow) \<Longrightarrow> decision = DecisionAllow"
  by (auto simp: choose_option_def split: option.splits list.splits if_splits)

lemma choose_option_id:
  "choose_option options decision = (optionId, d) \<Longrightarrow> options \<noteq> [] \<Longrightarrow> \<exists>k. (optionId, k) \<in> set options"
  by (auto simp: choose_option_def find_Some_iff split: option.splits list.splits if_splits)
    (metis nth_mem prod.collapse)+

lemma ask_approval_allow:
  assumes "ask_approval checker w req result = (DecisionAllow, reason, w')"
  shows "res_Decision result = DecisionAllow \<or>
    res_Decision result = DecisionApprovalRequired \<and>
    (\<exists>check a. checker = Some check \<and> check w req = (Inr a, w') \<and> ac_Decision a = DecisionAllow)"
  using assms by (auto simp: ask_approval_def split: if_splits option.splits prod.splits sum.splits)

lemma Evaluate_allow:
  assumes "res_Decision (Evaluate fs policy req) = DecisionAllow"
  shows "\<exists>p c. policy = Some p \<and> pr_ActionKind req = ActionRead \<and> rp_AllowWorkspaceRead p \<and>
    ValidatePathConfinement fs (pr_TargetPath req) (rp_AllowedRoots p) = Inr c"
  using assms
  by (auto simp: Evaluate_def evaluate_read_def evaluate_write_def evaluate_shell_def evaluate_mcp_def Let_def
      split: option.splits ActionKind.splits if_splits sum.splits)

text \<open>An answer that reports \<open>ALLOWED\<close> has one of two grounds: the policy permits reading and
  the path is confined, or the policy asks for an approval and the approval boundary
  granted this very request.\<close>

lemma allowed_by_policy_or_approval:
  assumes "EvaluateACPPermissionWithApproval fs policy params checker w = ((optionId, DecisionAllow, reason), w')"
  shows "(\<exists>p c. policy = Some p \<and> pr_ActionKind (ClassifyACPRequest params) = ActionRead \<and> rp_AllowWorkspaceRead p \<and>
      ValidatePathConfinement fs (pr_TargetPath (ClassifyACPRequest params)) (rp_AllowedRoots p) = Inr c) \<or>
    (\<exists>check a. res_Decision (Evaluate fs policy (ClassifyACPRequest params)) = DecisionApprovalRequired \<and>
      checker = Some check \<and> check w (ClassifyACPRequest params) = (Inr a, w') \<and> ac_Decision a = DecisionAllow)"
proof -
  let ?req = "ClassifyACPRequest params"
  obtain d r w1 where ask: "ask_approval checker w ?req (Evaluate fs policy ?req) = (d, r, w1)"
    by (metis prod_cases3)
  obtain o' d' where opt: "choose_option (ar_Options params) d = (o', d')" by fastforce
  from assms have "d' = DecisionAllow" and "w1 = w'"
    by (simp_all add: EvaluateACPPermissionWithApproval_def Let_def ask opt)
  with opt choose_option_allow have "d = DecisionAllow" by blast
  with ask ask_approval_allow \<open>w1 = w'\<close> Evaluate_allow show ?thesis by metis
qed

lemma executor_denies:
  assumes "pr_ActionKind req \<noteq> ActionRead" and "pr_ActionKind req \<noteq> ActionWrite"
  shows "res_Decision (Evaluate fs (Some (executor_policy e agentID)) req) = DecisionDeny"
  using assms
  by (cases "pr_ActionKind req") (simp_all add: Evaluate_def evaluate_shell_def evaluate_mcp_def executor_policy_def Let_def)

text \<open>A denial is not always an answer that denies: when the agent offers no option that
  rejects, the first option is selected whatever it means, and the executor passes it on.
  If all options allow, a denied request is answered with an option that allows it.\<close>

theorem denied_request_selects_allow:
  assumes "ar_Options params = (optionId, k) # rest" and "list_all (\<lambda>opt. is_allow (snd opt)) (ar_Options params)"
    and "pr_ActionKind (ClassifyACPRequest params) = ActionShell"
  shows "is_allow k \<and> RequestPermission e agentID fs params checker w = (optionId, w) \<and>
    (\<exists>reason. EvaluateACPPermissionWithApproval fs (Some (executor_policy e agentID)) params checker w =
      ((optionId, DecisionDeny, reason), w))"
proof -
  have "find (\<lambda>opt. is_reject (snd opt)) (ar_Options params) = None"
    using assms(2) by (auto simp: find_None_iff list_all_iff is_allow_def is_reject_def)
  moreover have "res_Decision (Evaluate fs (Some (executor_policy e agentID)) (ClassifyACPRequest params)) = DecisionDeny"
    using assms(3) by (intro executor_denies) simp_all
  ultimately obtain reason where "EvaluateACPPermissionWithApproval fs (Some (executor_policy e agentID)) params checker w =
      ((optionId, DecisionDeny, reason), w)"
    using assms(1) by (simp add: EvaluateACPPermissionWithApproval_def Let_def ask_approval_def choose_option_def)
  with assms(1,2) show ?thesis by (simp add: RequestPermission_def)
qed

definition shell_request :: acp_request where
  "shell_request =
     \<lparr>ar_Kind = Some ToolKindExecute, ar_Title = Some ''rm'', ar_RawInput = Some (JObject [(''command'', JString ''rm -rf /'')]),
      ar_Options = [(''always'', AllowAlways)]\<rparr>"

theorem denied_request_selects_allow_witness:
  "is_allow AllowAlways \<and>
   RequestPermission sample_acp ''agent'' sample_fs shell_request (None :: unit ApprovalChecker option) () = (''always'', ()) \<and>
   (\<exists>reason. EvaluateACPPermissionWithApproval sample_fs (Some (executor_policy sample_acp ''agent'')) shell_request
     (None :: unit ApprovalChecker option) () = ((''always'', DecisionDeny, reason), ()))"
  by (rule denied_request_selects_allow [where rest = "[]"]) code_simp+

end
