(* ===== verification/Approval_Checker.thy ===== *)
theory Approval_Checker
  imports Approval_Store Runtime_Policy
begin

text \<open>
  The approval boundary of the runtime policy: \<open>WaitForDecision\<close> of
  \<open>backend/manager/store/approval_wait.go\<close> and \<open>NewChecker\<close> of
  \<open>backend/manager/component/approval/checker.go\<close>. The checker is the \<open>ApprovalChecker\<close> of
  theory \<open>Runtime_Policy\<close>, over the store with calls in flight of theory
  \<open>Approval_Store\<close>. What other callers do between two polls is part of the checker's
  world, one list of operations per tick of the poll timer; the context is cancelled when
  the lists end.
\<close>

section \<open>Waiting for a decision\<close>

record ApprovalBinding =
  bind_OrganizationID :: string
  bind_WorkspaceID :: string
  bind_RequesterPrincipal :: string
  bind_ExecutingAgentID :: string
  bind_ExecutingAgentOwner :: string
  bind_PolicyName :: string
  bind_PolicyVersion :: string
  bind_RequiredApprovals :: nat
  bind_Timeout :: duration

definition ApprovalRequestName :: "(string \<Rightarrow> string) \<Rightarrow> ApprovalBinding \<Rightarrow> string \<Rightarrow> string" where
  "ApprovalRequestName sha b intentHash =
     ''organizations/'' @ bind_OrganizationID b @ ''/approvalRequests/'' @
     hex_encode (sha (bind_OrganizationID b @ [CHR 0x00] @ bind_RequesterPrincipal b @ [CHR 0x00] @
       bind_PolicyName b @ [CHR 0x00] @ intentHash))"

datatype ApprovalWaitDecision = ApprovalWaitAllow | ApprovalWaitDeny

record ApprovalWaitResult =
  wait_Decision :: ApprovalWaitDecision
  wait_Reason :: string
  wait_Error :: "approval_error option"

abbreviation wait_deny :: "string \<Rightarrow> approval_error option \<Rightarrow> ApprovalWaitResult" where
  "wait_deny reason err \<equiv> \<lparr>wait_Decision = ApprovalWaitDeny, wait_Reason = reason, wait_Error = err\<rparr>"

text \<open>One poll; \<open>None\<close> means that the loop goes on.\<close>

definition poll_decision :: "approval_db \<Rightarrow> string \<Rightarrow> string \<Rightarrow> string \<Rightarrow> ApprovalWaitResult option" where
  "poll_decision db org name intentHash =
     (case GetRequest db org name of
        Inl e \<Rightarrow> Some (wait_deny ''approval request could not be read'' (Some e))
      | Inr r \<Rightarrow>
          (case req_Action r of
             None \<Rightarrow> Some (wait_deny ''approval intent changed'' (Some IntentChanged))
           | Some a \<Rightarrow>
               if ba_IntentHash a \<noteq> intentHash then Some (wait_deny ''approval intent changed'' (Some IntentChanged))
               else if req_State r = StateApproved
               then Some \<lparr>wait_Decision = ApprovalWaitAllow, wait_Reason = ''durable approval quorum reached'',
                          wait_Error = None\<rparr>
               else if req_State r = StateDenied \<or> req_State r = StateExpired \<or> req_State r = StateCancelled \<or>
                 req_State r = StateSuperseded \<or> req_State r = StateExecuted
               then Some (wait_deny
                 (if req_TerminalReason r = [] then ''approval did not authorize the action'' else req_TerminalReason r) None)
               else None))"

record checker_world =
  cw_sys :: approval_sys
  cw_rounds :: "approval_op list list"
  cw_clock :: instant
  cw_rnd :: "string option"

fun wait_loop ::
  "(string \<Rightarrow> string) \<Rightarrow> (string \<Rightarrow> (string, string) result) \<Rightarrow> string \<Rightarrow> string \<Rightarrow> string \<Rightarrow> approval_sys \<Rightarrow>
   approval_op list list \<Rightarrow> ApprovalWaitResult \<times> approval_sys \<times> approval_op list list" where
  "wait_loop sha canon org name intentHash s [] =
     (case poll_decision (sys_db s) org name intentHash of
        Some r \<Rightarrow> (r, s, [])
      | None \<Rightarrow> (wait_deny ''approval wait cancelled'' (Some WaitCancelled), s, []))"
| "wait_loop sha canon org name intentHash s (ops # rounds) =
     (case poll_decision (sys_db s) org name intentHash of
        Some r \<Rightarrow> (r, s, ops # rounds)
      | None \<Rightarrow> wait_loop sha canon org name intentHash (foldl (approval_step sha canon) s ops) rounds)"

definition WaitForDecision ::
  "(string \<Rightarrow> string) \<Rightarrow> (string \<Rightarrow> (string, string) result) \<Rightarrow> string \<Rightarrow> string \<Rightarrow> string \<Rightarrow> approval_sys \<Rightarrow>
   approval_op list list \<Rightarrow> ApprovalWaitResult \<times> approval_sys \<times> approval_op list list" where
  "WaitForDecision sha canon org name intentHash s rounds =
     (if \<not> adb_open (sys_db s) then (wait_deny ''approval store is not configured'' (Some StoreNotConfigured), s, rounds)
      else if org = [] \<or> name = [] \<or> intentHash = []
      then (wait_deny ''approval wait identity is incomplete'' (Some WaitIdentityIncomplete), s, rounds)
      else wait_loop sha canon org name intentHash s rounds)"

section \<open>The checker\<close>

definition checker_parameters :: "PermissionRequest \<Rightarrow> string" where
  "checker_parameters p =
     json_object
       [(''action_kind'', json_string (action_string (pr_ActionKind p))), (''command'', json_string (pr_Command p)),
        (''mcp_server'', json_string (pr_MCPServer p)), (''mcp_tool'', json_string (pr_MCPTool p)),
        (''target_path'', json_string (pr_TargetPath p))]"

definition checker_action :: "ApprovalBinding \<Rightarrow> PermissionRequest \<Rightarrow> BoundAction" where
  "checker_action b p =
     \<lparr>ba_OrganizationId = bind_OrganizationID b, ba_WorkspaceId = bind_WorkspaceID b, ba_ResourceName = pr_TargetPath p,
      ba_AgentId = bind_ExecutingAgentID b, ba_Skill = [], ba_ActionType = action_string (pr_ActionKind p),
      ba_Destination = pr_ToolName p, ba_RiskLevel = 0, ba_NormalizedParameters = None,
      ba_NormalizedParametersJson = checker_parameters p, ba_TaskId = pr_WorkID p, ba_CommandId = [], ba_IntentHash = []\<rparr>"

definition checker_request ::
  "(string \<Rightarrow> string) \<Rightarrow> ApprovalBinding \<Rightarrow> instant \<Rightarrow> BoundAction \<Rightarrow> string \<Rightarrow> ApprovalRequest" where
  "checker_request sha b clock action intentHash =
     \<lparr>req_Name = ApprovalRequestName sha b intentHash, req_OrganizationId = bind_OrganizationID b,
      req_WorkspaceId = bind_WorkspaceID b, req_PolicyName = bind_PolicyName b, req_PolicyVersion = bind_PolicyVersion b,
      req_RequesterPrincipalId = bind_RequesterPrincipal b, req_ExecutingAgentId = bind_ExecutingAgentID b,
      req_ExecutingAgentOwnerId = bind_ExecutingAgentOwner b, req_Action = Some (action\<lparr>ba_IntentHash := intentHash\<rparr>),
      req_State = StateUnspecified, req_RequiredApprovals = bind_RequiredApprovals b, req_ApprovalCount = 0,
      req_ExecutionNonce = [],
      req_ExpiresAt = Some (clock + (if bind_Timeout b \<le> 0 then 300 * second else bind_Timeout b)),
      req_CompletedAt = None, req_TerminalReason = []\<rparr>"

text \<open>The call that is to mark the request as executed. It has no policy.\<close>

definition execute_call :: "ApprovalBinding \<Rightarrow> string \<Rightarrow> instant \<Rightarrow> approval_call" where
  "execute_call b name clock =
     \<lparr>call_policy = None, call_org = bind_OrganizationID b, call_name = name, call_actor = bind_ExecutingAgentID b,
      call_reason = ''approved action executed'', call_eligible = [], call_transition = TransitionExecute, call_now = clock\<rparr>"

text \<open>The texts of the errors the caller of the checker may see; a driver's own text is left out.\<close>

definition approval_message :: "approval_error \<Rightarrow> string" where
  "approval_message e =
     (case e of
        StoreNotConfigured \<Rightarrow> ''approval store is not configured''
      | BindingIncomplete \<Rightarrow> ''approval binding is incomplete''
      | WaitIdentityIncomplete \<Rightarrow> ''approval wait identity is incomplete''
      | IntentChanged \<Rightarrow> ''approval intent changed''
      | RequestIdentityRequired \<Rightarrow> ''approval request identity, policy, requester, and action are required''
      | ExpiryMustBeFuture \<Rightarrow> ''approval request expiry must be in the future''
      | RequestIntentMismatch \<Rightarrow> ''approval request action intent hash or organization does not match''
      | ApprovalDatabaseRequired \<Rightarrow> ''approval store database is required''
      | ParametersNotJson t \<Rightarrow> ''normalized approval parameters must be valid JSON: '' @ t
      | WaitCancelled \<Rightarrow> ''context canceled''
      | _ \<Rightarrow> ''create approval request'')"

definition wait_and_execute ::
  "(string \<Rightarrow> string) \<Rightarrow> (string \<Rightarrow> (string, string) result) \<Rightarrow> ApprovalBinding \<Rightarrow> string \<Rightarrow> string \<Rightarrow> checker_world \<Rightarrow>
   (string, ApprovalCheckResult) result \<times> checker_world" where
  "wait_and_execute sha canon b name intentHash w =
     (case WaitForDecision sha canon (bind_OrganizationID b) name intentHash (cw_sys w) (cw_rounds w) of
        (result, s, rounds) \<Rightarrow>
          (let w1 = w\<lparr>cw_sys := s, cw_rounds := rounds\<rparr> in
           case wait_Error result of
             Some e \<Rightarrow> (Inl (approval_message e), w1)
           | None \<Rightarrow>
               if wait_Decision result = ApprovalWaitAllow then
                 (Inr \<lparr>ac_Decision = DecisionAllow, ac_Reason = wait_Reason result\<rparr>,
                  w1\<lparr>cw_sys := s\<lparr>sys_db :=
                    snd (ApplyTransition sha (sys_db s) (execute_call b name (cw_clock w)) (cw_clock w))\<rparr>\<rparr>)
               else (Inr \<lparr>ac_Decision = DecisionDeny, ac_Reason = wait_Reason result\<rparr>, w1)))"

definition binding_complete :: "ApprovalBinding \<Rightarrow> bool" where
  "binding_complete b \<longleftrightarrow>
     bind_OrganizationID b \<noteq> [] \<and> bind_RequesterPrincipal b \<noteq> [] \<and> bind_PolicyName b \<noteq> [] \<and> bind_PolicyVersion b \<noteq> []"

definition NewChecker ::
  "(string \<Rightarrow> string) \<Rightarrow> (string \<Rightarrow> (string, string) result) \<Rightarrow> bool \<Rightarrow> ApprovalBinding \<Rightarrow> checker_world ApprovalChecker" where
  "NewChecker sha canon store_set b w permission =
     (if \<not> store_set then (Inl (approval_message StoreNotConfigured), w)
      else if \<not> binding_complete b then (Inl (approval_message BindingIncomplete), w)
      else
        let action = checker_action b permission in
        case ApprovalIntentHash sha canon action of
          Inl e \<Rightarrow> (Inl (approval_message e), w)
        | Inr intentHash \<Rightarrow>
            (let request = checker_request sha b (cw_clock w) action intentHash in
             case CreateRequest sha canon (sys_db (cw_sys w)) (cw_clock w) (cw_rnd w) (Some request) of
               (Inl e, db) \<Rightarrow> (Inl (approval_message e), w\<lparr>cw_sys := (cw_sys w)\<lparr>sys_db := db\<rparr>\<rparr>)
             | (Inr _, db) \<Rightarrow>
                 wait_and_execute sha canon b (req_Name request) intentHash (w\<lparr>cw_sys := (cw_sys w)\<lparr>sys_db := db\<rparr>\<rparr>)))"

section \<open>What an allowed request has behind it\<close>

text \<open>Without a policy no transition is accepted: the request is not marked as executed.\<close>

lemma execute_call_refused: "snd (ApplyTransition sha db (execute_call b name clock) clock) = db"
  by (auto simp: ApplyTransition_def finish_transition_def execute_call_def ApplyApprovalTransition_def split: sum.split)

lemma poll_allow:
  assumes "poll_decision db org name intentHash = Some r" and "wait_Decision r = ApprovalWaitAllow"
  shows "\<exists>row. GetRequest db org name = Inr row \<and> req_State row = StateApproved \<and> intent_of row = intentHash \<and>
    req_Action row \<noteq> None"
  using assms by (auto simp: poll_decision_def intent_of_def split: sum.splits option.splits if_splits)

lemma wait_loop_allow:
  assumes "wait_loop sha canon org name intentHash s rounds = (r, s', rounds')" and "wait_Decision r = ApprovalWaitAllow"
  shows "\<exists>row ops. GetRequest (sys_db s') org name = Inr row \<and> req_State row = StateApproved \<and> intent_of row = intentHash \<and>
    req_Action row \<noteq> None \<and> s' = foldl (approval_step sha canon) s ops \<and> (\<exists>k. ops = concat (take k rounds))"
  using assms
proof (induction rounds arbitrary: s)
  case Nil
  then have "poll_decision (sys_db s) org name intentHash = Some r" "s' = s" by (auto split: option.splits)
  then show ?case using poll_allow [of "sys_db s"] Nil.prems(2) by auto
next
  case (Cons ops rounds)
  show ?case
  proof (cases "poll_decision (sys_db s) org name intentHash")
    case None
    with Cons.prems have "wait_loop sha canon org name intentHash (foldl (approval_step sha canon) s ops) rounds = (r, s', rounds')"
      by simp
    from Cons.IH [OF this Cons.prems(2)] obtain row ops' where
      "GetRequest (sys_db s') org name = Inr row" "req_State row = StateApproved" "intent_of row = intentHash"
      "req_Action row \<noteq> None" "s' = foldl (approval_step sha canon) s (ops @ ops')" and ops': "\<exists>k. ops' = concat (take k rounds)"
      by auto
    moreover from ops' obtain k where "ops @ ops' = concat (take (Suc k) (ops # rounds))" by auto
    ultimately show ?thesis by blast
  next
    case (Some x)
    with Cons.prems have "x = r" "s' = s" by auto
    moreover have "s = foldl (approval_step sha canon) s [] \<and> [] = concat (take 0 (ops # rounds))" by simp
    ultimately show ?thesis using poll_allow [OF Some] Cons.prems(2) by blast
  qed
qed

lemma NewChecker_allow:
  assumes "NewChecker sha canon store_set b w permission = (Inr a, w')" and "ac_Decision a = DecisionAllow"
  obtains hash row ops where "store_set" "binding_complete b"
    "ApprovalIntentHash sha canon (checker_action b permission) = Inr hash" "hash \<noteq> []"
    "GetRequest (sys_db (cw_sys w')) (bind_OrganizationID b) (ApprovalRequestName sha b hash) = Inr row"
    "req_State row = StateApproved" "intent_of row = hash" "req_Action row \<noteq> None"
    "cw_sys w' = foldl (approval_step sha canon) (cw_sys w)
      (OpRequest (cw_clock w) (cw_rnd w) (Some (checker_request sha b (cw_clock w) (checker_action b permission) hash)) # ops)"
    "\<exists>k. ops = concat (take k (cw_rounds w))"
    "\<exists>x. fst (CreateRequest sha canon (sys_db (cw_sys w)) (cw_clock w) (cw_rnd w)
      (Some (checker_request sha b (cw_clock w) (checker_action b permission) hash))) = Inr x"
proof -
  have set: "store_set" "binding_complete b" using assms by (auto simp: NewChecker_def split: if_splits)
  obtain hash where hash: "ApprovalIntentHash sha canon (checker_action b permission) = Inr hash"
    using assms set by (cases "ApprovalIntentHash sha canon (checker_action b permission)") (auto simp: NewChecker_def)
  let ?req = "checker_request sha b (cw_clock w) (checker_action b permission) hash"
  obtain c db where create: "CreateRequest sha canon (sys_db (cw_sys w)) (cw_clock w) (cw_rnd w) (Some ?req) = (c, db)"
    by fastforce
  then obtain x where x: "c = Inr x"
    using assms set hash by (cases c) (auto simp: NewChecker_def Let_def)
  let ?s = "(cw_sys w)\<lparr>sys_db := db\<rparr>"
  let ?name = "ApprovalRequestName sha b hash"
  have name: "req_Name ?req = ?name" by (simp add: checker_request_def)
  have wait: "wait_and_execute sha canon b ?name hash (w\<lparr>cw_sys := ?s\<rparr>) = (Inr a, w')"
    using assms(1) set hash create x name by (simp add: NewChecker_def Let_def)
  obtain res s' rounds' where res:
    "WaitForDecision sha canon (bind_OrganizationID b) ?name hash ?s (cw_rounds w) = (res, s', rounds')"
    by (metis prod_cases3)
  have allow: "wait_Decision res = ApprovalWaitAllow" and w': "cw_sys w' = s'"
    using wait assms(2) res
    by (auto simp: wait_and_execute_def execute_call_refused Let_def split: option.splits if_splits)
  have ne: "hash \<noteq> []" and "wait_loop sha canon (bind_OrganizationID b) ?name hash ?s (cw_rounds w) = (res, s', rounds')"
    using res allow by (auto simp: WaitForDecision_def split: if_splits)
  then obtain row ops where row: "GetRequest (sys_db s') (bind_OrganizationID b) ?name = Inr row" "req_State row = StateApproved"
      "intent_of row = hash" "req_Action row \<noteq> None" and s': "s' = foldl (approval_step sha canon) ?s ops" "\<exists>k. ops = concat (take k (cw_rounds w))"
    using wait_loop_allow allow by blast
  have "approval_step sha canon (cw_sys w) (OpRequest (cw_clock w) (cw_rnd w) (Some ?req)) = ?s"
    by (simp add: approval_step_def create)
  with s' have "cw_sys w' = foldl (approval_step sha canon) (cw_sys w) (OpRequest (cw_clock w) (cw_rnd w) (Some ?req) # ops)"
    by (simp add: w')
  with set hash ne row s'(2) create x w' show thesis by (intro that [of hash row ops]) auto
qed

section \<open>Properties\<close>

text \<open>What the store ran until the answer: the history before, the checker's own request, and some
  rounds of the other callers.\<close>

lemma created_open_take:
  "created_open (concat rounds) key \<Longrightarrow> created_open (concat (take k rounds)) key"
  by (metis append_take_drop_id concat_append created_open_append)

lemma in_turn_append: "in_turn xs \<Longrightarrow> in_turn ys \<Longrightarrow> in_turn (xs @ ys)"
  unfolding in_turn_def by (metis concat_append map_append)

lemma in_turn_rounds: "list_all in_turn rounds \<Longrightarrow> in_turn (concat (take k rounds))"
proof (induction rounds arbitrary: k)
  case Nil
  show ?case unfolding in_turn_def by (intro exI [of _ "[]"]) simp
next
  case (Cons ops rounds)
  show ?case
  proof (cases k)
    case 0
    then show ?thesis unfolding in_turn_def by (intro exI [of _ "[]"]) simp
  qed (use Cons in \<open>simp add: in_turn_append\<close>)
qed

text \<open>C7: From the agent's request to the approvers: when the policy's answer with the durable
  checker as its boundary is \<open>ALLOWED\<close>, the request is a read of a confined path, or the
  store holds an approved request under exactly the name and the intent of this action. If
  no call created a request of that name in another state than pending, it has approving
  decisions for its intent under at least the required number of different approver ids,
  and these are that many persons if the transitions did not overlap and no decision was
  written past them. This holds whatever other callers did before and while the answer was
  awaited.\<close>

theorem allowed_action_has_quorum:
  assumes "starts_empty s0" and "cw_sys w = foldl (approval_step sha canon) s0 ops0"
    and "EvaluateACPPermissionWithApproval fs policy params (Some (NewChecker sha canon store_set b)) w =
      ((optionId, DecisionAllow, reason), w')"
  shows "(\<exists>p c. policy = Some p \<and> pr_ActionKind (ClassifyACPRequest params) = ActionRead \<and> rp_AllowWorkspaceRead p \<and>
      ValidatePathConfinement fs (pr_TargetPath (ClassifyACPRequest params)) (rp_AllowedRoots p) = Inr c) \<or>
    (\<exists>hash r. ApprovalIntentHash sha canon (checker_action b (ClassifyACPRequest params)) = Inr hash \<and>
      r \<in> set (adb_requests (sys_db (cw_sys w'))) \<and> req_State r = StateApproved \<and> intent_of r = hash \<and>
      request_key r = (bind_OrganizationID b, ApprovalRequestName sha b hash) \<and>
      (created_open (ops0 @ concat (cw_rounds w)) (request_key r) \<longrightarrow>
        req_RequiredApprovals r \<le> card (approvers_of (sys_db (cw_sys w')) r) \<and>
        (in_turn ops0 \<and> list_all in_turn (cw_rounds w) \<longrightarrow>
          req_RequiredApprovals r \<le> card (normalizeApprovalPrincipal ` approvers_of (sys_db (cw_sys w')) r))))"
  using allowed_by_policy_or_approval [OF assms(3)]
proof
  assume "\<exists>check a. res_Decision (Evaluate fs policy (ClassifyACPRequest params)) = DecisionApprovalRequired \<and>
      Some (NewChecker sha canon store_set b) = Some check \<and> check w (ClassifyACPRequest params) = (Inr a, w') \<and>
      ac_Decision a = DecisionAllow"
  then obtain a where a: "NewChecker sha canon store_set b w (ClassifyACPRequest params) = (Inr a, w')"
    "ac_Decision a = DecisionAllow" by auto
  obtain hash row ops where h: "ApprovalIntentHash sha canon (checker_action b (ClassifyACPRequest params)) = Inr hash"
    and row: "GetRequest (sys_db (cw_sys w')) (bind_OrganizationID b) (ApprovalRequestName sha b hash) = Inr row"
      "req_State row = StateApproved" "intent_of row = hash"
    and sys: "cw_sys w' = foldl (approval_step sha canon) (cw_sys w) (OpRequest (cw_clock w) (cw_rnd w)
        (Some (checker_request sha b (cw_clock w) (checker_action b (ClassifyACPRequest params)) hash)) # ops)"
      "\<exists>k. ops = concat (take k (cw_rounds w))"
    by (rule NewChecker_allow [OF a])
  define own where "own = (Some (checker_request sha b (cw_clock w) (checker_action b (ClassifyACPRequest params)) hash))"
  define hist where "hist = ops0 @ [OpRequest (cw_clock w) (cw_rnd w) own] @ ops"
  have run: "sys_db (cw_sys w') = sys_db (foldl (approval_step sha canon) s0 hist)"
    using sys(1) assms(2) by (simp add: hist_def own_def)
  have found: "row \<in> set (adb_requests (sys_db (cw_sys w')))"
      "request_key row = (bind_OrganizationID b, ApprovalRequestName sha b hash)"
    using find_Some_in [OF GetRequest_ok [OF row(1)]] by (auto simp: is_request_key)
  have "req_RequiredApprovals row \<le> card (approvers_of (sys_db (cw_sys w')) row)"
    if "created_open (ops0 @ concat (cw_rounds w)) (request_key row)"
  proof (rule history_quorum [OF assms(1) run found(1)])
    have "created_open [OpRequest (cw_clock w) (cw_rnd w) own] (request_key row)"
      by (simp add: created_open_def own_def checker_request_def)
    moreover have "created_open ops (request_key row)" using that sys(2) created_open_take by (metis created_open_append)
    ultimately show "created_open hist (request_key row)" using that unfolding hist_def created_open_append by blast
  qed (simp add: row(2))
  moreover have "card (normalizeApprovalPrincipal ` approvers_of (sys_db (cw_sys w')) row) =
      card (approvers_of (sys_db (cw_sys w')) row)" if "in_turn ops0" "list_all in_turn (cw_rounds w)"
  proof -
    have "[OpRequest (cw_clock w) (cw_rnd w) own] = concat (map turn_ops [TurnRequest (cw_clock w) (cw_rnd w) own])" by simp
    then have "in_turn [OpRequest (cw_clock w) (cw_rnd w) own]" unfolding in_turn_def by blast
    then have "in_turn hist" using that sys(2) in_turn_rounds in_turn_append unfolding hist_def by metis
    with in_turn_persons [OF _ assms(1)] show ?thesis using persons_counted by (simp only: run)
  qed
  ultimately show ?thesis using h row(2,3) found by metis
qed blast

lemma ApprovalIntentHash_bound: "ApprovalIntentHash sha canon (a\<lparr>ba_IntentHash := h\<rparr>) = ApprovalIntentHash sha canon a"
proof -
  have "intent_material (a\<lparr>ba_IntentHash := h\<rparr>) p = intent_material a p" for p by (simp add: intent_material_def)
  moreover have "action_parameters (a\<lparr>ba_IntentHash := h\<rparr>) = action_parameters a" by (simp add: action_parameters_def)
  ultimately show ?thesis by (simp only: ApprovalIntentHash_def)
qed

lemma checker_request_complete:
  "binding_complete b \<Longrightarrow> request_complete (checker_request sha b clock action hash) \<longleftrightarrow> bind_RequiredApprovals b \<noteq> 0"
  by (simp add: request_complete_def binding_complete_def checker_request_def ApprovalRequestName_def)

lemma checker_bound:
  assumes "binding_complete b" and "bind_RequiredApprovals b \<noteq> 0"
    and "ApprovalIntentHash sha canon (checker_action b permission) = Inr hash" and "rnd = Some (x # xs)"
  shows "\<exists>r. bound_request sha canon clock rnd (checker_request sha b clock (checker_action b permission) hash) = Inr r \<and>
    req_OrganizationId r = bind_OrganizationID b \<and> req_Name r = ApprovalRequestName sha b hash \<and>
    req_RequiredApprovals r = bind_RequiredApprovals b \<and> req_ExecutionNonce r \<noteq> [] \<and> intent_of r = hash \<and>
    req_Action r \<noteq> None \<and> (\<exists>t. req_ExpiresAt r = Some t \<and> clock < t)"
proof -
  let ?req = "checker_request sha b clock (checker_action b permission) hash"
  define act where "act = (checker_action b permission)\<lparr>ba_IntentHash := hash\<rparr>"
  have req: "req_Action ?req = Some act" "req_ExecutionNonce ?req = []" "req_OrganizationId ?req = bind_OrganizationID b"
    "req_Name ?req = ApprovalRequestName sha b hash" "req_RequiredApprovals ?req = bind_RequiredApprovals b"
    by (simp_all add: checker_request_def act_def)
  obtain t where t: "req_ExpiresAt ?req = Some t" "clock < t" by (simp add: checker_request_def second_def)
  have act: "ApprovalIntentHash sha canon act = Inr hash" "ba_OrganizationId act = bind_OrganizationID b" "ba_IntentHash act = hash"
    using assms(3) by (simp_all add: act_def ApprovalIntentHash_bound) (simp add: checker_action_def)
  have nonce: "request_nonce rnd ?req = Some (hex_encode (x # xs))" using assms(4) by (simp add: request_nonce_def req(2))
  have "request_complete ?req" using assms(1,2) by (simp add: checker_request_complete)
  then have "bound_request sha canon clock rnd ?req =
      Inr (?req\<lparr>req_Action := Some (act\<lparr>ba_IntentHash := hash\<rparr>), req_ExecutionNonce := hex_encode (x # xs)\<rparr>)"
    using t act nonce req by (simp add: bound_request_def)
  with req t show ?thesis by (simp add: intent_of_def del: hex_encode.simps)
qed

lemma created_fits:
  assumes "CreateRequest sha canon db clock rnd (Some r) = (Inr x, db')"
  shows "fits_int4 (req_RequiredApprovals r) \<and> request_complete r"
proof -
  obtain r1 where r1: "bound_request sha canon clock rnd r = Inr r1"
    using assms by (auto simp: CreateRequest_def split: sum.splits)
  with assms have "fst (insert_request db clock (pending_if_unset r1)) = Inr ()"
    by (auto simp: CreateRequest_def split: if_splits prod.splits sum.splits)
  then have "\<not> request_row_refused db clock (pending_if_unset r1)" by (auto simp: insert_request_def split: if_splits)
  then show ?thesis using bound_request_fields [OF r1]
    by (auto simp: request_row_refused_def pending_if_unset_def split: if_splits)
qed

lemma insert_existing:
  assumes "GetRequest db (req_OrganizationId r) (req_Name r) = Inr row" and "fits_int4 (req_RequiredApprovals r)"
    and "req_ExecutionNonce r \<noteq> []" and "intent_of r \<noteq> []" and "req_Action r \<noteq> None"
    and "req_ExpiresAt r = Some t" and "clock < t"
  shows "insert_request db clock (pending_if_unset r) = (Inr (), db)"
proof -
  have found: "find (is_request (req_OrganizationId r) (req_Name r)) (adb_requests db) = Some row"
    using GetRequest_ok [OF assms(1)] .
  have "\<not> adb_fault db" using assms(1) by (auto simp: GetRequest_def split: if_splits)
  with assms have "\<not> request_row_refused db clock (pending_if_unset r)"
    by (auto simp: request_row_refused_def pending_if_unset_def intent_of_def split: option.splits)
  moreover have "request_name_taken db (pending_if_unset r)"
    using find_Some_in [OF found] by (auto simp: request_name_taken_def list_ex_iff pending_if_unset_def)
  ultimately show ?thesis by (simp add: insert_request_def)
qed

lemma wait_loop_poll:
  "poll_decision (sys_db s) org name hash = Some r \<Longrightarrow> wait_loop sha canon org name hash s rounds = (r, s, rounds)"
  by (cases rounds) simp_all

lemma poll_approved:
  assumes "GetRequest db org name = Inr row" and "req_State row = StateApproved" and "intent_of row = hash" and "req_Action row \<noteq> None"
  shows "poll_decision db org name hash =
    Some \<lparr>wait_Decision = ApprovalWaitAllow, wait_Reason = ''durable approval quorum reached'', wait_Error = None\<rparr>"
  using assms by (auto simp: poll_decision_def intent_of_def)

text \<open>C32: An approval is never used up. The checker means to mark the request as executed, but calls
  the transition without a policy, which is always refused; the error is dropped. So the
  request stays approved, and every later check of the same action, at any time, is
  granted at once without a new decision.\<close>

theorem approval_is_never_consumed:
  assumes "NewChecker sha canon store_set b w permission = (Inr a, w1)" and "ac_Decision a = DecisionAllow"
    and "cw_sys w2 = cw_sys w1" and "cw_rnd w2 = Some (x # xs)"
  shows "\<exists>a'. NewChecker sha canon store_set b w2 permission = (Inr a', w2) \<and> ac_Decision a' = DecisionAllow"
proof -
  obtain hash row where set: "store_set" "binding_complete b" "hash \<noteq> []"
    and hash: "ApprovalIntentHash sha canon (checker_action b permission) = Inr hash"
    and row: "GetRequest (sys_db (cw_sys w1)) (bind_OrganizationID b) (ApprovalRequestName sha b hash) = Inr row"
      "req_State row = StateApproved" "intent_of row = hash" "req_Action row \<noteq> None"
    and create: "\<exists>x. fst (CreateRequest sha canon (sys_db (cw_sys w)) (cw_clock w) (cw_rnd w)
      (Some (checker_request sha b (cw_clock w) (checker_action b permission) hash))) = Inr x"
    by (rule NewChecker_allow [OF assms(1,2)])
  define db where "db = sys_db (cw_sys w2)"
  let ?name = "ApprovalRequestName sha b hash"
  let ?req = "checker_request sha b (cw_clock w2) (checker_action b permission) hash"
  have poll: "poll_decision db (bind_OrganizationID b) ?name hash =
      Some \<lparr>wait_Decision = ApprovalWaitAllow, wait_Reason = ''durable approval quorum reached'', wait_Error = None\<rparr>"
    using poll_approved [OF row] by (simp add: db_def assms(3))
  have opened: "adb_open db" "bind_OrganizationID b \<noteq> []" "?name \<noteq> []"
    using row(1) by (auto simp: GetRequest_def db_def assms(3) split: if_splits)
  have required: "bind_RequiredApprovals b \<noteq> 0" "fits_int4 (bind_RequiredApprovals b)"
  proof -
    obtain x db' where "CreateRequest sha canon (sys_db (cw_sys w)) (cw_clock w) (cw_rnd w)
        (Some (checker_request sha b (cw_clock w) (checker_action b permission) hash)) = (Inr x, db')"
      using create by (metis prod.collapse)
    from created_fits [OF this] checker_request_complete [OF set(2)]
    show "bind_RequiredApprovals b \<noteq> 0" "fits_int4 (bind_RequiredApprovals b)" by (auto simp: checker_request_def)
  qed
  obtain r t where bound: "bound_request sha canon (cw_clock w2) (cw_rnd w2) ?req = Inr r" and r:
      "req_OrganizationId r = bind_OrganizationID b" "req_Name r = ?name" "req_RequiredApprovals r = bind_RequiredApprovals b"
      "req_ExecutionNonce r \<noteq> []" "intent_of r = hash" "req_Action r \<noteq> None" "req_ExpiresAt r = Some t" "cw_clock w2 < t"
    using checker_bound [OF set(2) required(1) hash assms(4)] by blast
  have "insert_request db (cw_clock w2) (pending_if_unset r) = (Inr (), db)"
    by (rule insert_existing) (use row(1) r required(2) set(3) assms(3) in \<open>simp_all add: db_def\<close>)
  then have again: "CreateRequest sha canon db (cw_clock w2) (cw_rnd w2) (Some ?req) = (Inr r, db)"
    using opened(1) by (simp add: CreateRequest_def bound)
  have "WaitForDecision sha canon (bind_OrganizationID b) ?name hash (cw_sys w2) (cw_rounds w2) =
      (\<lparr>wait_Decision = ApprovalWaitAllow, wait_Reason = ''durable approval quorum reached'', wait_Error = None\<rparr>,
       cw_sys w2, cw_rounds w2)"
    using opened set(3) wait_loop_poll [OF poll [unfolded db_def]] by (simp add: WaitForDecision_def db_def)
  then have "wait_and_execute sha canon b ?name hash w2 =
      (Inr \<lparr>ac_Decision = DecisionAllow, ac_Reason = ''durable approval quorum reached''\<rparr>, w2)"
    by (simp add: wait_and_execute_def execute_call_refused)
  with set hash again show ?thesis
    by (simp add: NewChecker_def db_def) (simp add: checker_request_def)
qed

section \<open>Samples\<close>

definition write_request :: acp_request where
  "write_request =
     \<lparr>ar_Kind = Some ToolKindEdit, ar_Title = None, ar_RawInput = Some (JObject [(''path'', JString ''/ws/b'')]),
      ar_Options = [(''yes'', AllowOnce), (''no'', RejectOnce)]\<rparr>"

definition sample_binding :: ApprovalBinding where
  "sample_binding =
     \<lparr>bind_OrganizationID = ''o'', bind_WorkspaceID = [], bind_RequesterPrincipal = ''cid'', bind_ExecutingAgentID = ''x'',
      bind_ExecutingAgentOwner = [], bind_PolicyName = ''p'', bind_PolicyVersion = ''1'', bind_RequiredApprovals = 1,
      bind_Timeout = 0\<rparr>"

definition sample_world :: checker_world where
  "sample_world =
     \<lparr>cw_sys = sample_sys (sample_approval_db [] []),
      cw_rounds = [[OpReadRequest 0 ((sample_call ''ann'')\<lparr>call_name := ''organizations/o/approvalRequests/6f''\<rparr>),
        OpReadDecisions 0, OpCommit 0 200]],
      cw_clock = 100, cw_rnd = Some ''n''\<rparr>"

abbreviation sample_evaluation ::
  "(string \<times> PolicyDecision \<times> policy_reason) \<times> checker_world" where
  "sample_evaluation \<equiv>
     EvaluateACPPermissionWithApproval sample_fs (Some (executor_policy sample_acp ''agent'')) write_request
       (Some (NewChecker sample_sha Inr True sample_binding)) sample_world"

lemma sample_allowed:
  "fst sample_evaluation =
     (''yes'', DecisionAllow, Reason ''Organization approval granted: durable approval quorum reached'')"
  by code_simp

theorem allowed_action_has_quorum_witness:
  "\<exists>hash r. ApprovalIntentHash sample_sha Inr (checker_action sample_binding (ClassifyACPRequest write_request)) = Inr hash \<and>
     r \<in> set (adb_requests (sys_db (cw_sys (snd sample_evaluation)))) \<and> req_State r = StateApproved \<and> intent_of r = hash \<and>
     req_RequiredApprovals r \<le>
       card (normalizeApprovalPrincipal ` approvers_of (sys_db (cw_sys (snd sample_evaluation))) r)"
proof -
  have e: "sample_evaluation =
      ((''yes'', DecisionAllow, Reason ''Organization approval granted: durable approval quorum reached''), snd sample_evaluation)"
    using sample_allowed by (metis prod.collapse)
  have s: "cw_sys sample_world = foldl (approval_step sample_sha Inr) (sample_sys (sample_approval_db [] [])) []"
    by (simp add: sample_world_def)
  have "[] = concat (map turn_ops [])" and "concat (cw_rounds sample_world) = concat (map turn_ops [TurnApply
      ((sample_call ''ann'')\<lparr>call_name := ''organizations/o/approvalRequests/6f''\<rparr>) 200])" by (simp_all add: sample_world_def)
  then have "in_turn []" "in_turn (concat (cw_rounds sample_world))" unfolding in_turn_def by blast+
  then have "in_turn []" "list_all in_turn (cw_rounds sample_world)" by (simp_all add: sample_world_def)
  moreover have "created_open ([] @ concat (cw_rounds sample_world)) key" for key
    by (simp add: sample_world_def created_open_def)
  moreover have "pr_ActionKind (ClassifyACPRequest write_request) \<noteq> ActionRead" by code_simp
  ultimately show ?thesis using allowed_action_has_quorum [OF sample_starts s e] by blast
qed

lemma sample_check:
  "fst (NewChecker sample_sha Inr True sample_binding sample_world (ClassifyACPRequest write_request)) =
     Inr \<lparr>ac_Decision = DecisionAllow, ac_Reason = ''durable approval quorum reached''\<rparr>"
  by code_simp

theorem approval_is_never_consumed_witness:
  "\<exists>a'. NewChecker sample_sha Inr True sample_binding
      ((snd (NewChecker sample_sha Inr True sample_binding sample_world (ClassifyACPRequest write_request)))\<lparr>cw_clock := 5000000000000000\<rparr>)
      (ClassifyACPRequest write_request) =
    (Inr a', (snd (NewChecker sample_sha Inr True sample_binding sample_world (ClassifyACPRequest write_request)))\<lparr>cw_clock := 5000000000000000\<rparr>) \<and>
    ac_Decision a' = DecisionAllow"
proof (rule approval_is_never_consumed)
  show "NewChecker sample_sha Inr True sample_binding sample_world (ClassifyACPRequest write_request) =
      (Inr \<lparr>ac_Decision = DecisionAllow, ac_Reason = ''durable approval quorum reached''\<rparr>,
       snd (NewChecker sample_sha Inr True sample_binding sample_world (ClassifyACPRequest write_request)))"
    using sample_check by (metis prod.collapse)
  show "cw_rnd ((snd (NewChecker sample_sha Inr True sample_binding sample_world (ClassifyACPRequest write_request)))
      \<lparr>cw_clock := 5000000000000000\<rparr>) = Some (CHR ''n'' # [])"
    by code_simp
qed simp_all

end
