(* ===== verification/Heartbeat_Nonce.thy ===== *)
theory Heartbeat_Nonce
  imports Page_Token Hub_Contract
begin

text \<open>
  The one-time nonces of agent heartbeats, \<open>backend/manager/component/state/nonce.go\<close>, with the
  table that several managers share, \<open>backend/manager/store/nonce_replay.go\<close>, and the check
  of \<open>AgentHeartbeat\<close> in \<open>backend/manager/api/v1/agent_connection.go\<close>. The keyed hash and the
  random bytes are arguments. An operation takes the readings of the clock it makes; two
  verifications that overlap are two steps in the order in which they take the lock of the
  replay map, or in which the table admits their rows.

  Shown here: a nonce that was generated verifies in its window, the same nonce never twice,
  and that the nonce written in another way, which the parser reads as the same, does.
\<close>

section \<open>Texts\<close>

definition url_digit :: "char \<Rightarrow> char" where
  "url_digit c = (if c = CHR ''+'' then CHR ''-'' else if c = CHR ''/'' then CHR ''_'' else c)"

text \<open>\<open>base64.RawURLEncoding\<close>: the alphabet for URLs, and no padding.\<close>

definition base64urlEncode :: "string \<Rightarrow> string" where
  "base64urlEncode b = map url_digit (filter (\<lambda>c. c \<noteq> CHR ''='') (EncodeToString b))"

text \<open>\<open>fmt.Sscanf\<close> with the verb \<open>%d\<close> into an \<open>int64\<close>: white space before the number is skipped,
  except line breaks, then a sign and digits; what follows the digits is not looked at.\<close>

definition is_digit :: "char \<Rightarrow> bool" where
  "is_digit c \<longleftrightarrow> 48 \<le> byte c \<and> byte c \<le> 57"

definition scan_number :: "bool \<Rightarrow> string \<Rightarrow> int option" where
  "scan_number neg s =
     (let ds = takeWhile is_digit s in
      if ds = [] then None
      else case parse_digits 0 ds of
        None \<Rightarrow> None
      | Some n \<Rightarrow> let i = (if neg then - int n else int n) in if is_i64 i then Some i else None)"

definition Sscanf_d :: "string \<Rightarrow> int option" where
  "Sscanf_d s =
     (case trim_left_of (filter (\<lambda>p. p \<noteq> [CHR 0x0A]) go_spaces) s of
        [] \<Rightarrow> None
      | c # t \<Rightarrow>
          if c = CHR ''-'' then scan_number True t
          else if c = CHR ''+'' then scan_number False t
          else scan_number False (c # t))"

definition dot :: char where
  "dot = CHR ''.''"

definition splitNonce :: "string \<Rightarrow> (string \<times> string \<times> string) option" where
  "splitNonce nonce =
     (case dropWhile (\<lambda>c. c \<noteq> dot) nonce of
        [] \<Rightarrow> None
      | _ # r1 \<Rightarrow>
          (case dropWhile (\<lambda>c. c \<noteq> dot) r1 of
             [] \<Rightarrow> None
           | _ # r2 \<Rightarrow> Some (takeWhile (\<lambda>c. c \<noteq> dot) nonce, takeWhile (\<lambda>c. c \<noteq> dot) r1, r2)))"

section \<open>The manager of nonces\<close>

definition nonceReplayTTL :: duration where
  "nonceReplayTTL = 45 * second"

definition nonceWithinWindow :: "int \<Rightarrow> int \<Rightarrow> bool" where
  "nonceWithinWindow timestampSec nowSec \<longleftrightarrow>
     \<not> timestampSec < i64 (nowSec - 35) \<and> \<not> timestampSec > i64 (nowSec + 5)"

record NonceManager =
  nm_secrets :: "(string \<times> string) list"
  nm_replay :: "(string \<times> int) list"
  nm_replayTTL :: duration

definition NewNonceManager :: NonceManager where
  "NewNonceManager = \<lparr>nm_secrets = [], nm_replay = [], nm_replayTTL = nonceReplayTTL\<rparr>"

definition unix_sec :: "instant \<Rightarrow> int" where
  "unix_sec t = t div second"

definition getOrCreateKey :: "NonceManager \<Rightarrow> string \<Rightarrow> string \<Rightarrow> string \<times> NonceManager" where
  "getOrCreateKey nm fresh agentResourceID =
     (case map_of (nm_secrets nm) agentResourceID of
        Some key \<Rightarrow> (key, nm)
      | None \<Rightarrow> (fresh, nm\<lparr>nm_secrets := assoc_set agentResourceID fresh (nm_secrets nm)\<rparr>))"

definition DeleteKey :: "NonceManager \<Rightarrow> string \<Rightarrow> NonceManager" where
  "DeleteKey nm agentResourceID = nm\<lparr>nm_secrets := assoc_del agentResourceID (nm_secrets nm)\<rparr>"

definition signed_data :: "string \<Rightarrow> string \<Rightarrow> string \<Rightarrow> int \<Rightarrow> string" where
  "signed_data agentResourceID sessionID random timestampSec =
     agentResourceID @ '':'' @ sessionID @ '':'' @ random @ '':'' @ show_int timestampSec"

text \<open>\<open>hmac key data\<close> is the keyed hash; \<open>fresh\<close> and \<open>rnd\<close> are the bytes read from the random source.\<close>

definition GenerateNonce ::
  "(string \<Rightarrow> string \<Rightarrow> string) \<Rightarrow> NonceManager \<Rightarrow> string \<Rightarrow> string \<Rightarrow> instant \<Rightarrow> string \<Rightarrow> string \<Rightarrow> string \<times> NonceManager" where
  "GenerateNonce hmac nm fresh rnd now agentResourceID sessionID =
     (case getOrCreateKey nm fresh agentResourceID of
        (key, nm1) \<Rightarrow>
          let ts = unix_sec now; random = base64urlEncode rnd;
              signature = hmac key (signed_data agentResourceID sessionID random ts)
          in (random @ [dot] @ show_int ts @ [dot] @ hex_encode signature, nm1))"

definition replay_key :: "string \<Rightarrow> string \<Rightarrow> string" where
  "replay_key agentResourceID nonce = agentResourceID @ [CHR 0x00] @ nonce"

definition recordAndCheckReplay :: "NonceManager \<Rightarrow> instant \<Rightarrow> string \<Rightarrow> string \<Rightarrow> bool \<times> NonceManager" where
  "recordAndCheckReplay nm nowNs agentResourceID nonce =
     (let key = replay_key agentResourceID nonce; expiry = i64 (nowNs + nm_replayTTL nm) in
      if (case map_of (nm_replay nm) key of Some e \<Rightarrow> e > nowNs | None \<Rightarrow> False) then (False, nm)
      else (True, nm\<lparr>nm_replay := assoc_set key expiry (filter (\<lambda>(k, e). \<not> e \<le> nowNs) (nm_replay nm))\<rparr>))"

text \<open>The checks before the nonce is consumed.\<close>

definition nonce_valid :: "(string \<Rightarrow> string \<Rightarrow> string) \<Rightarrow> NonceManager \<Rightarrow> instant \<Rightarrow> string \<Rightarrow> string \<Rightarrow> string \<Rightarrow> bool" where
  "nonce_valid hmac nm now nonce agentResourceID sessionID \<longleftrightarrow>
     (if nonce = [] then False
      else case splitNonce nonce of
        None \<Rightarrow> False
      | Some (randomB64, timestampStr, signatureHex) \<Rightarrow>
          (case Sscanf_d timestampStr of
             None \<Rightarrow> False
           | Some timestampSec \<Rightarrow>
               if \<not> nonceWithinWindow timestampSec (unix_sec now) then False
               else case map_of (nm_secrets nm) agentResourceID of
                 None \<Rightarrow> False
               | Some key \<Rightarrow>
                   (case hex_decode signatureHex of
                      None \<Rightarrow> False
                    | Some actual \<Rightarrow>
                        actual = hmac key (signed_data agentResourceID sessionID randomB64 timestampSec))))"

text \<open>The shared checker, when one is installed, acts on a state of its own.\<close>

type_synonym ('w, 'e) replay_checker = "'w \<Rightarrow> string \<Rightarrow> string \<Rightarrow> instant \<Rightarrow> ('e, bool) result \<times> 'w"

definition VerifyNonceContext ::
  "(string \<Rightarrow> string \<Rightarrow> string) \<Rightarrow> ('w, 'e) replay_checker option \<Rightarrow> NonceManager \<Rightarrow> 'w \<Rightarrow> instant \<Rightarrow> instant \<Rightarrow>
   string \<Rightarrow> string \<Rightarrow> string \<Rightarrow> ('e, bool) result \<times> NonceManager \<times> 'w" where
  "VerifyNonceContext hmac checker nm w now1 now2 nonce agentResourceID sessionID =
     (if \<not> nonce_valid hmac nm now1 nonce agentResourceID sessionID then (Inr False, nm, w)
      else case checker of
        Some check \<Rightarrow>
          (case check w agentResourceID nonce (now2 + nm_replayTTL nm) of (r, w') \<Rightarrow> (r, nm, w'))
      | None \<Rightarrow>
          (case recordAndCheckReplay nm now2 agentResourceID nonce of (b, nm') \<Rightarrow> (Inr b, nm', w)))"

section \<open>The shared table\<close>

datatype nonce_error = NonceIdentityRequired | NonceSqlFailed

record nonce_table =
  nr_fault :: bool
  nr_organizations :: "string list"
  nr_rows :: "((string \<times> string \<times> string) \<times> instant) list"

definition tenant_id :: "string option \<Rightarrow> string" where
  "tenant_id ctx = (case ctx of Some org \<Rightarrow> if org = [] then ''default'' else org | None \<Rightarrow> ''default'')"

definition ConsumeNonce :: "string option \<Rightarrow> instant \<Rightarrow> (nonce_table, nonce_error) replay_checker" where
  "ConsumeNonce ctx clock db agentResourceID nonce expiresAt =
     (if agentResourceID = [] \<or> nonce = [] then (Inl NonceIdentityRequired, db)
      else if nr_fault db \<or> tenant_id ctx \<notin> set (nr_organizations db) \<or> \<not> clock < expiresAt then (Inl NonceSqlFailed, db)
      else if map_of (nr_rows db) (tenant_id ctx, agentResourceID, nonce) \<noteq> None then (Inr False, db)
      else (Inr True, db\<lparr>nr_rows := nr_rows db @ [((tenant_id ctx, agentResourceID, nonce), expiresAt)]\<rparr>))"

section \<open>The check of a heartbeat\<close>

record agent_session =
  se_SessionID :: string
  se_AgentID :: int
  se_State :: string

datatype heartbeat_error =
    SessionNotFound
  | SessionReplaced
  | SessionOfOtherAgent
  | NonceCheckFailed
  | InvalidNonce

definition heartbeat_session :: "agent_session list \<Rightarrow> int \<Rightarrow> string \<Rightarrow> heartbeat_error option" where
  "heartbeat_session sessions agentID sessionID =
     (case find (\<lambda>s. se_SessionID s = sessionID) sessions of
        None \<Rightarrow> Some SessionNotFound
      | Some s \<Rightarrow>
          if se_State s = ''KICKED'' then Some SessionReplaced
          else if se_AgentID s \<noteq> agentID then Some SessionOfOtherAgent else None)"

text \<open>What decides whether a heartbeat is admitted. A heartbeat without a session or without a
  nonce is.\<close>

definition heartbeat_admitted ::
  "(string \<Rightarrow> string \<Rightarrow> string) \<Rightarrow> ('w, 'e) replay_checker option \<Rightarrow> agent_session list \<Rightarrow> NonceManager \<Rightarrow> 'w \<Rightarrow> instant \<Rightarrow> instant \<Rightarrow>
   int \<Rightarrow> string \<Rightarrow> string \<Rightarrow> string \<Rightarrow> (heartbeat_error, unit) result \<times> NonceManager \<times> 'w" where
  "heartbeat_admitted hmac checker sessions nm w now1 now2 agentID resourceID sessionID previousNonce =
     (if sessionID = [] then (Inr (), nm, w)
      else case heartbeat_session sessions agentID sessionID of
        Some e \<Rightarrow> (Inl e, nm, w)
      | None \<Rightarrow>
          (case VerifyNonceContext hmac checker nm w now1 now2 previousNonce resourceID sessionID of
             (Inl _, nm', w') \<Rightarrow> (Inl NonceCheckFailed, nm', w')
           | (Inr valid, nm', w') \<Rightarrow>
               if \<not> valid \<and> previousNonce \<noteq> [] then (Inl InvalidNonce, nm', w') else (Inr (), nm', w')))"

section \<open>Histories of one manager\<close>

datatype nonce_op =
    OpGenerate string string instant string string
  | OpVerify instant instant string string string
  | OpDeleteKey string

definition verify_local ::
  "(string \<Rightarrow> string \<Rightarrow> string) \<Rightarrow> NonceManager \<Rightarrow> instant \<Rightarrow> instant \<Rightarrow> string \<Rightarrow> string \<Rightarrow> string \<Rightarrow> bool \<times> NonceManager" where
  "verify_local hmac nm now1 now2 nonce agentResourceID sessionID =
     (case VerifyNonceContext hmac (None :: (unit, unit) replay_checker option) nm () now1 now2 nonce agentResourceID sessionID of
        (Inr b, nm', _) \<Rightarrow> (b, nm')
      | (Inl _, nm', _) \<Rightarrow> (False, nm'))"

fun nonce_step :: "(string \<Rightarrow> string \<Rightarrow> string) \<Rightarrow> NonceManager \<Rightarrow> nonce_op \<Rightarrow> NonceManager" where
  "nonce_step hmac nm (OpGenerate fresh rnd now agent session) = snd (GenerateNonce hmac nm fresh rnd now agent session)"
| "nonce_step hmac nm (OpVerify now1 now2 nonce agent session) = snd (verify_local hmac nm now1 now2 nonce agent session)"
| "nonce_step hmac nm (OpDeleteKey agent) = DeleteKey nm agent"

text \<open>The clock of a run: a verification reads it twice, at most four seconds apart, the second
  readings come in the order of the lock, and they fit the nanoseconds of an \<open>int64\<close>.\<close>

definition prompt :: "instant \<Rightarrow> instant \<Rightarrow> bool" where
  "prompt now1 now2 \<longleftrightarrow> 0 \<le> now1 \<and> now1 \<le> now2 \<and> now2 \<le> now1 + 4 * second \<and> is_i64 (now2 + nonceReplayTTL)"

fun timed :: "instant \<Rightarrow> nonce_op list \<Rightarrow> bool" where
  "timed t [] = True"
| "timed t (OpVerify now1 now2 nonce agent session # ops) = (prompt now1 now2 \<and> t \<le> now2 \<and> timed now2 ops)"
| "timed t (op # ops) = timed t ops"

section \<open>Facts\<close>

lemma second_value: "second = 1000000000"
  by (simp add: second_def)

lemma map_of_filter_keep: "map_of m k = Some v \<Longrightarrow> P (k, v) \<Longrightarrow> map_of (filter P m) k = Some v"
  by (induction m) (auto split: if_splits)

lemma b64_digit_not_dot: "b64_digit n \<noteq> dot"
proof -
  have "of_char (b64_digit n) \<noteq> (of_char dot :: nat)" by (simp add: b64_digit_def dot_def) linarith
  then show ?thesis by metis
qed

lemma EncodeToString_not_dot: "dot \<notin> set (EncodeToString b)"
  by (induction b rule: EncodeToString.induct) (auto simp: b64_digit_not_dot [symmetric], simp_all add: dot_def)

lemma base64url_not_dot: "dot \<notin> set (base64urlEncode b)"
proof
  assume "dot \<in> set (base64urlEncode b)"
  then obtain c where "c \<in> set (EncodeToString b)" "url_digit c = dot" by (auto simp: base64urlEncode_def)
  with EncodeToString_not_dot [of b] show False by (auto simp: url_digit_def dot_def split: if_splits)
qed

lemma digits_not_dot: "dot \<notin> set (show_nat n)"
  using show_nat_digits [of dot n] by (auto simp: dot_def)

lemma takeWhile_stop: "x \<notin> set s \<Longrightarrow> takeWhile (\<lambda>c. c \<noteq> x) (s @ x # t) = s"
  by (induction s) auto

lemma dropWhile_stop: "x \<notin> set s \<Longrightarrow> dropWhile (\<lambda>c. c \<noteq> x) (s @ x # t) = x # t"
  by (induction s) auto

lemma splitNonce_join:
  "dot \<notin> set r \<Longrightarrow> dot \<notin> set ts \<Longrightarrow> splitNonce (r @ dot # ts @ dot # h) = Some (r, ts, h)"
  by (simp add: splitNonce_def takeWhile_stop dropWhile_stop)

lemma splitNonce_parts:
  assumes "splitNonce nonce = Some (r, ts, h)"
  shows "nonce = r @ dot # ts @ dot # h" and "dot \<notin> set r" and "dot \<notin> set ts"
proof -
  obtain x r1 where a: "dropWhile (\<lambda>c. c \<noteq> dot) nonce = x # r1"
    using assms by (auto simp: splitNonce_def split: list.splits)
  obtain y r2 where b: "dropWhile (\<lambda>c. c \<noteq> dot) r1 = y # r2"
    using assms a by (auto simp: splitNonce_def split: list.splits)
  have eq: "r = takeWhile (\<lambda>c. c \<noteq> dot) nonce" "ts = takeWhile (\<lambda>c. c \<noteq> dot) r1" "h = r2"
    using assms a b by (auto simp: splitNonce_def)
  have "x = dot" "y = dot" using a b hd_dropWhile [of "\<lambda>c. c \<noteq> dot" nonce] hd_dropWhile [of "\<lambda>c. c \<noteq> dot" r1] by auto
  then show "nonce = r @ dot # ts @ dot # h"
    using a b eq takeWhile_dropWhile_id [of "\<lambda>c. c \<noteq> dot" nonce] takeWhile_dropWhile_id [of "\<lambda>c. c \<noteq> dot" r1] by metis
  show "dot \<notin> set r" "dot \<notin> set ts" using eq by (auto dest: set_takeWhileD)
qed

lemma space_not_digit: "p \<in> set go_spaces \<Longrightarrow> p \<noteq> [] \<and> \<not> is_digit (hd p)"
proof -
  have "list_all (\<lambda>p. p \<noteq> [] \<and> \<not> is_digit (hd p)) go_spaces" by code_simp
  then show "p \<in> set go_spaces \<Longrightarrow> p \<noteq> [] \<and> \<not> is_digit (hd p)" unfolding list_all_iff by blast
qed

lemma space_not_before_digit:
  assumes "is_digit c"
  shows "find (\<lambda>p. p \<noteq> [] \<and> starts_with p (c # s)) (filter (\<lambda>p. p \<noteq> [CHR 0x0A]) go_spaces) = None"
proof -
  have "\<not> starts_with p (c # s)" if "p \<in> set go_spaces" for p
    using space_not_digit [OF that] assms by (cases p) auto
  then show ?thesis by (simp add: find_None_all)
qed

lemma Sscanf_digits:
  assumes "is_digit c"
  shows "Sscanf_d (c # s) = scan_number False (c # s)"
proof -
  have "\<not> is_digit (CHR ''-'')" "\<not> is_digit (CHR ''+'')" by code_simp+
  with assms have "c \<noteq> CHR ''-''" "c \<noteq> CHR ''+''" by metis+
  then show ?thesis using trim_left_of_fixed [OF space_not_before_digit [OF assms, of s]]
    by (simp only: Sscanf_d_def list.case if_False)
qed

lemma Sscanf_show_nat:
  assumes "is_i64 (int n)"
  shows "Sscanf_d (show_nat n) = Some (int n)"
proof -
  have all: "takeWhile is_digit (show_nat n) = show_nat n"
    using show_nat_digits [of _ n] by (intro takeWhile_eq_all_conv [THEN iffD2]) (auto simp: is_digit_def)
  obtain c s where cs: "show_nat n = c # s" by (cases "show_nat n") auto
  with show_nat_digits [of c n] have "is_digit c" by (simp add: is_digit_def)
  then have "Sscanf_d (show_nat n) = scan_number False (show_nat n)" unfolding cs by (rule Sscanf_digits)
  also have "\<dots> = Some (int n)"
    unfolding scan_number_def all using assms by (simp add: parse_show_nat Let_def)
  finally show ?thesis .
qed

lemma scan_number_junk:
  assumes "\<not> is_digit (hd junk)" and "junk \<noteq> []"
  shows "scan_number neg (ts @ junk) = scan_number neg ts"
proof -
  have "takeWhile is_digit (ts @ junk) = takeWhile is_digit ts"
    using assms by (induction ts) (cases junk, auto)
  then show ?thesis by (simp add: scan_number_def)
qed

lemma nonce_valid_cases:
  assumes "nonce_valid hmac nm now nonce agent session"
  obtains r ts h t key where "nonce \<noteq> []" "splitNonce nonce = Some (r, ts, h)" "Sscanf_d ts = Some t"
    "nonceWithinWindow t (unix_sec now)" "map_of (nm_secrets nm) agent = Some key"
    "hex_decode h = Some (hmac key (signed_data agent session r t))"
proof -
  have ne: "nonce \<noteq> []" using assms by (cases nonce) (simp_all add: nonce_valid_def)
  obtain p where "splitNonce nonce = Some p" using assms ne by (cases "splitNonce nonce") (simp_all add: nonce_valid_def)
  then obtain r ts h where sp: "splitNonce nonce = Some (r, ts, h)" by (cases p) simp
  obtain t where t: "Sscanf_d ts = Some t" using assms ne sp by (cases "Sscanf_d ts") (simp_all add: nonce_valid_def)
  have w: "nonceWithinWindow t (unix_sec now)"
    using assms ne sp t by (cases "nonceWithinWindow t (unix_sec now)") (simp_all add: nonce_valid_def)
  obtain key where k: "map_of (nm_secrets nm) agent = Some key"
    using assms ne sp t w by (cases "map_of (nm_secrets nm) agent") (simp_all add: nonce_valid_def)
  have "hex_decode h = Some (hmac key (signed_data agent session r t))"
    using assms ne sp t w k by (cases "hex_decode h") (simp_all add: nonce_valid_def)
  with that ne sp t w k show thesis by blast
qed

lemma nonce_validI:
  assumes "nonce \<noteq> []" "splitNonce nonce = Some (r, ts, h)" "Sscanf_d ts = Some t"
    "nonceWithinWindow t (unix_sec now)" "map_of (nm_secrets nm) agent = Some key"
    "hex_decode h = Some (hmac key (signed_data agent session r t))"
  shows "nonce_valid hmac nm now nonce agent session"
  using assms by (simp add: nonce_valid_def)

lemma verify_local_eq:
  "verify_local hmac nm now1 now2 nonce agent session =
     (if nonce_valid hmac nm now1 nonce agent session then recordAndCheckReplay nm now2 agent nonce else (False, nm))"
  by (auto simp: verify_local_def VerifyNonceContext_def split: prod.splits)

text \<open>While it is not expired, a remembered nonce stays remembered.\<close>

lemma remembered_step:
  assumes "map_of (nm_replay nm) key = Some e" and "timed t [op]"
    and "\<And>a b nonce agent session. op = OpVerify a b nonce agent session \<Longrightarrow> b < e"
  shows "map_of (nm_replay (nonce_step hmac nm op)) key = Some e"
proof (cases op)
  case (OpVerify a b nonce agent session)
  then have "b < e" using assms(3) by blast
  then have keep: "map_of (filter (\<lambda>(k, e). \<not> e \<le> b) (nm_replay nm)) key = Some e"
    using assms(1) by (intro map_of_filter_keep) auto
  with assms(1) \<open>b < e\<close> OpVerify show ?thesis
    by (auto simp: verify_local_eq recordAndCheckReplay_def Let_def)
qed (use assms(1) in \<open>auto simp: GenerateNonce_def getOrCreateKey_def DeleteKey_def Let_def split: option.splits prod.splits\<close>)

lemma ttl_step: "nm_replayTTL (nonce_step hmac nm op) = nm_replayTTL nm"
  by (cases op) (auto simp: GenerateNonce_def getOrCreateKey_def DeleteKey_def verify_local_eq
    recordAndCheckReplay_def Let_def split: option.splits prod.splits)

lemma ttl_run: "nm_replayTTL (foldl (nonce_step hmac) nm ops) = nm_replayTTL nm"
  by (induction ops arbitrary: nm) (simp_all add: ttl_step)

lemma timed_append: "timed t (ops1 @ ops2) \<Longrightarrow> timed t ops1 \<and> (\<exists>t'. t \<le> t' \<and> timed t' ops2)"
proof (induction ops1 arbitrary: t)
  case (Cons op ops1)
  then show ?case by (cases op) (auto intro: order_trans)
qed auto

lemma remembered_run:
  assumes "map_of (nm_replay nm) key = Some e" and "timed t (ops @ [OpVerify a b nonce agent session])" and "b < e"
  shows "map_of (nm_replay (foldl (nonce_step hmac) nm ops)) key = Some e"
  using assms(1,2)
proof (induction ops arbitrary: nm t)
  case (Cons op ops)
  have later: "y < e" if "op = OpVerify x y n g u" for x y n g u
  proof -
    have "timed y (ops @ [OpVerify a b nonce agent session])" using Cons.prems(2) that by simp
    then obtain t' where "y \<le> t'" "timed t' [OpVerify a b nonce agent session]" using timed_append by blast
    with assms(3) show ?thesis by simp
  qed
  have "timed t [op]" using Cons.prems(2) timed_append [of t "[op]" "ops @ [OpVerify a b nonce agent session]"] by simp
  then have "map_of (nm_replay (nonce_step hmac nm op)) key = Some e"
    using later by (intro remembered_step [OF Cons.prems(1)]) auto
  moreover obtain t' where "timed t' (ops @ [OpVerify a b nonce agent session])"
    using Cons.prems(2) timed_append [of t "[op]" "ops @ [OpVerify a b nonce agent session]"] by auto
  ultimately show ?case using Cons.IH by simp
qed simp

lemma window_bounds:
  assumes "nonceWithinWindow t (unix_sec now)" and "0 \<le> now" and "is_i64 (now + nonceReplayTTL)"
  shows "now div second - 35 \<le> t" and "t \<le> now div second + 5"
proof -
  have s: "0 \<le> now div second" "now div second \<le> now" using assms(2) unfolding second_value by linarith+
  then have "is_i64 (now div second - 35)" "is_i64 (now div second + 5)"
    using assms(3) by (auto simp: is_i64_def nonceReplayTTL_def second_value)
  with assms(1) show "now div second - 35 \<le> t" "t \<le> now div second + 5"
    by (auto simp: nonceWithinWindow_def unix_sec_def)
qed

section \<open>Properties\<close>

text \<open>C13: No heartbeat nonce is accepted twice. The replay map forgets a nonce 45 seconds after it was
  accepted, but then its timestamp has left the window. This holds for every history of one
  manager, under every order of overlapping verifications, as long as none takes more than
  four seconds from the check of the window to the map.\<close>

theorem nonce_accepted_once:
  assumes "nm = foldl (nonce_step hmac) NewNonceManager ops"
    and "timed 0 (OpVerify a1 b1 nonce agent s1 # mid @ [OpVerify a2 b2 nonce agent s2])"
    and "verify_local hmac nm a1 b1 nonce agent s1 = (True, nm1)"
  shows "fst (verify_local hmac (foldl (nonce_step hmac) nm1 mid) a2 b2 nonce agent s2) = False"
proof (rule ccontr)
  let ?nm2 = "foldl (nonce_step hmac) nm1 mid" and ?key = "replay_key agent nonce"
  assume "fst (verify_local hmac ?nm2 a2 b2 nonce agent s2) \<noteq> False"
  then have v2: "nonce_valid hmac ?nm2 a2 nonce agent s2" and
    r2: "\<not> (case map_of (nm_replay ?nm2) ?key of Some e \<Rightarrow> e > b2 | None \<Rightarrow> False)"
    by (auto simp: verify_local_eq recordAndCheckReplay_def Let_def split: if_splits)
  have v1: "nonce_valid hmac nm a1 nonce agent s1" using assms(3) by (auto simp: verify_local_eq split: if_splits)
  have ttl: "nm_replayTTL nm = nonceReplayTTL" by (simp add: assms(1) ttl_run NewNonceManager_def)
  have c1: "prompt a1 b1" using assms(2) by simp
  obtain t' where "timed t' [OpVerify a2 b2 nonce agent s2]" using assms(2) timed_append by fastforce
  then have c2: "prompt a2 b2" by simp
  have "i64 (b1 + nonceReplayTTL) = b1 + nonceReplayTTL" using c1 by (simp add: prompt_def)
  with assms(3) ttl have mem: "map_of (nm_replay nm1) ?key = Some (b1 + nonceReplayTTL)"
    by (auto simp: verify_local_eq recordAndCheckReplay_def Let_def split: if_splits)
  have "b1 + nonceReplayTTL \<le> b2"
  proof (rule ccontr)
    assume "\<not> ?thesis"
    then have "map_of (nm_replay ?nm2) ?key = Some (b1 + nonceReplayTTL)"
      using assms(2) by (intro remembered_run [OF mem, of b1 mid a2 b2]) auto
    with r2 \<open>\<not> ?thesis\<close> show False by simp
  qed
  then have "a1 + 41 * second \<le> a2" using c1 c2 by (simp add: prompt_def nonceReplayTTL_def)
  then have apart: "a1 div second + 41 \<le> a2 div second"
    using zdiv_mono1 [of "a1 + 41 * second" a2 second] by (simp add: second_value)
  obtain t where "Sscanf_d (fst (snd (the (splitNonce nonce)))) = Some t" "nonceWithinWindow t (unix_sec a1)"
    using v1 by (rule nonce_valid_cases) auto
  moreover obtain u where "Sscanf_d (fst (snd (the (splitNonce nonce)))) = Some u" "nonceWithinWindow u (unix_sec a2)"
    using v2 by (rule nonce_valid_cases) auto
  moreover have "is_i64 (a1 + nonceReplayTTL)" "is_i64 (a2 + nonceReplayTTL)" "0 \<le> a1" "0 \<le> a2"
    using c1 c2 by (auto simp: prompt_def is_i64_def nonceReplayTTL_def second_value)
  ultimately show False using apart window_bounds(1) [of t a2] window_bounds(2) [of t a1] by simp
qed

definition sample_hmac :: "string \<Rightarrow> string \<Rightarrow> string" where
  "sample_hmac key data = key"

definition sample_nonce_ops :: "nonce_op list" where
  "sample_nonce_ops = [OpGenerate ''k'' ''abc'' (100 * second) ''ag'' ''se'']"

lemma sample_nonce: "fst (GenerateNonce sample_hmac NewNonceManager ''k'' ''abc'' (100 * second) ''ag'' ''se'') = ''YWJj.100.6b''"
  by code_simp

theorem nonce_accepted_once_witness:
  "fst (verify_local sample_hmac (snd (verify_local sample_hmac
      (foldl (nonce_step sample_hmac) NewNonceManager sample_nonce_ops) (110 * second) (110 * second) ''YWJj.100.6b'' ''ag'' ''se''))
      (120 * second) (121 * second) ''YWJj.100.6b'' ''ag'' ''se'') = False"
proof -
  let ?nm = "foldl (nonce_step sample_hmac) NewNonceManager sample_nonce_ops"
  have t: "timed 0 (OpVerify (110 * second) (110 * second) ''YWJj.100.6b'' ''ag'' ''se'' #
      [] @ [OpVerify (120 * second) (121 * second) ''YWJj.100.6b'' ''ag'' ''se''])" by code_simp
  have "fst (verify_local sample_hmac ?nm (110 * second) (110 * second) ''YWJj.100.6b'' ''ag'' ''se'') = True" by code_simp
  then have "verify_local sample_hmac ?nm (110 * second) (110 * second) ''YWJj.100.6b'' ''ag'' ''se'' =
      (True, snd (verify_local sample_hmac ?nm (110 * second) (110 * second) ''YWJj.100.6b'' ''ag'' ''se''))"
    by (metis prod.collapse)
  from nonce_accepted_once [OF refl t this] show ?thesis by (simp only: foldl.simps)
qed

text \<open>A nonce that was generated is accepted, from five seconds before to 35 seconds after its
  second, for its agent and session.\<close>

theorem generated_nonce_verifies:
  assumes "GenerateNonce hmac nm fresh rnd now agent session = (nonce, nm1)"
    and "0 \<le> now" and "is_i64 (now + nonceReplayTTL)" and "0 \<le> later" and "is_i64 (later + nonceReplayTTL)"
    and "later div second - 35 \<le> now div second" and "now div second \<le> later div second + 5"
    and "map_of (nm_replay nm) (replay_key agent nonce) = None"
  shows "fst (VerifyNonceContext hmac None nm1 w later later nonce agent session) = Inr True"
proof -
  define r where "r = base64urlEncode rnd"
  define n where "n = nat (now div second)"
  have s: "0 \<le> now div second" "now div second \<le> now" "0 \<le> later div second" "later div second \<le> later"
    using assms(2,4) unfolding second_value by linarith+
  then have n: "int n = now div second" "show_int (unix_sec now) = show_nat n"
    by (simp_all add: n_def unix_sec_def show_int_def)
  have i: "is_i64 (int n)" "is_i64 (later div second - 35)" "is_i64 (later div second + 5)"
    using s n assms(3,5) by (auto simp: is_i64_def nonceReplayTTL_def second_value)
  obtain key nm' where key: "getOrCreateKey nm fresh agent = (key, nm')" by fastforce
  define h where "h = hmac key (signed_data agent session r (int n))"
  have out: "nonce = r @ dot # show_nat n @ dot # hex_encode h" "nm1 = nm'"
    using assms(1) by (auto simp: GenerateNonce_def key Let_def r_def h_def n unix_sec_def n(2) [symmetric])
  have sec: "map_of (nm_secrets nm') agent = Some key" "nm_replay nm' = nm_replay nm"
    using key by (auto simp: getOrCreateKey_def split: option.splits)
  have "nonce_valid hmac nm1 later nonce agent session"
  proof (rule nonce_validI)
    show "nonce \<noteq> []" by (simp add: out)
    show "splitNonce nonce = Some (r, show_nat n, hex_encode h)"
      unfolding out by (rule splitNonce_join) (simp_all add: r_def base64url_not_dot digits_not_dot)
    show "Sscanf_d (show_nat n) = Some (int n)" by (rule Sscanf_show_nat) (rule i)
    show "nonceWithinWindow (int n) (unix_sec later)"
      using assms(6,7) i by (simp add: nonceWithinWindow_def unix_sec_def n)
    show "map_of (nm_secrets nm1) agent = Some key" using sec out by simp
    show "hex_decode (hex_encode h) = Some (hmac key (signed_data agent session r (int n)))" by (simp add: h_def)
  qed
  moreover have "fst (recordAndCheckReplay nm1 later agent nonce)"
    using assms(8) sec out by (simp add: recordAndCheckReplay_def Let_def)
  ultimately show ?thesis
    by (cases "recordAndCheckReplay nm1 later agent nonce") (simp add: VerifyNonceContext_def)
qed

theorem generated_nonce_verifies_witness:
  "fst (VerifyNonceContext sample_hmac (None :: (unit, unit) replay_checker option)
      (snd (GenerateNonce sample_hmac NewNonceManager ''k'' ''abc'' (100 * second) ''ag'' ''se'')) () (135 * second) (135 * second)
      ''YWJj.100.6b'' ''ag'' ''se'') = Inr True"
proof (rule generated_nonce_verifies)
  show "GenerateNonce sample_hmac NewNonceManager ''k'' ''abc'' (100 * second) ''ag'' ''se'' =
      (''YWJj.100.6b'', snd (GenerateNonce sample_hmac NewNonceManager ''k'' ''abc'' (100 * second) ''ag'' ''se''))"
    using sample_nonce by (metis prod.collapse)
qed (simp_all add: second_value nonceReplayTTL_def is_i64_def NewNonceManager_def)

text \<open>One use per nonce is not one use per signature: the number in the middle is read up to its last
  digit, so the nonce with anything but a digit put after the number carries the same
  signature, but is another text for the shared table. After a heartbeat was admitted with a
  nonce, it is admitted again with each such text.\<close>

definition respelled :: "string \<Rightarrow> string \<Rightarrow> string \<Rightarrow> string \<Rightarrow> string" where
  "respelled r ts junk h = r @ dot # (ts @ junk) @ dot # h"

lemma respelled_valid:
  assumes "nonce_valid hmac nm now nonce agent session" and "splitNonce nonce = Some (r, ts, h)"
    and "ts = c # cs" and "is_digit c" and "junk \<noteq> []" and "\<not> is_digit (hd junk)" and "dot \<notin> set junk"
  shows "nonce_valid hmac nm now (respelled r ts junk h) agent session"
proof -
  obtain t key where v: "Sscanf_d ts = Some t" "nonceWithinWindow t (unix_sec now)" "map_of (nm_secrets nm) agent = Some key"
    "hex_decode h = Some (hmac key (signed_data agent session r t))"
    using assms(1,2) by (auto elim!: nonce_valid_cases)
  have "Sscanf_d (ts @ junk) = Sscanf_d ts"
    using scan_number_junk [OF assms(6,5), of False ts] assms(3,4) by (simp add: Sscanf_digits)
  moreover have "splitNonce (respelled r ts junk h) = Some (r, ts @ junk, h)"
    unfolding respelled_def using splitNonce_parts [OF assms(2)] assms(7) by (intro splitNonce_join) auto
  ultimately show ?thesis using v by (intro nonce_validI) (auto simp: respelled_def)
qed

theorem respelled_nonce_is_admitted:
  assumes "heartbeat_admitted hmac (Some (ConsumeNonce ctx clock)) sessions nm db now1 now2 agentID agent session nonce = (Inr (), nm1, db1)"
    and "session \<noteq> []" and "nonce \<noteq> []" and "splitNonce nonce = Some (r, c # cs, h)" and "is_digit c"
    and "junk \<noteq> []" and "\<not> is_digit (hd junk)" and "dot \<notin> set junk"
    and "map_of (nr_rows db) (tenant_id ctx, agent, respelled r (c # cs) junk h) = None"
  shows "respelled r (c # cs) junk h \<noteq> nonce \<and>
    fst (heartbeat_admitted hmac (Some (ConsumeNonce ctx clock)) sessions nm1 db1 now1 now2 agentID agent session
      (respelled r (c # cs) junk h)) = Inr ()"
proof -
  let ?n = "respelled r (c # cs) junk h"
  have other: "?n \<noteq> nonce" using splitNonce_parts(1) [OF assms(4)] assms(6) by (simp add: respelled_def)
  have ses: "heartbeat_session sessions agentID session = None"
    using assms(1,2) by (auto simp: heartbeat_admitted_def split: option.splits)
  have valid: "nonce_valid hmac nm now1 nonce agent session"
    using assms(1-3) ses by (auto simp: heartbeat_admitted_def VerifyNonceContext_def split: if_splits)
  have ok: "ConsumeNonce ctx clock db agent nonce (now2 + nm_replayTTL nm) = (Inr True, db1)" "nm1 = nm"
    using assms(1-3) ses valid
    by (auto simp: heartbeat_admitted_def VerifyNonceContext_def split: prod.splits sum.splits if_splits)
  then have row: "fst (ConsumeNonce ctx clock db1 agent ?n (now2 + nm_replayTTL nm)) = Inr True"
    using assms(9) other by (auto simp: ConsumeNonce_def respelled_def split: if_splits)
  have "nonce_valid hmac nm now1 ?n agent session"
    by (rule respelled_valid [OF valid assms(4) refl assms(5-8)])
  then have "fst (heartbeat_admitted hmac (Some (ConsumeNonce ctx clock)) sessions nm db1 now1 now2 agentID agent session ?n) = Inr ()"
    using row assms(2) ses by (auto simp: heartbeat_admitted_def VerifyNonceContext_def split: prod.splits)
  with other ok(2) show ?thesis by simp
qed

definition sample_nonce_table :: nonce_table where
  "sample_nonce_table = \<lparr>nr_fault = False, nr_organizations = [''default''], nr_rows = []\<rparr>"

definition sample_admission :: "(heartbeat_error, unit) result \<times> NonceManager \<times> nonce_table" where
  "sample_admission =
     heartbeat_admitted sample_hmac (Some (ConsumeNonce None (110 * second)))
       [\<lparr>se_SessionID = ''se'', se_AgentID = 7, se_State = ''ACTIVE''\<rparr>]
       (foldl (nonce_step sample_hmac) NewNonceManager sample_nonce_ops) sample_nonce_table (110 * second) (110 * second)
       7 ''ag'' ''se'' ''YWJj.100.6b''"

theorem respelled_nonce_is_admitted_witness:
  "fst (heartbeat_admitted sample_hmac (Some (ConsumeNonce None (110 * second)))
      [\<lparr>se_SessionID = ''se'', se_AgentID = 7, se_State = ''ACTIVE''\<rparr>] (fst (snd sample_admission)) (snd (snd sample_admission))
      (110 * second) (110 * second) 7 ''ag'' ''se'' ''YWJj.100x.6b'') = Inr ()"
proof -
  have "fst sample_admission = Inr ()" by code_simp
  then have a: "sample_admission = (Inr (), fst (snd sample_admission), snd (snd sample_admission))" by (metis prod.collapse)
  have s: "splitNonce ''YWJj.100.6b'' = Some (''YWJj'', CHR ''1'' # ''00'', ''6b'')" by code_simp
  have d: "is_digit (CHR ''1'')" "\<not> is_digit (hd ''x'')" "dot \<notin> set ''x''" by code_simp+
  have m: "map_of (nr_rows sample_nonce_table) (tenant_id None, ''ag'', respelled ''YWJj'' (CHR ''1'' # ''00'') ''x'' ''6b'') = None"
    by (simp add: sample_nonce_table_def)
  have "respelled ''YWJj'' (CHR ''1'' # ''00'') ''x'' ''6b'' = ''YWJj.100x.6b''" by code_simp
  with respelled_nonce_is_admitted [OF a [unfolded sample_admission_def] _ _ s d(1) _ d(2,3) m]
  show ?thesis unfolding sample_admission_def by simp
qed

end
