(* ===== verification/Command_Bus.thy ===== *)
theory Command_Bus
  imports Prelude "HOL-Library.Sublist"
begin

text \<open>
  The live streams of the dispatcher, \<open>backend/manager/component/dispatcher/command_bus.go\<close>, and its
  correlation of requests with replies, \<open>pending_replies.go\<close>. A Go channel is a record with
  its buffer, reached through a number that stands for its address; a send on a closed channel
  and a second close panic, which the bus records. Output and events of commands use the same
  code, so one model of the messages' type serves both.

  Shown here: no interleaving of subscribers and broadcasters panics, a watcher gets a
  subsequence of what was broadcast and the counter tells how much is missing, and a reply
  reaches only the call that waits for it.
\<close>

section \<open>Channels\<close>

record 'm channel =
  ch_buffer :: "'m list"
  ch_closed :: bool

definition watcherBufSize :: nat where
  "watcherBufSize = 256"

text \<open>The table of watchers of a command holds, per watcher, its channel and its counter of
  dropped messages.\<close>

record 'm command_bus =
  cb_watchers :: "(string \<times> (nat \<times> int) list) list"
  cb_channels :: "'m channel list"
  cb_panicked :: bool

definition newCommandBus :: "'m command_bus" where
  "newCommandBus = \<lparr>cb_watchers = [], cb_channels = [], cb_panicked = False\<rparr>"

definition watchers_of :: "'m command_bus \<Rightarrow> string \<Rightarrow> (nat \<times> int) list" where
  "watchers_of b commandID = (case map_of (cb_watchers b) commandID of None \<Rightarrow> [] | Some ws \<Rightarrow> ws)"

definition close_channel :: "nat \<Rightarrow> 'm command_bus \<Rightarrow> 'm command_bus" where
  "close_channel i b =
     (let c = cb_channels b ! i in
      if ch_closed c then b\<lparr>cb_panicked := True\<rparr>
      else b\<lparr>cb_channels := (cb_channels b)[i := c\<lparr>ch_closed := True\<rparr>]\<rparr>)"

section \<open>The bus\<close>

definition subscribe_bus :: "'m command_bus \<Rightarrow> string \<Rightarrow> nat \<times> 'm command_bus" where
  "subscribe_bus b commandID =
     (let i = length (cb_channels b) in
      (i, b\<lparr>cb_channels := cb_channels b @ [\<lparr>ch_buffer = [], ch_closed = False\<rparr>],
           cb_watchers := assoc_set commandID (watchers_of b commandID @ [(i, 0)]) (cb_watchers b)\<rparr>))"

definition unsubscribe_bus :: "'m command_bus \<Rightarrow> string \<Rightarrow> nat \<Rightarrow> 'm command_bus" where
  "unsubscribe_bus b commandID i =
     (case map_of (cb_watchers b) commandID of
        None \<Rightarrow> b
      | Some ws \<Rightarrow>
          let b1 = (if list_ex (\<lambda>w. fst w = i) ws then close_channel i b else b);
              ws1 = filter (\<lambda>w. fst w \<noteq> i) ws
          in b1\<lparr>cb_watchers := (if ws1 = [] then assoc_del commandID (cb_watchers b)
                               else assoc_set commandID ws1 (cb_watchers b))\<rparr>)"

text \<open>\<open>drop\<close> logs the first dropped message and every doubling after it.\<close>

definition watcher_drop :: "int \<Rightarrow> int \<times> bool" where
  "watcher_drop dropped = (let n = i64 (dropped + 1) in (n, and n (n - 1) = 0))"

fun broadcast_loop :: "'m \<Rightarrow> (nat \<times> int) list \<Rightarrow> 'm channel list \<Rightarrow> bool \<Rightarrow> (nat \<times> int) list \<times> 'm channel list \<times> bool" where
  "broadcast_loop m [] cs p = ([], cs, p)"
| "broadcast_loop m ((i, dropped) # ws) cs p =
     (let c = cs ! i in
      if ch_closed c then
        (case broadcast_loop m ws cs True of (ws', cs', p') \<Rightarrow> ((i, dropped) # ws', cs', p'))
      else if length (ch_buffer c) < watcherBufSize then
        (case broadcast_loop m ws (cs[i := c\<lparr>ch_buffer := ch_buffer c @ [m]\<rparr>]) p of
           (ws', cs', p') \<Rightarrow> ((i, dropped) # ws', cs', p'))
      else
        (case broadcast_loop m ws cs p of (ws', cs', p') \<Rightarrow> ((i, fst (watcher_drop dropped)) # ws', cs', p')))"

definition broadcast_bus :: "'m command_bus \<Rightarrow> string \<Rightarrow> 'm \<Rightarrow> 'm command_bus" where
  "broadcast_bus b commandID m =
     (case map_of (cb_watchers b) commandID of
        None \<Rightarrow> b
      | Some ws \<Rightarrow>
          (case broadcast_loop m ws (cb_channels b) (cb_panicked b) of
             (ws', cs', p') \<Rightarrow>
               b\<lparr>cb_watchers := assoc_set commandID ws' (cb_watchers b), cb_channels := cs', cb_panicked := p'\<rparr>))"

definition close_bus :: "'m command_bus \<Rightarrow> string \<Rightarrow> 'm command_bus" where
  "close_bus b commandID =
     (foldl (\<lambda>b w. close_channel (fst w) b) b (watchers_of b commandID))
       \<lparr>cb_watchers := assoc_del commandID (cb_watchers b)\<rparr>"

text \<open>What the consumer of a channel does.\<close>

definition receive_bus :: "'m command_bus \<Rightarrow> nat \<Rightarrow> 'm option \<times> 'm command_bus" where
  "receive_bus b i =
     (if i < length (cb_channels b) then
        (case ch_buffer (cb_channels b ! i) of
           [] \<Rightarrow> (None, b)
         | m # ms \<Rightarrow> (Some m, b\<lparr>cb_channels := (cb_channels b)[i := (cb_channels b ! i)\<lparr>ch_buffer := ms\<rparr>]\<rparr>))
      else (None, b))"

datatype 'm bus_op =
    BusSubscribe string
  | BusUnsubscribe string nat
  | BusBroadcast string 'm
  | BusClose string
  | BusReceive nat

fun bus_step :: "'m command_bus \<Rightarrow> 'm bus_op \<Rightarrow> 'm command_bus" where
  "bus_step b (BusSubscribe c) = snd (subscribe_bus b c)"
| "bus_step b (BusUnsubscribe c i) = unsubscribe_bus b c i"
| "bus_step b (BusBroadcast c m) = broadcast_bus b c m"
| "bus_step b (BusClose c) = close_bus b c"
| "bus_step b (BusReceive i) = snd (receive_bus b i)"

section \<open>Replies\<close>

text \<open>The calls that wait, each with a channel for one reply.\<close>

record 'm pendingReplies =
  pr_m :: "(string \<times> nat) list"
  pr_channels :: "'m option list"

definition newPendingReplies :: "'m pendingReplies" where
  "newPendingReplies = \<lparr>pr_m = [], pr_channels = []\<rparr>"

definition register_reply :: "'m pendingReplies \<Rightarrow> string \<Rightarrow> nat \<times> 'm pendingReplies" where
  "register_reply p requestID =
     (let i = length (pr_channels p) in
      (i, p\<lparr>pr_m := assoc_set requestID i (pr_m p), pr_channels := pr_channels p @ [None]\<rparr>))"

definition cancel_reply :: "'m pendingReplies \<Rightarrow> string \<Rightarrow> 'm pendingReplies" where
  "cancel_reply p requestID = p\<lparr>pr_m := assoc_del requestID (pr_m p)\<rparr>"

definition complete_reply :: "'m pendingReplies \<Rightarrow> string \<Rightarrow> 'm \<Rightarrow> 'm pendingReplies" where
  "complete_reply p requestID msg =
     (case map_of (pr_m p) requestID of
        None \<Rightarrow> p
      | Some i \<Rightarrow>
          p\<lparr>pr_m := assoc_del requestID (pr_m p),
            pr_channels := (if pr_channels p ! i = None then (pr_channels p)[i := Some msg] else pr_channels p)\<rparr>)"

datatype 'm reply_op = ReplyRegister string | ReplyCancel string | ReplyComplete string 'm

fun reply_step :: "'m pendingReplies \<Rightarrow> 'm reply_op \<Rightarrow> 'm pendingReplies" where
  "reply_step p (ReplyRegister r) = snd (register_reply p r)"
| "reply_step p (ReplyCancel r) = cancel_reply p r"
| "reply_step p (ReplyComplete r m) = complete_reply p r m"

section \<open>The invariant of the bus\<close>

definition watches :: "'m command_bus \<Rightarrow> string \<Rightarrow> nat \<Rightarrow> bool" where
  "watches b c i \<longleftrightarrow> i \<in> fst ` set (watchers_of b c)"

definition open_channel :: "'m channel list \<Rightarrow> nat \<Rightarrow> bool" where
  "open_channel cs i \<longleftrightarrow> i < length cs \<and> \<not> ch_closed (cs ! i)"

text \<open>Every channel in the tables is open and is there once.\<close>

definition bus_inv :: "'m command_bus \<Rightarrow> bool" where
  "bus_inv b \<longleftrightarrow> \<not> cb_panicked b \<and>
     (\<forall>c. distinct (map fst (watchers_of b c))) \<and>
     (\<forall>c i. watches b c i \<longrightarrow> open_channel (cb_channels b) i) \<and>
     (\<forall>c c' i. watches b c i \<longrightarrow> watches b c' i \<longrightarrow> c = c')"

lemma watchers_of_subscribe:
  "watchers_of (snd (subscribe_bus b c)) c' =
     (if c' = c then watchers_of b c @ [(length (cb_channels b), 0)] else watchers_of b c')"
  by (simp add: subscribe_bus_def watchers_of_def Let_def)

lemma cb_watchers_close [simp]: "cb_watchers (close_channel i b) = cb_watchers b"
  by (simp add: close_channel_def Let_def)

lemma watchers_of_unsubscribe:
  "watchers_of (unsubscribe_bus b c i) c' =
     (if c' = c then filter (\<lambda>w. fst w \<noteq> i) (watchers_of b c) else watchers_of b c')"
  by (auto simp: unsubscribe_bus_def watchers_of_def Let_def split: option.splits)

lemma watchers_of_close: "watchers_of (close_bus b c) c' = (if c' = c then [] else watchers_of b c')"
  by (simp add: close_bus_def watchers_of_def)

lemma broadcast_loop_effect:
  assumes "distinct (map fst ws)" and "\<And>i. i \<in> fst ` set ws \<Longrightarrow> open_channel cs i"
    and "broadcast_loop m ws cs p = (ws', cs', p')"
  shows "map fst ws' = map fst ws \<and> p' = p \<and> length cs' = length cs \<and>
    (\<forall>i. i \<notin> fst ` set ws \<longrightarrow> cs' ! i = cs ! i) \<and>
    (\<forall>i d. (i, d) \<in> set ws \<longrightarrow>
       (if length (ch_buffer (cs ! i)) < watcherBufSize
        then cs' ! i = (cs ! i)\<lparr>ch_buffer := ch_buffer (cs ! i) @ [m]\<rparr> \<and> (i, d) \<in> set ws'
        else cs' ! i = cs ! i \<and> (i, fst (watcher_drop d)) \<in> set ws'))"
  using assms
proof (induction ws arbitrary: cs ws' cs' p')
  case (Cons w ws)
  obtain i d where w: "w = (i, d)" by fastforce
  have ch: "\<not> ch_closed (cs ! i)" "i < length cs" using Cons.prems(2) [of i] by (auto simp: w open_channel_def)
  define cs1 where "cs1 = (if length (ch_buffer (cs ! i)) < watcherBufSize
    then cs[i := (cs ! i)\<lparr>ch_buffer := ch_buffer (cs ! i) @ [m]\<rparr>] else cs)"
  define d1 where "d1 = (if length (ch_buffer (cs ! i)) < watcherBufSize then d else fst (watcher_drop d))"
  obtain ws1 cs2 p2 where rec: "broadcast_loop m ws cs1 p = (ws1, cs2, p2)" by (cases "broadcast_loop m ws cs1 p")
  have res: "ws' = (i, d1) # ws1" "cs' = cs2" "p' = p2"
    using Cons.prems(3) rec ch by (auto simp: w cs1_def d1_def Let_def split: if_splits)
  have other: "cs1 ! j = cs ! j" if "j \<noteq> i" for j using that by (simp add: cs1_def)
  have notin: "i \<notin> fst ` set ws" using Cons.prems(1) by (simp add: w)
  have len: "length cs1 = length cs" by (simp add: cs1_def)
  have "open_channel cs1 j" if "j \<in> fst ` set ws" for j
  proof -
    have "j \<noteq> i" using that notin by blast
    moreover have "open_channel cs j" using Cons.prems(2) [of j] that by simp
    ultimately show ?thesis by (simp add: open_channel_def len other)
  qed
  then have IH: "map fst ws1 = map fst ws \<and> p2 = p \<and> length cs2 = length cs1 \<and>
    (\<forall>i. i \<notin> fst ` set ws \<longrightarrow> cs2 ! i = cs1 ! i) \<and>
    (\<forall>i d. (i, d) \<in> set ws \<longrightarrow>
       (if length (ch_buffer (cs1 ! i)) < watcherBufSize
        then cs2 ! i = (cs1 ! i)\<lparr>ch_buffer := ch_buffer (cs1 ! i) @ [m]\<rparr> \<and> (i, d) \<in> set ws1
        else cs2 ! i = cs1 ! i \<and> (i, fst (watcher_drop d)) \<in> set ws1))"
    using Cons.prems(1) by (intro Cons.IH [OF _ _ rec]) (auto simp: w)
  show ?case
  proof (intro conjI allI impI)
    show "map fst ws' = map fst (w # ws)" "p' = p" "length cs' = length cs" using IH by (simp_all add: res w len)
    show "cs' ! j = cs ! j" if "j \<notin> fst ` set (w # ws)" for j using IH that other [of j] by (simp add: res w)
    fix j e assume je: "(j, e) \<in> set (w # ws)"
    show "if length (ch_buffer (cs ! j)) < watcherBufSize
        then cs' ! j = (cs ! j)\<lparr>ch_buffer := ch_buffer (cs ! j) @ [m]\<rparr> \<and> (j, e) \<in> set ws'
        else cs' ! j = cs ! j \<and> (j, fst (watcher_drop e)) \<in> set ws'"
    proof (cases "j = i")
      case True
      with je notin have "e = d" by (force simp: w)
      with True IH notin ch show ?thesis by (simp add: res d1_def cs1_def)
    next
      case False
      with je have "(j, e) \<in> set ws" by (simp add: w)
      with IH other [OF False] show ?thesis by (auto simp: res split: if_splits)
    qed
  qed
qed simp

text \<open>A broadcast, seen from each channel.\<close>

lemma broadcast_effect:
  assumes "bus_inv b"
  shows "cb_panicked (broadcast_bus b c m) = cb_panicked b"
    and "map fst (watchers_of (broadcast_bus b c m) c') = map fst (watchers_of b c')"
    and "c' \<noteq> c \<Longrightarrow> watchers_of (broadcast_bus b c m) c' = watchers_of b c'"
    and "length (cb_channels (broadcast_bus b c m)) = length (cb_channels b)"
    and "\<not> watches b c i \<Longrightarrow> cb_channels (broadcast_bus b c m) ! i = cb_channels b ! i"
    and "(i, d) \<in> set (watchers_of b c) \<Longrightarrow>
      (if length (ch_buffer (cb_channels b ! i)) < watcherBufSize
       then cb_channels (broadcast_bus b c m) ! i = (cb_channels b ! i)\<lparr>ch_buffer := ch_buffer (cb_channels b ! i) @ [m]\<rparr> \<and>
         (i, d) \<in> set (watchers_of (broadcast_bus b c m) c)
       else cb_channels (broadcast_bus b c m) ! i = cb_channels b ! i \<and>
         (i, fst (watcher_drop d)) \<in> set (watchers_of (broadcast_bus b c m) c))"
proof -
  obtain ws' cs' p' where loop: "broadcast_loop m (watchers_of b c) (cb_channels b) (cb_panicked b) = (ws', cs', p')"
    by (metis prod_cases3)
  have eff: "broadcast_bus b c m = (if map_of (cb_watchers b) c = None then b
      else b\<lparr>cb_watchers := assoc_set c ws' (cb_watchers b), cb_channels := cs', cb_panicked := p'\<rparr>)"
    using loop by (auto simp: broadcast_bus_def watchers_of_def split: option.splits prod.splits)
  have none: "map_of (cb_watchers b) c = None \<Longrightarrow> watchers_of b c = []" by (simp add: watchers_of_def)
  have "\<And>i. i \<in> fst ` set (watchers_of b c) \<Longrightarrow> open_channel (cb_channels b) i" "distinct (map fst (watchers_of b c))"
    using assms by (auto simp: bus_inv_def watches_def)
  note loop' = broadcast_loop_effect [OF this(2,1) loop]
  have wo: "watchers_of (broadcast_bus b c m) c' = (if c' = c \<and> map_of (cb_watchers b) c \<noteq> None then ws' else watchers_of b c')" for c'
    by (cases "map_of (cb_watchers b) c") (simp_all add: eff watchers_of_def)
  show "cb_panicked (broadcast_bus b c m) = cb_panicked b" using loop' by (simp add: eff)
  show "map fst (watchers_of (broadcast_bus b c m) c') = map fst (watchers_of b c')" using loop' by (simp add: wo)
  show "c' \<noteq> c \<Longrightarrow> watchers_of (broadcast_bus b c m) c' = watchers_of b c'" by (simp add: wo)
  show "length (cb_channels (broadcast_bus b c m)) = length (cb_channels b)" using loop' by (simp add: eff)
  show "\<not> watches b c i \<Longrightarrow> cb_channels (broadcast_bus b c m) ! i = cb_channels b ! i"
    using loop' by (simp add: eff watches_def)
  assume d: "(i, d) \<in> set (watchers_of b c)"
  then have "map_of (cb_watchers b) c \<noteq> None" using none by (cases "map_of (cb_watchers b) c") auto
  moreover have "if length (ch_buffer (cb_channels b ! i)) < watcherBufSize
        then cs' ! i = (cb_channels b ! i)\<lparr>ch_buffer := ch_buffer (cb_channels b ! i) @ [m]\<rparr> \<and> (i, d) \<in> set ws'
        else cs' ! i = cb_channels b ! i \<and> (i, fst (watcher_drop d)) \<in> set ws'"
    using loop' d by blast
  ultimately show "if length (ch_buffer (cb_channels b ! i)) < watcherBufSize
       then cb_channels (broadcast_bus b c m) ! i = (cb_channels b ! i)\<lparr>ch_buffer := ch_buffer (cb_channels b ! i) @ [m]\<rparr> \<and>
         (i, d) \<in> set (watchers_of (broadcast_bus b c m) c)
       else cb_channels (broadcast_bus b c m) ! i = cb_channels b ! i \<and>
         (i, fst (watcher_drop d)) \<in> set (watchers_of (broadcast_bus b c m) c)"
    unfolding wo by (simp add: eff)
qed

lemma close_channel_buffer: "ch_buffer (cb_channels (close_channel j b) ! i) = ch_buffer (cb_channels b ! i)"
  by (cases "j < length (cb_channels b)") (auto simp: close_channel_def Let_def nth_list_update list_update_beyond)

lemma close_channel_open:
  assumes "open_channel (cb_channels b) i"
  shows "cb_panicked (close_channel i b) = cb_panicked b"
    and "open_channel (cb_channels (close_channel i b)) j \<longleftrightarrow> j \<noteq> i \<and> open_channel (cb_channels b) j"
    and "ch_buffer (cb_channels (close_channel i b) ! j) = ch_buffer (cb_channels b ! j)"
  using assms by (auto simp: close_channel_def open_channel_def Let_def nth_list_update)

lemma close_channels_effect:
  assumes "distinct (map fst ws)" and "\<And>i. i \<in> fst ` set ws \<Longrightarrow> open_channel (cb_channels b) i"
  shows "cb_panicked (foldl (\<lambda>b w. close_channel (fst w) b) b ws) = cb_panicked b \<and>
    (\<forall>j. open_channel (cb_channels (foldl (\<lambda>b w. close_channel (fst w) b) b ws)) j \<longleftrightarrow>
      j \<notin> fst ` set ws \<and> open_channel (cb_channels b) j) \<and>
    (\<forall>j. ch_buffer (cb_channels (foldl (\<lambda>b w. close_channel (fst w) b) b ws) ! j) = ch_buffer (cb_channels b ! j))"
  using assms
proof (induction ws arbitrary: b)
  case (Cons w ws)
  have o: "open_channel (cb_channels b) (fst w)" using Cons.prems(2) by simp
  have rest: "open_channel (cb_channels (close_channel (fst w) b)) i" if "i \<in> fst ` set ws" for i
  proof -
    have "fst w \<notin> fst ` set ws" using Cons.prems(1) by simp
    with that have "i \<noteq> fst w" by blast
    then show ?thesis using Cons.prems(2) [of i] that by (simp add: close_channel_open(2) [OF o])
  qed
  show ?case
    using Cons.IH [OF _ rest] Cons.prems(1) by (auto simp: close_channel_open [OF o])
qed simp

lemmas close_channels = close_channels_effect [THEN conjunct1] close_channels_effect [THEN conjunct2, THEN conjunct1, rule_format]
  close_channels_effect [THEN conjunct2, THEN conjunct2, rule_format]

lemma bus_invD:
  assumes "bus_inv b"
  shows "\<not> cb_panicked b" and "distinct (map fst (watchers_of b c))"
    and "watches b c i \<Longrightarrow> open_channel (cb_channels b) i" and "watches b c i \<Longrightarrow> watches b c' i \<Longrightarrow> c = c'"
  using assms unfolding bus_inv_def by blast+

lemma subscribe_inv:
  assumes "bus_inv b"
  shows "bus_inv (snd (subscribe_bus b c))"
proof -
  let ?n = "length (cb_channels b)"
  have fresh: "\<not> watches b c' ?n" for c' using bus_invD(3) [OF assms, of c' ?n] by (auto simp: open_channel_def)
  have w: "watches (snd (subscribe_bus b c)) c' i \<longleftrightarrow> watches b c' i \<or> c' = c \<and> i = ?n" for c' i
    by (auto simp: watches_def watchers_of_subscribe)
  have o: "open_channel (cb_channels (snd (subscribe_bus b c))) i \<longleftrightarrow> open_channel (cb_channels b) i \<or> i = ?n" for i
    by (auto simp: subscribe_bus_def Let_def open_channel_def nth_append)
  show ?thesis unfolding bus_inv_def
  proof (intro conjI allI impI)
    show "\<not> cb_panicked (snd (subscribe_bus b c))" using bus_invD(1) [OF assms] by (simp add: subscribe_bus_def Let_def)
    show "distinct (map fst (watchers_of (snd (subscribe_bus b c)) c'))" for c'
      using bus_invD(2) [OF assms] fresh [of c] by (auto simp: watchers_of_subscribe watches_def)
    show "open_channel (cb_channels (snd (subscribe_bus b c))) i" if "watches (snd (subscribe_bus b c)) c' i" for c' i
      using that bus_invD(3) [OF assms] unfolding w o by blast
    show "c1 = c2" if "watches (snd (subscribe_bus b c)) c1 i" "watches (snd (subscribe_bus b c)) c2 i" for c1 c2 i
      using that bus_invD(4) [OF assms] fresh unfolding w by blast
  qed
qed

lemma unsubscribe_inv:
  assumes "bus_inv b"
  shows "bus_inv (unsubscribe_bus b c i)"
proof -
  have w: "watches (unsubscribe_bus b c i) c' j \<longleftrightarrow> watches b c' j \<and> (c' = c \<longrightarrow> j \<noteq> i)" for c' j
    by (auto simp: watches_def watchers_of_unsubscribe)
  have ch: "cb_channels (unsubscribe_bus b c i) = (if watches b c i then cb_channels (close_channel i b) else cb_channels b) \<and>
      cb_panicked (unsubscribe_bus b c i) = (if watches b c i then cb_panicked (close_channel i b) else cb_panicked b)"
    by (auto simp: unsubscribe_bus_def watches_def watchers_of_def Let_def list_ex_iff split: option.splits)
  have close: "watches b c i \<Longrightarrow> open_channel (cb_channels b) i" using bus_invD(3) [OF assms] .
  have o: "open_channel (cb_channels (unsubscribe_bus b c i)) j \<longleftrightarrow>
      open_channel (cb_channels b) j \<and> \<not> (watches b c i \<and> j = i)" for j
    using ch close_channel_open(2) [OF close] by auto
  show ?thesis unfolding bus_inv_def
  proof (intro conjI allI impI)
    show "\<not> cb_panicked (unsubscribe_bus b c i)"
      using bus_invD(1) [OF assms] ch close_channel_open(1) [OF close] by simp
    show "distinct (map fst (watchers_of (unsubscribe_bus b c i) c'))" for c'
      using bus_invD(2) [OF assms] by (auto simp: watchers_of_unsubscribe intro: distinct_map_filter)
    show "open_channel (cb_channels (unsubscribe_bus b c i)) j" if "watches (unsubscribe_bus b c i) c' j" for c' j
      using that bus_invD(3,4) [OF assms] unfolding w o by blast
    show "c1 = c2" if "watches (unsubscribe_bus b c i) c1 j" "watches (unsubscribe_bus b c i) c2 j" for c1 c2 j
      using that bus_invD(4) [OF assms] unfolding w by blast
  qed
qed

lemma broadcast_inv:
  assumes "bus_inv b"
  shows "bus_inv (broadcast_bus b c m)"
proof -
  note eff = broadcast_effect [OF assms, where c = c and m = m]
  have w: "watches (broadcast_bus b c m) c' i \<longleftrightarrow> watches b c' i" for c' i
    using eff(2) [of c'] by (metis watches_def set_map)
  have closed: "ch_closed (cb_channels (broadcast_bus b c m) ! i) = ch_closed (cb_channels b ! i)" for i
  proof (cases "watches b c i")
    case True
    then obtain d where "(i, d) \<in> set (watchers_of b c)" by (auto simp: watches_def)
    from eff(6) [OF this] show ?thesis by (auto split: if_splits)
  qed (simp add: eff(5))
  show ?thesis
    using assms unfolding bus_inv_def w open_channel_def closed eff(1,2,4) .
qed

lemma close_inv:
  assumes "bus_inv b"
  shows "bus_inv (close_bus b c)"
proof -
  have op: "\<And>i. i \<in> fst ` set (watchers_of b c) \<Longrightarrow> open_channel (cb_channels b) i"
    using bus_invD(3) [OF assms] by (auto simp: watches_def)
  note cl = close_channels [OF bus_invD(2) [OF assms, of c] op]
  have w: "watches (close_bus b c) c' j \<longleftrightarrow> c' \<noteq> c \<and> watches b c' j" for c' j
    by (simp add: watches_def watchers_of_close)
  show ?thesis unfolding bus_inv_def
  proof (intro conjI allI impI)
    show "\<not> cb_panicked (close_bus b c)" using bus_invD(1) [OF assms] cl(1) by (simp add: close_bus_def)
    show "distinct (map fst (watchers_of (close_bus b c) c'))" for c'
      using bus_invD(2) [OF assms] by (simp add: watchers_of_close)
    show "open_channel (cb_channels (close_bus b c)) j" if "watches (close_bus b c) c' j" for c' j
    proof -
      have "c' \<noteq> c" "watches b c' j" using that by (simp_all add: w)
      then have "\<not> watches b c j" using bus_invD(4) [OF assms] by blast
      then show ?thesis using cl(2) [of j] bus_invD(3) [OF assms \<open>watches b c' j\<close>] by (simp add: close_bus_def watches_def)
    qed
    show "c1 = c2" if "watches (close_bus b c) c1 j" "watches (close_bus b c) c2 j" for c1 c2 j
      using that bus_invD(4) [OF assms] unfolding w by blast
  qed
qed

lemma receive_effect:
  "watchers_of (snd (receive_bus b i)) c = watchers_of b c"
  "cb_panicked (snd (receive_bus b i)) = cb_panicked b"
  "open_channel (cb_channels (snd (receive_bus b i))) j = open_channel (cb_channels b) j"
  "j \<noteq> i \<Longrightarrow> cb_channels (snd (receive_bus b i)) ! j = cb_channels b ! j"
  by (auto simp: receive_bus_def watchers_of_def open_channel_def nth_list_update split: list.splits)

lemma receive_inv: "bus_inv b \<Longrightarrow> bus_inv (snd (receive_bus b i))"
  unfolding bus_inv_def watches_def receive_effect .

lemma bus_inv_step: "bus_inv b \<Longrightarrow> bus_inv (bus_step b op)"
  by (cases op) (simp_all add: subscribe_inv unsubscribe_inv broadcast_inv close_inv receive_inv)

lemma bus_inv_new: "bus_inv newCommandBus"
  by (simp add: bus_inv_def newCommandBus_def watches_def watchers_of_def)

interpretation bus: component bus_step bus_inv "\<lambda>_. True" "\<lambda>b. b = newCommandBus"
  by unfold_locales (auto intro: bus_inv_step bus_inv_new)

section \<open>What a watcher gets\<close>

fun got :: "'m command_bus \<Rightarrow> nat \<Rightarrow> 'm bus_op list \<Rightarrow> 'm list" where
  "got b i [] = []"
| "got b i (op # ops) =
     (case op of
        BusReceive j \<Rightarrow> if j = i then (case fst (receive_bus b i) of None \<Rightarrow> [] | Some m \<Rightarrow> [m]) else []
      | _ \<Rightarrow> []) @ got (bus_step b op) i ops"

fun offered :: "string \<Rightarrow> 'm bus_op list \<Rightarrow> 'm list" where
  "offered c [] = []"
| "offered c (BusBroadcast c' m # ops) = (if c' = c then m # offered c ops else offered c ops)"
| "offered c (op # ops) = offered c ops"

definition buffered :: "'m command_bus \<Rightarrow> nat \<Rightarrow> 'm list" where
  "buffered b i = ch_buffer (cb_channels b ! i)"

fun keeps_watching :: "string \<Rightarrow> nat \<Rightarrow> 'm bus_op \<Rightarrow> bool" where
  "keeps_watching c i (BusUnsubscribe c' j) = (c' \<noteq> c \<or> j \<noteq> i)"
| "keeps_watching c i (BusClose c') = (c' \<noteq> c)"
| "keeps_watching c i op = True"

text \<open>The messages for the command that were broadcast while the watcher's channel held fewer than 256.\<close>

fun with_room :: "'m command_bus \<Rightarrow> string \<Rightarrow> nat \<Rightarrow> 'm bus_op list \<Rightarrow> 'm list" where
  "with_room b c i [] = []"
| "with_room b c i (op # ops) =
     (case op of BusBroadcast c' m \<Rightarrow> if c' = c \<and> length (buffered b i) < 256 then [m] else [] | _ \<Rightarrow> [])
     @ with_room (bus_step b op) c i ops"

text \<open>One step, seen by the watcher of one channel: what it receives comes off the front of its
  buffer, what is broadcast is appended or counted as dropped.\<close>

lemma watcher_step:
  assumes "bus_inv b" and "(i, d) \<in> set (watchers_of b c)" and "keeps_watching c i op"
    and "0 \<le> d" and "d < 9223372036854775807"
  shows "\<exists>d'. (i, d') \<in> set (watchers_of (bus_step b op) c) \<and> d \<le> d' \<and> d' \<le> d + int (length (offered c [op])) \<and>
    subseq (with_room b c i [op]) (offered c [op]) \<and>
    int (length (with_room b c i [op])) + d' = int (length (offered c [op])) + d \<and>
    got b i [op] @ buffered (bus_step b op) i = buffered b i @ with_room b c i [op]"
proof -
  have w: "watches b c i" using assms(2) by (force simp: watches_def)
  then have op: "open_channel (cb_channels b) i" by (rule bus_invD(3) [OF assms(1)])
  have stay: ?thesis if "(i, d) \<in> set (watchers_of (bus_step b op) c)" "offered c [op] = []" "with_room b c i [op] = []"
      "got b i [op] @ buffered (bus_step b op) i = buffered b i"
    using that by (intro exI [of _ d]) simp
  show ?thesis
  proof (cases op)
    case (BusSubscribe c')
    have "buffered (snd (subscribe_bus b c')) i = buffered b i"
      using op by (simp add: buffered_def subscribe_bus_def Let_def nth_append open_channel_def)
    then show ?thesis using assms(2) by (intro stay) (auto simp: BusSubscribe watchers_of_subscribe)
  next
    case (BusUnsubscribe c' j)
    have "buffered (unsubscribe_bus b c' j) i = buffered b i"
      by (cases "map_of (cb_watchers b) c'") (simp_all add: unsubscribe_bus_def buffered_def Let_def close_channel_buffer)
    with assms(2,3) show ?thesis by (intro stay) (auto simp: BusUnsubscribe watchers_of_unsubscribe)
  next
    case (BusClose c')
    have "\<And>j. j \<in> fst ` set (watchers_of b c') \<Longrightarrow> open_channel (cb_channels b) j"
      using bus_invD(3) [OF assms(1)] by (auto simp: watches_def)
    from close_channels(3) [OF bus_invD(2) [OF assms(1), of c'] this]
    have "buffered (close_bus b c') i = buffered b i" by (simp add: close_bus_def buffered_def)
    with assms(2,3) show ?thesis by (intro stay) (auto simp: BusClose watchers_of_close)
  next
    case (BusReceive j)
    have "got b i [op] @ buffered (bus_step b op) i = buffered b i"
    proof (cases "j = i")
      case True
      then show ?thesis using op by (auto simp: BusReceive receive_bus_def buffered_def open_channel_def split: list.splits)
    qed (simp add: BusReceive buffered_def receive_effect(4))
    then show ?thesis using assms(2) by (intro stay) (auto simp: BusReceive receive_effect)
  next
    case (BusBroadcast c' m)
    note eff = broadcast_effect [OF assms(1), where c = c' and m = m]
    show ?thesis
    proof (cases "c' = c")
      case False
      then have "\<not> watches b c' i" using bus_invD(4) [OF assms(1) w] by blast
      then show ?thesis using assms(2) False eff(3) [of c]
        by (intro stay) (auto simp: BusBroadcast buffered_def eff(5))
    next
      case True
      have drop: "fst (watcher_drop d) = d + 1"
        using assms(4,5) by (simp add: watcher_drop_def Let_def is_i64_def)
      show ?thesis
      proof (cases "length (ch_buffer (cb_channels b ! i)) < watcherBufSize")
        case less: True
        then show ?thesis using eff(6) [of i d] assms(2) True
          by (intro exI [of _ d] conjI) (auto simp: BusBroadcast buffered_def watcherBufSize_def)
      next
        case False
        then show ?thesis using eff(6) [of i d] assms(2) True drop
          by (intro exI [of _ "d + 1"] conjI) (auto simp: BusBroadcast buffered_def watcherBufSize_def)
      qed
    qed
  qed
qed

lemma offered_Cons: "offered c (op # ops) = offered c [op] @ offered c ops"
  by (cases op) auto

lemma got_Cons: "got b i (op # ops) = got b i [op] @ got (bus_step b op) i ops"
  by simp

lemma with_room_Cons: "with_room b c i (op # ops) = with_room b c i [op] @ with_room (bus_step b op) c i ops"
  by simp

lemma watcher_run:
  assumes "bus_inv b" and "(i, d) \<in> set (watchers_of b c)" and "list_all (keeps_watching c i) ops"
    and "0 \<le> d" and "d + int (length (offered c ops)) < 9223372036854775807"
  shows "\<exists>d'. (i, d') \<in> set (watchers_of (foldl bus_step b ops) c) \<and> d \<le> d' \<and>
    subseq (with_room b c i ops) (offered c ops) \<and>
    int (length (with_room b c i ops)) + d' = int (length (offered c ops)) + d \<and>
    got b i ops @ buffered (foldl bus_step b ops) i = buffered b i @ with_room b c i ops"
  using assms
proof (induction ops arbitrary: b d)
  case (Cons op ops)
  let ?k1 = "with_room b c i [op]" and ?k2 = "with_room (bus_step b op) c i ops"
  have len: "length (offered c (op # ops)) = length (offered c [op]) + length (offered c ops)"
    by (subst offered_Cons) simp
  have lenk: "length (with_room b c i (op # ops)) = length ?k1 + length ?k2" by (subst with_room_Cons) simp
  obtain d1 where one: "(i, d1) \<in> set (watchers_of (bus_step b op) c)" "d \<le> d1" "d1 \<le> d + int (length (offered c [op]))"
      "subseq ?k1 (offered c [op])" "int (length ?k1) + d1 = int (length (offered c [op])) + d"
      "got b i [op] @ buffered (bus_step b op) i = buffered b i @ ?k1"
    using watcher_step [OF Cons.prems(1,2), of op] Cons.prems(3-5) len by (auto simp del: with_room.simps got.simps)
  have fits: "0 \<le> d1" "d1 + int (length (offered c ops)) < 9223372036854775807" using Cons.prems(4,5) one(2,3) len by simp_all
  have keep: "list_all (keeps_watching c i) ops" using Cons.prems(3) by simp
  obtain d2 where rest: "(i, d2) \<in> set (watchers_of (foldl bus_step (bus_step b op) ops) c)" "d1 \<le> d2"
      "subseq ?k2 (offered c ops)" "int (length ?k2) + d2 = int (length (offered c ops)) + d1"
      "got (bus_step b op) i ops @ buffered (foldl bus_step (bus_step b op) ops) i = buffered (bus_step b op) i @ ?k2"
    using Cons.IH [OF bus_inv_step [OF Cons.prems(1)] one(1) keep fits] by blast
  have "subseq (with_room b c i (op # ops)) (offered c (op # ops))"
    using one(4) rest(3) by (subst offered_Cons, subst with_room_Cons) (rule list_emb_append_mono)
  moreover have "got b i (op # ops) @ buffered (foldl bus_step b (op # ops)) i = buffered b i @ with_room b c i (op # ops)"
    using one(6) rest(5) by (subst got_Cons, subst with_room_Cons) (metis append.assoc foldl_Cons)
  ultimately show ?case using one(2,5) rest(1,2,4) len lenk
    by (intro exI [of _ d2] conjI) (simp_all del: with_room.simps got.simps)
qed auto

section \<open>Replies reach their call\<close>

definition replies_inv :: "'m pendingReplies \<Rightarrow> bool" where
  "replies_inv p \<longleftrightarrow>
     (\<forall>r i. map_of (pr_m p) r = Some i \<longrightarrow> i < length (pr_channels p) \<and> pr_channels p ! i = None) \<and>
     (\<forall>r r' i. map_of (pr_m p) r = Some i \<longrightarrow> map_of (pr_m p) r' = Some i \<longrightarrow> r = r')"

lemma replies_inv_step: "replies_inv p \<Longrightarrow> replies_inv (reply_step p op)"
proof (cases op)
  case (ReplyRegister r)
  assume inv: "replies_inv p"
  have "map_of (pr_m p) x \<noteq> Some (length (pr_channels p))" for x
    using inv unfolding replies_inv_def by (metis less_irrefl)
  with inv show ?thesis
    unfolding replies_inv_def ReplyRegister reply_step.simps register_reply_def Let_def
    by (auto simp: nth_append less_Suc_eq)
next
  case (ReplyCancel r)
  assume "replies_inv p"
  then show ?thesis by (auto simp: ReplyCancel replies_inv_def cancel_reply_def)
next
  case (ReplyComplete r m)
  assume inv: "replies_inv p"
  show ?thesis
  proof (cases "map_of (pr_m p) r")
    case None
    with inv show ?thesis by (simp add: ReplyComplete complete_reply_def)
  next
    case (Some i)
    then have other: "map_of (pr_m p) r' \<noteq> Some i" if "r' \<noteq> r" for r'
      using inv that unfolding replies_inv_def by metis
    show ?thesis using inv Some other
      unfolding replies_inv_def ReplyComplete reply_step.simps complete_reply_def
      by (auto simp: nth_list_update)
  qed
qed

lemma replies_inv_new: "replies_inv newPendingReplies"
  by (simp add: replies_inv_def newPendingReplies_def)

interpretation replies: component reply_step replies_inv "\<lambda>_. True" "\<lambda>p. p = newPendingReplies"
  by unfold_locales (auto intro: replies_inv_step replies_inv_new)

fun names_request :: "string \<Rightarrow> 'm reply_op \<Rightarrow> bool" where
  "names_request r (ReplyRegister r') = (r' = r)"
| "names_request r (ReplyCancel r') = (r' = r)"
| "names_request r (ReplyComplete r' m) = (r' = r)"

lemma waiting_kept:
  assumes "replies_inv p" and "map_of (pr_m p) r = Some i" and "\<not> names_request r op"
  shows "map_of (pr_m (reply_step p op)) r = Some i" and "pr_channels (reply_step p op) ! i = pr_channels p ! i"
proof -
  have i: "i < length (pr_channels p)" using assms(1,2) by (auto simp: replies_inv_def)
  show "map_of (pr_m (reply_step p op)) r = Some i"
    using assms(2,3) by (cases op) (auto simp: register_reply_def cancel_reply_def complete_reply_def Let_def split: option.splits)
  have "map_of (pr_m p) r' \<noteq> Some i" if "r' \<noteq> r" for r'
    using assms(1,2) that unfolding replies_inv_def by metis
  then show "pr_channels (reply_step p op) ! i = pr_channels p ! i"
    using i assms(3) by (cases op)
      (auto simp: register_reply_def cancel_reply_def complete_reply_def Let_def nth_append split: option.splits,
        metis nth_list_update_neq)
qed

lemma waiting_run:
  assumes "replies_inv p" and "map_of (pr_m p) r = Some i" and "list_all (\<lambda>op. \<not> names_request r op) ops"
  shows "map_of (pr_m (foldl reply_step p ops)) r = Some i \<and> pr_channels (foldl reply_step p ops) ! i = None"
  using assms
proof (induction ops arbitrary: p)
  case (Cons op ops)
  then have "map_of (pr_m (reply_step p op)) r = Some i" using waiting_kept by auto
  with Cons show ?case by (auto intro!: Cons.IH replies_inv_step)
qed (auto simp: replies_inv_def)

section \<open>Properties\<close>

text \<open>C16: The live stream of a command under every order of subscribers, broadcasters and readers: no
  send meets a closed channel and no channel is closed twice, so nothing panics; what a
  watcher has read and still has in its buffer is, in order, exactly what was broadcast for its
  command since it subscribed while its channel held fewer than 256 messages: a message is
  missing only if the channel was full when it was sent, and the counter tells how many are.\<close>

theorem watcher_gets_stream:
  assumes "b = foldl bus_step newCommandBus ops0" and "subscribe_bus b c = (i, b1)"
    and "list_all (keeps_watching c i) ops" and "length (offered c ops) < 9223372036854775807"
  shows "\<not> cb_panicked (foldl bus_step b1 ops) \<and>
    got b1 i ops @ buffered (foldl bus_step b1 ops) i = with_room b1 c i ops \<and>
    subseq (with_room b1 c i ops) (offered c ops) \<and>
    (\<exists>dropped. (i, dropped) \<in> set (watchers_of (foldl bus_step b1 ops) c) \<and>
       int (length (with_room b1 c i ops)) + dropped = int (length (offered c ops)) \<and>
       (dropped = 0 \<longrightarrow> got b1 i ops @ buffered (foldl bus_step b1 ops) i = offered c ops))"
proof -
  have "bus_inv b" using bus.invar_history [of newCommandBus ops0] assms(1) by simp
  then have inv: "bus_inv b1" using subscribe_inv [of b c] assms(2) by simp
  have i: "(i, 0) \<in> set (watchers_of b1 c)" "buffered b1 i = []"
    using watchers_of_subscribe [of b c c] assms(2) by (auto simp: subscribe_bus_def Let_def buffered_def)
  obtain d where run: "(i, d) \<in> set (watchers_of (foldl bus_step b1 ops) c)" "subseq (with_room b1 c i ops) (offered c ops)"
      "int (length (with_room b1 c i ops)) + d = int (length (offered c ops))"
      "got b1 i ops @ buffered (foldl bus_step b1 ops) i = with_room b1 c i ops"
    using watcher_run [OF inv i(1) assms(3)] i(2) assms(4) by auto
  have "\<not> cb_panicked (foldl bus_step b1 ops)"
    using bus.invar_run [OF inv, of ops] by (simp add: bus_inv_def)
  moreover have "with_room b1 c i ops = offered c ops" if "d = 0" using run(2,3) that by (intro subseq_same_length) auto
  ultimately show ?thesis using run by auto
qed

theorem watcher_gets_stream_witness:
  "\<not> cb_panicked (foldl bus_step (snd (subscribe_bus (newCommandBus :: nat command_bus) ''c''))
       [BusBroadcast ''c'' 1, BusBroadcast ''d'' 9, BusReceive 0, BusBroadcast ''c'' 2, BusClose ''d'']) \<and>
   buffered (foldl bus_step (snd (subscribe_bus (newCommandBus :: nat command_bus) ''c''))
       [BusBroadcast ''c'' 1, BusBroadcast ''d'' 9, BusReceive 0, BusBroadcast ''c'' 2, BusClose ''d'']) 0 = [2]"
proof -
  have s: "subscribe_bus (newCommandBus :: nat command_bus) ''c'' = (0, snd (subscribe_bus newCommandBus ''c''))"
    by (simp add: subscribe_bus_def newCommandBus_def Let_def)
  have k: "list_all (keeps_watching ''c'' 0)
      [BusBroadcast ''c'' 1, BusBroadcast ''d'' 9, BusReceive 0, BusBroadcast ''c'' 2, BusClose ''d'']" by simp
  have n: "newCommandBus = foldl bus_step newCommandBus []" by simp
  have "got (snd (subscribe_bus (newCommandBus :: nat command_bus) ''c'')) 0
      [BusBroadcast ''c'' 1, BusBroadcast ''d'' 9, BusReceive 0, BusBroadcast ''c'' 2, BusClose ''d''] = [1]"
    and "with_room (snd (subscribe_bus (newCommandBus :: nat command_bus) ''c'')) ''c'' 0
      [BusBroadcast ''c'' 1, BusBroadcast ''d'' 9, BusReceive 0, BusBroadcast ''c'' 2, BusClose ''d''] = [1, 2]"
    by code_simp+
  with watcher_gets_stream [OF n s k] show ?thesis by auto
qed

text \<open>A reply reaches the call that registered its request, once, and no other: whatever happens to
  other requests between the registration and the reply, the call's channel then holds the
  reply, a second reply of that request changes nothing, and every other channel stays as
  it was.\<close>

theorem reply_reaches_its_call:
  assumes "p = foldl reply_step newPendingReplies ops0" and "register_reply p r = (i, p1)"
    and "list_all (\<lambda>op. \<not> names_request r op) ops" and "p2 = foldl reply_step p1 ops"
  shows "pr_channels (complete_reply p2 r m) ! i = Some m \<and>
    (\<forall>j. j \<noteq> i \<longrightarrow> pr_channels (complete_reply p2 r m) ! j = pr_channels p2 ! j) \<and>
    complete_reply (complete_reply p2 r m) r m' = complete_reply p2 r m"
proof -
  have "replies_inv p" using replies.invar_history [of newPendingReplies ops0] assms(1) by simp
  then have inv: "replies_inv p1" using replies_inv_step [of p "ReplyRegister r"] assms(2) by simp
  have "map_of (pr_m p1) r = Some i" using assms(2) by (auto simp: register_reply_def Let_def)
  from waiting_run [OF inv this assms(3)] have w: "map_of (pr_m p2) r = Some i" "pr_channels p2 ! i = None"
    by (simp_all add: assms(4))
  have "replies_inv p2" using replies.invar_run [OF inv, of ops] assms(4) by simp
  then have "i < length (pr_channels p2)" using w by (auto simp: replies_inv_def)
  with w show ?thesis by (auto simp: complete_reply_def nth_list_update)
qed

theorem reply_reaches_its_call_witness:
  "pr_channels (complete_reply (foldl reply_step (snd (register_reply (newPendingReplies :: nat pendingReplies) ''r''))
     [ReplyRegister ''s'', ReplyComplete ''s'' 7]) ''r'' 5) ! 0 = Some 5"
proof -
  have s: "register_reply (newPendingReplies :: nat pendingReplies) ''r'' = (0, snd (register_reply newPendingReplies ''r''))"
    by (simp add: register_reply_def newPendingReplies_def Let_def)
  have k: "list_all (\<lambda>op. \<not> names_request ''r'' op) [ReplyRegister ''s'', ReplyComplete ''s'' (7 :: nat)]" by simp
  have n: "newPendingReplies = foldl reply_step newPendingReplies []" by simp
  from reply_reaches_its_call [OF n s k refl] show ?thesis by blast
qed

end
