(* ===== verification/Command_Table.thy ===== *)
theory Command_Table
  imports Prelude
begin

text \<open>
  The tables of agent commands, \<open>backend/manager/store/command.go\<close> and
  \<open>backend/manager/store/conversation_execution_event.go\<close>: commands, their output and events, their
  token usage, the conversations they touched and the ledger of those conversations. Rows are
  kept in the order of their insertion, which is the order of the serial keys. Identifiers are
  given in the form in which a parsed UUID is printed. Any statement may fail, by a fault
  function of the database; \<open>cd_json\<close> says which texts the database takes for JSON.

  Shown here: output and events are written once per sequence number and read back in
  order, whatever was written twice.
\<close>

section \<open>Rows\<close>

record CommandMessage =
  cm_ID :: string
  cm_AgentID :: int
  cm_MachineID :: int
  cm_PrincipalID :: int
  cm_Command :: string
  cm_Instruction :: string
  cm_Profile :: string
  cm_AllowDiff :: bool
  cm_Status :: int
  cm_ExitCode :: "int option"
  cm_DurationMs :: "int option"
  cm_CreatedAt :: instant
  cm_StartedAt :: "instant option"
  cm_CompletedAt :: "instant option"
  cm_ErrorMessage :: string
  cm_FinalSummary :: string
  cm_ResultJSON :: string
  cm_Env :: string
  cm_WorkingDir :: string
  cm_TimeoutSeconds :: int
  cm_LastAckSeq :: int
  cm_ConversationID :: "string option"

definition CommandStatusPending :: int where "CommandStatusPending = 1"
definition CommandStatusRunning :: int where "CommandStatusRunning = 2"
definition CommandStatusCompleted :: int where "CommandStatusCompleted = 3"
definition CommandStatusFailed :: int where "CommandStatusFailed = 4"

record CommandOutputMessage =
  co_CommandID :: string
  co_SeqNo :: int
  co_StreamType :: int
  co_Content :: string
  co_CreatedAt :: instant

record CommandEventMessage =
  ce_CommandID :: string
  ce_SeqNo :: int
  ce_EventType :: int
  ce_Summary :: string
  ce_PayloadJSON :: string

record CommandTokenUsageMessage =
  tu_CommandID :: string
  tu_InputTokens :: int
  tu_OutputTokens :: int
  tu_CacheReadTokens :: int
  tu_CacheWriteTokens :: int
  tu_TotalTokens :: int

record ConversationExecutionEvent =
  xe_OrganizationID :: string
  xe_ConversationID :: string
  xe_CommandID :: string
  xe_EventType :: string
  xe_PayloadJSON :: string

datatype command_stmt =
    StInsertCommand | StUpdateStatus | StAckSeq | StResultSummary | StOutput | StEvent | StUsage
  | StLink | StPrimary | StExecution | StSelect

datatype command_error =
    CommandSqlFailed
  | CommandNotFound
  | InvalidCommandName
  | InvalidCommandID
  | ExecutionEventInvalid
  | ScanNull
  | ConversationIdentityRequired
  | AgentNotFound
  | StoreNotAvailable

text \<open>\<open>cd_agents\<close> and \<open>cd_principals\<close> are the rows the foreign keys refer to, an agent with its resource
  id; \<open>cd_links\<close> is the junction of commands and conversations, with the column \<open>organization_id\<close>, whose
  default is \<open>default\<close>.\<close>

record command_db =
  cd_fault :: "command_stmt \<Rightarrow> bool"
  cd_json :: "string \<Rightarrow> bool"
  cd_agents :: "(int \<times> string) list"
  cd_principals :: "int list"
  cd_machines :: "int list"
  cd_conversations :: "string list"
  cd_commands :: "CommandMessage list"
  cd_outputs :: "CommandOutputMessage list"
  cd_events :: "CommandEventMessage list"
  cd_usage :: "(CommandTokenUsageMessage \<times> int \<times> int \<times> int option) list"
  cd_links :: "(string \<times> string \<times> string) list"
  cd_executions :: "ConversationExecutionEvent list"

definition fits_smallint :: "int \<Rightarrow> bool" where
  "fits_smallint n \<longleftrightarrow> - 32768 \<le> n \<and> n \<le> 32767"

definition is_command :: "string \<Rightarrow> CommandMessage \<Rightarrow> bool" where
  "is_command c r \<longleftrightarrow> cm_ID r = c"

definition find_command :: "command_db \<Rightarrow> string \<Rightarrow> CommandMessage option" where
  "find_command db c = find (is_command c) (cd_commands db)"

section \<open>Commands\<close>

definition coerceEnvJSON :: "string \<Rightarrow> string" where
  "coerceEnvJSON env = (if env = [] then ''{}'' else env)"

text \<open>\<open>fresh\<close> is the identifier and \<open>clock\<close> the time the database chooses.\<close>

definition CreateCommand :: "command_db \<Rightarrow> string \<Rightarrow> instant \<Rightarrow> CommandMessage \<Rightarrow> (command_error, CommandMessage) result \<times> command_db" where
  "CreateCommand db fresh clock cmd =
     (let row = cmd\<lparr>cm_ID := fresh, cm_CreatedAt := clock, cm_Env := coerceEnvJSON (cm_Env cmd),
            cm_MachineID := (if cm_MachineID cmd > 0 then cm_MachineID cmd else 0),
            cm_ExitCode := None, cm_DurationMs := None, cm_StartedAt := None, cm_CompletedAt := None,
            cm_ErrorMessage := [], cm_FinalSummary := [], cm_ResultJSON := ''{}'', cm_LastAckSeq := 0\<rparr> in
      if cd_fault db StInsertCommand \<or> map_of (cd_agents db) (cm_AgentID cmd) = None \<or>
         cm_PrincipalID cmd \<notin> set (cd_principals db) \<or>
         (cm_MachineID cmd > 0 \<and> cm_MachineID cmd \<notin> set (cd_machines db)) \<or>
         \<not> cd_json db (coerceEnvJSON (cm_Env cmd)) \<or> \<not> fits_smallint (cm_Status cmd) \<or> find_command db fresh \<noteq> None \<or>
         (case cm_ConversationID cmd of None \<Rightarrow> False | Some v \<Rightarrow> v \<notin> set (cd_conversations db))
      then (Inl CommandSqlFailed, db)
      else (Inr (cmd\<lparr>cm_ID := fresh, cm_CreatedAt := clock, cm_Env := coerceEnvJSON (cm_Env cmd),
                  cm_ExitCode := None, cm_DurationMs := None, cm_StartedAt := None, cm_CompletedAt := None,
                  cm_ErrorMessage := [], cm_FinalSummary := [], cm_ResultJSON := [], cm_LastAckSeq := 0\<rparr>),
            db\<lparr>cd_commands := cd_commands db @ [row]\<rparr>))"

definition update_command :: "string \<Rightarrow> (CommandMessage \<Rightarrow> CommandMessage) \<Rightarrow> command_db \<Rightarrow> command_db" where
  "update_command c f db = db\<lparr>cd_commands := update_first (is_command c) f (cd_commands db)\<rparr>"

definition or_old :: "'a option \<Rightarrow> 'a option \<Rightarrow> 'a option" where
  "or_old new old = (case new of None \<Rightarrow> old | Some x \<Rightarrow> Some x)"

definition status_row ::
  "int \<Rightarrow> instant option \<Rightarrow> instant option \<Rightarrow> int option \<Rightarrow> int option \<Rightarrow> string \<Rightarrow> CommandMessage \<Rightarrow> CommandMessage" where
  "status_row status startedAt completedAt exitCode durationMs errorMsg r =
     r\<lparr>cm_Status := status, cm_StartedAt := or_old startedAt (cm_StartedAt r),
       cm_CompletedAt := or_old completedAt (cm_CompletedAt r), cm_ExitCode := or_old exitCode (cm_ExitCode r),
       cm_DurationMs := or_old durationMs (cm_DurationMs r),
       cm_ErrorMessage := (if errorMsg = [] then cm_ErrorMessage r else errorMsg)\<rparr>"

definition UpdateCommandStatus ::
  "command_db \<Rightarrow> string \<Rightarrow> int \<Rightarrow> instant option \<Rightarrow> instant option \<Rightarrow> int option \<Rightarrow> int option \<Rightarrow> string \<Rightarrow>
   (command_error, unit) result \<times> command_db" where
  "UpdateCommandStatus db c status startedAt completedAt exitCode durationMs errorMsg =
     (if cd_fault db StUpdateStatus \<or> \<not> fits_smallint status then (Inl CommandSqlFailed, db)
      else (Inr (), update_command c (status_row status startedAt completedAt exitCode durationMs errorMsg) db))"

definition UpdateCommandAckSeq :: "command_db \<Rightarrow> string \<Rightarrow> int \<Rightarrow> (command_error, unit) result \<times> command_db" where
  "UpdateCommandAckSeq db c seq =
     (if cd_fault db StAckSeq then (Inl CommandSqlFailed, db)
      else (Inr (), update_command c (\<lambda>r. r\<lparr>cm_LastAckSeq := seq\<rparr>) db))"

definition UpdateCommandResultSummary :: "command_db \<Rightarrow> string \<Rightarrow> string \<Rightarrow> string \<Rightarrow> (command_error, unit) result \<times> command_db" where
  "UpdateCommandResultSummary db c finalSummary resultJSON =
     (if finalSummary = [] \<and> resultJSON = [] then (Inr (), db)
      else if cd_fault db StResultSummary \<or> (resultJSON \<noteq> [] \<and> \<not> cd_json db resultJSON) then (Inl CommandSqlFailed, db)
      else (Inr (), update_command c (\<lambda>r. r\<lparr>cm_FinalSummary := (if finalSummary = [] then cm_FinalSummary r else finalSummary),
              cm_ResultJSON := (if resultJSON = [] then cm_ResultJSON r else resultJSON)\<rparr>) db))"

definition GetNextPendingCommand :: "command_db \<Rightarrow> int \<Rightarrow> (command_error, CommandMessage option) result" where
  "GetNextPendingCommand db agentID =
     (if cd_fault db StSelect then Inl CommandSqlFailed
      else case sort_key cm_CreatedAt (filter (\<lambda>r. cm_AgentID r = agentID \<and> cm_Status r = CommandStatusPending) (cd_commands db)) of
        [] \<Rightarrow> Inr None | r # _ \<Rightarrow> Inr (Some r))"

definition GetRunningCommand :: "command_db \<Rightarrow> int \<Rightarrow> (command_error, CommandMessage option) result" where
  "GetRunningCommand db agentID =
     (if cd_fault db StSelect then Inl CommandSqlFailed
      else case sort_key (\<lambda>r. - cm_CreatedAt r) (filter (\<lambda>r. cm_AgentID r = agentID \<and> cm_Status r = CommandStatusRunning) (cd_commands db)) of
        [] \<Rightarrow> Inr None | r # _ \<Rightarrow> Inr (Some r))"

definition ListPendingCommandsByAgent :: "command_db \<Rightarrow> int \<Rightarrow> (command_error, CommandMessage list) result" where
  "ListPendingCommandsByAgent db agentID =
     (if cd_fault db StSelect then Inl CommandSqlFailed
      else Inr (sort_key cm_CreatedAt (filter (\<lambda>r. cm_AgentID r = agentID \<and> cm_Status r = CommandStatusPending) (cd_commands db))))"

section \<open>Output, events and usage\<close>

definition AppendCommandOutput ::
  "command_db \<Rightarrow> string \<Rightarrow> int \<Rightarrow> int \<Rightarrow> string \<Rightarrow> instant \<Rightarrow> (command_error, unit) result \<times> command_db" where
  "AppendCommandOutput db c seqNo streamType content createdAt =
     (if cd_fault db StOutput \<or> \<not> fits_smallint streamType then (Inl CommandSqlFailed, db)
      else if list_ex (\<lambda>r. co_CommandID r = c \<and> co_SeqNo r = seqNo) (cd_outputs db) then (Inr (), db)
      else if find_command db c = None then (Inl CommandSqlFailed, db)
      else (Inr (), db\<lparr>cd_outputs := cd_outputs db @
        [\<lparr>co_CommandID = c, co_SeqNo = seqNo, co_StreamType = streamType, co_Content = content, co_CreatedAt = createdAt\<rparr>]\<rparr>))"

definition AppendCommandEvent :: "command_db \<Rightarrow> CommandEventMessage \<Rightarrow> (command_error, unit) result \<times> command_db" where
  "AppendCommandEvent db e =
     (if cd_fault db StEvent \<or> \<not> fits_smallint (ce_EventType e) \<or> \<not> cd_json db (ce_PayloadJSON e) then (Inl CommandSqlFailed, db)
      else if list_ex (\<lambda>r. ce_CommandID r = ce_CommandID e \<and> ce_SeqNo r = ce_SeqNo e) (cd_events db) then (Inr (), db)
      else if find_command db (ce_CommandID e) = None then (Inl CommandSqlFailed, db)
      else (Inr (), db\<lparr>cd_events := cd_events db @ [e]\<rparr>))"

definition RecordCommandTokenUsage :: "command_db \<Rightarrow> CommandTokenUsageMessage \<Rightarrow> (command_error, unit) result \<times> command_db" where
  "RecordCommandTokenUsage db u =
     (if cd_fault db StSelect then (Inl CommandSqlFailed, db)
      else case find_command db (tu_CommandID u) of
        None \<Rightarrow> (Inl CommandNotFound, db)
      | Some r \<Rightarrow>
          if cd_fault db StUsage then (Inl CommandSqlFailed, db)
          else if list_ex (\<lambda>x. tu_CommandID (fst x) = tu_CommandID u) (cd_usage db) then (Inr (), db)
          else (Inr (), db\<lparr>cd_usage := cd_usage db @
            [(u, cm_AgentID r, cm_PrincipalID r, if cm_MachineID r > 0 then Some (cm_MachineID r) else None)]\<rparr>))"

definition GetCommandOutput :: "command_db \<Rightarrow> string \<Rightarrow> int \<Rightarrow> (command_error, CommandOutputMessage list) result" where
  "GetCommandOutput db c afterSeq =
     (if cd_fault db StSelect then Inl CommandSqlFailed
      else Inr (sort_key co_SeqNo (filter (\<lambda>r. co_CommandID r = c \<and> co_SeqNo r > afterSeq) (cd_outputs db))))"

definition GetCommandEvents :: "command_db \<Rightarrow> string \<Rightarrow> int \<Rightarrow> (command_error, CommandEventMessage list) result" where
  "GetCommandEvents db c afterSeq =
     (if cd_fault db StSelect then Inl CommandSqlFailed
      else Inr (sort_key ce_SeqNo (filter (\<lambda>r. ce_CommandID r = c \<and> ce_SeqNo r > afterSeq) (cd_events db))))"

section \<open>Conversations of a command\<close>

definition validConversationExecutionEvents :: "string list" where
  "validConversationExecutionEvents = [''COMMAND_STARTED'', ''COMMAND_STEERED'', ''COMMAND_CANCELLED'', ''COMMAND_COMPLETED'']"

definition uuid_nil :: string where
  "uuid_nil = ''00000000-0000-0000-0000-000000000000''"

definition has_execution :: "command_db \<Rightarrow> string \<Rightarrow> string \<Rightarrow> string \<Rightarrow> string \<Rightarrow> bool" where
  "has_execution db org v c eventType =
     list_ex (\<lambda>x. xe_OrganizationID x = org \<and> xe_ConversationID x = v \<and> xe_CommandID x = c \<and> xe_EventType x = eventType)
       (cd_executions db)"

definition execution_rows :: "command_db \<Rightarrow> string \<Rightarrow> string \<Rightarrow> string \<Rightarrow> ConversationExecutionEvent list" where
  "execution_rows db c eventType payload =
     map (\<lambda>(_, v, org). \<lparr>xe_OrganizationID = org, xe_ConversationID = v, xe_CommandID = c, xe_EventType = eventType,
            xe_PayloadJSON = payload\<rparr>)
       (filter (\<lambda>(c', v, org). c' = c \<and> (eventType = ''COMMAND_STEERED'' \<or> \<not> has_execution db org v c eventType))
         (cd_links db))"

definition AppendCommandExecutionEvent ::
  "command_db \<Rightarrow> string \<Rightarrow> string \<Rightarrow> string \<Rightarrow> (command_error, unit) result \<times> command_db" where
  "AppendCommandExecutionEvent db c eventType payload0 =
     (if c = uuid_nil \<or> eventType \<notin> set validConversationExecutionEvents then (Inl ExecutionEventInvalid, db)
      else let payload = (if is_blank payload0 then ''{}'' else payload0) in
      if cd_fault db StExecution \<or> \<not> cd_json db payload then (Inl CommandSqlFailed, db)
      else (Inr (), db\<lparr>cd_executions := cd_executions db @ execution_rows db c eventType payload\<rparr>))"

definition ListConversationExecutionEvents ::
  "command_db \<Rightarrow> string \<Rightarrow> string \<Rightarrow> (command_error, ConversationExecutionEvent list) result" where
  "ListConversationExecutionEvents db org v =
     (if is_blank org \<or> v = uuid_nil then Inl ConversationIdentityRequired
      else if cd_fault db StSelect then Inl CommandSqlFailed
      else Inr (filter (\<lambda>x. xe_OrganizationID x = org \<and> xe_ConversationID x = v) (cd_executions db)))"

definition linked :: "command_db \<Rightarrow> string \<Rightarrow> string \<Rightarrow> bool" where
  "linked db c v = list_ex (\<lambda>(c', v', _). c' = c \<and> v' = v) (cd_links db)"

definition LinkCommandConversation :: "command_db \<Rightarrow> string \<Rightarrow> string \<Rightarrow> (command_error, unit) result \<times> command_db" where
  "LinkCommandConversation db c v =
     (if cd_fault db StLink \<or> (\<not> linked db c v \<and> (find_command db c = None \<or> v \<notin> set (cd_conversations db)))
      then (Inl CommandSqlFailed, db)
      else let db1 = (if linked db c v then db else db\<lparr>cd_links := cd_links db @ [(c, v, ''default'')]\<rparr>) in
      if cd_fault db1 StPrimary then (Inl CommandSqlFailed, db1)
      else AppendCommandExecutionEvent
        (update_command c (\<lambda>r. if cm_ConversationID r = None then r\<lparr>cm_ConversationID := Some v\<rparr> else r) db1)
        c ''COMMAND_STARTED'' ''{}'')"

record RunningCommandInfo =
  rc_AgentID :: int
  rc_CommandID :: string
  rc_EventType :: int
  rc_Summary :: "string option"

definition latest_event :: "command_db \<Rightarrow> string \<Rightarrow> CommandEventMessage option" where
  "latest_event db c =
     (case sort_key (\<lambda>e. - ce_SeqNo e) (filter (\<lambda>e. ce_CommandID e = c) (cd_events db)) of [] \<Rightarrow> None | e # _ \<Rightarrow> Some e)"

text \<open>The row of a command without events has NULL for the type of its latest event, which cannot be
  scanned into an \<open>int32\<close>.\<close>

fun scan_running :: "(CommandMessage \<times> CommandEventMessage option) list \<Rightarrow> (command_error, RunningCommandInfo list) result" where
  "scan_running [] = Inr []"
| "scan_running ((r, None) # rows) = Inl ScanNull"
| "scan_running ((r, Some e) # rows) =
     (case scan_running rows of
        Inl err \<Rightarrow> Inl err
      | Inr infos \<Rightarrow>
          Inr (\<lparr>rc_AgentID = cm_AgentID r, rc_CommandID = cm_ID r, rc_EventType = ce_EventType e, rc_Summary = Some (ce_Summary e)\<rparr> # infos))"

definition GetRunningCommandsForConversation ::
  "command_db \<Rightarrow> int list \<Rightarrow> string \<Rightarrow> (command_error, RunningCommandInfo list) result" where
  "GetRunningCommandsForConversation db agentIDs v =
     (if agentIDs = [] then Inr []
      else if cd_fault db StSelect then Inl CommandSqlFailed
      else scan_running (map (\<lambda>r. (r, latest_event db (cm_ID r)))
        (filter (\<lambda>r. cm_AgentID r \<in> set agentIDs \<and> linked db (cm_ID r) v \<and> cm_Status r = CommandStatusRunning)
          (cd_commands db))))"

section \<open>Histories\<close>

datatype command_op =
    COpCreate string instant CommandMessage
  | COpStatus string int "instant option" "instant option" "int option" "int option" string
  | COpAck string int
  | COpSummary string string string
  | COpOutput string int int string instant
  | COpEvent CommandEventMessage
  | COpUsage CommandTokenUsageMessage
  | COpLink string string
  | COpExecution string string string
  | COpFault "command_stmt \<Rightarrow> bool"

fun command_step :: "command_db \<Rightarrow> command_op \<Rightarrow> command_db" where
  "command_step db (COpCreate fresh clock cmd) = snd (CreateCommand db fresh clock cmd)"
| "command_step db (COpStatus c status s e x d m) = snd (UpdateCommandStatus db c status s e x d m)"
| "command_step db (COpAck c seq) = snd (UpdateCommandAckSeq db c seq)"
| "command_step db (COpSummary c f r) = snd (UpdateCommandResultSummary db c f r)"
| "command_step db (COpOutput c n ty content t) = snd (AppendCommandOutput db c n ty content t)"
| "command_step db (COpEvent e) = snd (AppendCommandEvent db e)"
| "command_step db (COpUsage u) = snd (RecordCommandTokenUsage db u)"
| "command_step db (COpLink c v) = snd (LinkCommandConversation db c v)"
| "command_step db (COpExecution c ty p) = snd (AppendCommandExecutionEvent db c ty p)"
| "command_step db (COpFault f) = db\<lparr>cd_fault := f\<rparr>"

definition no_commands :: "command_db \<Rightarrow> bool" where
  "no_commands db \<longleftrightarrow> cd_commands db = [] \<and> cd_outputs db = [] \<and> cd_events db = [] \<and> cd_usage db = [] \<and> cd_links db = [] \<and>
     cd_executions db = []"

definition output_key :: "CommandOutputMessage \<Rightarrow> string \<times> int" where
  "output_key r = (co_CommandID r, co_SeqNo r)"

definition event_key :: "CommandEventMessage \<Rightarrow> string \<times> int" where
  "event_key r = (ce_CommandID r, ce_SeqNo r)"

definition command_inv :: "command_db \<Rightarrow> bool" where
  "command_inv db \<longleftrightarrow> distinct (map cm_ID (cd_commands db)) \<and> distinct (map output_key (cd_outputs db)) \<and>
     distinct (map event_key (cd_events db)) \<and> list_all (\<lambda>(_, _, org). org = ''default'') (cd_links db) \<and>
     list_all (\<lambda>x. xe_OrganizationID x = ''default'') (cd_executions db)"

lemma update_command_other [simp]:
  "cd_outputs (update_command c f db) = cd_outputs db" "cd_events (update_command c f db) = cd_events db"
  "cd_links (update_command c f db) = cd_links db" "cd_executions (update_command c f db) = cd_executions db"
  "cd_usage (update_command c f db) = cd_usage db" "cd_fault (update_command c f db) = cd_fault db"
  by (simp_all add: update_command_def)

lemma update_command_ids:
  "(\<And>r. cm_ID (f r) = cm_ID r) \<Longrightarrow> map cm_ID (cd_commands (update_command c f db)) = map cm_ID (cd_commands db)"
  by (simp add: update_command_def map_update_first)

lemma execution_rows_org:
  "list_all (\<lambda>(_, _, org). org = ''default'') (cd_links db) \<Longrightarrow> x \<in> set (execution_rows db c ty p) \<Longrightarrow> xe_OrganizationID x = ''default''"
  by (auto simp: execution_rows_def list_all_iff)

lemma command_inv_execution: "command_inv db \<Longrightarrow> command_inv (snd (AppendCommandExecutionEvent db c ty p))"
  using execution_rows_org [of db] by (auto simp: command_inv_def AppendCommandExecutionEvent_def Let_def list_all_iff)

lemma command_inv_update:
  assumes "command_inv db" and "\<And>r. cm_ID (f r) = cm_ID r"
  shows "command_inv (update_command c f db)"
  using assms update_command_ids [of f c db] by (simp add: command_inv_def)

lemma command_inv_link: "command_inv db \<Longrightarrow> command_inv (snd (LinkCommandConversation db c v))"
  unfolding LinkCommandConversation_def Let_def
  by (auto intro!: command_inv_execution command_inv_update) (auto simp: command_inv_def)

lemma find_command_none: "find_command db c = None \<Longrightarrow> c \<notin> cm_ID ` set (cd_commands db)"
  by (auto simp: find_command_def find_None_all is_command_def)

lemma command_inv_step: "command_inv db \<Longrightarrow> command_inv (command_step db op)"
proof (cases op)
  case (COpCreate fresh clock cmd)
  assume "command_inv db"
  then show ?thesis using find_command_none [of db fresh] by (auto simp: COpCreate CreateCommand_def Let_def command_inv_def)
next
  case (COpOutput c n ty content t)
  assume "command_inv db"
  then show ?thesis by (auto simp: COpOutput AppendCommandOutput_def command_inv_def output_key_def list_ex_iff)
next
  case (COpEvent e)
  assume "command_inv db"
  then show ?thesis by (auto simp: COpEvent AppendCommandEvent_def command_inv_def event_key_def list_ex_iff)
next
  case (COpUsage u)
  assume "command_inv db"
  then show ?thesis by (auto simp: COpUsage RecordCommandTokenUsage_def command_inv_def split: option.splits)
qed (auto simp: command_inv_link command_inv_execution UpdateCommandStatus_def UpdateCommandAckSeq_def
  UpdateCommandResultSummary_def status_row_def intro!: command_inv_update, simp add: command_inv_def)

lemma command_inv_start: "no_commands db \<Longrightarrow> command_inv db"
  by (simp add: no_commands_def command_inv_def)

interpretation command_history: component command_step command_inv "\<lambda>_. True" no_commands
  by unfold_locales (auto intro: command_inv_step command_inv_start)

lemma outputs_grow_step: "set (cd_outputs db) \<subseteq> set (cd_outputs (command_step db op))"
proof (cases op)
  case (COpUsage u)
  then show ?thesis by (auto simp: RecordCommandTokenUsage_def split: option.splits)
qed (auto simp: CreateCommand_def UpdateCommandStatus_def UpdateCommandAckSeq_def UpdateCommandResultSummary_def
  AppendCommandOutput_def AppendCommandEvent_def LinkCommandConversation_def AppendCommandExecutionEvent_def Let_def)

lemma outputs_grow: "set (cd_outputs db) \<subseteq> set (cd_outputs (foldl command_step db ops))"
proof (induction ops arbitrary: db)
  case (Cons op ops)
  then show ?case using outputs_grow_step [of db op] by (simp add: order_trans)
qed simp

lemma distinct_key_filter:
  "distinct (map f xs) \<Longrightarrow> x \<in> set xs \<Longrightarrow> filter (\<lambda>y. f y = f x) xs = [x]"
  by (induction xs) (auto simp: filter_empty_conv image_iff)

section \<open>Properties\<close>

text \<open>C33: Output of a command is written once and read back in order. A chunk that was stored under a
  new sequence number is found, with its content, by every later reader that asks for it,
  whatever is sent again or written in between; no reader gets a sequence number twice, and
  the numbers ascend.\<close>

theorem output_read_back:
  assumes "no_commands db0" and "db = foldl command_step db0 ops0"
    and "AppendCommandOutput db c n ty content t = (Inr (), db1)"
    and "\<not> list_ex (\<lambda>r. output_key r = (c, n)) (cd_outputs db)"
    and "GetCommandOutput (foldl command_step db1 ops) c afterSeq = Inr rows"
  shows "sorted_wrt (<) (map co_SeqNo rows) \<and>
    (afterSeq < n \<longrightarrow> filter (\<lambda>r. co_SeqNo r = n) rows =
       [\<lparr>co_CommandID = c, co_SeqNo = n, co_StreamType = ty, co_Content = content, co_CreatedAt = t\<rparr>])"
proof -
  let ?row = "\<lparr>co_CommandID = c, co_SeqNo = n, co_StreamType = ty, co_Content = content, co_CreatedAt = t\<rparr>"
  let ?db = "foldl command_step db1 ops"
  have "command_inv db" using command_history.invar_history [OF assms(1), of ops0] assms(2) by simp
  then have "command_inv db1" using command_inv_step [of db "COpOutput c n ty content t"] assms(3) by simp
  then have inv: "command_inv ?db" using command_history.invar_run [of db1 ops] by simp
  have new: "?row \<in> set (cd_outputs ?db)"
    using assms(3,4) outputs_grow [of db1 ops] by (auto simp: AppendCommandOutput_def output_key_def list_ex_iff split: if_splits)
  define sel where "sel = filter (\<lambda>r. co_CommandID r = c \<and> co_SeqNo r > afterSeq) (cd_outputs ?db)"
  have rows: "rows = sort_key co_SeqNo sel"
    using assms(5) by (auto simp: GetCommandOutput_def sel_def split: if_splits)
  have "distinct (map output_key sel)" using inv by (simp add: command_inv_def sel_def distinct_map_filter)
  moreover have "map output_key sel = map (Pair c) (map co_SeqNo sel)" by (auto simp: sel_def output_key_def)
  ultimately have dist: "distinct (map co_SeqNo sel)" by (metis distinct_map)
  then have once: "distinct (map co_SeqNo rows)" by (simp add: rows distinct_map)
  moreover have "sorted (map co_SeqNo rows)" by (simp add: rows)
  ultimately have asc: "sorted_wrt (<) (map co_SeqNo rows)" by (simp add: strict_sorted_iff)
  have "filter (\<lambda>r. co_SeqNo r = n) rows = [?row]" if "afterSeq < n"
  proof -
    have mem: "?row \<in> set rows" using new that by (simp add: rows sel_def)
    then show ?thesis using distinct_key_filter [OF once, of ?row] by simp
  qed
  with asc show ?thesis by blast
qed

definition sample_command :: CommandMessage where
  "sample_command =
     \<lparr>cm_ID = [], cm_AgentID = 1, cm_MachineID = 0, cm_PrincipalID = 1, cm_Command = [], cm_Instruction = [], cm_Profile = [],
      cm_AllowDiff = False, cm_Status = CommandStatusRunning, cm_ExitCode = None, cm_DurationMs = None, cm_CreatedAt = 0,
      cm_StartedAt = None, cm_CompletedAt = None, cm_ErrorMessage = [], cm_FinalSummary = [], cm_ResultJSON = [], cm_Env = [],
      cm_WorkingDir = [], cm_TimeoutSeconds = 0, cm_LastAckSeq = 0, cm_ConversationID = None\<rparr>"

definition sample_command_db :: command_db where
  "sample_command_db =
     \<lparr>cd_fault = (\<lambda>_. False), cd_json = (\<lambda>_. True), cd_agents = [(1, ''ag''), (2, ''bg'')], cd_principals = [1], cd_machines = [],
      cd_conversations = [''v''], cd_commands = [], cd_outputs = [], cd_events = [], cd_usage = [], cd_links = [], cd_executions = []\<rparr>"

theorem output_read_back_witness:
  "sorted_wrt (<) (map co_SeqNo [\<lparr>co_CommandID = ''c'', co_SeqNo = 1, co_StreamType = 1, co_Content = ''hi'', co_CreatedAt = 5\<rparr>,
      \<lparr>co_CommandID = ''c'', co_SeqNo = 2, co_StreamType = 1, co_Content = ''yo'', co_CreatedAt = 6\<rparr>]) \<and>
   filter (\<lambda>r. co_SeqNo r = 2) [\<lparr>co_CommandID = ''c'', co_SeqNo = 1, co_StreamType = 1, co_Content = ''hi'', co_CreatedAt = 5\<rparr>,
      \<lparr>co_CommandID = ''c'', co_SeqNo = 2, co_StreamType = 1, co_Content = ''yo'', co_CreatedAt = 6\<rparr>] =
     [\<lparr>co_CommandID = ''c'', co_SeqNo = 2, co_StreamType = 1, co_Content = ''yo'', co_CreatedAt = 6\<rparr>]"
proof -
  let ?db = "foldl command_step sample_command_db [COpCreate ''c'' 0 sample_command]"
  let ?db1 = "snd (AppendCommandOutput ?db ''c'' 2 1 ''yo'' 6)"
  have n: "no_commands sample_command_db" by (simp add: no_commands_def sample_command_db_def)
  have "fst (AppendCommandOutput ?db ''c'' 2 1 ''yo'' 6) = Inr ()"
    by (simp add: CreateCommand_def AppendCommandOutput_def sample_command_db_def sample_command_def find_command_def is_command_def
      fits_smallint_def CommandStatusRunning_def coerceEnvJSON_def Let_def)
  then have a: "AppendCommandOutput ?db ''c'' 2 1 ''yo'' 6 = (Inr (), ?db1)" by (metis prod.collapse)
  have f: "\<not> list_ex (\<lambda>r. output_key r = (''c'', 2)) (cd_outputs ?db)"
    by (simp add: CreateCommand_def sample_command_db_def Let_def)
  have g: "GetCommandOutput (foldl command_step ?db1 [COpOutput ''c'' 1 1 ''hi'' 5, COpOutput ''c'' 2 1 ''again'' 7]) ''c'' 0 =
      Inr [\<lparr>co_CommandID = ''c'', co_SeqNo = 1, co_StreamType = 1, co_Content = ''hi'', co_CreatedAt = 5\<rparr>,
        \<lparr>co_CommandID = ''c'', co_SeqNo = 2, co_StreamType = 1, co_Content = ''yo'', co_CreatedAt = 6\<rparr>]"
    by (simp add: CreateCommand_def AppendCommandOutput_def GetCommandOutput_def sample_command_db_def sample_command_def
      find_command_def is_command_def fits_smallint_def CommandStatusRunning_def coerceEnvJSON_def Let_def)
  from output_read_back [OF n refl a f g] show ?thesis by simp
qed

text \<open>The ledger of a conversation is empty for every organization but \<open>default\<close>: the link of a command
  to its conversation is inserted without an organization, so the column keeps its default,
  and the ledger copies it. A reader that gives the organization of the conversation finds
  nothing, in every history.\<close>

theorem ledger_is_of_default_organization:
  assumes "no_commands db" and "ListConversationExecutionEvents (foldl command_step db ops) org v = Inr rows"
    and "org \<noteq> ''default''"
  shows "rows = []"
proof -
  have "command_inv (foldl command_step db ops)" using command_history.invar_history [OF assms(1), of ops] by simp
  then have "list_all (\<lambda>x. xe_OrganizationID x = ''default'') (cd_executions (foldl command_step db ops))"
    by (simp add: command_inv_def)
  with assms(2,3) show ?thesis
    by (auto simp: ListConversationExecutionEvents_def list_all_iff filter_empty_conv split: if_splits)
qed

theorem ledger_is_of_default_organization_witness:
  "(\<forall>rows. ListConversationExecutionEvents
      (foldl command_step sample_command_db [COpCreate ''c'' 0 sample_command, COpLink ''c'' ''v'']) ''org'' ''v'' = Inr rows \<longrightarrow> rows = []) \<and>
   cd_executions (foldl command_step sample_command_db [COpCreate ''c'' 0 sample_command, COpLink ''c'' ''v'']) \<noteq> []"
proof -
  have n: "no_commands sample_command_db" by (simp add: no_commands_def sample_command_db_def)
  have "cd_executions (foldl command_step sample_command_db [COpCreate ''c'' 0 sample_command, COpLink ''c'' ''v'']) \<noteq> []"
    by (simp add: CreateCommand_def LinkCommandConversation_def AppendCommandExecutionEvent_def execution_rows_def has_execution_def linked_def
      sample_command_db_def sample_command_def find_command_def is_command_def update_command_def uuid_nil_def
      validConversationExecutionEvents_def fits_smallint_def CommandStatusRunning_def coerceEnvJSON_def Let_def)
  with ledger_is_of_default_organization [OF n] show ?thesis by blast
qed

end
