(* ===== verification/Dispatcher.thy ===== *)
theory Dispatcher
  imports Command_Bus Command_Table
begin

text \<open>
  The dispatcher of the manager, \<open>backend/manager/component/dispatcher\<close>: the live sessions of agents
  and machines (\<open>session_registry.go\<close>, \<open>session_lifecycle.go\<close>), the grace period of a command whose
  agent disconnected and the check of pings (\<open>liveness.go\<close>), the messages of an agent about its
  command (\<open>command_handler.go\<close>), the start of a session (\<open>dispatcher.go\<close>), readiness (\<open>assignment.go\<close>)
  and the activity of a conversation (\<open>activity.go\<close>).

  Sessions and timers are objects with an address, their place in a list; the registry maps
  ids to addresses. A call that gives up the registry's lock before it is done is two steps:
  \<open>dp_teardowns\<close> holds the sessions that were taken out of the registry and not yet torn
  down. A grace timer is a goroutine with a program counter. What the store says about
  channels, reminders, agents and members is an argument, as are the parser of UUIDs and the
  encoder of payloads.
\<close>

section \<open>State\<close>

definition gracePeriod :: duration where
  "gracePeriod = 60 * second"

definition pingTimeout :: duration where
  "pingTimeout = 45 * second"

record AgentSession =
  ss_agentID :: int
  ss_agentResourceID :: string
  ss_machineID :: int
  ss_currentCmdID :: string
  ss_send :: bool
  ss_lastPingAt :: instant

record MachineSession =
  ms_machineID :: int
  ms_machineResourceID :: string
  ms_send :: bool
  ms_lastPingAt :: instant

datatype grace_pc = GraceWaiting | GraceChecking | GraceMarking | GraceFinishing | GraceDone

record grace_timer =
  gt_agentID :: int
  gt_commandID :: string
  gt_armedAt :: instant
  gt_cancelled :: bool
  gt_pc :: grace_pc

datatype teardown = TearAgent nat | TearMachine nat "nat list"

record CommandOutput =
  out_CommandId :: string
  out_Type :: int
  out_Content :: string
  out_SeqNo :: int
  out_Timestamp :: instant

record CommandEvent =
  ev_CommandId :: string
  ev_SeqNo :: int
  ev_Type :: int
  ev_Summary :: string
  ev_TokenUsage :: "CommandTokenUsageMessage option"

record Dispatcher =
  dp_agents :: "AgentSession list"
  dp_machines :: "MachineSession list"
  dp_sessions :: "(int \<times> nat) list"
  dp_machineSessions :: "(int \<times> nat) list"
  dp_teardowns :: "teardown list"
  dp_timers :: "grace_timer list"
  dp_grace :: "((int \<times> string) \<times> nat) list"
  dp_machineUpgrades :: "(int \<times> string) list"
  dp_closing :: "string list"
  dp_stopped :: bool
  dp_outputs :: "CommandOutput command_bus"
  dp_events :: "CommandEvent command_bus"
  dp_store :: command_db

definition NewDispatcher :: "command_db \<Rightarrow> Dispatcher" where
  "NewDispatcher db =
     \<lparr>dp_agents = [], dp_machines = [], dp_sessions = [], dp_machineSessions = [], dp_teardowns = [], dp_timers = [], dp_grace = [],
      dp_machineUpgrades = [], dp_closing = [], dp_stopped = False, dp_outputs = newCommandBus, dp_events = newCommandBus, dp_store = db\<rparr>"

section \<open>The registry\<close>

definition getAgent :: "Dispatcher \<Rightarrow> int \<Rightarrow> nat option" where
  "getAgent d agentID = map_of (dp_sessions d) agentID"

definition getMachine :: "Dispatcher \<Rightarrow> int \<Rightarrow> nat option" where
  "getMachine d machineID = map_of (dp_machineSessions d) machineID"

definition getMachineByResourceID :: "Dispatcher \<Rightarrow> string \<Rightarrow> nat option" where
  "getMachineByResourceID d resourceID =
     map_option snd (find (\<lambda>(_, m). ms_machineResourceID (dp_machines d ! m) = resourceID) (dp_machineSessions d))"

definition invalidate :: "nat \<Rightarrow> Dispatcher \<Rightarrow> Dispatcher" where
  "invalidate a d = d\<lparr>dp_agents := (dp_agents d)[a := (dp_agents d ! a)\<lparr>ss_send := False\<rparr>]\<rparr>"

definition invalidate_machine :: "nat \<Rightarrow> Dispatcher \<Rightarrow> Dispatcher" where
  "invalidate_machine m d = d\<lparr>dp_machines := (dp_machines d)[m := (dp_machines d ! m)\<lparr>ms_send := False\<rparr>]\<rparr>"

definition deleteAgent :: "Dispatcher \<Rightarrow> int \<Rightarrow> nat option \<times> Dispatcher" where
  "deleteAgent d agentID = (getAgent d agentID, d\<lparr>dp_sessions := assoc_del agentID (dp_sessions d)\<rparr>)"

definition deleteAgentIf :: "Dispatcher \<Rightarrow> int \<Rightarrow> nat \<Rightarrow> bool \<times> Dispatcher" where
  "deleteAgentIf d agentID a =
     (if getAgent d agentID = Some a then (True, d\<lparr>dp_sessions := assoc_del agentID (dp_sessions d)\<rparr>) else (False, d))"

definition owned_by :: "Dispatcher \<Rightarrow> int \<Rightarrow> int \<times> nat \<Rightarrow> bool" where
  "owned_by d machineID entry = (ss_machineID (dp_agents d ! snd entry) = machineID)"

definition detach_machine :: "Dispatcher \<Rightarrow> int \<Rightarrow> nat list \<times> Dispatcher" where
  "detach_machine d machineID =
     (map snd (filter (owned_by d machineID) (dp_sessions d)),
      d\<lparr>dp_machineSessions := assoc_del machineID (dp_machineSessions d),
        dp_sessions := filter (\<lambda>e. \<not> owned_by d machineID e) (dp_sessions d)\<rparr>)"

definition deleteMachineWithAgents :: "Dispatcher \<Rightarrow> int \<Rightarrow> (nat \<times> nat list) option \<times> Dispatcher" where
  "deleteMachineWithAgents d machineID =
     (case getMachine d machineID of
        None \<Rightarrow> (None, d)
      | Some m \<Rightarrow> (case detach_machine d machineID of (owned, d') \<Rightarrow> (Some (m, owned), d')))"

definition deleteMachineIfWithAgents :: "Dispatcher \<Rightarrow> int \<Rightarrow> nat \<Rightarrow> nat list option \<times> Dispatcher" where
  "deleteMachineIfWithAgents d machineID m =
     (if getMachine d machineID = Some m
      then (case detach_machine d machineID of (owned, d') \<Rightarrow> (Some owned, d')) else (None, d))"

section \<open>Grace timers\<close>

definition cancel_timer :: "nat \<Rightarrow> grace_timer list \<Rightarrow> grace_timer list" where
  "cancel_timer k ts = ts[k := (ts ! k)\<lparr>gt_cancelled := True\<rparr>]"

definition startGracePeriod :: "Dispatcher \<Rightarrow> instant \<Rightarrow> int \<Rightarrow> string \<Rightarrow> Dispatcher" where
  "startGracePeriod d now agentID commandID =
     d\<lparr>dp_timers := dp_timers d @ [\<lparr>gt_agentID = agentID, gt_commandID = commandID, gt_armedAt = now,
          gt_cancelled = dp_stopped d, gt_pc = GraceWaiting\<rparr>],
       dp_grace := assoc_set (agentID, commandID) (length (dp_timers d)) (dp_grace d)\<rparr>"

definition cancelGraceForAgent :: "Dispatcher \<Rightarrow> int \<Rightarrow> Dispatcher" where
  "cancelGraceForAgent d agentID =
     d\<lparr>dp_timers := foldl (\<lambda>ts e. cancel_timer (snd e) ts) (dp_timers d) (filter (\<lambda>e. fst (fst e) = agentID) (dp_grace d)),
       dp_grace := filter (\<lambda>e. fst (fst e) \<noteq> agentID) (dp_grace d)\<rparr>"

definition finishGrace :: "Dispatcher \<Rightarrow> int \<Rightarrow> string \<Rightarrow> Dispatcher" where
  "finishGrace d agentID commandID = d\<lparr>dp_grace := assoc_del (agentID, commandID) (dp_grace d)\<rparr>"

definition set_pc :: "nat \<Rightarrow> grace_pc \<Rightarrow> Dispatcher \<Rightarrow> Dispatcher" where
  "set_pc k pc d = d\<lparr>dp_timers := (dp_timers d)[k := (dp_timers d ! k)\<lparr>gt_pc := pc\<rparr>]\<rparr>"

definition disconnected :: string where
  "disconnected = ''agent disconnected during execution''"

text \<open>The goroutine of a timer: it waits, looks whether the agent is back, marks the command and
  removes its entry. When the period is over and the timer was cancelled, the \<open>select\<close> takes
  either way: \<open>late\<close> says which.\<close>

definition grace_step :: "(string \<Rightarrow> string option) \<Rightarrow> Dispatcher \<Rightarrow> nat \<Rightarrow> instant \<Rightarrow> bool \<Rightarrow> Dispatcher" where
  "grace_step parse d k now late =
     (if \<not> k < length (dp_timers d) then d
      else let t = dp_timers d ! k in
      case gt_pc t of
        GraceWaiting \<Rightarrow>
          (if parse (gt_commandID t) = None then set_pc k GraceFinishing d
           else if gt_cancelled t \<and> \<not> (late \<and> gt_armedAt t + gracePeriod \<le> now) then set_pc k GraceFinishing d
           else if gt_armedAt t + gracePeriod \<le> now then set_pc k GraceChecking d
           else d)
      | GraceChecking \<Rightarrow> set_pc k (if getAgent d (gt_agentID t) \<noteq> None then GraceFinishing else GraceMarking) d
      | GraceMarking \<Rightarrow>
          (let db = (if dp_stopped d then dp_store d
                 else snd (UpdateCommandStatus (dp_store d) (the (parse (gt_commandID t))) CommandStatusFailed None (Some now) None None
                   disconnected))
           in set_pc k GraceFinishing (d\<lparr>dp_store := db, dp_outputs := close_bus (dp_outputs d) (gt_commandID t)\<rparr>))
      | GraceFinishing \<Rightarrow> set_pc k GraceDone (finishGrace d (gt_agentID t) (gt_commandID t))
      | GraceDone \<Rightarrow> d)"

section \<open>Lifecycle of sessions\<close>

definition RegisterAgent :: "Dispatcher \<Rightarrow> instant \<Rightarrow> int \<Rightarrow> int \<Rightarrow> string \<Rightarrow> nat \<times> Dispatcher" where
  "RegisterAgent d now agentID machineID resourceID =
     (let d1 = (case getAgent d agentID of None \<Rightarrow> d | Some old \<Rightarrow> invalidate old d);
          d2 = cancelGraceForAgent d1 agentID;
          a = length (dp_agents d2)
      in (a, d2\<lparr>dp_agents := dp_agents d2 @ [\<lparr>ss_agentID = agentID, ss_agentResourceID = resourceID, ss_machineID = machineID,
               ss_currentCmdID = [], ss_send = True, ss_lastPingAt = now\<rparr>],
             dp_sessions := assoc_set agentID a (dp_sessions d2)\<rparr>))"

definition RegisterMachine :: "Dispatcher \<Rightarrow> instant \<Rightarrow> int \<Rightarrow> string \<Rightarrow> nat \<times> Dispatcher" where
  "RegisterMachine d now machineID resourceID =
     (let d1 = (case getMachine d machineID of None \<Rightarrow> d | Some old \<Rightarrow> invalidate_machine old d);
          m = length (dp_machines d1)
      in (m, d1\<lparr>dp_machines := dp_machines d1 @ [\<lparr>ms_machineID = machineID, ms_machineResourceID = resourceID, ms_send = True,
               ms_lastPingAt = now\<rparr>],
             dp_machineSessions := assoc_set machineID m (dp_machineSessions d1),
             dp_machineUpgrades := assoc_del machineID (dp_machineUpgrades d1)\<rparr>))"

definition teardownAgentSession :: "Dispatcher \<Rightarrow> instant \<Rightarrow> nat \<Rightarrow> Dispatcher" where
  "teardownAgentSession d now a =
     (let s = dp_agents d ! a; d1 = invalidate a d in
      if ss_currentCmdID s \<noteq> [] then startGracePeriod d1 now (ss_agentID s) (ss_currentCmdID s) else d1)"

definition teardownMachineSession :: "Dispatcher \<Rightarrow> instant \<Rightarrow> nat \<Rightarrow> nat list \<Rightarrow> Dispatcher" where
  "teardownMachineSession d now m owned = foldl (\<lambda>d a. teardownAgentSession d now a) (invalidate_machine m d) owned"

definition run_teardown :: "Dispatcher \<Rightarrow> instant \<Rightarrow> teardown \<Rightarrow> Dispatcher" where
  "run_teardown d now t =
     (case t of TearAgent a \<Rightarrow> teardownAgentSession d now a | TearMachine m owned \<Rightarrow> teardownMachineSession d now m owned)"

text \<open>The first half of the calls that unregister, under the registry's lock.\<close>

definition UnregisterAgent_begin :: "Dispatcher \<Rightarrow> int \<Rightarrow> Dispatcher" where
  "UnregisterAgent_begin d agentID =
     (case deleteAgent d agentID of
        (None, d') \<Rightarrow> d'
      | (Some a, d') \<Rightarrow> d'\<lparr>dp_teardowns := dp_teardowns d' @ [TearAgent a]\<rparr>)"

definition UnregisterAgentIf_begin :: "Dispatcher \<Rightarrow> int \<Rightarrow> nat \<Rightarrow> Dispatcher" where
  "UnregisterAgentIf_begin d agentID a =
     (case deleteAgentIf d agentID a of
        (False, d') \<Rightarrow> d'
      | (True, d') \<Rightarrow> d'\<lparr>dp_teardowns := dp_teardowns d' @ [TearAgent a]\<rparr>)"

definition UnregisterMachine_begin :: "Dispatcher \<Rightarrow> int \<Rightarrow> Dispatcher" where
  "UnregisterMachine_begin d machineID =
     (case deleteMachineWithAgents d machineID of
        (None, d') \<Rightarrow> d'
      | (Some (m, owned), d') \<Rightarrow> d'\<lparr>dp_teardowns := dp_teardowns d' @ [TearMachine m owned]\<rparr>)"

definition UnregisterMachineIf_begin :: "Dispatcher \<Rightarrow> int \<Rightarrow> nat \<Rightarrow> Dispatcher" where
  "UnregisterMachineIf_begin d machineID m =
     (case deleteMachineIfWithAgents d machineID m of
        (None, d') \<Rightarrow> d'
      | (Some owned, d') \<Rightarrow> d'\<lparr>dp_teardowns := dp_teardowns d' @ [TearMachine m owned]\<rparr>)"

text \<open>The second half of the call that waits at place \<open>k\<close>.\<close>

definition finish_teardown :: "Dispatcher \<Rightarrow> nat \<Rightarrow> instant \<Rightarrow> Dispatcher" where
  "finish_teardown d k now =
     (if k < length (dp_teardowns d)
      then run_teardown (d\<lparr>dp_teardowns := take k (dp_teardowns d) @ drop (Suc k) (dp_teardowns d)\<rparr>) now (dp_teardowns d ! k)
      else d)"

section \<open>Pings\<close>

definition HandlePing :: "Dispatcher \<Rightarrow> int \<Rightarrow> instant \<Rightarrow> Dispatcher" where
  "HandlePing d agentID now =
     (case getAgent d agentID of
        None \<Rightarrow> d
      | Some a \<Rightarrow> d\<lparr>dp_agents := (dp_agents d)[a := (dp_agents d ! a)\<lparr>ss_lastPingAt := now\<rparr>]\<rparr>)"

definition HandleMachinePing :: "Dispatcher \<Rightarrow> int \<Rightarrow> instant \<Rightarrow> Dispatcher" where
  "HandleMachinePing d machineID now =
     (case getMachine d machineID of
        None \<Rightarrow> d
      | Some m \<Rightarrow> d\<lparr>dp_machines := (dp_machines d)[m := (dp_machines d ! m)\<lparr>ms_lastPingAt := now\<rparr>]\<rparr>)"

definition check_agent :: "instant \<Rightarrow> Dispatcher \<Rightarrow> nat \<Rightarrow> Dispatcher" where
  "check_agent now d a =
     (let s = dp_agents d ! a in
      if ss_send s \<and> now - ss_lastPingAt s > pingTimeout then UnregisterAgentIf_begin d (ss_agentID s) a else d)"

definition check_machine :: "instant \<Rightarrow> Dispatcher \<Rightarrow> nat \<Rightarrow> Dispatcher" where
  "check_machine now d m =
     (let s = dp_machines d ! m in
      if ms_send s \<and> now - ms_lastPingAt s > pingTimeout then UnregisterMachineIf_begin d (ms_machineID s) m else d)"

text \<open>The sweep when nothing comes between its steps; each session that timed out is torn down at
  once.\<close>

definition settle_last :: "instant \<Rightarrow> Dispatcher \<Rightarrow> Dispatcher" where
  "settle_last now d = (if dp_teardowns d = [] then d else finish_teardown d (length (dp_teardowns d) - 1) now)"

definition checkSessionLiveness :: "Dispatcher \<Rightarrow> instant \<Rightarrow> Dispatcher" where
  "checkSessionLiveness d now =
     (let sessions = map snd (dp_sessions d); machines = map snd (dp_machineSessions d);
          d1 = foldl (\<lambda>d a. settle_last now (check_agent now d a)) d sessions
      in foldl (\<lambda>d m. settle_last now (check_machine now d m)) d1 machines)"

definition StopDispatcher :: "Dispatcher \<Rightarrow> Dispatcher" where
  "StopDispatcher d = d\<lparr>dp_stopped := True, dp_timers := map (\<lambda>t. t\<lparr>gt_cancelled := True\<rparr>) (dp_timers d)\<rparr>"

section \<open>Sending\<close>

datatype send_error = AgentNotConnected | AgentSessionInvalidated | MachineNotConnected | MachineSessionInvalidated | AssignmentInvalid

text \<open>A send looks the session up under the registry's lock, releases it, and then sends over the session
  it found: \<open>d\<close> is the state of the lookup and \<open>d1\<close> the state, perhaps later, of the send.\<close>

definition session_deliver :: "Dispatcher \<Rightarrow> nat \<Rightarrow> (send_error, unit) result" where
  "session_deliver d a = (if ss_send (dp_agents d ! a) then Inr () else Inl AgentSessionInvalidated)"

definition deliver_machine :: "Dispatcher \<Rightarrow> nat \<Rightarrow> (send_error, unit) result" where
  "deliver_machine d m = (if ms_send (dp_machines d ! m) then Inr () else Inl MachineSessionInvalidated)"

definition sendToAgent :: "Dispatcher \<Rightarrow> Dispatcher \<Rightarrow> int \<Rightarrow> (send_error, unit) result" where
  "sendToAgent d d1 agentID = (case getAgent d agentID of None \<Rightarrow> Inl AgentNotConnected | Some a \<Rightarrow> session_deliver d1 a)"

definition sendToMachine :: "Dispatcher \<Rightarrow> Dispatcher \<Rightarrow> int \<Rightarrow> (send_error, unit) result" where
  "sendToMachine d d1 machineID = (case getMachine d machineID of None \<Rightarrow> Inl MachineNotConnected | Some m \<Rightarrow> deliver_machine d1 m)"

definition SendMachineAssignmentEvent :: "Dispatcher \<Rightarrow> Dispatcher \<Rightarrow> string \<Rightarrow> (send_error, unit) result" where
  "SendMachineAssignmentEvent d d1 resourceID =
     (if resourceID = [] then Inl AssignmentInvalid
      else case getMachineByResourceID d resourceID of None \<Rightarrow> Inl MachineNotConnected | Some m \<Rightarrow> deliver_machine d1 m)"

definition IsAgentConnected :: "Dispatcher \<Rightarrow> int \<Rightarrow> bool" where
  "IsAgentConnected d agentID = (getAgent d agentID \<noteq> None)"

definition IsMachineConnected :: "Dispatcher \<Rightarrow> int \<Rightarrow> bool" where
  "IsMachineConnected d machineID = (getMachine d machineID \<noteq> None)"

definition CurrentCommandID :: "Dispatcher \<Rightarrow> int \<Rightarrow> string" where
  "CurrentCommandID d agentID =
     (case getAgent d agentID of None \<Rightarrow> [] | Some a \<Rightarrow> ss_currentCmdID (dp_agents d ! a))"

definition RecordMachineUpgrade :: "Dispatcher \<Rightarrow> int \<Rightarrow> string option \<Rightarrow> Dispatcher" where
  "RecordMachineUpgrade d machineID progress =
     (case progress of None \<Rightarrow> d | Some p \<Rightarrow> d\<lparr>dp_machineUpgrades := assoc_set machineID p (dp_machineUpgrades d)\<rparr>)"

definition MachineUpgradeStatus :: "Dispatcher \<Rightarrow> int \<Rightarrow> string option" where
  "MachineUpgradeStatus d machineID = map_of (dp_machineUpgrades d) machineID"

section \<open>Messages of an agent\<close>

definition clear_current :: "nat \<Rightarrow> string \<Rightarrow> Dispatcher \<Rightarrow> Dispatcher" where
  "clear_current a commandID d =
     (if ss_currentCmdID (dp_agents d ! a) = commandID
      then d\<lparr>dp_agents := (dp_agents d)[a := (dp_agents d ! a)\<lparr>ss_currentCmdID := []\<rparr>]\<rparr> else d)"

definition set_current :: "int \<Rightarrow> string \<Rightarrow> Dispatcher \<Rightarrow> Dispatcher" where
  "set_current agentID commandID d =
     (case getAgent d agentID of
        None \<Rightarrow> d
      | Some a \<Rightarrow> d\<lparr>dp_agents := (dp_agents d)[a := (dp_agents d ! a)\<lparr>ss_currentCmdID := commandID\<rparr>]\<rparr>)"

datatype dispatch_error = DispatchStore command_error | BadCommandID | MarshalFailed

record CommandProgress =
  pg_CommandId :: string
  pg_SeqNo :: int
  pg_Type :: int
  pg_Content :: string
  pg_Timestamp :: "instant option"

definition HandleProgress ::
  "(string \<Rightarrow> string option) \<Rightarrow> Dispatcher \<Rightarrow> instant \<Rightarrow> CommandProgress \<Rightarrow> (dispatch_error, unit) result \<times> Dispatcher" where
  "HandleProgress parse d now p =
     (case parse (pg_CommandId p) of
        None \<Rightarrow> (Inl BadCommandID, d)
      | Some c \<Rightarrow>
          let ts = (case pg_Timestamp p of None \<Rightarrow> now | Some t \<Rightarrow> t) in
          (case AppendCommandOutput (dp_store d) c (pg_SeqNo p) (pg_Type p) (pg_Content p) ts of
             (Inl e, db) \<Rightarrow> (Inl (DispatchStore e), d\<lparr>dp_store := db\<rparr>)
           | (Inr _, db) \<Rightarrow>
               (Inr (), d\<lparr>dp_store := db,
                  dp_outputs := broadcast_bus (dp_outputs d) (pg_CommandId p)
                    \<lparr>out_CommandId = pg_CommandId p, out_Type = pg_Type p, out_Content = pg_Content p, out_SeqNo = pg_SeqNo p,
                     out_Timestamp = ts\<rparr>\<rparr>)))"

definition TOKEN_USAGE :: int where
  "TOKEN_USAGE = 15"

text \<open>Errors after the event itself was stored are only logged.\<close>

definition event_followups :: "command_db \<Rightarrow> string \<Rightarrow> CommandEvent \<Rightarrow> command_db" where
  "event_followups db c e =
     (let db1 = (case ev_TokenUsage e of
             Some u \<Rightarrow> if ev_Type e = TOKEN_USAGE then snd (RecordCommandTokenUsage db (u\<lparr>tu_CommandID := c\<rparr>)) else db
           | None \<Rightarrow> db)
      in snd (UpdateCommandAckSeq db1 c (ev_SeqNo e)))"

definition HandleEvent ::
  "(string \<Rightarrow> string option) \<Rightarrow> (CommandEvent \<Rightarrow> (unit, string option) result) \<Rightarrow> Dispatcher \<Rightarrow> CommandEvent \<Rightarrow>
   (dispatch_error, unit) result \<times> Dispatcher" where
  "HandleEvent parse marshal d e =
     (case parse (ev_CommandId e) of
        None \<Rightarrow> (Inl BadCommandID, d)
      | Some c \<Rightarrow>
          (case marshal e of
             Inl _ \<Rightarrow> (Inl MarshalFailed, d)
           | Inr payload \<Rightarrow>
               (case AppendCommandEvent (dp_store d) \<lparr>ce_CommandID = c, ce_SeqNo = ev_SeqNo e, ce_EventType = ev_Type e,
                      ce_Summary = ev_Summary e, ce_PayloadJSON = (case payload of None \<Rightarrow> ''{}'' | Some j \<Rightarrow> j)\<rparr> of
                  (Inl err, db) \<Rightarrow> (Inl (DispatchStore err), d\<lparr>dp_store := db\<rparr>)
                | (Inr _, db) \<Rightarrow>
                    (Inr (), d\<lparr>dp_store := event_followups db c e,
                       dp_events := broadcast_bus (dp_events d) (ev_CommandId e) e\<rparr>))))"

record CommandResult =
  rs_CommandId :: string
  rs_ExitCode :: int
  rs_DurationMs :: int
  rs_LastSeqNo :: int
  rs_ErrorMessage :: string
  rs_FinalSummary :: string
  rs_ResultJSON :: string

definition completion_payload :: "CommandResult \<Rightarrow> string" where
  "completion_payload r =
     (CHR ''{'' # CHR 0x22 # ''status'' @ CHR 0x22 # CHR '':'' # CHR 0x22 #
        (if rs_ExitCode r \<noteq> 0 then ''failed'' else ''completed'')) @ [CHR 0x22, CHR ''}'']"

definition result_followups :: "command_db \<Rightarrow> string \<Rightarrow> CommandResult \<Rightarrow> command_db" where
  "result_followups db c r =
     (let db1 = snd (UpdateCommandAckSeq db c (rs_LastSeqNo r));
          db2 = snd (UpdateCommandResultSummary db1 c (rs_FinalSummary r) (rs_ResultJSON r))
      in snd (AppendCommandExecutionEvent db2 c ''COMMAND_COMPLETED'' (completion_payload r)))"

definition HandleResult ::
  "(string \<Rightarrow> string option) \<Rightarrow> Dispatcher \<Rightarrow> instant \<Rightarrow> int \<Rightarrow> CommandResult \<Rightarrow> (dispatch_error, unit) result \<times> Dispatcher" where
  "HandleResult parse d now agentID r =
     (case parse (rs_CommandId r) of
        None \<Rightarrow> (Inl BadCommandID, d)
      | Some c \<Rightarrow>
          let d1 = (case getAgent d agentID of None \<Rightarrow> d | Some a \<Rightarrow> clear_current a (rs_CommandId r) d);
              status = (if rs_ExitCode r \<noteq> 0 then CommandStatusFailed else CommandStatusCompleted) in
          (case UpdateCommandStatus (dp_store d1) c status None (Some now) (Some (rs_ExitCode r)) (Some (rs_DurationMs r))
                 (rs_ErrorMessage r) of
             (Inl e, db) \<Rightarrow> (Inl (DispatchStore e), d1\<lparr>dp_store := db\<rparr>)
           | (Inr _, db) \<Rightarrow>
               (Inr (), d1\<lparr>dp_store := result_followups db c r,
                  dp_outputs := broadcast_bus (dp_outputs d1) (rs_CommandId r)
                    \<lparr>out_CommandId = rs_CommandId r, out_Type = 3, out_Content = rs_ErrorMessage r,
                     out_SeqNo = i32 (rs_LastSeqNo r + 1), out_Timestamp = now\<rparr>,
                  dp_closing := dp_closing d1 @ [rs_CommandId r]\<rparr>)))"

text \<open>The goroutine that closes the watchers a tenth of a second later, unless the dispatcher was
  stopped.\<close>

definition close_watchers :: "Dispatcher \<Rightarrow> string \<Rightarrow> Dispatcher" where
  "close_watchers d commandID =
     (if commandID \<notin> set (dp_closing d) then d
      else if dp_stopped d then d\<lparr>dp_closing := remove1 commandID (dp_closing d)\<rparr>
      else d\<lparr>dp_closing := remove1 commandID (dp_closing d), dp_outputs := close_bus (dp_outputs d) commandID,
             dp_events := close_bus (dp_events d) commandID\<rparr>)"

definition CancelCommand :: "Dispatcher \<Rightarrow> Dispatcher \<Rightarrow> int \<Rightarrow> (send_error, unit) result" where
  "CancelCommand d d1 agentID = (case getAgent d agentID of None \<Rightarrow> Inl AgentNotConnected | Some a \<Rightarrow> session_deliver d1 a)"

section \<open>Sessions of work\<close>

record agent_row =
  ag_ResourceID :: string
  ag_Name :: string
  ag_MachineID :: int
  ag_Enabled :: bool
  ag_Capable :: bool
  ag_OwnerName :: string

datatype begin_session = SessionIdle | SessionBegun string string string

definition session_command :: "int \<Rightarrow> agent_row \<Rightarrow> CommandMessage" where
  "session_command agentID row =
     \<lparr>cm_ID = [], cm_AgentID = agentID, cm_MachineID = ag_MachineID row, cm_PrincipalID = 1, cm_Command = [], cm_Instruction = [],
      cm_Profile = [], cm_AllowDiff = False, cm_Status = CommandStatusRunning, cm_ExitCode = None, cm_DurationMs = None,
      cm_CreatedAt = 0, cm_StartedAt = None, cm_CompletedAt = None, cm_ErrorMessage = [], cm_FinalSummary = [],
      cm_ResultJSON = [], cm_Env = [], cm_WorkingDir = [], cm_TimeoutSeconds = 0, cm_LastAckSeq = 0, cm_ConversationID = None\<rparr>"

text \<open>\<open>updates\<close>, \<open>reminders\<close> and \<open>row\<close> are the answers of the store; \<open>fresh\<close> is the new command's id.\<close>

definition HandleBeginSession ::
  "Dispatcher \<Rightarrow> instant \<Rightarrow> string \<Rightarrow> int \<Rightarrow> (command_error, bool) result \<Rightarrow> (command_error, bool) result \<Rightarrow> agent_row option \<Rightarrow>
   (command_error, begin_session) result \<times> Dispatcher" where
  "HandleBeginSession d now fresh agentID updates reminders row =
     (case updates of
        Inl e \<Rightarrow> (Inl e, d)
      | Inr hasUpdates \<Rightarrow>
          (case reminders of
             Inl e \<Rightarrow> (Inl e, d)
           | Inr hasReminders \<Rightarrow>
               if \<not> hasUpdates \<and> \<not> hasReminders then (Inr SessionIdle, d)
               else case row of
                 None \<Rightarrow> (Inl AgentNotFound, d)
               | Some a \<Rightarrow>
                   if \<not> ag_Enabled a then (Inr SessionIdle, d)
                   else if \<not> ag_Capable a then (Inr SessionIdle, d)
                   else (case CreateCommand (dp_store d) fresh now (session_command agentID a) of
                       (Inl e, db) \<Rightarrow> (Inl e, d\<lparr>dp_store := db\<rparr>)
                     | (Inr cmd, db) \<Rightarrow>
                         (Inr (SessionBegun fresh (ag_Name a) (ag_OwnerName a)),
                          set_current agentID fresh
                            (d\<lparr>dp_store := snd (UpdateCommandStatus db fresh CommandStatusRunning (Some now) None None None [])\<rparr>)))))"

definition agentStopped :: "bool \<Rightarrow> (command_error, agent_row option) result \<Rightarrow> bool" where
  "agentStopped has_store row =
     (if \<not> has_store then False
      else case row of Inl _ \<Rightarrow> True | Inr None \<Rightarrow> True | Inr (Some a) \<Rightarrow> \<not> ag_Enabled a)"

definition IsAgentReadyForWork :: "Dispatcher \<Rightarrow> bool \<Rightarrow> (command_error, agent_row option) result \<Rightarrow> int \<Rightarrow> bool \<times> string" where
  "IsAgentReadyForWork d has_store row agentID =
     (if agentStopped has_store row then (False, ''agent is stopped or disabled'')
      else case getAgent d agentID of
        None \<Rightarrow> (False, ''agent is offline'')
      | Some a \<Rightarrow>
          let s = dp_agents d ! a in
          if ss_machineID s \<noteq> 0 \<and> \<not> IsMachineConnected d (ss_machineID s) then (False, ''hosting machine is offline'')
          else if ss_currentCmdID s \<noteq> [] then (False, ''agent is busy with an in-flight command'')
          else (True, []))"

definition GetAgentAvailability :: "Dispatcher \<Rightarrow> bool \<Rightarrow> (command_error, agent_row option) result \<Rightarrow> int \<Rightarrow> string" where
  "GetAgentAvailability d has_store row agentID =
     (case IsAgentReadyForWork d has_store row agentID of
        (True, _) \<Rightarrow> ''READY''
      | (False, reason) \<Rightarrow>
          if reason = ''agent is stopped or disabled'' then ''STOPPED''
          else if reason = ''agent is busy with an in-flight command'' then ''BUSY'' else ''OFFLINE'')"

text \<open>\<open>NotifyNewMessages\<close>, \<open>NotifyWake\<close> and \<open>NotifyThreadMention\<close> differ in the message only; the answer
  says whether it was sent.\<close>

definition notify_agent :: "Dispatcher \<Rightarrow> Dispatcher \<Rightarrow> bool \<Rightarrow> (command_error, agent_row option) result \<Rightarrow> int \<Rightarrow> bool" where
  "notify_agent d d1 has_store row agentID =
     (if agentStopped has_store row then False
      else case getAgent d agentID of None \<Rightarrow> False | Some a \<Rightarrow> session_deliver d1 a = Inr ())"

section \<open>Activity of a conversation\<close>

record AgentActivity =
  ac_AgentId :: string
  ac_DisplayName :: string
  ac_Status :: string
  ac_ToolName :: string

definition event_status :: "RunningCommandInfo \<Rightarrow> string \<times> string" where
  "event_status r =
     (if rc_EventType r = 0 \<or> rc_EventType r = 1 then (''starting'', [])
      else if rc_EventType r = 2 then (''output'', [])
      else if rc_EventType r = 3 then (case rc_Summary r of Some s \<Rightarrow> (s, s) | None \<Rightarrow> (''tool'', []))
      else if rc_EventType r = 4 then (''thinking'', [])
      else if rc_EventType r = 12 then (''compacting'', [])
      else if rc_EventType r = 13 \<or> rc_EventType r = 14 then (''thinking'', [])
      else (''starting'', []))"

definition activity_of :: "Dispatcher \<Rightarrow> RunningCommandInfo list \<Rightarrow> int \<times> agent_row \<Rightarrow> AgentActivity" where
  "activity_of d running ag =
     (let idle = \<lparr>ac_AgentId = ag_ResourceID (snd ag), ac_DisplayName = ag_Name (snd ag), ac_Status = ''idle'', ac_ToolName = []\<rparr> in
      case getAgent d (fst ag) of
        None \<Rightarrow> idle\<lparr>ac_Status := ''offline''\<rparr>
      | Some a \<Rightarrow>
          (case map_of (rev (map (\<lambda>r. (rc_AgentID r, r)) running)) (fst ag) of
             None \<Rightarrow> idle
           | Some r \<Rightarrow>
               let st = event_status r in
               idle\<lparr>ac_Status := (if ss_currentCmdID (dp_agents d ! a) = [] then ''idle'' else fst st), ac_ToolName := snd st\<rparr>))"

text \<open>\<open>agents\<close> are the agents among the members of the conversation that exist, with their ids.\<close>

definition FetchConversationActivity ::
  "(string \<Rightarrow> string option) \<Rightarrow> Dispatcher \<Rightarrow> string \<Rightarrow> (command_error, (int \<times> agent_row) list) result \<Rightarrow>
   (command_error, AgentActivity list) result" where
  "FetchConversationActivity parse d conversationID agents =
     (case parse conversationID of
        None \<Rightarrow> Inl InvalidCommandID
      | Some v \<Rightarrow>
          (case agents of
             Inl e \<Rightarrow> Inl e
           | Inr ags \<Rightarrow>
               (case GetRunningCommandsForConversation (dp_store d) (map fst ags) v of
                  Inl e \<Rightarrow> Inl e
                | Inr running \<Rightarrow> Inr (map (activity_of d running) ags))))"

section \<open>Histories\<close>

datatype dispatch_op =
    DRegister instant int int string
  | DUnregister int
  | DUnregisterIf int nat
  | DRegisterMachine instant int string
  | DUnregisterMachine int
  | DUnregisterMachineIf int nat
  | DTeardown nat instant
  | DTimer nat instant bool
  | DPing int instant
  | DMachinePing int instant
  | DCheck nat instant
  | DCheckMachine nat instant
  | DBegin instant string int "(command_error, bool) result" "(command_error, bool) result" "agent_row option"
  | DProgress instant CommandProgress
  | DEvent CommandEvent
  | DResult instant int CommandResult
  | DClear nat string
  | DCloseWatchers string
  | DUpgrade int "string option"
  | DStop
  | DStore command_op

fun dispatch_step ::
  "(string \<Rightarrow> string option) \<Rightarrow> (CommandEvent \<Rightarrow> (unit, string option) result) \<Rightarrow> Dispatcher \<Rightarrow> dispatch_op \<Rightarrow> Dispatcher" where
  "dispatch_step parse marshal d (DRegister now agent machine res) = snd (RegisterAgent d now agent machine res)"
| "dispatch_step parse marshal d (DUnregister agent) = UnregisterAgent_begin d agent"
| "dispatch_step parse marshal d (DUnregisterIf agent a) = UnregisterAgentIf_begin d agent a"
| "dispatch_step parse marshal d (DRegisterMachine now machine res) = snd (RegisterMachine d now machine res)"
| "dispatch_step parse marshal d (DUnregisterMachine machine) = UnregisterMachine_begin d machine"
| "dispatch_step parse marshal d (DUnregisterMachineIf machine m) = UnregisterMachineIf_begin d machine m"
| "dispatch_step parse marshal d (DTeardown k now) = finish_teardown d k now"
| "dispatch_step parse marshal d (DTimer k now late) = grace_step parse d k now late"
| "dispatch_step parse marshal d (DPing agent now) = HandlePing d agent now"
| "dispatch_step parse marshal d (DMachinePing machine now) = HandleMachinePing d machine now"
| "dispatch_step parse marshal d (DCheck a now) = (if a < length (dp_agents d) then check_agent now d a else d)"
| "dispatch_step parse marshal d (DCheckMachine m now) = (if m < length (dp_machines d) then check_machine now d m else d)"
| "dispatch_step parse marshal d (DBegin now fresh agent u r row) = snd (HandleBeginSession d now fresh agent u r row)"
| "dispatch_step parse marshal d (DProgress now p) = snd (HandleProgress parse d now p)"
| "dispatch_step parse marshal d (DEvent e) = snd (HandleEvent parse marshal d e)"
| "dispatch_step parse marshal d (DResult now agent r) = snd (HandleResult parse d now agent r)"
| "dispatch_step parse marshal d (DClear a c) = (if a < length (dp_agents d) then clear_current a c d else d)"
| "dispatch_step parse marshal d (DCloseWatchers c) = close_watchers d c"
| "dispatch_step parse marshal d (DUpgrade machine p) = RecordMachineUpgrade d machine p"
| "dispatch_step parse marshal d DStop = StopDispatcher d"
| "dispatch_step parse marshal d (DStore op) = d\<lparr>dp_store := command_step (dp_store d) op\<rparr>"

end
