(* ===== verification/Session_Table.thy ===== *)
theory Session_Table
  imports Prelude
begin

text \<open>
  What the registry of the dispatcher does with agents and with machines alike: objects with
  an address and an id, of which some can send; a table from ids to addresses; and the
  objects that were taken out of the table and are not yet torn down. \<open>table_ok\<close> says that
  exactly the registered objects and those awaiting their teardown can send, and the lemmas
  that registering, detaching and tearing down keep it so.
\<close>

definition table_ok :: "nat \<Rightarrow> (nat \<Rightarrow> int) \<Rightarrow> (nat \<Rightarrow> bool) \<Rightarrow> (int \<times> nat) list \<Rightarrow> nat list \<Rightarrow> bool" where
  "table_ok n key live reg pend \<longleftrightarrow>
     distinct_keys reg \<and> distinct pend \<and> (\<forall>a\<in>set pend. a < n) \<and>
     (\<forall>k a. map_of reg k = Some a \<longrightarrow> a < n \<and> key a = k \<and> a \<notin> set pend) \<and>
     (\<forall>a<n. live a \<longleftrightarrow> map_of reg (key a) = Some a \<or> a \<in> set pend)"

lemma table_okD:
  assumes "table_ok n key live reg pend"
  shows "distinct_keys reg" and "distinct pend" and "a \<in> set pend \<Longrightarrow> a < n"
    and "map_of reg k = Some a \<Longrightarrow> a < n" and "map_of reg k = Some a \<Longrightarrow> key a = k"
    and "map_of reg k = Some a \<Longrightarrow> a \<notin> set pend"
    and "a < n \<Longrightarrow> live a \<longleftrightarrow> map_of reg (key a) = Some a \<or> a \<in> set pend"
  using assms by (simp_all add: table_ok_def)

lemma table_okI:
  assumes "distinct_keys reg" "distinct pend" "\<And>a. a \<in> set pend \<Longrightarrow> a < n"
    "\<And>k a. map_of reg k = Some a \<Longrightarrow> a < n \<and> key a = k \<and> a \<notin> set pend"
    "\<And>a. a < n \<Longrightarrow> live a \<longleftrightarrow> map_of reg (key a) = Some a \<or> a \<in> set pend"
  shows "table_ok n key live reg pend"
  using assms by (simp add: table_ok_def)

lemma table_ok_empty: "table_ok 0 key live [] []"
  by (simp add: table_ok_def)

lemma table_ok_cong:
  assumes "\<And>a. a < n \<Longrightarrow> key' a = key a" and "\<And>a. a < n \<Longrightarrow> live' a = live a"
  shows "table_ok n key' live' reg pend = table_ok n key live reg pend"
proof -
  have "table_ok n f l' reg pend" if "table_ok n g l reg pend" "\<And>a. a < n \<Longrightarrow> f a = g a" "\<And>a. a < n \<Longrightarrow> l' a = l a" for f g l l'
  proof (rule table_okI)
    show "a < n \<and> f a = k \<and> a \<notin> set pend" if "map_of reg k = Some a" for k a
      using table_okD(4-6) [OF \<open>table_ok n g l reg pend\<close> that] \<open>\<And>a. a < n \<Longrightarrow> f a = g a\<close> by simp
    show "l' a \<longleftrightarrow> map_of reg (f a) = Some a \<or> a \<in> set pend" if "a < n" for a
      using table_okD(7) [OF \<open>table_ok n g l reg pend\<close> that] that \<open>\<And>a. a < n \<Longrightarrow> f a = g a\<close> \<open>\<And>a. a < n \<Longrightarrow> l' a = l a\<close> by simp
  qed (use table_okD(1-3) [OF that(1)] in auto)
  from this [of key live key' live'] this [of key' live' key live] show ?thesis using assms by auto
qed

lemma table_ok_register:
  assumes "table_ok n key live reg pend" and "\<And>a. a < n \<Longrightarrow> key' a = key a" and "key' n = k"
    and "\<And>a. a < n \<Longrightarrow> live' a = (live a \<and> map_of reg k \<noteq> Some a)" and "live' n"
  shows "table_ok (Suc n) key' live' (assoc_set k n reg) pend"
proof (rule table_okI)
  note ok = table_okD [OF assms(1)]
  have out: "n \<notin> set pend" using ok(3) by blast
  show "distinct_keys (assoc_set k n reg)" "distinct pend" using ok(1,2) by simp_all
  show "a < Suc n" if "a \<in> set pend" for a using ok(3) [OF that] by simp
  show "a < Suc n \<and> key' a = k' \<and> a \<notin> set pend" if "map_of (assoc_set k n reg) k' = Some a" for k' a
  proof (cases "k' = k")
    case True
    then show ?thesis using that out assms(3) by simp
  next
    case False
    then have "map_of reg k' = Some a" using that by simp
    from ok(4-6) [OF this] show ?thesis using assms(2) by simp
  qed
  show "live' a \<longleftrightarrow> map_of (assoc_set k n reg) (key' a) = Some a \<or> a \<in> set pend" if "a < Suc n" for a
  proof (cases "a = n")
    case True
    then show ?thesis using assms(3,5) by simp
  next
    case False
    with that have a: "a < n" by simp
    have "map_of reg k = Some a \<Longrightarrow> key a = k" "map_of reg k = Some a \<Longrightarrow> a \<notin> set pend" using ok(5,6) by blast+
    then show ?thesis using ok(7) [OF a] assms(2,4) [OF a] a by auto
  qed
qed

lemma table_ok_distinct_snd:
  assumes "table_ok n key live reg pend"
  shows "distinct (map snd reg)"
proof -
  have "key a = k" if "(k, a) \<in> set reg" for k a
    using that table_okD(1,5) [OF assms] by (auto simp: map_of_in_set)
  then have "map key (map snd reg) = map fst reg" by auto
  then show ?thesis using table_okD(1) [OF assms] by (metis distinct_keys_def distinct_map)
qed

lemma map_of_filter_keys:
  assumes "distinct_keys reg"
  shows "map_of (filter P reg) k = Some a \<longleftrightarrow> map_of reg k = Some a \<and> P (k, a)"
proof -
  have "distinct_keys (filter P reg)" using assms by (simp add: distinct_keys_def distinct_map_filter)
  then show ?thesis using assms by (simp add: map_of_in_set)
qed

lemma table_ok_detach:
  assumes "table_ok n key live reg pend"
  shows "table_ok n key live (filter (\<lambda>e. \<not> P e) reg) (pend @ map snd (filter P reg))"
proof (rule table_okI)
  note ok = table_okD [OF assms]
  have gone: "a \<in> set (map snd (filter P reg)) \<longleftrightarrow> (\<exists>k. map_of reg k = Some a \<and> P (k, a))" for a
    using ok(1) by (force simp: map_of_in_set)
  have kept: "map_of (filter (\<lambda>e. \<not> P e) reg) k = Some a \<longleftrightarrow> map_of reg k = Some a \<and> \<not> P (k, a)" for k a
    by (rule map_of_filter_keys [OF ok(1)])
  show "distinct_keys (filter (\<lambda>e. \<not> P e) reg)" using ok(1) by (simp add: distinct_keys_def distinct_map_filter)
  have "set pend \<inter> set (map snd (filter P reg)) = {}" using ok(6) gone by blast
  then show "distinct (pend @ map snd (filter P reg))"
    using ok(2) table_ok_distinct_snd [OF assms] by (simp add: distinct_map_filter)
  show "a < n" if "a \<in> set (pend @ map snd (filter P reg))" for a
    using that ok(3) [of a] ok(4) [of _ a] gone [of a] by auto
  show "a < n \<and> key a = k \<and> a \<notin> set (pend @ map snd (filter P reg))" if "map_of (filter (\<lambda>e. \<not> P e) reg) k = Some a" for k a
  proof -
    have m: "map_of reg k = Some a" "\<not> P (k, a)" using that kept by auto
    have "a \<notin> set (map snd (filter P reg))"
    proof
      assume "a \<in> set (map snd (filter P reg))"
      then obtain k' where "map_of reg k' = Some a" "P (k', a)" using gone by blast
      with ok(5) m show False by metis
    qed
    then show ?thesis using ok(4-6) [OF m(1)] by simp
  qed
  show "live a \<longleftrightarrow> map_of (filter (\<lambda>e. \<not> P e) reg) (key a) = Some a \<or> a \<in> set (pend @ map snd (filter P reg))" if "a < n" for a
    using ok(7) [OF that] kept [of "key a" a] gone [of a] ok(5) [of _ a] by auto
qed

lemma table_ok_finish:
  assumes "table_ok n key live reg pend" and "set pend = set pend' \<union> set xs" and "distinct (pend' @ xs)"
    and "\<And>a. a < n \<Longrightarrow> live' a = (live a \<and> a \<notin> set xs)" and "\<And>a. a < n \<Longrightarrow> key' a = key a"
  shows "table_ok n key' live' reg pend'"
proof (rule table_okI)
  note ok = table_okD [OF assms(1)]
  show "distinct_keys reg" "distinct pend'" using ok(1) assms(3) by simp_all
  show "a < n" if "a \<in> set pend'" for a using ok(3) that assms(2) by blast
  show "a < n \<and> key' a = k \<and> a \<notin> set pend'" if "map_of reg k = Some a" for k a
    using ok(4-6) [OF that] assms(2) assms(5) [of a] by simp
  show "live' a \<longleftrightarrow> map_of reg (key' a) = Some a \<or> a \<in> set pend'" if "a < n" for a
    using ok(6) [of "key a" a] ok(7) [OF that] assms(4,5) [OF that] assms(2,3) by auto
qed

end
