(* ===== verification/Dispatcher_Sessions.thy ===== *)
theory Dispatcher_Sessions
  imports Dispatcher Session_Table
begin

text \<open>
  What the dispatcher of \<open>Dispatcher\<close> keeps: the invariant of the registry over every interleaving of
  its steps, what a sweep of the pings leaves behind, when an agent is ready for work, and the
  histories in which a command ends with the wrong status or a conversation shows no
  activity.
\<close>

section \<open>The invariant of the registry\<close>

definition torn_agents :: "teardown \<Rightarrow> nat list" where
  "torn_agents t = (case t of TearAgent a \<Rightarrow> [a] | TearMachine m owned \<Rightarrow> owned)"

definition torn_machines :: "teardown \<Rightarrow> nat list" where
  "torn_machines t = (case t of TearAgent a \<Rightarrow> [] | TearMachine m owned \<Rightarrow> [m])"

definition awaiting :: "Dispatcher \<Rightarrow> nat list" where
  "awaiting d = concat (map torn_agents (dp_teardowns d))"

definition machines_awaiting :: "Dispatcher \<Rightarrow> nat list" where
  "machines_awaiting d = concat (map torn_machines (dp_teardowns d))"

definition agents_ok :: "Dispatcher \<Rightarrow> bool" where
  "agents_ok d \<longleftrightarrow> table_ok (length (dp_agents d)) (\<lambda>a. ss_agentID (dp_agents d ! a)) (\<lambda>a. ss_send (dp_agents d ! a))
     (dp_sessions d) (awaiting d)"

definition machines_ok :: "Dispatcher \<Rightarrow> bool" where
  "machines_ok d \<longleftrightarrow> table_ok (length (dp_machines d)) (\<lambda>m. ms_machineID (dp_machines d ! m)) (\<lambda>m. ms_send (dp_machines d ! m))
     (dp_machineSessions d) (machines_awaiting d)"

definition registry_ok :: "Dispatcher \<Rightarrow> bool" where
  "registry_ok d \<longleftrightarrow> agents_ok d \<and> machines_ok d"

text \<open>What the invariant reads of a state: two states that agree on it satisfy it both.\<close>

definition registry_view ::
  "Dispatcher \<Rightarrow> (int \<times> bool) list \<times> (int \<times> bool) list \<times> (int \<times> nat) list \<times> (int \<times> nat) list \<times> teardown list" where
  "registry_view d = (map (\<lambda>s. (ss_agentID s, ss_send s)) (dp_agents d), map (\<lambda>s. (ms_machineID s, ms_send s)) (dp_machines d),
     dp_sessions d, dp_machineSessions d, dp_teardowns d)"

lemma table_ok_lists:
  assumes "map (\<lambda>s. (f s, g s)) xs = map (\<lambda>s. (f s, g s)) ys"
  shows "table_ok (length xs) (\<lambda>a. f (xs ! a)) (\<lambda>a. g (xs ! a)) reg pend
    = table_ok (length ys) (\<lambda>a. f (ys ! a)) (\<lambda>a. g (ys ! a)) reg pend"
proof -
  have len: "length xs = length ys" using assms by (rule map_eq_imp_length_eq)
  have at: "f (xs ! a) = f (ys ! a) \<and> g (xs ! a) = g (ys ! a)" if "a < length ys" for a
    using arg_cong [OF assms, of "\<lambda>l. l ! a"] that len by simp
  show ?thesis unfolding len using at by (intro table_ok_cong) simp_all
qed

lemma registry_ok_view: "registry_view d = registry_view d' \<Longrightarrow> registry_ok d = registry_ok d'"
  using table_ok_lists [of ss_agentID ss_send "dp_agents d" "dp_agents d'"]
    table_ok_lists [of ms_machineID ms_send "dp_machines d" "dp_machines d'"]
  by (simp add: registry_view_def registry_ok_def agents_ok_def machines_ok_def awaiting_def machines_awaiting_def)

lemma map_update_same: "f v = f (xs ! i) \<Longrightarrow> map f (xs[i := v]) = map f xs"
  by (metis list_update_id map_update)

lemma view_quiet [simp]:
  "registry_view (HandlePing d agent now) = registry_view d"
  "registry_view (HandleMachinePing d machine now) = registry_view d"
  "registry_view (clear_current a c d) = registry_view d"
  "registry_view (set_current agent c d) = registry_view d"
  "registry_view (cancelGraceForAgent d agent) = registry_view d"
  "registry_view (startGracePeriod d now agent c) = registry_view d"
  "registry_view (grace_step parse d k now late) = registry_view d"
  "registry_view (close_watchers d c) = registry_view d"
  "registry_view (RecordMachineUpgrade d machine p) = registry_view d"
  "registry_view (StopDispatcher d) = registry_view d"
  "registry_view (d\<lparr>dp_store := db\<rparr>) = registry_view d"
  by (simp_all add: registry_view_def HandlePing_def HandleMachinePing_def clear_current_def set_current_def cancelGraceForAgent_def
    startGracePeriod_def grace_step_def close_watchers_def RecordMachineUpgrade_def StopDispatcher_def set_pc_def finishGrace_def
    map_update_same Let_def split: option.splits grace_pc.splits)

lemma view_messages [simp]:
  "registry_view (snd (HandleBeginSession d now fresh agent u r row)) = registry_view d"
  "registry_view (snd (HandleProgress parse d now p)) = registry_view d"
  "registry_view (snd (HandleEvent parse marshal d e)) = registry_view d"
  "registry_view (snd (HandleResult parse d now agent res)) = registry_view d"
proof -
  have upd: "registry_view (d'\<lparr>dp_store := db, dp_outputs := b, dp_closing := cs\<rparr>) = registry_view d'"
    "registry_view (d'\<lparr>dp_store := db, dp_outputs := b\<rparr>) = registry_view d'"
    "registry_view (d'\<lparr>dp_store := db, dp_events := b'\<rparr>) = registry_view d'" for d' db b b' cs
    by (simp_all add: registry_view_def)
  show "registry_view (snd (HandleBeginSession d now fresh agent u r row)) = registry_view d"
    by (simp add: HandleBeginSession_def split: sum.split option.split prod.split)
  show "registry_view (snd (HandleProgress parse d now p)) = registry_view d"
    by (simp add: HandleProgress_def Let_def upd split: sum.split option.split prod.split)
  show "registry_view (snd (HandleEvent parse marshal d e)) = registry_view d"
    by (simp add: HandleEvent_def upd split: sum.split option.split prod.split)
  show "registry_view (snd (HandleResult parse d now agent res)) = registry_view d"
    by (simp add: HandleResult_def Let_def upd split: sum.split option.split prod.split)
qed


text \<open>Deleting a key is the detachment of its entry.\<close>

lemma assoc_del_filter: "assoc_del k m = filter (\<lambda>e. \<not> fst e = k) m"
  by (induction m) (auto simp: assoc_del_def)

lemma filter_key: "distinct_keys m \<Longrightarrow> map snd (filter (\<lambda>e. fst e = k) m) = (case map_of m k of None \<Rightarrow> [] | Some v \<Rightarrow> [v])"
proof (induction m)
  case (Cons e m)
  have "filter (\<lambda>e'. fst e' = fst e) m = []" using Cons.prems by (auto simp: distinct_keys_def filter_empty_conv intro: rev_image_eqI)
  moreover have "distinct_keys m" using Cons.prems by (simp add: distinct_keys_def)
  ultimately show ?case using Cons.IH by (cases e) (auto split: option.splits)
qed simp

lemma table_ok_delete:
  assumes "table_ok n key live reg pend"
  shows "table_ok n key live (assoc_del k reg) (pend @ (case map_of reg k of None \<Rightarrow> [] | Some v \<Rightarrow> [v]))"
  using table_ok_detach [OF assms, of "\<lambda>e. fst e = k"] filter_key [OF table_okD(1) [OF assms], of k]
  by (simp add: assoc_del_filter)

section \<open>Every step keeps it\<close>

lemma getAgent_lt: "agents_ok d \<Longrightarrow> getAgent d k = Some a \<Longrightarrow> a < length (dp_agents d)"
  by (auto simp: agents_ok_def getAgent_def dest: table_okD(4))

lemma getMachine_lt: "machines_ok d \<Longrightarrow> getMachine d k = Some m \<Longrightarrow> m < length (dp_machines d)"
  by (auto simp: machines_ok_def getMachine_def dest: table_okD(4))

lemma nth_update_any: "a < length xs \<Longrightarrow> xs[i := v] ! a = (if i = a then v else xs ! a)"
  by (auto simp: nth_list_update_neq)

lemma registry_ok_register [inv_rules]:
  assumes "registry_ok d"
  shows "registry_ok (snd (RegisterAgent d now agentID machineID res))"
proof -
  define old where "old = getAgent d agentID"
  define d1 where "d1 = cancelGraceForAgent (case old of None \<Rightarrow> d | Some a \<Rightarrow> invalidate a d) agentID"
  have d1: "dp_sessions d1 = dp_sessions d" "dp_teardowns d1 = dp_teardowns d" "dp_machines d1 = dp_machines d"
    "dp_machineSessions d1 = dp_machineSessions d"
    "dp_agents d1 = (case old of None \<Rightarrow> dp_agents d | Some a \<Rightarrow> (dp_agents d)[a := (dp_agents d ! a)\<lparr>ss_send := False\<rparr>])"
    by (simp_all add: d1_def cancelGraceForAgent_def invalidate_def split: option.split)
  have len: "length (dp_agents d1) = length (dp_agents d)" using d1(5) by (simp split: option.split)
  have at: "ss_agentID (dp_agents d1 ! a) = ss_agentID (dp_agents d ! a)"
    "ss_send (dp_agents d1 ! a) = (ss_send (dp_agents d ! a) \<and> old \<noteq> Some a)" if "a < length (dp_agents d)" for a
    using that d1(5) by (auto simp: nth_update_any split: option.splits)
  let ?s = "\<lparr>ss_agentID = agentID, ss_agentResourceID = res, ss_machineID = machineID, ss_currentCmdID = [], ss_send = True, ss_lastPingAt = now\<rparr>"
  let ?xs = "dp_agents d1 @ [?s]"
  have reg: "RegisterAgent d now agentID machineID res
      = (length (dp_agents d1), d1\<lparr>dp_agents := ?xs, dp_sessions := assoc_set agentID (length (dp_agents d1)) (dp_sessions d1)\<rparr>)"
    by (simp add: RegisterAgent_def Let_def d1_def old_def)
  have "table_ok (Suc (length (dp_agents d))) (\<lambda>a. ss_agentID (?xs ! a)) (\<lambda>a. ss_send (?xs ! a))
      (assoc_set agentID (length (dp_agents d)) (dp_sessions d)) (awaiting d)"
    using assms at len
    by (intro table_ok_register [where key = "\<lambda>a. ss_agentID (dp_agents d ! a)" and live = "\<lambda>a. ss_send (dp_agents d ! a)"])
      (simp_all add: registry_ok_def agents_ok_def nth_append old_def getAgent_def)
  then show ?thesis using assms d1(1-4) len by (simp add: reg registry_ok_def agents_ok_def machines_ok_def awaiting_def machines_awaiting_def)
qed

lemma registry_ok_register_machine [inv_rules]:
  assumes "registry_ok d"
  shows "registry_ok (snd (RegisterMachine d now machineID res))"
proof -
  define old where "old = getMachine d machineID"
  define d1 where "d1 = (case old of None \<Rightarrow> d | Some m \<Rightarrow> invalidate_machine m d)"
  have d1: "dp_sessions d1 = dp_sessions d" "dp_teardowns d1 = dp_teardowns d" "dp_agents d1 = dp_agents d"
    "dp_machineSessions d1 = dp_machineSessions d"
    "dp_machines d1 = (case old of None \<Rightarrow> dp_machines d | Some m \<Rightarrow> (dp_machines d)[m := (dp_machines d ! m)\<lparr>ms_send := False\<rparr>])"
    by (simp_all add: d1_def invalidate_machine_def split: option.split)
  have len: "length (dp_machines d1) = length (dp_machines d)" using d1(5) by (simp split: option.split)
  have at: "ms_machineID (dp_machines d1 ! a) = ms_machineID (dp_machines d ! a)"
    "ms_send (dp_machines d1 ! a) = (ms_send (dp_machines d ! a) \<and> old \<noteq> Some a)" if "a < length (dp_machines d)" for a
    using that d1(5) by (auto simp: nth_update_any split: option.splits)
  let ?s = "\<lparr>ms_machineID = machineID, ms_machineResourceID = res, ms_send = True, ms_lastPingAt = now\<rparr>"
  let ?xs = "dp_machines d1 @ [?s]"
  have reg: "RegisterMachine d now machineID res
      = (length (dp_machines d1), d1\<lparr>dp_machines := ?xs, dp_machineSessions := assoc_set machineID (length (dp_machines d1)) (dp_machineSessions d1),
           dp_machineUpgrades := assoc_del machineID (dp_machineUpgrades d1)\<rparr>)"
    by (simp add: RegisterMachine_def Let_def d1_def old_def)
  have "table_ok (Suc (length (dp_machines d))) (\<lambda>a. ms_machineID (?xs ! a)) (\<lambda>a. ms_send (?xs ! a))
      (assoc_set machineID (length (dp_machines d)) (dp_machineSessions d)) (machines_awaiting d)"
    using assms at len
    by (intro table_ok_register [where key = "\<lambda>a. ms_machineID (dp_machines d ! a)" and live = "\<lambda>a. ms_send (dp_machines d ! a)"])
      (simp_all add: registry_ok_def machines_ok_def nth_append old_def getMachine_def)
  then show ?thesis using assms d1(1-4) len by (simp add: reg registry_ok_def agents_ok_def machines_ok_def awaiting_def machines_awaiting_def)
qed

lemma registry_ok_delete_agent:
  assumes "registry_ok d" and "getAgent d k = Some a"
  shows "registry_ok (d\<lparr>dp_sessions := assoc_del k (dp_sessions d), dp_teardowns := dp_teardowns d @ [TearAgent a]\<rparr>)"
proof -
  have "table_ok (length (dp_agents d)) (\<lambda>a. ss_agentID (dp_agents d ! a)) (\<lambda>a. ss_send (dp_agents d ! a))
      (assoc_del k (dp_sessions d)) (awaiting d @ [a])"
    using table_ok_delete [of _ _ _ _ _ k] assms by (fastforce simp: registry_ok_def agents_ok_def getAgent_def)
  then show ?thesis using assms(1)
    by (simp add: registry_ok_def agents_ok_def machines_ok_def awaiting_def machines_awaiting_def torn_agents_def torn_machines_def)
qed

lemma registry_ok_delete_machine:
  assumes "registry_ok d" and "getMachine d k = Some m" and "detach_machine d k = (owned, d')"
  shows "registry_ok (d'\<lparr>dp_teardowns := dp_teardowns d' @ [TearMachine m owned]\<rparr>)"
proof -
  note ok = assms(1) [unfolded registry_ok_def agents_ok_def machines_ok_def]
  have "table_ok (length (dp_agents d)) (\<lambda>a. ss_agentID (dp_agents d ! a)) (\<lambda>a. ss_send (dp_agents d ! a))
      (filter (\<lambda>e. \<not> owned_by d k e) (dp_sessions d)) (awaiting d @ map snd (filter (owned_by d k) (dp_sessions d)))"
    using ok by (intro table_ok_detach) simp
  moreover have "table_ok (length (dp_machines d)) (\<lambda>m. ms_machineID (dp_machines d ! m)) (\<lambda>m. ms_send (dp_machines d ! m))
      (assoc_del k (dp_machineSessions d)) (machines_awaiting d @ [m])"
    using table_ok_delete [OF conjunct2 [OF ok], of k] assms(2) by (simp add: getMachine_def)
  ultimately show ?thesis using assms(3)
    by (auto simp: detach_machine_def registry_ok_def agents_ok_def machines_ok_def awaiting_def machines_awaiting_def
      torn_agents_def torn_machines_def)
qed

lemma registry_ok_unregister [inv_rules]:
  assumes "registry_ok d"
  shows "registry_ok (UnregisterAgent_begin d agentID)" and "registry_ok (UnregisterAgentIf_begin d agentID a)"
    and "registry_ok (UnregisterMachine_begin d machineID)" and "registry_ok (UnregisterMachineIf_begin d machineID m)"
proof -
  show "registry_ok (UnregisterAgent_begin d agentID)"
  proof (cases "getAgent d agentID")
    case None
    then have "assoc_del agentID (dp_sessions d) = dp_sessions d"
      by (auto simp: getAgent_def assoc_del_filter map_of_eq_None_iff filter_id_conv)
    with None assms show ?thesis by (simp add: UnregisterAgent_begin_def deleteAgent_def)
  next
    case (Some a)
    then show ?thesis using registry_ok_delete_agent [OF assms] by (simp add: UnregisterAgent_begin_def deleteAgent_def)
  qed
  show "registry_ok (UnregisterAgentIf_begin d agentID a)"
    using assms registry_ok_delete_agent [OF assms] by (simp add: UnregisterAgentIf_begin_def deleteAgentIf_def)
  show "registry_ok (UnregisterMachine_begin d machineID)"
    using assms registry_ok_delete_machine [OF assms]
    by (auto simp: UnregisterMachine_begin_def deleteMachineWithAgents_def split: option.split prod.split)
  show "registry_ok (UnregisterMachineIf_begin d machineID m)"
    using assms registry_ok_delete_machine [OF assms]
    by (auto simp: UnregisterMachineIf_begin_def deleteMachineIfWithAgents_def split: option.split prod.split)
qed


text \<open>A teardown only takes the ability to send from the sessions it names.\<close>

definition keeps_registry :: "Dispatcher \<Rightarrow> Dispatcher \<Rightarrow> bool" where
  "keeps_registry d d' \<longleftrightarrow> dp_sessions d' = dp_sessions d \<and> dp_machineSessions d' = dp_machineSessions d \<and>
     dp_teardowns d' = dp_teardowns d \<and> length (dp_agents d') = length (dp_agents d) \<and>
     length (dp_machines d') = length (dp_machines d) \<and>
     (\<forall>a<length (dp_agents d). ss_agentID (dp_agents d' ! a) = ss_agentID (dp_agents d ! a)) \<and>
     (\<forall>m<length (dp_machines d). ms_machineID (dp_machines d' ! m) = ms_machineID (dp_machines d ! m))"

definition silences :: "Dispatcher \<Rightarrow> nat list \<Rightarrow> nat list \<Rightarrow> Dispatcher \<Rightarrow> bool" where
  "silences d as ms d' \<longleftrightarrow> keeps_registry d d' \<and>
     (\<forall>a<length (dp_agents d). ss_send (dp_agents d' ! a) = (ss_send (dp_agents d ! a) \<and> a \<notin> set as)) \<and>
     (\<forall>m<length (dp_machines d). ms_send (dp_machines d' ! m) = (ms_send (dp_machines d ! m) \<and> m \<notin> set ms))"

lemma silences_refl: "silences d [] [] d"
  by (simp add: silences_def keeps_registry_def)

lemma silences_trans: "silences d as ms d' \<Longrightarrow> silences d' as' ms' d'' \<Longrightarrow> silences d (as @ as') (ms @ ms') d''"
  by (auto simp: silences_def keeps_registry_def)

lemma silences_agent: "silences d [a] [] (teardownAgentSession d now a)"
  by (auto simp: silences_def keeps_registry_def teardownAgentSession_def invalidate_def startGracePeriod_def nth_update_any Let_def)

lemma silences_machine: "silences d [] [m] (invalidate_machine m d)"
  by (auto simp: silences_def keeps_registry_def invalidate_machine_def nth_update_any)

lemma silences_agents: "silences d as [] (foldl (\<lambda>d a. teardownAgentSession d now a) d as)"
proof (induction as arbitrary: d)
  case (Cons a as)
  have "silences d ([a] @ as) ([] @ []) (foldl (\<lambda>d a. teardownAgentSession d now a) (teardownAgentSession d now a) as)"
    by (rule silences_trans [OF silences_agent Cons.IH])
  then show ?case by simp
qed (simp add: silences_refl)

lemma silences_teardown: "silences d (torn_agents t) (torn_machines t) (run_teardown d now t)"
proof (cases t)
  case (TearMachine m owned)
  have "silences d ([] @ owned) ([m] @ []) (teardownMachineSession d now m owned)"
    unfolding teardownMachineSession_def by (rule silences_trans [OF silences_machine silences_agents])
  then show ?thesis using TearMachine by (simp add: run_teardown_def torn_agents_def torn_machines_def)
qed (simp add: run_teardown_def torn_agents_def torn_machines_def silences_agent)

lemma concat_remove:
  assumes "k < length ts"
  shows "set (concat (map f ts)) = set (concat (map f (take k ts @ drop (Suc k) ts))) \<union> set (f (ts ! k))"
    and "distinct (concat (map f ts)) \<Longrightarrow> distinct (concat (map f (take k ts @ drop (Suc k) ts)) @ f (ts ! k))"
proof -
  have "concat (map f ts) = concat (map f (take k ts)) @ f (ts ! k) @ concat (map f (drop (Suc k) ts))"
    by (subst id_take_nth_drop [OF assms]) simp
  then show "set (concat (map f ts)) = set (concat (map f (take k ts @ drop (Suc k) ts))) \<union> set (f (ts ! k))"
    and "distinct (concat (map f ts)) \<Longrightarrow> distinct (concat (map f (take k ts @ drop (Suc k) ts)) @ f (ts ! k))"
    by auto
qed

lemma registry_ok_teardown [inv_rules]:
  assumes "registry_ok d"
  shows "registry_ok (finish_teardown d k now)"
proof (cases "k < length (dp_teardowns d)")
  case True
  let ?t = "dp_teardowns d ! k" and ?rest = "take k (dp_teardowns d) @ drop (Suc k) (dp_teardowns d)"
  let ?d = "d\<lparr>dp_teardowns := ?rest\<rparr>"
  define d' where "d' = run_teardown ?d now ?t"
  have s: "silences ?d (torn_agents ?t) (torn_machines ?t) d'" by (simp add: d'_def silences_teardown)
  note ok = assms [unfolded registry_ok_def agents_ok_def machines_ok_def]
  note oka = conjunct1 [OF ok] and okm = conjunct2 [OF ok]
  have "table_ok (length (dp_agents d)) (\<lambda>a. ss_agentID (dp_agents d' ! a)) (\<lambda>a. ss_send (dp_agents d' ! a))
      (dp_sessions d) (concat (map torn_agents ?rest))"
    using s concat_remove [OF True, of torn_agents] table_okD(2) [OF oka]
    by (intro table_ok_finish [OF oka, of _ "torn_agents ?t"]) (simp_all add: silences_def keeps_registry_def awaiting_def)
  moreover have "table_ok (length (dp_machines d)) (\<lambda>m. ms_machineID (dp_machines d' ! m)) (\<lambda>m. ms_send (dp_machines d' ! m))
      (dp_machineSessions d) (concat (map torn_machines ?rest))"
    using s concat_remove [OF True, of torn_machines] table_okD(2) [OF okm]
    by (intro table_ok_finish [OF okm, of _ "torn_machines ?t"]) (simp_all add: silences_def keeps_registry_def machines_awaiting_def)
  moreover have "finish_teardown d k now = d'" using True by (simp add: finish_teardown_def d'_def)
  moreover have "length (dp_agents d') = length (dp_agents d)" "length (dp_machines d') = length (dp_machines d)"
    "dp_sessions d' = dp_sessions d" "dp_machineSessions d' = dp_machineSessions d" "dp_teardowns d' = ?rest"
    using s by (simp_all add: silences_def keeps_registry_def)
  ultimately show ?thesis by (simp add: registry_ok_def agents_ok_def machines_ok_def awaiting_def machines_awaiting_def)
qed (simp add: finish_teardown_def assms)

lemma registry_ok_step: "registry_ok d \<Longrightarrow> registry_ok (dispatch_step parse marshal d op)"
proof -
  assume ok: "registry_ok d"
  have quiet: "registry_ok d'" if "registry_view d' = registry_view d" for d'
    using registry_ok_view [OF that] ok by simp
  show ?thesis
    by (cases op) (simp_all add: ok quiet inv_rules check_agent_def check_machine_def Let_def)
qed

lemma registry_ok_new: "registry_ok (NewDispatcher db)"
  by (simp add: registry_ok_def agents_ok_def machines_ok_def NewDispatcher_def awaiting_def machines_awaiting_def table_ok_empty)

interpretation dispatch_history: component "dispatch_step parse marshal" registry_ok "\<lambda>_. True" "\<lambda>d. \<exists>db. d = NewDispatcher db"
  by unfold_locales (auto intro: registry_ok_step simp: registry_ok_new)


section \<open>Registered sessions\<close>

text \<open>A session keeps its index and its agent; only its ability to send is taken away.\<close>

definition sessions_stay :: "Dispatcher \<Rightarrow> Dispatcher \<Rightarrow> bool" where
  "sessions_stay d d' \<longleftrightarrow>
     (\<exists>as. map ss_agentID (dp_agents d') = map ss_agentID (dp_agents d) @ as) \<and>
     (\<exists>ms. map ms_machineID (dp_machines d') = map ms_machineID (dp_machines d) @ ms)"

lemma sessions_stay_refl: "sessions_stay d d"
  by (simp add: sessions_stay_def)

lemma sessions_stay_trans: "sessions_stay a b \<Longrightarrow> sessions_stay b c \<Longrightarrow> sessions_stay a c"
  by (auto simp: sessions_stay_def)

lemma sessions_stay_view:
  assumes "registry_view d' = registry_view d"
  shows "sessions_stay d d'"
proof -
  have "map (\<lambda>s. (ss_agentID s, ss_send s)) (dp_agents d') = map (\<lambda>s. (ss_agentID s, ss_send s)) (dp_agents d)"
    and "map (\<lambda>s. (ms_machineID s, ms_send s)) (dp_machines d') = map (\<lambda>s. (ms_machineID s, ms_send s)) (dp_machines d)"
    using assms by (simp_all add: registry_view_def)
  from arg_cong [OF this(1), of "map fst"] arg_cong [OF this(2), of "map fst"] show ?thesis
    by (simp add: sessions_stay_def comp_def)
qed

lemma sessions_stay_silences: "silences d as ms d' \<Longrightarrow> sessions_stay d d'"
  unfolding silences_def keeps_registry_def sessions_stay_def
  by (intro conjI exI [of _ "[]"]) (auto intro: nth_equalityI)

lemma sessions_stay_register:
  "sessions_stay d (snd (RegisterAgent d now agentID machineID res))" "sessions_stay d (snd (RegisterMachine d now machine res))"
  by (auto simp: sessions_stay_def RegisterAgent_def RegisterMachine_def invalidate_def invalidate_machine_def cancelGraceForAgent_def
      Let_def map_update_same split: option.split)

lemma sessions_stay_begin:
  "sessions_stay d (UnregisterAgent_begin d k)" "sessions_stay d (UnregisterAgentIf_begin d k a)"
  "sessions_stay d (UnregisterMachine_begin d m)" "sessions_stay d (UnregisterMachineIf_begin d m i)"
  by (auto simp: sessions_stay_def UnregisterAgent_begin_def UnregisterAgentIf_begin_def UnregisterMachine_begin_def
      UnregisterMachineIf_begin_def deleteAgent_def deleteAgentIf_def deleteMachineWithAgents_def deleteMachineIfWithAgents_def
      detach_machine_def Let_def split: option.split prod.split)

lemma sessions_stay_teardown: "sessions_stay d (finish_teardown d k now)"
proof (cases "k < length (dp_teardowns d)")
  case True
  let ?d = "d\<lparr>dp_teardowns := take k (dp_teardowns d) @ drop (Suc k) (dp_teardowns d)\<rparr>"
  have "sessions_stay ?d (run_teardown ?d now (dp_teardowns d ! k))" by (rule sessions_stay_silences [OF silences_teardown])
  then show ?thesis using True by (simp add: finish_teardown_def sessions_stay_def)
qed (simp add: finish_teardown_def sessions_stay_refl)

lemma sessions_stay_step: "sessions_stay d (dispatch_step parse marshal d op)"
  by (cases op) (simp_all add: sessions_stay_view sessions_stay_register sessions_stay_begin sessions_stay_teardown sessions_stay_refl
      check_agent_def check_machine_def Let_def)

lemma sessions_stay_run: "sessions_stay d (foldl (dispatch_step parse marshal) d ops)"
  by (induction ops rule: rev_induct) (auto intro: sessions_stay_refl sessions_stay_trans sessions_stay_step)

lemma sessions_stay_agent:
  assumes "sessions_stay d d'" and "a < length (dp_agents d)"
  shows "a < length (dp_agents d') \<and> ss_agentID (dp_agents d' ! a) = ss_agentID (dp_agents d ! a)"
proof -
  obtain as where m: "map ss_agentID (dp_agents d') = map ss_agentID (dp_agents d) @ as" using assms(1) by (auto simp: sessions_stay_def)
  from arg_cong [OF m, of length] assms(2) have len: "a < length (dp_agents d')" by simp
  moreover have "map ss_agentID (dp_agents d') ! a = map ss_agentID (dp_agents d) ! a" unfolding m using assms(2) by (simp add: nth_append)
  ultimately show ?thesis using assms(2) by simp
qed

lemma sessions_stay_machine:
  assumes "sessions_stay d d'" and "a < length (dp_machines d)"
  shows "a < length (dp_machines d') \<and> ms_machineID (dp_machines d' ! a) = ms_machineID (dp_machines d ! a)"
proof -
  obtain as where m: "map ms_machineID (dp_machines d') = map ms_machineID (dp_machines d) @ as" using assms(1) by (auto simp: sessions_stay_def)
  from arg_cong [OF m, of length] assms(2) have len: "a < length (dp_machines d')" by simp
  moreover have "map ms_machineID (dp_machines d') ! a = map ms_machineID (dp_machines d) ! a" unfolding m using assms(2) by (simp add: nth_append)
  ultimately show ?thesis using assms(2) by simp
qed

text \<open>C12: In every interleaving of the dispatcher's steps a session can send exactly when it is the
  registered one of its agent or was taken out of the registry by a call that has not yet
  torn it down, and of two sessions of an agent that can both send at least one is being torn
  down. A message to an agent or a machine looks the session up in one state and is sent in a
  later one: it is refused exactly when no session was registered at the lookup, or when the one
  found was replaced by a reconnect or torn down before the send, even if another session is
  registered by then.\<close>

theorem live_sessions_registered:
  assumes "d = foldl (dispatch_step parse marshal) (NewDispatcher db) ops" and "d1 = foldl (dispatch_step parse marshal) d ops1"
  shows "(\<forall>a<length (dp_agents d). ss_send (dp_agents d ! a) \<longleftrightarrow>
           getAgent d (ss_agentID (dp_agents d ! a)) = Some a \<or> a \<in> set (awaiting d)) \<and>
    distinct (awaiting d) \<and>
    (\<forall>k. sendToAgent d d1 k = (case getAgent d k of None \<Rightarrow> Inl AgentNotConnected
       | Some a \<Rightarrow> if getAgent d1 k = Some a \<or> a \<in> set (awaiting d1) then Inr () else Inl AgentSessionInvalidated)) \<and>
    (\<forall>k. sendToMachine d d1 k = (case getMachine d k of None \<Rightarrow> Inl MachineNotConnected
       | Some m \<Rightarrow> if getMachine d1 k = Some m \<or> m \<in> set (machines_awaiting d1) then Inr () else Inl MachineSessionInvalidated)) \<and>
    (\<forall>a b. a < length (dp_agents d) \<and> b < length (dp_agents d) \<and> a \<noteq> b \<and> ss_agentID (dp_agents d ! a) = ss_agentID (dp_agents d ! b) \<and>
       ss_send (dp_agents d ! a) \<and> ss_send (dp_agents d ! b) \<longrightarrow> a \<in> set (awaiting d) \<or> b \<in> set (awaiting d))"
proof -
  have r: "registry_ok d" using dispatch_history.invar_history [of "NewDispatcher db" ops] assms(1) by blast
  have r1: "registry_ok d1" using dispatch_history.invar_run [OF r, of ops1] assms(2) by simp
  note ok = r [unfolded registry_ok_def agents_ok_def machines_ok_def] and ok1 = r1 [unfolded registry_ok_def agents_ok_def machines_ok_def]
  note a = table_okD [OF conjunct1 [OF ok]] and m = table_okD [OF conjunct2 [OF ok]]
  have stay: "sessions_stay d d1" unfolding assms(2) by (rule sessions_stay_run)
  have live: "ss_send (dp_agents d ! a) \<longleftrightarrow> getAgent d (ss_agentID (dp_agents d ! a)) = Some a \<or> a \<in> set (awaiting d)"
    if "a < length (dp_agents d)" for a
    using a(7) [OF that] by (simp add: getAgent_def)
  have "sendToAgent d d1 k = (case getAgent d k of None \<Rightarrow> Inl AgentNotConnected
       | Some a \<Rightarrow> if getAgent d1 k = Some a \<or> a \<in> set (awaiting d1) then Inr () else Inl AgentSessionInvalidated)" for k
  proof (cases "getAgent d k")
    case (Some i)
    then have i: "i < length (dp_agents d)" "ss_agentID (dp_agents d ! i) = k" using a(4,5) by (auto simp: getAgent_def)
    note j = sessions_stay_agent [OF stay i(1)]
    then show ?thesis using table_okD(7) [OF conjunct1 [OF ok1], of i] Some i(2)
      by (simp add: sendToAgent_def session_deliver_def getAgent_def)
  qed (simp add: sendToAgent_def)
  moreover have "sendToMachine d d1 k = (case getMachine d k of None \<Rightarrow> Inl MachineNotConnected
       | Some m \<Rightarrow> if getMachine d1 k = Some m \<or> m \<in> set (machines_awaiting d1) then Inr () else Inl MachineSessionInvalidated)" for k
  proof (cases "getMachine d k")
    case (Some i)
    then have i: "i < length (dp_machines d)" "ms_machineID (dp_machines d ! i) = k" using m(4,5) by (auto simp: getMachine_def)
    note j = sessions_stay_machine [OF stay i(1)]
    then show ?thesis using table_okD(7) [OF conjunct2 [OF ok1], of i] Some i(2)
      by (simp add: sendToMachine_def deliver_machine_def getMachine_def)
  qed (simp add: sendToMachine_def)
  moreover have "a \<in> set (awaiting d) \<or> b \<in> set (awaiting d)"
    if "a < length (dp_agents d)" "b < length (dp_agents d)" "a \<noteq> b" "ss_agentID (dp_agents d ! a) = ss_agentID (dp_agents d ! b)"
      "ss_send (dp_agents d ! a)" "ss_send (dp_agents d ! b)" for a b
    using live [OF that(1)] live [OF that(2)] that(3-6) by auto
  ultimately show ?thesis using live a(2) by blast
qed

definition reconnect_race :: "dispatch_op list" where
  "reconnect_race =
     [DRegister 0 1 0 ''ag'',
      DBegin 0 ''c'' 1 (Inr True) (Inr False) (Some \<lparr>ag_ResourceID = ''ag'', ag_Name = ''Ag'', ag_MachineID = 0, ag_Enabled = True,
        ag_Capable = True, ag_OwnerName = ''Bo''\<rparr>),
      DUnregisterIf 1 0, DRegister second 1 0 ''ag'', DTeardown 0 (2 * second)]"

theorem live_sessions_registered_witness:
  "let d = foldl (dispatch_step Some (\<lambda>_. Inr None)) (NewDispatcher sample_command_db) (take 4 reconnect_race) in
   ss_send (dp_agents d ! 0) \<and> ss_send (dp_agents d ! 1) \<and> 0 \<in> set (awaiting d) \<and>
   sendToAgent d d 1 = Inr () \<and> sendToAgent d (dispatch_step Some (\<lambda>_. Inr None) d (DRegister 5 1 0 ''ag'')) 1 = Inl AgentSessionInvalidated"
proof -
  define d where "d = foldl (dispatch_step Some (\<lambda>_. Inr None)) (NewDispatcher sample_command_db) (take 4 reconnect_race)"
  note run = reconnect_race_def NewDispatcher_def RegisterAgent_def HandleBeginSession_def CreateCommand_def UpdateCommandStatus_def
    sample_command_db_def session_command_def UnregisterAgentIf_begin_def deleteAgentIf_def getAgent_def set_current_def
    cancelGraceForAgent_def assoc_del_def Let_def second_def fits_smallint_def CommandStatusRunning_def find_command_def coerceEnvJSON_def
    update_command_def
  have f: "length (dp_agents d) = 2" "awaiting d = [0]" "IsAgentConnected d 1" "getAgent d 1 = Some 1"
     "map ss_agentID (dp_agents d) = [1, 1]"
    by (simp_all add: d_def run awaiting_def torn_agents_def IsAgentConnected_def)
  have "ss_agentID (dp_agents d ! 1) = map ss_agentID (dp_agents d) ! 1" using f(1) by simp
  then have "ss_agentID (dp_agents d ! 1) = 1" using f(5) by simp
  then have "ss_send (dp_agents d ! 0) \<and> ss_send (dp_agents d ! 1) \<and> sendToAgent d d 1 = Inr ()"
    using live_sessions_registered [OF d_def, of d "[]"] f by simp
  moreover have "getAgent (dispatch_step Some (\<lambda>_. Inr None) d (DRegister 5 1 0 ''ag'')) 1 = Some 2"
      "awaiting (dispatch_step Some (\<lambda>_. Inr None) d (DRegister 5 1 0 ''ag'')) = [0]"
    by (simp_all add: d_def run awaiting_def torn_agents_def invalidate_def)
  then have "sendToAgent d (dispatch_step Some (\<lambda>_. Inr None) d (DRegister 5 1 0 ''ag'')) 1 = Inl AgentSessionInvalidated"
    using live_sessions_registered [OF d_def, of _ "[DRegister 5 1 0 ''ag'']"] f by simp
  ultimately show ?thesis using f unfolding d_def [symmetric] Let_def by simp
qed


section \<open>The sweep of the pings\<close>

definition idle_agent :: "instant \<Rightarrow> Dispatcher \<Rightarrow> nat \<Rightarrow> bool" where
  "idle_agent now d a \<longleftrightarrow> now - ss_lastPingAt (dp_agents d ! a) > pingTimeout"

definition idle_machine :: "instant \<Rightarrow> Dispatcher \<Rightarrow> nat \<Rightarrow> bool" where
  "idle_machine now d m \<longleftrightarrow> now - ms_lastPingAt (dp_machines d ! m) > pingTimeout"

definition session_facts :: "Dispatcher \<Rightarrow> (int \<times> int \<times> instant) list \<times> (int \<times> instant) list" where
  "session_facts d = (map (\<lambda>s. (ss_agentID s, ss_machineID s, ss_lastPingAt s)) (dp_agents d),
     map (\<lambda>s. (ms_machineID s, ms_lastPingAt s)) (dp_machines d))"

lemma session_factsD:
  assumes "session_facts d' = session_facts d"
  shows "length (dp_agents d') = length (dp_agents d)" "length (dp_machines d') = length (dp_machines d)"
    "a < length (dp_agents d) \<Longrightarrow> ss_machineID (dp_agents d' ! a) = ss_machineID (dp_agents d ! a)"
    "a < length (dp_agents d) \<Longrightarrow> idle_agent now d' a = idle_agent now d a"
    "m < length (dp_machines d) \<Longrightarrow> idle_machine now d' m = idle_machine now d m"
proof -
  have as: "map (\<lambda>s. (ss_agentID s, ss_machineID s, ss_lastPingAt s)) (dp_agents d') = map (\<lambda>s. (ss_agentID s, ss_machineID s, ss_lastPingAt s)) (dp_agents d)"
    and ms: "map (\<lambda>s. (ms_machineID s, ms_lastPingAt s)) (dp_machines d') = map (\<lambda>s. (ms_machineID s, ms_lastPingAt s)) (dp_machines d)"
    using assms by (simp_all add: session_facts_def)
  show l: "length (dp_agents d') = length (dp_agents d)" "length (dp_machines d') = length (dp_machines d)"
    using map_eq_imp_length_eq [OF as] map_eq_imp_length_eq [OF ms] .
  show "a < length (dp_agents d) \<Longrightarrow> ss_machineID (dp_agents d' ! a) = ss_machineID (dp_agents d ! a)"
    "a < length (dp_agents d) \<Longrightarrow> idle_agent now d' a = idle_agent now d a"
    "m < length (dp_machines d) \<Longrightarrow> idle_machine now d' m = idle_machine now d m"
    using arg_cong [OF as, of "\<lambda>l. l ! a"] arg_cong [OF ms, of "\<lambda>l. l ! m"] l by (simp_all add: idle_agent_def idle_machine_def)
qed

lemma facts_teardown: "session_facts (run_teardown d now t) = session_facts d"
proof -
  have a: "session_facts (teardownAgentSession d now a) = session_facts d" for d a
    by (simp add: session_facts_def teardownAgentSession_def invalidate_def startGracePeriod_def map_update_same Let_def)
  have "session_facts (foldl (\<lambda>d a. teardownAgentSession d now a) d as) = session_facts d" for as d
    by (induction as arbitrary: d) (simp_all add: a)
  moreover have "session_facts (invalidate_machine m d) = session_facts d" for m
    by (simp add: session_facts_def invalidate_machine_def map_update_same)
  ultimately show ?thesis by (cases t) (simp_all add: run_teardown_def a teardownMachineSession_def)
qed

text \<open>One session of the sweep, in a state in which nothing waits for a teardown.\<close>

definition settled :: "Dispatcher \<Rightarrow> bool" where
  "settled d \<longleftrightarrow> registry_ok d \<and> dp_teardowns d = []"

lemma settled_live:
  assumes "settled d" and "a < length (dp_agents d)"
  shows "ss_send (dp_agents d ! a) \<longleftrightarrow> getAgent d (ss_agentID (dp_agents d ! a)) = Some a"
  using assms table_okD(7) [of _ _ "\<lambda>a. ss_send (dp_agents d ! a)"]
  by (fastforce simp: settled_def registry_ok_def agents_ok_def awaiting_def getAgent_def)

lemma settled_live_machine:
  assumes "settled d" and "m < length (dp_machines d)"
  shows "ms_send (dp_machines d ! m) \<longleftrightarrow> getMachine d (ms_machineID (dp_machines d ! m)) = Some m"
  using assms table_okD(7) [of _ _ "\<lambda>a. ms_send (dp_machines d ! a)"]
  by (fastforce simp: settled_def registry_ok_def machines_ok_def machines_awaiting_def getMachine_def)

lemma settled_id:
  assumes "settled d"
  shows "getAgent d k = Some a \<Longrightarrow> ss_agentID (dp_agents d ! a) = k" "getMachine d k = Some m \<Longrightarrow> ms_machineID (dp_machines d ! m) = k"
  using assms by (auto simp: settled_def registry_ok_def agents_ok_def machines_ok_def getAgent_def getMachine_def dest: table_okD(5))

lemma getAgent_delete: "getAgent (d\<lparr>dp_sessions := assoc_del k (dp_sessions d)\<rparr>) = (getAgent d)(k := None)"
  by (auto simp: getAgent_def fun_eq_iff)

lemma settle_one:
  assumes "dp_teardowns d = []"
  shows "settle_last now (d\<lparr>dp_teardowns := [t]\<rparr>) = run_teardown (d\<lparr>dp_teardowns := []\<rparr>) now t"
  by (simp add: settle_last_def finish_teardown_def)

lemma settled_settle: "registry_ok d \<Longrightarrow> length (dp_teardowns d) \<le> 1 \<Longrightarrow> settled (settle_last now d)"
proof -
  assume ok: "registry_ok d" and len: "length (dp_teardowns d) \<le> 1"
  have "dp_teardowns (run_teardown d' now t) = dp_teardowns d'" for d' t
    using silences_teardown [of d' t now] by (simp add: silences_def keeps_registry_def)
  then have "dp_teardowns (settle_last now d) = []" using len by (auto simp: settle_last_def finish_teardown_def)
  then show ?thesis using ok registry_ok_teardown [OF ok] by (simp add: settled_def settle_last_def)
qed

definition sweeps ::
  "Dispatcher \<Rightarrow> (int \<Rightarrow> nat \<Rightarrow> bool) \<Rightarrow> (int \<Rightarrow> nat \<Rightarrow> bool) \<Rightarrow> Dispatcher \<Rightarrow> bool" where
  "sweeps d goes mgoes d' \<longleftrightarrow> settled d' \<and> session_facts d' = session_facts d \<and>
     (\<forall>k a. getAgent d' k = Some a \<longleftrightarrow> getAgent d k = Some a \<and> \<not> goes k a) \<and>
     (\<forall>k m. getMachine d' k = Some m \<longleftrightarrow> getMachine d k = Some m \<and> \<not> mgoes k m)"

lemma getAgent_silences: "silences d as ms d' \<Longrightarrow> getAgent d' = getAgent d \<and> getMachine d' = getMachine d"
  by (simp add: silences_def keeps_registry_def getAgent_def getMachine_def fun_eq_iff)

lemma sweep_agent:
  assumes "settled d" and "a < length (dp_agents d)"
  shows "sweeps d (\<lambda>_ b. b = a \<and> idle_agent now d a) (\<lambda>_ _. False) (settle_last now (check_agent now d a))"
proof (cases "ss_send (dp_agents d ! a) \<and> idle_agent now d a")
  case True
  define k where "k = ss_agentID (dp_agents d ! a)"
  have reg: "getAgent d k = Some a" using settled_live [OF assms] True by (simp add: k_def)
  let ?d = "d\<lparr>dp_sessions := assoc_del k (dp_sessions d), dp_teardowns := []\<rparr>"
  have first: "check_agent now d a = ?d\<lparr>dp_teardowns := [TearAgent a]\<rparr>" using True reg assms(1)
    by (simp add: check_agent_def Let_def idle_agent_def k_def [symmetric] UnregisterAgentIf_begin_def deleteAgentIf_def settled_def)
  have "registry_ok (check_agent now d a)"
    using assms(1) registry_ok_unregister(2) by (simp add: check_agent_def Let_def settled_def)
  then have "settled (settle_last now (check_agent now d a))" by (rule settled_settle) (simp add: first)
  moreover have eq: "settle_last now (check_agent now d a) = run_teardown ?d now (TearAgent a)"
    unfolding first by (subst settle_one) simp_all
  moreover have "session_facts (run_teardown ?d now (TearAgent a)) = session_facts d"
    by (simp add: facts_teardown) (simp add: session_facts_def)
  moreover have "getAgent (run_teardown ?d now (TearAgent a)) = (getAgent d)(k := None)"
    "getMachine (run_teardown ?d now (TearAgent a)) = getMachine d"
    using getAgent_silences [OF silences_teardown [of ?d "TearAgent a" now]] by (auto simp: getAgent_def getMachine_def fun_eq_iff)
  ultimately show ?thesis using True reg settled_id(1) [OF assms(1)] unfolding sweeps_def by auto
next
  case False
  then have "check_agent now d a = d" by (auto simp: check_agent_def Let_def idle_agent_def)
  moreover have "settle_last now d = d" using assms(1) by (simp add: settle_last_def settled_def)
  moreover have "\<not> idle_agent now d a" if "getAgent d k = Some a" for k
    using that False settled_live [OF assms] settled_id(1) [OF assms(1) that] by simp
  ultimately show ?thesis using assms(1) by (auto simp: sweeps_def)
qed

lemma sweep_machine:
  assumes "settled d" and "m < length (dp_machines d)"
  shows "sweeps d (\<lambda>_ b. idle_machine now d m \<and> getMachine d (ss_machineID (dp_agents d ! b)) = Some m) (\<lambda>_ n. n = m \<and> idle_machine now d m)
    (settle_last now (check_machine now d m))"
proof (cases "ms_send (dp_machines d ! m) \<and> idle_machine now d m")
  case True
  define k where "k = ms_machineID (dp_machines d ! m)"
  have reg: "getMachine d k = Some m" using settled_live_machine [OF assms] True by (simp add: k_def)
  have iff: "getMachine d j = Some m \<longleftrightarrow> j = k" for j using reg settled_id(2) [OF assms(1), of j m] unfolding k_def by metis
  let ?d = "d\<lparr>dp_machineSessions := assoc_del k (dp_machineSessions d), dp_sessions := filter (\<lambda>e. \<not> owned_by d k e) (dp_sessions d), dp_teardowns := []\<rparr>"
  let ?t = "TearMachine m (map snd (filter (owned_by d k) (dp_sessions d)))"
  have first: "check_machine now d m = ?d\<lparr>dp_teardowns := [?t]\<rparr>" using True reg assms(1)
    by (simp add: check_machine_def Let_def idle_machine_def k_def [symmetric] UnregisterMachineIf_begin_def deleteMachineIfWithAgents_def
      detach_machine_def settled_def)
  have "registry_ok (check_machine now d m)"
    using assms(1) registry_ok_unregister(4) by (simp add: check_machine_def Let_def settled_def)
  then have "settled (settle_last now (check_machine now d m))" by (rule settled_settle) (simp add: first)
  moreover have eq: "settle_last now (check_machine now d m) = run_teardown ?d now ?t"
    unfolding first by (subst settle_one) simp_all
  moreover have "session_facts (run_teardown ?d now ?t) = session_facts d"
    by (simp add: facts_teardown) (simp add: session_facts_def)
  moreover have "distinct_keys (dp_sessions d)"
    using assms(1) by (auto simp: settled_def registry_ok_def agents_ok_def dest: table_okD(1))
  then have "getAgent ?d j = Some b \<longleftrightarrow> getAgent d j = Some b \<and> ss_machineID (dp_agents d ! b) \<noteq> k" for j b
    by (simp add: getAgent_def map_of_filter_keys owned_by_def)
  then have "getAgent (run_teardown ?d now ?t) j = Some b \<longleftrightarrow> getAgent d j = Some b \<and> ss_machineID (dp_agents d ! b) \<noteq> k" for j b
    using getAgent_silences [OF silences_teardown [of ?d ?t now]] by simp
  moreover have "getMachine (run_teardown ?d now ?t) = (getMachine d)(k := None)"
    using getAgent_silences [OF silences_teardown [of ?d ?t now]] by (auto simp: getMachine_def fun_eq_iff)
  moreover have "((getMachine d)(k := None)) j = Some n \<longleftrightarrow> getMachine d j = Some n \<and> n \<noteq> m" for j n
    using reg iff [of j] by (cases "j = k") auto
  ultimately show ?thesis using True iff unfolding sweeps_def by simp
next
  case False
  then have "check_machine now d m = d" by (auto simp: check_machine_def Let_def idle_machine_def)
  moreover have "settle_last now d = d" using assms(1) by (simp add: settle_last_def settled_def)
  moreover have "\<not> idle_machine now d m" if "getMachine d k = Some m" for k
    using that False settled_live_machine [OF assms] settled_id(2) [OF assms(1) that] by simp
  ultimately show ?thesis using assms(1) by (auto simp: sweeps_def)
qed


lemma sweeps_trans:
  assumes "sweeps d g h d'" and "sweeps d' g' h' d''"
  shows "sweeps d (\<lambda>k a. g k a \<or> g' k a) (\<lambda>k m. h k m \<or> h' k m) d''"
  using assms unfolding sweeps_def by auto

lemma sweeps_cong:
  assumes "sweeps d g h d'" and "\<And>k a. getAgent d k = Some a \<Longrightarrow> g k a = g' k a" and "\<And>k m. getMachine d k = Some m \<Longrightarrow> h k m = h' k m"
  shows "sweeps d g' h' d'"
  using assms unfolding sweeps_def by auto

lemma sweep_agents:
  assumes "settled d" and "\<forall>a\<in>set as. a < length (dp_agents d)"
  shows "sweeps d (\<lambda>_ b. b \<in> set as \<and> idle_agent now d b) (\<lambda>_ _. False) (foldl (\<lambda>d a. settle_last now (check_agent now d a)) d as)"
  using assms
proof (induction as arbitrary: d)
  case (Cons a as)
  let ?d = "settle_last now (check_agent now d a)"
  have s: "sweeps d (\<lambda>_ b. b = a \<and> idle_agent now d a) (\<lambda>_ _. False) ?d" using Cons.prems by (intro sweep_agent) simp_all
  then have f: "settled ?d" "session_facts ?d = session_facts d" by (simp_all add: sweeps_def)
  have "sweeps ?d (\<lambda>_ b. b \<in> set as \<and> idle_agent now ?d b) (\<lambda>_ _. False) (foldl (\<lambda>d a. settle_last now (check_agent now d a)) ?d as)"
    using Cons.prems f by (intro Cons.IH) (simp_all add: session_factsD(1) [OF f(2)])
  from sweeps_trans [OF s this]
  have "sweeps d (\<lambda>_ b. b = a \<and> idle_agent now d a \<or> b \<in> set as \<and> idle_agent now ?d b) (\<lambda>_ _. False)
      (foldl (\<lambda>d a. settle_last now (check_agent now d a)) d (a # as))" by simp
  then show ?case by (rule sweeps_cong) (use Cons.prems session_factsD(4) [OF f(2)] in auto)
qed (simp add: sweeps_def)

lemma sweep_machines:
  assumes "settled d" and "\<forall>m\<in>set ms. m < length (dp_machines d)"
  shows "sweeps d (\<lambda>_ b. \<exists>m\<in>set ms. idle_machine now d m \<and> getMachine d (ss_machineID (dp_agents d ! b)) = Some m)
    (\<lambda>_ m. m \<in> set ms \<and> idle_machine now d m) (foldl (\<lambda>d m. settle_last now (check_machine now d m)) d ms)"
  using assms
proof (induction ms arbitrary: d)
  case (Cons m ms)
  let ?d = "settle_last now (check_machine now d m)"
  have s: "sweeps d (\<lambda>_ b. idle_machine now d m \<and> getMachine d (ss_machineID (dp_agents d ! b)) = Some m)
      (\<lambda>_ n. n = m \<and> idle_machine now d m) ?d" using Cons.prems by (intro sweep_machine) simp_all
  then have f: "settled ?d" "session_facts ?d = session_facts d"
    and gm: "\<And>k n. getMachine ?d k = Some n \<longleftrightarrow> getMachine d k = Some n \<and> \<not> (n = m \<and> idle_machine now d m)"
    by (simp_all add: sweeps_def)
  have "sweeps ?d (\<lambda>_ b. \<exists>m\<in>set ms. idle_machine now ?d m \<and> getMachine ?d (ss_machineID (dp_agents ?d ! b)) = Some m)
      (\<lambda>_ m. m \<in> set ms \<and> idle_machine now ?d m) (foldl (\<lambda>d m. settle_last now (check_machine now d m)) ?d ms)"
    using Cons.prems f by (intro Cons.IH) (simp_all add: session_factsD(2) [OF f(2)])
  note both = sweeps_trans [OF s this]
  have idle: "idle_machine now ?d n = idle_machine now d n" if "n \<in> set ms" for n
    using session_factsD(5) [OF f(2)] Cons.prems(2) that by simp
  have lt: "b < length (dp_agents d)" if "getAgent d k = Some b" for k b
    using that Cons.prems(1) getAgent_lt by (auto simp: settled_def registry_ok_def)
  have "sweeps d (\<lambda>_ b. \<exists>n\<in>set (m # ms). idle_machine now d n \<and> getMachine d (ss_machineID (dp_agents d ! b)) = Some n)
    (\<lambda>_ n. n \<in> set (m # ms) \<and> idle_machine now d n) (foldl (\<lambda>d m. settle_last now (check_machine now d m)) ?d ms)"
    by (rule sweeps_cong [OF both]) (use idle gm session_factsD(3) [OF f(2)] lt in auto)
  then show ?case by simp
qed (simp add: sweeps_def)

text \<open>After a sweep of the pings an agent is connected exactly when it was and it is not idle for
  longer than the timeout, and its machine, when one is connected, is not either: no idle
  session survives and no other session is touched.\<close>

theorem sweep_drops_idle_sessions:
  assumes "d = foldl (dispatch_step parse marshal) (NewDispatcher db) ops" and "dp_teardowns d = []"
  shows "(getAgent (checkSessionLiveness d now) k = Some a \<longleftrightarrow>
      getAgent d k = Some a \<and> now - ss_lastPingAt (dp_agents d ! a) \<le> pingTimeout \<and>
      (\<forall>m. getMachine d (ss_machineID (dp_agents d ! a)) = Some m \<longrightarrow> now - ms_lastPingAt (dp_machines d ! m) \<le> pingTimeout)) \<and>
    (getMachine (checkSessionLiveness d now) j = Some m \<longleftrightarrow>
      getMachine d j = Some m \<and> now - ms_lastPingAt (dp_machines d ! m) \<le> pingTimeout)"
proof -
  have "registry_ok d" using dispatch_history.invar_history [of "NewDispatcher db" ops] assms(1) by blast
  with assms(2) have d: "settled d" by (simp add: settled_def)
  let ?as = "map snd (dp_sessions d)" and ?ms = "map snd (dp_machineSessions d)"
  let ?d = "foldl (\<lambda>d a. settle_last now (check_agent now d a)) d ?as"
  note ok = \<open>registry_ok d\<close> [unfolded registry_ok_def agents_ok_def machines_ok_def]
  have as: "a \<in> set ?as \<longleftrightarrow> (\<exists>k. getAgent d k = Some a)" and ms: "m \<in> set ?ms \<longleftrightarrow> (\<exists>k. getMachine d k = Some m)" for a m
    using table_okD(1) [OF conjunct1 [OF ok]] table_okD(1) [OF conjunct2 [OF ok]]
    by (force simp: getAgent_def getMachine_def map_of_in_set)+
  have lt: "getAgent d k = Some a \<Longrightarrow> a < length (dp_agents d)" "getMachine d k = Some m \<Longrightarrow> m < length (dp_machines d)" for k a m
    using ok getAgent_lt getMachine_lt by (auto simp: agents_ok_def machines_ok_def)
  have s1: "sweeps d (\<lambda>_ b. b \<in> set ?as \<and> idle_agent now d b) (\<lambda>_ _. False) ?d"
    by (rule sweep_agents [OF d]) (use as lt in blast)
  then have f: "settled ?d" "session_facts ?d = session_facts d" and gm: "getMachine ?d = getMachine d"
    by (simp_all add: sweeps_def fun_eq_iff) (metis option.exhaust)
  have s2: "sweeps ?d (\<lambda>_ b. \<exists>m\<in>set ?ms. idle_machine now ?d m \<and> getMachine ?d (ss_machineID (dp_agents ?d ! b)) = Some m)
    (\<lambda>_ m. m \<in> set ?ms \<and> idle_machine now ?d m) (foldl (\<lambda>d m. settle_last now (check_machine now d m)) ?d ?ms)"
    by (rule sweep_machines [OF f(1)]) (unfold session_factsD(2) [OF f(2)], use ms lt in blast)
  have idle: "idle_machine now ?d m = idle_machine now d m" if "getMachine d k = Some m" for k m
    using lt(2) [OF that] session_factsD(5) [OF f(2)] by simp
  have at: "ss_machineID (dp_agents ?d ! b) = ss_machineID (dp_agents d ! b)" "b \<in> set ?as" if "getAgent d k = Some b" for k b
    using lt(1) [OF that] session_factsD(3) [OF f(2)] that as by blast+
  have "sweeps d (\<lambda>_ b. idle_agent now d b \<or> (\<exists>m. getMachine d (ss_machineID (dp_agents d ! b)) = Some m \<and> idle_machine now d m))
      (\<lambda>_ m. idle_machine now d m) (checkSessionLiveness d now)"
    unfolding checkSessionLiveness_def Let_def
  proof (rule sweeps_cong [OF sweeps_trans [OF s1 s2]])
    show "(b \<in> set ?as \<and> idle_agent now d b \<or> (\<exists>m\<in>set ?ms. idle_machine now ?d m \<and> getMachine ?d (ss_machineID (dp_agents ?d ! b)) = Some m))
        = (idle_agent now d b \<or> (\<exists>m. getMachine d (ss_machineID (dp_agents d ! b)) = Some m \<and> idle_machine now d m))"
      if "getAgent d k = Some b" for k b
      unfolding gm at(1) [OF that] using at(2) [OF that] idle ms by blast
    show "(False \<or> m \<in> set ?ms \<and> idle_machine now ?d m) = idle_machine now d m" if "getMachine d k = Some m" for k m
      using idle [OF that] ms that by blast
  qed
  then show ?thesis by (auto simp: sweeps_def idle_agent_def idle_machine_def not_less)
qed


theorem sweep_drops_idle_sessions_witness:
  "let d = foldl (dispatch_step Some (\<lambda>_. Inr None)) (NewDispatcher sample_command_db)
       [DRegisterMachine 0 7 ''m'', DRegister (50 * second) 1 7 ''ag'', DRegister (50 * second) 2 0 ''bg''] in
   getAgent (checkSessionLiveness d (60 * second)) 1 = None \<and> getAgent (checkSessionLiveness d (60 * second)) 2 = Some 1"
proof -
  define d where "d = foldl (dispatch_step Some (\<lambda>_. Inr None)) (NewDispatcher sample_command_db)
       [DRegisterMachine 0 7 ''m'', DRegister (50 * second) 1 7 ''ag'', DRegister (50 * second) 2 0 ''bg'']"
  have f: "dp_teardowns d = []" "getAgent d 1 = Some 0" "getAgent d 2 = Some 1" "getMachine d 7 = Some 0" "getMachine d 0 = None"
    "ss_machineID (dp_agents d ! 0) = 7" "ss_machineID (dp_agents d ! 1) = 0" "ss_lastPingAt (dp_agents d ! 1) = 50 * second"
    "ms_lastPingAt (dp_machines d ! 0) = 0"
    by (simp_all add: d_def NewDispatcher_def RegisterAgent_def RegisterMachine_def getAgent_def getMachine_def cancelGraceForAgent_def
      assoc_del_def Let_def)
  have "getAgent (checkSessionLiveness d (60 * second)) 1 \<noteq> Some a" for a
    using sweep_drops_idle_sessions [OF d_def f(1), of "60 * second" 1 a] f by (auto simp: pingTimeout_def second_def)
  moreover have "getAgent (checkSessionLiveness d (60 * second)) 2 = Some 1"
    using sweep_drops_idle_sessions [OF d_def f(1), of "60 * second" 2 1] f by (simp add: pingTimeout_def second_def)
  ultimately show ?thesis unfolding d_def [symmetric] Let_def by auto
qed

section \<open>Commands that end wrongly\<close>

text \<open>What a result of an agent does to the row of the command.\<close>

lemma find_update_command:
  assumes "find_command db c = Some r" and "\<And>x. cm_ID (f x) = cm_ID x"
  shows "find_command (update_command c f db) c = Some (f r)"
proof -
  have "find (is_command c) (update_first (is_command c) f rs) = map_option f (find (is_command c) rs)" for rs
    by (induction rs) (auto simp: is_command_def assms(2))
  then show ?thesis using assms(1) by (simp add: find_command_def update_command_def)
qed

lemma find_followups:
  assumes "find_command db c = Some r"
  shows "\<exists>r'. find_command (result_followups db c res) c = Some r' \<and> cm_Status r' = cm_Status r \<and> cm_AgentID r' = cm_AgentID r"
proof -
  let ?db1 = "snd (UpdateCommandAckSeq db c (rs_LastSeqNo res))"
  obtain r1 where r1: "find_command ?db1 c = Some r1" "cm_Status r1 = cm_Status r" "cm_AgentID r1 = cm_AgentID r"
    using assms find_update_command [OF assms, of "\<lambda>r. r\<lparr>cm_LastAckSeq := rs_LastSeqNo res\<rparr>"] 
    by (cases "cd_fault db StAckSeq") (auto simp: UpdateCommandAckSeq_def)
  let ?f = "\<lambda>r. r\<lparr>cm_FinalSummary := (if rs_FinalSummary res = [] then cm_FinalSummary r else rs_FinalSummary res),
      cm_ResultJSON := (if rs_ResultJSON res = [] then cm_ResultJSON r else rs_ResultJSON res)\<rparr>"
  let ?db2 = "snd (UpdateCommandResultSummary ?db1 c (rs_FinalSummary res) (rs_ResultJSON res))"
  have "?db2 = ?db1 \<or> ?db2 = update_command c ?f ?db1" by (simp add: UpdateCommandResultSummary_def)
  then obtain r2 where r2: "find_command ?db2 c = Some r2" "cm_Status r2 = cm_Status r" "cm_AgentID r2 = cm_AgentID r"
    using r1 find_update_command [OF r1(1), of ?f] by fastforce
  then show ?thesis by (simp add: result_followups_def Let_def AppendCommandExecutionEvent_def find_command_def)
qed

text \<open>A result is stored for whatever command it names: the agent of the stream it came over is not
  compared with the agent of the command, so any connected agent can end the command of
  another, with the exit code it likes.\<close>

theorem foreign_result_accepted:
  assumes "parse (rs_CommandId res) = Some c" and "find_command (dp_store d) c = Some r" and "cm_AgentID r \<noteq> agentID"
    and "\<not> cd_fault (dp_store d) StUpdateStatus"
  shows "fst (HandleResult parse d now agentID res) = Inr () \<and>
    (\<exists>r'. find_command (dp_store (snd (HandleResult parse d now agentID res))) c = Some r' \<and> cm_AgentID r' = cm_AgentID r \<and>
       cm_Status r' = (if rs_ExitCode res \<noteq> 0 then CommandStatusFailed else CommandStatusCompleted))"
proof -
  define st where "st = (if rs_ExitCode res \<noteq> 0 then CommandStatusFailed else CommandStatusCompleted)"
  let ?f = "status_row st None (Some now) (Some (rs_ExitCode res)) (Some (rs_DurationMs res)) (rs_ErrorMessage res)"
  define d1 where "d1 = (case getAgent d agentID of None \<Rightarrow> d | Some a \<Rightarrow> clear_current a (rs_CommandId res) d)"
  have s: "dp_store d1 = dp_store d" by (simp add: d1_def clear_current_def split: option.split)
  have "fits_smallint st" by (simp add: st_def fits_smallint_def CommandStatusFailed_def CommandStatusCompleted_def)
  then have u: "UpdateCommandStatus (dp_store d1) c st None (Some now) (Some (rs_ExitCode res)) (Some (rs_DurationMs res)) (rs_ErrorMessage res)
      = (Inr (), update_command c ?f (dp_store d))"
    using assms(4) by (simp add: s UpdateCommandStatus_def)
  have "find_command (update_command c ?f (dp_store d)) c = Some (?f r)"
    using assms(2) by (rule find_update_command) (simp add: status_row_def)
  from find_followups [OF this, of res]
  obtain r' where "find_command (result_followups (update_command c ?f (dp_store d)) c res) c = Some r'"
    "cm_Status r' = st" "cm_AgentID r' = cm_AgentID r" by (auto simp: status_row_def)
  then show ?thesis unfolding HandleResult_def Let_def st_def [symmetric] d1_def [symmetric] using assms(1) u by simp
qed

theorem foreign_result_accepted_witness:
  "let d = NewDispatcher (command_step sample_command_db (COpCreate ''c'' 0 sample_command));
       r = \<lparr>rs_CommandId = ''c'', rs_ExitCode = 0, rs_DurationMs = 1, rs_LastSeqNo = 0, rs_ErrorMessage = [], rs_FinalSummary = [], rs_ResultJSON = []\<rparr>
   in fst (HandleResult Some d 5 2 r) = Inr () \<and>
      (\<exists>r'. find_command (dp_store (snd (HandleResult Some d 5 2 r))) ''c'' = Some r' \<and> cm_AgentID r' = 1 \<and> cm_Status r' = CommandStatusCompleted)"
proof -
  let ?d = "NewDispatcher (command_step sample_command_db (COpCreate ''c'' 0 sample_command))"
  let ?r = "\<lparr>rs_CommandId = ''c'', rs_ExitCode = 0, rs_DurationMs = 1, rs_LastSeqNo = 0, rs_ErrorMessage = [], rs_FinalSummary = [], rs_ResultJSON = []\<rparr>"
  obtain r where r: "find_command (dp_store ?d) ''c'' = Some r" "cm_AgentID r = 1"
    by (simp add: NewDispatcher_def CreateCommand_def sample_command_db_def sample_command_def find_command_def is_command_def
      fits_smallint_def CommandStatusRunning_def coerceEnvJSON_def Let_def)
  have "\<not> cd_fault (dp_store ?d) StUpdateStatus"
    by (simp add: NewDispatcher_def CreateCommand_def sample_command_db_def Let_def)
  from foreign_result_accepted [of Some ?r "''c''" ?d r 2 5, OF _ r(1) _ this] show ?thesis using r(2) by simp
qed


text \<open>A command that its agent completed ends as failed. The stream of the agent breaks while the
  command runs, and the agent is back before the old session is torn down: the teardown then
  arms a timer that no reconnect cancels. The agent reports its result over the new session,
  and the command is completed. When the agent is away at the end of the grace period, the
  timer overwrites the status, the error and the time of completion.\<close>

theorem completed_command_marked_failed:
  "let res = \<lparr>rs_CommandId = ''c'', rs_ExitCode = 0, rs_DurationMs = 1, rs_LastSeqNo = 0, rs_ErrorMessage = [], rs_FinalSummary = [],
         rs_ResultJSON = []\<rparr>;
       d = foldl (dispatch_step Some (\<lambda>_. Inr None)) (NewDispatcher sample_command_db) (reconnect_race @ [DResult (3 * second) 1 res]);
       d' = foldl (dispatch_step Some (\<lambda>_. Inr None)) d
         [DUnregisterIf 1 1, DTeardown 0 (4 * second), DTimer 0 (62 * second) False, DTimer 0 (62 * second) False, DTimer 0 (62 * second) False]
   in map cm_Status (cd_commands (dp_store d)) = [CommandStatusCompleted] \<and>
      map (\<lambda>r. (cm_Status r, cm_ErrorMessage r, cm_CompletedAt r)) (cd_commands (dp_store d'))
        = [(CommandStatusFailed, disconnected, Some (62 * second))]"
  by code_simp

text \<open>One running command of which no event is recorded hides the activity of a whole conversation:
  the missing event is NULL in the joined row, which cannot be read into an integer, and the
  error is that of the query, whatever the other agents of the conversation do.\<close>

theorem eventless_command_hides_activity:
  assumes "parse conversationID = Some v" and "r \<in> set (cd_commands (dp_store d))" and "cm_Status r = CommandStatusRunning"
    and "cm_AgentID r \<in> set (map fst ags)" and "linked (dp_store d) (cm_ID r) v" and "latest_event (dp_store d) (cm_ID r) = None"
    and "\<not> cd_fault (dp_store d) StSelect"
  shows "FetchConversationActivity parse d conversationID (Inr ags) = Inl ScanNull"
proof -
  have scan: "scan_running rows = Inl ScanNull" if "(r, None) \<in> set rows" for rows :: "(CommandMessage \<times> CommandEventMessage option) list"
    using that by (induction rows rule: scan_running.induct) auto
  have "(r, None) \<in> set (map (\<lambda>r. (r, latest_event (dp_store d) (cm_ID r)))
      (filter (\<lambda>r. cm_AgentID r \<in> set (map fst ags) \<and> linked (dp_store d) (cm_ID r) v \<and> cm_Status r = CommandStatusRunning)
        (cd_commands (dp_store d))))"
    unfolding set_map set_filter using assms(2-6) by (intro image_eqI [where x = r]) simp_all
  from scan [OF this] have "GetRunningCommandsForConversation (dp_store d) (map fst ags) v = Inl ScanNull"
    using assms(4,7) by (auto simp: GetRunningCommandsForConversation_def)
  then show ?thesis using assms(1) by (simp add: FetchConversationActivity_def)
qed

theorem eventless_command_hides_activity_witness:
  "let db = foldl command_step sample_command_db [COpCreate ''c'' 0 sample_command, COpLink ''c'' ''v''];
       row = \<lparr>ag_ResourceID = ''ag'', ag_Name = ''Ag'', ag_MachineID = 0, ag_Enabled = True, ag_Capable = True, ag_OwnerName = ''Bo''\<rparr>
   in FetchConversationActivity Some (NewDispatcher db) ''v'' (Inr [(1, row)]) = Inl ScanNull"
proof -
  let ?db = "foldl command_step sample_command_db [COpCreate ''c'' 0 sample_command, COpLink ''c'' ''v'']"
  have "map (\<lambda>r. (cm_ID r, cm_AgentID r, cm_Status r)) (cd_commands ?db) = [(''c'', 1, CommandStatusRunning)]" by code_simp
  then obtain r where r: "cd_commands ?db = [r]" "cm_Status r = CommandStatusRunning" "cm_AgentID r = 1" "cm_ID r = ''c''" by auto
  have "linked ?db ''c'' ''v''" "latest_event ?db ''c'' = None" "\<not> cd_fault ?db StSelect" by code_simp+
  moreover have "dp_store (NewDispatcher ?db) = ?db" by (simp add: NewDispatcher_def)
  ultimately show ?thesis unfolding Let_def
    by (intro eventless_command_hides_activity [of Some "''v''" "''v''" r]) (simp_all add: r del: foldl.simps)
qed

end
