(* ===== verification/Iam_Policy.thy ===== *)
theory Iam_Policy
  imports Workspace_Path "HOL-Library.Char_ord"
begin

text \<open>
  Policies of access, \<open>backend/manager/store/policy.go\<close>, with the membership of conversations that is
  kept in them, \<open>conversation_policy.go\<close> and \<open>conversation_member.go\<close> of the same package, and the
  resource names of \<open>backend/common/resource_name.go\<close>. A policy is its list of bindings; the payload
  of a row is \<open>None\<close> when its text is not a policy. Rows are those of type IAM. The cache of a
  process maps key strings to rows or to the knowledge that there is none. A call is one
  step; the parts of a call between which others may come are functions of their own. Go
  ranges over a map in any order: \<open>rank\<close> gives it. \<open>cel\<close> is the evaluator of conditions.
  Strings are valid UTF-8, and instants count from the Unix epoch.
\<close>

section \<open>Resource names\<close>

definition invalidTokenChars :: string where
  "invalidTokenChars = [CHR 0x27, CHR 0x22, CHR '';'', CHR 0x5C, CHR ''('', CHR '')'', CHR 0x00]"

fun parent_tokens :: "string list \<Rightarrow> string list \<Rightarrow> string list option" where
  "parent_tokens [] [] = Some []"
| "parent_tokens (p # t # parts) (pre # pres) =
     (if p @ ''/'' \<noteq> pre then None
      else if list_ex (\<lambda>c. c \<in> set invalidTokenChars) t then None
      else map_option ((#) t) (parent_tokens parts pres))"
| "parent_tokens _ _ = None"

definition GetNameParentTokens :: "string \<Rightarrow> string list \<Rightarrow> string list option" where
  "GetNameParentTokens name pres = parent_tokens (split_slash name) pres"

definition name_token :: "string \<Rightarrow> string \<Rightarrow> string option" where
  "name_token pre name = map_option hd (GetNameParentTokens name [pre])"

definition GetUserHandle :: "string \<Rightarrow> string option" where "GetUserHandle = name_token ''users/''"
definition GetGroupEmail :: "string \<Rightarrow> string option" where "GetGroupEmail = name_token ''groups/''"
definition GetAgentResourceID :: "string \<Rightarrow> string option" where "GetAgentResourceID = name_token ''agents/''"
definition GetMachineResourceID :: "string \<Rightarrow> string option" where "GetMachineResourceID = name_token ''machines/''"
definition GetConversationResourceID :: "string \<Rightarrow> string option" where "GetConversationResourceID = name_token ''conversations/''"

definition FormatRole :: "string \<Rightarrow> string" where "FormatRole role = ''roles/'' @ role"
definition FormatUserHandle :: "string \<Rightarrow> string" where "FormatUserHandle handle = ''users/'' @ handle"
definition FormatAgentUID :: "string \<Rightarrow> string" where "FormatAgentUID uid = ''agents/'' @ uid"
definition FormatConversationName :: "string \<Rightarrow> string" where "FormatConversationName v = ''conversations/'' @ v"

section \<open>Bindings\<close>

text \<open>The condition is the text of its expression, \<open>None\<close> when the binding has none.\<close>

record Binding =
  bd_Role :: string
  bd_Members :: "string list"
  bd_Condition :: "string option"

datatype cel_outcome = CelFailed | CelBool bool | CelResidual

definition EvalBindingCondition :: "(string \<Rightarrow> instant \<Rightarrow> cel_outcome) \<Rightarrow> string \<Rightarrow> instant \<Rightarrow> (unit, bool) result" where
  "EvalBindingCondition cel expr requestTime =
     (if expr = [] then Inr True
      else case cel expr requestTime of CelFailed \<Rightarrow> Inl () | CelResidual \<Rightarrow> Inr True | CelBool b \<Rightarrow> Inr b)"

definition validateIAMBinding :: "(string \<Rightarrow> instant \<Rightarrow> cel_outcome) \<Rightarrow> instant \<Rightarrow> Binding \<Rightarrow> bool" where
  "validateIAMBinding cel now b =
     (case EvalBindingCondition cel (case bd_Condition b of None \<Rightarrow> [] | Some e \<Rightarrow> e) now of Inl _ \<Rightarrow> False | Inr ok \<Rightarrow> ok)"

section \<open>Patching a policy\<close>

text \<open>The loop over the bindings; the first argument is the keys of \<open>roleMap\<close>.\<close>

fun patch_bindings :: "string \<Rightarrow> string list \<Rightarrow> Binding list \<Rightarrow> string list \<times> Binding list" where
  "patch_bindings member roleMap [] = (roleMap, [])"
| "patch_bindings member roleMap (b # bs) =
     (let b1 = (if bd_Role b \<notin> set roleMap then b\<lparr>bd_Members := remove1 member (bd_Members b)\<rparr>
                else if member \<in> set (bd_Members b) then b else b\<lparr>bd_Members := bd_Members b @ [member]\<rparr>)
      in case patch_bindings member (removeAll (bd_Role b) roleMap) bs of (left, bs1) \<Rightarrow> (left, b1 # bs1))"

definition reap :: "Binding list \<Rightarrow> Binding list" where
  "reap bs = filter (\<lambda>b. bd_Members b \<noteq> []) bs"

definition applyIamPolicyPatch :: "(string \<Rightarrow> nat) \<Rightarrow> Binding list \<Rightarrow> string \<Rightarrow> string list \<Rightarrow> Binding list" where
  "applyIamPolicyPatch rank policy member roles =
     (case patch_bindings member (remdups roles) policy of
        (left, bs) \<Rightarrow> reap (bs @ map (\<lambda>r. \<lparr>bd_Role = r, bd_Members = [member], bd_Condition = None\<rparr>) (sort_key rank left)))"

definition sameBindingCondition :: "string option \<Rightarrow> string option \<Rightarrow> bool" where
  "sameBindingCondition a b =
     (case a of None \<Rightarrow> b = None | Some x \<Rightarrow> (case b of None \<Rightarrow> False | Some y \<Rightarrow> x = y))"

text \<open>The part of \<open>addConversationMemberWithConditionTx\<close> between reading and writing the policy.\<close>

definition add_with_condition :: "Binding list \<Rightarrow> string \<Rightarrow> string \<Rightarrow> string option \<Rightarrow> Binding list" where
  "add_with_condition policy member role condition =
     (let dropped = map (\<lambda>b. if bd_Role b = role then b\<lparr>bd_Members := filter (\<lambda>m. m \<noteq> member) (bd_Members b)\<rparr> else b) policy;
          fits = (\<lambda>b. bd_Role b = role \<and> sameBindingCondition (bd_Condition b) condition)
      in reap (if list_ex fits dropped then update_first fits (\<lambda>b. b\<lparr>bd_Members := bd_Members b @ [member]\<rparr>) dropped
               else dropped @ [\<lparr>bd_Role = role, bd_Members = [member], bd_Condition = condition\<rparr>]))"

section \<open>What a patch does\<close>

definition binds_member :: "Binding list \<Rightarrow> string \<Rightarrow> string \<Rightarrow> bool" where
  "binds_member p role member \<longleftrightarrow> (\<exists>b\<in>set p. bd_Role b = role \<and> member \<in> set (bd_Members b))"

definition members_distinct :: "Binding list \<Rightarrow> bool" where
  "members_distinct p \<longleftrightarrow> (\<forall>b\<in>set p. distinct (bd_Members b))"

lemma binds_member_simps [simp]:
  "binds_member [] r m = False"
  "binds_member (b # p) r m \<longleftrightarrow> bd_Role b = r \<and> m \<in> set (bd_Members b) \<or> binds_member p r m"
  "binds_member (p @ q) r m \<longleftrightarrow> binds_member p r m \<or> binds_member q r m"
  "binds_member (reap p) r m \<longleftrightarrow> binds_member p r m"
  by (auto simp: binds_member_def reap_def)

lemma members_distinct_simps [simp]:
  "members_distinct []"
  "members_distinct (b # p) \<longleftrightarrow> distinct (bd_Members b) \<and> members_distinct p"
  "members_distinct (p @ q) \<longleftrightarrow> members_distinct p \<and> members_distinct q"
  by (auto simp: members_distinct_def)

lemma members_distinct_reap: "members_distinct p \<Longrightarrow> members_distinct (reap p)"
  by (simp add: members_distinct_def reap_def)

text \<open>Who is bound to a role under which condition; a patch puts a member into the first binding of a
  role, under the condition that binding has.\<close>

definition bound_under :: "Binding list \<Rightarrow> string \<Rightarrow> string option \<Rightarrow> string \<Rightarrow> bool" where
  "bound_under p role c member \<longleftrightarrow> (\<exists>b\<in>set p. bd_Role b = role \<and> bd_Condition b = c \<and> member \<in> set (bd_Members b))"

definition first_condition :: "Binding list \<Rightarrow> string \<Rightarrow> string option" where
  "first_condition p role = (case find (\<lambda>b. bd_Role b = role) p of None \<Rightarrow> None | Some b \<Rightarrow> bd_Condition b)"

lemma bound_under_simps [simp]:
  "bound_under [] r c m = False"
  "bound_under (b # p) r c m \<longleftrightarrow> bd_Role b = r \<and> bd_Condition b = c \<and> m \<in> set (bd_Members b) \<or> bound_under p r c m"
  "bound_under (p @ q) r c m \<longleftrightarrow> bound_under p r c m \<or> bound_under q r c m"
  "bound_under (reap p) r c m \<longleftrightarrow> bound_under p r c m"
  by (auto simp: bound_under_def reap_def)

lemma first_condition_Cons [simp]:
  "first_condition (b # p) r = (if bd_Role b = r then bd_Condition b else first_condition p r)"
  by (simp add: first_condition_def)

lemma first_condition_None: "r \<notin> bd_Role ` set p \<Longrightarrow> first_condition p r = None"
  by (induction p) (auto simp: first_condition_def)

lemma binds_bound: "binds_member p r m \<longleftrightarrow> (\<exists>c. bound_under p r c m)"
  by (auto simp: binds_member_def bound_under_def)

lemma patch_bindings_spec:
  assumes "members_distinct bs" and "patch_bindings member roleMap bs = (left, bs1)"
  shows "(\<forall>r c. bound_under bs1 r c member \<longleftrightarrow> r \<in> set roleMap \<and> r \<in> bd_Role ` set bs \<and> c = first_condition bs r) \<and>
    (\<forall>r c x. x \<noteq> member \<longrightarrow> bound_under bs1 r c x = bound_under bs r c x) \<and> members_distinct bs1 \<and> set left = set roleMap - bd_Role ` set bs"
  using assms
proof (induction bs arbitrary: roleMap left bs1)
  case (Cons b bs)
  obtain l bs2 where rec: "patch_bindings member (removeAll (bd_Role b) roleMap) bs = (l, bs2)" by fastforce
  have d: "distinct (bd_Members b)" "members_distinct bs" using Cons.prems(1) by simp_all
  note IH = Cons.IH [OF d(2) rec]
  define b1 where "b1 = (if bd_Role b \<notin> set roleMap then b\<lparr>bd_Members := remove1 member (bd_Members b)\<rparr>
                else if member \<in> set (bd_Members b) then b else b\<lparr>bd_Members := bd_Members b @ [member]\<rparr>)"
  have eq: "left = l" "bs1 = b1 # bs2" using Cons.prems(2) rec by (simp_all add: b1_def Let_def)
  have b1: "bd_Role b1 = bd_Role b" "bd_Condition b1 = bd_Condition b" "distinct (bd_Members b1)"
    "member \<in> set (bd_Members b1) \<longleftrightarrow> bd_Role b \<in> set roleMap"
    "\<And>x. x \<noteq> member \<Longrightarrow> x \<in> set (bd_Members b1) \<longleftrightarrow> x \<in> set (bd_Members b)"
    using d(1) by (auto simp: b1_def)
  have "bound_under bs1 r c member \<longleftrightarrow> r \<in> set roleMap \<and> r \<in> bd_Role ` set (b # bs) \<and> c = first_condition (b # bs) r" for r c
    using IH b1 by (auto simp: eq)
  moreover have "bound_under bs1 r c x = bound_under (b # bs) r c x" if "x \<noteq> member" for r c x using IH b1 that by (simp add: eq)
  ultimately show ?case using IH b1 by (auto simp: eq)
qed simp

lemma applyIamPolicyPatch_bound:
  assumes "members_distinct policy"
  shows "bound_under (applyIamPolicyPatch rank policy member roles) r c member \<longleftrightarrow> r \<in> set roles \<and> c = first_condition policy r"
    and "x \<noteq> member \<Longrightarrow> bound_under (applyIamPolicyPatch rank policy member roles) r c x = bound_under policy r c x"
    and "members_distinct (applyIamPolicyPatch rank policy member roles)"
proof -
  obtain left bs where p: "patch_bindings member (remdups roles) policy = (left, bs)" by fastforce
  note s = patch_bindings_spec [OF assms p]
  let ?new = "map (\<lambda>r. \<lparr>bd_Role = r, bd_Members = [member], bd_Condition = None\<rparr>) (sort_key rank left)"
  have eq: "applyIamPolicyPatch rank policy member roles = reap (bs @ ?new)" by (simp add: applyIamPolicyPatch_def p)
  have new: "bound_under ?new r c x \<longleftrightarrow> r \<in> set left \<and> c = None \<and> x = member" for r c x by (auto simp: bound_under_def)
  show "bound_under (applyIamPolicyPatch rank policy member roles) r c member \<longleftrightarrow> r \<in> set roles \<and> c = first_condition policy r"
    unfolding eq using s new first_condition_None [of r policy] by (cases "r \<in> bd_Role ` set policy") simp_all
  show "x \<noteq> member \<Longrightarrow> bound_under (applyIamPolicyPatch rank policy member roles) r c x = bound_under policy r c x"
    unfolding eq using s new by simp
  show "members_distinct (applyIamPolicyPatch rank policy member roles)"
    unfolding eq by (rule members_distinct_reap) (use s in \<open>auto simp: members_distinct_def\<close>)
qed

lemma applyIamPolicyPatch_spec:
  assumes "members_distinct policy"
  shows "binds_member (applyIamPolicyPatch rank policy member roles) r member \<longleftrightarrow> r \<in> set roles"
    and "x \<noteq> member \<Longrightarrow> binds_member (applyIamPolicyPatch rank policy member roles) r x = binds_member policy r x"
    and "members_distinct (applyIamPolicyPatch rank policy member roles)"
  using applyIamPolicyPatch_bound [OF assms] by (simp_all add: binds_bound)

lemma add_with_condition_spec:
  assumes "members_distinct policy"
  shows "binds_member (add_with_condition policy member role condition) r member \<longleftrightarrow> r = role \<or> binds_member policy r member"
    and "x \<noteq> member \<Longrightarrow> binds_member (add_with_condition policy member role condition) r x = binds_member policy r x"
    and "members_distinct (add_with_condition policy member role condition)"
proof -
  let ?f = "\<lambda>b. if bd_Role b = role then b\<lparr>bd_Members := filter (\<lambda>m. m \<noteq> member) (bd_Members b)\<rparr> else b"
  let ?fits = "\<lambda>b. bd_Role b = role \<and> sameBindingCondition (bd_Condition b) condition"
  let ?up = "\<lambda>b. b\<lparr>bd_Members := bd_Members b @ [member]\<rparr>"
  define dropped where "dropped = map ?f policy"
  have "binds_member (map ?f p) r x \<longleftrightarrow> binds_member p r x \<and> \<not> (r = role \<and> x = member)" for p r x by (induction p) auto
  then have dr: "binds_member dropped r member \<longleftrightarrow> binds_member policy r member \<and> r \<noteq> role" "x \<noteq> member \<Longrightarrow> binds_member dropped r x = binds_member policy r x" for r x
    by (simp_all add: dropped_def)
  have dd: "members_distinct dropped" "\<forall>b\<in>set dropped. bd_Role b = role \<longrightarrow> member \<notin> set (bd_Members b)"
  proof -
    have "members_distinct p \<Longrightarrow> members_distinct (map ?f p)" for p by (induction p) auto
    with assms show "members_distinct dropped" by (simp add: dropped_def)
    have "\<forall>b\<in>set (map ?f p). bd_Role b = role \<longrightarrow> member \<notin> set (bd_Members b)" for p by (induction p) auto
    then show "\<forall>b\<in>set dropped. bd_Role b = role \<longrightarrow> member \<notin> set (bd_Members b)" by (simp add: dropped_def)
  qed
  have up: "list_ex ?fits bs \<Longrightarrow> binds_member (update_first ?fits ?up bs) r x \<longleftrightarrow> binds_member bs r x \<or> r = role \<and> x = member" for bs r x
    by (induction bs) auto
  have upd: "members_distinct (update_first ?fits ?up bs)" if "members_distinct bs" "\<forall>b\<in>set bs. bd_Role b = role \<longrightarrow> member \<notin> set (bd_Members b)" for bs
    using that by (induction bs) auto
  define res where "res = (if list_ex ?fits dropped then update_first ?fits ?up dropped
     else dropped @ [\<lparr>bd_Role = role, bd_Members = [member], bd_Condition = condition\<rparr>])"
  have eq: "add_with_condition policy member role condition = reap res"
    by (simp add: add_with_condition_def Let_def dropped_def res_def)
  have b: "binds_member res r x \<longleftrightarrow> binds_member dropped r x \<or> r = role \<and> x = member" for r x
    using up [of dropped r x] by (auto simp: res_def)
  show "binds_member (add_with_condition policy member role condition) r member \<longleftrightarrow> r = role \<or> binds_member policy r member"
    and "x \<noteq> member \<Longrightarrow> binds_member (add_with_condition policy member role condition) r x = binds_member policy r x"
    unfolding eq using b dr by auto
  show "members_distinct (add_with_condition policy member role condition)"
    unfolding eq by (rule members_distinct_reap) (use dd upd in \<open>auto simp: res_def\<close>)
qed


section \<open>The table and its cache\<close>

datatype policy_resource =
    PolicyWORKSPACE | PolicyAGENT | PolicyMACHINE | PolicyCONVERSATION | PolicyCOMMAND | PolicyREMINDER | PolicyFILE | PolicyPROJECT

fun resource_string :: "policy_resource \<Rightarrow> string" where
  "resource_string PolicyWORKSPACE = ''WORKSPACE''"
| "resource_string PolicyAGENT = ''AGENT''"
| "resource_string PolicyMACHINE = ''MACHINE''"
| "resource_string PolicyCONVERSATION = ''CONVERSATION''"
| "resource_string PolicyCOMMAND = ''COMMAND''"
| "resource_string PolicyREMINDER = ''REMINDER''"
| "resource_string PolicyFILE = ''FILE''"
| "resource_string PolicyPROJECT = ''PROJECT''"

record PolicyMessage =
  pm_OrganizationID :: string
  pm_ResourceType :: policy_resource
  pm_Resource :: string
  pm_Payload :: "Binding list option"
  pm_UpdatedAt :: instant

text \<open>\<open>pd_meta\<close> is the table \<open>conversation_member_meta\<close>: organization, conversation, type and id of a
  member; \<open>pd_owners\<close> the column \<open>owner_id\<close> of conversations.\<close>

record policy_db =
  pd_fault :: bool
  pd_enableCache :: bool
  pd_rows :: "PolicyMessage list"
  pd_cache :: "(string \<times> PolicyMessage option) list"
  pd_meta :: "(string \<times> string \<times> int \<times> string) list"
  pd_owners :: "(string \<times> int) list"

datatype policy_error = PolicySqlFailed | PolicyConflict | PolicyTenantMismatch | PolicyUnreadable | ErrPolicyEtagMismatch | ErrConversationMemberNotFound

definition safe_key_char :: "char \<Rightarrow> bool" where
  "safe_key_char c \<longleftrightarrow> (CHR ''a'' \<le> c \<and> c \<le> CHR ''z'') \<or> (CHR ''A'' \<le> c \<and> c \<le> CHR ''Z'') \<or> (CHR ''0'' \<le> c \<and> c \<le> CHR ''9'') \<or>
     c \<in> set ''-_.''"

text \<open>A rune that is not safe becomes one underscore; its continuation bytes are skipped.\<close>

definition key_char :: "char \<Rightarrow> string" where
  "key_char c = (if safe_key_char c then [c] else if CHR 0x80 \<le> c \<and> c \<le> CHR 0xBF then [] else ''_'')"

definition sanitizeTenantKey :: "string \<Rightarrow> string" where
  "sanitizeTenantKey v =
     (let v1 = trim_space v; b = concat (map key_char v1) in
      if v1 = [] then ''default'' else if b = [] \<or> b = ''.'' \<or> b = ''..'' then ''default'' else b)"

definition TenantCacheKey :: "string \<Rightarrow> string \<Rightarrow> string \<Rightarrow> string" where
  "TenantCacheKey orgID resourceType key =
     ''org:'' @ sanitizeTenantKey (if orgID = [] then ''default'' else orgID) @ '':'' @ resourceType @ '':'' @ key"

definition getPolicyCacheKey :: "string \<Rightarrow> policy_resource \<Rightarrow> string \<Rightarrow> string" where
  "getPolicyCacheKey org rt res = TenantCacheKey org ''policy'' (resource_string rt @ ''/'' @ res @ ''/IAM'')"

definition is_row :: "string \<Rightarrow> policy_resource \<Rightarrow> string \<Rightarrow> PolicyMessage \<Rightarrow> bool" where
  "is_row org rt res p \<longleftrightarrow> pm_OrganizationID p = org \<and> pm_ResourceType p = rt \<and> pm_Resource p = res"

definition find_row :: "policy_db \<Rightarrow> string \<Rightarrow> policy_resource \<Rightarrow> string \<Rightarrow> PolicyMessage option" where
  "find_row db org rt res = find (is_row org rt res) (pd_rows db)"

definition cache_add :: "string \<Rightarrow> PolicyMessage option \<Rightarrow> policy_db \<Rightarrow> policy_db" where
  "cache_add k v db = db\<lparr>pd_cache := assoc_set k v (pd_cache db)\<rparr>"

definition cache_remove :: "string \<Rightarrow> policy_db \<Rightarrow> policy_db" where
  "cache_remove k db = db\<lparr>pd_cache := assoc_del k (pd_cache db)\<rparr>"

text \<open>The query of \<open>GetPolicyV2\<close>, and what it then leaves in the cache.\<close>

definition listPolicyImplV2 :: "policy_db \<Rightarrow> string \<Rightarrow> policy_resource \<Rightarrow> string option \<Rightarrow> PolicyMessage list" where
  "listPolicyImplV2 db org rt res =
     filter (\<lambda>p. pm_OrganizationID p = org \<and> pm_ResourceType p = rt \<and> (case res of None \<Rightarrow> True | Some r \<Rightarrow> pm_Resource p = r)) (pd_rows db)"

definition remember_policy :: "policy_db \<Rightarrow> string \<Rightarrow> policy_resource \<Rightarrow> string option \<Rightarrow> PolicyMessage option \<Rightarrow> policy_db" where
  "remember_policy db org rt res found =
     (case found of
        None \<Rightarrow> (case res of None \<Rightarrow> db | Some r \<Rightarrow> cache_add (getPolicyCacheKey org rt r) None db)
      | Some p \<Rightarrow> cache_add (getPolicyCacheKey org (pm_ResourceType p) (pm_Resource p)) (Some p) db)"

definition cached_policy :: "policy_db \<Rightarrow> string \<Rightarrow> policy_resource \<Rightarrow> string option \<Rightarrow> PolicyMessage option option" where
  "cached_policy db org rt res =
     (case res of None \<Rightarrow> None | Some r \<Rightarrow> if pd_enableCache db then map_of (pd_cache db) (getPolicyCacheKey org rt r) else None)"

definition GetPolicyV2 ::
  "policy_db \<Rightarrow> string \<Rightarrow> policy_resource \<Rightarrow> string option \<Rightarrow> (policy_error, PolicyMessage option) result \<times> policy_db" where
  "GetPolicyV2 db org rt res =
     (case cached_policy db org rt res of
        Some v \<Rightarrow> (Inr v, db)
      | None \<Rightarrow>
          if pd_fault db then (Inl PolicySqlFailed, db)
          else case listPolicyImplV2 db org rt res of
            [] \<Rightarrow> (Inr None, remember_policy db org rt res None)
          | [p] \<Rightarrow> (Inr (Some p), remember_policy db org rt res (Some p))
          | _ \<Rightarrow> (Inl PolicyConflict, db))"

definition generateEtag :: "instant \<Rightarrow> string" where
  "generateEtag t = show_int (t div millisecond)"

definition getIamPolicy ::
  "policy_db \<Rightarrow> string \<Rightarrow> policy_resource \<Rightarrow> string option \<Rightarrow> (policy_error, Binding list \<times> string) result \<times> policy_db" where
  "getIamPolicy db org rt res =
     (case GetPolicyV2 db org rt res of
        (Inl e, db1) \<Rightarrow> (Inl e, db1)
      | (Inr None, db1) \<Rightarrow> (Inr ([], []), db1)
      | (Inr (Some p), db1) \<Rightarrow>
          (case pm_Payload p of None \<Rightarrow> (Inl PolicyUnreadable, db1) | Some bs \<Rightarrow> (Inr (bs, generateEtag (pm_UpdatedAt p)), db1)))"

definition upsertPolicyV2Impl :: "string \<Rightarrow> policy_resource \<Rightarrow> string \<Rightarrow> Binding list \<Rightarrow> instant \<Rightarrow> policy_db \<Rightarrow> policy_db" where
  "upsertPolicyV2Impl org rt res policy now db =
     (let row = \<lparr>pm_OrganizationID = org, pm_ResourceType = rt, pm_Resource = res, pm_Payload = Some policy, pm_UpdatedAt = now\<rparr> in
      db\<lparr>pd_rows := (if list_ex (is_row org rt res) (pd_rows db) then update_first (is_row org rt res) (\<lambda>_. row) (pd_rows db)
                     else pd_rows db @ [row])\<rparr>)"

definition upsertIamPolicy ::
  "policy_db \<Rightarrow> instant \<Rightarrow> string \<Rightarrow> policy_resource \<Rightarrow> string \<Rightarrow> Binding list \<Rightarrow> (policy_error, unit) result \<times> policy_db" where
  "upsertIamPolicy db now org rt res policy =
     (if pd_fault db then (Inl PolicySqlFailed, db)
      else (Inr (), cache_add (getPolicyCacheKey org rt res)
             (Some \<lparr>pm_OrganizationID = org, pm_ResourceType = rt, pm_Resource = res, pm_Payload = Some policy, pm_UpdatedAt = now\<rparr>)
             (upsertPolicyV2Impl org rt res policy now db)))"

text \<open>The organization of a policy that is to be deleted is its own or else the one of the request,
  \<open>tenant\<close>; a request of another organization is refused.\<close>

definition policy_organization :: "string option \<Rightarrow> string \<Rightarrow> string" where
  "policy_organization tenant org =
     (if org \<noteq> [] then org
      else case tenant of None \<Rightarrow> ''default'' | Some t \<Rightarrow> if t = [] then ''default'' else t)"

definition delete_policy :: "policy_db \<Rightarrow> string \<Rightarrow> policy_resource \<Rightarrow> string \<Rightarrow> (policy_error, unit) result \<times> policy_db" where
  "delete_policy db org rt res =
     (if pd_fault db then (Inl PolicySqlFailed, db)
      else (Inr (), cache_remove (getPolicyCacheKey org rt res) (db\<lparr>pd_rows := filter (\<lambda>p. \<not> is_row org rt res p) (pd_rows db)\<rparr>)))"

definition DeletePolicyV2 ::
  "policy_db \<Rightarrow> string option \<Rightarrow> string \<Rightarrow> policy_resource \<Rightarrow> string \<Rightarrow> (policy_error, unit) result \<times> policy_db" where
  "DeletePolicyV2 db tenant org rt res =
     (let organizationID = policy_organization tenant org in
      if tenant \<noteq> None \<and> tenant \<noteq> Some [] \<and> tenant \<noteq> Some organizationID then (Inl PolicyTenantMismatch, db)
      else delete_policy db organizationID rt res)"

section \<open>Setting policies\<close>

definition etagMismatch :: "string \<Rightarrow> string \<Rightarrow> bool" where
  "etagMismatch currentEtag providedEtag \<longleftrightarrow> providedEtag \<noteq> [] \<and> currentEtag \<noteq> providedEtag"

definition ptr :: "string \<Rightarrow> string option" where
  "ptr s = (if s = [] then None else Some s)"

text \<open>\<open>setIamPolicy\<close> up to the comparison of the etags, and from there.\<close>

definition set_check :: "policy_db \<Rightarrow> string \<Rightarrow> policy_resource \<Rightarrow> string \<Rightarrow> string \<Rightarrow> (policy_error, unit) result \<times> policy_db" where
  "set_check db org rt res etag =
     (case getIamPolicy db org rt (ptr res) of
        (Inl e, db1) \<Rightarrow> (Inl e, db1)
      | (Inr (_, current), db1) \<Rightarrow> if etagMismatch current etag then (Inl ErrPolicyEtagMismatch, db1) else (Inr (), db1))"

definition set_write ::
  "policy_db \<Rightarrow> instant \<Rightarrow> string \<Rightarrow> policy_resource \<Rightarrow> string \<Rightarrow> Binding list \<Rightarrow>
   (policy_error, Binding list \<times> string) result \<times> policy_db" where
  "set_write db now org rt res policy =
     (case upsertIamPolicy db now org rt res policy of
        (Inl e, db1) \<Rightarrow> (Inl e, db1)
      | (Inr _, db1) \<Rightarrow> getIamPolicy db1 org rt (ptr res))"

definition setIamPolicy ::
  "policy_db \<Rightarrow> instant \<Rightarrow> string \<Rightarrow> policy_resource \<Rightarrow> string \<Rightarrow> Binding list \<Rightarrow> string \<Rightarrow>
   (policy_error, Binding list \<times> string) result \<times> policy_db" where
  "setIamPolicy db now org rt res policy etag =
     (case set_check db org rt res etag of
        (Inl e, db1) \<Rightarrow> (Inl e, db1)
      | (Inr _, db1) \<Rightarrow> set_write db1 now org rt res policy)"

definition PatchWorkspaceIamPolicy ::
  "(string \<Rightarrow> nat) \<Rightarrow> policy_db \<Rightarrow> instant \<Rightarrow> string \<Rightarrow> string \<Rightarrow> string list \<Rightarrow>
   (policy_error, Binding list \<times> string) result \<times> policy_db" where
  "PatchWorkspaceIamPolicy rank db now org member roles =
     (case getIamPolicy db org PolicyWORKSPACE None of
        (Inl e, db1) \<Rightarrow> (Inl e, db1)
      | (Inr (p, _), db1) \<Rightarrow> set_write db1 now org PolicyWORKSPACE [] (applyIamPolicyPatch rank p member roles))"

section \<open>Members of conversations\<close>

definition MemberTypeUser :: int where "MemberTypeUser = 1"
definition MemberTypeAgent :: int where "MemberTypeAgent = 2"
definition MemberRoleOwner :: int where "MemberRoleOwner = 1"
definition MemberRoleMember :: int where "MemberRoleMember = 2"
definition MemberRoleAdmin :: int where "MemberRoleAdmin = 3"

definition conversationMemberName :: "int \<Rightarrow> string \<Rightarrow> string" where
  "conversationMemberName memberType memberID =
     (if memberType = MemberTypeAgent then FormatAgentUID memberID else FormatUserHandle memberID)"

definition conversationRoleName :: "int \<Rightarrow> string" where
  "conversationRoleName role =
     (if role = MemberRoleOwner then FormatRole ''conversationOwner''
      else if role = MemberRoleAdmin then FormatRole ''conversationAdmin'' else FormatRole ''conversationMember'')"

definition conversationRoleFromName :: "string \<Rightarrow> int" where
  "conversationRoleFromName role =
     (if role = FormatRole ''conversationOwner'' then MemberRoleOwner
      else if role = FormatRole ''conversationAdmin'' then MemberRoleAdmin
      else if role = FormatRole ''conversationMember'' then MemberRoleMember else 0)"

text \<open>The row that is locked is looked up without its organization.\<close>

definition getConversationPolicyForUpdate :: "policy_db \<Rightarrow> string \<Rightarrow> (policy_error, Binding list) result" where
  "getConversationPolicyForUpdate db v =
     (if pd_fault db then Inl PolicySqlFailed
      else case find (\<lambda>p. pm_ResourceType p = PolicyCONVERSATION \<and> pm_Resource p = FormatConversationName v) (pd_rows db) of
        None \<Rightarrow> Inr []
      | Some p \<Rightarrow> (case pm_Payload p of None \<Rightarrow> Inl PolicyUnreadable | Some bs \<Rightarrow> Inr bs))"

definition upsertConversationPolicyTx :: "string \<Rightarrow> string \<Rightarrow> Binding list \<Rightarrow> instant \<Rightarrow> policy_db \<Rightarrow> policy_db" where
  "upsertConversationPolicyTx org v policy now db = upsertPolicyV2Impl org PolicyCONVERSATION (FormatConversationName v) policy now db"

definition upsertConversationMemberMetaTx :: "string \<Rightarrow> string \<Rightarrow> int \<Rightarrow> string \<Rightarrow> policy_db \<Rightarrow> policy_db" where
  "upsertConversationMemberMetaTx org v ty m db =
     (if list_ex (\<lambda>(_, v', ty', m'). v' = v \<and> ty' = ty \<and> m' = m) (pd_meta db) then db
      else db\<lparr>pd_meta := pd_meta db @ [(org, v, ty, m)]\<rparr>)"

definition deleteConversationMemberMetaTx :: "string \<Rightarrow> string \<Rightarrow> int \<Rightarrow> string \<Rightarrow> policy_db \<Rightarrow> policy_db" where
  "deleteConversationMemberMetaTx org v ty m db = db\<lparr>pd_meta := filter (\<lambda>x. x \<noteq> (org, v, ty, m)) (pd_meta db)\<rparr>"

definition patchConversationMemberRolesTx ::
  "(string \<Rightarrow> nat) \<Rightarrow> policy_db \<Rightarrow> instant \<Rightarrow> string \<Rightarrow> string \<Rightarrow> int \<Rightarrow> string \<Rightarrow> string list \<Rightarrow> (policy_error, policy_db) result" where
  "patchConversationMemberRolesTx rank db now org v ty m roles =
     (case getConversationPolicyForUpdate db v of
        Inl e \<Rightarrow> Inl e
      | Inr p \<Rightarrow> Inr (upsertConversationPolicyTx org v (applyIamPolicyPatch rank p (conversationMemberName ty m) roles) now db))"

definition addConversationMemberTx ::
  "policy_db \<Rightarrow> instant \<Rightarrow> string \<Rightarrow> string \<Rightarrow> int \<Rightarrow> string \<Rightarrow> int \<Rightarrow> string option \<Rightarrow> (policy_error, policy_db) result" where
  "addConversationMemberTx db now org v ty m role condition =
     (case getConversationPolicyForUpdate db v of
        Inl e \<Rightarrow> Inl e
      | Inr p \<Rightarrow> Inr (upsertConversationMemberMetaTx org v ty m
          (upsertConversationPolicyTx org v (add_with_condition p (conversationMemberName ty m) (conversationRoleName role) condition) now db)))"

text \<open>A transaction either commits and then drops the cached policy, or leaves everything as it was.
  The third part of a new member is the condition made of its expiry.\<close>

definition commit_conversation :: "string \<Rightarrow> string \<Rightarrow> policy_db \<Rightarrow> (policy_error, policy_db) result \<Rightarrow> (policy_error, unit) result \<times> policy_db" where
  "commit_conversation org v db r =
     (case r of
        Inl e \<Rightarrow> (Inl e, db)
      | Inr db1 \<Rightarrow> (Inr (), cache_remove (getPolicyCacheKey org PolicyCONVERSATION (FormatConversationName v)) db1))"

fun add_members_loop ::
  "policy_db \<Rightarrow> instant \<Rightarrow> string \<Rightarrow> string \<Rightarrow> (int \<times> string \<times> string option) list \<Rightarrow> (policy_error, policy_db) result" where
  "add_members_loop db now org v [] = Inr db"
| "add_members_loop db now org v ((ty, m, condition) # ms) =
     (case addConversationMemberTx db now org v ty m MemberRoleMember condition of
        Inl e \<Rightarrow> Inl e
      | Inr db1 \<Rightarrow> add_members_loop db1 now org v ms)"

definition AddConversationMembers ::
  "policy_db \<Rightarrow> instant \<Rightarrow> string \<Rightarrow> string \<Rightarrow> (int \<times> string \<times> string option) list \<Rightarrow> (policy_error, unit) result \<times> policy_db" where
  "AddConversationMembers db now org v ms = commit_conversation org v db (add_members_loop db now org v ms)"

definition RemoveConversationMember ::
  "(string \<Rightarrow> nat) \<Rightarrow> policy_db \<Rightarrow> instant \<Rightarrow> string \<Rightarrow> string \<Rightarrow> int \<Rightarrow> string \<Rightarrow> (policy_error, unit) result \<times> policy_db" where
  "RemoveConversationMember rank db now org v ty m =
     commit_conversation org v db
       (case patchConversationMemberRolesTx rank db now org v ty m [] of
          Inl e \<Rightarrow> Inl e
        | Inr db1 \<Rightarrow> Inr (deleteConversationMemberMetaTx org v ty m db1))"

definition policyContainsMember :: "Binding list \<Rightarrow> string \<Rightarrow> bool" where
  "policyContainsMember p member = list_ex (\<lambda>b. member \<in> set (bd_Members b)) p"

definition UpdateConversationMemberRole ::
  "(string \<Rightarrow> nat) \<Rightarrow> policy_db \<Rightarrow> instant \<Rightarrow> string \<Rightarrow> string \<Rightarrow> int \<Rightarrow> string \<Rightarrow> int \<Rightarrow> (policy_error, unit) result \<times> policy_db" where
  "UpdateConversationMemberRole rank db now org v ty m role =
     commit_conversation org v db
       (case getConversationPolicyForUpdate db v of
          Inl e \<Rightarrow> Inl e
        | Inr p \<Rightarrow>
            if \<not> policyContainsMember p (conversationMemberName ty m) then Inl ErrConversationMemberNotFound
            else Inr (upsertConversationMemberMetaTx org v ty m
              (upsertConversationPolicyTx org v (applyIamPolicyPatch rank p (conversationMemberName ty m) [conversationRoleName role]) now db)))"

definition TransferChannelOwnership ::
  "(string \<Rightarrow> nat) \<Rightarrow> policy_db \<Rightarrow> instant \<Rightarrow> string \<Rightarrow> string \<Rightarrow> string \<Rightarrow> string \<Rightarrow> int \<Rightarrow> (policy_error, unit) result \<times> policy_db" where
  "TransferChannelOwnership rank db now org v oldOwner newOwner newOwnerPrincipal =
     commit_conversation org v db
       (case patchConversationMemberRolesTx rank (db\<lparr>pd_owners := assoc_set v newOwnerPrincipal (pd_owners db)\<rparr>) now org v
               MemberTypeUser oldOwner [conversationRoleName MemberRoleMember] of
          Inl e \<Rightarrow> Inl e
        | Inr db1 \<Rightarrow>
            (case patchConversationMemberRolesTx rank db1 now org v MemberTypeUser newOwner [conversationRoleName MemberRoleOwner] of
               Inl e \<Rightarrow> Inl e
             | Inr db2 \<Rightarrow> Inr (upsertConversationMemberMetaTx org v MemberTypeUser newOwner
                 (upsertConversationMemberMetaTx org v MemberTypeUser oldOwner db2))))"

definition IsConversationMember :: "policy_db \<Rightarrow> string \<Rightarrow> string \<Rightarrow> int \<Rightarrow> string \<Rightarrow> (policy_error, bool) result" where
  "IsConversationMember db org v ty m =
     (case fst (getIamPolicy db org PolicyCONVERSATION (Some (FormatConversationName v))) of
        Inl e \<Rightarrow> Inl e
      | Inr (p, _) \<Rightarrow> Inr (policyContainsMember p (conversationMemberName ty m)))"

text \<open>The chat role of a member: that of the first binding with a built-in role that names it, 0
  when there is none.\<close>

definition chat_role :: "Binding list \<Rightarrow> string \<Rightarrow> int" where
  "chat_role p member =
     (case find (\<lambda>b. conversationRoleFromName (bd_Role b) \<noteq> 0 \<and> member \<in> set (bd_Members b)) p of
        None \<Rightarrow> 0 | Some b \<Rightarrow> conversationRoleFromName (bd_Role b))"

text \<open>The rows of the members go with the row of the conversation; the policy stays, and so does what is
  cached of it.\<close>

definition DeleteChannel :: "policy_db \<Rightarrow> string \<Rightarrow> (policy_error, unit) result \<times> policy_db" where
  "DeleteChannel db v =
     (if pd_fault db then (Inl PolicySqlFailed, db)
      else (Inr (), db\<lparr>pd_meta := filter (\<lambda>x. fst (snd x) \<noteq> v) (pd_meta db), pd_owners := assoc_del v (pd_owners db)\<rparr>))"

section \<open>Histories\<close>

datatype policy_op =
    POpGet string policy_resource "string option"
  | POpSet instant string policy_resource string "Binding list" string
  | POpPatch instant string string "string list"
  | POpAdd instant string string "(int \<times> string \<times> string option) list"
  | POpRemove instant string string int string
  | POpRole instant string string int string int
  | POpTransfer instant string string string string int
  | POpDeletePolicy "string option" string policy_resource string
  | POpDeleteChannel string
  | POpEvict string
  | POpFault bool

fun policy_step :: "(string \<Rightarrow> nat) \<Rightarrow> policy_db \<Rightarrow> policy_op \<Rightarrow> policy_db" where
  "policy_step rank db (POpGet org rt res) = snd (getIamPolicy db org rt res)"
| "policy_step rank db (POpSet now org rt res p etag) = snd (setIamPolicy db now org rt res p etag)"
| "policy_step rank db (POpPatch now org m roles) = snd (PatchWorkspaceIamPolicy rank db now org m roles)"
| "policy_step rank db (POpAdd now org v ms) = snd (AddConversationMembers db now org v ms)"
| "policy_step rank db (POpRemove now org v ty m) = snd (RemoveConversationMember rank db now org v ty m)"
| "policy_step rank db (POpRole now org v ty m role) = snd (UpdateConversationMemberRole rank db now org v ty m role)"
| "policy_step rank db (POpTransfer now org v old new who) = snd (TransferChannelOwnership rank db now org v old new who)"
| "policy_step rank db (POpDeletePolicy tenant org rt res) = snd (DeletePolicyV2 db tenant org rt res)"
| "policy_step rank db (POpDeleteChannel v) = snd (DeleteChannel db v)"
| "policy_step rank db (POpEvict k) = cache_remove k db"
| "policy_step rank db (POpFault f) = db\<lparr>pd_fault := f\<rparr>"


section \<open>Keys of the cache\<close>

definition tenant_key :: "string \<Rightarrow> string" where
  "tenant_key org = sanitizeTenantKey (if org = [] then ''default'' else org)"

lemma sanitized_safe: "c \<in> set (sanitizeTenantKey v) \<Longrightarrow> safe_key_char c"
proof -
  have "list_all safe_key_char ''default''" by code_simp
  then have d: "c \<in> set ''default'' \<Longrightarrow> safe_key_char c" for c unfolding list_all_iff by blast
  have k: "c \<in> set (concat (map key_char w)) \<Longrightarrow> safe_key_char c" for w c
    by (induction w) (auto simp: key_char_def safe_key_char_def split: if_splits)
  assume "c \<in> set (sanitizeTenantKey v)"
  then show ?thesis using d k by (auto simp only: sanitizeTenantKey_def Let_def split: if_splits)
qed

lemma tenant_key_no_colon: "CHR '':'' \<notin> set (tenant_key org)"
  using sanitized_safe [of "CHR '':''"] by (auto simp: tenant_key_def safe_key_char_def less_eq_char_def)

lemma append_sep: "x \<notin> set as \<Longrightarrow> x \<notin> set bs \<Longrightarrow> as @ x # cs = bs @ x # ds \<longleftrightarrow> as = bs \<and> cs = ds"
proof (induction as arbitrary: bs)
  case Nil
  then show ?case by (cases bs) auto
next
  case (Cons a as)
  then show ?case by (cases bs) auto
qed

lemma resource_string_inj: "resource_string a = resource_string b \<longleftrightarrow> a = b"
  by (cases a; cases b) simp_all

lemma key_inj:
  "getPolicyCacheKey org rt res = getPolicyCacheKey org' rt' res' \<longleftrightarrow> tenant_key org = tenant_key org' \<and> rt = rt' \<and> res = res'"
proof -
  have s: "CHR ''/'' \<notin> set (resource_string t)" for t by (cases t) simp_all
  have "getPolicyCacheKey o1 t r = ''org:'' @ tenant_key o1 @ CHR '':'' # ''policy:'' @ resource_string t @ CHR ''/'' # r @ ''/IAM''" for o1 t r
    by (simp add: getPolicyCacheKey_def TenantCacheKey_def tenant_key_def)
  then show ?thesis
    using append_sep [OF tenant_key_no_colon tenant_key_no_colon] append_sep [OF s s] by (simp add: resource_string_inj)
qed

section \<open>What every call keeps\<close>

definition row_key :: "PolicyMessage \<Rightarrow> string \<times> policy_resource \<times> string" where
  "row_key p = (pm_OrganizationID p, pm_ResourceType p, pm_Resource p)"

definition rows_unique :: "policy_db \<Rightarrow> bool" where
  "rows_unique db \<longleftrightarrow> distinct (map row_key (pd_rows db))"

definition coherent :: "string set \<Rightarrow> policy_db \<Rightarrow> bool" where
  "coherent orgs db \<longleftrightarrow> rows_unique db \<and>
     (\<forall>k v. map_of (pd_cache db) k = Some v \<longrightarrow>
        (\<exists>org rt res. org \<in> orgs \<and> k = getPolicyCacheKey org rt res \<and> v = find_row db org rt res))"

lemma is_row_key: "is_row org rt res p \<longleftrightarrow> row_key p = (org, rt, res)"
  by (auto simp: is_row_def row_key_def)

lemma find_row_in: "rows_unique db \<Longrightarrow> p \<in> set (pd_rows db) \<Longrightarrow> row_key p = (org, rt, res) \<Longrightarrow> find_row db org rt res = Some p"
  using distinct_inj_on_find [of row_key "pd_rows db" p] by (simp add: rows_unique_def find_row_def is_row_key [abs_def])

lemma find_row_None: "find_row db org rt res = None \<longleftrightarrow> (\<forall>p\<in>set (pd_rows db). row_key p \<noteq> (org, rt, res))"
  by (auto simp: find_row_def find_None_iff is_row_key)

text \<open>A write at one key.\<close>

definition writes_at :: "string \<Rightarrow> policy_resource \<Rightarrow> string \<Rightarrow> policy_db \<Rightarrow> policy_db \<Rightarrow> bool" where
  "writes_at org rt res db db' \<longleftrightarrow> rows_unique db' \<and> pd_cache db' = pd_cache db \<and>
     (\<forall>o' t' r'. (o', t', r') \<noteq> (org, rt, res) \<longrightarrow> find_row db' o' t' r' = find_row db o' t' r')"

lemma writes_at_refl: "rows_unique db \<Longrightarrow> writes_at org rt res db db"
  by (simp add: writes_at_def)

lemma writes_at_trans: "writes_at org rt res a b \<Longrightarrow> writes_at org rt res b c \<Longrightarrow> writes_at org rt res a c"
  by (simp add: writes_at_def)

lemma writes_at_tables:
  "rows_unique (db\<lparr>pd_meta := m\<rparr>) = rows_unique db" "rows_unique (db\<lparr>pd_owners := w\<rparr>) = rows_unique db"
  "find_row (db\<lparr>pd_meta := m\<rparr>) = find_row db" "find_row (db\<lparr>pd_owners := w\<rparr>) = find_row db"
  "find_row (db\<lparr>pd_cache := c\<rparr>) = find_row db" "rows_unique (db\<lparr>pd_cache := c\<rparr>) = rows_unique db"
  by (auto simp: rows_unique_def find_row_def fun_eq_iff)

lemma upsert_rows:
  assumes "rows_unique db"
  shows "writes_at org rt res db (upsertPolicyV2Impl org rt res p now db)"
    and "find_row (upsertPolicyV2Impl org rt res p now db) org rt res =
      Some \<lparr>pm_OrganizationID = org, pm_ResourceType = rt, pm_Resource = res, pm_Payload = Some p, pm_UpdatedAt = now\<rparr>"
proof -
  let ?row = "\<lparr>pm_OrganizationID = org, pm_ResourceType = rt, pm_Resource = res, pm_Payload = Some p, pm_UpdatedAt = now\<rparr>"
  let ?db = "upsertPolicyV2Impl org rt res p now db"
  have keys: "map row_key (update_first (is_row org rt res) (\<lambda>_. ?row) rows) = map row_key rows" for rows
    by (induction rows) (auto simp: is_row_def row_key_def)
  have u: "rows_unique ?db"
    using assms keys by (auto simp: upsertPolicyV2Impl_def rows_unique_def Let_def list_ex_iff is_row_key row_key_def)
  have "find (is_row o' t' r') (update_first (is_row org rt res) (\<lambda>_. ?row) rows) = find (is_row o' t' r') rows"
    if "(o', t', r') \<noteq> (org, rt, res)" for o' t' r' rows
    using that by (induction rows) (auto simp: is_row_def)
  then have "find_row ?db o' t' r' = find_row db o' t' r'" if "(o', t', r') \<noteq> (org, rt, res)" for o' t' r'
    using that by (auto simp: upsertPolicyV2Impl_def find_row_def Let_def find_append is_row_def split: option.split)
  then show "writes_at org rt res db ?db" using u by (simp add: writes_at_def) (simp add: upsertPolicyV2Impl_def Let_def)
  have "find (is_row org rt res) (update_first (is_row org rt res) (\<lambda>_. ?row) rows) = Some ?row" if "list_ex (is_row org rt res) rows" for rows
    using that by (induction rows) (auto simp: is_row_def)
  moreover have "find (is_row org rt res) (rows @ [?row]) = Some ?row" if "\<not> list_ex (is_row org rt res) rows" for rows
    using that by (induction rows) (auto simp: is_row_def)
  ultimately show "find_row ?db org rt res = Some ?row" by (simp add: upsertPolicyV2Impl_def find_row_def Let_def)
qed

lemma coherent_write:
  assumes "coherent orgs db" and "writes_at org rt res db db'" and "org \<in> orgs" and "v = None \<or> v = Some (find_row db' org rt res)"
  shows "coherent orgs (case v of None \<Rightarrow> cache_remove (getPolicyCacheKey org rt res) db' | Some w \<Rightarrow> cache_add (getPolicyCacheKey org rt res) w db')"
proof -
  let ?k = "getPolicyCacheKey org rt res"
  define c where "c = (case v of None \<Rightarrow> assoc_del ?k (pd_cache db) | Some w \<Rightarrow> assoc_set ?k w (pd_cache db))"
  have eq: "(case v of None \<Rightarrow> cache_remove ?k db' | Some w \<Rightarrow> cache_add ?k w db') = db'\<lparr>pd_cache := c\<rparr>"
    using assms(2) by (simp add: c_def cache_remove_def cache_add_def writes_at_def split: option.split)
  have "\<exists>o' t' r'. o' \<in> orgs \<and> k = getPolicyCacheKey o' t' r' \<and> w = find_row db' o' t' r'" if "map_of c k = Some w" for k w
  proof (cases "k = ?k")
    case True
    then have "w = find_row db' org rt res" using that assms(4) by (auto simp: c_def split: option.splits)
    then show ?thesis using True assms(3) by blast
  next
    case False
    then have "map_of (pd_cache db) k = Some w" using that by (simp add: c_def split: option.splits)
    then obtain o' t' r' where r: "o' \<in> orgs" "k = getPolicyCacheKey o' t' r'" "w = find_row db o' t' r'"
      using assms(1) unfolding coherent_def by blast
    then have "(o', t', r') \<noteq> (org, rt, res)" using False by auto
    then have "find_row db' o' t' r' = w" using assms(2) r(3) by (simp add: writes_at_def)
    then show ?thesis using r by blast
  qed
  then show ?thesis using assms(2) unfolding eq coherent_def writes_at_tables by (simp add: writes_at_def)
qed

lemma coherent_remember:
  assumes "coherent orgs db" and "org \<in> orgs" and "find_row db org rt res = v"
  shows "coherent orgs (cache_add (getPolicyCacheKey org rt res) v db)"
  using coherent_write [OF assms(1) writes_at_refl assms(2), where v = "Some v" and rt = rt and res = res] assms(1,3)
  by (simp add: coherent_def)

lemma listPolicy_Some: "rows_unique db \<Longrightarrow> listPolicyImplV2 db org rt (Some res) = (case find_row db org rt res of None \<Rightarrow> [] | Some p \<Rightarrow> [p])"
proof -
  have "distinct (map row_key rows) \<Longrightarrow> filter (\<lambda>p. row_key p = (org, rt, res)) rows = (case find (\<lambda>p. row_key p = (org, rt, res)) rows of None \<Rightarrow> [] | Some p \<Rightarrow> [p])" for rows
  proof (induction rows)
    case (Cons a rows)
    have "find (\<lambda>p. row_key p = (org, rt, res)) rows = None" if "row_key a = (org, rt, res)"
      using Cons.prems that by (auto simp: find_None_iff image_iff)
    then show ?case using Cons by (cases "row_key a = (org, rt, res)") simp_all
  qed simp
  moreover have "(\<lambda>p. pm_OrganizationID p = org \<and> pm_ResourceType p = rt \<and> pm_Resource p = res) = (\<lambda>p. row_key p = (org, rt, res))"
    by (auto simp: row_key_def)
  ultimately show "rows_unique db \<Longrightarrow> ?thesis" by (simp add: listPolicyImplV2_def rows_unique_def find_row_def is_row_key [abs_def])
qed

lemma GetPolicyV2_current:
  assumes "coherent orgs db" and "org \<in> orgs" and "fst (GetPolicyV2 db org rt (Some res)) = Inr v" and "inj_on tenant_key orgs"
  shows "v = find_row db org rt res"
proof (cases "cached_policy db org rt (Some res)")
  case None
  have "rows_unique db" using assms(1) by (simp add: coherent_def)
  then show ?thesis using None assms(3)
    by (cases "find_row db org rt res"; cases "pd_fault db") (simp_all add: GetPolicyV2_def listPolicy_Some)
next
  case (Some w)
  then have "map_of (pd_cache db) (getPolicyCacheKey org rt res) = Some w" by (auto simp: cached_policy_def split: if_splits)
  then obtain o' t' r' where r: "o' \<in> orgs" "getPolicyCacheKey org rt res = getPolicyCacheKey o' t' r'" "w = find_row db o' t' r'"
    using assms(1) unfolding coherent_def by blast
  then have "w = find_row db org rt res" using key_inj [of org rt res o' t' r'] inj_onD [OF assms(4) _ assms(2), of o'] by simp
  then show ?thesis using Some assms(3) by (simp add: GetPolicyV2_def)
qed


lemma coherent_get [inv_rules]:
  assumes "coherent orgs db" and "org \<in> orgs"
  shows "coherent orgs (snd (GetPolicyV2 db org rt res))"
proof (cases "cached_policy db org rt res = None \<and> \<not> pd_fault db")
  case True
  have u: "rows_unique db" using assms(1) by (simp add: coherent_def)
  show ?thesis
  proof (cases "listPolicyImplV2 db org rt res")
    case Nil
    have "find_row db org rt r = None" if "res = Some r" for r
      using Nil that by (auto simp: listPolicyImplV2_def filter_empty_conv find_row_None row_key_def)
    then have "coherent orgs (remember_policy db org rt res None)"
      using coherent_remember [OF assms, of rt _ None] assms(1) by (cases res) (simp_all add: remember_policy_def)
    then show ?thesis using True Nil by (simp add: GetPolicyV2_def)
  next
    case (Cons p ps)
    have "p \<in> set (listPolicyImplV2 db org rt res)" using Cons by simp
    then have p: "p \<in> set (pd_rows db)" "pm_OrganizationID p = org" "pm_ResourceType p = rt" by (auto simp: listPolicyImplV2_def)
    then have "find_row db org rt (pm_Resource p) = Some p" using find_row_in [OF u p(1)] by (simp add: row_key_def)
    from coherent_remember [OF assms this] have "coherent orgs (remember_policy db org rt res (Some p))" by (simp add: remember_policy_def p)
    then show ?thesis using True Cons assms(1) by (cases ps) (simp_all add: GetPolicyV2_def)
  qed
next
  case False
  then show ?thesis using assms(1) by (auto simp: GetPolicyV2_def split: option.split)
qed

lemma snd_getIamPolicy: "snd (getIamPolicy db org rt res) = snd (GetPolicyV2 db org rt res)"
  by (simp add: getIamPolicy_def split: prod.split sum.split option.split)

lemma snd_set_check: "snd (set_check db org rt res etag) = snd (GetPolicyV2 db org rt (ptr res))"
  by (simp add: set_check_def snd_getIamPolicy [symmetric] split: prod.split sum.split)

lemma coherent_set_write [inv_rules]:
  assumes "coherent orgs db" and "org \<in> orgs"
  shows "coherent orgs (snd (set_write db now org rt res p))"
proof -
  have u: "rows_unique db" using assms(1) by (simp add: coherent_def)
  let ?db = "upsertPolicyV2Impl org rt res p now db"
  have "coherent orgs (cache_add (getPolicyCacheKey org rt res) (find_row ?db org rt res) ?db)"
    using coherent_write [OF assms(1) upsert_rows(1) [OF u] assms(2), where v = "Some (find_row ?db org rt res)" and rt = rt and res = res] by simp
  then have "coherent orgs (snd (upsertIamPolicy db now org rt res p))"
    using assms(1) by (simp add: upsertIamPolicy_def upsert_rows(2) [OF u])
  then show ?thesis using coherent_get [OF _ assms(2)]
    by (cases "upsertIamPolicy db now org rt res p") (auto simp: set_write_def snd_getIamPolicy split: sum.split)
qed

lemma coherent_set [inv_rules]:
  assumes "coherent orgs db" and "org \<in> orgs"
  shows "coherent orgs (snd (setIamPolicy db now org rt res p etag))" and "coherent orgs (snd (PatchWorkspaceIamPolicy rank db now org m roles))"
proof -
  have c: "coherent orgs (snd (set_check db org rt res etag))" using coherent_get [OF assms] by (simp add: snd_set_check)
  then show "coherent orgs (snd (setIamPolicy db now org rt res p etag))"
    using coherent_set_write [OF c assms(2)] by (cases "set_check db org rt res etag") (auto simp: setIamPolicy_def split: sum.split)
  have g: "coherent orgs (snd (getIamPolicy db org PolicyWORKSPACE None))" using coherent_get [OF assms] by (simp add: snd_getIamPolicy)
  then show "coherent orgs (snd (PatchWorkspaceIamPolicy rank db now org m roles))"
    using coherent_set_write [OF g assms(2)]
    by (cases "getIamPolicy db org PolicyWORKSPACE None") (auto simp: PatchWorkspaceIamPolicy_def split: sum.split)
qed

lemma coherent_delete [inv_rules]:
  assumes "coherent orgs db" and "org \<in> orgs"
  shows "coherent orgs (snd (delete_policy db org rt res))"
proof -
  let ?db = "db\<lparr>pd_rows := filter (\<lambda>p. \<not> is_row org rt res p) (pd_rows db)\<rparr>"
  have u: "rows_unique db" using assms(1) by (simp add: coherent_def)
  have "find (is_row o' t' r') (filter (\<lambda>p. \<not> is_row org rt res p) rows) = find (is_row o' t' r') rows"
    if "(o', t', r') \<noteq> (org, rt, res)" for o' t' r' rows
    using that by (induction rows) (auto simp: is_row_def)
  then have "find_row ?db o' t' r' = find_row db o' t' r'" if "(o', t', r') \<noteq> (org, rt, res)" for o' t' r'
    using that by (simp add: find_row_def)
  moreover have "rows_unique ?db" using u by (simp add: rows_unique_def distinct_map_filter)
  ultimately have "writes_at org rt res db ?db" by (simp add: writes_at_def)
  from coherent_write [OF assms(1) this assms(2), of None] show ?thesis using assms(1) by (simp add: delete_policy_def)
qed

lemma coherent_delete_call [inv_rules]:
  "coherent orgs db \<Longrightarrow> policy_organization tenant org \<in> orgs \<Longrightarrow> coherent orgs (snd (DeletePolicyV2 db tenant org rt res))"
  by (simp add: DeletePolicyV2_def Let_def coherent_delete)

lemma coherent_channel [inv_rules]: "coherent orgs db \<Longrightarrow> coherent orgs (snd (DeleteChannel db v))"
  by (simp add: DeleteChannel_def coherent_def writes_at_tables)

text \<open>A transaction on a conversation writes the row of that conversation and tables that are not
  cached.\<close>

lemma writes_meta: "writes_at org rt res db db' \<Longrightarrow> writes_at org rt res db (upsertConversationMemberMetaTx o' v ty m db')"
  "writes_at org rt res db db' \<Longrightarrow> writes_at org rt res db (deleteConversationMemberMetaTx o' v ty m db')"
  by (simp_all add: upsertConversationMemberMetaTx_def deleteConversationMemberMetaTx_def writes_at_def writes_at_tables)

lemma writes_conversation:
  "rows_unique db \<Longrightarrow> writes_at org PolicyCONVERSATION (FormatConversationName v) db (upsertConversationPolicyTx org v p now db)"
  by (simp add: upsertConversationPolicyTx_def upsert_rows(1))

lemma writes_patch:
  "rows_unique db \<Longrightarrow> patchConversationMemberRolesTx rank db now org v ty m roles = Inr db' \<Longrightarrow>
   writes_at org PolicyCONVERSATION (FormatConversationName v) db db'"
  by (auto simp: patchConversationMemberRolesTx_def writes_conversation split: sum.splits)

lemma writes_add:
  "rows_unique db \<Longrightarrow> addConversationMemberTx db now org v ty m role c = Inr db' \<Longrightarrow>
   writes_at org PolicyCONVERSATION (FormatConversationName v) db db'"
  by (auto simp: addConversationMemberTx_def writes_meta writes_conversation split: sum.splits)

lemma writes_add_loop:
  "rows_unique db \<Longrightarrow> add_members_loop db now org v ms = Inr db' \<Longrightarrow> writes_at org PolicyCONVERSATION (FormatConversationName v) db db'"
proof (induction ms arbitrary: db)
  case (Cons x ms)
  obtain ty m c where x: "x = (ty, m, c)" by (cases x)
  obtain db1 where db1: "addConversationMemberTx db now org v ty m MemberRoleMember c = Inr db1" "add_members_loop db1 now org v ms = Inr db'"
    using Cons.prems(2) by (auto simp: x split: sum.splits)
  have w: "writes_at org PolicyCONVERSATION (FormatConversationName v) db db1" by (rule writes_add [OF Cons.prems(1) db1(1)])
  then have "rows_unique db1" by (simp add: writes_at_def)
  from writes_at_trans [OF w Cons.IH [OF this db1(2)]] show ?case .
qed (simp add: writes_at_refl)

lemma coherent_commit:
  assumes "coherent orgs db" and "org \<in> orgs" and "\<And>db'. r = Inr db' \<Longrightarrow> writes_at org PolicyCONVERSATION (FormatConversationName v) db db'"
  shows "coherent orgs (snd (commit_conversation org v db r))"
proof (cases r)
  case (Inr db')
  then show ?thesis
    using coherent_write [OF assms(1) assms(3) [OF Inr] assms(2), of None] by (simp add: commit_conversation_def)
qed (simp add: commit_conversation_def assms(1))

lemma coherent_members [inv_rules]:
  assumes "coherent orgs db" and "org \<in> orgs"
  shows "coherent orgs (snd (AddConversationMembers db now org v ms))"
    and "coherent orgs (snd (RemoveConversationMember rank db now org v ty m))"
    and "coherent orgs (snd (UpdateConversationMemberRole rank db now org v ty m role))"
    and "coherent orgs (snd (TransferChannelOwnership rank db now org v old new who))"
proof -
  have u: "rows_unique db" using assms(1) by (simp add: coherent_def)
  show "coherent orgs (snd (AddConversationMembers db now org v ms))"
    unfolding AddConversationMembers_def by (rule coherent_commit [OF assms writes_add_loop [OF u]])
  show "coherent orgs (snd (RemoveConversationMember rank db now org v ty m))"
    unfolding RemoveConversationMember_def
    by (rule coherent_commit [OF assms]) (auto simp: writes_meta writes_patch [OF u] split: sum.splits)
  show "coherent orgs (snd (UpdateConversationMemberRole rank db now org v ty m role))"
    unfolding UpdateConversationMemberRole_def
    by (rule coherent_commit [OF assms]) (auto simp: writes_meta writes_conversation [OF u] split: sum.splits if_splits)
  show "coherent orgs (snd (TransferChannelOwnership rank db now org v old new who))"
    unfolding TransferChannelOwnership_def
  proof (rule coherent_commit [OF assms], goal_cases)
    case (1 db')
    let ?db = "db\<lparr>pd_owners := assoc_set v who (pd_owners db)\<rparr>"
    obtain db1 db2 where p: "patchConversationMemberRolesTx rank ?db now org v MemberTypeUser old [conversationRoleName MemberRoleMember] = Inr db1"
      "patchConversationMemberRolesTx rank db1 now org v MemberTypeUser new [conversationRoleName MemberRoleOwner] = Inr db2"
      "db' = upsertConversationMemberMetaTx org v MemberTypeUser new (upsertConversationMemberMetaTx org v MemberTypeUser old db2)"
      using 1 by (auto split: sum.splits)
    have w1: "writes_at org PolicyCONVERSATION (FormatConversationName v) ?db db1" using u by (intro writes_patch [OF _ p(1)]) (simp add: writes_at_tables)
    then have "rows_unique db1" by (simp add: writes_at_def)
    from writes_at_trans [OF w1 writes_patch [OF this p(2)]]
    have "writes_at org PolicyCONVERSATION (FormatConversationName v) db db2" by (simp add: writes_at_def writes_at_tables)
    then show ?case unfolding p(3) by (intro writes_meta)
  qed
qed


section \<open>Members and their list\<close>

text \<open>\<open>home v\<close> is the organization of conversation \<open>v\<close>; \<open>D\<close> are conversations that may have been deleted.\<close>

definition conv_bindings :: "(string \<Rightarrow> string) \<Rightarrow> policy_db \<Rightarrow> string \<Rightarrow> Binding list" where
  "conv_bindings home db v =
     (case find_row db (home v) PolicyCONVERSATION (FormatConversationName v) of
        None \<Rightarrow> [] | Some p \<Rightarrow> (case pm_Payload p of None \<Rightarrow> [] | Some bs \<Rightarrow> bs))"

definition conversation_row :: "(string \<Rightarrow> string) \<Rightarrow> PolicyMessage \<Rightarrow> bool" where
  "conversation_row home p \<longleftrightarrow> (\<exists>v bs. pm_Resource p = FormatConversationName v \<and> pm_OrganizationID p = home v \<and>
     pm_Payload p = Some bs \<and> members_distinct bs)"

definition shape :: "(string \<Rightarrow> string) \<Rightarrow> policy_db \<Rightarrow> bool" where
  "shape home db \<longleftrightarrow> rows_unique db \<and> (\<forall>p\<in>set (pd_rows db). pm_ResourceType p = PolicyCONVERSATION \<longrightarrow> conversation_row home p)"

definition listed :: "(string \<Rightarrow> string) \<Rightarrow> policy_db \<Rightarrow> string \<Rightarrow> int \<Rightarrow> string \<Rightarrow> bool" where
  "listed home db v ty m \<longleftrightarrow> (home v, v, ty, m) \<in> set (pd_meta db)"

definition known_type :: "int \<Rightarrow> bool" where
  "known_type ty \<longleftrightarrow> ty = MemberTypeUser \<or> ty = MemberTypeAgent"

definition agree :: "(string \<Rightarrow> string) \<Rightarrow> string set \<Rightarrow> policy_db \<Rightarrow> bool" where
  "agree home D db \<longleftrightarrow> shape home db \<and> (\<forall>x\<in>set (pd_meta db). fst x = home (fst (snd x))) \<and>
     (\<forall>v ty m. v \<notin> D \<longrightarrow> known_type ty \<longrightarrow>
        (listed home db v ty m \<longleftrightarrow> policyContainsMember (conv_bindings home db v) (conversationMemberName ty m)))"

lemma contains_iff: "policyContainsMember p x \<longleftrightarrow> (\<exists>r. binds_member p r x)"
  by (auto simp: policyContainsMember_def binds_member_def list_ex_iff)

lemma contains_patch:
  "members_distinct p \<Longrightarrow> policyContainsMember (applyIamPolicyPatch rank p m roles) x \<longleftrightarrow> (if x = m then roles \<noteq> [] else policyContainsMember p x)"
  by (cases roles) (auto simp: contains_iff applyIamPolicyPatch_spec)

lemma contains_add:
  "members_distinct p \<Longrightarrow> policyContainsMember (add_with_condition p m role c) x \<longleftrightarrow> x = m \<or> policyContainsMember p x"
  using add_with_condition_spec(1,2) [where policy = p and member = m and role = role and condition = c] by (cases "x = m") (auto simp: contains_iff)

lemma member_name_inj:
  "known_type ty \<Longrightarrow> known_type ty' \<Longrightarrow>
   conversationMemberName ty m = conversationMemberName ty' m' \<longleftrightarrow> ty = ty' \<and> m = m'"
  by (auto simp: known_type_def conversationMemberName_def MemberTypeUser_def MemberTypeAgent_def FormatAgentUID_def FormatUserHandle_def)

lemma find_row_row: "find_row db org rt res = Some p \<Longrightarrow> p \<in> set (pd_rows db) \<and> row_key p = (org, rt, res)"
  by (auto simp: find_row_def is_row_key find_Some_iff)

lemma shape_bindings: "shape home db \<Longrightarrow> members_distinct (conv_bindings home db v)"
  by (auto simp: shape_def conv_bindings_def conversation_row_def row_key_def split: option.split dest!: find_row_row)

lemma shape_for_update:
  assumes "shape home db" and "getConversationPolicyForUpdate db v = Inr p"
  shows "p = conv_bindings home db v"
proof -
  have iff: "(pm_ResourceType p = PolicyCONVERSATION \<and> pm_Resource p = FormatConversationName v)
      \<longleftrightarrow> is_row (home v) PolicyCONVERSATION (FormatConversationName v) p" if "p \<in> set (pd_rows db)" for p
    using assms(1) that by (auto simp: shape_def conversation_row_def is_row_def FormatConversationName_def)
  have "find (\<lambda>p. pm_ResourceType p = PolicyCONVERSATION \<and> pm_Resource p = FormatConversationName v) (pd_rows db)
      = find_row db (home v) PolicyCONVERSATION (FormatConversationName v)"
    unfolding find_row_def by (rule find_cong [OF refl iff])
  then show ?thesis using assms(2)
    by (auto simp: getConversationPolicyForUpdate_def conv_bindings_def split: option.splits if_splits)
qed

lemma upsert_in_rows:
  "x \<in> set (pd_rows (upsertPolicyV2Impl org rt res p now db)) \<Longrightarrow>
   x \<in> set (pd_rows db) \<or> x = \<lparr>pm_OrganizationID = org, pm_ResourceType = rt, pm_Resource = res, pm_Payload = Some p, pm_UpdatedAt = now\<rparr>"
  by (auto simp: upsertPolicyV2Impl_def Let_def split: if_splits dest: set_update_first)

lemma shape_upsert:
  assumes "shape home db" and "members_distinct p"
  shows "shape home (upsertConversationPolicyTx (home v) v p now db)"
    and "conv_bindings home (upsertConversationPolicyTx (home v) v p now db) w = (if w = v then p else conv_bindings home db w)"
proof -
  have u: "rows_unique db" using assms(1) by (simp add: shape_def)
  note w = upsert_rows [OF u, of "home v" PolicyCONVERSATION "FormatConversationName v" p now, folded upsertConversationPolicyTx_def]
  show "shape home (upsertConversationPolicyTx (home v) v p now db)"
    using assms w(1) unfolding shape_def upsertConversationPolicyTx_def
    by (auto simp: writes_at_def conversation_row_def dest!: upsert_in_rows)
  show "conv_bindings home (upsertConversationPolicyTx (home v) v p now db) w = (if w = v then p else conv_bindings home db w)"
    using w by (simp add: conv_bindings_def writes_at_def FormatConversationName_def)
qed

lemma shape_other:
  assumes "shape home db" and "rt \<noteq> PolicyCONVERSATION"
  shows "shape home (upsertPolicyV2Impl org rt res p now db)"
    and "conv_bindings home (upsertPolicyV2Impl org rt res p now db) v = conv_bindings home db v"
proof -
  have u: "rows_unique db" using assms(1) by (simp add: shape_def)
  note w = upsert_rows(1) [OF u, of org rt res p now]
  show "shape home (upsertPolicyV2Impl org rt res p now db)"
    using assms w unfolding shape_def by (auto simp: writes_at_def dest!: upsert_in_rows)
  show "conv_bindings home (upsertPolicyV2Impl org rt res p now db) v = conv_bindings home db v"
    using w assms(2) by (simp add: conv_bindings_def writes_at_def)
qed

text \<open>Tables a write does not touch.\<close>

lemma meta_of_upsert [simp]: "pd_meta (upsertPolicyV2Impl org rt res p now db) = pd_meta db"
  "pd_meta (upsertConversationPolicyTx org v p now db) = pd_meta db"
  by (simp_all add: upsertPolicyV2Impl_def upsertConversationPolicyTx_def Let_def)

lemma shape_tables [simp]:
  "shape home (db\<lparr>pd_meta := x\<rparr>) = shape home db" "shape home (db\<lparr>pd_cache := c\<rparr>) = shape home db" "shape home (db\<lparr>pd_owners := w\<rparr>) = shape home db"
  "conv_bindings home (db\<lparr>pd_meta := x\<rparr>) v = conv_bindings home db v" "conv_bindings home (db\<lparr>pd_cache := c\<rparr>) v = conv_bindings home db v"
  "conv_bindings home (db\<lparr>pd_owners := w\<rparr>) v = conv_bindings home db v"
  by (simp_all add: shape_def conv_bindings_def writes_at_tables)

lemma agree_cache: "agree home D (db\<lparr>pd_cache := c\<rparr>) = agree home D db"
  by (simp add: agree_def listed_def)

text \<open>A transaction that binds or unbinds a member and lists or unlists it accordingly.\<close>

lemma agree_tx:
  assumes "agree home D db" and "shape home db1" and "\<And>w. w \<noteq> v \<Longrightarrow> conv_bindings home db1 w = conv_bindings home db w"
    and "\<And>ty m. v \<notin> D \<Longrightarrow> known_type ty \<Longrightarrow> listed home db1 v ty m \<longleftrightarrow> policyContainsMember (conv_bindings home db1 v) (conversationMemberName ty m)"
    and "\<And>x. fst (snd x) \<noteq> v \<Longrightarrow> x \<in> set (pd_meta db1) \<longleftrightarrow> x \<in> set (pd_meta db)"
    and "\<And>x. x \<in> set (pd_meta db1) \<Longrightarrow> fst (snd x) = v \<Longrightarrow> fst x = home v"
  shows "agree home D db1"
proof -
  have "fst x = home (fst (snd x))" if "x \<in> set (pd_meta db1)" for x
    using assms(1,5,6) that by (cases "fst (snd x) = v") (auto simp: agree_def)
  moreover have "listed home db1 w ty m \<longleftrightarrow> policyContainsMember (conv_bindings home db1 w) (conversationMemberName ty m)"
    if "w \<notin> D" "known_type ty" for w ty m
  proof (cases "w = v")
    case False
    then show ?thesis using assms(1,3) assms(5) [of "(home w, w, ty, m)"] that unfolding agree_def listed_def by simp
  qed (use assms(4) that in simp)
  ultimately show ?thesis using assms(2) by (simp add: agree_def)
qed

lemma meta_upsert:
  assumes "\<forall>x\<in>set (pd_meta db). fst x = home (fst (snd x))"
  shows "set (pd_meta (upsertConversationMemberMetaTx (home v) v ty m db)) = insert (home v, v, ty, m) (set (pd_meta db))"
  using assms by (force simp: upsertConversationMemberMetaTx_def list_ex_iff)

lemma shape_meta [simp]:
  "shape home (upsertConversationMemberMetaTx org v ty m db) = shape home db"
  "conv_bindings home (upsertConversationMemberMetaTx org v ty m db) w = conv_bindings home db w"
  "shape home (deleteConversationMemberMetaTx org v ty m db) = shape home db"
  "conv_bindings home (deleteConversationMemberMetaTx org v ty m db) w = conv_bindings home db w"
  by (simp_all add: upsertConversationMemberMetaTx_def deleteConversationMemberMetaTx_def)


lemma agree_add:
  assumes "agree home D db" and "known_type ty" and "addConversationMemberTx db now (home v) v ty m role c = Inr db1"
  shows "agree home D db1"
proof -
  let ?p = "add_with_condition (conv_bindings home db v) (conversationMemberName ty m) (conversationRoleName role) c"
  let ?db = "upsertConversationPolicyTx (home v) v ?p now db"
  have sh: "shape home db" and meta: "\<forall>x\<in>set (pd_meta ?db). fst x = home (fst (snd x))" using assms(1) by (simp_all add: agree_def)
  note d = shape_bindings [OF sh, of v]
  note up = shape_upsert [OF sh add_with_condition_spec(3) [OF d], where v = v and now = now]
  have db1: "db1 = upsertConversationMemberMetaTx (home v) v ty m ?db"
    using assms(3) shape_for_update [OF sh, of v] by (auto simp: addConversationMemberTx_def split: sum.splits)
  note set = meta_upsert [OF meta, of v ty m, folded db1]
  show ?thesis
  proof (rule agree_tx [OF assms(1), of _ v])
    show "shape home db1" "w \<noteq> v \<Longrightarrow> conv_bindings home db1 w = conv_bindings home db w" for w using up by (simp_all add: db1)
    show "listed home db1 v ty' m' \<longleftrightarrow> policyContainsMember (conv_bindings home db1 v) (conversationMemberName ty' m')" if "v \<notin> D" "known_type ty'" for ty' m'
    proof -
      have "listed home db1 v ty' m' \<longleftrightarrow> ty' = ty \<and> m' = m \<or> listed home db v ty' m'" by (auto simp: listed_def set)
      moreover have "conv_bindings home db1 v = ?p" using up by (simp add: db1)
      ultimately show ?thesis using that assms(1,2) contains_add [OF d] member_name_inj [OF that(2) assms(2)] by (simp add: agree_def)
    qed
    show "fst (snd x) \<noteq> v \<Longrightarrow> x \<in> set (pd_meta db1) \<longleftrightarrow> x \<in> set (pd_meta db)" for x using set by (cases x) simp
    show "x \<in> set (pd_meta db1) \<Longrightarrow> fst (snd x) = v \<Longrightarrow> fst x = home v" for x using set meta by (cases x) auto
  qed
qed

lemma agree_add_loop:
  "agree home D db \<Longrightarrow> list_all (\<lambda>x. known_type (fst x)) ms \<Longrightarrow> add_members_loop db now (home v) v ms = Inr db1 \<Longrightarrow> agree home D db1"
proof (induction ms arbitrary: db)
  case (Cons x ms)
  obtain ty m c where x: "x = (ty, m, c)" by (cases x)
  obtain db2 where "addConversationMemberTx db now (home v) v ty m MemberRoleMember c = Inr db2" "add_members_loop db2 now (home v) v ms = Inr db1"
    using Cons.prems(3) by (auto simp: x split: sum.splits)
  then show ?case using Cons agree_add by (fastforce simp: x)
qed simp

lemma agree_patch:
  assumes "agree home D db" and "known_type ty" and "db1 = upsertConversationPolicyTx (home v) v
      (applyIamPolicyPatch rank (conv_bindings home db v) (conversationMemberName ty m) roles) now db"
  shows "roles = [] \<Longrightarrow> agree home D (deleteConversationMemberMetaTx (home v) v ty m db1)"
    and "roles \<noteq> [] \<Longrightarrow> agree home D (upsertConversationMemberMetaTx (home v) v ty m db1)"
proof -
  let ?p = "applyIamPolicyPatch rank (conv_bindings home db v) (conversationMemberName ty m) roles"
  have sh: "shape home db" and meta: "\<forall>x\<in>set (pd_meta db1). fst x = home (fst (snd x))" using assms(1) by (simp_all add: agree_def assms(3))
  note d = shape_bindings [OF sh, of v]
  note up = shape_upsert [OF sh applyIamPolicyPatch_spec(3) [OF d], where v = v and now = now]
  have b: "shape home db1" "conv_bindings home db1 v = ?p" "w \<noteq> v \<Longrightarrow> conv_bindings home db1 w = conv_bindings home db w" for w
    using up by (simp_all add: assms(3))
  have m0: "pd_meta db1 = pd_meta db" by (simp add: assms(3))
  have old: "listed home db v ty' m' \<longleftrightarrow> policyContainsMember (conv_bindings home db v) (conversationMemberName ty' m')"
    if "v \<notin> D" "known_type ty'" for ty' m'
    using assms(1) that by (simp add: agree_def)
  have new: "policyContainsMember ?p (conversationMemberName ty' m') \<longleftrightarrow> (if ty' = ty \<and> m' = m then roles \<noteq> [] else listed home db v ty' m')"
    if "v \<notin> D" "known_type ty'" for ty' m'
    using old [OF that] contains_patch [OF d] member_name_inj [OF that(2) assms(2)] by simp
  { let ?db = "deleteConversationMemberMetaTx (home v) v ty m db1"
    assume r: "roles = []"
    have set: "set (pd_meta ?db) = set (pd_meta db) - {(home v, v, ty, m)}" by (auto simp: deleteConversationMemberMetaTx_def m0)
    show "agree home D ?db"
      by (rule agree_tx [OF assms(1), of _ v]) (use b new r set meta m0 in \<open>auto simp: listed_def\<close>) }
  { let ?db = "upsertConversationMemberMetaTx (home v) v ty m db1"
    assume r: "roles \<noteq> []"
    have set: "set (pd_meta ?db) = insert (home v, v, ty, m) (set (pd_meta db))" using meta_upsert [OF meta] m0 by simp
    show "agree home D ?db"
      by (rule agree_tx [OF assms(1), of _ v]) (use b new r set meta m0 in \<open>auto simp: listed_def\<close>) }
qed


lemma meta_commutes: "upsertConversationMemberMetaTx org v ty m (upsertConversationPolicyTx org' w p now db)
    = upsertConversationPolicyTx org' w p now (upsertConversationMemberMetaTx org v ty m db)"
  by (simp add: upsertConversationMemberMetaTx_def upsertConversationPolicyTx_def upsertPolicyV2Impl_def Let_def)

lemma patchTx_shape:
  "shape home db \<Longrightarrow> patchConversationMemberRolesTx rank db now (home v) v ty m roles = Inr db1 \<Longrightarrow>
   db1 = upsertConversationPolicyTx (home v) v (applyIamPolicyPatch rank (conv_bindings home db v) (conversationMemberName ty m) roles) now db"
  using shape_for_update [of home db v] by (auto simp: patchConversationMemberRolesTx_def split: sum.splits)

lemma agree_owners: "agree home D (db\<lparr>pd_owners := w\<rparr>) = agree home D db"
  by (simp add: agree_def listed_def)

lemma agree_commit: "agree home D db \<Longrightarrow> (\<And>db1. r = Inr db1 \<Longrightarrow> agree home D db1) \<Longrightarrow> agree home D (snd (commit_conversation org v db r))"
  by (cases r) (simp_all add: commit_conversation_def cache_remove_def agree_cache)

lemma agree_members [inv_rules]:
  assumes "agree home D db"
  shows "list_all (\<lambda>x. known_type (fst x)) ms \<Longrightarrow> agree home D (snd (AddConversationMembers db now (home v) v ms))"
    and "known_type ty \<Longrightarrow> agree home D (snd (RemoveConversationMember rank db now (home v) v ty m))"
    and "known_type ty \<Longrightarrow> agree home D (snd (UpdateConversationMemberRole rank db now (home v) v ty m role))"
    and "agree home D (snd (TransferChannelOwnership rank db now (home v) v old new who))"
proof -
  have sh: "shape home db" using assms by (simp add: agree_def)
  show "list_all (\<lambda>x. known_type (fst x)) ms \<Longrightarrow> agree home D (snd (AddConversationMembers db now (home v) v ms))"
    unfolding AddConversationMembers_def by (rule agree_commit [OF assms]) (rule agree_add_loop [OF assms])
  show "known_type ty \<Longrightarrow> agree home D (snd (RemoveConversationMember rank db now (home v) v ty m))"
    unfolding RemoveConversationMember_def
    by (rule agree_commit [OF assms]) (auto split: sum.splits intro!: agree_patch(1) [OF assms _ patchTx_shape [OF sh]])
  show "known_type ty \<Longrightarrow> agree home D (snd (UpdateConversationMemberRole rank db now (home v) v ty m role))"
    unfolding UpdateConversationMemberRole_def
    by (rule agree_commit [OF assms])
      (auto split: sum.splits if_splits dest: shape_for_update [OF sh] intro!: agree_patch(2) [OF assms])
  show "agree home D (snd (TransferChannelOwnership rank db now (home v) v old new who))"
    unfolding TransferChannelOwnership_def
  proof (rule agree_commit [OF assms], goal_cases)
    case (1 db')
    let ?db = "db\<lparr>pd_owners := assoc_set v who (pd_owners db)\<rparr>"
    obtain db1 db2 where p: "patchConversationMemberRolesTx rank ?db now (home v) v MemberTypeUser old [conversationRoleName MemberRoleMember] = Inr db1"
      "patchConversationMemberRolesTx rank db1 now (home v) v MemberTypeUser new [conversationRoleName MemberRoleOwner] = Inr db2"
      "db' = upsertConversationMemberMetaTx (home v) v MemberTypeUser new (upsertConversationMemberMetaTx (home v) v MemberTypeUser old db2)"
      using 1 by (auto split: sum.splits)
    have a: "agree home D ?db" and sh: "shape home ?db" using assms sh by (simp_all add: agree_owners)
    let ?db1 = "upsertConversationMemberMetaTx (home v) v MemberTypeUser old db1"
    have k: "known_type MemberTypeUser" by (simp add: known_type_def)
    have a1: "agree home D ?db1" by (rule agree_patch(2) [OF a k patchTx_shape [OF sh p(1)]]) simp
    then have sh1: "shape home db1" by (simp add: agree_def)
    have "upsertConversationMemberMetaTx (home v) v MemberTypeUser old db2 = upsertConversationPolicyTx (home v) v
        (applyIamPolicyPatch rank (conv_bindings home ?db1 v) (conversationMemberName MemberTypeUser new) [conversationRoleName MemberRoleOwner]) now ?db1"
      by (simp add: patchTx_shape [OF sh1 p(2)] meta_commutes)
    from agree_patch(2) [OF a1 k this] show ?case by (simp add: p(3))
  qed
qed

lemma agree_get: "agree home D db \<Longrightarrow> agree home D (snd (GetPolicyV2 db org rt res))"
  by (auto simp: GetPolicyV2_def remember_policy_def cache_add_def agree_cache split: option.split list.split)

lemma agree_set_write:
  assumes "agree home D db" and "rt \<noteq> PolicyCONVERSATION"
  shows "agree home D (snd (set_write db now org rt res p))"
proof -
  have "agree home D (upsertPolicyV2Impl org rt res p now db)"
    using assms shape_other [OF _ assms(2)] by (auto simp: agree_def listed_def)
  then have "agree home D (snd (upsertIamPolicy db now org rt res p))" using assms(1) by (simp add: upsertIamPolicy_def cache_add_def agree_cache)
  then show ?thesis using agree_get
    by (cases "upsertIamPolicy db now org rt res p") (auto simp: set_write_def snd_getIamPolicy split: sum.split)
qed

lemma agree_set [inv_rules]:
  assumes "agree home D db"
  shows "rt \<noteq> PolicyCONVERSATION \<Longrightarrow> agree home D (snd (setIamPolicy db now org rt res p etag))"
    and "agree home D (snd (PatchWorkspaceIamPolicy rank db now org m roles))"
proof -
  have c: "agree home D (snd (set_check db org rt res etag))" using agree_get [OF assms] by (simp add: snd_set_check)
  show "rt \<noteq> PolicyCONVERSATION \<Longrightarrow> agree home D (snd (setIamPolicy db now org rt res p etag))"
    using c agree_set_write [OF c] by (cases "set_check db org rt res etag") (auto simp: setIamPolicy_def split: sum.split)
  have g: "agree home D (snd (getIamPolicy db org PolicyWORKSPACE None))" using agree_get [OF assms] by (simp add: snd_getIamPolicy)
  then show "agree home D (snd (PatchWorkspaceIamPolicy rank db now org m roles))"
    using agree_set_write [OF g]
    by (cases "getIamPolicy db org PolicyWORKSPACE None") (auto simp: PatchWorkspaceIamPolicy_def split: sum.split)
qed

lemma agree_delete:
  assumes "agree home D db" and "rt \<noteq> PolicyCONVERSATION"
  shows "agree home D (snd (delete_policy db org rt res))"
proof -
  let ?db = "db\<lparr>pd_rows := filter (\<lambda>p. \<not> is_row org rt res p) (pd_rows db)\<rparr>"
  have "find (is_row o' PolicyCONVERSATION r) (filter (\<lambda>p. \<not> is_row org rt res p) rows) = find (is_row o' PolicyCONVERSATION r) rows" for o' r rows
    using assms(2) by (induction rows) (auto simp: is_row_def)
  then have "conv_bindings home ?db v = conv_bindings home db v" for v by (simp add: conv_bindings_def find_row_def)
  moreover have "shape home ?db" using assms(1) by (simp add: agree_def shape_def rows_unique_def distinct_map_filter)
  ultimately have "agree home D ?db" using assms(1) by (simp add: agree_def listed_def)
  then show ?thesis using assms(1) by (simp add: delete_policy_def cache_remove_def agree_cache)
qed

lemma agree_delete_call:
  "agree home D db \<Longrightarrow> rt \<noteq> PolicyCONVERSATION \<Longrightarrow> agree home D (snd (DeletePolicyV2 db tenant org rt res))"
  by (simp add: DeletePolicyV2_def Let_def agree_delete)

lemma agree_channel: "agree home D db \<Longrightarrow> v \<in> D \<Longrightarrow> agree home D (snd (DeleteChannel db v))"
  by (auto simp: DeleteChannel_def agree_def listed_def)

section \<open>Histories of whole calls\<close>

text \<open>The organization a call is made for.\<close>

fun op_org :: "policy_op \<Rightarrow> string option" where
  "op_org (POpGet org rt res) = Some org"
| "op_org (POpSet now org rt res p etag) = Some org"
| "op_org (POpPatch now org m roles) = Some org"
| "op_org (POpAdd now org v ms) = Some org"
| "op_org (POpRemove now org v ty m) = Some org"
| "op_org (POpRole now org v ty m role) = Some org"
| "op_org (POpTransfer now org v old new who) = Some org"
| "op_org (POpDeletePolicy tenant org rt res) = Some (policy_organization tenant org)"
| "op_org _ = None"

text \<open>What the services call for: only the policies of workspaces, agents and machines are set as a
  whole or deleted; members are users or agents; and each call on a conversation comes from
  the organization of the conversation. \<open>D\<close> are the conversations that are deleted.\<close>

fun policy_legal :: "(string \<Rightarrow> string) \<Rightarrow> string set \<Rightarrow> policy_op \<Rightarrow> bool" where
  "policy_legal home D (POpSet now org rt res p etag) \<longleftrightarrow> rt \<in> {PolicyWORKSPACE, PolicyAGENT, PolicyMACHINE}"
| "policy_legal home D (POpDeletePolicy tenant org rt res) \<longleftrightarrow> rt \<in> {PolicyWORKSPACE, PolicyAGENT, PolicyMACHINE}"
| "policy_legal home D (POpAdd now org v ms) \<longleftrightarrow> org = home v \<and> list_all (\<lambda>x. known_type (fst x)) ms"
| "policy_legal home D (POpRemove now org v ty m) \<longleftrightarrow> org = home v \<and> known_type ty"
| "policy_legal home D (POpRole now org v ty m role) \<longleftrightarrow> org = home v \<and> known_type ty"
| "policy_legal home D (POpTransfer now org v old new who) \<longleftrightarrow> org = home v"
| "policy_legal home D (POpDeleteChannel v) \<longleftrightarrow> v \<in> D"
| "policy_legal home D _ \<longleftrightarrow> True"

definition no_policies :: "policy_db \<Rightarrow> bool" where
  "no_policies db \<longleftrightarrow> pd_rows db = [] \<and> pd_cache db = [] \<and> pd_meta db = []"

lemma coherent_remove: "coherent orgs db \<Longrightarrow> coherent orgs (cache_remove k db)"
  unfolding coherent_def cache_remove_def by (simp add: writes_at_tables)

lemma agree_remove: "agree home D (cache_remove k db) = agree home D db"
  by (simp add: cache_remove_def agree_cache)

lemma policy_fault: "coherent orgs (db\<lparr>pd_fault := f\<rparr>) = coherent orgs db" "agree home D (db\<lparr>pd_fault := f\<rparr>) = agree home D db"
  by (simp_all add: coherent_def rows_unique_def find_row_def agree_def shape_def listed_def conv_bindings_def)

lemma coherent_start: "no_policies db \<Longrightarrow> coherent orgs db"
  by (simp add: no_policies_def coherent_def rows_unique_def)

lemma agree_start: "no_policies db \<Longrightarrow> agree home D db"
  by (simp add: no_policies_def agree_def rows_unique_def shape_def listed_def conv_bindings_def find_row_def policyContainsMember_def)

lemma coherent_step: "coherent orgs db \<Longrightarrow> set_option (op_org op) \<subseteq> orgs \<Longrightarrow> coherent orgs (policy_step rank db op)"
  by (cases op) (auto simp: inv_rules snd_getIamPolicy coherent_remove policy_fault)

lemma agree_step: "agree home D db \<Longrightarrow> policy_legal home D op \<Longrightarrow> agree home D (policy_step rank db op)"
  by (cases op) (auto simp: inv_rules snd_getIamPolicy agree_get agree_remove policy_fault agree_delete_call agree_channel)

interpretation policy_cache: component "policy_step rank" "coherent orgs" "\<lambda>op. set_option (op_org op) \<subseteq> orgs" no_policies
  for rank orgs
  by unfold_locales (auto intro: coherent_start coherent_step)

interpretation policy_members: component "policy_step rank" "agree home D" "policy_legal home D" no_policies
  for rank home D
  by unfold_locales (auto intro: agree_start agree_step)

section \<open>Properties\<close>

text \<open>C38: What a patch does to a policy in which no binding lists anybody twice: the member is bound to
  exactly the roles the patch names, to each of them once, under the condition of the first
  binding the policy had for the role, or under none if it had no such binding; for everybody
  else every binding stays as it was, role and condition included; no binding is left empty,
  and none lists anybody twice. The order in which the new bindings are made does not matter.\<close>

theorem patch_sets_roles:
  assumes "\<forall>b\<in>set policy. distinct (bd_Members b)"
  shows "(\<forall>r c. bound_under (applyIamPolicyPatch rank policy member roles) r c member \<longleftrightarrow>
      r \<in> set roles \<and> c = (case find (\<lambda>b. bd_Role b = r) policy of None \<Rightarrow> None | Some b \<Rightarrow> bd_Condition b)) \<and>
    (\<forall>r c x. x \<noteq> member \<longrightarrow> bound_under (applyIamPolicyPatch rank policy member roles) r c x = bound_under policy r c x) \<and>
    (\<forall>b\<in>set (applyIamPolicyPatch rank policy member roles). bd_Members b \<noteq> [] \<and> distinct (bd_Members b))"
proof -
  have d: "members_distinct policy" using assms by (simp add: members_distinct_def)
  have "\<forall>b\<in>set (applyIamPolicyPatch rank policy member roles). bd_Members b \<noteq> []"
    by (cases "patch_bindings member (remdups roles) policy") (auto simp: applyIamPolicyPatch_def reap_def)
  then show ?thesis using applyIamPolicyPatch_bound [OF d] by (auto simp: members_distinct_def first_condition_def)
qed

theorem patch_sets_roles_witness:
  "let p = applyIamPolicyPatch length [\<lparr>bd_Role = ''roles/a'', bd_Members = [''users/x'', ''users/y''], bd_Condition = Some ''t''\<rparr>]
         ''users/x'' [''roles/b'']
   in bound_under p ''roles/b'' None ''users/x'' \<and> \<not> bound_under p ''roles/a'' (Some ''t'') ''users/x'' \<and>
      bound_under p ''roles/a'' (Some ''t'') ''users/y''"
  using patch_sets_roles [of "[\<lparr>bd_Role = ''roles/a'', bd_Members = [''users/x'', ''users/y''], bd_Condition = Some ''t''\<rparr>]" length "''users/x''" "[''roles/b'']"]
  by simp

text \<open>The hypothesis is needed, and nothing that sets a policy checks it: of a member listed twice, one
  entry survives the patch that takes the role away.\<close>

theorem duplicate_member_keeps_role:
  "binds_member (applyIamPolicyPatch length [\<lparr>bd_Role = ''roles/a'', bd_Members = [''users/x'', ''users/x''], bd_Condition = None\<rparr>]
     ''users/x'' []) ''roles/a'' ''users/x''"
  by code_simp

text \<open>C15: Every read is current, in a process whose calls do not overlap: whatever calls it made before,
  with their cached rows and misses, evictions, deletions and database faults, the policy it
  gets for a resource is the one of the table. The one condition is on the organizations the
  calls are made for: no two of them have ids that become the same cache key.\<close>

theorem policy_reads_current:
  assumes "no_policies db0" and "db = foldl (policy_step rank) db0 ops"
    and "\<forall>op\<in>set ops. set_option (op_org op) \<subseteq> orgs" and "org \<in> orgs" and "inj_on tenant_key orgs"
    and "fst (GetPolicyV2 db org rt (Some res)) = Inr v"
  shows "v = find (\<lambda>p. pm_OrganizationID p = org \<and> pm_ResourceType p = rt \<and> pm_Resource p = res) (pd_rows db)"
proof -
  have "coherent orgs db" unfolding assms(2) by (rule policy_cache.invar_history [OF assms(1,3)])
  from GetPolicyV2_current [OF this assms(4,6,5)] show ?thesis by (simp add: find_row_def is_row_def [abs_def])
qed

definition sample_policy_db :: policy_db where
  "sample_policy_db = \<lparr>pd_fault = False, pd_enableCache = True, pd_rows = [], pd_cache = [], pd_meta = [], pd_owners = []\<rparr>"

theorem policy_reads_current_witness:
  "fst (GetPolicyV2 (foldl (policy_step length) sample_policy_db
      [POpGet ''acme'' PolicyAGENT (Some ''agents/a''), POpSet 7 ''acme'' PolicyAGENT ''agents/a'' [] []]) ''acme'' PolicyAGENT (Some ''agents/a''))
    = Inr (Some \<lparr>pm_OrganizationID = ''acme'', pm_ResourceType = PolicyAGENT, pm_Resource = ''agents/a'', pm_Payload = Some [], pm_UpdatedAt = 7\<rparr>)"
proof -
  let ?ops = "[POpGet ''acme'' PolicyAGENT (Some ''agents/a''), POpSet 7 ''acme'' PolicyAGENT ''agents/a'' [] []]"
  have n: "no_policies sample_policy_db" by (simp add: no_policies_def sample_policy_db_def)
  have l: "\<forall>op\<in>set ?ops. set_option (op_org op) \<subseteq> {''acme''}" and i: "inj_on tenant_key {''acme''}" by simp_all
  have "isl (fst (GetPolicyV2 (foldl (policy_step length) sample_policy_db ?ops) ''acme'' PolicyAGENT (Some ''agents/a''))) = False" by code_simp
  then obtain v where v: "fst (GetPolicyV2 (foldl (policy_step length) sample_policy_db ?ops) ''acme'' PolicyAGENT (Some ''agents/a'')) = Inr v"
    by (auto simp: isl_def simp del: foldl.simps) (metis sum.exhaust_sel)
  have "pd_rows (foldl (policy_step length) sample_policy_db ?ops) =
      [\<lparr>pm_OrganizationID = ''acme'', pm_ResourceType = PolicyAGENT, pm_Resource = ''agents/a'', pm_Payload = Some [], pm_UpdatedAt = 7\<rparr>]" by code_simp
  then show ?thesis using policy_reads_current [OF n refl l _ i v] unfolding v by simp
qed

text \<open>C35: The list of the members of a conversation and its policy agree: after any history of calls,
  database faults included, in which each call on a conversation is made for the organization
  the conversation belongs to, members are users or agents and policies of conversations
  are not set as a whole, somebody is listed in a conversation that was not deleted exactly
  when a binding of its policy names him.\<close>

theorem members_listed_iff_bound:
  assumes "no_policies db0" and "\<forall>op\<in>set ops. policy_legal home D op" and "db = foldl (policy_step rank) db0 ops" and "v \<notin> D"
    and "ty = MemberTypeUser \<or> ty = MemberTypeAgent" and "getConversationPolicyForUpdate db v = Inr p"
  shows "(home v, v, ty, m) \<in> set (pd_meta db) \<longleftrightarrow> policyContainsMember p (conversationMemberName ty m)"
proof -
  have a: "agree home D db" unfolding assms(3) by (rule policy_members.invar_history [OF assms(1,2)])
  then have "p = conv_bindings home db v" using shape_for_update assms(6) by (simp add: agree_def)
  then show ?thesis using a assms(4,5) by (auto simp: agree_def listed_def known_type_def)
qed

theorem members_listed_iff_bound_witness:
  "policyContainsMember [\<lparr>bd_Role = ''roles/conversationMember'', bd_Members = [''agents/a''], bd_Condition = None\<rparr>] ''agents/a'' \<and>
   \<not> policyContainsMember [\<lparr>bd_Role = ''roles/conversationMember'', bd_Members = [''agents/a''], bd_Condition = None\<rparr>] ''users/u''"
proof -
  let ?ops = "[POpAdd 1 ''acme'' ''v'' [(1, ''u'', None), (2, ''a'', None)], POpRemove 2 ''acme'' ''v'' 1 ''u'',
    POpAdd 3 ''acme'' ''w'' [(1, ''u'', None)], POpDeleteChannel ''w'']"
  let ?db = "foldl (policy_step length) sample_policy_db ?ops"
  have n: "no_policies sample_policy_db" by (simp add: no_policies_def sample_policy_db_def)
  have l: "\<forall>op\<in>set ?ops. policy_legal (\<lambda>_. ''acme'') {''w''} op" by (simp add: known_type_def MemberTypeUser_def MemberTypeAgent_def)
  have g: "getConversationPolicyForUpdate ?db ''v'' = Inr [\<lparr>bd_Role = ''roles/conversationMember'', bd_Members = [''agents/a''], bd_Condition = None\<rparr>]"
    by code_simp
  have meta: "pd_meta ?db = [(''acme'', ''v'', 2, ''a'')]" by code_simp
  have u: "1 = MemberTypeUser \<or> 1 = MemberTypeAgent" "2 = MemberTypeUser \<or> 2 = MemberTypeAgent" by (simp_all add: MemberTypeUser_def MemberTypeAgent_def)
  have w: "''v'' \<notin> {''w''}" by simp
  show ?thesis
    using members_listed_iff_bound [OF n l refl w u(1) g, of "''u''"] members_listed_iff_bound [OF n l refl w u(2) g, of "''a''"]
    unfolding meta by (simp add: conversationMemberName_def MemberTypeAgent_def FormatAgentUID_def FormatUserHandle_def)
qed

text \<open>The members of a deleted channel stay bound: their rows are gone, but the policy that names them,
  and grants by it, is left.\<close>

theorem deleted_channel_keeps_policy:
  "let db = foldl (policy_step length) sample_policy_db [POpAdd 1 ''acme'' ''v'' [(1, ''u'', None)], POpDeleteChannel ''v'']
   in pd_meta db = [] \<and> IsConversationMember db ''acme'' ''v'' MemberTypeUser ''u'' = Inr True"
  by code_simp

text \<open>The etag does not guard a policy against a concurrent write: between the comparison of the
  etags and the write nothing is locked, so two calls that both read the same etag both
  succeed, and nothing is left of what the first one wrote.\<close>

theorem concurrent_sets_lose_update:
  assumes "set_check db org rt res etag = (Inr (), db1)" and "set_check db1 org rt res etag = (Inr (), db2)"
    and "set_write db2 now org rt res p = (Inr a, db3)" and "set_write db3 now' org rt res q = (Inr b, db4)"
    and "rows_unique db"
  shows "find_row db4 org rt res =
    Some \<lparr>pm_OrganizationID = org, pm_ResourceType = rt, pm_Resource = res, pm_Payload = Some q, pm_UpdatedAt = now'\<rparr>"
proof -
  have g: "rows_unique (snd (GetPolicyV2 d o' t r)) = rows_unique d" "find_row (snd (GetPolicyV2 d o' t r)) = find_row d" for d o' t r
    by (auto simp: GetPolicyV2_def remember_policy_def cache_add_def writes_at_tables split: option.split list.split)
  have c: "rows_unique (snd (set_check d org rt res etag)) = rows_unique d" for d
    by (simp add: snd_set_check g)
  have u2: "rows_unique db2" using assms(1,2,5) c by (metis snd_conv)
  have w: "rows_unique d' \<and> find_row d' org rt res =
      Some \<lparr>pm_OrganizationID = org, pm_ResourceType = rt, pm_Resource = res, pm_Payload = Some x, pm_UpdatedAt = t\<rparr>"
    if "rows_unique d" "set_write d t org rt res x = (Inr y, d')" for d t x y d'
  proof -
    let ?u = "cache_add (getPolicyCacheKey org rt res)
      (Some \<lparr>pm_OrganizationID = org, pm_ResourceType = rt, pm_Resource = res, pm_Payload = Some x, pm_UpdatedAt = t\<rparr>)
      (upsertPolicyV2Impl org rt res x t d)"
    have "\<not> pd_fault d" and d': "d' = snd (GetPolicyV2 ?u org rt (ptr res))"
      using that(2) snd_getIamPolicy [of ?u org rt "ptr res"] by (auto simp: set_write_def upsertIamPolicy_def split: if_splits)
    then show ?thesis using upsert_rows [OF that(1), of org rt res x t] g by (simp add: cache_add_def writes_at_tables writes_at_def)
  qed
  show ?thesis using w [OF u2 assms(3)] w [of db3, OF _ assms(4)] by blast
qed


theorem concurrent_sets_lose_update_witness:
  "let p = [\<lparr>bd_Role = ''roles/a'', bd_Members = [''users/x''], bd_Condition = None\<rparr>];
       q = [\<lparr>bd_Role = ''roles/b'', bd_Members = [''users/y''], bd_Condition = None\<rparr>];
       db = policy_step length sample_policy_db (POpSet (5 * millisecond) ''acme'' PolicyAGENT ''agents/a'' [] []);
       db2 = snd (set_check (snd (set_check db ''acme'' PolicyAGENT ''agents/a'' ''5'')) ''acme'' PolicyAGENT ''agents/a'' ''5'')
   in find_row (snd (set_write (snd (set_write db2 (6 * millisecond) ''acme'' PolicyAGENT ''agents/a'' p)) (7 * millisecond) ''acme'' PolicyAGENT ''agents/a'' q))
        ''acme'' PolicyAGENT ''agents/a'' =
      Some \<lparr>pm_OrganizationID = ''acme'', pm_ResourceType = PolicyAGENT, pm_Resource = ''agents/a'', pm_Payload = Some q, pm_UpdatedAt = 7 * millisecond\<rparr>"
proof -
  define db where "db = policy_step length sample_policy_db (POpSet (5 * millisecond) ''acme'' PolicyAGENT ''agents/a'' [] [])"
  define p where "p = [\<lparr>bd_Role = ''roles/a'', bd_Members = [''users/x''], bd_Condition = None\<rparr>]"
  define q where "q = [\<lparr>bd_Role = ''roles/b'', bd_Members = [''users/y''], bd_Condition = None\<rparr>]"
  define db1 where "db1 = snd (set_check db ''acme'' PolicyAGENT ''agents/a'' ''5'')"
  define db2 where "db2 = snd (set_check db1 ''acme'' PolicyAGENT ''agents/a'' ''5'')"
  define db3 where "db3 = snd (set_write db2 (6 * millisecond) ''acme'' PolicyAGENT ''agents/a'' p)"
  note defs = db_def p_def q_def db1_def db2_def db3_def
  have "fst (set_check db ''acme'' PolicyAGENT ''agents/a'' ''5'') = Inr ()" unfolding defs by code_simp
  then have 1: "set_check db ''acme'' PolicyAGENT ''agents/a'' ''5'' = (Inr (), db1)" unfolding db1_def by (metis prod.collapse)
  have "fst (set_check db1 ''acme'' PolicyAGENT ''agents/a'' ''5'') = Inr ()" unfolding defs by code_simp
  then have 2: "set_check db1 ''acme'' PolicyAGENT ''agents/a'' ''5'' = (Inr (), db2)" unfolding db2_def by (metis prod.collapse)
  have "fst (set_write db2 (6 * millisecond) ''acme'' PolicyAGENT ''agents/a'' p) = Inr (p, ''6'')" unfolding defs by code_simp
  then have 3: "set_write db2 (6 * millisecond) ''acme'' PolicyAGENT ''agents/a'' p = (Inr (p, ''6''), db3)" unfolding db3_def by (metis prod.collapse)
  have "fst (set_write db3 (7 * millisecond) ''acme'' PolicyAGENT ''agents/a'' q) = Inr (q, ''7'')" unfolding defs by code_simp
  then have 4: "set_write db3 (7 * millisecond) ''acme'' PolicyAGENT ''agents/a'' q
      = (Inr (q, ''7''), snd (set_write db3 (7 * millisecond) ''acme'' PolicyAGENT ''agents/a'' q))" by (metis prod.collapse)
  have "rows_unique db" unfolding defs by code_simp
  from concurrent_sets_lose_update [OF 1 2 3 4 this] show ?thesis
    unfolding Let_def db_def [symmetric] p_def [symmetric] q_def [symmetric] db1_def [symmetric] db2_def [symmetric] db3_def [symmetric] .
qed

text \<open>A read that overlaps a write can leave the old policy in the cache: it reads the row, the write
  commits and caches the new one, and the read then stores what it had read. From then on every
  call of the process gets the old policy, and a grant that was taken away is still there,
  until the entry is evicted or the policy written again.\<close>

theorem stale_policy_stays_cached:
  assumes "listPolicyImplV2 db org rt (Some res) = [old]" and "set_write db now org rt res new = (Inr a, db1)"
    and "pd_enableCache db"
  shows "fst (GetPolicyV2 (remember_policy db1 org rt (Some res) (Some old)) org rt (Some res)) = Inr (Some old)"
proof -
  have "old \<in> set (listPolicyImplV2 db org rt (Some res))" using assms(1) by simp
  then have o: "pm_ResourceType old = rt" "pm_Resource old = res" by (auto simp: listPolicyImplV2_def)
  have "pd_enableCache (snd (GetPolicyV2 d org rt r)) = pd_enableCache d" for d r
    by (auto simp: GetPolicyV2_def remember_policy_def cache_add_def split: option.split list.split)
  then have "pd_enableCache db1" using assms(2,3) snd_getIamPolicy [of _ org rt "ptr res"]
    by (auto simp: set_write_def upsertIamPolicy_def upsertPolicyV2Impl_def cache_add_def Let_def split: if_splits dest!: arg_cong [where f = snd])
  then show ?thesis by (simp add: remember_policy_def o cache_add_def GetPolicyV2_def cached_policy_def)
qed

text \<open>Organizations whose ids differ only in characters that a cache key replaces share their cached
  policies: the second one is answered with the policy of the first.\<close>

theorem sanitized_orgs_share_cache:
  "let db = policy_step length sample_policy_db (POpSet 5 ''acme/eu'' PolicyAGENT ''agents/a''
         [\<lparr>bd_Role = ''roles/a'', bd_Members = [''users/x''], bd_Condition = None\<rparr>] [])
   in find_row db ''acme_eu'' PolicyAGENT ''agents/a'' = None \<and>
      (\<exists>etag. fst (getIamPolicy db ''acme_eu'' PolicyAGENT (Some ''agents/a'')) =
        Inr ([\<lparr>bd_Role = ''roles/a'', bd_Members = [''users/x''], bd_Condition = None\<rparr>], etag))"
proof -
  let ?db = "policy_step length sample_policy_db (POpSet 5 ''acme/eu'' PolicyAGENT ''agents/a''
         [\<lparr>bd_Role = ''roles/a'', bd_Members = [''users/x''], bd_Condition = None\<rparr>] [])"
  have "find_row ?db ''acme_eu'' PolicyAGENT ''agents/a'' = None" by code_simp
  moreover have "fst (getIamPolicy ?db ''acme_eu'' PolicyAGENT (Some ''agents/a'')) =
      Inr ([\<lparr>bd_Role = ''roles/a'', bd_Members = [''users/x''], bd_Condition = None\<rparr>], ''0'')" by code_simp
  ultimately show ?thesis unfolding Let_def by blast
qed

text \<open>A transfer of ownership puts the old owner into the first binding of the member role, also when
  that binding is one of a temporary member: after the other's membership expired, the former
  owner has no valid binding, although nobody limited his membership.\<close>

theorem former_owner_inherits_expiry:
  "let db = foldl (policy_step length) sample_policy_db
         [POpAdd 1 ''acme'' ''v'' [(1, ''temp'', Some ''expired''), (1, ''boss'', None), (1, ''next'', None)],
          POpRole 2 ''acme'' ''v'' 1 ''boss'' 1, POpTransfer 3 ''acme'' ''v'' ''boss'' ''next'' 7]
   in case getConversationPolicyForUpdate db ''v'' of
        Inl _ \<Rightarrow> False
      | Inr p \<Rightarrow> policyContainsMember p ''users/boss'' \<and>
          \<not> policyContainsMember (filter (validateIAMBinding (\<lambda>_ _. CelBool False) 9) p) ''users/boss''"
  by code_simp

text \<open>Two transfers by the same owner that overlap, each checked before either was made, leave a
  channel with two owners.\<close>

theorem two_transfers_two_owners:
  "let db = foldl (policy_step length) sample_policy_db
         [POpAdd 1 ''acme'' ''v'' [(1, ''boss'', None), (1, ''b'', None), (1, ''c'', None)], POpRole 2 ''acme'' ''v'' 1 ''boss'' 1,
          POpTransfer 3 ''acme'' ''v'' ''boss'' ''b'' 7, POpTransfer 4 ''acme'' ''v'' ''boss'' ''c'' 8]
   in case getConversationPolicyForUpdate db ''v'' of
        Inl _ \<Rightarrow> False
      | Inr p \<Rightarrow> chat_role p ''users/b'' = MemberRoleOwner \<and> chat_role p ''users/c'' = MemberRoleOwner"
  by code_simp

end
