(* ===== verification/Iam_Manager.thy ===== *)
theory Iam_Manager
  imports Iam_Policy "HOL-Library.List_Lexorder"
begin

text \<open>
  The check of permissions, \<open>backend/manager/component/iam/manager.go\<close> and \<open>object_permission.go\<close>, with
  the matching of callers and bindings of \<open>backend/manager/utils/member.go\<close>, the predefined roles of
  \<open>backend/manager/store/predefined_roles.go\<close> and the catalog of \<open>backend/common/permission\<close>. The
  tables a check reads are a record; a query may fail, by a fault function. Policies are those
  of theory \<open>Iam_Policy\<close>; what a read leaves in its cache does not matter here. The cache
  of custom roles is not modelled: a role is read from its table. The parser of UUIDs, the
  evaluator of conditions and the lookup of a user by id are arguments, as fields of the
  record. The records of users, agents, groups, files and reminders keep the columns that a check
  reads.

  Shown here: nothing is granted outside an active organization and across organizations;
  what an agent may obtain through its owner; and three ways in which a grant differs from
  what the comments say.
\<close>

section \<open>Permissions and roles\<close>

definition allPermissions :: "string list" where
  "allPermissions =
     [''laelia.agents.create'', ''laelia.agents.get'', ''laelia.agents.edit'', ''laelia.agents.listSessions'',
      ''laelia.machines.create'', ''laelia.machines.get'', ''laelia.machines.edit'', ''laelia.machines.delete'',
      ''laelia.machines.createAgent'', ''laelia.commands.get'', ''laelia.commands.list'', ''laelia.commands.watch'',
      ''laelia.commands.cancel'', ''laelia.conversations.create'', ''laelia.conversations.list'', ''laelia.conversations.read'',
      ''laelia.conversations.send'', ''laelia.conversations.manage'', ''laelia.conversations.manageMembers'',
      ''laelia.conversations.reviewAgentDM'', ''laelia.conversations.reviewAll'', ''laelia.reminders.get'',
      ''laelia.reminders.list'', ''laelia.reminders.update'', ''laelia.reminders.cancel'', ''laelia.tasks.list'',
      ''laelia.tasks.create'', ''laelia.tasks.manage'', ''laelia.activities.list'', ''laelia.activities.markDone'',
      ''laelia.pushConfig.get'', ''laelia.pushConfig.update'', ''laelia.pushSubscriptions.create'',
      ''laelia.pushSubscriptions.delete'', ''laelia.pushSubscriptions.list'', ''laelia.files.upload'', ''laelia.files.download'',
      ''laelia.files.list'', ''laelia.users.create'', ''laelia.users.get'', ''laelia.users.list'', ''laelia.users.update'',
      ''laelia.users.delete'', ''laelia.settings.get'', ''laelia.settings.update'', ''laelia.roles.create'', ''laelia.roles.get'',
      ''laelia.roles.list'', ''laelia.roles.update'', ''laelia.roles.delete'', ''laelia.iam.getPolicy'', ''laelia.iam.setPolicy'',
      ''laelia.groups.create'', ''laelia.groups.get'', ''laelia.groups.list'', ''laelia.groups.update'', ''laelia.groups.delete'',
      ''laelia.auditLogs.search'', ''laelia.auditLogs.export'', ''laelia.apiProviders.create'', ''laelia.apiProviders.get'',
      ''laelia.apiProviders.list'', ''laelia.apiProviders.update'', ''laelia.apiProviders.delete'', ''laelia.mcpServers.create'',
      ''laelia.mcpServers.get'', ''laelia.mcpServers.list'', ''laelia.mcpServers.update'', ''laelia.mcpServers.delete'',
      ''laelia.identityProviders.create'', ''laelia.identityProviders.get'', ''laelia.identityProviders.list'',
      ''laelia.identityProviders.update'', ''laelia.identityProviders.delete'']"

abbreviation ConversationsRead :: string where "ConversationsRead \<equiv> ''laelia.conversations.read''"
abbreviation ConversationsSend :: string where "ConversationsSend \<equiv> ''laelia.conversations.send''"
abbreviation ConversationsManage :: string where "ConversationsManage \<equiv> ''laelia.conversations.manage''"
abbreviation ConversationsManageMembers :: string where "ConversationsManageMembers \<equiv> ''laelia.conversations.manageMembers''"
abbreviation ConversationsReviewAgentDM :: string where "ConversationsReviewAgentDM \<equiv> ''laelia.conversations.reviewAgentDM''"
abbreviation ConversationsReviewAll :: string where "ConversationsReviewAll \<equiv> ''laelia.conversations.reviewAll''"

definition memberBaselinePermissions :: "string list" where
  "memberBaselinePermissions =
     [''laelia.agents.get'', ''laelia.machines.get'', ''laelia.conversations.create'', ''laelia.conversations.list'',
      ''laelia.commands.list'', ''laelia.reminders.list'', ''laelia.activities.list'', ''laelia.activities.markDone'',
      ''laelia.pushConfig.get'', ''laelia.pushSubscriptions.create'', ''laelia.pushSubscriptions.delete'',
      ''laelia.pushSubscriptions.list'', ''laelia.files.upload'', ''laelia.groups.get'', ''laelia.groups.list'']"

definition chatMemberPermissions :: "string list" where
  "chatMemberPermissions = [ConversationsRead, ConversationsSend, ''laelia.commands.get'', ''laelia.commands.watch'', ''laelia.files.list'']"

definition chatAdminPermissions :: "string list" where
  "chatAdminPermissions = [ConversationsRead, ConversationsSend, ConversationsManage, ConversationsManageMembers,
     ''laelia.commands.get'', ''laelia.commands.watch'', ''laelia.files.list'']"

definition chatOwnerPermissions :: "string list" where
  "chatOwnerPermissions = [ConversationsRead, ConversationsSend, ConversationsManage, ConversationsManageMembers,
     ''laelia.commands.get'', ''laelia.commands.watch'', ''laelia.files.list'']"

definition machineAgentCreatorPermissions :: "string list" where
  "machineAgentCreatorPermissions = [''laelia.machines.createAgent'']"

definition GetPredefinedRole :: "string \<Rightarrow> string list option" where
  "GetPredefinedRole resourceID =
     (if resourceID = ''workspaceAdmin'' then Some allPermissions
      else if resourceID = ''workspaceMember'' then Some memberBaselinePermissions else None)"

section \<open>Tables\<close>

datatype organization_state = OrgActive | OrgSuspended | OrgClosed
datatype organization_role = RoleOwner | RoleAdmin | RoleMember | RoleGuest | RoleBillingAdmin | RoleAgentAdmin | RoleApprover
datatype membership_state = MemberActive | MemberSuspended | MemberInvited

definition parseOrgState :: "string \<Rightarrow> organization_state" where
  "parseOrgState s =
     (if s \<in> {''SUSPENDED'', ''ORGANIZATION_STATE_SUSPENDED''} then OrgSuspended
      else if s \<in> {''CLOSED'', ''ORGANIZATION_STATE_CLOSED''} then OrgClosed else OrgActive)"

definition parseOrgRole :: "string \<Rightarrow> organization_role" where
  "parseOrgRole s =
     (if s \<in> {''OWNER'', ''ORGANIZATION_ROLE_OWNER''} then RoleOwner
      else if s \<in> {''ADMIN'', ''ORGANIZATION_ROLE_ADMIN''} then RoleAdmin
      else if s \<in> {''GUEST'', ''ORGANIZATION_ROLE_GUEST''} then RoleGuest
      else if s \<in> {''BILLING_ADMIN'', ''ORGANIZATION_ROLE_BILLING_ADMIN''} then RoleBillingAdmin
      else if s \<in> {''AGENT_ADMIN'', ''ORGANIZATION_ROLE_AGENT_ADMIN''} then RoleAgentAdmin
      else if s \<in> {''APPROVER'', ''ORGANIZATION_ROLE_APPROVER''} then RoleApprover else RoleMember)"

definition parseMembershipState :: "string \<Rightarrow> membership_state" where
  "parseMembershipState s =
     (if s \<in> {''SUSPENDED'', ''MEMBERSHIP_STATE_SUSPENDED''} then MemberSuspended
      else if s \<in> {''INVITED'', ''MEMBERSHIP_STATE_INVITED''} then MemberInvited else MemberActive)"

record UserMessage =
  us_ID :: int
  us_Handle :: string
  us_DefaultOrganizationID :: string
  us_MemberDeleted :: bool

record AgentMessage =
  am_ID :: int
  am_ResourceID :: string
  am_OrganizationID :: string
  am_Deleted :: bool
  am_Enabled :: bool
  am_OwnerID :: int
  am_FollowOwnerPermissions :: bool
  am_CanManageChannelMembers :: bool

record user_group =
  ug_OrganizationID :: string
  ug_ID :: string
  ug_Email :: string
  ug_Members :: "string list"

record file_row =
  fi_OrganizationID :: string
  fi_ConversationID :: "string option"
  fi_Uploader :: int

record reminder_row =
  rm_OrganizationID :: string
  rm_ConversationID :: string
  rm_AssigneeAgentID :: int

datatype iam_query =
    QOrganization | QMembership | QHandle | QGroupBindings | QGroup | QRole | QUser | QConversation | QCommand | QReminder | QFile
  | QMeta | QResource

text \<open>\<open>iw_group_bindings\<close> has organization, group, workspace and role; \<open>iw_commands\<close> the id and the
  resource id of the agent of a command.\<close>

record iam_world =
  iw_fault :: "iam_query \<Rightarrow> bool"
  iw_cel :: "string \<Rightarrow> instant \<Rightarrow> cel_outcome"
  iw_uuid :: "string \<Rightarrow> string option"
  iw_user :: "string option \<Rightarrow> int \<Rightarrow> UserMessage option"
  iw_policies :: policy_db
  iw_orgs :: "(string \<times> string) list"
  iw_memberships :: "((string \<times> int) \<times> (string \<times> string)) list"
  iw_handles :: "(int \<times> string) list"
  iw_group_bindings :: "(string \<times> string \<times> string option \<times> string) list"
  iw_groups :: "user_group list"
  iw_roles :: "((string \<times> string) \<times> string list) list"
  iw_agents :: "(string \<times> string) list"
  iw_machines :: "(string \<times> string) list"
  iw_conversations :: "(string \<times> (string \<times> int)) list"
  iw_files :: "(string \<times> file_row) list"
  iw_reminders :: "(string \<times> reminder_row) list"
  iw_commands :: "(string \<times> (int \<times> string)) list"
  iw_command_conversations :: "(string \<times> string) list"

record iam_ctx =
  cx_org :: "string option"
  cx_workspace :: string
  cx_now :: instant

datatype iam_error = IamSqlFailed | IamPolicyError policy_error | IamConversationNotFound

definition tenantIDFromContext :: "iam_ctx \<Rightarrow> string" where
  "tenantIDFromContext ctx = (case cx_org ctx of None \<Rightarrow> ''default'' | Some org \<Rightarrow> if org = [] then ''default'' else org)"

definition query :: "iam_world \<Rightarrow> iam_query \<Rightarrow> 'a \<Rightarrow> (iam_error, 'a) result" where
  "query w q v = (if iw_fault w q then Inl IamSqlFailed else Inr v)"

definition iam_policy :: "iam_world \<Rightarrow> iam_ctx \<Rightarrow> policy_resource \<Rightarrow> string option \<Rightarrow> (iam_error, Binding list) result" where
  "iam_policy w ctx rt res =
     (case fst (getIamPolicy (iw_policies w) (tenantIDFromContext ctx) rt res) of Inl e \<Rightarrow> Inl (IamPolicyError e) | Inr (p, _) \<Rightarrow> Inr p)"

section \<open>Callers and bindings\<close>

text \<open>More than one group with an id or an email is an error, like a failed query.\<close>

definition one_group :: "iam_world \<Rightarrow> (user_group \<Rightarrow> bool) \<Rightarrow> (unit, user_group option) result" where
  "one_group w P =
     (if iw_fault w QGroup then Inl ()
      else case filter P (iw_groups w) of [] \<Rightarrow> Inr None | [g] \<Rightarrow> Inr (Some g) | _ \<Rightarrow> Inl ())"

definition GetGroupByName :: "iam_world \<Rightarrow> iam_ctx \<Rightarrow> string \<Rightarrow> (unit, user_group option) result" where
  "GetGroupByName w ctx name =
     (case GetGroupEmail name of
        None \<Rightarrow> Inl ()
      | Some t \<Rightarrow>
          let org = tenantIDFromContext ctx;
              byEmail = one_group w (\<lambda>g. ug_OrganizationID g = org \<and> ug_Email g = t);
              byID = one_group w (\<lambda>g. ug_OrganizationID g = org \<and> ug_ID g = t) in
          if CHR ''@'' \<in> set t then (case byEmail of Inr None \<Rightarrow> byID | r \<Rightarrow> r)
          else (case byID of Inr None \<Rightarrow> byEmail | r \<Rightarrow> r))"

definition MemberContainsUser :: "iam_world \<Rightarrow> iam_ctx \<Rightarrow> string \<Rightarrow> UserMessage \<Rightarrow> bool" where
  "MemberContainsUser w ctx member u =
     (if member = ''allUsers'' then True
      else if has_prefix member ''users/'' then (case GetUserHandle member of None \<Rightarrow> False | Some h \<Rightarrow> h = us_Handle u)
      else if has_prefix member ''groups/'' then
        (case GetGroupByName w ctx member of
           Inr (Some g) \<Rightarrow> list_ex (\<lambda>m. m = FormatUserHandle (us_Handle u)) (ug_Members g)
         | _ \<Rightarrow> False)
      else False)"

definition callerPrincipalName :: "UserMessage option \<Rightarrow> AgentMessage option \<Rightarrow> (string \<times> bool) option" where
  "callerPrincipalName user agent =
     (case user of
        Some u \<Rightarrow> Some (FormatUserHandle (us_Handle u), True)
      | None \<Rightarrow> (case agent of Some a \<Rightarrow> Some (FormatAgentUID (am_ResourceID a), False) | None \<Rightarrow> None))"

definition bindingContainsCaller ::
  "iam_world \<Rightarrow> iam_ctx \<Rightarrow> Binding \<Rightarrow> string \<Rightarrow> bool \<Rightarrow> UserMessage option \<Rightarrow> bool" where
  "bindingContainsCaller w ctx b who isUser user =
     (if list_ex (\<lambda>m. m = ''allUsers'' \<or> m = who) (bd_Members b) then True
      else case user of
        None \<Rightarrow> False
      | Some u \<Rightarrow> isUser \<and> list_ex (\<lambda>m. has_prefix m ''groups/'' \<and> MemberContainsUser w ctx m u) (bd_Members b))"

definition GetCallerIAMPolicyBindings ::
  "iam_world \<Rightarrow> iam_ctx \<Rightarrow> UserMessage option \<Rightarrow> AgentMessage option \<Rightarrow> Binding list \<Rightarrow> Binding list" where
  "GetCallerIAMPolicyBindings w ctx user agent policy =
     (case callerPrincipalName user agent of
        None \<Rightarrow> []
      | Some (who, isUser) \<Rightarrow>
          filter (\<lambda>b. validateIAMBinding (iw_cel w) (cx_now ctx) b \<and> bindingContainsCaller w ctx b who isUser user) policy)"

definition GetUserRolesInIamPolicy :: "iam_world \<Rightarrow> iam_ctx \<Rightarrow> UserMessage \<Rightarrow> Binding list \<Rightarrow> string list" where
  "GetUserRolesInIamPolicy w ctx u policy = remdups (map bd_Role (GetCallerIAMPolicyBindings w ctx (Some u) None policy))"

text \<open>A role that is unknown or cannot be read has no permissions.\<close>

definition trim_role :: "string \<Rightarrow> string" where
  "trim_role role = (if has_prefix role ''roles/'' then drop 6 role else role)"

definition rolePermissions :: "iam_world \<Rightarrow> iam_ctx \<Rightarrow> string \<Rightarrow> string list" where
  "rolePermissions w ctx role =
     (case GetPredefinedRole (trim_role role) of
        Some ps \<Rightarrow> ps
      | None \<Rightarrow>
          if iw_fault w QRole then []
          else (case map_of (iw_roles w) (tenantIDFromContext ctx, trim_role role) of None \<Rightarrow> [] | Some ps \<Rightarrow> ps))"

definition conversationRolePermissions :: "iam_world \<Rightarrow> iam_ctx \<Rightarrow> string \<Rightarrow> string list" where
  "conversationRolePermissions w ctx role =
     (if role = FormatRole ''conversationOwner'' then chatOwnerPermissions
      else if role = FormatRole ''conversationAdmin'' then chatAdminPermissions
      else if role = FormatRole ''conversationMember'' then chatMemberPermissions
      else rolePermissions w ctx role)"

definition machineRolePermissions :: "iam_world \<Rightarrow> iam_ctx \<Rightarrow> string \<Rightarrow> string list" where
  "machineRolePermissions w ctx role =
     (if role = FormatRole ''machineAgentCreator'' then machineAgentCreatorPermissions else rolePermissions w ctx role)"


section \<open>The tenant\<close>

definition CheckOrganizationActive :: "iam_world \<Rightarrow> string \<Rightarrow> (iam_error, bool) result" where
  "CheckOrganizationActive w org =
     (if org = [] then Inr False
      else case query w QOrganization (map_of (iw_orgs w) org) of
        Inl e \<Rightarrow> Inl e
      | Inr None \<Rightarrow> Inr False
      | Inr (Some st) \<Rightarrow> Inr (parseOrgState st = OrgActive))"

definition EvaluateMembershipPermission :: "organization_state \<Rightarrow> organization_role \<times> membership_state \<Rightarrow> string \<Rightarrow> bool" where
  "EvaluateMembershipPermission org membership perm =
     (if org \<noteq> OrgActive then False
      else if snd membership \<noteq> MemberActive then False
      else case fst membership of
        RoleOwner \<Rightarrow> True
      | RoleAdmin \<Rightarrow> True
      | RoleMember \<Rightarrow> perm \<in> set memberBaselinePermissions
      | RoleGuest \<Rightarrow> perm = ConversationsRead \<or> perm = ConversationsSend
      | _ \<Rightarrow> False)"

definition GetMembership :: "iam_world \<Rightarrow> string \<Rightarrow> int \<Rightarrow> (iam_error, (organization_role \<times> membership_state) option) result" where
  "GetMembership w org principalID =
     query w QMembership (map_option (\<lambda>(r, st). (parseOrgRole r, parseMembershipState st)) (map_of (iw_memberships w) (org, principalID)))"

text \<open>The roles of the organization-wide bindings of the groups that list the handle.\<close>

definition group_roles :: "iam_world \<Rightarrow> string \<Rightarrow> string \<Rightarrow> string \<Rightarrow> string list" where
  "group_roles w org workspaceID handle =
     map (\<lambda>(_, _, _, role). role)
       (filter (\<lambda>(o', gid, ws, _). o' = org \<and> (ws = None \<or> ws = Some workspaceID) \<and>
          list_ex (\<lambda>g. ug_ID g = gid \<and> ug_OrganizationID g = org \<and> FormatUserHandle handle \<in> set (ug_Members g)) (iw_groups w))
         (iw_group_bindings w))"

definition CheckTenantPermission :: "iam_world \<Rightarrow> iam_ctx \<Rightarrow> string \<Rightarrow> string \<Rightarrow> int \<Rightarrow> (iam_error, bool) result" where
  "CheckTenantPermission w ctx org perm principalID =
     (if org = [] \<or> principalID = 0 then Inr False
      else case query w QOrganization (map_of (iw_orgs w) org) of
        Inl e \<Rightarrow> Inl e
      | Inr None \<Rightarrow> Inr False
      | Inr (Some st) \<Rightarrow>
          if parseOrgState st = OrgSuspended \<or> parseOrgState st = OrgClosed then Inr False
          else case GetMembership w org principalID of
            Inl e \<Rightarrow> Inl e
          | Inr None \<Rightarrow> Inr False
          | Inr (Some m) \<Rightarrow>
              if EvaluateMembershipPermission (parseOrgState st) m perm then Inr True
              else case query w QHandle (map_of (iw_handles w) principalID) of
                Inl e \<Rightarrow> Inl e
              | Inr None \<Rightarrow> Inr False
              | Inr (Some handle) \<Rightarrow>
                  (case query w QGroupBindings (group_roles w org (cx_workspace ctx) handle) of
                     Inl e \<Rightarrow> Inl e
                   | Inr roles \<Rightarrow> Inr (list_ex (\<lambda>role. perm \<in> set (rolePermissions w ctx role)) roles)))"

definition effective_org :: "iam_ctx \<Rightarrow> UserMessage option \<Rightarrow> string" where
  "effective_org ctx user =
     (case cx_org ctx of
        Some org \<Rightarrow> if org \<noteq> [] then org else (case user of Some u \<Rightarrow> if us_DefaultOrganizationID u \<noteq> [] then us_DefaultOrganizationID u else ''default'' | None \<Rightarrow> ''default'')
      | None \<Rightarrow> (case user of Some u \<Rightarrow> if us_DefaultOrganizationID u \<noteq> [] then us_DefaultOrganizationID u else ''default'' | None \<Rightarrow> ''default''))"

definition agent_admitted :: "iam_world \<Rightarrow> string \<Rightarrow> AgentMessage \<Rightarrow> bool" where
  "agent_admitted w org a =
     (if am_Deleted a \<or> \<not> am_Enabled a then False
      else if am_OrganizationID a \<noteq> [] \<and> am_OrganizationID a \<noteq> org then False
      else if am_OwnerID a > 0 then
        (case GetMembership w org (am_OwnerID a) of Inr (Some m) \<Rightarrow> snd m = MemberActive | _ \<Rightarrow> False)
      else True)"

definition tenant_gate :: "iam_world \<Rightarrow> iam_ctx \<Rightarrow> string \<Rightarrow> UserMessage option \<Rightarrow> AgentMessage option \<Rightarrow> (iam_error, bool) result" where
  "tenant_gate w ctx perm user agent =
     (let org = effective_org ctx user in
      case CheckOrganizationActive w org of
        Inl e \<Rightarrow> Inl e
      | Inr False \<Rightarrow> Inr False
      | Inr True \<Rightarrow>
          (case (case user of None \<Rightarrow> Inr True | Some u \<Rightarrow> CheckTenantPermission w ctx org perm (us_ID u)) of
             Inl e \<Rightarrow> Inl e
           | Inr False \<Rightarrow> Inr False
           | Inr True \<Rightarrow> Inr (case agent of None \<Rightarrow> True | Some a \<Rightarrow> agent_admitted w org a)))"

datatype resource_ref = ResourceRef policy_resource string

definition file_id :: "string \<Rightarrow> string" where
  "file_id name = (if has_prefix name ''files/'' then drop 6 name else name)"

definition reminder_id :: "string \<Rightarrow> string" where
  "reminder_id name = (if has_prefix name ''reminders/'' then drop 10 name else name)"

text \<open>The organization of a resource: \<open>Inl ()\<close> for a name that names none, \<open>Inr None\<close> for a kind that
  no organization owns.\<close>

definition resource_organization :: "iam_world \<Rightarrow> policy_resource \<Rightarrow> string \<Rightarrow> (unit, string option option) result" where
  "resource_organization w rt name =
     (case rt of
        PolicyAGENT \<Rightarrow> (case GetAgentResourceID name of None \<Rightarrow> Inl () | Some i \<Rightarrow> Inr (Some (map_of (iw_agents w) i)))
      | PolicyMACHINE \<Rightarrow> (case GetMachineResourceID name of None \<Rightarrow> Inl () | Some i \<Rightarrow> Inr (Some (map_of (iw_machines w) i)))
      | PolicyCONVERSATION \<Rightarrow>
          (case GetConversationResourceID name of
             None \<Rightarrow> Inl ()
           | Some v \<Rightarrow> (case iw_uuid w v of None \<Rightarrow> Inl () | Some i \<Rightarrow> Inr (Some (map_option fst (map_of (iw_conversations w) i)))))
      | PolicyFILE \<Rightarrow>
          (case iw_uuid w (file_id name) of None \<Rightarrow> Inl () | Some i \<Rightarrow> Inr (Some (map_option fi_OrganizationID (map_of (iw_files w) i))))
      | PolicyCOMMAND \<Rightarrow>
          (let parts = split_slash name in
           if length parts < 4 \<or> parts ! 0 \<noteq> ''agents'' \<or> parts ! 2 \<noteq> ''commands'' then Inl ()
           else Inr (Some (map_of (iw_agents w) (parts ! 1))))
      | PolicyREMINDER \<Rightarrow>
          (case iw_uuid w (reminder_id name) of None \<Rightarrow> Inl () | Some i \<Rightarrow> Inr (Some (map_option rm_OrganizationID (map_of (iw_reminders w) i))))
      | _ \<Rightarrow> Inr None)"

definition checkResourceTenant :: "iam_world \<Rightarrow> iam_ctx \<Rightarrow> resource_ref \<Rightarrow> (iam_error, bool) result" where
  "checkResourceTenant w ctx r =
     (case r of ResourceRef rt name \<Rightarrow>
        (case cx_org ctx of
           None \<Rightarrow> Inr False
         | Some org \<Rightarrow>
             if org = [] then Inr False
             else (case resource_organization w rt name of
                 Inl _ \<Rightarrow> Inr False
               | Inr None \<Rightarrow> Inr True
               | Inr (Some found) \<Rightarrow>
                   (case query w QResource found of
                      Inl e \<Rightarrow> Inl e
                    | Inr None \<Rightarrow> Inr False
                    | Inr (Some resourceOrg) \<Rightarrow> Inr (resourceOrg = org)))))"

section \<open>The check\<close>

definition workspace_grant :: "iam_world \<Rightarrow> iam_ctx \<Rightarrow> string \<Rightarrow> UserMessage option \<Rightarrow> (iam_error, bool) result" where
  "workspace_grant w ctx perm user =
     (case user of
        None \<Rightarrow> Inr False
      | Some u \<Rightarrow>
          (case iam_policy w ctx PolicyWORKSPACE None of
             Inl e \<Rightarrow> Inl e
           | Inr p \<Rightarrow> Inr (list_ex (\<lambda>role. perm \<in> set (rolePermissions w ctx role)) (GetUserRolesInIamPolicy w ctx u p))))"

text \<open>\<open>CheckPermission\<close> without a resource, which the checks of resources call, and with the tenant
  and the grant of a resource.\<close>

definition check_with ::
  "iam_world \<Rightarrow> iam_ctx \<Rightarrow> string \<Rightarrow> UserMessage option \<Rightarrow> AgentMessage option \<Rightarrow> (iam_error, bool) result \<Rightarrow> (iam_error, bool) result \<Rightarrow>
   (iam_error, bool) result" where
  "check_with w ctx perm user agent tenant grant =
     (case tenant_gate w ctx perm user agent of
        Inl e \<Rightarrow> Inl e
      | Inr False \<Rightarrow> Inr False
      | Inr True \<Rightarrow>
          (case tenant of
             Inl e \<Rightarrow> Inl e
           | Inr False \<Rightarrow> Inr False
           | Inr True \<Rightarrow>
               if perm \<in> set memberBaselinePermissions then Inr True
               else (case workspace_grant w ctx perm user of
                   Inl e \<Rightarrow> Inl e
                 | Inr True \<Rightarrow> Inr True
                 | Inr False \<Rightarrow> grant)))"

definition check_unscoped ::
  "iam_world \<Rightarrow> iam_ctx \<Rightarrow> string \<Rightarrow> UserMessage option \<Rightarrow> AgentMessage option \<Rightarrow> (iam_error, bool) result" where
  "check_unscoped w ctx perm user agent = check_with w ctx perm user agent (Inr True) (Inr False)"

definition bindings_grant :: "(string \<Rightarrow> string list) \<Rightarrow> string \<Rightarrow> Binding list \<Rightarrow> bool" where
  "bindings_grant perms_of perm bs = list_ex (\<lambda>b. perm \<in> set (perms_of (bd_Role b))) bs"

text \<open>What an agent obtains through its owner.\<close>

definition owner_grant :: "iam_world \<Rightarrow> iam_ctx \<Rightarrow> string \<Rightarrow> AgentMessage \<Rightarrow> Binding list \<Rightarrow> (iam_error, bool) result" where
  "owner_grant w ctx perm a policy =
     (case query w QUser (iw_user w (cx_org ctx) (am_OwnerID a)) of
        Inl e \<Rightarrow> Inl e
      | Inr None \<Rightarrow> Inr False
      | Inr (Some u) \<Rightarrow>
          if us_MemberDeleted u then Inr False
          else Inr (bindings_grant (conversationRolePermissions w ctx) perm (GetCallerIAMPolicyBindings w ctx (Some u) None policy)))"

definition ConversationTypeAgentDM :: int where "ConversationTypeAgentDM = 3"

definition review_override :: "iam_world \<Rightarrow> iam_ctx \<Rightarrow> string \<Rightarrow> UserMessage option \<Rightarrow> string \<Rightarrow> (iam_error, bool) result" where
  "review_override w ctx perm user v =
     (if perm \<noteq> ConversationsRead \<or> user = None then Inr False
      else case query w QConversation (map_of (iw_conversations w) v) of
        Inl e \<Rightarrow> Inl e
      | Inr None \<Rightarrow> Inr False
      | Inr (Some (org, ty)) \<Rightarrow>
          if org \<noteq> tenantIDFromContext ctx \<or> ty \<noteq> ConversationTypeAgentDM then Inr False
          else Inr (check_unscoped w ctx ConversationsReviewAgentDM user None = Inr True))"

definition checkConversationPermission ::
  "iam_world \<Rightarrow> iam_ctx \<Rightarrow> string \<Rightarrow> UserMessage option \<Rightarrow> AgentMessage option \<Rightarrow> string \<Rightarrow> (iam_error, bool) result" where
  "checkConversationPermission w ctx perm user agent name =
     (case GetConversationResourceID name of
        None \<Rightarrow> Inr False
      | Some t \<Rightarrow>
          (case iw_uuid w t of
             None \<Rightarrow> Inr False
           | Some v \<Rightarrow>
               (case iam_policy w ctx PolicyCONVERSATION (Some (FormatConversationName v)) of
                  Inl e \<Rightarrow> Inl e
                | Inr policy \<Rightarrow>
                    if bindings_grant (conversationRolePermissions w ctx) perm (GetCallerIAMPolicyBindings w ctx user agent policy) then Inr True
                    else
                    (case (case agent of
                             Some a \<Rightarrow> if perm = ConversationsRead \<and> am_FollowOwnerPermissions a then owner_grant w ctx perm a policy else Inr False
                           | None \<Rightarrow> Inr False) of
                       Inl e \<Rightarrow> Inl e
                     | Inr True \<Rightarrow> Inr True
                     | Inr False \<Rightarrow>
                         (case (case agent of
                                  Some a \<Rightarrow> if perm = ConversationsManageMembers \<and> am_CanManageChannelMembers a
                                            then owner_grant w ctx perm a policy else Inr False
                                | None \<Rightarrow> Inr False) of
                            Inl e \<Rightarrow> Inl e
                          | Inr True \<Rightarrow> Inr True
                          | Inr False \<Rightarrow> review_override w ctx perm user v)))))"

definition callerMemberInfo :: "UserMessage option \<Rightarrow> AgentMessage option \<Rightarrow> (int \<times> string) option" where
  "callerMemberInfo user agent =
     (case user of
        Some u \<Rightarrow> Some (MemberTypeUser, us_Handle u)
      | None \<Rightarrow> (case agent of Some a \<Rightarrow> Some (MemberTypeAgent, am_ResourceID a) | None \<Rightarrow> None))"

definition reviews_all :: "iam_world \<Rightarrow> iam_ctx \<Rightarrow> UserMessage option \<Rightarrow> bool" where
  "reviews_all w ctx user \<longleftrightarrow> user \<noteq> None \<and> check_unscoped w ctx ConversationsReviewAll user None = Inr True"

definition GetCommandByName :: "iam_world \<Rightarrow> string \<Rightarrow> (string \<times> int) option" where
  "GetCommandByName w name =
     (let parts = split_slash name in
      if length parts \<noteq> 4 \<or> parts ! 0 \<noteq> ''agents'' \<or> parts ! 2 \<noteq> ''commands'' then None
      else case iw_uuid w (parts ! 3) of
        None \<Rightarrow> None
      | Some c \<Rightarrow>
          if iw_fault w QCommand then None
          else (case map_of (iw_commands w) c of
              None \<Rightarrow> None
            | Some (agentID, agentRID) \<Rightarrow> if agentRID = parts ! 1 then Some (c, agentID) else None))"

definition IsCommandConversationMember :: "iam_world \<Rightarrow> string \<Rightarrow> int \<Rightarrow> string \<Rightarrow> (iam_error, bool) result" where
  "IsCommandConversationMember w c ty m =
     query w QMeta (list_ex (\<lambda>(c', v). c' = c \<and> list_ex (\<lambda>(_, v', ty', m'). v' = v \<and> ty' = ty \<and> m' = m) (pd_meta (iw_policies w)))
       (iw_command_conversations w))"

definition checkCommandPermission ::
  "iam_world \<Rightarrow> iam_ctx \<Rightarrow> UserMessage option \<Rightarrow> AgentMessage option \<Rightarrow> string \<Rightarrow> (iam_error, bool) result" where
  "checkCommandPermission w ctx user agent name =
     (case GetCommandByName w name of
        None \<Rightarrow> Inr False
      | Some (c, agentID) \<Rightarrow>
          if (case agent of Some a \<Rightarrow> am_ID a = agentID | None \<Rightarrow> False) then Inr True
          else if reviews_all w ctx user then Inr True
          else (case callerMemberInfo user agent of None \<Rightarrow> Inr False | Some (ty, m) \<Rightarrow> IsCommandConversationMember w c ty m))"

definition GetConversationMembership :: "iam_world \<Rightarrow> iam_ctx \<Rightarrow> string \<Rightarrow> int \<Rightarrow> string \<Rightarrow> (iam_error, int) result" where
  "GetConversationMembership w ctx v ty m =
     (case query w QConversation (map_of (iw_conversations w) v) of
        Inl e \<Rightarrow> Inl e
      | Inr None \<Rightarrow> Inl IamConversationNotFound
      | Inr (Some _) \<Rightarrow>
          (case iam_policy w ctx PolicyCONVERSATION (Some (FormatConversationName v)) of
             Inl e \<Rightarrow> Inl e
           | Inr p \<Rightarrow> Inr (chat_role p (conversationMemberName ty m))))"

definition parseReminderResourceID :: "iam_world \<Rightarrow> string \<Rightarrow> string option" where
  "parseReminderResourceID w name =
     (if \<not> has_prefix name ''reminders/'' \<or> drop 10 name = [] then None else iw_uuid w (drop 10 name))"

definition checkReminderPermission ::
  "iam_world \<Rightarrow> iam_ctx \<Rightarrow> UserMessage option \<Rightarrow> AgentMessage option \<Rightarrow> string \<Rightarrow> (iam_error, bool) result" where
  "checkReminderPermission w ctx user agent name =
     (case parseReminderResourceID w name of
        None \<Rightarrow> Inr False
      | Some i \<Rightarrow>
          (case query w QReminder (map_of (iw_reminders w) i) of
             Inl _ \<Rightarrow> Inr False
           | Inr None \<Rightarrow> Inr False
           | Inr (Some r) \<Rightarrow>
               if (case agent of Some a \<Rightarrow> am_ID a = rm_AssigneeAgentID r | None \<Rightarrow> False) then Inr True
               else if reviews_all w ctx user then Inr True
               else (case callerMemberInfo user agent of
                   None \<Rightarrow> Inr False
                 | Some (ty, m) \<Rightarrow>
                     (case GetConversationMembership w ctx (rm_ConversationID r) ty m of Inl e \<Rightarrow> Inl e | Inr role \<Rightarrow> Inr (role \<noteq> 0)))))"

definition checkFilePermission ::
  "iam_world \<Rightarrow> iam_ctx \<Rightarrow> UserMessage option \<Rightarrow> AgentMessage option \<Rightarrow> string \<Rightarrow> (iam_error, bool) result" where
  "checkFilePermission w ctx user agent name =
     (case iw_uuid w (file_id name) of
        None \<Rightarrow> Inr False
      | Some i \<Rightarrow>
          (case query w QFile (map_of (iw_files w) i) of
             Inl e \<Rightarrow> Inl e
           | Inr None \<Rightarrow> Inr False
           | Inr (Some f) \<Rightarrow>
               if fi_OrganizationID f \<noteq> tenantIDFromContext ctx then Inr False
               else case fi_ConversationID f of
                 Some v \<Rightarrow>
                   (case callerMemberInfo user agent of
                      None \<Rightarrow> Inr False
                    | Some (ty, m) \<Rightarrow>
                        (case IsConversationMember (iw_policies w) (tenantIDFromContext ctx) v ty m of
                           Inl e \<Rightarrow> Inl (IamPolicyError e) | Inr b \<Rightarrow> Inr b))
               | None \<Rightarrow> Inr (case user of Some u \<Rightarrow> us_ID u = fi_Uploader f | None \<Rightarrow> False)))"

definition checkResourcePermission ::
  "iam_world \<Rightarrow> iam_ctx \<Rightarrow> string \<Rightarrow> UserMessage option \<Rightarrow> AgentMessage option \<Rightarrow> resource_ref \<Rightarrow> (iam_error, bool) result" where
  "checkResourcePermission w ctx perm user agent r =
     (case r of ResourceRef rt name \<Rightarrow>
        (case rt of
           PolicyCONVERSATION \<Rightarrow> checkConversationPermission w ctx perm user agent name
         | PolicyAGENT \<Rightarrow>
             (case iam_policy w ctx PolicyAGENT (Some name) of
                Inl e \<Rightarrow> Inl e
              | Inr p \<Rightarrow> Inr (bindings_grant (rolePermissions w ctx) perm (GetCallerIAMPolicyBindings w ctx user agent p)))
         | PolicyMACHINE \<Rightarrow>
             (case iam_policy w ctx PolicyMACHINE (Some name) of
                Inl e \<Rightarrow> Inl e
              | Inr p \<Rightarrow> Inr (bindings_grant (machineRolePermissions w ctx) perm (GetCallerIAMPolicyBindings w ctx user agent p)))
         | PolicyCOMMAND \<Rightarrow> checkCommandPermission w ctx user agent name
         | PolicyREMINDER \<Rightarrow> checkReminderPermission w ctx user agent name
         | PolicyFILE \<Rightarrow> checkFilePermission w ctx user agent name
         | _ \<Rightarrow> Inr False))"

definition CheckPermission ::
  "iam_world \<Rightarrow> iam_ctx \<Rightarrow> string \<Rightarrow> UserMessage option \<Rightarrow> AgentMessage option \<Rightarrow> resource_ref option \<Rightarrow> (iam_error, bool) result" where
  "CheckPermission w ctx perm user agent resource =
     (case resource of
        None \<Rightarrow> check_unscoped w ctx perm user agent
      | Some r \<Rightarrow> check_with w ctx perm user agent (checkResourceTenant w ctx r) (checkResourcePermission w ctx perm user agent r))"

definition EffectiveWorkspacePermissions ::
  "iam_world \<Rightarrow> iam_ctx \<Rightarrow> UserMessage option \<Rightarrow> (iam_error, string list) result" where
  "EffectiveWorkspacePermissions w ctx user =
     (case user of
        None \<Rightarrow> Inr (sort (remdups memberBaselinePermissions))
      | Some u \<Rightarrow>
          (case iam_policy w ctx PolicyWORKSPACE None of
             Inl e \<Rightarrow> Inl e
           | Inr p \<Rightarrow> Inr (sort (remdups (memberBaselinePermissions @ concat (map (rolePermissions w ctx) (GetUserRolesInIamPolicy w ctx u p)))))))"

section \<open>What a grant shows\<close>

lemma query_Inr [simp]: "query w q v = Inr x \<longleftrightarrow> \<not> iw_fault w q \<and> x = v"
  by (auto simp: query_def)

lemma query_Inl [simp]: "query w q v = Inl e \<longleftrightarrow> iw_fault w q \<and> e = IamSqlFailed"
  by (auto simp: query_def)

lemma organization_active:
  "CheckOrganizationActive w org = Inr True \<longleftrightarrow>
     org \<noteq> [] \<and> \<not> iw_fault w QOrganization \<and> (\<exists>st. map_of (iw_orgs w) org = Some st \<and> parseOrgState st = OrgActive)"
  by (auto simp: CheckOrganizationActive_def split: sum.splits option.splits)

lemma GetMembership_Inr:
  "GetMembership w org i = Inr (Some m) \<longleftrightarrow>
     \<not> iw_fault w QMembership \<and> (\<exists>r st. map_of (iw_memberships w) (org, i) = Some (r, st) \<and> m = (parseOrgRole r, parseMembershipState st))"
  by (cases "map_of (iw_memberships w) (org, i)") (auto simp: GetMembership_def)

lemma agent_admitted_iff:
  "agent_admitted w org a \<longleftrightarrow> \<not> am_Deleted a \<and> am_Enabled a \<and> (am_OrganizationID a = [] \<or> am_OrganizationID a = org) \<and>
     (am_OwnerID a > 0 \<longrightarrow> (\<exists>m. GetMembership w org (am_OwnerID a) = Inr (Some m) \<and> snd m = MemberActive))"
  by (auto simp: agent_admitted_def split: sum.splits option.splits)

text \<open>The tenant lets a user through by his own role or by the role of one of his groups.\<close>

lemma tenant_permission_cases:
  "CheckTenantPermission w ctx org perm i = Inr True \<longleftrightarrow>
     org \<noteq> [] \<and> i \<noteq> 0 \<and> \<not> iw_fault w QOrganization \<and>
     (\<exists>st m. map_of (iw_orgs w) org = Some st \<and> parseOrgState st = OrgActive \<and> GetMembership w org i = Inr (Some m) \<and>
       (EvaluateMembershipPermission OrgActive m perm \<or>
        \<not> iw_fault w QHandle \<and> \<not> iw_fault w QGroupBindings \<and>
        (\<exists>handle role. map_of (iw_handles w) i = Some handle \<and> role \<in> set (group_roles w org (cx_workspace ctx) handle) \<and>
           perm \<in> set (rolePermissions w ctx role))))"
proof -
  have other: "parseOrgState st \<noteq> OrgSuspended \<Longrightarrow> parseOrgState st \<noteq> OrgClosed \<Longrightarrow> parseOrgState st = OrgActive" for st
    by (cases "parseOrgState st") auto
  show ?thesis
    by (cases "map_of (iw_orgs w) org"; cases "GetMembership w org i"; cases "map_of (iw_handles w) i")
      (auto simp: CheckTenantPermission_def query_def list_ex_iff dest: other split: if_splits sum.splits option.splits)
qed

lemma tenant_gate_iff:
  "tenant_gate w ctx perm user agent = Inr True \<longleftrightarrow>
     CheckOrganizationActive w (effective_org ctx user) = Inr True \<and>
     (\<forall>u. user = Some u \<longrightarrow> CheckTenantPermission w ctx (effective_org ctx user) perm (us_ID u) = Inr True) \<and>
     (\<forall>a. agent = Some a \<longrightarrow> agent_admitted w (effective_org ctx user) a)"
  by (auto simp: tenant_gate_def Let_def split: sum.splits bool.splits option.splits)

lemma check_with_iff:
  "check_with w ctx perm user agent tenant grant = Inr True \<longleftrightarrow>
     tenant_gate w ctx perm user agent = Inr True \<and> tenant = Inr True \<and>
     (perm \<in> set memberBaselinePermissions \<or> workspace_grant w ctx perm user = Inr True \<or>
      workspace_grant w ctx perm user = Inr False \<and> grant = Inr True)"
  by (auto simp: check_with_def split: sum.splits bool.splits)

lemma checkResourceTenant_iff:
  "checkResourceTenant w ctx (ResourceRef rt name) = Inr True \<longleftrightarrow>
     (\<exists>org. cx_org ctx = Some org \<and> org \<noteq> [] \<and>
       (resource_organization w rt name = Inr None \<or>
        \<not> iw_fault w QResource \<and> resource_organization w rt name = Inr (Some (Some org))))"
  by (auto simp: checkResourceTenant_def split: option.splits sum.splits)

lemmas granted_iff = check_with_iff tenant_gate_iff

lemma granted_gate: "CheckPermission w ctx perm user agent res = Inr True \<Longrightarrow> tenant_gate w ctx perm user agent = Inr True"
  by (auto simp: CheckPermission_def check_unscoped_def check_with_iff split: option.splits)

lemma granted_tenant: "CheckPermission w ctx perm user agent (Some r) = Inr True \<Longrightarrow> checkResourceTenant w ctx r = Inr True"
  by (auto simp: CheckPermission_def check_with_iff)

lemma effective_org_ctx: "cx_org ctx = Some org \<Longrightarrow> org \<noteq> [] \<Longrightarrow> effective_org ctx user = org"
  by (simp add: effective_org_def)

text \<open>C14: Nothing is granted outside a tenant: the organization of the check exists and is active, a user
  has a membership in it, an agent is enabled and of the organization and its owner is an active
  member, and a resource that an organization owns is owned by this one.\<close>

theorem granted_within_tenant:
  assumes "CheckPermission w ctx perm user agent res = Inr True" and "org = effective_org ctx user"
  shows "(\<exists>st. map_of (iw_orgs w) org = Some st \<and> parseOrgState st = OrgActive) \<and>
    (\<forall>u. user = Some u \<longrightarrow> map_of (iw_memberships w) (org, us_ID u) \<noteq> None) \<and>
    (\<forall>a. agent = Some a \<longrightarrow> am_Enabled a \<and> \<not> am_Deleted a \<and> (am_OrganizationID a \<noteq> [] \<longrightarrow> am_OrganizationID a = org) \<and>
       (am_OwnerID a > 0 \<longrightarrow> (\<exists>r st. map_of (iw_memberships w) (org, am_OwnerID a) = Some (r, st) \<and> parseMembershipState st = MemberActive))) \<and>
    (\<forall>rt name v. res = Some (ResourceRef rt name) \<longrightarrow> resource_organization w rt name = Inr (Some v) \<longrightarrow> v = Some org)"
proof -
  note g = granted_gate [OF assms(1), unfolded tenant_gate_iff assms(2) [symmetric]]
  from g have o: "\<exists>st. map_of (iw_orgs w) org = Some st \<and> parseOrgState st = OrgActive" by (simp add: organization_active)
  from g have u: "\<forall>u. user = Some u \<longrightarrow> map_of (iw_memberships w) (org, us_ID u) \<noteq> None"
    by (auto simp: tenant_permission_cases GetMembership_Inr)
  from g have a: "\<forall>a. agent = Some a \<longrightarrow> am_Enabled a \<and> \<not> am_Deleted a \<and> (am_OrganizationID a \<noteq> [] \<longrightarrow> am_OrganizationID a = org) \<and>
      (am_OwnerID a > 0 \<longrightarrow> (\<exists>r st. map_of (iw_memberships w) (org, am_OwnerID a) = Some (r, st) \<and> parseMembershipState st = MemberActive))"
    by (auto simp: agent_admitted_iff GetMembership_Inr)
  have r: "v = Some org" if "res = Some (ResourceRef rt name)" "resource_organization w rt name = Inr (Some v)" for rt name v
    using granted_tenant [OF assms(1) [unfolded that(1)]] that(2) assms(2) by (auto simp: checkResourceTenant_iff effective_org_ctx)
  show ?thesis using o u a r by blast
qed

text \<open>A world with one organization, an owner, a member, a suspended member, a channel with an expired
  guest, a file in it and a group.\<close>

definition iam_sample :: iam_world where
  "iam_sample = \<lparr>iw_fault = (\<lambda>_. False), iw_cel = (\<lambda>_ now. CelBool (now < 10)), iw_uuid = Some,
     iw_user = (\<lambda>_ i. if i = 1 then Some \<lparr>us_ID = 1, us_Handle = ''ann'', us_DefaultOrganizationID = [], us_MemberDeleted = False\<rparr> else None),
     iw_policies = \<lparr>pd_fault = False, pd_enableCache = True,
       pd_rows = [\<lparr>pm_OrganizationID = ''acme'', pm_ResourceType = PolicyWORKSPACE, pm_Resource = [],
           pm_Payload = Some [\<lparr>bd_Role = ''roles/workspaceAdmin'', bd_Members = [''users/mel''], bd_Condition = None\<rparr>], pm_UpdatedAt = 1\<rparr>,
         \<lparr>pm_OrganizationID = ''acme'', pm_ResourceType = PolicyCONVERSATION, pm_Resource = ''conversations/v'',
           pm_Payload = Some [\<lparr>bd_Role = ''roles/conversationOwner'', bd_Members = [''users/ann'', ''users/mel''], bd_Condition = None\<rparr>,
             \<lparr>bd_Role = ''roles/conversationMember'', bd_Members = [''users/gus''], bd_Condition = Some ''soon''\<rparr>], pm_UpdatedAt = 1\<rparr>],
       pd_cache = [], pd_meta = [], pd_owners = []\<rparr>,
     iw_orgs = [(''acme'', ''ACTIVE'')],
     iw_memberships = [((''acme'', 1), (''OWNER'', ''ACTIVE'')), ((''acme'', 2), (''MEMBER'', ''ACTIVE'')),
       ((''acme'', 3), (''MEMBER'', ''SUSPENDED'')), ((''acme'', 4), (''GUEST'', ''ACTIVE''))],
     iw_handles = [(1, ''ann''), (2, ''mel''), (3, ''sue''), (4, ''gus'')],
     iw_group_bindings = [(''acme'', ''g'', None, ''roles/workspaceMember'')],
     iw_groups = [\<lparr>ug_OrganizationID = ''acme'', ug_ID = ''g'', ug_Email = ''g@acme'', ug_Members = [''users/sue'']\<rparr>],
     iw_roles = [], iw_agents = [(''bot'', ''acme'')], iw_machines = [], iw_conversations = [(''v'', (''acme'', 1))],
     iw_files = [(''f'', \<lparr>fi_OrganizationID = ''acme'', fi_ConversationID = Some ''v'', fi_Uploader = 1\<rparr>)],
     iw_reminders = [], iw_commands = [], iw_command_conversations = []\<rparr>"

definition sample_user :: "int \<Rightarrow> string \<Rightarrow> UserMessage" where
  "sample_user i h = \<lparr>us_ID = i, us_Handle = h, us_DefaultOrganizationID = [], us_MemberDeleted = False\<rparr>"

definition sample_bot :: AgentMessage where
  "sample_bot = \<lparr>am_ID = 9, am_ResourceID = ''bot'', am_OrganizationID = ''acme'', am_Deleted = False, am_Enabled = True, am_OwnerID = 1,
     am_FollowOwnerPermissions = True, am_CanManageChannelMembers = False\<rparr>"

definition sample_ctx :: iam_ctx where
  "sample_ctx = \<lparr>cx_org = Some ''acme'', cx_workspace = [], cx_now = 20\<rparr>"

theorem granted_within_tenant_witness:
  "parseOrgState (the (map_of (iw_orgs iam_sample) ''acme'')) = OrgActive \<and>
   map_of (iw_memberships iam_sample) (''acme'', us_ID (sample_user 1 ''ann'')) \<noteq> None"
proof -
  have "effective_org sample_ctx (Some (sample_user 1 ''ann'')) = ''acme''" by code_simp
  moreover have "CheckPermission iam_sample sample_ctx ConversationsSend (Some (sample_user 1 ''ann'')) None
      (Some (ResourceRef PolicyCONVERSATION ''conversations/v'')) = Inr True" by code_simp
  ultimately show ?thesis using granted_within_tenant [where w = iam_sample and org = "''acme''"] by fastforce
qed

text \<open>C37: The list of permissions a client is given is what the check grants: without a resource, a caller
  whom the tenant lets through is granted exactly the permissions of the list, which has no
  duplicates and is sorted.\<close>

theorem effective_permissions_granted:
  assumes "EffectiveWorkspacePermissions w ctx user = Inr perms"
  shows "(CheckPermission w ctx perm user agent None = Inr True \<longleftrightarrow>
      tenant_gate w ctx perm user agent = Inr True \<and> perm \<in> set perms) \<and> sorted perms \<and> distinct perms"
  using assms by (cases user)
    (auto simp: EffectiveWorkspacePermissions_def CheckPermission_def check_unscoped_def check_with_iff workspace_grant_def list_ex_iff split: sum.splits)

theorem effective_permissions_granted_witness:
  "CheckPermission iam_sample sample_ctx ''laelia.files.upload'' (Some (sample_user 1 ''ann'')) None None = Inr True"
proof -
  have e: "EffectiveWorkspacePermissions iam_sample sample_ctx (Some (sample_user 1 ''ann'')) = Inr (sort (remdups memberBaselinePermissions))"
    by code_simp
  have "tenant_gate iam_sample sample_ctx ''laelia.files.upload'' (Some (sample_user 1 ''ann'')) None = Inr True" by code_simp
  moreover have "''laelia.files.upload'' \<in> set (sort (remdups memberBaselinePermissions))" by (simp add: memberBaselinePermissions_def)
  ultimately show ?thesis using effective_permissions_granted [OF e] by blast
qed

text \<open>Without a resource an agent obtains nothing beyond the baseline of members.\<close>

theorem agent_unscoped_baseline:
  assumes "CheckPermission w ctx perm None (Some a) None = Inr True"
  shows "perm \<in> set memberBaselinePermissions"
  using assms by (auto simp: CheckPermission_def check_unscoped_def check_with_iff workspace_grant_def)

theorem agent_unscoped_baseline_witness: "''laelia.agents.get'' \<in> set memberBaselinePermissions"
  by (rule agent_unscoped_baseline [where w = iam_sample and ctx = sample_ctx and a = sample_bot]) code_simp

definition valid_for :: "iam_world \<Rightarrow> iam_ctx \<Rightarrow> string \<Rightarrow> Binding \<Rightarrow> bool" where
  "valid_for w ctx perm b \<longleftrightarrow> validateIAMBinding (iw_cel w) (cx_now ctx) b \<and> perm \<in> set (conversationRolePermissions w ctx (bd_Role b))"

lemma owner_grant_True:
  "owner_grant w ctx perm a policy = Inr True \<Longrightarrow>
     \<exists>u. iw_user w (cx_org ctx) (am_OwnerID a) = Some u \<and> \<not> us_MemberDeleted u \<and>
       (\<exists>b\<in>set policy. valid_for w ctx perm b \<and> bindingContainsCaller w ctx b (FormatUserHandle (us_Handle u)) True (Some u))"
  by (auto simp: owner_grant_def valid_for_def bindings_grant_def list_ex_iff GetCallerIAMPolicyBindings_def callerPrincipalName_def
      split: sum.splits option.splits if_splits)

lemma agent_bindings_grant:
  "bindings_grant (conversationRolePermissions w ctx) perm (GetCallerIAMPolicyBindings w ctx None (Some a) policy) \<longleftrightarrow>
     (\<exists>b\<in>set policy. valid_for w ctx perm b \<and> (''allUsers'' \<in> set (bd_Members b) \<or> FormatAgentUID (am_ResourceID a) \<in> set (bd_Members b)))"
  by (auto simp: bindings_grant_def list_ex_iff GetCallerIAMPolicyBindings_def callerPrincipalName_def bindingContainsCaller_def valid_for_def)

lemma agent_conversation_cases:
  assumes "checkConversationPermission w ctx perm None (Some a) name = Inr True"
  shows "\<exists>t v policy. GetConversationResourceID name = Some t \<and> iw_uuid w t = Some v \<and>
    iam_policy w ctx PolicyCONVERSATION (Some (FormatConversationName v)) = Inr policy \<and>
    (bindings_grant (conversationRolePermissions w ctx) perm (GetCallerIAMPolicyBindings w ctx None (Some a) policy) \<or>
     (perm = ConversationsRead \<and> am_FollowOwnerPermissions a \<or> perm = ConversationsManageMembers \<and> am_CanManageChannelMembers a) \<and>
     owner_grant w ctx perm a policy = Inr True)"
proof -
  obtain t v policy where *: "GetConversationResourceID name = Some t" "iw_uuid w t = Some v"
      "iam_policy w ctx PolicyCONVERSATION (Some (FormatConversationName v)) = Inr policy"
    using assms by (auto simp: checkConversationPermission_def split: option.splits sum.splits)
  have "bindings_grant (conversationRolePermissions w ctx) perm (GetCallerIAMPolicyBindings w ctx None (Some a) policy) \<or>
     (perm = ConversationsRead \<and> am_FollowOwnerPermissions a \<or> perm = ConversationsManageMembers \<and> am_CanManageChannelMembers a) \<and>
     owner_grant w ctx perm a policy = Inr True"
    using assms by (auto simp: checkConversationPermission_def * review_override_def split: if_splits sum.splits bool.splits)
  with * show ?thesis by blast
qed

text \<open>C36: In a conversation an agent obtains more than the baseline only through a binding in the policy of
  that very conversation, the one whose id the checked name carries, and only through one that
  is valid at the time of the check: one that names the agent or everybody, or, for reading when it follows its
  owner and for managing members when it may, one that holds for its owner.\<close>

theorem agent_conversation_grant:
  assumes "CheckPermission w ctx perm None (Some a) (Some (ResourceRef PolicyCONVERSATION name)) = Inr True"
    and "perm \<notin> set memberBaselinePermissions"
  shows "\<exists>t v policy. GetConversationResourceID name = Some t \<and> iw_uuid w t = Some v \<and>
    iam_policy w ctx PolicyCONVERSATION (Some (FormatConversationName v)) = Inr policy \<and>
    (\<exists>b\<in>set policy. validateIAMBinding (iw_cel w) (cx_now ctx) b \<and> perm \<in> set (conversationRolePermissions w ctx (bd_Role b)) \<and>
       (''allUsers'' \<in> set (bd_Members b) \<or> FormatAgentUID (am_ResourceID a) \<in> set (bd_Members b) \<or>
        (perm = ConversationsRead \<and> am_FollowOwnerPermissions a \<or> perm = ConversationsManageMembers \<and> am_CanManageChannelMembers a) \<and>
        (\<exists>u. iw_user w (cx_org ctx) (am_OwnerID a) = Some u \<and> \<not> us_MemberDeleted u \<and>
           bindingContainsCaller w ctx b (FormatUserHandle (us_Handle u)) True (Some u))))"
proof -
  have "checkConversationPermission w ctx perm None (Some a) name = Inr True"
    using assms by (auto simp: CheckPermission_def check_with_iff workspace_grant_def checkResourcePermission_def)
  from agent_conversation_cases [OF this] obtain t v policy where
      p: "GetConversationResourceID name = Some t" "iw_uuid w t = Some v"
        "iam_policy w ctx PolicyCONVERSATION (Some (FormatConversationName v)) = Inr policy" and
      "bindings_grant (conversationRolePermissions w ctx) perm (GetCallerIAMPolicyBindings w ctx None (Some a) policy) \<or>
       (perm = ConversationsRead \<and> am_FollowOwnerPermissions a \<or> perm = ConversationsManageMembers \<and> am_CanManageChannelMembers a) \<and>
       owner_grant w ctx perm a policy = Inr True"
    by blast
  from this(4) show ?thesis
  proof
    assume "bindings_grant (conversationRolePermissions w ctx) perm (GetCallerIAMPolicyBindings w ctx None (Some a) policy)"
    with p show ?thesis unfolding agent_bindings_grant valid_for_def by blast
  next
    assume o: "(perm = ConversationsRead \<and> am_FollowOwnerPermissions a \<or> perm = ConversationsManageMembers \<and> am_CanManageChannelMembers a) \<and>
       owner_grant w ctx perm a policy = Inr True"
    from owner_grant_True [OF conjunct2 [OF o]] p conjunct1 [OF o] show ?thesis unfolding valid_for_def by blast
  qed
qed

theorem agent_conversation_grant_witness:
  "\<exists>t v policy. GetConversationResourceID ''conversations/v'' = Some t \<and> iw_uuid iam_sample t = Some v \<and>
     iam_policy iam_sample sample_ctx PolicyCONVERSATION (Some (FormatConversationName v)) = Inr policy \<and> policy \<noteq> []"
proof -
  have g: "CheckPermission iam_sample sample_ctx ConversationsRead None (Some sample_bot) (Some (ResourceRef PolicyCONVERSATION ''conversations/v'')) = Inr True"
    by code_simp
  have n: "ConversationsRead \<notin> set memberBaselinePermissions" by code_simp
  show ?thesis using agent_conversation_grant [OF g n] by force
qed

text \<open>C39: What a member can do ends at the baseline: an active \<open>MEMBER\<close> of the organization who is in no group with
  the permission is refused every other permission, whatever the policy of the workspace and of
  the resource bind him to.\<close>

theorem member_denied_beyond_baseline:
  assumes "map_of (iw_memberships w) (effective_org ctx (Some u), us_ID u) = Some (r, st)" and "parseOrgRole r = RoleMember"
    and "perm \<notin> set memberBaselinePermissions"
    and "\<forall>handle. map_of (iw_handles w) (us_ID u) = Some handle \<longrightarrow>
      (\<forall>role\<in>set (group_roles w (effective_org ctx (Some u)) (cx_workspace ctx) handle). perm \<notin> set (rolePermissions w ctx role))"
  shows "CheckPermission w ctx perm (Some u) agent res \<noteq> Inr True"
proof
  assume "CheckPermission w ctx perm (Some u) agent res = Inr True"
  from granted_gate [OF this] have "CheckTenantPermission w ctx (effective_org ctx (Some u)) perm (us_ID u) = Inr True"
    by (simp add: tenant_gate_iff)
  then show False using assms by (auto simp: tenant_permission_cases GetMembership_Inr EvaluateMembershipPermission_def split: if_splits)
qed

theorem member_denied_beyond_baseline_witness:
  "workspace_grant iam_sample sample_ctx ConversationsSend (Some (sample_user 2 ''mel'')) = Inr True \<and>
   checkConversationPermission iam_sample sample_ctx ConversationsSend (Some (sample_user 2 ''mel'')) None ''conversations/v'' = Inr True \<and>
   CheckPermission iam_sample sample_ctx ConversationsSend (Some (sample_user 2 ''mel'')) None
     (Some (ResourceRef PolicyCONVERSATION ''conversations/v'')) \<noteq> Inr True"
proof (intro conjI)
  show "workspace_grant iam_sample sample_ctx ConversationsSend (Some (sample_user 2 ''mel'')) = Inr True" by code_simp
  show "checkConversationPermission iam_sample sample_ctx ConversationsSend (Some (sample_user 2 ''mel'')) None ''conversations/v'' = Inr True"
    by code_simp
  have m: "map_of (iw_memberships iam_sample) (effective_org sample_ctx (Some (sample_user 2 ''mel'')), us_ID (sample_user 2 ''mel''))
      = Some (''MEMBER'', ''ACTIVE'')" by code_simp
  have r: "parseOrgRole ''MEMBER'' = RoleMember" by code_simp
  have n: "ConversationsSend \<notin> set memberBaselinePermissions" by code_simp
  have h: "map_of (iw_handles iam_sample) (us_ID (sample_user 2 ''mel'')) = Some ''mel''" by code_simp
  have g: "group_roles iam_sample (effective_org sample_ctx (Some (sample_user 2 ''mel''))) (cx_workspace sample_ctx) ''mel'' = []" by code_simp
  show "CheckPermission iam_sample sample_ctx ConversationsSend (Some (sample_user 2 ''mel'')) None
     (Some (ResourceRef PolicyCONVERSATION ''conversations/v'')) \<noteq> Inr True"
    by (rule member_denied_beyond_baseline [OF m r n]) (simp add: h g)
qed

text \<open>C40: What a suspended member keeps: for a member whose membership is not active, \<open>CheckPermission\<close> without
  a resource still answers yes, and does so exactly when a role bound to one of his groups has
  the permission and the permission is in the baseline of members or the policy of the
  workspace grants it to him as well. (In an active organization, when no query fails.)\<close>

theorem suspended_member_keeps_group_grants:
  assumes "map_of (iw_orgs w) org = Some ost" and "parseOrgState ost = OrgActive" and "cx_org ctx = Some org" and "org \<noteq> []"
    and "map_of (iw_memberships w) (org, us_ID u) = Some (r, st)" and "parseMembershipState st \<noteq> MemberActive" and "us_ID u \<noteq> 0"
    and "map_of (iw_handles w) (us_ID u) = Some handle" and "\<forall>q. \<not> iw_fault w q"
  shows "CheckPermission w ctx perm (Some u) None None = Inr True \<longleftrightarrow>
    (\<exists>role\<in>set (group_roles w org (cx_workspace ctx) handle). perm \<in> set (rolePermissions w ctx role)) \<and>
    (perm \<in> set memberBaselinePermissions \<or> workspace_grant w ctx perm (Some u) = Inr True)"
proof -
  have "CheckTenantPermission w ctx org perm (us_ID u) = Inr True \<longleftrightarrow>
      (\<exists>role\<in>set (group_roles w org (cx_workspace ctx) handle). perm \<in> set (rolePermissions w ctx role))"
    unfolding tenant_permission_cases using assms by (auto simp: GetMembership_Inr EvaluateMembershipPermission_def)
  moreover have "CheckOrganizationActive w org = Inr True" using assms(1,2,4,9) by (simp add: organization_active)
  ultimately show ?thesis using assms(3,4)
    by (simp add: CheckPermission_def check_unscoped_def granted_iff effective_org_ctx)
qed

theorem suspended_member_keeps_group_grants_witness:
  "CheckPermission iam_sample sample_ctx ''laelia.files.upload'' (Some (sample_user 3 ''sue'')) None None = Inr True"
proof -
  have f: "\<forall>q. \<not> iw_fault iam_sample q" by (simp add: iam_sample_def)
  have "map_of (iw_orgs iam_sample) ''acme'' = Some ''ACTIVE''" "parseOrgState ''ACTIVE'' = OrgActive"
      "cx_org sample_ctx = Some ''acme''" "''acme'' \<noteq> []"
      "map_of (iw_memberships iam_sample) (''acme'', us_ID (sample_user 3 ''sue'')) = Some (''MEMBER'', ''SUSPENDED'')"
      "parseMembershipState ''SUSPENDED'' \<noteq> MemberActive" "us_ID (sample_user 3 ''sue'') \<noteq> 0"
      "map_of (iw_handles iam_sample) (us_ID (sample_user 3 ''sue'')) = Some ''sue''"
    by code_simp+
  note keeps = suspended_member_keeps_group_grants [OF this f]
  have "list_ex (\<lambda>role. ''laelia.files.upload'' \<in> set (rolePermissions iam_sample sample_ctx role))
      (group_roles iam_sample ''acme'' (cx_workspace sample_ctx) ''sue'')" by code_simp
  moreover have "''laelia.files.upload'' \<in> set memberBaselinePermissions" by code_simp
  ultimately show ?thesis unfolding keeps by (auto simp: list_ex_iff)
qed

text \<open>A member whose binding has expired can still read the files of a conversation: the check of
  files looks for the member in the policy and not at the condition of the binding.\<close>

theorem expired_member_reads_files:
  "checkFilePermission iam_sample sample_ctx (Some (sample_user 4 ''gus'')) None ''files/f'' = Inr True \<and>
   checkConversationPermission iam_sample sample_ctx ConversationsRead (Some (sample_user 4 ''gus'')) None ''conversations/v'' = Inr False"
  by code_simp

end
