(* ===== verification/Spec2Isabelle.thy ===== *)
theory Spec2Isabelle
  imports Cancel_Tree Delegation Fan_Out Event_Stream Recovery Hub_Registry Hub_Group Outbox_Worker
    Assignment_Controller Approval_Checker Heartbeat_Nonce Dispatcher_Sessions Iam_Manager
begin

text \<open>
  A verification library for the Go back end of 888a2a, a manager that runs tasks for software
  agents: it keeps tasks as rows of a work table, delegates and cancels trees of them, streams
  their events, delivers messages between registered agents, hands events to external
  consumers through an outbox, keeps the streams of connected agents and machines, decides by
  policies who may use which resource, and by a runtime policy and the approvals of an
  organization what an agent may do on its machine.

  \<^bold>\<open>Parts and theories.\<close> Every theory models the files it names under \<open>src/backend\<close>; the names of
  types and functions are those of the source.

  \<^item> \<open>Prelude\<close>: integers of a width, instants, strings, association lists, and the locale
    \<open>component\<close> of a step function with an invariant, which every history below interprets.
  \<^item> \<open>Breadth_First\<close>: the queue-and-seen-set loop that two components share, over any successor
    function.
  \<^item> \<open>Work_Store\<close> (\<open>manager/store/a2a_work.go\<close>): the tables of works, contexts, events and
    artifacts as lists of rows; the constraints of the schema are guards of the writes; every
    statement may fail, by a fault function of the database.
  \<^item> \<open>Budget\<close> (\<open>a2a/budget.go\<close>), \<open>Task_Graph\<close> (\<open>a2a/orchestration/graph.go\<close>), \<open>Trace\<close>
    (\<open>a2a/trace.go\<close>): the limits, the cycle checks and the trace events a delegation uses.
  \<^item> \<open>Orchestrator\<close> (\<open>a2a/orchestration/orchestrator.go\<close>): delegation with its checks and
    writes, as one call. \<open>Delegation\<close>: the same as a machine that makes one call of the store per
    step, among other delegations and other clients; uninterrupted it is the call. \<open>Fan_Out\<close>
    (\<open>fanout.go\<close>) and \<open>Cancel_Tree\<close> (\<open>cancel.go\<close>): the goroutines of a fan-out, which run that
    machine, and of a cancellation, each with a program counter.
  \<^item> \<open>Event_Stream\<close> (\<open>a2a/events.go\<close>): channels, publishing, and the subscription that replays
    and then follows. \<open>Task_Store\<close> with \<open>Page_Token\<close> (\<open>a2a/store.go\<close>): the task store of the
    SDK over the work tables and the event manager. \<open>Recovery\<close> (\<open>a2a/recovery.go\<close>): the pass
    over pending work after a restart.
  \<^item> \<open>Hub_Contract\<close>, \<open>Hub_Registry\<close>, \<open>Hub_Mailbox\<close>, \<open>Hub_Group\<close> (\<open>a2a/hub_*.go\<close>): policies,
    registration and credentials, mailboxes and groups of agents.
  \<^item> \<open>Tenant_Queue\<close> (\<open>manager/component/tenantqueue/limiter.go\<close>), \<open>Outbox\<close>
    (\<open>manager/store/outbox.go\<close>), \<open>Outbox_Worker\<close> (\<open>manager/store/outbox_worker.go\<close>): admission
    per organization and delivery to external consumers.
  \<^item> \<open>Assignment_Reducer\<close> (\<open>agent/assignment/reducer.go\<close>), \<open>Assignment_Log\<close>
    (\<open>manager/store/machine_assignment.go\<close>), \<open>Assignment_Controller\<close>
    (\<open>agent/client/assignment_controller.go\<close>, \<open>manager/server/machine_assignment_outbox.go\<close>): which
    agents run on which machine, from the log of the manager to the runners of the machine.
  \<^item> \<open>Workspace_Path\<close>: \<open>path/filepath\<close>, the kernel's resolution of paths and a tree of files with
    symbolic links. \<open>Workspace_Gate\<close> (\<open>agent/executor/acp_executor.go\<close>,
    \<open>agent/daemon/handlers_file.go\<close>): the two gates before file operations. \<open>Runtime_Policy\<close>
    (\<open>a2a/policy.go\<close>): permission by kind of action, confinement to the roots, answers to the
    agent.
  \<^item> \<open>Approval_State\<close>, \<open>Approval_Store\<close>, \<open>Approval_Checker\<close> (\<open>manager/store/approval*.go\<close>,
    \<open>manager/component/approval/checker.go\<close>): eligible approvers, the lifecycle of a request, its
    tables with overlapping calls, and the checker the policy asks.
  \<^item> \<open>Heartbeat_Nonce\<close> (\<open>manager/component/state/nonce.go\<close>, \<open>manager/store/nonce_replay.go\<close>): the
    one-time nonces of heartbeats and the gate of \<open>AgentHeartbeat\<close>.
  \<^item> \<open>Command_Bus\<close> (\<open>command_bus.go\<close>, \<open>pending_replies.go\<close>), \<open>Command_Table\<close>
    (\<open>manager/store/command.go\<close>, \<open>conversation_execution_event.go\<close>), \<open>Dispatcher\<close> (the other files of
    \<open>manager/component/dispatcher\<close>): sessions of agents and machines, grace timers, pings, messages
    of agents, watchers. \<open>Session_Table\<close> has the lemmas on a registry that agents and machines
    share, \<open>Dispatcher_Sessions\<close> the invariant and the properties.
  \<^item> \<open>Iam_Policy\<close> (\<open>manager/store/policy.go\<close>, \<open>conversation_policy.go\<close>, \<open>conversation_member.go\<close>,
    \<open>common/resource_name.go\<close>): the table of policies with its cache, patches, and the members of
    conversations. \<open>Iam_Manager\<close> (\<open>manager/component/iam\<close>, \<open>manager/utils/member.go\<close>,
    \<open>manager/store/predefined_roles.go\<close>): the check of a permission, from the tenant over the
    workspace policy to the resource.

  \<^bold>\<open>State, errors and interleaving.\<close> A Go value with a mutex is a record, and a method that holds
  the mutex is one function on it. A method that returns an error returns a sum, the error on the
  left, together with the state it leaves. Where the source gives up a lock or calls a database
  twice, the model has two functions, or takes the writes of other clients as an argument placed
  between them. Goroutines are machines with a program counter that a schedule, an arbitrary list
  of turns, moves. A message that the dispatcher sends looks its session up in one state and is sent
  in a later one. Clocks, fresh identifiers, random bytes, hash functions, the events of the SDK
  and the executors of tasks are arguments.

  \<^bold>\<open>Interfaces.\<close> \<open>component\<close> is interpreted by every component with a history. \<open>hub_mailbox\<close>, and
  \<open>reliable_hub_mailbox\<close> over it, is the interface \<open>HubMailbox\<close> of the code: the memory mailbox
  interprets it, and the group store is proved against its laws. \<open>outbox_repository\<close>, and
  \<open>outbox_repository_up\<close> over it, is the interface \<open>OutboxRepository\<close>: the table interprets it, and
  the worker is proved against its laws. \<open>path_gate\<close>, and \<open>stable_path_gate\<close> over it, is what a
  file operation may rely on after its path was checked: the gate of the ACP executor and the jail
  of the daemon interpret it, and confinement and reading back are proved there once.

  \<^bold>\<open>What the properties show.\<close> Store: invariants of the tables in every history, optimistic
  locking, descendants, page tokens, reading back. Orchestration: where the rows of overlapping
  delegations stand, the full discipline and the limits of delegations that run one after the
  other, cancellation under every interleaving, fan-out with its thresholds under every schedule,
  and that both return; the exact conditions of both cycle checks. Events: the exact content of a
  live stream, with what it misses, its order, and the separation of tenants. Hub: limits of the
  registry, credentials across revocation, expiry and restart, exactly-once inboxes, deliveries of
  group messages. Outbox: batches are settled, delivered events are final, the queue serves in order
  per organization. Assignments: the log is numbered without gaps, the reducer is the replay of its
  log, a machine that reconnects converges to the log, or stops exactly before an event that does not
  fit. Agents on their machine: no write and no permitted path leaves the roots, whatever the
  links. Approvals: an action that needs approval is permitted only by an approved request for
  exactly this action; a request that was created pending has its quorum of approver ids under
  every overlap, and its quorum of persons when transitions do not overlap; every step of a request
  is one the contract allows. Dispatcher: exactly the registered sessions and those being torn down
  can send, and when exactly a message is refused; a sweep drops exactly the idle ones, a watcher
  gets exactly what was broadcast while its channel had room, a reply reaches its call, output is
  read back in order; a nonce is accepted once. Access control: when calls do not overlap a policy
  is read as the table has it, members of a conversation that was not deleted are listed exactly
  when they are bound, nothing is granted outside the tenant, and an agent obtains in a conversation
  only what the policy of this conversation gives to it or, where it may, to its owner.

  \<^bold>\<open>What does not hold.\<close> Closed theorems evaluate histories the code does not handle; the manifest
  lists them as findings. Among them: overlapping delegations spend more than the parent has
  (\<open>overlapping_delegations_overspend\<close>); one person under two spellings counts as two
  (\<open>spellings_count_twice\<close>); an event that does not fit the roster blocks its machine
  (\<open>misfit_event_blocks_machine\<close>); a grace timer overwrites a result
  (\<open>completed_command_marked_failed\<close>); overlapping calls leave an old policy in the cache
  (\<open>stale_policy_stays_cached\<close>); a deleted channel leaves its policy
  (\<open>deleted_channel_keeps_policy\<close>); a member listed twice keeps a role that was taken away
  (\<open>duplicate_member_keeps_role\<close>); a node that is moved hides a cycle
  (\<open>moved_node_hides_cycle\<close>). Where a property needs a condition that the code does not ensure,
  its text names it.

  \<^bold>\<open>Bounds and fuel.\<close> Loops that end by the size of their data are functions with a measure or a
  structural recursion. The drain of the queue has as fuel one more than the number of waiting
  items, which \<open>q_drain_all\<close> shows to be enough; walking pages has one more than the number of
  matching rows; the walk up the ancestors stops at 100, as in the source. A schedule that is too
  short gives \<open>None\<close>, and the properties on termination say which schedules are long enough. The
  resolution of a path follows at most 40 links in the kernel and 255 in \<open>EvalSymlinks\<close>, as they do.
  The wait for a decision ends with the list of what happens at its polls.

  \<^bold>\<open>Not modelled.\<close> Generated protocol code; HTTP and gRPC handlers beyond the gates named above;
  processes, sockets and the command line; the front end; connectors to third-party messengers;
  the tables of users, conversations and machines. Of the database, isolation is that of single
  statements and of the transactions the code opens; text encodings and the rounding of timestamps
  matter only where a theory says so; the recording of a trace event, a query and an insert, is one
  step. Of the file system, permissions. Arguments of the model:
  sha256 and keyed hashes, canonical JSON and marshalling, the parser of UUIDs, the evaluator of the
  conditions of bindings, the lookup of a user by id, what the stream of an agent does with a
  message that was handed to it. The caches of roles and users are not modelled.
\<close>

end
